(* ===== verification/Pj_Prelude.thy ===== *)
theory Pj_Prelude
  imports Main "HOL-Library.Word" "HOL-Library.Multiset"
begin

text \<open>
  Shared vocabulary of the development: the C integer types of the sources, C division,
  byte order, status codes, raw byte buffers, and the generic list and word lemmas that the
  component theories use.

  Conventions. A C unsigned integer of width w is a \<open>w word\<close> where it is packed into a
  packet or wraps by design (RTP fields, sequence numbers). A C \<open>int\<close> or \<open>long\<close> is a HOL
  \<open>int\<close>: signed overflow has no defined result in C, so theorems that need it bound the
  inputs. An \<open>unsigned\<close> or \<open>size_t\<close> count is a \<open>nat\<close>; where the code mixes signed
  and unsigned operands the conversion is written out with \<open>u32_of_int\<close>.
\<close>

unbundle bit_operations_syntax

type_synonym u8 = "8 word"
type_synonym u16 = "16 word"
type_synonym u32 = "32 word"
type_synonym u64 = "64 word"

named_theorems buf_simps \<open>reads after writes of a byte buffer\<close>

section \<open>C integers\<close>

definition u32_of_int :: "int \<Rightarrow> nat" where
  "u32_of_int i = nat (i mod 2 ^ 32)"

lemma u32_of_int_id [simp]: "0 \<le> i \<Longrightarrow> i < 2 ^ 32 \<Longrightarrow> u32_of_int i = nat i"
  by (simp add: u32_of_int_def)

lemma u32_of_int_lt: "u32_of_int i < 2 ^ 32"
proof -
  have "i mod 2 ^ 32 < 2 ^ 32" by simp
  then show ?thesis unfolding u32_of_int_def by (simp add: nat_less_iff)
qed

text \<open>C's \<open>/\<close> and \<open>%\<close> truncate towards zero.\<close>

definition c_div :: "int \<Rightarrow> int \<Rightarrow> int" where
  "c_div a b = sgn a * sgn b * (\<bar>a\<bar> div \<bar>b\<bar>)"

definition c_mod :: "int \<Rightarrow> int \<Rightarrow> int" where
  "c_mod a b = a - c_div a b * b"

lemma c_div_nonneg: "0 \<le> a \<Longrightarrow> 0 < b \<Longrightarrow> c_div a b = a div b"
  by (cases "a = 0") (simp_all add: c_div_def sgn_if)

lemma c_mod_nonneg: "0 \<le> a \<Longrightarrow> 0 < b \<Longrightarrow> c_mod a b = a mod b"
  by (simp add: c_mod_def c_div_nonneg minus_div_mult_eq_mod)

section \<open>Bytes of words, and the byte order of a little-endian host\<close>

definition byte16 :: "nat \<Rightarrow> u16 \<Rightarrow> u8" where
  "byte16 k w = ucast (drop_bit (8 * k) w)"

definition byte32 :: "nat \<Rightarrow> u32 \<Rightarrow> u8" where
  "byte32 k w = ucast (drop_bit (8 * k) w)"

definition load16 :: "u8 \<Rightarrow> u8 \<Rightarrow> u16" where
  "load16 b0 b1 = ucast b0 OR push_bit 8 (ucast b1)"

definition load32 :: "u8 \<Rightarrow> u8 \<Rightarrow> u8 \<Rightarrow> u8 \<Rightarrow> u32" where
  "load32 b0 b1 b2 b3 = ucast b0 OR push_bit 8 (ucast b1)
     OR push_bit 16 (ucast b2) OR push_bit 24 (ucast b3)"

definition store16 :: "u16 \<Rightarrow> u8 list" where
  "store16 w = [byte16 0 w, byte16 1 w]"

definition store32 :: "u32 \<Rightarrow> u8 list" where
  "store32 w = [byte32 0 w, byte32 1 w, byte32 2 w, byte32 3 w]"

lemma load16_bytes [buf_simps]: "load16 (byte16 0 w) (byte16 1 w) = w"
  unfolding load16_def byte16_def by (rule bit_word_eqI) (auto simp: bit_simps)

lemma load32_bytes [buf_simps]:
  "load32 (byte32 0 w) (byte32 1 w) (byte32 2 w) (byte32 3 w) = w"
  unfolding load32_def byte32_def
  apply (rule bit_word_eqI)
  apply (auto simp: bit_simps)
  subgoal for n by (cases "24 \<le> n") (simp, arith)
  done

lemma byte16_load16 [buf_simps]: "byte16 0 (load16 a b) = a" "byte16 1 (load16 a b) = b"
  unfolding load16_def byte16_def
  by ((rule bit_word_eqI, auto simp: bit_simps dest: bit_imp_le_length)[])+

lemma byte32_load32 [buf_simps]:
  "byte32 0 (load32 a b c d) = a" "byte32 1 (load32 a b c d) = b"
  "byte32 2 (load32 a b c d) = c" "byte32 3 (load32 a b c d) = d"
  unfolding load32_def byte32_def
  by ((rule bit_word_eqI, auto simp: bit_simps dest: bit_imp_le_length)[])+

lemmas byte_one_simps [buf_simps] =
  load16_bytes [unfolded One_nat_def] load32_bytes [unfolded One_nat_def]
  byte16_load16 [unfolded One_nat_def] byte32_load32 [unfolded One_nat_def]

definition bswap16 :: "u16 \<Rightarrow> u16" where
  "bswap16 w = load16 (byte16 1 w) (byte16 0 w)"

definition bswap32 :: "u32 \<Rightarrow> u32" where
  "bswap32 w = load32 (byte32 3 w) (byte32 2 w) (byte32 1 w) (byte32 0 w)"

abbreviation pj_htons :: "u16 \<Rightarrow> u16" where "pj_htons \<equiv> bswap16"
abbreviation pj_ntohs :: "u16 \<Rightarrow> u16" where "pj_ntohs \<equiv> bswap16"
abbreviation pj_htonl :: "u32 \<Rightarrow> u32" where "pj_htonl \<equiv> bswap32"
abbreviation pj_ntohl :: "u32 \<Rightarrow> u32" where "pj_ntohl \<equiv> bswap32"

lemma bswap16_bswap16 [simp]: "bswap16 (bswap16 w) = w"
  unfolding bswap16_def buf_simps by (rule refl)

lemma bswap32_bswap32 [simp]: "bswap32 (bswap32 w) = w"
  unfolding bswap32_def buf_simps by (rule refl)

lemma length_store [simp]: "length (store16 w) = 2" "length (store32 v) = 4"
  by (simp_all add: store16_def store32_def)

lemma ucast_u32_u16_id [simp]: "(ucast (ucast (w :: u16) :: u32) :: u16) = w"
  by (rule bit_word_eqI) (simp add: bit_simps)

section \<open>Flat byte buffers\<close>

text \<open>\<open>memcpy_at buf off bs\<close> overwrites \<open>length bs\<close> bytes of \<open>buf\<close> from offset \<open>off\<close>.\<close>

definition memcpy_at :: "u8 list \<Rightarrow> nat \<Rightarrow> u8 list \<Rightarrow> u8 list" where
  "memcpy_at buf off bs = take off buf @ bs @ drop (off + length bs) buf"

lemma length_memcpy_at [buf_simps]:
  "off + length bs \<le> length buf \<Longrightarrow> length (memcpy_at buf off bs) = length buf"
  by (simp add: memcpy_at_def)

lemma read_memcpy_at_same [buf_simps]:
  "off + length bs \<le> length buf \<Longrightarrow> take (length bs) (drop off (memcpy_at buf off bs)) = bs"
  by (simp add: memcpy_at_def)

lemma read_memcpy_at_before [buf_simps]:
  "o' + n \<le> off \<Longrightarrow> off \<le> length buf \<Longrightarrow>
   take n (drop o' (memcpy_at buf off bs)) = take n (drop o' buf)"
  by (simp add: memcpy_at_def drop_append take_append drop_take)

lemma read_memcpy_at_after [buf_simps]:
  "off + length bs \<le> o' \<Longrightarrow> off + length bs \<le> length buf \<Longrightarrow>
   take n (drop o' (memcpy_at buf off bs)) = take n (drop o' buf)"
  by (simp add: memcpy_at_def drop_append)

section \<open>Lists\<close>

lemma count_list_update_nth:
  "i < length xs \<Longrightarrow>
   count_list (xs[i := y]) z + (if xs ! i = z then 1 else 0)
     = count_list xs z + (if y = z then 1 else 0)"
proof (induction xs arbitrary: i)
  case Nil
  then show ?case by simp
next
  case (Cons x xs)
  show ?case
  proof (cases i)
    case 0
    then show ?thesis by auto
  next
    case (Suc j)
    with Cons.prems Cons.IH [of j] show ?thesis by auto
  qed
qed

section \<open>Status codes\<close>

datatype pj_status =
    PJ_SUCCESS | PJ_EINVAL | PJ_ENOTFOUND | PJ_ENOMEM | PJ_EBUG | PJ_ETIMEDOUT | PJ_ETOOMANY
  | PJSIP_EMISSINGHDR | PJSIP_EINVALIDHDR
  | PJ_EBUSY | PJ_ENOTSUP | PJ_EINVALIDOP | PJ_ECANCELLED | PJ_EEXISTS | PJ_ETOOBIG
  | PJ_ETOOSMALL | PJ_EPENDING | PJ_EUNKNOWN | PJ_EIGNORED | PJ_ERESOLVE | PJ_STATUS_NEG1
  | PJLIB_UTIL_EDNS_NXDOMAIN | PJSIP_ENOTREQUESTMSG | PJSIP_ENOTRESPONSEMSG | PJSIP_EINVALIDMETHOD
  | PJMEDIA_ERR nat | PJNATH_ERR nat
  | PJ_OSERR nat

text \<open>The codes of the media library, by their distance from \<open>PJMEDIA_ERRNO_START\<close>.\<close>

abbreviation PJMEDIA_SDP_EINSDP :: pj_status where "PJMEDIA_SDP_EINSDP \<equiv> PJMEDIA_ERR 20"
abbreviation PJMEDIA_SDP_EINVER :: pj_status where "PJMEDIA_SDP_EINVER \<equiv> PJMEDIA_ERR 21"
abbreviation PJMEDIA_SDP_EINORIGIN :: pj_status where "PJMEDIA_SDP_EINORIGIN \<equiv> PJMEDIA_ERR 22"
abbreviation PJMEDIA_SDP_EINTIME :: pj_status where "PJMEDIA_SDP_EINTIME \<equiv> PJMEDIA_ERR 23"
abbreviation PJMEDIA_SDP_EINNAME :: pj_status where "PJMEDIA_SDP_EINNAME \<equiv> PJMEDIA_ERR 24"
abbreviation PJMEDIA_SDP_EINCONN :: pj_status where "PJMEDIA_SDP_EINCONN \<equiv> PJMEDIA_ERR 25"
abbreviation PJMEDIA_SDP_EMISSINGCONN :: pj_status where "PJMEDIA_SDP_EMISSINGCONN \<equiv> PJMEDIA_ERR 26"
abbreviation PJMEDIA_SDP_EINATTR :: pj_status where "PJMEDIA_SDP_EINATTR \<equiv> PJMEDIA_ERR 27"
abbreviation PJMEDIA_SDP_EINRTPMAP :: pj_status where "PJMEDIA_SDP_EINRTPMAP \<equiv> PJMEDIA_ERR 28"
abbreviation PJMEDIA_SDP_ERTPMAPTOOLONG :: pj_status where "PJMEDIA_SDP_ERTPMAPTOOLONG \<equiv> PJMEDIA_ERR 29"
abbreviation PJMEDIA_SDP_EMISSINGRTPMAP :: pj_status where "PJMEDIA_SDP_EMISSINGRTPMAP \<equiv> PJMEDIA_ERR 30"
abbreviation PJMEDIA_SDP_EINMEDIA :: pj_status where "PJMEDIA_SDP_EINMEDIA \<equiv> PJMEDIA_ERR 31"
abbreviation PJMEDIA_SDP_ENOFMT :: pj_status where "PJMEDIA_SDP_ENOFMT \<equiv> PJMEDIA_ERR 32"
abbreviation PJMEDIA_SDP_EINPT :: pj_status where "PJMEDIA_SDP_EINPT \<equiv> PJMEDIA_ERR 33"
abbreviation PJMEDIA_SDP_EINFMTP :: pj_status where "PJMEDIA_SDP_EINFMTP \<equiv> PJMEDIA_ERR 34"
abbreviation PJMEDIA_SDP_EINRTCP :: pj_status where "PJMEDIA_SDP_EINRTCP \<equiv> PJMEDIA_ERR 35"
abbreviation PJMEDIA_SDP_EINBANDW :: pj_status where "PJMEDIA_SDP_EINBANDW \<equiv> PJMEDIA_ERR 37"
abbreviation PJMEDIA_SDP_EINSSRC :: pj_status where "PJMEDIA_SDP_EINSSRC \<equiv> PJMEDIA_ERR 38"
abbreviation PJMEDIA_SDPNEG_EINSTATE :: pj_status where "PJMEDIA_SDPNEG_EINSTATE \<equiv> PJMEDIA_ERR 40"
abbreviation PJMEDIA_SDPNEG_ENOINITIAL :: pj_status where "PJMEDIA_SDPNEG_ENOINITIAL \<equiv> PJMEDIA_ERR 41"
abbreviation PJMEDIA_SDPNEG_ENOACTIVE :: pj_status where "PJMEDIA_SDPNEG_ENOACTIVE \<equiv> PJMEDIA_ERR 42"
abbreviation PJMEDIA_SDPNEG_ENONEG :: pj_status where "PJMEDIA_SDPNEG_ENONEG \<equiv> PJMEDIA_ERR 43"
abbreviation PJMEDIA_SDPNEG_EINVANSMEDIA :: pj_status where "PJMEDIA_SDPNEG_EINVANSMEDIA \<equiv> PJMEDIA_ERR 45"
abbreviation PJMEDIA_SDPNEG_EINVANSTP :: pj_status where "PJMEDIA_SDPNEG_EINVANSTP \<equiv> PJMEDIA_ERR 46"
abbreviation PJMEDIA_SDPNEG_EANSNOMEDIA :: pj_status where "PJMEDIA_SDPNEG_EANSNOMEDIA \<equiv> PJMEDIA_ERR 47"
abbreviation PJMEDIA_SDPNEG_ENOMEDIA :: pj_status where "PJMEDIA_SDPNEG_ENOMEDIA \<equiv> PJMEDIA_ERR 48"
abbreviation PJMEDIA_SDPNEG_NOANSCODEC :: pj_status where "PJMEDIA_SDPNEG_NOANSCODEC \<equiv> PJMEDIA_ERR 49"
abbreviation PJMEDIA_SDPNEG_NOANSUNKNOWN :: pj_status where "PJMEDIA_SDPNEG_NOANSUNKNOWN \<equiv> PJMEDIA_ERR 51"
abbreviation PJMEDIA_SDP_EMEDIANOTEQUAL :: pj_status where "PJMEDIA_SDP_EMEDIANOTEQUAL \<equiv> PJMEDIA_ERR 60"
abbreviation PJMEDIA_SDP_EPORTNOTEQUAL :: pj_status where "PJMEDIA_SDP_EPORTNOTEQUAL \<equiv> PJMEDIA_ERR 61"
abbreviation PJMEDIA_SDP_ETPORTNOTEQUAL :: pj_status where "PJMEDIA_SDP_ETPORTNOTEQUAL \<equiv> PJMEDIA_ERR 62"
abbreviation PJMEDIA_SDP_EFORMATNOTEQUAL :: pj_status where "PJMEDIA_SDP_EFORMATNOTEQUAL \<equiv> PJMEDIA_ERR 63"
abbreviation PJMEDIA_SDP_ECONNNOTEQUAL :: pj_status where "PJMEDIA_SDP_ECONNNOTEQUAL \<equiv> PJMEDIA_ERR 64"
abbreviation PJMEDIA_SDP_EDIRNOTEQUAL :: pj_status where "PJMEDIA_SDP_EDIRNOTEQUAL \<equiv> PJMEDIA_ERR 66"
abbreviation PJMEDIA_SDP_EFMTPNOTEQUAL :: pj_status where "PJMEDIA_SDP_EFMTPNOTEQUAL \<equiv> PJMEDIA_ERR 67"
abbreviation PJMEDIA_SDP_ERTPMAPNOTEQUAL :: pj_status where "PJMEDIA_SDP_ERTPMAPNOTEQUAL \<equiv> PJMEDIA_ERR 68"
abbreviation PJMEDIA_SDP_EORIGINNOTEQUAL :: pj_status where "PJMEDIA_SDP_EORIGINNOTEQUAL \<equiv> PJMEDIA_ERR 70"
abbreviation PJMEDIA_SDP_ENAMENOTEQUAL :: pj_status where "PJMEDIA_SDP_ENAMENOTEQUAL \<equiv> PJMEDIA_ERR 71"
abbreviation PJMEDIA_SDP_ETIMENOTEQUAL :: pj_status where "PJMEDIA_SDP_ETIMENOTEQUAL \<equiv> PJMEDIA_ERR 72"

end
