(* ===== verification/Rtp.thy ===== *)
theory Rtp
  imports Pj_Prelude
begin

text \<open>
  RTP sessions (\<open>pjmedia/src/pjmedia/rtp.c\<close>): the packed header, outgoing encapsulation,
  packet decoding, and the RFC 3550 sequence-number tracker with its status report.

  Multi-byte header fields are kept as the code keeps them, in network byte order, so every
  \<open>pj_htons\<close> and \<open>pj_ntohl\<close> of the source appears in the model. A packet is the list of
  bytes readable at the packet pointer; the length that the caller passes is a separate
  argument, and a read past the readable bytes is the explicit result \<open>MEM_FAULT\<close>.
\<close>

section \<open>Data\<close>

record pjmedia_rtp_hdr =
  hdr_v :: "2 word"
  hdr_p :: bool
  hdr_x :: bool
  hdr_cc :: "4 word"
  hdr_m :: bool
  hdr_pt :: "7 word"
  hdr_seq :: u16
  hdr_ts :: u32
  hdr_ssrc :: u32

record pjmedia_rtp_seq_session =
  max_seq :: u16
  cycles :: u32
  base_seq :: u32
  bad_seq :: u32
  probation :: u32

record pjmedia_rtp_session =
  out_hdr :: pjmedia_rtp_hdr
  seq_ctrl :: pjmedia_rtp_seq_session
  out_pt :: u16
  out_extseq :: u32
  has_peer_ssrc :: bool
  peer_ssrc :: u32
  received :: u32

text \<open>The status union: the seven one-bit flags and the sequence difference.\<close>

record pjmedia_rtp_status =
  st_bad :: bool
  st_badpt :: bool
  st_badssrc :: bool
  st_dup :: bool
  st_outorder :: bool
  st_probation :: bool
  st_restart :: bool
  st_diff :: u16

record pjmedia_rtp_session_setting =
  set_flags :: u8
  set_default_pt :: int
  set_sender_ssrc :: u32
  set_peer_ssrc :: u32
  set_seq :: u16
  set_ts :: u32

definition zero_hdr :: pjmedia_rtp_hdr where
  "zero_hdr = \<lparr>hdr_v = 0, hdr_p = False, hdr_x = False, hdr_cc = 0, hdr_m = False, hdr_pt = 0,
     hdr_seq = 0, hdr_ts = 0, hdr_ssrc = 0\<rparr>"

definition zero_seq :: pjmedia_rtp_seq_session where
  "zero_seq = \<lparr>max_seq = 0, cycles = 0, base_seq = 0, bad_seq = 0, probation = 0\<rparr>"

definition zero_status :: pjmedia_rtp_status where
  "zero_status = \<lparr>st_bad = False, st_badpt = False, st_badssrc = False, st_dup = False,
     st_outorder = False, st_probation = False, st_restart = False, st_diff = 0\<rparr>"

section \<open>Session set-up and outgoing packets\<close>

text \<open>
  \<open>r_ssrc\<close> and \<open>r_seq\<close> are the two results of \<open>pj_rand\<close>.
\<close>

definition pjmedia_rtp_session_init :: "u32 \<Rightarrow> u32 \<Rightarrow> int \<Rightarrow> u32 \<Rightarrow> pjmedia_rtp_session" where
  "pjmedia_rtp_session_init r_ssrc r_seq default_pt sender_ssrc =
     (let ssrc = (if sender_ssrc = 0 \<or> sender_ssrc = - 1 then pj_htonl r_ssrc
                  else pj_htonl sender_ssrc);
          extseq = r_seq AND 0x7FFF
      in \<lparr>out_hdr = \<lparr>hdr_v = 2, hdr_p = False, hdr_x = False, hdr_cc = 0, hdr_m = False,
             hdr_pt = word_of_int default_pt, hdr_seq = pj_htons (ucast extseq),
             hdr_ts = 0, hdr_ssrc = ssrc\<rparr>,
          seq_ctrl = zero_seq, out_pt = word_of_int default_pt, out_extseq = extseq,
          has_peer_ssrc = False, peer_ssrc = 0, received = 0\<rparr>)"

definition pjmedia_rtp_session_init2 ::
    "u32 \<Rightarrow> u32 \<Rightarrow> pjmedia_rtp_session_setting \<Rightarrow> pjmedia_rtp_session" where
  "pjmedia_rtp_session_init2 r_ssrc r_seq st =
     (let pt = (if bit (set_flags st) 0 then set_default_pt st else 0);
          ssrc = (if bit (set_flags st) 1 then set_sender_ssrc st else 0);
          s0 = pjmedia_rtp_session_init r_ssrc r_seq pt ssrc;
          s1 = (if bit (set_flags st) 2
                then s0\<lparr>out_extseq := ucast (set_seq st),
                        out_hdr := (out_hdr s0)\<lparr>hdr_seq := pj_htons (set_seq st)\<rparr>\<rparr> else s0);
          s2 = (if bit (set_flags st) 3
                then s1\<lparr>out_hdr := (out_hdr s1)\<lparr>hdr_ts := pj_htonl (set_ts st)\<rparr>\<rparr> else s1)
      in if bit (set_flags st) 4
         then s2\<lparr>has_peer_ssrc := True, peer_ssrc := set_peer_ssrc st\<rparr> else s2)"

text \<open>
  The result is the updated session and the header that is handed out (none for a clock
  frame).
\<close>

definition pjmedia_rtp_encode_rtp ::
    "pjmedia_rtp_session \<Rightarrow> int \<Rightarrow> int \<Rightarrow> int \<Rightarrow> int \<Rightarrow>
     pjmedia_rtp_session \<times> pjmedia_rtp_hdr option" where
  "pjmedia_rtp_encode_rtp ses pt m payload_len ts_len =
     (let h0 = (out_hdr ses)\<lparr>hdr_ts := pj_htonl (pj_ntohl (hdr_ts (out_hdr ses)) + word_of_int ts_len)\<rparr>;
          s0 = ses\<lparr>out_hdr := h0\<rparr>
      in if payload_len = 0 then (s0, None)
         else let ext = out_extseq s0 + 1;
                  h1 = h0\<lparr>hdr_pt := (if pt = - 1 then ucast (out_pt s0) else word_of_int pt),
                          hdr_m := odd m, hdr_seq := pj_htons (ucast ext)\<rparr>
              in (s0\<lparr>out_extseq := ext, out_hdr := h1\<rparr>, Some h1))"

section \<open>The packed header in memory\<close>

definition hdr_byte0 :: "pjmedia_rtp_hdr \<Rightarrow> u8" where
  "hdr_byte0 h = ucast (hdr_cc h) OR push_bit 4 (of_bool (hdr_x h))
     OR push_bit 5 (of_bool (hdr_p h)) OR push_bit 6 (ucast (hdr_v h))"

definition hdr_byte1 :: "pjmedia_rtp_hdr \<Rightarrow> u8" where
  "hdr_byte1 h = ucast (hdr_pt h) OR push_bit 7 (of_bool (hdr_m h))"

definition bytes_of_hdr :: "pjmedia_rtp_hdr \<Rightarrow> u8 list" where
  "bytes_of_hdr h = [hdr_byte0 h, hdr_byte1 h] @ store16 (hdr_seq h) @ store32 (hdr_ts h)
     @ store32 (hdr_ssrc h)"

definition byte0_v :: "u8 \<Rightarrow> 2 word" where "byte0_v b = ucast (drop_bit 6 b)"
definition byte0_cc :: "u8 \<Rightarrow> 4 word" where "byte0_cc b = ucast b"

definition hdr_of_bytes :: "u8 list \<Rightarrow> pjmedia_rtp_hdr option" where
  "hdr_of_bytes bs = (if length bs < 12 then None else Some
     \<lparr>hdr_v = byte0_v (bs ! 0), hdr_p = bit (bs ! 0) 5, hdr_x = bit (bs ! 0) 4,
      hdr_cc = byte0_cc (bs ! 0), hdr_m = bit (bs ! 1) 7, hdr_pt = ucast (bs ! 1),
      hdr_seq = load16 (bs ! 2) (bs ! 3),
      hdr_ts = load32 (bs ! 4) (bs ! 5) (bs ! 6) (bs ! 7),
      hdr_ssrc = load32 (bs ! 8) (bs ! 9) (bs ! 10) (bs ! 11)\<rparr>)"

section \<open>Decoding\<close>

datatype rtp_err = PJMEDIA_RTP_EINVER | PJMEDIA_RTP_EINLEN | MEM_FAULT

text \<open>
  Out-parameters of the decoder: the extension as (offset of the extension header, length in
  32-bit words), the payload offset (none is the null pointer) and the payload length.
\<close>

record rtp_decoded =
  dec_ext :: "(nat \<times> nat) option"
  dec_payload :: "nat option"
  dec_payloadlen :: nat

definition decode_ext :: "u8 list \<Rightarrow> int \<Rightarrow> nat \<Rightarrow> rtp_err + ((nat \<times> nat) option \<times> nat)" where
  "decode_ext pkt pkt_len offset =
     (if offset + 4 > u32_of_int pkt_len then Inl PJMEDIA_RTP_EINLEN
      else if length pkt < offset + 4 then Inl MEM_FAULT
      else let ext_len = unat (pj_ntohs (load16 (pkt ! (offset + 2)) (pkt ! (offset + 3))))
           in Inr (Some (offset, ext_len), offset + (ext_len + 1) * 4))"

definition strip_padding :: "u8 list \<Rightarrow> nat \<Rightarrow> nat \<Rightarrow> rtp_err + nat" where
  "strip_padding pkt offset plen =
     (if length pkt < offset + plen then Inl MEM_FAULT
      else let pad_len = unat (pkt ! (offset + plen - 1))
           in Inr (if pad_len \<le> plen then plen - pad_len else plen))"

definition decode_payload ::
    "u8 list \<Rightarrow> int \<Rightarrow> (nat \<times> nat) option \<Rightarrow> nat \<Rightarrow> rtp_err + rtp_decoded" where
  "decode_payload pkt pkt_len ext offset =
     (if int offset > pkt_len then Inl PJMEDIA_RTP_EINLEN
      else let payload = (if int offset = pkt_len then None else Some offset);
               plen = nat (pkt_len - int offset)
           in case (if bit (pkt ! 0) 5 \<and> plen > 0 then strip_padding pkt offset plen
                    else Inr plen) of
                Inl e \<Rightarrow> Inl e
              | Inr plen' \<Rightarrow> Inr \<lparr>dec_ext = ext, dec_payload = payload, dec_payloadlen = plen'\<rparr>)"

definition pjmedia_rtp_decode_rtp2 :: "u8 list \<Rightarrow> int \<Rightarrow> rtp_err + rtp_decoded" where
  "pjmedia_rtp_decode_rtp2 pkt pkt_len =
     (if length pkt < 2 then Inl MEM_FAULT
      else if byte0_v (pkt ! 0) \<noteq> 2 then Inl PJMEDIA_RTP_EINVER
      else let off0 = 12 + unat (byte0_cc (pkt ! 0)) * 4
           in case (if bit (pkt ! 0) 4 then decode_ext pkt pkt_len off0 else Inr (None, off0)) of
                Inl e \<Rightarrow> Inl e
              | Inr (ext, offset) \<Rightarrow> decode_payload pkt pkt_len ext offset)"

definition pjmedia_rtp_decode_rtp :: "u8 list \<Rightarrow> int \<Rightarrow> rtp_err + (nat option \<times> nat)" where
  "pjmedia_rtp_decode_rtp pkt pkt_len =
     map_sum id (\<lambda>d. (dec_payload d, dec_payloadlen d)) (pjmedia_rtp_decode_rtp2 pkt pkt_len)"

section \<open>Sequence tracking\<close>

definition pjmedia_rtp_seq_restart ::
    "pjmedia_rtp_seq_session \<Rightarrow> u16 \<Rightarrow> pjmedia_rtp_seq_session" where
  "pjmedia_rtp_seq_restart sess seq =
     sess\<lparr>base_seq := ucast seq, max_seq := seq, bad_seq := 65536 + 1, cycles := 0\<rparr>"

definition pjmedia_rtp_seq_init ::
    "pjmedia_rtp_seq_session \<Rightarrow> u16 \<Rightarrow> pjmedia_rtp_seq_session" where
  "pjmedia_rtp_seq_init sess seq =
     (pjmedia_rtp_seq_restart sess seq)\<lparr>max_seq := seq - 1, probation := 2\<rparr>"

definition pjmedia_rtp_seq_update ::
    "pjmedia_rtp_seq_session \<Rightarrow> u16 \<Rightarrow> pjmedia_rtp_seq_session \<times> pjmedia_rtp_status" where
  "pjmedia_rtp_seq_update sess seq =
     (let udelta = seq - max_seq sess; st = zero_status
      in if probation sess \<noteq> 0 then
           (let st = st\<lparr>st_probation := True\<rparr>
            in if seq = max_seq sess + 1 then
                 (let s1 = sess\<lparr>probation := probation sess - 1, max_seq := seq\<rparr>
                  in (if probation s1 = 0 then s1\<lparr>base_seq := ucast seq\<rparr> else s1,
                      st\<lparr>st_diff := 1\<rparr>))
               else (sess\<lparr>probation := 2 - 1, max_seq := seq\<rparr>,
                     (if seq = max_seq sess
                      then st\<lparr>st_diff := 0, st_bad := True, st_dup := True\<rparr>
                      else st\<lparr>st_diff := 0, st_bad := True, st_outorder := True\<rparr>)))
         else if udelta = 0 then (sess, st\<lparr>st_dup := True\<rparr>)
         else if udelta < 3000 then
           ((if seq < max_seq sess then sess\<lparr>cycles := cycles sess + 65536\<rparr> else sess)
              \<lparr>max_seq := seq\<rparr>, st\<lparr>st_diff := udelta\<rparr>)
         else if udelta \<le> 65436 then
           (if ucast seq = bad_seq sess then
              (pjmedia_rtp_seq_restart sess seq,
               st\<lparr>st_restart := True, st_probation := True, st_diff := 1\<rparr>)
            else (sess\<lparr>bad_seq := (ucast seq + 1) AND (65536 - 1)\<rparr>,
                  st\<lparr>st_bad := True, st_outorder := True\<rparr>))
         else (sess, st\<lparr>st_outorder := True\<rparr>))"

text \<open>
  \<open>pjmedia_rtp_session_update2\<close>: \<open>p\<close> is the caller's status structure (none is the null
  pointer) as it is before the call; the result holds its contents after it.
\<close>

definition pjmedia_rtp_session_update2 ::
    "pjmedia_rtp_session \<Rightarrow> pjmedia_rtp_hdr \<Rightarrow> pjmedia_rtp_status option \<Rightarrow> bool \<Rightarrow>
     pjmedia_rtp_session \<times> pjmedia_rtp_status option" where
  "pjmedia_rtp_session_update2 ses hdr p check_pt =
     (let ssrc = pj_ntohl (hdr_ssrc hdr);
          s0 = (if \<not> has_peer_ssrc ses \<and> peer_ssrc ses = 0 then ses\<lparr>peer_ssrc := ssrc\<rparr> else ses);
          badssrc = (ssrc \<noteq> peer_ssrc s0);
          seq_st = zero_status\<lparr>st_badssrc := badssrc\<rparr>;
          s1 = (if badssrc \<and> \<not> has_peer_ssrc s0 then s0\<lparr>peer_ssrc := ssrc\<rparr> else s0)
      in if check_pt \<and> ucast (hdr_pt hdr) \<noteq> out_pt s1 then
           (s1, map_option (\<lambda>q. seq_st\<lparr>st_bad := True, st_badpt := True, st_diff := st_diff q\<rparr>) p)
         else
           let sc0 = (if received s1 = 0 then pjmedia_rtp_seq_init (seq_ctrl s1) (pj_ntohs (hdr_seq hdr))
                      else seq_ctrl s1);
               (sc1, seq_st) = pjmedia_rtp_seq_update sc0 (pj_ntohs (hdr_seq hdr));
               s2 = s1\<lparr>seq_ctrl := sc1\<rparr>;
               s3 = (if st_restart seq_st then s2\<lparr>received := received s2 + 1\<rparr>
                     else if \<not> st_bad seq_st then s2\<lparr>received := received s2 + 1\<rparr> else s2)
           in (s3, map_option (\<lambda>_. seq_st) p))"

definition pjmedia_rtp_session_update ::
    "pjmedia_rtp_session \<Rightarrow> pjmedia_rtp_hdr \<Rightarrow> pjmedia_rtp_status option \<Rightarrow>
     pjmedia_rtp_session \<times> pjmedia_rtp_status option" where
  "pjmedia_rtp_session_update ses hdr p = pjmedia_rtp_session_update2 ses hdr p True"

section \<open>The header layout\<close>

lemma bit_below_4: "(n::nat) < 4 \<Longrightarrow> n = 0 \<or> n = 1 \<or> n = 2 \<or> n = 3"
  by arith

lemma byte0_fields:
  "byte0_v (hdr_byte0 h) = hdr_v h" "byte0_cc (hdr_byte0 h) = hdr_cc h"
  "bit (hdr_byte0 h) 4 = hdr_x h" "bit (hdr_byte0 h) 5 = hdr_p h"
proof -
  show "byte0_v (hdr_byte0 h) = hdr_v h"
    unfolding hdr_byte0_def byte0_v_def
    by (rule bit_word_eqI) (auto simp: bit_simps dest: bit_imp_le_length)
  show "byte0_cc (hdr_byte0 h) = hdr_cc h"
    unfolding hdr_byte0_def byte0_cc_def
    by (rule bit_word_eqI) (auto simp: bit_simps dest!: bit_below_4)
qed (auto simp: hdr_byte0_def bit_simps dest: bit_imp_le_length)

lemma byte1_fields: "ucast (hdr_byte1 h) = hdr_pt h" "bit (hdr_byte1 h) 7 = hdr_m h"
  unfolding hdr_byte1_def
  by ((rule bit_word_eqI)?, auto simp: bit_simps dest: bit_imp_le_length)+

lemma length_bytes_of_hdr [simp]: "length (bytes_of_hdr h) = 12"
  by (simp add: bytes_of_hdr_def)

lemma hdr_of_bytes_of_hdr: "hdr_of_bytes (bytes_of_hdr h @ rest) = Some h"
  by (simp add: hdr_of_bytes_def bytes_of_hdr_def store16_def store32_def
      byte0_fields byte1_fields buf_simps)

section \<open>Decoding stays inside the packet\<close>

lemma decode_ext_cases:
  assumes "decode_ext pkt (int n) off = r" and "n \<le> length pkt" and "n < 2 ^ 32"
  shows "r = Inl PJMEDIA_RTP_EINLEN \<or> (\<exists>e off'. r = Inr (e, off') \<and> off + 4 \<le> off')"
  using assms by (auto simp: decode_ext_def Let_def split: if_splits)

lemma strip_padding_cases:
  "off + plen \<le> length pkt \<Longrightarrow> \<exists>k. strip_padding pkt off plen = Inr k \<and> k \<le> plen"
  by (simp add: strip_padding_def Let_def)

lemma decode_payload_cases:
  assumes "n \<le> length pkt"
  shows "decode_payload pkt (int n) ext off =
    (if n < off then Inl PJMEDIA_RTP_EINLEN
     else Inr \<lparr>dec_ext = ext, dec_payload = (if off = n then None else Some off),
       dec_payloadlen = dec_payloadlen (projr (decode_payload pkt (int n) ext off))\<rparr>) \<and>
   (off \<le> n \<longrightarrow> off + dec_payloadlen (projr (decode_payload pkt (int n) ext off)) \<le> n)"
proof (cases "n < off")
  case True
  then show ?thesis by (simp add: decode_payload_def)
next
  case False
  then have len: "off + nat (int n - int off) = n" by simp
  then obtain k where "strip_padding pkt off (nat (int n - int off)) = Inr k"
      "k \<le> nat (int n - int off)"
    using strip_padding_cases [of off "nat (int n - int off)" pkt] assms by auto
  with False len show ?thesis by (auto simp: decode_payload_def Let_def)
qed

lemma decode_rtp2_cases:
  assumes "2 \<le> length pkt" and "n \<le> length pkt" and "n < 2 ^ 32"
  shows "pjmedia_rtp_decode_rtp2 pkt (int n) \<in> {Inl PJMEDIA_RTP_EINVER, Inl PJMEDIA_RTP_EINLEN} \<or>
    (\<exists>ext off. 12 \<le> off \<and> off \<le> n \<and>
       pjmedia_rtp_decode_rtp2 pkt (int n) = decode_payload pkt (int n) ext off)"
proof -
  define off0 where "off0 = 12 + unat (byte0_cc (pkt ! 0)) * 4"
  have tail: "decode_payload pkt (int n) ext off = Inl PJMEDIA_RTP_EINLEN \<or> off \<le> n" for ext off
    by (simp add: decode_payload_def)
  consider "byte0_v (pkt ! 0) \<noteq> 2" | "byte0_v (pkt ! 0) = 2" "\<not> bit (pkt ! 0) 4"
    | "byte0_v (pkt ! 0) = 2" "bit (pkt ! 0) 4" by blast
  then show ?thesis
  proof cases
    case 1
    then show ?thesis using assms by (simp add: pjmedia_rtp_decode_rtp2_def)
  next
    case 2
    then have "pjmedia_rtp_decode_rtp2 pkt (int n) = decode_payload pkt (int n) None off0"
      using assms by (simp add: pjmedia_rtp_decode_rtp2_def off0_def)
    moreover have "12 \<le> off0" by (simp add: off0_def)
    ultimately show ?thesis using tail by (metis insertCI)
  next
    case 3
    then have eq: "pjmedia_rtp_decode_rtp2 pkt (int n) = (case decode_ext pkt (int n) off0 of
        Inl e \<Rightarrow> Inl e | Inr (ext, off) \<Rightarrow> decode_payload pkt (int n) ext off)"
      using assms by (simp add: pjmedia_rtp_decode_rtp2_def off0_def)
    from decode_ext_cases [OF refl assms(2,3), of off0] show ?thesis
    proof
      assume "decode_ext pkt (int n) off0 = Inl PJMEDIA_RTP_EINLEN"
      then show ?thesis using eq by simp
    next
      assume "\<exists>e off'. decode_ext pkt (int n) off0 = Inr (e, off') \<and> off0 + 4 \<le> off'"
      then obtain e off' where "decode_ext pkt (int n) off0 = Inr (e, off')" "off0 + 4 \<le> off'"
        by blast
      moreover from this have "12 \<le> off'" by (simp add: off0_def)
      ultimately show ?thesis using eq tail [of e off'] by auto
    qed
  qed
qed

lemma decode_rtp2_plain:
  assumes "hdr_v h = 2" "\<not> hdr_p h" "\<not> hdr_x h" "hdr_cc h = 0"
  shows "pjmedia_rtp_decode_rtp2 (bytes_of_hdr h @ pl) (int (12 + length pl)) =
    Inr \<lparr>dec_ext = None, dec_payload = (if pl = [] then None else Some 12),
         dec_payloadlen = length pl\<rparr>"
proof -
  have "(bytes_of_hdr h @ pl) ! 0 = hdr_byte0 h"
    by (simp add: bytes_of_hdr_def)
  with assms show ?thesis
    by (simp add: pjmedia_rtp_decode_rtp2_def decode_payload_def byte0_fields)
qed

section \<open>Outgoing packets\<close>

definition rtp_out_wf :: "pjmedia_rtp_session \<Rightarrow> bool" where
  "rtp_out_wf ses \<longleftrightarrow> hdr_v (out_hdr ses) = 2 \<and> \<not> hdr_p (out_hdr ses) \<and> \<not> hdr_x (out_hdr ses)
     \<and> hdr_cc (out_hdr ses) = 0 \<and> hdr_seq (out_hdr ses) = pj_htons (ucast (out_extseq ses))"

lemma rtp_out_wf_init2: "rtp_out_wf (pjmedia_rtp_session_init2 r1 r2 st)"
  by (simp add: rtp_out_wf_def pjmedia_rtp_session_init2_def pjmedia_rtp_session_init_def Let_def)

lemma rtp_out_wf_encode: "rtp_out_wf ses \<Longrightarrow> rtp_out_wf (fst (pjmedia_rtp_encode_rtp ses pt m n ts))"
  by (auto simp: rtp_out_wf_def pjmedia_rtp_encode_rtp_def Let_def)

text \<open>A run of the encoder over (payload type, marker, payload length, timestamp step) requests.\<close>

fun encode_run ::
    "pjmedia_rtp_session \<Rightarrow> (int \<times> int \<times> int \<times> int) list \<Rightarrow>
     pjmedia_rtp_session \<times> pjmedia_rtp_hdr list" where
  "encode_run ses [] = (ses, [])"
| "encode_run ses ((pt, m, n, ts) # rs) =
     (let (s1, h) = pjmedia_rtp_encode_rtp ses pt m n ts; (s2, hs) = encode_run s1 rs
      in (s2, (case h of None \<Rightarrow> hs | Some x \<Rightarrow> x # hs)))"

lemma encode_run_seqs:
  assumes "\<forall>(pt, m, n, ts) \<in> set rs. n \<noteq> 0" and "i < length rs"
  shows "length (snd (encode_run ses rs)) = length rs \<and>
    pj_ntohs (hdr_seq (snd (encode_run ses rs) ! i)) = ucast (out_extseq ses + 1 + of_nat i)"
  using assms
proof (induction rs arbitrary: ses i)
  case Nil
  then show ?case by simp
next
  case (Cons r rs)
  obtain pt m n ts where r: "r = (pt, m, n, ts)" by (metis surj_pair)
  define s1 where "s1 = fst (pjmedia_rtp_encode_rtp ses pt m n ts)"
  have n0: "n \<noteq> 0" and rest: "\<forall>(pt, m, n, ts) \<in> set rs. n \<noteq> 0" using Cons.prems r by auto
  obtain h where h: "pjmedia_rtp_encode_rtp ses pt m n ts = (s1, Some h)"
      and hs: "hdr_seq h = pj_htons (ucast (out_extseq ses + 1))"
      and ext: "out_extseq s1 = out_extseq ses + 1"
    using n0 by (simp add: s1_def pjmedia_rtp_encode_rtp_def Let_def)
  have len: "length (snd (encode_run s1 rs)) = length rs"
    using Cons.IH [OF rest, of 0 s1] by (cases rs) auto
  show ?case
  proof (cases i)
    case 0
    then show ?thesis using len h hs r by (simp add: split_beta)
  next
    case (Suc j)
    then have "j < length rs" using Cons.prems by simp
    from Cons.IH [OF rest this, of s1] Suc len h r ext show ?thesis
      by (simp add: split_beta algebra_simps)
  qed
qed

lemma encode_run_ts:
  "pj_ntohl (hdr_ts (out_hdr (fst (encode_run ses rs)))) =
     pj_ntohl (hdr_ts (out_hdr ses)) + word_of_int (\<Sum>(pt, m, n, ts) \<leftarrow> rs. ts)"
proof (induction rs arbitrary: ses)
  case Nil
  then show ?case by simp
next
  case (Cons r rs)
  obtain pt m n ts where r: "r = (pt, m, n, ts)" by (metis surj_pair)
  have "pj_ntohl (hdr_ts (out_hdr (fst (pjmedia_rtp_encode_rtp ses pt m n ts)))) =
      pj_ntohl (hdr_ts (out_hdr ses)) + word_of_int ts"
    by (simp add: pjmedia_rtp_encode_rtp_def Let_def)
  with Cons.IH [of "fst (pjmedia_rtp_encode_rtp ses pt m n ts)"] show ?case
    by (simp add: r split_beta algebra_simps)
qed

section \<open>Sequence tracking\<close>

text \<open>The extended sequence number of RFC 3550: the cycle count and the highest number seen.\<close>

definition ext_seq :: "pjmedia_rtp_seq_session \<Rightarrow> u32" where
  "ext_seq sess = cycles sess + ucast (max_seq sess)"

lemma ucast_add_wrap:
  fixes m :: u16
  assumes "d < 65536"
  shows "(if m + of_nat d < m then 65536 else 0) + (ucast (m + of_nat d) :: u32)
    = ucast m + of_nat d"
proof -
  have un: "unat (m + of_nat d) = (unat m + d) mod 65536"
    using assms by (simp add: unat_word_ariths unat_of_nat)
  have uc: "(ucast x :: u32) = of_nat (unat x)" for x :: u16
    by simp
  show ?thesis
  proof (cases "unat m + d < 65536")
    case True
    then have "unat (m + of_nat d) = unat m + d" using un by simp
    moreover from this have "\<not> m + of_nat d < m" by (simp add: word_less_nat_alt)
    ultimately show ?thesis by (simp only: uc) simp
  next
    case False
    have "unat m < 65536" using unsigned_less [of m] by simp
    with False assms have "unat (m + of_nat d) = unat m + d - 65536"
      using un by (simp add: mod_if)
    moreover from this have "m + of_nat d < m"
      using assms \<open>unat m < 65536\<close> False by (simp add: word_less_nat_alt)
    ultimately show ?thesis using False by (simp only: uc) (simp add: of_nat_diff)
  qed
qed

lemma seq_update_in_order:
  assumes "probation sess = 0" and "0 < d" and "d < 3000"
  shows "\<exists>sess'. pjmedia_rtp_seq_update sess (max_seq sess + of_nat d) =
      (sess', zero_status\<lparr>st_diff := of_nat d\<rparr>) \<and>
    max_seq sess' = max_seq sess + of_nat d \<and> probation sess' = 0 \<and>
    ext_seq sess' = ext_seq sess + of_nat d"
proof -
  have ud: "unat (of_nat d :: u16) = d" using assms by (simp add: unat_of_nat)
  have "(of_nat d :: u16) \<noteq> 0" "(of_nat d :: u16) < 3000"
    using assms ud by (auto simp: word_less_nat_alt unat_eq_zero [symmetric])
  with assms ucast_add_wrap [of d "max_seq sess"] show ?thesis
    by (auto simp: pjmedia_rtp_seq_update_def ext_seq_def Let_def algebra_simps)
qed

text \<open>A run of the tracker over sequence numbers, with the reports it gives.\<close>

fun seq_run :: "pjmedia_rtp_seq_session \<Rightarrow> u16 list \<Rightarrow>
    pjmedia_rtp_seq_session \<times> pjmedia_rtp_status list" where
  "seq_run sess [] = (sess, [])"
| "seq_run sess (q # qs) =
     (let (s1, st) = pjmedia_rtp_seq_update sess q; (s2, sts) = seq_run s1 qs in (s2, st # sts))"

text \<open>The 16-bit numbers a sender emits when its extended number grows by the given gaps.\<close>

fun wire_seqs :: "u16 \<Rightarrow> nat list \<Rightarrow> u16 list" where
  "wire_seqs q [] = []"
| "wire_seqs q (d # ds) = (q + of_nat d) # wire_seqs (q + of_nat d) ds"

lemma seq_run_tracks:
  assumes "probation sess = 0" and "\<forall>d \<in> set ds. 0 < d \<and> d < 3000"
  shows "ext_seq (fst (seq_run sess (wire_seqs (max_seq sess) ds))) = ext_seq sess + of_nat (sum_list ds)
    \<and> snd (seq_run sess (wire_seqs (max_seq sess) ds)) = map (\<lambda>d. zero_status\<lparr>st_diff := of_nat d\<rparr>) ds"
  using assms
proof (induction ds arbitrary: sess)
  case Nil
  then show ?case by simp
next
  case (Cons d ds)
  then obtain s1 where s1: "pjmedia_rtp_seq_update sess (max_seq sess + of_nat d) =
      (s1, zero_status\<lparr>st_diff := of_nat d\<rparr>)" "max_seq s1 = max_seq sess + of_nat d"
      "probation s1 = 0" "ext_seq s1 = ext_seq sess + of_nat d"
    using seq_update_in_order [of sess d] by auto
  from Cons.IH [OF s1(3)] Cons.prems s1 show ?case by (simp add: split_beta algebra_simps)
qed

lemma encode_hands_out_hdr:
  "n \<noteq> 0 \<Longrightarrow> snd (pjmedia_rtp_encode_rtp ses pt m n ts) =
     Some (out_hdr (fst (pjmedia_rtp_encode_rtp ses pt m n ts)))"
  by (simp add: pjmedia_rtp_encode_rtp_def Let_def)

lemma next_seq_u32: "(ucast q + 1 :: u32) AND 65535 = ucast (q + 1 :: u16)"
proof -
  have "(65535 :: u32) = mask 16" by (simp add: mask_eq_exp_minus_1)
  then have "(ucast q + 1 :: u32) AND 65535 = take_bit 16 (ucast q + 1)"
    by (simp add: take_bit_eq_mask)
  also have "\<dots> = ucast (q + 1 :: u16)"
  proof (rule word_unat_eq_iff [THEN iffD2])
    have "unat q < 65536" using unsigned_less [of q] by simp
    then show "unat (take_bit 16 (ucast q + 1 :: u32)) = unat (ucast (q + 1) :: u32)"
      by (simp add: unat_word_ariths unsigned_ucast_eq take_bit_eq_mod)
  qed
  finally show ?thesis .
qed

section \<open>Properties\<close>

text \<open>
  C1 (round trip). A packet built from the header that \<open>pjmedia_rtp_encode_rtp\<close> hands out,
  followed by a non-empty payload, decodes to exactly that header and that payload.
\<close>

theorem rtp_encode_decode_roundtrip:
  assumes "rtp_out_wf ses" and "pl \<noteq> []"
  shows "\<exists>h. snd (pjmedia_rtp_encode_rtp ses pt m (int (length pl)) ts) = Some h \<and>
    hdr_of_bytes (bytes_of_hdr h @ pl) = Some h \<and>
    pjmedia_rtp_decode_rtp2 (bytes_of_hdr h @ pl) (int (12 + length pl)) =
      Inr \<lparr>dec_ext = None, dec_payload = Some 12, dec_payloadlen = length pl\<rparr> \<and>
    take (length pl) (drop 12 (bytes_of_hdr h @ pl)) = pl"
proof -
  define s where "s = fst (pjmedia_rtp_encode_rtp ses pt m (int (length pl)) ts)"
  have enc: "snd (pjmedia_rtp_encode_rtp ses pt m (int (length pl)) ts) = Some (out_hdr s)"
    unfolding s_def by (rule encode_hands_out_hdr) (simp add: assms(2))
  have "rtp_out_wf s" unfolding s_def by (rule rtp_out_wf_encode [OF assms(1)])
  then have "hdr_v (out_hdr s) = 2" "\<not> hdr_p (out_hdr s)" "\<not> hdr_x (out_hdr s)" "hdr_cc (out_hdr s) = 0"
    by (simp_all add: rtp_out_wf_def)
  from decode_rtp2_plain [OF this, of pl] assms(2) enc show ?thesis
    by (simp add: hdr_of_bytes_of_hdr)
qed

definition demo_ses :: pjmedia_rtp_session where
  "demo_ses = pjmedia_rtp_session_init2 7 65535
     \<lparr>set_flags = 7, set_default_pt = 8, set_sender_ssrc = 0x11223344, set_peer_ssrc = 0,
      set_seq = 65534, set_ts = 0\<rparr>"

lemma demo_ses_out: "out_extseq demo_ses = 65534" "out_pt demo_ses = 8"
  by code_simp+

theorem rtp_encode_decode_roundtrip_witness:
  "rtp_out_wf demo_ses \<and>
   (\<exists>h. snd (pjmedia_rtp_encode_rtp demo_ses (- 1) 1 (int (length [1, 2, 3 :: u8])) 160) = Some h \<and>
    hdr_of_bytes (bytes_of_hdr h @ [1, 2, 3]) = Some h \<and>
    pjmedia_rtp_decode_rtp2 (bytes_of_hdr h @ [1, 2, 3]) (int (12 + length [1, 2, 3 :: u8])) =
      Inr \<lparr>dec_ext = None, dec_payload = Some 12, dec_payloadlen = length [1, 2, 3 :: u8]\<rparr> \<and>
    take (length [1, 2, 3 :: u8]) (drop 12 (bytes_of_hdr h @ [1, 2, 3])) = [1, 2, 3])"
proof
  show wf: "rtp_out_wf demo_ses" unfolding demo_ses_def by (rule rtp_out_wf_init2)
  show "\<exists>h. snd (pjmedia_rtp_encode_rtp demo_ses (- 1) 1 (int (length [1, 2, 3 :: u8])) 160) = Some h \<and>
    hdr_of_bytes (bytes_of_hdr h @ [1, 2, 3]) = Some h \<and>
    pjmedia_rtp_decode_rtp2 (bytes_of_hdr h @ [1, 2, 3]) (int (12 + length [1, 2, 3 :: u8])) =
      Inr \<lparr>dec_ext = None, dec_payload = Some 12, dec_payloadlen = length [1, 2, 3 :: u8]\<rparr> \<and>
    take (length [1, 2, 3 :: u8]) (drop 12 (bytes_of_hdr h @ [1, 2, 3])) = [1, 2, 3]"
    by (rule rtp_encode_decode_roundtrip [OF wf, of "[1, 2, 3]"]) simp
qed

text \<open>
  C2 (memory safety of decoding). When the length the caller passes lies within the readable
  bytes, decoding an arbitrary packet never reads outside it, and an accepted packet has its
  payload window inside the packet, after the fixed header.
\<close>

theorem rtp_decode_safe:
  assumes "2 \<le> length pkt" and "n \<le> length pkt" and "n < 2 ^ 32"
  shows "case pjmedia_rtp_decode_rtp2 pkt (int n) of
      Inl e \<Rightarrow> e \<noteq> MEM_FAULT
    | Inr d \<Rightarrow> \<exists>off. 12 \<le> off \<and> off + dec_payloadlen d \<le> n \<and>
                 dec_payload d = (if off = n then None else Some off)"
  using decode_rtp2_cases [OF assms]
proof (elim disjE exE conjE)
  assume "pjmedia_rtp_decode_rtp2 pkt (int n) \<in> {Inl PJMEDIA_RTP_EINVER, Inl PJMEDIA_RTP_EINLEN}"
  then show ?thesis by auto
next
  fix ext off
  assume off: "12 \<le> off" "off \<le> n"
    and eq: "pjmedia_rtp_decode_rtp2 pkt (int n) = decode_payload pkt (int n) ext off"
  from decode_payload_cases [OF assms(2), of ext off] off obtain k where
    "decode_payload pkt (int n) ext off =
       Inr \<lparr>dec_ext = ext, dec_payload = (if off = n then None else Some off), dec_payloadlen = k\<rparr>"
    and "off + k \<le> n" by (metis leD)
  with eq off show ?thesis by (auto intro: exI [of _ off])
qed

definition padded_pkt :: "u8 list" where
  "padded_pkt = [0xA1, 0x60, 0, 1, 0, 0, 0, 0, 1, 2, 3, 4, 9, 9, 9, 9, 5, 0, 0, 3]"

theorem rtp_decode_safe_witness:
  "pjmedia_rtp_decode_rtp2 padded_pkt (int 20) =
     Inr \<lparr>dec_ext = None, dec_payload = Some 16, dec_payloadlen = 1\<rparr> \<and>
   (case pjmedia_rtp_decode_rtp2 padded_pkt (int 20) of
      Inl e \<Rightarrow> e \<noteq> MEM_FAULT
    | Inr d \<Rightarrow> \<exists>off. 12 \<le> off \<and> off + dec_payloadlen d \<le> 20 \<and>
                 dec_payload d = (if off = 20 then None else Some off))"
proof
  show "pjmedia_rtp_decode_rtp2 padded_pkt (int 20) =
     Inr \<lparr>dec_ext = None, dec_payload = Some 16, dec_payloadlen = 1\<rparr>"
    by code_simp
  show "case pjmedia_rtp_decode_rtp2 padded_pkt (int 20) of
      Inl e \<Rightarrow> e \<noteq> MEM_FAULT
    | Inr d \<Rightarrow> \<exists>off. 12 \<le> off \<and> off + dec_payloadlen d \<le> 20 \<and>
                 dec_payload d = (if off = 20 then None else Some off)"
    by (rule rtp_decode_safe) (simp_all add: padded_pkt_def)
qed

text \<open>
  C3 (refinement of the extended sequence number). Once a source has left probation, for every
  stream whose sequence number advances by gaps between 1 and 2999 the 16-bit tracker keeps
  the sender's 32-bit extended number across any number of wrap-arounds, and it reports each
  packet as in order with exactly the gap as difference.
\<close>

theorem rtp_seq_tracks_extended:
  assumes "probation sess = 0" and "\<forall>d \<in> set ds. 0 < d \<and> d < 3000"
  shows "ext_seq (fst (seq_run sess (wire_seqs (max_seq sess) ds))) = ext_seq sess + of_nat (sum_list ds)
    \<and> snd (seq_run sess (wire_seqs (max_seq sess) ds)) = map (\<lambda>d. zero_status\<lparr>st_diff := of_nat d\<rparr>) ds"
  by (rule seq_run_tracks [OF assms])

theorem rtp_seq_tracks_extended_witness:
  "probation (zero_seq\<lparr>max_seq := 65000\<rparr>) = 0 \<and>
   ext_seq (fst (seq_run (zero_seq\<lparr>max_seq := 65000\<rparr>) (wire_seqs 65000 [500, 1, 700]))) = 66201"
proof
  show p: "probation (zero_seq\<lparr>max_seq := 65000\<rparr>) = 0" by (simp add: zero_seq_def)
  have "ext_seq (fst (seq_run (zero_seq\<lparr>max_seq := 65000\<rparr>)
        (wire_seqs (max_seq (zero_seq\<lparr>max_seq := 65000\<rparr>)) [500, 1, 700]))) =
      ext_seq (zero_seq\<lparr>max_seq := 65000\<rparr>) + of_nat (sum_list [500, 1, 700])"
    by (rule rtp_seq_tracks_extended [OF p, THEN conjunct1]) simp
  also have "\<dots> = 66201" by (simp add: ext_seq_def zero_seq_def)
  finally show "ext_seq (fst (seq_run (zero_seq\<lparr>max_seq := 65000\<rparr>) (wire_seqs 65000 [500, 1, 700])))
      = 66201" by (simp only: pjmedia_rtp_seq_session.simps zero_seq_def)
qed

text \<open>
  A sequence number that jumps by 3000 or more is rejected
  and leaves the extended number alone; when the next packet is the successor of the jump, the
  tracker resynchronises on it with no cycles counted.
\<close>

theorem rtp_seq_restart_after_two:
  assumes "probation sess = 0" and "3000 \<le> q - max_seq sess" and "q - max_seq sess \<le> 65435"
    and "ucast q \<noteq> bad_seq sess"
  shows "\<exists>s1 st1 s2 st2. pjmedia_rtp_seq_update sess q = (s1, st1) \<and>
    pjmedia_rtp_seq_update s1 (q + 1) = (s2, st2) \<and>
    st_bad st1 \<and> st_outorder st1 \<and> ext_seq s1 = ext_seq sess \<and>
    st_restart st2 \<and> \<not> st_bad st2 \<and> st_diff st2 = 1 \<and>
    max_seq s2 = q + 1 \<and> base_seq s2 = ucast (q + 1) \<and> cycles s2 = 0"
proof -
  define u where "u = q - max_seq sess"
  define s1 where "s1 = sess\<lparr>bad_seq := ucast (q + 1)\<rparr>"
  have u: "3000 \<le> unat u" "unat u \<le> 65435"
    using assms(2,3) by (simp_all add: u_def word_le_nat_alt)
  then have u1: "unat (u + 1) = unat u + 1" by (simp add: unat_word_ariths)
  have "u \<noteq> 0" "\<not> u < 3000" "u \<le> 65436" "u + 1 \<noteq> 0" "\<not> u + 1 < 3000" "u + 1 \<le> 65436"
    using u u1 by (auto simp: word_less_nat_alt word_le_nat_alt)
  note bounds = this
  have eq: "q + 1 - max_seq sess = u + 1" by (simp add: u_def)
  from bounds have "pjmedia_rtp_seq_update sess q =
      (s1, zero_status\<lparr>st_bad := True, st_outorder := True\<rparr>)"
    and "pjmedia_rtp_seq_update s1 (q + 1) = (pjmedia_rtp_seq_restart s1 (q + 1),
      zero_status\<lparr>st_restart := True, st_probation := True, st_diff := 1\<rparr>)"
    using assms(1,4)
    by (simp_all add: pjmedia_rtp_seq_update_def Let_def s1_def next_seq_u32 eq del: right_minus_eq
        flip: u_def)
  then show ?thesis
    by (simp add: s1_def ext_seq_def zero_status_def pjmedia_rtp_seq_restart_def)
qed

theorem rtp_seq_restart_after_two_witness:
  "\<exists>s1 st1 s2 st2. pjmedia_rtp_seq_update zero_seq 40000 = (s1, st1) \<and>
    pjmedia_rtp_seq_update s1 (40000 + 1) = (s2, st2) \<and>
    st_bad st1 \<and> st_outorder st1 \<and> ext_seq s1 = ext_seq zero_seq \<and>
    st_restart st2 \<and> \<not> st_bad st2 \<and> st_diff st2 = 1 \<and>
    max_seq s2 = 40000 + 1 \<and> base_seq s2 = ucast (40000 + 1 :: u16) \<and> cycles s2 = 0"
  by (rule rtp_seq_restart_after_two) (simp_all add: zero_seq_def)

text \<open>
  Outgoing numbering. A run of \<open>pjmedia_rtp_encode_rtp\<close> over requests with payload hands
  out consecutive sequence numbers, wrapping at 65536, starting after the session's own number.
\<close>

theorem rtp_encode_consecutive_seq:
  assumes "\<forall>(pt, m, n, ts) \<in> set rs. n \<noteq> 0" and "i < length rs"
  shows "length (snd (encode_run ses rs)) = length rs \<and>
    pj_ntohs (hdr_seq (snd (encode_run ses rs) ! i)) = ucast (out_extseq ses + 1 + of_nat i)"
  by (rule encode_run_seqs [OF assms])

theorem rtp_encode_consecutive_seq_witness:
  "pj_ntohs (hdr_seq (snd (encode_run demo_ses [(8, 1, 160, 160), (8, 0, 160, 160)]) ! 1)) = 0"
proof -
  have "pj_ntohs (hdr_seq (snd (encode_run demo_ses [(8, 1, 160, 160), (8, 0, 160, 160)]) ! 1))
      = ucast (out_extseq demo_ses + 1 + of_nat 1)"
    by (rule rtp_encode_consecutive_seq [THEN conjunct2]) simp_all
  also have "out_extseq demo_ses = 65534"
    by (simp add: demo_ses_out)
  finally show ?thesis by simp
qed

text \<open>
  The SSRC check is lost. Whatever the packet's SSRC and whatever SSRC the session was told
  to expect, a packet whose payload type is accepted is never reported with the bad-SSRC flag:
  the call to \<open>pjmedia_rtp_seq_update\<close> overwrites the status in which the flag was set.
\<close>

theorem rtp_update_loses_badssrc:
  assumes "\<not> check_pt \<or> ucast (hdr_pt hdr) = out_pt ses"
  shows "case snd (pjmedia_rtp_session_update2 ses hdr (Some p) check_pt) of
           Some st \<Rightarrow> \<not> st_badssrc st | None \<Rightarrow> False"
proof -
  have "\<not> st_badssrc (snd (pjmedia_rtp_seq_update sc q))" for sc q
    by (simp add: pjmedia_rtp_seq_update_def zero_status_def Let_def)
  with assms show ?thesis
    by (auto simp: pjmedia_rtp_session_update2_def Let_def split_beta)
qed

theorem rtp_update_loses_badssrc_witness:
  "case snd (pjmedia_rtp_session_update2
       (demo_ses\<lparr>has_peer_ssrc := True, peer_ssrc := 1\<rparr>) (zero_hdr\<lparr>hdr_pt := 8, hdr_ssrc := pj_htonl 2\<rparr>)
       (Some zero_status) True) of
     Some st \<Rightarrow> \<not> st_badssrc st | None \<Rightarrow> False"
  by (rule rtp_update_loses_badssrc) (simp add: demo_ses_out)

end
