(* ===== verification/Jbuf.thy ===== *)
theory Jbuf
  imports Pj_Prelude
begin

text \<open>
  The jitter buffer (\<open>pjmedia/src/pjmedia/jbuf.c\<close>): the circular frame list, and on top of it
  the buffer with its prefetching, burst level tracking and discard algorithms.

  The frame list keeps its parallel arrays as in the source; the content array is one flat
  byte list in which slot p starts at p times \<open>frame_size\<close>. Indices and origins are C \<open>int\<close>s
  (no wrap-around), the counters \<open>size\<close> and \<open>discarded_num\<close> are \<open>unsigned\<close>: a subtraction of
  them is taken modulo \<open>2 ^ 32\<close>. Loops that need a sane state to end are partial functions whose
  value \<open>None\<close> is not returning. Log output and the floating point mean and deviation of the
  statistics are not modelled.
\<close>

section \<open>The frame list\<close>

datatype pjmedia_jb_frame_type =
    PJMEDIA_JB_MISSING_FRAME | PJMEDIA_JB_NORMAL_FRAME | PJMEDIA_JB_ZERO_PREFETCH_FRAME
  | PJMEDIA_JB_ZERO_EMPTY_FRAME | PJMEDIA_JB_DISCARDED_FRAME

record jb_framelist_t =
  fl_frame_size :: nat
  fl_max_count :: nat
  fl_content :: "u8 list"
  fl_frame_type :: "pjmedia_jb_frame_type list"
  fl_content_len :: "nat list"
  fl_bit_info :: "u32 list"
  fl_ts :: "u32 list"
  fl_head :: nat
  fl_size :: nat
  fl_discarded_num :: nat
  fl_origin :: int

definition INVALID_OFFSET :: int where "INVALID_OFFSET = - 9999"
definition MAX_FRAME_INDEX :: int where "MAX_FRAME_INDEX = 0xFFFFFFFF div 9000"
definition MAX_MISORDER :: int where "MAX_MISORDER = 100"
definition MAX_DROPOUT :: int where "MAX_DROPOUT = 3000"

definition u32_sub :: "nat \<Rightarrow> nat \<Rightarrow> nat" where
  "u32_sub a b = u32_of_int (int a - int b)"

definition i32_of_int :: "int \<Rightarrow> int" where
  "i32_of_int i = (i + 2 ^ 31) mod 2 ^ 32 - 2 ^ 31"

text \<open>\<open>fill a n v xs\<close> is \<open>memset\<close> of the n elements from index a.\<close>

definition fill :: "nat \<Rightarrow> nat \<Rightarrow> 'a \<Rightarrow> 'a list \<Rightarrow> 'a list" where
  "fill a n v xs = take a xs @ replicate n v @ drop (a + n) xs"

definition jb_framelist_reset :: "jb_framelist_t \<Rightarrow> jb_framelist_t" where
  "jb_framelist_reset fl =
     fl\<lparr>fl_head := 0, fl_origin := INVALID_OFFSET, fl_size := 0, fl_discarded_num := 0,
        fl_frame_type := replicate (fl_max_count fl) PJMEDIA_JB_MISSING_FRAME,
        fl_content_len := replicate (fl_max_count fl) 0\<rparr>"

text \<open>
  The arguments \<open>mem_content\<close>, \<open>mem_bits\<close>, \<open>mem_ts\<close> are what the pool's memory holds before anything
  is written to it: the arrays are allocated uninitialised.
\<close>

definition jb_framelist_init ::
    "(nat \<Rightarrow> u8) \<Rightarrow> (nat \<Rightarrow> u32) \<Rightarrow> (nat \<Rightarrow> u32) \<Rightarrow> nat \<Rightarrow> nat \<Rightarrow> jb_framelist_t" where
  "jb_framelist_init mem_content mem_bits mem_ts frame_size max_count =
     jb_framelist_reset
       \<lparr>fl_frame_size = frame_size, fl_max_count = max_count,
        fl_content = map mem_content [0..<frame_size * max_count], fl_frame_type = [], fl_content_len = [],
        fl_bit_info = map mem_bits [0..<max_count], fl_ts = map mem_ts [0..<max_count],
        fl_head = 0, fl_size = 0, fl_discarded_num = 0, fl_origin = 0\<rparr>"

definition jb_framelist_eff_size :: "jb_framelist_t \<Rightarrow> nat" where
  "jb_framelist_eff_size fl = u32_sub (fl_size fl) (fl_discarded_num fl)"

text \<open>One of the two steps of \<open>jb_framelist_remove_head\<close>: the slots from \<open>a\<close> to \<open>a + n - 1\<close>.\<close>

definition clear_slots :: "nat \<Rightarrow> nat \<Rightarrow> jb_framelist_t \<Rightarrow> jb_framelist_t" where
  "clear_slots a n fl =
     fl\<lparr>fl_discarded_num := u32_sub (fl_discarded_num fl)
          (length (filter (\<lambda>i. fl_frame_type fl ! i = PJMEDIA_JB_DISCARDED_FRAME) [a..<a + n])),
        fl_frame_type := fill a n PJMEDIA_JB_MISSING_FRAME (fl_frame_type fl),
        fl_content_len := fill a n 0 (fl_content_len fl)\<rparr>"

definition jb_framelist_remove_head :: "jb_framelist_t \<Rightarrow> nat \<Rightarrow> jb_framelist_t \<times> nat" where
  "jb_framelist_remove_head fl cnt =
     (let count = (if cnt > fl_size fl then fl_size fl else cnt)
      in if count = 0 then (fl, count)
         else let tmp = fl_head fl + count;
                  (step1, step2) = (if tmp > fl_max_count fl
                    then (fl_max_count fl - fl_head fl, count - (fl_max_count fl - fl_head fl))
                    else (count, 0));
                  fl1 = clear_slots (fl_head fl) step1 fl;
                  fl2 = (if step2 \<noteq> 0 then clear_slots 0 step2 fl1 else fl1)
              in (fl2\<lparr>fl_origin := fl_origin fl2 + int count,
                      fl_head := (fl_head fl2 + count) mod fl_max_count fl2,
                      fl_size := fl_size fl2 - count\<rparr>, count))"

record jb_frame =
  jf_data :: "u8 list"
  jf_type :: pjmedia_jb_frame_type
  jf_size :: nat
  jf_bit_info :: u32
  jf_ts :: u32
  jf_seq :: int

text \<open>The loop that skips discarded frames; the flag is \<open>prev_discarded\<close>.\<close>

partial_function (option) skip_discarded :: "jb_framelist_t \<Rightarrow> bool \<Rightarrow> (jb_framelist_t \<times> bool) option" where
  "skip_discarded fl prev_discarded =
     (if fl_frame_type fl ! fl_head fl = PJMEDIA_JB_DISCARDED_FRAME
      then skip_discarded (fst (jb_framelist_remove_head fl 1)) True
      else Some (fl, prev_discarded))"

definition slot_content :: "jb_framelist_t \<Rightarrow> nat \<Rightarrow> nat \<Rightarrow> u8 list" where
  "slot_content fl pos n = take n (drop (pos * fl_frame_size fl) (fl_content fl))"

text \<open>
  \<open>cap\<close> is the size of the caller's buffer, if given. The result is the frame (none when the list
  is empty), or no result when the loop does not end.
\<close>

definition jb_framelist_get :: "jb_framelist_t \<Rightarrow> nat option \<Rightarrow> (jb_framelist_t \<times> jb_frame option) option" where
  "jb_framelist_get fl cap =
     (if fl_size fl = 0 then Some (fl, None)
      else case skip_discarded fl False of
        None \<Rightarrow> None
      | Some (fl1, prev_discarded) \<Rightarrow>
          (if fl_size fl1 = 0 then Some (fl1, None)
           else let h = fl_head fl1;
                    frm_size = fl_content_len fl1 ! h;
                    copy_size = min (case cap of Some c \<Rightarrow> c | None \<Rightarrow> frm_size) frm_size;
                    f = (if prev_discarded
                         then \<lparr>jf_data = [], jf_type = PJMEDIA_JB_MISSING_FRAME, jf_size = 0, jf_bit_info = 0,
                               jf_ts = fl_ts fl1 ! h, jf_seq = fl_origin fl1\<rparr>
                         else \<lparr>jf_data = slot_content fl1 h copy_size, jf_type = fl_frame_type fl1 ! h,
                               jf_size = copy_size, jf_bit_info = fl_bit_info fl1 ! h,
                               jf_ts = fl_ts fl1 ! h, jf_seq = fl_origin fl1\<rparr>)
                in Some (fl1\<lparr>fl_frame_type := (fl_frame_type fl1)[h := PJMEDIA_JB_MISSING_FRAME],
                             fl_content_len := (fl_content_len fl1)[h := 0],
                             fl_bit_info := (fl_bit_info fl1)[h := 0], fl_ts := (fl_ts fl1)[h := 0],
                             fl_origin := fl_origin fl1 + 1,
                             fl_head := (h + 1) mod fl_max_count fl1,
                             fl_size := fl_size fl1 - 1\<rparr>, Some f)))"

partial_function (option) peek_pos :: "jb_framelist_t \<Rightarrow> nat \<Rightarrow> nat \<Rightarrow> nat option" where
  "peek_pos fl pos idx =
     (if fl_frame_type fl ! pos \<noteq> PJMEDIA_JB_DISCARDED_FRAME
      then (if idx = 0 then Some pos else peek_pos fl ((pos + 1) mod fl_max_count fl) (idx - 1))
      else peek_pos fl ((pos + 1) mod fl_max_count fl) idx)"

definition jb_framelist_peek :: "jb_framelist_t \<Rightarrow> nat \<Rightarrow> jb_frame option option" where
  "jb_framelist_peek fl offset =
     (if offset \<ge> jb_framelist_eff_size fl then Some None
      else map_option (\<lambda>pos. Some
             \<lparr>jf_data = slot_content fl pos (fl_content_len fl ! pos), jf_type = fl_frame_type fl ! pos,
              jf_size = fl_content_len fl ! pos, jf_bit_info = fl_bit_info fl ! pos,
              jf_ts = fl_ts fl ! pos, jf_seq = fl_origin fl + int offset\<rparr>)
           (peek_pos fl (fl_head fl) offset))"

text \<open>
  Storing a frame. \<open>put_locate\<close> is the first half of \<open>jb_framelist_put_at\<close>: it finds the distance
  from the head (late frame, sequence restart, far jump, empty buffer, buffer full);
  \<open>put_slot\<close> is the second half.
\<close>

definition put_locate :: "jb_framelist_t \<Rightarrow> int \<Rightarrow> (jb_framelist_t \<times> pj_status) + (jb_framelist_t \<times> int)" where
  "put_locate fl index =
     (let distance = index - fl_origin fl
      in if distance < 0 \<and> fl_origin fl - index < MAX_MISORDER then Inl (fl, PJ_ETOOSMALL)
         else let (fl1, d1) =
                    (if distance < 0
                     then (if (fl_origin fl + int (fl_size fl)) mod 2 ^ 32 \<ge> MAX_FRAME_INDEX
                           then (fl\<lparr>fl_origin := index - int (fl_size fl)\<rparr>, int (fl_size fl))
                           else ((jb_framelist_reset fl)\<lparr>fl_origin := index\<rparr>, 0))
                     else (fl, distance));
                  (fl2, d2) = (if fl_size fl1 = 0 then (fl1\<lparr>fl_origin := index\<rparr>, 0) else (fl1, d1))
              in if d2 \<ge> int (fl_max_count fl2)
                 then (if d2 > MAX_DROPOUT then Inr ((jb_framelist_reset fl2)\<lparr>fl_origin := index\<rparr>, 0)
                       else Inl (fl2, PJ_ETOOMANY))
                 else Inr (fl2, d2))"

definition put_slot ::
    "jb_framelist_t \<Rightarrow> int \<Rightarrow> int \<Rightarrow> u8 list \<Rightarrow> u32 \<Rightarrow> u32 \<Rightarrow> pjmedia_jb_frame_type \<Rightarrow>
     jb_framelist_t \<times> pj_status" where
  "put_slot fl index distance frame bit_info ts frame_type =
     (let pos = (fl_head fl + nat distance) mod fl_max_count fl
      in if fl_frame_type fl ! pos \<noteq> PJMEDIA_JB_MISSING_FRAME then (fl, PJ_EEXISTS)
         else let fl1 = fl\<lparr>fl_frame_type := (fl_frame_type fl)[pos := frame_type],
                           fl_content_len := (fl_content_len fl)[pos := length frame],
                           fl_bit_info := (fl_bit_info fl)[pos := bit_info],
                           fl_ts := (fl_ts fl)[pos := ts]\<rparr>;
                  fl2 = (if fl_origin fl1 + int (fl_size fl1) \<le> index
                         then fl1\<lparr>fl_size := nat (distance + 1)\<rparr> else fl1);
                  fl3 = (if frame_type = PJMEDIA_JB_NORMAL_FRAME
                         then fl2\<lparr>fl_content := memcpy_at (fl_content fl2) (pos * fl_frame_size fl2) frame\<rparr>
                         else fl2)
              in (fl3, PJ_SUCCESS))"

definition jb_framelist_put_at ::
    "jb_framelist_t \<Rightarrow> int \<Rightarrow> u8 list \<Rightarrow> u32 \<Rightarrow> u32 \<Rightarrow> pjmedia_jb_frame_type \<Rightarrow>
     jb_framelist_t \<times> pj_status" where
  "jb_framelist_put_at fl index frame bit_info ts frame_type =
     (if length frame > fl_frame_size fl then (fl, PJ_EINVAL)
      else case put_locate fl index of
        Inl (fl1, status) \<Rightarrow> (fl1, status)
      | Inr (fl1, distance) \<Rightarrow> put_slot fl1 index distance frame bit_info ts frame_type)"

definition jb_framelist_discard :: "jb_framelist_t \<Rightarrow> int \<Rightarrow> jb_framelist_t \<times> pj_status" where
  "jb_framelist_discard fl index =
     (if \<not> (index \<ge> fl_origin fl \<and> index < fl_origin fl + int (fl_size fl)) then (fl, PJ_EINVAL)
      else let pos = (fl_head fl + nat (index - fl_origin fl)) mod fl_max_count fl
           in (fl\<lparr>fl_frame_type := (fl_frame_type fl)[pos := PJMEDIA_JB_DISCARDED_FRAME],
                  fl_discarded_num := u32_of_int (int (fl_discarded_num fl) + 1)\<rparr>, PJ_SUCCESS))"

section \<open>The jitter buffer\<close>

datatype pjmedia_jb_op = JB_OP_INIT | JB_OP_PUT | JB_OP_GET

datatype jb_status_t = JB_STATUS_INITIALIZING | JB_STATUS_PROCESSING

datatype pjmedia_jb_discard_algo =
    PJMEDIA_JB_DISCARD_NONE | PJMEDIA_JB_DISCARD_STATIC | PJMEDIA_JB_DISCARD_PROGRESSIVE

record pj_math_stat =
  stat_n :: int
  stat_max :: int
  stat_min :: int
  stat_last :: int

definition pj_math_stat_init :: pj_math_stat where
  "pj_math_stat_init = \<lparr>stat_n = 0, stat_max = 0, stat_min = 0, stat_last = 0\<rparr>"

definition pj_math_stat_update :: "pj_math_stat \<Rightarrow> int \<Rightarrow> pj_math_stat" where
  "pj_math_stat_update st val =
     \<lparr>stat_n = stat_n st + 1,
      stat_max = (if stat_n st \<noteq> 0 then (if stat_max st < val then val else stat_max st) else val),
      stat_min = (if stat_n st \<noteq> 0 then (if stat_min st > val then val else stat_min st) else val),
      stat_last = val\<rparr>"

record pjmedia_jbuf =
  jb_frame_size :: nat
  jb_frame_ptime :: nat
  jb_frame_ptime_denum :: nat
  jb_max_count :: nat
  jb_init_prefetch :: int
  jb_min_prefetch :: int
  jb_max_prefetch :: int
  jb_max_burst :: int
  jb_min_shrink_gap :: int
  jb_discard_algo :: pjmedia_jb_discard_algo
  jb_framelist :: jb_framelist_t
  jb_level :: int
  jb_max_hist_level :: int
  jb_stable_hist :: int
  jb_last_op :: pjmedia_jb_op
  jb_eff_level :: int
  jb_prefetch :: int
  jb_prefetching :: bool
  jb_status :: jb_status_t
  jb_init_cycle_cnt :: int
  jb_discard_ref :: int
  jb_discard_dist :: nat
  jb_delay :: pj_math_stat
  jb_burst :: pj_math_stat
  jb_lost :: nat
  jb_discard :: nat
  jb_empty :: nat

definition MAX_BURST_MSEC :: int where "MAX_BURST_MSEC = 1000"
definition INIT_CYCLE :: int where "INIT_CYCLE = 10"
definition STA_DISC_SAFE_SHRINKING_DIFF :: int where "STA_DISC_SAFE_SHRINKING_DIFF = 1"
definition PJMEDIA_JB_DEFAULT_INIT_DELAY :: int where "PJMEDIA_JB_DEFAULT_INIT_DELAY = 15"
definition PJMEDIA_JBUF_DISC_MIN_GAP :: int where "PJMEDIA_JBUF_DISC_MIN_GAP = 200"
definition PJMEDIA_JBUF_PRO_DISC_MIN_BURST :: int where "PJMEDIA_JBUF_PRO_DISC_MIN_BURST = 1"
definition PJMEDIA_JBUF_PRO_DISC_MAX_BURST :: int where "PJMEDIA_JBUF_PRO_DISC_MAX_BURST = 100"
definition PJMEDIA_JBUF_PRO_DISC_T1 :: int where "PJMEDIA_JBUF_PRO_DISC_T1 = 2000"
definition PJMEDIA_JBUF_PRO_DISC_T2 :: int where "PJMEDIA_JBUF_PRO_DISC_T2 = 10000"

definition u32_mul :: "int \<Rightarrow> int \<Rightarrow> int" where
  "u32_mul a b = (a * b) mod 2 ^ 32"

definition pjmedia_jbuf_set_discard :: "pjmedia_jbuf \<Rightarrow> pjmedia_jb_discard_algo \<Rightarrow> pjmedia_jbuf" where
  "pjmedia_jbuf_set_discard jb algo = jb\<lparr>jb_discard_algo := algo\<rparr>"

definition pjmedia_jbuf_reset :: "pjmedia_jbuf \<Rightarrow> pjmedia_jbuf" where
  "pjmedia_jbuf_reset jb =
     jb\<lparr>jb_level := 0, jb_last_op := JB_OP_INIT, jb_stable_hist := 0,
        jb_status := JB_STATUS_INITIALIZING, jb_init_cycle_cnt := 0, jb_max_hist_level := 0,
        jb_prefetching := (jb_prefetch jb \<noteq> 0), jb_discard_dist := 0,
        jb_framelist := jb_framelist_reset (jb_framelist jb)\<rparr>"

text \<open>
  \<open>fl\<close> is the result of \<open>jb_framelist_init\<close>. A \<open>ptime\<close> of zero would divide by zero, here and in
  \<open>pjmedia_jbuf_set_ptime2\<close>; the callers never pass it.
\<close>

definition pjmedia_jbuf_create :: "jb_framelist_t \<Rightarrow> nat \<Rightarrow> nat \<Rightarrow> nat \<Rightarrow> pjmedia_jbuf" where
  "pjmedia_jbuf_create fl frame_size ptime max_count =
     pjmedia_jbuf_reset (pjmedia_jbuf_set_discard
       \<lparr>jb_frame_size = frame_size, jb_frame_ptime = ptime, jb_frame_ptime_denum = 1,
        jb_max_count = max_count, jb_init_prefetch = 0, jb_min_prefetch = 0,
        jb_max_prefetch = u32_mul (int max_count) 4 div 5,
        jb_max_burst = max (MAX_BURST_MSEC div int ptime) (u32_mul (int max_count) 3 div 4),
        jb_min_shrink_gap = PJMEDIA_JBUF_DISC_MIN_GAP div int ptime,
        jb_discard_algo = PJMEDIA_JB_DISCARD_NONE, jb_framelist = fl,
        jb_level = 0, jb_max_hist_level = 0, jb_stable_hist = 0, jb_last_op = JB_OP_INIT, jb_eff_level = 0,
        jb_prefetch = min PJMEDIA_JB_DEFAULT_INIT_DELAY (u32_mul (int max_count) 4 div 5),
        jb_prefetching = False, jb_status = JB_STATUS_INITIALIZING, jb_init_cycle_cnt = 0,
        jb_discard_ref = 0, jb_discard_dist = 0, jb_delay = pj_math_stat_init, jb_burst = pj_math_stat_init,
        jb_lost = 0, jb_discard = 0, jb_empty = 0\<rparr> PJMEDIA_JB_DISCARD_PROGRESSIVE)"

definition pjmedia_jbuf_set_ptime2 :: "pjmedia_jbuf \<Rightarrow> nat \<Rightarrow> nat \<Rightarrow> pjmedia_jbuf" where
  "pjmedia_jbuf_set_ptime2 jb ptime ptime_denum =
     jb\<lparr>jb_frame_ptime := ptime, jb_frame_ptime_denum := ptime_denum,
        jb_min_shrink_gap := u32_mul PJMEDIA_JBUF_DISC_MIN_GAP (int ptime_denum) div int ptime,
        jb_max_burst := max (u32_mul MAX_BURST_MSEC (int ptime_denum) div int ptime) (int (jb_max_count jb) * 3 div 4)\<rparr>"

definition pjmedia_jbuf_set_ptime :: "pjmedia_jbuf \<Rightarrow> nat \<Rightarrow> pjmedia_jbuf" where
  "pjmedia_jbuf_set_ptime jb ptime = pjmedia_jbuf_set_ptime2 jb ptime 1"

definition pjmedia_jbuf_set_fixed :: "pjmedia_jbuf \<Rightarrow> nat \<Rightarrow> pjmedia_jbuf \<times> pj_status" where
  "pjmedia_jbuf_set_fixed jb prefetch =
     (if prefetch > jb_max_count jb then (jb, PJ_EINVAL)
      else (pjmedia_jbuf_set_discard
              (jb\<lparr>jb_min_prefetch := int prefetch, jb_max_prefetch := int prefetch,
                  jb_prefetch := int prefetch, jb_init_prefetch := int prefetch\<rparr>)
              PJMEDIA_JB_DISCARD_NONE, PJ_SUCCESS))"

definition pjmedia_jbuf_set_adaptive ::
    "pjmedia_jbuf \<Rightarrow> nat \<Rightarrow> nat \<Rightarrow> nat \<Rightarrow> pjmedia_jbuf \<times> pj_status" where
  "pjmedia_jbuf_set_adaptive jb prefetch min_prefetch max_prefetch =
     (if \<not> (min_prefetch \<le> max_prefetch \<and> prefetch \<le> max_prefetch \<and> max_prefetch \<le> jb_max_count jb)
      then (jb, PJ_EINVAL)
      else (jb\<lparr>jb_prefetch := int prefetch, jb_init_prefetch := int prefetch,
               jb_min_prefetch := int min_prefetch, jb_max_prefetch := int max_prefetch\<rparr>, PJ_SUCCESS))"

definition pjmedia_jbuf_is_full :: "pjmedia_jbuf \<Rightarrow> bool" where
  "pjmedia_jbuf_is_full jb \<longleftrightarrow> fl_size (jb_framelist jb) = fl_max_count (jb_framelist jb)"

text \<open>
  Level tracking. \<open>prefetch_lowered\<close> and \<open>prefetch_raised\<close> are the updates of the prefetch count in the
  two branches of \<open>jbuf_calculate_jitter\<close>, \<open>level_decreasing\<close> and \<open>level_increasing\<close> the branches.
\<close>

definition prefetch_lowered :: "pjmedia_jbuf \<Rightarrow> pjmedia_jbuf" where
  "prefetch_lowered jb =
     (if jb_init_prefetch jb \<noteq> 0
      then (let p = jb_eff_level jb;
                p = (if p < jb_min_prefetch jb then jb_min_prefetch jb else p);
                p = (if p > jb_max_prefetch jb then jb_max_prefetch jb else p)
            in jb\<lparr>jb_prefetch := p\<rparr>)
      else jb)"

definition prefetch_raised :: "pjmedia_jbuf \<Rightarrow> pjmedia_jbuf" where
  "prefetch_raised jb =
     (if jb_init_prefetch jb \<noteq> 0
      then (let p = jb_eff_level jb;
                p = (if p > jb_max_prefetch jb then jb_max_prefetch jb else p);
                p = (if p < jb_min_prefetch jb then jb_min_prefetch jb else p)
            in jb\<lparr>jb_prefetch := p\<rparr>)
      else jb)"

definition level_decreasing :: "pjmedia_jbuf \<Rightarrow> pjmedia_jbuf" where
  "level_decreasing jb =
     (let jb = jb\<lparr>jb_stable_hist := jb_stable_hist jb + 1\<rparr>
      in if jb_stable_hist jb > 20 then
           (let diff = c_div (jb_eff_level jb - jb_max_hist_level jb) 3;
                diff = (if diff < 1 then 1 else diff)
            in (prefetch_lowered (jb\<lparr>jb_eff_level := jb_eff_level jb - diff\<rparr>))
                 \<lparr>jb_max_hist_level := 0, jb_stable_hist := 0\<rparr>)
         else jb)"

definition level_increasing :: "pjmedia_jbuf \<Rightarrow> pjmedia_jbuf" where
  "level_increasing jb =
     (prefetch_raised (jb\<lparr>jb_eff_level := min (jb_max_hist_level jb) (int (jb_max_count jb) * 4 div 5)\<rparr>))
       \<lparr>jb_stable_hist := 0\<rparr>"

definition jbuf_calculate_jitter :: "pjmedia_jbuf \<Rightarrow> pjmedia_jbuf" where
  "jbuf_calculate_jitter jb0 =
     (let jb = jb0\<lparr>jb_burst := pj_math_stat_update (jb_burst jb0) (jb_level jb0),
                   jb_max_hist_level := max (jb_max_hist_level jb0) (jb_level jb0)\<rparr>
      in if jb_level jb < jb_eff_level jb then level_decreasing jb
         else if jb_level jb > jb_eff_level jb then level_increasing jb
         else jb\<lparr>jb_stable_hist := 0\<rparr>)"

definition jbuf_discard_static :: "pjmedia_jbuf \<Rightarrow> pjmedia_jbuf" where
  "jbuf_discard_static jb =
     (let burst_level = max (jb_eff_level jb) (jb_level jb);
          diff = i32_of_int (int (jb_framelist_eff_size (jb_framelist jb)) - burst_level * 2)
      in if diff \<ge> STA_DISC_SAFE_SHRINKING_DIFF then
           (let seq_origin = fl_origin (jb_framelist jb);
                jb = (if seq_origin < jb_discard_ref jb then jb\<lparr>jb_discard_ref := seq_origin\<rparr> else jb)
            in if seq_origin - jb_discard_ref jb \<ge> jb_min_shrink_gap jb then
                 (let (fl, diff) = jb_framelist_remove_head (jb_framelist jb) 1
                  in jb\<lparr>jb_framelist := fl, jb_discard_ref := fl_origin fl,
                        jb_discard := jb_discard jb + diff\<rparr>)
               else jb)
         else jb)"

text \<open>The time span over which the progressive algorithm spreads its discards.\<close>

definition progressive_T :: "int \<Rightarrow> int" where
  "progressive_T burst_level =
     (if burst_level \<le> PJMEDIA_JBUF_PRO_DISC_MIN_BURST then PJMEDIA_JBUF_PRO_DISC_T1
      else if burst_level \<ge> PJMEDIA_JBUF_PRO_DISC_MAX_BURST then PJMEDIA_JBUF_PRO_DISC_T2
      else PJMEDIA_JBUF_PRO_DISC_T1 +
           (PJMEDIA_JBUF_PRO_DISC_T2 - PJMEDIA_JBUF_PRO_DISC_T1) *
           (burst_level - PJMEDIA_JBUF_PRO_DISC_MIN_BURST) div
           (PJMEDIA_JBUF_PRO_DISC_MAX_BURST - PJMEDIA_JBUF_PRO_DISC_MIN_BURST))"

text \<open>
  The progressive algorithm: \<open>progressive_schedule\<close> computes the discard distance and reference,
  \<open>progressive_fire\<close> discards a frame when the distance is reached.
\<close>

definition progressive_last_seq :: "pjmedia_jbuf \<Rightarrow> int" where
  "progressive_last_seq jb = fl_origin (jb_framelist jb) + int (fl_size (jb_framelist jb)) - 1"

definition progressive_schedule :: "pjmedia_jbuf \<Rightarrow> int \<Rightarrow> int \<Rightarrow> pjmedia_jbuf" where
  "progressive_schedule jb cur_size burst_level =
     (let overflow = cur_size - burst_level;
          discard_dist = u32_mul (progressive_T burst_level) (int (jb_frame_ptime_denum jb))
                           div overflow div int (jb_frame_ptime jb);
          last_seq = progressive_last_seq jb
      in jb\<lparr>jb_discard_ref := (if jb_discard_dist jb = 0 then last_seq
                              else if last_seq < jb_discard_ref jb then last_seq
                              else jb_discard_ref jb),
            jb_discard_dist := nat (max (jb_min_shrink_gap jb) (i32_of_int discard_dist))\<rparr>)"

definition progressive_fire :: "pjmedia_jbuf \<Rightarrow> pjmedia_jbuf" where
  "progressive_fire jb =
     (if progressive_last_seq jb \<ge> jb_discard_ref jb + int (jb_discard_dist jb) then
        (let seq = jb_discard_ref jb + int (jb_discard_dist jb);
             discard_seq = (if seq < fl_origin (jb_framelist jb) then fl_origin (jb_framelist jb) else seq)
         in jb\<lparr>jb_framelist := fst (jb_framelist_discard (jb_framelist jb) discard_seq),
               jb_discard_ref := discard_seq\<rparr>)
      else jb)"

definition jbuf_discard_progressive :: "pjmedia_jbuf \<Rightarrow> pjmedia_jbuf" where
  "jbuf_discard_progressive jb =
     (if jb_last_op jb \<noteq> JB_OP_PUT then jb
      else let cur_size = int (jb_framelist_eff_size (jb_framelist jb));
               burst_level = max (jb_eff_level jb) (jb_level jb) mod 2 ^ 32
           in if cur_size \<le> burst_level then jb\<lparr>jb_discard_dist := 0\<rparr>
              else progressive_fire (progressive_schedule jb cur_size burst_level))"

definition run_discard_algo :: "pjmedia_jbuf \<Rightarrow> pjmedia_jbuf" where
  "run_discard_algo jb =
     (if jb_status jb = JB_STATUS_PROCESSING
      then (case jb_discard_algo jb of
              PJMEDIA_JB_DISCARD_NONE \<Rightarrow> jb
            | PJMEDIA_JB_DISCARD_STATIC \<Rightarrow> jbuf_discard_static jb
            | PJMEDIA_JB_DISCARD_PROGRESSIVE \<Rightarrow> jbuf_discard_progressive jb)
      else jb)"

definition jbuf_update :: "pjmedia_jbuf \<Rightarrow> pjmedia_jb_op \<Rightarrow> pjmedia_jbuf" where
  "jbuf_update jb oper =
     (if jb_last_op jb \<noteq> oper then
        (let jb = jb\<lparr>jb_last_op := oper\<rparr>;
             initializing = (jb_status jb = JB_STATUS_INITIALIZING);
             jb = (if initializing then jb\<lparr>jb_init_cycle_cnt := jb_init_cycle_cnt jb + 1\<rparr> else jb);
             switch = (jb_init_cycle_cnt jb \<ge> INIT_CYCLE \<and> oper = JB_OP_GET)
         in if initializing \<and> \<not> switch then jb\<lparr>jb_level := 0\<rparr>
            else let jb = (if initializing
                           then jb\<lparr>jb_status := JB_STATUS_PROCESSING,
                                   jb_level := min (jb_level jb) (jb_max_burst jb)\<rparr> else jb);
                     jb = (if oper = JB_OP_GET \<and> jb_level jb \<le> jb_max_burst jb
                           then jbuf_calculate_jitter jb else jb)
                 in run_discard_algo (jb\<lparr>jb_level := 0\<rparr>))
      else run_discard_algo jb)"

text \<open>The loop of \<open>pjmedia_jbuf_put_frame3\<close> that makes room in a full buffer.\<close>

partial_function (option) put_make_room ::
    "pjmedia_jbuf \<Rightarrow> pj_status \<Rightarrow> u8 list \<Rightarrow> u32 \<Rightarrow> int \<Rightarrow> u32 \<Rightarrow> (pjmedia_jbuf \<times> pj_status) option" where
  "put_make_room jb status frame bit_info frame_seq ts =
     (if status = PJ_ETOOMANY then
        (let distance = (frame_seq - fl_origin (jb_framelist jb)) - int (jb_max_count jb) + 1;
             (fl1, removed) = jb_framelist_remove_head (jb_framelist jb) (u32_of_int distance);
             (fl2, status) = jb_framelist_put_at fl1 frame_seq frame bit_info ts PJMEDIA_JB_NORMAL_FRAME
         in put_make_room (jb\<lparr>jb_framelist := fl2, jb_discard := jb_discard jb + removed\<rparr>) status
              frame bit_info frame_seq ts)
      else Some (jb, status))"

text \<open>The result is the buffer and the flag \<open>discarded\<close>.\<close>

definition pjmedia_jbuf_put_frame3 ::
    "pjmedia_jbuf \<Rightarrow> u8 list \<Rightarrow> u32 \<Rightarrow> int \<Rightarrow> u32 \<Rightarrow> (pjmedia_jbuf \<times> bool) option" where
  "pjmedia_jbuf_put_frame3 jb frame bit_info frame_seq ts =
     (let cur_size = i32_of_int (int (jb_framelist_eff_size (jb_framelist jb)));
          data = take (min (length frame) (jb_frame_size jb)) frame;
          (fl1, status) = jb_framelist_put_at (jb_framelist jb) frame_seq data bit_info ts
                            PJMEDIA_JB_NORMAL_FRAME
      in case put_make_room (jb\<lparr>jb_framelist := fl1\<rparr>) status data bit_info frame_seq ts of
           None \<Rightarrow> None
         | Some (jb1, status) \<Rightarrow>
             (let new_size = i32_of_int (int (jb_framelist_eff_size (jb_framelist jb1)))
              in if status = PJ_SUCCESS then
                   (let jb2 = (if jb_prefetching jb1 \<and> new_size \<ge> jb_prefetch jb1
                               then jb1\<lparr>jb_prefetching := False\<rparr> else jb1);
                        jb3 = jb2\<lparr>jb_level := jb_level jb2 +
                                 (if new_size > cur_size then new_size - cur_size else 1)\<rparr>
                    in Some (jbuf_update jb3 JB_OP_PUT, False))
                 else Some (jb1\<lparr>jb_discard := jb_discard jb1 + 1\<rparr>, True)))"

definition pjmedia_jbuf_put_frame2 ::
    "pjmedia_jbuf \<Rightarrow> u8 list \<Rightarrow> u32 \<Rightarrow> int \<Rightarrow> (pjmedia_jbuf \<times> bool) option" where
  "pjmedia_jbuf_put_frame2 jb frame bit_info frame_seq =
     pjmedia_jbuf_put_frame3 jb frame bit_info frame_seq 0"

definition pjmedia_jbuf_put_frame :: "pjmedia_jbuf \<Rightarrow> u8 list \<Rightarrow> int \<Rightarrow> pjmedia_jbuf option" where
  "pjmedia_jbuf_put_frame jb frame frame_seq =
     map_option fst (pjmedia_jbuf_put_frame3 jb frame 0 frame_seq 0)"

text \<open>
  \<open>pjmedia_jbuf_get_frame3\<close> yields the frame type it reports and the frame taken off the list,
  if any; the caller passes the size of its buffer or none.
\<close>

definition pjmedia_jbuf_get_frame3 ::
    "pjmedia_jbuf \<Rightarrow> nat option \<Rightarrow> (pjmedia_jbuf \<times> pjmedia_jb_frame_type \<times> jb_frame option) option" where
  "pjmedia_jbuf_get_frame3 jb cap =
     map_option (\<lambda>(jb1, ty, f). (jbuf_update (jb1\<lparr>jb_level := jb_level jb1 + 1\<rparr>) JB_OP_GET, ty, f))
       (if jb_prefetching jb
        then Some (jb\<lparr>jb_empty := jb_empty jb + 1\<rparr>, PJMEDIA_JB_ZERO_PREFETCH_FRAME, None)
        else case jb_framelist_get (jb_framelist jb) cap of
            None \<Rightarrow> None
          | Some (fl, Some f) \<Rightarrow>
              (let jb1 = jb\<lparr>jb_framelist := fl\<rparr>;
                   normal = (jf_type f = PJMEDIA_JB_NORMAL_FRAME);
                   jb2 = (if normal then jb1 else jb1\<lparr>jb_lost := jb_lost jb1 + 1\<rparr>);
                   jb3 = (if jb_last_op jb2 = JB_OP_PUT
                          then jb2\<lparr>jb_delay := pj_math_stat_update (jb_delay jb2)
                                 (u32_mul (int (jb_framelist_eff_size fl) + 1) (int (jb_frame_ptime jb2))
                                  div int (jb_frame_ptime_denum jb2))\<rparr>
                          else jb2)
               in Some (jb3, if normal then PJMEDIA_JB_NORMAL_FRAME else PJMEDIA_JB_MISSING_FRAME, Some f))
          | Some (fl, None) \<Rightarrow>
              (let jb1 = jb\<lparr>jb_framelist := fl\<rparr>;
                   jb2 = (if jb_prefetch jb1 \<noteq> 0 then jb1\<lparr>jb_prefetching := True\<rparr> else jb1)
               in Some (jb2\<lparr>jb_empty := jb_empty jb2 + 1\<rparr>, PJMEDIA_JB_ZERO_EMPTY_FRAME, None)))"

definition pjmedia_jbuf_get_frame2 ::
    "pjmedia_jbuf \<Rightarrow> nat option \<Rightarrow> (pjmedia_jbuf \<times> pjmedia_jb_frame_type \<times> jb_frame option) option" where
  "pjmedia_jbuf_get_frame2 jb cap = pjmedia_jbuf_get_frame3 jb cap"

definition pjmedia_jbuf_get_frame ::
    "pjmedia_jbuf \<Rightarrow> (pjmedia_jbuf \<times> pjmedia_jb_frame_type \<times> jb_frame option) option" where
  "pjmedia_jbuf_get_frame jb = pjmedia_jbuf_get_frame3 jb None"

record pjmedia_jb_state =
  state_frame_size :: nat
  state_min_prefetch :: int
  state_max_prefetch :: int
  state_max_count :: nat
  state_burst :: int
  state_prefetch :: int
  state_size :: nat
  state_min_delay :: int
  state_max_delay :: int
  state_empty :: nat
  state_discard :: nat
  state_lost :: nat

definition pjmedia_jbuf_get_state :: "pjmedia_jbuf \<Rightarrow> pjmedia_jb_state" where
  "pjmedia_jbuf_get_state jb =
     \<lparr>state_frame_size = jb_frame_size jb, state_min_prefetch = jb_min_prefetch jb,
      state_max_prefetch = jb_max_prefetch jb, state_max_count = jb_max_count jb,
      state_burst = jb_eff_level jb, state_prefetch = jb_prefetch jb,
      state_size = jb_framelist_eff_size (jb_framelist jb),
      state_min_delay = stat_min (jb_delay jb), state_max_delay = stat_max (jb_delay jb),
      state_empty = jb_empty jb, state_discard = jb_discard jb, state_lost = jb_lost jb\<rparr>"

definition pjmedia_jbuf_peek_frame ::
    "pjmedia_jbuf \<Rightarrow> nat \<Rightarrow> (pjmedia_jb_frame_type \<times> jb_frame option) option" where
  "pjmedia_jbuf_peek_frame jb offset =
     map_option (\<lambda>res. case res of
         None \<Rightarrow> (PJMEDIA_JB_ZERO_EMPTY_FRAME, None)
       | Some f \<Rightarrow> (if jf_type f = PJMEDIA_JB_NORMAL_FRAME then PJMEDIA_JB_NORMAL_FRAME
                    else PJMEDIA_JB_MISSING_FRAME, Some f))
       (jb_framelist_peek (jb_framelist jb) offset)"

function remove_more :: "jb_framelist_t \<Rightarrow> nat \<Rightarrow> nat \<Rightarrow> jb_framelist_t \<times> nat" where
  "remove_more fl last_discard_num cnt =
     (if fl_discarded_num fl < last_discard_num then
        (let frame_cnt = last_discard_num - fl_discarded_num fl;
             (fl1, n) = jb_framelist_remove_head fl frame_cnt
         in remove_more fl1 (fl_discarded_num fl) (u32_of_int (int cnt - int frame_cnt + int n)))
      else (fl, cnt))"
  by pat_completeness auto
termination
  by (relation "measure (\<lambda>(fl, last_discard_num, cnt). last_discard_num)") auto

declare remove_more.simps [simp del]

definition pjmedia_jbuf_remove_frame :: "pjmedia_jbuf \<Rightarrow> nat \<Rightarrow> pjmedia_jbuf \<times> nat" where
  "pjmedia_jbuf_remove_frame jb frame_cnt =
     (let (fl, cnt) = jb_framelist_remove_head (jb_framelist jb) frame_cnt;
          (fl1, cnt1) = remove_more fl (fl_discarded_num (jb_framelist jb)) cnt
      in (jb\<lparr>jb_framelist := fl1\<rparr>, cnt1))"

section \<open>The frame list as a window of cells\<close>

text \<open>
  What the frame list stands for: the frames from the head on, in sequence order. A missing
  cell has no content; the source leaves whatever the arrays held before in such a slot.
\<close>

datatype jb_cell = Missing | Discarded | Normal (cell_data: "u8 list") (cell_bits: u32) (cell_ts: u32)

definition slot :: "jb_framelist_t \<Rightarrow> nat \<Rightarrow> nat" where
  "slot fl i = (fl_head fl + i) mod fl_max_count fl"

definition cell_at :: "jb_framelist_t \<Rightarrow> nat \<Rightarrow> jb_cell" where
  "cell_at fl p = (case fl_frame_type fl ! p of
      PJMEDIA_JB_NORMAL_FRAME \<Rightarrow>
        Normal (slot_content fl p (fl_content_len fl ! p)) (fl_bit_info fl ! p) (fl_ts fl ! p)
    | PJMEDIA_JB_DISCARDED_FRAME \<Rightarrow> Discarded
    | _ \<Rightarrow> Missing)"

definition fl_win :: "jb_framelist_t \<Rightarrow> jb_cell list" where
  "fl_win fl = map (\<lambda>i. cell_at fl (slot fl i)) [0..<fl_size fl]"

definition n_disc :: "jb_cell list \<Rightarrow> nat" where
  "n_disc cs = length (filter (\<lambda>c. c = Discarded) cs)"

definition fl_shape :: "jb_framelist_t \<Rightarrow> bool" where
  "fl_shape fl \<longleftrightarrow> 0 < fl_max_count fl \<and> fl_max_count fl < 2 ^ 31 \<and>
     length (fl_content fl) = fl_frame_size fl * fl_max_count fl \<and>
     length (fl_frame_type fl) = fl_max_count fl \<and> length (fl_content_len fl) = fl_max_count fl \<and>
     length (fl_bit_info fl) = fl_max_count fl \<and> length (fl_ts fl) = fl_max_count fl \<and>
     fl_head fl < fl_max_count fl \<and> fl_size fl \<le> fl_max_count fl"

definition stored_type :: "pjmedia_jb_frame_type \<Rightarrow> bool" where
  "stored_type t \<longleftrightarrow> t = PJMEDIA_JB_MISSING_FRAME \<or> t = PJMEDIA_JB_NORMAL_FRAME \<or> t = PJMEDIA_JB_DISCARDED_FRAME"

definition fl_wf :: "jb_framelist_t \<Rightarrow> bool" where
  "fl_wf fl \<longleftrightarrow> fl_shape fl \<and> (\<forall>p < fl_max_count fl. fl_content_len fl ! p \<le> fl_frame_size fl) \<and>
     (\<forall>p < fl_max_count fl. stored_type (fl_frame_type fl ! p)) \<and>
     (\<forall>i < fl_max_count fl. fl_size fl \<le> i \<longrightarrow> fl_frame_type fl ! slot fl i = PJMEDIA_JB_MISSING_FRAME)"

text \<open>The counter of discarded frames is exact.\<close>

definition fl_exact :: "jb_framelist_t \<Rightarrow> bool" where
  "fl_exact fl \<longleftrightarrow> fl_discarded_num fl = n_disc (fl_win fl)"

lemma fl_shapeD:
  assumes "fl_shape fl"
  shows "0 < fl_max_count fl" "fl_max_count fl < 2 ^ 31"
    "length (fl_content fl) = fl_frame_size fl * fl_max_count fl"
    "length (fl_frame_type fl) = fl_max_count fl" "length (fl_content_len fl) = fl_max_count fl"
    "length (fl_bit_info fl) = fl_max_count fl" "length (fl_ts fl) = fl_max_count fl"
    "fl_head fl < fl_max_count fl" "fl_size fl \<le> fl_max_count fl"
  using assms by (auto simp: fl_shape_def)

lemma fl_wfD:
  assumes "fl_wf fl"
  shows "fl_shape fl" "p < fl_max_count fl \<Longrightarrow> fl_content_len fl ! p \<le> fl_frame_size fl"
    "p < fl_max_count fl \<Longrightarrow> stored_type (fl_frame_type fl ! p)"
    "i < fl_max_count fl \<Longrightarrow> fl_size fl \<le> i \<Longrightarrow> fl_frame_type fl ! slot fl i = PJMEDIA_JB_MISSING_FRAME"
  using assms by (auto simp: fl_wf_def)

lemma length_fl_win [simp]: "length (fl_win fl) = fl_size fl"
  by (simp add: fl_win_def)

lemma nth_fl_win [simp]: "i < fl_size fl \<Longrightarrow> fl_win fl ! i = cell_at fl (slot fl i)"
  by (simp add: fl_win_def)

lemma n_disc_le: "n_disc cs \<le> length cs"
  by (simp add: n_disc_def)

lemma n_disc_append [simp]: "n_disc (xs @ ys) = n_disc xs + n_disc ys"
  by (simp add: n_disc_def)

lemma n_disc_take_drop: "n_disc (take n cs) + n_disc (drop n cs) = n_disc cs"
  by (metis append_take_drop_id n_disc_append)

lemma n_disc_simps [simp]:
  "n_disc [] = 0" "n_disc (c # cs) = (if c = Discarded then Suc (n_disc cs) else n_disc cs)"
  "n_disc (replicate n Missing) = 0"
  by (simp_all add: n_disc_def filter_replicate)

subsection \<open>Slots of the ring\<close>

lemma slot_lt: "0 < fl_max_count fl \<Longrightarrow> slot fl i < fl_max_count fl"
  by (simp add: slot_def)

lemma slot_0: "fl_head fl < fl_max_count fl \<Longrightarrow> slot fl 0 = fl_head fl"
  by (simp add: slot_def)

lemma slot_split:
  "fl_head fl < fl_max_count fl \<Longrightarrow> i < fl_max_count fl \<Longrightarrow>
   slot fl i = (if fl_head fl + i < fl_max_count fl then fl_head fl + i else fl_head fl + i - fl_max_count fl)"
  by (simp add: slot_def mod_if [of "fl_head fl + i - fl_max_count fl"] le_mod_geq)

lemma slot_inj:
  "fl_head fl < fl_max_count fl \<Longrightarrow> i < fl_max_count fl \<Longrightarrow> j < fl_max_count fl \<Longrightarrow>
   slot fl i = slot fl j \<longleftrightarrow> i = j"
  by (auto simp: slot_split split: if_splits)

lemma slot_surj:
  assumes "fl_head fl < fl_max_count fl" and "p < fl_max_count fl"
  obtains i where "i < fl_max_count fl" and "p = slot fl i"
proof (cases "fl_head fl \<le> p")
  case True
  with assms that [of "p - fl_head fl"] show ?thesis by (simp add: slot_split)
next
  case False
  with assms that [of "p + fl_max_count fl - fl_head fl"] show ?thesis by (simp add: slot_split)
qed

lemma slot_wrap:
  "fl_max_count fl \<le> i \<Longrightarrow> slot fl i = slot fl (i - fl_max_count fl)"
  by (simp add: slot_def mod_if [of "fl_head fl + i"] le_mod_geq)

lemma slot_advance:
  assumes "fl_head fl' = (fl_head fl + c) mod fl_max_count fl" "fl_max_count fl' = fl_max_count fl"
  shows "slot fl' i = slot fl (c + i)"
  by (simp add: slot_def assms mod_add_left_eq add.assoc)

text \<open>The two ranges that \<open>jb_framelist_remove_head\<close> clears are the first slots of the ring.\<close>

lemma head_ranges:
  assumes h: "fl_head fl < fl_max_count fl" and c: "c \<le> fl_max_count fl"
  defines "s1 \<equiv> (if fl_head fl + c > fl_max_count fl then fl_max_count fl - fl_head fl else c)"
  shows "[fl_head fl..<fl_head fl + s1] @ [0..<c - s1] = map (slot fl) [0..<c]"
proof (rule nth_equalityI)
  show "length ([fl_head fl..<fl_head fl + s1] @ [0..<c - s1]) = length (map (slot fl) [0..<c])"
    by (simp add: s1_def)
  fix i assume "i < length ([fl_head fl..<fl_head fl + s1] @ [0..<c - s1])"
  then have "i < c" by (simp add: s1_def split: if_splits)
  then show "([fl_head fl..<fl_head fl + s1] @ [0..<c - s1]) ! i = map (slot fl) [0..<c] ! i"
    using h c by (auto simp: s1_def nth_append slot_split)
qed

lemma length_fill [simp]: "a + n \<le> length xs \<Longrightarrow> length (fill a n v xs) = length xs"
  by (simp add: fill_def)

lemma nth_fill:
  "a + n \<le> length xs \<Longrightarrow> i < length xs \<Longrightarrow> fill a n v xs ! i = (if a \<le> i \<and> i < a + n then v else xs ! i)"
  by (auto simp: fill_def nth_append)
subsection \<open>Removing frames from the head\<close>

lemma u32_sub_twice: "u32_sub (u32_sub n a) b = u32_sub n (a + b)"
proof -
  have "int (u32_sub n a) = (int n - int a) mod 2 ^ 32" by (simp add: u32_sub_def u32_of_int_def)
  then have "(int (u32_sub n a) - int b) mod 2 ^ 32 = (int n - int a - int b) mod 2 ^ 32"
    by (simp only: mod_diff_left_eq)
  then show ?thesis by (simp add: u32_sub_def [of _ b] u32_sub_def [of n "a + b"] u32_of_int_def algebra_simps)
qed

lemma u32_sub_exact [simp]: "b \<le> a \<Longrightarrow> a < 2 ^ 32 \<Longrightarrow> u32_sub a b = a - b"
  by (simp add: u32_sub_def)

definition cleared :: "jb_framelist_t \<Rightarrow> nat \<Rightarrow> pjmedia_jb_frame_type list \<Rightarrow> nat list \<Rightarrow> bool" where
  "cleared fl c T L \<longleftrightarrow> length T = fl_max_count fl \<and> length L = fl_max_count fl \<and>
     (\<forall>i < fl_max_count fl. T ! slot fl i = (if i < c then PJMEDIA_JB_MISSING_FRAME else fl_frame_type fl ! slot fl i) \<and>
        L ! slot fl i = (if i < c then 0 else fl_content_len fl ! slot fl i))"

lemma cell_disc: "cell_at fl p = Discarded \<longleftrightarrow> fl_frame_type fl ! p = PJMEDIA_JB_DISCARDED_FRAME"
  by (simp add: cell_at_def split: pjmedia_jb_frame_type.splits)

lemma n_disc_take:
  "c \<le> fl_size fl \<Longrightarrow> n_disc (take c (fl_win fl)) =
   length (filter (\<lambda>p. fl_frame_type fl ! p = PJMEDIA_JB_DISCARDED_FRAME) (map (slot fl) [0..<c]))"
  by (simp add: n_disc_def fl_win_def take_map filter_map comp_def cell_disc)

lemma remove_head_unfold:
  assumes sh: "fl_shape fl" and c: "c = min cnt (fl_size fl)" "0 < c"
  obtains T L where "cleared fl c T L" and "jb_framelist_remove_head fl cnt =
    (fl\<lparr>fl_discarded_num := u32_sub (fl_discarded_num fl) (n_disc (take c (fl_win fl))),
        fl_frame_type := T, fl_content_len := L, fl_origin := fl_origin fl + int c,
        fl_head := (fl_head fl + c) mod fl_max_count fl, fl_size := fl_size fl - c\<rparr>, c)"
proof -
  note s = fl_shapeD [OF sh]
  have cm: "c \<le> fl_max_count fl" "c \<le> fl_size fl" using c s by auto
  define s1 where "s1 = (if fl_head fl + c > fl_max_count fl then fl_max_count fl - fl_head fl else c)"
  define s2 where "s2 = c - s1"
  have rng: "[fl_head fl..<fl_head fl + s1] @ [0..<s2] = map (slot fl) [0..<c]"
    unfolding s2_def s1_def by (rule head_ranges [OF s(8) cm(1)])
  have b1: "fl_head fl + s1 \<le> fl_max_count fl" and b2: "s2 \<le> fl_head fl"
    using s(8) cm(1) by (auto simp: s2_def s1_def)
  let ?P = "\<lambda>fl p. fl_frame_type fl ! p = PJMEDIA_JB_DISCARDED_FRAME"
  define fl1 where "fl1 = clear_slots (fl_head fl) s1 fl"
  define fl2 where "fl2 = (if s2 \<noteq> 0 then clear_slots 0 s2 fl1 else fl1)"
  have "filter (?P fl1) [0..<s2] = filter (?P fl) [0..<s2]"
    using b1 b2 s(4) by (intro filter_cong) (auto simp: fl1_def clear_slots_def nth_fill)
  then have dn: "fl_discarded_num fl2 = u32_sub (fl_discarded_num fl) (n_disc (take c (fl_win fl)))"
    unfolding n_disc_take [OF cm(2)] rng [symmetric]
    by (simp add: fl2_def clear_slots_def u32_sub_twice) (simp add: fl1_def clear_slots_def u32_sub_twice)
  have mem: "(fl_head fl \<le> p \<and> p < fl_head fl + s1 \<or> p < s2) \<longleftrightarrow> p \<in> slot fl ` {0..<c}" for p
    using arg_cong [OF rng, of set] by (auto simp: atLeastLessThan_def)
  have sl: "slot fl i \<in> slot fl ` {0..<c} \<longleftrightarrow> i < c" if "i < fl_max_count fl" for i
    using that cm(1) slot_inj [OF s(8)] by (auto simp: image_iff)
  have cl: "cleared fl c (fl_frame_type fl2) (fl_content_len fl2)"
    unfolding cleared_def
  proof (intro conjI allI impI)
    show "length (fl_frame_type fl2) = fl_max_count fl" "length (fl_content_len fl2) = fl_max_count fl"
      using b1 b2 s(4,5,8) by (simp_all add: fl2_def fl1_def clear_slots_def)
    fix i assume i: "i < fl_max_count fl"
    have "slot fl i < fl_max_count fl" by (rule slot_lt [OF s(1)])
    then show "fl_frame_type fl2 ! slot fl i = (if i < c then PJMEDIA_JB_MISSING_FRAME else fl_frame_type fl ! slot fl i)"
      "fl_content_len fl2 ! slot fl i = (if i < c then 0 else fl_content_len fl ! slot fl i)"
      unfolding sl [OF i, symmetric] mem [symmetric]
      using b1 b2 s(4,5,8) by (auto simp: fl2_def fl1_def clear_slots_def nth_fill)
  qed
  have eq: "jb_framelist_remove_head fl cnt =
    (fl2\<lparr>fl_origin := fl_origin fl + int c,
        fl_head := (fl_head fl + c) mod fl_max_count fl, fl_size := fl_size fl - c\<rparr>, c)"
  proof -
    have "(if fl_head fl + c > fl_max_count fl
        then (fl_max_count fl - fl_head fl, c - (fl_max_count fl - fl_head fl)) else (c, 0)) = (s1, s2)"
      by (simp add: s1_def s2_def)
    moreover have "(if cnt > fl_size fl then fl_size fl else cnt) = c" using c by simp
    ultimately show ?thesis
      using c(2) by (simp add: jb_framelist_remove_head_def Let_def fl1_def [symmetric] fl2_def [symmetric])
        (simp add: fl2_def fl1_def clear_slots_def)
  qed
  have fl2: "fl2 = fl\<lparr>fl_discarded_num := fl_discarded_num fl2, fl_frame_type := fl_frame_type fl2,
      fl_content_len := fl_content_len fl2\<rparr>"
    by (cases fl) (simp add: fl2_def fl1_def clear_slots_def)
  show thesis
    by (rule that [OF cl])
      (use eq dn arg_cong [OF fl2, where f = "\<lambda>x. (x\<lparr>fl_origin := fl_origin fl + int c,
        fl_head := (fl_head fl + c) mod fl_max_count fl, fl_size := fl_size fl - c\<rparr>, c)"] in simp)
qed
text \<open>Two lists with the same settings and agreeing on a slot have the same cell there.\<close>

lemma cell_at_cong:
  assumes "fl_frame_type fl' ! p = fl_frame_type fl ! p" "fl_content_len fl' ! p = fl_content_len fl ! p"
    "fl_content fl' = fl_content fl" "fl_frame_size fl' = fl_frame_size fl"
    "fl_bit_info fl' ! p = fl_bit_info fl ! p" "fl_ts fl' ! p = fl_ts fl ! p"
  shows "cell_at fl' p = cell_at fl p"
  using assms by (simp add: cell_at_def slot_content_def cong: pjmedia_jb_frame_type.case_cong)

text \<open>Advancing the head over c cleared slots drops c cells of the window.\<close>

lemma advance_spec:
  fixes d :: nat
  assumes wf: "fl_wf fl" and cl: "cleared fl c T L" and cs: "c \<le> fl_size fl"
    and B: "length B = fl_max_count fl" "\<And>i. c \<le> i \<Longrightarrow> i < fl_max_count fl \<Longrightarrow> B ! slot fl i = fl_bit_info fl ! slot fl i"
    and S: "length S = fl_max_count fl" "\<And>i. c \<le> i \<Longrightarrow> i < fl_max_count fl \<Longrightarrow> S ! slot fl i = fl_ts fl ! slot fl i"
  defines "fl' \<equiv> fl\<lparr>fl_discarded_num := d, fl_frame_type := T, fl_content_len := L, fl_bit_info := B, fl_ts := S,
        fl_origin := fl_origin fl + int c, fl_head := (fl_head fl + c) mod fl_max_count fl, fl_size := fl_size fl - c\<rparr>"
  shows "fl_wf fl'" "fl_win fl' = drop c (fl_win fl)"
proof -
  note s = fl_shapeD [OF fl_wfD(1) [OF wf]]
  note cl' = cl [unfolded cleared_def]
  have sl: "slot fl' i = slot fl (c + i)" for i by (rule slot_advance) (simp_all add: fl'_def)
  have flds: "fl_frame_type fl' = T" "fl_content_len fl' = L" "fl_size fl' = fl_size fl - c"
    "fl_max_count fl' = fl_max_count fl" "fl_frame_size fl' = fl_frame_size fl"
    by (simp_all add: fl'_def)
  show "fl_win fl' = drop c (fl_win fl)"
  proof (rule nth_equalityI)
    fix i assume "i < length (fl_win fl')"
    then have i: "i < fl_size fl - c" by (simp add: flds)
    then have "cell_at fl' (slot fl (c + i)) = cell_at fl (slot fl (c + i))"
      using cl' s(9) B(2) S(2) by (intro cell_at_cong) (auto simp: fl'_def)
    then show "fl_win fl' ! i = drop c (fl_win fl) ! i" using i cs by (simp add: flds sl)
  qed (simp add: flds)
  have "fl_shape fl'" using s cl' B(1) S(1) by (simp add: fl_shape_def fl'_def)
  moreover have TL: "(T ! p = PJMEDIA_JB_MISSING_FRAME \<or> T ! p = fl_frame_type fl ! p) \<and>
      (L ! p = 0 \<or> L ! p = fl_content_len fl ! p)" if p: "p < fl_max_count fl" for p
  proof -
    obtain i where "i < fl_max_count fl" "p = slot fl i" using slot_surj [OF s(8) p] .
    then show ?thesis using cl' by auto
  qed
  moreover have "T ! slot fl' i = PJMEDIA_JB_MISSING_FRAME" if "i < fl_max_count fl" "fl_size fl - c \<le> i" for i
    using that cl' fl_wfD(4) [OF wf, of "c + i"] cs s(9) slot_wrap [of fl "c + i"]
    by (cases "c + i < fl_max_count fl") (auto simp: sl)
  moreover have "stored_type (T ! p)" "L ! p \<le> fl_frame_size fl" if "p < fl_max_count fl" for p
    using TL [OF that] fl_wfD(2,3) [OF wf that] by (auto simp: stored_type_def)
  ultimately show "fl_wf fl'" by (simp add: fl_wf_def flds)
qed

lemma remove_head_cases:
  assumes wf: "fl_wf fl" and eq: "jb_framelist_remove_head fl cnt = (fl', c)"
  shows "c = min cnt (fl_size fl) \<and> fl_wf fl' \<and> fl_win fl' = drop c (fl_win fl) \<and>
    fl_origin fl' = fl_origin fl + int c \<and> fl_max_count fl' = fl_max_count fl \<and>
    fl_frame_size fl' = fl_frame_size fl \<and> fl_size fl' = fl_size fl - c \<and>
    (c = 0 \<and> fl' = fl \<or> fl_discarded_num fl' = u32_sub (fl_discarded_num fl) (n_disc (take c (fl_win fl))))"
proof (cases "min cnt (fl_size fl) = 0")
  case True
  then have "fl' = fl \<and> c = 0"
    using eq by (auto simp: jb_framelist_remove_head_def min_def Let_def split: if_splits)
  then show ?thesis using True wf by simp
next
  case False
  let ?c = "min cnt (fl_size fl)"
  obtain T L where cl: "cleared fl ?c T L" and rm: "jb_framelist_remove_head fl cnt =
      (fl\<lparr>fl_discarded_num := u32_sub (fl_discarded_num fl) (n_disc (take ?c (fl_win fl))),
        fl_frame_type := T, fl_content_len := L, fl_origin := fl_origin fl + int ?c,
        fl_head := (fl_head fl + ?c) mod fl_max_count fl, fl_size := fl_size fl - ?c\<rparr>, ?c)"
    using remove_head_unfold [OF fl_wfD(1) [OF wf] refl] False by blast
  note s = fl_shapeD(6,7) [OF fl_wfD(1) [OF wf]]
  have "fl_wf (fl\<lparr>fl_discarded_num := d, fl_frame_type := T, fl_content_len := L, fl_origin := fl_origin fl + int ?c,
        fl_head := (fl_head fl + ?c) mod fl_max_count fl, fl_size := fl_size fl - ?c\<rparr>) \<and>
      fl_win (fl\<lparr>fl_discarded_num := d, fl_frame_type := T, fl_content_len := L, fl_origin := fl_origin fl + int ?c,
        fl_head := (fl_head fl + ?c) mod fl_max_count fl, fl_size := fl_size fl - ?c\<rparr>) = drop ?c (fl_win fl)" for d
    using advance_spec [OF wf cl, of "fl_bit_info fl" "fl_ts fl" d] s by simp
  then show ?thesis using rm eq by auto
qed

lemma fl_exact_lt: "fl_wf fl \<Longrightarrow> fl_exact fl \<Longrightarrow> fl_discarded_num fl \<le> fl_size fl \<and> fl_size fl < 2 ^ 31"
  using n_disc_le [of "fl_win fl"] fl_shapeD(2,9) [OF fl_wfD(1), of fl] by (simp add: fl_exact_def)

lemma eff_size_exact: "fl_wf fl \<Longrightarrow> fl_exact fl \<Longrightarrow> jb_framelist_eff_size fl = fl_size fl - n_disc (fl_win fl)"
  using fl_exact_lt [of fl] by (simp add: jb_framelist_eff_size_def fl_exact_def)

lemma remove_head_exact:
  assumes wf: "fl_wf fl" and ex: "fl_exact fl" and eq: "jb_framelist_remove_head fl cnt = (fl', c)"
  shows "fl_exact fl'"
proof -
  note r = remove_head_cases [OF wf eq]
  have "n_disc (take c (fl_win fl)) + n_disc (fl_win fl') = fl_discarded_num fl"
    using ex r n_disc_take_drop by (simp add: fl_exact_def)
  moreover have "fl_discarded_num fl < 2 ^ 32" using fl_exact_lt [OF wf ex] by simp
  moreover have "fl' = fl \<or> fl_discarded_num fl' = u32_sub (fl_discarded_num fl) (n_disc (take c (fl_win fl)))"
    using r by blast
  ultimately show ?thesis using ex by (elim disjE) (simp_all add: fl_exact_def)
qed

subsection \<open>Taking the next frame\<close>

abbreviation is_disc :: "jb_cell \<Rightarrow> bool" where
  "is_disc c \<equiv> c = Discarded"

lemma head_missing_if_empty:
  "fl_wf fl \<Longrightarrow> fl_size fl = 0 \<Longrightarrow> fl_frame_type fl ! fl_head fl = PJMEDIA_JB_MISSING_FRAME"
  using fl_wfD(4) [of fl 0] fl_shapeD(1,8) [OF fl_wfD(1), of fl] by (simp add: slot_0)

lemma win_Cons:
  assumes wf: "fl_wf fl" and "fl_size fl \<noteq> 0"
  shows "fl_win fl = cell_at fl (fl_head fl) # drop 1 (fl_win fl)"
proof -
  have "fl_win fl \<noteq> []" using assms(2) length_fl_win [of fl] by fastforce
  then have "fl_win fl = hd (fl_win fl) # drop 1 (fl_win fl)" by (cases "fl_win fl") auto
  moreover have "hd (fl_win fl) = cell_at fl (fl_head fl)"
    using \<open>fl_win fl \<noteq> []\<close> assms(2) slot_0 fl_shapeD(8) [OF fl_wfD(1) [OF wf]] by (simp add: hd_conv_nth)
  ultimately show ?thesis by simp
qed

lemma win_Nil: "fl_size fl = 0 \<Longrightarrow> fl_win fl = []"
  by (simp add: fl_win_def)

definition skip_post :: "jb_framelist_t \<Rightarrow> nat \<Rightarrow> jb_framelist_t \<Rightarrow> bool" where
  "skip_post fl k fl' \<longleftrightarrow> fl_wf fl' \<and> fl_win fl' = drop k (fl_win fl) \<and> fl_origin fl' = fl_origin fl + int k \<and>
     (fl_exact fl \<longrightarrow> fl_exact fl') \<and> fl_max_count fl' = fl_max_count fl \<and> fl_frame_size fl' = fl_frame_size fl"

lemma skip_discarded_spec:
  assumes "fl_wf fl"
  defines "k \<equiv> length (takeWhile is_disc (fl_win fl))"
  shows "\<exists>fl'. skip_discarded fl b = Some (fl', b \<or> 0 < k) \<and> skip_post fl k fl' \<and>
    fl_win fl' = dropWhile is_disc (fl_win fl)"
  unfolding k_def using assms(1)
proof (induction "fl_size fl" arbitrary: fl b rule: less_induct)
  case less
  note wf = less.prems
  show ?case
  proof (cases "fl_frame_type fl ! fl_head fl = PJMEDIA_JB_DISCARDED_FRAME")
    case True
    then have ne: "fl_size fl \<noteq> 0" using head_missing_if_empty [OF wf] by auto
    obtain fl1 c where rm: "jb_framelist_remove_head fl 1 = (fl1, c)" by force
    note r = remove_head_cases [OF wf rm]
    have c: "c = 1" using r ne by auto
    have w: "fl_win fl = Discarded # fl_win fl1"
      using win_Cons [OF wf ne] cell_disc [of fl "fl_head fl"] True r c by simp
    have "fl_size fl1 < fl_size fl" "fl_wf fl1" using r c ne by auto
    from less.hyps [OF this, of True] obtain fl'
      where fl': "skip_discarded fl1 True = Some (fl', True)"
        "skip_post fl1 (length (takeWhile is_disc (fl_win fl1))) fl'"
        "fl_win fl' = dropWhile is_disc (fl_win fl1)"
      by auto
    have "skip_discarded fl b = Some (fl', True)"
      using fl'(1) True rm by (subst skip_discarded.simps) simp
    moreover have "skip_post fl (length (takeWhile is_disc (fl_win fl))) fl'"
    proof -
      let ?k = "length (takeWhile is_disc (fl_win fl1))"
      have k: "length (takeWhile is_disc (fl_win fl)) = Suc ?k" by (simp add: w)
      have "drop (Suc ?k) (fl_win fl) = drop ?k (fl_win fl1)" by (simp add: w)
      moreover have "fl_origin fl1 = fl_origin fl + 1" "fl_max_count fl1 = fl_max_count fl"
        "fl_frame_size fl1 = fl_frame_size fl" using r c by simp_all
      ultimately show ?thesis
        using fl'(2) remove_head_exact [OF wf _ rm] unfolding skip_post_def k by simp
    qed
    ultimately show ?thesis using fl'(3) by (simp add: w)
  next
    case False
    have "takeWhile is_disc (fl_win fl) = [] \<and> dropWhile is_disc (fl_win fl) = fl_win fl"
    proof (cases "fl_size fl = 0")
      case True
      then show ?thesis by (simp add: win_Nil)
    next
      case ne: False
      have nd: "\<not> is_disc (cell_at fl (fl_head fl))" using False by (simp add: cell_disc)
      obtain cs where "fl_win fl = cell_at fl (fl_head fl) # cs" using win_Cons [OF wf ne] ..
      then show ?thesis using nd by simp
    qed
    moreover have "skip_discarded fl b = Some (fl, b)" using False by (subst skip_discarded.simps) simp
    ultimately show ?thesis using wf by (simp add: skip_post_def)
  qed
qed

definition get_cell :: "nat option \<Rightarrow> bool \<Rightarrow> jb_cell \<Rightarrow> jb_frame \<Rightarrow> bool" where
  "get_cell cap skipped c f \<longleftrightarrow>
     (if skipped then jf_type f = PJMEDIA_JB_MISSING_FRAME \<and> jf_data f = [] \<and> jf_size f = 0 \<and> jf_bit_info f = 0
      else case c of
        Normal d bits t \<Rightarrow> jf_type f = PJMEDIA_JB_NORMAL_FRAME \<and> jf_bit_info f = bits \<and> jf_ts f = t \<and>
          jf_data f = (case cap of Some n \<Rightarrow> take n d | None \<Rightarrow> d) \<and> jf_size f = length (jf_data f)
      | _ \<Rightarrow> jf_type f = PJMEDIA_JB_MISSING_FRAME)"

lemma slot_content_length:
  assumes "fl_wf fl" and p: "p < fl_max_count fl" and n: "n \<le> fl_frame_size fl"
  shows "length (slot_content fl p n) = n"
proof -
  note s = fl_shapeD [OF fl_wfD(1) [OF assms(1)]]
  have "p * fl_frame_size fl + fl_frame_size fl = Suc p * fl_frame_size fl" by simp
  also have "\<dots> \<le> fl_max_count fl * fl_frame_size fl" using p by (intro mult_le_mono1) simp
  finally have "p * fl_frame_size fl + n \<le> length (fl_content fl)" using n s(3) by (simp add: mult.commute)
  then show ?thesis by (simp add: slot_content_def)
qed

lemma slot_content_take: "m \<le> n \<Longrightarrow> take m (slot_content fl p n) = slot_content fl p m"
  by (simp add: slot_content_def min_def)

text \<open>\<open>drop_head\<close> is the end of \<open>jb_framelist_get\<close>.\<close>

definition drop_head :: "jb_framelist_t \<Rightarrow> jb_framelist_t" where
  "drop_head fl = (let h = fl_head fl in
     fl\<lparr>fl_frame_type := (fl_frame_type fl)[h := PJMEDIA_JB_MISSING_FRAME],
        fl_content_len := (fl_content_len fl)[h := 0],
        fl_bit_info := (fl_bit_info fl)[h := 0], fl_ts := (fl_ts fl)[h := 0],
        fl_origin := fl_origin fl + 1, fl_head := (h + 1) mod fl_max_count fl, fl_size := fl_size fl - 1\<rparr>)"

lemma drop_head_spec:
  assumes wf: "fl_wf fl" and ne: "fl_size fl \<noteq> 0" and nd: "\<not> is_disc (cell_at fl (fl_head fl))"
  shows "skip_post fl 1 (drop_head fl)"
proof -
  note s = fl_shapeD [OF fl_wfD(1) [OF wf]]
  let ?h = "fl_head fl"
  have h: "slot fl i = ?h \<longleftrightarrow> i = 0" if "i < fl_max_count fl" for i
    using slot_inj [OF s(8) that s(1)] slot_0 [OF s(8)] by simp
  have cl: "cleared fl 1 ((fl_frame_type fl)[?h := PJMEDIA_JB_MISSING_FRAME]) ((fl_content_len fl)[?h := 0])"
    unfolding cleared_def
  proof (intro conjI allI impI)
    fix i assume i: "i < fl_max_count fl"
    show "(fl_frame_type fl)[?h := PJMEDIA_JB_MISSING_FRAME] ! slot fl i =
        (if i < 1 then PJMEDIA_JB_MISSING_FRAME else fl_frame_type fl ! slot fl i)"
      "(fl_content_len fl)[?h := 0] ! slot fl i = (if i < 1 then 0 else fl_content_len fl ! slot fl i)"
      using h [OF i] s(4,5,8) by (cases "i = 0"; simp)+
  qed (use s in simp_all)
  let ?d = "fl_discarded_num fl"
  have nth: "(xs[?h := v]) ! slot fl i = xs ! slot fl i" if "1 \<le> i" "i < fl_max_count fl" for i v and xs :: "u32 list"
    using h [OF that(2)] that(1) by (simp add: nth_list_update)
  from advance_spec [OF wf cl, of "(fl_bit_info fl)[?h := 0]" "(fl_ts fl)[?h := 0]" ?d] ne nth s
  have "fl_wf (drop_head fl)" "fl_win (drop_head fl) = drop 1 (fl_win fl)"
    by (simp_all add: drop_head_def Let_def)
  moreover have "fl_exact (drop_head fl)" if "fl_exact fl"
  proof -
    have "n_disc (fl_win fl) = n_disc (drop 1 (fl_win fl))" by (subst win_Cons [OF wf ne]) (use nd in simp)
    then show ?thesis using that calculation by (simp add: fl_exact_def drop_head_def Let_def)
  qed
  ultimately show ?thesis by (auto simp: skip_post_def drop_head_def Let_def)
qed

lemma skip_post_trans: "skip_post fl i fl1 \<Longrightarrow> skip_post fl1 j fl2 \<Longrightarrow> skip_post fl (i + j) fl2"
  by (auto simp: skip_post_def add.commute)

text \<open>
  \<open>jb_framelist_get\<close> on a well-formed list always returns: it drops the discarded frames in front
  and yields the first other frame, as missing when anything was dropped.
\<close>

lemma get_spec:
  assumes wf: "fl_wf fl"
  defines "k \<equiv> length (takeWhile is_disc (fl_win fl))"
  shows "case dropWhile is_disc (fl_win fl) of
      [] \<Rightarrow> \<exists>fl'. jb_framelist_get fl cap = Some (fl', None) \<and> skip_post fl k fl'
    | c # cs \<Rightarrow> \<exists>fl' f. jb_framelist_get fl cap = Some (fl', Some f) \<and> skip_post fl (Suc k) fl' \<and>
        jf_seq f = fl_origin fl + int k \<and> get_cell cap (0 < k) c f"
proof (cases "fl_size fl = 0")
  case True
  then have "fl_win fl = []" by (rule win_Nil)
  then show ?thesis using True wf by (simp add: jb_framelist_get_def skip_post_def k_def)
next
  case False
  obtain fl1 where sk: "skip_discarded fl False = Some (fl1, 0 < k)" and p: "skip_post fl k fl1"
      and w1: "fl_win fl1 = dropWhile is_disc (fl_win fl)"
    using skip_discarded_spec [OF wf, of False] unfolding k_def by auto
  have wf1: "fl_wf fl1" using p by (simp add: skip_post_def)
  show ?thesis
  proof (cases "fl_size fl1 = 0")
    case True
    then have "fl_win fl1 = []" by (rule win_Nil)
    then have "dropWhile is_disc (fl_win fl) = []" using w1 by simp
    moreover have "jb_framelist_get fl cap = Some (fl1, None)" using True False sk by (simp add: jb_framelist_get_def)
    ultimately show ?thesis using p by (simp del: dropWhile_eq_Nil_conv)
  next
    case ne: False
    let ?h = "fl_head fl1"
    have w: "dropWhile is_disc (fl_win fl) = cell_at fl1 ?h # drop 1 (fl_win fl1)"
      using win_Cons [OF wf1 ne] w1 by simp
    have nd: "\<not> is_disc (cell_at fl1 ?h)" using w hd_dropWhile [of is_disc "fl_win fl"] by force
    have h: "?h < fl_max_count fl1" by (rule fl_shapeD(8) [OF fl_wfD(1) [OF wf1]])
    have len: "length (slot_content fl1 ?h n) = n" if "n \<le> fl_content_len fl1 ! ?h" for n
      using slot_content_length [OF wf1 h] that fl_wfD(2) [OF wf1 h] by simp
    obtain f where g: "jb_framelist_get fl cap = Some (drop_head fl1, Some f)"
        and sq: "jf_seq f = fl_origin fl1" and "get_cell cap (0 < k) (cell_at fl1 ?h) f"
    proof (rule that)
      define cs where "cs = min (case cap of Some c \<Rightarrow> c | None \<Rightarrow> fl_content_len fl1 ! ?h) (fl_content_len fl1 ! ?h)"
      define f where "f = (if 0 < k
         then \<lparr>jf_data = [], jf_type = PJMEDIA_JB_MISSING_FRAME, jf_size = 0, jf_bit_info = 0,
               jf_ts = fl_ts fl1 ! ?h, jf_seq = fl_origin fl1\<rparr>
         else \<lparr>jf_data = slot_content fl1 ?h cs, jf_type = fl_frame_type fl1 ! ?h,
               jf_size = cs, jf_bit_info = fl_bit_info fl1 ! ?h,
               jf_ts = fl_ts fl1 ! ?h, jf_seq = fl_origin fl1\<rparr>)"
      show "jb_framelist_get fl cap = Some (drop_head fl1, Some f)"
        using False ne sk by (simp add: jb_framelist_get_def drop_head_def Let_def f_def cs_def)
      show "jf_seq f = fl_origin fl1" by (simp add: f_def)
      have "cs \<le> fl_content_len fl1 ! ?h" by (simp add: cs_def)
      then show "get_cell cap (0 < k) (cell_at fl1 ?h) f"
        using nd len [of cs] fl_wfD(3) [OF wf1 h] len [of "fl_content_len fl1 ! ?h"]
        by (auto simp: get_cell_def f_def cell_at_def stored_type_def slot_content_take cs_def min_def
            split: option.splits if_splits)
    qed
    moreover have "skip_post fl (Suc k) (drop_head fl1)"
      using skip_post_trans [OF p drop_head_spec [OF wf1 ne nd]] by simp
    moreover have "fl_origin fl1 = fl_origin fl + int k" using p by (simp add: skip_post_def)
    ultimately show ?thesis unfolding w by auto
  qed
qed

subsection \<open>Storing a frame\<close>

definition put_cell :: "jb_cell list \<Rightarrow> nat \<Rightarrow> jb_cell \<Rightarrow> jb_cell list" where
  "put_cell w d c = (if d < length w then w[d := c] else w @ replicate (d - length w) Missing @ [c])"

lemma length_put_cell [simp]: "length (put_cell w d c) = max (length w) (Suc d)"
  by (simp add: put_cell_def)

lemma nth_put_cell:
  "i < max (length w) (Suc d) \<Longrightarrow>
   put_cell w d c ! i = (if i = d then c else if i < length w then w ! i else Missing)"
  by (auto simp: put_cell_def nth_append nth_list_update)

lemma n_disc_update:
  "d < length w \<Longrightarrow> w ! d \<noteq> Discarded \<Longrightarrow> c \<noteq> Discarded \<Longrightarrow> n_disc (w[d := c]) = n_disc w"
  by (induction w arbitrary: d) (auto split: nat.splits)

lemma n_disc_put_cell:
  assumes "c \<noteq> Discarded" and "d < length w \<Longrightarrow> w ! d \<noteq> Discarded"
  shows "n_disc (put_cell w d c) = n_disc w"
  using assms by (simp add: put_cell_def n_disc_update)

lemma slot_content_memcpy:
  assumes wf: "fl_wf fl" and p: "p < fl_max_count fl" "q < fl_max_count fl" and n: "n \<le> fl_frame_size fl"
    and len: "length bs \<le> fl_frame_size fl" and ct: "fl_content fl' = memcpy_at (fl_content fl) (q * fl_frame_size fl) bs"
    and fs: "fl_frame_size fl' = fl_frame_size fl"
  shows "p \<noteq> q \<Longrightarrow> slot_content fl' p n = slot_content fl p n" and "slot_content fl' q (length bs) = bs"
    and "length (fl_content fl') = length (fl_content fl)"
proof -
  let ?z = "fl_frame_size fl"
  have step: "a * ?z + ?z \<le> b * ?z" if "a < b" for a b :: nat
    using mult_le_mono1 [of "Suc a" b ?z] that by simp
  have bnd: "q * ?z + length bs \<le> length (fl_content fl)"
    using step [OF p(2)] len fl_shapeD(3) [OF fl_wfD(1) [OF wf]] by (simp add: mult.commute)
  then show "slot_content fl' q (length bs) = bs"
    by (simp add: slot_content_def ct fs read_memcpy_at_same)
  show "length (fl_content fl') = length (fl_content fl)" using bnd by (simp add: ct length_memcpy_at)
  assume "p \<noteq> q"
  then consider "p < q" | "q < p" by linarith
  then show "slot_content fl' p n = slot_content fl p n"
  proof cases
    case 1
    then have "p * ?z + n \<le> q * ?z" using step [of p q] n by linarith
    then show ?thesis using bnd by (simp add: slot_content_def ct fs read_memcpy_at_before)
  next
    case 2
    then have "q * ?z + length bs \<le> p * ?z" using step [of q p] len by linarith
    then show ?thesis using bnd by (simp add: slot_content_def ct fs read_memcpy_at_after)
  qed
qed

text \<open>The list after \<open>put_slot\<close> has stored a normal frame in a free slot.\<close>

definition stored :: "jb_framelist_t \<Rightarrow> nat \<Rightarrow> u8 list \<Rightarrow> u32 \<Rightarrow> u32 \<Rightarrow> jb_framelist_t" where
  "stored fl d frame bits t = (let pos = slot fl d in
     fl\<lparr>fl_frame_type := (fl_frame_type fl)[pos := PJMEDIA_JB_NORMAL_FRAME],
        fl_content_len := (fl_content_len fl)[pos := length frame],
        fl_bit_info := (fl_bit_info fl)[pos := bits], fl_ts := (fl_ts fl)[pos := t],
        fl_size := max (fl_size fl) (Suc d),
        fl_content := memcpy_at (fl_content fl) (pos * fl_frame_size fl) frame\<rparr>)"

lemma put_slot_cases:
  assumes "index = fl_origin fl + int d"
  shows "put_slot fl index (int d) frame bits t PJMEDIA_JB_NORMAL_FRAME =
    (if fl_frame_type fl ! slot fl d \<noteq> PJMEDIA_JB_MISSING_FRAME then (fl, PJ_EEXISTS)
     else (stored fl d frame bits t, PJ_SUCCESS))"
  using assms by (simp add: put_slot_def slot_def stored_def Let_def max_def)

lemma stored_wf:
  assumes wf: "fl_wf fl" and d: "d < fl_max_count fl" and len: "length frame \<le> fl_frame_size fl"
  shows "fl_wf (stored fl d frame bits t)"
    and "fl_win (stored fl d frame bits t) = put_cell (fl_win fl) d (Normal frame bits t)"
proof -
  note s = fl_shapeD [OF fl_wfD(1) [OF wf]]
  let ?fl = "stored fl d frame bits t"
  let ?p = "slot fl d"
  have p: "?p < fl_max_count fl" by (rule slot_lt [OF s(1)])
  have sl: "slot ?fl i = slot fl i" for i by (simp add: slot_def stored_def Let_def)
  have flds: "fl_frame_type ?fl = (fl_frame_type fl)[?p := PJMEDIA_JB_NORMAL_FRAME]"
    "fl_content_len ?fl = (fl_content_len fl)[?p := length frame]" "fl_bit_info ?fl = (fl_bit_info fl)[?p := bits]"
    "fl_ts ?fl = (fl_ts fl)[?p := t]" "fl_size ?fl = max (fl_size fl) (Suc d)"
    "fl_max_count ?fl = fl_max_count fl" "fl_frame_size ?fl = fl_frame_size fl" "fl_head ?fl = fl_head fl"
    "fl_content ?fl = memcpy_at (fl_content fl) (?p * fl_frame_size fl) frame"
    by (simp_all add: stored_def Let_def)
  note mc = slot_content_memcpy [OF wf _ p _ len flds(9,7)]
  have inj: "slot fl i = ?p \<longleftrightarrow> i = d" if "i < fl_max_count fl" for i
    using slot_inj [OF s(8) that d] .
  have "length (fl_content ?fl) = length (fl_content fl)" using mc(3) [OF s(1), of 0] by simp
  then have "fl_shape ?fl" using s d by (simp add: fl_shape_def flds)
  moreover have "fl_content_len ?fl ! q \<le> fl_frame_size fl" "stored_type (fl_frame_type ?fl ! q)"
    if "q < fl_max_count fl" for q
    using that len fl_wfD(2,3) [OF wf that] s(4,5) by (cases "q = ?p"; simp add: flds stored_type_def)+
  moreover have "fl_frame_type ?fl ! slot fl i = PJMEDIA_JB_MISSING_FRAME"
    if "i < fl_max_count fl" "max (fl_size fl) (Suc d) \<le> i" for i
    using that fl_wfD(4) [OF wf, of i] inj [of i] by (simp add: flds)
  ultimately show "fl_wf ?fl" by (simp add: fl_wf_def flds sl)
  show "fl_win ?fl = put_cell (fl_win fl) d (Normal frame bits t)"
  proof (rule nth_equalityI)
    fix i assume "i < length (fl_win ?fl)"
    then have i: "i < max (fl_size fl) (Suc d)" by (simp add: flds)
    then have im: "i < fl_max_count fl" using s(9) d by auto
    have "cell_at ?fl (slot fl i) = (if i = d then Normal frame bits t else cell_at fl (slot fl i))"
    proof (cases "i = d")
      case True
      then show ?thesis using p s mc(2) [OF p, of 0] by (simp add: cell_at_def flds)
    next
      case False
      then have "slot fl i \<noteq> ?p" using inj [OF im] by simp
      then show ?thesis
        using False mc(1) [OF slot_lt [OF s(1)] fl_wfD(2) [OF wf slot_lt [OF s(1)]], of i]
        by (simp add: cell_at_def flds cong: pjmedia_jb_frame_type.case_cong)
    qed
    moreover have "cell_at fl (slot fl i) = Missing" if "fl_size fl \<le> i"
      using fl_wfD(4) [OF wf im that] by (simp add: cell_at_def)
    ultimately show "fl_win ?fl ! i = put_cell (fl_win fl) d (Normal frame bits t) ! i"
      using i by (simp add: nth_put_cell flds sl)
  qed (simp add: flds)
qed

lemma reset_wf:
  assumes "fl_shape fl"
  shows "fl_wf (jb_framelist_reset fl)" "fl_win (jb_framelist_reset fl) = []" "fl_exact (jb_framelist_reset fl)"
  using fl_shapeD [OF assms] slot_lt [of "jb_framelist_reset fl"]
  by (auto simp: fl_wf_def fl_shape_def jb_framelist_reset_def stored_type_def fl_win_def fl_exact_def)

lemma cell_at_origin: "cell_at (fl\<lparr>fl_origin := k\<rparr>) p = cell_at fl p"
  by (rule cell_at_cong) simp_all

lemma framelist_origin [simp]:
  "fl_wf (fl\<lparr>fl_origin := k\<rparr>) = fl_wf fl" "fl_win (fl\<lparr>fl_origin := k\<rparr>) = fl_win fl"
  "fl_exact (fl\<lparr>fl_origin := k\<rparr>) = fl_exact fl"
  by (simp_all add: fl_wf_def fl_shape_def fl_win_def fl_exact_def slot_def cell_at_origin)

text \<open>
  The possible outcomes of locating an index: too late, no room (the frame is at most
  \<open>MAX_DROPOUT\<close> ahead), or a distance inside the buffer, with the window kept or emptied.
\<close>

definition located :: "jb_framelist_t \<Rightarrow> int \<Rightarrow> jb_framelist_t \<Rightarrow> bool" where
  "located fl index fl1 \<longleftrightarrow> fl_wf fl1 \<and> fl_max_count fl1 = fl_max_count fl \<and>
     fl_frame_size fl1 = fl_frame_size fl \<and> (fl_exact fl \<longrightarrow> fl_exact fl1) \<and>
     (fl_win fl1 = fl_win fl \<or> fl_win fl1 = []) \<and> (fl_size fl = 0 \<longrightarrow> fl_origin fl1 = index) \<and>
     (fl_origin fl \<le> index \<and> index < fl_origin fl + int (fl_max_count fl) \<and> fl_size fl \<noteq> 0 \<longrightarrow> fl1 = fl)"

lemma put_locate_cases:
  assumes wf: "fl_wf fl"
  obtains (late) "put_locate fl index = Inl (fl, PJ_ETOOSMALL)" "index < fl_origin fl" "fl_origin fl - index < MAX_MISORDER"
  | (full) fl1 where "put_locate fl index = Inl (fl1, PJ_ETOOMANY)" "located fl index fl1"
      "int (fl_max_count fl) \<le> index - fl_origin fl1" "index - fl_origin fl1 \<le> MAX_DROPOUT" "fl_win fl1 = fl_win fl"
      "fl_size fl1 = fl_size fl"
  | (found) fl1 d where "put_locate fl index = Inr (fl1, int d)" "located fl index fl1" "d < fl_max_count fl"
      "index = fl_origin fl1 + int d"
proof -
  note sh = fl_wfD(1) [OF wf] note s = fl_shapeD [OF sh] note r = reset_wf [OF sh]
  have rs: "fl_size (jb_framelist_reset fl) = 0" "fl_max_count (jb_framelist_reset fl) = fl_max_count fl" "fl_frame_size (jb_framelist_reset fl) = fl_frame_size fl"
    by (simp_all add: jb_framelist_reset_def)
  consider (L) "index < fl_origin fl" "fl_origin fl - index < MAX_MISORDER"
    | (R) fl1 d1 where "\<not> (index < fl_origin fl \<and> fl_origin fl - index < MAX_MISORDER)"
      "(if index - fl_origin fl < 0
         then (if (fl_origin fl + int (fl_size fl)) mod 2 ^ 32 \<ge> MAX_FRAME_INDEX
               then (fl\<lparr>fl_origin := index - int (fl_size fl)\<rparr>, int (fl_size fl))
               else ((jb_framelist_reset fl)\<lparr>fl_origin := index\<rparr>, 0))
         else (fl, index - fl_origin fl)) = (fl1, d1)"
    by fastforce
  then show thesis
  proof cases
    case L
    then show ?thesis using late by (simp add: put_locate_def Let_def)
  next
    case R
    have fl1: "fl_wf fl1" "fl_max_count fl1 = fl_max_count fl" "fl_frame_size fl1 = fl_frame_size fl"
        "fl_exact fl \<Longrightarrow> fl_exact fl1" "index = fl_origin fl1 + d1" "0 \<le> d1"
        "fl_win fl1 = fl_win fl \<and> fl_size fl1 = fl_size fl \<or> fl_win fl1 = [] \<and> fl_size fl1 = 0 \<and> d1 = 0"
        "fl_origin fl \<le> index \<Longrightarrow> fl1 = fl"
      using R(2) wf r rs by (auto split: if_splits)
    define fl2 where "fl2 = (if fl_size fl1 = 0 then fl1\<lparr>fl_origin := index\<rparr> else fl1)"
    define d2 where "d2 = (if fl_size fl1 = 0 then 0 else d1)"
    have eq: "put_locate fl index =
        (if d2 \<ge> int (fl_max_count fl2)
         then (if d2 > MAX_DROPOUT then Inr ((jb_framelist_reset fl2)\<lparr>fl_origin := index\<rparr>, 0)
               else Inl (fl2, PJ_ETOOMANY))
         else Inr (fl2, d2))"
      using R by (auto simp: put_locate_def Let_def fl2_def d2_def split: if_splits)
    have i2: "index = fl_origin fl2 + d2" "0 \<le> d2" using fl1 by (auto simp: fl2_def d2_def)
    have loc: "located fl index fl2" using fl1 by (auto simp: located_def fl2_def)
    then have wf2: "fl_wf fl2" and m2: "fl_max_count fl2 = fl_max_count fl" by (simp_all add: located_def)
    show ?thesis
    proof (cases "d2 \<ge> int (fl_max_count fl)")
      case False
      then show ?thesis using found [of fl2 "nat d2"] eq loc i2 m2 by simp
    next
      case ge: True
      have w2: "fl_win fl2 = fl_win fl" "fl_size fl2 = fl_size fl"
        using ge s(1) fl1(7) by (auto simp: fl2_def d2_def split: if_splits)
      have far: "\<not> (fl_origin fl \<le> index \<and> index < fl_origin fl + int (fl_max_count fl) \<and> fl_size fl \<noteq> 0)"
        using ge i2 loc by (auto simp: located_def)
      have "located fl index ((jb_framelist_reset fl2)\<lparr>fl_origin := index\<rparr>)"
        using reset_wf [OF fl_wfD(1) [OF wf2]] m2 loc far by (auto simp: located_def) (auto simp: jb_framelist_reset_def)
      then show ?thesis
        using full [of fl2] found [of "(jb_framelist_reset fl2)\<lparr>fl_origin := index\<rparr>" 0] eq loc i2 ge m2 w2 s(1)
        by (cases "d2 > MAX_DROPOUT") auto
    qed
  qed
qed

lemma put_at_cases:
  assumes wf: "fl_wf fl" and len: "length frame \<le> fl_frame_size fl"
  obtains (late) "jb_framelist_put_at fl index frame bits t PJMEDIA_JB_NORMAL_FRAME = (fl, PJ_ETOOSMALL)"
      "index < fl_origin fl" "fl_origin fl - index < MAX_MISORDER"
  | (full) fl1 where "jb_framelist_put_at fl index frame bits t PJMEDIA_JB_NORMAL_FRAME = (fl1, PJ_ETOOMANY)"
      "located fl index fl1" "int (fl_max_count fl) \<le> index - fl_origin fl1"
      "index - fl_origin fl1 \<le> MAX_DROPOUT" "fl_win fl1 = fl_win fl" "fl_size fl1 = fl_size fl"
  | (dup) fl1 d where "jb_framelist_put_at fl index frame bits t PJMEDIA_JB_NORMAL_FRAME = (fl1, PJ_EEXISTS)"
      "located fl index fl1" "index = fl_origin fl1 + int d" "d < fl_size fl1" "fl_win fl1 ! d \<noteq> Missing"
  | (ok) fl1 d where "jb_framelist_put_at fl index frame bits t PJMEDIA_JB_NORMAL_FRAME = (stored fl1 d frame bits t, PJ_SUCCESS)"
      "located fl index fl1" "index = fl_origin fl1 + int d" "d < fl_max_count fl"
      "d < fl_size fl1 \<Longrightarrow> fl_win fl1 ! d = Missing"
proof (cases rule: put_locate_cases [OF wf, of index])
  case 1
  then show ?thesis using late len by (simp add: jb_framelist_put_at_def)
next
  case (2 fl1)
  then show ?thesis using full len by (simp add: jb_framelist_put_at_def)
next
  case (3 fl1 d)
  have wf1: "fl_wf fl1" and m1: "fl_max_count fl1 = fl_max_count fl" using 3(2) by (simp_all add: located_def)
  have eq: "jb_framelist_put_at fl index frame bits t PJMEDIA_JB_NORMAL_FRAME =
      (if fl_frame_type fl1 ! slot fl1 d \<noteq> PJMEDIA_JB_MISSING_FRAME then (fl1, PJ_EEXISTS)
       else (stored fl1 d frame bits t, PJ_SUCCESS))"
    using 3 len by (simp add: jb_framelist_put_at_def put_slot_cases)
  have miss: "cell_at fl1 (slot fl1 d) = Missing \<longleftrightarrow> fl_frame_type fl1 ! slot fl1 d = PJMEDIA_JB_MISSING_FRAME"
    using fl_wfD(3) [OF wf1, of "slot fl1 d"] slot_lt [of fl1 d] fl_shapeD(1) [OF fl_wfD(1) [OF wf1]]
    by (auto simp: cell_at_def stored_type_def)
  show ?thesis
  proof (cases "fl_frame_type fl1 ! slot fl1 d = PJMEDIA_JB_MISSING_FRAME")
    case True
    then show ?thesis using ok [of fl1 d] eq 3 miss by simp
  next
    case False
    then have "d < fl_size fl1" using fl_wfD(4) [OF wf1, of d] 3(3) m1 by force
    then show ?thesis using dup [of fl1 d] False eq 3 miss by simp
  qed
qed

lemma put_at_preserves:
  assumes wf: "fl_wf fl" and len: "length frame \<le> fl_frame_size fl"
    and put: "jb_framelist_put_at fl index frame bits t PJMEDIA_JB_NORMAL_FRAME = (fl', st)"
  shows "fl_wf fl' \<and> fl_max_count fl' = fl_max_count fl \<and> fl_frame_size fl' = fl_frame_size fl \<and>
    (fl_exact fl \<longrightarrow> fl_exact fl')"
  using wf len
proof (cases rule: put_at_cases [where index = index and bits = bits and t = t])
  case (ok fl1 d)
  have l: "fl_wf fl1" "fl_max_count fl1 = fl_max_count fl" "fl_frame_size fl1 = fl_frame_size fl"
    "fl_exact fl \<Longrightarrow> fl_exact fl1" using ok(2) by (auto simp: located_def)
  note st = stored_wf [OF l(1), of d frame bits t, unfolded l(2,3), OF ok(4) len]
  have fl': "fl' = stored fl1 d frame bits t" using ok(1) put by simp
  have "n_disc (fl_win fl') = n_disc (fl_win fl1)"
    unfolding fl' st(2) using ok(5) by (intro n_disc_put_cell) auto
  then have "fl_exact fl \<longrightarrow> fl_exact fl'" using l(4) by (simp add: fl_exact_def fl' stored_def Let_def)
  then show ?thesis using st(1) l fl' by (simp add: stored_def Let_def)
qed (use put wf in \<open>auto simp: located_def\<close>)

lemma put_in_window:
  assumes wf: "fl_wf fl" and len: "length frame \<le> fl_frame_size fl" and ne: "fl_size fl \<noteq> 0"
    and d: "d < fl_max_count fl"
  shows "jb_framelist_put_at fl (fl_origin fl + int d) frame bits t PJMEDIA_JB_NORMAL_FRAME =
    (if d < fl_size fl \<and> fl_win fl ! d \<noteq> Missing then (fl, PJ_EEXISTS) else (stored fl d frame bits t, PJ_SUCCESS))"
  using wf len
proof (cases rule: put_at_cases [where index = "fl_origin fl + int d" and bits = bits and t = t])
  case (full fl1)
  then have "fl1 = fl" using ne d by (simp add: located_def)
  then show ?thesis using full(3) d by simp
next
  case (dup fl1 d')
  then have "fl1 = fl" using ne d by (simp add: located_def)
  then show ?thesis using dup by simp
next
  case (ok fl1 d')
  then have "fl1 = fl" using ne d by (simp add: located_def)
  then show ?thesis using ok by simp
qed simp

lemma put_empty:
  assumes wf: "fl_wf fl" and len: "length frame \<le> fl_frame_size fl" and e: "fl_size fl = 0"
    and st: "index \<ge> fl_origin fl \<or> fl_origin fl - index \<ge> MAX_MISORDER"
  shows "\<exists>fl'. jb_framelist_put_at fl index frame bits t PJMEDIA_JB_NORMAL_FRAME = (fl', PJ_SUCCESS) \<and>
    fl_win fl' = [Normal frame bits t] \<and> fl_origin fl' = index"
  using wf len
proof (cases rule: put_at_cases [where index = index and bits = bits and t = t])
  case late
  then show ?thesis using st by simp
next
  case (full fl1)
  then show ?thesis using e fl_shapeD(1) [OF fl_wfD(1) [OF wf]] by (simp add: located_def)
next
  case (dup fl1 d)
  then show ?thesis using e win_Nil [of fl] length_fl_win [of fl1] by (auto simp: located_def)
next
  case (ok fl1 d)
  have l: "fl_wf fl1" "fl_max_count fl1 = fl_max_count fl" "fl_frame_size fl1 = fl_frame_size fl"
    "fl_origin fl1 = index" "fl_win fl1 = []" using ok(2) e win_Nil [of fl] by (auto simp: located_def)
  have "d = 0" using l(4) ok(3) by simp
  then show ?thesis
    using stored_wf(2) [OF l(1), of d frame bits t, unfolded l(2,3), OF ok(4) len] ok(1) l(4,5)
    by (simp add: put_cell_def stored_def Let_def)
qed

text \<open>
  When the list is full, removing just enough frames from the head makes the second attempt
  succeed.
\<close>

lemma put_after_full:
  assumes wf: "fl_wf fl" and len: "length frame \<le> fl_frame_size fl"
    and far: "int (fl_max_count fl) \<le> index - fl_origin fl" "index - fl_origin fl \<le> MAX_DROPOUT"
    and rm: "jb_framelist_remove_head fl (u32_of_int (index - fl_origin fl - int (fl_max_count fl) + 1)) = (fl2, r)"
  shows "\<exists>fl'. jb_framelist_put_at fl2 index frame bits t PJMEDIA_JB_NORMAL_FRAME = (fl', PJ_SUCCESS)"
proof -
  define k where "k = nat (index - fl_origin fl - int (fl_max_count fl) + 1)"
  have k: "u32_of_int (index - fl_origin fl - int (fl_max_count fl) + 1) = k" "0 < k"
    "int k = index - fl_origin fl - int (fl_max_count fl) + 1"
    using far by (simp_all add: k_def MAX_DROPOUT_def)
  note r = remove_head_cases [OF wf rm [unfolded k(1)]]
  note s = fl_shapeD [OF fl_wfD(1) [OF wf]]
  have wf2: "fl_wf fl2" and len2: "length frame \<le> fl_frame_size fl2" using r len by simp_all
  show ?thesis
  proof (cases "fl_size fl2 = 0")
    case True
    have "index \<ge> fl_origin fl2" using r k far s(1) by (auto simp: min_def split: if_splits)
    then show ?thesis using put_empty [OF wf2 len2 True] by blast
  next
    case False
    have rk: "r = k" "fl_max_count fl2 = fl_max_count fl" "fl_size fl2 < fl_max_count fl"
      using r False k(2) s(9) by auto
    have "index = fl_origin fl2 + int (fl_max_count fl - 1)" using r k(3) rk(1) s(1) by simp
    moreover have "\<not> fl_max_count fl - 1 < fl_size fl2" using rk(3) by linarith
    ultimately show ?thesis
      using put_in_window [OF wf2 len2 False, of "fl_max_count fl - 1"] rk s(1) by simp
  qed
qed

lemma discard_wf:
  assumes wf: "fl_wf fl" and d: "jb_framelist_discard fl index = (fl', st)"
  shows "fl_wf fl' \<and> fl_max_count fl' = fl_max_count fl \<and> fl_frame_size fl' = fl_frame_size fl"
proof (cases "index \<ge> fl_origin fl \<and> index < fl_origin fl + int (fl_size fl)")
  case True
  note s = fl_shapeD [OF fl_wfD(1) [OF wf]]
  define k where "k = nat (index - fl_origin fl)"
  have k: "k < fl_size fl" "k < fl_max_count fl" using True s(9) by (auto simp: k_def)
  have fl': "fl' = fl\<lparr>fl_frame_type := (fl_frame_type fl)[slot fl k := PJMEDIA_JB_DISCARDED_FRAME],
      fl_discarded_num := u32_of_int (int (fl_discarded_num fl) + 1)\<rparr>"
    using d True by (simp add: jb_framelist_discard_def slot_def k_def Let_def)
  have sl: "slot fl' i = slot fl i" for i by (simp add: slot_def fl')
  have "fl_frame_type fl' ! slot fl i = PJMEDIA_JB_MISSING_FRAME" if "i < fl_max_count fl" "fl_size fl \<le> i" for i
    using that fl_wfD(4) [OF wf that] slot_inj [OF s(8) that(1) k(2)] k(1) by (simp add: fl')
  moreover have "stored_type (fl_frame_type fl' ! q)" if "q < fl_max_count fl" for q
    using fl_wfD(3) [OF wf that] that s(4) by (cases "q = slot fl k") (simp_all add: fl' stored_type_def)
  ultimately show ?thesis
    using fl_wfD(2) [OF wf] s by (auto simp: fl_wf_def sl) (simp_all add: fl' fl_shape_def)
qed (use assms in \<open>auto simp: jb_framelist_discard_def\<close>)
section \<open>The buffer invariant\<close>

text \<open>
  \<open>jb_inv\<close>: the frame list is well formed and has the buffer's capacity and frame size, and the
  prefetch settings respect their bounds.
\<close>

definition fl_of :: "pjmedia_jbuf \<Rightarrow> jb_framelist_t \<Rightarrow> bool" where
  "fl_of jb fl \<longleftrightarrow> fl_wf fl \<and> fl_max_count fl = jb_max_count jb \<and> fl_frame_size fl = jb_frame_size jb"

definition prefetch_ok :: "pjmedia_jbuf \<Rightarrow> bool" where
  "prefetch_ok jb \<longleftrightarrow> 0 \<le> jb_min_prefetch jb \<and> jb_min_prefetch jb \<le> jb_max_prefetch jb \<and>
     jb_max_prefetch jb \<le> int (jb_max_count jb) \<and> 0 \<le> jb_prefetch jb \<and> jb_prefetch jb \<le> jb_max_prefetch jb"

definition jb_inv :: "pjmedia_jbuf \<Rightarrow> bool" where
  "jb_inv jb \<longleftrightarrow> fl_of jb (jb_framelist jb) \<and> prefetch_ok jb"

lemma jb_inv_simps [simp]:
  "jb_inv (jb\<lparr>jb_level := l\<rparr>) = jb_inv jb" "jb_inv (jb\<lparr>jb_last_op := o'\<rparr>) = jb_inv jb"
  "jb_inv (jb\<lparr>jb_status := st\<rparr>) = jb_inv jb" "jb_inv (jb\<lparr>jb_init_cycle_cnt := n\<rparr>) = jb_inv jb"
  "jb_inv (jb\<lparr>jb_empty := n'\<rparr>) = jb_inv jb" "jb_inv (jb\<lparr>jb_lost := n'\<rparr>) = jb_inv jb"
  "jb_inv (jb\<lparr>jb_discard := n'\<rparr>) = jb_inv jb" "jb_inv (jb\<lparr>jb_delay := s\<rparr>) = jb_inv jb"
  "jb_inv (jb\<lparr>jb_prefetching := b\<rparr>) = jb_inv jb" "jb_inv (jb\<lparr>jb_discard_ref := k\<rparr>) = jb_inv jb"
  "jb_inv (jb\<lparr>jb_discard_dist := n'\<rparr>) = jb_inv jb"
  "jb_inv (jb\<lparr>jb_burst := s\<rparr>) = jb_inv jb" "jb_inv (jb\<lparr>jb_stable_hist := l\<rparr>) = jb_inv jb"
  "jb_inv (jb\<lparr>jb_max_hist_level := l\<rparr>) = jb_inv jb" "jb_inv (jb\<lparr>jb_eff_level := l\<rparr>) = jb_inv jb"
  "jb_inv (jb\<lparr>jb_framelist := fl\<rparr>) = (fl_of jb fl \<and> prefetch_ok jb)"
  by (simp_all add: jb_inv_def fl_of_def prefetch_ok_def)

lemma prefetch_update_inv: "jb_inv jb \<Longrightarrow> jb_inv (prefetch_lowered jb)" "jb_inv jb \<Longrightarrow> jb_inv (prefetch_raised jb)"
  by (auto simp: prefetch_lowered_def prefetch_raised_def jb_inv_def fl_of_def prefetch_ok_def Let_def)

lemma prefetch_update_frame [simp]:
  "jb_framelist (prefetch_lowered jb) = jb_framelist jb" "jb_framelist (prefetch_raised jb) = jb_framelist jb"
  "jb_discard_algo (prefetch_lowered jb) = jb_discard_algo jb" "jb_discard_algo (prefetch_raised jb) = jb_discard_algo jb"
  "jb_init_prefetch (prefetch_lowered jb) = jb_init_prefetch jb" "jb_init_prefetch (prefetch_raised jb) = jb_init_prefetch jb"
  by (simp_all add: prefetch_lowered_def prefetch_raised_def Let_def)

lemma calculate_jitter_inv: "jb_inv jb \<Longrightarrow> jb_inv (jbuf_calculate_jitter jb)"
  by (simp add: jbuf_calculate_jitter_def level_decreasing_def level_increasing_def Let_def prefetch_update_inv)

lemma calculate_jitter_frame [simp]:
  "jb_framelist (jbuf_calculate_jitter jb) = jb_framelist jb"
  "jb_discard_algo (jbuf_calculate_jitter jb) = jb_discard_algo jb"
  by (simp_all add: jbuf_calculate_jitter_def level_decreasing_def level_increasing_def Let_def)

lemma fl_of_jb_inv: "jb_inv jb \<Longrightarrow> fl_of jb (jb_framelist jb)" "jb_inv jb \<Longrightarrow> prefetch_ok jb"
  by (simp_all add: jb_inv_def)

lemma discard_static_inv:
  assumes inv: "jb_inv jb"
  shows "jb_inv (jbuf_discard_static jb)"
proof -
  obtain fl c where rm: "jb_framelist_remove_head (jb_framelist jb) 1 = (fl, c)" by force
  have "fl_of jb fl" "prefetch_ok jb"
    using remove_head_cases [OF _ rm] inv by (simp_all add: jb_inv_def fl_of_def)
  moreover have "\<exists>r n d. jbuf_discard_static jb = jb \<or> jbuf_discard_static jb = jb\<lparr>jb_discard_ref := r\<rparr> \<or>
      jbuf_discard_static jb = jb\<lparr>jb_framelist := fl, jb_discard_ref := r, jb_discard := n\<rparr>"
    by (auto simp: jbuf_discard_static_def Let_def rm [unfolded One_nat_def])
  ultimately show ?thesis using inv by (auto simp: fl_of_def prefetch_ok_def jb_inv_def)
qed

lemma discard_progressive_inv:
  assumes inv: "jb_inv jb"
  shows "jb_inv (jbuf_discard_progressive jb)"
proof -
  have fire: "jb_inv (progressive_fire jb')" if inv': "jb_inv jb'" for jb'
  proof -
    have "fl_of jb' (fst (jb_framelist_discard (jb_framelist jb') i))" for i
      using discard_wf [of "jb_framelist jb'" i] inv'
      by (cases "jb_framelist_discard (jb_framelist jb') i") (auto simp: jb_inv_def fl_of_def)
    then show ?thesis using inv' by (simp add: progressive_fire_def Let_def fl_of_jb_inv)
  qed
  have "jb_inv (progressive_schedule jb c b)" for c b
    using inv by (simp add: progressive_schedule_def Let_def)
  then show ?thesis using inv fire by (simp add: jbuf_discard_progressive_def Let_def)
qed

lemma run_discard_algo_inv: "jb_inv jb \<Longrightarrow> jb_inv (run_discard_algo jb)"
  by (simp add: run_discard_algo_def discard_static_inv discard_progressive_inv split: pjmedia_jb_discard_algo.split)

lemma jbuf_update_inv:
  assumes "jb_inv jb"
  shows "jb_inv (jbuf_update jb oper)"
  using assms by (simp add: jbuf_update_def Let_def run_discard_algo_inv calculate_jitter_inv)

subsection \<open>Putting a frame\<close>

definition fitted :: "pjmedia_jbuf \<Rightarrow> u8 list \<Rightarrow> u8 list" where
  "fitted jb frame = take (min (length frame) (jb_frame_size jb)) frame"

text \<open>The two attempts of \<open>pjmedia_jbuf_put_frame3\<close> always end, and leave a sane list.\<close>

lemma store_ends:
  assumes inv: "jb_inv jb" and len: "length data \<le> jb_frame_size jb"
    and put: "jb_framelist_put_at (jb_framelist jb) fseq data bits t PJMEDIA_JB_NORMAL_FRAME = (fl1, st)"
  shows "\<exists>fl n st'. put_make_room (jb\<lparr>jb_framelist := fl1\<rparr>) st data bits fseq t
      = Some (jb\<lparr>jb_framelist := fl, jb_discard := jb_discard jb + n\<rparr>, st') \<and> fl_of jb fl \<and>
      (fl_exact (jb_framelist jb) \<longrightarrow> fl_exact fl) \<and> st' \<noteq> PJ_ETOOMANY \<and>
      (st \<noteq> PJ_ETOOMANY \<longrightarrow> fl = fl1 \<and> st' = st) \<and> (st = PJ_ETOOMANY \<longrightarrow> st' = PJ_SUCCESS)"
proof -
  have f: "fl_wf (jb_framelist jb)" "fl_max_count (jb_framelist jb) = jb_max_count jb"
    "fl_frame_size (jb_framelist jb) = jb_frame_size jb" using inv by (auto simp: jb_inv_def fl_of_def)
  note p1 = put_at_preserves [OF f(1), unfolded f(3), OF len put]
  show ?thesis
  proof (cases "st = PJ_ETOOMANY")
    case False
    have "put_make_room (jb\<lparr>jb_framelist := fl1\<rparr>) st data bits fseq t = Some (jb\<lparr>jb_framelist := fl1\<rparr>, st)"
      using False by (subst put_make_room.simps) simp
    then show ?thesis
      using p1 f False by (intro exI [of _ fl1] exI [of _ 0] exI [of _ st]) (simp add: fl_of_def)
  next
    case True
    have far: "int (fl_max_count fl1) \<le> fseq - fl_origin fl1 \<and> fseq - fl_origin fl1 \<le> MAX_DROPOUT"
      using f(1) len [folded f(3)] put True
      by (cases rule: put_at_cases [where index = fseq and bits = bits and t = t]) (auto simp: located_def)
    obtain fl2 r where rm: "jb_framelist_remove_head fl1 (u32_of_int (fseq - fl_origin fl1 - int (fl_max_count fl1) + 1)) = (fl2, r)"
      by force
    have len1: "length data \<le> fl_frame_size fl1" and m1: "fl_max_count fl1 = jb_max_count jb" using p1 f len by simp_all
    obtain fl where p2: "jb_framelist_put_at fl2 fseq data bits t PJMEDIA_JB_NORMAL_FRAME = (fl, PJ_SUCCESS)"
      using put_after_full [OF _ len1 _ _ rm] p1 far by blast
    note r = remove_head_cases [OF _ rm]
    have "length data \<le> fl_frame_size fl2" "fl_wf fl2" using r p1 len1 by simp_all
    note p3 = put_at_preserves [OF this(2,1) p2]
    have "put_make_room (jb\<lparr>jb_framelist := fl1\<rparr>) st data bits fseq t
        = Some (jb\<lparr>jb_framelist := fl, jb_discard := jb_discard jb + r\<rparr>, PJ_SUCCESS)"
      using True rm [unfolded m1] p2 by (subst put_make_room.simps, subst put_make_room.simps) simp
    moreover have "fl_exact (jb_framelist jb) \<longrightarrow> fl_exact fl"
      using p1 p3 remove_head_exact [OF _ _ rm] by blast
    ultimately show ?thesis
      using True p1 p3 r f by (intro exI [of _ fl] exI [of _ r] exI [of _ PJ_SUCCESS]) (simp add: fl_of_def)
  qed
qed

lemma put_frame3_ends:
  assumes inv: "jb_inv jb"
  shows "\<exists>jb' dis. pjmedia_jbuf_put_frame3 jb frame bits fseq t = Some (jb', dis) \<and> jb_inv jb'"
proof -
  obtain fl1 st where put: "jb_framelist_put_at (jb_framelist jb) fseq (fitted jb frame) bits t PJMEDIA_JB_NORMAL_FRAME = (fl1, st)"
    by force
  have "length (fitted jb frame) \<le> jb_frame_size jb" by (simp add: fitted_def)
  from store_ends [OF inv this put] obtain fl n st'
    where room: "put_make_room (jb\<lparr>jb_framelist := fl1\<rparr>) st (fitted jb frame) bits fseq t
      = Some (jb\<lparr>jb_framelist := fl, jb_discard := jb_discard jb + n\<rparr>, st')" and fl: "fl_of jb fl"
    by blast
  have "jb_inv (jb\<lparr>jb_framelist := fl, jb_discard := k\<rparr>)" for k
    using fl inv by (simp add: fl_of_jb_inv)
  then show ?thesis
    using put room by (auto simp: pjmedia_jbuf_put_frame3_def fitted_def [symmetric] Let_def jbuf_update_inv)
qed

subsection \<open>Getting and removing frames\<close>

lemma get_frame3_ends:
  assumes inv: "jb_inv jb"
  shows "\<exists>jb' ty f. pjmedia_jbuf_get_frame3 jb cap = Some (jb', ty, f) \<and> jb_inv jb'"
proof (cases "jb_prefetching jb")
  case True
  then show ?thesis using inv by (simp add: pjmedia_jbuf_get_frame3_def jbuf_update_inv)
next
  case False
  have wf: "fl_wf (jb_framelist jb)" using inv by (simp add: jb_inv_def fl_of_def)
  obtain fl r k where g: "jb_framelist_get (jb_framelist jb) cap = Some (fl, r)" and p: "skip_post (jb_framelist jb) k fl"
    using get_spec [OF wf, of cap] by (cases "dropWhile is_disc (fl_win (jb_framelist jb))") auto
  have fl: "fl_of jb fl" "prefetch_ok jb" using p inv by (simp_all add: skip_post_def jb_inv_def fl_of_def)
  then show ?thesis
    using False g by (cases r) (simp_all add: pjmedia_jbuf_get_frame3_def Let_def jbuf_update_inv)
qed

lemma remove_more_inv:
  "fl_of jb fl \<Longrightarrow> remove_more fl l c = (fl', c') \<Longrightarrow> fl_of jb fl'"
proof (induction fl l c rule: remove_more.induct)
  case (1 fl l c)
  show ?case
  proof (cases "fl_discarded_num fl < l")
    case True
    obtain fl1 n where rm: "jb_framelist_remove_head fl (l - fl_discarded_num fl) = (fl1, n)" by force
    have "fl_of jb fl1" using remove_head_cases [OF _ rm] "1.prems"(1) by (simp add: fl_of_def)
    then show ?thesis
      using "1.IH" [OF True refl rm [symmetric] refl] "1.prems"(2) True rm by (subst (asm) remove_more.simps) simp
  next
    case False
    then show ?thesis using "1.prems" by (subst (asm) remove_more.simps) simp
  qed
qed

lemma remove_frame_inv:
  assumes inv: "jb_inv jb"
  shows "jb_inv (fst (pjmedia_jbuf_remove_frame jb n))"
proof -
  obtain fl c where rm: "jb_framelist_remove_head (jb_framelist jb) n = (fl, c)" by force
  obtain fl' c' where more: "remove_more fl (fl_discarded_num (jb_framelist jb)) c = (fl', c')" by force
  have "fl_of jb fl" using remove_head_cases [OF _ rm] inv by (simp add: jb_inv_def fl_of_def)
  then have "fl_of jb fl'" by (rule remove_more_inv [OF _ more])
  then show ?thesis using inv rm more by (simp add: pjmedia_jbuf_remove_frame_def fl_of_jb_inv)
qed

text \<open>Everything the application does with a jitter buffer.\<close>

inductive jb_reach :: "pjmedia_jbuf \<Rightarrow> bool" where
  create: "0 < max_count \<Longrightarrow> max_count < 2 ^ 30 \<Longrightarrow>
    jb_reach (pjmedia_jbuf_create (jb_framelist_init mc mb mt frame_size max_count) frame_size ptime max_count)"
| set_ptime2: "jb_reach jb \<Longrightarrow> jb_reach (pjmedia_jbuf_set_ptime2 jb ptime denum)"
| set_fixed: "jb_reach jb \<Longrightarrow> jb_reach (fst (pjmedia_jbuf_set_fixed jb prefetch))"
| set_adaptive: "jb_reach jb \<Longrightarrow> jb_reach (fst (pjmedia_jbuf_set_adaptive jb prefetch min_p max_p))"
| set_discard: "jb_reach jb \<Longrightarrow> jb_reach (pjmedia_jbuf_set_discard jb algo)"
| reset: "jb_reach jb \<Longrightarrow> jb_reach (pjmedia_jbuf_reset jb)"
| put: "jb_reach jb \<Longrightarrow> pjmedia_jbuf_put_frame3 jb frame bits fseq t = Some (jb', dis) \<Longrightarrow> jb_reach jb'"
| get: "jb_reach jb \<Longrightarrow> pjmedia_jbuf_get_frame3 jb cap = Some (jb', ty, f) \<Longrightarrow> jb_reach jb'"
| remove: "jb_reach jb \<Longrightarrow> jb_reach (fst (pjmedia_jbuf_remove_frame jb n))"

lemma init_wf:
  assumes "0 < max_count" "max_count < 2 ^ 31"
  shows "fl_wf (jb_framelist_init mc mb mt fs max_count)"
    "fl_max_count (jb_framelist_init mc mb mt fs max_count) = max_count"
    "fl_frame_size (jb_framelist_init mc mb mt fs max_count) = fs"
  using assms
  by (auto simp: fl_wf_def fl_shape_def jb_framelist_init_def jb_framelist_reset_def stored_type_def slot_def)

lemma reset_fl_of: "fl_of jb fl \<Longrightarrow> fl_of jb (jb_framelist_reset fl)"
  using reset_wf [of fl] fl_wfD(1) [of fl] by (simp add: fl_of_def) (simp add: jb_framelist_reset_def)

lemma jbuf_reset_inv: "jb_inv jb \<Longrightarrow> jb_inv (pjmedia_jbuf_reset jb)"
  using reset_fl_of [OF fl_of_jb_inv(1), of jb]
  by (simp add: pjmedia_jbuf_reset_def jb_inv_def) (simp add: fl_of_def prefetch_ok_def)

lemma jb_reach_inv: "jb_reach jb \<Longrightarrow> jb_inv jb"
proof (induction rule: jb_reach.induct)
  case (create max_count mc mb mt frame_size ptime)
  have "u32_mul (int max_count) 4 = int max_count * 4" using create by (simp add: u32_mul_def)
  then have "prefetch_ok (pjmedia_jbuf_create (jb_framelist_init mc mb mt frame_size max_count) frame_size ptime max_count)"
    by (auto simp: pjmedia_jbuf_create_def pjmedia_jbuf_set_discard_def pjmedia_jbuf_reset_def prefetch_ok_def
        PJMEDIA_JB_DEFAULT_INIT_DELAY_def)
  moreover have "fl_wf (jb_framelist_reset (jb_framelist_init mc mb mt frame_size max_count))"
    using reset_wf(1) [OF fl_wfD(1) [OF init_wf(1)]] create by simp
  ultimately show ?case
    using init_wf(2,3) [of max_count mc mb mt frame_size] create
    by (simp add: jb_inv_def fl_of_def)
      (simp add: pjmedia_jbuf_create_def pjmedia_jbuf_set_discard_def pjmedia_jbuf_reset_def jb_framelist_reset_def)
next
  case (reset jb)
  then show ?case by (blast intro: jbuf_reset_inv)
next
  case (put jb frame bits fseq t jb' dis)
  then show ?case using put_frame3_ends [of jb frame bits fseq t] by auto
next
  case (get jb cap jb' ty f)
  then show ?case using get_frame3_ends [of jb cap] by auto
next
  case (remove jb n)
  then show ?case by (blast intro: remove_frame_inv)
qed (auto simp: jb_inv_def fl_of_def prefetch_ok_def pjmedia_jbuf_set_ptime2_def pjmedia_jbuf_set_fixed_def
      pjmedia_jbuf_set_adaptive_def pjmedia_jbuf_set_discard_def)

section \<open>The interface: a reordering window\<close>

text \<open>
  What the reordering of packets rests on, whatever the buffer: a put inside the window stores
  the frame at its sequence position unless one is there already, a get delivers the oldest
  position. \<open>cell\<close> says what a frame looks like once stored and \<open>delivers\<close> what a get reports.
\<close>

definition opt_cell :: "('f \<Rightarrow> jb_cell) \<Rightarrow> 'f option \<Rightarrow> jb_cell" where
  "opt_cell cell x = (case x of None \<Rightarrow> Missing | Some f \<Rightarrow> cell f)"

fun run_puts :: "('b \<Rightarrow> int \<Rightarrow> 'f \<Rightarrow> 'b option) \<Rightarrow> 'b \<Rightarrow> (int \<times> 'f) list \<Rightarrow> 'b option" where
  "run_puts put b [] = Some b"
| "run_puts put b ((s, f) # xs) = (case put b s f of None \<Rightarrow> None | Some b' \<Rightarrow> run_puts put b' xs)"

fun run_gets :: "('b \<Rightarrow> ('b \<times> 'r) option) \<Rightarrow> 'b \<Rightarrow> nat \<Rightarrow> ('b \<times> 'r list) option" where
  "run_gets get b 0 = Some (b, [])"
| "run_gets get b (Suc n) = (case get b of None \<Rightarrow> None
     | Some (b', r) \<Rightarrow> map_option (\<lambda>(b'', rs). (b'', r # rs)) (run_gets get b' n))"

definition add_first :: "(int \<rightharpoonup> 'f) \<Rightarrow> int \<times> 'f \<Rightarrow> (int \<rightharpoonup> 'f)" where
  "add_first env x = (if env (fst x) = None then env(fst x \<mapsto> snd x) else env)"

lemma foldl_add_first: "foldl add_first Map.empty xs = map_of xs"
  by (induction xs rule: rev_induct) (auto simp: add_first_def map_add_def fun_eq_iff split: option.splits)

locale seq_window =
  fixes inv :: "'b \<Rightarrow> bool"
    and win :: "'b \<Rightarrow> jb_cell list"
    and org :: "'b \<Rightarrow> int"
    and m :: nat
    and cell :: "'f \<Rightarrow> jb_cell"
    and put :: "'b \<Rightarrow> int \<Rightarrow> 'f \<Rightarrow> 'b option"
    and get :: "'b \<Rightarrow> ('b \<times> 'r) option"
    and can_start :: "'b \<Rightarrow> int \<Rightarrow> bool"
    and delivers :: "int \<Rightarrow> jb_cell \<Rightarrow> 'r \<Rightarrow> bool"
  assumes cell_ne: "cell f \<noteq> Missing"
    and put_first: "inv b \<Longrightarrow> win b = [] \<Longrightarrow> can_start b s \<Longrightarrow>
      \<exists>b'. put b s f = Some b' \<and> inv b' \<and> win b' = [cell f] \<and> org b' = s"
    and put_in: "inv b \<Longrightarrow> win b \<noteq> [] \<Longrightarrow> d < m \<Longrightarrow>
      \<exists>b'. put b (org b + int d) f = Some b' \<and> inv b' \<and> org b' = org b \<and>
        win b' = (if d < length (win b) \<and> win b ! d \<noteq> Missing then win b else put_cell (win b) d (cell f))"
    and get_in: "inv b \<Longrightarrow> win b = c # cs \<Longrightarrow>
      \<exists>b' r. get b = Some (b', r) \<and> inv b' \<and> win b' = cs \<and> org b' = org b + 1 \<and> delivers (org b) c r"
begin

definition holds :: "'b \<Rightarrow> (int \<rightharpoonup> 'f) \<Rightarrow> bool" where
  "holds b env \<longleftrightarrow> inv b \<and> win b \<noteq> [] \<and>
     (\<forall>i < length (win b). win b ! i = opt_cell cell (env (org b + int i))) \<and>
     (\<forall>s. env s \<noteq> None \<longrightarrow> org b \<le> s \<and> s < org b + int (length (win b)))"

lemma holds_put:
  assumes h: "holds b env" and s: "org b \<le> s" "s < org b + int m"
  shows "\<exists>b'. put b s f = Some b' \<and> org b' = org b \<and> holds b' (add_first env (s, f))"
proof -
  define d where "d = nat (s - org b)"
  have d: "s = org b + int d" "d < m" using s by (auto simp: d_def)
  have inv: "inv b" "win b \<noteq> []" and w: "\<And>i. i < length (win b) \<Longrightarrow> win b ! i = opt_cell cell (env (org b + int i))"
    and dom: "\<And>s. env s \<noteq> None \<Longrightarrow> org b \<le> s \<and> s < org b + int (length (win b))"
    using h unfolding holds_def by blast+
  from put_in [OF inv d(2), of f] obtain b' where p: "put b s f = Some b'" "inv b'" "org b' = org b"
    and wb: "win b' = (if d < length (win b) \<and> win b ! d \<noteq> Missing then win b else put_cell (win b) d (cell f))"
    unfolding d(1) by blast
  have free: "env s = None \<longleftrightarrow> \<not> (d < length (win b) \<and> win b ! d \<noteq> Missing)"
  proof -
    have "env s = None" if "\<not> d < length (win b)" using dom [of s] that d(1) by fastforce
    moreover have "env s = None \<longleftrightarrow> win b ! d = Missing" if "d < length (win b)"
      using w [OF that] cell_ne by (auto simp: d(1) opt_cell_def split: option.splits)
    ultimately show ?thesis by blast
  qed
  have "holds b' (add_first env (s, f))"
  proof (cases "env s = None")
    case True
    then have wb': "win b' = put_cell (win b) d (cell f)" using free wb by auto
    have "env (org b + int i) = None" if "\<not> i < length (win b)" for i using dom [of "org b + int i"] that by fastforce
    then have "win b' ! i = opt_cell cell (add_first env (s, f) (org b + int i))" if "i < length (win b')" for i
      using that w [of i] True by (auto simp: wb' nth_put_cell add_first_def opt_cell_def d(1))
    moreover have "org b \<le> s' \<and> s' < org b + int (length (win b'))" if "add_first env (s, f) s' \<noteq> None" for s'
      using that dom [of s'] True by (auto simp: wb' add_first_def d(1) split: if_splits)
    moreover have "win b' \<noteq> []" using wb' length_put_cell [of "win b" d "cell f"] by fastforce
    ultimately show ?thesis using p by (simp add: holds_def)
  next
    case False
    then have "win b' = win b" "add_first env (s, f) = env" using free wb by (auto simp: add_first_def)
    then show ?thesis using h p by (simp add: holds_def)
  qed
  then show ?thesis using p by blast
qed

lemma puts_hold:
  "holds b env \<Longrightarrow> \<forall>x \<in> set xs. org b \<le> fst x \<and> fst x < org b + int m \<Longrightarrow>
   \<exists>b'. run_puts put b xs = Some b' \<and> org b' = org b \<and> holds b' (foldl add_first env xs)"
proof (induction xs arbitrary: b env)
  case Nil
  then show ?case by simp
next
  case (Cons x xs)
  obtain s f where x: "x = (s, f)" by (cases x)
  from holds_put [OF Cons.prems(1), of s f] Cons.prems(2) x obtain b1
    where "put b s f = Some b1" "org b1 = org b" "holds b1 (add_first env (s, f))" by auto
  then show ?case using Cons.IH [of b1 "add_first env (s, f)"] Cons.prems(2) x by auto
qed

lemma gets_deliver:
  "inv b \<Longrightarrow> win b = w \<Longrightarrow>
   \<exists>b' rs. run_gets get b (length w) = Some (b', rs) \<and> win b' = [] \<and> length rs = length w \<and>
     (\<forall>i < length w. delivers (org b + int i) (w ! i) (rs ! i))"
proof (induction w arbitrary: b)
  case Nil
  then show ?case by simp
next
  case (Cons c cs)
  from get_in [OF Cons.prems] obtain b1 r
    where g: "get b = Some (b1, r)" "inv b1" "win b1 = cs" "org b1 = org b + 1" "delivers (org b) c r" by blast
  from Cons.IH [OF g(2,3)] obtain b' rs
    where "run_gets get b1 (length cs) = Some (b', rs)" "win b' = []" "length rs = length cs"
      "\<forall>i < length cs. delivers (org b1 + int i) (cs ! i) (rs ! i)" by blast
  then show ?case using g by (auto simp: less_Suc_eq_0_disj algebra_simps)
qed

theorem reorders:
  assumes "inv b" "win b = []" "can_start b s0" and "\<forall>x \<in> set xs. s0 \<le> fst x \<and> fst x < s0 + int m"
  shows "\<exists>b1 b2 rs. run_puts put b ((s0, f0) # xs) = Some b1 \<and> inv b1 \<and> org b1 = s0 \<and>
    run_gets get b1 (length (win b1)) = Some (b2, rs) \<and> win b2 = [] \<and> length rs = length (win b1) \<and>
    (\<forall>s f. map_of ((s0, f0) # xs) s = Some f \<longrightarrow> s < s0 + int (length (win b1))) \<and>
    (\<forall>i < length (win b1). delivers (s0 + int i) (opt_cell cell (map_of ((s0, f0) # xs) (s0 + int i))) (rs ! i))"
proof -
  from put_first [OF assms(1-3), of f0] obtain b0
    where b0: "put b s0 f0 = Some b0" "inv b0" "win b0 = [cell f0]" "org b0 = s0" by blast
  have "holds b0 (add_first Map.empty (s0, f0))" using b0 by (simp add: holds_def add_first_def opt_cell_def)
  from puts_hold [OF this, of xs] assms(4) b0(4) obtain b1
    where b1: "run_puts put b0 xs = Some b1" "org b1 = s0" "holds b1 (foldl add_first Map.empty ((s0, f0) # xs))"
    by auto
  note h = b1(3) [unfolded foldl_add_first holds_def b1(2)]
  from gets_deliver [of b1] h b1(2) obtain b2 rs
    where "run_gets get b1 (length (win b1)) = Some (b2, rs)" "win b2 = []" "length rs = length (win b1)"
      "\<forall>i < length (win b1). delivers (s0 + int i) (win b1 ! i) (rs ! i)" by blast
  moreover have "\<forall>s f. map_of ((s0, f0) # xs) s = Some f \<longrightarrow> s < s0 + int (length (win b1))"
    using h by blast
  ultimately show ?thesis using b0 b1 h by auto
qed

end
subsection \<open>The jitter buffer without a discard algorithm is a reordering window\<close>

definition jbw_inv :: "nat \<Rightarrow> nat \<Rightarrow> pjmedia_jbuf \<Rightarrow> bool" where
  "jbw_inv fs m jb \<longleftrightarrow> jb_inv jb \<and> jb_frame_size jb = fs \<and> jb_max_count jb = m \<and>
     jb_discard_algo jb = PJMEDIA_JB_DISCARD_NONE \<and> \<not> jb_prefetching jb \<and>
     Discarded \<notin> set (fl_win (jb_framelist jb))"

definition jbw_put :: "pjmedia_jbuf \<Rightarrow> int \<Rightarrow> u8 list \<times> u32 \<times> u32 \<Rightarrow> pjmedia_jbuf option" where
  "jbw_put jb s f = map_option fst (pjmedia_jbuf_put_frame3 jb (fst f) (fst (snd f)) s (snd (snd f)))"

definition jbw_get :: "pjmedia_jbuf \<Rightarrow> (pjmedia_jbuf \<times> pjmedia_jb_frame_type \<times> jb_frame option) option" where
  "jbw_get jb = pjmedia_jbuf_get_frame3 jb None"

definition jbw_cell :: "nat \<Rightarrow> u8 list \<times> u32 \<times> u32 \<Rightarrow> jb_cell" where
  "jbw_cell fs f = Normal (take fs (fst f)) (fst (snd f)) (snd (snd f))"

definition jbw_start :: "pjmedia_jbuf \<Rightarrow> int \<Rightarrow> bool" where
  "jbw_start jb s \<longleftrightarrow> s \<ge> fl_origin (jb_framelist jb) \<or> fl_origin (jb_framelist jb) - s \<ge> MAX_MISORDER"

text \<open>A get reports a stored frame as it was put, and a gap as a missing frame.\<close>

definition jbw_delivers :: "int \<Rightarrow> jb_cell \<Rightarrow> pjmedia_jb_frame_type \<times> jb_frame option \<Rightarrow> bool" where
  "jbw_delivers s c r \<longleftrightarrow> (case c of
      Normal d bits t \<Rightarrow> r = (PJMEDIA_JB_NORMAL_FRAME, Some \<lparr>jf_data = d, jf_type = PJMEDIA_JB_NORMAL_FRAME,
        jf_size = length d, jf_bit_info = bits, jf_ts = t, jf_seq = s\<rparr>)
    | _ \<Rightarrow> fst r = PJMEDIA_JB_MISSING_FRAME)"

lemma jbuf_update_none:
  assumes "jb_discard_algo jb = PJMEDIA_JB_DISCARD_NONE"
  shows "jb_framelist (jbuf_update jb oper) = jb_framelist jb"
    "jb_discard_algo (jbuf_update jb oper) = PJMEDIA_JB_DISCARD_NONE"
  using assms by (simp_all add: jbuf_update_def run_discard_algo_def Let_def)

lemma calculate_jitter_const [simp]:
  "jb_frame_size (jbuf_calculate_jitter jb) = jb_frame_size jb"
  "jb_max_count (jbuf_calculate_jitter jb) = jb_max_count jb"
  "jb_prefetching (jbuf_calculate_jitter jb) = jb_prefetching jb"
  by (simp_all add: jbuf_calculate_jitter_def level_decreasing_def level_increasing_def prefetch_lowered_def
      prefetch_raised_def Let_def)

lemma jbuf_update_const:
  assumes "jb_discard_algo jb = PJMEDIA_JB_DISCARD_NONE"
  shows "jb_frame_size (jbuf_update jb oper) = jb_frame_size jb"
    "jb_max_count (jbuf_update jb oper) = jb_max_count jb"
    "jb_prefetching (jbuf_update jb oper) = jb_prefetching jb"
  using assms by (simp_all add: jbuf_update_def run_discard_algo_def Let_def)

lemma jbw_update:
  assumes "jbw_inv fs m jb" and fl: "fl_of jb fl" and nd: "Discarded \<notin> set (fl_win fl)"
  shows "jbw_inv fs m (jbuf_update (jb\<lparr>jb_framelist := fl, jb_level := l\<rparr>) oper)"
    "jb_framelist (jbuf_update (jb\<lparr>jb_framelist := fl, jb_level := l\<rparr>) oper) = fl"
proof -
  let ?jb = "jb\<lparr>jb_framelist := fl, jb_level := l\<rparr>"
  have a: "jb_discard_algo ?jb = PJMEDIA_JB_DISCARD_NONE" and "jb_inv ?jb"
    using assms by (simp_all add: jbw_inv_def fl_of_jb_inv)
  then show "jbw_inv fs m (jbuf_update ?jb oper)" "jb_framelist (jbuf_update ?jb oper) = fl"
    using jbuf_update_inv [of ?jb oper] jbuf_update_none [OF a] jbuf_update_const [OF a] assms
    by (simp_all add: jbw_inv_def)
qed

lemma put_frame3_eval:
  assumes "jb_framelist_put_at (jb_framelist jb) s (fitted jb frame) bits t PJMEDIA_JB_NORMAL_FRAME = (fl1, st)"
    and "put_make_room (jb\<lparr>jb_framelist := fl1\<rparr>) st (fitted jb frame) bits s t = Some (jb1, st')"
    and "\<not> jb_prefetching jb1"
  shows "\<exists>l. pjmedia_jbuf_put_frame3 jb frame bits s t =
    (if st' = PJ_SUCCESS then Some (jbuf_update (jb1\<lparr>jb_level := l\<rparr>) JB_OP_PUT, False)
     else Some (jb1\<lparr>jb_discard := jb_discard jb1 + 1\<rparr>, True))"
  using assms unfolding pjmedia_jbuf_put_frame3_def fitted_def [symmetric] Let_def by auto

lemma jbw_put_store:
  assumes jb: "jbw_inv fs m jb"
    and put: "jb_framelist_put_at (jb_framelist jb) s (take fs (fst f)) (fst (snd f)) (snd (snd f)) PJMEDIA_JB_NORMAL_FRAME = (fl1, st)"
    and st: "st \<noteq> PJ_ETOOMANY" and nd: "Discarded \<notin> set (fl_win fl1)"
  shows "\<exists>jb'. jbw_put jb s f = Some jb' \<and> jbw_inv fs m jb' \<and> jb_framelist jb' = fl1"
proof -
  have fs: "jb_frame_size jb = fs" and inv: "jb_inv jb" and pf: "\<not> jb_prefetching jb" using jb by (simp_all add: jbw_inv_def)
  have "length (take fs (fst f)) \<le> jb_frame_size jb" using fs by simp
  from store_ends [OF inv this put] st obtain n
    where room: "put_make_room (jb\<lparr>jb_framelist := fl1\<rparr>) st (take fs (fst f)) (fst (snd f)) s (snd (snd f))
      = Some (jb\<lparr>jb_framelist := fl1, jb_discard := jb_discard jb + n\<rparr>, st)" and fl: "fl_of jb fl1"
    by blast
  define jb0 where "jb0 = jb\<lparr>jb_discard := jb_discard jb + n\<rparr>"
  have jb0: "jbw_inv fs m jb0" "fl_of jb0 fl1" "\<not> jb_prefetching jb0"
    using jb fl pf by (simp_all add: jb0_def jbw_inv_def fl_of_def)
  define jb1 where "jb1 = jb\<lparr>jb_framelist := fl1, jb_discard := jb_discard jb + n\<rparr>"
  have jb1: "jb1 = jb0\<lparr>jb_framelist := fl1\<rparr>" by (cases jb) (simp add: jb0_def jb1_def)
  have fit: "fitted jb (fst f) = take fs (fst f)" by (simp add: fitted_def fs min_def)
  obtain l where eq: "pjmedia_jbuf_put_frame3 jb (fst f) (fst (snd f)) s (snd (snd f)) =
      (if st = PJ_SUCCESS then Some (jbuf_update (jb1\<lparr>jb_level := l\<rparr>) JB_OP_PUT, False)
       else Some (jb1\<lparr>jb_discard := jb_discard jb1 + 1\<rparr>, True))"
    using put_frame3_eval [of jb s "fst f" "fst (snd f)" "snd (snd f)" fl1 st jb1 st] put room pf
    unfolding fit jb1_def by auto
  show ?thesis
  proof (cases "st = PJ_SUCCESS")
    case True
    then show ?thesis using eq jbw_update [OF jb0(1,2) nd] by (simp add: jbw_put_def jb1)
  next
    case False
    then show ?thesis using eq jb fl nd inv by (simp add: jbw_put_def jb1_def jbw_inv_def fl_of_jb_inv)
  qed
qed

lemma jbw_put_first:
  assumes jb: "jbw_inv fs m jb" and e: "fl_win (jb_framelist jb) = []" and s: "jbw_start jb s"
  shows "\<exists>jb'. jbw_put jb s f = Some jb' \<and> jbw_inv fs m jb' \<and> fl_win (jb_framelist jb') = [jbw_cell fs f] \<and>
    fl_origin (jb_framelist jb') = s"
proof -
  have wf: "fl_wf (jb_framelist jb)" "fl_frame_size (jb_framelist jb) = fs" using jb by (auto simp: jbw_inv_def jb_inv_def fl_of_def)
  have "fl_size (jb_framelist jb) = 0" using e length_fl_win [of "jb_framelist jb"] by simp
  from put_empty [OF wf(1) _ this, of "take fs (fst f)" s "fst (snd f)" "snd (snd f)"] wf(2) s
  obtain fl' where "jb_framelist_put_at (jb_framelist jb) s (take fs (fst f)) (fst (snd f)) (snd (snd f))
      PJMEDIA_JB_NORMAL_FRAME = (fl', PJ_SUCCESS)" "fl_win fl' = [jbw_cell fs f]" "fl_origin fl' = s"
    by (auto simp: jbw_start_def jbw_cell_def)
  then show ?thesis using jbw_put_store [OF jb, of s f fl' PJ_SUCCESS] by (auto simp: jbw_cell_def)
qed

lemma jbw_put_in:
  assumes jb: "jbw_inv fs m jb" and ne: "fl_win (jb_framelist jb) \<noteq> []" and d: "d < m"
  shows "\<exists>jb'. jbw_put jb (fl_origin (jb_framelist jb) + int d) f = Some jb' \<and> jbw_inv fs m jb' \<and>
    fl_origin (jb_framelist jb') = fl_origin (jb_framelist jb) \<and>
    fl_win (jb_framelist jb') = (let w = fl_win (jb_framelist jb) in
      if d < length w \<and> w ! d \<noteq> Missing then w else put_cell w d (jbw_cell fs f))"
proof -
  let ?fl = "jb_framelist jb"
  let ?data = "take fs (fst f)"
  let ?sto = "stored ?fl d ?data (fst (snd f)) (snd (snd f))"
  have wf: "fl_wf ?fl" "fl_frame_size ?fl = fs" "fl_max_count ?fl = m" and nd: "Discarded \<notin> set (fl_win ?fl)"
    using jb by (auto simp: jbw_inv_def jb_inv_def fl_of_def)
  have sz: "fl_size ?fl \<noteq> 0" using ne win_Nil by blast
  have len: "length ?data \<le> fl_frame_size ?fl" using wf by simp
  note p = put_in_window [OF wf(1) len sz, unfolded wf(3), OF d, of "fst (snd f)" "snd (snd f)"]
  note st = stored_wf [OF wf(1) _ len, unfolded wf(3), OF d, of "fst (snd f)" "snd (snd f)"]
  show ?thesis
  proof (cases "d < fl_size ?fl \<and> fl_win ?fl ! d \<noteq> Missing")
    case True
    then show ?thesis
      using jbw_put_store [OF jb p [unfolded if_P [OF True]] _ nd] by (auto simp: Let_def)
  next
    case False
    have "Discarded \<notin> set (fl_win ?sto)"
      using nd unfolding st(2) by (auto simp: put_cell_def dest!: subsetD [OF set_update_subset_insert])
    moreover have "fl_origin ?sto = fl_origin ?fl" by (simp add: stored_def Let_def)
    moreover have "(let w = fl_win ?fl in if d < length w \<and> w ! d \<noteq> Missing then w else put_cell w d (jbw_cell fs f)) = fl_win ?sto"
      using False st(2) by (auto simp: Let_def jbw_cell_def simp del: nth_fl_win)
    ultimately show ?thesis
      using jbw_put_store [OF jb p [unfolded if_not_P [OF False]]] by auto
  qed
qed

lemma jbw_get_in:
  assumes jb: "jbw_inv fs m jb" and w: "fl_win (jb_framelist jb) = c # cs"
  shows "\<exists>jb' r. jbw_get jb = Some (jb', r) \<and> jbw_inv fs m jb' \<and> fl_win (jb_framelist jb') = cs \<and>
    fl_origin (jb_framelist jb') = fl_origin (jb_framelist jb) + 1 \<and> jbw_delivers (fl_origin (jb_framelist jb)) c r"
proof -
  let ?fl = "jb_framelist jb"
  have wf: "fl_wf ?fl" and nd: "c \<noteq> Discarded" "Discarded \<notin> set cs" and pf: "\<not> jb_prefetching jb"
    using jb w by (auto simp: jbw_inv_def jb_inv_def fl_of_def)
  have k: "takeWhile is_disc (fl_win ?fl) = []" "dropWhile is_disc (fl_win ?fl) = c # cs" using w nd by auto
  from get_spec [OF wf, of None, unfolded k] obtain fl' f
    where g: "jb_framelist_get ?fl None = Some (fl', Some f)" "skip_post ?fl 1 fl'" "jf_seq f = fl_origin ?fl"
      "get_cell None False c f" by auto
  have fl': "fl_of jb fl'" "fl_win fl' = cs" "fl_origin fl' = fl_origin ?fl + 1"
    using g(2) jb w by (simp_all add: skip_post_def jbw_inv_def jb_inv_def fl_of_def)
  have cell: "jbw_delivers (fl_origin ?fl) c
      (if jf_type f = PJMEDIA_JB_NORMAL_FRAME then PJMEDIA_JB_NORMAL_FRAME else PJMEDIA_JB_MISSING_FRAME, Some f)"
    using g(3,4) nd(1) by (cases c; cases f) (auto simp: jbw_delivers_def get_cell_def)
  obtain n dl where "jbw_get jb = Some (jbuf_update ((jb\<lparr>jb_lost := n, jb_delay := dl\<rparr>)
      \<lparr>jb_framelist := fl', jb_level := jb_level jb + 1\<rparr>) JB_OP_GET,
      if jf_type f = PJMEDIA_JB_NORMAL_FRAME then PJMEDIA_JB_NORMAL_FRAME else PJMEDIA_JB_MISSING_FRAME, Some f)"
  proof (rule that)
    show "jbw_get jb = Some (jbuf_update ((jb\<lparr>jb_lost := if jf_type f = PJMEDIA_JB_NORMAL_FRAME then jb_lost jb else jb_lost jb + 1,
        jb_delay := if jb_last_op jb = JB_OP_PUT then pj_math_stat_update (jb_delay jb)
          (u32_mul (int (jb_framelist_eff_size fl') + 1) (int (jb_frame_ptime jb)) div int (jb_frame_ptime_denum jb)) else jb_delay jb\<rparr>)
        \<lparr>jb_framelist := fl', jb_level := jb_level jb + 1\<rparr>) JB_OP_GET,
        if jf_type f = PJMEDIA_JB_NORMAL_FRAME then PJMEDIA_JB_NORMAL_FRAME else PJMEDIA_JB_MISSING_FRAME, Some f)"
      using pf g(1) by (cases jb) (simp add: jbw_get_def pjmedia_jbuf_get_frame3_def Let_def)
  qed
  moreover have "jbw_inv fs m (jb\<lparr>jb_lost := n, jb_delay := dl\<rparr>)" "fl_of (jb\<lparr>jb_lost := n, jb_delay := dl\<rparr>) fl'"
    using jb fl'(1) by (simp_all add: jbw_inv_def fl_of_def)
  ultimately show ?thesis using jbw_update [OF _ _ nd(2) [folded fl'(2)]] fl' cell by fastforce
qed

interpretation jbw: seq_window "jbw_inv fs m" "\<lambda>jb. fl_win (jb_framelist jb)" "\<lambda>jb. fl_origin (jb_framelist jb)" m
  "jbw_cell fs" jbw_put jbw_get jbw_start jbw_delivers for fs m
  by unfold_locales (use jbw_put_first jbw_put_in jbw_get_in in \<open>simp_all add: Let_def jbw_cell_def\<close>)

section \<open>Properties\<close>

declare skip_discarded.simps [code] peek_pos.simps [code] put_make_room.simps [code]

text \<open>A run of puts (of one-byte frames) and gets.\<close>

datatype jb_event = Put int | Get

fun jb_run :: "pjmedia_jbuf \<Rightarrow> jb_event list \<Rightarrow> pjmedia_jbuf option" where
  "jb_run jb [] = Some jb"
| "jb_run jb (Put s # es) = (case pjmedia_jbuf_put_frame3 jb [1] 0 s 0 of None \<Rightarrow> None | Some (jb', d) \<Rightarrow> jb_run jb' es)"
| "jb_run jb (Get # es) = (case pjmedia_jbuf_get_frame3 jb None of None \<Rightarrow> None | Some (jb', r) \<Rightarrow> jb_run jb' es)"

lemma jb_run_reach: "jb_reach jb \<Longrightarrow> jb_run jb es = Some jb' \<Longrightarrow> jb_reach jb'"
proof (induction es arbitrary: jb)
  case (Cons ev es)
  then show ?case
    by (cases ev) (auto split: option.splits intro: Cons.IH jb_reach.put jb_reach.get)
qed simp

definition slow_jb :: pjmedia_jbuf where
  "slow_jb = pjmedia_jbuf_reset (fst (pjmedia_jbuf_set_adaptive (pjmedia_jbuf_create
     (jb_framelist_init (\<lambda>_. 0) (\<lambda>_. 0) (\<lambda>_. 0) 1 20) 1 250 20) 0 0 0))"

definition slow_events :: "jb_event list" where
  "slow_events = [Put 1, Get, Put 2, Get, Put 3, Get, Put 4, Get, Put 5, Get,
     Put 6, Put 7, Get, Put 20, Put 19, Put 18] @ replicate 14 Get"

lemma slow_reach: "jb_reach slow_jb"
  unfolding slow_jb_def by (intro jb_reach.reset jb_reach.set_adaptive jb_reach.create) auto

text \<open>
  C15. Every jitter buffer an application can reach is well formed: the arrays keep their sizes,
  head and size stay within the capacity, no frame is longer than the frame size, all slots
  outside the window are free, and the prefetch count stays within its limits. On such a
  buffer a put and a get always return.
\<close>

theorem jbuf_reachable_sane:
  assumes "jb_reach jb"
  shows "jb_inv jb \<and> (\<exists>jb' dis. pjmedia_jbuf_put_frame3 jb frame bits fseq t = Some (jb', dis)) \<and>
    (\<exists>jb' ty f. pjmedia_jbuf_get_frame3 jb cap = Some (jb', ty, f))"
  using jb_reach_inv [OF assms] put_frame3_ends [of jb frame bits fseq t] get_frame3_ends [of jb cap] by blast

theorem jbuf_reachable_sane_witness:
  "jb_inv slow_jb \<and> (\<exists>jb' dis. pjmedia_jbuf_put_frame3 slow_jb [1, 2] 0 7 0 = Some (jb', dis))"
  using jbuf_reachable_sane [OF slow_reach, of "[1, 2]" 0 7 0] by blast

text \<open>
  The frame counter of discarded frames can go wrong: with a frame time of 250 ms a frame
  is discarded twice, each time an older frame arrives late; the
  counter then exceeds the discarded frames in the buffer, and remains at one when the buffer
  is empty, so that the effective size (an unsigned difference) wraps around.
\<close>

theorem jbuf_discard_counted_twice:
  "\<exists>jb. jb_run slow_jb slow_events = Some jb \<and> jb_reach jb \<and> fl_size (jb_framelist jb) = 0 \<and>
     fl_discarded_num (jb_framelist jb) = 1"
proof -
  have "map_option (\<lambda>jb. (fl_size (jb_framelist jb), fl_discarded_num (jb_framelist jb))) (jb_run slow_jb slow_events)
      = Some (0, 1)" by code_simp
  then obtain jb where "jb_run slow_jb slow_events = Some jb" "fl_size (jb_framelist jb) = 0"
    "fl_discarded_num (jb_framelist jb) = 1" by auto
  then show ?thesis using jb_run_reach [OF slow_reach] by blast
qed
text \<open>
  C17. The jitter buffer restores the order of packets. Take an empty buffer that neither
  prefetches nor discards; put frames in any order, the first one with sequence number s0 and
  the others from s0 up to the capacity, possibly with duplicates and gaps. Getting as many
  frames as the buffer then spans yields, for s0, s0 + 1 and so on, the first frame that was
  put with this number, cut to the frame size, with its bit info and timestamp, and a missing
  frame where none was put; afterwards the buffer is empty.
\<close>

theorem jbuf_reorders:
  assumes "jb_reach jb" and "jb_discard_algo jb = PJMEDIA_JB_DISCARD_NONE" and "\<not> jb_prefetching jb"
    and "fl_size (jb_framelist jb) = 0" and "jbw_start jb s0"
    and "\<forall>x \<in> set xs. s0 \<le> fst x \<and> fst x < s0 + int (jb_max_count jb)"
  shows "\<exists>jb1 jb2 rs. run_puts jbw_put jb ((s0, f0) # xs) = Some jb1 \<and>
    run_gets jbw_get jb1 (fl_size (jb_framelist jb1)) = Some (jb2, rs) \<and> fl_size (jb_framelist jb2) = 0 \<and>
    (\<forall>s f. map_of ((s0, f0) # xs) s = Some f \<longrightarrow> s < s0 + int (length rs)) \<and>
    (\<forall>i < length rs. case map_of ((s0, f0) # xs) (s0 + int i) of
        None \<Rightarrow> fst (rs ! i) = PJMEDIA_JB_MISSING_FRAME
      | Some (d, bits, t) \<Rightarrow> rs ! i = (PJMEDIA_JB_NORMAL_FRAME, Some
          \<lparr>jf_data = take (jb_frame_size jb) d, jf_type = PJMEDIA_JB_NORMAL_FRAME,
           jf_size = length (take (jb_frame_size jb) d), jf_bit_info = bits, jf_ts = t, jf_seq = s0 + int i\<rparr>))"
proof -
  have w: "fl_win (jb_framelist jb) = []" using assms(4) by (rule win_Nil)
  then have inv: "jbw_inv (jb_frame_size jb) (jb_max_count jb) jb"
    using jb_reach_inv [OF assms(1)] assms(2,3) by (simp add: jbw_inv_def)
  from jbw.reorders [OF inv w assms(5,6), of f0] obtain jb1 jb2 rs where
    r: "run_puts jbw_put jb ((s0, f0) # xs) = Some jb1"
      "run_gets jbw_get jb1 (fl_size (jb_framelist jb1)) = Some (jb2, rs)" "fl_win (jb_framelist jb2) = []"
      "length rs = fl_size (jb_framelist jb1)"
      "\<forall>s f. map_of ((s0, f0) # xs) s = Some f \<longrightarrow> s < s0 + int (fl_size (jb_framelist jb1))"
      "\<forall>i < fl_size (jb_framelist jb1). jbw_delivers (s0 + int i)
         (opt_cell (jbw_cell (jb_frame_size jb)) (map_of ((s0, f0) # xs) (s0 + int i))) (rs ! i)"
    by auto
  have "fl_size (jb_framelist jb2) = 0" using r(3) length_fl_win [of "jb_framelist jb2"] by simp
  moreover have "case map_of ((s0, f0) # xs) (s0 + int i) of None \<Rightarrow> fst (rs ! i) = PJMEDIA_JB_MISSING_FRAME
      | Some (d, bits, t) \<Rightarrow> rs ! i = (PJMEDIA_JB_NORMAL_FRAME, Some
          \<lparr>jf_data = take (jb_frame_size jb) d, jf_type = PJMEDIA_JB_NORMAL_FRAME,
           jf_size = length (take (jb_frame_size jb) d), jf_bit_info = bits, jf_ts = t, jf_seq = s0 + int i\<rparr>)"
    if "i < length rs" for i
    using r(6) [rule_format, of i] that r(4)
    by (cases "map_of ((s0, f0) # xs) (s0 + int i)")
      (auto simp: jbw_delivers_def opt_cell_def jbw_cell_def simp del: map_of.simps)
  ultimately show ?thesis using r(1,2,4,5) by auto
qed

definition demo_jb :: pjmedia_jbuf where
  "demo_jb = pjmedia_jbuf_reset (fst (pjmedia_jbuf_set_fixed (pjmedia_jbuf_create
     (jb_framelist_init (\<lambda>_. 0) (\<lambda>_. 0) (\<lambda>_. 0) 2 6) 2 20 6) 0))"

lemma demo_jb_reach: "jb_reach demo_jb"
  unfolding demo_jb_def by (intro jb_reach.reset jb_reach.set_fixed jb_reach.create) auto

theorem jbuf_reorders_witness:
  "\<exists>jb1 jb2 rs. run_puts jbw_put demo_jb [(5, [1], 0, 0), (8, [4, 4, 4], 0, 0), (6, [2], 0, 0), (6, [9], 0, 0)] = Some jb1 \<and>
    run_gets jbw_get jb1 (fl_size (jb_framelist jb1)) = Some (jb2, rs) \<and> 3 < length rs \<and>
    fst (rs ! 2) = PJMEDIA_JB_MISSING_FRAME \<and> fst (rs ! 1) = PJMEDIA_JB_NORMAL_FRAME"
proof -
  have h: "jb_discard_algo demo_jb = PJMEDIA_JB_DISCARD_NONE" "\<not> jb_prefetching demo_jb"
    "fl_size (jb_framelist demo_jb) = 0" "jb_max_count demo_jb = 6"
    by code_simp+
  have "fl_origin (jb_framelist demo_jb) = - 9999" by code_simp
  then have st: "jbw_start demo_jb 5" by (simp add: jbw_start_def)
  let ?xs = "[(8, [4, 4, 4], 0, 0), (6, [2], 0, 0), (6, [9], 0, 0)] :: (int \<times> u8 list \<times> u32 \<times> u32) list"
  have "\<forall>x \<in> set ?xs. (5 :: int) \<le> fst x \<and> fst x < 5 + int (jb_max_count demo_jb)" using h by simp
  from jbuf_reorders [OF demo_jb_reach h(1-3) st this, of "([1], 0, 0)"] obtain jb1 jb2 rs
    where r: "run_puts jbw_put demo_jb ((5, [1], 0, 0) # ?xs) = Some jb1"
      "run_gets jbw_get jb1 (fl_size (jb_framelist jb1)) = Some (jb2, rs)"
      "\<forall>s f. map_of ((5, [1], 0, 0) # ?xs) s = Some f \<longrightarrow> s < 5 + int (length rs)"
      "\<forall>i < length rs. case map_of ((5, [1], 0, 0) # ?xs) (5 + int i) of
        None \<Rightarrow> fst (rs ! i) = PJMEDIA_JB_MISSING_FRAME
      | Some (d, bits, t) \<Rightarrow> rs ! i = (PJMEDIA_JB_NORMAL_FRAME, Some
          \<lparr>jf_data = take (jb_frame_size demo_jb) d, jf_type = PJMEDIA_JB_NORMAL_FRAME,
           jf_size = length (take (jb_frame_size demo_jb) d), jf_bit_info = bits, jf_ts = t, jf_seq = 5 + int i\<rparr>)"
    by blast
  have "3 < length rs" using r(3) [rule_format, of 8 "([4, 4, 4], 0, 0)"] by simp
  then show ?thesis using r(1,2) r(4) [rule_format, of 2] r(4) [rule_format, of 1] by auto
qed

text \<open>
  One round of dropping, with everything it leaves behind. \<open>fl1\<close> is the list after the refused
  first attempt, \<open>d\<close> the number of slots by which the frame is too far ahead.
\<close>

lemma put_still_full:
  assumes wf: "fl_wf fl" and len: "length frame \<le> fl_frame_size fl" and ne: "fl_size fl \<noteq> 0"
    and far: "int (fl_max_count fl) \<le> index - fl_origin fl" "index - fl_origin fl \<le> MAX_DROPOUT"
  shows "jb_framelist_put_at fl index frame bits t PJMEDIA_JB_NORMAL_FRAME = (fl, PJ_ETOOMANY)"
  using assms by (simp add: jb_framelist_put_at_def put_locate_def Let_def)

lemma put_after_round:
  assumes wf: "fl_wf fl" and len: "length frame \<le> fl_frame_size fl"
    and d: "int d = index - fl_origin fl - int (fl_max_count fl) + 1" "0 < d"
    and rm: "jb_framelist_remove_head fl d = (fl2, r)"
  shows "\<exists>fl'. jb_framelist_put_at fl2 index frame bits t PJMEDIA_JB_NORMAL_FRAME = (fl', PJ_SUCCESS) \<and>
    fl_win fl' = (if drop d (fl_win fl) = [] then [Normal frame bits t]
      else drop d (fl_win fl) @ replicate (fl_max_count fl - 1 - length (drop d (fl_win fl))) Missing
        @ [Normal frame bits t]) \<and>
    fl_origin fl' + int (fl_size fl') = index + 1"
proof -
  note r = remove_head_cases [OF wf rm]
  note s = fl_shapeD [OF fl_wfD(1) [OF wf]]
  have wf2: "fl_wf fl2" and len2: "length frame \<le> fl_frame_size fl2" using r len by simp_all
  have w2: "fl_win fl2 = drop d (fl_win fl)" using r by (simp add: min_def)
  show ?thesis
  proof (cases "fl_size fl2 = 0")
    case True
    have "index \<ge> fl_origin fl2" using r d s(1) by (auto simp: min_def split: if_splits)
    then obtain fl' where "jb_framelist_put_at fl2 index frame bits t PJMEDIA_JB_NORMAL_FRAME = (fl', PJ_SUCCESS)"
        "fl_win fl' = [Normal frame bits t]" "fl_origin fl' = index"
      using put_empty [OF wf2 len2 True, of index bits t] by blast
    moreover from this(2) have "fl_size fl' = 1" using length_fl_win [of fl'] by simp
    ultimately show ?thesis using w2 win_Nil [OF True] by simp
  next
    case False
    have rk: "r = d" "fl_max_count fl2 = fl_max_count fl" "fl_size fl2 < fl_max_count fl"
      using r False d(2) s(9) by auto
    have o: "index = fl_origin fl2 + int (fl_max_count fl - 1)" using r d(1) rk(1) s(1) by simp
    have nf: "\<not> fl_max_count fl - 1 < fl_size fl2" using rk(3) by linarith
    have ne: "drop d (fl_win fl) \<noteq> []" using False w2 length_fl_win [of fl2] by fastforce
    have st: "fl_win (stored fl2 (fl_max_count fl - 1) frame bits t) =
        put_cell (fl_win fl2) (fl_max_count fl - 1) (Normal frame bits t)"
      using stored_wf(2) [OF wf2 _ len2, of "fl_max_count fl - 1" bits t] rk(2) s(1) by simp
    have "jb_framelist_put_at fl2 index frame bits t PJMEDIA_JB_NORMAL_FRAME
        = (stored fl2 (fl_max_count fl - 1) frame bits t, PJ_SUCCESS)"
      using put_in_window [OF wf2 len2 False, of "fl_max_count fl - 1" bits t] rk s(1) o nf by simp
    moreover have "fl_win (stored fl2 (fl_max_count fl - 1) frame bits t) =
        drop d (fl_win fl) @ replicate (fl_max_count fl - 1 - length (drop d (fl_win fl))) Missing
          @ [Normal frame bits t]"
      using st nf w2 length_fl_win [of fl2] by (simp add: put_cell_def)
    moreover have "fl_origin (stored fl2 (fl_max_count fl - 1) frame bits t) = fl_origin fl2"
      by (simp add: stored_def Let_def)
    moreover have "fl_size (stored fl2 (fl_max_count fl - 1) frame bits t) = fl_max_count fl"
      using s(1) rk(3) by (simp add: stored_def Let_def)
    ultimately show ?thesis using ne o s(1) by simp
  qed
qed

lemma put_frame3_stored:
  assumes "jb_framelist_put_at (jb_framelist jb) s (fitted jb frame) bits t PJMEDIA_JB_NORMAL_FRAME = (fl1, st)"
    and "put_make_room (jb\<lparr>jb_framelist := fl1\<rparr>) st (fitted jb frame) bits s t = Some (jb1, PJ_SUCCESS)"
  shows "\<exists>jb2. pjmedia_jbuf_put_frame3 jb frame bits s t = Some (jbuf_update jb2 JB_OP_PUT, False) \<and>
    jb_framelist jb2 = jb_framelist jb1 \<and> jb_discard_algo jb2 = jb_discard_algo jb1"
  unfolding pjmedia_jbuf_put_frame3_def fitted_def [symmetric] Let_def assms prod.case assms(2) option.case if_P [OF refl]
  by (intro exI conjI, rule refl) simp_all

text \<open>
  C18. A frame ahead of a full buffer is stored, and only the oldest frames go. When the first
  attempt reports \<open>PJ_ETOOMANY\<close>, the loop runs once: it removes as many slots from the front as the
  frame is too far ahead (\<open>d\<close>), or all there are; removing any fewer would have left the buffer
  full. The second attempt succeeds. The list then holds exactly the old slots after the first \<open>d\<close>,
  in their order, then missing slots up to the frame, and the frame last, at its own sequence
  number; when nothing of the old list is left, the frame alone. The counter of discarded frames
  grows by the number removed, and the put reports the frame as not discarded. The discard
  algorithm, which runs at the end of every put, leaves the list as it is when it is switched off.
\<close>

theorem jbuf_put_makes_room:
  assumes "jb_reach jb"
    and "snd (jb_framelist_put_at (jb_framelist jb) fseq (fitted jb frame) bits t PJMEDIA_JB_NORMAL_FRAME) = PJ_ETOOMANY"
  shows "\<exists>fl1 d fl2 fl3 jb'. let W = fl_win (jb_framelist jb); F = Normal (fitted jb frame) bits t in
    jb_framelist_put_at (jb_framelist jb) fseq (fitted jb frame) bits t PJMEDIA_JB_NORMAL_FRAME = (fl1, PJ_ETOOMANY) \<and>
    fl_win fl1 = W \<and> 0 < d \<and> int d = fseq - fl_origin fl1 - int (jb_max_count jb) + 1 \<and>
    (\<forall>k < min d (length W). snd (jb_framelist_put_at (fst (jb_framelist_remove_head fl1 k)) fseq (fitted jb frame)
       bits t PJMEDIA_JB_NORMAL_FRAME) = PJ_ETOOMANY) \<and>
    jb_framelist_remove_head fl1 d = (fl2, min d (length W)) \<and> fl_win fl2 = drop d W \<and>
    jb_framelist_put_at fl2 fseq (fitted jb frame) bits t PJMEDIA_JB_NORMAL_FRAME = (fl3, PJ_SUCCESS) \<and>
    fl_win fl3 = (if drop d W = [] then [F]
      else drop d W @ replicate (jb_max_count jb - 1 - length (drop d W)) Missing @ [F]) \<and>
    fl_origin fl3 + int (fl_size fl3) = fseq + 1 \<and>
    put_make_room (jb\<lparr>jb_framelist := fl1\<rparr>) PJ_ETOOMANY (fitted jb frame) bits fseq t =
      Some (jb\<lparr>jb_framelist := fl3, jb_discard := jb_discard jb + min d (length W)\<rparr>, PJ_SUCCESS) \<and>
    pjmedia_jbuf_put_frame3 jb frame bits fseq t = Some (jb', False) \<and>
    (jb_discard_algo jb = PJMEDIA_JB_DISCARD_NONE \<longrightarrow> jb_framelist jb' = fl3)"
proof -
  let ?data = "fitted jb frame" and ?W = "fl_win (jb_framelist jb)"
  have f: "fl_wf (jb_framelist jb)" "fl_max_count (jb_framelist jb) = jb_max_count jb"
    "fl_frame_size (jb_framelist jb) = jb_frame_size jb"
    using jb_reach_inv [OF assms(1)] by (auto simp: jb_inv_def fl_of_def)
  have len: "length ?data \<le> fl_frame_size (jb_framelist jb)" using f(3) by (simp add: fitted_def)
  obtain fl1 where put: "jb_framelist_put_at (jb_framelist jb) fseq ?data bits t PJMEDIA_JB_NORMAL_FRAME = (fl1, PJ_ETOOMANY)"
    and loc: "fl_wf fl1" "fl_max_count fl1 = jb_max_count jb" "fl_frame_size fl1 = jb_frame_size jb"
    and far: "int (jb_max_count jb) \<le> fseq - fl_origin fl1" "fseq - fl_origin fl1 \<le> MAX_DROPOUT"
    and w1: "fl_win fl1 = ?W"
    using f(1) len
  proof (cases rule: put_at_cases [where index = fseq and bits = bits and t = t])
    case (full fl1)
    then show ?thesis using that [of fl1] f by (auto simp: located_def)
  qed (use assms(2) in auto)
  have len1: "length ?data \<le> fl_frame_size fl1" using len loc f by simp
  define d where "d = nat (fseq - fl_origin fl1 - int (jb_max_count jb) + 1)"
  have d: "int d = fseq - fl_origin fl1 - int (fl_max_count fl1) + 1" "0 < d"
    "u32_of_int (fseq - fl_origin fl1 - int (jb_max_count jb) + 1) = d"
    using far loc by (simp_all add: d_def MAX_DROPOUT_def)
  obtain fl2 r where rm: "jb_framelist_remove_head fl1 d = (fl2, r)" by force
  note r = remove_head_cases [OF loc(1) rm]
  have szW: "fl_size fl1 = length ?W" using length_fl_win [of fl1] w1 by simp
  from put_after_round [OF loc(1) len1 d(1,2) rm, of bits t] obtain fl3
    where p2: "jb_framelist_put_at fl2 fseq ?data bits t PJMEDIA_JB_NORMAL_FRAME = (fl3, PJ_SUCCESS)"
      and w3: "fl_win fl3 = (if drop d ?W = [] then [Normal ?data bits t]
        else drop d ?W @ replicate (jb_max_count jb - 1 - length (drop d ?W)) Missing @ [Normal ?data bits t])"
      and o3: "fl_origin fl3 + int (fl_size fl3) = fseq + 1"
    unfolding w1 loc(2) by blast
  have fewer: "snd (jb_framelist_put_at (fst (jb_framelist_remove_head fl1 k)) fseq ?data bits t PJMEDIA_JB_NORMAL_FRAME) = PJ_ETOOMANY"
    if k: "k < min d (length ?W)" for k
  proof -
    obtain g c where g: "jb_framelist_remove_head fl1 k = (g, c)" by force
    note c = remove_head_cases [OF loc(1) g]
    have "c = k" using c k szW by simp
    then have "jb_framelist_put_at g fseq ?data bits t PJMEDIA_JB_NORMAL_FRAME = (g, PJ_ETOOMANY)"
      using c k szW len1 far loc(2) d(1) by (intro put_still_full) auto
    then show ?thesis using g by simp
  qed
  have room: "put_make_room (jb\<lparr>jb_framelist := fl1\<rparr>) PJ_ETOOMANY ?data bits fseq t =
      Some (jb\<lparr>jb_framelist := fl3, jb_discard := jb_discard jb + r\<rparr>, PJ_SUCCESS)"
    using rm p2 d(3) by (subst put_make_room.simps, subst put_make_room.simps) simp
  from put_frame3_stored [OF put room] obtain jb2
    where jb': "pjmedia_jbuf_put_frame3 jb frame bits fseq t = Some (jbuf_update jb2 JB_OP_PUT, False)"
      and jb2: "jb_framelist jb2 = fl3" "jb_discard_algo jb2 = jb_discard_algo jb"
    by auto
  have fin: "jb_discard_algo jb = PJMEDIA_JB_DISCARD_NONE \<longrightarrow> jb_framelist (jbuf_update jb2 JB_OP_PUT) = fl3"
    using jbuf_update_none(1) [of jb2] jb2 by simp
  have "r = min d (length ?W)" "fl_win fl2 = drop d ?W" using r szW w1 by (simp_all add: min_def)
  then show ?thesis
    unfolding Let_def
    using put w1 d loc(2) fewer rm p2 w3 o3 room jb' fin
    by (intro exI [of _ fl1] exI [of _ d] exI [of _ fl2] exI [of _ fl3]
        exI [of _ "jbuf_update jb2 JB_OP_PUT"] conjI) simp_all
qed

definition full_jb :: pjmedia_jbuf where
  "full_jb = the (jb_run demo_jb [Put 1, Put 2, Put 3, Put 4, Put 5, Put 6])"

lemma full_jb_reach: "jb_reach full_jb"
proof -
  have "jb_run demo_jb [Put 1, Put 2, Put 3, Put 4, Put 5, Put 6] \<noteq> None" by code_simp
  then obtain jb where e: "jb_run demo_jb [Put 1, Put 2, Put 3, Put 4, Put 5, Put 6] = Some jb" by blast
  show ?thesis unfolding full_jb_def e option.sel by (rule jb_run_reach [OF demo_jb_reach e])
qed

theorem jbuf_put_makes_room_witness:
  "\<exists>jb'. pjmedia_jbuf_put_frame3 full_jb [3] 0 9 0 = Some (jb', False) \<and>
    fl_win (jb_framelist jb') = drop 3 (fl_win (jb_framelist full_jb)) @ [Missing, Missing, Normal [3] 0 0]"
proof -
  have full: "snd (jb_framelist_put_at (jb_framelist full_jb) 9 (fitted full_jb [3]) 0 0 PJMEDIA_JB_NORMAL_FRAME) = PJ_ETOOMANY"
    "jb_discard_algo full_jb = PJMEDIA_JB_DISCARD_NONE" "length (fl_win (jb_framelist full_jb)) = 6"
    "jb_max_count full_jb = 6" "fitted full_jb [3] = [3]"
    "fl_origin (fst (jb_framelist_put_at (jb_framelist full_jb) 9 (fitted full_jb [3]) 0 0 PJMEDIA_JB_NORMAL_FRAME)) = 1"
    by code_simp+
  from jbuf_put_makes_room [OF full_jb_reach full(1)] show ?thesis
    using full by (auto simp: Let_def numeral_2_eq_2)
qed

text \<open>
  What a get reports, on any reachable buffer: while prefetching nothing but
  \<open>ZERO_PREFETCH\<close>; otherwise it skips the discarded frames in front and reports \<open>ZERO_EMPTY\<close> if no
  frame is left, a normal frame with its content when the next frame is one and nothing was
  skipped, and a missing frame in every other case; the sequence number is that of the frame.
\<close>

theorem jbuf_get_reports_next:
  assumes "jb_reach jb"
  shows "\<exists>jb' ty f. pjmedia_jbuf_get_frame3 jb cap = Some (jb', ty, f) \<and>
    (if jb_prefetching jb then ty = PJMEDIA_JB_ZERO_PREFETCH_FRAME \<and> f = None
     else let w = fl_win (jb_framelist jb); k = length (takeWhile is_disc w) in
       (case dropWhile is_disc w of
          [] \<Rightarrow> ty = PJMEDIA_JB_ZERO_EMPTY_FRAME \<and> f = None
        | c # cs \<Rightarrow> (\<exists>g. f = Some g \<and> jf_seq g = fl_origin (jb_framelist jb) + int k \<and>
            (case c of
               Normal d bits t \<Rightarrow>
                 (if k = 0 then ty = PJMEDIA_JB_NORMAL_FRAME \<and> jf_bit_info g = bits \<and> jf_ts g = t \<and>
                    jf_data g = (case cap of None \<Rightarrow> d | Some n \<Rightarrow> take n d)
                  else ty = PJMEDIA_JB_MISSING_FRAME)
             | _ \<Rightarrow> ty = PJMEDIA_JB_MISSING_FRAME))))"
proof (cases "jb_prefetching jb")
  case True
  then show ?thesis by (simp add: pjmedia_jbuf_get_frame3_def)
next
  case False
  have wf: "fl_wf (jb_framelist jb)" using jb_reach_inv [OF assms] by (simp add: jb_inv_def fl_of_def)
  let ?w = "fl_win (jb_framelist jb)"
  show ?thesis
  proof (cases "dropWhile is_disc ?w")
    case Nil
    from get_spec [OF wf, of cap] Nil obtain fl' where "jb_framelist_get (jb_framelist jb) cap = Some (fl', None)"
      by (auto simp del: dropWhile_eq_Nil_conv)
    then show ?thesis using False Nil by (simp add: pjmedia_jbuf_get_frame3_def Let_def del: dropWhile_eq_Nil_conv)
  next
    case (Cons c cs)
    from get_spec [OF wf, of cap] Cons obtain fl' g where
      g: "jb_framelist_get (jb_framelist jb) cap = Some (fl', Some g)"
        "jf_seq g = fl_origin (jb_framelist jb) + int (length (takeWhile is_disc ?w))"
        "get_cell cap (0 < length (takeWhile is_disc ?w)) c g" by (auto simp del: length_greater_0_conv)
    then show ?thesis
      using False Cons
      by (cases "takeWhile is_disc ?w = []"; cases c; cases cap)
        (auto simp: pjmedia_jbuf_get_frame3_def Let_def get_cell_def)
  qed
qed

theorem jbuf_get_reports_next_witness:
  "\<exists>jb' f. pjmedia_jbuf_get_frame3 full_jb (Some 2) = Some (jb', PJMEDIA_JB_NORMAL_FRAME, Some f) \<and>
     jf_data f = [1] \<and> jf_seq f = 1"
proof -
  have h: "\<not> jb_prefetching full_jb" "dropWhile is_disc (fl_win (jb_framelist full_jb)) = Normal [1] 0 0 # replicate 5 (Normal [1] 0 0)"
    "takeWhile is_disc (fl_win (jb_framelist full_jb)) = []" "fl_origin (jb_framelist full_jb) = 1"
    by code_simp+
  from jbuf_get_reports_next [OF full_jb_reach, of "Some 2"] show ?thesis unfolding h Let_def by (auto simp: h(1))
qed

end
