(* ===== verification/Pj_Timer.thy ===== *)
theory Pj_Timer
  imports Pj_Prelude
begin

text \<open>
  Time values and the timer heap (\<open>pjlib/src/pj/types.c\<close>, \<open>pjlib/src/pj/timer.c\<close>), in the
  default configuration: \<open>PJ_TIMER_USE_COPY = 1\<close>, \<open>PJ_TIMER_USE_LINKED_LIST = 0\<close>.

  A heap slot holds a pointer into the array \<open>timer_dups\<close>; it is modelled by the index of the
  pointed element (index 0 is never handed out and stands for the null pointer). The entries
  that applications own are a memory from entry pointers to entry structures, and the counts
  of the group locks a function from lock pointers, both in the record \<open>timer_world\<close>. Its field
  \<open>app_calls\<close> is memory of the application: no operation touches it, callbacks may. The
  lock of the heap itself serialises the operations and carries no data.
\<close>

section \<open>Time values\<close>

datatype pj_time_val = TimeVal (tv_sec: int) (tv_msec: int)

text \<open>The \<open>do ... while\<close> loop of the normalisation, for milliseconds at or below -1000.\<close>

function norm_neg_loop :: "int \<Rightarrow> int \<Rightarrow> int \<times> int" where
  "norm_neg_loop s m =
     (let s = s - 1; m = m + 1000 in if m \<le> - 1000 then norm_neg_loop s m else (s, m))"
  by pat_completeness auto
termination
  by (relation "measure (\<lambda>(s, m). nat (- m))") auto

declare norm_neg_loop.simps [simp del]

definition pj_time_val_normalize :: "pj_time_val \<Rightarrow> pj_time_val" where
  "pj_time_val_normalize t =
     (let (s, m) = (if tv_msec t \<ge> 1000
                    then (tv_sec t + c_div (tv_msec t) 1000, c_mod (tv_msec t) 1000)
                    else if tv_msec t \<le> - 1000 then norm_neg_loop (tv_sec t) (tv_msec t)
                    else (tv_sec t, tv_msec t))
      in if s \<ge> 1 \<and> m < 0 then TimeVal (s - 1) (m + 1000)
         else if s < 0 \<and> m > 0 then TimeVal (s + 1) (m - 1000)
         else TimeVal s m)"

definition PJ_TIME_VAL_MSEC :: "pj_time_val \<Rightarrow> int" where
  "PJ_TIME_VAL_MSEC t = tv_sec t * 1000 + tv_msec t"

definition PJ_TIME_VAL_EQ :: "pj_time_val \<Rightarrow> pj_time_val \<Rightarrow> bool" where
  "PJ_TIME_VAL_EQ a b \<longleftrightarrow> tv_sec a = tv_sec b \<and> tv_msec a = tv_msec b"

definition PJ_TIME_VAL_GT :: "pj_time_val \<Rightarrow> pj_time_val \<Rightarrow> bool" where
  "PJ_TIME_VAL_GT a b \<longleftrightarrow> tv_sec a > tv_sec b \<or> (tv_sec a = tv_sec b \<and> tv_msec a > tv_msec b)"

definition PJ_TIME_VAL_GTE :: "pj_time_val \<Rightarrow> pj_time_val \<Rightarrow> bool" where
  "PJ_TIME_VAL_GTE a b \<longleftrightarrow> PJ_TIME_VAL_GT a b \<or> PJ_TIME_VAL_EQ a b"

definition PJ_TIME_VAL_LT :: "pj_time_val \<Rightarrow> pj_time_val \<Rightarrow> bool" where
  "PJ_TIME_VAL_LT a b \<longleftrightarrow> \<not> PJ_TIME_VAL_GTE a b"

definition PJ_TIME_VAL_LTE :: "pj_time_val \<Rightarrow> pj_time_val \<Rightarrow> bool" where
  "PJ_TIME_VAL_LTE a b \<longleftrightarrow> \<not> PJ_TIME_VAL_GT a b"

definition PJ_TIME_VAL_ADD :: "pj_time_val \<Rightarrow> pj_time_val \<Rightarrow> pj_time_val" where
  "PJ_TIME_VAL_ADD a b =
     pj_time_val_normalize (TimeVal (tv_sec a + tv_sec b) (tv_msec a + tv_msec b))"

definition PJ_TIME_VAL_SUB :: "pj_time_val \<Rightarrow> pj_time_val \<Rightarrow> pj_time_val" where
  "PJ_TIME_VAL_SUB a b =
     pj_time_val_normalize (TimeVal (tv_sec a - tv_sec b) (tv_msec a - tv_msec b))"

text \<open>The comparison macros are a linear order, so the library's order reasoning applies.\<close>

instantiation pj_time_val :: linorder
begin

definition less_eq_pj_time_val :: "pj_time_val \<Rightarrow> pj_time_val \<Rightarrow> bool" where
  "less_eq_pj_time_val a b = PJ_TIME_VAL_LTE a b"

definition less_pj_time_val :: "pj_time_val \<Rightarrow> pj_time_val \<Rightarrow> bool" where
  "less_pj_time_val a b = PJ_TIME_VAL_LT a b"

instance
proof
  fix x y z :: pj_time_val
  note defs = less_eq_pj_time_val_def less_pj_time_val_def PJ_TIME_VAL_LTE_def PJ_TIME_VAL_LT_def
    PJ_TIME_VAL_GTE_def PJ_TIME_VAL_GT_def PJ_TIME_VAL_EQ_def
  show "(x < y) = (x \<le> y \<and> \<not> y \<le> x)" by (cases x; cases y) (auto simp: defs)
  show "x \<le> x" by (simp add: defs)
  show "x \<le> y \<Longrightarrow> y \<le> z \<Longrightarrow> x \<le> z" by (cases x; cases y; cases z) (auto simp: defs)
  show "x \<le> y \<Longrightarrow> y \<le> x \<Longrightarrow> x = y" by (cases x; cases y) (auto simp: defs)
  show "x \<le> y \<or> y \<le> x" by (cases x; cases y) (auto simp: defs)
qed

end

lemma tv_order_simps:
  "PJ_TIME_VAL_LTE a b \<longleftrightarrow> a \<le> b" "PJ_TIME_VAL_LT a b \<longleftrightarrow> a < b"
  "PJ_TIME_VAL_GTE a b \<longleftrightarrow> b \<le> a" "PJ_TIME_VAL_GT a b \<longleftrightarrow> b < a"
  by (auto simp: less_eq_pj_time_val_def less_pj_time_val_def PJ_TIME_VAL_LTE_def PJ_TIME_VAL_LT_def
      PJ_TIME_VAL_GTE_def PJ_TIME_VAL_GT_def PJ_TIME_VAL_EQ_def)

section \<open>Timer entries and the heap\<close>

record pj_timer_entry =
  te_user_data :: nat
  te_id :: int
  te_cb :: "nat option"
  te_timer_id :: int

record pj_timer_entry_dup =
  dup :: pj_timer_entry
  dup_entry :: nat
  dup_timer_value :: pj_time_val
  dup_grp_lock :: "nat option"

record pj_timer_heap_t =
  max_size :: nat
  cur_size :: nat
  max_entries_per_poll :: nat
  heap :: "nat list"
  timer_ids :: "int list"
  timer_dups :: "pj_timer_entry_dup list"
  timer_ids_freelist :: int

record timer_world =
  entries :: "nat \<Rightarrow> pj_timer_entry"
  grp_refs :: "nat \<Rightarrow> int"
  app_calls :: "(nat \<times> nat) list"

definition HEAP_PARENT :: "nat \<Rightarrow> nat" where
  "HEAP_PARENT x = (if x = 0 then 0 else (x - 1) div 2)"

definition HEAP_LEFT :: "nat \<Rightarrow> nat" where
  "HEAP_LEFT x = (x + x) + 1"

definition zero_dup :: pj_timer_entry_dup where
  "zero_dup = \<lparr>dup = \<lparr>te_user_data = 0, te_id = 0, te_cb = None, te_timer_id = 0\<rparr>, dup_entry = 0,
     dup_timer_value = TimeVal 0 0, dup_grp_lock = None\<rparr>"

abbreviation node_tv :: "pj_timer_heap_t \<Rightarrow> nat \<Rightarrow> pj_time_val" where
  "node_tv ht n \<equiv> dup_timer_value (timer_dups ht ! n)"

abbreviation node_id :: "pj_timer_heap_t \<Rightarrow> nat \<Rightarrow> int" where
  "node_id ht n \<equiv> te_timer_id (dup (timer_dups ht ! n))"

definition copy_node :: "pj_timer_heap_t \<Rightarrow> nat \<Rightarrow> nat \<Rightarrow> pj_timer_heap_t" where
  "copy_node ht slot moved_node =
     ht\<lparr>heap := (heap ht)[slot := moved_node],
        timer_ids := (timer_ids ht)[nat (node_id ht moved_node) := int slot]\<rparr>"

definition pop_freelist :: "pj_timer_heap_t \<Rightarrow> pj_timer_heap_t \<times> int" where
  "pop_freelist ht =
     (ht\<lparr>timer_ids_freelist := - (timer_ids ht ! nat (timer_ids_freelist ht))\<rparr>, timer_ids_freelist ht)"

definition push_freelist :: "pj_timer_heap_t \<Rightarrow> int \<Rightarrow> pj_timer_heap_t" where
  "push_freelist ht old_id =
     ht\<lparr>timer_ids := (timer_ids ht)[nat old_id := - timer_ids_freelist ht],
        timer_ids_freelist := old_id\<rparr>"

function reheap_down :: "pj_timer_heap_t \<Rightarrow> nat \<Rightarrow> nat \<Rightarrow> nat \<Rightarrow> pj_timer_heap_t" where
  "reheap_down ht moved_node slot child =
     (if child < cur_size ht then
        (let c = (if child + 1 < cur_size ht \<and>
                     PJ_TIME_VAL_LT (node_tv ht (heap ht ! (child + 1))) (node_tv ht (heap ht ! child))
                  then child + 1 else child)
         in if PJ_TIME_VAL_LT (node_tv ht (heap ht ! c)) (node_tv ht moved_node)
            then reheap_down (copy_node ht slot (heap ht ! c)) moved_node c (HEAP_LEFT c)
            else copy_node ht slot moved_node)
      else copy_node ht slot moved_node)"
  by pat_completeness auto
termination
  by (relation "measure (\<lambda>(ht, m, slot, child). cur_size ht - child)")
    (auto simp: copy_node_def HEAP_LEFT_def Let_def split: if_splits)

text \<open>Both callers of \<open>reheap_up\<close> pass \<open>HEAP_PARENT(slot)\<close> as the parent.\<close>

function reheap_up :: "pj_timer_heap_t \<Rightarrow> nat \<Rightarrow> nat \<Rightarrow> pj_timer_heap_t" where
  "reheap_up ht moved_node slot =
     (if slot > 0 \<and>
         PJ_TIME_VAL_LT (node_tv ht moved_node) (node_tv ht (heap ht ! HEAP_PARENT slot))
      then reheap_up (copy_node ht slot (heap ht ! HEAP_PARENT slot)) moved_node (HEAP_PARENT slot)
      else copy_node ht slot moved_node)"
  by pat_completeness auto
termination
  by (relation "measure (\<lambda>(ht, m, slot). slot)") (auto simp: HEAP_PARENT_def)

declare reheap_down.simps [simp del] reheap_up.simps [simp del]

definition remove_node ::
    "pj_timer_heap_t \<Rightarrow> timer_world \<Rightarrow> nat \<Rightarrow> pj_timer_heap_t \<times> timer_world \<times> nat" where
  "remove_node ht w slot =
     (let n = heap ht ! slot;
          ht1 = push_freelist ht (node_id ht n);
          ht2 = ht1\<lparr>cur_size := cur_size ht1 - 1\<rparr>;
          d = timer_dups ht2 ! n;
          w' = w\<lparr>entries := (entries w)(dup_entry d := (entries w (dup_entry d))\<lparr>te_timer_id := - 1\<rparr>)\<rparr>;
          ht3 = ht2\<lparr>timer_dups := (timer_dups ht2)[n := d\<lparr>dup := (dup d)\<lparr>te_timer_id := - 1\<rparr>\<rparr>]\<rparr>
      in if slot < cur_size ht3 then
           (let moved = heap ht3 ! cur_size ht3;
                ht4 = copy_node ht3 slot moved;
                parent = HEAP_PARENT slot
            in if PJ_TIME_VAL_GTE (node_tv ht4 moved) (node_tv ht4 (heap ht4 ! parent))
               then (reheap_down ht4 moved slot (HEAP_LEFT slot), w', n)
               else (reheap_up ht4 moved slot, w', n))
         else (ht3, w', n))"

text \<open>
  \<open>allocs\<close> says which of the three pool allocations of \<open>grow_heap\<close> succeed. Fresh pool memory
  that the code does not initialise is filled with \<open>zero_dup\<close>.
\<close>

definition grow_heap :: "bool \<times> bool \<times> bool \<Rightarrow> pj_timer_heap_t \<Rightarrow> pj_timer_heap_t \<times> pj_status" where
  "grow_heap allocs ht =
     (let (ok_heap, ok_dups, ok_ids) = allocs;
          new_size = max_size ht * 2
      in if \<not> ok_heap then (ht, PJ_ENOMEM)
         else if \<not> ok_dups then (ht, PJ_ENOMEM)
         else let ht1 = ht\<lparr>timer_dups := timer_dups ht @ replicate (new_size - max_size ht) zero_dup,
                           heap := take (cur_size ht) (heap ht) @ replicate (new_size - cur_size ht) 0\<rparr>
              in if \<not> ok_ids then (ht1, PJ_ENOMEM)
                 else (ht1\<lparr>timer_ids := timer_ids ht @ map (\<lambda>i. - (int i + 1)) [max_size ht..<new_size],
                           max_size := new_size\<rparr>, PJ_SUCCESS))"

definition insert_node ::
    "bool \<times> bool \<times> bool \<Rightarrow> pj_timer_heap_t \<Rightarrow> timer_world \<Rightarrow> nat \<Rightarrow> pj_time_val \<Rightarrow>
     pj_timer_heap_t \<times> pj_status" where
  "insert_node allocs ht w new_node future_time =
     (let (ht1, status) = (if cur_size ht + 2 \<ge> max_size ht then grow_heap allocs ht
                           else (ht, PJ_SUCCESS))
      in if status \<noteq> PJ_SUCCESS then (ht1, status)
         else let n = nat (te_timer_id (entries w new_node));
                  ht2 = ht1\<lparr>timer_dups := (timer_dups ht1)[n :=
                          \<lparr>dup = entries w new_node, dup_entry = new_node,
                           dup_timer_value = future_time, dup_grp_lock = None\<rparr>]\<rparr>;
                  ht3 = reheap_up ht2 n (cur_size ht2)
              in (ht3\<lparr>cur_size := cur_size ht3 + 1\<rparr>, PJ_SUCCESS))"

definition schedule_entry ::
    "bool \<times> bool \<times> bool \<Rightarrow> pj_timer_heap_t \<Rightarrow> timer_world \<Rightarrow> nat \<Rightarrow> pj_time_val \<Rightarrow>
     pj_timer_heap_t \<times> timer_world \<times> pj_status" where
  "schedule_entry allocs ht w entry future_time =
     (if cur_size ht < max_size ht then
        (let (ht1, i) = pop_freelist ht;
             w1 = w\<lparr>entries := (entries w)(entry := (entries w entry)\<lparr>te_timer_id := i\<rparr>)\<rparr>;
             (ht2, status) = insert_node allocs ht1 w1 entry future_time
         in (ht2, w1, status))
      else (ht, w, PJ_STATUS_NEG1))"

text \<open>\<open>cancel\<close> is only called with \<open>F_DONT_CALL\<close> set, so the close hook never runs.\<close>

definition cancel ::
    "pj_timer_heap_t \<Rightarrow> timer_world \<Rightarrow> nat \<Rightarrow> pj_timer_heap_t \<times> timer_world \<times> int" where
  "cancel ht w entry =
     (let slot = timer_ids ht ! nat (te_timer_id (entries w entry));
          w_idle = w\<lparr>entries := (entries w)(entry := (entries w entry)\<lparr>te_timer_id := - 1\<rparr>)\<rparr>
      in if slot < 0 then (ht, w_idle, 0)
         else if entry \<noteq> dup_entry (timer_dups ht ! (heap ht ! nat slot)) then (ht, w_idle, 0)
         else let (ht1, w1, n) = remove_node ht w (nat slot) in (ht1, w1, 1))"

section \<open>The public operations\<close>

definition pj_timer_heap_create :: "nat \<Rightarrow> pj_timer_heap_t" where
  "pj_timer_heap_create cnt =
     (let size = cnt + 2
      in \<lparr>max_size = size, cur_size = 0, max_entries_per_poll = 64, heap = replicate size 0,
          timer_ids = map (\<lambda>i. - (int i + 1)) [0..<size], timer_dups = replicate size zero_dup,
          timer_ids_freelist = 1\<rparr>)"

definition pj_timer_heap_set_max_timed_out_per_poll ::
    "pj_timer_heap_t \<Rightarrow> nat \<Rightarrow> pj_timer_heap_t \<times> nat" where
  "pj_timer_heap_set_max_timed_out_per_poll ht cnt =
     (ht\<lparr>max_entries_per_poll := cnt\<rparr>, max_entries_per_poll ht)"

definition pj_timer_entry_init :: "int \<Rightarrow> nat \<Rightarrow> nat \<Rightarrow> pj_timer_entry" where
  "pj_timer_entry_init i user_data cb =
     \<lparr>te_user_data = user_data, te_id = i, te_cb = Some cb, te_timer_id = - 1\<rparr>"

definition pj_timer_entry_running :: "pj_timer_entry \<Rightarrow> bool" where
  "pj_timer_entry_running e \<longleftrightarrow> te_timer_id e \<ge> 1"

definition grp_add :: "int \<Rightarrow> nat option \<Rightarrow> timer_world \<Rightarrow> timer_world" where
  "grp_add k g w = (case g of None \<Rightarrow> w
     | Some l \<Rightarrow> w\<lparr>grp_refs := (grp_refs w)(l := grp_refs w l + k)\<rparr>)"

definition schedule_w_grp_lock ::
    "bool \<times> bool \<times> bool \<Rightarrow> pj_time_val \<Rightarrow> pj_timer_heap_t \<Rightarrow> timer_world \<Rightarrow> nat \<Rightarrow> pj_time_val \<Rightarrow>
     int option \<Rightarrow> nat option \<Rightarrow> pj_timer_heap_t \<times> timer_world \<times> pj_status" where
  "schedule_w_grp_lock allocs now ht w entry delay set_id grp =
     (if te_cb (entries w entry) = None then (ht, w, PJ_EINVAL)
      else let expires = PJ_TIME_VAL_ADD now delay
           in if pj_timer_entry_running (entries w entry) then (ht, w, PJ_EINVALIDOP)
              else let (ht1, w1, status) = schedule_entry allocs ht w entry expires
                   in if status \<noteq> PJ_SUCCESS then (ht1, w1, status)
                      else let n = nat (te_timer_id (entries w1 entry));
                               d = timer_dups ht1 ! n;
                               d1 = (case set_id of None \<Rightarrow> d | Some v \<Rightarrow> d\<lparr>dup := (dup d)\<lparr>te_id := v\<rparr>\<rparr>);
                               w2 = (case set_id of None \<Rightarrow> w1 | Some v \<Rightarrow>
                                  w1\<lparr>entries := (entries w1)(entry := (entries w1 entry)\<lparr>te_id := v\<rparr>)\<rparr>)
                           in (ht1\<lparr>timer_dups := (timer_dups ht1)[n := d1\<lparr>dup_grp_lock := grp\<rparr>]\<rparr>,
                               grp_add 1 grp w2, PJ_SUCCESS))"

definition pj_timer_heap_schedule ::
    "bool \<times> bool \<times> bool \<Rightarrow> pj_time_val \<Rightarrow> pj_timer_heap_t \<Rightarrow> timer_world \<Rightarrow> nat \<Rightarrow> pj_time_val \<Rightarrow>
     pj_timer_heap_t \<times> timer_world \<times> pj_status" where
  "pj_timer_heap_schedule allocs now ht w entry delay =
     schedule_w_grp_lock allocs now ht w entry delay None None"

definition pj_timer_heap_schedule_w_grp_lock ::
    "bool \<times> bool \<times> bool \<Rightarrow> pj_time_val \<Rightarrow> pj_timer_heap_t \<Rightarrow> timer_world \<Rightarrow> nat \<Rightarrow> pj_time_val \<Rightarrow>
     int \<Rightarrow> nat option \<Rightarrow> pj_timer_heap_t \<times> timer_world \<times> pj_status" where
  "pj_timer_heap_schedule_w_grp_lock allocs now ht w entry delay id_val grp =
     schedule_w_grp_lock allocs now ht w entry delay (Some id_val) grp"

definition cancel_timer ::
    "pj_timer_heap_t \<Rightarrow> timer_world \<Rightarrow> nat \<Rightarrow> int option \<Rightarrow> pj_timer_heap_t \<times> timer_world \<times> int" where
  "cancel_timer ht w entry set_id =
     (let i = te_timer_id (entries w entry)
      in if i < 1 \<or> nat i \<ge> max_size ht then (ht, w, 0)
         else let grp = dup_grp_lock (timer_dups ht ! nat i);
                  (ht1, w1, cnt) = cancel ht w entry
              in if cnt > 0 then
                   (ht1, grp_add (- 1) grp
                      (case set_id of None \<Rightarrow> w1 | Some v \<Rightarrow>
                         w1\<lparr>entries := (entries w1)(entry := (entries w1 entry)\<lparr>te_id := v\<rparr>)\<rparr>), cnt)
                 else (ht1, w1, cnt))"

definition pj_timer_heap_cancel ::
    "pj_timer_heap_t \<Rightarrow> timer_world \<Rightarrow> nat \<Rightarrow> pj_timer_heap_t \<times> timer_world \<times> int" where
  "pj_timer_heap_cancel ht w entry = cancel_timer ht w entry None"

definition pj_timer_heap_cancel_if_active ::
    "pj_timer_heap_t \<Rightarrow> timer_world \<Rightarrow> nat \<Rightarrow> int \<Rightarrow> pj_timer_heap_t \<times> timer_world \<times> int" where
  "pj_timer_heap_cancel_if_active ht w entry id_val = cancel_timer ht w entry (Some id_val)"

definition pj_timer_heap_count :: "pj_timer_heap_t \<Rightarrow> nat" where
  "pj_timer_heap_count ht = cur_size ht"

definition pj_timer_heap_earliest_time :: "pj_timer_heap_t \<Rightarrow> pj_status + pj_time_val" where
  "pj_timer_heap_earliest_time ht =
     (if cur_size ht = 0 then Inl PJ_ENOTFOUND else Inr (node_tv ht (heap ht ! 0)))"

text \<open>
  Polling. \<open>cb_run\<close> is the application: what the callback with a given number does to heap and
  memory when it is called for an entry. \<open>clk k\<close> is the k-th reading of the clock. The list
  in the result records the entries whose timer was taken off the heap, oldest first, with
  the expiry time and the clock value it was compared with. The number of iterations is
  bounded by \<open>max_entries_per_poll\<close>, a field that callbacks may change, so the loop has fuel;
  \<open>None\<close> is fuel exhausted.
\<close>

type_synonym timer_callbacks =
  "nat \<Rightarrow> nat \<Rightarrow> pj_timer_heap_t \<times> timer_world \<Rightarrow> pj_timer_heap_t \<times> timer_world"

definition poll_one ::
    "timer_callbacks \<Rightarrow> pj_timer_heap_t \<Rightarrow> timer_world \<Rightarrow> pj_timer_heap_t \<times> timer_world \<times> nat" where
  "poll_one cb_run ht w =
     (let (ht1, w1, n) = remove_node ht w 0;
          d = timer_dups ht1 ! n; e = dup_entry d; grp = dup_grp_lock d;
          ht2 = ht1\<lparr>timer_dups := (timer_dups ht1)[n := d\<lparr>dup_grp_lock := None\<rparr>]\<rparr>;
          valid = (te_cb (dup d) = te_cb (entries w1 e) \<and>
                   te_user_data (dup d) = te_user_data (entries w1 e));
          (ht3, w3) = (case te_cb (entries w1 e) of
                         Some cb \<Rightarrow> (if valid then cb_run cb e (ht2, w1) else (ht2, w1))
                       | None \<Rightarrow> (ht2, w1))
      in (ht3, if valid then grp_add (- 1) grp w3 else w3, e))"

fun poll_loop ::
    "nat \<Rightarrow> timer_callbacks \<Rightarrow> (nat \<Rightarrow> pj_time_val) \<Rightarrow> nat \<Rightarrow> pj_time_val \<Rightarrow> pj_timer_heap_t \<Rightarrow>
     timer_world \<Rightarrow>
     (pj_timer_heap_t \<times> timer_world \<times> pj_time_val \<times> (nat \<times> pj_time_val \<times> pj_time_val) list) option" where
  "poll_loop 0 cb_run clk cnt now ht w = None"
| "poll_loop (Suc fuel) cb_run clk cnt now ht w =
     (if cur_size ht > 0 \<and> PJ_TIME_VAL_LTE (node_tv ht (heap ht ! 0)) now \<and>
         cnt < max_entries_per_poll ht
      then (let t = node_tv ht (heap ht ! 0);
                (ht1, w1, e) = poll_one cb_run ht w;
                now1 = (if cur_size ht1 > 0 then clk (cnt + 1) else now)
            in map_option (\<lambda>(h, v, n, fired). (h, v, n, (e, t, now) # fired))
                 (poll_loop fuel cb_run clk (cnt + 1) now1 ht1 w1))
      else Some (ht, w, now, []))"

text \<open>The delay reported to the caller; \<open>now\<close> is read again when anything fired.\<close>

definition poll_next_delay :: "pj_timer_heap_t \<Rightarrow> pj_time_val \<Rightarrow> pj_time_val" where
  "poll_next_delay ht now =
     (if cur_size ht > 0 then
        (let d = PJ_TIME_VAL_SUB (node_tv ht (heap ht ! 0)) now
         in if tv_sec d < 0 \<or> tv_msec d < 0 then TimeVal 0 0 else d)
      else TimeVal 2147483647 2147483647)"

definition pj_timer_heap_poll ::
    "nat \<Rightarrow> timer_callbacks \<Rightarrow> (nat \<Rightarrow> pj_time_val) \<Rightarrow> pj_timer_heap_t \<Rightarrow> timer_world \<Rightarrow>
     (pj_timer_heap_t \<times> timer_world \<times> pj_time_val \<times> (nat \<times> pj_time_val \<times> pj_time_val) list) option" where
  "pj_timer_heap_poll fuel cb_run clk ht w =
     (if cur_size ht = 0 then Some (ht, w, TimeVal 2147483647 2147483647, [])
      else map_option (\<lambda>(h, v, now, fired).
             (h, v, poll_next_delay h (if fired = [] then now else clk (Suc (length fired))), fired))
           (poll_loop fuel cb_run clk 0 (clk 0) ht w))"

section \<open>Time arithmetic\<close>

lemma norm_neg_loop_spec:
  "m \<le> - 1000 \<Longrightarrow> \<exists>s' m'. norm_neg_loop s m = (s', m') \<and> s' * 1000 + m' = s * 1000 + m \<and>
     - 1000 < m' \<and> m' \<le> 0"
proof (induction s m rule: norm_neg_loop.induct)
  case (1 s m)
  show ?case
  proof (cases "m + 1000 \<le> - 1000")
    case True
    then have step: "norm_neg_loop s m = norm_neg_loop (s - 1) (m + 1000)"
      by (subst norm_neg_loop.simps) (simp add: Let_def)
    from "1.IH" [OF refl refl True True] show ?thesis unfolding step by auto
  next
    case False
    then have "norm_neg_loop s m = (s - 1, m + 1000)"
      by (subst norm_neg_loop.simps) (simp add: Let_def)
    with False "1.prems" show ?thesis by auto
  qed
qed

lemma normalize_spec:
  "PJ_TIME_VAL_MSEC (pj_time_val_normalize t) = PJ_TIME_VAL_MSEC t \<and>
   \<bar>tv_msec (pj_time_val_normalize t)\<bar> < 1000 \<and>
   tv_sec (pj_time_val_normalize t) * tv_msec (pj_time_val_normalize t) \<ge> 0"
proof -
  obtain s m where pre: "(if tv_msec t \<ge> 1000
        then (tv_sec t + c_div (tv_msec t) 1000, c_mod (tv_msec t) 1000)
        else if tv_msec t \<le> - 1000 then norm_neg_loop (tv_sec t) (tv_msec t)
        else (tv_sec t, tv_msec t)) = (s, m)"
    and val: "s * 1000 + m = PJ_TIME_VAL_MSEC t" and bnd: "- 1000 < m" "m < 1000"
  proof (cases "tv_msec t \<ge> 1000")
    case True
    then show ?thesis
      using that by (simp add: PJ_TIME_VAL_MSEC_def c_div_nonneg c_mod_nonneg algebra_simps)
  next
    case False
    then show ?thesis
      using that norm_neg_loop_spec [of "tv_msec t" "tv_sec t"]
      by (cases "tv_msec t \<le> - 1000") (auto simp: PJ_TIME_VAL_MSEC_def)
  qed
  have eq: "pj_time_val_normalize t =
      (if s \<ge> 1 \<and> m < 0 then TimeVal (s - 1) (m + 1000)
       else if s < 0 \<and> m > 0 then TimeVal (s + 1) (m - 1000) else TimeVal s m)"
    unfolding pj_time_val_normalize_def pre by simp
  show ?thesis
    unfolding eq using val bnd
    by (cases "s = 0") (auto simp: PJ_TIME_VAL_MSEC_def mult_nonneg_nonneg mult_nonpos_nonpos)
qed

section \<open>Sifting in a binary heap\<close>

lemma HEAP_PARENT_less: "0 < i \<Longrightarrow> HEAP_PARENT i < i"
  by (auto simp: HEAP_PARENT_def)

lemma HEAP_PARENT_child: "0 < i \<Longrightarrow> HEAP_PARENT i = s \<longleftrightarrow> i = HEAP_LEFT s \<or> i = HEAP_LEFT s + 1"
  by (cases i) (simp_all add: HEAP_PARENT_def HEAP_LEFT_def, presburger)

definition is_heap :: "(nat \<Rightarrow> 'k::linorder) \<Rightarrow> nat \<Rightarrow> bool" where
  "is_heap K n \<longleftrightarrow> (\<forall>i. 0 < i \<and> i < n \<longrightarrow> K (HEAP_PARENT i) \<le> K i)"

definition up_ok :: "(nat \<Rightarrow> 'k::linorder) \<Rightarrow> nat \<Rightarrow> nat \<Rightarrow> bool" where
  "up_ok K n s \<longleftrightarrow> (\<forall>i. 0 < i \<and> i < n \<and> i \<noteq> s \<longrightarrow> K (HEAP_PARENT i) \<le> K i) \<and>
     (\<forall>c. 0 < s \<and> 0 < c \<and> c < n \<and> HEAP_PARENT c = s \<longrightarrow> K (HEAP_PARENT s) \<le> K c)"

definition down_ok :: "(nat \<Rightarrow> 'k::linorder) \<Rightarrow> nat \<Rightarrow> nat \<Rightarrow> bool" where
  "down_ok K n s \<longleftrightarrow> (\<forall>i. 0 < i \<and> i < n \<and> HEAP_PARENT i \<noteq> s \<longrightarrow> K (HEAP_PARENT i) \<le> K i) \<and>
     (\<forall>c. 0 < s \<and> 0 < c \<and> c < n \<and> HEAP_PARENT c = s \<longrightarrow> K (HEAP_PARENT s) \<le> K c)"

lemma is_heap_min: "is_heap K n \<Longrightarrow> i < n \<Longrightarrow> K 0 \<le> K i"
proof (induction i rule: less_induct)
  case (less i)
  show ?case
  proof (cases "i = 0")
    case False
    then have "HEAP_PARENT i < i" by (simp add: HEAP_PARENT_less)
    with less have "K 0 \<le> K (HEAP_PARENT i)" by simp
    with less.prems False show ?thesis unfolding is_heap_def by (meson neq0_conv order_trans)
  qed simp
qed

lemma up_step:
  assumes ok: "up_ok K n s" and s: "0 < s" "s < n" and lt: "K s < K (HEAP_PARENT s)"
  shows "up_ok (K(s := K (HEAP_PARENT s), HEAP_PARENT s := K s)) n (HEAP_PARENT s)"
proof -
  let ?p = "HEAP_PARENT s"
  let ?K = "K(s := K ?p, ?p := K s)"
  have ps: "?p < s" using s by (simp add: HEAP_PARENT_less)
  have kp: "K (HEAP_PARENT i) \<le> K i" if "0 < i" "i < n" "i \<noteq> s" for i
    using ok that unfolding up_ok_def by blast
  have kc: "K ?p \<le> K c" if "0 < c" "c < n" "HEAP_PARENT c = s" for c
    using ok that s unfolding up_ok_def by blast
  have "?K (HEAP_PARENT i) \<le> ?K i" if i: "0 < i" "i < n" "i \<noteq> ?p" for i
  proof -
    have "HEAP_PARENT i < i" using i by (simp add: HEAP_PARENT_less)
    consider "i = s" | "i \<noteq> s" "HEAP_PARENT i = s" | "i \<noteq> s" "HEAP_PARENT i = ?p"
      | "i \<noteq> s" "HEAP_PARENT i \<noteq> s" "HEAP_PARENT i \<noteq> ?p" by blast
    then show ?thesis
    proof cases
      case 1 then show ?thesis using lt ps by auto
    next
      case 2 then show ?thesis using kc [of i] i ps by auto
    next
      case 3 then show ?thesis using kp [of i] i lt ps by auto
    next
      case 4 then show ?thesis using kp [of i] i by auto
    qed
  qed
  moreover have "?K (HEAP_PARENT ?p) \<le> ?K c" if c: "0 < ?p" "0 < c" "c < n" "HEAP_PARENT c = ?p" for c
  proof -
    have pp: "HEAP_PARENT ?p < ?p" using c by (simp add: HEAP_PARENT_less)
    have "K (HEAP_PARENT ?p) \<le> K ?p" using kp [of ?p] c s ps by auto
    moreover have "c \<noteq> s \<Longrightarrow> K ?p \<le> K c" using kp [of c] c by auto
    moreover have "c \<noteq> ?p" using c HEAP_PARENT_less [of c] by auto
    ultimately show ?thesis using pp ps by auto
  qed
  ultimately show ?thesis unfolding up_ok_def by blast
qed

lemma up_done:
  "up_ok K n s \<Longrightarrow> s = 0 \<or> K (HEAP_PARENT s) \<le> K s \<Longrightarrow> is_heap K n"
  unfolding up_ok_def is_heap_def by (metis less_irrefl)

lemma down_step:
  assumes ok: "down_ok K n s" and c: "0 < c" "c < n" "HEAP_PARENT c = s"
    and min: "\<And>d. 0 < d \<Longrightarrow> d < n \<Longrightarrow> HEAP_PARENT d = s \<Longrightarrow> K c \<le> K d" and lt: "K c < K s"
  shows "down_ok (K(s := K c, c := K s)) n c"
proof -
  let ?K = "K(s := K c, c := K s)"
  have sc: "s < c" using HEAP_PARENT_less [of c] c by simp
  have kp: "K (HEAP_PARENT i) \<le> K i" if "0 < i" "i < n" "HEAP_PARENT i \<noteq> s" for i
    using ok that unfolding down_ok_def by blast
  have kg: "K (HEAP_PARENT s) \<le> K c" if "0 < s"
    using ok that c unfolding down_ok_def by blast
  have "?K (HEAP_PARENT i) \<le> ?K i" if i: "0 < i" "i < n" "HEAP_PARENT i \<noteq> c" for i
  proof -
    have "HEAP_PARENT i < i" using i by (simp add: HEAP_PARENT_less)
    consider "i = c" | "i \<noteq> c" "HEAP_PARENT i = s" | "i = s" "i \<noteq> c" "HEAP_PARENT i \<noteq> s"
      | "i \<noteq> c" "i \<noteq> s" "HEAP_PARENT i \<noteq> s" by blast
    then show ?thesis
    proof cases
      case 1 then show ?thesis using c lt sc by auto
    next
      case 2 then show ?thesis using min [of i] i sc \<open>HEAP_PARENT i < i\<close> by auto
    next
      case 3 then show ?thesis using kg i by auto
    next
      case 4 then show ?thesis using kp [of i] i by auto
    qed
  qed
  moreover have "?K (HEAP_PARENT c) \<le> ?K d" if d: "0 < d" "d < n" "HEAP_PARENT d = c" for d
  proof -
    have "c < d" using d HEAP_PARENT_less [of d] by simp
    then show ?thesis using kp [of d] d sc c by auto
  qed
  ultimately show ?thesis unfolding down_ok_def by blast
qed

lemma down_done:
  "down_ok K n s \<Longrightarrow> (\<And>c. 0 < c \<Longrightarrow> c < n \<Longrightarrow> HEAP_PARENT c = s \<Longrightarrow> K s \<le> K c) \<Longrightarrow> is_heap K n"
  unfolding down_ok_def is_heap_def by blast

lemma heap_cong:
  assumes "\<And>i. i < n \<Longrightarrow> K i = K' i" and "s < n"
  shows "up_ok K n s = up_ok K' n s" "down_ok K n s = down_ok K' n s" "is_heap K n = is_heap K' n"
proof -
  have p: "HEAP_PARENT i < n" if "i < n" for i
    using that by (cases "i = 0") (auto simp: HEAP_PARENT_def)
  have e1: "(K (HEAP_PARENT i) \<le> K i) = (K' (HEAP_PARENT i) \<le> K' i)" if "i < n" for i
    using assms(1) p that by simp
  have e2: "(K (HEAP_PARENT s) \<le> K c) = (K' (HEAP_PARENT s) \<le> K' c)" if "c < n" for c
    using assms p that by simp
  show "up_ok K n s = up_ok K' n s" unfolding up_ok_def using e1 e2 by blast
  show "down_ok K n s = down_ok K' n s" unfolding down_ok_def using e1 e2 by blast
  show "is_heap K n = is_heap K' n" unfolding is_heap_def using e1 by blast
qed

section \<open>The array heap with its index table\<close>

definition node_ok :: "pj_timer_heap_t \<Rightarrow> nat \<Rightarrow> bool" where
  "node_ok ht x \<longleftrightarrow> 0 < x \<and> x < length (timer_ids ht) \<and> node_id ht x = int x"

text \<open>
  While a node is being sifted, slot \<open>slot\<close> of the array is a hole that the moved node will
  fill; \<open>H\<close> below is the array with the hole filled.
\<close>

definition sift_pre :: "pj_timer_heap_t \<Rightarrow> nat list \<Rightarrow> nat \<Rightarrow> nat \<Rightarrow> bool" where
  "sift_pre ht H slot n \<longleftrightarrow> slot < n \<and> n \<le> length H \<and> length H = length (heap ht) \<and>
     (\<forall>i. i \<noteq> slot \<longrightarrow> H ! i = heap ht ! i) \<and> distinct (take n H) \<and>
     (\<forall>x \<in> set (take n H). node_ok ht x) \<and>
     (\<forall>s < n. s \<noteq> slot \<longrightarrow> timer_ids ht ! (H ! s) = int s)"

definition same_frame :: "pj_timer_heap_t \<Rightarrow> pj_timer_heap_t \<Rightarrow> bool" where
  "same_frame ht ht' \<longleftrightarrow> max_size ht' = max_size ht \<and> cur_size ht' = cur_size ht \<and>
     max_entries_per_poll ht' = max_entries_per_poll ht \<and> timer_dups ht' = timer_dups ht \<and>
     timer_ids_freelist ht' = timer_ids_freelist ht \<and> length (heap ht') = length (heap ht) \<and>
     length (timer_ids ht') = length (timer_ids ht)"

definition sift_post :: "pj_timer_heap_t \<Rightarrow> nat list \<Rightarrow> nat \<Rightarrow> pj_timer_heap_t \<Rightarrow> bool" where
  "sift_post ht H n ht' \<longleftrightarrow> same_frame ht ht' \<and> mset (take n (heap ht')) = mset (take n H) \<and>
     is_heap (\<lambda>i. node_tv ht (heap ht' ! i)) n \<and>
     (\<forall>s < n. timer_ids ht' ! (heap ht' ! s) = int s) \<and>
     (\<forall>j. j \<notin> set (take n H) \<longrightarrow> timer_ids ht' ! j = timer_ids ht ! j)"

lemma same_frame_trans: "same_frame a b \<Longrightarrow> same_frame b c \<Longrightarrow> same_frame a c"
  by (simp add: same_frame_def)

lemma same_frame_copy_node: "same_frame ht (copy_node ht slot x)"
  by (simp add: same_frame_def copy_node_def)

lemma in_take_nth: "i < n \<Longrightarrow> n \<le> length xs \<Longrightarrow> xs ! i \<in> set (take n xs)"
  by (metis in_set_conv_nth length_take min.absorb2 nth_take)

lemma take_nth_distinct:
  "distinct (take n xs) \<Longrightarrow> n \<le> length xs \<Longrightarrow> i < n \<Longrightarrow> j < n \<Longrightarrow> xs ! i = xs ! j \<longleftrightarrow> i = j"
  by (metis length_take min.absorb2 nth_eq_iff_index_eq nth_take)

lemma sift_finish:
  assumes pre: "sift_pre ht H slot n" and hp: "is_heap (\<lambda>i. node_tv ht (H ! i)) n"
  shows "sift_post ht H n (copy_node ht slot (H ! slot))"
proof -
  let ?ht = "copy_node ht slot (H ! slot)"
  have sl: "slot < n" "n \<le> length H" "length H = length (heap ht)" "distinct (take n H)"
    using pre by (auto simp: sift_pre_def)
  have ix: "timer_ids ht ! (H ! s) = int s" if "s < n" "s \<noteq> slot" for s
    using pre that unfolding sift_pre_def by blast
  have hH: "heap ?ht = H"
    using pre by (auto simp: sift_pre_def copy_node_def nth_list_update intro!: nth_equalityI)
  have idn: "node_id ht (H ! slot) = int (H ! slot)" and lt: "H ! slot < length (timer_ids ht)"
    using pre in_take_nth [OF sl(1,2)] by (auto simp: sift_pre_def node_ok_def)
  have ids: "timer_ids ?ht = (timer_ids ht)[H ! slot := int slot]"
    by (simp add: copy_node_def idn)
  have "timer_ids ?ht ! (H ! s) = int s" if "s < n" for s
  proof (cases "s = slot")
    case True
    then show ?thesis using lt by (simp add: ids)
  next
    case False
    then have "H ! slot \<noteq> H ! s" using take_nth_distinct [OF sl(4,2) that sl(1)] by auto
    with ix [OF that False] show ?thesis by (simp add: ids)
  qed
  moreover have "timer_ids ?ht ! j = timer_ids ht ! j" if "j \<notin> set (take n H)" for j
    using that in_take_nth [OF sl(1,2)] by (cases "j = H ! slot") (auto simp: ids)
  ultimately show ?thesis using hp same_frame_copy_node by (auto simp: sift_post_def hH)
qed

lemma mset_take_swap:
  assumes "i < n" "j < n" "n \<le> length xs"
  shows "mset (take n (xs[i := xs ! j, j := xs ! i])) = mset (take n xs)"
proof -
  have "take n (xs[i := xs ! j, j := xs ! i]) = (take n xs)[i := take n xs ! j, j := take n xs ! i]"
    using assms by (simp add: take_update_swap)
  then show ?thesis using assms mset_swap [of j "take n xs" i] by simp
qed

lemma sift_move:
  fixes H :: "nat list"
  assumes pre: "sift_pre ht H slot n" and q: "q < n" "q \<noteq> slot"
  defines "H' \<equiv> H[slot := H ! q, q := H ! slot]" and "ht' \<equiv> copy_node ht slot (heap ht ! q)"
  shows "sift_pre ht' H' q n" and "mset (take n H') = mset (take n H)"
    and "\<And>j. j \<notin> set (take n H) \<Longrightarrow> timer_ids ht' ! j = timer_ids ht ! j"
proof -
  have sl: "slot < n" "n \<le> length H" "length H = length (heap ht)" "distinct (take n H)"
    using pre by (auto simp: sift_pre_def)
  have ix: "timer_ids ht ! (H ! s) = int s" if "s < n" "s \<noteq> slot" for s
    using pre that unfolding sift_pre_def by blast
  show ms: "mset (take n H') = mset (take n H)"
    unfolding H'_def by (rule mset_take_swap [OF sl(1) q(1) sl(2)])
  then have st: "set (take n H') = set (take n H)" and di: "distinct (take n H')"
    using sl(4) by (metis set_mset_mset, metis mset_eq_imp_distinct_iff)
  have hq: "heap ht ! q = H ! q" using pre q by (simp add: sift_pre_def)
  have okq: "node_id ht (H ! q) = int (H ! q)" "H ! q < length (timer_ids ht)"
    using pre in_take_nth [OF q(1) sl(2)] by (auto simp: sift_pre_def node_ok_def)
  have ids: "timer_ids ht' = (timer_ids ht)[H ! q := int slot]"
    by (simp add: ht'_def copy_node_def hq okq)
  show "timer_ids ht' ! j = timer_ids ht ! j" if "j \<notin> set (take n H)" for j
    using that in_take_nth [OF q(1) sl(2)] by (cases "j = H ! q") (auto simp: ids)
  have "H' ! i = heap ht' ! i" if "i \<noteq> q" for i
    using pre q that by (auto simp: sift_pre_def H'_def ht'_def copy_node_def nth_list_update)
  moreover have "node_ok ht' x" if "x \<in> set (take n H')" for x
    using pre that st by (auto simp: sift_pre_def node_ok_def ht'_def copy_node_def)
  moreover have "timer_ids ht' ! (H' ! s) = int s" if s: "s < n" "s \<noteq> q" for s
  proof (cases "s = slot")
    case True
    then show ?thesis using okq q sl by (simp add: ids H'_def)
  next
    case False
    then have "H' ! s = H ! s" using s by (simp add: H'_def)
    moreover have "H ! s \<noteq> H ! q" using take_nth_distinct [OF sl(4,2) s(1) q(1)] s by auto
    ultimately show ?thesis using ix [OF s(1) False] by (simp add: ids)
  qed
  ultimately show "sift_pre ht' H' q n"
    using q sl di by (auto simp: sift_pre_def H'_def ht'_def copy_node_def)
qed

lemma sift_post_move:
  assumes pre: "sift_pre ht H slot n" and q: "q < n" "q \<noteq> slot"
    and post: "sift_post (copy_node ht slot (heap ht ! q)) (H[slot := H ! q, q := H ! slot]) n ht'"
  shows "sift_post ht H n ht'"
proof -
  note mv = sift_move [OF pre q]
  have st: "set (take n (H[slot := H ! q, q := H ! slot])) = set (take n H)"
    using mv(2) by (metis set_mset_mset)
  from post have "same_frame (copy_node ht slot (heap ht ! q)) ht'" by (simp add: sift_post_def)
  from same_frame_trans [OF same_frame_copy_node this] have "same_frame ht ht'" .
  with post mv(2,3) st show ?thesis
    by (auto simp: sift_post_def copy_node_def)
qed

lemma copy_node_tv [simp]: "timer_dups (copy_node ht s x) = timer_dups ht" "cur_size (copy_node ht s x) = cur_size ht"
  by (simp_all add: copy_node_def)

lemma swap_keys:
  assumes "slot < n" "q < n" "n \<le> length H" "i < n"
  shows "f (H[slot := H ! q, q := H ! slot] ! i) =
    ((\<lambda>i. f (H ! i))(slot := f (H ! q), q := f (H ! slot))) i"
  using assms by (auto simp: nth_list_update)

lemma reheap_up_post:
  assumes "sift_pre ht H slot n" and "moved = H ! slot" and "up_ok (\<lambda>i. node_tv ht (H ! i)) n slot"
  shows "sift_post ht H n (reheap_up ht moved slot)"
  using assms
proof (induction ht moved slot arbitrary: H rule: reheap_up.induct)
  case (1 ht moved slot)
  let ?p = "HEAP_PARENT slot"
  let ?K = "\<lambda>i. node_tv ht (H ! i)"
  have sl: "slot < n" "n \<le> length H" using "1.prems" by (auto simp: sift_pre_def)
  have hp: "heap ht ! ?p = H ! ?p" if "0 < slot"
    using "1.prems" HEAP_PARENT_less [OF that] by (auto simp: sift_pre_def)
  show ?case
  proof (cases "0 < slot \<and> ?K slot < ?K ?p")
    case True
    then have p: "?p < n" "?p \<noteq> slot" using sl HEAP_PARENT_less [of slot] by auto
    have cond: "slot > 0 \<and> PJ_TIME_VAL_LT (node_tv ht moved) (node_tv ht (heap ht ! ?p))"
      using True hp "1.prems" by (simp add: tv_order_simps)
    let ?H = "H[slot := H ! ?p, ?p := H ! slot]"
    let ?ht = "copy_node ht slot (heap ht ! ?p)"
    have k1: "up_ok (?K(slot := ?K ?p, ?p := ?K slot)) n ?p"
      by (rule up_step) (use "1.prems" True sl in auto)
    have k2: "(?K(slot := ?K ?p, ?p := ?K slot)) i = node_tv ?ht (?H ! i)" if "i < n" for i
      using swap_keys [OF sl(1) p(1) sl(2) that, of "node_tv ht"] by (simp only: copy_node_tv)
    have "up_ok (\<lambda>i. node_tv ?ht (?H ! i)) n ?p"
      by (rule iffD1 [OF heap_cong(1) [OF k2 p(1)] k1])
    moreover have "moved = ?H ! ?p" using "1.prems" p sl by simp
    ultimately have "sift_post ?ht ?H n (reheap_up ?ht moved ?p)"
      using "1.IH" [OF cond sift_move(1) [OF "1.prems"(1) p]] by blast
    then have "sift_post ht H n (reheap_up ?ht moved ?p)"
      by (rule sift_post_move [OF "1.prems"(1) p])
    then show ?thesis by (subst reheap_up.simps) (simp add: cond)
  next
    case False
    then have "is_heap ?K n"
      by (intro up_done [OF "1.prems"(3)]) auto
    moreover have "reheap_up ht moved slot = copy_node ht slot (H ! slot)"
      using False hp "1.prems" by (subst reheap_up.simps) (auto simp: tv_order_simps)
    ultimately show ?thesis using sift_finish [OF "1.prems"(1)] by simp
  qed
qed

lemma min_child:
  fixes K :: "nat \<Rightarrow> 'k::linorder"
  assumes "HEAP_LEFT slot < n"
  defines "c \<equiv> (if HEAP_LEFT slot + 1 < n \<and> K (HEAP_LEFT slot + 1) < K (HEAP_LEFT slot)
      then HEAP_LEFT slot + 1 else HEAP_LEFT slot)"
  shows "0 < c" "c < n" "HEAP_PARENT c = slot" "slot < c"
    and "\<And>d. 0 < d \<Longrightarrow> d < n \<Longrightarrow> HEAP_PARENT d = slot \<Longrightarrow> K c \<le> K d"
proof -
  show "0 < c" "c < n" "slot < c" using assms by (auto simp: HEAP_LEFT_def)
  then show "HEAP_PARENT c = slot" using HEAP_PARENT_child [of c slot] by (auto simp: c_def)
  fix d assume "0 < d" "d < n" "HEAP_PARENT d = slot"
  then show "K c \<le> K d" using HEAP_PARENT_child [of d slot] by (auto simp: c_def)
qed

lemma reheap_down_post:
  assumes "sift_pre ht H slot n" and "moved = H ! slot" and "n = cur_size ht"
    and "child = HEAP_LEFT slot" and "down_ok (\<lambda>i. node_tv ht (H ! i)) n slot"
  shows "sift_post ht H n (reheap_down ht moved slot child)"
  using assms
proof (induction ht moved slot child arbitrary: H rule: reheap_down.induct)
  case (1 ht moved slot child)
  let ?K = "\<lambda>i. node_tv ht (H ! i)"
  have sl: "slot < n" "n \<le> length H" using "1.prems" by (auto simp: sift_pre_def)
  have hH: "heap ht ! i = H ! i" if "i \<noteq> slot" for i
    using "1.prems" that by (auto simp: sift_pre_def)
  have ch: "child \<noteq> slot" "child + 1 \<noteq> slot" using "1.prems"(4) by (auto simp: HEAP_LEFT_def)
  define c where "c = (if child + 1 < n \<and> ?K (child + 1) < ?K child then child + 1 else child)"
  have cc: "(if child + 1 < cur_size ht \<and>
       PJ_TIME_VAL_LT (node_tv ht (heap ht ! (child + 1))) (node_tv ht (heap ht ! child))
       then child + 1 else child) = c"
    using ch "1.prems"(3) by (simp add: c_def tv_order_simps hH)
  have stop: ?case if hp: "is_heap ?K n" and eq: "reheap_down ht moved slot child = copy_node ht slot moved"
    using sift_finish [OF "1.prems"(1) hp] eq "1.prems"(2) by simp
  show ?case
  proof (cases "child < n")
    case False
    have "is_heap ?K n"
      by (rule down_done [OF "1.prems"(5)])
        (use False "1.prems"(4) HEAP_PARENT_child in auto)
    moreover have "reheap_down ht moved slot child = copy_node ht slot moved"
      using False "1.prems"(3) by (subst reheap_down.simps) simp
    ultimately show ?thesis by (rule stop)
  next
    case True
    note mc = min_child [where slot = slot and n = n and K = ?K, folded "1.prems"(4), OF True, folded c_def]
    have cs: "c \<noteq> slot" using mc(4) by simp
    show ?thesis
    proof (cases "?K c < ?K slot")
      case lt: True
      let ?H = "H[slot := H ! c, c := H ! slot]"
      let ?ht = "copy_node ht slot (heap ht ! c)"
      have cond: "PJ_TIME_VAL_LT (node_tv ht (heap ht ! c)) (node_tv ht moved)"
        using lt hH [OF cs] "1.prems"(2) by (simp add: tv_order_simps)
      have k1: "down_ok (?K(slot := ?K c, c := ?K slot)) n c"
        by (rule down_step [OF "1.prems"(5) mc(1-3) mc(5) lt])
      have k2: "(?K(slot := ?K c, c := ?K slot)) i = node_tv ?ht (?H ! i)" if "i < n" for i
        using swap_keys [OF sl(1) mc(2) sl(2) that, of "node_tv ht"] by (simp only: copy_node_tv)
      have dk: "down_ok (\<lambda>i. node_tv ?ht (?H ! i)) n c"
        by (rule iffD1 [OF heap_cong(2) [OF k2 mc(2)] k1])
      have "moved = ?H ! c" using "1.prems"(2) mc(2) sl by simp
      with dk have "sift_post ?ht ?H n (reheap_down ?ht moved c (HEAP_LEFT c))"
        using "1.IH" [OF _ cc [symmetric] cond sift_move(1) [OF "1.prems"(1) mc(2) cs]]
          True "1.prems"(3) by simp
      then have "sift_post ht H n (reheap_down ?ht moved c (HEAP_LEFT c))"
        by (rule sift_post_move [OF "1.prems"(1) mc(2) cs])
      moreover have "reheap_down ht moved slot child = reheap_down ?ht moved c (HEAP_LEFT c)"
        using True "1.prems"(3) by (subst reheap_down.simps) (simp only: cc Let_def cond if_True)
      ultimately show ?thesis by simp
    next
      case False
      have "is_heap ?K n"
        by (rule down_done [OF "1.prems"(5)]) (metis mc(5) False not_less order_trans)
      moreover have "\<not> PJ_TIME_VAL_LT (node_tv ht (heap ht ! c)) (node_tv ht moved)"
        using False hH [OF cs] "1.prems"(2) by (simp add: tv_order_simps)
      then have "reheap_down ht moved slot child = copy_node ht slot moved"
        using True "1.prems"(3) by (subst reheap_down.simps) (simp only: cc Let_def if_False if_True)
      ultimately show ?thesis by (rule stop)
    qed
  qed
qed

section \<open>The invariant of the timer heap\<close>

text \<open>
  The free list threads through \<open>timer_ids\<close> as negated indices; it ends at \<open>max_size\<close>,
  the first index out of range, which \<open>grow_heap\<close> turns into a valid one.
\<close>

fun free_chain :: "int list \<Rightarrow> int \<Rightarrow> nat list \<Rightarrow> nat \<Rightarrow> bool" where
  "free_chain ids f [] m \<longleftrightarrow> f = int m"
| "free_chain ids f (x # xs) m \<longleftrightarrow> f = int x \<and> free_chain ids (- (ids ! x)) xs m"

definition th_core :: "pj_timer_heap_t \<Rightarrow> nat \<Rightarrow> nat list \<Rightarrow> bool" where
  "th_core ht n fs \<longleftrightarrow> length (heap ht) = max_size ht \<and> length (timer_ids ht) = max_size ht \<and>
     length (timer_dups ht) = max_size ht \<and> n \<le> max_size ht \<and>
     distinct (take n (heap ht)) \<and> (\<forall>x \<in> set (take n (heap ht)). node_ok ht x) \<and>
     (\<forall>s < n. timer_ids ht ! (heap ht ! s) = int s) \<and>
     is_heap (\<lambda>i. node_tv ht (heap ht ! i)) n \<and>
     free_chain (timer_ids ht) (timer_ids_freelist ht) fs (max_size ht) \<and> distinct fs \<and>
     set fs = {1..<max_size ht} - set (take n (heap ht))"

definition th_inv :: "pj_timer_heap_t \<Rightarrow> bool" where
  "th_inv ht \<longleftrightarrow> cur_size ht + 2 \<le> max_size ht \<and> (\<exists>fs. th_core ht (cur_size ht) fs)"

abbreviation live :: "pj_timer_heap_t \<Rightarrow> nat set" where
  "live ht \<equiv> set (take (cur_size ht) (heap ht))"

text \<open>
  The heap and the application's entries agree: an entry's timer id is positive exactly when
  the heap holds a node for this entry.
\<close>

definition world_ok :: "pj_timer_heap_t \<Rightarrow> timer_world \<Rightarrow> bool" where
  "world_ok ht w \<longleftrightarrow>
     (\<forall>x \<in> live ht. te_timer_id (entries w (dup_entry (timer_dups ht ! x))) = int x) \<and>
     (\<forall>e. te_timer_id (entries w e) \<ge> 1 \<longrightarrow>
        (\<exists>x \<in> live ht. te_timer_id (entries w e) = int x \<and> dup_entry (timer_dups ht ! x) = e))"

text \<open>What the heap stands for: the multiset of pending (expiry time, entry) pairs.\<close>

definition th_abs :: "pj_timer_heap_t \<Rightarrow> (pj_time_val \<times> nat) multiset" where
  "th_abs ht = image_mset (\<lambda>x. (node_tv ht x, dup_entry (timer_dups ht ! x)))
     (mset (take (cur_size ht) (heap ht)))"

lemma free_chain_cong:
  "(\<And>x. x \<in> set fs \<Longrightarrow> ids ! x = ids' ! x) \<Longrightarrow> free_chain ids f fs m = free_chain ids' f fs m"
  by (induction fs arbitrary: f) auto

lemma core_of_post:
  assumes post: "sift_post ht H n ht'" and len: "length (heap ht) = max_size ht"
      "length (timer_ids ht) = max_size ht" "length (timer_dups ht) = max_size ht" "n \<le> max_size ht"
    and nd: "distinct (take n H)" "\<forall>x \<in> set (take n H). node_ok ht x"
    and fr: "free_chain (timer_ids ht) (timer_ids_freelist ht) fs (max_size ht)" "distinct fs"
      "set fs = {1..<max_size ht} - set (take n H)"
  shows "th_core ht' n fs"
proof -
  have sf: "same_frame ht ht'" and ms: "mset (take n (heap ht')) = mset (take n H)"
    and out: "\<And>j. j \<notin> set (take n H) \<Longrightarrow> timer_ids ht' ! j = timer_ids ht ! j"
    using post by (auto simp: sift_post_def)
  have st: "set (take n (heap ht')) = set (take n H)" using ms by (metis set_mset_mset)
  have di: "distinct (take n (heap ht'))" using ms nd(1) by (metis mset_eq_imp_distinct_iff)
  have "free_chain (timer_ids ht') (timer_ids_freelist ht') fs (max_size ht')"
    using fr(1) free_chain_cong [of fs "timer_ids ht'" "timer_ids ht"] out fr(3) sf
    by (auto simp: same_frame_def)
  with post sf len nd(2) fr di show ?thesis
    by (auto simp: th_core_def sift_post_def same_frame_def st node_ok_def)
qed

lemma th_coreD:
  assumes "th_core ht n fs"
  shows "length (heap ht) = max_size ht" "length (timer_ids ht) = max_size ht"
    "length (timer_dups ht) = max_size ht" "n \<le> max_size ht" "distinct (take n (heap ht))"
    "\<And>x. x \<in> set (take n (heap ht)) \<Longrightarrow> node_ok ht x"
    "\<And>s. s < n \<Longrightarrow> timer_ids ht ! (heap ht ! s) = int s"
    "is_heap (\<lambda>i. node_tv ht (heap ht ! i)) n"
    "free_chain (timer_ids ht) (timer_ids_freelist ht) fs (max_size ht)" "distinct fs"
    "set fs = {1..<max_size ht} - set (take n (heap ht))"
  using assms unfolding th_core_def by auto

lemma mset_take_replace_last:
  assumes "slot < n" "Suc n \<le> length xs"
  shows "mset (take n (xs[slot := xs ! n])) = mset (take (Suc n) xs) - {# xs ! slot #}"
proof -
  have "mset (take n (xs[slot := xs ! n])) = mset ((take n xs)[slot := xs ! n])"
    by (simp add: take_update_swap)
  also have "\<dots> = add_mset (xs ! n) (mset (take n xs) - {# xs ! slot #})"
    using assms by (simp add: mset_update)
  also have "\<dots> = mset (take (Suc n) xs) - {# xs ! slot #}"
  proof -
    have "mset (take (Suc n) xs) = add_mset (xs ! n) (mset (take n xs))"
      using assms by (simp add: take_Suc_conv_app_nth)
    moreover have "xs ! slot \<in># mset (take n xs)"
      using assms in_take_nth [of slot n xs] by simp
    then obtain M where "mset (take n xs) = add_mset (xs ! slot) M" by (rule mset_add)
    ultimately show ?thesis by simp
  qed
  finally show ?thesis .
qed

section \<open>Removing and inserting nodes\<close>

definition idle_dup :: "pj_timer_entry_dup \<Rightarrow> pj_timer_entry_dup" where
  "idle_dup d = d\<lparr>dup := (dup d)\<lparr>te_timer_id := - 1\<rparr>\<rparr>"

definition idle_entry :: "timer_world \<Rightarrow> nat \<Rightarrow> timer_world" where
  "idle_entry w e = w\<lparr>entries := (entries w)(e := (entries w e)\<lparr>te_timer_id := - 1\<rparr>)\<rparr>"

text \<open>The heap after a node's id is returned to the free list, before any sifting.\<close>

definition freed :: "pj_timer_heap_t \<Rightarrow> nat \<Rightarrow> pj_timer_heap_t" where
  "freed ht x = ht\<lparr>timer_ids := (timer_ids ht)[x := - timer_ids_freelist ht],
     timer_ids_freelist := int x, cur_size := cur_size ht - 1,
     timer_dups := (timer_dups ht)[x := idle_dup (timer_dups ht ! x)]\<rparr>"

lemma freed_simps [simp]:
  "heap (freed ht x) = heap ht" "max_size (freed ht x) = max_size ht"
  "max_entries_per_poll (freed ht x) = max_entries_per_poll ht"
  "cur_size (freed ht x) = cur_size ht - 1" "timer_ids_freelist (freed ht x) = int x"
  by (simp_all add: freed_def)

lemma freed_tv: "x < length (timer_dups ht) \<Longrightarrow> node_tv (freed ht x) y = node_tv ht y"
  by (cases "x = y") (simp_all add: freed_def idle_dup_def)

lemma node_ok_freed:
  "node_ok ht y \<Longrightarrow> y \<noteq> x \<Longrightarrow> node_ok (freed ht x) y"
  by (simp add: node_ok_def freed_def)

lemma freed_chain:
  assumes core: "th_core ht n fs" and x: "x \<in> set (take n (heap ht))"
  shows "free_chain (timer_ids (freed ht x)) (int x) (x # fs) (max_size ht)" "distinct (x # fs)"
    "set (x # fs) = {1..<max_size ht} - (set (take n (heap ht)) - {x})"
proof -
  note c = th_coreD [OF core]
  have xlt: "x < length (timer_ids ht)" "0 < x" using c(6) [OF x] by (auto simp: node_ok_def)
  have nx: "x \<notin> set fs" using c(11) x by simp
  have "free_chain (timer_ids (freed ht x)) (timer_ids_freelist ht) fs (max_size ht) =
      free_chain (timer_ids ht) (timer_ids_freelist ht) fs (max_size ht)"
    by (rule free_chain_cong) (use nx in \<open>auto simp: freed_def intro!: nth_list_update_neq\<close>)
  then show "free_chain (timer_ids (freed ht x)) (int x) (x # fs) (max_size ht)"
    using c(9) xlt by (simp add: freed_def)
  show "distinct (x # fs)" using nx c(10) by simp
  show "set (x # fs) = {1..<max_size ht} - (set (take n (heap ht)) - {x})"
  proof -
    have "x \<in> {1..<max_size ht}" using c(2) xlt by simp
    then show ?thesis unfolding list.set c(11) by blast
  qed
qed

lemma remove_node_unfold:
  assumes "node_id ht (heap ht ! slot) = int (heap ht ! slot)"
  defines "x \<equiv> heap ht ! slot" and "ht3 \<equiv> freed ht (heap ht ! slot)"
    and "ht4 \<equiv> copy_node (freed ht (heap ht ! slot)) slot (heap ht ! (cur_size ht - 1))"
    and "m \<equiv> heap ht ! (cur_size ht - 1)"
  shows "remove_node ht w slot =
    (if slot < cur_size ht - 1
     then if PJ_TIME_VAL_GTE (node_tv ht4 m) (node_tv ht4 (heap ht4 ! HEAP_PARENT slot))
          then reheap_down ht4 m slot (HEAP_LEFT slot) else reheap_up ht4 m slot
     else ht3, idle_entry w (dup_entry (timer_dups ht ! x)), x)"
proof -
  have "push_freelist ht (node_id ht x)\<lparr>cur_size := cur_size (push_freelist ht (node_id ht x)) - 1,
      timer_dups := (timer_dups ht)[x := idle_dup (timer_dups ht ! x)]\<rparr> = ht3"
    using assms(1) by (simp add: push_freelist_def ht3_def freed_def x_def)
  then show ?thesis
    unfolding remove_node_def Let_def
    by (simp add: x_def ht3_def ht4_def m_def freed_def idle_dup_def idle_entry_def push_freelist_def assms(1))
qed

lemma sift_orders:
  fixes K0 :: "nat \<Rightarrow> 'k::linorder"
  assumes hp: "is_heap K0 (Suc n)" and s: "slot < n"
  defines "K \<equiv> K0(slot := K0 n)"
  shows "K (HEAP_PARENT slot) \<le> K slot \<Longrightarrow> down_ok K n slot"
    and "\<not> K (HEAP_PARENT slot) \<le> K slot \<Longrightarrow> up_ok K n slot"
proof -
  have kp: "K0 (HEAP_PARENT i) \<le> K0 i" if "0 < i" "i < n" for i
    using hp that unfolding is_heap_def by auto
  have grand: "K (HEAP_PARENT slot) \<le> K c"
    if c: "0 < slot" "0 < c" "c < n" "HEAP_PARENT c = slot" for c
  proof -
    have "c \<noteq> slot" "HEAP_PARENT slot \<noteq> slot" using c HEAP_PARENT_less [of c] HEAP_PARENT_less [of slot] by auto
    then show ?thesis using kp [of c] kp [of slot] c s by (auto simp: K_def intro: order_trans)
  qed
  have off: "K (HEAP_PARENT i) \<le> K i" if i: "0 < i" "i < n" "HEAP_PARENT i \<noteq> slot" "i \<noteq> slot" for i
    using kp [of i] i by (simp add: K_def)
  { assume le: "K (HEAP_PARENT slot) \<le> K slot"
    have "K (HEAP_PARENT i) \<le> K i" if "0 < i" "i < n" "HEAP_PARENT i \<noteq> slot" for i
      using le off [of i] that by (cases "i = slot") simp_all
    then show "down_ok K n slot" using grand unfolding down_ok_def by blast }
  { assume gt: "\<not> K (HEAP_PARENT slot) \<le> K slot"
    then have s0: "0 < slot" by (cases "slot = 0") (auto simp: HEAP_PARENT_def)
    have "K (HEAP_PARENT i) \<le> K i" if "0 < i" "i < n" "i \<noteq> slot" for i
      using gt off [of i] grand [of i] s0 that by (cases "HEAP_PARENT i = slot") auto
    then show "up_ok K n slot" using grand unfolding up_ok_def by blast }
qed

lemma remove_core:
  assumes core: "th_core ht (Suc n) fs" and cur: "cur_size ht = Suc n" and slot: "slot < Suc n"
  defines "x \<equiv> heap ht ! slot"
  shows "\<exists>ht'. remove_node ht w slot = (ht', idle_entry w (dup_entry (timer_dups ht ! x)), x) \<and>
    th_core ht' n (x # fs) \<and> same_frame (freed ht x) ht' \<and>
    mset (take n (heap ht')) = mset (take (Suc n) (heap ht)) - {# x #}"
proof -
  note c = th_coreD [OF core]
  have xin: "x \<in> set (take (Suc n) (heap ht))"
    unfolding x_def using in_take_nth [of slot "Suc n" "heap ht"] slot c(1,4) by simp
  have xok: "node_ok ht x" by (rule c(6) [OF xin])
  then have xid: "node_id ht x = int x" and xlt: "x < length (timer_dups ht)"
    using c(2,3) by (auto simp: node_ok_def)
  note ch = freed_chain [OF core xin]
  define H where "H = (heap ht)[slot := heap ht ! n]"
  have msH: "mset (take n H) = mset (take (Suc n) (heap ht)) - {# x #}"
  proof (cases "slot = n")
    case True
    then show ?thesis using c(1,4) by (simp add: H_def x_def take_Suc_conv_app_nth)
  next
    case False
    then show ?thesis
      unfolding H_def x_def using mset_take_replace_last [of slot n "heap ht"] slot c(1,4) by simp
  qed
  have diH: "distinct (take n H)" and stH: "set (take n H) = set (take (Suc n) (heap ht)) - {x}"
  proof -
    have *: "mset (take (Suc n) (heap ht)) = add_mset x (mset (take n H))"
      using msH xin by simp
    then have "distinct (x # take n H)"
      using c(5) mset_eq_imp_distinct_iff [of "take (Suc n) (heap ht)" "x # take n H"] by simp
    moreover have "set (take (Suc n) (heap ht)) = insert x (set (take n H))"
      using * by (metis set_mset_add_mset_insert set_mset_mset)
    ultimately show "distinct (take n H)" "set (take n H) = set (take (Suc n) (heap ht)) - {x}"
      by auto
  qed
  have okH: "\<forall>y \<in> set (take n H). node_ok (freed ht x) y"
    using stH c(6) node_ok_freed by auto
  have lens: "length (heap (freed ht x)) = max_size (freed ht x)"
      "length (timer_ids (freed ht x)) = max_size (freed ht x)"
      "length (timer_dups (freed ht x)) = max_size (freed ht x)" "n \<le> max_size (freed ht x)"
    using c(1-4) by (simp_all add: freed_def)
  have K: "(\<lambda>i. node_tv (freed ht x) (H ! i)) i =
      ((\<lambda>i. node_tv ht (heap ht ! i))(slot := node_tv ht (heap ht ! n))) i" if "i < n" for i
    using that slot c(1,4) freed_tv [OF xlt] by (simp add: H_def nth_list_update)
  have idxH: "timer_ids (freed ht x) ! (H ! s) = int s" if s: "s < n" "s \<noteq> slot" for s
  proof -
    have hs: "H ! s = heap ht ! s" using s by (simp add: H_def)
    then have "heap ht ! s \<noteq> x" using stH in_take_nth [of s n H] s c(1,4) by (auto simp: H_def)
    then show ?thesis using c(7) [of s] s hs by (simp add: freed_def)
  qed
  show ?thesis
  proof (cases "slot < n")
    case False
    then have sl: "slot = n" using slot by simp
    then have eqr: "remove_node ht w slot =
        (freed ht x, idle_entry w (dup_entry (timer_dups ht ! x)), x)"
      using remove_node_unfold [of ht slot w] xid cur by (simp add: x_def)
    have "H = heap ht" using sl by (simp add: H_def)
    moreover have "is_heap (\<lambda>i. node_tv ht (heap ht ! i)) n"
      using c(8) unfolding is_heap_def by simp
    ultimately have "th_core (freed ht x) n (x # fs)"
      unfolding th_core_def using lens okH diH idxH ch sl stH freed_tv [OF xlt] by auto
    then show ?thesis using eqr msH \<open>H = heap ht\<close> by (auto simp: same_frame_def)
  next
    case True
    define m where "m = heap ht ! n"
    define ht4 where "ht4 = copy_node (freed ht x) slot m"
    have h4: "heap ht4 = H" by (simp add: ht4_def copy_node_def H_def m_def)
    have Hs: "H ! slot = m" using True c(1,4) by (simp add: H_def m_def)
    have pre: "sift_pre (freed ht x) H slot n"
      using True c(1,4) diH okH idxH by (auto simp: sift_pre_def H_def)
    have inm: "m \<in> set (take n H)" using in_take_nth [of slot n H] True c(1,4) Hs by (simp add: H_def)
    have pre4: "sift_pre ht4 H slot n"
    proof -
      have "timer_ids ht4 ! (H ! s) = int s" if s: "s < n" "s \<noteq> slot" for s
      proof -
        have "H ! s \<noteq> m" using take_nth_distinct [OF diH _ s(1) True] s Hs c(1,4) by (auto simp: H_def)
        moreover have "node_id (freed ht x) m = int m" using okH inm by (simp add: node_ok_def)
        ultimately show ?thesis using idxH [OF s] by (simp add: ht4_def copy_node_def)
      qed
      with pre h4 show ?thesis
        by (auto simp: sift_pre_def ht4_def node_ok_def copy_node_def)
    qed
    have tv4: "node_tv ht4 y = node_tv (freed ht x) y" for y by (simp add: ht4_def)
    let ?K = "(\<lambda>i. node_tv ht (heap ht ! i))(slot := node_tv ht (heap ht ! n))"
    note ord = sift_orders [OF c(8) True]
    have pn: "HEAP_PARENT slot < n" using True by (cases "slot = 0") (auto simp: HEAP_PARENT_def)
    have K4: "node_tv ht4 (H ! i) = ?K i" if "i < n" for i using K [OF that] tv4 by simp
    have gte: "PJ_TIME_VAL_GTE (node_tv ht4 m) (node_tv ht4 (heap ht4 ! HEAP_PARENT slot)) \<longleftrightarrow>
        ?K (HEAP_PARENT slot) \<le> ?K slot"
      using K4 [OF pn] K4 [OF True] by (simp only: tv_order_simps h4 Hs)
    define ht' where "ht' = (if ?K (HEAP_PARENT slot) \<le> ?K slot
       then reheap_down ht4 m slot (HEAP_LEFT slot) else reheap_up ht4 m slot)"
    have eqr: "remove_node ht w slot = (ht', idle_entry w (dup_entry (timer_dups ht ! x)), x)"
      using remove_node_unfold [of ht slot w] xid cur True gte
      by (simp add: x_def ht4_def m_def ht'_def)
    have c4: "n = cur_size ht4" using cur by (simp add: ht4_def)
    have post: "sift_post ht4 H n ht'"
    proof (cases "?K (HEAP_PARENT slot) \<le> ?K slot")
      case le: True
      have "down_ok (\<lambda>i. node_tv ht4 (H ! i)) n slot"
        by (rule iffD2 [OF heap_cong(2) [OF K4 True] ord(1) [OF le]])
      from reheap_down_post [OF pre4 Hs [symmetric] c4 refl this] le show ?thesis
        by (simp add: ht'_def)
    next
      case False
      have "up_ok (\<lambda>i. node_tv ht4 (H ! i)) n slot"
        by (rule iffD2 [OF heap_cong(1) [OF K4 True] ord(2) [OF False]])
      from reheap_up_post [OF pre4 Hs [symmetric] this] False show ?thesis
        by (simp add: ht'_def)
    qed
    have sf4: "same_frame (freed ht x) ht4" unfolding ht4_def by (rule same_frame_copy_node)
    have nm: "m \<notin> set (x # fs)" using inm ch(3) stH by auto
    have fl4: "free_chain (timer_ids ht4) (timer_ids_freelist ht4) (x # fs) (max_size ht4)"
    proof -
      have "node_id (freed ht x) m = int m" using okH inm by (simp add: node_ok_def)
      then have "timer_ids ht4 = (timer_ids (freed ht x))[m := int slot]"
        by (simp add: ht4_def copy_node_def)
      then have "free_chain (timer_ids ht4) (int x) (x # fs) (max_size ht) =
          free_chain (timer_ids (freed ht x)) (int x) (x # fs) (max_size ht)"
        by (intro free_chain_cong) (metis nm nth_list_update_neq)
      then show ?thesis using ch(1) sf4 by (simp add: same_frame_def)
    qed
    have "th_core ht' n (x # fs)"
      by (rule core_of_post [OF post])
        (use lens sf4 diH pre4 fl4 ch(2,3) stH in \<open>auto simp: same_frame_def sift_pre_def\<close>)
    moreover have "same_frame (freed ht x) ht'"
      using same_frame_trans [OF sf4] post by (simp add: sift_post_def)
    ultimately show ?thesis using eqr post msH by (auto simp: sift_post_def)
  qed
qed

lemma free_chain_append:
  "free_chain ids f xs m \<Longrightarrow> free_chain ids (int m) ys k \<Longrightarrow> free_chain ids f (xs @ ys) k"
  by (induction xs arbitrary: f) auto

lemma free_chain_upt:
  "(\<And>j. a \<le> j \<Longrightarrow> j < b \<Longrightarrow> ids ! j = - (int j + 1)) \<Longrightarrow> a \<le> b \<Longrightarrow>
   free_chain ids (int a) [a..<b] b"
proof (induction "b - a" arbitrary: a)
  case 0
  then show ?case by simp
next
  case (Suc k)
  from Suc.hyps(2) have "a < b" by simp
  have "free_chain ids (int (Suc a)) [Suc a..<b] b"
    by (rule Suc.hyps(1)) (use Suc.hyps(2) Suc.prems(1) in auto)
  then show ?case using \<open>a < b\<close> Suc.prems(1) [of a] by (simp add: upt_conv_Cons add.commute)
qed

lemma grow_heap_ok:
  "grow_heap (True, True, True) ht =
    (ht\<lparr>timer_dups := timer_dups ht @ replicate (max_size ht) zero_dup,
        heap := take (cur_size ht) (heap ht) @ replicate (max_size ht * 2 - cur_size ht) 0,
        timer_ids := timer_ids ht @ map (\<lambda>i. - (int i + 1)) [max_size ht..<max_size ht * 2],
        max_size := max_size ht * 2\<rparr>, PJ_SUCCESS)"
  by (simp add: grow_heap_def Let_def)

lemma grow_core:
  assumes core: "th_core ht n fs" and cur: "cur_size ht = n" and pos: "0 < max_size ht"
  defines "g \<equiv> fst (grow_heap (True, True, True) ht)"
  shows "th_core g n (fs @ [max_size ht..<max_size ht * 2])"
    and "take n (heap g) = take n (heap ht)" and "cur_size g = n" and "max_size g = max_size ht * 2"
    and "timer_dups g = timer_dups ht @ replicate (max_size ht) zero_dup"
    and "timer_ids_freelist g = timer_ids_freelist ht"
    and "i < max_size ht \<Longrightarrow> timer_ids g ! i = timer_ids ht ! i"
    and "max_entries_per_poll g = max_entries_per_poll ht"
proof -
  note c = th_coreD [OF core]
  let ?m = "max_size ht"
  have tk: "take n (heap g) = take n (heap ht)" using c(1,4) by (simp add: g_def grow_heap_ok cur)
  have old: "timer_ids g ! j = timer_ids ht ! j" if "j < ?m" for j
    using that c(2) by (simp add: g_def grow_heap_ok nth_append)
  have new: "timer_ids g ! j = - (int j + 1)" if "?m \<le> j" "j < ?m * 2" for j
    using that c(2) by (simp add: g_def grow_heap_ok nth_append)
  have nth: "heap g ! s = heap ht ! s" if "s < n" for s
    using tk that by (metis nth_take)
  have lt: "x < ?m" if "x \<in> set (take n (heap ht))" for x
    using c(6) [OF that] c(2) by (simp add: node_ok_def)
  have dups: "timer_dups g ! x = timer_dups ht ! x" if "x < ?m" for x
    using that c(3) by (simp add: g_def grow_heap_ok nth_append)
  have inn: "heap ht ! s \<in> set (take n (heap ht))" if "s < n" for s
    using in_take_nth [OF that, of "heap ht"] c(1,4) by simp
  have "free_chain (timer_ids g) (timer_ids_freelist ht) fs ?m"
    using c(9) free_chain_cong [of fs "timer_ids g" "timer_ids ht"] old c(11) by auto
  moreover have "free_chain (timer_ids g) (int ?m) [?m..<?m * 2] (?m * 2)"
    by (rule free_chain_upt) (use new in auto)
  ultimately have ch: "free_chain (timer_ids g) (timer_ids_freelist ht) (fs @ [?m..<?m * 2]) (?m * 2)"
    by (rule free_chain_append)
  have "is_heap (\<lambda>i. node_tv g (heap g ! i)) n"
  proof (cases "n = 0")
    case False
    then show ?thesis
      using c(8) heap_cong(3) [of n "\<lambda>i. node_tv g (heap g ! i)" "\<lambda>i. node_tv ht (heap ht ! i)" 0]
        nth dups lt inn by simp
  qed (simp add: is_heap_def)
  moreover have "node_ok g x" if "x \<in> set (take n (heap ht))" for x
    using c(6) [OF that] lt [OF that] dups
    by (simp add: node_ok_def) (simp add: g_def grow_heap_ok)
  moreover have "set (fs @ [?m..<?m * 2]) = {1..<?m * 2} - set (take n (heap ht))"
  proof -
    have "{1..<?m * 2} = {1..<?m} \<union> {?m..<?m * 2}" using pos by auto
    moreover have "set (take n (heap ht)) \<inter> {?m..<?m * 2} = {}" using lt by fastforce
    ultimately show ?thesis unfolding set_append set_upt c(11) by blast
  qed
  moreover have "distinct (fs @ [?m..<?m * 2])" 
    by (simp only: distinct_append c(10,11) distinct_upt set_upt) auto
  ultimately show "th_core g n (fs @ [?m..<?m * 2])"
    unfolding th_core_def tk using c(1-7) ch old nth lt inn
    by (auto simp: g_def grow_heap_ok cur)
  show "take n (heap g) = take n (heap ht)" by (rule tk)
  show "i < ?m \<Longrightarrow> timer_ids g ! i = timer_ids ht ! i" by (rule old)
qed (simp_all add: grow_heap_ok cur g_def)

text \<open>Inserting the node of the id just popped: the heart of \<open>insert_node\<close>.\<close>

lemma insert_core:
  assumes core: "th_core ht n (x # fs)" and cur: "cur_size ht = n" and d: "te_timer_id (dup d) = int x"
  defines "ht2 \<equiv> ht\<lparr>timer_ids_freelist := - (timer_ids ht ! x), timer_dups := (timer_dups ht)[x := d]\<rparr>"
  defines "ht3 \<equiv> reheap_up ht2 x n"
  shows "th_core ht3 (Suc n) fs" and "same_frame ht2 ht3"
    and "mset (take (Suc n) (heap ht3)) = add_mset x (mset (take n (heap ht)))"
proof -
  note c = th_coreD [OF core]
  have x: "x \<notin> set (take n (heap ht))" "0 < x" "x < max_size ht"
  proof -
    have "x \<in> {1..<max_size ht} - set (take n (heap ht))" using c(11) by (metis list.set_intros(1))
    then show "x \<notin> set (take n (heap ht))" "0 < x" "x < max_size ht" by auto
  qed
  have nlt: "n < max_size ht"
  proof -
    have "card (insert x (set (take n (heap ht)))) \<le> card {1..<max_size ht}"
      by (rule card_mono) (use x c(2,6) in \<open>auto simp: node_ok_def Suc_le_eq\<close>)
    moreover have "card (set (take n (heap ht))) = n" using c(1,4,5) by (simp add: distinct_card)
    ultimately show ?thesis using x by simp
  qed
  define H where "H = (heap ht)[n := x]"
  have tkH: "take (Suc n) H = take n (heap ht) @ [x]"
    using nlt c(1) by (simp add: H_def take_Suc_conv_app_nth)
  have nthH: "H ! s = heap ht ! s" if "s \<noteq> n" for s using that by (simp add: H_def)
  have Hn: "H ! n = x" using nlt c(1) by (simp add: H_def)
  have neq: "x \<noteq> heap ht ! s" if "s < n" for s using x in_take_nth that c(1,4) by metis
  have ok: "node_ok ht2 y" if "y \<in> set (take (Suc n) H)" for y
    using that x c(2,3,6) d by (cases "y = x") (auto simp: tkH node_ok_def ht2_def)
  have "distinct (take (Suc n) H)" using c(5) x(1) by (simp add: tkH)
  then have pre: "sift_pre ht2 H n (Suc n)"
    unfolding sift_pre_def
    using nlt c(1,7) ok nthH by (auto simp: H_def ht2_def less_Suc_eq)
  have up: "up_ok (\<lambda>i. node_tv ht2 (H ! i)) (Suc n) n"
  proof -
    have "node_tv ht2 (H ! HEAP_PARENT i) \<le> node_tv ht2 (H ! i)" if i: "0 < i" "i < n" for i
    proof -
      have "HEAP_PARENT i < n" using HEAP_PARENT_less [of i] i by simp
      then show ?thesis
        using c(8) i neq nthH by (simp add: is_heap_def ht2_def)
    qed
    moreover have "\<not> (0 < c \<and> c < Suc n \<and> HEAP_PARENT c = n)" for c
      using HEAP_PARENT_less [of c] by auto
    ultimately show ?thesis unfolding up_ok_def by (metis less_SucE)
  qed
  have post: "sift_post ht2 H (Suc n) ht3"
    unfolding ht3_def by (rule reheap_up_post [OF pre Hn [symmetric] up])
  show "th_core ht3 (Suc n) fs"
  proof (rule core_of_post [OF post])
    show "free_chain (timer_ids ht2) (timer_ids_freelist ht2) fs (max_size ht2)"
      using c(9) by (simp add: ht2_def)
    show "set fs = {1..<max_size ht2} - set (take (Suc n) H)"
      using c(10,11) by (auto simp: ht2_def tkH)
  qed (use c nlt pre in \<open>auto simp: ht2_def sift_pre_def\<close>)
  show "same_frame ht2 ht3" using post by (simp add: sift_post_def)
  show "mset (take (Suc n) (heap ht3)) = add_mset x (mset (take n (heap ht)))"
    using post by (simp add: sift_post_def tkH)
qed

lemma th_core_free_nonempty:
  assumes core: "th_core ht n fs" and room: "n + 2 \<le> max_size ht"
  obtains x fs' where "fs = x # fs'" and "timer_ids_freelist ht = int x"
proof (cases fs)
  case Nil
  note c = th_coreD [OF core]
  have "card {1..<max_size ht} \<le> card (set (take n (heap ht)))"
    by (rule card_mono) (use c(11) Nil in auto)
  also have "\<dots> \<le> n" by (metis List.finite_set card_length length_take min.cobounded2 order_trans)
  finally show ?thesis using room by simp
next
  case (Cons x fs')
  with that th_coreD(9) [OF core] show ?thesis by simp
qed

definition new_dup :: "pj_timer_entry \<Rightarrow> nat \<Rightarrow> nat \<Rightarrow> pj_time_val \<Rightarrow> pj_timer_entry_dup" where
  "new_dup te x e t = \<lparr>dup = te\<lparr>te_timer_id := int x\<rparr>, dup_entry = e, dup_timer_value = t,
     dup_grp_lock = None\<rparr>"

definition started_entry :: "timer_world \<Rightarrow> nat \<Rightarrow> nat \<Rightarrow> timer_world" where
  "started_entry w e x = w\<lparr>entries := (entries w)(e := (entries w e)\<lparr>te_timer_id := int x\<rparr>)\<rparr>"

text \<open>The array that the new node is inserted into: grown when it is nearly full.\<close>

definition roomy :: "pj_timer_heap_t \<Rightarrow> pj_timer_heap_t" where
  "roomy ht = (if cur_size ht + 2 \<ge> max_size ht then fst (grow_heap (True, True, True) ht) else ht)"

lemma roomy_core:
  assumes core: "th_core ht n (x # fs)" and cur: "cur_size ht = n" and room: "n + 2 \<le> max_size ht"
  shows "\<exists>fs'. th_core (roomy ht) n (x # fs')" and "take n (heap (roomy ht)) = take n (heap ht)"
    and "cur_size (roomy ht) = n" and "n + 3 \<le> max_size (roomy ht)"
    and "timer_ids_freelist (roomy ht) = timer_ids_freelist ht"
    and "i < max_size ht \<Longrightarrow> timer_ids (roomy ht) ! i = timer_ids ht ! i"
    and "i < max_size ht \<Longrightarrow> timer_dups (roomy ht) ! i = timer_dups ht ! i"
    and "max_entries_per_poll (roomy ht) = max_entries_per_poll ht"
proof -
  have pos: "0 < max_size ht" using room by simp
  note g = grow_core [OF core cur pos]
  show "\<exists>fs'. th_core (roomy ht) n (x # fs')"
    using g(1) core by (auto simp: roomy_def)
  show "i < max_size ht \<Longrightarrow> timer_dups (roomy ht) ! i = timer_dups ht ! i"
    using g(5) th_coreD(3) [OF core] by (simp add: roomy_def nth_append)
  show "n + 3 \<le> max_size (roomy ht)" using g(4) room cur by (auto simp: roomy_def)
  show "take n (heap (roomy ht)) = take n (heap ht)" "cur_size (roomy ht) = n"
    "timer_ids_freelist (roomy ht) = timer_ids_freelist ht"
    "i < max_size ht \<Longrightarrow> timer_ids (roomy ht) ! i = timer_ids ht ! i"
    "max_entries_per_poll (roomy ht) = max_entries_per_poll ht"
    using g cur by (simp_all add: roomy_def)
qed

lemma schedule_entry_unfold:
  assumes "cur_size ht + 2 \<le> max_size ht" and "timer_ids_freelist ht = int x"
    and "x < max_size ht" and "timer_ids (roomy ht) ! x = timer_ids ht ! x"
  shows "schedule_entry (True, True, True) ht w e t =
    (let ht2 = (roomy ht)\<lparr>timer_ids_freelist := - (timer_ids (roomy ht) ! x),
          timer_dups := (timer_dups (roomy ht))[x := new_dup (entries w e) x e t]\<rparr>;
         ht3 = reheap_up ht2 x (cur_size (roomy ht))
     in (ht3\<lparr>cur_size := cur_size ht3 + 1\<rparr>, started_entry w e x, PJ_SUCCESS))"
proof -
  let ?f = "- (timer_ids ht ! x)"
  have grown: "(if cur_size (ht\<lparr>timer_ids_freelist := ?f\<rparr>) + 2 \<ge> max_size (ht\<lparr>timer_ids_freelist := ?f\<rparr>)
      then grow_heap (True, True, True) (ht\<lparr>timer_ids_freelist := ?f\<rparr>)
      else (ht\<lparr>timer_ids_freelist := ?f\<rparr>, PJ_SUCCESS)) =
    ((roomy ht)\<lparr>timer_ids_freelist := ?f\<rparr>, PJ_SUCCESS)"
    by (cases ht) (simp add: roomy_def grow_heap_ok)
  have "cur_size ht < max_size ht" using assms(1) by simp
  then show ?thesis
    using assms(2,4)
    by (simp only: schedule_entry_def pop_freelist_def insert_node_def grown if_True Let_def
        prod.case nat_int)
      (simp add: new_dup_def started_entry_def)
qed

lemma th_core_cur_size [simp]: "th_core (ht\<lparr>cur_size := k\<rparr>) n fs = th_core ht n fs"
  by (simp add: th_core_def node_ok_def)

lemma schedule_entry_spec:
  assumes inv: "th_inv ht"
  shows "\<exists>ht2 x. schedule_entry (True, True, True) ht w e t = (ht2, started_entry w e x, PJ_SUCCESS) \<and>
    th_inv ht2 \<and> cur_size ht2 = Suc (cur_size ht) \<and>
    max_entries_per_poll ht2 = max_entries_per_poll ht \<and> 0 < x \<and> x \<notin> live ht \<and>
    mset (take (cur_size ht2) (heap ht2)) = add_mset x (mset (take (cur_size ht) (heap ht))) \<and>
    timer_dups ht2 ! x = new_dup (entries w e) x e t \<and>
    (\<forall>y \<in> live ht. timer_dups ht2 ! y = timer_dups ht ! y) \<and>
    length (timer_dups ht2) = max_size ht2"
proof -
  from inv obtain fs where room: "cur_size ht + 2 \<le> max_size ht" and core: "th_core ht (cur_size ht) fs"
    by (auto simp: th_inv_def)
  obtain x fs' where fs: "fs = x # fs'" and fl: "timer_ids_freelist ht = int x"
    using th_core_free_nonempty [OF core room] by blast
  note core = core [unfolded fs]
  note c = th_coreD [OF core] and r = roomy_core [OF core refl room]
  obtain fs2 where core2: "th_core (roomy ht) (cur_size ht) (x # fs2)" using r(1) by blast
  have "x \<in> {1..<max_size ht} - live ht" using c(11) by (metis list.set_intros(1))
  then have x: "0 < x" "x < max_size ht" "x \<notin> live ht" by auto
  let ?d = "new_dup (entries w e) x e t"
  define ht2 where "ht2 = (roomy ht)\<lparr>timer_ids_freelist := - (timer_ids (roomy ht) ! x),
      timer_dups := (timer_dups (roomy ht))[x := ?d]\<rparr>"
  define ht3 where "ht3 = reheap_up ht2 x (cur_size ht)"
  have "te_timer_id (dup ?d) = int x" by (simp add: new_dup_def)
  note ins = insert_core [OF core2 r(3) this, folded ht2_def, folded ht3_def]
  have sf: "cur_size ht3 = cur_size ht" "max_size ht3 = max_size (roomy ht)"
      "timer_dups ht3 = (timer_dups (roomy ht))[x := ?d]"
      "max_entries_per_poll ht3 = max_entries_per_poll ht"
    using ins(2) r(3,8) by (simp_all add: same_frame_def ht2_def)
  let ?ht = "ht3\<lparr>cur_size := cur_size ht3 + 1\<rparr>"
  have eq: "schedule_entry (True, True, True) ht w e t = (?ht, started_entry w e x, PJ_SUCCESS)"
    using schedule_entry_unfold [OF room fl x(2) r(6) [OF x(2)]] r(3)
    by (simp add: ht3_def ht2_def Let_def)
  have "th_core ?ht (Suc (cur_size ht)) fs2"
    using ins(1) by simp
  then have "th_inv ?ht" using r(4) sf by (auto simp: th_inv_def)
  moreover have "mset (take (cur_size ?ht) (heap ?ht)) = add_mset x (mset (take (cur_size ht) (heap ht)))"
    using ins(3) r(2) sf by simp
  moreover have lens: "x < length (timer_dups (roomy ht))" "length (timer_dups (roomy ht)) = max_size (roomy ht)"
    using th_coreD(3,11) [OF core2] by auto
  moreover have "timer_dups ?ht ! y = timer_dups ht ! y" if "y \<in> live ht" for y
    using that x(3) c(2) c(6) [OF that] r(7) [of y] sf
    by (cases "y = x") (auto simp: node_ok_def)
  ultimately show ?thesis using eq x sf by (intro exI [of _ ?ht] exI [of _ x]) simp
qed

section \<open>The operations on heap and application memory\<close>

definition timer_ok :: "pj_timer_heap_t \<times> timer_world \<Rightarrow> bool" where
  "timer_ok q \<longleftrightarrow> th_inv (fst q) \<and> world_ok (fst q) (snd q)"

lemma world_okD:
  assumes "world_ok ht w"
  shows "x \<in> live ht \<Longrightarrow> te_timer_id (entries w (dup_entry (timer_dups ht ! x))) = int x"
    and "te_timer_id (entries w e) \<ge> 1 \<Longrightarrow>
      \<exists>x \<in> live ht. te_timer_id (entries w e) = int x \<and> dup_entry (timer_dups ht ! x) = e"
  using assms by (auto simp: world_ok_def)

lemma remove_node_spec:
  assumes ok: "timer_ok (ht, w)" and slot: "slot < cur_size ht"
  defines "x \<equiv> heap ht ! slot"
  shows "\<exists>ht'. remove_node ht w slot = (ht', idle_entry w (dup_entry (timer_dups ht ! x)), x) \<and>
    timer_ok (ht', idle_entry w (dup_entry (timer_dups ht ! x))) \<and>
    th_abs ht' = th_abs ht - {# (node_tv ht x, dup_entry (timer_dups ht ! x)) #} \<and>
    (node_tv ht x, dup_entry (timer_dups ht ! x)) \<in># th_abs ht \<and>
    cur_size ht' = cur_size ht - 1 \<and> max_entries_per_poll ht' = max_entries_per_poll ht \<and>
    timer_dups ht' = (timer_dups ht)[x := idle_dup (timer_dups ht ! x)] \<and>
    live ht' = live ht - {x}"
proof -
  obtain n where n: "cur_size ht = Suc n" using slot by (cases "cur_size ht") auto
  from ok obtain fs where core: "th_core ht (Suc n) fs" and room: "Suc n + 2 \<le> max_size ht"
    by (auto simp: timer_ok_def th_inv_def n)
  note c = th_coreD [OF core]
  let ?e = "dup_entry (timer_dups ht ! x)"
  obtain ht' where rm: "remove_node ht w slot = (ht', idle_entry w ?e, x)"
      and core': "th_core ht' n (x # fs)" and sf: "same_frame (freed ht x) ht'"
      and ms: "mset (take n (heap ht')) = mset (take (Suc n) (heap ht)) - {# x #}"
    using remove_core [OF core n, of slot w] slot n unfolding x_def by auto
  have xin: "x \<in> live ht" unfolding x_def using in_take_nth [of slot "Suc n" "heap ht"] slot n c(1,4) by simp
  have cur': "cur_size ht' = n" and max': "max_size ht' = max_size ht"
      and dups': "timer_dups ht' = (timer_dups ht)[x := idle_dup (timer_dups ht ! x)]"
      and mep: "max_entries_per_poll ht' = max_entries_per_poll ht"
    using sf n by (simp_all add: same_frame_def freed_def)
  have ms2: "mset (take (Suc n) (heap ht)) = mset (x # take n (heap ht'))"
    using ms xin n by simp
  then have "distinct (x # take n (heap ht'))" using c(5) mset_eq_imp_distinct_iff by blast
  moreover have "set (take (Suc n) (heap ht)) = set (x # take n (heap ht'))"
    using ms2 by (metis set_mset_mset)
  ultimately have lv: "live ht' = live ht - {x}" using cur' n by auto
  have ent: "dup_entry (timer_dups ht' ! y) = dup_entry (timer_dups ht ! y)"
      "node_tv ht' y = node_tv ht y" for y
    by (cases "y = x"; cases "x < length (timer_dups ht)"; simp add: dups' idle_dup_def list_update_beyond)+
  have w: "world_ok ht w" using ok by (simp add: timer_ok_def)
  have "world_ok ht' (idle_entry w ?e)"
    unfolding world_ok_def lv ent
  proof (intro conjI ballI allI impI)
    fix y assume y: "y \<in> live ht - {x}"
    then have "dup_entry (timer_dups ht ! y) \<noteq> ?e"
      using world_okD(1) [OF w, of y] world_okD(1) [OF w xin] by force
    then show "te_timer_id (entries (idle_entry w ?e) (dup_entry (timer_dups ht ! y))) = int y"
      using world_okD(1) [OF w, of y] y by (simp add: idle_entry_def)
  next
    fix e assume "1 \<le> te_timer_id (entries (idle_entry w ?e) e)"
    then have ne: "e \<noteq> ?e" and "te_timer_id (entries w e) \<ge> 1"
      by (auto simp: idle_entry_def split: if_splits)
    from world_okD(2) [OF w this(2)] ne
    show "\<exists>y \<in> live ht - {x}. te_timer_id (entries (idle_entry w ?e) e) = int y \<and>
        dup_entry (timer_dups ht ! y) = e"
      by (auto simp: idle_entry_def)
  qed
  moreover have "th_inv ht'" using core' cur' max' room by (auto simp: th_inv_def)
  moreover have "th_abs ht = add_mset (node_tv ht x, ?e) (th_abs ht')"
    unfolding th_abs_def cur' n ent using ms2 by simp
  ultimately show ?thesis using rm cur' mep dups' lv n by (auto simp: timer_ok_def)
qed

lemma schedule_entry_ok:
  assumes ok: "timer_ok (ht, w)" and idle: "te_timer_id (entries w e) < 1"
  shows "\<exists>ht2 x. schedule_entry (True, True, True) ht w e t = (ht2, started_entry w e x, PJ_SUCCESS) \<and>
    timer_ok (ht2, started_entry w e x) \<and> th_abs ht2 = add_mset (t, e) (th_abs ht) \<and>
    cur_size ht2 = Suc (cur_size ht) \<and> max_entries_per_poll ht2 = max_entries_per_poll ht \<and>
    0 < x \<and> x \<in> live ht2 \<and> timer_dups ht2 ! x = new_dup (entries w e) x e t \<and>
    x < length (timer_dups ht2)"
proof -
  have inv: "th_inv ht" and w: "world_ok ht w" using ok by (auto simp: timer_ok_def)
  obtain ht2 x where sch: "schedule_entry (True, True, True) ht w e t = (ht2, started_entry w e x, PJ_SUCCESS)"
      and s: "th_inv ht2" "cur_size ht2 = Suc (cur_size ht)"
        "max_entries_per_poll ht2 = max_entries_per_poll ht" "0 < x" "x \<notin> live ht"
        "mset (take (cur_size ht2) (heap ht2)) = add_mset x (mset (take (cur_size ht) (heap ht)))"
        "timer_dups ht2 ! x = new_dup (entries w e) x e t"
        "\<And>y. y \<in> live ht \<Longrightarrow> timer_dups ht2 ! y = timer_dups ht ! y"
        "length (timer_dups ht2) = max_size ht2"
    using schedule_entry_spec [OF inv, of w e t] by blast
  have lv: "live ht2 = insert x (live ht)"
    using s(6) by (metis set_mset_add_mset_insert set_mset_mset)
  have notold: "dup_entry (timer_dups ht ! y) \<noteq> e" if "y \<in> live ht" for y
  proof -
    from s(1) inv obtain fs where "th_core ht (cur_size ht) fs" by (auto simp: th_inv_def)
    then have "0 < y" using th_coreD(6) that by (auto simp: node_ok_def)
    then show ?thesis using world_okD(1) [OF w that] idle by auto
  qed
  have "world_ok ht2 (started_entry w e x)"
    unfolding world_ok_def lv
  proof (intro conjI ballI allI impI)
    fix y assume "y \<in> insert x (live ht)"
    then show "te_timer_id (entries (started_entry w e x) (dup_entry (timer_dups ht2 ! y))) = int y"
      using s(7) s(8) [of y] notold [of y] world_okD(1) [OF w, of y] by (auto simp: started_entry_def new_dup_def)
  next
    fix f assume f: "1 \<le> te_timer_id (entries (started_entry w e x) f)"
    show "\<exists>y \<in> insert x (live ht). te_timer_id (entries (started_entry w e x) f) = int y \<and>
        dup_entry (timer_dups ht2 ! y) = f"
      using f world_okD(2) [OF w, of f] s(7,8)
      by (cases "f = e") (auto simp: started_entry_def new_dup_def)
  qed
  moreover have "th_abs ht2 = add_mset (t, e) (th_abs ht)"
    using s(6,7,8) by (auto simp: th_abs_def new_dup_def intro!: image_mset_cong)
  moreover have "x < length (timer_dups ht2)"
    using s(1,9) lv by (auto simp: th_inv_def th_core_def node_ok_def)
  ultimately show ?thesis using sch s lv by (auto simp: timer_ok_def)
qed
lemma timer_ok_grp [simp]: "timer_ok (ht, grp_add k g w) = timer_ok (ht, w)"
  by (simp add: timer_ok_def world_ok_def grp_add_def split: option.splits)

lemma entries_grp [simp]: "entries (grp_add k g w) = entries w"
  by (simp add: grp_add_def split: option.splits)

text \<open>Changing an entry's user id, or copied data other than id and time, keeps the invariant.\<close>

lemma timer_ok_set_id:
  "timer_ok (ht, w\<lparr>entries := (entries w)(e := (entries w e)\<lparr>te_id := v\<rparr>)\<rparr>) = timer_ok (ht, w)"
proof -
  have "te_timer_id ((if f = e then (entries w e)\<lparr>te_id := v\<rparr> else entries w f)) = te_timer_id (entries w f)" for f
    by simp
  then show ?thesis by (simp add: timer_ok_def world_ok_def fun_upd_def)
qed

lemma timer_ok_dup_cong:
  assumes "te_timer_id (dup d) = te_timer_id (dup (timer_dups ht ! x))"
    and "dup_entry d = dup_entry (timer_dups ht ! x)"
    and "dup_timer_value d = dup_timer_value (timer_dups ht ! x)"
  shows "timer_ok (ht\<lparr>timer_dups := (timer_dups ht)[x := d]\<rparr>, w) = timer_ok (ht, w)"
    and "th_abs (ht\<lparr>timer_dups := (timer_dups ht)[x := d]\<rparr>) = th_abs ht"
proof -
  have "te_timer_id (dup ((timer_dups ht)[x := d] ! y)) = te_timer_id (dup (timer_dups ht ! y)) \<and>
      dup_entry ((timer_dups ht)[x := d] ! y) = dup_entry (timer_dups ht ! y) \<and>
      dup_timer_value ((timer_dups ht)[x := d] ! y) = dup_timer_value (timer_dups ht ! y)" for y
    using assms by (cases "x < length (timer_dups ht)"; cases "y = x") (simp_all add: list_update_beyond)
  then show "timer_ok (ht\<lparr>timer_dups := (timer_dups ht)[x := d]\<rparr>, w) = timer_ok (ht, w)"
      "th_abs (ht\<lparr>timer_dups := (timer_dups ht)[x := d]\<rparr>) = th_abs ht"
    by (simp_all add: timer_ok_def th_inv_def th_core_def node_ok_def world_ok_def th_abs_def)
qed

lemma schedule_w_grp_lock_ok:
  assumes ok: "timer_ok (ht, w)" and idle: "\<not> pj_timer_entry_running (entries w e)"
    and cb: "te_cb (entries w e) \<noteq> None"
  shows "\<exists>ht' w'. schedule_w_grp_lock (True, True, True) now ht w e delay sid grp = (ht', w', PJ_SUCCESS) \<and>
    timer_ok (ht', w') \<and> th_abs ht' = add_mset (PJ_TIME_VAL_ADD now delay, e) (th_abs ht) \<and>
    cur_size ht' = Suc (cur_size ht) \<and> max_entries_per_poll ht' = max_entries_per_poll ht \<and>
    pj_timer_entry_running (entries w' e) \<and>
    (\<forall>f. f \<noteq> e \<longrightarrow> entries w' f = entries w f) \<and> grp_refs w' = grp_refs (grp_add 1 grp w)"
proof -
  let ?t = "PJ_TIME_VAL_ADD now delay"
  have "te_timer_id (entries w e) < 1" using idle by (simp add: pj_timer_entry_running_def)
  then obtain ht2 x where sch: "schedule_entry (True, True, True) ht w e ?t = (ht2, started_entry w e x, PJ_SUCCESS)"
    and s: "timer_ok (ht2, started_entry w e x)" "th_abs ht2 = add_mset (?t, e) (th_abs ht)"
      "cur_size ht2 = Suc (cur_size ht)" "max_entries_per_poll ht2 = max_entries_per_poll ht" "0 < x"
      "timer_dups ht2 ! x = new_dup (entries w e) x e ?t" "x < length (timer_dups ht2)"
    using schedule_entry_ok [OF ok, of e ?t] by blast
  define d1 where "d1 = (case sid of None \<Rightarrow> timer_dups ht2 ! x
      | Some v \<Rightarrow> (timer_dups ht2 ! x)\<lparr>dup := (dup (timer_dups ht2 ! x))\<lparr>te_id := v\<rparr>\<rparr>)\<lparr>dup_grp_lock := grp\<rparr>"
  define w1 where "w1 = started_entry w e x"
  define w2 where "w2 = (case sid of None \<Rightarrow> w1
      | Some v \<Rightarrow> w1\<lparr>entries := (entries w1)(e := (entries w1 e)\<lparr>te_id := v\<rparr>)\<rparr>)"
  have nx: "nat (te_timer_id (entries w1 e)) = x" by (simp add: w1_def started_entry_def)
  have eq: "schedule_w_grp_lock (True, True, True) now ht w e delay sid grp =
      (ht2\<lparr>timer_dups := (timer_dups ht2)[x := d1]\<rparr>, grp_add 1 grp w2, PJ_SUCCESS)"
    using cb idle sch nx
    by (simp add: schedule_w_grp_lock_def Let_def d1_def w2_def w1_def split: option.splits)
  have d1: "te_timer_id (dup d1) = te_timer_id (dup (timer_dups ht2 ! x))"
      "dup_entry d1 = dup_entry (timer_dups ht2 ! x)"
      "dup_timer_value d1 = dup_timer_value (timer_dups ht2 ! x)"
    by (simp_all add: d1_def split: option.splits)
  have "timer_ok (ht2, w2)"
    using s(1) timer_ok_set_id by (simp add: w2_def w1_def split: option.splits)
  then have "timer_ok (ht2\<lparr>timer_dups := (timer_dups ht2)[x := d1]\<rparr>, grp_add 1 grp w2)"
    using timer_ok_dup_cong(1) [OF d1] by simp
  moreover have "pj_timer_entry_running (entries w2 e)"
    using s(5) by (simp add: pj_timer_entry_running_def w2_def w1_def started_entry_def split: option.splits)
  moreover have "entries w2 f = entries w f" if "f \<noteq> e" for f
    using that by (simp add: w2_def w1_def started_entry_def split: option.splits)
  moreover have "grp_refs (grp_add 1 grp w2) = grp_refs (grp_add 1 grp w)"
    by (simp add: grp_add_def w2_def w1_def started_entry_def split: option.splits)
  ultimately show ?thesis
    unfolding eq using s timer_ok_dup_cong(2) [OF d1] by simp
qed

lemma running_slot:
  assumes ok: "timer_ok (ht, w)" and run: "pj_timer_entry_running (entries w e)"
  obtains x s where "te_timer_id (entries w e) = int x" "1 \<le> x" "x < max_size ht" "s < cur_size ht"
    "heap ht ! s = x" "timer_ids ht ! x = int s" "dup_entry (timer_dups ht ! x) = e"
proof -
  from ok obtain fs where core: "th_core ht (cur_size ht) fs" and w: "world_ok ht w"
    by (auto simp: timer_ok_def th_inv_def)
  note c = th_coreD [OF core]
  obtain x where x: "x \<in> live ht" "te_timer_id (entries w e) = int x" "dup_entry (timer_dups ht ! x) = e"
    using world_okD(2) [OF w] run by (auto simp: pj_timer_entry_running_def)
  then obtain s where s: "s < cur_size ht" "heap ht ! s = x"
    using c(1,4) by (auto simp: in_set_conv_nth)
  show thesis
    by (rule that [OF x(2) _ _ s(1,2) _ x(3)]) (use c(2,6,7) x s in \<open>auto simp: node_ok_def Suc_le_eq\<close>)
qed

lemma cancel_timer_running:
  assumes ok: "timer_ok (ht, w)" and run: "pj_timer_entry_running (entries w e)"
  shows "\<exists>ht' w' t. cancel_timer ht w e sid = (ht', w', 1) \<and> timer_ok (ht', w') \<and>
    (t, e) \<in># th_abs ht \<and> th_abs ht' = th_abs ht - {# (t, e) #} \<and>
    \<not> pj_timer_entry_running (entries w' e) \<and> (\<forall>f. f \<noteq> e \<longrightarrow> entries w' f = entries w f)"
proof -
  obtain x s where x: "te_timer_id (entries w e) = int x" "1 \<le> x" "x < max_size ht" "s < cur_size ht"
      "heap ht ! s = x" "timer_ids ht ! x = int s" "dup_entry (timer_dups ht ! x) = e"
    by (rule running_slot [OF ok run])
  obtain ht' where rm: "remove_node ht w s = (ht', idle_entry w e, x)"
      and r: "timer_ok (ht', idle_entry w e)" "th_abs ht' = th_abs ht - {# (node_tv ht x, e) #}"
        "(node_tv ht x, e) \<in># th_abs ht"
    using remove_node_spec [OF ok x(4)] unfolding x(5,7) by auto
  have can: "cancel ht w e = (ht', idle_entry w e, 1)"
    using x rm by (simp add: cancel_def)
  define w' where "w' = grp_add (- 1) (dup_grp_lock (timer_dups ht ! x)) (case sid of None \<Rightarrow> idle_entry w e
    | Some v \<Rightarrow> (idle_entry w e)\<lparr>entries := (entries (idle_entry w e))(e := (entries (idle_entry w e) e)\<lparr>te_id := v\<rparr>)\<rparr>)"
  have eq: "cancel_timer ht w e sid = (ht', w', 1)"
    using x can by (simp add: cancel_timer_def w'_def split: option.splits)
  have "timer_ok (ht', w')"
    using r(1) timer_ok_set_id [of ht' "idle_entry w e" e] by (simp add: w'_def split: option.splits)
  moreover have "\<not> pj_timer_entry_running (entries w' e)" "\<And>f. f \<noteq> e \<Longrightarrow> entries w' f = entries w f"
    by (simp_all add: w'_def pj_timer_entry_running_def idle_entry_def split: option.splits)
  ultimately show ?thesis using eq r by blast
qed

lemma th_abs_min:
  assumes ok: "timer_ok (ht, w)" and ne: "0 < cur_size ht"
  shows "\<forall>p \<in># th_abs ht. node_tv ht (heap ht ! 0) \<le> fst p"
proof -
  from ok obtain fs where core: "th_core ht (cur_size ht) fs"
    by (auto simp: timer_ok_def th_inv_def)
  note c = th_coreD [OF core]
  show ?thesis
    using is_heap_min [OF c(8)] c(1,4) by (auto simp: th_abs_def in_set_conv_nth)
qed

section \<open>The interface: a queue of timed entries\<close>

text \<open>
  What clients of the timer heap rely on. \<open>drain\<close> takes the earliest item off the queue
  again and again.
\<close>

fun drain :: "('q \<Rightarrow> 'i) \<Rightarrow> ('q \<Rightarrow> 'q) \<Rightarrow> nat \<Rightarrow> 'q \<Rightarrow> 'i list" where
  "drain first_item pop_item 0 q = []"
| "drain first_item pop_item (Suc n) q = first_item q # drain first_item pop_item n (pop_item q)"

locale timed_queue =
  fixes invar :: "'q \<Rightarrow> bool"
    and pend :: "'q \<Rightarrow> (pj_time_val \<times> nat) multiset"
    and can_add :: "'q \<Rightarrow> nat \<Rightarrow> bool"
    and add_item :: "pj_time_val \<Rightarrow> nat \<Rightarrow> 'q \<Rightarrow> 'q"
    and first_item :: "'q \<Rightarrow> pj_time_val \<times> nat"
    and pop_item :: "'q \<Rightarrow> 'q"
  assumes invar_add: "invar q \<Longrightarrow> can_add q e \<Longrightarrow> invar (add_item t e q)"
    and pend_add: "invar q \<Longrightarrow> can_add q e \<Longrightarrow> pend (add_item t e q) = add_mset (t, e) (pend q)"
    and first_in: "invar q \<Longrightarrow> pend q \<noteq> {#} \<Longrightarrow> first_item q \<in># pend q"
    and first_min: "invar q \<Longrightarrow> p \<in># pend q \<Longrightarrow> fst (first_item q) \<le> fst p"
    and invar_pop: "invar q \<Longrightarrow> pend q \<noteq> {#} \<Longrightarrow> invar (pop_item q)"
    and pend_pop: "invar q \<Longrightarrow> pend q \<noteq> {#} \<Longrightarrow> pend (pop_item q) = pend q - {# first_item q #}"
begin

lemma drain_all:
  "invar q \<Longrightarrow> size (pend q) = n \<Longrightarrow>
   mset (drain first_item pop_item n q) = pend q \<and> sorted (map fst (drain first_item pop_item n q))"
proof (induction n arbitrary: q)
  case 0
  then show ?case by simp
next
  case (Suc n)
  then have ne: "pend q \<noteq> {#}" by auto
  note fi = first_in [OF Suc.prems(1) ne]
  have pp: "pend (pop_item q) = pend q - {# first_item q #}" by (rule pend_pop [OF Suc.prems(1) ne])
  have "size (pend (pop_item q)) = n" using pp fi Suc.prems(2) by (simp add: size_Diff_singleton)
  from Suc.IH [OF invar_pop [OF Suc.prems(1) ne] this]
  have ih: "mset (drain first_item pop_item n (pop_item q)) = pend (pop_item q)"
    "sorted (map fst (drain first_item pop_item n (pop_item q)))" by auto
  have "fst (first_item q) \<le> fst p" if "p \<in> set (drain first_item pop_item n (pop_item q))" for p
  proof -
    have "p \<in># pend (pop_item q)" using that ih(1) by (metis set_mset_mset)
    then have "p \<in># pend q" unfolding pp by (rule in_diffD)
    then show ?thesis by (rule first_min [OF Suc.prems(1)])
  qed
  then show ?case using ih pp fi by auto
qed

end

definition th_add :: "pj_time_val \<Rightarrow> nat \<Rightarrow> pj_timer_heap_t \<times> timer_world \<Rightarrow> pj_timer_heap_t \<times> timer_world" where
  "th_add t e q = (let (ht, w, st) = schedule_entry (True, True, True) (fst q) (snd q) e t in (ht, w))"

definition th_first :: "pj_timer_heap_t \<times> timer_world \<Rightarrow> pj_time_val \<times> nat" where
  "th_first q = (node_tv (fst q) (heap (fst q) ! 0), dup_entry (timer_dups (fst q) ! (heap (fst q) ! 0)))"

definition th_pop :: "pj_timer_heap_t \<times> timer_world \<Rightarrow> pj_timer_heap_t \<times> timer_world" where
  "th_pop q = (let (ht, w, x) = remove_node (fst q) (snd q) 0 in (ht, w))"

definition th_idle :: "pj_timer_heap_t \<times> timer_world \<Rightarrow> nat \<Rightarrow> bool" where
  "th_idle q e \<longleftrightarrow> \<not> pj_timer_entry_running (entries (snd q) e)"

lemma th_abs_empty: "timer_ok (ht, w) \<Longrightarrow> th_abs ht = {#} \<longleftrightarrow> cur_size ht = 0"
  by (auto simp: timer_ok_def th_inv_def th_core_def th_abs_def)

lemma th_pop_spec:
  assumes "timer_ok q" and "th_abs (fst q) \<noteq> {#}"
  shows "timer_ok (th_pop q)" "th_abs (fst (th_pop q)) = th_abs (fst q) - {# th_first q #}"
    "th_first q \<in># th_abs (fst q)" "max_entries_per_poll (fst (th_pop q)) = max_entries_per_poll (fst q)"
proof -
  obtain ht w where q: "q = (ht, w)" by (cases q)
  have ok: "timer_ok (ht, w)" and "0 < cur_size ht"
    using assms th_abs_empty by (auto simp: q)
  note r = remove_node_spec [OF this]
  show "timer_ok (th_pop q)" using r unfolding q th_pop_def by (elim exE conjE) simp
  show "th_abs (fst (th_pop q)) = th_abs (fst q) - {# th_first q #}"
    using r unfolding q th_pop_def th_first_def by (elim exE conjE) simp
  show "th_first q \<in># th_abs (fst q)" using r unfolding q th_first_def by (elim exE conjE) simp
  show "max_entries_per_poll (fst (th_pop q)) = max_entries_per_poll (fst q)"
    using r unfolding q th_pop_def by (elim exE conjE) simp
qed

lemma th_add_spec:
  assumes ok: "timer_ok q" and idle: "th_idle q e"
  shows "timer_ok (th_add t e q) \<and> th_abs (fst (th_add t e q)) = add_mset (t, e) (th_abs (fst q))"
proof -
  obtain ht w where q: "q = (ht, w)" by (cases q)
  have "te_timer_id (entries w e) < 1" using idle by (simp add: q th_idle_def pj_timer_entry_running_def)
  from schedule_entry_ok [OF ok [unfolded q] this, of t]
  show ?thesis unfolding q th_add_def by (elim exE conjE) simp
qed

lemma th_first_least:
  assumes ok: "timer_ok q" and p: "p \<in># th_abs (fst q)"
  shows "fst (th_first q) \<le> fst p"
proof -
  obtain ht w where q: "q = (ht, w)" by (cases q)
  have "th_abs ht \<noteq> {#}" using p by (auto simp: q)
  then have "0 < cur_size ht" using th_abs_empty [of ht w] ok by (simp add: q)
  then show ?thesis using th_abs_min [of ht w] ok p by (simp add: q th_first_def)
qed

interpretation th: timed_queue timer_ok "\<lambda>q. th_abs (fst q)" th_idle th_add th_first th_pop
  by unfold_locales (simp_all add: th_add_spec th_first_least th_pop_spec)

section \<open>Polling\<close>

definition cb_ok :: "timer_callbacks \<Rightarrow> bool" where
  "cb_ok cb_run \<longleftrightarrow> (\<forall>cb e q. timer_ok q \<longrightarrow> timer_ok (cb_run cb e q) \<and>
     max_entries_per_poll (fst (cb_run cb e q)) = max_entries_per_poll (fst q))"

definition no_callbacks :: timer_callbacks where
  "no_callbacks cb e q = q"

text \<open>One expiry is a pop of the queue, then the callback, then bookkeeping of the group lock.\<close>

lemma poll_one_pop:
  assumes ok: "timer_ok (ht, w)" and ne: "0 < cur_size ht"
  obtains q' grp where "timer_ok q'" "th_abs (fst q') = th_abs (fst (th_pop (ht, w)))"
    "max_entries_per_poll (fst q') = max_entries_per_poll ht"
    "\<exists>cb valid. poll_one cb_run ht w =
       (let q'' = (case cb of Some c \<Rightarrow> if valid then cb_run c (snd (th_first (ht, w))) q' else q' | None \<Rightarrow> q')
        in (fst q'', if valid then grp_add (- 1) grp (snd q'') else snd q'', snd (th_first (ht, w))))"
proof -
  let ?x = "heap ht ! 0"
  obtain ht1 where rm: "remove_node ht w 0 = (ht1, idle_entry w (dup_entry (timer_dups ht ! ?x)), ?x)"
      and r: "timer_ok (ht1, idle_entry w (dup_entry (timer_dups ht ! ?x)))"
        "max_entries_per_poll ht1 = max_entries_per_poll ht"
        "timer_dups ht1 = (timer_dups ht)[?x := idle_dup (timer_dups ht ! ?x)]"
    using remove_node_spec [OF ok ne] by auto
  let ?w1 = "idle_entry w (dup_entry (timer_dups ht ! ?x))"
  let ?d = "timer_dups ht1 ! ?x"
  let ?ht2 = "ht1\<lparr>timer_dups := (timer_dups ht1)[?x := ?d\<lparr>dup_grp_lock := None\<rparr>]\<rparr>"
  have e: "dup_entry ?d = snd (th_first (ht, w))"
    by (cases "?x < length (timer_dups ht)")
      (simp_all add: th_first_def r(3) idle_dup_def list_update_beyond)
  have "timer_ok (?ht2, ?w1)" "th_abs ?ht2 = th_abs ht1"
    using timer_ok_dup_cong [of "?d\<lparr>dup_grp_lock := None\<rparr>" ht1 ?x] r(1) by auto
  moreover have "poll_one cb_run ht w =
       (let q'' = (case te_cb (entries ?w1 (dup_entry ?d)) of
            Some c \<Rightarrow> if te_cb (dup ?d) = te_cb (entries ?w1 (dup_entry ?d)) \<and>
                te_user_data (dup ?d) = te_user_data (entries ?w1 (dup_entry ?d))
              then cb_run c (snd (th_first (ht, w))) (?ht2, ?w1) else (?ht2, ?w1) | None \<Rightarrow> (?ht2, ?w1))
        in (fst q'', if te_cb (dup ?d) = te_cb (entries ?w1 (dup_entry ?d)) \<and>
                te_user_data (dup ?d) = te_user_data (entries ?w1 (dup_entry ?d))
              then grp_add (- 1) (dup_grp_lock ?d) (snd q'') else snd q'', snd (th_first (ht, w))))"
    unfolding poll_one_def rm by (simp add: Let_def e split: option.splits prod.splits)
  ultimately show thesis
    using that [of "(?ht2, ?w1)" "dup_grp_lock ?d"] r(2) rm by (auto simp: th_pop_def)
qed

lemma poll_one_ok:
  assumes ok: "timer_ok (ht, w)" and ne: "0 < cur_size ht" and cb: "cb_ok cb_run"
  obtains ht' w' where "poll_one cb_run ht w = (ht', w', snd (th_first (ht, w)))"
    "timer_ok (ht', w')" "max_entries_per_poll ht' = max_entries_per_poll ht"
    "cb_run = no_callbacks \<Longrightarrow> th_abs ht' = th_abs ht - {# th_first (ht, w) #}"
proof -
  obtain q' grp cb valid where q: "timer_ok q'" "th_abs (fst q') = th_abs (fst (th_pop (ht, w)))"
    "max_entries_per_poll (fst q') = max_entries_per_poll ht"
    and eq: "poll_one cb_run ht w =
       (let q'' = (case cb of Some c \<Rightarrow> if valid then cb_run c (snd (th_first (ht, w))) q' else q' | None \<Rightarrow> q')
        in (fst q'', if valid then grp_add (- 1) grp (snd q'') else snd q'', snd (th_first (ht, w))))"
    using poll_one_pop [OF ok ne, of cb_run thesis] by blast
  define q'' where "q'' = (case cb of Some c \<Rightarrow> if valid then cb_run c (snd (th_first (ht, w))) q' else q' | None \<Rightarrow> q')"
  have q'': "timer_ok q'' \<and> max_entries_per_poll (fst q'') = max_entries_per_poll ht"
    using q(1,3) cb unfolding q''_def cb_ok_def
    by (simp add: q del: split_paired_All split: option.split)
  have nocb: "q'' = q'" if "cb_run = no_callbacks"
    using that by (simp add: q''_def no_callbacks_def split: option.splits)
  have ab: "th_abs (fst q') = th_abs ht - {# th_first (ht, w) #}"
    using q(2) th_pop_spec(2) [of "(ht, w)"] ok ne th_abs_empty [OF ok] by simp
  show thesis
    by (rule that [of "fst q''" "if valid then grp_add (- 1) grp (snd q'') else snd q''"])
      (use eq q'' nocb ab in \<open>auto simp: q''_def [symmetric] Let_def\<close>)
qed

lemma th_abs_size: "timer_ok (ht, w) \<Longrightarrow> size (th_abs ht) = cur_size ht"
  by (simp add: timer_ok_def th_inv_def th_core_def th_abs_def)

text \<open>With callbacks that keep the heap consistent the loop ends, and fires nothing early.\<close>

lemma poll_loop_ok:
  assumes "timer_ok (ht, w)" and cb: "cb_ok cb_run" and "max_entries_per_poll ht - cnt < fuel"
  shows "\<exists>ht' w' now' fired. poll_loop fuel cb_run clk cnt now ht w = Some (ht', w', now', fired) \<and>
    timer_ok (ht', w') \<and> max_entries_per_poll ht' = max_entries_per_poll ht \<and>
    list_all (\<lambda>(e, t, n). t \<le> n) fired \<and> length fired \<le> max_entries_per_poll ht - cnt \<and>
    (cur_size ht' = 0 \<or> now' < node_tv ht' (heap ht' ! 0) \<or> max_entries_per_poll ht' \<le> cnt + length fired) \<and>
    (cur_size ht' = 0 \<or> now' = (if fired = [] then now else clk (cnt + length fired)))"
  using assms(1,3)
proof (induction fuel arbitrary: cnt now ht w)
  case 0
  then show ?case by simp
next
  case (Suc fuel)
  let ?go = "cur_size ht > 0 \<and> PJ_TIME_VAL_LTE (node_tv ht (heap ht ! 0)) now \<and> cnt < max_entries_per_poll ht"
  show ?case
  proof (cases ?go)
    case False
    have "poll_loop (Suc fuel) cb_run clk cnt now ht w = Some (ht, w, now, [])"
      unfolding poll_loop.simps if_not_P [OF False] ..
    then show ?thesis
      using False Suc.prems(1) by (auto simp: tv_order_simps)
  next
    case True
    obtain ht1 w1 where one: "poll_one cb_run ht w = (ht1, w1, snd (th_first (ht, w)))"
      and ok1: "timer_ok (ht1, w1)" and mx: "max_entries_per_poll ht1 = max_entries_per_poll ht"
      using poll_one_ok [OF Suc.prems(1) _ cb] True by metis
    define now1 where "now1 = (if cur_size ht1 > 0 then clk (cnt + 1) else now)"
    have "max_entries_per_poll ht1 - (cnt + 1) < fuel" using Suc.prems(2) True mx by linarith
    from Suc.IH [OF ok1 this, of now1] obtain ht' w' now' fired
      where ih: "poll_loop fuel cb_run clk (cnt + 1) now1 ht1 w1 = Some (ht', w', now', fired)"
        "timer_ok (ht', w')" "max_entries_per_poll ht' = max_entries_per_poll ht1"
        "list_all (\<lambda>(e, t, n). t \<le> n) fired" "length fired \<le> max_entries_per_poll ht1 - (cnt + 1)"
        "cur_size ht' = 0 \<or> now' < node_tv ht' (heap ht' ! 0) \<or>
           max_entries_per_poll ht' \<le> cnt + 1 + length fired"
        "cur_size ht' = 0 \<or> now' = (if fired = [] then now1 else clk (cnt + 1 + length fired))"
      by blast
    have ck: "cur_size ht' = 0 \<or> now' = clk (cnt + Suc (length fired))"
      using ih(1,7) Suc.prems(2) by (cases fuel) (auto simp: now1_def poll_loop.simps split: if_splits prod.splits)
    have "poll_loop (Suc fuel) cb_run clk cnt now ht w =
        Some (ht', w', now', (snd (th_first (ht, w)), node_tv ht (heap ht ! 0), now) # fired)"
      unfolding poll_loop.simps if_P [OF True] using ih(1)
      by (simp add: one Let_def now1_def [symmetric])
    then show ?thesis using ih(2-6) ck mx True by (auto simp: tv_order_simps)
  qed
qed

declare poll_loop.simps [simp del]

lemma cb_ok_no_callbacks [simp]: "cb_ok no_callbacks"
  by (simp add: cb_ok_def no_callbacks_def)

section \<open>Reachable states\<close>

text \<open>
  The states an application can bring the heap to while the pool gives the memory that it asks for: it
  creates the heap, initialises entries that are not running, schedules, cancels, changes the poll limit; expiry of the earliest
  timer is a step of its own, after which the callback is free to take any other step. What a
  failed allocation does is the last case of \<open>timer_schedule_correct\<close>; the next one would read past an array
  (\<open>second_nomem_reads_past_the_ids\<close>).
\<close>

inductive timer_reach :: "pj_timer_heap_t \<Rightarrow> timer_world \<Rightarrow> bool" where
  create: "\<forall>e. \<not> pj_timer_entry_running (entries w e) \<Longrightarrow> timer_reach (pj_timer_heap_create cnt) w"
| init: "timer_reach ht w \<Longrightarrow> \<not> pj_timer_entry_running (entries w e) \<Longrightarrow>
    timer_reach ht (w\<lparr>entries := (entries w)(e := pj_timer_entry_init i user_data cb)\<rparr>)"
| schedule: "timer_reach ht w \<Longrightarrow>
    schedule_w_grp_lock (True, True, True) now ht w e delay sid grp = (ht', w', st) \<Longrightarrow> timer_reach ht' w'"
| cancel: "timer_reach ht w \<Longrightarrow> cancel_timer ht w e sid = (ht', w', n) \<Longrightarrow> timer_reach ht' w'"
| set_max: "timer_reach ht w \<Longrightarrow>
    timer_reach (fst (pj_timer_heap_set_max_timed_out_per_poll ht cnt)) w"
| expire: "timer_reach ht w \<Longrightarrow> pj_timer_heap_count ht > 0 \<Longrightarrow>
    poll_one no_callbacks ht w = (ht', w', e) \<Longrightarrow> timer_reach ht' w'"

lemma timer_ok_create:
  assumes "\<forall>e. \<not> pj_timer_entry_running (entries w e)"
  shows "timer_ok (pj_timer_heap_create cnt, w)"
proof -
  let ?ids = "map (\<lambda>i. - (int i + 1)) [0..<cnt + 2]"
  have "?ids ! j = - (int j + 1)" if "j < cnt + 2" for j
    using that by (simp del: upt.simps upt_Suc)
  then have "free_chain ?ids (int 1) [1..<cnt + 2] (cnt + 2)" by (intro free_chain_upt) auto
  moreover have "set [1..<cnt + 2] = {1..<cnt + 2} - {}" by auto
  ultimately have "th_inv (pj_timer_heap_create cnt)"
    unfolding th_inv_def th_core_def
    by (auto simp: pj_timer_heap_create_def is_heap_def simp del: upt_Suc intro!: exI [of _ "[1..<cnt + 2]"])
  then show ?thesis
    using assms by (auto simp: timer_ok_def world_ok_def pj_timer_heap_create_def pj_timer_entry_running_def)
qed

lemma init_not_live:
  assumes ok: "timer_ok (ht, w)" and idle: "\<not> pj_timer_entry_running (entries w e)" and x: "x \<in> live ht"
  shows "dup_entry (timer_dups ht ! x) \<noteq> e"
proof -
  have "node_ok ht x" using ok x th_coreD(6) by (auto simp: timer_ok_def th_inv_def)
  moreover have "world_ok ht w" using ok by (simp add: timer_ok_def)
  ultimately show ?thesis
    using world_okD(1) [OF _ x, of w] idle by (auto simp: pj_timer_entry_running_def node_ok_def)
qed

lemma timer_ok_init:
  assumes ok: "timer_ok (ht, w)" and idle: "\<not> pj_timer_entry_running (entries w e)"
  shows "timer_ok (ht, w\<lparr>entries := (entries w)(e := pj_timer_entry_init i user_data cb)\<rparr>)"
proof -
  show ?thesis
    using ok init_not_live [OF ok idle] by (auto simp: timer_ok_def world_ok_def pj_timer_entry_init_def)
qed

lemma timer_ok_set_max [simp]: "timer_ok (ht\<lparr>max_entries_per_poll := n\<rparr>, w) = timer_ok (ht, w)"
  by (simp add: timer_ok_def world_ok_def th_inv_def th_core_def node_ok_def)

lemma schedule_w_grp_lock_refused:
  "te_cb (entries w e) = None \<Longrightarrow> schedule_w_grp_lock al now ht w e delay sid grp = (ht, w, PJ_EINVAL)"
  "te_cb (entries w e) \<noteq> None \<Longrightarrow> pj_timer_entry_running (entries w e) \<Longrightarrow>
   schedule_w_grp_lock al now ht w e delay sid grp = (ht, w, PJ_EINVALIDOP)"
  by (auto simp: schedule_w_grp_lock_def)

lemma cancel_timer_idle:
  "\<not> pj_timer_entry_running (entries w e) \<Longrightarrow> cancel_timer ht w e sid = (ht, w, 0)"
  by (simp add: cancel_timer_def pj_timer_entry_running_def Let_def)

lemma timer_reach_ok: "timer_reach ht w \<Longrightarrow> timer_ok (ht, w)"
proof (induction rule: timer_reach.induct)
  case (create w cnt)
  then show ?case by (rule timer_ok_create)
next
  case (init ht w e i user_data cb)
  then show ?case by (blast intro: timer_ok_init)
next
  case (schedule ht w now e delay sid grp ht' w' st)
  consider "te_cb (entries w e) = None" | "te_cb (entries w e) \<noteq> None" "pj_timer_entry_running (entries w e)"
    | "te_cb (entries w e) \<noteq> None" "\<not> pj_timer_entry_running (entries w e)" by blast
  then show ?case
    using schedule schedule_w_grp_lock_refused [of w e] schedule_w_grp_lock_ok [of ht w e now delay sid grp]
    by cases auto
next
  case (cancel ht w e sid ht' w' n)
  then show ?case
    using cancel_timer_running [of ht w e sid] cancel_timer_idle [of w e ht sid]
    by (cases "pj_timer_entry_running (entries w e)") auto
next
  case (set_max ht w cnt)
  then show ?case by (simp add: pj_timer_heap_set_max_timed_out_per_poll_def)
next
  case (expire ht w ht' w' e)
  then show ?case
    using poll_one_ok [of ht w no_callbacks] by (auto simp: pj_timer_heap_count_def)
qed

section \<open>The callbacks that polling calls\<close>

text \<open>
  The copies in the heap have the callback and the user data of their entries, so that the test before the callback succeeds. An
  application keeps that as long as it initialises only entries that are not running.
\<close>

definition copies_ok :: "pj_timer_heap_t \<Rightarrow> timer_world \<Rightarrow> bool" where
  "copies_ok ht w \<longleftrightarrow>
     (\<forall>x \<in> live ht. let d = timer_dups ht ! x; e = entries w (dup_entry d)
        in te_cb (dup d) = te_cb e \<and> te_user_data (dup d) = te_user_data e \<and> te_cb e \<noteq> None)"

lemma copies_okD:
  assumes "copies_ok ht w" "x \<in> live ht"
  shows "te_cb (dup (timer_dups ht ! x)) = te_cb (entries w (dup_entry (timer_dups ht ! x)))"
    "te_user_data (dup (timer_dups ht ! x)) = te_user_data (entries w (dup_entry (timer_dups ht ! x)))"
    "te_cb (entries w (dup_entry (timer_dups ht ! x))) \<noteq> None"
  using assms by (auto simp: copies_ok_def Let_def)

lemma copies_ok_grp [simp]: "copies_ok ht (grp_add k g w) = copies_ok ht w"
  by (simp add: copies_ok_def)

lemma timer_ok_calls [simp]: "timer_ok (ht, w\<lparr>app_calls := l\<rparr>) = timer_ok (ht, w)"
  by (simp add: timer_ok_def world_ok_def)

lemma copies_ok_calls [simp]: "copies_ok ht (w\<lparr>app_calls := l\<rparr>) = copies_ok ht w"
  by (simp add: copies_ok_def)

lemma calls_grp [simp]: "app_calls (grp_add k g w) = app_calls w"
  by (simp add: grp_add_def split: option.splits)

text \<open>Entries that have the same callback and user data as before.\<close>

definition same_user :: "timer_world \<Rightarrow> timer_world \<Rightarrow> bool" where
  "same_user w w' \<longleftrightarrow> (\<forall>e. te_cb (entries w' e) = te_cb (entries w e) \<and> te_user_data (entries w' e) = te_user_data (entries w e))"

lemma copies_ok_mono:
  assumes "copies_ok ht w" "same_user w w'" "live ht' \<subseteq> live ht"
    and "\<And>x. x \<in> live ht' \<Longrightarrow> dup_entry (timer_dups ht' ! x) = dup_entry (timer_dups ht ! x) \<and>
      te_cb (dup (timer_dups ht' ! x)) = te_cb (dup (timer_dups ht ! x)) \<and>
      te_user_data (dup (timer_dups ht' ! x)) = te_user_data (dup (timer_dups ht ! x))"
  shows "copies_ok ht' w'"
  unfolding copies_ok_def Let_def
proof
  fix x assume x: "x \<in> live ht'"
  then have "x \<in> live ht" using assms(3) by blast
  from copies_okD[OF assms(1) this] assms(4)[OF x] assms(2)
  show "te_cb (dup (timer_dups ht' ! x)) = te_cb (entries w' (dup_entry (timer_dups ht' ! x))) \<and>
      te_user_data (dup (timer_dups ht' ! x)) = te_user_data (entries w' (dup_entry (timer_dups ht' ! x))) \<and>
      te_cb (entries w' (dup_entry (timer_dups ht' ! x))) \<noteq> None"
    by (simp add: same_user_def)
qed

lemma same_user_idle [simp]: "same_user w (idle_entry w e)" "same_user w (grp_add k g w)" "same_user w w"
  "same_user w (w\<lparr>entries := (entries w)(e := (entries w e)\<lparr>te_id := v\<rparr>)\<rparr>)"
  by (simp_all add: same_user_def idle_entry_def)

lemma same_user_trans: "same_user w w' \<Longrightarrow> same_user w' w'' \<Longrightarrow> same_user w w''"
  by (simp add: same_user_def)

lemma remove_node_copies:
  assumes ok: "timer_ok (ht, w)" and slot: "slot < cur_size ht" and c: "copies_ok ht w"
    and rm: "remove_node ht w slot = (ht', w', x)"
  shows "copies_ok ht' w'"
proof -
  obtain h where h: "remove_node ht w slot = (h, idle_entry w (dup_entry (timer_dups ht ! (heap ht ! slot))), heap ht ! slot)"
    "timer_dups h = (timer_dups ht)[heap ht ! slot := idle_dup (timer_dups ht ! (heap ht ! slot))]" "live h = live ht - {heap ht ! slot}"
    using remove_node_spec[OF ok slot] by blast
  have e: "ht' = h" "w' = idle_entry w (dup_entry (timer_dups ht ! (heap ht ! slot)))" using rm unfolding h(1) by blast+
  have "timer_dups h ! y = timer_dups ht ! y" if "y \<in> live h" for y
    using that unfolding h(2,3) by (intro nth_list_update_neq) blast
  then show ?thesis unfolding e by (intro copies_ok_mono[OF c]) (simp_all only: same_user_idle h(3) Diff_subset refl simp_thms)
qed

lemma copies_ok_dup_cong:
  assumes "te_cb (dup d) = te_cb (dup (timer_dups ht ! x))" "te_user_data (dup d) = te_user_data (dup (timer_dups ht ! x))"
    and "dup_entry d = dup_entry (timer_dups ht ! x)"
  shows "copies_ok (ht\<lparr>timer_dups := (timer_dups ht)[x := d]\<rparr>) w = copies_ok ht w"
proof -
  have "te_cb (dup ((timer_dups ht)[x := d] ! y)) = te_cb (dup (timer_dups ht ! y)) \<and>
      te_user_data (dup ((timer_dups ht)[x := d] ! y)) = te_user_data (dup (timer_dups ht ! y)) \<and>
      dup_entry ((timer_dups ht)[x := d] ! y) = dup_entry (timer_dups ht ! y)" for y
    using assms by (cases "x < length (timer_dups ht)"; cases "y = x") (simp_all add: list_update_beyond)
  then have y: "te_cb (dup ((timer_dups ht)[x := d] ! y)) = te_cb (dup (timer_dups ht ! y))"
      "te_user_data (dup ((timer_dups ht)[x := d] ! y)) = te_user_data (dup (timer_dups ht ! y))"
      "dup_entry ((timer_dups ht)[x := d] ! y) = dup_entry (timer_dups ht ! y)" for y by blast+
  show ?thesis by (simp add: copies_ok_def Let_def y)
qed

lemma schedule_copies:
  assumes ok: "timer_ok (ht, w)" and c: "copies_ok ht w"
    and sch: "schedule_w_grp_lock (True, True, True) now ht w e delay sid grp = (ht', w', st)"
  shows "copies_ok ht' w'"
proof (cases "te_cb (entries w e) = None \<or> pj_timer_entry_running (entries w e)")
  case True
  then show ?thesis using c sch schedule_w_grp_lock_refused[of w e] by (cases "te_cb (entries w e) = None") auto
next
  case False
  have inv: "th_inv ht" and wok: "world_ok ht w" using ok by (auto simp: timer_ok_def)
  obtain ht2 x where se: "schedule_entry (True, True, True) ht w e (PJ_TIME_VAL_ADD now delay) = (ht2, started_entry w e x, PJ_SUCCESS)"
      and s: "mset (take (cur_size ht2) (heap ht2)) = add_mset x (mset (take (cur_size ht) (heap ht)))"
        "timer_dups ht2 ! x = new_dup (entries w e) x e (PJ_TIME_VAL_ADD now delay)"
        "\<forall>y \<in> live ht. timer_dups ht2 ! y = timer_dups ht ! y"
    using schedule_entry_spec [OF inv, of w e "PJ_TIME_VAL_ADD now delay"] by blast
  have lv: "live ht2 = insert x (live ht)" using s(1) by (metis set_mset_add_mset_insert set_mset_mset)
  have su: "same_user w (started_entry w e x)" by (simp add: same_user_def started_entry_def)
  have c2: "copies_ok ht2 (started_entry w e x)"
    unfolding copies_ok_def Let_def lv
  proof
    fix y assume "y \<in> insert x (live ht)"
    then consider "y = x" | "y \<noteq> x" "y \<in> live ht" by blast
    then show "te_cb (dup (timer_dups ht2 ! y)) = te_cb (entries (started_entry w e x) (dup_entry (timer_dups ht2 ! y))) \<and>
        te_user_data (dup (timer_dups ht2 ! y)) = te_user_data (entries (started_entry w e x) (dup_entry (timer_dups ht2 ! y))) \<and>
        te_cb (entries (started_entry w e x) (dup_entry (timer_dups ht2 ! y))) \<noteq> None"
    proof cases
      case 1
      then show ?thesis using s(2) False by (simp add: new_dup_def started_entry_def)
    next
      case 2
      then show ?thesis using s(3) copies_okD[OF c 2(2)] su by (simp add: same_user_def)
    qed
  qed
  define w2 where "w2 = (case sid of None \<Rightarrow> started_entry w e x
      | Some v \<Rightarrow> (started_entry w e x)\<lparr>entries := (entries (started_entry w e x))(e := (entries (started_entry w e x) e)\<lparr>te_id := v\<rparr>)\<rparr>)"
  define d1 where "d1 = (case sid of None \<Rightarrow> timer_dups ht2 ! x
      | Some v \<Rightarrow> (timer_dups ht2 ! x)\<lparr>dup := (dup (timer_dups ht2 ! x))\<lparr>te_id := v\<rparr>\<rparr>)\<lparr>dup_grp_lock := grp\<rparr>"
  have nx: "nat (te_timer_id (entries (started_entry w e x) e)) = x" by (simp add: started_entry_def)
  have e: "ht' = ht2\<lparr>timer_dups := (timer_dups ht2)[x := d1]\<rparr>" "w' = grp_add 1 grp w2"
    using sch False se nx by (auto simp: schedule_w_grp_lock_def Let_def d1_def w2_def split: option.splits)
  have "same_user (started_entry w e x) w2" by (simp add: w2_def split: option.splits)
  then have "copies_ok ht2 w2" by (rule copies_ok_mono[OF c2]) simp_all
  moreover have "copies_ok ht' w2 = copies_ok ht2 w2" unfolding e
    by (rule copies_ok_dup_cong) (simp_all add: d1_def split: option.splits)
  ultimately show ?thesis by (simp add: e(2))
qed

lemma timer_reach_copies: "timer_reach ht w \<Longrightarrow> copies_ok ht w"
proof (induction rule: timer_reach.induct)
  case (create w cnt)
  then show ?case by (simp add: copies_ok_def pj_timer_heap_create_def)
next
  case (init ht w e i user_data cb)
  have ok: "timer_ok (ht, w)" by (rule timer_reach_ok[OF init(1)])
  have "dup_entry (timer_dups ht ! x) \<noteq> e" if "x \<in> live ht" for x
    using init_not_live[OF ok init(2) that] .
  then show ?case using init(3) by (auto simp: copies_ok_def Let_def)
next
  case (schedule ht w now e delay sid grp ht' w' st)
  then show ?case using schedule_copies[OF timer_reach_ok] by blast
next
  case (cancel ht w e sid ht' w' n)
  show ?case
  proof (cases "pj_timer_entry_running (entries w e)")
    case True
    have ok: "timer_ok (ht, w)" by (rule timer_reach_ok[OF cancel(1)])
    obtain x s where x: "te_timer_id (entries w e) = int x" "1 \<le> x" "x < max_size ht" "s < cur_size ht"
        "heap ht ! s = x" "timer_ids ht ! x = int s" "dup_entry (timer_dups ht ! x) = e"
      by (rule running_slot [OF ok True])
    obtain ht1 w1 y where rm: "remove_node ht w s = (ht1, w1, y)" by (cases "remove_node ht w s")
    have c1: "copies_ok ht1 w1" by (rule remove_node_copies[OF ok x(4) cancel(3) rm])
    have can: "cancel ht w e = (ht1, w1, 1)" using x rm by (simp add: cancel_def)
    have e: "ht' = ht1" "w' = grp_add (- 1) (dup_grp_lock (timer_dups ht ! x)) (case sid of None \<Rightarrow> w1
        | Some v \<Rightarrow> w1\<lparr>entries := (entries w1)(e := (entries w1 e)\<lparr>te_id := v\<rparr>)\<rparr>)"
      using cancel(2) x can by (auto simp: cancel_timer_def split: option.splits)
    show ?thesis unfolding e copies_ok_grp by (rule copies_ok_mono[OF c1]) (simp_all split: option.splits)
  next
    case False
    then show ?thesis using cancel cancel_timer_idle[of w e ht sid] by auto
  qed
next
  case (set_max ht w cnt)
  then show ?case by (simp add: pj_timer_heap_set_max_timed_out_per_poll_def copies_ok_def)
next
  case (expire ht w ht' w' e)
  obtain ht1 w1 x where rm: "remove_node ht w 0 = (ht1, w1, x)" by (cases "remove_node ht w 0")
  have c1: "copies_ok ht1 w1"
    using remove_node_copies[OF timer_reach_ok[OF expire(1)] _ expire(4) rm] expire(2) by (simp add: pj_timer_heap_count_def)
  have "copies_ok (ht1\<lparr>timer_dups := (timer_dups ht1)[x := (timer_dups ht1 ! x)\<lparr>dup_grp_lock := None\<rparr>]\<rparr>) w1"
    using c1 copies_ok_dup_cong[of "(timer_dups ht1 ! x)\<lparr>dup_grp_lock := None\<rparr>" ht1 x w1] by simp
  moreover have "ht' = ht1\<lparr>timer_dups := (timer_dups ht1)[x := (timer_dups ht1 ! x)\<lparr>dup_grp_lock := None\<rparr>]\<rparr>"
      "\<exists>k g. w' = w1 \<or> w' = grp_add k g w1"
    using expire(3) unfolding poll_one_def rm no_callbacks_def by (auto simp: Let_def split: option.splits if_splits)
  ultimately show ?case by auto
qed

text \<open>
  An application that writes down which of its callbacks is called for which entry, and does nothing else.
\<close>

definition recording :: timer_callbacks where
  "recording cb e q = (fst q, (snd q)\<lparr>app_calls := app_calls (snd q) @ [(cb, e)]\<rparr>)"

definition call_of :: "timer_world \<Rightarrow> pj_time_val \<times> nat \<Rightarrow> nat \<times> nat" where
  "call_of w item = (the (te_cb (entries w (snd item))), snd item)"

lemma call_of_cong: "same_user w w' \<Longrightarrow> call_of w' = call_of w"
  by (intro ext) (simp add: call_of_def same_user_def)

lemma cb_ok_recording: "cb_ok recording"
  by (auto simp: cb_ok_def recording_def)

lemma poll_one_recording:
  assumes ok: "timer_ok (ht, w)" and ne: "0 < cur_size ht" and c: "copies_ok ht w"
  shows "\<exists>ht' w'. poll_one recording ht w = (ht', w', snd (th_first (ht, w))) \<and> timer_ok (ht', w') \<and> copies_ok ht' w' \<and>
    max_entries_per_poll ht' = max_entries_per_poll ht \<and> th_abs ht' = th_abs ht - {# th_first (ht, w) #} \<and>
    same_user w w' \<and> app_calls w' = app_calls w @ [call_of w (th_first (ht, w))]"
proof -
  let ?x = "heap ht ! 0"
  let ?e = "dup_entry (timer_dups ht ! ?x)"
  obtain ht1 where rm: "remove_node ht w 0 = (ht1, idle_entry w ?e, ?x)"
      and r: "timer_ok (ht1, idle_entry w ?e)" "max_entries_per_poll ht1 = max_entries_per_poll ht"
        "timer_dups ht1 = (timer_dups ht)[?x := idle_dup (timer_dups ht ! ?x)]"
        "th_abs ht1 = th_abs ht - {# (node_tv ht ?x, ?e) #}"
    using remove_node_spec [OF ok ne] by auto
  obtain fs where core: "th_core ht (cur_size ht) fs" using ok by (auto simp: timer_ok_def th_inv_def)
  have x: "?x \<in> live ht" using in_take_nth[of 0 "cur_size ht" "heap ht"] ne th_coreD(1,4)[OF core] by simp
  have xl: "?x < length (timer_dups ht)" using th_coreD(2,3)[OF core] th_coreD(6)[OF core x] by (simp add: node_ok_def)
  let ?d = "timer_dups ht1 ! ?x"
  let ?ht2 = "ht1\<lparr>timer_dups := (timer_dups ht1)[?x := ?d\<lparr>dup_grp_lock := None\<rparr>]\<rparr>"
  have d: "dup_entry ?d = ?e" "te_cb (dup ?d) = te_cb (dup (timer_dups ht ! ?x))"
      "te_user_data (dup ?d) = te_user_data (dup (timer_dups ht ! ?x))"
    using xl by (simp_all add: r(3) idle_dup_def)
  note cp = copies_okD[OF c x]
  obtain cb where cb: "te_cb (entries w ?e) = Some cb" using cp(3) by blast
  have i: "te_cb (entries (idle_entry w ?e) ?e) = Some cb" "te_user_data (entries (idle_entry w ?e) ?e) = te_user_data (entries w ?e)"
      "app_calls (idle_entry w ?e) = app_calls w"
    using cb by (simp_all add: idle_entry_def)
  have p: "poll_one recording ht w =
      (?ht2, grp_add (- 1) (dup_grp_lock ?d) ((idle_entry w ?e)\<lparr>app_calls := app_calls w @ [(cb, ?e)]\<rparr>), ?e)"
    unfolding poll_one_def rm by (simp add: Let_def d i cp(1,2) cb recording_def)
  have "timer_ok (?ht2, idle_entry w ?e)" "th_abs ?ht2 = th_abs ht1"
    using timer_ok_dup_cong [of "?d\<lparr>dup_grp_lock := None\<rparr>" ht1 ?x] r(1) by auto
  moreover have "copies_ok ?ht2 (idle_entry w ?e)"
    using remove_node_copies[OF ok ne c rm] copies_ok_dup_cong[of "?d\<lparr>dup_grp_lock := None\<rparr>" ht1 ?x] by simp
  moreover have "same_user w (grp_add k g ((idle_entry w ?e)\<lparr>app_calls := l\<rparr>))" for k g l
    by (simp add: same_user_def idle_entry_def)
  ultimately show ?thesis unfolding p using r(2,4) cb by (simp add: th_first_def call_of_def)
qed

lemma poll_loop_recording:
  assumes "timer_ok (ht, w)" "copies_ok ht w" and "cur_size ht \<le> max_entries_per_poll ht - cnt" and "cur_size ht < fuel"
  shows "\<exists>ht' w' due. poll_loop fuel recording (\<lambda>_. T) cnt T ht w = Some (ht', w', T, map (\<lambda>(t, e). (e, t, T)) due) \<and>
    timer_ok (ht', w') \<and> th_abs ht' = {# p \<in># th_abs ht. \<not> fst p \<le> T #} \<and>
    mset due = {# p \<in># th_abs ht. fst p \<le> T #} \<and> sorted (map fst due) \<and> app_calls w' = app_calls w @ map (call_of w) due"
  using assms
proof (induction fuel arbitrary: cnt ht w)
  case 0
  then show ?case by simp
next
  case (Suc fuel)
  let ?go = "cur_size ht > 0 \<and> PJ_TIME_VAL_LTE (node_tv ht (heap ht ! 0)) T \<and> cnt < max_entries_per_poll ht"
  let ?x = "th_first (ht, w)"
  have tv: "node_tv ht (heap ht ! 0) = fst ?x" by (simp add: th_first_def)
  note least = th_first_least [OF Suc.prems(1), simplified]
  show ?case
  proof (cases ?go)
    case False
    have "\<not> fst p \<le> T" if "p \<in># th_abs ht" for p
    proof -
      have "0 < cur_size ht" using that th_abs_empty [OF Suc.prems(1)] by force
      then have "T < fst ?x" using False Suc.prems(3) by (auto simp: tv_order_simps tv)
      then show ?thesis using least [OF that] by simp
    qed
    then have "{# p \<in># th_abs ht. \<not> fst p \<le> T #} = th_abs ht" "{# p \<in># th_abs ht. fst p \<le> T #} = {#}"
      by (simp_all add: filter_mset_eq_conv filter_mset_False [symmetric] del: filter_mset_False cong: filter_mset_cong)
    moreover have "poll_loop (Suc fuel) recording (\<lambda>_. T) cnt T ht w = Some (ht, w, T, map (\<lambda>(t, e). (e, t, T)) [])"
      unfolding poll_loop.simps if_not_P [OF False] by simp
    ultimately show ?thesis using Suc.prems(1) by fastforce
  next
    case True
    obtain ht1 w1 where one: "poll_one recording ht w = (ht1, w1, snd ?x)"
      and ok1: "timer_ok (ht1, w1)" "copies_ok ht1 w1" and mx: "max_entries_per_poll ht1 = max_entries_per_poll ht"
      and ab: "th_abs ht1 = th_abs ht - {# ?x #}" and su: "same_user w w1"
      and cl: "app_calls w1 = app_calls w @ [call_of w ?x]"
      using poll_one_recording [OF Suc.prems(1) conjunct1 [OF True] Suc.prems(2)] by blast
    have xin: "?x \<in># th_abs ht"
      using th_pop_spec(3) [OF Suc.prems(1)] th_abs_empty [OF Suc.prems(1)] True by simp
    have cs: "cur_size ht1 = cur_size ht - 1"
      using ab xin th_abs_size [OF ok1(1)] th_abs_size [OF Suc.prems(1)] by (simp add: size_Diff_singleton)
    have le: "cur_size ht1 \<le> max_entries_per_poll ht1 - (cnt + 1)" and fu: "cur_size ht1 < fuel"
      using cs mx Suc.prems(3,4) True by linarith+
    obtain ht' w' due where ih: "poll_loop fuel recording (\<lambda>_. T) (cnt + 1) T ht1 w1 = Some (ht', w', T, map (\<lambda>(t, e). (e, t, T)) due)"
        "timer_ok (ht', w')" "th_abs ht' = {# p \<in># th_abs ht1. \<not> fst p \<le> T #}"
        "mset due = {# p \<in># th_abs ht1. fst p \<le> T #}" "sorted (map fst due)"
        "app_calls w' = app_calls w1 @ map (call_of w1) due"
      using Suc.IH [OF ok1 le fu] by blast
    have run: "poll_loop (Suc fuel) recording (\<lambda>_. T) cnt T ht w = Some (ht', w', T, map (\<lambda>(t, e). (e, t, T)) (?x # due))"
      unfolding poll_loop.simps if_P [OF True] using ih(1) by (simp add: one Let_def tv case_prod_beta)
    have xT: "fst ?x \<le> T" using True by (simp add: tv_order_simps tv)
    have abx: "th_abs ht = add_mset ?x (th_abs ht1)" using ab xin by simp
    have "fst ?x \<le> fst p" if "p \<in> set due" for p
    proof -
      have "p \<in># th_abs ht1" using that ih(4) by (metis set_mset_mset mset_subset_eqD multiset_filter_subset)
      then show ?thesis using least [of p] in_diffD [of p] unfolding ab by blast
    qed
    then have "sorted (map fst (?x # due))" using ih(5) by simp
    moreover have "mset (?x # due) = {# p \<in># th_abs ht. fst p \<le> T #}" "th_abs ht' = {# p \<in># th_abs ht. \<not> fst p \<le> T #}"
      using ih(3,4) xT unfolding abx by simp_all
    moreover have "app_calls w' = app_calls w @ map (call_of w) (?x # due)"
      using ih(6) cl call_of_cong[OF su] by simp
    ultimately show ?thesis using run ih(2) by blast
  qed
qed

section \<open>Properties\<close>

lemma normalized_unique:
  assumes "\<bar>m\<bar> < 1000" "\<bar>m'\<bar> < 1000" "s * m \<ge> 0" "s' * m' \<ge> 0" "s * 1000 + m = s' * 1000 + (m' :: int)"
  shows "s = s' \<and> m = m'"
proof -
  have "s = s' \<or> s = s' + 1 \<or> s' = s + 1" using assms(1,2,5) by arith
  then show ?thesis
    using assms by (elim disjE) (auto simp: zero_le_mult_iff)
qed

text \<open>
  Normalisation of a time value keeps its length in milliseconds, leaves a millisecond part
  strictly between -1000 and 1000 whose sign does not contradict the seconds, and is canonical:
  two values normalise to the same one exactly when they denote the same time.
\<close>

theorem time_val_normalize_canonical:
  "PJ_TIME_VAL_MSEC (pj_time_val_normalize t) = PJ_TIME_VAL_MSEC t \<and>
   \<bar>tv_msec (pj_time_val_normalize t)\<bar> < 1000 \<and>
   tv_sec (pj_time_val_normalize t) * tv_msec (pj_time_val_normalize t) \<ge> 0 \<and>
   (pj_time_val_normalize t = pj_time_val_normalize u) = (PJ_TIME_VAL_MSEC t = PJ_TIME_VAL_MSEC u)"
proof -
  note t = normalize_spec [of t] and u = normalize_spec [of u]
  have "pj_time_val_normalize t = pj_time_val_normalize u" if "PJ_TIME_VAL_MSEC t = PJ_TIME_VAL_MSEC u"
    using normalized_unique [of "tv_msec (pj_time_val_normalize t)" "tv_msec (pj_time_val_normalize u)"
        "tv_sec (pj_time_val_normalize t)" "tv_sec (pj_time_val_normalize u)"] t u that
    by (simp add: PJ_TIME_VAL_MSEC_def pj_time_val.expand)
  moreover have "PJ_TIME_VAL_MSEC t = PJ_TIME_VAL_MSEC u" if "pj_time_val_normalize t = pj_time_val_normalize u"
    using t u that by metis
  ultimately show ?thesis using t by blast
qed

text \<open>A concrete application for the witnesses: one heap, idle entries with callback 7.\<close>

definition demo_world :: timer_world where
  "demo_world = \<lparr>entries = (\<lambda>e. pj_timer_entry_init 0 0 7), grp_refs = (\<lambda>l. 1), app_calls = []\<rparr>"

definition demo_state :: "pj_timer_heap_t \<times> timer_world" where
  "demo_state =
     (let (h1, w1, s1) = pj_timer_heap_schedule (True, True, True) (TimeVal 10 0) (pj_timer_heap_create 0)
            demo_world 1 (TimeVal 5 0);
          (h2, w2, s2) = pj_timer_heap_schedule_w_grp_lock (True, True, True) (TimeVal 10 0) h1 w1 2
            (TimeVal 2 500) 4 (Some 9);
          (h3, w3, s3) = pj_timer_heap_schedule (True, True, True) (TimeVal 11 0) h2 w2 3 (TimeVal 0 700)
      in (h3, w3))"

lemma demo_create: "timer_reach (pj_timer_heap_create 0) demo_world"
  by (rule timer_reach.create) (simp add: demo_world_def pj_timer_entry_init_def pj_timer_entry_running_def)

lemma demo_reach: "timer_reach (fst demo_state) (snd demo_state)"
  unfolding demo_state_def pj_timer_heap_schedule_def pj_timer_heap_schedule_w_grp_lock_def
  by (simp add: Let_def split: prod.split) (metis timer_reach.schedule demo_create)

lemma live_entries_distinct:
  assumes ok: "timer_ok (ht, w)"
  shows "count (image_mset snd (th_abs ht)) e = (if pj_timer_entry_running (entries w e) then 1 else 0)"
proof -
  let ?f = "\<lambda>x. dup_entry (timer_dups ht ! x)"
  let ?xs = "take (cur_size ht) (heap ht)"
  obtain fs where core: "th_core ht (cur_size ht) fs" and w: "world_ok ht w"
    using ok by (auto simp: timer_ok_def th_inv_def)
  note nd = th_coreD(5) [OF core] and pos = th_coreD(6) [OF core, unfolded node_ok_def]
  have inj: "inj_on ?f (set ?xs)" 
  proof (rule inj_onI)
    fix x y assume a: "x \<in> set ?xs" "y \<in> set ?xs" and eq: "?f x = ?f y"
    have "int x = int y"
      using world_okD(1) [OF w a(1)] world_okD(1) [OF w a(2)] unfolding eq by (rule trans [OF sym])
    then show "x = y" by (rule int_int_eq [THEN iffD1])
  qed
  have "pj_timer_entry_running (entries w e)" if "e \<in> ?f ` set ?xs"
  proof -
    obtain x where x: "x \<in> set ?xs" "e = ?f x" using \<open>e \<in> ?f ` set ?xs\<close> by blast
    have "te_timer_id (entries w e) = int x" "0 < x"
      using world_okD(1) [OF w x(1)] pos [OF x(1)] unfolding x(2) by auto
    then show ?thesis by (simp add: pj_timer_entry_running_def)
  qed
  moreover have "e \<in> ?f ` set ?xs" if "pj_timer_entry_running (entries w e)"
    using world_okD(2) [OF w, of e] that unfolding pj_timer_entry_running_def by blast
  ultimately have "e \<in> ?f ` set ?xs \<longleftrightarrow> pj_timer_entry_running (entries w e)" by blast
  moreover have "image_mset snd (th_abs ht) = mset (map ?f ?xs)"
    by (simp add: th_abs_def multiset.map_comp comp_def)
  moreover have "distinct (map ?f ?xs)" using nd inj by (simp add: distinct_map)
  ultimately show ?thesis by (simp add: distinct_count_atmost_1)
qed

text \<open>
  C8. In every state an application can reach while no allocation of memory fails, the slot array is a binary heap ordered by expiry
  time whose back pointers and free list of timer ids are exact, there is room for two more
  entries, and an entry is pending exactly once when its timer id says it is running and not
  at all otherwise.
\<close>

theorem timer_heap_reachable_invariant:
  assumes "timer_reach ht w"
  shows "th_inv ht \<and> world_ok ht w \<and>
    count (image_mset snd (th_abs ht)) e = (if pj_timer_entry_running (entries w e) then 1 else 0) \<and>
    size (th_abs ht) = pj_timer_heap_count ht"
  using timer_reach_ok [OF assms] live_entries_distinct [of ht w e] th_abs_size [of ht w]
  by (simp add: timer_ok_def pj_timer_heap_count_def)

theorem timer_heap_reachable_invariant_witness:
  "th_inv (fst demo_state) \<and> pj_timer_heap_count (fst demo_state) = 3 \<and>
   count (image_mset snd (th_abs (fst demo_state))) 2 = 1"
proof -
  have "pj_timer_heap_count (fst demo_state) = 3" "pj_timer_entry_running (entries (snd demo_state) 2)"
    by code_simp+
  then show ?thesis using timer_heap_reachable_invariant [OF demo_reach, of 2] by simp
qed

lemma schedule_with_room:
  assumes "\<not> max_size ht \<le> cur_size ht + 2"
  shows "schedule_w_grp_lock allocs now ht w e delay sid grp = schedule_w_grp_lock (True, True, True) now ht w e delay sid grp"
proof -
  have "schedule_entry allocs ht w e t = schedule_entry (True, True, True) ht w e t" for t
    using assms by (simp add: schedule_entry_def pop_freelist_def insert_node_def Let_def)
  then show ?thesis by (simp add: schedule_w_grp_lock_def)
qed

lemma schedule_nomem:
  assumes ok: "timer_ok (ht, w)" and "te_cb (entries w e) \<noteq> None" and "\<not> pj_timer_entry_running (entries w e)"
    and full: "max_size ht \<le> cur_size ht + 2" and al: "allocs \<noteq> (True, True, True)"
  shows "\<exists>ht' w' i. schedule_w_grp_lock allocs now ht w e delay sid grp = (ht', w', PJ_ENOMEM) \<and> th_abs ht' = th_abs ht \<and>
    w' = w\<lparr>entries := (entries w)(e := (entries w e)\<lparr>te_timer_id := i\<rparr>)\<rparr> \<and> 1 \<le> i \<and>
    timer_ids_freelist ht' = int (length (timer_ids ht')) \<and> max_size ht' = length (timer_ids ht') \<and> cur_size ht' < max_size ht'"
proof -
  obtain fs where core: "th_core ht (cur_size ht) fs" and room: "cur_size ht + 2 \<le> max_size ht"
    using ok by (auto simp: timer_ok_def th_inv_def)
  note c = th_coreD [OF core]
  obtain x fs' where fs: "fs = x # fs'" and fl: "timer_ids_freelist ht = int x"
    using th_core_free_nonempty [OF core room] by blast
  have x: "1 \<le> x" "x < max_size ht" using c(11) fs by auto
  have "card (set fs) = (max_size ht - 1) - cur_size ht"
  proof -
    have sub: "live ht \<subseteq> {1..<max_size ht}" using c(2) c(6) by (auto simp: node_ok_def Suc_le_eq)
    have "card (live ht) = cur_size ht" using c(1,4,5) distinct_card [of "take (cur_size ht) (heap ht)"] by simp
    then show ?thesis using c(11) sub by (simp add: card_Diff_subset)
  qed
  then have "length fs = 1" using c(10) full room by (simp add: distinct_card)
  then have fs': "fs' = []" using fs by simp
  have next_id: "- (timer_ids ht ! x) = int (max_size ht)" using c(9) unfolding fs fs' by simp
  let ?w = "w\<lparr>entries := (entries w)(e := (entries w e)\<lparr>te_timer_id := int x\<rparr>)\<rparr>"
  obtain a b d where al3: "allocs = (a, b, d)" by (cases allocs)
  have ab: "th_abs (ht\<lparr>timer_ids_freelist := f, timer_dups := timer_dups ht @ ds, heap := take (cur_size ht) (heap ht) @ hs\<rparr>) = th_abs ht" for f ds hs
    using c(1-4,6) by (auto simp: th_abs_def nth_append node_ok_def intro!: image_mset_cong)
  have ab0: "th_abs (ht\<lparr>timer_ids_freelist := f\<rparr>) = th_abs ht" for f by (simp add: th_abs_def)
  have "\<exists>ht'. schedule_w_grp_lock allocs now ht w e delay sid grp = (ht', ?w, PJ_ENOMEM) \<and> th_abs ht' = th_abs ht \<and>
      timer_ids_freelist ht' = int (length (timer_ids ht')) \<and> max_size ht' = length (timer_ids ht') \<and> cur_size ht' < max_size ht'"
    using assms(2,3) full room al next_id x c(2) fl
    by (cases a; cases b; cases d)
      (simp_all add: al3 schedule_w_grp_lock_def schedule_entry_def pop_freelist_def insert_node_def grow_heap_def Let_def ab ab0)
  moreover have "1 \<le> int x" using x(1) by simp
  ultimately show ?thesis by blast
qed

text \<open>
  C9. Scheduling an entry: without a callback it is refused with \<open>PJ_EINVAL\<close>, while it is already
  running with \<open>PJ_EINVALIDOP\<close>, and in both cases nothing changes. If the heap is full and an allocation fails, the
  result is \<open>PJ_ENOMEM\<close> and nothing is added, but the entry is marked as running all the same. Otherwise it succeeds, adds
  exactly one pending item with expiry time now plus delay, marks the entry running, takes one
  reference of the group lock and leaves every other entry alone.
\<close>

theorem timer_schedule_correct:
  assumes "timer_reach ht w"
  shows "case schedule_w_grp_lock allocs now ht w e delay sid grp of (ht', w', st) \<Rightarrow>
    (if te_cb (entries w e) = None then (ht', w', st) = (ht, w, PJ_EINVAL)
     else if pj_timer_entry_running (entries w e) then (ht', w', st) = (ht, w, PJ_EINVALIDOP)
     else if max_size ht \<le> pj_timer_heap_count ht + 2 \<and> allocs \<noteq> (True, True, True)
     then st = PJ_ENOMEM \<and> th_abs ht' = th_abs ht \<and> pj_timer_entry_running (entries w' e) \<and>
       (\<forall>f. f = e \<or> entries w' f = entries w f) \<and> grp_refs w' = grp_refs w
     else st = PJ_SUCCESS \<and> timer_reach ht' w' \<and>
       th_abs ht' = add_mset (PJ_TIME_VAL_ADD now delay, e) (th_abs ht) \<and>
       pj_timer_entry_running (entries w' e) \<and> (\<forall>f. f = e \<or> entries w' f = entries w f) \<and>
       grp_refs w' = grp_refs (grp_add 1 grp w))"
proof -
  note ok = timer_reach_ok [OF assms]
  consider "te_cb (entries w e) = None" | "te_cb (entries w e) \<noteq> None" "pj_timer_entry_running (entries w e)"
    | "te_cb (entries w e) \<noteq> None" "\<not> pj_timer_entry_running (entries w e)"
      "max_size ht \<le> cur_size ht + 2" "allocs \<noteq> (True, True, True)"
    | "te_cb (entries w e) \<noteq> None" "\<not> pj_timer_entry_running (entries w e)"
      "\<not> max_size ht \<le> cur_size ht + 2 \<or> allocs = (True, True, True)" by blast
  then show ?thesis
  proof cases
    case 3
    from schedule_nomem [OF ok 3, of now delay sid grp] 3 show ?thesis
      by (auto simp: pj_timer_heap_count_def pj_timer_entry_running_def split: if_splits)
  next
    case 4
    have al: "schedule_w_grp_lock allocs now ht w e delay sid grp = schedule_w_grp_lock (True, True, True) now ht w e delay sid grp"
      using schedule_with_room 4(3) by blast
    from schedule_w_grp_lock_ok [OF ok 4(2,1), of now delay sid grp]
    obtain ht' w' where s: "schedule_w_grp_lock (True, True, True) now ht w e delay sid grp = (ht', w', PJ_SUCCESS)"
        "th_abs ht' = add_mset (PJ_TIME_VAL_ADD now delay, e) (th_abs ht)"
        "pj_timer_entry_running (entries w' e)" "\<forall>f. f \<noteq> e \<longrightarrow> entries w' f = entries w f"
        "grp_refs w' = grp_refs (grp_add 1 grp w)"
      by blast
    then show ?thesis using timer_reach.schedule [OF assms s(1)] 4 unfolding al by (auto simp: pj_timer_heap_count_def)
  qed (auto simp: schedule_w_grp_lock_refused)
qed

theorem timer_schedule_correct_witness:
  "\<exists>ht' w'. schedule_w_grp_lock (True, True, True) (TimeVal 10 900) (fst demo_state) (snd demo_state) 4
     (TimeVal 1 200) None (Some 9) = (ht', w', PJ_SUCCESS) \<and> grp_refs w' 9 = 3 \<and>
     th_abs ht' = add_mset (TimeVal 12 100, 4) (th_abs (fst demo_state))"
proof -
  have "te_cb (entries (snd demo_state) 4) \<noteq> None" "\<not> pj_timer_entry_running (entries (snd demo_state) 4)"
    "PJ_TIME_VAL_ADD (TimeVal 10 900) (TimeVal 1 200) = TimeVal 12 100"
    "grp_refs (grp_add 1 (Some 9) (snd demo_state)) 9 = 3"
    by code_simp+
  then show ?thesis
    using timer_schedule_correct [OF demo_reach, where allocs = "(True, True, True)" and now = "TimeVal 10 900" and e = 4 and
        delay = "TimeVal 1 200" and sid = None and grp = "Some 9"]
    by (auto split: prod.splits)
qed

text \<open>
  C10. Cancelling a running entry reports 1, takes exactly this entry's pending item out of the
  heap and leaves it idle; cancelling an entry that is not running reports 0 and changes nothing.
\<close>

theorem timer_cancel_exact:
  assumes "timer_reach ht w"
  shows "case cancel_timer ht w e sid of (ht', w', n) \<Rightarrow>
    (if pj_timer_entry_running (entries w e)
     then n = 1 \<and> (\<exists>t. th_abs ht = add_mset (t, e) (th_abs ht')) \<and>
       \<not> pj_timer_entry_running (entries w' e) \<and> (\<forall>f. f = e \<or> entries w' f = entries w f)
     else (ht', w', n) = (ht, w, 0))"
proof (cases "pj_timer_entry_running (entries w e)")
  case True
  from cancel_timer_running [OF timer_reach_ok [OF assms] True, of sid]
  obtain ht' w' t where c: "cancel_timer ht w e sid = (ht', w', 1)" "(t, e) \<in># th_abs ht"
      "th_abs ht' = th_abs ht - {# (t, e) #}" "\<not> pj_timer_entry_running (entries w' e)"
      "\<forall>f. f \<noteq> e \<longrightarrow> entries w' f = entries w f"
    by blast
  have "th_abs ht = add_mset (t, e) (th_abs ht')" using c(2,3) by simp
  then show ?thesis using c(1,4,5) True by auto
qed (simp add: cancel_timer_idle)

theorem timer_cancel_exact_witness:
  "\<exists>ht' w' t. cancel_timer (fst demo_state) (snd demo_state) 2 None = (ht', w', 1) \<and>
     th_abs (fst demo_state) = add_mset (t, 2) (th_abs ht')"
proof -
  have "pj_timer_entry_running (entries (snd demo_state) 2)" by code_simp
  then show ?thesis using timer_cancel_exact [OF demo_reach, where e = 2 and sid = None] by (auto split: prod.splits)
qed

text \<open>
  C11. The heap sorts: taking the earliest item off until the heap is empty yields every pending
  item once, in the order of the expiry times; \<open>pj_timer_heap_earliest_time\<close> reports the first of
  them, or \<open>PJ_ENOTFOUND\<close> for an empty heap.
\<close>

theorem timer_heap_drains_sorted:
  assumes "timer_reach ht w"
  shows "mset (drain th_first th_pop (pj_timer_heap_count ht) (ht, w)) = th_abs ht \<and>
    sorted (map fst (drain th_first th_pop (pj_timer_heap_count ht) (ht, w))) \<and>
    pj_timer_heap_earliest_time ht =
      (case drain th_first th_pop (pj_timer_heap_count ht) (ht, w) of
         [] \<Rightarrow> Inl PJ_ENOTFOUND | (t, e) # rest \<Rightarrow> Inr t)"
proof -
  have ok: "timer_ok (ht, w)" by (rule timer_reach_ok [OF assms])
  have "size (th_abs (fst (ht, w))) = cur_size ht" using th_abs_size [OF ok] by simp
  from th.drain_all [OF ok this]
  show ?thesis
    by (cases "cur_size ht")
      (simp_all add: pj_timer_heap_count_def pj_timer_heap_earliest_time_def th_first_def split: prod.split)
qed

theorem timer_heap_drains_sorted_witness:
  "mset (drain th_first th_pop 3 demo_state) = th_abs (fst demo_state) \<and>
   drain th_first th_pop 3 demo_state = [(TimeVal 11 700, 3), (TimeVal 12 500, 2), (TimeVal 15 0, 1)] \<and>
   pj_timer_heap_earliest_time (fst demo_state) = Inr (TimeVal 11 700)"
proof -
  have c: "pj_timer_heap_count (fst demo_state) = 3"
    and d: "drain th_first th_pop 3 demo_state = [(TimeVal 11 700, 3), (TimeVal 12 500, 2), (TimeVal 15 0, 1)]"
    by code_simp+
  show ?thesis using timer_heap_drains_sorted [OF demo_reach] unfolding prod.collapse c d by simp
qed

text \<open>
  C12. Polling with callbacks that keep the heap consistent and do not change the poll limit ends
  after at most \<open>max_entries_per_poll\<close> expiries, never fires a timer before its expiry time, and
  leaves the heap consistent; it stops because the heap is empty, because no remaining timer is
  due at the last clock reading the loop used, or because the limit is reached.
\<close>

theorem timer_poll_safe:
  assumes "timer_reach ht w" and "cb_ok cb_run" and "max_entries_per_poll ht < fuel"
  shows "\<exists>ht' w' delay fired. pj_timer_heap_poll fuel cb_run clk ht w = Some (ht', w', delay, fired) \<and>
    timer_ok (ht', w') \<and> length fired \<le> max_entries_per_poll ht \<and> list_all (\<lambda>(e, t, now). t \<le> now) fired \<and>
    (cur_size ht' = 0 \<or> length fired = max_entries_per_poll ht \<or>
     clk (length fired) < node_tv ht' (heap ht' ! 0))"
proof (cases "cur_size ht = 0")
  case True
  then show ?thesis using timer_reach_ok [OF assms(1)] by (simp add: pj_timer_heap_poll_def)
next
  case False
  from poll_loop_ok [OF timer_reach_ok [OF assms(1)] assms(2), of 0 fuel clk "clk 0"] assms(3)
  obtain ht' w' now' fired where p: "poll_loop fuel cb_run clk 0 (clk 0) ht w = Some (ht', w', now', fired)"
      "timer_ok (ht', w')" "max_entries_per_poll ht' = max_entries_per_poll ht"
      "list_all (\<lambda>(e, t, n). t \<le> n) fired" "length fired \<le> max_entries_per_poll ht"
      "cur_size ht' = 0 \<or> now' < node_tv ht' (heap ht' ! 0) \<or> max_entries_per_poll ht' \<le> length fired"
      "cur_size ht' = 0 \<or> now' = (if fired = [] then clk 0 else clk (length fired))"
    by auto
  have "cur_size ht' = 0 \<or> now' = clk (length fired)" using p(7) by (auto split: if_splits)
  then show ?thesis using False p(1-6) unfolding pj_timer_heap_poll_def by fastforce
qed

text \<open>For the witness: a callback that schedules its own entry again two seconds later.\<close>

definition rearm :: timer_callbacks where
  "rearm cb e q = (let (ht, w, st) = schedule_w_grp_lock (True, True, True) (TimeVal 20 0) (fst q) (snd q) e
     (TimeVal 2 0) None None in (ht, w))"

lemma cb_ok_rearm: "cb_ok rearm"
  unfolding cb_ok_def
proof (intro allI impI)
  fix cb :: nat and e q assume ok: "timer_ok q"
  let ?s = "schedule_w_grp_lock (True, True, True) (TimeVal 20 0) (fst q) (snd q) e (TimeVal 2 0) None None"
  have ok': "timer_ok (fst q, snd q)" using ok by simp
  consider "te_cb (entries (snd q) e) = None"
    | "te_cb (entries (snd q) e) \<noteq> None" "pj_timer_entry_running (entries (snd q) e)"
    | "te_cb (entries (snd q) e) \<noteq> None" "\<not> pj_timer_entry_running (entries (snd q) e)" by blast
  then show "timer_ok (rearm cb e q) \<and> max_entries_per_poll (fst (rearm cb e q)) = max_entries_per_poll (fst q)"
  proof cases
    case 3
    from schedule_w_grp_lock_ok [OF ok' 3(2,1), of "TimeVal 20 0" "TimeVal 2 0" None None]
    show ?thesis unfolding rearm_def by (elim exE conjE) simp
  qed (use ok in \<open>simp_all add: rearm_def schedule_w_grp_lock_refused\<close>)
qed

theorem timer_poll_safe_witness:
  "\<exists>ht' w' delay fired. pj_timer_heap_poll 65 rearm (\<lambda>k. TimeVal (12 + int k) 0) (fst demo_state) (snd demo_state)
     = Some (ht', w', delay, fired) \<and> timer_ok (ht', w') \<and> list_all (\<lambda>(e, t, now). t \<le> now) fired \<and>
     map fst fired = [3, 2]"
proof -
  have f: "max_entries_per_poll (fst demo_state) < 65"
    and m: "map_option (\<lambda>(h, v, d, fired). map fst fired) (pj_timer_heap_poll 65 rearm
      (\<lambda>k. TimeVal (12 + int k) 0) (fst demo_state) (snd demo_state)) = Some [3, 2]"
    by code_simp+
  from timer_poll_safe [OF demo_reach cb_ok_rearm f, of "\<lambda>k. TimeVal (12 + int k) 0"] m
  show ?thesis by fastforce
qed

text \<open>
  C13. With a steady clock, callbacks that leave the heap alone and a poll limit that covers the heap, polling calls the
  callback of exactly the timers that are due, each once, for its entry, and in the order of their expiry times, and keeps
  exactly the others pending. The calls are seen in the memory of the application, in which the callbacks write them down.
\<close>

theorem timer_poll_fires_due:
  assumes "timer_reach ht w" and "pj_timer_heap_count ht \<le> max_entries_per_poll ht"
    and "pj_timer_heap_count ht < fuel"
  shows "\<exists>ht' w' delay fired due. pj_timer_heap_poll fuel recording (\<lambda>_. T) ht w = Some (ht', w', delay, fired) \<and>
    app_calls w' = app_calls w @ map (\<lambda>(t, e). (the (te_cb (entries w e)), e)) due \<and>
    mset due = {# p \<in># th_abs ht. fst p \<le> T #} \<and> sorted (map fst due) \<and>
    th_abs ht' = {# p \<in># th_abs ht. \<not> fst p \<le> T #} \<and> timer_ok (ht', w')"
proof (cases "cur_size ht = 0")
  case True
  then have "th_abs ht = {#}" using th_abs_empty [OF timer_reach_ok [OF assms(1)]] by simp
  then show ?thesis using True timer_reach_ok [OF assms(1)] by (auto simp: pj_timer_heap_poll_def)
next
  case False
  have call: "call_of w = (\<lambda>(t, e). (the (te_cb (entries w e)), e))" by (intro ext) (simp add: call_of_def split: prod.split)
  from poll_loop_recording [OF timer_reach_ok [OF assms(1)] timer_reach_copies [OF assms(1)], of 0 fuel T] assms(2,3)
  obtain ht' w' due where "poll_loop fuel recording (\<lambda>_. T) 0 T ht w = Some (ht', w', T, map (\<lambda>(t, e). (e, t, T)) due)"
    "timer_ok (ht', w')" "th_abs ht' = {# p \<in># th_abs ht. \<not> fst p \<le> T #}"
    "mset due = {# p \<in># th_abs ht. fst p \<le> T #}" "sorted (map fst due)" "app_calls w' = app_calls w @ map (call_of w) due"
    by (auto simp: pj_timer_heap_count_def)
  then show ?thesis using False by (simp add: pj_timer_heap_poll_def call) blast
qed

theorem timer_poll_fires_due_witness:
  "\<exists>ht' w' delay fired. pj_timer_heap_poll 4 recording (\<lambda>_. TimeVal 13 0) (fst demo_state) (snd demo_state)
      = Some (ht', w', delay, fired) \<and> mset (app_calls w') = {# (7, 3), (7, 2) #} \<and>
    pj_timer_heap_count (fst demo_state) = 3"
proof -
  have c: "pj_timer_heap_count (fst demo_state) = 3" "max_entries_per_poll (fst demo_state) = 64" "app_calls (snd demo_state) = []"
      "te_cb (entries (snd demo_state) 2) = Some 7" "te_cb (entries (snd demo_state) 3) = Some 7"
      "map (\<lambda>x. (node_tv (fst demo_state) x, dup_entry (timer_dups (fst demo_state) ! x))) (take (cur_size (fst demo_state)) (heap (fst demo_state))) =
         [(TimeVal 11 700, 3), (TimeVal 15 0, 1), (TimeVal 12 500, 2)]"
    by code_simp+
  have "th_abs (fst demo_state) = {# (TimeVal 11 700, 3), (TimeVal 15 0, 1), (TimeVal 12 500, 2) #}"
    unfolding th_abs_def using arg_cong [OF c(6), of mset] by simp
  moreover have "TimeVal 11 700 \<le> TimeVal 13 0" "\<not> TimeVal 15 0 \<le> TimeVal 13 0" "TimeVal 12 500 \<le> TimeVal 13 0" by code_simp+
  ultimately have f: "{# p \<in># th_abs (fst demo_state). fst p \<le> TimeVal 13 0 #} = {# (TimeVal 11 700, 3), (TimeVal 12 500, 2) #}" by simp
  obtain ht' w' delay fired due where p: "pj_timer_heap_poll 4 recording (\<lambda>_. TimeVal 13 0) (fst demo_state) (snd demo_state)
      = Some (ht', w', delay, fired)" "app_calls w' = map (\<lambda>(t, e). (the (te_cb (entries (snd demo_state) e)), e)) due"
      "mset due = {# (TimeVal 11 700, 3), (TimeVal 12 500, 2) #}"
    using timer_poll_fires_due [OF demo_reach, where fuel = 4 and T = "TimeVal 13 0"] c(1-3) f by auto
  have "mset (app_calls w') = {# (7, 3), (7, 2) #}" unfolding p(2) mset_map p(3) by (simp add: c)
  then show ?thesis using p(1) c(1) by blast
qed

text \<open>
  When the heap cannot grow, scheduling fails without adding a timer, yet the entry keeps the
  timer id taken from the free list: it counts as running, and every later attempt to schedule
  it is refused with \<open>PJ_EINVALIDOP\<close> until it is cancelled, although no timer is pending for it.
\<close>

theorem timer_schedule_nomem_leaves_entry_marked:
  assumes "timer_reach ht w" and "te_cb (entries w e) \<noteq> None" and "\<not> pj_timer_entry_running (entries w e)"
    and "max_size ht \<le> pj_timer_heap_count ht + 2"
  shows "case schedule_w_grp_lock (False, b, c) now ht w e delay sid grp of (ht', w', st) \<Rightarrow>
    st = PJ_ENOMEM \<and> th_abs ht' = th_abs ht \<and> pj_timer_entry_running (entries w' e) \<and>
    schedule_w_grp_lock al now' ht' w' e delay' sid' grp' = (ht', w', PJ_EINVALIDOP)"
  using schedule_nomem [OF timer_reach_ok [OF assms(1)] assms(2,3), of "(False, b, c)" now delay sid grp] assms(2,4)
  by (auto simp: pj_timer_heap_count_def pj_timer_entry_running_def schedule_w_grp_lock_def)

text \<open>
  The failed attempt has used up the last timer id, and the free list ends at the size of the array of ids, which has not
  grown. The next attempt, for any other entry, reads the array at this index.
\<close>

lemma second_nomem_reads_past_the_ids:
  assumes "timer_reach ht w" "te_cb (entries w e) \<noteq> None" "\<not> pj_timer_entry_running (entries w e)"
    and "max_size ht \<le> pj_timer_heap_count ht + 2" "allocs \<noteq> (True, True, True)"
    and "schedule_w_grp_lock allocs now ht w e delay sid grp = (ht', w', st)"
  shows "cur_size ht' < max_size ht' \<and> timer_ids_freelist ht' = int (length (timer_ids ht'))"
  using schedule_nomem [OF timer_reach_ok [OF assms(1)] assms(2,3), of allocs now delay sid grp] assms(4-6)
  by (auto simp: pj_timer_heap_count_def)

theorem timer_schedule_nomem_leaves_entry_marked_witness:
  "case schedule_w_grp_lock (False, True, True) (TimeVal 1 0) (pj_timer_heap_create 0) demo_world 5 (TimeVal 1 0)
     None None of (ht', w', st) \<Rightarrow> st = PJ_ENOMEM \<and> pj_timer_entry_running (entries w' 5)"
proof -
  have "te_cb (entries demo_world 5) \<noteq> None" "\<not> pj_timer_entry_running (entries demo_world 5)"
    "max_size (pj_timer_heap_create 0) \<le> pj_timer_heap_count (pj_timer_heap_create 0) + 2"
    by code_simp+
  from timer_schedule_nomem_leaves_entry_marked [OF demo_create this, where now = "TimeVal 1 0" and
      delay = "TimeVal 1 0" and sid = None and grp = None and b = True and c = True]
  show ?thesis by (auto split: prod.splits)
qed

end
