(* ===== verification/Sip_Tsx.thy ===== *)
theory Sip_Tsx
  imports Pj_Timer
begin

text \<open>
  The SIP transaction state machine (\<open>pjsip/src/pjsip/sip_transaction.c\<close>): transaction state, timers,
  retransmission, sending through a transport or through the endpoint, the handler of every
  state for client and server transactions, and the operations called by the transaction user,
  the endpoint, the timer heap and the transport layer.

  The surroundings are the record \<open>tsx_env\<close>: the timer settings, the status a transport returns for
  a message, what the endpoint does with a message it has to resolve a destination for (the
  send callbacks it invokes before it returns, and its status), the ACK it builds, and what it
  finds out about the destination of a request or a response when a transaction is created. Message
  bodies and addresses are not modelled. A timer entry is its id and, while it is in the timer
  heap, its delay; scheduling an entry that is in the heap is refused and cancelling one that is
  not does nothing, as proved for the timer heap. The transaction user's callbacks are recorded
  in \<open>tsx_log\<close>; what the user does from inside them counts as a later operation. Assertions
  (\<open>pj_assert\<close>) have no effect, as in a release build; \<open>PJ_ASSERT_RETURN\<close> returns. Mutexes are
  not modelled: each operation is one step. \<open>tsx_grp_ref\<close> counts the references to the group lock
  that the transaction code itself takes, and \<open>tsx_unregs\<close> the calls that unregister the transaction
  from the transaction layer.
\<close>

section \<open>Data\<close>

datatype pjsip_role_e = PJSIP_ROLE_UAC | PJSIP_ROLE_UAS

datatype pjsip_method_e =
    PJSIP_INVITE_METHOD | PJSIP_CANCEL_METHOD | PJSIP_ACK_METHOD | PJSIP_BYE_METHOD
  | PJSIP_REGISTER_METHOD | PJSIP_OPTIONS_METHOD | PJSIP_OTHER_METHOD "u8 list"

datatype pjsip_msg_type_e = PJSIP_REQUEST_MSG | PJSIP_RESPONSE_MSG

datatype pjsip_tsx_state_e =
    PJSIP_TSX_STATE_NULL | PJSIP_TSX_STATE_CALLING | PJSIP_TSX_STATE_TRYING
  | PJSIP_TSX_STATE_PROCEEDING | PJSIP_TSX_STATE_COMPLETED | PJSIP_TSX_STATE_CONFIRMED
  | PJSIP_TSX_STATE_TERMINATED | PJSIP_TSX_STATE_DESTROYED

primrec state_num :: "pjsip_tsx_state_e \<Rightarrow> nat" where
  "state_num PJSIP_TSX_STATE_NULL = 0"
| "state_num PJSIP_TSX_STATE_CALLING = 1"
| "state_num PJSIP_TSX_STATE_TRYING = 2"
| "state_num PJSIP_TSX_STATE_PROCEEDING = 3"
| "state_num PJSIP_TSX_STATE_COMPLETED = 4"
| "state_num PJSIP_TSX_STATE_CONFIRMED = 5"
| "state_num PJSIP_TSX_STATE_TERMINATED = 6"
| "state_num PJSIP_TSX_STATE_DESTROYED = 7"

text \<open>The states are ordered as the enumeration numbers them.\<close>

instantiation pjsip_tsx_state_e :: linorder
begin

definition less_eq_pjsip_tsx_state_e :: "pjsip_tsx_state_e \<Rightarrow> pjsip_tsx_state_e \<Rightarrow> bool" where
  "less_eq_pjsip_tsx_state_e a b = (state_num a \<le> state_num b)"

definition less_pjsip_tsx_state_e :: "pjsip_tsx_state_e \<Rightarrow> pjsip_tsx_state_e \<Rightarrow> bool" where
  "less_pjsip_tsx_state_e a b = (state_num a < state_num b)"

instance
proof
  fix x y z :: pjsip_tsx_state_e
  note defs = less_eq_pjsip_tsx_state_e_def less_pjsip_tsx_state_e_def
  show "(x < y) = (x \<le> y \<and> \<not> y \<le> x)" "x \<le> x" "x \<le> y \<or> y \<le> x"
    "x \<le> y \<Longrightarrow> y \<le> z \<Longrightarrow> x \<le> z" by (auto simp: defs)
  show "x \<le> y \<Longrightarrow> y \<le> x \<Longrightarrow> x = y" by (cases x; cases y) (auto simp: defs)
qed

end

text \<open>Timer ids and the timer entry.\<close>

datatype tsx_timer_id =
    TIMER_INACTIVE | RETRANSMIT_TIMER | TIMEOUT_TIMER | TRANSPORT_ERR_TIMER | TRANSPORT_DISC_TIMER
  | TERMINATE_TIMER

record tsx_timer =
  tm_id :: tsx_timer_id
  tm_delay :: "pj_time_val option"

record pjsip_tx_data =
  td_id :: nat
  td_type :: pjsip_msg_type_e
  td_code :: int
  td_method :: pjsip_method_e
  td_cseq :: "pjsip_method_e option"
  td_is_pending :: bool

record pjsip_rx_data =
  rx_type :: pjsip_msg_type_e
  rx_code :: int
  rx_method :: pjsip_method_e
  rx_cseq :: "pjsip_method_e option"
  rx_has_via :: bool

datatype pjsip_event_id_e =
    PJSIP_EVENT_UNKNOWN | PJSIP_EVENT_TIMER | PJSIP_EVENT_TX_MSG | PJSIP_EVENT_RX_MSG
  | PJSIP_EVENT_TRANSPORT_ERROR | PJSIP_EVENT_USER

datatype tsx_entry = RETRANSMIT_ENTRY | TIMEOUT_ENTRY

datatype pjsip_event = TimerEvent tsx_entry | TxEvent pjsip_tx_data | RxEvent pjsip_rx_data

text \<open>
  The effects the transaction has on the outside: a message given to a transport, a message
  given to the endpoint, a response passed up, a state change reported (old state, new state,
  cause).
\<close>

datatype tsx_out =
    OutTransport nat pjsip_tx_data | OutEndpoint pjsip_tx_data | OutResponse pjsip_rx_data
  | OutState pjsip_tsx_state_e pjsip_tsx_state_e pjsip_event_id_e

record pjsip_transaction =
  tsx_role :: pjsip_role_e
  tsx_method :: pjsip_method_e
  tsx_state :: pjsip_tsx_state_e
  tsx_status_code :: int
  tsx_handle_200resp :: bool
  tsx_has_user :: bool
  tsx_terminating :: bool
  tsx_unregs :: nat
  tsx_grp_ref :: int
  tsx_transport :: "nat option"
  tsx_is_reliable :: bool
  tsx_pending_transport :: bool
  tsx_pending_resched :: bool
  tsx_pending_send :: bool
  tsx_pending_destroy :: bool
  tsx_resolved_server :: bool
  tsx_transport_err :: pj_status
  tsx_pending_tx :: "pjsip_tx_data option"
  tsx_last_tx :: "pjsip_tx_data option"
  tsx_attached :: "nat \<Rightarrow> bool"
  tsx_td_refs :: "nat \<Rightarrow> int"
  tsx_retransmit_count :: nat
  tsx_retransmit_timer :: tsx_timer
  tsx_timeout_timer :: tsx_timer
  tsx_log :: "tsx_out list"

text \<open>
  What the send framework reports to \<open>send_msg_callback\<close>: the message went out on a transport, or
  failed (the transport that was tried, the error, and whether another server will be tried).
\<close>

datatype send_report = Sent nat | SendFailed "nat option" pj_status bool

record tsx_env =
  cfg_t1 :: int
  cfg_t2 :: int
  cfg_t4 :: int
  cfg_td :: int
  cfg_timeout :: int
  max_retrans_count :: int
  tp_reliable :: "nat \<Rightarrow> bool"
  tp_down :: "nat \<Rightarrow> bool"
  transport_send :: "nat \<Rightarrow> pjsip_tx_data \<Rightarrow> pj_status"
  endpt_send :: "pjsip_tx_data \<Rightarrow> send_report list \<times> pj_status"
  create_ack :: "pjsip_tx_data option \<Rightarrow> pjsip_rx_data \<Rightarrow> pj_status + pjsip_tx_data"
  request_dest :: "pjsip_tx_data \<Rightarrow> pj_status + bool"
  response_addr :: "pjsip_rx_data \<Rightarrow> pj_status + (nat option \<times> bool)"

definition tv_of_msec :: "int \<Rightarrow> pj_time_val" where
  "tv_of_msec ms = TimeVal (ms div 1000) (ms mod 1000)"

definition PJSIP_SC_TSX_TIMEOUT :: int where "PJSIP_SC_TSX_TIMEOUT = 408"
definition PJSIP_SC_TSX_TRANSPORT_ERROR :: int where "PJSIP_SC_TSX_TRANSPORT_ERROR = 503"
definition PJSIP_SC_BAD_GATEWAY :: int where "PJSIP_SC_BAD_GATEWAY = 502"
definition PJSIP_SC_CALL_TSX_DOES_NOT_EXIST :: int where "PJSIP_SC_CALL_TSX_DOES_NOT_EXIST = 481"
definition PJSIP_TSX_1XX_RETRANS_DELAY :: int where "PJSIP_TSX_1XX_RETRANS_DELAY = 60"

definition status_in_class :: "int \<Rightarrow> int \<Rightarrow> bool" where
  "status_in_class code cls \<longleftrightarrow> c_div code 100 = c_div cls 100"

definition is_tx :: "pjsip_tx_data option \<Rightarrow> pjsip_tx_data \<Rightarrow> bool" where
  "is_tx p td \<longleftrightarrow> map_option td_id p = Some (td_id td)"

section \<open>Timers, transport, state\<close>

definition tsx_schedule_timer :: "tsx_timer \<Rightarrow> pj_time_val \<Rightarrow> tsx_timer_id \<Rightarrow> tsx_timer" where
  "tsx_schedule_timer tm delay active_id =
     (if tm_delay tm \<noteq> None then tm else \<lparr>tm_id = active_id, tm_delay = Some delay\<rparr>)"

definition tsx_cancel_timer :: "tsx_timer \<Rightarrow> tsx_timer" where
  "tsx_cancel_timer tm =
     (if tm_delay tm \<noteq> None then \<lparr>tm_id = TIMER_INACTIVE, tm_delay = None\<rparr> else tm)"

definition cancel_timeout :: "pjsip_transaction \<Rightarrow> pjsip_transaction" where
  "cancel_timeout tsx = tsx\<lparr>tsx_timeout_timer := tsx_cancel_timer (tsx_timeout_timer tsx)\<rparr>"

definition cancel_retransmit :: "pjsip_transaction \<Rightarrow> pjsip_transaction" where
  "cancel_retransmit tsx = tsx\<lparr>tsx_retransmit_timer := tsx_cancel_timer (tsx_retransmit_timer tsx)\<rparr>"

definition schedule_timeout :: "pjsip_transaction \<Rightarrow> pj_time_val \<Rightarrow> tsx_timer_id \<Rightarrow> pjsip_transaction" where
  "schedule_timeout tsx delay i = tsx\<lparr>tsx_timeout_timer := tsx_schedule_timer (tsx_timeout_timer tsx) delay i\<rparr>"

definition schedule_retransmit :: "pjsip_transaction \<Rightarrow> pj_time_val \<Rightarrow> pjsip_transaction" where
  "schedule_retransmit tsx delay =
     tsx\<lparr>tsx_retransmit_timer := tsx_schedule_timer (tsx_retransmit_timer tsx) delay RETRANSMIT_TIMER\<rparr>"

definition add_td_ref :: "int \<Rightarrow> pjsip_tx_data \<Rightarrow> pjsip_transaction \<Rightarrow> pjsip_transaction" where
  "add_td_ref k td tsx = tsx\<lparr>tsx_td_refs := (tsx_td_refs tsx)(td_id td := tsx_td_refs tsx (td_id td) + k)\<rparr>"

definition emit :: "tsx_out \<Rightarrow> pjsip_transaction \<Rightarrow> pjsip_transaction" where
  "emit x tsx = tsx\<lparr>tsx_log := tsx_log tsx @ [x]\<rparr>"

definition tsx_set_status_code :: "pjsip_transaction \<Rightarrow> int \<Rightarrow> pjsip_transaction" where
  "tsx_set_status_code tsx code = tsx\<lparr>tsx_status_code := code\<rparr>"

definition tsx_tp_state_callback :: "pjsip_transaction \<Rightarrow> pj_status \<Rightarrow> pjsip_transaction" where
  "tsx_tp_state_callback tsx err =
     (let tsx = tsx\<lparr>tsx_transport_err := err\<rparr>
      in if tsx_state tsx < PJSIP_TSX_STATE_COMPLETED
         then schedule_timeout (cancel_timeout tsx) (TimeVal 0 0) TRANSPORT_DISC_TIMER
         else tsx)"

definition tsx_update_transport :: "tsx_env \<Rightarrow> pjsip_transaction \<Rightarrow> nat option \<Rightarrow> pjsip_transaction" where
  "tsx_update_transport env tsx tp =
     (case tp of
        None \<Rightarrow> tsx\<lparr>tsx_transport := None\<rparr>
      | Some t \<Rightarrow> (let tsx = tsx\<lparr>tsx_transport := Some t\<rparr>
                   in if tp_down env t then tsx_tp_state_callback tsx (PJ_OSERR 503) else tsx))"

definition tsx_shutdown :: "tsx_env \<Rightarrow> pjsip_transaction \<Rightarrow> pjsip_transaction" where
  "tsx_shutdown env tsx =
     (let tsx = tsx_update_transport env tsx None;
          tsx = (case tsx_last_tx tsx of None \<Rightarrow> tsx | Some td \<Rightarrow> (add_td_ref (- 1) td tsx)\<lparr>tsx_last_tx := None\<rparr>);
          tsx = cancel_retransmit (cancel_timeout tsx);
          tsx = tsx\<lparr>tsx_pending_resched := False, tsx_pending_send := False\<rparr>;
          tsx = (if tsx_pending_transport tsx
                 then tsx\<lparr>tsx_pending_destroy := True, tsx_has_user := False\<rparr> else tsx)
      in if \<not> tsx_terminating tsx
         then tsx\<lparr>tsx_terminating := True, tsx_grp_ref := tsx_grp_ref tsx - 1\<rparr> else tsx)"

text \<open>
  \<open>tsx_set_state\<close>: \<open>src\<close> is the received message when the cause is one; the flags are
  \<open>NO_NOTIFY\<close> and \<open>NO_SCHEDULE_HANDLER\<close>. \<open>terminated_actions\<close> and \<open>destroyed_actions\<close> are the
  branches at its end.
\<close>

definition terminated_actions :: "pjsip_transaction \<Rightarrow> bool \<Rightarrow> pjsip_transaction" where
  "terminated_actions tsx no_schedule =
     (let tsx = (if tsx_pending_transport tsx
                 then (case tsx_pending_tx tsx of
                         None \<Rightarrow> tsx
                       | Some td \<Rightarrow> tsx\<lparr>tsx_attached := (tsx_attached tsx)(td_id td := False),
                                       tsx_pending_tx := None, tsx_grp_ref := tsx_grp_ref tsx - 1\<rparr>)
                      \<lparr>tsx_pending_transport := False\<rparr>
                 else tsx);
          tsx = cancel_timeout tsx
      in if no_schedule then tsx else schedule_timeout tsx (TimeVal 0 0) TIMEOUT_TIMER)"

definition destroyed_actions :: "tsx_env \<Rightarrow> pjsip_transaction \<Rightarrow> pjsip_transaction" where
  "destroyed_actions env tsx = tsx_shutdown env (tsx\<lparr>tsx_unregs := tsx_unregs tsx + 1\<rparr>)"

definition notify_user ::
    "pjsip_transaction \<Rightarrow> pjsip_tsx_state_e \<Rightarrow> pjsip_event_id_e \<Rightarrow> pjsip_rx_data option \<Rightarrow> pjsip_transaction" where
  "notify_user tsx prev evid src =
     (if tsx_has_user tsx then
        (let tsx = (case src of
                      Some r \<Rightarrow> (if evid = PJSIP_EVENT_RX_MSG \<and> rx_type r = PJSIP_RESPONSE_MSG
                                 then emit (OutResponse r) tsx else tsx)
                    | None \<Rightarrow> tsx)
         in emit (OutState prev (tsx_state tsx) evid) tsx)
      else tsx)"

definition tsx_set_state ::
    "tsx_env \<Rightarrow> pjsip_transaction \<Rightarrow> pjsip_tsx_state_e \<Rightarrow> pjsip_event_id_e \<Rightarrow> pjsip_rx_data option \<Rightarrow> bool \<Rightarrow>
     bool \<Rightarrow> pjsip_transaction" where
  "tsx_set_state env tsx0 state evid src no_notify no_schedule =
     (let tsx = tsx0\<lparr>tsx_state := state\<rparr>;
          tsx = (if no_notify then tsx else notify_user tsx (tsx_state tsx0) evid src)
      in if state = PJSIP_TSX_STATE_TERMINATED then terminated_actions tsx no_schedule
         else if state = PJSIP_TSX_STATE_DESTROYED then destroyed_actions env tsx
         else tsx)"

section \<open>Retransmission and sending\<close>

definition retransmit_msec :: "tsx_env \<Rightarrow> pjsip_transaction \<Rightarrow> int" where
  "retransmit_msec env tsx =
     (let msec_time = (if tsx_role tsx = PJSIP_ROLE_UAC \<and> tsx_status_code tsx \<ge> 100 then cfg_t2 env
                       else (2 ^ tsx_retransmit_count tsx * cfg_t1 env) mod 2 ^ 32)
      in if tsx_role tsx = PJSIP_ROLE_UAC
         then (if msec_time > cfg_t2 env \<and> tsx_method tsx \<noteq> PJSIP_INVITE_METHOD then cfg_t2 env else msec_time)
         else (if tsx_status_code tsx < 200 then PJSIP_TSX_1XX_RETRANS_DELAY * 1000
               else if msec_time > cfg_t2 env then cfg_t2 env else msec_time))"

definition tsx_resched_retransmission :: "tsx_env \<Rightarrow> pjsip_transaction \<Rightarrow> pjsip_transaction" where
  "tsx_resched_retransmission env tsx =
     (let msec_time = retransmit_msec env tsx
      in if msec_time \<noteq> 0 then schedule_retransmit tsx (tv_of_msec msec_time) else tsx)"

text \<open>
  \<open>resched_or_flag\<close> is the pattern of the handlers: with a pending transport the retransmission is
  scheduled by the send callback, otherwise it is scheduled now with the given delay.
\<close>

definition resched_or_flag :: "pjsip_transaction \<Rightarrow> pj_time_val \<Rightarrow> pjsip_transaction" where
  "resched_or_flag tsx delay =
     (let tsx = tsx\<lparr>tsx_retransmit_count := 0\<rparr>
      in if tsx_pending_transport tsx then tsx\<lparr>tsx_pending_resched := True\<rparr>
         else schedule_retransmit tsx delay)"

text \<open>
  The send callback may have to send the last message, and sending may invoke the send callback
  before it returns. The recursion is cut by an argument, the function used for the nested
  send; it is tied together at the depth that suffices below.
\<close>

type_synonym tsx_sender = "tsx_env \<Rightarrow> pjsip_transaction \<Rightarrow> pjsip_tx_data option \<Rightarrow> pjsip_transaction \<times> pj_status"

definition flush_pending :: "tsx_sender \<Rightarrow> tsx_env \<Rightarrow> pjsip_transaction \<Rightarrow> pjsip_transaction" where
  "flush_pending resend env tsx =
     (let tsx = (if tsx_pending_send tsx
                 then fst (resend env (tsx\<lparr>tsx_pending_send := False\<rparr>) (tsx_last_tx tsx)) else tsx)
      in if tsx_pending_resched tsx \<and> \<not> tsx_pending_transport tsx
         then (let tsx = tsx\<lparr>tsx_pending_resched := False\<rparr>
               in if \<not> tsx_is_reliable tsx then tsx_resched_retransmission env tsx else tsx)
         else tsx)"

definition on_sent :: "tsx_sender \<Rightarrow> tsx_env \<Rightarrow> pjsip_transaction \<Rightarrow> nat \<Rightarrow> pjsip_transaction" where
  "on_sent resend env tsx cur_transport =
     (let tsx = (if tsx_transport tsx \<noteq> Some cur_transport
                 then (tsx_update_transport env tsx (Some cur_transport))
                        \<lparr>tsx_is_reliable := tp_reliable env cur_transport\<rparr>
                 else tsx);
          tsx = tsx\<lparr>tsx_pending_transport := False, tsx_resolved_server := True\<rparr>
      in if tsx_pending_destroy tsx
         then tsx_set_state env tsx PJSIP_TSX_STATE_DESTROYED PJSIP_EVENT_UNKNOWN None False False
         else flush_pending resend env tsx)"

definition on_send_failed ::
    "tsx_env \<Rightarrow> pjsip_transaction \<Rightarrow> pj_status \<Rightarrow> pjsip_transaction" where
  "on_send_failed env tsx err =
     (let tsx = tsx\<lparr>tsx_transport_err := err, tsx_pending_transport := False, tsx_resolved_server := True\<rparr>;
          sc = (if err = PJ_ERESOLVE \<or> err = PJLIB_UTIL_EDNS_NXDOMAIN then PJSIP_SC_BAD_GATEWAY
                else PJSIP_SC_TSX_TRANSPORT_ERROR);
          live = (tsx_state tsx \<noteq> PJSIP_TSX_STATE_TERMINATED \<and> tsx_state tsx \<noteq> PJSIP_TSX_STATE_DESTROYED)
      in if (tsx_role tsx = PJSIP_ROLE_UAC \<or> sc = PJSIP_SC_BAD_GATEWAY) \<and> live
         then tsx_set_state env (tsx_set_status_code tsx sc) PJSIP_TSX_STATE_TERMINATED
                PJSIP_EVENT_TRANSPORT_ERROR None False False
         else if tsx_pending_destroy tsx
         then tsx_set_state env (tsx_set_status_code tsx sc) PJSIP_TSX_STATE_DESTROYED
                PJSIP_EVENT_TRANSPORT_ERROR None False False
         else if tsx_role tsx = PJSIP_ROLE_UAS \<and> tsx_pending_resched tsx \<and> live
         then tsx_resched_retransmission env (tsx\<lparr>tsx_pending_resched := False\<rparr>)
         else tsx)"

definition on_try_next :: "tsx_env \<Rightarrow> pjsip_transaction \<Rightarrow> pjsip_tx_data \<Rightarrow> pjsip_transaction" where
  "on_try_next env tsx td =
     (let tsx = tsx\<lparr>tsx_retransmit_count := 0\<rparr>;
          tsx = (if tm_id (tsx_timeout_timer tsx) \<noteq> TIMER_INACTIVE
                 then schedule_timeout (cancel_timeout tsx) (tv_of_msec (cfg_timeout env)) TIMEOUT_TIMER
                 else tsx)
      in tsx\<lparr>tsx_attached := (tsx_attached tsx)(td_id td := True), tsx_pending_tx := Some td,
             tsx_grp_ref := tsx_grp_ref tsx + 1\<rparr>)"

definition send_msg_callback ::
    "tsx_sender \<Rightarrow> tsx_env \<Rightarrow> pjsip_tx_data \<Rightarrow> pjsip_transaction \<Rightarrow> send_report \<Rightarrow> pjsip_transaction" where
  "send_msg_callback resend env td tsx report =
     (if \<not> tsx_attached tsx (td_id td) then tsx
      else let tsx = tsx\<lparr>tsx_grp_ref := tsx_grp_ref tsx - 1,
                         tsx_attached := (tsx_attached tsx)(td_id td := False), tsx_pending_tx := None\<rparr>
           in case report of
                Sent cur_transport \<Rightarrow> on_sent resend env tsx cur_transport
              | SendFailed cur_transport err cont \<Rightarrow>
                  (let tsx = (if cur_transport = tsx_transport tsx then tsx_update_transport env tsx None else tsx)
                   in if \<not> cont \<or> tsx_pending_destroy tsx then on_send_failed env tsx err
                      else on_try_next env tsx td))"

text \<open>The endpoint resolves the destination; its reports arrive before or after it returns.\<close>

definition send_via_endpt ::
    "tsx_sender \<Rightarrow> tsx_env \<Rightarrow> pjsip_transaction \<Rightarrow> pjsip_tx_data \<Rightarrow> pj_status \<Rightarrow> pjsip_transaction \<times> pj_status" where
  "send_via_endpt resend env tsx td status =
     (if tsx_role tsx = PJSIP_ROLE_UAC \<and> tsx_resolved_server tsx
      then (tsx_set_state env (tsx_set_status_code tsx PJSIP_SC_TSX_TRANSPORT_ERROR)
              PJSIP_TSX_STATE_TERMINATED PJSIP_EVENT_TRANSPORT_ERROR None False False,
            if status = PJ_SUCCESS then PJ_EUNKNOWN else status)
      else let tsx = add_td_ref 1 td tsx;
               tsx = tsx\<lparr>tsx_attached := (tsx_attached tsx)(td_id td := True), tsx_pending_tx := Some td,
                         tsx_grp_ref := tsx_grp_ref tsx + 1, tsx_pending_transport := True\<rparr>;
               (reports, status) = endpt_send env td;
               tsx = foldl (send_msg_callback resend env td) (emit (OutEndpoint td) tsx) reports;
               status = (if status = PJ_EPENDING then PJ_SUCCESS else status);
               tsx = (if status \<noteq> PJ_SUCCESS
                      then add_td_ref (- 1) td (tsx\<lparr>tsx_pending_transport := False,
                             tsx_grp_ref := tsx_grp_ref tsx - 1,
                             tsx_attached := (tsx_attached tsx)(td_id td := False), tsx_pending_tx := None\<rparr>)
                      else tsx)
           in (tsx, if status = PJ_SUCCESS \<and> tsx_state tsx = PJSIP_TSX_STATE_TERMINATED
                    then tsx_transport_err tsx else status))"

definition send_body :: "tsx_sender \<Rightarrow> tsx_sender" where
  "send_body resend env tsx tdata =
     (case tdata of
        None \<Rightarrow> (tsx, PJ_EINVAL)
      | Some td \<Rightarrow>
          (if tsx_pending_transport tsx then (tsx\<lparr>tsx_pending_send := True\<rparr>, PJ_SUCCESS)
           else if td_is_pending td then (tsx, PJ_SUCCESS)
           else case tsx_transport tsx of
                  Some tp \<Rightarrow>
                    (let tsx = emit (OutTransport tp td) tsx;
                         status = transport_send env tp td
                     in if status = PJ_EPENDING
                        then (tsx\<lparr>tsx_grp_ref := tsx_grp_ref tsx + 1, tsx_pending_transport := True\<rparr>, PJ_SUCCESS)
                        else if status = PJ_SUCCESS then (tsx, PJ_SUCCESS)
                        else send_via_endpt resend env (tsx_update_transport env tsx None) td status)
                | None \<Rightarrow> send_via_endpt resend env tsx td PJ_SUCCESS))"

definition no_resend :: tsx_sender where
  "no_resend env tsx tdata = (tsx, PJ_EUNKNOWN)"

definition tsx_send_msg :: tsx_sender where
  "tsx_send_msg = send_body (send_body no_resend)"

definition tsx_retransmit :: "tsx_env \<Rightarrow> pjsip_transaction \<Rightarrow> bool \<Rightarrow> pjsip_transaction \<times> pj_status" where
  "tsx_retransmit env tsx resched =
     (if resched \<and> tm_delay (tsx_retransmit_timer tsx) \<noteq> None then (tsx, PJ_SUCCESS)
      else case tsx_last_tx tsx of
        None \<Rightarrow> (tsx, PJ_EBUG)
      | Some td \<Rightarrow>
          (if max_retrans_count env \<ge> 0 \<and> int (tsx_retransmit_count tsx) \<ge> max_retrans_count env \<and>
              td_type td = PJSIP_REQUEST_MSG
           then (schedule_timeout (cancel_timeout tsx) (TimeVal 0 0) TIMEOUT_TIMER, PJ_SUCCESS)
           else let tsx = tsx\<lparr>tsx_retransmit_count := tsx_retransmit_count tsx + 1\<rparr>;
                    tsx = (if resched
                           then (if tsx_pending_transport tsx then tsx\<lparr>tsx_pending_resched := True\<rparr>
                                 else tsx_resched_retransmission env tsx)
                           else tsx)
                in tsx_send_msg env tsx (tsx_last_tx tsx)))"

section \<open>The state handlers\<close>

type_synonym tsx_handler = "tsx_env \<Rightarrow> pjsip_transaction \<Rightarrow> pjsip_event \<Rightarrow> pjsip_transaction \<times> pj_status"

text \<open>Saving a message for retransmission, with its reference.\<close>

definition save_last_tx :: "pjsip_transaction \<Rightarrow> pjsip_tx_data \<Rightarrow> pjsip_transaction" where
  "save_last_tx tsx td =
     (if is_tx (tsx_last_tx tsx) td then tsx else add_td_ref 1 td (tsx\<lparr>tsx_last_tx := Some td\<rparr>))"

definition drop_other_last_tx :: "pjsip_transaction \<Rightarrow> pjsip_tx_data \<Rightarrow> pjsip_transaction" where
  "drop_other_last_tx tsx td =
     (case tsx_last_tx tsx of
        Some l \<Rightarrow> (if td_id l \<noteq> td_id td then add_td_ref (- 1) l (tsx\<lparr>tsx_last_tx := None\<rparr>) else tsx)
      | None \<Rightarrow> tsx)"

definition set_state_tx :: "tsx_env \<Rightarrow> pjsip_transaction \<Rightarrow> pjsip_tsx_state_e \<Rightarrow> pjsip_transaction" where
  "set_state_tx env tsx st = tsx_set_state env tsx st PJSIP_EVENT_TX_MSG None False False"

definition set_state_rx ::
    "tsx_env \<Rightarrow> pjsip_transaction \<Rightarrow> pjsip_tsx_state_e \<Rightarrow> pjsip_rx_data \<Rightarrow> pjsip_transaction" where
  "set_state_rx env tsx st r = tsx_set_state env tsx st PJSIP_EVENT_RX_MSG (Some r) False False"

definition set_state_timer :: "tsx_env \<Rightarrow> pjsip_transaction \<Rightarrow> pjsip_tsx_state_e \<Rightarrow> pjsip_transaction" where
  "set_state_timer env tsx st = tsx_set_state env tsx st PJSIP_EVENT_TIMER None False False"

definition start_timeout :: "tsx_env \<Rightarrow> pjsip_transaction \<Rightarrow> int \<Rightarrow> pjsip_transaction" where
  "start_timeout env tsx msec = schedule_timeout (cancel_timeout tsx) (tv_of_msec msec) TIMEOUT_TIMER"

definition null_send :: "tsx_env \<Rightarrow> pjsip_transaction \<Rightarrow> pjsip_tx_data \<Rightarrow> pjsip_transaction \<times> pj_status" where
  "null_send env tsx td =
     (let tsx = save_last_tx (drop_other_last_tx tsx td) td;
          (tsx, status) = tsx_send_msg env tsx (Some td)
      in if status \<noteq> PJ_SUCCESS then (tsx, status)
         else let tsx = start_timeout env tsx (cfg_timeout env);
                  tsx = (if \<not> tsx_is_reliable tsx then resched_or_flag tsx (tv_of_msec (cfg_t1 env)) else tsx)
              in (set_state_tx env tsx PJSIP_TSX_STATE_CALLING, PJ_SUCCESS))"

definition tsx_on_state_null :: tsx_handler where
  "tsx_on_state_null env tsx event =
     (if tsx_role tsx = PJSIP_ROLE_UAS
      then (tsx_set_state env tsx PJSIP_TSX_STATE_TRYING PJSIP_EVENT_RX_MSG
              (case event of RxEvent r \<Rightarrow> Some r | _ \<Rightarrow> None) False False, PJ_SUCCESS)
      else case event of
             TxEvent td \<Rightarrow> null_send env tsx td
           | _ \<Rightarrow> (tsx, PJ_EBUG))"

text \<open>
  Client side, after the status code of a response (or of a timeout) has been stored: one
  definition per branch of \<open>tsx_on_state_proceeding_uac\<close>.
\<close>

definition uac_on_2xx :: "tsx_env \<Rightarrow> pjsip_transaction \<Rightarrow> pjsip_rx_data \<Rightarrow> pjsip_transaction \<times> pj_status" where
  "uac_on_2xx env tsx r =
     (let tsx = cancel_timeout tsx
      in if tsx_method tsx = PJSIP_INVITE_METHOD
         then (set_state_rx env tsx PJSIP_TSX_STATE_TERMINATED r, PJ_SUCCESS)
         else let tsx = schedule_timeout tsx
                          (if \<not> tsx_is_reliable tsx then tv_of_msec (cfg_t4 env) else TimeVal 0 0) TIMEOUT_TIMER;
                  tsx = cancel_retransmit tsx
              in (set_state_rx env tsx PJSIP_TSX_STATE_COMPLETED r, PJ_SUCCESS))"

definition uac_complete ::
    "tsx_env \<Rightarrow> pjsip_transaction \<Rightarrow> pjsip_rx_data \<Rightarrow> pjsip_tx_data option \<Rightarrow> pjsip_transaction \<times> pj_status" where
  "uac_complete env tsx r ack =
     (let tsx = set_state_rx env tsx PJSIP_TSX_STATE_COMPLETED r;
          tsx = (case ack of
                   Some a \<Rightarrow> (if is_tx (tsx_last_tx tsx) a then tsx
                              else (case tsx_last_tx tsx of Some l \<Rightarrow> add_td_ref (- 1) l tsx | None \<Rightarrow> tsx)
                                     \<lparr>tsx_last_tx := Some a\<rparr>)
                 | None \<Rightarrow> tsx);
          timeout = (if \<not> tsx_is_reliable tsx
                     then tv_of_msec (if tsx_method tsx = PJSIP_INVITE_METHOD then cfg_td env else cfg_t4 env)
                     else TimeVal 0 0)
      in (schedule_timeout (cancel_timeout tsx) timeout TIMEOUT_TIMER, PJ_SUCCESS))"

definition uac_on_failure :: "tsx_env \<Rightarrow> pjsip_transaction \<Rightarrow> pjsip_rx_data \<Rightarrow> pjsip_transaction \<times> pj_status" where
  "uac_on_failure env tsx r =
     (let tsx = cancel_timeout (cancel_retransmit tsx)
      in if tsx_method tsx = PJSIP_INVITE_METHOD then
           (case create_ack env (tsx_last_tx tsx) r of
              Inl status \<Rightarrow> (tsx, status)
            | Inr ack \<Rightarrow>
                (let (tsx, status) = tsx_send_msg env tsx (Some ack)
                 in if status \<noteq> PJ_SUCCESS then (tsx, status) else uac_complete env tsx r (Some ack)))
         else if tsx_method tsx = PJSIP_BYE_METHOD \<and>
                 (tsx_status_code tsx = PJSIP_SC_TSX_TIMEOUT \<or>
                  tsx_status_code tsx = PJSIP_SC_CALL_TSX_DOES_NOT_EXIST)
         then (set_state_rx env tsx PJSIP_TSX_STATE_TERMINATED r, PJ_SUCCESS)
         else uac_complete env tsx r None)"

definition uac_on_response :: "tsx_env \<Rightarrow> pjsip_transaction \<Rightarrow> pjsip_rx_data \<Rightarrow> pjsip_transaction \<times> pj_status" where
  "uac_on_response env tsx r =
     (if rx_type r \<noteq> PJSIP_RESPONSE_MSG then (tsx, PJSIP_ENOTRESPONSEMSG)
      else let tsx = tsx_set_status_code tsx (rx_code r)
           in if status_in_class (tsx_status_code tsx) 100
              then (set_state_rx env tsx PJSIP_TSX_STATE_PROCEEDING r, PJ_SUCCESS)
              else if status_in_class (tsx_status_code tsx) 200 then uac_on_2xx env tsx r
              else if tsx_status_code tsx \<ge> 300 \<and> tsx_status_code tsx \<le> 699 then uac_on_failure env tsx r
              else (tsx, PJ_EBUG))"

definition tsx_on_state_proceeding_uac :: tsx_handler where
  "tsx_on_state_proceeding_uac env tsx event =
     (case event of
        TxEvent td \<Rightarrow> (tsx, PJ_EINVALIDOP)
      | RxEvent r \<Rightarrow> uac_on_response env tsx r
      | TimerEvent RETRANSMIT_ENTRY \<Rightarrow> tsx_retransmit env tsx True
      | TimerEvent TIMEOUT_ENTRY \<Rightarrow>
          (set_state_timer env (tsx_set_status_code tsx PJSIP_SC_TSX_TIMEOUT) PJSIP_TSX_STATE_TERMINATED,
           PJ_SUCCESS))"

definition calling_timers :: "tsx_env \<Rightarrow> pjsip_transaction \<Rightarrow> pjsip_rx_data \<Rightarrow> pjsip_transaction" where
  "calling_timers env tsx r =
     (let tsx = cancel_retransmit tsx;
          tsx = (if rx_code r \<ge> 200
                 then (if tm_id (tsx_timeout_timer tsx) \<noteq> TIMER_INACTIVE then cancel_timeout tsx else tsx)
                 else if tsx_method tsx = PJSIP_INVITE_METHOD then cancel_timeout tsx
                 else if \<not> tsx_is_reliable tsx then schedule_retransmit tsx (tv_of_msec (cfg_t2 env))
                 else tsx)
      in tsx\<lparr>tsx_pending_resched := False\<rparr>)"

definition tsx_on_state_calling :: tsx_handler where
  "tsx_on_state_calling env tsx event =
     (case event of
        TimerEvent RETRANSMIT_ENTRY \<Rightarrow> tsx_retransmit env tsx True
      | TimerEvent TIMEOUT_ENTRY \<Rightarrow>
          (let tsx = (cancel_retransmit tsx)\<lparr>tsx_pending_resched := False\<rparr>
           in (set_state_timer env (tsx_set_status_code tsx PJSIP_SC_TSX_TIMEOUT) PJSIP_TSX_STATE_TERMINATED,
               PJ_SUCCESS))
      | RxEvent r \<Rightarrow>
          (if rx_type r \<noteq> PJSIP_RESPONSE_MSG then (tsx, PJSIP_ENOTRESPONSEMSG)
           else (fst (tsx_on_state_proceeding_uac env (calling_timers env tsx r) event), PJ_SUCCESS))
      | TxEvent td \<Rightarrow> (tsx, PJ_EBUG))"

text \<open>Server side: sending a response, by class.\<close>

definition uas_sent_1xx :: "tsx_env \<Rightarrow> pjsip_transaction \<Rightarrow> pjsip_tx_data \<Rightarrow> pjsip_transaction" where
  "uas_sent_1xx env tsx td =
     (let tsx = set_state_tx env (save_last_tx tsx td) PJSIP_TSX_STATE_PROCEEDING
      in if tsx_method tsx = PJSIP_INVITE_METHOD \<and> tsx_status_code tsx > 100
         then resched_or_flag (cancel_retransmit tsx) (TimeVal PJSIP_TSX_1XX_RETRANS_DELAY 0)
         else tsx)"

definition uas_final_timeout :: "tsx_env \<Rightarrow> pjsip_transaction \<Rightarrow> pj_time_val" where
  "uas_final_timeout env tsx =
     (if tsx_method tsx = PJSIP_INVITE_METHOD \<or> \<not> tsx_is_reliable tsx then tv_of_msec (cfg_timeout env)
      else TimeVal 0 0)"

definition uas_sent_2xx :: "tsx_env \<Rightarrow> pjsip_transaction \<Rightarrow> pjsip_tx_data \<Rightarrow> pjsip_transaction" where
  "uas_sent_2xx env tsx td =
     (let tsx = cancel_retransmit tsx
      in if tsx_method tsx = PJSIP_INVITE_METHOD \<and> \<not> tsx_handle_200resp tsx
         then set_state_tx env tsx PJSIP_TSX_STATE_TERMINATED
         else let tsx = (if tsx_method tsx = PJSIP_INVITE_METHOD
                         then resched_or_flag tsx (tv_of_msec (cfg_t1 env)) else tsx);
                  tsx = save_last_tx tsx td;
                  tsx = schedule_timeout (cancel_timeout tsx) (uas_final_timeout env tsx) TIMEOUT_TIMER
              in set_state_tx env tsx PJSIP_TSX_STATE_COMPLETED)"

definition uas_sent_failure :: "tsx_env \<Rightarrow> pjsip_transaction \<Rightarrow> pjsip_tx_data \<Rightarrow> pjsip_transaction" where
  "uas_sent_failure env tsx td =
     (let tsx = save_last_tx (cancel_retransmit tsx) td;
          tsx = schedule_timeout (cancel_timeout tsx) (uas_final_timeout env tsx) TIMEOUT_TIMER;
          tsx = (if \<not> tsx_is_reliable tsx \<and> td_cseq td = Some PJSIP_INVITE_METHOD
                 then resched_or_flag tsx (tv_of_msec (cfg_t1 env)) else tsx)
      in set_state_tx env tsx PJSIP_TSX_STATE_COMPLETED)"

definition uas_send :: "tsx_env \<Rightarrow> pjsip_transaction \<Rightarrow> pjsip_tx_data \<Rightarrow> pjsip_transaction \<times> pj_status" where
  "uas_send env tsx td =
     (if td_type td \<noteq> PJSIP_RESPONSE_MSG then (tsx, PJSIP_ENOTRESPONSEMSG)
      else let tsx = tsx_set_status_code tsx (td_code td);
               tsx = drop_other_last_tx tsx td;
               (tsx, status) = tsx_send_msg env tsx (Some td)
           in if status \<noteq> PJ_SUCCESS then (tsx, status)
              else if status_in_class (tsx_status_code tsx) 100 then (uas_sent_1xx env tsx td, PJ_SUCCESS)
              else if status_in_class (tsx_status_code tsx) 200 then (uas_sent_2xx env tsx td, PJ_SUCCESS)
              else if tsx_status_code tsx \<ge> 300 then (uas_sent_failure env tsx td, PJ_SUCCESS)
              else (tsx, PJ_SUCCESS))"

definition tsx_on_state_proceeding_uas :: tsx_handler where
  "tsx_on_state_proceeding_uas env tsx event =
     (case event of
        RxEvent r \<Rightarrow>
          (if tsx_last_tx tsx = None then (tsx, PJ_EBUG)
           else if tsx_pending_transport tsx then (tsx\<lparr>tsx_pending_send := True\<rparr>, PJ_SUCCESS)
           else tsx_send_msg env tsx (tsx_last_tx tsx))
      | TxEvent td \<Rightarrow> uas_send env tsx td
      | TimerEvent RETRANSMIT_ENTRY \<Rightarrow> tsx_retransmit env tsx True
      | TimerEvent TIMEOUT_ENTRY \<Rightarrow>
          (set_state_timer env (tsx_set_status_code tsx PJSIP_SC_TSX_TIMEOUT) PJSIP_TSX_STATE_TERMINATED,
           PJ_EBUG))"

definition tsx_on_state_trying :: tsx_handler where
  "tsx_on_state_trying env tsx event =
     (case event of
        TxEvent td \<Rightarrow>
          (let (tsx, status) = tsx_on_state_proceeding_uas env tsx event
           in if status = PJ_SUCCESS \<and> tsx_state tsx = PJSIP_TSX_STATE_TRYING
              then (set_state_tx env tsx PJSIP_TSX_STATE_PROCEEDING, status)
              else (tsx, status))
      | _ \<Rightarrow> (tsx, PJ_SUCCESS))"

definition uas_on_ack :: "tsx_env \<Rightarrow> pjsip_transaction \<Rightarrow> pjsip_rx_data \<Rightarrow> pjsip_transaction \<times> pj_status" where
  "uas_on_ack env tsx r =
     (if tsx_method tsx \<noteq> PJSIP_INVITE_METHOD then (tsx, PJSIP_EINVALIDMETHOD)
      else let tsx = (cancel_retransmit tsx)\<lparr>tsx_pending_resched := False\<rparr>;
               tsx = schedule_timeout (cancel_timeout tsx)
                       (if tsx_is_reliable tsx then TimeVal 0 0 else tv_of_msec (cfg_t4 env)) TIMEOUT_TIMER
           in (set_state_rx env tsx PJSIP_TSX_STATE_CONFIRMED r, PJ_SUCCESS))"

definition tsx_on_state_completed_uas :: tsx_handler where
  "tsx_on_state_completed_uas env tsx event =
     (case event of
        RxEvent r \<Rightarrow>
          (if rx_type r \<noteq> PJSIP_REQUEST_MSG then (tsx, PJSIP_ENOTREQUESTMSG)
           else if rx_method r \<noteq> PJSIP_ACK_METHOD then tsx_retransmit env tsx False
           else uas_on_ack env tsx r)
      | TimerEvent RETRANSMIT_ENTRY \<Rightarrow> tsx_retransmit env tsx True
      | TimerEvent TIMEOUT_ENTRY \<Rightarrow>
          (set_state_timer env
             (if tsx_method tsx = PJSIP_INVITE_METHOD then tsx_set_status_code tsx PJSIP_SC_TSX_TIMEOUT else tsx)
             PJSIP_TSX_STATE_TERMINATED, PJ_SUCCESS)
      | TxEvent td \<Rightarrow> (if is_tx (tsx_last_tx tsx) td then (tsx, PJ_SUCCESS) else (tsx, PJ_EINVALIDOP)))"

definition tsx_on_state_completed_uac :: tsx_handler where
  "tsx_on_state_completed_uac env tsx event =
     (case event of
        TimerEvent RETRANSMIT_ENTRY \<Rightarrow> (tsx, PJ_SUCCESS)
      | TimerEvent TIMEOUT_ENTRY \<Rightarrow> (set_state_timer env tsx PJSIP_TSX_STATE_TERMINATED, PJ_SUCCESS)
      | RxEvent r \<Rightarrow>
          (if tsx_method tsx = PJSIP_INVITE_METHOD \<and> rx_type r = PJSIP_RESPONSE_MSG \<and> rx_code r \<ge> 200
           then tsx_retransmit env tsx False
           else (tsx, PJ_SUCCESS))
      | TxEvent td \<Rightarrow> (tsx, PJ_EINVALIDOP))"

definition tsx_on_state_confirmed :: tsx_handler where
  "tsx_on_state_confirmed env tsx event =
     (case event of
        RxEvent r \<Rightarrow> (tsx, if rx_type r \<noteq> PJSIP_REQUEST_MSG then PJSIP_ENOTREQUESTMSG else PJ_SUCCESS)
      | TimerEvent RETRANSMIT_ENTRY \<Rightarrow> (tsx, PJ_SUCCESS)
      | TimerEvent TIMEOUT_ENTRY \<Rightarrow> (set_state_timer env tsx PJSIP_TSX_STATE_TERMINATED, PJ_SUCCESS)
      | TxEvent td \<Rightarrow> (tsx, PJ_EBUG))"

definition tsx_on_state_terminated :: tsx_handler where
  "tsx_on_state_terminated env tsx event =
     (case event of
        TimerEvent e \<Rightarrow> (set_state_timer env tsx PJSIP_TSX_STATE_DESTROYED, PJ_SUCCESS)
      | _ \<Rightarrow> (tsx, PJ_EIGNORED))"

definition tsx_on_state_destroyed :: tsx_handler where
  "tsx_on_state_destroyed env tsx event = (tsx, PJ_EIGNORED)"

text \<open>The handler tables; an empty slot is a null function pointer.\<close>

fun tsx_state_handler :: "pjsip_role_e \<Rightarrow> pjsip_tsx_state_e \<Rightarrow> tsx_handler option" where
  "tsx_state_handler _ PJSIP_TSX_STATE_NULL = Some tsx_on_state_null"
| "tsx_state_handler PJSIP_ROLE_UAC PJSIP_TSX_STATE_CALLING = Some tsx_on_state_calling"
| "tsx_state_handler PJSIP_ROLE_UAS PJSIP_TSX_STATE_CALLING = None"
| "tsx_state_handler PJSIP_ROLE_UAC PJSIP_TSX_STATE_TRYING = None"
| "tsx_state_handler PJSIP_ROLE_UAS PJSIP_TSX_STATE_TRYING = Some tsx_on_state_trying"
| "tsx_state_handler PJSIP_ROLE_UAC PJSIP_TSX_STATE_PROCEEDING = Some tsx_on_state_proceeding_uac"
| "tsx_state_handler PJSIP_ROLE_UAS PJSIP_TSX_STATE_PROCEEDING = Some tsx_on_state_proceeding_uas"
| "tsx_state_handler PJSIP_ROLE_UAC PJSIP_TSX_STATE_COMPLETED = Some tsx_on_state_completed_uac"
| "tsx_state_handler PJSIP_ROLE_UAS PJSIP_TSX_STATE_COMPLETED = Some tsx_on_state_completed_uas"
| "tsx_state_handler _ PJSIP_TSX_STATE_CONFIRMED = Some tsx_on_state_confirmed"
| "tsx_state_handler _ PJSIP_TSX_STATE_TERMINATED = Some tsx_on_state_terminated"
| "tsx_state_handler _ PJSIP_TSX_STATE_DESTROYED = Some tsx_on_state_destroyed"

section \<open>Operations called from outside\<close>

text \<open>Calling the current state's handler; \<open>None\<close> is a call through a null pointer.\<close>

definition tsx_dispatch :: "tsx_env \<Rightarrow> pjsip_transaction \<Rightarrow> pjsip_event \<Rightarrow> (pjsip_transaction \<times> pj_status) option" where
  "tsx_dispatch env tsx event =
     map_option (\<lambda>h. h env tsx event) (tsx_state_handler (tsx_role tsx) (tsx_state tsx))"

definition pjsip_tsx_send_msg ::
    "tsx_env \<Rightarrow> pjsip_transaction \<Rightarrow> pjsip_tx_data option \<Rightarrow> (pjsip_transaction \<times> pj_status) option" where
  "pjsip_tsx_send_msg env tsx tdata =
     (case (if tdata = None then tsx_last_tx tsx else tdata) of
        None \<Rightarrow> Some (tsx, PJ_EINVALIDOP)
      | Some td \<Rightarrow>
          map_option (\<lambda>(tsx, status). (if status = PJ_SUCCESS then add_td_ref (- 1) td tsx else tsx, status))
            (tsx_dispatch env tsx (TxEvent td)))"

definition pjsip_tsx_recv_msg :: "tsx_env \<Rightarrow> pjsip_transaction \<Rightarrow> pjsip_rx_data \<Rightarrow> pjsip_transaction option" where
  "pjsip_tsx_recv_msg env tsx rdata = map_option fst (tsx_dispatch env tsx (RxEvent rdata))"

definition pjsip_tsx_terminate :: "tsx_env \<Rightarrow> pjsip_transaction \<Rightarrow> int \<Rightarrow> pjsip_transaction \<times> pj_status" where
  "pjsip_tsx_terminate env tsx code =
     (if \<not> code \<ge> 200 then (tsx, PJ_EINVAL)
      else (if tsx_state tsx < PJSIP_TSX_STATE_TERMINATED
            then tsx_set_state env (tsx_set_status_code tsx code) PJSIP_TSX_STATE_TERMINATED
                   PJSIP_EVENT_USER None False False
            else tsx, PJ_SUCCESS))"

definition pjsip_tsx_terminate_async :: "pjsip_transaction \<Rightarrow> int \<Rightarrow> pjsip_transaction \<times> pj_status" where
  "pjsip_tsx_terminate_async tsx code =
     (if \<not> code \<ge> 200 then (tsx, PJ_EINVAL)
      else (schedule_timeout (cancel_timeout tsx) (TimeVal 0 100) TERMINATE_TIMER, PJ_SUCCESS))"

definition pjsip_tsx_stop_retransmit :: "pjsip_transaction \<Rightarrow> pjsip_transaction \<times> pj_status" where
  "pjsip_tsx_stop_retransmit tsx =
     (if \<not> (tsx_role tsx = PJSIP_ROLE_UAC \<and> tsx_method tsx = PJSIP_INVITE_METHOD) then (tsx, PJ_EINVALIDOP)
      else (cancel_retransmit tsx, PJ_SUCCESS))"

definition pjsip_tsx_set_timeout :: "pjsip_transaction \<Rightarrow> int \<Rightarrow> pjsip_transaction \<times> pj_status" where
  "pjsip_tsx_set_timeout tsx millisec =
     (if \<not> (tsx_role tsx = PJSIP_ROLE_UAC \<and> tsx_method tsx = PJSIP_INVITE_METHOD) then (tsx, PJ_EINVALIDOP)
      else if tsx_status_code tsx \<ge> 200 \<and> tm_id (tsx_timeout_timer tsx) \<noteq> TIMER_INACTIVE then (tsx, PJ_EEXISTS)
      else (schedule_timeout (cancel_timeout tsx) (pj_time_val_normalize (TimeVal 0 millisec)) TIMEOUT_TIMER,
            PJ_SUCCESS))"

text \<open>
  \<open>pjsip_tsx_retransmit_no_state\<close>: without a message given and none sent before, the code goes through the null
  pointer; the model ends with the \<open>PJ_EINVAL\<close> of \<open>tsx_send_msg\<close> there.
\<close>

definition pjsip_tsx_retransmit_no_state ::
    "tsx_env \<Rightarrow> pjsip_transaction \<Rightarrow> pjsip_tx_data option \<Rightarrow> pjsip_transaction \<times> pj_status" where
  "pjsip_tsx_retransmit_no_state env tsx tdata =
     (let (tsx, tdata) =
            (if tdata = None
             then (case tsx_last_tx tsx of Some l \<Rightarrow> (add_td_ref 1 l tsx, Some l) | None \<Rightarrow> (tsx, None))
             else (tsx, tdata));
          (tsx, status) = tsx_send_msg env tsx tdata
      in (case tdata of
            Some td \<Rightarrow> (if status = PJ_SUCCESS then add_td_ref (- 1) td tsx else tsx, status)
          | None \<Rightarrow> (tsx, status)))"

text \<open>The result of an asynchronous transport send: the bytes sent, or the error.\<close>

datatype sent_result = SentBytes nat | SentError pj_status

definition transport_callback :: "tsx_env \<Rightarrow> pjsip_transaction \<Rightarrow> sent_result \<Rightarrow> pjsip_transaction" where
  "transport_callback env tsx sent =
     (let positive = (case sent of SentBytes n \<Rightarrow> n > 0 | SentError e \<Rightarrow> False);
          tsx = tsx\<lparr>tsx_pending_transport := False\<rparr>
      in if (positive \<or> tsx_role tsx = PJSIP_ROLE_UAS) \<and> tsx_pending_destroy tsx
         then tsx_set_state env tsx PJSIP_TSX_STATE_DESTROYED PJSIP_EVENT_UNKNOWN None False False
         else let tsx = (if positive \<or> tsx_role tsx = PJSIP_ROLE_UAS
                         then flush_pending tsx_send_msg env tsx else tsx);
                  tsx = (case sent of
                           SentError e \<Rightarrow>
                             (if tsx_role tsx = PJSIP_ROLE_UAC
                              then (let tsx = tsx\<lparr>tsx_transport_err := e\<rparr>
                                    in if tsx_state tsx < PJSIP_TSX_STATE_COMPLETED
                                       then schedule_timeout (cancel_timeout tsx) (TimeVal 0 0) TRANSPORT_ERR_TIMER
                                       else tsx)
                              else tsx)
                         | SentBytes n \<Rightarrow> tsx)
              in tsx\<lparr>tsx_grp_ref := tsx_grp_ref tsx - 1\<rparr>)"

text \<open>
  The timer callback. The entry has left the heap when it is called (\<open>expire\<close>); its id is read
  before it is cleared.
\<close>

definition entry_of :: "tsx_entry \<Rightarrow> pjsip_transaction \<Rightarrow> tsx_timer" where
  "entry_of e tsx = (case e of RETRANSMIT_ENTRY \<Rightarrow> tsx_retransmit_timer tsx | TIMEOUT_ENTRY \<Rightarrow> tsx_timeout_timer tsx)"

definition update_entry :: "tsx_entry \<Rightarrow> tsx_timer \<Rightarrow> pjsip_transaction \<Rightarrow> pjsip_transaction" where
  "update_entry e tm tsx =
     (case e of RETRANSMIT_ENTRY \<Rightarrow> tsx\<lparr>tsx_retransmit_timer := tm\<rparr> | TIMEOUT_ENTRY \<Rightarrow> tsx\<lparr>tsx_timeout_timer := tm\<rparr>)"

definition expire :: "tsx_entry \<Rightarrow> pjsip_transaction \<Rightarrow> pjsip_transaction" where
  "expire e tsx = update_entry e ((entry_of e tsx)\<lparr>tm_delay := None\<rparr>) tsx"

definition clear_entry_id :: "tsx_entry \<Rightarrow> pjsip_transaction \<Rightarrow> pjsip_transaction" where
  "clear_entry_id e tsx = update_entry e ((entry_of e tsx)\<lparr>tm_id := TIMER_INACTIVE\<rparr>) tsx"

definition on_transport_gone :: "tsx_env \<Rightarrow> pjsip_transaction \<Rightarrow> bool \<Rightarrow> pjsip_transaction" where
  "on_transport_gone env tsx tp_disc =
     (if \<not> tsx_state tsx < PJSIP_TSX_STATE_TERMINATED then tsx
      else let prev_state = tsx_state tsx;
               tsx = tsx_update_transport env tsx None
           in if tp_disc \<and> tsx_method tsx = PJSIP_INVITE_METHOD \<and> tsx_role tsx = PJSIP_ROLE_UAS \<and>
                 tsx_status_code tsx < 200 \<and> \<not> tsx_pending_transport tsx \<and> \<not> tsx_pending_destroy tsx
              then tsx\<lparr>tsx_pending_transport := False, tsx_pending_resched := False, tsx_pending_send := False,
                       tsx_pending_destroy := False, tsx_resolved_server := False\<rparr>
              else let tsx = (if tsx_status_code tsx < 200
                              then tsx_set_status_code tsx PJSIP_SC_TSX_TRANSPORT_ERROR else tsx);
                       tsx = tsx_set_state env tsx PJSIP_TSX_STATE_TERMINATED PJSIP_EVENT_TRANSPORT_ERROR None
                               True True;
                       tsx = notify_user tsx prev_state PJSIP_EVENT_TRANSPORT_ERROR None
                   in schedule_timeout tsx (TimeVal 0 0) TIMEOUT_TIMER)"

definition tsx_timer_callback :: "tsx_env \<Rightarrow> pjsip_transaction \<Rightarrow> tsx_entry \<Rightarrow> pjsip_transaction option" where
  "tsx_timer_callback env tsx e =
     (if tsx_state tsx \<ge> PJSIP_TSX_STATE_DESTROYED then Some tsx
      else case tm_id (entry_of e tsx) of
             TERMINATE_TIMER \<Rightarrow>
               Some (if tsx_state tsx < PJSIP_TSX_STATE_TERMINATED
                     then fst (pjsip_tsx_terminate env tsx (tsx_status_code tsx)) else tsx)
           | TRANSPORT_ERR_TIMER \<Rightarrow> Some (on_transport_gone env (clear_entry_id e tsx) False)
           | TRANSPORT_DISC_TIMER \<Rightarrow> Some (on_transport_gone env (clear_entry_id e tsx) True)
           | _ \<Rightarrow> map_option fst (tsx_dispatch env (clear_entry_id e tsx) (TimerEvent e)))"

section \<open>Creation\<close>

definition tsx_create :: "bool \<Rightarrow> pjsip_role_e \<Rightarrow> pjsip_method_e \<Rightarrow> pjsip_transaction" where
  "tsx_create has_user role method =
     \<lparr>tsx_role = role, tsx_method = method, tsx_state = PJSIP_TSX_STATE_NULL, tsx_status_code = 0,
      tsx_handle_200resp = True, tsx_has_user = has_user, tsx_terminating = False, tsx_unregs = 0,
      tsx_grp_ref = 1, tsx_transport = None, tsx_is_reliable = False, tsx_pending_transport = False,
      tsx_pending_resched = False, tsx_pending_send = False, tsx_pending_destroy = False,
      tsx_resolved_server = False, tsx_transport_err = PJ_SUCCESS, tsx_pending_tx = None, tsx_last_tx = None,
      tsx_attached = (\<lambda>_. False), tsx_td_refs = (\<lambda>_. 0), tsx_retransmit_count = 0,
      tsx_retransmit_timer = \<lparr>tm_id = TIMER_INACTIVE, tm_delay = None\<rparr>,
      tsx_timeout_timer = \<lparr>tm_id = TIMER_INACTIVE, tm_delay = None\<rparr>, tsx_log = []\<rparr>"

text \<open>
  \<open>reg\<close> is the status of the registration in the transaction table and \<open>keys\<close> that of the
  computation of the two keys of a server transaction.
\<close>

definition pjsip_tsx_create_uac2 ::
    "tsx_env \<Rightarrow> bool \<Rightarrow> pjsip_tx_data \<Rightarrow> pj_status \<Rightarrow> pj_status + pjsip_transaction" where
  "pjsip_tsx_create_uac2 env has_user td reg =
     (if td_type td \<noteq> PJSIP_REQUEST_MSG then Inl PJSIP_ENOTREQUESTMSG
      else if td_method td = PJSIP_ACK_METHOD then Inl PJ_EINVALIDOP
      else if td_cseq td = None then Inl PJSIP_EMISSINGHDR
      else let tsx = tsx_create has_user PJSIP_ROLE_UAC (td_method td);
               tsx = add_td_ref 1 td (tsx\<lparr>tsx_last_tx := Some td\<rparr>)
           in case request_dest env td of
                Inl status \<Rightarrow> Inl status
              | Inr reliable \<Rightarrow>
                  (if reg \<noteq> PJ_SUCCESS then Inl reg
                   else Inr (tsx\<lparr>tsx_is_reliable := reliable\<rparr>)))"

definition pjsip_tsx_create_uas2 ::
    "tsx_env \<Rightarrow> bool \<Rightarrow> pjsip_rx_data \<Rightarrow> pj_status \<Rightarrow> pj_status \<Rightarrow> pj_status + pjsip_transaction" where
  "pjsip_tsx_create_uas2 env has_user r keys reg =
     (if rx_type r \<noteq> PJSIP_REQUEST_MSG then Inl PJSIP_ENOTREQUESTMSG
      else if rx_method r = PJSIP_ACK_METHOD then Inl PJ_EINVALIDOP
      else if rx_cseq r = None then Inl PJSIP_EMISSINGHDR
      else if \<not> rx_has_via r then Inl PJSIP_EMISSINGHDR
      else if rx_cseq r \<noteq> Some (rx_method r) then Inl PJSIP_EINVALIDHDR
      else if keys \<noteq> PJ_SUCCESS then Inl keys
      else let tsx = tsx_create has_user PJSIP_ROLE_UAS (rx_method r)
           in case response_addr env r of
                Inl status \<Rightarrow> Inl status
              | Inr (tp, reliable) \<Rightarrow>
                  (let tsx = (case tp of
                                Some t \<Rightarrow> (tsx_update_transport env tsx tp)\<lparr>tsx_is_reliable := tp_reliable env t\<rparr>
                              | None \<Rightarrow> tsx\<lparr>tsx_is_reliable := reliable\<rparr>)
                   in if reg \<noteq> PJ_SUCCESS then Inl reg else Inr tsx))"

definition pjsip_tsx_set_timers :: "int \<Rightarrow> int \<Rightarrow> int \<Rightarrow> int \<Rightarrow> tsx_env \<Rightarrow> tsx_env" where
  "pjsip_tsx_set_timers t1 t2 t4 td env =
     (let env = (if t1 \<noteq> 0 then env\<lparr>cfg_t1 := t1\<rparr> else env);
          env = (if t2 \<noteq> 0 then env\<lparr>cfg_t2 := t2\<rparr> else env);
          env = (if t4 \<noteq> 0 then env\<lparr>cfg_t4 := t4\<rparr> else env)
      in if td \<noteq> 0 then env\<lparr>cfg_td := td, cfg_timeout := td\<rparr> else env)"

definition pjsip_tsx_set_max_retransmit_count :: "int \<Rightarrow> tsx_env \<Rightarrow> tsx_env" where
  "pjsip_tsx_set_max_retransmit_count n env = env\<lparr>max_retrans_count := n\<rparr>"

end
