(* ===== verification/Sip_Tsx_Inv.thy ===== *)
theory Sip_Tsx_Inv
  imports Sip_Tsx
begin

text \<open>
  Invariants of SIP transactions: the operations of the transaction as one function, the reachable
  transactions, the invariant that every operation keeps, and what follows from it: a state handler
  always exists, the states change only along the edges of the transaction state machine, and a
  transaction that has a final answer is destroyed by its own timers.
\<close>

section \<open>The invariant\<close>

text \<open>States possible for the role and method of a transaction.\<close>

fun state_for :: "pjsip_role_e \<Rightarrow> pjsip_method_e \<Rightarrow> pjsip_tsx_state_e \<Rightarrow> bool" where
  "state_for PJSIP_ROLE_UAC method state \<longleftrightarrow>
     state \<noteq> PJSIP_TSX_STATE_TRYING \<and> state \<noteq> PJSIP_TSX_STATE_CONFIRMED"
| "state_for PJSIP_ROLE_UAS method state \<longleftrightarrow>
     state \<noteq> PJSIP_TSX_STATE_CALLING \<and> (state = PJSIP_TSX_STATE_CONFIRMED \<longrightarrow> method = PJSIP_INVITE_METHOD)"

definition tsx_typed :: "pjsip_transaction \<Rightarrow> bool" where
  "tsx_typed tsx \<longleftrightarrow> state_for (tsx_role tsx) (tsx_method tsx) (tsx_state tsx)"

text \<open>A transaction that only waits to be removed has its timeout timer in the heap.\<close>

fun guard_for :: "pjsip_tsx_state_e \<Rightarrow> int \<Rightarrow> tsx_timer \<Rightarrow> bool" where
  "guard_for PJSIP_TSX_STATE_TERMINATED code tm \<longleftrightarrow> tm_delay tm \<noteq> None \<and> tm_id tm = TIMEOUT_TIMER"
| "guard_for state code tm \<longleftrightarrow>
     state < PJSIP_TSX_STATE_COMPLETED \<or> state = PJSIP_TSX_STATE_DESTROYED \<or>
     tm_delay tm \<noteq> None \<and> (tm_id tm = TIMEOUT_TIMER \<or> tm_id tm = TERMINATE_TIMER \<and> code \<ge> 200)"

definition timer_guard :: "pjsip_transaction \<Rightarrow> bool" where
  "timer_guard tsx \<longleftrightarrow> guard_for (tsx_state tsx) (tsx_status_code tsx) (tsx_timeout_timer tsx)"

definition gave_to_transport :: "pjsip_transaction \<Rightarrow> bool" where
  "gave_to_transport tsx \<longleftrightarrow> (\<exists>x \<in> set (tsx_log tsx). case x of OutTransport _ _ \<Rightarrow> True | _ \<Rightarrow> False)"

text \<open>The transport flags agree with the state.\<close>

definition flags_ok :: "pjsip_transaction \<Rightarrow> bool" where
  "flags_ok tsx \<longleftrightarrow>
     (tsx_pending_destroy tsx \<longrightarrow> tsx_state tsx = PJSIP_TSX_STATE_DESTROYED) \<and>
     (tsx_state tsx = PJSIP_TSX_STATE_DESTROYED \<longrightarrow> \<not> tsx_pending_send tsx \<and> \<not> tsx_pending_resched tsx) \<and>
     (tsx_unregs tsx = 0 \<longleftrightarrow> tsx_state tsx \<noteq> PJSIP_TSX_STATE_DESTROYED) \<and>
     (tsx_role tsx = PJSIP_ROLE_UAC \<longrightarrow>
        (tsx_transport tsx \<noteq> None \<or> gave_to_transport tsx \<longrightarrow> tsx_resolved_server tsx) \<and>
        (tsx_pending_send tsx \<and> \<not> tsx_pending_transport tsx \<and> tsx_state tsx < PJSIP_TSX_STATE_TERMINATED \<longrightarrow>
           tsx_resolved_server tsx))"

definition tsx_inv :: "pjsip_transaction \<Rightarrow> bool" where
  "tsx_inv tsx \<longleftrightarrow> tsx_typed tsx \<and> timer_guard tsx \<and> flags_ok tsx"

text \<open>What a send may do to the transaction: nothing to its state, or terminate it.\<close>

definition send_frame :: "pjsip_transaction \<Rightarrow> pjsip_transaction \<Rightarrow> bool" where
  "send_frame a b \<longleftrightarrow>
     tsx_role b = tsx_role a \<and> tsx_method b = tsx_method a \<and> tsx_handle_200resp b = tsx_handle_200resp a \<and>
     (tsx_state b = tsx_state a \<or> tsx_state b = PJSIP_TSX_STATE_TERMINATED \<and> tsx_state a \<noteq> PJSIP_TSX_STATE_DESTROYED)"

definition cb_rel :: "pjsip_transaction \<Rightarrow> pjsip_transaction \<Rightarrow> bool" where
  "cb_rel a b \<longleftrightarrow>
     tsx_inv b \<and> send_frame a b \<and>
     (tsx_transport_err a \<noteq> PJ_SUCCESS \<longrightarrow> tsx_transport_err b \<noteq> PJ_SUCCESS) \<and>
     (tsx_role a = PJSIP_ROLE_UAC \<and> \<not> tsx_pending_send a \<longrightarrow> \<not> tsx_pending_send b) \<and>
     (tsx_role a = PJSIP_ROLE_UAS \<or> \<not> tsx_pending_send a \<longrightarrow>
        tsx_state b = tsx_state a \<or> tsx_transport_err b \<noteq> PJ_SUCCESS)"

definition send_rel :: "pjsip_transaction \<Rightarrow> pjsip_transaction \<times> pj_status \<Rightarrow> bool" where
  "send_rel a r \<longleftrightarrow>
     tsx_inv (fst r) \<and> send_frame a (fst r) \<and>
     (tsx_transport_err a \<noteq> PJ_SUCCESS \<longrightarrow> tsx_transport_err (fst r) \<noteq> PJ_SUCCESS) \<and>
     (tsx_role a = PJSIP_ROLE_UAS \<longrightarrow>
        tsx_state (fst r) = tsx_state a \<or> tsx_transport_err (fst r) \<noteq> PJ_SUCCESS) \<and>
     (snd r = PJ_SUCCESS \<and> tsx_state a < PJSIP_TSX_STATE_TERMINATED \<longrightarrow> tsx_state (fst r) = tsx_state a)"

lemma state_le_simps [simp]:
  "PJSIP_TSX_STATE_NULL < PJSIP_TSX_STATE_TERMINATED" "PJSIP_TSX_STATE_CALLING < PJSIP_TSX_STATE_TERMINATED"
  "PJSIP_TSX_STATE_TRYING < PJSIP_TSX_STATE_TERMINATED" "PJSIP_TSX_STATE_PROCEEDING < PJSIP_TSX_STATE_TERMINATED"
  "PJSIP_TSX_STATE_COMPLETED < PJSIP_TSX_STATE_TERMINATED" "PJSIP_TSX_STATE_CONFIRMED < PJSIP_TSX_STATE_TERMINATED"
  "\<not> PJSIP_TSX_STATE_TERMINATED < PJSIP_TSX_STATE_TERMINATED" "\<not> PJSIP_TSX_STATE_DESTROYED < PJSIP_TSX_STATE_TERMINATED"
  "PJSIP_TSX_STATE_NULL < PJSIP_TSX_STATE_COMPLETED" "PJSIP_TSX_STATE_CALLING < PJSIP_TSX_STATE_COMPLETED"
  "PJSIP_TSX_STATE_TRYING < PJSIP_TSX_STATE_COMPLETED" "PJSIP_TSX_STATE_PROCEEDING < PJSIP_TSX_STATE_COMPLETED"
  "\<not> PJSIP_TSX_STATE_COMPLETED < PJSIP_TSX_STATE_COMPLETED" "\<not> PJSIP_TSX_STATE_CONFIRMED < PJSIP_TSX_STATE_COMPLETED"
  "\<not> PJSIP_TSX_STATE_TERMINATED < PJSIP_TSX_STATE_COMPLETED" "\<not> PJSIP_TSX_STATE_DESTROYED < PJSIP_TSX_STATE_COMPLETED"
  "PJSIP_TSX_STATE_DESTROYED \<le> PJSIP_TSX_STATE_DESTROYED"
  by (simp_all add: less_pjsip_tsx_state_e_def)

lemma destroyed_le [simp]: "PJSIP_TSX_STATE_DESTROYED \<le> s \<longleftrightarrow> s = PJSIP_TSX_STATE_DESTROYED"
  by (cases s) (simp_all add: less_eq_pjsip_tsx_state_e_def)

lemma not_terminated [simp]:
  "\<not> s < PJSIP_TSX_STATE_TERMINATED \<longleftrightarrow> s = PJSIP_TSX_STATE_TERMINATED \<or> s = PJSIP_TSX_STATE_DESTROYED"
  by (cases s) simp_all

lemma cb_rel_refl: "tsx_inv a \<Longrightarrow> cb_rel a a"
  by (simp add: cb_rel_def send_frame_def)

lemma send_frame_trans: "send_frame a b \<Longrightarrow> send_frame b c \<Longrightarrow> send_frame a c"
  unfolding send_frame_def by metis

lemma cb_rel_trans: "cb_rel a b \<Longrightarrow> cb_rel b c \<Longrightarrow> cb_rel a c"
proof -
  assume ab: "cb_rel a b" and bc: "cb_rel b c"
  have "tsx_role b = tsx_role a" using ab by (simp add: cb_rel_def send_frame_def)
  moreover have "send_frame a c" using ab bc send_frame_trans unfolding cb_rel_def by blast
  ultimately show ?thesis using ab bc unfolding cb_rel_def
    by (cases "tsx_role a"; cases "tsx_pending_send a"; cases "tsx_pending_send b") auto
qed

section \<open>Sending keeps the invariant\<close>

fun report_ok :: "send_report \<Rightarrow> bool" where
  "report_ok (Sent tp) = True"
| "report_ok (SendFailed tp err cont) = (err \<noteq> PJ_SUCCESS)"

definition env_ok :: "tsx_env \<Rightarrow> bool" where
  "env_ok env \<longleftrightarrow> (\<forall>td. list_all report_ok (fst (endpt_send env td)))"

definition sender_ok :: "tsx_env \<Rightarrow> tsx_sender \<Rightarrow> bool" where
  "sender_ok env f \<longleftrightarrow>
     (\<forall>tsx td. tsx_inv tsx \<and> tsx_state tsx \<noteq> PJSIP_TSX_STATE_DESTROYED \<longrightarrow>
        send_rel tsx (f env tsx td))"

lemmas timer_defs = tsx_schedule_timer_def tsx_cancel_timer_def cancel_timeout_def cancel_retransmit_def
  schedule_timeout_def schedule_retransmit_def

lemmas transport_defs = tsx_tp_state_callback_def tsx_update_transport_def

lemmas inv_defs = tsx_inv_def tsx_typed_def timer_guard_def flags_ok_def

lemma gave_emit: "gave_to_transport (emit x tsx) \<longleftrightarrow> gave_to_transport tsx \<or> (\<exists>tp td. x = OutTransport tp td)"
  by (auto simp: gave_to_transport_def emit_def split: tsx_out.splits)

text \<open>The invariant looks at these components only.\<close>

lemma tsx_inv_cong:
  assumes "tsx_inv a"
    and "tsx_role b = tsx_role a" "tsx_method b = tsx_method a" "tsx_state b = tsx_state a"
    and "tsx_status_code b = tsx_status_code a" "tsx_timeout_timer b = tsx_timeout_timer a"
    and "tsx_pending_destroy b = tsx_pending_destroy a" "tsx_pending_send b = tsx_pending_send a"
    and "tsx_pending_resched b \<longrightarrow> tsx_pending_resched a" "tsx_transport b \<noteq> None \<longrightarrow> tsx_transport a \<noteq> None"
    and "gave_to_transport b = gave_to_transport a" "tsx_resolved_server a \<longrightarrow> tsx_resolved_server b"
    and "tsx_pending_transport b = tsx_pending_transport a" "tsx_unregs b = tsx_unregs a"
  shows "tsx_inv b"
proof -
  have "tsx_typed b" "timer_guard b" using assms unfolding tsx_inv_def tsx_typed_def timer_guard_def by simp_all
  moreover have "flags_ok b" using assms(1) assms(2-) unfolding tsx_inv_def flags_ok_def by (simp; blast)
  ultimately show ?thesis by (simp add: tsx_inv_def)
qed

lemma resched_frame:
  "\<exists>tm. tsx_resched_retransmission env tsx = tsx\<lparr>tsx_retransmit_timer := tm\<rparr>"
  by (auto simp: tsx_resched_retransmission_def Let_def timer_defs intro: exI[of _ "tsx_retransmit_timer tsx"])

lemma flush_pending_rel:
  assumes f: "sender_ok env f" and i: "tsx_inv a"
    and d: "tsx_state a = PJSIP_TSX_STATE_DESTROYED \<longrightarrow> \<not> tsx_pending_send a"
  shows "cb_rel a (flush_pending f env a)"
proof -
  define b where "b = (if tsx_pending_send a then fst (f env (a\<lparr>tsx_pending_send := False\<rparr>) (tsx_last_tx a)) else a)"
  have i': "tsx_inv (a\<lparr>tsx_pending_send := False\<rparr>)" using i by (simp add: inv_defs gave_to_transport_def)
  have "cb_rel a b"
  proof (cases "tsx_pending_send a")
    case True
    then have "send_rel (a\<lparr>tsx_pending_send := False\<rparr>) (f env (a\<lparr>tsx_pending_send := False\<rparr>) (tsx_last_tx a))"
      using f i' d unfolding sender_ok_def by simp
    then show ?thesis using True unfolding b_def send_rel_def cb_rel_def send_frame_def by simp
  qed (simp add: b_def cb_rel_refl i)
  moreover have "cb_rel b (flush_pending f env a)"
  proof -
    have ib: "tsx_inv b" using \<open>cb_rel a b\<close> by (simp add: cb_rel_def)
    obtain tm where tm: "tsx_resched_retransmission env (b\<lparr>tsx_pending_resched := False\<rparr>) =
        b\<lparr>tsx_pending_resched := False, tsx_retransmit_timer := tm\<rparr>"
      using resched_frame by force
    have "tsx_inv (b\<lparr>tsx_pending_resched := False\<rparr>)" "tsx_inv (b\<lparr>tsx_pending_resched := False, tsx_retransmit_timer := tm\<rparr>)"
      by (rule tsx_inv_cong[OF ib]; simp add: gave_to_transport_def)+
    then show ?thesis unfolding flush_pending_def b_def[symmetric] Let_def
      by (simp add: tm cb_rel_def send_frame_def ib)
  qed
  ultimately show ?thesis by (rule cb_rel_trans)
qed

text \<open>Components of the transaction after a state change.\<close>

lemma notify_simps [simp]:
  "tsx_role (notify_user a p e s) = tsx_role a" "tsx_method (notify_user a p e s) = tsx_method a"
  "tsx_state (notify_user a p e s) = tsx_state a" "tsx_handle_200resp (notify_user a p e s) = tsx_handle_200resp a"
  "tsx_transport_err (notify_user a p e s) = tsx_transport_err a" "tsx_pending_send (notify_user a p e s) = tsx_pending_send a"
  "tsx_pending_destroy (notify_user a p e s) = tsx_pending_destroy a"
  "tsx_pending_resched (notify_user a p e s) = tsx_pending_resched a"
  "tsx_pending_transport (notify_user a p e s) = tsx_pending_transport a"
  "tsx_resolved_server (notify_user a p e s) = tsx_resolved_server a" "tsx_transport (notify_user a p e s) = tsx_transport a"
  "tsx_timeout_timer (notify_user a p e s) = tsx_timeout_timer a"
  "tsx_retransmit_timer (notify_user a p e s) = tsx_retransmit_timer a"
  "tsx_status_code (notify_user a p e s) = tsx_status_code a"
  "tsx_last_tx (notify_user a p e s) = tsx_last_tx a" "tsx_pending_tx (notify_user a p e s) = tsx_pending_tx a"
  "tsx_unregs (notify_user a p e s) = tsx_unregs a" "tsx_has_user (notify_user a p e s) = tsx_has_user a"
  "tsx_is_reliable (notify_user a p e s) = tsx_is_reliable a"
  "gave_to_transport (notify_user a p e s) = gave_to_transport a"
  by (auto simp: notify_user_def emit_def gave_to_transport_def Let_def split: option.splits)

lemma restart_timeout [simp]:
  "tsx_timeout_timer (schedule_timeout (cancel_timeout a) d i) = \<lparr>tm_id = i, tm_delay = Some d\<rparr>"
  by (simp add: timer_defs)

lemma restart_idle [simp]: "tm_delay (tsx_timeout_timer (cancel_timeout a)) = None"
  by (simp add: timer_defs)

lemma schedule_idle [simp]:
  "tm_delay (tsx_timeout_timer a) = None \<Longrightarrow> tsx_timeout_timer (schedule_timeout a d i) = \<lparr>tm_id = i, tm_delay = Some d\<rparr>"
  by (simp add: timer_defs)

lemma guard_timeout [simp]: "guard_for s c \<lparr>tm_id = TIMEOUT_TIMER, tm_delay = Some d\<rparr>"
  by (cases s) simp_all

lemma state_for_terminated [simp]: "state_for r m PJSIP_TSX_STATE_TERMINATED" "state_for r m PJSIP_TSX_STATE_DESTROYED"
  by (cases r; simp)+

abbreviation terminated_by where
  "terminated_by env a ev src nn ns \<equiv> tsx_set_state env a PJSIP_TSX_STATE_TERMINATED ev src nn ns"

lemma terminate_simps [simp]:
    "tsx_role (terminated_by env a ev src nn ns) = tsx_role a" "tsx_method (terminated_by env a ev src nn ns) = tsx_method a"
    "tsx_state (terminated_by env a ev src nn ns) = PJSIP_TSX_STATE_TERMINATED" "tsx_status_code (terminated_by env a ev src nn ns) = tsx_status_code a"
    "tsx_handle_200resp (terminated_by env a ev src nn ns) = tsx_handle_200resp a" "tsx_transport_err (terminated_by env a ev src nn ns) = tsx_transport_err a"
    "tsx_pending_send (terminated_by env a ev src nn ns) = tsx_pending_send a" "tsx_pending_destroy (terminated_by env a ev src nn ns) = tsx_pending_destroy a"
    "tsx_resolved_server (terminated_by env a ev src nn ns) = tsx_resolved_server a" "tsx_transport (terminated_by env a ev src nn ns) = tsx_transport a"
    "tsx_has_user (terminated_by env a ev src nn ns) = tsx_has_user a" "\<not> tsx_pending_transport (terminated_by env a ev src nn ns)"
    "gave_to_transport (terminated_by env a ev src nn ns) = gave_to_transport a"
    "tsx_timeout_timer (terminated_by env a ev src nn False) = \<lparr>tm_id = TIMEOUT_TIMER, tm_delay = Some (TimeVal 0 0)\<rparr>"
    "tm_delay (tsx_timeout_timer (terminated_by env a ev src nn True)) = None"
    "tsx_unregs (terminated_by env a ev src nn ns) = tsx_unregs a"
  unfolding tsx_set_state_def terminated_actions_def
  by (auto simp: Let_def timer_defs gave_to_transport_def notify_user_def emit_def split: option.splits)

lemma terminate_inv:
  assumes "flags_ok a" "tsx_state a \<noteq> PJSIP_TSX_STATE_DESTROYED"
  shows "tsx_inv (tsx_set_state env a PJSIP_TSX_STATE_TERMINATED ev src nn False)"
  using assms unfolding tsx_inv_def tsx_typed_def timer_guard_def flags_ok_def by auto

lemma shutdown_simps [simp]:
  "tsx_role (tsx_shutdown env a) = tsx_role a" "tsx_method (tsx_shutdown env a) = tsx_method a"
  "tsx_state (tsx_shutdown env a) = tsx_state a" "tsx_status_code (tsx_shutdown env a) = tsx_status_code a"
  "tsx_handle_200resp (tsx_shutdown env a) = tsx_handle_200resp a"
  "tsx_transport_err (tsx_shutdown env a) = tsx_transport_err a"
  "\<not> tsx_pending_send (tsx_shutdown env a)" "\<not> tsx_pending_resched (tsx_shutdown env a)"
  "tsx_transport (tsx_shutdown env a) = None" "tsx_last_tx (tsx_shutdown env a) = None"
  "tsx_resolved_server (tsx_shutdown env a) = tsx_resolved_server a"
  "tsx_log (tsx_shutdown env a) = tsx_log a" "tsx_terminating (tsx_shutdown env a)"
  "tm_delay (tsx_timeout_timer (tsx_shutdown env a)) = None"
  "tm_delay (tsx_retransmit_timer (tsx_shutdown env a)) = None"
  "tsx_unregs (tsx_shutdown env a) = tsx_unregs a"
  by (simp_all add: tsx_shutdown_def tsx_update_transport_def timer_defs add_td_ref_def Let_def split: option.splits)

lemma gave_shutdown [simp]: "gave_to_transport (tsx_shutdown env a) = gave_to_transport a"
  by (simp add: gave_to_transport_def)

lemma gave_update [simp]:
  "gave_to_transport (a\<lparr>tsx_unregs := x\<rparr>) = gave_to_transport a" "gave_to_transport (a\<lparr>tsx_state := s\<rparr>) = gave_to_transport a"
  by (simp_all add: gave_to_transport_def)

abbreviation destroyed_by where
  "destroyed_by env a ev src nn ns \<equiv> tsx_set_state env a PJSIP_TSX_STATE_DESTROYED ev src nn ns"

lemma destroy_simps [simp]:
    "tsx_role (destroyed_by env a ev src nn ns) = tsx_role a" "tsx_method (destroyed_by env a ev src nn ns) = tsx_method a"
    "tsx_state (destroyed_by env a ev src nn ns) = PJSIP_TSX_STATE_DESTROYED" "tsx_status_code (destroyed_by env a ev src nn ns) = tsx_status_code a"
    "tsx_handle_200resp (destroyed_by env a ev src nn ns) = tsx_handle_200resp a" "tsx_transport_err (destroyed_by env a ev src nn ns) = tsx_transport_err a"
    "\<not> tsx_pending_send (destroyed_by env a ev src nn ns)" "\<not> tsx_pending_resched (destroyed_by env a ev src nn ns)" "tsx_transport (destroyed_by env a ev src nn ns) = None"
    "tsx_resolved_server (destroyed_by env a ev src nn ns) = tsx_resolved_server a" "tsx_unregs (destroyed_by env a ev src nn ns) = tsx_unregs a + 1"
    "tm_delay (tsx_timeout_timer (destroyed_by env a ev src nn ns)) = None" "tm_delay (tsx_retransmit_timer (destroyed_by env a ev src nn ns)) = None"
    "tsx_last_tx (destroyed_by env a ev src nn ns) = None" "tsx_terminating (destroyed_by env a ev src nn ns)"
    "gave_to_transport (destroyed_by env a ev src nn ns) = gave_to_transport a"
  unfolding tsx_set_state_def destroyed_actions_def by (simp_all add: Let_def)

lemma destroy_inv:
  "flags_ok a \<Longrightarrow> tsx_inv (tsx_set_state env a PJSIP_TSX_STATE_DESTROYED ev src nn ns)"
  unfolding tsx_inv_def tsx_typed_def timer_guard_def flags_ok_def by auto

lemma update_transport_None [simp]: "tsx_update_transport env a None = a\<lparr>tsx_transport := None\<rparr>"
  by (simp add: tsx_update_transport_def)

lemma guard_early [simp]: "s < PJSIP_TSX_STATE_COMPLETED \<Longrightarrow> guard_for s c tm"
  by (cases s) simp_all

lemma guard_destroyed [simp]: "guard_for PJSIP_TSX_STATE_DESTROYED c tm"
  by simp

text \<open>Taking a transport into use, as the send callback does.\<close>

lemma update_transport_simps [simp]:
  "tsx_role (tsx_update_transport env a tp) = tsx_role a" "tsx_method (tsx_update_transport env a tp) = tsx_method a"
  "tsx_state (tsx_update_transport env a tp) = tsx_state a" "tsx_status_code (tsx_update_transport env a tp) = tsx_status_code a"
  "tsx_handle_200resp (tsx_update_transport env a tp) = tsx_handle_200resp a"
  "tsx_pending_send (tsx_update_transport env a tp) = tsx_pending_send a"
  "tsx_pending_destroy (tsx_update_transport env a tp) = tsx_pending_destroy a"
  "tsx_pending_resched (tsx_update_transport env a tp) = tsx_pending_resched a"
  "tsx_pending_transport (tsx_update_transport env a tp) = tsx_pending_transport a"
  "tsx_resolved_server (tsx_update_transport env a tp) = tsx_resolved_server a"
  "tsx_transport (tsx_update_transport env a tp) = tp" "tsx_log (tsx_update_transport env a tp) = tsx_log a"
  "tsx_last_tx (tsx_update_transport env a tp) = tsx_last_tx a" "tsx_unregs (tsx_update_transport env a tp) = tsx_unregs a"
  "tsx_transport_err a \<noteq> PJ_SUCCESS \<Longrightarrow> tsx_transport_err (tsx_update_transport env a tp) \<noteq> PJ_SUCCESS"
  by (simp_all add: transport_defs timer_defs Let_def split: option.splits)

lemma update_transport_guard [simp]: "timer_guard a \<Longrightarrow> timer_guard (tsx_update_transport env a tp)"
  by (auto simp: transport_defs timer_guard_def Let_def timer_defs split: option.splits)

lemma timer_guard_cong:
  "timer_guard a \<Longrightarrow> tsx_state b = tsx_state a \<Longrightarrow> tsx_status_code b = tsx_status_code a \<Longrightarrow>
   tsx_timeout_timer b = tsx_timeout_timer a \<Longrightarrow> timer_guard b"
  by (simp add: timer_guard_def)

lemma on_sent_rel:
  assumes f: "sender_ok env f" and i: "tsx_inv a"
  shows "cb_rel a (on_sent f env a tp)"
proof -
  define c where "c = (if tsx_transport a \<noteq> Some tp
      then (tsx_update_transport env a (Some tp))\<lparr>tsx_is_reliable := tp_reliable env tp\<rparr> else a)"
  define b where "b = c\<lparr>tsx_pending_transport := False, tsx_resolved_server := True\<rparr>"
  have "timer_guard b" using i unfolding b_def c_def
    by (auto simp: tsx_inv_def intro: timer_guard_cong[OF update_transport_guard] timer_guard_cong)
  then have ib: "tsx_inv b" using i unfolding b_def c_def tsx_inv_def
    by (auto simp: tsx_typed_def flags_ok_def)
  have ab: "cb_rel a b" using ib i unfolding cb_rel_def send_frame_def by (simp add: b_def c_def)
  have eq: "on_sent f env a tp = (if tsx_pending_destroy b then destroyed_by env b PJSIP_EVENT_UNKNOWN None False False
      else flush_pending f env b)" unfolding on_sent_def Let_def b_def c_def ..
  have fb: "flags_ok b" using ib by (simp add: tsx_inv_def)
  have "cb_rel b (destroyed_by env b PJSIP_EVENT_UNKNOWN None False False)" if "tsx_pending_destroy b"
    using that fb destroy_inv[OF fb] by (simp add: cb_rel_def send_frame_def flags_ok_def)
  moreover have "cb_rel b (flush_pending f env b)"
    by (rule flush_pending_rel[OF f ib]) (use fb in \<open>simp add: flags_ok_def\<close>)
  ultimately show ?thesis using cb_rel_trans[OF ab] eq by simp
qed

lemma flags_update [simp]:
  "flags_ok (tsx_set_status_code a c) = flags_ok a" "flags_ok (a\<lparr>tsx_transport_err := e\<rparr>) = flags_ok a"
  by (simp_all add: flags_ok_def tsx_set_status_code_def gave_to_transport_def)

lemma status_code_simps [simp]:
  "tsx_role (tsx_set_status_code a c) = tsx_role a" "tsx_method (tsx_set_status_code a c) = tsx_method a"
  "tsx_state (tsx_set_status_code a c) = tsx_state a" "tsx_transport_err (tsx_set_status_code a c) = tsx_transport_err a"
  "tsx_handle_200resp (tsx_set_status_code a c) = tsx_handle_200resp a" "tsx_status_code (tsx_set_status_code a c) = c"
  "tsx_pending_send (tsx_set_status_code a c) = tsx_pending_send a"
  "tsx_pending_destroy (tsx_set_status_code a c) = tsx_pending_destroy a"
  by (simp_all add: tsx_set_status_code_def)

lemma on_send_failed_rel:
  assumes i: "tsx_inv a" and e: "err \<noteq> PJ_SUCCESS"
  shows "cb_rel a (on_send_failed env a err)"
proof -
  define b where "b = a\<lparr>tsx_transport_err := err, tsx_pending_transport := False, tsx_resolved_server := True\<rparr>"
  have ib: "tsx_inv b" using i by (auto simp: b_def inv_defs gave_to_transport_def)
  then have fb: "flags_ok b" by (simp add: tsx_inv_def)
  have st: "tsx_state b = tsx_state a" by (simp add: b_def)
  have tm_rel: "cb_rel a (terminated_by env (tsx_set_status_code b c) ev None False False)"
    if "tsx_state a \<noteq> PJSIP_TSX_STATE_DESTROYED" for c ev
    using that terminate_inv[of "tsx_set_status_code b c" env ev None False] fb e
    by (simp add: cb_rel_def send_frame_def b_def)
  have destr: "cb_rel a (destroyed_by env (tsx_set_status_code b c) ev None False False)"
    if "tsx_pending_destroy b" for c ev
  proof -
    have "tsx_state a = PJSIP_TSX_STATE_DESTROYED" using that fb st by (simp add: flags_ok_def)
    moreover have "tsx_inv (destroyed_by env (tsx_set_status_code b c) ev None False False)"
      by (rule destroy_inv) (simp add: fb)
    ultimately show ?thesis using e by (simp add: cb_rel_def send_frame_def b_def)
  qed
  obtain tm where tm: "tsx_resched_retransmission env (b\<lparr>tsx_pending_resched := False\<rparr>) =
      b\<lparr>tsx_pending_resched := False, tsx_retransmit_timer := tm\<rparr>"
    using resched_frame by force
  have "tsx_inv (b\<lparr>tsx_pending_resched := False, tsx_retransmit_timer := tm\<rparr>)"
    by (rule tsx_inv_cong[OF ib]; simp add: gave_to_transport_def)
  then have resched: "cb_rel a (tsx_resched_retransmission env (b\<lparr>tsx_pending_resched := False\<rparr>))"
    using e unfolding tm by (simp add: cb_rel_def send_frame_def b_def)
  have "cb_rel a b" using ib e by (simp add: cb_rel_def send_frame_def b_def)
  then show ?thesis unfolding on_send_failed_def Let_def b_def[symmetric]
    using tm_rel destr resched st by simp
qed

lemma on_try_next_rel:
  assumes i: "tsx_inv a"
  shows "cb_rel a (on_try_next env a td)"
proof -
  have "tsx_inv (on_try_next env a td)"
    using i by (auto simp: on_try_next_def Let_def inv_defs gave_to_transport_def timer_defs split: if_splits)
  then show ?thesis by (simp add: cb_rel_def send_frame_def on_try_next_def Let_def timer_defs)
qed

lemma send_msg_callback_rel:
  assumes f: "sender_ok env f" and i: "tsx_inv a" and r: "report_ok rep"
  shows "cb_rel a (send_msg_callback f env td a rep)"
proof -
  define b where "b = a\<lparr>tsx_grp_ref := tsx_grp_ref a - 1, tsx_attached := (tsx_attached a)(td_id td := False),
      tsx_pending_tx := None\<rparr>"
  have ib: "tsx_inv b" unfolding b_def by (rule tsx_inv_cong[OF i]; simp add: gave_to_transport_def)
  have ib': "tsx_inv (b\<lparr>tsx_transport := None\<rparr>)" by (rule tsx_inv_cong[OF ib]; simp add: gave_to_transport_def)
  have ab: "cb_rel a b" "cb_rel a (b\<lparr>tsx_transport := None\<rparr>)"
    using ib ib' by (simp_all add: cb_rel_def send_frame_def b_def)
  show ?thesis
  proof (cases rep)
    case (Sent tp)
    show ?thesis unfolding send_msg_callback_def Let_def b_def[symmetric] Sent
      using cb_rel_trans[OF ab(1) on_sent_rel[OF f ib]] by (simp add: cb_rel_refl i)
  next
    case (SendFailed tp err cont)
    with r have e: "err \<noteq> PJ_SUCCESS" by simp
    show ?thesis unfolding send_msg_callback_def Let_def b_def[symmetric] SendFailed
      using cb_rel_trans[OF ab(1) on_send_failed_rel[OF ib e]] cb_rel_trans[OF ab(2) on_send_failed_rel[OF ib' e]]
        cb_rel_trans[OF ab(1) on_try_next_rel[OF ib]] cb_rel_trans[OF ab(2) on_try_next_rel[OF ib']]
      by (simp add: cb_rel_refl i)
  qed
qed

lemma reports_rel:
  assumes f: "sender_ok env f"
  shows "tsx_inv a \<Longrightarrow> list_all report_ok reps \<Longrightarrow> cb_rel a (foldl (send_msg_callback f env td) a reps)"
proof (induction reps arbitrary: a)
  case (Cons rep reps)
  have s: "cb_rel a (send_msg_callback f env td a rep)" using send_msg_callback_rel[OF f] Cons.prems by simp
  then have "tsx_inv (send_msg_callback f env td a rep)" by (simp add: cb_rel_def)
  with s Cons show ?case using cb_rel_trans by fastforce
qed (simp add: cb_rel_refl)

lemma send_via_endpt_rel:
  assumes f: "sender_ok env f" and e: "env_ok env" and i: "tsx_inv a" and s: "tsx_state a \<noteq> PJSIP_TSX_STATE_DESTROYED"
    and p: "\<not> tsx_pending_transport a"
  shows "send_rel a (send_via_endpt f env a td status)"
proof (cases "tsx_role a = PJSIP_ROLE_UAC \<and> tsx_resolved_server a")
  case True
  have "flags_ok a" using i by (simp add: tsx_inv_def)
  then show ?thesis using True s terminate_inv[of "tsx_set_status_code a PJSIP_SC_TSX_TRANSPORT_ERROR"]
    unfolding send_via_endpt_def by (simp add: send_rel_def send_frame_def)
next
  case False
  obtain reps st where rs: "endpt_send env td = (reps, st)" by fastforce
  define b where "b = emit (OutEndpoint td) ((add_td_ref 1 td a)\<lparr>tsx_attached := (tsx_attached (add_td_ref 1 td a))(td_id td := True),
      tsx_pending_tx := Some td, tsx_grp_ref := tsx_grp_ref (add_td_ref 1 td a) + 1, tsx_pending_transport := True\<rparr>)"
  define c where "c = foldl (send_msg_callback f env td) b reps"
  have b_simps: "tsx_role b = tsx_role a" "tsx_method b = tsx_method a" "tsx_state b = tsx_state a"
    "tsx_pending_send b = tsx_pending_send a" "tsx_transport_err b = tsx_transport_err a"
    "tsx_handle_200resp b = tsx_handle_200resp a"
    by (simp_all add: b_def emit_def add_td_ref_def)
  have ib: "tsx_inv b" using i by (auto simp: inv_defs b_def emit_def add_td_ref_def gave_to_transport_def)
  have bc: "cb_rel b c" unfolding c_def
    by (rule reports_rel[OF f ib]) (use e rs in \<open>simp add: env_ok_def\<close>, metis fst_conv)
  define d where "d = add_td_ref (- 1) td (c\<lparr>tsx_pending_transport := False, tsx_grp_ref := tsx_grp_ref c - 1,
      tsx_attached := (tsx_attached c)(td_id td := False), tsx_pending_tx := None\<rparr>)"
  have ic: "tsx_inv c" using bc by (simp add: cb_rel_def)
  have ps: "tsx_role a = PJSIP_ROLE_UAC \<Longrightarrow> tsx_state a < PJSIP_TSX_STATE_TERMINATED \<Longrightarrow> \<not> tsx_pending_send a"
    using i p False by (auto simp: tsx_inv_def flags_ok_def)
  have "tsx_role c = PJSIP_ROLE_UAC \<Longrightarrow> tsx_state c < PJSIP_TSX_STATE_TERMINATED \<Longrightarrow> \<not> tsx_pending_send c"
    using ps bc s by (auto simp: cb_rel_def send_frame_def b_simps)
  then have id: "tsx_inv d" using ic by (auto simp: inv_defs d_def add_td_ref_def gave_to_transport_def)
  have cd: "tsx_role d = tsx_role c" "tsx_method d = tsx_method c" "tsx_state d = tsx_state c"
    "tsx_transport_err d = tsx_transport_err c" "tsx_handle_200resp d = tsx_handle_200resp c"
    by (simp_all add: d_def add_td_ref_def)
  have eq: "send_via_endpt f env a td status =
     (let st' = if st = PJ_EPENDING then PJ_SUCCESS else st; t = if st' \<noteq> PJ_SUCCESS then d else c
      in (t, if st' = PJ_SUCCESS \<and> tsx_state t = PJSIP_TSX_STATE_TERMINATED then tsx_transport_err t else st'))"
    unfolding send_via_endpt_def rs using False unfolding Let_def b_def[symmetric] d_def c_def by auto
  have "tsx_state a < PJSIP_TSX_STATE_TERMINATED \<Longrightarrow> tsx_state c = tsx_state a \<or> tsx_transport_err c \<noteq> PJ_SUCCESS"
    using bc ps unfolding cb_rel_def b_simps by (cases "tsx_role a") auto
  moreover have "tsx_state c = tsx_state a \<or> tsx_state c = PJSIP_TSX_STATE_TERMINATED"
    using bc by (auto simp: cb_rel_def send_frame_def b_simps)
  ultimately show ?thesis using bc ic id unfolding eq Let_def
    by (auto simp: send_rel_def cb_rel_def send_frame_def b_simps cd)
qed

lemma send_rel_same:
  "tsx_inv b \<Longrightarrow> tsx_role b = tsx_role a \<Longrightarrow> tsx_method b = tsx_method a \<Longrightarrow> tsx_state b = tsx_state a \<Longrightarrow>
   tsx_handle_200resp b = tsx_handle_200resp a \<Longrightarrow> tsx_transport_err b = tsx_transport_err a \<Longrightarrow> send_rel a (b, st)"
  by (simp add: send_rel_def send_frame_def)

lemma send_rel_from:
  "send_rel b r \<Longrightarrow> tsx_role b = tsx_role a \<Longrightarrow> tsx_method b = tsx_method a \<Longrightarrow> tsx_state b = tsx_state a \<Longrightarrow>
   tsx_handle_200resp b = tsx_handle_200resp a \<Longrightarrow> tsx_transport_err b = tsx_transport_err a \<Longrightarrow> send_rel a r"
  by (simp add: send_rel_def send_frame_def)

lemma send_body_ok:
  assumes f: "sender_ok env f" and e: "env_ok env"
  shows "sender_ok env (send_body f)"
  unfolding sender_ok_def
proof (intro allI impI, elim conjE)
  fix tsx tdata
  assume i: "tsx_inv tsx" and s: "tsx_state tsx \<noteq> PJSIP_TSX_STATE_DESTROYED"
  show "send_rel tsx (send_body f env tsx tdata)"
  proof (cases tdata)
    case None
    then show ?thesis using i by (simp add: send_body_def send_rel_same)
  next
    case (Some td)
    consider "tsx_pending_transport tsx" | "\<not> tsx_pending_transport tsx" "td_is_pending td"
      | "\<not> tsx_pending_transport tsx" "\<not> td_is_pending td" "tsx_transport tsx = None"
      | tp where "\<not> tsx_pending_transport tsx" "\<not> td_is_pending td" "tsx_transport tsx = Some tp" by blast
    then show ?thesis
    proof cases
      case 1
      then have "tsx_inv (tsx\<lparr>tsx_pending_send := True\<rparr>)" using i s by (auto simp: inv_defs gave_to_transport_def)
      then show ?thesis using Some 1 by (simp add: send_body_def send_rel_same)
    next
      case 2
      then show ?thesis using Some i by (simp add: send_body_def send_rel_same)
    next
      case 3
      then show ?thesis using Some send_via_endpt_rel[OF f e i s] by (simp add: send_body_def)
    next
      case (4 tp)
      define b where "b = emit (OutTransport tp td) tsx"
      have b_simps: "tsx_role b = tsx_role tsx" "tsx_method b = tsx_method tsx" "tsx_state b = tsx_state tsx"
        "tsx_handle_200resp b = tsx_handle_200resp tsx" "tsx_transport_err b = tsx_transport_err tsx"
        "tsx_pending_transport b = tsx_pending_transport tsx" by (simp_all add: b_def emit_def)
      have ib: "tsx_inv b" using i 4 by (auto simp: inv_defs b_def gave_emit) (auto simp: emit_def)
      have pend: "tsx_inv (b\<lparr>tsx_grp_ref := tsx_grp_ref b + 1, tsx_pending_transport := True\<rparr>)"
        using ib by (auto simp: inv_defs gave_to_transport_def)
      have none: "tsx_inv (b\<lparr>tsx_transport := None\<rparr>)" by (rule tsx_inv_cong[OF ib]; simp add: gave_to_transport_def)
      have "send_rel (b\<lparr>tsx_transport := None\<rparr>) (send_via_endpt f env (b\<lparr>tsx_transport := None\<rparr>) td st)" for st
        by (rule send_via_endpt_rel[OF f e none]) (simp_all add: b_simps s 4)
      then have "send_rel tsx (send_via_endpt f env (b\<lparr>tsx_transport := None\<rparr>) td st)" for st
        by (rule send_rel_from) (simp_all add: b_simps)
      moreover have "send_rel tsx (b, st)" "send_rel tsx (b\<lparr>tsx_grp_ref := tsx_grp_ref b + 1, tsx_pending_transport := True\<rparr>, st)" for st
        by (rule send_rel_same; simp add: ib pend b_simps)+
      ultimately show ?thesis using 4 Some unfolding send_body_def by (simp add: Let_def b_def[symmetric])
    qed
  qed
qed

lemma no_resend_ok: "sender_ok env no_resend"
  by (simp add: sender_ok_def no_resend_def send_rel_same)

lemma tsx_send_msg_ok: "env_ok env \<Longrightarrow> sender_ok env tsx_send_msg"
  by (simp add: tsx_send_msg_def send_body_ok no_resend_ok)

section \<open>The abstract state machine\<close>

text \<open>
  The edges of the transaction state machines of RFC 3261, figures 5 to 8, as the code numbers the
  states: a client transaction goes through Calling, a server transaction through Trying, only an
  INVITE server transaction is confirmed, every state can be terminated, and only a terminated
  transaction is destroyed.
\<close>

fun tsx_edge :: "pjsip_role_e \<Rightarrow> pjsip_method_e \<Rightarrow> pjsip_tsx_state_e \<Rightarrow> pjsip_tsx_state_e \<Rightarrow> bool" where
  "tsx_edge role method s PJSIP_TSX_STATE_NULL \<longleftrightarrow> False"
| "tsx_edge role method s PJSIP_TSX_STATE_CALLING \<longleftrightarrow> role = PJSIP_ROLE_UAC \<and> s = PJSIP_TSX_STATE_NULL"
| "tsx_edge role method s PJSIP_TSX_STATE_TRYING \<longleftrightarrow> role = PJSIP_ROLE_UAS \<and> s = PJSIP_TSX_STATE_NULL"
| "tsx_edge role method s PJSIP_TSX_STATE_PROCEEDING \<longleftrightarrow>
     s = (if role = PJSIP_ROLE_UAC then PJSIP_TSX_STATE_CALLING else PJSIP_TSX_STATE_TRYING) \<or> s = PJSIP_TSX_STATE_PROCEEDING"
| "tsx_edge role method s PJSIP_TSX_STATE_COMPLETED \<longleftrightarrow>
     s = (if role = PJSIP_ROLE_UAC then PJSIP_TSX_STATE_CALLING else PJSIP_TSX_STATE_TRYING) \<or> s = PJSIP_TSX_STATE_PROCEEDING"
| "tsx_edge role method s PJSIP_TSX_STATE_CONFIRMED \<longleftrightarrow>
     role = PJSIP_ROLE_UAS \<and> method = PJSIP_INVITE_METHOD \<and> s = PJSIP_TSX_STATE_COMPLETED"
| "tsx_edge role method s PJSIP_TSX_STATE_TERMINATED \<longleftrightarrow> s < PJSIP_TSX_STATE_TERMINATED"
| "tsx_edge role method s PJSIP_TSX_STATE_DESTROYED \<longleftrightarrow> s = PJSIP_TSX_STATE_TERMINATED"

lemma tsx_edge_less: "tsx_edge r m s t \<Longrightarrow> s \<le> t"
  by (cases t; cases r; cases s; simp add: less_eq_pjsip_tsx_state_e_def less_pjsip_tsx_state_e_def split: if_splits)

text \<open>What one operation may do.\<close>

definition op_rel :: "pjsip_transaction \<Rightarrow> pjsip_transaction \<Rightarrow> bool" where
  "op_rel a b \<longleftrightarrow>
     tsx_inv b \<and> tsx_role b = tsx_role a \<and> tsx_method b = tsx_method a \<and>
     (tsx_state b = tsx_state a \<or> tsx_edge (tsx_role a) (tsx_method a) (tsx_state a) (tsx_state b))"

lemma send_op_rel:
  assumes "env_ok env" "tsx_inv a" "tsx_state a \<noteq> PJSIP_TSX_STATE_DESTROYED"
  shows "op_rel a (fst (tsx_send_msg env a td))"
proof -
  have "send_rel a (tsx_send_msg env a td)"
    using tsx_send_msg_ok[OF assms(1)] assms(2,3) unfolding sender_ok_def by blast
  then show ?thesis unfolding send_rel_def send_frame_def op_rel_def
    by (cases "tsx_state a") auto
qed

lemma send_success:
  assumes "env_ok env" "tsx_inv a" "tsx_state a < PJSIP_TSX_STATE_TERMINATED" "tsx_send_msg env a td = (b, PJ_SUCCESS)"
  shows "tsx_inv b \<and> tsx_role b = tsx_role a \<and> tsx_method b = tsx_method a \<and> tsx_state b = tsx_state a \<and>
         tsx_handle_200resp b = tsx_handle_200resp a"
proof -
  have "send_rel a (b, PJ_SUCCESS)"
    using tsx_send_msg_ok[OF assms(1)] assms(2-) unfolding sender_ok_def by (metis state_le_simps(8))
  then show ?thesis using assms(3) by (simp add: send_rel_def send_frame_def)
qed

lemma op_rel_from:
  "op_rel b c \<Longrightarrow> tsx_role b = tsx_role a \<Longrightarrow> tsx_method b = tsx_method a \<Longrightarrow> tsx_state b = tsx_state a \<Longrightarrow> op_rel a c"
  by (simp add: op_rel_def)

lemma op_rel_refl: "tsx_inv a \<Longrightarrow> op_rel a a"
  by (simp add: op_rel_def)

lemma terminate_op_rel:
  "flags_ok a \<Longrightarrow> tsx_state a < PJSIP_TSX_STATE_TERMINATED \<Longrightarrow> op_rel a (terminated_by env a ev src nn False)"
  by (cases "tsx_state a") (simp_all add: op_rel_def terminate_inv)

text \<open>Fields the invariant does not look at, and those it does not look at before a final answer.\<close>

lemma inv_update [simp]:
  "tsx_inv (a\<lparr>tsx_last_tx := x1\<rparr>) = tsx_inv a" "tsx_inv (a\<lparr>tsx_td_refs := x2\<rparr>) = tsx_inv a"
  "tsx_inv (a\<lparr>tsx_retransmit_count := x3\<rparr>) = tsx_inv a" "tsx_inv (a\<lparr>tsx_retransmit_timer := x4\<rparr>) = tsx_inv a"
  "tsx_inv (a\<lparr>tsx_grp_ref := x5\<rparr>) = tsx_inv a" "tsx_inv (a\<lparr>tsx_is_reliable := x6\<rparr>) = tsx_inv a"
  "tsx_inv (a\<lparr>tsx_attached := x7\<rparr>) = tsx_inv a" "tsx_inv (a\<lparr>tsx_pending_tx := x8\<rparr>) = tsx_inv a"
  "tsx_inv (a\<lparr>tsx_transport_err := x9\<rparr>) = tsx_inv a"
  by (simp_all add: inv_defs gave_to_transport_def)

lemma inv_early [simp]:
  "tsx_state a < PJSIP_TSX_STATE_COMPLETED \<Longrightarrow> tsx_inv (a\<lparr>tsx_timeout_timer := x\<rparr>) = tsx_inv a"
  "tsx_state a < PJSIP_TSX_STATE_COMPLETED \<Longrightarrow> tsx_inv (a\<lparr>tsx_status_code := c\<rparr>) = tsx_inv a"
  by (auto simp: inv_defs gave_to_transport_def)

lemma inv_resched [simp]:
  "tsx_state a \<noteq> PJSIP_TSX_STATE_DESTROYED \<Longrightarrow> tsx_inv (a\<lparr>tsx_pending_resched := v\<rparr>) = tsx_inv a"
  by (auto simp: inv_defs gave_to_transport_def)

lemma inv_restart [simp]:
  "tsx_inv a \<Longrightarrow> tsx_inv (a\<lparr>tsx_timeout_timer := \<lparr>tm_id = TIMEOUT_TIMER, tm_delay = Some d\<rparr>\<rparr>)"
  by (simp add: inv_defs gave_to_transport_def)

lemmas upd_defs = cancel_timeout_def schedule_timeout_def cancel_retransmit_def schedule_retransmit_def
  add_td_ref_def tsx_set_status_code_def

lemma set_state_plain:
  assumes "flags_ok a" "s < PJSIP_TSX_STATE_TERMINATED" "tsx_state a < PJSIP_TSX_STATE_TERMINATED"
    "state_for (tsx_role a) (tsx_method a) s" "guard_for s (tsx_status_code a) (tsx_timeout_timer a)"
  shows "tsx_inv (tsx_set_state env a s ev src nn ns)"
proof -
  define b where "b = a\<lparr>tsx_state := s\<rparr>"
  define c where "c = (if nn then b else notify_user b (tsx_state a) ev src)"
  have "tsx_pending_destroy a = False" "s \<noteq> PJSIP_TSX_STATE_TERMINATED" "s \<noteq> PJSIP_TSX_STATE_DESTROYED"
    "tsx_state a \<noteq> PJSIP_TSX_STATE_DESTROYED" using assms(1-3) by (auto simp: flags_ok_def)
  moreover have "flags_ok b" using assms(1-3) calculation by (simp add: flags_ok_def b_def)
  then have "flags_ok c" by (simp add: flags_ok_def c_def)
  then have "tsx_inv c" using assms(4,5) by (simp add: tsx_inv_def tsx_typed_def timer_guard_def c_def b_def)
  ultimately show ?thesis by (simp add: tsx_set_state_def c_def b_def Let_def split: if_splits)
qed

lemma set_state_simps [simp]:
  "tsx_role (tsx_set_state env a s ev src nn ns) = tsx_role a"
  "tsx_method (tsx_set_state env a s ev src nn ns) = tsx_method a"
  "tsx_state (tsx_set_state env a s ev src nn ns) = s"
  by (cases s; simp add: tsx_set_state_def terminated_actions_def destroyed_actions_def timer_defs Let_def split: option.splits)+

section \<open>The handlers\<close>

lemma plain_op_rel:
  assumes "tsx_inv b" "s < PJSIP_TSX_STATE_TERMINATED" "tsx_state b < PJSIP_TSX_STATE_TERMINATED"
    "tsx_role b = tsx_role a" "tsx_method b = tsx_method a"
    "tsx_edge (tsx_role a) (tsx_method a) (tsx_state a) s" "state_for (tsx_role a) (tsx_method a) s"
    "guard_for s (tsx_status_code b) (tsx_timeout_timer b)"
  shows "op_rel a (tsx_set_state env b s ev src nn ns)"
  using assms set_state_plain[of b s] by (simp add: op_rel_def tsx_inv_def)

lemma save_last_tx_simps [simp]:
  "tsx_inv (save_last_tx a td) = tsx_inv a" "tsx_role (save_last_tx a td) = tsx_role a"
  "tsx_method (save_last_tx a td) = tsx_method a" "tsx_state (save_last_tx a td) = tsx_state a"
  "tsx_handle_200resp (save_last_tx a td) = tsx_handle_200resp a" "tsx_status_code (save_last_tx a td) = tsx_status_code a"
  "tsx_timeout_timer (save_last_tx a td) = tsx_timeout_timer a" "is_tx (tsx_last_tx (save_last_tx a td)) td"
  by (simp_all add: save_last_tx_def add_td_ref_def is_tx_def)

lemma drop_other_last_tx_simps [simp]:
  "tsx_inv (drop_other_last_tx a td) = tsx_inv a" "tsx_role (drop_other_last_tx a td) = tsx_role a"
  "tsx_method (drop_other_last_tx a td) = tsx_method a" "tsx_state (drop_other_last_tx a td) = tsx_state a"
  "tsx_handle_200resp (drop_other_last_tx a td) = tsx_handle_200resp a"
  "tsx_status_code (drop_other_last_tx a td) = tsx_status_code a"
  "tsx_timeout_timer (drop_other_last_tx a td) = tsx_timeout_timer a"
  by (simp_all add: drop_other_last_tx_def add_td_ref_def split: option.splits)

lemma resched_or_flag_simps [simp]:
  "tsx_role (resched_or_flag a d) = tsx_role a" "tsx_method (resched_or_flag a d) = tsx_method a"
  "tsx_state (resched_or_flag a d) = tsx_state a" "tsx_status_code (resched_or_flag a d) = tsx_status_code a"
  "tsx_timeout_timer (resched_or_flag a d) = tsx_timeout_timer a"
  "tsx_handle_200resp (resched_or_flag a d) = tsx_handle_200resp a"
  "tsx_state a \<noteq> PJSIP_TSX_STATE_DESTROYED \<Longrightarrow> tsx_inv (resched_or_flag a d) = tsx_inv a"
  by (simp_all add: resched_or_flag_def Let_def upd_defs)

lemma timer_simps [simp]:
  "tsx_role (cancel_timeout a) = tsx_role a" "tsx_method (cancel_timeout a) = tsx_method a"
  "tsx_state (cancel_timeout a) = tsx_state a" "tsx_status_code (cancel_timeout a) = tsx_status_code a"
  "tsx_is_reliable (cancel_timeout a) = tsx_is_reliable a" "tsx_last_tx (cancel_timeout a) = tsx_last_tx a"
  "tsx_role (cancel_retransmit a) = tsx_role a" "tsx_method (cancel_retransmit a) = tsx_method a"
  "tsx_state (cancel_retransmit a) = tsx_state a" "tsx_status_code (cancel_retransmit a) = tsx_status_code a"
  "tsx_timeout_timer (cancel_retransmit a) = tsx_timeout_timer a" "tsx_inv (cancel_retransmit a) = tsx_inv a"
  "tsx_is_reliable (cancel_retransmit a) = tsx_is_reliable a" "tsx_last_tx (cancel_retransmit a) = tsx_last_tx a"
  "tsx_handle_200resp (cancel_retransmit a) = tsx_handle_200resp a"
  "tsx_role (schedule_timeout a d i) = tsx_role a" "tsx_method (schedule_timeout a d i) = tsx_method a"
  "tsx_state (schedule_timeout a d i) = tsx_state a" "tsx_status_code (schedule_timeout a d i) = tsx_status_code a"
  "tsx_is_reliable (schedule_timeout a d i) = tsx_is_reliable a"
  "tsx_role (schedule_retransmit a d) = tsx_role a" "tsx_method (schedule_retransmit a d) = tsx_method a"
  "tsx_state (schedule_retransmit a d) = tsx_state a" "tsx_status_code (schedule_retransmit a d) = tsx_status_code a"
  "tsx_timeout_timer (schedule_retransmit a d) = tsx_timeout_timer a" "tsx_inv (schedule_retransmit a d) = tsx_inv a"
  by (simp_all add: upd_defs)

lemma timer_early [simp]:
  "tsx_state a < PJSIP_TSX_STATE_COMPLETED \<Longrightarrow> tsx_inv (cancel_timeout a) = tsx_inv a"
  "tsx_state a < PJSIP_TSX_STATE_COMPLETED \<Longrightarrow> tsx_inv (schedule_timeout a d i) = tsx_inv a"
  "tsx_state a < PJSIP_TSX_STATE_COMPLETED \<Longrightarrow> tsx_inv (tsx_set_status_code a c) = tsx_inv a"
  by (simp_all add: upd_defs)

lemma restart_inv [simp]: "tsx_inv a \<Longrightarrow> tsx_inv (schedule_timeout (cancel_timeout a) d TIMEOUT_TIMER)"
proof -
  have "schedule_timeout (cancel_timeout a) d TIMEOUT_TIMER =
      a\<lparr>tsx_timeout_timer := \<lparr>tm_id = TIMEOUT_TIMER, tm_delay = Some d\<rparr>\<rparr>" by (simp add: timer_defs)
  then show "tsx_inv a \<Longrightarrow> ?thesis" by simp
qed

lemma null_ok:
  assumes e: "env_ok env" and i: "tsx_inv a" and s: "tsx_state a = PJSIP_TSX_STATE_NULL"
  shows "op_rel a (fst (tsx_on_state_null env a event))"
proof (cases "tsx_role a")
  case PJSIP_ROLE_UAS
  then show ?thesis using i s unfolding tsx_on_state_null_def by (simp add: plain_op_rel)
next
  case PJSIP_ROLE_UAC
  have "op_rel a (fst (null_send env a td))" for td
  proof -
    define b where "b = save_last_tx (drop_other_last_tx a td) td"
    have b: "tsx_inv b" "tsx_role b = tsx_role a" "tsx_method b = tsx_method a" "tsx_state b = PJSIP_TSX_STATE_NULL"
      using i s by (simp_all add: b_def)
    obtain c st where c: "tsx_send_msg env b (Some td) = (c, st)" by fastforce
    have bc: "op_rel a c" using op_rel_from[OF send_op_rel[OF e b(1), of "Some td"], of a] b s c by simp
    show ?thesis
    proof (cases "st = PJ_SUCCESS")
      case False
      then show ?thesis using bc c unfolding null_send_def Let_def b_def[symmetric] by simp
    next
      case True
      then have "tsx_inv c" "tsx_role c = tsx_role a" "tsx_method c = tsx_method a" "tsx_state c = PJSIP_TSX_STATE_NULL"
        using send_success[OF e b(1), of "Some td"] b c by auto
      then show ?thesis using True c PJSIP_ROLE_UAC s unfolding null_send_def Let_def b_def[symmetric] set_state_tx_def
        by (auto simp: start_timeout_def intro!: plain_op_rel)
    qed
  qed
  then show ?thesis using PJSIP_ROLE_UAC op_rel_refl[OF i] unfolding tsx_on_state_null_def by (cases event) simp_all
qed

lemma resched_simps [simp]:
  "tsx_role (tsx_resched_retransmission env a) = tsx_role a" "tsx_method (tsx_resched_retransmission env a) = tsx_method a"
  "tsx_state (tsx_resched_retransmission env a) = tsx_state a" "tsx_inv (tsx_resched_retransmission env a) = tsx_inv a"
  "tsx_last_tx (tsx_resched_retransmission env a) = tsx_last_tx a"
  by (simp_all add: tsx_resched_retransmission_def Let_def upd_defs)

lemma retransmit_ok:
  assumes e: "env_ok env" and i: "tsx_inv a" and s: "tsx_state a \<noteq> PJSIP_TSX_STATE_DESTROYED"
  shows "op_rel a (fst (tsx_retransmit env a r))"
proof (cases "tsx_last_tx a")
  case None
  then show ?thesis by (simp add: tsx_retransmit_def op_rel_refl i)
next
  case (Some td)
  define b where "b = a\<lparr>tsx_retransmit_count := tsx_retransmit_count a + 1\<rparr>"
  define c where "c = (if r then if tsx_pending_transport b then b\<lparr>tsx_pending_resched := True\<rparr>
      else tsx_resched_retransmission env b else b)"
  have c: "tsx_inv c" "tsx_role c = tsx_role a" "tsx_method c = tsx_method a" "tsx_state c = tsx_state a"
    using i s by (simp_all add: c_def b_def)
  have "op_rel a (fst (tsx_send_msg env c x))" for x
    using op_rel_from[OF send_op_rel[OF e c(1)], of a] c s by simp
  moreover have "op_rel a (schedule_timeout (cancel_timeout a) d TIMEOUT_TIMER)" for d
    using i by (simp add: op_rel_def)
  ultimately show ?thesis unfolding tsx_retransmit_def Some Let_def b_def[symmetric] c_def
    by (auto simp: op_rel_refl i b_def)
qed

text \<open>Client transactions: responses in Calling and Proceeding.\<close>

definition uac_waiting :: "pjsip_transaction \<Rightarrow> bool" where
  "uac_waiting a \<longleftrightarrow> tsx_inv a \<and> tsx_role a = PJSIP_ROLE_UAC \<and>
     (tsx_state a = PJSIP_TSX_STATE_CALLING \<or> tsx_state a = PJSIP_TSX_STATE_PROCEEDING)"

lemma uac_waiting_early: "uac_waiting a \<Longrightarrow> tsx_state a < PJSIP_TSX_STATE_COMPLETED \<and> tsx_state a < PJSIP_TSX_STATE_TERMINATED
    \<and> flags_ok a \<and> tsx_state a \<noteq> PJSIP_TSX_STATE_DESTROYED"
  by (auto simp: uac_waiting_def tsx_inv_def)

lemma uac_waiting_update [simp]:
  "uac_waiting a \<Longrightarrow> uac_waiting (cancel_timeout a)" "uac_waiting a \<Longrightarrow> uac_waiting (cancel_retransmit a)"
  "uac_waiting a \<Longrightarrow> uac_waiting (schedule_timeout a d i)" "uac_waiting a \<Longrightarrow> uac_waiting (tsx_set_status_code a c)"
  "uac_waiting a \<Longrightarrow> uac_waiting (schedule_retransmit a d)" "uac_waiting a \<Longrightarrow> uac_waiting (a\<lparr>tsx_pending_resched := False\<rparr>)"
  by (auto simp: uac_waiting_def)

lemma uac_set_state:
  assumes "uac_waiting b" "tsx_method b = tsx_method a" "tsx_role b = tsx_role a" "tsx_state b = tsx_state a"
    "s = PJSIP_TSX_STATE_PROCEEDING \<or> s = PJSIP_TSX_STATE_COMPLETED \<or> s = PJSIP_TSX_STATE_TERMINATED"
    "s = PJSIP_TSX_STATE_COMPLETED \<longrightarrow> guard_for s (tsx_status_code b) (tsx_timeout_timer b)"
  shows "op_rel a (set_state_rx env b s r)"
proof (cases "s = PJSIP_TSX_STATE_TERMINATED")
  case True
  have "op_rel b (set_state_rx env b s r)" unfolding True set_state_rx_def
    using uac_waiting_early[OF assms(1)] by (simp add: terminate_op_rel)
  then show ?thesis by (rule op_rel_from) (simp_all add: assms)
next
  case False
  then show ?thesis using assms uac_waiting_early[OF assms(1)] unfolding set_state_rx_def uac_waiting_def
    by (auto intro!: plain_op_rel)
qed

lemma uac_on_2xx_ok:
  assumes "uac_waiting a"
  shows "op_rel a (fst (uac_on_2xx env a r))"
  using assms unfolding uac_on_2xx_def Let_def by (auto intro!: uac_set_state)

lemma restart_makes_inv: "tsx_typed a \<Longrightarrow> flags_ok a \<Longrightarrow> tsx_inv (schedule_timeout (cancel_timeout a) d TIMEOUT_TIMER)"
  by (simp add: inv_defs gave_to_transport_def timer_defs)

lemma flags_update2 [simp]:
  "flags_ok (a\<lparr>tsx_last_tx := x1\<rparr>) = flags_ok a" "flags_ok (a\<lparr>tsx_td_refs := x2\<rparr>) = flags_ok a"
  "tsx_typed (a\<lparr>tsx_last_tx := x1\<rparr>) = tsx_typed a" "tsx_typed (a\<lparr>tsx_td_refs := x2\<rparr>) = tsx_typed a"
  by (simp_all add: flags_ok_def gave_to_transport_def tsx_typed_def)

lemma uac_complete_ok:
  assumes w: "uac_waiting b" and ab: "tsx_method b = tsx_method a" "tsx_role b = tsx_role a" "tsx_state b = tsx_state a"
  shows "op_rel a (fst (uac_complete env b r ack))"
proof -
  define c where "c = set_state_rx env b PJSIP_TSX_STATE_COMPLETED r"
  have fb: "flags_ok b" using w by (simp add: uac_waiting_def tsx_inv_def)
  have fc: "flags_ok c" using fb w unfolding c_def set_state_rx_def tsx_set_state_def
    by (auto simp: Let_def flags_ok_def uac_waiting_def)
  have tc: "tsx_typed c" using w by (simp add: tsx_typed_def c_def set_state_rx_def uac_waiting_def)
  define d where "d = (case ack of
                   Some k \<Rightarrow> (if is_tx (tsx_last_tx c) k then c
                              else (case tsx_last_tx c of Some l \<Rightarrow> add_td_ref (- 1) l c | None \<Rightarrow> c)
                                     \<lparr>tsx_last_tx := Some k\<rparr>)
                 | None \<Rightarrow> c)"
  have "flags_ok d" "tsx_typed d" "tsx_role d = tsx_role c" "tsx_method d = tsx_method c" "tsx_state d = tsx_state c"
    using fc tc by (simp_all add: d_def add_td_ref_def split: option.splits)
  moreover have "tsx_role c = tsx_role a" "tsx_method c = tsx_method a" "tsx_state c = PJSIP_TSX_STATE_COMPLETED"
    by (simp_all add: c_def set_state_rx_def ab)
  ultimately have "op_rel a (schedule_timeout (cancel_timeout d) t TIMEOUT_TIMER)" for t
    using w ab by (auto simp: op_rel_def restart_makes_inv uac_waiting_def)
  then show ?thesis unfolding uac_complete_def Let_def c_def[symmetric] d_def[symmetric] by simp
qed

lemma uac_on_failure_ok:
  assumes e: "env_ok env" and w: "uac_waiting a"
  shows "op_rel a (fst (uac_on_failure env a r))"
proof -
  define b where "b = cancel_timeout (cancel_retransmit a)"
  have b: "uac_waiting b" "tsx_method b = tsx_method a" "tsx_role b = tsx_role a" "tsx_state b = tsx_state a"
    using w by (simp_all add: b_def)
  then have ib: "tsx_inv b" "tsx_state b < PJSIP_TSX_STATE_TERMINATED" "tsx_state b \<noteq> PJSIP_TSX_STATE_DESTROYED"
    using uac_waiting_early[OF b(1)] by (simp_all add: uac_waiting_def)
  have ab: "op_rel a b" using ib b by (simp add: op_rel_def)
  have ack: "op_rel a (fst (let (tsx, status) = tsx_send_msg env b (Some k)
      in if status \<noteq> PJ_SUCCESS then (tsx, status) else uac_complete env tsx r (Some k)))" for k
  proof -
    obtain c st where c: "tsx_send_msg env b (Some k) = (c, st)" by fastforce
    have "op_rel a c" using op_rel_from[OF send_op_rel[OF e ib(1,3), of "Some k"], of a] b c by simp
    moreover have "op_rel a (fst (uac_complete env c r (Some k)))" if "st = PJ_SUCCESS"
    proof -
      have "tsx_inv c" "tsx_role c = tsx_role b" "tsx_method c = tsx_method b" "tsx_state c = tsx_state b"
        using send_success[OF e ib(1,2), of "Some k"] c that by simp_all
      then show ?thesis using b by (intro uac_complete_ok) (simp_all add: uac_waiting_def)
    qed
    ultimately show ?thesis using c by simp
  qed
  show ?thesis unfolding uac_on_failure_def Let_def[of b] b_def[symmetric]
    using ack ab uac_complete_ok[OF b] uac_set_state[OF b] by (auto simp: Let_def split: sum.splits)
qed

lemma uac_on_response_ok:
  assumes e: "env_ok env" and w: "uac_waiting a"
  shows "op_rel a (fst (uac_on_response env a r))"
proof -
  define b where "b = tsx_set_status_code a (rx_code r)"
  have b: "uac_waiting b" "tsx_role b = tsx_role a" "tsx_method b = tsx_method a" "tsx_state b = tsx_state a"
    using w by (simp_all add: b_def)
  have "op_rel a (fst (uac_on_2xx env b r))" "op_rel a (fst (uac_on_failure env b r))"
    using op_rel_from[OF uac_on_2xx_ok[OF b(1)] b(2-4)] op_rel_from[OF uac_on_failure_ok[OF e b(1)] b(2-4)] by auto
  moreover have "op_rel a b" "op_rel a a" using b w by (simp_all add: op_rel_def uac_waiting_def)
  moreover have "op_rel a (set_state_rx env b PJSIP_TSX_STATE_PROCEEDING r)"
    using uac_set_state[OF b(1,3,2,4)] by simp
  ultimately show ?thesis unfolding uac_on_response_def Let_def b_def[symmetric] by simp
qed

lemma uac_timeout_op_rel:
  "uac_waiting b \<Longrightarrow> tsx_role b = tsx_role a \<Longrightarrow> tsx_method b = tsx_method a \<Longrightarrow> tsx_state b = tsx_state a \<Longrightarrow>
   op_rel a (set_state_timer env b PJSIP_TSX_STATE_TERMINATED)"
  unfolding set_state_timer_def using uac_waiting_early[of b] terminate_op_rel[of b] op_rel_from by blast

lemma proceeding_uac_ok:
  assumes e: "env_ok env" and w: "uac_waiting a"
  shows "op_rel a (fst (tsx_on_state_proceeding_uac env a event))"
proof (cases event)
  case (TimerEvent en)
  have "op_rel a (fst (tsx_retransmit env a True))"
    using retransmit_ok[OF e] uac_waiting_early[OF w] w by (simp add: uac_waiting_def)
  then show ?thesis using w unfolding TimerEvent tsx_on_state_proceeding_uac_def
    by (cases en) (simp_all add: uac_timeout_op_rel)
next
  case (RxEvent r)
  then show ?thesis using uac_on_response_ok[OF e w] by (simp add: tsx_on_state_proceeding_uac_def)
next
  case (TxEvent td)
  then show ?thesis using w by (simp add: tsx_on_state_proceeding_uac_def op_rel_def uac_waiting_def)
qed

lemma calling_ok:
  assumes e: "env_ok env" and w: "uac_waiting a"
  shows "op_rel a (fst (tsx_on_state_calling env a event))"
proof (cases event)
  case (TimerEvent en)
  have "op_rel a (fst (tsx_retransmit env a True))"
    using retransmit_ok[OF e] uac_waiting_early[OF w] w by (simp add: uac_waiting_def)
  then show ?thesis using w unfolding TimerEvent tsx_on_state_calling_def
    by (cases en) (simp_all add: uac_timeout_op_rel Let_def)
next
  case (RxEvent r)
  define b where "b = calling_timers env a r"
  have "uac_waiting b" "tsx_role b = tsx_role a" "tsx_method b = tsx_method a" "tsx_state b = tsx_state a"
    using w by (simp_all add: b_def calling_timers_def Let_def)
  then have "op_rel a (fst (tsx_on_state_proceeding_uac env b event))"
    using op_rel_from[OF proceeding_uac_ok[OF e]] by blast
  then show ?thesis using w RxEvent unfolding tsx_on_state_calling_def
    by (simp add: b_def op_rel_def uac_waiting_def)
next
  case (TxEvent td)
  then show ?thesis using w by (simp add: tsx_on_state_calling_def op_rel_def uac_waiting_def)
qed

text \<open>Server transactions.\<close>

definition uas_waiting :: "pjsip_transaction \<Rightarrow> bool" where
  "uas_waiting a \<longleftrightarrow> tsx_inv a \<and> tsx_role a = PJSIP_ROLE_UAS \<and>
     (tsx_state a = PJSIP_TSX_STATE_TRYING \<or> tsx_state a = PJSIP_TSX_STATE_PROCEEDING)"

lemma uas_waiting_early: "uas_waiting a \<Longrightarrow> tsx_state a < PJSIP_TSX_STATE_COMPLETED \<and> tsx_state a < PJSIP_TSX_STATE_TERMINATED
    \<and> flags_ok a \<and> tsx_state a \<noteq> PJSIP_TSX_STATE_DESTROYED"
  by (auto simp: uas_waiting_def tsx_inv_def)

lemma uas_waiting_update [simp]:
  "uas_waiting a \<Longrightarrow> uas_waiting (cancel_timeout a)" "uas_waiting a \<Longrightarrow> uas_waiting (cancel_retransmit a)"
  "uas_waiting a \<Longrightarrow> uas_waiting (schedule_timeout a d i)" "uas_waiting a \<Longrightarrow> uas_waiting (tsx_set_status_code a c)"
  "uas_waiting a \<Longrightarrow> uas_waiting (resched_or_flag a d)" "uas_waiting a \<Longrightarrow> uas_waiting (save_last_tx a td)"
  "uas_waiting a \<Longrightarrow> uas_waiting (drop_other_last_tx a td)"
  by (auto simp: uas_waiting_def)

definition same_tsx :: "pjsip_transaction \<Rightarrow> pjsip_transaction \<Rightarrow> bool" where
  "same_tsx a b \<longleftrightarrow> tsx_role b = tsx_role a \<and> tsx_method b = tsx_method a \<and> tsx_state b = tsx_state a"

lemma uas_set_state:
  assumes "uas_waiting b" "same_tsx a b"
    "s = PJSIP_TSX_STATE_PROCEEDING \<or> s = PJSIP_TSX_STATE_COMPLETED \<or> s = PJSIP_TSX_STATE_TERMINATED"
    "s = PJSIP_TSX_STATE_COMPLETED \<longrightarrow> guard_for s (tsx_status_code b) (tsx_timeout_timer b)"
  shows "op_rel a (set_state_tx env b s)"
proof (cases "s = PJSIP_TSX_STATE_TERMINATED")
  case True
  have "op_rel b (set_state_tx env b s)" unfolding True set_state_tx_def
    using uas_waiting_early[OF assms(1)] by (simp add: terminate_op_rel)
  then show ?thesis by (rule op_rel_from) (use assms(2) in \<open>simp_all add: same_tsx_def\<close>)
next
  case False
  then show ?thesis using assms uas_waiting_early[OF assms(1)] unfolding set_state_tx_def uas_waiting_def same_tsx_def
    by (auto intro!: plain_op_rel)
qed

lemma uas_sent_1xx_ok:
  assumes "uas_waiting b" "same_tsx a b"
  shows "op_rel a (uas_sent_1xx env b td)"
proof -
  define c where "c = set_state_tx env (save_last_tx b td) PJSIP_TSX_STATE_PROCEEDING"
  have "op_rel a c" unfolding c_def using assms by (intro uas_set_state) (simp_all add: same_tsx_def)
  moreover have "op_rel a (resched_or_flag (cancel_retransmit c) d)" for d
    using \<open>op_rel a c\<close> unfolding op_rel_def by (simp add: c_def set_state_tx_def)
  ultimately show ?thesis unfolding uas_sent_1xx_def Let_def c_def[symmetric] by simp
qed

lemma uas_sent_2xx_ok:
  assumes "uas_waiting b" "same_tsx a b"
  shows "op_rel a (uas_sent_2xx env b td)"
  using assms unfolding uas_sent_2xx_def Let_def by (auto intro!: uas_set_state simp: same_tsx_def)

lemma uas_sent_failure_ok:
  assumes "uas_waiting b" "same_tsx a b"
  shows "op_rel a (uas_sent_failure env b td)"
  using assms unfolding uas_sent_failure_def Let_def by (auto intro!: uas_set_state simp: same_tsx_def)

lemma uas_send_ok:
  assumes e: "env_ok env" and w: "uas_waiting a"
  shows "op_rel a (fst (uas_send env a td))"
proof -
  define b where "b = drop_other_last_tx (tsx_set_status_code a (td_code td)) td"
  have b: "uas_waiting b" "tsx_role b = tsx_role a" "tsx_method b = tsx_method a" "tsx_state b = tsx_state a"
    using w by (simp_all add: b_def)
  then have ib: "tsx_inv b" "tsx_state b < PJSIP_TSX_STATE_TERMINATED" "tsx_state b \<noteq> PJSIP_TSX_STATE_DESTROYED"
    using uas_waiting_early[OF b(1)] by (simp_all add: uas_waiting_def)
  obtain c st where c: "tsx_send_msg env b (Some td) = (c, st)" by fastforce
  have ac: "op_rel a c" using op_rel_from[OF send_op_rel[OF e ib(1,3), of "Some td"], of a] b c by simp
  have "uas_waiting c" "same_tsx a c" if "st = PJ_SUCCESS"
    using send_success[OF e ib(1,2), of "Some td"] c b that by (simp_all add: uas_waiting_def same_tsx_def)
  then have "st = PJ_SUCCESS \<Longrightarrow> op_rel a (uas_sent_1xx env c td)" "st = PJ_SUCCESS \<Longrightarrow> op_rel a (uas_sent_2xx env c td)"
    "st = PJ_SUCCESS \<Longrightarrow> op_rel a (uas_sent_failure env c td)"
    using uas_sent_1xx_ok uas_sent_2xx_ok uas_sent_failure_ok by blast+
  moreover have "op_rel a a" using w by (simp add: op_rel_def uas_waiting_def)
  ultimately show ?thesis using ac c unfolding uas_send_def Let_def b_def[symmetric] by simp
qed

lemma proceeding_uas_ok:
  assumes e: "env_ok env" and w: "uas_waiting a"
  shows "op_rel a (fst (tsx_on_state_proceeding_uas env a event))"
proof (cases event)
  case (TimerEvent en)
  have "op_rel a (fst (tsx_retransmit env a True))"
    using retransmit_ok[OF e] uas_waiting_early[OF w] w by (simp add: uas_waiting_def)
  moreover have "op_rel a (set_state_timer env (tsx_set_status_code a c) PJSIP_TSX_STATE_TERMINATED)" for c
    unfolding set_state_timer_def by (rule op_rel_from[OF terminate_op_rel]) (use uas_waiting_early[OF w] in simp_all)
  ultimately show ?thesis unfolding TimerEvent tsx_on_state_proceeding_uas_def by (cases en) simp_all
next
  case (RxEvent r)
  have "tsx_inv (a\<lparr>tsx_pending_send := True\<rparr>)" if "tsx_pending_transport a"
    using w that by (auto simp: uas_waiting_def inv_defs gave_to_transport_def)
  then show ?thesis using w send_op_rel[OF e, of a] uas_waiting_early[OF w] unfolding RxEvent tsx_on_state_proceeding_uas_def
    by (auto simp: uas_waiting_def op_rel_refl) (simp_all add: op_rel_def)
next
  case (TxEvent td)
  then show ?thesis using uas_send_ok[OF e w] by (simp add: tsx_on_state_proceeding_uas_def)
qed

lemma trying_ok:
  assumes e: "env_ok env" and w: "uas_waiting a" and s: "tsx_state a = PJSIP_TSX_STATE_TRYING"
  shows "op_rel a (fst (tsx_on_state_trying env a event))"
proof (cases event)
  case (TxEvent td)
  obtain b st where b: "tsx_on_state_proceeding_uas env a event = (b, st)" by fastforce
  have ab: "op_rel a b" using proceeding_uas_ok[OF e w, of event] b by simp
  have "op_rel a (set_state_tx env b PJSIP_TSX_STATE_PROCEEDING)" if "tsx_state b = PJSIP_TSX_STATE_TRYING"
  proof (rule uas_set_state)
    show "uas_waiting b" "same_tsx a b" using ab w that s by (auto simp: op_rel_def uas_waiting_def same_tsx_def)
  qed simp_all
  then show ?thesis using ab b TxEvent unfolding tsx_on_state_trying_def by simp
qed (use w in \<open>simp_all add: tsx_on_state_trying_def op_rel_def uas_waiting_def\<close>)

text \<open>The states in which the transaction waits for its end.\<close>

lemma end_timer_ok:
  "flags_ok a \<Longrightarrow> tsx_state a < PJSIP_TSX_STATE_TERMINATED \<Longrightarrow> op_rel a (set_state_timer env a PJSIP_TSX_STATE_TERMINATED)"
  by (simp add: set_state_timer_def terminate_op_rel)

lemma completed_uas_ok:
  assumes e: "env_ok env" and f: "flags_ok a" "tsx_typed a" and s: "tsx_state a = PJSIP_TSX_STATE_COMPLETED"
    and r: "tsx_role a = PJSIP_ROLE_UAS" and g: "event \<noteq> TimerEvent TIMEOUT_ENTRY \<longrightarrow> timer_guard a"
  shows "op_rel a (fst (tsx_on_state_completed_uas env a event))"
proof (cases "event = TimerEvent TIMEOUT_ENTRY")
  case True
  have "op_rel a (set_state_timer env (tsx_set_status_code a c) PJSIP_TSX_STATE_TERMINATED)" for c
    by (rule op_rel_from[OF end_timer_ok]) (simp_all add: f s)
  then show ?thesis using True f s by (simp add: tsx_on_state_completed_uas_def end_timer_ok)
next
  case False
  then have i: "tsx_inv a" using f g by (simp add: tsx_inv_def)
  have ack: "op_rel a (fst (uas_on_ack env a rd))" for rd
  proof -
    define b where "b = schedule_timeout (cancel_timeout ((cancel_retransmit a)\<lparr>tsx_pending_resched := False\<rparr>))
      (if tsx_is_reliable a then TimeVal 0 0 else tv_of_msec (cfg_t4 env)) TIMEOUT_TIMER"
    have "tsx_method a = PJSIP_INVITE_METHOD \<Longrightarrow> op_rel a (set_state_rx env b PJSIP_TSX_STATE_CONFIRMED rd)"
      unfolding set_state_rx_def by (rule plain_op_rel) (use i s r in \<open>simp_all add: b_def\<close>)
    then show ?thesis unfolding uas_on_ack_def Let_def by (auto simp: b_def op_rel_refl i)
  qed
  show ?thesis using False retransmit_ok[OF e i] ack s unfolding tsx_on_state_completed_uas_def
    by (cases event) (auto simp: op_rel_refl i split: tsx_entry.splits)
qed

lemma completed_uac_ok:
  assumes e: "env_ok env" and f: "flags_ok a" "tsx_typed a" and s: "tsx_state a = PJSIP_TSX_STATE_COMPLETED"
    and g: "event \<noteq> TimerEvent TIMEOUT_ENTRY \<longrightarrow> timer_guard a"
  shows "op_rel a (fst (tsx_on_state_completed_uac env a event))"
proof (cases "event = TimerEvent TIMEOUT_ENTRY")
  case True
  then show ?thesis using f s by (simp add: tsx_on_state_completed_uac_def end_timer_ok)
next
  case False
  then have i: "tsx_inv a" using f g by (simp add: tsx_inv_def)
  show ?thesis using False retransmit_ok[OF e i] s unfolding tsx_on_state_completed_uac_def
    by (cases event) (auto simp: op_rel_refl i split: tsx_entry.splits)
qed

lemma confirmed_ok:
  assumes f: "flags_ok a" "tsx_typed a" and s: "tsx_state a = PJSIP_TSX_STATE_CONFIRMED"
    and g: "event \<noteq> TimerEvent TIMEOUT_ENTRY \<longrightarrow> timer_guard a"
  shows "op_rel a (fst (tsx_on_state_confirmed env a event))"
proof (cases "event = TimerEvent TIMEOUT_ENTRY")
  case True
  then show ?thesis using f s by (simp add: tsx_on_state_confirmed_def end_timer_ok)
next
  case False
  then have i: "tsx_inv a" using f g by (simp add: tsx_inv_def)
  show ?thesis using False unfolding tsx_on_state_confirmed_def
    by (cases event) (auto simp: op_rel_refl i split: tsx_entry.splits)
qed

lemma terminated_ok:
  assumes f: "flags_ok a" "tsx_typed a" and s: "tsx_state a = PJSIP_TSX_STATE_TERMINATED"
    and g: "event \<noteq> TimerEvent TIMEOUT_ENTRY \<longrightarrow> timer_guard a"
  shows "op_rel a (fst (tsx_on_state_terminated env a event))"
  using assms by (cases event)
    (auto simp: tsx_on_state_terminated_def set_state_timer_def op_rel_def tsx_inv_def destroy_inv[unfolded tsx_inv_def])

section \<open>Operations and reachable transactions\<close>

lemma dispatch_ok:
  assumes e: "env_ok env" and f: "flags_ok a" "tsx_typed a" and g: "event \<noteq> TimerEvent TIMEOUT_ENTRY \<longrightarrow> timer_guard a"
  shows "\<exists>b st. tsx_dispatch env a event = Some (b, st) \<and> op_rel a b"
proof -
  have early: "tsx_inv a" if "tsx_state a < PJSIP_TSX_STATE_COMPLETED \<or> tsx_state a = PJSIP_TSX_STATE_DESTROYED"
    using that f by (auto simp: tsx_inv_def timer_guard_def)
  have "\<exists>h. tsx_state_handler (tsx_role a) (tsx_state a) = Some h \<and> op_rel a (fst (h env a event))"
  proof (cases "tsx_state a")
    case PJSIP_TSX_STATE_NULL
    then show ?thesis using null_ok[OF e early] by (cases "tsx_role a") simp_all
  next
    case PJSIP_TSX_STATE_CALLING
    then show ?thesis using calling_ok[OF e] early f(2)
      by (cases "tsx_role a") (simp_all add: uac_waiting_def tsx_typed_def)
  next
    case PJSIP_TSX_STATE_TRYING
    then show ?thesis using trying_ok[OF e] early f(2)
      by (cases "tsx_role a") (simp_all add: uas_waiting_def tsx_typed_def)
  next
    case PJSIP_TSX_STATE_PROCEEDING
    then show ?thesis using proceeding_uac_ok[OF e] proceeding_uas_ok[OF e] early
      by (cases "tsx_role a") (simp_all add: uas_waiting_def uac_waiting_def)
  next
    case PJSIP_TSX_STATE_COMPLETED
    then show ?thesis using completed_uac_ok[OF e f _ g] completed_uas_ok[OF e f _ _ g] by (cases "tsx_role a") simp_all
  next
    case PJSIP_TSX_STATE_CONFIRMED
    then show ?thesis using confirmed_ok[OF f _ g] by (cases "tsx_role a") simp_all
  next
    case PJSIP_TSX_STATE_TERMINATED
    then show ?thesis using terminated_ok[OF f _ g] by (cases "tsx_role a") simp_all
  next
    case PJSIP_TSX_STATE_DESTROYED
    then show ?thesis using early by (cases "tsx_role a") (simp_all add: tsx_on_state_destroyed_def op_rel_refl)
  qed
  then obtain h where "tsx_state_handler (tsx_role a) (tsx_state a) = Some h" "op_rel a (fst (h env a event))" by blast
  then show ?thesis by (cases "h env a event") (simp add: tsx_dispatch_def)
qed

datatype tsx_op =
    OpSend "pjsip_tx_data option" | OpRecv pjsip_rx_data | OpTimer tsx_entry
  | OpReport pjsip_tx_data send_report | OpTransportDone sent_result | OpTransportState pj_status
  | OpTerminate int | OpTerminateAsync int | OpStopRetransmit | OpSetTimeout int
  | OpRetransmitNoState "pjsip_tx_data option"

text \<open>One operation on the transaction; \<open>None\<close> is a call through a null handler.\<close>

fun tsx_exec :: "tsx_env \<Rightarrow> pjsip_transaction \<Rightarrow> tsx_op \<Rightarrow> pjsip_transaction option" where
  "tsx_exec env a (OpSend td) = map_option fst (pjsip_tsx_send_msg env a td)"
| "tsx_exec env a (OpRecv r) = pjsip_tsx_recv_msg env a r"
| "tsx_exec env a (OpTimer e) = tsx_timer_callback env (expire e a) e"
| "tsx_exec env a (OpReport td rep) = Some (send_msg_callback tsx_send_msg env td a rep)"
| "tsx_exec env a (OpTransportDone sent) = Some (transport_callback env a sent)"
| "tsx_exec env a (OpTransportState err) = Some (tsx_tp_state_callback a err)"
| "tsx_exec env a (OpTerminate code) = Some (fst (pjsip_tsx_terminate env a code))"
| "tsx_exec env a (OpTerminateAsync code) = Some (fst (pjsip_tsx_terminate_async a code))"
| "tsx_exec env a OpStopRetransmit = Some (fst (pjsip_tsx_stop_retransmit a))"
| "tsx_exec env a (OpSetTimeout ms) = Some (fst (pjsip_tsx_set_timeout a ms))"
| "tsx_exec env a (OpRetransmitNoState td) = Some (fst (pjsip_tsx_retransmit_no_state env a td))"

text \<open>
  When an operation may happen: a timer fires only while it is in the heap, the transport reports
  only for a message that was given to it, a failure report carries an error, nobody sends on a
  destroyed transaction. One restriction is not in the code: the histories leave out a call of
  \<open>pjsip_tsx_terminate_async\<close> on a transaction that is terminated already or whose status is below
  200. The function has no such precondition, and \<open>terminate_async_strands\<close> below shows what it does
  then: it strands the transaction. The only caller in the library (\<open>sip_inv.c\<close>, on an ACK) does not
  check the state either.
\<close>

fun op_enabled :: "pjsip_transaction \<Rightarrow> tsx_op \<Rightarrow> bool" where
  "op_enabled a (OpTimer e) = (tm_delay (entry_of e a) \<noteq> None)"
| "op_enabled a (OpReport td rep) = report_ok rep"
| "op_enabled a (OpTransportDone sent) = gave_to_transport a"
| "op_enabled a (OpTerminateAsync code) =
     (tsx_state a < PJSIP_TSX_STATE_TERMINATED \<and> tsx_status_code a \<ge> 200)"
| "op_enabled a (OpRetransmitNoState td) = (tsx_state a \<noteq> PJSIP_TSX_STATE_DESTROYED)"
| "op_enabled a _ = True"

inductive tsx_reach :: "tsx_env \<Rightarrow> pjsip_transaction \<Rightarrow> bool" for env where
  create_uac: "pjsip_tsx_create_uac2 env u td reg = Inr tsx \<Longrightarrow> tsx_reach env tsx"
| create_uas: "pjsip_tsx_create_uas2 env u r keys reg = Inr tsx \<Longrightarrow> tsx_reach env tsx"
| step: "tsx_reach env a \<Longrightarrow> op_enabled a op \<Longrightarrow> tsx_exec env a op = Some b \<Longrightarrow> tsx_reach env b"

lemma cb_op_rel: "cb_rel a b \<Longrightarrow> op_rel a b"
  by (cases "tsx_state a") (auto simp: cb_rel_def send_frame_def op_rel_def)

lemma transport_state_ok: "tsx_inv a \<Longrightarrow> op_rel a (tsx_tp_state_callback a err)"
  by (simp add: tsx_tp_state_callback_def op_rel_def Let_def)

lemma transport_callback_ok:
  assumes e: "env_ok env" and i: "tsx_inv a" and g: "gave_to_transport a"
  shows "op_rel a (transport_callback env a sent)"
proof -
  define b where "b = a\<lparr>tsx_pending_transport := False\<rparr>"
  have b: "tsx_inv b" "tsx_role b = tsx_role a" "tsx_method b = tsx_method a" "tsx_state b = tsx_state a"
    using i g by (auto simp: b_def inv_defs gave_to_transport_def)
  have fb: "flags_ok b" using b by (simp add: tsx_inv_def)
  have destr: "op_rel a (destroyed_by env b PJSIP_EVENT_UNKNOWN None False False)" if "tsx_pending_destroy b"
    using that destroy_inv[OF fb] fb b by (simp add: op_rel_def flags_ok_def)
  define c where "c p = (if p \<or> tsx_role b = PJSIP_ROLE_UAS then flush_pending tsx_send_msg env b else b)" for p
  have c: "op_rel a (c p)" for p
  proof -
    have "cb_rel b (flush_pending tsx_send_msg env b)"
      by (rule flush_pending_rel[OF tsx_send_msg_ok[OF e] b(1)]) (use fb in \<open>simp add: flags_ok_def\<close>)
    then show ?thesis using op_rel_from[OF cb_op_rel, of b _ a] b op_rel_refl[OF b(1)]
      by (auto simp: c_def op_rel_def)
  qed
  have err: "op_rel a (t\<lparr>tsx_transport_err := x\<rparr>)" "op_rel a (t\<lparr>tsx_grp_ref := y\<rparr>)" if "op_rel a t" for t x y
    using that by (simp_all add: op_rel_def)
  have restart: "op_rel a (schedule_timeout (cancel_timeout t) d k)"
    if "op_rel a t" "tsx_state t < PJSIP_TSX_STATE_COMPLETED" for t d k
    using that by (simp add: op_rel_def)
  show ?thesis unfolding transport_callback_def Let_def b_def[symmetric] c_def[symmetric]
    using destr c by (auto intro!: err restart split: sent_result.splits)
qed

text \<open>The timer callback: an entry that has left the heap.\<close>

lemma expire_simps [simp]:
  "tsx_unregs (expire e a) = tsx_unregs a" "tsx_role (expire e a) = tsx_role a" "tsx_method (expire e a) = tsx_method a" "tsx_state (expire e a) = tsx_state a"
  "tsx_status_code (expire e a) = tsx_status_code a" "flags_ok (expire e a) = flags_ok a" "tsx_typed (expire e a) = tsx_typed a"
  "tm_id (entry_of e (expire e a)) = tm_id (entry_of e a)" "tsx_has_user (expire e a) = tsx_has_user a"
  by (cases e; simp add: expire_def update_entry_def entry_of_def flags_ok_def gave_to_transport_def tsx_typed_def)+

lemma clear_entry_simps [simp]:
  "tsx_unregs (clear_entry_id e a) = tsx_unregs a" "tsx_role (clear_entry_id e a) = tsx_role a" "tsx_method (clear_entry_id e a) = tsx_method a"
  "tsx_state (clear_entry_id e a) = tsx_state a" "tsx_status_code (clear_entry_id e a) = tsx_status_code a"
  "flags_ok (clear_entry_id e a) = flags_ok a" "tsx_typed (clear_entry_id e a) = tsx_typed a"
  "tsx_has_user (clear_entry_id e a) = tsx_has_user a"
  by (cases e; simp add: clear_entry_id_def update_entry_def entry_of_def flags_ok_def gave_to_transport_def tsx_typed_def)+

lemma expire_guard:
  "timer_guard a \<Longrightarrow> timer_guard (expire RETRANSMIT_ENTRY a)" "timer_guard a \<Longrightarrow> timer_guard (clear_entry_id RETRANSMIT_ENTRY a)"
  by (simp_all add: timer_guard_def expire_def clear_entry_id_def update_entry_def)

lemma terminated_schedule_inv:
  assumes "flags_ok a" "tsx_state a \<noteq> PJSIP_TSX_STATE_DESTROYED"
  shows "tsx_inv (schedule_timeout (notify_user (terminated_by env a ev src True True) p ev2 src2) d TIMEOUT_TIMER)"
proof -
  define b where "b = notify_user (terminated_by env a ev src True True) p ev2 src2"
  have "flags_ok b" using assms unfolding b_def flags_ok_def by auto
  moreover have "tm_delay (tsx_timeout_timer b) = None" "tsx_state b = PJSIP_TSX_STATE_TERMINATED" by (simp_all add: b_def)
  ultimately show ?thesis unfolding b_def[symmetric]
    by (simp add: inv_defs gave_to_transport_def timer_defs)
qed

lemma on_transport_gone_ok:
  assumes i: "tsx_inv a"
  shows "op_rel a (on_transport_gone env a disc)"
proof (cases "tsx_state a < PJSIP_TSX_STATE_TERMINATED")
  case False
  then show ?thesis using op_rel_refl[OF i] by (simp only: on_transport_gone_def if_True not_False_eq_True)
next
  case True
  define b where "b = a\<lparr>tsx_transport := None\<rparr>"
  have ib: "tsx_inv b" unfolding b_def by (rule tsx_inv_cong[OF i]; simp add: gave_to_transport_def)
  have b: "tsx_role b = tsx_role a" "tsx_method b = tsx_method a" "tsx_state b = tsx_state a" by (simp_all add: b_def)
  have cont: "op_rel a (b\<lparr>tsx_pending_transport := False, tsx_pending_resched := False, tsx_pending_send := False,
      tsx_pending_destroy := False, tsx_resolved_server := False\<rparr>)" if "tsx_role b = PJSIP_ROLE_UAS"
    using ib that b by (simp add: op_rel_def inv_defs gave_to_transport_def)
  have "op_rel a (schedule_timeout (notify_user (terminated_by env c ev None True True) p ev None) d TIMEOUT_TIMER)"
    if "flags_ok c" "tsx_role c = tsx_role a" "tsx_method c = tsx_method a" "tsx_state c = tsx_state a" for c ev p d
    using that True terminated_schedule_inv[of c] by (cases "tsx_state a") (simp_all add: op_rel_def)
  then show ?thesis using True cont ib b unfolding on_transport_gone_def Let_def update_transport_None b_def[symmetric]
    by (simp add: tsx_inv_def)
qed

lemma terminate_ok: "tsx_inv a \<Longrightarrow> op_rel a (fst (pjsip_tsx_terminate env a code))"
  unfolding pjsip_tsx_terminate_def
  by (auto simp: op_rel_refl intro!: op_rel_from[OF terminate_op_rel]) (simp add: tsx_inv_def)

lemma timer_ok:
  assumes e: "env_ok env" and i: "tsx_inv a"
  shows "\<exists>b. tsx_timer_callback env (expire en a) en = Some b \<and> op_rel a b"
proof -
  define x where "x = expire en a"
  define y where "y = clear_entry_id en x"
  have x: "tsx_role x = tsx_role a" "tsx_method x = tsx_method a" "tsx_state x = tsx_state a"
    "tsx_status_code x = tsx_status_code a" "flags_ok x" "tsx_typed x" "tm_id (entry_of en x) = tm_id (entry_of en a)"
    using i by (simp_all add: x_def tsx_inv_def)
  have y: "tsx_role y = tsx_role a" "tsx_method y = tsx_method a" "tsx_state y = tsx_state a" "flags_ok y" "tsx_typed y"
    using x by (simp_all add: y_def)
  have gx: "tsx_inv x" "tsx_inv y" if "en = RETRANSMIT_ENTRY \<or> tsx_state a < PJSIP_TSX_STATE_COMPLETED \<or>
      tsx_state a = PJSIP_TSX_STATE_DESTROYED"
    using that i x y expire_guard[of a] expire_guard[of x]
    by (auto simp: tsx_inv_def x_def y_def) (auto simp: timer_guard_def)
  have guard: "tsx_state a < PJSIP_TSX_STATE_COMPLETED \<or> tsx_state a = PJSIP_TSX_STATE_DESTROYED \<or>
      tm_id (entry_of en a) = TIMEOUT_TIMER \<or>
      tm_id (entry_of en a) = TERMINATE_TIMER \<and> tsx_state a < PJSIP_TSX_STATE_TERMINATED \<and> tsx_status_code a \<ge> 200"
    if "en = TIMEOUT_ENTRY"
    using i that by (cases "tsx_state a") (auto simp: tsx_inv_def timer_guard_def entry_of_def)
  have gone: "op_rel a (on_transport_gone env y d)" if "tm_id (entry_of en a) = TRANSPORT_ERR_TIMER \<or>
      tm_id (entry_of en a) = TRANSPORT_DISC_TIMER" for d
  proof -
    have "tsx_inv y" using gx(2) guard that by (cases en) auto
    then show ?thesis using op_rel_from[OF on_transport_gone_ok] y by blast
  qed
  have tmn: "op_rel a (if tsx_state x < PJSIP_TSX_STATE_TERMINATED
      then fst (pjsip_tsx_terminate env x (tsx_status_code x)) else x)" if "tm_id (entry_of en a) = TERMINATE_TIMER"
  proof (cases "tsx_status_code a \<ge> 200 \<and> tsx_state a < PJSIP_TSX_STATE_TERMINATED")
    case True
    have "op_rel a (terminated_by env (tsx_set_status_code x c) PJSIP_EVENT_USER None False False)" for c
      by (rule op_rel_from[OF terminate_op_rel]) (use True x in simp_all)
    then show ?thesis using True x by (simp add: pjsip_tsx_terminate_def)
  next
    case False
    then have "tsx_inv x" using gx(1) guard that by (cases en) auto
    then show ?thesis using x op_rel_from[OF op_rel_refl, of x a] op_rel_from[OF terminate_ok, of x a] by simp
  qed
  show ?thesis
  proof (cases "tsx_state a = PJSIP_TSX_STATE_DESTROYED")
    case True
    then show ?thesis using gx(1) x by (simp add: tsx_timer_callback_def x_def[symmetric] op_rel_def)
  next
    case False
    have "\<exists>b st. tsx_dispatch env y (TimerEvent en) = Some (b, st) \<and> op_rel y b"
      by (rule dispatch_ok[OF e y(4,5)]) (use gx(2) in \<open>cases en; auto simp: tsx_inv_def\<close>)
    then obtain b st where b: "tsx_dispatch env y (TimerEvent en) = Some (b, st)" "op_rel y b" by blast
    have "op_rel a b" using op_rel_from[OF b(2)] y by blast
    then show ?thesis using False b(1) gone tmn x unfolding tsx_timer_callback_def x_def[symmetric] y_def[symmetric]
      by (cases "tm_id (entry_of en a)") simp_all
  qed
qed

lemma recv_ok:
  assumes "env_ok env" "tsx_inv a"
  shows "\<exists>b. pjsip_tsx_recv_msg env a r = Some b \<and> op_rel a b"
  using dispatch_ok[of env a "RxEvent r"] assms by (auto simp: pjsip_tsx_recv_msg_def tsx_inv_def)

lemma send_msg_ok:
  assumes "env_ok env" "tsx_inv a"
  shows "\<exists>b st. pjsip_tsx_send_msg env a td = Some (b, st) \<and> op_rel a b"
proof (cases "if td = None then tsx_last_tx a else td")
  case None
  then show ?thesis using assms unfolding pjsip_tsx_send_msg_def by (simp add: op_rel_refl)
next
  case (Some t)
  obtain b st where b: "tsx_dispatch env a (TxEvent t) = Some (b, st)" "op_rel a b"
    using dispatch_ok[of env a "TxEvent t"] assms by (auto simp: tsx_inv_def)
  have "op_rel a (add_td_ref k t b)" for k using b(2) by (simp add: op_rel_def add_td_ref_def)
  then show ?thesis using b unfolding pjsip_tsx_send_msg_def Some by simp
qed

lemma retransmit_no_state_ok:
  assumes e: "env_ok env" and i: "tsx_inv a" and s: "tsx_state a \<noteq> PJSIP_TSX_STATE_DESTROYED"
  shows "op_rel a (fst (pjsip_tsx_retransmit_no_state env a td))"
proof -
  have snd_rel: "op_rel a (fst (tsx_send_msg env b x))" if "b = a \<or> (\<exists>l. b = add_td_ref 1 l a)" for b x
    by (rule op_rel_from[OF send_op_rel[OF e]]) (use i s that in \<open>auto simp: add_td_ref_def\<close>)
  have ref: "op_rel a (add_td_ref k l b)" if "op_rel a b" for b k l using that by (simp add: op_rel_def add_td_ref_def)
  show ?thesis unfolding pjsip_tsx_retransmit_no_state_def Let_def
    using snd_rel by (auto simp: ref split: option.splits prod.splits) (metis fst_conv ref)+
qed

theorem exec_ok:
  assumes e: "env_ok env" and i: "tsx_inv a" and o: "op_enabled a op"
  shows "\<exists>b. tsx_exec env a op = Some b \<and> op_rel a b"
proof (cases op)
  case (OpSend td)
  then show ?thesis using send_msg_ok[OF e i, of td] by auto
next
  case (OpTimer en)
  then show ?thesis using timer_ok[OF e i] by simp
next
  case (OpRecv r)
  then show ?thesis using recv_ok[OF e i] by simp
next
  case (OpReport td rep)
  then show ?thesis using o cb_op_rel[OF send_msg_callback_rel[OF tsx_send_msg_ok[OF e] i]] by simp
next
  case (OpTransportDone sent)
  then show ?thesis using o transport_callback_ok[OF e i] by simp
next
  case (OpTransportState err)
  then show ?thesis using transport_state_ok[OF i] by simp
next
  case (OpTerminate code)
  then show ?thesis using terminate_ok[OF i] by simp
next
  case (OpTerminateAsync code)
  have "tsx_inv (schedule_timeout (cancel_timeout a) d TERMINATE_TIMER)" for d
    using i o OpTerminateAsync by (cases "tsx_state a") (simp_all add: inv_defs gave_to_transport_def timer_defs)
  then show ?thesis using OpTerminateAsync i
    by (simp add: pjsip_tsx_terminate_async_def op_rel_refl) (simp add: op_rel_def)
next
  case OpStopRetransmit
  then show ?thesis using i by (simp add: pjsip_tsx_stop_retransmit_def op_rel_def)
next
  case (OpSetTimeout ms)
  then show ?thesis using i by (simp add: pjsip_tsx_set_timeout_def op_rel_def)
next
  case (OpRetransmitNoState td)
  then show ?thesis using o retransmit_no_state_ok[OF e i] by simp
qed

lemma create_uac_ok: "pjsip_tsx_create_uac2 env u td reg = Inr tsx \<Longrightarrow> tsx_inv tsx"
  by (auto simp: pjsip_tsx_create_uac2_def Let_def tsx_create_def add_td_ref_def inv_defs gave_to_transport_def
      split: if_splits sum.splits)

lemma create_uas_ok: "pjsip_tsx_create_uas2 env u r keys reg = Inr tsx \<Longrightarrow> tsx_inv tsx"
  by (auto simp: pjsip_tsx_create_uas2_def Let_def tsx_create_def inv_defs gave_to_transport_def
      split: if_splits sum.splits option.splits)

lemma reach_inv: "tsx_reach env a \<Longrightarrow> env_ok env \<Longrightarrow> tsx_inv a"
proof (induction rule: tsx_reach.induct)
  case (step a op b)
  then show ?case using exec_ok[of env a op] by (auto simp: op_rel_def)
qed (auto intro: create_uac_ok create_uas_ok)

section \<open>Properties\<close>

text \<open>An endpoint for the examples: a datagram transport that always works, and no resolution.\<close>

definition demo_ack :: pjsip_tx_data where
  "demo_ack = \<lparr>td_id = 9, td_type = PJSIP_REQUEST_MSG, td_code = 0, td_method = PJSIP_ACK_METHOD,
     td_cseq = Some PJSIP_ACK_METHOD, td_is_pending = False\<rparr>"

definition demo_env :: tsx_env where
  "demo_env = \<lparr>cfg_t1 = 500, cfg_t2 = 4000, cfg_t4 = 5000, cfg_td = 32000, cfg_timeout = 32000,
     max_retrans_count = -1, tp_reliable = (\<lambda>_. False), tp_down = (\<lambda>_. False),
     transport_send = (\<lambda>_ _. PJ_SUCCESS), endpt_send = (\<lambda>_. ([Sent 1], PJ_SUCCESS)),
     create_ack = (\<lambda>_ _. Inr demo_ack), request_dest = (\<lambda>_. Inr False),
     response_addr = (\<lambda>_. Inr (Some 1, False))\<rparr>"

definition demo_invite :: pjsip_tx_data where
  "demo_invite = \<lparr>td_id = 1, td_type = PJSIP_REQUEST_MSG, td_code = 0, td_method = PJSIP_INVITE_METHOD,
     td_cseq = Some PJSIP_INVITE_METHOD, td_is_pending = False\<rparr>"

definition demo_response :: "int \<Rightarrow> pjsip_rx_data" where
  "demo_response code = \<lparr>rx_type = PJSIP_RESPONSE_MSG, rx_code = code, rx_method = PJSIP_INVITE_METHOD,
     rx_cseq = Some PJSIP_INVITE_METHOD, rx_has_via = True\<rparr>"

definition demo_uac :: pjsip_transaction where
  "demo_uac = projr (pjsip_tsx_create_uac2 demo_env True demo_invite PJ_SUCCESS)"

fun tsx_run :: "tsx_env \<Rightarrow> pjsip_transaction \<Rightarrow> tsx_op list \<Rightarrow> pjsip_transaction option" where
  "tsx_run env a [] = Some a"
| "tsx_run env a (op # ops) =
     (if op_enabled a op then Option.bind (tsx_exec env a op) (\<lambda>b. tsx_run env b ops) else None)"

lemma reach_run: "tsx_run env a ops = Some b \<Longrightarrow> tsx_reach env a \<Longrightarrow> tsx_reach env b"
proof (induction ops arbitrary: a)
  case (Cons op ops)
  then obtain c where "op_enabled a op" "tsx_exec env a op = Some c" "tsx_run env c ops = Some b"
    by (auto split: if_splits Option.bind_splits)
  with Cons show ?case by (meson tsx_reach.step)
qed simp

lemma demo_uac_reach: "tsx_reach demo_env demo_uac"
  by (rule tsx_reach.create_uac[of _ True demo_invite PJ_SUCCESS])
    (simp add: demo_uac_def pjsip_tsx_create_uac2_def demo_env_def demo_invite_def Let_def)

lemma demo_env_ok: "env_ok demo_env"
  by (simp add: env_ok_def demo_env_def)

text \<open>
  C20 (type): a transaction that was created by \<open>pjsip_tsx_create_uac2\<close> or \<open>pjsip_tsx_create_uas2\<close> and
  operated on in any order (of the operations \<open>op_enabled\<close> allows) is always in a state that exists for its role and method, so that the
  handler table has an entry for it and no operation jumps through a null handler.
\<close>

theorem tsx_operation_returns:
  assumes "env_ok env" "tsx_reach env a" "op_enabled a op"
  shows "state_for (tsx_role a) (tsx_method a) (tsx_state a) \<and>
         tsx_state_handler (tsx_role a) (tsx_state a) \<noteq> None \<and> (\<exists>b. tsx_exec env a op = Some b)"
proof -
  have i: "tsx_inv a" using reach_inv assms by blast
  then have t: "state_for (tsx_role a) (tsx_method a) (tsx_state a)" by (simp add: tsx_inv_def tsx_typed_def)
  then have "tsx_state_handler (tsx_role a) (tsx_state a) \<noteq> None" by (cases "tsx_role a"; cases "tsx_state a") simp_all
  with t show ?thesis using exec_ok[OF assms(1) i assms(3)] by blast
qed

theorem tsx_operation_returns_witness:
  "state_for (tsx_role demo_uac) (tsx_method demo_uac) (tsx_state demo_uac) \<and>
   tsx_state_handler (tsx_role demo_uac) (tsx_state demo_uac) \<noteq> None \<and>
   (\<exists>b. tsx_exec demo_env demo_uac (OpSend (Some demo_invite)) = Some b)"
  using tsx_operation_returns[OF demo_env_ok demo_uac_reach, of "OpSend (Some demo_invite)"] by simp

text \<open>
  C21 (refinement): the code implements the state machines of RFC 3261: whatever operation happens,
  a reachable transaction keeps its role and method, and its state stays or moves along one edge of
  the abstract machine \<open>tsx_edge\<close>; in particular it never moves back.
\<close>

theorem tsx_follows_state_machine:
  assumes "env_ok env" "tsx_reach env a" "op_enabled a op" "tsx_exec env a op = Some b"
  shows "tsx_role b = tsx_role a \<and> tsx_method b = tsx_method a \<and> tsx_state a \<le> tsx_state b \<and>
         (tsx_state b = tsx_state a \<or> tsx_edge (tsx_role a) (tsx_method a) (tsx_state a) (tsx_state b))"
proof -
  have "op_rel a b" using exec_ok[OF assms(1) reach_inv[OF assms(2,1)] assms(3)] assms(4) by simp
  then show ?thesis using tsx_edge_less unfolding op_rel_def by auto
qed

lemma demo_calling: "map_option tsx_state (tsx_run demo_env demo_uac [OpSend (Some demo_invite)]) = Some PJSIP_TSX_STATE_CALLING"
  by code_simp

theorem tsx_follows_state_machine_witness:
  "\<exists>b. tsx_run demo_env demo_uac [OpSend (Some demo_invite)] = Some b \<and> tsx_state b = PJSIP_TSX_STATE_CALLING \<and>
     tsx_state demo_uac \<le> tsx_state b"
proof -
  obtain b where b: "tsx_exec demo_env demo_uac (OpSend (Some demo_invite)) = Some b" "tsx_state b = PJSIP_TSX_STATE_CALLING"
    using demo_calling by auto
  then have "tsx_state demo_uac \<le> tsx_state b"
    using tsx_follows_state_machine[OF demo_env_ok demo_uac_reach _ b(1)] by simp
  with b show ?thesis by (auto simp del: tsx_exec.simps)
qed

text \<open>
  C22 (invariant): a transaction that has completed, been confirmed or been terminated has its
  timeout timer in the timer heap, with an id under which its expiry ends the state, provided that
  its history is one of \<open>tsx_reach\<close>: \<open>pjsip_tsx_terminate_async\<close> was never called on it while its status
  was below 200 or when it was terminated already. Without that proviso the statement is false of
  the code (\<open>terminate_async_strands\<close>).
\<close>

theorem tsx_final_state_guarded:
  assumes "env_ok env" "tsx_reach env a"
    and "tsx_state a \<in> {PJSIP_TSX_STATE_COMPLETED, PJSIP_TSX_STATE_CONFIRMED, PJSIP_TSX_STATE_TERMINATED}"
  shows "op_enabled a (OpTimer TIMEOUT_ENTRY) \<and>
         (tm_id (tsx_timeout_timer a) = TIMEOUT_TIMER \<or>
          tm_id (tsx_timeout_timer a) = TERMINATE_TIMER \<and> tsx_state a < PJSIP_TSX_STATE_TERMINATED \<and>
            tsx_status_code a \<ge> 200)"
  using reach_inv[OF assms(2,1)] assms(3) by (auto simp: tsx_inv_def timer_guard_def entry_of_def)

definition demo_final :: "tsx_op list" where
  "demo_final = [OpSend (Some demo_invite), OpRecv (demo_response 180), OpRecv (demo_response 486)]"

lemma demo_completed: "map_option tsx_state (tsx_run demo_env demo_uac demo_final) = Some PJSIP_TSX_STATE_COMPLETED"
  by code_simp

theorem tsx_final_state_guarded_witness:
  "\<exists>b. tsx_run demo_env demo_uac demo_final = Some b \<and> op_enabled b (OpTimer TIMEOUT_ENTRY)"
proof -
  obtain b where b: "tsx_run demo_env demo_uac demo_final = Some b" "tsx_state b = PJSIP_TSX_STATE_COMPLETED"
    using demo_completed by auto
  then show ?thesis using tsx_final_state_guarded[OF demo_env_ok reach_run[OF b(1) demo_uac_reach]] by simp
qed

text \<open>The expiry of the timeout timer in the final states.\<close>

lemma timeout_terminates:
  assumes "env_ok env" "tsx_reach env a" "tsx_state a = PJSIP_TSX_STATE_COMPLETED \<or> tsx_state a = PJSIP_TSX_STATE_CONFIRMED"
  shows "\<exists>b. tsx_run env a [OpTimer TIMEOUT_ENTRY] = Some b \<and> tsx_state b = PJSIP_TSX_STATE_TERMINATED"
proof -
  have i: "tsx_inv a" using reach_inv assms by blast
  then have g: "tm_delay (tsx_timeout_timer a) \<noteq> None" and
    "tm_id (tsx_timeout_timer a) = TIMEOUT_TIMER \<or> tm_id (tsx_timeout_timer a) = TERMINATE_TIMER \<and> tsx_status_code a \<ge> 200"
    using assms(3) by (auto simp: tsx_inv_def timer_guard_def)
  then consider "tm_id (entry_of TIMEOUT_ENTRY a) = TIMEOUT_TIMER"
    | "tm_id (entry_of TIMEOUT_ENTRY a) = TERMINATE_TIMER" "tsx_status_code a \<ge> 200" by (auto simp: entry_of_def)
  then have "\<exists>b. tsx_timer_callback env (expire TIMEOUT_ENTRY a) TIMEOUT_ENTRY = Some b \<and> tsx_state b = PJSIP_TSX_STATE_TERMINATED"
  proof cases
    case 1
    then show ?thesis using assms(3) i by (cases "tsx_role a")
      (auto simp: tsx_timer_callback_def tsx_dispatch_def tsx_on_state_completed_uac_def tsx_on_state_completed_uas_def
        tsx_on_state_confirmed_def set_state_timer_def)
  next
    case 2
    then show ?thesis using assms(3) by (auto simp: tsx_timer_callback_def pjsip_tsx_terminate_def)
  qed
  then show ?thesis using g by (simp add: entry_of_def)
qed

lemma timeout_destroys:
  assumes "env_ok env" "tsx_reach env a" "tsx_state a = PJSIP_TSX_STATE_TERMINATED"
  shows "\<exists>b. tsx_run env a [OpTimer TIMEOUT_ENTRY] = Some b \<and> tsx_state b = PJSIP_TSX_STATE_DESTROYED \<and> tsx_unregs b = 1 \<and>
     tsx_last_tx b = None \<and> tm_delay (tsx_timeout_timer b) = None \<and> tm_delay (tsx_retransmit_timer b) = None"
proof -
  have "tsx_inv a" using reach_inv assms by blast
  then have g: "tm_delay (tsx_timeout_timer a) \<noteq> None" and i: "tm_id (entry_of TIMEOUT_ENTRY a) = TIMEOUT_TIMER"
    and u: "tsx_unregs a = 0" using assms(3) by (auto simp: tsx_inv_def timer_guard_def entry_of_def flags_ok_def)
  have "\<exists>b. tsx_timer_callback env (expire TIMEOUT_ENTRY a) TIMEOUT_ENTRY = Some b \<and> tsx_state b = PJSIP_TSX_STATE_DESTROYED \<and>
     tsx_unregs b = 1 \<and> tsx_last_tx b = None \<and> tm_delay (tsx_timeout_timer b) = None \<and> tm_delay (tsx_retransmit_timer b) = None"
    using assms(3) i u by (cases "tsx_role a")
      (auto simp: tsx_timer_callback_def tsx_dispatch_def tsx_on_state_terminated_def set_state_timer_def)
  then show ?thesis using g by (simp add: entry_of_def)
qed

lemma tsx_run_append: "tsx_run env a (xs @ ys) = Option.bind (tsx_run env a xs) (\<lambda>b. tsx_run env b ys)"
  by (induction xs arbitrary: a) (auto split: Option.bind_split)

text \<open>
  C23 (liveness): once a transaction has a final answer (Completed or Confirmed) or is terminated,
  its own timer removes it: at most two expiries of the timeout timer, each of which is pending
  when it is needed, destroy the transaction; it has then been unregistered, once, holds no message
  and has no timer in the heap. As in C22 the history must not contain a call of
  \<open>pjsip_tsx_terminate_async\<close> at a status below 200 or in Terminated, after which the expiry does
  nothing (\<open>terminate_async_strands\<close>); and no further such call comes in between.
\<close>

theorem tsx_final_state_drains:
  assumes "env_ok env" "tsx_reach env a"
    and "tsx_state a \<in> {PJSIP_TSX_STATE_COMPLETED, PJSIP_TSX_STATE_CONFIRMED, PJSIP_TSX_STATE_TERMINATED}"
  shows "\<exists>n\<le>2. \<exists>b. tsx_run env a (replicate n (OpTimer TIMEOUT_ENTRY)) = Some b \<and>
           tsx_state b = PJSIP_TSX_STATE_DESTROYED \<and> tsx_unregs b = 1 \<and> tsx_last_tx b = None \<and>
           tm_delay (tsx_timeout_timer b) = None \<and> tm_delay (tsx_retransmit_timer b) = None"
proof (cases "tsx_state a = PJSIP_TSX_STATE_TERMINATED")
  case True
  then show ?thesis using timeout_destroys[OF assms(1,2)]
    by (intro exI[of _ "1::nat"]) (simp del: tsx_run.simps)
next
  case False
  with assms(3) obtain b where b: "tsx_run env a [OpTimer TIMEOUT_ENTRY] = Some b" "tsx_state b = PJSIP_TSX_STATE_TERMINATED"
    using timeout_terminates[OF assms(1,2)] by auto
  have "replicate 2 (OpTimer TIMEOUT_ENTRY) = [OpTimer TIMEOUT_ENTRY] @ [OpTimer TIMEOUT_ENTRY]" by (simp add: numeral_2_eq_2)
  then have "tsx_run env a (replicate 2 (OpTimer TIMEOUT_ENTRY)) = tsx_run env b [OpTimer TIMEOUT_ENTRY]"
    using b(1) by (simp only: tsx_run_append Option.bind.bind_lunit)
  then show ?thesis using timeout_destroys[OF assms(1) reach_run[OF b(1) assms(2)] b(2)]
    by (intro exI[of _ "2::nat"]) (simp del: tsx_run.simps)
qed

theorem tsx_final_state_drains_witness:
  "\<exists>a. tsx_run demo_env demo_uac demo_final = Some a \<and>
     (\<exists>n\<le>2. \<exists>b. tsx_run demo_env a (replicate n (OpTimer TIMEOUT_ENTRY)) = Some b \<and> tsx_state b = PJSIP_TSX_STATE_DESTROYED)"
proof -
  obtain a where a: "tsx_run demo_env demo_uac demo_final = Some a" "tsx_state a = PJSIP_TSX_STATE_COMPLETED"
    using demo_completed by auto
  then show ?thesis using tsx_final_state_drains[OF demo_env_ok reach_run[OF a(1) demo_uac_reach]] by (metis insertI1)
qed

section \<open>Nested sends\<close>

lemma flush_agree:
  assumes "\<And>t td. \<not> tsx_pending_send t \<Longrightarrow> f env t td = g env t td"
  shows "flush_pending f env a = flush_pending g env a"
  using assms unfolding flush_pending_def by simp

lemma callback_agree:
  assumes "\<And>a. flush_pending f env a = flush_pending g env a"
  shows "send_msg_callback f env = send_msg_callback g env"
  unfolding send_msg_callback_def on_sent_def using assms by presburger

lemma send_body_agree:
  assumes "\<And>t td. \<not> tsx_pending_send t \<Longrightarrow> f env t td = g env t td"
  shows "send_body f env a td = send_body g env a td"
proof -
  have "flush_pending f env b = flush_pending g env b" for b by (rule flush_agree) (rule assms)
  then have cb: "send_msg_callback f env = send_msg_callback g env" by (rule callback_agree)
  show ?thesis unfolding send_body_def send_via_endpt_def cb ..
qed

lemma callback_idle:
  assumes "\<not> tsx_pending_send a"
  shows "send_msg_callback f env td a rep = send_msg_callback g env td a rep \<and>
         \<not> tsx_pending_send (send_msg_callback f env td a rep)"
proof -
  have fl: "flush_pending f env b = flush_pending g env b" "\<not> tsx_pending_send (flush_pending g env b)"
    if "\<not> tsx_pending_send b" for b
    using that unfolding flush_pending_def by (auto simp: Let_def tsx_resched_retransmission_def upd_defs)
  have sent: "on_sent f env b tp = on_sent g env b tp" "\<not> tsx_pending_send (on_sent g env b tp)"
    if "\<not> tsx_pending_send b" for b tp
    using that fl unfolding on_sent_def by (simp_all add: Let_def)
  have failed: "\<not> tsx_pending_send (on_send_failed env b err)" if "\<not> tsx_pending_send b" for b err
    using that unfolding on_send_failed_def by (simp add: Let_def tsx_resched_retransmission_def upd_defs)
  have next_srv: "\<not> tsx_pending_send (on_try_next env b td)" if "\<not> tsx_pending_send b" for b
    using that unfolding on_try_next_def by (simp add: Let_def upd_defs)
  show ?thesis unfolding send_msg_callback_def using assms sent failed next_srv by (cases rep) (simp_all add: Let_def)
qed

lemma reports_idle:
  "\<not> tsx_pending_send a \<Longrightarrow> foldl (send_msg_callback f env td) a reps = foldl (send_msg_callback g env td) a reps"
proof (induction reps arbitrary: a)
  case (Cons r rs)
  have "send_msg_callback f env td a r = send_msg_callback g env td a r" "\<not> tsx_pending_send (send_msg_callback f env td a r)"
    using callback_idle Cons.prems by blast+
  then show ?case using Cons.IH by simp
qed simp

lemma send_body_idle:
  assumes "\<not> tsx_pending_send a"
  shows "send_body f env a td = send_body g env a td"
proof -
  have "foldl (send_msg_callback f env t) b reps = foldl (send_msg_callback g env t) b reps"
    if "\<not> tsx_pending_send b" for t b reps using that by (rule reports_idle)
  then have "send_via_endpt f env b t st = send_via_endpt g env b t st" if "\<not> tsx_pending_send b" for b t st
    using that unfolding send_via_endpt_def by (simp add: Let_def split_def emit_def add_td_ref_def)
  then show ?thesis using assms unfolding send_body_def
    by (cases td) (simp_all add: Let_def emit_def split: option.splits)
qed

text \<open>
  Sending is recursive in the code, because a send may invoke the send callback
  before it returns and the callback may send the last message again. The model cuts the recursion
  at depth two; it satisfies the recursion equation of the code, so the cut loses nothing.
\<close>

theorem tsx_send_msg_recursion: "tsx_send_msg env tsx td = send_body tsx_send_msg env tsx td"
  unfolding tsx_send_msg_def by (rule send_body_agree, rule send_body_idle)

section \<open>What the handlers do\<close>

text \<open>A send over a transport that accepts the message at once.\<close>

lemma send_direct:
  assumes "\<not> tsx_pending_transport a" "\<not> td_is_pending td" "tsx_transport a = Some tp"
    "transport_send env tp td = PJ_SUCCESS"
  shows "tsx_send_msg env a (Some td) = (emit (OutTransport tp td) a, PJ_SUCCESS)"
  using assms by (simp add: tsx_send_msg_def send_body_def Let_def)

lemma emit_simps [simp]:
  "tsx_role (emit x a) = tsx_role a" "tsx_method (emit x a) = tsx_method a" "tsx_state (emit x a) = tsx_state a"
  "tsx_status_code (emit x a) = tsx_status_code a" "tsx_last_tx (emit x a) = tsx_last_tx a"
  "tsx_is_reliable (emit x a) = tsx_is_reliable a" "tsx_log (emit x a) = tsx_log a @ [x]"
  "tsx_has_user (emit x a) = tsx_has_user a" "tsx_transport (emit x a) = tsx_transport a"
  "tsx_pending_transport (emit x a) = tsx_pending_transport a"
  "tsx_timeout_timer (emit x a) = tsx_timeout_timer a" "tsx_retransmit_timer (emit x a) = tsx_retransmit_timer a"
  by (simp_all add: emit_def)

lemma retransmit_direct:
  assumes "tsx_last_tx a = Some td" "max_retrans_count env < 0 \<or> td_type td \<noteq> PJSIP_REQUEST_MSG"
    "\<not> tsx_pending_transport a" "\<not> td_is_pending td" "tsx_transport a = Some tp" "transport_send env tp td = PJ_SUCCESS"
  shows "tsx_retransmit env a False =
    (emit (OutTransport tp td) (a\<lparr>tsx_retransmit_count := tsx_retransmit_count a + 1\<rparr>), PJ_SUCCESS)"
  using assms send_direct[of "a\<lparr>tsx_retransmit_count := tsx_retransmit_count a + 1\<rparr>" td tp env]
  by (auto simp: tsx_retransmit_def Let_def)

subsection \<open>Retransmission of an unanswered request\<close>

lemma no_wrap:
  fixes t1 :: int
  assumes "0 < t1" "t1 < 2 ^ 25" "n \<le> 7"
  shows "(2 ^ n * t1) mod 2 ^ 32 = 2 ^ n * t1"
proof -
  have "(2::int) ^ n \<le> 2 ^ 7" using assms(3) by (intro power_increasing) simp_all
  then have "2 ^ n * t1 \<le> 2 ^ 7 * t1" using assms by (intro mult_right_mono) simp_all
  then have "2 ^ n * t1 < 2 ^ 32" using assms(2) by simp
  then show ?thesis using assms(1) by (intro mod_pos_pos_trivial) simp_all
qed

text \<open>
  The delay RFC 3261 asks for before retransmission \<open>n + 1\<close> of a request (17.1.1.2 and 17.1.2.2): it
  doubles every time, and for a request other than INVITE never exceeds T2.
\<close>

definition rfc_wait :: "tsx_env \<Rightarrow> pjsip_method_e \<Rightarrow> nat \<Rightarrow> int" where
  "rfc_wait env m n = (if m = PJSIP_INVITE_METHOD then 2 ^ n * cfg_t1 env else min (2 ^ n * cfg_t1 env) (cfg_t2 env))"

text \<open>
  How long the retransmit timer of \<open>a\<close> is set for, in milliseconds, once it has expired \<open>i\<close> times,
  and the time that passes until its expiry \<open>k\<close>, when nothing else happens.
\<close>

definition retransmit_wait :: "tsx_env \<Rightarrow> pjsip_transaction \<Rightarrow> nat \<Rightarrow> int" where
  "retransmit_wait env a i =
     (case tsx_run env a (replicate i (OpTimer RETRANSMIT_ENTRY)) of
        None \<Rightarrow> 0
      | Some b \<Rightarrow> (case tm_delay (tsx_retransmit_timer b) of None \<Rightarrow> 0 | Some v \<Rightarrow> PJ_TIME_VAL_MSEC v))"

definition retransmit_time :: "tsx_env \<Rightarrow> pjsip_transaction \<Rightarrow> nat \<Rightarrow> int" where
  "retransmit_time env a k = (\<Sum>i<k. retransmit_wait env a i)"

text \<open>A request that is out and unanswered, after \<open>n\<close> retransmissions.\<close>

definition unanswered :: "tsx_env \<Rightarrow> nat \<Rightarrow> pjsip_tx_data \<Rightarrow> nat \<Rightarrow> pjsip_transaction \<Rightarrow> bool" where
  "unanswered env tp td n a \<longleftrightarrow> tsx_role a = PJSIP_ROLE_UAC \<and> tsx_method a = td_method td \<and>
     tsx_state a = PJSIP_TSX_STATE_CALLING \<and> tsx_status_code a = 0 \<and> tsx_transport a = Some tp \<and>
     \<not> tsx_pending_transport a \<and> tsx_last_tx a = Some td \<and> tsx_retransmit_count a = n \<and>
     tsx_retransmit_timer a = \<lparr>tm_id = RETRANSMIT_TIMER, tm_delay = Some (tv_of_msec (rfc_wait env (td_method td) n))\<rparr>"

lemma tv_of_msec_value: "PJ_TIME_VAL_MSEC (tv_of_msec ms) = ms"
  by (simp add: PJ_TIME_VAL_MSEC_def tv_of_msec_def)

lemma resched_unanswered:
  assumes "0 < cfg_t1 env" "cfg_t1 env < 2 ^ 25" "0 < cfg_t2 env" "n \<le> 7"
    and "tsx_role a = PJSIP_ROLE_UAC" "tsx_status_code a = 0" "tsx_retransmit_count a = n"
    and "tm_delay (tsx_retransmit_timer a) = None"
  shows "tsx_resched_retransmission env a =
    a\<lparr>tsx_retransmit_timer := \<lparr>tm_id = RETRANSMIT_TIMER, tm_delay = Some (tv_of_msec (rfc_wait env (tsx_method a) n))\<rparr>\<rparr>"
proof -
  have "retransmit_msec env a = rfc_wait env (tsx_method a) n"
    using assms no_wrap[OF assms(1,2,4)] by (simp add: retransmit_msec_def rfc_wait_def Let_def min_def)
  moreover have "rfc_wait env (tsx_method a) n \<noteq> 0" using assms(1,3) by (simp add: rfc_wait_def min_def)
  ultimately show ?thesis using assms(8)
    by (simp add: tsx_resched_retransmission_def Let_def schedule_retransmit_def tsx_schedule_timer_def)
qed

lemma unanswered_step:
  assumes cfg: "0 < cfg_t1 env" "cfg_t1 env < 2 ^ 25" "0 < cfg_t2 env" "max_retrans_count env < 0"
    and td: "\<not> td_is_pending td" "transport_send env tp td = PJ_SUCCESS"
    and a: "unanswered env tp td n a" and n: "n < 7"
  shows "\<exists>b. tsx_run env a [OpTimer RETRANSMIT_ENTRY] = Some b \<and> unanswered env tp td (Suc n) b \<and>
    tsx_log b = tsx_log a @ [OutTransport tp td] \<and> tsx_timeout_timer b = tsx_timeout_timer a"
proof -
  define c where "c = a\<lparr>tsx_retransmit_timer := \<lparr>tm_id = TIMER_INACTIVE, tm_delay = None\<rparr>, tsx_retransmit_count := Suc n\<rparr>"
  define d where "d = c\<lparr>tsx_retransmit_timer := \<lparr>tm_id = RETRANSMIT_TIMER, tm_delay = Some (tv_of_msec (rfc_wait env (td_method td) (Suc n)))\<rparr>\<rparr>"
  have c: "tsx_role c = PJSIP_ROLE_UAC" "tsx_status_code c = 0" "tsx_method c = td_method td" "tsx_retransmit_count c = Suc n"
    "tm_delay (tsx_retransmit_timer c) = None" "\<not> tsx_pending_transport c" "tsx_transport c = Some tp" "tsx_last_tx c = Some td"
    using a by (simp_all add: c_def unanswered_def)
  have cd: "tsx_resched_retransmission env c = d"
    using resched_unanswered[OF cfg(1-3) _ c(1,2,4,5)] n c(3) by (simp add: d_def)
  have snd: "tsx_send_msg env d (Some td) = (emit (OutTransport tp td) d, PJ_SUCCESS)"
    using c td by (intro send_direct) (simp_all add: d_def)
  have "clear_entry_id RETRANSMIT_ENTRY (expire RETRANSMIT_ENTRY a)
      = a\<lparr>tsx_retransmit_timer := \<lparr>tm_id = TIMER_INACTIVE, tm_delay = None\<rparr>\<rparr>"
    using a by (simp add: clear_entry_id_def expire_def update_entry_def entry_of_def unanswered_def)
  moreover have "tm_id (entry_of RETRANSMIT_ENTRY (expire RETRANSMIT_ENTRY a)) = RETRANSMIT_TIMER"
    "tsx_state (expire RETRANSMIT_ENTRY a) = PJSIP_TSX_STATE_CALLING"
    using a by (simp_all add: expire_def update_entry_def entry_of_def unanswered_def)
  moreover have "tsx_retransmit env (a\<lparr>tsx_retransmit_timer := \<lparr>tm_id = TIMER_INACTIVE, tm_delay = None\<rparr>\<rparr>) True
      = (emit (OutTransport tp td) d, PJ_SUCCESS)"
    using a c cd snd cfg(4) by (simp add: tsx_retransmit_def Let_def unanswered_def c_def[symmetric] d_def)
  ultimately have "tsx_timer_callback env (expire RETRANSMIT_ENTRY a) RETRANSMIT_ENTRY = Some (emit (OutTransport tp td) d)"
    using a by (simp add: tsx_timer_callback_def tsx_dispatch_def tsx_on_state_calling_def unanswered_def)
  moreover have "op_enabled a (OpTimer RETRANSMIT_ENTRY)" using a by (simp add: entry_of_def unanswered_def)
  moreover have "unanswered env tp td (Suc n) (emit (OutTransport tp td) d)"
    using a c by (simp add: unanswered_def d_def) (simp add: c_def emit_def)
  ultimately show ?thesis by (simp add: d_def c_def)
qed

lemma unanswered_run:
  assumes cfg: "0 < cfg_t1 env" "cfg_t1 env < 2 ^ 25" "0 < cfg_t2 env" "max_retrans_count env < 0"
    and td: "\<not> td_is_pending td" "transport_send env tp td = PJ_SUCCESS"
    and a: "unanswered env tp td 0 a"
  shows "k \<le> 7 \<Longrightarrow> \<exists>b. tsx_run env a (replicate k (OpTimer RETRANSMIT_ENTRY)) = Some b \<and> unanswered env tp td k b \<and>
    tsx_log b = tsx_log a @ replicate k (OutTransport tp td) \<and> tsx_timeout_timer b = tsx_timeout_timer a"
proof (induction k)
  case 0
  then show ?case using a by simp
next
  case (Suc k)
  then obtain b where b: "tsx_run env a (replicate k (OpTimer RETRANSMIT_ENTRY)) = Some b" "unanswered env tp td k b"
    "tsx_log b = tsx_log a @ replicate k (OutTransport tp td)" "tsx_timeout_timer b = tsx_timeout_timer a" by auto
  have "k < 7" using Suc.prems by simp
  from unanswered_step[OF cfg td b(2) this] obtain c where c: "tsx_run env b [OpTimer RETRANSMIT_ENTRY] = Some c"
    "unanswered env tp td (Suc k) c" "tsx_log c = tsx_log b @ [OutTransport tp td]" "tsx_timeout_timer c = tsx_timeout_timer b"
    by blast
  have "tsx_run env a (replicate (Suc k) (OpTimer RETRANSMIT_ENTRY)) = Some c"
    using b(1) c(1) by (simp only: replicate_Suc replicate_append_same[symmetric] tsx_run_append Option.bind.bind_lunit)
  then show ?case using b(3,4) c(2-4) by (intro exI[of _ c]) (simp add: replicate_append_same)
qed

text \<open>Creating the transaction and sending its request, when the endpoint finds transport \<open>tp\<close> at once.\<close>

lemma request_sent:
  assumes cfg: "0 < cfg_t1 env" "0 < cfg_t2 env" "cfg_t1 env < 2 ^ 25" "cfg_t1 env \<le> cfg_t2 env"
    and c: "pjsip_tsx_create_uac2 env u td PJ_SUCCESS = Inr c"
    and td: "\<not> td_is_pending td" and tp: "endpt_send env td = ([Sent tp], PJ_SUCCESS)" "\<not> tp_down env tp" "\<not> tp_reliable env tp"
  shows "\<exists>a. pjsip_tsx_send_msg env c (Some td) = Some (a, PJ_SUCCESS) \<and> unanswered env tp td 0 a \<and>
    tsx_timeout_timer a = \<lparr>tm_id = TIMEOUT_TIMER, tm_delay = Some (tv_of_msec (cfg_timeout env))\<rparr> \<and>
    tsx_log a = OutEndpoint td # (if u then [OutState PJSIP_TSX_STATE_NULL PJSIP_TSX_STATE_CALLING PJSIP_EVENT_TX_MSG] else [])"
proof -
  obtain rel where e: "c = (add_td_ref 1 td ((tsx_create u PJSIP_ROLE_UAC (td_method td))\<lparr>tsx_last_tx := Some td\<rparr>))\<lparr>tsx_is_reliable := rel\<rparr>"
    using c by (auto simp: pjsip_tsx_create_uac2_def Let_def split: if_splits sum.splits)
  have same: "save_last_tx (drop_other_last_tx c td) td = c"
    by (simp add: e save_last_tx_def drop_other_last_tx_def is_tx_def add_td_ref_def)
  have "\<exists>b. tsx_send_msg env c (Some td) = (b, PJ_SUCCESS) \<and> tsx_role b = PJSIP_ROLE_UAC \<and> tsx_method b = td_method td \<and>
      tsx_state b = PJSIP_TSX_STATE_NULL \<and> tsx_status_code b = 0 \<and> tsx_transport b = Some tp \<and> \<not> tsx_is_reliable b \<and>
      \<not> tsx_pending_transport b \<and> tsx_last_tx b = Some td \<and> tsx_has_user b = u \<and>
      tsx_retransmit_timer b = \<lparr>tm_id = TIMER_INACTIVE, tm_delay = None\<rparr> \<and>
      tsx_timeout_timer b = \<lparr>tm_id = TIMER_INACTIVE, tm_delay = None\<rparr> \<and> tsx_log b = [OutEndpoint td]"
    using td tp by (simp add: e tsx_send_msg_def send_body_def send_via_endpt_def tsx_create_def add_td_ref_def
        send_msg_callback_def on_sent_def flush_pending_def tsx_update_transport_def emit_def Let_def)
  then obtain b where b: "tsx_send_msg env c (Some td) = (b, PJ_SUCCESS)" "tsx_role b = PJSIP_ROLE_UAC" "tsx_method b = td_method td"
      "tsx_state b = PJSIP_TSX_STATE_NULL" "tsx_status_code b = 0" "tsx_transport b = Some tp" "\<not> tsx_is_reliable b"
      "\<not> tsx_pending_transport b" "tsx_last_tx b = Some td" "tsx_has_user b = u"
      "tsx_retransmit_timer b = \<lparr>tm_id = TIMER_INACTIVE, tm_delay = None\<rparr>"
      "tsx_timeout_timer b = \<lparr>tm_id = TIMER_INACTIVE, tm_delay = None\<rparr>" "tsx_log b = [OutEndpoint td]"
    by blast
  define a where "a = add_td_ref (- 1) td (set_state_tx env
    (resched_or_flag (start_timeout env b (cfg_timeout env)) (tv_of_msec (cfg_t1 env))) PJSIP_TSX_STATE_CALLING)"
  have "tsx_dispatch env c (TxEvent td) = Some (set_state_tx env
    (resched_or_flag (start_timeout env b (cfg_timeout env)) (tv_of_msec (cfg_t1 env))) PJSIP_TSX_STATE_CALLING, PJ_SUCCESS)"
    using b same by (simp add: tsx_dispatch_def e tsx_create_def add_td_ref_def tsx_on_state_null_def null_send_def Let_def
        start_timeout_def cancel_timeout_def schedule_timeout_def)
  then have "pjsip_tsx_send_msg env c (Some td) = Some (a, PJ_SUCCESS)"
    by (simp add: pjsip_tsx_send_msg_def a_def)
  moreover have "unanswered env tp td 0 a \<and>
    tsx_timeout_timer a = \<lparr>tm_id = TIMEOUT_TIMER, tm_delay = Some (tv_of_msec (cfg_timeout env))\<rparr> \<and>
    tsx_log a = OutEndpoint td # (if u then [OutState PJSIP_TSX_STATE_NULL PJSIP_TSX_STATE_CALLING PJSIP_EVENT_TX_MSG] else [])"
    using b cfg by (simp add: a_def add_td_ref_def set_state_tx_def tsx_set_state_def resched_or_flag_def start_timeout_def
        timer_defs notify_user_def emit_def unanswered_def rfc_wait_def min_def Let_def)
  ultimately show ?thesis by blast
qed

text \<open>The time-out of an unanswered request.\<close>

lemma unanswered_timeout:
  assumes "unanswered env tp td k b" "tsx_timeout_timer b = \<lparr>tm_id = TIMEOUT_TIMER, tm_delay = Some v\<rparr>"
  shows "\<exists>d. tsx_run env b [OpTimer TIMEOUT_ENTRY] = Some d \<and> tsx_state d = PJSIP_TSX_STATE_TERMINATED \<and>
    tsx_status_code d = PJSIP_SC_TSX_TIMEOUT \<and> tm_delay (tsx_retransmit_timer d) = None \<and>
    tsx_log d = tsx_log b @ (if tsx_has_user b then
      [OutState PJSIP_TSX_STATE_CALLING PJSIP_TSX_STATE_TERMINATED PJSIP_EVENT_TIMER] else [])"
  using assms
  by (simp add: unanswered_def entry_of_def tsx_timer_callback_def expire_def clear_entry_id_def update_entry_def tsx_dispatch_def
      tsx_on_state_calling_def set_state_timer_def tsx_set_state_def terminated_actions_def notify_user_def emit_def
      tsx_set_status_code_def timer_defs Let_def split: option.splits)

text \<open>
  C25 (bounds): a client transaction that is created, sends its request on an unreliable transport
  that takes every message, and gets no answer. It gives the request to the endpoint once, and sets
  its timers. Each expiry of the retransmit timer (the first seven are followed) is handled by the
  state handler of Calling: it sends the same request once more on the same transport, leaves the
  timeout timer alone, and sets the retransmit timer again, to the delay RFC 3261 asks for: after
  \<open>k\<close> expiries it is \<open>2 ^ k\<close> T1 for an INVITE, and for other requests the smaller of that and T2. For an
  INVITE the retransmission \<open>k\<close> comes \<open>(2 ^ k - 1)\<close> T1 after the first send, so that exactly six come
  before 64 T1. Whenever the timeout timer expires instead, the transaction is terminated with 408
  and its retransmit timer is stopped. T1 is positive, at most T2, and below \<open>2 ^ 25\<close> milliseconds;
  no limit on the number of retransmissions is configured.
\<close>

theorem tsx_retransmission_bounds:
  assumes "0 < cfg_t1 env" "cfg_t1 env < 2 ^ 25" "cfg_t1 env \<le> cfg_t2 env" "max_retrans_count env < 0"
    and "pjsip_tsx_create_uac2 env u td PJ_SUCCESS = Inr c"
    and "\<not> td_is_pending td" "endpt_send env td = ([Sent tp], PJ_SUCCESS)" "transport_send env tp td = PJ_SUCCESS"
    and "\<not> tp_down env tp" "\<not> tp_reliable env tp"
  shows "\<exists>a. pjsip_tsx_send_msg env c (Some td) = Some (a, PJ_SUCCESS) \<and> tsx_state a = PJSIP_TSX_STATE_CALLING \<and>
    tsx_log a = OutEndpoint td # (if u then [OutState PJSIP_TSX_STATE_NULL PJSIP_TSX_STATE_CALLING PJSIP_EVENT_TX_MSG] else []) \<and>
    tsx_timeout_timer a = \<lparr>tm_id = TIMEOUT_TIMER, tm_delay = Some (tv_of_msec (cfg_timeout env))\<rparr> \<and>
    (\<forall>k \<le> 7. (td_method td = PJSIP_INVITE_METHOD \<longrightarrow> retransmit_time env a k = (2 ^ k - 1) * cfg_t1 env \<and>
         (retransmit_time env a k < 64 * cfg_t1 env \<longleftrightarrow> k \<le> 6)) \<and>
       (\<exists>b. tsx_run env a (replicate k (OpTimer RETRANSMIT_ENTRY)) = Some b \<and> tsx_state b = PJSIP_TSX_STATE_CALLING \<and>
         tsx_log b = tsx_log a @ replicate k (OutTransport tp td) \<and> tsx_timeout_timer b = tsx_timeout_timer a \<and>
         tsx_retransmit_timer b = \<lparr>tm_id = RETRANSMIT_TIMER, tm_delay = Some (tv_of_msec (rfc_wait env (td_method td) k))\<rparr> \<and>
         (\<exists>d. tsx_run env b [OpTimer TIMEOUT_ENTRY] = Some d \<and> tsx_state d = PJSIP_TSX_STATE_TERMINATED \<and>
           tsx_status_code d = PJSIP_SC_TSX_TIMEOUT \<and> tm_delay (tsx_retransmit_timer d) = None)))"
proof -
  have t2: "0 < cfg_t2 env" using assms(1,3) by simp
  from request_sent[OF assms(1) t2 assms(2,3,5,6,7,9,10)] obtain a where
    a: "pjsip_tsx_send_msg env c (Some td) = Some (a, PJ_SUCCESS)" "unanswered env tp td 0 a"
    "tsx_timeout_timer a = \<lparr>tm_id = TIMEOUT_TIMER, tm_delay = Some (tv_of_msec (cfg_timeout env))\<rparr>"
    "tsx_log a = OutEndpoint td # (if u then [OutState PJSIP_TSX_STATE_NULL PJSIP_TSX_STATE_CALLING PJSIP_EVENT_TX_MSG] else [])"
    by blast
  note run = unanswered_run[OF assms(1,2) t2 assms(4,6,8) a(2)]
  have wait: "retransmit_wait env a i = rfc_wait env (td_method td) i" if i: "i \<le> 7" for i
  proof -
    obtain b where "tsx_run env a (replicate i (OpTimer RETRANSMIT_ENTRY)) = Some b" "unanswered env tp td i b"
      using run[OF i] by blast
    then show ?thesis by (simp add: retransmit_wait_def unanswered_def tv_of_msec_value)
  qed
  have time: "retransmit_time env a k = (2 ^ k - 1) * cfg_t1 env"
    if "td_method td = PJSIP_INVITE_METHOD" "k \<le> 7" for k
    using that by (induction k) (simp_all add: retransmit_time_def wait rfc_wait_def algebra_simps)
  have bound: "retransmit_time env a k < 64 * cfg_t1 env \<longleftrightarrow> k \<le> 6"
    if m: "td_method td = PJSIP_INVITE_METHOD" and k: "k \<le> 7" for k
  proof (cases "k \<le> 6")
    case True
    have "(2::int) ^ k \<le> 2 ^ 6" using True by (intro power_increasing) simp_all
    then have "(2 ^ k - 1) * cfg_t1 env < 64 * cfg_t1 env" using assms(1) by (intro mult_strict_right_mono) simp_all
    then show ?thesis using time[OF m k] True by simp
  next
    case False
    then have "k = 7" using k by simp
    then show ?thesis using time[OF m k] assms(1) by simp
  qed
  have each: "\<exists>b. tsx_run env a (replicate k (OpTimer RETRANSMIT_ENTRY)) = Some b \<and> tsx_state b = PJSIP_TSX_STATE_CALLING \<and>
      tsx_log b = tsx_log a @ replicate k (OutTransport tp td) \<and> tsx_timeout_timer b = tsx_timeout_timer a \<and>
      tsx_retransmit_timer b = \<lparr>tm_id = RETRANSMIT_TIMER, tm_delay = Some (tv_of_msec (rfc_wait env (td_method td) k))\<rparr> \<and>
      (\<exists>d. tsx_run env b [OpTimer TIMEOUT_ENTRY] = Some d \<and> tsx_state d = PJSIP_TSX_STATE_TERMINATED \<and>
        tsx_status_code d = PJSIP_SC_TSX_TIMEOUT \<and> tm_delay (tsx_retransmit_timer d) = None)"
    if "k \<le> 7" for k
  proof -
    obtain b where b: "tsx_run env a (replicate k (OpTimer RETRANSMIT_ENTRY)) = Some b" "unanswered env tp td k b"
      "tsx_log b = tsx_log a @ replicate k (OutTransport tp td)" "tsx_timeout_timer b = tsx_timeout_timer a"
      using run[OF \<open>k \<le> 7\<close>] by blast
    obtain d where d: "tsx_run env b [OpTimer TIMEOUT_ENTRY] = Some d" "tsx_state d = PJSIP_TSX_STATE_TERMINATED"
      "tsx_status_code d = PJSIP_SC_TSX_TIMEOUT" "tm_delay (tsx_retransmit_timer d) = None"
      using unanswered_timeout[OF b(2)] b(4) a(3) by auto
    show ?thesis using b(2) by (intro exI[of _ b] exI[of _ d] conjI b(1,3,4) d) (simp_all add: unanswered_def)
  qed
  have st: "tsx_state a = PJSIP_TSX_STATE_CALLING" using a(2) by (simp add: unanswered_def)
  show ?thesis by (rule exI[of _ a]) (intro conjI allI impI a(1,3,4) st time bound each)
qed

theorem tsx_retransmission_bounds_witness:
  "\<exists>a. pjsip_tsx_send_msg demo_env demo_uac (Some demo_invite) = Some (a, PJ_SUCCESS) \<and>
     retransmit_time demo_env a 6 = 31500 \<and>
     map_option tsx_log (tsx_run demo_env a (replicate 6 (OpTimer RETRANSMIT_ENTRY))) =
       Some (tsx_log a @ replicate 6 (OutTransport 1 demo_invite))"
proof -
  have c: "pjsip_tsx_create_uac2 demo_env True demo_invite PJ_SUCCESS = Inr demo_uac"
    by (simp add: demo_uac_def pjsip_tsx_create_uac2_def demo_env_def demo_invite_def Let_def)
  have e: "0 < cfg_t1 demo_env" "cfg_t1 demo_env < 2 ^ 25" "cfg_t1 demo_env \<le> cfg_t2 demo_env" "max_retrans_count demo_env < 0"
    "\<not> td_is_pending demo_invite" "endpt_send demo_env demo_invite = ([Sent 1], PJ_SUCCESS)"
    "transport_send demo_env 1 demo_invite = PJ_SUCCESS" "\<not> tp_down demo_env 1" "\<not> tp_reliable demo_env 1"
    "td_method demo_invite = PJSIP_INVITE_METHOD" "cfg_t1 demo_env = 500"
    by (simp_all add: demo_env_def demo_invite_def)
  from tsx_retransmission_bounds[OF e(1-4) c e(5-9)] obtain a
    where a: "pjsip_tsx_send_msg demo_env demo_uac (Some demo_invite) = Some (a, PJ_SUCCESS)"
      and k: "\<forall>k \<le> 7. (td_method demo_invite = PJSIP_INVITE_METHOD \<longrightarrow>
          retransmit_time demo_env a k = (2 ^ k - 1) * cfg_t1 demo_env \<and>
          (retransmit_time demo_env a k < 64 * cfg_t1 demo_env \<longleftrightarrow> k \<le> 6)) \<and>
        (\<exists>b. tsx_run demo_env a (replicate k (OpTimer RETRANSMIT_ENTRY)) = Some b \<and> tsx_state b = PJSIP_TSX_STATE_CALLING \<and>
          tsx_log b = tsx_log a @ replicate k (OutTransport 1 demo_invite) \<and> tsx_timeout_timer b = tsx_timeout_timer a \<and>
          tsx_retransmit_timer b = \<lparr>tm_id = RETRANSMIT_TIMER,
            tm_delay = Some (tv_of_msec (rfc_wait demo_env (td_method demo_invite) k))\<rparr> \<and>
          (\<exists>d. tsx_run demo_env b [OpTimer TIMEOUT_ENTRY] = Some d \<and> tsx_state d = PJSIP_TSX_STATE_TERMINATED \<and>
            tsx_status_code d = PJSIP_SC_TSX_TIMEOUT \<and> tm_delay (tsx_retransmit_timer d) = None))"
    by blast
  have "(6::nat) \<le> 7" by simp
  note k6 = mp[OF spec[OF k] this]
  from k6 have "retransmit_time demo_env a 6 = (2 ^ 6 - 1) * cfg_t1 demo_env" using e(10) by blast
  moreover from k6 obtain b where "tsx_run demo_env a (replicate 6 (OpTimer RETRANSMIT_ENTRY)) = Some b"
    "tsx_log b = tsx_log a @ replicate 6 (OutTransport 1 demo_invite)" by blast
  ultimately show ?thesis using a e(11) by (intro exI[of _ a]) simp
qed






text \<open>
  A server transaction that receives its request again, in Proceeding or in
  Completed, sends its last response again on the transport in use, once, and otherwise stays as
  it is; its user is not told.
\<close>

theorem tsx_uas_repeats_response:
  assumes "tsx_role a = PJSIP_ROLE_UAS"
      "tsx_state a = PJSIP_TSX_STATE_PROCEEDING \<or> tsx_state a = PJSIP_TSX_STATE_COMPLETED"
      "tsx_last_tx a = Some td" "tsx_transport a = Some tp" "\<not> tsx_pending_transport a"
    and "td_type td = PJSIP_RESPONSE_MSG" "\<not> td_is_pending td" "transport_send env tp td = PJ_SUCCESS"
    and "rx_type r = PJSIP_REQUEST_MSG" "rx_method r \<noteq> PJSIP_ACK_METHOD"
  shows "\<exists>b. pjsip_tsx_recv_msg env a r = Some b \<and> tsx_log b = tsx_log a @ [OutTransport tp td] \<and>
    tsx_state b = tsx_state a \<and> tsx_last_tx b = Some td \<and> tsx_timeout_timer b = tsx_timeout_timer a \<and>
    tsx_retransmit_timer b = tsx_retransmit_timer a"
proof (cases "tsx_state a = PJSIP_TSX_STATE_PROCEEDING")
  case True
  then show ?thesis using assms send_direct[of a td tp env]
    by (simp add: pjsip_tsx_recv_msg_def tsx_dispatch_def tsx_on_state_proceeding_uas_def)
next
  case False
  then have "tsx_state a = PJSIP_TSX_STATE_COMPLETED" using assms(2) by simp
  then show ?thesis using assms retransmit_direct[of a td env tp]
    by (simp add: pjsip_tsx_recv_msg_def tsx_dispatch_def tsx_on_state_completed_uas_def)
qed

definition demo_request :: pjsip_rx_data where
  "demo_request = \<lparr>rx_type = PJSIP_REQUEST_MSG, rx_code = 0, rx_method = PJSIP_INVITE_METHOD,
     rx_cseq = Some PJSIP_INVITE_METHOD, rx_has_via = True\<rparr>"

definition demo_ringing :: pjsip_tx_data where
  "demo_ringing = \<lparr>td_id = 2, td_type = PJSIP_RESPONSE_MSG, td_code = 180, td_method = PJSIP_INVITE_METHOD,
     td_cseq = Some PJSIP_INVITE_METHOD, td_is_pending = False\<rparr>"

definition demo_uas :: pjsip_transaction where
  "demo_uas = the (tsx_run demo_env (projr (pjsip_tsx_create_uas2 demo_env True demo_request PJ_SUCCESS PJ_SUCCESS))
     [OpRecv demo_request, OpSend (Some demo_ringing)])"

theorem tsx_uas_repeats_response_witness:
  "\<exists>b. pjsip_tsx_recv_msg demo_env demo_uas demo_request = Some b \<and> tsx_log b = tsx_log demo_uas @ [OutTransport 1 demo_ringing]"
proof -
  have "tsx_role demo_uas = PJSIP_ROLE_UAS" "tsx_state demo_uas = PJSIP_TSX_STATE_PROCEEDING"
    "tsx_last_tx demo_uas = Some demo_ringing" "tsx_transport demo_uas = Some 1" "\<not> tsx_pending_transport demo_uas"
    by code_simp+
  then show ?thesis using tsx_uas_repeats_response[of demo_uas demo_ringing 1 demo_env demo_request]
    by (auto simp: demo_ringing_def demo_env_def demo_request_def)
qed

text \<open>
  A response with a status code of 700 or more, which the parser accepts up to 999,
  strands a client transaction in Calling: both its timers are taken out of the heap, the code is
  refused, and the state does not change, so that no timer can end the transaction any more.
\<close>

theorem tsx_stray_code_strands:
  assumes "tsx_role a = PJSIP_ROLE_UAC" "tsx_state a = PJSIP_TSX_STATE_CALLING"
    and "tm_id (tsx_timeout_timer a) \<noteq> TIMER_INACTIVE"
    and "rx_type r = PJSIP_RESPONSE_MSG" "rx_code r \<ge> 700"
  shows "\<exists>b. pjsip_tsx_recv_msg env a r = Some b \<and> tsx_state b = PJSIP_TSX_STATE_CALLING \<and> tsx_log b = tsx_log a \<and>
    \<not> op_enabled b (OpTimer RETRANSMIT_ENTRY) \<and> \<not> op_enabled b (OpTimer TIMEOUT_ENTRY)"
proof -
  have "\<not> status_in_class (rx_code r) 100" "\<not> status_in_class (rx_code r) 200"
    using assms(5) by (simp_all add: status_in_class_def c_div_def)
  then show ?thesis using assms
    by (simp add: pjsip_tsx_recv_msg_def tsx_dispatch_def tsx_on_state_calling_def tsx_on_state_proceeding_uac_def
        uac_on_response_def calling_timers_def Let_def entry_of_def timer_defs tsx_set_status_code_def)
qed

definition demo_waiting :: pjsip_transaction where
  "demo_waiting = the (tsx_run demo_env demo_uac [OpSend (Some demo_invite)])"

theorem tsx_stray_code_strands_witness:
  "\<exists>b. pjsip_tsx_recv_msg demo_env demo_waiting (demo_response 799) = Some b \<and> tsx_state b = PJSIP_TSX_STATE_CALLING \<and>
    \<not> op_enabled b (OpTimer RETRANSMIT_ENTRY) \<and> \<not> op_enabled b (OpTimer TIMEOUT_ENTRY)"
proof -
  have "tsx_role demo_waiting = PJSIP_ROLE_UAC" "tsx_state demo_waiting = PJSIP_TSX_STATE_CALLING"
    "tm_id (tsx_timeout_timer demo_waiting) \<noteq> TIMER_INACTIVE" by code_simp+
  then show ?thesis using tsx_stray_code_strands[of demo_waiting "demo_response 799" demo_env]
    by (auto simp: demo_response_def)
qed

text \<open>
  \<open>pjsip_tsx_terminate_async\<close> drops the code it is given. Its timer terminates with the
  current status code, which \<open>pjsip_tsx_terminate\<close> refuses below 200; and in state Terminated it
  replaces the timer that destroys the transaction by one that does nothing. In both cases the
  transaction stays in its state, with no timeout timer any more.
\<close>

theorem terminate_async_strands:
  assumes "code \<ge> 200"
    and "tsx_status_code a < 200 \<and> tsx_state a < PJSIP_TSX_STATE_TERMINATED \<or> tsx_state a = PJSIP_TSX_STATE_TERMINATED"
  shows "snd (pjsip_tsx_terminate_async a code) = PJ_SUCCESS \<and>
    (\<exists>b. tsx_exec env (fst (pjsip_tsx_terminate_async a code)) (OpTimer TIMEOUT_ENTRY) = Some b \<and>
       tsx_state b = tsx_state a \<and> tsx_log b = tsx_log a \<and> \<not> op_enabled b (OpTimer TIMEOUT_ENTRY))"
proof -
  define b where "b = expire TIMEOUT_ENTRY (schedule_timeout (cancel_timeout a) (TimeVal 0 100) TERMINATE_TIMER)"
  have b: "tsx_state b = tsx_state a" "tsx_status_code b = tsx_status_code a" "tm_delay (tsx_timeout_timer b) = None"
    "tsx_log b = tsx_log a" "tm_id (entry_of TIMEOUT_ENTRY b) = TERMINATE_TIMER"
    by (simp_all add: b_def expire_def update_entry_def entry_of_def) (simp_all add: timer_defs)
  have "tsx_timer_callback env b TIMEOUT_ENTRY = Some b"
    using b assms(2) by (auto simp: tsx_timer_callback_def pjsip_tsx_terminate_def)
  then show ?thesis using assms(1) b by (simp add: pjsip_tsx_terminate_async_def b_def entry_of_def)
qed

theorem terminate_async_strands_witness:
  "\<exists>b. tsx_exec demo_env (fst (pjsip_tsx_terminate_async demo_waiting 487)) (OpTimer TIMEOUT_ENTRY) = Some b \<and>
     tsx_state b = PJSIP_TSX_STATE_CALLING \<and> \<not> op_enabled b (OpTimer TIMEOUT_ENTRY)"
proof -
  have "tsx_status_code demo_waiting < 200" "tsx_state demo_waiting = PJSIP_TSX_STATE_CALLING" by code_simp+
  then show ?thesis using terminate_async_strands[of 487 demo_waiting demo_env] by auto
qed

end
