(* ===== verification/Tsx_On_Heap.thy ===== *)
theory Tsx_On_Heap
  imports Sip_Tsx
begin

text \<open>
  The timers of a transaction on the timer heap. A transaction schedules and cancels its two entries
  through \<open>tsx_schedule_timer\<close> and \<open>tsx_cancel_timer\<close>; \<open>Sip_Tsx\<close> keeps of an entry only its id and whether
  it is in the heap. The locale \<open>entry_timer\<close> states what the transaction relies on; the timer heap
  of \<open>Pj_Timer\<close> provides it for every entry, and so every sequence of requests on the heap is
  simulated by the transaction's view of the entry, and leaves the timers of all others alone.
\<close>

text \<open>The numbers of the timer ids.\<close>

fun timer_num :: "tsx_timer_id \<Rightarrow> int" where
  "timer_num TIMER_INACTIVE = 0"
| "timer_num RETRANSMIT_TIMER = 1"
| "timer_num TIMEOUT_TIMER = 2"
| "timer_num TRANSPORT_ERR_TIMER = 3"
| "timer_num TRANSPORT_DISC_TIMER = 4"
| "timer_num TERMINATE_TIMER = 5"

lemma timer_num_inj: "timer_num a = timer_num b \<longleftrightarrow> a = b"
  by (cases a; cases b) simp_all

text \<open>A request of the transaction: schedule at a time of the clock with a delay and an id, or cancel.\<close>

datatype timer_req = ReqSchedule pj_time_val pj_time_val tsx_timer_id | ReqCancel

fun view_req :: "tsx_timer \<Rightarrow> timer_req \<Rightarrow> tsx_timer" where
  "view_req tm (ReqSchedule now delay i) = tsx_schedule_timer tm delay i"
| "view_req tm ReqCancel = tsx_cancel_timer tm"

text \<open>The accepted schedule request that is pending: when it was made, and its delay.\<close>

fun accepted :: "(pj_time_val \<times> pj_time_val) option \<Rightarrow> timer_req \<Rightarrow> (pj_time_val \<times> pj_time_val) option" where
  "accepted None (ReqSchedule now delay i) = Some (now, delay)"
| "accepted (Some p) (ReqSchedule now delay i) = Some p"
| "accepted p ReqCancel = None"

text \<open>The expiry times that the heap should hold for it.\<close>

definition expiry_of :: "(pj_time_val \<times> pj_time_val) option \<Rightarrow> pj_time_val multiset" where
  "expiry_of p = (case p of None \<Rightarrow> {#} | Some (now, delay) \<Rightarrow> {# PJ_TIME_VAL_ADD now delay #})"

section \<open>What a transaction relies on\<close>

locale entry_timer =
  fixes ok :: "'s \<Rightarrow> bool" and running :: "'s \<Rightarrow> bool" and ident :: "'s \<Rightarrow> int" and rest :: "'s \<Rightarrow> 'o"
    and due :: "'s \<Rightarrow> pj_time_val multiset"
    and sched :: "'s \<Rightarrow> pj_time_val \<Rightarrow> pj_time_val \<Rightarrow> int \<Rightarrow> 's" and stop :: "'s \<Rightarrow> int \<Rightarrow> 's"
  assumes sched_ok: "ok s \<Longrightarrow> ok (sched s now d i)"
    and sched_running: "ok s \<Longrightarrow> running s \<Longrightarrow> sched s now d i = s"
    and sched_idle: "ok s \<Longrightarrow> \<not> running s \<Longrightarrow> running (sched s now d i) \<and> ident (sched s now d i) = i \<and>
      due (sched s now d i) = {# PJ_TIME_VAL_ADD now d #}"
    and sched_rest: "ok s \<Longrightarrow> rest (sched s now d i) = rest s"
    and stop_ok: "ok s \<Longrightarrow> ok (stop s i)"
    and stop_running: "ok s \<Longrightarrow> running s \<Longrightarrow> \<not> running (stop s i) \<and> ident (stop s i) = i \<and> due (stop s i) = {#}"
    and stop_idle: "ok s \<Longrightarrow> \<not> running s \<Longrightarrow> stop s i = s"
    and stop_rest: "ok s \<Longrightarrow> rest (stop s i) = rest s"
begin

definition sim :: "'s \<Rightarrow> tsx_timer \<Rightarrow> (pj_time_val \<times> pj_time_val) option \<Rightarrow> bool" where
  "sim s tm p \<longleftrightarrow> ok s \<and> (running s \<longleftrightarrow> p \<noteq> None) \<and> tm_delay tm = map_option snd p \<and> ident s = timer_num (tm_id tm) \<and> due s = expiry_of p"

definition do_req :: "'s \<Rightarrow> timer_req \<Rightarrow> 's" where
  "do_req s r = (case r of ReqSchedule now d i \<Rightarrow> sched s now d (timer_num i) | ReqCancel \<Rightarrow> stop s (timer_num TIMER_INACTIVE))"

lemma sim_req: "sim s tm p \<Longrightarrow> sim (do_req s r) (view_req tm r) (accepted p r) \<and> rest (do_req s r) = rest s"
proof -
  assume s: "sim s tm p"
  then have o: "ok s" and run: "running s \<longleftrightarrow> p \<noteq> None" by (simp_all add: sim_def)
  show ?thesis
  proof (cases r)
    case (ReqSchedule now d i)
    note r = this and c = sched_ok[OF o, of now d "timer_num i"] sched_rest[OF o, of now d "timer_num i"]
    show ?thesis
    proof (cases p)
      case None
      then show ?thesis using s r c sched_idle[OF o, of now d "timer_num i"] run
        by (simp add: sim_def do_req_def tsx_schedule_timer_def expiry_of_def)
    next
      case (Some q)
      then have "do_req s r = s" using sched_running[OF o, of now d "timer_num i"] run r by (simp add: do_req_def)
      then show ?thesis using s r Some by (simp add: sim_def tsx_schedule_timer_def)
    qed
  next
    case ReqCancel
    note r = this and c = stop_ok[OF o, of "timer_num TIMER_INACTIVE"] stop_rest[OF o, of "timer_num TIMER_INACTIVE"]
    show ?thesis
    proof (cases p)
      case None
      then have "do_req s r = s" using stop_idle[OF o, of "timer_num TIMER_INACTIVE"] run r by (simp add: do_req_def)
      then show ?thesis using s r None by (simp add: sim_def tsx_cancel_timer_def)
    next
      case (Some q)
      then show ?thesis using s r c stop_running[OF o, of "timer_num TIMER_INACTIVE"] run
        by (simp add: sim_def do_req_def tsx_cancel_timer_def expiry_of_def)
    qed
  qed
qed

lemma sim_reqs: "sim s tm p \<Longrightarrow> sim (foldl do_req s rs) (foldl view_req tm rs) (foldl accepted p rs) \<and> rest (foldl do_req s rs) = rest s"
proof (induction rs arbitrary: s tm p)
  case (Cons r rs)
  then show ?case using sim_req[OF Cons.prems, of r] Cons.IH[of "do_req s r" "view_req tm r" "accepted p r"] by simp
qed simp

end

section \<open>The timer heap provides it\<close>

definition heap_entry_ok :: "nat \<Rightarrow> pj_timer_heap_t \<times> timer_world \<Rightarrow> bool" where
  "heap_entry_ok e s \<longleftrightarrow> timer_reach (fst s) (snd s) \<and> te_cb (entries (snd s) e) \<noteq> None"

definition heap_entry_running :: "nat \<Rightarrow> pj_timer_heap_t \<times> timer_world \<Rightarrow> bool" where
  "heap_entry_running e s = pj_timer_entry_running (entries (snd s) e)"

definition heap_entry_id :: "nat \<Rightarrow> pj_timer_heap_t \<times> timer_world \<Rightarrow> int" where
  "heap_entry_id e s = te_id (entries (snd s) e)"

text \<open>The expiry times of the pending items of the entry.\<close>

definition heap_due :: "nat \<Rightarrow> pj_timer_heap_t \<times> timer_world \<Rightarrow> pj_time_val multiset" where
  "heap_due e s = image_mset fst (filter_mset (\<lambda>x. snd x = e) (th_abs (fst s)))"

text \<open>The pending items and the entries of everybody else.\<close>

definition heap_others :: "nat \<Rightarrow> pj_timer_heap_t \<times> timer_world \<Rightarrow> (pj_time_val \<times> nat) multiset \<times> (nat \<Rightarrow> pj_timer_entry option)" where
  "heap_others e s = (filter_mset (\<lambda>x. snd x \<noteq> e) (th_abs (fst s)), (\<lambda>f. if f = e then None else Some (entries (snd s) f)))"

definition heap_sched ::
    "nat \<Rightarrow> nat option \<Rightarrow> pj_timer_heap_t \<times> timer_world \<Rightarrow> pj_time_val \<Rightarrow> pj_time_val \<Rightarrow> int \<Rightarrow> pj_timer_heap_t \<times> timer_world" where
  "heap_sched e grp s now d i =
     (case pj_timer_heap_schedule_w_grp_lock (True, True, True) now (fst s) (snd s) e d i grp of (ht, w, st) \<Rightarrow> (ht, w))"

definition heap_stop :: "nat \<Rightarrow> pj_timer_heap_t \<times> timer_world \<Rightarrow> int \<Rightarrow> pj_timer_heap_t \<times> timer_world" where
  "heap_stop e s i = (case pj_timer_heap_cancel_if_active (fst s) (snd s) e i of (ht, w, n) \<Rightarrow> (ht, w))"

lemma schedule_entry_cb:
  "schedule_entry al ht w e t = (ht1, w1, st) \<Longrightarrow> te_cb (entries w1 e) = te_cb (entries w e)"
  by (auto simp: schedule_entry_def Let_def split: if_splits prod.splits)

lemma schedule_sets_id:
  assumes "schedule_w_grp_lock al now ht w e d (Some v) grp = (ht', w', PJ_SUCCESS)"
  shows "te_id (entries w' e) = v \<and> te_cb (entries w' e) = te_cb (entries w e)"
proof -
  obtain ht1 w1 st where s: "schedule_entry al ht w e (PJ_TIME_VAL_ADD now d) = (ht1, w1, st)"
    by (cases "schedule_entry al ht w e (PJ_TIME_VAL_ADD now d)")
  show ?thesis using assms schedule_entry_cb[OF s] unfolding schedule_w_grp_lock_def s
    by (auto simp: Let_def s split: if_splits)
qed

lemma cancel_cb: "cancel ht w e = (ht1, w1, n) \<Longrightarrow> te_cb (entries w1 e) = te_cb (entries w e)"
  by (auto simp: cancel_def remove_node_def Let_def split: if_splits prod.splits)

lemma cancel_sets_id:
  assumes "timer_ok (ht, w)" "pj_timer_entry_running (entries w e)" "cancel_timer ht w e (Some v) = (ht', w', n)"
  shows "te_id (entries w' e) = v \<and> te_cb (entries w' e) = te_cb (entries w e)"
proof -
  obtain c where n: "n = 1" using cancel_timer_running[OF assms(1,2), of "Some v"] assms(3) by auto
  obtain ht1 w1 k where k: "cancel ht w e = (ht1, w1, k)" by (cases "cancel ht w e")
  show ?thesis using assms(3) n cancel_cb[OF k] unfolding cancel_timer_def by (auto simp: Let_def k split: if_splits)
qed

lemma count_image_filter_empty: "count (image_mset snd A) e = 0 \<Longrightarrow> filter_mset (\<lambda>x. snd x = e) A = {#}"
  by (force simp: multiset_eq_iff count_eq_zero_iff)

interpretation hp: entry_timer "heap_entry_ok e" "heap_entry_running e" "heap_entry_id e" "heap_others e"
  "heap_due e" "heap_sched e grp" "heap_stop e" for e grp
proof
  fix s :: "pj_timer_heap_t \<times> timer_world" and now d :: pj_time_val and i :: int
  assume ok: "heap_entry_ok e s"
  obtain ht w where s: "s = (ht, w)" by (cases s)
  have r: "timer_reach ht w" and cb: "te_cb (entries w e) \<noteq> None" using ok by (simp_all add: s heap_entry_ok_def)
  note tok = timer_reach_ok[OF r]
  have none: "heap_due e (ht', w') = {#}" if "timer_ok (ht', w')" "\<not> pj_timer_entry_running (entries w' e)" for ht' w'
    using live_entries_distinct[OF that(1), of e] that(2) by (simp add: heap_due_def count_image_filter_empty)
  show sr: "heap_sched e grp s now d i = s" if "heap_entry_running e s"
    using that cb by (simp add: s heap_sched_def heap_entry_running_def pj_timer_heap_schedule_w_grp_lock_def
        schedule_w_grp_lock_refused)
  show si: "heap_stop e s i = s" if "\<not> heap_entry_running e s"
    using that by (simp add: s heap_stop_def heap_entry_running_def pj_timer_heap_cancel_if_active_def cancel_timer_idle)
  have S: "heap_entry_ok e (heap_sched e grp s now d i) \<and> heap_entry_running e (heap_sched e grp s now d i) \<and>
      heap_entry_id e (heap_sched e grp s now d i) = i \<and> heap_others e (heap_sched e grp s now d i) = heap_others e s \<and>
      heap_due e (heap_sched e grp s now d i) = {# PJ_TIME_VAL_ADD now d #}"
    if "\<not> heap_entry_running e s"
  proof -
    from schedule_w_grp_lock_ok[OF tok _ cb, of now d "Some i" grp] that
    obtain ht' w' where q: "schedule_w_grp_lock (True, True, True) now ht w e d (Some i) grp = (ht', w', PJ_SUCCESS)"
      "th_abs ht' = add_mset (PJ_TIME_VAL_ADD now d, e) (th_abs ht)" "pj_timer_entry_running (entries w' e)"
      "\<forall>f. f \<noteq> e \<longrightarrow> entries w' f = entries w f" by (auto simp: s heap_entry_running_def)
    have "heap_sched e grp s now d i = (ht', w')"
      using q(1) by (simp add: s heap_sched_def pj_timer_heap_schedule_w_grp_lock_def)
    moreover have "heap_due e (ht, w) = {#}" using none[OF tok] that by (simp add: s heap_entry_running_def)
    ultimately show ?thesis using q cb schedule_sets_id[OF q(1)] timer_reach.schedule[OF r q(1)]
      by (auto simp: s heap_entry_ok_def heap_entry_running_def heap_entry_id_def heap_others_def heap_due_def)
  qed
  have T: "heap_entry_ok e (heap_stop e s i) \<and> \<not> heap_entry_running e (heap_stop e s i) \<and>
      heap_entry_id e (heap_stop e s i) = i \<and> heap_others e (heap_stop e s i) = heap_others e s \<and>
      heap_due e (heap_stop e s i) = {#}"
    if run: "heap_entry_running e s"
  proof -
    have run': "pj_timer_entry_running (entries w e)" using run by (simp add: s heap_entry_running_def)
    from cancel_timer_running[OF tok run', of "Some i"]
    obtain ht' w' t where q: "cancel_timer ht w e (Some i) = (ht', w', 1)" "(t, e) \<in># th_abs ht"
      "th_abs ht' = th_abs ht - {# (t, e) #}" "\<not> pj_timer_entry_running (entries w' e)"
      "\<forall>f. f \<noteq> e \<longrightarrow> entries w' f = entries w f" by blast
    have "th_abs ht = add_mset (t, e) (th_abs ht')" using q(2,3) by simp
    moreover have "heap_stop e s i = (ht', w')" using q(1) by (simp add: s heap_stop_def pj_timer_heap_cancel_if_active_def)
    moreover have "heap_due e (ht', w') = {#}" using none timer_reach_ok[OF timer_reach.cancel[OF r q(1)]] q(4) by blast
    ultimately show ?thesis using q(1,4,5) cb cancel_sets_id[OF tok run' q(1)] timer_reach.cancel[OF r q(1)]
      by (auto simp: s heap_entry_ok_def heap_entry_running_def heap_entry_id_def heap_others_def)
  qed
  show "heap_entry_ok e (heap_sched e grp s now d i)" "heap_others e (heap_sched e grp s now d i) = heap_others e s"
    using S sr ok by (cases "heap_entry_running e s"; simp)+
  show "heap_entry_ok e (heap_stop e s i)" "heap_others e (heap_stop e s i) = heap_others e s"
    using T si ok by (cases "heap_entry_running e s"; simp)+
  show "heap_entry_running e (heap_sched e grp s now d i) \<and> heap_entry_id e (heap_sched e grp s now d i) = i \<and>
      heap_due e (heap_sched e grp s now d i) = {# PJ_TIME_VAL_ADD now d #}"
    if "\<not> heap_entry_running e s" using S[OF that] by simp
  show "\<not> heap_entry_running e (heap_stop e s i) \<and> heap_entry_id e (heap_stop e s i) = i \<and> heap_due e (heap_stop e s i) = {#}"
    if "heap_entry_running e s" using T[OF that] by simp
qed

text \<open>One request of the transaction carried out on the heap.\<close>

definition heap_req ::
    "nat \<Rightarrow> nat option \<Rightarrow> pj_timer_heap_t \<times> timer_world \<Rightarrow> timer_req \<Rightarrow> pj_timer_heap_t \<times> timer_world" where
  "heap_req e grp s r =
     (case r of
        ReqSchedule now d i \<Rightarrow> heap_sched e grp s now d (timer_num i)
      | ReqCancel \<Rightarrow> heap_stop e s (timer_num TIMER_INACTIVE))"

text \<open>
  C30 (refinement): the transaction's view of its timer entry is exact. Whatever sequence of
  \<open>tsx_schedule_timer\<close> and \<open>tsx_cancel_timer\<close> requests a transaction makes for an entry, while no allocation of memory fails, the entry is
  pending in the timer heap exactly when the view says so, with the id of the view; its one pending item expires at the time of the
  accepted request plus its delay, which is the delay of the view; the heap stays
  reachable; and the pending items and the entries of all others are what they were.
\<close>

theorem tsx_timer_view_exact:
  fixes s :: "pj_timer_heap_t \<times> timer_world"
  assumes "timer_reach (fst s) (snd s)" "te_cb (entries (snd s) e) \<noteq> None"
    and "pj_timer_entry_running (entries (snd s) e) \<longleftrightarrow> p \<noteq> None" "te_id (entries (snd s) e) = timer_num (tm_id tm)"
    and "tm_delay tm = map_option snd p" "image_mset fst (filter_mset (\<lambda>x. snd x = e) (th_abs (fst s))) = expiry_of p"
  shows "let s' = foldl (heap_req e grp) s rs; tm' = foldl view_req tm rs; p' = foldl accepted p rs in
    timer_reach (fst s') (snd s') \<and>
    (pj_timer_entry_running (entries (snd s') e) \<longleftrightarrow> tm_delay tm' \<noteq> None) \<and>
    te_id (entries (snd s') e) = timer_num (tm_id tm') \<and>
    tm_delay tm' = map_option snd p' \<and>
    image_mset fst (filter_mset (\<lambda>x. snd x = e) (th_abs (fst s'))) = expiry_of p' \<and>
    filter_mset (\<lambda>x. snd x \<noteq> e) (th_abs (fst s')) = filter_mset (\<lambda>x. snd x \<noteq> e) (th_abs (fst s)) \<and>
    (\<forall>f. f = e \<or> entries (snd s') f = entries (snd s) f)"
proof -
  define s' where "s' = foldl (heap_req e grp) s rs"
  define tm' where "tm' = foldl view_req tm rs"
  define p' where "p' = foldl accepted p rs"
  have eq: "heap_req e grp = hp.do_req e grp" by (intro ext) (simp add: heap_req_def hp.do_req_def)
  have "hp.sim e s tm p" using assms by (simp add: hp.sim_def heap_entry_ok_def heap_entry_running_def heap_entry_id_def heap_due_def)
  from hp.sim_reqs[OF this, of grp rs]
  have "hp.sim e s' tm' p'" and o: "heap_others e s' = heap_others e s" unfolding s'_def tm'_def p'_def eq by simp_all
  moreover have "entries (snd s') f = entries (snd s) f" if "f \<noteq> e" for f
    using fun_cong[OF arg_cong[OF o, of snd], of f] that by (simp add: heap_others_def)
  ultimately show ?thesis unfolding Let_def s'_def[symmetric] tm'_def[symmetric] p'_def[symmetric]
    by (auto simp: hp.sim_def heap_entry_ok_def heap_entry_running_def heap_entry_id_def heap_others_def heap_due_def)
qed

theorem tsx_timer_view_exact_witness:
  "let s' = foldl (heap_req 4 None) demo_state
     [ReqSchedule (TimeVal 20 0) (TimeVal 1 0) TIMEOUT_TIMER, ReqSchedule (TimeVal 21 0) (TimeVal 9 0) RETRANSMIT_TIMER]
   in te_id (entries (snd s') 4) = 2 \<and> image_mset fst (filter_mset (\<lambda>x. snd x = 4) (th_abs (fst s'))) = {# TimeVal 21 0 #}"
proof -
  have c: "te_cb (entries (snd demo_state) 4) \<noteq> None" "\<not> pj_timer_entry_running (entries (snd demo_state) 4)"
    "te_id (entries (snd demo_state) 4) = 0" "PJ_TIME_VAL_ADD (TimeVal 20 0) (TimeVal 1 0) = TimeVal 21 0" by code_simp+
  have "count (image_mset snd (th_abs (fst demo_state))) 4 = 0"
    using live_entries_distinct[of "fst demo_state" "snd demo_state" 4] timer_reach_ok[OF demo_reach] c(2) by simp
  then have "filter_mset (\<lambda>x. snd x = 4) (th_abs (fst demo_state)) = {#}" by (rule count_image_filter_empty)
  then show ?thesis
    using tsx_timer_view_exact[OF demo_reach, of 4 None "\<lparr>tm_id = TIMER_INACTIVE, tm_delay = None\<rparr>" None
        "[ReqSchedule (TimeVal 20 0) (TimeVal 1 0) TIMEOUT_TIMER, ReqSchedule (TimeVal 21 0) (TimeVal 9 0) RETRANSMIT_TIMER]"] c
    by (simp add: tsx_schedule_timer_def Let_def expiry_of_def)
qed

end
