(* ===== verification/Pj_Hash.thy ===== *)
theory Pj_Hash
  imports Pj_Prelude
begin

text \<open>
  The hash table of \<open>pjlib/src/pj/hash.c\<close>: hash values over 32-bit words, chained rows, lookup,
  insertion, replacement and deletion, with keys compared byte by byte or ignoring case, and the
  iterator. Keys are byte lists with their length; a null-terminated key is first cut at its
  terminator (\<open>c_string\<close>). The value \<open>NULL\<close>, which deletes, is \<open>None\<close>. Memory comes from pools that
  do not fail.
\<close>

unbundle bit_operations_syntax

section \<open>Hash values\<close>

type_synonym hkey = "u8 list"

definition PJ_HASH_MULTIPLIER :: "u32" where "PJ_HASH_MULTIPLIER = 33"

definition c_string :: "hkey \<Rightarrow> hkey" where
  "c_string key = takeWhile (\<lambda>b. b \<noteq> 0) key"

definition pj_tolower :: "u8 \<Rightarrow> u8" where
  "pj_tolower c = (if 65 \<le> c \<and> c \<le> 90 then c + 32 else c)"

definition pj_hash_calc :: "u32 \<Rightarrow> hkey \<Rightarrow> u32" where
  "pj_hash_calc hash key = foldl (\<lambda>h b. h * PJ_HASH_MULTIPLIER + ucast b) hash key"

text \<open>The hash of the key in lower case, and the lower-case key.\<close>

definition pj_hash_calc_tolower :: "u32 \<Rightarrow> hkey \<Rightarrow> u32 \<times> hkey" where
  "pj_hash_calc_tolower hval key =
     (foldl (\<lambda>h b. h * PJ_HASH_MULTIPLIER + ucast (pj_tolower b)) hval key, map pj_tolower key)"

section \<open>The table\<close>

record 'v pj_hash_entry =
  he_key :: hkey
  he_hash :: "u32"
  he_value :: 'v

record 'v pj_hash_table_t =
  ht_table :: "'v pj_hash_entry list list"
  ht_count :: nat
  ht_rows :: "u32"

text \<open>The size is doubled from 8 until it reaches the requested size.\<close>

partial_function (option) grow_size :: "u32 \<Rightarrow> u32 \<Rightarrow> u32 option" where
  "grow_size sz table_size =
     (let table_size = push_bit 1 table_size
      in if table_size < sz then grow_size sz table_size else Some table_size)"

declare grow_size.simps [code]

definition pj_hash_create :: "u32 \<Rightarrow> 'v pj_hash_table_t option" where
  "pj_hash_create sz =
     map_option (\<lambda>n. \<lparr>ht_table = replicate (unat (n - 1) + 1) [], ht_count = 0, ht_rows = n - 1\<rparr>)
       (grow_size sz 8)"

text \<open>\<open>pj_ansi_strnicmp\<close> on keys of one length: both end at a zero byte.\<close>

definition strnicmp_eq :: "hkey \<Rightarrow> hkey \<Rightarrow> bool" where
  "strnicmp_eq a b \<longleftrightarrow> c_string (map pj_tolower a) = c_string (map pj_tolower b)"

text \<open>\<open>pj_stricmp\<close> finds no difference.\<close>

definition stricmp_eq :: "hkey \<Rightarrow> hkey \<Rightarrow> bool" where
  "stricmp_eq a b \<longleftrightarrow> length a = length b \<and> strnicmp_eq a b"

text \<open>\<open>pj_strnicmp\<close> cuts both strings to the given length first.\<close>

definition pj_strnicmp_eq :: "hkey \<Rightarrow> hkey \<Rightarrow> nat \<Rightarrow> bool" where
  "pj_strnicmp_eq a b n \<longleftrightarrow> stricmp_eq (take n a) (take n b)"

definition key_match :: "bool \<Rightarrow> hkey \<Rightarrow> hkey \<Rightarrow> bool" where
  "key_match lower a b \<longleftrightarrow> length a = length b \<and> (if lower then strnicmp_eq a b else a = b)"

text \<open>
  \<open>find_entry\<close>: the hash (taken from \<open>hval\<close> unless that is zero), the row, and the position in the
  chain of the matching entry, or the end of the chain.
\<close>

definition key_hash :: "bool \<Rightarrow> hkey \<Rightarrow> u32" where
  "key_hash lower key = (if lower then fst (pj_hash_calc_tolower 0 key) else pj_hash_calc 0 key)"

fun scan_chain :: "bool \<Rightarrow> u32 \<Rightarrow> hkey \<Rightarrow> 'v pj_hash_entry list \<Rightarrow> nat" where
  "scan_chain lower hash key [] = 0"
| "scan_chain lower hash key (e # es) =
     (if he_hash e = hash \<and> key_match lower (he_key e) key then 0 else Suc (scan_chain lower hash key es))"

definition find_entry ::
    "'v pj_hash_table_t \<Rightarrow> hkey \<Rightarrow> u32 \<Rightarrow> bool \<Rightarrow> u32 \<times> nat \<times> nat" where
  "find_entry ht key hval lower =
     (let hash = (if hval \<noteq> 0 then hval else key_hash lower key);
          row = unat (hash AND ht_rows ht)
      in (hash, row, scan_chain lower hash key (ht_table ht ! row)))"

text \<open>\<open>pj_hash_get\<close> and \<open>pj_hash_get_lower\<close>: the value, or \<open>NULL\<close>; the hash is reported back.\<close>

definition pj_hash_get :: "bool \<Rightarrow> 'v pj_hash_table_t \<Rightarrow> hkey \<Rightarrow> u32 \<Rightarrow> 'v option \<times> u32" where
  "pj_hash_get lower ht key hval =
     (let (hash, row, pos) = find_entry ht key hval lower;
          chain = ht_table ht ! row
      in (if pos < length chain then Some (he_value (chain ! pos)) else None, hash))"

definition hash_set :: "bool \<Rightarrow> 'v pj_hash_table_t \<Rightarrow> hkey \<Rightarrow> u32 \<Rightarrow> 'v option \<Rightarrow> 'v pj_hash_table_t" where
  "hash_set lower ht key hval val =
     (let (hash, row, pos) = find_entry ht key hval lower;
          chain = ht_table ht ! row
      in case val of
           None \<Rightarrow>
             (if pos < length chain
              then ht\<lparr>ht_table := (ht_table ht)[row := take pos chain @ drop (Suc pos) chain],
                      ht_count := ht_count ht - 1\<rparr>
              else ht)
         | Some v \<Rightarrow>
             (if pos < length chain
              then ht\<lparr>ht_table := (ht_table ht)[row := chain[pos := (chain ! pos)\<lparr>he_value := v\<rparr>]]\<rparr>
              else ht\<lparr>ht_table := (ht_table ht)[row := chain @ [\<lparr>he_key = key, he_hash = hash, he_value = v\<rparr>]],
                      ht_count := ht_count ht + 1\<rparr>))"

definition pj_hash_count :: "'v pj_hash_table_t \<Rightarrow> nat" where
  "pj_hash_count ht = ht_count ht"

section \<open>The iterator\<close>

text \<open>An iterator is the row and the rest of its chain, the current entry first.\<close>

type_synonym 'v hash_iterator = "nat \<times> 'v pj_hash_entry list"

function next_row :: "'v pj_hash_table_t \<Rightarrow> nat \<Rightarrow> 'v hash_iterator option" where
  "next_row ht i =
     (if i > unat (ht_rows ht) then None
      else if ht_table ht ! i \<noteq> [] then Some (i, ht_table ht ! i)
      else next_row ht (Suc i))"
  by pat_completeness auto
termination by (relation "measure (\<lambda>(ht, i). Suc (unat (ht_rows ht)) - i)") auto

definition pj_hash_first :: "'v pj_hash_table_t \<Rightarrow> 'v hash_iterator option" where
  "pj_hash_first ht = next_row ht 0"

definition pj_hash_next :: "'v pj_hash_table_t \<Rightarrow> 'v hash_iterator \<Rightarrow> 'v hash_iterator option" where
  "pj_hash_next ht it =
     (case it of (i, es) \<Rightarrow> if tl es \<noteq> [] then Some (i, tl es) else next_row ht (Suc i))"

definition pj_hash_this :: "'v hash_iterator \<Rightarrow> 'v" where
  "pj_hash_this it = he_value (hd (snd it))"

section \<open>Correctness\<close>

text \<open>Two keys that the table does not tell apart.\<close>

definition same_key :: "bool \<Rightarrow> hkey \<Rightarrow> hkey \<Rightarrow> bool" where
  "same_key lower a b \<longleftrightarrow> key_hash lower a = key_hash lower b \<and> key_match lower a b"

lemma same_key_refl [simp]: "same_key lower a a"
  by (simp add: same_key_def key_match_def strnicmp_eq_def)

lemma same_key_sym: "same_key lower a b \<longleftrightarrow> same_key lower b a"
  by (auto simp: same_key_def key_match_def strnicmp_eq_def)

lemma same_key_trans: "same_key lower a b \<Longrightarrow> same_key lower b c \<Longrightarrow> same_key lower a c"
  by (auto simp: same_key_def key_match_def strnicmp_eq_def split: if_splits)

lemma key_hash_tolower: "key_hash True a = pj_hash_calc 0 (map pj_tolower a)"
  by (simp add: key_hash_def pj_hash_calc_tolower_def pj_hash_calc_def foldl_map)

lemma c_string_no_zero: "0 \<notin> set a \<Longrightarrow> c_string a = a"
  by (simp add: c_string_def takeWhile_eq_all_conv) metis

lemma pj_tolower_zero [simp]: "pj_tolower c = 0 \<longleftrightarrow> c = 0"
proof -
  have "c + 32 \<noteq> 0" if "65 \<le> c" "c \<le> 90"
  proof -
    have "unat c \<le> 90" using that(2) by (simp add: word_le_nat_alt)
    then have "unat (c + 32) = unat c + 32" by (simp add: unat_word_ariths)
    then show ?thesis by (metis add_eq_0_iff_both_eq_0 unat_0 zero_neq_numeral)
  qed
  then show ?thesis by (auto simp: pj_tolower_def)
qed

text \<open>For keys without zero bytes a case-insensitive table tells apart exactly what differs in more than case.\<close>

lemma same_key_lower:
  assumes "0 \<notin> set a" "0 \<notin> set b"
  shows "same_key True a b \<longleftrightarrow> map pj_tolower a = map pj_tolower b"
proof -
  have "0 \<notin> set (map pj_tolower a)" "0 \<notin> set (map pj_tolower b)" using assms by (auto simp: eq_commute[of 0])
  then have "c_string (map pj_tolower a) = map pj_tolower a" "c_string (map pj_tolower b) = map pj_tolower b"
    by (simp_all add: c_string_no_zero del: set_map)
  then show ?thesis unfolding same_key_def key_match_def strnicmp_eq_def key_hash_tolower
    by (metis length_map)
qed

text \<open>Well-formed tables, used with one way of comparing keys.\<close>

definition chain_ok :: "bool \<Rightarrow> u32 \<Rightarrow> nat \<Rightarrow> 'v pj_hash_entry list \<Rightarrow> bool" where
  "chain_ok lower rows i es \<longleftrightarrow>
     (\<forall>e \<in> set es. he_hash e = key_hash lower (he_key e) \<and> unat (key_hash lower (he_key e) AND rows) = i) \<and>
     (\<forall>j k. j < k \<longrightarrow> k < length es \<longrightarrow> \<not> same_key lower (he_key (es ! j)) (he_key (es ! k)))"

definition hash_ok :: "bool \<Rightarrow> 'v pj_hash_table_t \<Rightarrow> bool" where
  "hash_ok lower ht \<longleftrightarrow>
     length (ht_table ht) = Suc (unat (ht_rows ht)) \<and> ht_count ht = length (concat (ht_table ht)) \<and>
     (\<forall>i < length (ht_table ht). chain_ok lower (ht_rows ht) i (ht_table ht ! i))"

lemma scan_chain_le: "scan_chain lower h key es \<le> length es"
  by (induction es) auto

lemma scan_chain_hit:
  "scan_chain lower h key es < length es \<Longrightarrow>
   he_hash (es ! scan_chain lower h key es) = h \<and> key_match lower (he_key (es ! scan_chain lower h key es)) key"
  by (induction es) (auto split: if_splits)

lemma scan_chain_first:
  "j < scan_chain lower h key es \<Longrightarrow> \<not> (he_hash (es ! j) = h \<and> key_match lower (he_key (es ! j)) key)"
  by (induction es arbitrary: j) (auto split: if_splits simp: nth_Cons less_Suc_eq_0_disj)

fun chain_get :: "bool \<Rightarrow> hkey \<Rightarrow> 'v pj_hash_entry list \<Rightarrow> 'v option" where
  "chain_get lower key [] = None"
| "chain_get lower key (e # es) = (if same_key lower (he_key e) key then Some (he_value e) else chain_get lower key es)"

lemma chain_get_append:
  "chain_get lower key (xs @ ys) = (case chain_get lower key xs of None \<Rightarrow> chain_get lower key ys | Some v \<Rightarrow> Some v)"
  by (induction xs) auto

lemma chain_get_None: "chain_get lower key es = None \<longleftrightarrow> (\<forall>e \<in> set es. \<not> same_key lower (he_key e) key)"
  by (induction es) auto

text \<open>The entry found splits the chain.\<close>

lemma scan_chain_split:
  assumes "chain_ok lower rows i es" "scan_chain lower (key_hash lower key) key es < length es"
  obtains xs e ys where "es = xs @ e # ys" "scan_chain lower (key_hash lower key) key es = length xs"
    "same_key lower (he_key e) key" "chain_get lower key xs = None" "chain_get lower key ys = None"
proof -
  define p where "p = scan_chain lower (key_hash lower key) key es"
  have p: "p < length es" using assms(2) by (simp add: p_def)
  have h: "he_hash e = key_hash lower (he_key e)" if "e \<in> set es" for e using assms(1) that by (simp add: chain_ok_def)
  have hit: "same_key lower (he_key (es ! p)) key"
    using scan_chain_hit[OF assms(2)] h[OF nth_mem[OF p]] unfolding same_key_def p_def by simp
  have "\<not> same_key lower (he_key (es ! j)) key" if "j < length es" "j \<noteq> p" for j
  proof
    assume s: "same_key lower (he_key (es ! j)) key"
    then have "same_key lower (he_key (es ! j)) (he_key (es ! p))" "same_key lower (he_key (es ! p)) (he_key (es ! j))"
      using hit same_key_sym same_key_trans by metis+
    then show False using that p assms(1) unfolding chain_ok_def by (metis nat_neq_iff)
  qed
  then have "\<forall>e \<in> set (take p es). \<not> same_key lower (he_key e) key" "\<forall>e \<in> set (drop (Suc p) es). \<not> same_key lower (he_key e) key"
    using p by (auto simp: in_set_conv_nth)
  then have "chain_get lower key (take p es) = None" "chain_get lower key (drop (Suc p) es) = None"
    by (simp_all add: chain_get_None)
  moreover have "es = take p es @ es ! p # drop (Suc p) es" using p by (rule id_take_nth_drop)
  moreover have "p = length (take p es)" using p by simp
  ultimately show ?thesis using that hit unfolding p_def by blast
qed

lemma scan_chain_miss:
  assumes "chain_ok lower rows i es" "\<not> scan_chain lower (key_hash lower key) key es < length es"
  shows "chain_get lower key es = None"
proof -
  have "scan_chain lower (key_hash lower key) key es = length es"
    using assms(2) scan_chain_le[of lower "key_hash lower key" key es] by simp
  then have "\<not> same_key lower (he_key (es ! j)) key" if "j < length es" for j
    using scan_chain_first[of j lower "key_hash lower key" key es] that assms(1)
    unfolding chain_ok_def same_key_def by (metis nth_mem)
  then show ?thesis by (auto simp: chain_get_None in_set_conv_nth)
qed

definition hval_ok :: "bool \<Rightarrow> hkey \<Rightarrow> u32 \<Rightarrow> bool" where
  "hval_ok lower key hval \<longleftrightarrow> hval = 0 \<or> hval = key_hash lower key"

definition row_of :: "bool \<Rightarrow> 'v pj_hash_table_t \<Rightarrow> hkey \<Rightarrow> nat" where
  "row_of lower ht key = unat (key_hash lower key AND ht_rows ht)"

lemma row_in_table: "hash_ok lower ht \<Longrightarrow> row_of lower ht key < length (ht_table ht)"
proof -
  have "key_hash lower key AND ht_rows ht \<le> ht_rows ht" by (rule word_and_le1)
  then show "hash_ok lower ht \<Longrightarrow> ?thesis" by (simp add: hash_ok_def row_of_def word_le_nat_alt less_Suc_eq_le)
qed

lemma find_entry_eq:
  "hval_ok lower key hval \<Longrightarrow> find_entry ht key hval lower =
    (key_hash lower key, row_of lower ht key, scan_chain lower (key_hash lower key) key (ht_table ht ! row_of lower ht key))"
  by (auto simp: find_entry_def hval_ok_def row_of_def Let_def)

lemma get_chain:
  assumes "hash_ok lower ht" "hval_ok lower key hval"
  shows "pj_hash_get lower ht key hval = (chain_get lower key (ht_table ht ! row_of lower ht key), key_hash lower key)"
proof -
  define es where "es = ht_table ht ! row_of lower ht key"
  have c: "chain_ok lower (ht_rows ht) (row_of lower ht key) es"
    using assms(1) row_in_table unfolding hash_ok_def es_def by blast
  show ?thesis
  proof (cases "scan_chain lower (key_hash lower key) key es < length es")
    case True
    then obtain xs e ys where "es = xs @ e # ys" "scan_chain lower (key_hash lower key) key es = length xs"
      "same_key lower (he_key e) key" "chain_get lower key xs = None" using scan_chain_split[OF c] by metis
    then show ?thesis using True
      by (simp add: pj_hash_get_def find_entry_eq[OF assms(2)] Let_def es_def[symmetric] chain_get_append)
  next
    case False
    then show ?thesis using scan_chain_miss[OF c False]
      by (simp add: pj_hash_get_def find_entry_eq[OF assms(2)] Let_def es_def[symmetric])
  qed
qed

text \<open>Setting a key changes the chain of its row only.\<close>

definition chain_set :: "bool \<Rightarrow> hkey \<Rightarrow> 'v option \<Rightarrow> 'v pj_hash_entry list \<Rightarrow> 'v pj_hash_entry list" where
  "chain_set lower key val es =
     (let pos = scan_chain lower (key_hash lower key) key es
      in case val of
           None \<Rightarrow> if pos < length es then take pos es @ drop (Suc pos) es else es
         | Some v \<Rightarrow> if pos < length es then es[pos := (es ! pos)\<lparr>he_value := v\<rparr>]
                     else es @ [\<lparr>he_key = key, he_hash = key_hash lower key, he_value = v\<rparr>])"

lemma hash_set_row:
  fixes ht :: "'v pj_hash_table_t"
  assumes "hval_ok lower key hval"
  defines "row \<equiv> row_of lower ht key" and "es \<equiv> ht_table ht ! row_of lower ht key"
  shows "ht_table (hash_set lower ht key hval val) =
      (if scan_chain lower (key_hash lower key) key es < length es \<or> val \<noteq> None
       then (ht_table ht)[row := chain_set lower key val es] else ht_table ht)"
    "ht_rows (hash_set lower ht key hval val) = ht_rows ht"
    "ht_count (hash_set lower ht key hval val) =
      (if scan_chain lower (key_hash lower key) key es < length es
       then (if val = None then ht_count ht - 1 else ht_count ht)
       else (if val = None then ht_count ht else ht_count ht + 1))"
  unfolding hash_set_def find_entry_eq[OF assms(1)] assms(2,3) chain_set_def by (auto simp: Let_def split: option.splits)

lemma chain_ok_split:
  "chain_ok lower rows i (xs @ e # ys) \<Longrightarrow> chain_ok lower rows i (xs @ ys)"
proof -
  assume c: "chain_ok lower rows i (xs @ e # ys)"
  have "\<not> same_key lower (he_key ((xs @ ys) ! j)) (he_key ((xs @ ys) ! k))" if "j < k" "k < length (xs @ ys)" for j k
  proof -
    define f where "f n = (if n < length xs then n else Suc n)" for n
    have nth: "(xs @ ys) ! n = (xs @ e # ys) ! f n" for n by (simp add: f_def nth_append Suc_diff_le)
    have "f j < f k" "f k < length (xs @ e # ys)" using that by (auto simp: f_def)
    then show ?thesis unfolding nth using c by (simp add: chain_ok_def)
  qed
  then show ?thesis using c unfolding chain_ok_def by auto
qed

lemma chain_set_ok:
  assumes c: "chain_ok lower rows i es" and i: "unat (key_hash lower key AND rows) = i"
  shows "chain_ok lower rows i (chain_set lower key val es)"
    "chain_get lower k (chain_set lower key val es) = (if same_key lower key k then val else chain_get lower k es)"
    "length (chain_set lower key val es) =
      (if scan_chain lower (key_hash lower key) key es < length es
       then (if val = None then length es - 1 else length es)
       else (if val = None then length es else length es + 1))"
proof -
  let ?p = "scan_chain lower (key_hash lower key) key es"
  have "chain_ok lower rows i (chain_set lower key val es) \<and>
    chain_get lower k (chain_set lower key val es) = (if same_key lower key k then val else chain_get lower k es)"
  proof (cases "?p < length es")
    case True
    obtain xs e ys where es: "es = xs @ e # ys" "?p = length xs" "same_key lower (he_key e) key"
      "chain_get lower key xs = None" "chain_get lower key ys = None" using scan_chain_split[OF c True] .
    have gone: "chain_get lower k xs = None" "chain_get lower k ys = None" if "same_key lower key k"
      using es(4,5) that unfolding chain_get_None by (metis same_key_sym same_key_trans)+
    have ek: "same_key lower (he_key e) k \<longleftrightarrow> same_key lower key k"
      using es(3) by (metis same_key_sym same_key_trans)
    have cs: "chain_set lower key None es = xs @ ys" "chain_set lower key (Some v) es = xs @ e\<lparr>he_value := v\<rparr> # ys" for v
      using es(2) unfolding chain_set_def es(1) by (simp_all add: Let_def)
    have "chain_ok lower rows i (xs @ e\<lparr>he_value := v\<rparr> # ys)" for v
    proof -
      have "he_key ((xs @ e\<lparr>he_value := v\<rparr> # ys) ! j) = he_key ((xs @ e # ys) ! j)" for j
        by (cases "j = length xs") (simp_all add: nth_append nth_Cons')
      then show ?thesis using c unfolding es(1) chain_ok_def by auto
    qed
    then show ?thesis using c gone ek chain_ok_split
      unfolding es(1) by (cases "val") (auto simp: cs[unfolded es(1)] chain_get_append split: option.splits)
  next
    case False
    have miss: "chain_get lower key es = None" by (rule scan_chain_miss[OF c False])
    have gone: "chain_get lower k es = None" if "same_key lower key k"
      using miss that unfolding chain_get_None by (metis same_key_sym same_key_trans)
    have cs: "chain_set lower key None es = es"
      "chain_set lower key (Some v) es = es @ [\<lparr>he_key = key, he_hash = key_hash lower key, he_value = v\<rparr>]" for v
      using False by (simp_all add: chain_set_def Let_def)
    have "\<forall>e \<in> set es. \<not> same_key lower (he_key e) key" using miss by (simp add: chain_get_None)
    then have "chain_ok lower rows i (es @ [\<lparr>he_key = key, he_hash = key_hash lower key, he_value = v\<rparr>])" for v
      using c i unfolding chain_ok_def by (auto simp: nth_append less_Suc_eq)
    then show ?thesis using c gone by (cases "val") (auto simp: cs chain_get_append split: option.splits)
  qed
  then show "chain_ok lower rows i (chain_set lower key val es)"
    "chain_get lower k (chain_set lower key val es) = (if same_key lower key k then val else chain_get lower k es)" by auto
  show "length (chain_set lower key val es) =
      (if ?p < length es then (if val = None then length es - 1 else length es)
       else (if val = None then length es else length es + 1))"
    by (auto simp: chain_set_def Let_def split: option.splits)
qed

lemma concat_update_length:
  "i < length xss \<Longrightarrow> length (concat (xss[i := ys])) + length (xss ! i) = length (concat xss) + length ys"
proof (induction xss arbitrary: i)
  case (Cons xs xss)
  then show ?case by (cases i) simp_all
qed simp

lemma hash_set_ok:
  assumes ok: "hash_ok lower ht" and h: "hval_ok lower key hval"
  shows "hash_ok lower (hash_set lower ht key hval val)"
    "\<And>k hv. hval_ok lower k hv \<Longrightarrow> fst (pj_hash_get lower (hash_set lower ht key hval val) k hv) =
      (if same_key lower key k then val else fst (pj_hash_get lower ht k hv))"
proof -
  define r where "r = row_of lower ht key"
  define es where "es = ht_table ht ! r"
  define ht' where "ht' = hash_set lower ht key hval val"
  note rows = hash_set_row[OF h, of ht val, folded r_def es_def ht'_def]
  have r: "r < length (ht_table ht)" unfolding r_def by (rule row_in_table[OF ok])
  have c: "chain_ok lower (ht_rows ht) r es" using ok r unfolding hash_ok_def es_def by blast
  have i: "unat (key_hash lower key AND ht_rows ht) = r" by (simp add: r_def row_of_def)
  note cs = chain_set_ok[OF c i, where val = val]
  have tab: "ht_table ht' = (ht_table ht)[r := chain_set lower key val es]"
    using rows(1) r by (auto simp: es_def chain_set_def Let_def)
  have le: "length es \<le> length (concat (ht_table ht))"
    using r unfolding es_def by (induction "ht_table ht" arbitrary: r) (auto simp: length_concat nth_Cons' member_le_sum_list)
  have ne: "scan_chain lower (key_hash lower key) key es < length es \<Longrightarrow> 0 < length es" by (rule le_less_trans[OF le0])
  have "ht_count ht' = length (concat (ht_table ht'))"
    using rows(3) ok cs(3) concat_update_length[OF r, of "chain_set lower key val es"] le ne
    unfolding tab es_def[symmetric] hash_ok_def by (auto split: if_splits)
  then show ok': "hash_ok lower (hash_set lower ht key hval val)"
    using ok cs(1) r unfolding ht'_def[symmetric] hash_ok_def rows(2) tab
    by (auto simp: nth_list_update)
  fix k hv
  assume hk: "hval_ok lower k hv"
  have rk: "row_of lower ht' k = row_of lower ht k" by (simp add: row_of_def rows(2))
  have "\<not> same_key lower key k" if "row_of lower ht k \<noteq> r"
    using that by (auto simp: same_key_def row_of_def r_def)
  then show "fst (pj_hash_get lower (hash_set lower ht key hval val) k hv) =
      (if same_key lower key k then val else fst (pj_hash_get lower ht k hv))"
    using cs(2)[of k] r get_chain[OF ok hk] get_chain[OF ok' hk] unfolding ht'_def[symmetric] rk tab
    by (cases "row_of lower ht k = r") (auto simp: es_def)
qed

lemma grow_size_ok:
  assumes "unat sz \<le> 2 ^ 31" "k < 31"
  shows "\<exists>n. k < n \<and> n \<le> 31 \<and> grow_size sz (2 ^ k) = Some (2 ^ n) \<and> unat sz \<le> 2 ^ n"
  using assms(2)
proof (induction "31 - k" arbitrary: k rule: less_induct)
  case less
  have u: "unat (2 ^ Suc k :: u32) = 2 ^ Suc k"
  proof -
    have "(2::nat) ^ Suc k < 2 ^ 32" using less.prems by (intro power_strict_increasing) simp_all
    then show ?thesis using of_nat_inverse[of "2 ^ Suc k" "2 ^ Suc k :: u32"] by (simp del: power_Suc)
  qed
  show ?case
  proof (cases "(2 ^ Suc k :: u32) < sz")
    case True
    then have "2 ^ Suc k < unat sz" using u by (simp add: word_less_nat_alt)
    then have "(2::nat) ^ Suc k < 2 ^ 31" using assms(1) by linarith
    then have k: "Suc k < 31" by (rule power_less_imp_less_exp[rotated]) simp
    have "31 - Suc k < 31 - k" using k by simp
    from less.hyps[OF this k]
    obtain n where n: "Suc k < n" "n \<le> 31" "grow_size sz (2 ^ Suc k) = Some (2 ^ n)" "unat sz \<le> 2 ^ n" by blast
    have "grow_size sz (2 ^ k) = grow_size sz (2 ^ Suc k)"
      using True by (subst grow_size.simps) (simp add: Let_def mult.commute)
    then show ?thesis using n by (metis Suc_lessD)
  next
    case False
    then have "unat sz \<le> 2 ^ Suc k" using u by (simp add: word_less_nat_alt del: power_Suc)
    moreover have "grow_size sz (2 ^ k) = Some (2 ^ Suc k)"
      using False by (subst grow_size.simps) (simp add: Let_def mult.commute)
    ultimately show ?thesis using less.prems by (intro exI[of _ "Suc k"]) (simp del: power_Suc)
  qed
qed

lemma hash_create_ok:
  assumes "unat sz \<le> 2 ^ 31"
  shows "\<exists>ht :: 'v pj_hash_table_t. pj_hash_create sz = Some ht \<and> hash_ok lower ht \<and> concat (ht_table ht) = []"
proof -
  have "(2::u32) ^ 3 = 8" by simp
  then obtain n where n: "grow_size sz 8 = Some (2 ^ n)" "3 < n" "n \<le> 31" using grow_size_ok[OF assms, of 3] by auto
  show ?thesis unfolding pj_hash_create_def n(1)
    by (auto simp: hash_ok_def chain_ok_def simp del: replicate.simps replicate_Suc)
qed

lemma hash_set_hval: "hval_ok lower key hval \<Longrightarrow> hash_set lower ht key hval val = hash_set lower ht key 0 val"
  unfolding hash_set_def using find_entry_eq[of lower key hval ht] find_entry_eq[of lower key 0 ht] by (simp add: hval_ok_def)

lemma empty_get:
  assumes "hash_ok lower ht" "concat (ht_table ht) = []"
  shows "fst (pj_hash_get lower ht key 0) = None"
proof -
  have "ht_table ht ! row_of lower ht key = []" using assms(2) row_in_table[OF assms(1)] by (simp add: nth_mem)
  then show ?thesis using get_chain[OF assms(1), of key 0] by (simp add: hval_ok_def)
qed

lemma chain_get_cong: "same_key lower k l \<Longrightarrow> chain_get lower k es = chain_get lower l es"
proof (induction es)
  case (Cons e es)
  have "same_key lower (he_key e) k \<longleftrightarrow> same_key lower (he_key e) l"
    using Cons.prems same_key_trans same_key_sym by metis
  then show ?case using Cons by simp
qed simp

lemma hash_get_cong:
  assumes "hash_ok lower ht" "same_key lower k l"
  shows "fst (pj_hash_get lower ht k 0) = fst (pj_hash_get lower ht l 0)"
proof -
  have "row_of lower ht k = row_of lower ht l" using assms(2) by (simp add: row_of_def same_key_def)
  then show ?thesis using get_chain[OF assms(1), of k 0] get_chain[OF assms(1), of l 0] chain_get_cong[OF assms(2)]
    by (simp add: hval_ok_def)
qed

section \<open>The interface: a map up to equivalent keys\<close>

locale key_map =
  fixes ok :: "'t \<Rightarrow> bool" and same :: "'k \<Rightarrow> 'k \<Rightarrow> bool" and get :: "'t \<Rightarrow> 'k \<Rightarrow> 'v option"
    and put :: "'t \<Rightarrow> 'k \<Rightarrow> 'v option \<Rightarrow> 't"
  assumes same_refl: "same k k" and same_sym: "same k l \<Longrightarrow> same l k" and same_trans: "same k l \<Longrightarrow> same l m \<Longrightarrow> same k m"
    and get_cong: "ok t \<Longrightarrow> same k l \<Longrightarrow> get t k = get t l"
    and put_ok: "ok t \<Longrightarrow> ok (put t k v)"
    and get_put: "ok t \<Longrightarrow> get (put t k v) l = (if same k l then v else get t l)"
begin

lemma get_same: "ok t \<Longrightarrow> get (put t k v) k = v"
  by (simp add: get_put same_refl)

lemma puts_ok: "ok t \<Longrightarrow> ok (foldl (\<lambda>t (k, v). put t k v) t ops)"
  by (induction ops arbitrary: t) (auto simp: put_ok)

lemma get_puts:
  "ok t \<Longrightarrow> get (foldl (\<lambda>t (k, v). put t k v) t ops) l =
     (case find (\<lambda>(k, v). same k l) (rev ops) of Some (k, v) \<Rightarrow> v | None \<Rightarrow> get t l)"
proof (induction ops rule: rev_induct)
  case (snoc op ops)
  then show ?case by (cases op) (simp add: get_put puts_ok)
qed simp

end

interpretation hm: key_map "hash_ok lower" "same_key lower" "\<lambda>ht k. fst (pj_hash_get lower ht k 0)"
  "\<lambda>ht k v. hash_set lower ht k 0 v" for lower
proof
  show "same_key lower k k" for k by simp
  show "same_key lower k l \<Longrightarrow> same_key lower l k" for k l by (simp add: same_key_sym)
  show "same_key lower k l \<Longrightarrow> same_key lower l m \<Longrightarrow> same_key lower k m" for k l m by (rule same_key_trans)
  show "hash_ok lower t \<Longrightarrow> same_key lower k l \<Longrightarrow> fst (pj_hash_get lower t k 0) = fst (pj_hash_get lower t l 0)"
    for t :: "'v pj_hash_table_t" and k l by (rule hash_get_cong)
  show "hash_ok lower t \<Longrightarrow> hash_ok lower (hash_set lower t k 0 v)" for t :: "'v pj_hash_table_t" and k v
    by (rule hash_set_ok(1)) (simp_all add: hval_ok_def)
  show "hash_ok lower t \<Longrightarrow> fst (pj_hash_get lower (hash_set lower t k 0 v) l 0) =
      (if same_key lower k l then v else fst (pj_hash_get lower t l 0))" for t :: "'v pj_hash_table_t" and k v l
    by (rule hash_set_ok(2)) (simp_all add: hval_ok_def)
qed

section \<open>Iteration\<close>

fun collect :: "nat \<Rightarrow> 'v pj_hash_table_t \<Rightarrow> 'v hash_iterator option \<Rightarrow> 'v list" where
  "collect 0 ht it = []"
| "collect (Suc n) ht None = []"
| "collect (Suc n) ht (Some it) = pj_hash_this it # collect n ht (pj_hash_next ht it)"

lemma next_row_spec:
  assumes "length (ht_table ht) = Suc (unat (ht_rows ht))"
  shows "case next_row ht i of
      None \<Rightarrow> concat (drop i (ht_table ht)) = []
    | Some (j, es) \<Rightarrow> es \<noteq> [] \<and> concat (drop i (ht_table ht)) = es @ concat (drop (Suc j) (ht_table ht))"
  using assms
proof (induction ht i rule: next_row.induct)
  case (1 ht i)
  show ?case
  proof (cases "i > unat (ht_rows ht)")
    case False
    then have "drop i (ht_table ht) = ht_table ht ! i # drop (Suc i) (ht_table ht)" using 1(2) by (simp add: Cons_nth_drop_Suc)
    moreover have "next_row ht i = (if ht_table ht ! i \<noteq> [] then Some (i, ht_table ht ! i) else next_row ht (Suc i))"
      using False by (subst next_row.simps) simp
    ultimately show ?thesis using 1 False
      by (cases "ht_table ht ! i = []"; cases "next_row ht (Suc i)") (auto simp del: next_row.simps)
  qed (use 1(2) in simp)
qed

lemma collect_spec:
  assumes l: "length (ht_table ht) = Suc (unat (ht_rows ht))"
  shows "es \<noteq> [] \<Longrightarrow> length es + length (concat (drop (Suc i) (ht_table ht))) \<le> n \<Longrightarrow>
    collect n ht (Some (i, es)) = map he_value (es @ concat (drop (Suc i) (ht_table ht)))"
proof (induction n arbitrary: i es)
  case (Suc n)
  then obtain e es' where es: "es = e # es'" by (cases es) auto
  show ?case
  proof (cases "es' = []")
    case False
    then show ?thesis using Suc.prems Suc.IH[of es' i] by (simp add: es pj_hash_this_def pj_hash_next_def)
  next
    case True
    have "collect n ht (next_row ht (Suc i)) = map he_value (concat (drop (Suc i) (ht_table ht)))"
      using next_row_spec[OF l, of "Suc i"] Suc.prems Suc.IH
      by (cases "next_row ht (Suc i)"; cases n) (auto simp: es True simp del: next_row.simps)
    then show ?thesis by (simp add: es True pj_hash_this_def pj_hash_next_def del: next_row.simps)
  qed
qed simp

lemma collect_first:
  assumes "hash_ok lower ht"
  shows "collect (ht_count ht) ht (pj_hash_first ht) = map he_value (concat (ht_table ht))"
proof -
  have l: "length (ht_table ht) = Suc (unat (ht_rows ht))" and c: "ht_count ht = length (concat (ht_table ht))"
    using assms by (simp_all add: hash_ok_def)
  show ?thesis
  proof (cases "next_row ht 0")
    case None
    then have "concat (ht_table ht) = []" using next_row_spec[OF l, of 0] by (simp del: next_row.simps)
    then show ?thesis unfolding c by (simp only: list.size collect.simps list.map)
  next
    case (Some it)
    obtain j es where it: "it = (j, es)" by (cases it)
    have "es \<noteq> []" "concat (ht_table ht) = es @ concat (drop (Suc j) (ht_table ht))"
      using next_row_spec[OF l, of 0] Some it by (simp_all del: next_row.simps)
    then show ?thesis using collect_spec[OF l, of es j] Some it unfolding pj_hash_first_def c
      by (metis length_append order_refl)
  qed
qed

lemma chain_get_stored:
  assumes "chain_ok lower rows i es" "e \<in> set es"
  shows "chain_get lower (he_key e) es = Some (he_value e)"
proof -
  obtain xs ys where es: "es = xs @ e # ys" using assms(2) by (meson split_list)
  have "\<not> same_key lower (he_key (xs ! j)) (he_key e)" if "j < length xs" for j
  proof -
    have "es ! j = xs ! j" "es ! length xs = e" using that by (simp_all add: es nth_append)
    then show ?thesis using assms(1) that unfolding chain_ok_def by (metis es length_append less_add_same_cancel1 list.size(4) zero_less_Suc add_Suc_right)
  qed
  then have "chain_get lower (he_key e) xs = None" by (auto simp: chain_get_None in_set_conv_nth)
  then show ?thesis by (simp add: es chain_get_append)
qed

lemma stored_get:
  assumes ok: "hash_ok lower ht" and e: "e \<in> set (concat (ht_table ht))"
  shows "fst (pj_hash_get lower ht (he_key e) 0) = Some (he_value e)"
proof -
  obtain i where i: "i < length (ht_table ht)" "e \<in> set (ht_table ht ! i)" 
    using e by (metis (no_types, lifting) in_set_conv_nth set_concat UN_E)
  have c: "chain_ok lower (ht_rows ht) i (ht_table ht ! i)" using ok i(1) by (simp add: hash_ok_def)
  then have "row_of lower ht (he_key e) = i" using i(2) by (simp add: chain_ok_def row_of_def)
  then show ?thesis using get_chain[OF ok, of "he_key e" 0] chain_get_stored[OF c i(2)] by (simp add: hval_ok_def)
qed

text \<open>
  C31 (refinement): the hash table is a map. For every requested size up to 2 to the 31 the table is
  created, and after any sequence of insertions, replacements and deletions (with the hash value
  precomputed or left to the table) a lookup returns what was last stored under an equivalent key,
  or nothing when that was a deletion or never happened; iterating visits exactly the stored values
  and the count is their number.
\<close>

theorem hash_table_is_map:
  fixes ops :: "(hkey \<times> u32 \<times> 'v option) list"
  assumes "unat sz \<le> 2 ^ 31" and "\<forall>(k, hval, v) \<in> set ops. hval = 0 \<or> hval = key_hash lower k"
  shows "\<exists>t0 :: 'v pj_hash_table_t. pj_hash_create sz = Some t0 \<and>
    (let t = foldl (\<lambda>t (k, hval, v). hash_set lower t k hval v) t0 ops
     in (\<forall>key. fst (pj_hash_get lower t key 0) =
           (case find (\<lambda>(k, hval, v). same_key lower k key) (rev ops) of Some (k, hval, v) \<Rightarrow> v | None \<Rightarrow> None)) \<and>
        (\<forall>e \<in> set (concat (ht_table t)). fst (pj_hash_get lower t (he_key e) 0) = Some (he_value e)) \<and>
        collect (pj_hash_count t) t (pj_hash_first t) = map he_value (concat (ht_table t)) \<and>
        pj_hash_count t = length (concat (ht_table t)))"
proof -
  obtain t0 :: "'v pj_hash_table_t" where t0: "pj_hash_create sz = Some t0" "hash_ok lower t0" "concat (ht_table t0) = []"
    using hash_create_ok[OF assms(1)] by blast
  define ops' where "ops' = map (\<lambda>(k, hval, v). (k, v)) ops"
  define t where "t = foldl (\<lambda>t (k, v). hash_set lower t k 0 v) t0 ops'"
  have "foldl (\<lambda>t (k, hval, v). hash_set lower t k hval v) a ops = foldl (\<lambda>t (k, v). hash_set lower t k 0 v) a ops'" for a
    using assms(2) unfolding ops'_def
  proof (induction ops arbitrary: a)
    case (Cons op ops)
    obtain k hval v where op: "op = (k, hval, v)" by (cases op) auto
    have "hash_set lower a k hval v = hash_set lower a k 0 v" using Cons.prems op by (intro hash_set_hval) (simp add: hval_ok_def)
    then show ?case using Cons op by simp
  qed simp
  then have t: "foldl (\<lambda>t (k, hval, v). hash_set lower t k hval v) t0 ops = t" by (simp add: t_def)
  have ok: "hash_ok lower t" unfolding t_def by (rule hm.puts_ok[OF t0(2)])
  have empty: "fst (pj_hash_get lower t0 key 0) = None" for key by (rule empty_get[OF t0(2,3)])
  have fnd: "(case find (\<lambda>(k, v). same_key lower k key) (rev ops') of Some (k, v) \<Rightarrow> v | None \<Rightarrow> None) =
      (case find (\<lambda>(k, hval, v). same_key lower k key) (rev ops) of Some (k, hval, v) \<Rightarrow> v | None \<Rightarrow> None)" for key
    unfolding ops'_def by (induction ops rule: rev_induct) auto
  have "fst (pj_hash_get lower t key 0) =
      (case find (\<lambda>(k, hval, v). same_key lower k key) (rev ops) of Some (k, hval, v) \<Rightarrow> v | None \<Rightarrow> None)" for key
    using hm.get_puts[OF t0(2), of ops' key] unfolding t_def[symmetric] empty fnd .
  then show ?thesis unfolding Let_def
    by (intro exI[of _ t0]) (use t0(1) stored_get[OF ok] collect_first[OF ok] ok in \<open>simp add: t pj_hash_count_def hash_ok_def\<close>)
qed

definition demo_hash_ops :: "(hkey \<times> u32 \<times> nat option) list" where
  "demo_hash_ops = [([65, 66], 0, Some 1), ([99], 0, Some 2), ([97, 98], 0, Some 3), ([67], 0, None)]"

theorem hash_table_is_map_witness:
  "\<exists>t0 :: nat pj_hash_table_t. pj_hash_create 31 = Some t0 \<and>
     (let t = foldl (\<lambda>t (k, hval, v). hash_set True t k hval v) t0 demo_hash_ops
      in fst (pj_hash_get True t [65, 98] 0) = Some 3 \<and> fst (pj_hash_get True t [99] 0) = None \<and>
         pj_hash_count t = length (concat (ht_table t)))"
proof -
  have "(case find (\<lambda>(k, hval, v). same_key True k [65, 98]) (rev demo_hash_ops) of Some (k, hval, v) \<Rightarrow> v | None \<Rightarrow> None) = Some 3"
    "(case find (\<lambda>(k, hval, v). same_key True k [99]) (rev demo_hash_ops) of Some (k, hval, v) \<Rightarrow> v | None \<Rightarrow> None) = None"
    "\<forall>(k, hval, v) \<in> set demo_hash_ops. hval = 0 \<or> hval = key_hash True k"
    by code_simp+
  then show ?thesis using hash_table_is_map[of 31 demo_hash_ops True] unfolding Let_def by auto
qed

end
