(* ===== verification/Pj_String.thy ===== *)
theory Pj_String
  imports Pj_Prelude
begin

text \<open>
  Numbers as text (\<open>pjlib/src/pj/string.c\<close>): the decimal printer \<open>pj_utoa_pad\<close> and the parsers
  \<open>pj_strtoul\<close>, \<open>pj_strtoul2\<close>, \<open>pj_strtoul3\<close>, \<open>pj_strtoul4\<close>, \<open>pj_strtol\<close> and \<open>pj_strtol2\<close>. A string is the
  list of its bytes; \<open>unsigned long\<close> and \<open>pj_uint_t\<close> have 64 bits. Bytes from 128 on, which
  are negative where \<open>char\<close> is signed, are refused by every parser either way.
\<close>

section \<open>Printing\<close>

text \<open>The digits, the lowest first, and the loop that turns them round in place.\<close>

function utoa_digits :: "nat \<Rightarrow> u8 list" where
  "utoa_digits val =
     (let digval = of_nat (val mod 10) + 48; val = val div 10
      in digval # (if val > 0 then utoa_digits val else []))"
  by pat_completeness auto
termination by (relation "measure id") auto

function swap_ends :: "nat \<Rightarrow> nat \<Rightarrow> u8 list \<Rightarrow> u8 list" where
  "swap_ends buf p xs =
     (let xs = xs[p := xs ! buf, buf := xs ! p]
      in if Suc buf < p - 1 then swap_ends (Suc buf) (p - 1) xs else xs)"
  by pat_completeness auto
termination by (relation "measure (\<lambda>(buf, p, xs). p)") auto

declare utoa_digits.simps [simp del] swap_ends.simps [simp del]

text \<open>What is left in the buffer, without the terminating zero.\<close>

definition pj_utoa_pad :: "nat \<Rightarrow> nat \<Rightarrow> u8 \<Rightarrow> u8 list" where
  "pj_utoa_pad val min_dig pad =
     (let ds = utoa_digits val; ds = ds @ replicate (min_dig - length ds) pad
      in swap_ends 0 (length ds - 1) ds)"

definition pj_utoa :: "nat \<Rightarrow> u8 list" where
  "pj_utoa val = pj_utoa_pad val 0 0"

section \<open>Parsing\<close>

definition pj_isdigit :: "u8 \<Rightarrow> bool" where "pj_isdigit c \<longleftrightarrow> 48 \<le> c \<and> c \<le> 57"

definition pj_isxdigit :: "u8 \<Rightarrow> bool" where
  "pj_isxdigit c \<longleftrightarrow> pj_isdigit c \<or> 65 \<le> c \<and> c \<le> 70 \<or> 97 \<le> c \<and> c \<le> 102"

definition pj_isspace :: "u8 \<Rightarrow> bool" where "pj_isspace c \<longleftrightarrow> 9 \<le> c \<and> c \<le> 13 \<or> c = 32"

definition pj_hex_digit_to_val :: "u8 \<Rightarrow> nat" where
  "pj_hex_digit_to_val c =
     unat ((if c \<le> 57 then c - 48 else if c \<le> 70 then c - 65 + 10 else c - 97 + 10) AND 15)"

definition pj_strltrim :: "u8 list \<Rightarrow> u8 list" where
  "pj_strltrim str = dropWhile pj_isspace str"

text \<open>The digit tests and values of the two kinds of base.\<close>

definition base_digit :: "nat \<Rightarrow> u8 \<Rightarrow> bool" where
  "base_digit base c \<longleftrightarrow> (if base \<le> 10 then 48 \<le> c \<and> unat c < 48 + base else pj_isxdigit c)"

definition base_val :: "nat \<Rightarrow> u8 \<Rightarrow> nat" where
  "base_val base c = (if base \<le> 10 then unat (c - 48) else pj_hex_digit_to_val c)"

text \<open>The loop without overflow checks wraps; it also says what is left of the string.\<close>

fun strtoul_loop :: "nat \<Rightarrow> u64 \<Rightarrow> u8 list \<Rightarrow> u64 \<times> u8 list" where
  "strtoul_loop base val [] = (val, [])"
| "strtoul_loop base val (c # cs) =
     (if base_digit base c then strtoul_loop base (val * of_nat base + of_nat (base_val base c)) cs
      else (val, c # cs))"

definition pj_strtoul :: "u8 list \<Rightarrow> u64" where
  "pj_strtoul str = fst (strtoul_loop 10 0 str)"

definition pj_strtoul2 :: "u8 list \<Rightarrow> nat \<Rightarrow> u64 \<times> u8 list" where
  "pj_strtoul2 str base = (if base \<le> 10 \<or> base = 16 then strtoul_loop base 0 str else (0xFFFFFFFF, str))"

text \<open>The loop with overflow checks; \<open>- 1\<close> is the largest value of the type.\<close>

fun strtou_loop :: "nat \<Rightarrow> ('a::len) word \<Rightarrow> u8 list \<Rightarrow> pj_status \<times> 'a word" where
  "strtou_loop base val [] = (PJ_SUCCESS, val)"
| "strtou_loop base val (c # cs) =
     (if \<not> base_digit base c then (PJ_SUCCESS, val)
      else if val > (- 1) div of_nat base then (PJ_ETOOBIG, - 1)
      else let val = val * of_nat base
           in if (- 1) - val < of_nat (base_val base c) then (PJ_ETOOBIG, - 1)
              else strtou_loop base (val + of_nat (base_val base c)) cs)"

text \<open>\<open>None\<close>: the variable for the result is not written.\<close>

definition strtou :: "u8 list \<Rightarrow> nat \<Rightarrow> pj_status \<times> ('a::len) word option" where
  "strtou str base =
     (let s = pj_strltrim str
      in if s = [] \<or> hd s < 48 \<or> (base \<le> 10 \<and> unat (hd s) > 47 + base) \<or> (base = 16 \<and> \<not> pj_isxdigit (hd s))
         then (PJ_EINVAL, None)
         else if base \<le> 10 \<or> base = 16 then map_prod id Some (strtou_loop base 0 s)
         else (PJ_EINVAL, Some 0))"

definition pj_strtoul3 :: "u8 list \<Rightarrow> nat \<Rightarrow> pj_status \<times> u64 option" where
  "pj_strtoul3 = strtou"

definition pj_strtoul4 :: "u8 list \<Rightarrow> nat \<Rightarrow> pj_status \<times> u64 option" where
  "pj_strtoul4 = strtou"

definition PJ_MAXLONG :: int where "PJ_MAXLONG = 2 ^ 63 - 1"
definition PJ_MINLONG :: int where "PJ_MINLONG = - (2 ^ 63)"

definition has_sign :: "u8 list \<Rightarrow> bool" where
  "has_sign s \<longleftrightarrow> s \<noteq> [] \<and> (hd s = 43 \<or> hd s = 45)"

definition pj_strtol :: "u8 list \<Rightarrow> int" where
  "pj_strtol str =
     (let is_negative = (has_sign str \<and> hd str = 45);
          uval = uint (pj_strtoul (if has_sign str then tl str else str))
      in if is_negative then (if uval > PJ_MAXLONG then PJ_MINLONG else - uval)
         else (if uval > PJ_MAXLONG then PJ_MAXLONG else uval))"

definition pj_strtol2 :: "u8 list \<Rightarrow> pj_status \<times> int option" where
  "pj_strtol2 str =
     (let s = pj_strltrim str
      in if s = [] then (PJ_EINVAL, None)
         else let is_negative = (has_sign s \<and> hd s = 45);
                  (rc, res) = pj_strtoul3 (if has_sign s then tl s else s) 10
              in case res of
                   None \<Rightarrow> (rc, None)
                 | Some w \<Rightarrow>
                     (let retval = uint w
                      in if rc \<noteq> PJ_SUCCESS
                         then (if is_negative then (PJ_ETOOSMALL, Some PJ_MINLONG) else (PJ_ETOOBIG, Some PJ_MAXLONG))
                         else if retval > PJ_MAXLONG \<and> \<not> is_negative then (PJ_ETOOBIG, Some PJ_MAXLONG)
                         else if retval > PJ_MAXLONG + 1 \<and> is_negative then (PJ_ETOOSMALL, Some PJ_MINLONG)
                         else if is_negative \<and> retval = PJ_MAXLONG + 1 then (PJ_SUCCESS, Some PJ_MINLONG)
                         else (PJ_SUCCESS, Some (if is_negative then - retval else retval))))"

section \<open>The parsers read exactly the number, or report that it does not fit\<close>

text \<open>The number written by digits, continuing one read before.\<close>

definition digits_num :: "nat \<Rightarrow> nat \<Rightarrow> u8 list \<Rightarrow> nat" where
  "digits_num base n ds = foldl (\<lambda>n d. n * base + base_val base d) n ds"

lemma digits_num_simps [simp]:
  "digits_num base n [] = n" "digits_num base n (d # ds) = digits_num base (n * base + base_val base d) ds"
  "digits_num base n (ds @ es) = digits_num base (digits_num base n ds) es"
  by (simp_all add: digits_num_def)

lemma digits_num_mono: "0 < base \<Longrightarrow> n \<le> digits_num base n ds"
proof (induction ds arbitrary: n)
  case (Cons d ds)
  have "n \<le> n * base + base_val base d" using Cons.prems by (cases base) simp_all
  also have "\<dots> \<le> digits_num base (n * base + base_val base d) ds" using Cons by blast
  finally show ?case by simp
qed simp

lemma hex_val_lt: "pj_hex_digit_to_val c < 16"
proof -
  have "x AND 15 \<le> (15 :: u8)" for x by (rule word_and_le1)
  then have "unat (x AND 15 :: u8) \<le> 15" for x by (simp add: word_le_nat_alt)
  then show ?thesis unfolding pj_hex_digit_to_val_def by (simp add: less_Suc_eq_le numeral_eq_Suc)
qed

lemma base_val_lt: "base_val base c < 256"
  using hex_val_lt[of c] unsigned_less[of "c - 48", where ?'a = nat] by (simp add: base_val_def)

text \<open>Unsigned arithmetic without overflow.\<close>

lemma unat64_lt: "unat (v :: u64) < 2 ^ 64"
  using unsigned_less[of v, where ?'a = nat] by simp

lemma unat64_of_nat: "n < 2 ^ 64 \<Longrightarrow> unat (of_nat n :: u64) = n"
  by (rule of_nat_inverse[OF refl]) simp

lemma unat64_max: "unat (- 1 :: u64) = 2 ^ 64 - 1"
  by (simp add: unsigned_minus_1_eq_mask mask_eq_exp_minus_1)

lemma over_div:
  assumes "0 < base" "base < 2 ^ 64"
  shows "(- 1 :: u64) div of_nat base < v \<longleftrightarrow> 2 ^ 64 \<le> unat v * base"
proof -
  have b: "unat (of_nat base :: u64) = base" using assms(2) by (rule unat64_of_nat)
  have "unat ((- 1 :: u64) div of_nat base) = (2 ^ 64 - 1) div base"
    unfolding unat_div b by (simp add: unat64_max)
  then have "(- 1 :: u64) div of_nat base < v \<longleftrightarrow> (2 ^ 64 - 1) div base < unat v" by (simp add: word_less_nat_alt)
  also have "\<dots> \<longleftrightarrow> 2 ^ 64 - 1 < unat v * base" using assms(1) by (rule div_less_iff_less_mult)
  finally show ?thesis by auto
qed

lemma mult_fits: "unat v * base < 2 ^ 64 \<Longrightarrow> unat (v * of_nat base :: u64) = unat v * base"
proof -
  assume f: "unat v * base < 2 ^ 64"
  have "v * of_nat base = (of_nat (unat v * base) :: u64)" by simp
  then show ?thesis using unat64_of_nat[OF f] by (simp only:)
qed

lemma over_add:
  assumes "d < 2 ^ 64"
  shows "(- 1 :: u64) - v < of_nat d \<longleftrightarrow> 2 ^ 64 \<le> unat v + d"
proof -
  have "unat (- 1 - v) = 2 ^ 64 - 1 - unat v"
    using unat_sub[of v "- 1"] by (simp add: unat64_max word_order.extremum)
  moreover have "unat (of_nat d :: u64) = d" using assms by (rule unat64_of_nat)
  moreover have "unat v < 2 ^ 64" using unat64_lt[of v] by simp
  ultimately show ?thesis by (auto simp: word_less_nat_alt)
qed

lemma add_fits: "unat v + d < 2 ^ 64 \<Longrightarrow> unat (v + of_nat d :: u64) = unat v + d"
proof -
  assume f: "unat v + d < 2 ^ 64"
  have "v + of_nat d = (of_nat (unat v + d) :: u64)" by simp
  then show ?thesis using unat64_of_nat[OF f] by (simp only:)
qed

lemma strtou_loop_spec:
  fixes v :: u64
  assumes b: "0 < base" "base < 2 ^ 64"
  shows "strtou_loop base v cs =
    (let n = digits_num base (unat v) (takeWhile (base_digit base) cs)
     in if n < 2 ^ 64 then (PJ_SUCCESS, of_nat n) else (PJ_ETOOBIG, - 1))"
proof (induction cs arbitrary: v)
  case (Cons c cs)
  let ?d = "base_val base c"
  have d: "?d < 2 ^ 64" using base_val_lt[of base c] by simp
  consider (stop) "\<not> base_digit base c" | (mul) "base_digit base c" "2 ^ 64 \<le> unat v * base"
    | (add) "base_digit base c" "unat v * base < 2 ^ 64" "2 ^ 64 \<le> unat v * base + ?d"
    | (go) "base_digit base c" "unat v * base + ?d < 2 ^ 64" by linarith
  then show ?case
  proof cases
    case stop
    then show ?thesis using unat64_lt[of v] by simp
  next
    case mul
    have "unat v * base \<le> digits_num base (unat v * base + ?d) ds" for ds
      using digits_num_mono[OF b(1), of "unat v * base + ?d" ds] by linarith
    then show ?thesis using mul over_div[OF b, of v] by (auto simp: Let_def not_less intro: order_trans)
  next
    case add
    have "2 ^ 64 \<le> digits_num base (unat v * base + ?d) ds" for ds
      using digits_num_mono[OF b(1), of "unat v * base + ?d" ds] add(3) by linarith
    then show ?thesis using add over_div[OF b, of v] over_add[OF d, of "v * of_nat base"] mult_fits[OF add(2)]
      by (simp add: Let_def not_less)
  next
    case go
    then have m: "unat v * base < 2 ^ 64" by linarith
    have a: "unat (v * of_nat base + of_nat ?d) = unat v * base + ?d" using add_fits[of "v * of_nat base" ?d] go mult_fits[OF m] by simp
    show ?thesis using go m over_div[OF b, of v] over_add[OF d, of "v * of_nat base"] mult_fits[OF m] Cons.IH a
      by (simp add: Let_def)
  qed
qed (simp add: Let_def unat64_lt[simplified])

lemma strtoul_loop_spec:
  "strtoul_loop base v cs =
     (of_nat (digits_num base (unat v) (takeWhile (base_digit base) cs)), dropWhile (base_digit base) cs)"
proof (induction cs arbitrary: v)
  case (Cons c cs)
  have "of_nat (digits_num base (n mod 2 ^ 64) ds) = (of_nat (digits_num base n ds) :: u64)" for n ds
  proof (induction ds rule: rev_induct)
    case Nil
    show ?case by (simp add: word_of_nat_eq_iff take_bit_eq_mod)
  next
    case (snoc d ds)
    then show ?case by (simp only: digits_num_simps of_nat_add of_nat_mult)
  qed
  moreover have "unat (v * of_nat base + of_nat (base_val base c)) = (unat v * base + base_val base c) mod 2 ^ 64"
    by (simp add: unat_word_ariths mod_simps unat_of_nat)
  ultimately show ?case using Cons.IH by simp
qed simp

section \<open>The printer writes the number\<close>

lemma digit_byte:
  assumes "d < 10"
  shows "base_digit 10 (of_nat d + 48)" "base_val 10 (of_nat d + 48) = d" "of_nat d + 48 = (48 :: u8) \<longleftrightarrow> d = 0"
    "pj_isdigit (of_nat d + 48)" "48 \<le> (of_nat d + 48 :: u8)" "(of_nat d + 48 :: u8) \<le> 57"
proof -
  have d: "unat (of_nat d :: u8) = d" using assms by (intro of_nat_inverse[OF refl]) simp
  have u: "unat (of_nat d + 48 :: u8) = d + 48" using assms d by (simp add: unat_word_ariths)
  show b: "48 \<le> (of_nat d + 48 :: u8)" "(of_nat d + 48 :: u8) \<le> 57" using assms by (simp_all add: word_le_nat_alt u)
  show "base_digit 10 (of_nat d + 48)" "pj_isdigit (of_nat d + 48)" using assms b by (simp_all add: base_digit_def u pj_isdigit_def)
  show "base_val 10 (of_nat d + 48) = d" by (simp add: base_val_def d)
  show "of_nat d + 48 = (48 :: u8) \<longleftrightarrow> d = 0" using u by (metis add_0 add_right_cancel of_nat_0 unat_eq_zero d)
qed

lemma utoa_digits_rec:
  "utoa_digits v = (of_nat (v mod 10) + 48) # (if v div 10 > 0 then utoa_digits (v div 10) else [])"
  by (subst utoa_digits.simps) (simp add: Let_def)

lemma utoa_digits_ok:
  "utoa_digits v \<noteq> [] \<and> list_all pj_isdigit (utoa_digits v) \<and> digits_num 10 0 (rev (utoa_digits v)) = v \<and>
   (v > 0 \<longrightarrow> last (utoa_digits v) \<noteq> 48)"
proof (induction v rule: less_induct)
  case (less v)
  note d = digit_byte[of "v mod 10"]
  show ?case
  proof (cases "v div 10 > 0")
    case True
    then have "v div 10 < v" by (metis div_0 div_less_dividend less_numeral_extra(3) neq0_conv one_less_numeral_iff semiring_norm(76))
    from less.IH[OF this] show ?thesis using True d by (subst (1 2 3 4) utoa_digits_rec) auto
  next
    case False
    then have "v < 10" by (simp add: div_eq_0_iff)
    then show ?thesis using False d by (subst (1 2 3 4) utoa_digits_rec) simp
  qed
qed

lemma utoa_digits_length: "v < 10 ^ n \<Longrightarrow> 0 < n \<Longrightarrow> length (utoa_digits v) \<le> n"
proof (induction n arbitrary: v)
  case (Suc n)
  show ?case
  proof (cases "v div 10 > 0")
    case True
    then have "0 < n" using Suc.prems(1) by (cases n) (simp_all add: div_eq_0_iff)
    moreover have "v div 10 < 10 ^ n" using Suc.prems(1) by (simp add: div_less_iff_less_mult mult.commute)
    ultimately show ?thesis using Suc.IH True by (subst utoa_digits_rec) simp
  qed (subst utoa_digits_rec, simp)
qed simp

lemma swap_ends_nth:
  "b \<le> p \<Longrightarrow> p < length xs \<Longrightarrow> length (swap_ends b p xs) = length xs \<and>
     (\<forall>k < length xs. swap_ends b p xs ! k = (if b \<le> k \<and> k \<le> p then xs ! (b + p - k) else xs ! k))"
proof (induction b p xs rule: swap_ends.induct)
  case (1 b p xs)
  define ys where "ys = xs[p := xs ! b, b := xs ! p]"
  have ys: "length ys = length xs" "\<And>k. k < length xs \<Longrightarrow> ys ! k = (if k = b then xs ! p else if k = p then xs ! b else xs ! k)"
    using 1(2,3) by (auto simp: ys_def nth_list_update)
  have rec: "swap_ends b p xs = (if Suc b < p - 1 then swap_ends (Suc b) (p - 1) ys else ys)"
    by (subst swap_ends.simps) (simp add: ys_def Let_def)
  show ?case
  proof (cases "Suc b < p - 1")
    case True
    have "length (swap_ends (Suc b) (p - 1) ys) = length ys \<and>
      (\<forall>k < length ys. swap_ends (Suc b) (p - 1) ys ! k = (if Suc b \<le> k \<and> k \<le> p - 1 then ys ! (Suc b + (p - 1) - k) else ys ! k))"
      using 1(1)[OF ys_def True] 1(2,3) True ys(1) by auto
    moreover have "Suc b + (p - 1) = b + p" using True by simp
    ultimately show ?thesis using True rec ys 1(2,3) by auto
  next
    case False
    then have "p \<le> b + 2" by auto
    then show ?thesis using False rec ys 1(2,3) by (auto simp: le_Suc_eq numeral_2_eq_2)
  qed
qed

lemma swap_ends_rev: "xs \<noteq> [] \<Longrightarrow> swap_ends 0 (length xs - 1) xs = rev xs"
  using swap_ends_nth[of 0 "length xs - 1" xs] by (intro nth_equalityI) (auto simp: rev_nth)

lemma utoa_pad_rev: "pj_utoa_pad v n pad = replicate (n - length (utoa_digits v)) pad @ rev (utoa_digits v)"
  unfolding pj_utoa_pad_def Let_def using utoa_digits_ok[of v] by (subst swap_ends_rev) simp_all

lemma utoa_rev: "pj_utoa v = rev (utoa_digits v)"
  by (simp add: pj_utoa_def utoa_pad_rev)

lemma utoa_ok:
  "pj_utoa v \<noteq> []" "list_all pj_isdigit (pj_utoa v)" "digits_num 10 0 (pj_utoa v) = v"
  "0 < v \<Longrightarrow> hd (pj_utoa v) \<noteq> 48" "v < 10 ^ n \<Longrightarrow> 0 < n \<Longrightarrow> length (pj_utoa v) \<le> n"
  using utoa_digits_ok[of v] utoa_digits_length[of v n] by (simp_all add: utoa_rev hd_rev)

lemma utoa_inj: "pj_utoa v = pj_utoa w \<Longrightarrow> v = w"
  using utoa_ok(3) by metis

section \<open>Properties\<close>

lemma base_digit_10: "base_digit 10 = pj_isdigit"
proof
  fix c :: u8
  show "base_digit 10 c = pj_isdigit c"
    using word_le_nat_alt[of c 57] by (auto simp: base_digit_def pj_isdigit_def)
qed

lemma no_digit:
  assumes "base \<le> 10 \<or> base = 16" "s \<noteq> []"
  shows "(hd s < 48 \<or> (base \<le> 10 \<and> unat (hd s) > 47 + base) \<or> (base = 16 \<and> \<not> pj_isxdigit (hd s))) \<longleftrightarrow>
    takeWhile (base_digit base) s = []"
proof -
  have "takeWhile (base_digit base) s = [] \<longleftrightarrow> \<not> base_digit base (hd s)" using assms(2) by (cases s) auto
  moreover have "48 \<le> c" if "pj_isxdigit c" for c :: u8
    using that by (auto simp: pj_isxdigit_def pj_isdigit_def word_le_nat_alt)
  then have "\<not> hd s < 48" if "pj_isxdigit (hd s)" using that by (simp add: not_less)
  ultimately show ?thesis using assms(1) by (auto simp: base_digit_def not_less not_le)
qed

definition unsigned_result :: "nat \<Rightarrow> u8 list \<Rightarrow> pj_status \<times> u64 option" where
  "unsigned_result base ds =
     (if ds = [] then (PJ_EINVAL, None)
      else if digits_num base 0 ds < 2 ^ 64 then (PJ_SUCCESS, Some (of_nat (digits_num base 0 ds)))
      else (PJ_ETOOBIG, Some (- 1)))"

lemma strtoul3_spec:
  assumes "base \<in> {1..10} \<or> base = 16"
  shows "pj_strtoul3 str base = unsigned_result base (takeWhile (base_digit base) (pj_strltrim str))"
proof (cases "pj_strltrim str = []")
  case False
  have b: "0 < base" "base < 2 ^ 64" "base \<le> 10 \<or> base = 16" using assms by auto
  show ?thesis unfolding pj_strtoul3_def strtou_def Let_def unsigned_result_def
    using no_digit[OF b(3) False] b(3) False strtou_loop_spec[OF b(1,2), of 0] by (auto simp: Let_def)
qed (simp add: pj_strtoul3_def strtou_def unsigned_result_def)

text \<open>The number in a string, if there is one: white space, an optional sign, white space, digits.\<close>

definition signed_num :: "u8 list \<Rightarrow> int option" where
  "signed_num str =
     (let s = pj_strltrim str; t = pj_strltrim (if has_sign s then tl s else s); ds = takeWhile pj_isdigit t;
          n = int (digits_num 10 0 ds)
      in if s = [] \<or> ds = [] then None else Some (if hd s = 45 then - n else n))"

lemma strtol2_spec:
  "pj_strtol2 str =
     (case signed_num str of
        None \<Rightarrow> (PJ_EINVAL, None)
      | Some i \<Rightarrow> if i > PJ_MAXLONG then (PJ_ETOOBIG, Some PJ_MAXLONG)
                  else if i < PJ_MINLONG then (PJ_ETOOSMALL, Some PJ_MINLONG) else (PJ_SUCCESS, Some i))"
proof -
  define s where "s = pj_strltrim str"
  define t where "t = pj_strltrim (if has_sign s then tl s else s)"
  define ds where "ds = takeWhile pj_isdigit t"
  define n where "n = digits_num 10 0 ds"
  have r: "pj_strtoul3 (if has_sign s then tl s else s) 10 = unsigned_result 10 ds"
    using strtoul3_spec[of 10 "if has_sign s then tl s else s"] by (simp add: base_digit_10 ds_def t_def)
  have neg: "has_sign s \<and> hd s = 45 \<longleftrightarrow> hd s = 45" if "s \<noteq> []" using that by (auto simp: has_sign_def)
  consider "s = [] \<or> ds = []" | (ok) "s \<noteq> []" "ds \<noteq> []" by blast
  then show ?thesis
  proof cases
    case 1
    then have "signed_num str = None"
      unfolding signed_num_def Let_def s_def[symmetric] t_def[symmetric] ds_def[symmetric] by simp
    then show ?thesis using 1 r unfolding pj_strtol2_def Let_def s_def[symmetric] by (auto simp: unsigned_result_def)
  next
    case ok
    then have sn: "signed_num str = Some (if hd s = 45 then - int n else int n)"
      unfolding signed_num_def Let_def s_def[symmetric] t_def[symmetric] ds_def[symmetric] n_def[symmetric] by simp
    have u: "uint (of_nat n :: u64) = int n" if "n < 2 ^ 64"
      using unat64_of_nat[OF that] by (metis uint_nat)
    have "unsigned_result 10 ds = (if n < 2 ^ 64 then (PJ_SUCCESS, Some (of_nat n)) else (PJ_ETOOBIG, Some (- 1)))"
      using ok by (simp add: unsigned_result_def n_def)
    then show ?thesis unfolding pj_strtol2_def Let_def s_def[symmetric] r sn neg[OF ok(1)]
      using ok u by (cases "n < 2 ^ 64"; cases "hd s = 45") (auto simp: PJ_MAXLONG_def PJ_MINLONG_def)
  qed
qed

text \<open>
  C32 (functional): the checked parsers are exact. \<open>pj_strtoul3\<close> skips white space and reads the longest
  run of digits of the base: without one it refuses, a number that fits in 64 bits is returned,
  and a larger one is reported as too big with the largest value, never wrapped. \<open>pj_strtol2\<close> does the
  same for signed numbers, with the nearest end of the range. The unchecked \<open>pj_strtoul2\<close> reads
  the same digits modulo 2 to the 64 and returns what follows them.
\<close>

theorem number_parsers_exact:
  assumes "base \<in> {1..10} \<or> base = 16"
  shows "pj_strtoul3 str base = unsigned_result base (takeWhile (base_digit base) (pj_strltrim str)) \<and>
    pj_strtol2 str =
     (case signed_num str of
        None \<Rightarrow> (PJ_EINVAL, None)
      | Some i \<Rightarrow> if i > PJ_MAXLONG then (PJ_ETOOBIG, Some PJ_MAXLONG)
                  else if i < PJ_MINLONG then (PJ_ETOOSMALL, Some PJ_MINLONG) else (PJ_SUCCESS, Some i)) \<and>
    pj_strtoul2 str base =
      (of_nat (digits_num base 0 (takeWhile (base_digit base) str)), dropWhile (base_digit base) str)"
proof -
  have "base \<le> 10 \<or> base = 16" using assms by auto
  then show ?thesis using strtoul3_spec[OF assms] strtol2_spec strtoul_loop_spec[of base 0] by (simp add: pj_strtoul2_def)
qed

text \<open>An example: the largest 64-bit number, one more, and the smallest signed number.\<close>

definition text_18446744073709551615 :: "u8 list" where
  "text_18446744073709551615 = [32, 49, 56, 52, 52, 54, 55, 52, 52, 48, 55, 51, 55, 48, 57, 53, 53, 49, 54, 49, 53]"

theorem number_parsers_exact_witness:
  "pj_strtoul3 text_18446744073709551615 10 = (PJ_SUCCESS, Some (- 1)) \<and>
   pj_strtoul3 (text_18446744073709551615 @ [48]) 10 = (PJ_ETOOBIG, Some (- 1)) \<and>
   pj_strtol2 [45, 55] = (PJ_SUCCESS, Some (- 7)) \<and> pj_strtol2 text_18446744073709551615 = (PJ_ETOOBIG, Some PJ_MAXLONG)"
proof -
  have "unsigned_result 10 (takeWhile (base_digit 10) (pj_strltrim text_18446744073709551615)) = (PJ_SUCCESS, Some (- 1))"
    "unsigned_result 10 (takeWhile (base_digit 10) (pj_strltrim (text_18446744073709551615 @ [48]))) = (PJ_ETOOBIG, Some (- 1))"
    "signed_num [45, 55] = Some (- 7)" "signed_num text_18446744073709551615 = Some (2 ^ 64 - 1)"
    by (simp_all add: text_18446744073709551615_def unsigned_result_def base_digit_def pj_strltrim_def pj_isspace_def
        base_val_def pj_isdigit_def signed_num_def has_sign_def)
  then show ?thesis
    using number_parsers_exact[of 10 text_18446744073709551615] number_parsers_exact[of 10 "text_18446744073709551615 @ [48]"]
      number_parsers_exact[of 10 "[45, 55]"] by (simp add: PJ_MAXLONG_def PJ_MINLONG_def)
qed

text \<open>
  A number printed by \<open>pj_utoa\<close>, padded with zeros or not, is read back by the parsers,
  up to the first byte that is not a digit, for every 64-bit value; the text has at most 20 bytes,
  all digits, and no leading zero unless it is padded or the number is zero.
\<close>

theorem number_text_roundtrip:
  assumes "v < 2 ^ 64" "rest = [] \<or> \<not> pj_isdigit (hd rest)"
  shows "pj_strtoul3 (pj_utoa_pad v n 48 @ rest) 10 = (PJ_SUCCESS, Some (of_nat v)) \<and>
    pj_strtoul2 (pj_utoa_pad v n 48 @ rest) 10 = (of_nat v, rest) \<and>
    length (pj_utoa_pad v n 48) = max n (length (pj_utoa v)) \<and> list_all pj_isdigit (pj_utoa v) \<and>
    length (pj_utoa v) \<in> {1..20} \<and> (0 < v \<longrightarrow> hd (pj_utoa v) \<noteq> 48)"
proof -
  define z where "z = n - length (pj_utoa v)"
  have p: "pj_utoa_pad v n 48 = replicate z 48 @ pj_utoa v" by (simp add: utoa_pad_rev utoa_rev z_def)
  have d: "list_all pj_isdigit (replicate z 48 @ pj_utoa v)" using utoa_ok(2)[of v] by (auto simp: list_all_iff pj_isdigit_def)
  have zeros: "digits_num 10 0 (replicate z 48) = 0" by (induction z) (simp_all add: base_val_def)
  have tw: "takeWhile pj_isdigit (replicate z 48 @ pj_utoa v @ rest) = replicate z 48 @ pj_utoa v"
    "dropWhile pj_isdigit (replicate z 48 @ pj_utoa v @ rest) = rest"
    using d assms(2) by (cases rest; auto simp: list_all_iff takeWhile_append dropWhile_append)+
  have "\<not> pj_isspace c" if "pj_isdigit c" for c
  proof -
    have "48 \<le> unat c" using that by (simp add: pj_isdigit_def word_le_nat_alt)
    then show ?thesis by (auto simp: pj_isspace_def word_le_nat_alt)
  qed
  then have "pj_strltrim (replicate z 48 @ pj_utoa v @ rest) = replicate z 48 @ pj_utoa v @ rest"
    using d utoa_ok(1)[of v] unfolding pj_strltrim_def by (cases z; cases "pj_utoa v") auto
  then have "pj_strtoul3 (pj_utoa_pad v n 48 @ rest) 10 = (PJ_SUCCESS, Some (of_nat v))"
    using strtoul3_spec[of 10 "pj_utoa_pad v n 48 @ rest"] assms(1) zeros utoa_ok(1,3)[of v]
    by (simp add: p base_digit_10 tw unsigned_result_def)
  moreover have "pj_strtoul2 (pj_utoa_pad v n 48 @ rest) 10 = (of_nat v, rest)"
    using strtoul_loop_spec[of 10 0 "pj_utoa_pad v n 48 @ rest"] zeros utoa_ok(3)[of v]
    by (simp add: p base_digit_10 tw pj_strtoul2_def)
  moreover have "length (pj_utoa v) \<le> 20" using assms(1) by (intro utoa_ok(5)) simp_all
  moreover have "1 \<le> length (pj_utoa v)" using utoa_ok(1)[of v] by (simp add: Suc_le_eq)
  moreover have "length (pj_utoa_pad v n 48) = max n (length (pj_utoa v))" by (simp add: p z_def)
  ultimately show ?thesis using utoa_ok(2,4)[of v] by simp
qed

theorem number_text_roundtrip_witness:
  "pj_utoa_pad 5060 6 48 = [48, 48, 53, 48, 54, 48] \<and> pj_strtoul3 (pj_utoa_pad 5060 6 48 @ [36]) 10 = (PJ_SUCCESS, Some 5060)"
proof -
  have "pj_utoa_pad 5060 6 48 = [48, 48, 53, 48, 54, 48]" "\<not> pj_isdigit (hd [36])"
    by (simp add: utoa_pad_rev utoa_digits.simps numeral_2_eq_2) (simp add: pj_isdigit_def)
  then show ?thesis using number_text_roundtrip[of 5060 "[36]" 6] by simp
qed

end
