(* ===== verification/Tsx_Key.thy ===== *)
theory Tsx_Key
  imports Sip_Tsx Pj_Hash Pj_String
begin

text \<open>
  Transaction keys (\<open>create_tsx_key_2543\<close>, \<open>create_tsx_key_3261\<close> and \<open>pjsip_tsx_create_key\<close> of
  \<open>pjsip/src/pjsip/sip_transaction.c\<close>) and the names of methods (\<open>pjsip/src/pjsip/sip_msg.c\<close>). A received
  message is extended by the header fields that go into a key. A method is its id and, for the
  methods without an id of their own, its name. The Call-ID header is present in every message
  that the transport layer passes on; the other headers are checked here.
\<close>

section \<open>Methods and messages\<close>

text \<open>The names are INVITE, CANCEL, ACK, BYE, REGISTER and OPTIONS.\<close>

fun method_name :: "pjsip_method_e \<Rightarrow> hkey" where
  "method_name PJSIP_INVITE_METHOD = [73, 78, 86, 73, 84, 69]"
| "method_name PJSIP_CANCEL_METHOD = [67, 65, 78, 67, 69, 76]"
| "method_name PJSIP_ACK_METHOD = [65, 67, 75]"
| "method_name PJSIP_BYE_METHOD = [66, 89, 69]"
| "method_name PJSIP_REGISTER_METHOD = [82, 69, 71, 73, 83, 84, 69, 82]"
| "method_name PJSIP_OPTIONS_METHOD = [79, 80, 84, 73, 79, 78, 83]"
| "method_name (PJSIP_OTHER_METHOD nm) = nm"

definition method_names :: "pjsip_method_e list" where
  "method_names = [PJSIP_INVITE_METHOD, PJSIP_CANCEL_METHOD, PJSIP_ACK_METHOD, PJSIP_BYE_METHOD,
     PJSIP_REGISTER_METHOD, PJSIP_OPTIONS_METHOD]"

definition pjsip_method_init_np :: "hkey \<Rightarrow> pjsip_method_e" where
  "pjsip_method_init_np str =
     (case find (\<lambda>m. stricmp_eq str (method_name m)) method_names of
        Some m \<Rightarrow> m | None \<Rightarrow> PJSIP_OTHER_METHOD str)"

record rx_msg = pjsip_rx_data +
  rx_cseq_num :: int
  rx_branch :: hkey
  rx_host :: hkey
  rx_port :: int
  rx_from_tag :: "hkey option"
  rx_to_tag :: hkey
  rx_call_id :: hkey

section \<open>Keys\<close>

definition SEPARATOR :: u8 where "SEPARATOR = 36"

definition role_char :: "pjsip_role_e \<Rightarrow> u8" where
  "role_char role = (if role = PJSIP_ROLE_UAC then 99 else 115)"

text \<open>The method is left out for INVITE and ACK.\<close>

definition key_method :: "pjsip_method_e \<Rightarrow> hkey" where
  "key_method method =
     (if method \<noteq> PJSIP_INVITE_METHOD \<and> method \<noteq> PJSIP_ACK_METHOD then method_name method @ [36] else [])"

text \<open>A signed number passed as \<open>unsigned long\<close>.\<close>

definition ulong_of_int :: "int \<Rightarrow> nat" where
  "ulong_of_int i = nat (i mod 2 ^ 64)"

definition key_2543_room :: "pjsip_method_e \<Rightarrow> rx_msg \<Rightarrow> bool \<Rightarrow> nat" where
  "key_2543_room method rdata include_via =
     length (method_name method) + 11 + length (the (rx_from_tag rdata)) + length (rx_call_id rdata) + 16 +
     (if include_via then length (rx_host rdata) + 11 else 0)"

definition create_tsx_key_2543 :: "pjsip_role_e \<Rightarrow> pjsip_method_e \<Rightarrow> rx_msg \<Rightarrow> bool \<Rightarrow> pj_status + hkey" where
  "create_tsx_key_2543 role method rdata include_via =
     (if \<not> rx_has_via rdata \<or> rx_cseq rdata = None then Inl PJSIP_EMISSINGHDR
      else case rx_from_tag rdata of
             None \<Rightarrow> Inl PJSIP_EMISSINGHDR
           | Some tag \<Rightarrow>
               Inr ([role_char role, SEPARATOR] @ key_method method @
                    pj_utoa (ulong_of_int (rx_cseq_num rdata)) @ [SEPARATOR] @ tag @ [SEPARATOR] @
                    rx_call_id rdata @ [SEPARATOR] @
                    (if include_via
                     then rx_host rdata @ [58] @ pj_utoa (ulong_of_int (rx_port rdata)) @ [SEPARATOR] else []) @
                    [0]))"

definition key_3261_room :: "pjsip_method_e \<Rightarrow> hkey \<Rightarrow> nat" where
  "key_3261_room method branch = length branch + length (method_name method) + 4"

definition create_tsx_key_3261 :: "pjsip_role_e \<Rightarrow> pjsip_method_e \<Rightarrow> hkey \<Rightarrow> hkey" where
  "create_tsx_key_3261 role method branch = [role_char role, SEPARATOR] @ key_method method @ branch"

definition PJSIP_RFC3261_BRANCH_ID :: hkey where
  "PJSIP_RFC3261_BRANCH_ID = [122, 57, 104, 71, 52, 98, 75]"

definition PJSIP_RFC3261_BRANCH_LEN :: nat where "PJSIP_RFC3261_BRANCH_LEN = 7"

text \<open>\<open>None\<close>: the top Via header is missing and a null pointer is followed.\<close>

definition pjsip_tsx_create_key :: "pjsip_role_e \<Rightarrow> pjsip_method_e \<Rightarrow> rx_msg \<Rightarrow> (pj_status + hkey) option" where
  "pjsip_tsx_create_key role method rdata =
     (if \<not> rx_has_via rdata then None
      else Some (if pj_strnicmp_eq (rx_branch rdata) PJSIP_RFC3261_BRANCH_ID PJSIP_RFC3261_BRANCH_LEN
                 then Inr (create_tsx_key_3261 role method (rx_branch rdata))
                 else create_tsx_key_2543 role method rdata True))"

section \<open>The buffers are large enough\<close>

lemma key_method_length: "length (key_method method) \<le> length (method_name method) + 1"
  by (simp add: key_method_def)

lemma ulong_lt: "ulong_of_int i < 2 ^ 64"
proof -
  have "i mod 2 ^ 64 < 2 ^ 64" by simp
  then show ?thesis unfolding ulong_of_int_def by (simp add: nat_less_iff)
qed

lemma utoa_ulong_length: "length (pj_utoa (ulong_of_int i)) \<le> 20"
  by (rule utoa_ok(5)) (use ulong_lt[of i] in simp_all)

lemma utoa_port_length: "0 \<le> i \<Longrightarrow> i < 2 ^ 16 \<Longrightarrow> length (pj_utoa (ulong_of_int i)) \<le> 5"
proof -
  assume "0 \<le> i" "i < 2 ^ 16"
  then have "ulong_of_int i < 10 ^ 5" by (simp add: ulong_of_int_def nat_less_iff)
  then show ?thesis by (rule utoa_ok(5)) simp
qed

lemma key_3261_fits: "length (create_tsx_key_3261 role mt branch) \<le> key_3261_room mt branch"
  using key_method_length[of mt] by (simp add: create_tsx_key_3261_def key_3261_room_def)

lemma key_2543_fits:
  assumes "create_tsx_key_2543 role mt rdata via = Inr key" "via \<Longrightarrow> 0 \<le> rx_port rdata \<and> rx_port rdata < 2 ^ 16"
  shows "length key \<le> key_2543_room mt rdata via"
  using assms key_method_length[of mt] utoa_ulong_length[of "rx_cseq_num rdata"] utoa_port_length[of "rx_port rdata"]
  by (cases "rx_from_tag rdata") (auto simp: create_tsx_key_2543_def key_2543_room_def split: if_splits)

section \<open>What a key identifies\<close>

definition plain :: "hkey \<Rightarrow> bool" where
  "plain xs \<longleftrightarrow> SEPARATOR \<notin> set xs \<and> 0 \<notin> set xs"

abbreviation lower_of :: "hkey \<Rightarrow> hkey" where "lower_of xs \<equiv> map pj_tolower xs"

lemma tolower_separator: "pj_tolower c = SEPARATOR \<longleftrightarrow> c = SEPARATOR"
proof -
  have "c + 32 \<noteq> 36" if "65 \<le> c" "c \<le> 90"
  proof -
    have "unat c \<le> 90" "65 \<le> unat c" using that by (simp_all add: word_le_nat_alt)
    then have "unat (c + 32) = unat c + 32" by (simp add: unat_word_ariths)
    then have "unat (c + 32) \<noteq> unat (36 :: u8)" using \<open>65 \<le> unat c\<close> by simp
    then show ?thesis by metis
  qed
  then show ?thesis by (auto simp: pj_tolower_def SEPARATOR_def)
qed

lemma tolower_digit: "pj_isdigit c \<Longrightarrow> pj_tolower c = c"
  by (simp add: pj_tolower_def pj_isdigit_def word_le_nat_alt)

text \<open>Fields closed by separators, and a last one, can be told apart.\<close>

definition fields :: "hkey list \<Rightarrow> hkey \<Rightarrow> hkey" where
  "fields fs l = concat (map (\<lambda>f. f @ [SEPARATOR]) fs) @ l"

lemma first_field:
  assumes "x \<notin> set f" "x \<notin> set g" "f @ x # r = g @ x # s"
  shows "f = g \<and> r = s"
proof -
  have "takeWhile (\<lambda>c. c \<noteq> x) (f @ x # r) = f" "takeWhile (\<lambda>c. c \<noteq> x) (g @ x # s) = g"
    using assms(1,2) by (auto simp: takeWhile_append)
  then show ?thesis using assms(3) by auto
qed

lemma fields_inj:
  assumes "\<forall>f \<in> set fs. SEPARATOR \<notin> set f" "\<forall>g \<in> set gs. SEPARATOR \<notin> set g"
    "SEPARATOR \<notin> set l" "SEPARATOR \<notin> set m"
  shows "fields fs l = fields gs m \<longleftrightarrow> fs = gs \<and> l = m"
  using assms
proof (induction fs arbitrary: gs)
  case Nil
  then show ?case by (cases gs) (auto simp: fields_def)
next
  case (Cons f fs)
  show ?case
  proof (cases gs)
    case Nil
    then show ?thesis using Cons.prems by (auto simp: fields_def)
  next
    case (Cons g hs)
    note gs = this
    have e: "fields (f # fs) l = f @ SEPARATOR # fields fs l" "fields (g # hs) m = g @ SEPARATOR # fields hs m"
      by (simp_all add: fields_def)
    have "SEPARATOR \<notin> set f" "SEPARATOR \<notin> set g" using Cons.prems gs by simp_all
    then have "fields (f # fs) l = fields (g # hs) m \<longleftrightarrow> f = g \<and> fields fs l = fields hs m"
      using first_field[of SEPARATOR f g "fields fs l" "fields hs m"] unfolding e by blast
    then show ?thesis using Cons.IH[of hs] Cons.prems gs by simp
  qed
qed

lemma last_field:
  assumes "x \<notin> set r" "x \<notin> set s" "f @ x # r = g @ x # s"
  shows "f = g \<and> r = s"
proof -
  have "rev r @ x # rev f = rev s @ x # rev g" using arg_cong[OF assms(3), of rev] by simp
  then show ?thesis using first_field[of x "rev r" "rev s" "rev f" "rev g"] assms(1,2) by simp
qed

text \<open>A trailing zero byte is part of the key and of the comparison.\<close>

lemma same_key_tail:
  assumes "0 \<notin> set a" "0 \<notin> set b"
  shows "same_key True (a @ (if z then [0] else [])) (b @ (if y then [0] else [])) \<longleftrightarrow> z = y \<and> lower_of a = lower_of b"
proof -
  have l: "0 \<notin> set (lower_of a)" "0 \<notin> set (lower_of b)" using assms by (auto simp: eq_commute[of 0])
  have t: "pj_tolower 0 = 0" by simp
  have c: "c_string (lower_of (a @ (if z then [0] else []))) = lower_of a"
    "c_string (lower_of (b @ (if y then [0] else []))) = lower_of b"
    using l by (auto simp: c_string_def takeWhile_append t takeWhile_eq_all_conv eq_commute[of 0] simp del: set_map)
  show ?thesis
  proof
    assume "same_key True (a @ (if z then [0] else [])) (b @ (if y then [0] else []))"
    then have "length (a @ (if z then [0] else [])) = length (b @ (if y then [0] else []))" "lower_of a = lower_of b"
      using c by (auto simp: same_key_def key_match_def strnicmp_eq_def)
    then show "z = y \<and> lower_of a = lower_of b" using map_eq_imp_length_eq[of pj_tolower a pj_tolower b] by (auto split: if_splits)
  next
    assume e: "z = y \<and> lower_of a = lower_of b"
    then have "lower_of (a @ (if z then [0] else [])) = lower_of (b @ (if y then [0] else []))" by simp
    then show "same_key True (a @ (if z then [0] else [])) (b @ (if y then [0] else []))"
      using map_eq_imp_length_eq unfolding same_key_def key_match_def strnicmp_eq_def key_hash_tolower by metis
  qed
qed

text \<open>The identity that a key stands for. Names and identifiers count without regard to case.\<close>

datatype tsx_ident =
    Rfc3261 pjsip_role_e "hkey list" hkey
  | Rfc2543 pjsip_role_e "hkey list" nat hkey hkey hkey nat

definition ident_method :: "pjsip_method_e \<Rightarrow> hkey list" where
  "ident_method method =
     (if method = PJSIP_INVITE_METHOD \<or> method = PJSIP_ACK_METHOD then [] else [lower_of (method_name method)])"

definition rfc3261_branch :: "rx_msg \<Rightarrow> bool" where
  "rfc3261_branch r \<longleftrightarrow> lower_of (take 7 (rx_branch r)) = lower_of PJSIP_RFC3261_BRANCH_ID"

definition tsx_ident :: "pjsip_role_e \<Rightarrow> pjsip_method_e \<Rightarrow> rx_msg \<Rightarrow> tsx_ident" where
  "tsx_ident role method r =
     (if rfc3261_branch r then Rfc3261 role (ident_method method) (lower_of (rx_branch r))
      else Rfc2543 role (ident_method method) (ulong_of_int (rx_cseq_num r)) (lower_of (the (rx_from_tag r)))
             (lower_of (rx_call_id r)) (lower_of (rx_host r)) (ulong_of_int (rx_port r)))"

definition key_parts_ok :: "pjsip_method_e \<Rightarrow> rx_msg \<Rightarrow> bool" where
  "key_parts_ok method r \<longleftrightarrow> plain (method_name method) \<and> plain (rx_branch r) \<and> plain (rx_call_id r) \<and>
     plain (rx_host r) \<and> (\<forall>tag. rx_from_tag r = Some tag \<longrightarrow> plain tag)"

lemma plain_lower [simp]: "plain (lower_of xs) = plain xs"
  by (auto simp: plain_def tolower_separator eq_commute[of 0] eq_commute[of SEPARATOR])

lemma utoa_lower [simp]: "lower_of (pj_utoa v) = pj_utoa v"
  using utoa_ok(2)[of v] by (simp add: list_all_iff map_idI tolower_digit)

lemma utoa_plain: "plain (pj_utoa v)" "58 \<notin> set (pj_utoa v)"
  using utoa_ok(2)[of v] by (auto simp: list_all_iff plain_def SEPARATOR_def pj_isdigit_def)

lemma ident_method_plain: "plain (method_name method) \<Longrightarrow> \<forall>f \<in> set (ident_method method). plain f"
  by (simp add: ident_method_def)

lemma branch_test:
  assumes "plain (rx_branch r)"
  shows "pj_strnicmp_eq (rx_branch r) PJSIP_RFC3261_BRANCH_ID PJSIP_RFC3261_BRANCH_LEN \<longleftrightarrow> rfc3261_branch r"
proof -
  have "0 \<notin> set (lower_of (take 7 (rx_branch r)))"
    using assms by (auto simp: plain_def eq_commute[of 0] dest: in_set_takeD)
  moreover have "0 \<notin> set (lower_of PJSIP_RFC3261_BRANCH_ID)" by code_simp
  ultimately have "c_string (lower_of (take 7 (rx_branch r))) = lower_of (take 7 (rx_branch r))"
    "c_string (lower_of PJSIP_RFC3261_BRANCH_ID) = lower_of PJSIP_RFC3261_BRANCH_ID"
    by (simp_all add: c_string_no_zero del: set_map)
  moreover have "take 7 PJSIP_RFC3261_BRANCH_ID = PJSIP_RFC3261_BRANCH_ID" by (simp add: PJSIP_RFC3261_BRANCH_ID_def)
  ultimately show ?thesis unfolding pj_strnicmp_eq_def stricmp_eq_def strnicmp_eq_def PJSIP_RFC3261_BRANCH_LEN_def rfc3261_branch_def
    by (metis length_map)
qed

definition ident_text :: "tsx_ident \<Rightarrow> hkey" where
  "ident_text i =
     (case i of
        Rfc3261 role ms branch \<Rightarrow> fields ([role_char role] # ms) branch
      | Rfc2543 role ms cseq tag cid host port \<Rightarrow>
          fields ([role_char role] # ms @ [pj_utoa cseq, tag, cid, host @ 58 # pj_utoa port]) [])"

lemma role_char_facts [simp]:
  "pj_tolower (role_char role) = role_char role" "role_char role = role_char role' \<longleftrightarrow> role = role'"
  "role_char role \<noteq> 0" "role_char role \<noteq> SEPARATOR" "pj_tolower SEPARATOR = SEPARATOR" "pj_tolower 58 = 58" "pj_tolower 36 = 36"
  "SEPARATOR \<noteq> 0" "0 \<noteq> SEPARATOR" "0 \<noteq> role_char role" "SEPARATOR \<noteq> role_char role" "SEPARATOR \<noteq> 58"
  by (cases role; cases role'; simp add: role_char_def pj_tolower_def SEPARATOR_def)+

lemma lower_key_method: "lower_of (key_method method) = concat (map (\<lambda>f. f @ [SEPARATOR]) (ident_method method))"
  by (simp add: key_method_def ident_method_def SEPARATOR_def)

lemma key_text:
  assumes "pjsip_tsx_create_key role method r = Some (Inr key)" "key_parts_ok method r"
  shows "\<exists>a. key = a @ (if \<not> rfc3261_branch r then [0] else []) \<and> 0 \<notin> set a \<and> lower_of a = ident_text (tsx_ident role method r)"
proof (cases "rfc3261_branch r")
  case True
  have m: "0 \<notin> set (key_method method)" using assms(2) by (auto simp: key_method_def key_parts_ok_def plain_def)
  have "key = create_tsx_key_3261 role method (rx_branch r)"
    using assms True branch_test[of r] by (auto simp: pjsip_tsx_create_key_def key_parts_ok_def split: if_splits)
  then show ?thesis using True m assms(2) unfolding create_tsx_key_3261_def
    by (intro exI[of _ key]) (auto simp: tsx_ident_def ident_text_def fields_def lower_key_method key_parts_ok_def plain_def
        create_tsx_key_3261_def)
next
  case False
  have m: "0 \<notin> set (key_method method)" using assms(2) by (auto simp: key_method_def key_parts_ok_def plain_def)
  have "create_tsx_key_2543 role method r True = Inr key"
    using assms False branch_test[of r] by (auto simp: pjsip_tsx_create_key_def key_parts_ok_def split: if_splits)
  then obtain tag where tag: "rx_from_tag r = Some tag" by (auto simp: create_tsx_key_2543_def split: if_splits option.splits)
  define a where "a = [role_char role, SEPARATOR] @ key_method method @
      pj_utoa (ulong_of_int (rx_cseq_num r)) @ [SEPARATOR] @ tag @ [SEPARATOR] @ rx_call_id r @ [SEPARATOR] @
      rx_host r @ [58] @ pj_utoa (ulong_of_int (rx_port r)) @ [SEPARATOR]"
  have "key = a @ [0]" using \<open>create_tsx_key_2543 role method r True = Inr key\<close> tag
    by (auto simp: create_tsx_key_2543_def a_def split: if_splits)
  moreover have "0 \<notin> set a" using m assms(2) tag utoa_plain(1) by (simp add: a_def key_parts_ok_def plain_def)
  moreover have "lower_of a = ident_text (tsx_ident role method r)"
    using False tag by (simp add: a_def tsx_ident_def ident_text_def fields_def lower_key_method)
  ultimately show ?thesis using False by auto
qed

lemma utoa_eq [simp]: "pj_utoa v = pj_utoa w \<longleftrightarrow> v = w"
  using utoa_inj by blast

lemma host_port_inj: "h @ 58 # pj_utoa p = h' @ 58 # pj_utoa p' \<longleftrightarrow> h = h' \<and> p = p'"
  using last_field[of 58 "pj_utoa p" "pj_utoa p'" h h'] utoa_plain(2) utoa_inj by blast

lemma ident_text_inj:
  assumes "key_parts_ok m1 r1" "key_parts_ok m2 r2" "rfc3261_branch r1 = rfc3261_branch r2"
    "\<not> rfc3261_branch r1 \<Longrightarrow> rx_from_tag r1 \<noteq> None \<and> rx_from_tag r2 \<noteq> None"
  shows "ident_text (tsx_ident role1 m1 r1) = ident_text (tsx_ident role2 m2 r2) \<longleftrightarrow>
    tsx_ident role1 m1 r1 = tsx_ident role2 m2 r2"
proof -
  have m: "\<forall>f \<in> set (ident_method m1). SEPARATOR \<notin> set f" "\<forall>f \<in> set (ident_method m2). SEPARATOR \<notin> set f"
    using ident_method_plain assms(1,2) unfolding key_parts_ok_def plain_def by blast+
  have len: "length (ident_method m1) \<le> 1" "length (ident_method m2) \<le> 1" by (simp_all add: ident_method_def)
  show ?thesis
  proof (cases "rfc3261_branch r1")
    case True
    have "SEPARATOR \<notin> set (lower_of (rx_branch r1))" "SEPARATOR \<notin> set (lower_of (rx_branch r2))"
      using assms(1,2) plain_lower by (auto simp: key_parts_ok_def plain_def simp del: set_map)
    then show ?thesis using True assms(3) m unfolding tsx_ident_def ident_text_def
      by (simp add: fields_inj del: set_map)
  next
    case False
    obtain t1 t2 where t: "rx_from_tag r1 = Some t1" "rx_from_tag r2 = Some t2" using assms(4) False by auto
    have p: "plain (lower_of t1)" "plain (lower_of t2)" "plain (lower_of (rx_call_id r1))" "plain (lower_of (rx_call_id r2))"
      "plain (lower_of (rx_host r1))" "plain (lower_of (rx_host r2))"
      using assms(1,2) t by (simp_all add: key_parts_ok_def)
    have app: "xs @ [a, b, c, d] = ys @ [a', b', c', d'] \<longleftrightarrow> xs = ys \<and> a = a' \<and> b = b' \<and> c = c' \<and> d = d'"
      for xs ys :: "hkey list" and a b c d a' b' c' d' by (simp add: append_eq_append_conv2 Cons_eq_append_conv) auto
    show ?thesis using False assms(3) m p utoa_plain(1) t unfolding tsx_ident_def ident_text_def
      by (simp add: fields_inj app host_port_inj plain_def del: set_map)
  qed
qed

section \<open>Property\<close>

lemma same_key_ident:
  assumes "pjsip_tsx_create_key role1 m1 r1 = Some (Inr k1)" "pjsip_tsx_create_key role2 m2 r2 = Some (Inr k2)"
    "key_parts_ok m1 r1" "key_parts_ok m2 r2"
  shows "same_key True k1 k2 \<longleftrightarrow> tsx_ident role1 m1 r1 = tsx_ident role2 m2 r2"
proof -
  obtain a where a: "k1 = a @ (if \<not> rfc3261_branch r1 then [0] else [])" "0 \<notin> set a" "lower_of a = ident_text (tsx_ident role1 m1 r1)"
    using key_text[OF assms(1,3)] by blast
  obtain b where b: "k2 = b @ (if \<not> rfc3261_branch r2 then [0] else [])" "0 \<notin> set b" "lower_of b = ident_text (tsx_ident role2 m2 r2)"
    using key_text[OF assms(2,4)] by blast
  have tags: "\<not> rfc3261_branch r1 \<Longrightarrow> rx_from_tag r1 \<noteq> None" "\<not> rfc3261_branch r2 \<Longrightarrow> rx_from_tag r2 \<noteq> None"
    using assms branch_test[of r1] branch_test[of r2]
    by (auto simp: pjsip_tsx_create_key_def create_tsx_key_2543_def key_parts_ok_def split: if_splits option.splits)
  have "same_key True k1 k2 \<longleftrightarrow> rfc3261_branch r1 = rfc3261_branch r2 \<and>
      ident_text (tsx_ident role1 m1 r1) = ident_text (tsx_ident role2 m2 r2)"
    unfolding a(1) b(1) using same_key_tail[OF a(2) b(2), of "\<not> rfc3261_branch r1" "\<not> rfc3261_branch r2"] a(3) b(3) by simp
  moreover have "tsx_ident role1 m1 r1 = tsx_ident role2 m2 r2 \<Longrightarrow> rfc3261_branch r1 = rfc3261_branch r2"
    by (auto simp: tsx_ident_def split: if_splits)
  ultimately show ?thesis using ident_text_inj[OF assms(3,4)] tags by blast
qed

text \<open>
  C34 (equivalence): two keys are the same key of the transaction table exactly when they identify the
  same transaction. With a branch that starts with the magic cookie these are the role, the
  branch and the method, INVITE and ACK counting as one; otherwise the role, the method, the CSeq
  number, the From tag, the Call-ID and the host and port of the top Via. Names and identifiers are
  compared without regard to case, and neither contains the separator or a zero byte. The key
  of every message with a 16-bit port fits into the buffer that is allocated for it.
\<close>

theorem tsx_key_identifies:
  assumes "pjsip_tsx_create_key role1 m1 r1 = Some (Inr k1)" "pjsip_tsx_create_key role2 m2 r2 = Some (Inr k2)"
    and "key_parts_ok m1 r1" "key_parts_ok m2 r2"
    and "0 \<le> rx_port r1" "rx_port r1 < 2 ^ 16"
  shows "(same_key True k1 k2 \<longleftrightarrow> tsx_ident role1 m1 r1 = tsx_ident role2 m2 r2) \<and>
    length k1 \<le> (if rfc3261_branch r1 then key_3261_room m1 (rx_branch r1) else key_2543_room m1 r1 True)"
proof -
  have "length k1 \<le> (if rfc3261_branch r1 then key_3261_room m1 (rx_branch r1) else key_2543_room m1 r1 True)"
    using assms(1,3,5,6) key_2543_fits[of role1 m1 r1 True k1] key_3261_fits[of role1 m1 "rx_branch r1"] branch_test[of r1]
    by (auto simp: pjsip_tsx_create_key_def key_parts_ok_def split: if_splits)
  then show ?thesis using same_key_ident[OF assms(1-4)] by blast
qed

text \<open>An INVITE and its ACK, with a branch of RFC 3261 and without.\<close>

definition demo_rx :: "pjsip_method_e \<Rightarrow> hkey \<Rightarrow> rx_msg" where
  "demo_rx method branch =
     \<lparr>rx_type = PJSIP_REQUEST_MSG, rx_code = 0, rx_method = method, rx_cseq = Some method, rx_has_via = True,
      rx_cseq_num = 7, rx_branch = branch, rx_host = [104], rx_port = 5060, rx_from_tag = Some [116],
      rx_to_tag = [], rx_call_id = [105]\<rparr>"

definition demo_branch :: hkey where "demo_branch = [122, 57, 104, 71, 52, 98, 75, 49]"

lemma demo_keys:
  "pjsip_tsx_create_key PJSIP_ROLE_UAS PJSIP_INVITE_METHOD (demo_rx PJSIP_INVITE_METHOD demo_branch) =
     Some (Inr [115, 36, 122, 57, 104, 71, 52, 98, 75, 49])"
  "pjsip_tsx_create_key PJSIP_ROLE_UAS PJSIP_ACK_METHOD (demo_rx PJSIP_ACK_METHOD demo_branch) =
     Some (Inr [115, 36, 122, 57, 104, 71, 52, 98, 75, 49])"
  "key_parts_ok PJSIP_INVITE_METHOD (demo_rx PJSIP_INVITE_METHOD demo_branch)"
  "key_parts_ok PJSIP_ACK_METHOD (demo_rx PJSIP_ACK_METHOD demo_branch)"
  by (simp_all add: demo_rx_def demo_branch_def key_parts_ok_def plain_def SEPARATOR_def pjsip_tsx_create_key_def
      create_tsx_key_3261_def role_char_def key_method_def pj_strnicmp_eq_def stricmp_eq_def PJSIP_RFC3261_BRANCH_ID_def
      PJSIP_RFC3261_BRANCH_LEN_def strnicmp_eq_def)

theorem tsx_key_identifies_witness:
  "tsx_ident PJSIP_ROLE_UAS PJSIP_INVITE_METHOD (demo_rx PJSIP_INVITE_METHOD demo_branch) =
     tsx_ident PJSIP_ROLE_UAS PJSIP_ACK_METHOD (demo_rx PJSIP_ACK_METHOD demo_branch)"
  using tsx_key_identifies[OF demo_keys] by (simp add: demo_rx_def)

end
