(* ===== verification/Tsx_Layer.thy ===== *)
theory Tsx_Layer
  imports Sip_Tsx_Inv Tsx_Key
begin

text \<open>
  The transaction layer (\<open>mod_tsx_layer\<close> of \<open>pjsip/src/pjsip/sip_transaction.c\<close>): the two hash tables,
  registration and lookup, creation of transactions with their keys, and the callbacks that give
  a received message to its transaction. A transaction is named by a number (its address); the
  store \<open>tl_tsx\<close> holds every transaction that was created, destroyed ones too, so that a table
  entry for a destroyed transaction would show. Pools do not run out, and the mutex is not
  modelled: each operation is one step.
\<close>

section \<open>State\<close>

record layer_tsx =
  lt_tsx :: pjsip_transaction
  lt_key :: hkey
  lt_key2 :: hkey
  lt_hashed_key :: u32
  lt_hashed_key2 :: u32

record tsx_layer =
  tl_htable :: "nat pj_hash_table_t"
  tl_htable2 :: "nat pj_hash_table_t"
  tl_tsx :: "nat \<Rightarrow> layer_tsx option"
  tl_next :: nat
  tl_mod_loaded :: bool

definition pjsip_tsx_layer_init_module :: "u32 \<Rightarrow> tsx_layer option" where
  "pjsip_tsx_layer_init_module max_count =
     (case (pj_hash_create max_count, pj_hash_create max_count) of
        (Some h1, Some h2) \<Rightarrow> Some \<lparr>tl_htable = h1, tl_htable2 = h2, tl_tsx = (\<lambda>_. None), tl_next = 0, tl_mod_loaded = True\<rparr>
      | _ \<Rightarrow> None)"

section \<open>Registration and lookup\<close>

definition find_tsx :: "tsx_layer \<Rightarrow> hkey \<Rightarrow> nat option" where
  "find_tsx l key = fst (pj_hash_get True (tl_htable l) key 0)"

definition mod_tsx_layer_register_tsx :: "tsx_layer \<Rightarrow> nat \<Rightarrow> layer_tsx \<Rightarrow> tsx_layer \<times> pj_status" where
  "mod_tsx_layer_register_tsx l i t =
     (if fst (pj_hash_get True (tl_htable l) (lt_key t) 0) \<noteq> None then (l, PJ_EEXISTS)
      else let l = l\<lparr>tl_htable := hash_set True (tl_htable l) (lt_key t) (lt_hashed_key t) (Some i)\<rparr>;
               l = (if tsx_role (lt_tsx t) = PJSIP_ROLE_UAS
                    then l\<lparr>tl_htable2 := hash_set True (tl_htable2 l) (lt_key2 t) (lt_hashed_key2 t) (Some i)\<rparr> else l)
           in (l, PJ_SUCCESS))"

definition mod_tsx_layer_unregister_tsx :: "tsx_layer \<Rightarrow> layer_tsx \<Rightarrow> tsx_layer" where
  "mod_tsx_layer_unregister_tsx l t =
     (if \<not> tl_mod_loaded l then l
      else let l = l\<lparr>tl_htable := hash_set True (tl_htable l) (lt_key t) (lt_hashed_key t) None\<rparr>
           in if tsx_role (lt_tsx t) = PJSIP_ROLE_UAS
              then l\<lparr>tl_htable2 := hash_set True (tl_htable2 l) (lt_key2 t) (lt_hashed_key2 t) None\<rparr> else l)"

definition pjsip_tsx_layer_get_tsx_count :: "tsx_layer \<Rightarrow> nat" where
  "pjsip_tsx_layer_get_tsx_count l = pj_hash_count (tl_htable l)"

section \<open>Creation\<close>

text \<open>
  The parts of the two creation functions that \<open>pjsip_tsx_create_uac2\<close> and \<open>pjsip_tsx_create_uas2\<close> of the
  transaction model leave open: the branch, the keys, and the registration. \<open>guid\<close> is the
  unique string that is generated when the request has no branch.
\<close>

definition uac_branch :: "hkey \<Rightarrow> hkey \<Rightarrow> hkey" where
  "uac_branch branch guid = (if branch = [] then PJSIP_RFC3261_BRANCH_ID @ [80, 106] @ guid else branch)"

definition layer_entry :: "pjsip_transaction \<Rightarrow> hkey \<Rightarrow> hkey \<Rightarrow> layer_tsx" where
  "layer_entry tsx key key2 =
     \<lparr>lt_tsx = tsx, lt_key = key, lt_key2 = key2, lt_hashed_key = fst (pj_hash_calc_tolower 0 key),
      lt_hashed_key2 = fst (pj_hash_calc_tolower 0 key2)\<rparr>"

text \<open>
  The transaction is complete but for its registration (\<open>prepared\<close>, or the error that comes before);
  it is registered and its number handed out, or shut down again.
\<close>

definition layer_add :: "pj_status + pjsip_transaction \<Rightarrow> hkey \<Rightarrow> hkey \<Rightarrow> tsx_layer \<Rightarrow> (pj_status + nat) \<times> tsx_layer" where
  "layer_add prepared key key2 l =
     (case prepared of
        Inl status \<Rightarrow> (Inl status, l)
      | Inr tsx \<Rightarrow>
          (let i = tl_next l; t = layer_entry tsx key key2; (l', status) = mod_tsx_layer_register_tsx l i t
           in if status \<noteq> PJ_SUCCESS then (Inl status, l)
              else (Inr i, l'\<lparr>tl_tsx := (tl_tsx l')(i := Some t), tl_next := Suc i\<rparr>)))"

definition layer_create_uac ::
    "tsx_env \<Rightarrow> bool \<Rightarrow> pjsip_tx_data \<Rightarrow> hkey \<Rightarrow> hkey \<Rightarrow> tsx_layer \<Rightarrow> (pj_status + nat) \<times> tsx_layer" where
  "layer_create_uac env has_user td branch guid l =
     layer_add (pjsip_tsx_create_uac2 env has_user td PJ_SUCCESS)
       (create_tsx_key_3261 PJSIP_ROLE_UAC (td_method td) (uac_branch branch guid)) [] l"

text \<open>A missing Via header is refused before the keys are computed.\<close>

definition uas_keys :: "rx_msg \<Rightarrow> pj_status + hkey \<times> hkey" where
  "uas_keys rdata =
     (case pjsip_tsx_create_key PJSIP_ROLE_UAS (rx_method rdata) rdata of
        Some (Inr key) \<Rightarrow>
          (case create_tsx_key_2543 PJSIP_ROLE_UAS (rx_method rdata) rdata False of
             Inr key2 \<Rightarrow> Inr (key, key2)
           | Inl status \<Rightarrow> Inl status)
      | Some (Inl status) \<Rightarrow> Inl status
      | None \<Rightarrow> Inl PJSIP_EMISSINGHDR)"

definition layer_create_uas :: "tsx_env \<Rightarrow> bool \<Rightarrow> rx_msg \<Rightarrow> tsx_layer \<Rightarrow> (pj_status + nat) \<times> tsx_layer" where
  "layer_create_uas env has_user rdata l =
     (case uas_keys rdata of
        Inl status \<Rightarrow> layer_add (pjsip_tsx_create_uas2 env has_user (pjsip_rx_data.truncate rdata) status PJ_SUCCESS) [] [] l
      | Inr (key, key2) \<Rightarrow>
          layer_add (pjsip_tsx_create_uas2 env has_user (pjsip_rx_data.truncate rdata) PJ_SUCCESS PJ_SUCCESS) key key2 l)"

section \<open>Operations on a registered transaction\<close>

text \<open>
  Each time the transaction enters the destroyed state it unregisters itself. \<open>None\<close>: a null
  handler is called or the transaction does not exist.
\<close>

definition layer_exec :: "tsx_env \<Rightarrow> tsx_layer \<Rightarrow> nat \<Rightarrow> tsx_op \<Rightarrow> tsx_layer option" where
  "layer_exec env l i op =
     (case tl_tsx l i of
        None \<Rightarrow> None
      | Some t \<Rightarrow>
          map_option
            (\<lambda>b. let t' = t\<lparr>lt_tsx := b\<rparr>; l = l\<lparr>tl_tsx := (tl_tsx l)(i := Some t')\<rparr>
                 in if tsx_unregs b \<noteq> tsx_unregs (lt_tsx t) then mod_tsx_layer_unregister_tsx l t' else l)
            (tsx_exec env (lt_tsx t) op))"

text \<open>The result of the callbacks: whether the message was taken, and the layer.\<close>

definition mod_tsx_layer_on_rx_request :: "tsx_env \<Rightarrow> tsx_layer \<Rightarrow> rx_msg \<Rightarrow> (bool \<times> tsx_layer) option" where
  "mod_tsx_layer_on_rx_request env l rdata =
     (case rx_cseq rdata of
        None \<Rightarrow> None
      | Some cseq_method \<Rightarrow>
          (case pjsip_tsx_create_key PJSIP_ROLE_UAS cseq_method rdata of
             Some (Inr key) \<Rightarrow>
               (case find_tsx l key of
                  None \<Rightarrow> Some (False, l)
                | Some i \<Rightarrow>
                    (case tl_tsx l i of
                       None \<Rightarrow> None
                     | Some t \<Rightarrow>
                         (if tsx_state (lt_tsx t) = PJSIP_TSX_STATE_TERMINATED then Some (False, l)
                          else if rx_method rdata = PJSIP_ACK_METHOD \<and> tsx_method (lt_tsx t) = PJSIP_INVITE_METHOD \<and>
                                  c_div (tsx_status_code (lt_tsx t)) 100 = 2
                          then Some (False, l)
                          else map_option (Pair True) (layer_exec env l i (OpRecv (pjsip_rx_data.truncate rdata))))))
           | _ \<Rightarrow> None))"

definition mod_tsx_layer_on_rx_response :: "tsx_env \<Rightarrow> tsx_layer \<Rightarrow> rx_msg \<Rightarrow> (bool \<times> tsx_layer) option" where
  "mod_tsx_layer_on_rx_response env l rdata =
     (case rx_cseq rdata of
        None \<Rightarrow> None
      | Some cseq_method \<Rightarrow>
          (case pjsip_tsx_create_key PJSIP_ROLE_UAC cseq_method rdata of
             Some (Inr key) \<Rightarrow>
               (case find_tsx l key of
                  None \<Rightarrow> Some (False, l)
                | Some i \<Rightarrow>
                    (case tl_tsx l i of
                       None \<Rightarrow> None
                     | Some t \<Rightarrow>
                         (if tsx_state (lt_tsx t) = PJSIP_TSX_STATE_TERMINATED then Some (False, l)
                          else map_option (Pair True) (layer_exec env l i (OpRecv (pjsip_rx_data.truncate rdata))))))
           | _ \<Rightarrow> None))"

definition pjsip_tsx_detect_merged_requests :: "tsx_layer \<Rightarrow> rx_msg \<Rightarrow> nat option" where
  "pjsip_tsx_detect_merged_requests l rdata =
     (if rx_type rdata \<noteq> PJSIP_REQUEST_MSG then None
      else if rx_to_tag rdata \<noteq> [] then None
      else case rx_cseq rdata of
             None \<Rightarrow> None
           | Some cseq_method \<Rightarrow>
               (case pjsip_tsx_create_key PJSIP_ROLE_UAS cseq_method rdata of
                  Some (Inr key) \<Rightarrow>
                    (if find_tsx l key \<noteq> None then None
                     else case create_tsx_key_2543 PJSIP_ROLE_UAS cseq_method rdata False of
                            Inr key2 \<Rightarrow> fst (pj_hash_get True (tl_htable2 l) key2 0)
                          | Inl status \<Rightarrow> None)
                | _ \<Rightarrow> None))"

text \<open>Stopping the layer: every transaction in the table is terminated, unregistered and shut down.\<close>

definition stop_one :: "tsx_env \<Rightarrow> tsx_layer \<Rightarrow> nat \<Rightarrow> tsx_layer" where
  "stop_one env l i =
     (case tl_tsx l i of
        None \<Rightarrow> l
      | Some t \<Rightarrow>
          (let a = fst (pjsip_tsx_terminate env (lt_tsx t) PJSIP_SC_TSX_TRANSPORT_ERROR);
               t' = t\<lparr>lt_tsx := a\<rparr>;
               l = mod_tsx_layer_unregister_tsx l t'
           in l\<lparr>tl_tsx := (tl_tsx l)(i := Some (t'\<lparr>lt_tsx := tsx_shutdown env a\<rparr>))\<rparr>))"

fun stop_loop :: "nat \<Rightarrow> tsx_env \<Rightarrow> tsx_layer \<Rightarrow> nat hash_iterator option \<Rightarrow> tsx_layer" where
  "stop_loop fuel env l None = l"
| "stop_loop 0 env l (Some it) = l"
| "stop_loop (Suc fuel) env l (Some it) =
     (let tsx = pj_hash_this it; it = pj_hash_next (tl_htable l) it
      in stop_loop fuel env (stop_one env l tsx) it)"

definition mod_tsx_layer_stop :: "tsx_env \<Rightarrow> tsx_layer \<Rightarrow> tsx_layer" where
  "mod_tsx_layer_stop env l = stop_loop (pj_hash_count (tl_htable l)) env l (pj_hash_first (tl_htable l))"

definition mod_tsx_layer_unload :: "tsx_layer \<Rightarrow> pj_status" where
  "mod_tsx_layer_unload l = (if pj_hash_count (tl_htable l) \<noteq> 0 then PJ_EBUSY else PJ_SUCCESS)"

section \<open>A registry on top of a map\<close>

text \<open>
  Objects registered under their keys: a lookup finds only live objects under their own key, and
  every live object is found. A weaker table points to live objects but may have lost some.
\<close>

definition points :: "('k \<Rightarrow> 'k \<Rightarrow> bool) \<Rightarrow> ('k \<Rightarrow> 'v option) \<Rightarrow> ('v \<Rightarrow> 'k) \<Rightarrow> 'v set \<Rightarrow> bool" where
  "points same look key objs \<longleftrightarrow> (\<forall>k i. look k = Some i \<longrightarrow> i \<in> objs \<and> same (key i) k)"

definition tracks :: "('k \<Rightarrow> 'k \<Rightarrow> bool) \<Rightarrow> ('k \<Rightarrow> 'v option) \<Rightarrow> ('v \<Rightarrow> 'k) \<Rightarrow> 'v set \<Rightarrow> bool" where
  "tracks same look key objs \<longleftrightarrow> points same look key objs \<and> (\<forall>i \<in> objs. look (key i) = Some i)"

lemma points_cong:
  "points same look key objs \<Longrightarrow> objs \<subseteq> objs' \<Longrightarrow> (\<And>i. i \<in> objs \<Longrightarrow> key' i = key i) \<Longrightarrow> points same look key' objs'"
  unfolding points_def by (metis subsetD)

lemma tracks_cong:
  "tracks same look key objs \<Longrightarrow> (\<And>i. i \<in> objs \<Longrightarrow> key' i = key i) \<Longrightarrow> tracks same look key' objs"
  unfolding tracks_def points_def by metis

context key_map
begin

lemma points_add:
  assumes "ok t" "points same (get t) key objs" "i \<notin> objs" "\<And>j. j \<in> objs \<Longrightarrow> key' j = key j"
  shows "points same (get (put t (key' i) (Some i))) key' (insert i objs)"
  using assms unfolding points_def by (auto simp: get_put split: if_splits)

lemma points_remove:
  assumes "ok t" "points same (get t) key objs"
  shows "points same (get (put t (key i) None)) key (objs - {i})"
  using assms unfolding points_def by (auto simp: get_put split: if_splits)

lemma tracks_add:
  assumes "ok t" "tracks same (get t) key objs" "i \<notin> objs" "\<And>j. j \<in> objs \<Longrightarrow> key' j = key j" "get t (key' i) = None"
  shows "tracks same (get (put t (key' i) (Some i))) key' (insert i objs)"
proof -
  have "\<not> same (key' i) (key' j)" if "j \<in> objs" for j
    using assms get_cong[OF assms(1)] that unfolding tracks_def by (metis option.distinct(1))
  then show ?thesis using assms points_add[of t key objs i key'] unfolding tracks_def
    by (auto simp: get_put same_refl)
qed

lemma tracks_remove:
  assumes "ok t" "tracks same (get t) key objs" "i \<in> objs"
  shows "tracks same (get (put t (key i) None)) key (objs - {i})"
proof -
  have "\<not> same (key i) (key j)" if "j \<in> objs - {i}" for j
    using assms get_cong[OF assms(1)] that unfolding tracks_def by (metis DiffD1 DiffD2 insertI1 option.inject)
  then show ?thesis using assms points_remove[of t key objs i] unfolding tracks_def by (auto simp: get_put)
qed

end

section \<open>The invariant of the layer\<close>

definition alive :: "tsx_layer \<Rightarrow> nat set" where
  "alive l = {i. \<exists>t. tl_tsx l i = Some t \<and> tsx_state (lt_tsx t) \<noteq> PJSIP_TSX_STATE_DESTROYED}"

definition uas_alive :: "tsx_layer \<Rightarrow> nat set" where
  "uas_alive l = {i. \<exists>t. tl_tsx l i = Some t \<and> tsx_state (lt_tsx t) \<noteq> PJSIP_TSX_STATE_DESTROYED \<and>
     tsx_role (lt_tsx t) = PJSIP_ROLE_UAS}"

definition key_of :: "tsx_layer \<Rightarrow> nat \<Rightarrow> hkey" where "key_of l i = lt_key (the (tl_tsx l i))"

definition key2_of :: "tsx_layer \<Rightarrow> nat \<Rightarrow> hkey" where "key2_of l i = lt_key2 (the (tl_tsx l i))"

abbreviation find_tsx2 :: "tsx_layer \<Rightarrow> hkey \<Rightarrow> nat option" where
  "find_tsx2 l key \<equiv> fst (pj_hash_get True (tl_htable2 l) key 0)"

definition entry_ok :: "tsx_env \<Rightarrow> layer_tsx \<Rightarrow> bool" where
  "entry_ok env t \<longleftrightarrow> tsx_reach env (lt_tsx t) \<and> lt_hashed_key t = key_hash True (lt_key t) \<and>
     lt_hashed_key2 t = key_hash True (lt_key2 t)"

definition layer_ok :: "tsx_env \<Rightarrow> tsx_layer \<Rightarrow> bool" where
  "layer_ok env l \<longleftrightarrow> tl_mod_loaded l \<and> hash_ok True (tl_htable l) \<and> hash_ok True (tl_htable2 l) \<and>
     tracks (same_key True) (find_tsx l) (key_of l) (alive l) \<and>
     points (same_key True) (find_tsx2 l) (key2_of l) (uas_alive l) \<and>
     (\<forall>i t. tl_tsx l i = Some t \<longrightarrow> entry_ok env t \<and> i < tl_next l)"

lemma set_hashed [simp]: "hash_set True ht key (key_hash True key) val = hash_set True ht key 0 val"
  by (rule hash_set_hval) (simp add: hval_ok_def)

text \<open>Putting a new transaction into the tables, and taking one out.\<close>

definition put_tsx :: "tsx_layer \<Rightarrow> nat \<Rightarrow> layer_tsx \<Rightarrow> tsx_layer" where
  "put_tsx l i t =
     l\<lparr>tl_htable := hash_set True (tl_htable l) (lt_key t) 0 (Some i),
       tl_htable2 := (if tsx_role (lt_tsx t) = PJSIP_ROLE_UAS then hash_set True (tl_htable2 l) (lt_key2 t) 0 (Some i)
                      else tl_htable2 l),
       tl_tsx := (tl_tsx l)(i := Some t), tl_next := Suc i\<rparr>"

lemma register_eq:
  "entry_ok env t \<Longrightarrow> mod_tsx_layer_register_tsx l i t =
     (if find_tsx l (lt_key t) \<noteq> None then (l, PJ_EEXISTS)
      else ((put_tsx l i t)\<lparr>tl_tsx := tl_tsx l, tl_next := tl_next l\<rparr>, PJ_SUCCESS))"
  by (simp add: mod_tsx_layer_register_tsx_def find_tsx_def entry_ok_def put_tsx_def)

lemma put_tsx_ok:
  assumes l: "layer_ok env l" and t: "entry_ok env t" "tsx_state (lt_tsx t) \<noteq> PJSIP_TSX_STATE_DESTROYED"
    and i: "i = tl_next l" and f: "find_tsx l (lt_key t) = None"
  shows "layer_ok env (put_tsx l i t)"
proof -
  define l' where "l' = put_tsx l i t"
  define uas where "uas \<longleftrightarrow> tsx_role (lt_tsx t) = PJSIP_ROLE_UAS"
  have ni: "tl_tsx l i = None" using l unfolding layer_ok_def i by (metis less_irrefl option.exhaust)
  then have na: "i \<notin> alive l" "i \<notin> uas_alive l" by (auto simp: alive_def uas_alive_def)
  have a: "alive l' = insert i (alive l)" "uas_alive l' = (if uas then insert i (uas_alive l) else uas_alive l)"
    using ni t by (auto simp: alive_def uas_alive_def l'_def put_tsx_def uas_def)
  have k: "key_of l' i = lt_key t" "key2_of l' i = lt_key2 t" by (simp_all add: key_of_def key2_of_def l'_def put_tsx_def)
  have ko: "key_of l' j = key_of l j" "key2_of l' j = key2_of l j" if "j \<noteq> i" for j
    using that by (simp_all add: key_of_def key2_of_def l'_def put_tsx_def)
  then have ko': "\<And>j. j \<in> alive l \<Longrightarrow> key_of l' j = key_of l j" "\<And>j. j \<in> uas_alive l \<Longrightarrow> key2_of l' j = key2_of l j"
    using na by metis+
  have h: "hash_ok True (tl_htable l)" "hash_ok True (tl_htable2 l)" using l by (simp_all add: layer_ok_def)
  have "tracks (same_key True) (find_tsx l') (key_of l') (alive l')"
    using hm.tracks_add[OF h(1), of "key_of l" "alive l" i "key_of l'"] l na(1) k(1) ko'(1) f
    unfolding layer_ok_def a by (simp add: find_tsx_def[abs_def] l'_def put_tsx_def)
  moreover have "points (same_key True) (find_tsx2 l') (key2_of l') (uas_alive l')"
  proof (cases uas)
    case True
    then show ?thesis using hm.points_add[OF h(2), of "key2_of l" "uas_alive l" i "key2_of l'"] l na(2) k(2) ko'(2)
      unfolding layer_ok_def a by (simp add: l'_def put_tsx_def uas_def)
  next
    case False
    have "points (same_key True) (find_tsx2 l) (key2_of l') (uas_alive l)"
      by (rule points_cong[of _ _ "key2_of l" "uas_alive l"]) (use l ko'(2) in \<open>simp_all add: layer_ok_def\<close>)
    then show ?thesis using False unfolding a by (simp add: l'_def put_tsx_def uas_def)
  qed
  ultimately show ?thesis using l h hm.put_ok t unfolding l'_def[symmetric] layer_ok_def
    by (auto simp: l'_def put_tsx_def i less_Suc_eq)
qed

lemma layer_add_ok:
  assumes l: "layer_ok env l" and p: "\<And>tsx. prepared = Inr tsx \<Longrightarrow> tsx_reach env tsx \<and> tsx_state tsx \<noteq> PJSIP_TSX_STATE_DESTROYED"
  shows "layer_ok env (snd (layer_add prepared key key2 l))"
proof (cases prepared)
  case (Inr tsx)
  define t where "t = layer_entry tsx key key2"
  have t: "entry_ok env t" "tsx_state (lt_tsx t) \<noteq> PJSIP_TSX_STATE_DESTROYED"
    using p[OF Inr] by (simp_all add: t_def layer_entry_def key_hash_def entry_ok_def)
  have "layer_add prepared key key2 l =
      (if find_tsx l (lt_key t) \<noteq> None then (Inl PJ_EEXISTS, l) else (Inr (tl_next l), put_tsx l (tl_next l) t))"
    using register_eq[OF t(1), of l "tl_next l"] by (simp add: layer_add_def Inr t_def[symmetric] Let_def put_tsx_def)
  then show ?thesis using put_tsx_ok[OF l t refl] l by simp
qed (use l in \<open>simp add: layer_add_def\<close>)

text \<open>
  A report on a message that was still being sent when its transaction was destroyed: the
  transaction then enters the destroyed state once more.
\<close>

fun late_report :: "pjsip_transaction \<Rightarrow> tsx_op \<Rightarrow> bool" where
  "late_report a (OpReport td rep) = tsx_pending_destroy a"
| "late_report a (OpTransportDone sent) = tsx_pending_destroy a"
| "late_report a _ = False"

lemma timer_unregs [simp]:
  "tsx_unregs (cancel_timeout a) = tsx_unregs a" "tsx_unregs (cancel_retransmit a) = tsx_unregs a"
  "tsx_unregs (schedule_timeout a d i) = tsx_unregs a" "tsx_unregs (schedule_retransmit a d) = tsx_unregs a"
  "tsx_unregs (add_td_ref k td a) = tsx_unregs a"
  by (simp_all add: timer_defs add_td_ref_def)

lemma flush_idle: "\<not> tsx_pending_send a \<Longrightarrow> \<not> tsx_pending_resched a \<Longrightarrow> flush_pending f env a = a"
  by (simp add: flush_pending_def)

lemma destroyed_report:
  assumes "flags_ok a" "tsx_state a = PJSIP_TSX_STATE_DESTROYED" "\<not> tsx_pending_destroy a"
  shows "tsx_unregs (send_msg_callback f env td a rep) = tsx_unregs a"
  using assms by (cases rep)
    (auto simp: send_msg_callback_def on_sent_def on_send_failed_def on_try_next_def flush_idle flags_ok_def Let_def)

lemma destroyed_transport_done:
  assumes "flags_ok a" "tsx_state a = PJSIP_TSX_STATE_DESTROYED" "\<not> tsx_pending_destroy a"
  shows "tsx_unregs (transport_callback env a sent) = tsx_unregs a"
  using assms by (cases sent) (auto simp: transport_callback_def flush_idle flags_ok_def Let_def)

lemma destroyed_no_unreg:
  assumes i: "tsx_inv a" and d: "tsx_state a = PJSIP_TSX_STATE_DESTROYED" and n: "\<not> late_report a op" "op_enabled a op"
    and b: "tsx_exec env a op = Some b"
  shows "tsx_unregs b = tsx_unregs a"
proof -
  have f: "flags_ok a" using i by (simp add: tsx_inv_def)
  have disp: "tsx_dispatch env a ev = Some (a, PJ_EIGNORED)" for ev
    using d by (cases "tsx_role a") (simp_all add: tsx_dispatch_def tsx_on_state_destroyed_def)
  show ?thesis
  proof (cases op)
    case (OpSend td)
    then show ?thesis using b by (auto simp: pjsip_tsx_send_msg_def disp split: option.splits if_splits)
  next
    case (OpReport td rep)
    then show ?thesis using b n destroyed_report[OF f d] by auto
  next
    case (OpTransportDone sent)
    then show ?thesis using b n destroyed_transport_done[OF f d] by auto
  qed (use b d n disp in \<open>auto simp: pjsip_tsx_recv_msg_def tsx_timer_callback_def tsx_tp_state_callback_def pjsip_tsx_terminate_def
      pjsip_tsx_terminate_async_def pjsip_tsx_stop_retransmit_def pjsip_tsx_set_timeout_def Let_def\<close>)
qed

lemma unregister_eq:
  "tl_mod_loaded l \<Longrightarrow> entry_ok env t \<Longrightarrow> mod_tsx_layer_unregister_tsx l t =
     l\<lparr>tl_htable := hash_set True (tl_htable l) (lt_key t) 0 None,
       tl_htable2 := (if tsx_role (lt_tsx t) = PJSIP_ROLE_UAS then hash_set True (tl_htable2 l) (lt_key2 t) 0 None
                      else tl_htable2 l)\<rparr>"
  by (simp add: mod_tsx_layer_unregister_tsx_def entry_ok_def)

text \<open>Replacing a transaction by its successor, with the keys kept.\<close>

lemma layer_update_ok:
  assumes l: "layer_ok env l" and t: "tl_tsx l i = Some t" and b: "tsx_reach env b" "tsx_role b = tsx_role (lt_tsx t)"
    and s: "tsx_state b = PJSIP_TSX_STATE_DESTROYED \<longleftrightarrow> tsx_state (lt_tsx t) = PJSIP_TSX_STATE_DESTROYED"
  shows "layer_ok env (l\<lparr>tl_tsx := (tl_tsx l)(i := Some (t\<lparr>lt_tsx := b\<rparr>))\<rparr>)"
proof -
  define l' where "l' = l\<lparr>tl_tsx := (tl_tsx l)(i := Some (t\<lparr>lt_tsx := b\<rparr>))\<rparr>"
  have "alive l' = alive l" "uas_alive l' = uas_alive l" using t b s by (auto simp: alive_def uas_alive_def l'_def)
  moreover have "key_of l' = key_of l" "key2_of l' = key2_of l" using t by (auto simp: key_of_def key2_of_def l'_def)
  moreover have "find_tsx l' = find_tsx l" by (simp add: find_tsx_def[abs_def] l'_def)
  ultimately show ?thesis using l t b unfolding layer_ok_def l'_def by (auto simp: entry_ok_def)
qed

lemma layer_remove_ok:
  assumes l: "layer_ok env l" and t: "tl_tsx l i = Some t" "tsx_state (lt_tsx t) \<noteq> PJSIP_TSX_STATE_DESTROYED"
    and b: "tsx_reach env b" "tsx_role b = tsx_role (lt_tsx t)" "tsx_state b = PJSIP_TSX_STATE_DESTROYED"
  shows "layer_ok env (mod_tsx_layer_unregister_tsx (l\<lparr>tl_tsx := (tl_tsx l)(i := Some (t\<lparr>lt_tsx := b\<rparr>))\<rparr>) (t\<lparr>lt_tsx := b\<rparr>))"
proof -
  define t' where "t' = t\<lparr>lt_tsx := b\<rparr>"
  define l' where "l' = mod_tsx_layer_unregister_tsx (l\<lparr>tl_tsx := (tl_tsx l)(i := Some t')\<rparr>) t'"
  have e: "entry_ok env t'" using l t b by (auto simp: layer_ok_def entry_ok_def t'_def)
  have uas: "tsx_role (lt_tsx t') = PJSIP_ROLE_UAS \<longleftrightarrow> i \<in> uas_alive l" using t b by (simp add: t'_def uas_alive_def)
  have l': "l' = l\<lparr>tl_tsx := (tl_tsx l)(i := Some t'), tl_htable := hash_set True (tl_htable l) (key_of l i) 0 None,
      tl_htable2 := (if i \<in> uas_alive l then hash_set True (tl_htable2 l) (key2_of l i) 0 None else tl_htable2 l)\<rparr>"
    using l t unregister_eq[of "l\<lparr>tl_tsx := (tl_tsx l)(i := Some t')\<rparr>", OF _ e] uas
    by (simp add: l'_def layer_ok_def key_of_def key2_of_def t'_def)
  have i: "i \<in> alive l" using t by (simp add: alive_def)
  have a: "alive l' = alive l - {i}" "uas_alive l' = uas_alive l - {i}"
    using b by (auto simp: alive_def uas_alive_def l' t'_def)
  have k: "key_of l' = key_of l" "key2_of l' = key2_of l" using t by (auto simp: key_of_def key2_of_def l' t'_def)
  have h: "hash_ok True (tl_htable l)" "hash_ok True (tl_htable2 l)" using l by (simp_all add: layer_ok_def)
  have "tracks (same_key True) (find_tsx l') (key_of l') (alive l')"
    using hm.tracks_remove[OF h(1) _ i, of "key_of l"] l unfolding layer_ok_def a k by (simp add: find_tsx_def[abs_def] l')
  moreover have "points (same_key True) (find_tsx2 l') (key2_of l') (uas_alive l')"
    using hm.points_remove[OF h(2), of "key2_of l" "uas_alive l" i] l unfolding layer_ok_def a k by (auto simp: l')
  ultimately show ?thesis using l h hm.put_ok e unfolding l'_def[symmetric] t'_def[symmetric] layer_ok_def
    by (auto simp: l' t(1))
qed

lemma layer_exec_ok:
  assumes e: "env_ok env" and l: "layer_ok env l" and t: "tl_tsx l i = Some t" and o: "op_enabled (lt_tsx t) op"
    and n: "\<not> late_report (lt_tsx t) op"
  shows "\<exists>l'. layer_exec env l i op = Some l' \<and> layer_ok env l'"
proof -
  have r: "tsx_reach env (lt_tsx t)" using l t by (auto simp: layer_ok_def entry_ok_def)
  then have ia: "tsx_inv (lt_tsx t)" using reach_inv e by blast
  obtain b where b: "tsx_exec env (lt_tsx t) op = Some b" "op_rel (lt_tsx t) b" using exec_ok[OF e ia o] by blast
  have rb: "tsx_reach env b" using tsx_reach.step[OF r o b(1)] .
  have ib: "tsx_inv b" and role: "tsx_role b = tsx_role (lt_tsx t)" using b(2) by (simp_all add: op_rel_def)
  have u: "tsx_unregs (lt_tsx t) = 0 \<longleftrightarrow> tsx_state (lt_tsx t) \<noteq> PJSIP_TSX_STATE_DESTROYED"
    "tsx_unregs b = 0 \<longleftrightarrow> tsx_state b \<noteq> PJSIP_TSX_STATE_DESTROYED"
    using ia ib by (simp_all add: tsx_inv_def flags_ok_def)
  show ?thesis
  proof (cases "tsx_unregs b = tsx_unregs (lt_tsx t)")
    case True
    then show ?thesis using layer_update_ok[OF l t rb role] u b(1) t by (simp add: layer_exec_def Let_def)
  next
    case False
    then have live: "tsx_state (lt_tsx t) \<noteq> PJSIP_TSX_STATE_DESTROYED" using destroyed_no_unreg[OF ia _ n o b(1)] by auto
    then have "tsx_state b = PJSIP_TSX_STATE_DESTROYED" using False u by auto
    then show ?thesis using False layer_remove_ok[OF l t live rb role] b(1) t by (simp add: layer_exec_def Let_def)
  qed
qed

text \<open>
  What can happen to the layer: initialisation, creations, received messages and the operations on
  its transactions, with three exceptions that the properties below name. Late reports are left
  out (\<open>late_report_unregisters\<close> shows what they do); so is \<open>mod_tsx_layer_stop\<close>, which takes every
  transaction out of the table and shuts it down while its state is still Terminated; and so are
  the uses of \<open>pjsip_tsx_terminate_async\<close> that \<open>op_enabled\<close> does not allow.
\<close>

inductive layer_reach :: "tsx_env \<Rightarrow> tsx_layer \<Rightarrow> bool" for env where
  init: "unat n \<le> 2 ^ 31 \<Longrightarrow> pjsip_tsx_layer_init_module n = Some l \<Longrightarrow> layer_reach env l"
| create_uac: "layer_reach env l \<Longrightarrow> layer_reach env (snd (layer_create_uac env u td branch guid l))"
| create_uas: "layer_reach env l \<Longrightarrow> layer_reach env (snd (layer_create_uas env u r l))"
| exec: "layer_reach env l \<Longrightarrow> tl_tsx l i = Some t \<Longrightarrow> op_enabled (lt_tsx t) op \<Longrightarrow> \<not> late_report (lt_tsx t) op \<Longrightarrow>
    layer_exec env l i op = Some l' \<Longrightarrow> layer_reach env l'"
| rx_request: "layer_reach env l \<Longrightarrow> mod_tsx_layer_on_rx_request env l r = Some (taken, l') \<Longrightarrow> layer_reach env l'"
| rx_response: "layer_reach env l \<Longrightarrow> mod_tsx_layer_on_rx_response env l r = Some (taken, l') \<Longrightarrow> layer_reach env l'"

lemma init_ok:
  assumes "unat n \<le> 2 ^ 31" "pjsip_tsx_layer_init_module n = Some l"
  shows "layer_ok env l"
proof -
  obtain ht :: "nat pj_hash_table_t" where ht: "pj_hash_create n = Some ht" "hash_ok True ht" "concat (ht_table ht) = []"
    using hash_create_ok[OF assms(1)] by blast
  then have l: "l = \<lparr>tl_htable = ht, tl_htable2 = ht, tl_tsx = (\<lambda>_. None), tl_next = 0, tl_mod_loaded = True\<rparr>"
    using assms(2) by (simp add: pjsip_tsx_layer_init_module_def)
  show ?thesis using ht empty_get[OF ht(2,3)]
    by (simp add: layer_ok_def l tracks_def points_def find_tsx_def alive_def)
qed

lemma create_uac_null: "pjsip_tsx_create_uac2 env u td PJ_SUCCESS = Inr tsx \<Longrightarrow> tsx_state tsx = PJSIP_TSX_STATE_NULL"
  by (auto simp: pjsip_tsx_create_uac2_def tsx_create_def add_td_ref_def Let_def split: if_splits sum.splits)

lemma create_uas_null: "pjsip_tsx_create_uas2 env u r keys PJ_SUCCESS = Inr tsx \<Longrightarrow> tsx_state tsx = PJSIP_TSX_STATE_NULL"
  by (auto simp: pjsip_tsx_create_uas2_def tsx_create_def Let_def split: if_splits sum.splits option.splits)

lemma layer_create_ok:
  assumes "layer_ok env l"
  shows "layer_ok env (snd (layer_create_uac env u td branch guid l))" "layer_ok env (snd (layer_create_uas env u r l))"
proof -
  show "layer_ok env (snd (layer_create_uac env u td branch guid l))"
    unfolding layer_create_uac_def by (rule layer_add_ok[OF assms]) (auto dest: create_uac_null intro: tsx_reach.create_uac)
  have "layer_ok env (snd (layer_add (pjsip_tsx_create_uas2 env u (pjsip_rx_data.truncate r) keys PJ_SUCCESS) k k2 l))" for keys k k2
    by (rule layer_add_ok[OF assms]) (auto dest: create_uas_null intro: tsx_reach.create_uas)
  then show "layer_ok env (snd (layer_create_uas env u r l))"
    unfolding layer_create_uas_def by (simp split: sum.splits prod.splits)
qed

lemma rx_ok:
  assumes e: "env_ok env" and l: "layer_ok env l"
  shows "mod_tsx_layer_on_rx_request env l r = Some (taken, l') \<Longrightarrow> layer_ok env l'"
    and "mod_tsx_layer_on_rx_response env l r = Some (taken, l') \<Longrightarrow> layer_ok env l'"
proof -
  have x: "layer_ok env l''" if x: "layer_exec env l i (OpRecv m) = Some l''" for i m l''
  proof -
    obtain t where "tl_tsx l i = Some t" using x by (auto simp: layer_exec_def split: option.splits)
    then show ?thesis using layer_exec_ok[OF e l, of i t "OpRecv m"] x by simp
  qed
  show "mod_tsx_layer_on_rx_request env l r = Some (taken, l') \<Longrightarrow> layer_ok env l'"
    using l x unfolding mod_tsx_layer_on_rx_request_def by (auto split: option.splits sum.splits if_splits)
  show "mod_tsx_layer_on_rx_response env l r = Some (taken, l') \<Longrightarrow> layer_ok env l'"
    using l x unfolding mod_tsx_layer_on_rx_response_def by (auto split: option.splits sum.splits if_splits)
qed

lemma layer_reach_ok: "layer_reach env l \<Longrightarrow> env_ok env \<Longrightarrow> layer_ok env l"
proof (induction rule: layer_reach.induct)
  case (exec l i t op l')
  then show ?case using layer_exec_ok[of env l i t op] by auto
qed (auto intro: init_ok layer_create_ok rx_ok)

section \<open>The number of registered transactions\<close>

lemma sorted_wrt_concat:
  "\<forall>xs \<in> set xss. sorted_wrt P xs \<Longrightarrow> sorted_wrt (\<lambda>xs ys. \<forall>x \<in> set xs. \<forall>y \<in> set ys. P x y) xss \<Longrightarrow> sorted_wrt P (concat xss)"
  by (induction xss) (auto simp: sorted_wrt_append)

lemma distinct_map_wrt:
  "sorted_wrt (\<lambda>a b. \<not> S a b) es \<Longrightarrow> (\<And>a b. a \<in> set es \<Longrightarrow> b \<in> set es \<Longrightarrow> f a = f b \<Longrightarrow> S a b) \<Longrightarrow> distinct (map f es)"
  by (induction es) auto

lemma entries_differ:
  assumes "hash_ok lower ht"
  shows "sorted_wrt (\<lambda>a b. \<not> same_key lower (he_key a) (he_key b)) (concat (ht_table ht))"
proof (rule sorted_wrt_concat)
  have c: "chain_ok lower (ht_rows ht) i (ht_table ht ! i)" if "i < length (ht_table ht)" for i
    using assms that by (simp add: hash_ok_def)
  then show "\<forall>es \<in> set (ht_table ht). sorted_wrt (\<lambda>a b. \<not> same_key lower (he_key a) (he_key b)) es"
    by (auto simp: in_set_conv_nth chain_ok_def sorted_wrt_iff_nth_less)
  show "sorted_wrt (\<lambda>xs ys. \<forall>x \<in> set xs. \<forall>y \<in> set ys. \<not> same_key lower (he_key x) (he_key y)) (ht_table ht)"
    unfolding sorted_wrt_iff_nth_less
  proof (intro allI impI ballI notI)
    fix i j x y
    assume "i < j" "j < length (ht_table ht)" "x \<in> set (ht_table ht ! i)" "y \<in> set (ht_table ht ! j)"
      and s: "same_key lower (he_key x) (he_key y)"
    then show False using c[of i] c[of j] by (auto simp: chain_ok_def same_key_def)
  qed
qed

lemma get_stored:
  assumes "hash_ok lower ht" "fst (pj_hash_get lower ht key 0) = Some v"
  shows "v \<in> he_value ` set (concat (ht_table ht))"
proof -
  have g: "chain_get lower key es = Some v \<Longrightarrow> v \<in> he_value ` set es" for es
    by (induction es) (auto split: if_splits)
  have "chain_get lower key (ht_table ht ! row_of lower ht key) = Some v"
    using get_chain[OF assms(1), of key 0] assms(2) by (simp add: hval_ok_def)
  then show ?thesis using g row_in_table[OF assms(1), of key] by (force dest: nth_mem)
qed

lemma tracked_count:
  assumes "hash_ok True ht" "tracks (same_key True) (\<lambda>k. fst (pj_hash_get True ht k 0)) key objs"
  shows "pj_hash_count ht = card objs"
proof -
  let ?es = "concat (ht_table ht)"
  have v: "he_value e \<in> objs \<and> same_key True (key (he_value e)) (he_key e)" if "e \<in> set ?es" for e
    using stored_get[OF assms(1) that] assms(2) unfolding tracks_def points_def by blast
  have "set (map he_value ?es) = objs"
    using v get_stored[OF assms(1)] assms(2) unfolding tracks_def by (auto simp: image_iff; blast)
  moreover have "same_key True (he_key a) (he_key b)" if "a \<in> set ?es" "b \<in> set ?es" "he_value a = he_value b" for a b
    using v[OF that(1)] v[OF that(2)] that(3) same_key_sym same_key_trans by metis
  then have "distinct (map he_value ?es)" by (rule distinct_map_wrt[OF entries_differ[OF assms(1)]])
  ultimately have "card objs = length ?es" using distinct_card by fastforce
  then show ?thesis using assms(1) by (simp add: pj_hash_count_def hash_ok_def)
qed

section \<open>Properties\<close>

text \<open>
  C35 (invariant): the tables of the transaction layer are exact. In every state of \<open>layer_reach\<close>,
  a lookup finds only a transaction that is not destroyed, under a key equivalent to its own; every
  such transaction is found under every equivalent key; no two have equivalent keys; the
  reported count is their number; and the table for merged requests only points to server
  transactions that are not destroyed. Three kinds of history are excluded: those with a late report
  (the transport reports on a message of a transaction destroyed meanwhile; the statement is false
  afterwards, see C37), those in which the layer was stopped with \<open>mod_tsx_layer_stop\<close>, and those that
  call \<open>pjsip_tsx_terminate_async\<close> at a status below 200 or in Terminated.
\<close>

theorem layer_tables_exact:
  assumes "env_ok env" "layer_reach env l"
  shows "(\<forall>key i. find_tsx l key = Some i \<longleftrightarrow> i \<in> alive l \<and> same_key True (key_of l i) key) \<and>
    (\<forall>i \<in> alive l. \<forall>j \<in> alive l. same_key True (key_of l i) (key_of l j) \<longrightarrow> i = j) \<and>
    pjsip_tsx_layer_get_tsx_count l = card (alive l) \<and>
    (\<forall>key i. find_tsx2 l key = Some i \<longrightarrow> i \<in> uas_alive l \<and> same_key True (key2_of l i) key)"
proof -
  have l: "layer_ok env l" using layer_reach_ok assms by blast
  then have h: "hash_ok True (tl_htable l)" and t: "tracks (same_key True) (find_tsx l) (key_of l) (alive l)"
    by (simp_all add: layer_ok_def)
  have f: "find_tsx l key = Some i" if "i \<in> alive l" "same_key True (key_of l i) key" for i key
    using t that hash_get_cong[OF h that(2)] unfolding tracks_def find_tsx_def by metis
  moreover have "i \<in> alive l \<and> same_key True (key_of l i) key" if "find_tsx l key = Some i" for i key
    using t that unfolding tracks_def points_def by blast
  moreover have "i = j" if "i \<in> alive l" "j \<in> alive l" "same_key True (key_of l i) (key_of l j)" for i j
    using f[OF that(1,3)] t that(2) unfolding tracks_def by auto
  moreover have "pjsip_tsx_layer_get_tsx_count l = card (alive l)"
    unfolding pjsip_tsx_layer_get_tsx_count_def by (rule tracked_count[OF h]) (use t in \<open>simp add: find_tsx_def[abs_def]\<close>)
  ultimately show ?thesis using l unfolding layer_ok_def points_def by blast
qed

text \<open>A layer with one server transaction, created by an INVITE.\<close>

definition demo_layer0 :: tsx_layer where "demo_layer0 = the (pjsip_tsx_layer_init_module 7)"

definition demo_layer :: tsx_layer where
  "demo_layer = snd (layer_create_uas demo_env True (demo_rx PJSIP_INVITE_METHOD demo_branch) demo_layer0)"

definition demo_entry :: layer_tsx where "demo_entry = the (tl_tsx demo_layer 0)"

lemma demo_layer0_reach: "layer_reach env demo_layer0"
proof -
  have u: "unat (7 :: u32) \<le> 2 ^ 31" by simp
  obtain ht :: "nat pj_hash_table_t" where "pj_hash_create 7 = Some ht" using hash_create_ok[OF u] by blast
  then have "pjsip_tsx_layer_init_module 7 = Some demo_layer0" by (simp add: demo_layer0_def pjsip_tsx_layer_init_module_def)
  then show ?thesis by (rule layer_reach.init[OF u])
qed

lemma demo_layer_reach: "layer_reach demo_env demo_layer"
  unfolding demo_layer_def by (rule layer_reach.create_uas[OF demo_layer0_reach])

lemma demo_layer_facts:
  "map_option (\<lambda>t. tsx_state (lt_tsx t)) (tl_tsx demo_layer 0) = Some PJSIP_TSX_STATE_NULL"
  "lt_key demo_entry = [115, 36, 122, 57, 104, 71, 52, 98, 75, 49]" "tsx_status_code (lt_tsx demo_entry) = 0"
  by code_simp+

lemma demo_entry: "tl_tsx demo_layer 0 = Some demo_entry" "tsx_state (lt_tsx demo_entry) = PJSIP_TSX_STATE_NULL" "0 \<in> alive demo_layer"
  using demo_layer_facts(1) by (auto simp: demo_entry_def alive_def)

theorem layer_tables_exact_witness:
  "find_tsx demo_layer [115, 36, 122, 57, 104, 71, 52, 98, 75, 49] = Some 0 \<and>
   pjsip_tsx_layer_get_tsx_count demo_layer = card (alive demo_layer)"
proof -
  have "key_of demo_layer 0 = [115, 36, 122, 57, 104, 71, 52, 98, 75, 49]"
    using demo_layer_facts(2) by (simp add: key_of_def demo_entry_def)
  then have "same_key True (key_of demo_layer 0) [115, 36, 122, 57, 104, 71, 52, 98, 75, 49]" by simp
  then show ?thesis using layer_tables_exact[OF demo_env_ok demo_layer_reach] demo_entry(3) by blast
qed

lemma uas_keys_error: "uas_keys r = Inl status \<Longrightarrow> status = PJSIP_EMISSINGHDR"
  by (auto simp: uas_keys_def pjsip_tsx_create_key_def create_tsx_key_2543_def split: option.splits sum.splits if_splits)

lemma create_uas_needs:
  assumes "pjsip_tsx_create_uas2 env u (pjsip_rx_data.truncate r) keys PJ_SUCCESS = Inr tsx"
  shows "keys = PJ_SUCCESS" "rx_cseq r = Some (rx_method r)"
  using assms by (auto simp: pjsip_tsx_create_uas2_def pjsip_rx_data.truncate_def split: if_splits)

lemma create_uas_refused:
  assumes "rx_cseq r = Some m" "pjsip_tsx_create_key PJSIP_ROLE_UAS m r = Some (Inr key)" "find_tsx l key \<noteq> None"
  shows "snd (layer_create_uas env u r l) = l"
proof (cases "uas_keys r")
  case (Inl status)
  then have "pjsip_tsx_create_uas2 env u (pjsip_rx_data.truncate r) status PJ_SUCCESS \<noteq> Inr tsx" for tsx
    using uas_keys_error[OF Inl] create_uas_needs(1)[of env u r status tsx] by auto
  then show ?thesis using Inl by (simp add: layer_create_uas_def layer_add_def split: sum.splits)
next
  case (Inr keys)
  obtain k k2 where keys: "keys = (k, k2)" by (cases keys)
  let ?p = "pjsip_tsx_create_uas2 env u (pjsip_rx_data.truncate r) PJ_SUCCESS PJ_SUCCESS"
  have "k = key" if "?p = Inr tsx" for tsx
    using Inr assms(1,2) create_uas_needs(2)[OF that] by (auto simp: uas_keys_def keys split: option.splits sum.splits)
  then have "mod_tsx_layer_register_tsx l i (layer_entry tsx k k2) = (l, PJ_EEXISTS)" if "?p = Inr tsx" for tsx i
    using that assms(3) by (auto simp: mod_tsx_layer_register_tsx_def layer_entry_def find_tsx_def)
  then show ?thesis using Inr keys by (cases ?p) (simp_all add: layer_create_uas_def layer_add_def Let_def)
qed

text \<open>
  C36 (functional): a request reaches its transaction. If a server transaction that is not destroyed was
  registered under the key of a request, then every further request with the same identity (a
  retransmission, or the ACK of an INVITE, whatever the case of its identifiers) is given to that
  transaction and to no other, unless the transaction is terminated or the request is the ACK of
  a 2xx, which are passed on with nothing changed; and no second transaction can be created for it.
  The state is one of \<open>layer_reach\<close>, which leaves out late reports, the stop of the layer and the uses of
  \<open>pjsip_tsx_terminate_async\<close> named in C35: after a late report the transaction may be missing from
  the table and the request does not reach it (C37).
\<close>

theorem request_reaches_transaction:
  assumes "env_ok env" "layer_reach env l"
    and "tl_tsx l i = Some t" "tsx_state (lt_tsx t) \<noteq> PJSIP_TSX_STATE_DESTROYED"
    and "pjsip_tsx_create_key PJSIP_ROLE_UAS m0 r0 = Some (Inr (lt_key t))" "key_parts_ok m0 r0"
    and "rx_cseq r = Some m" "pjsip_tsx_create_key PJSIP_ROLE_UAS m r = Some (Inr key)" "key_parts_ok m r"
    and "tsx_ident PJSIP_ROLE_UAS m r = tsx_ident PJSIP_ROLE_UAS m0 r0"
  shows "(if tsx_state (lt_tsx t) = PJSIP_TSX_STATE_TERMINATED \<or>
             (rx_method r = PJSIP_ACK_METHOD \<and> tsx_method (lt_tsx t) = PJSIP_INVITE_METHOD \<and> c_div (tsx_status_code (lt_tsx t)) 100 = 2)
          then mod_tsx_layer_on_rx_request env l r = Some (False, l)
          else \<exists>b l'. pjsip_tsx_recv_msg env (lt_tsx t) (pjsip_rx_data.truncate r) = Some b \<and>
                 mod_tsx_layer_on_rx_request env l r = Some (True, l') \<and> tl_tsx l' = (tl_tsx l)(i := Some (t\<lparr>lt_tsx := b\<rparr>))) \<and>
    snd (layer_create_uas env u r l) = l"
proof -
  have ok: "layer_ok env l" using layer_reach_ok assms(1,2) by blast
  then have h: "hash_ok True (tl_htable l)" and tr: "tracks (same_key True) (find_tsx l) (key_of l) (alive l)"
    by (simp_all add: layer_ok_def)
  have i: "i \<in> alive l" "key_of l i = lt_key t" using assms(3,4) by (simp_all add: alive_def key_of_def)
  have "same_key True (lt_key t) key" using same_key_ident[OF assms(5,8,6,9)] assms(10) by simp
  then have f: "find_tsx l key = Some i"
    using tr i hash_get_cong[OF h] unfolding tracks_def find_tsx_def by metis
  obtain b where b: "pjsip_tsx_recv_msg env (lt_tsx t) (pjsip_rx_data.truncate r) = Some b"
    using ok reach_inv[OF _ assms(1)] exec_ok[OF assms(1), of "lt_tsx t" "OpRecv (pjsip_rx_data.truncate r)"] assms(3)
    by (auto simp: layer_ok_def entry_ok_def)
  have un: "tl_tsx (mod_tsx_layer_unregister_tsx x y) = tl_tsx x" for x y
    by (simp add: mod_tsx_layer_unregister_tsx_def Let_def)
  have "\<exists>l'. layer_exec env l i (OpRecv (pjsip_rx_data.truncate r)) = Some l' \<and> tl_tsx l' = (tl_tsx l)(i := Some (t\<lparr>lt_tsx := b\<rparr>))"
    using assms(3) b by (simp add: layer_exec_def Let_def un)
  then have "if tsx_state (lt_tsx t) = PJSIP_TSX_STATE_TERMINATED \<or>
             (rx_method r = PJSIP_ACK_METHOD \<and> tsx_method (lt_tsx t) = PJSIP_INVITE_METHOD \<and> c_div (tsx_status_code (lt_tsx t)) 100 = 2)
          then mod_tsx_layer_on_rx_request env l r = Some (False, l)
          else \<exists>b l'. pjsip_tsx_recv_msg env (lt_tsx t) (pjsip_rx_data.truncate r) = Some b \<and>
                 mod_tsx_layer_on_rx_request env l r = Some (True, l') \<and> tl_tsx l' = (tl_tsx l)(i := Some (t\<lparr>lt_tsx := b\<rparr>))"
    using b f assms(3,7,8) unfolding mod_tsx_layer_on_rx_request_def by auto
  moreover have "snd (layer_create_uas env u r l) = l" using create_uas_refused[OF assms(7,8)] f by simp
  ultimately show ?thesis by blast
qed

text \<open>The ACK of the INVITE, for which the transaction in the example waits.\<close>

theorem request_reaches_transaction_witness:
  "\<exists>l'. mod_tsx_layer_on_rx_request demo_env demo_layer (demo_rx PJSIP_ACK_METHOD demo_branch) = Some (True, l') \<and>
     (\<forall>j. j \<noteq> 0 \<longrightarrow> tl_tsx l' j = tl_tsx demo_layer j)"
proof -
  have "tsx_ident PJSIP_ROLE_UAS PJSIP_ACK_METHOD (demo_rx PJSIP_ACK_METHOD demo_branch) =
      tsx_ident PJSIP_ROLE_UAS PJSIP_INVITE_METHOD (demo_rx PJSIP_INVITE_METHOD demo_branch)"
    by (simp add: tsx_ident_def rfc3261_branch_def ident_method_def demo_rx_def)
  moreover have "rx_cseq (demo_rx PJSIP_ACK_METHOD demo_branch) = Some PJSIP_ACK_METHOD" by (simp add: demo_rx_def)
  ultimately obtain b l' where
    "mod_tsx_layer_on_rx_request demo_env demo_layer (demo_rx PJSIP_ACK_METHOD demo_branch) = Some (True, l')"
    "tl_tsx l' = (tl_tsx demo_layer)(0 := Some (demo_entry\<lparr>lt_tsx := b\<rparr>))"
    using request_reaches_transaction[OF demo_env_ok demo_layer_reach demo_entry(1) _ _ demo_keys(3), of
        "demo_rx PJSIP_ACK_METHOD demo_branch" PJSIP_ACK_METHOD "[115, 36, 122, 57, 104, 71, 52, 98, 75, 49]" True]
      demo_keys demo_entry(2) demo_layer_facts(2,3) by (auto simp: c_div_def)
  then show ?thesis by simp
qed

section \<open>Late reports\<close>

text \<open>
  C37 (error): why late reports are excluded above. A transaction that was destroyed while a message was
  still in the transport unregisters its key again when the transport reports, whoever holds the
  key by then: the lookup finds nothing, although no other transaction has changed. The witness
  is a server transaction that is terminated and repeats its last response on a busy transport;
  it is destroyed, the request is repeated and gets a new transaction, and the report makes
  the new transaction disappear from the table.
\<close>

theorem late_report_unregisters:
  assumes "env_ok env" "layer_reach env l" "tl_tsx l i = Some t" "tsx_pending_destroy (lt_tsx t)" "n > 0"
    and "same_key True (lt_key t) key"
  shows "\<exists>l'. layer_exec env l i (OpTransportDone (SentBytes n)) = Some l' \<and> find_tsx l' key = None \<and>
     (\<forall>j. j \<noteq> i \<longrightarrow> tl_tsx l' j = tl_tsx l j)"
proof -
  have ok: "layer_ok env l" using layer_reach_ok assms(1,2) by blast
  define b where "b = transport_callback env (lt_tsx t) (SentBytes n)"
  have b: "tsx_unregs b \<noteq> tsx_unregs (lt_tsx t)" "tsx_role b = tsx_role (lt_tsx t)"
    using assms(4,5) by (simp_all add: b_def transport_callback_def Let_def)
  define t' where "t' = t\<lparr>lt_tsx := b\<rparr>"
  define l2 where "l2 = l\<lparr>tl_tsx := (tl_tsx l)(i := Some t')\<rparr>"
  have e: "lt_hashed_key t' = key_hash True (lt_key t')" "tl_mod_loaded l2" "hash_ok True (tl_htable l2)"
    using ok assms(3) by (auto simp: layer_ok_def entry_ok_def t'_def l2_def)
  have "layer_exec env l i (OpTransportDone (SentBytes n)) = Some (mod_tsx_layer_unregister_tsx l2 t')"
    using assms(3) b(1) by (simp add: layer_exec_def b_def[symmetric] Let_def t'_def l2_def)
  moreover have "find_tsx (mod_tsx_layer_unregister_tsx l2 t') key = None"
    using e assms(6) hm.get_put[OF e(3), of "lt_key t'" None key]
    by (simp add: mod_tsx_layer_unregister_tsx_def find_tsx_def Let_def t'_def)
  moreover have "\<forall>j. j \<noteq> i \<longrightarrow> tl_tsx (mod_tsx_layer_unregister_tsx l2 t') j = tl_tsx l j"
    by (simp add: mod_tsx_layer_unregister_tsx_def Let_def l2_def)
  ultimately show ?thesis by blast
qed

definition busy_env :: tsx_env where
  "busy_env = demo_env\<lparr>transport_send := (\<lambda>_ _. PJ_EPENDING)\<rparr>"

definition late_l0 :: tsx_layer where
  "late_l0 = snd (layer_create_uas busy_env True (demo_rx PJSIP_INVITE_METHOD demo_branch) demo_layer0)"
definition late_l1 :: tsx_layer where "late_l1 = the (layer_exec busy_env late_l0 0 (OpTerminate 500))"
definition late_l2 :: tsx_layer where "late_l2 = the (layer_exec busy_env late_l1 0 (OpRetransmitNoState (Some demo_ringing)))"
definition late_l3 :: tsx_layer where "late_l3 = the (layer_exec busy_env late_l2 0 (OpTimer TIMEOUT_ENTRY))"
definition late_l4 :: tsx_layer where
  "late_l4 = snd (layer_create_uas busy_env True (demo_rx PJSIP_INVITE_METHOD demo_branch) late_l3)"

definition step_allowed :: "tsx_layer \<Rightarrow> nat \<Rightarrow> tsx_op \<Rightarrow> bool" where
  "step_allowed l i op =
     (case tl_tsx l i of None \<Rightarrow> False | Some t \<Rightarrow> op_enabled (lt_tsx t) op \<and> \<not> late_report (lt_tsx t) op)"

lemma reach_exec:
  assumes "env_ok env" "layer_reach env l" "step_allowed l i op"
  shows "layer_reach env (the (layer_exec env l i op))"
proof -
  obtain t where t: "tl_tsx l i = Some t" "op_enabled (lt_tsx t) op" "\<not> late_report (lt_tsx t) op"
    using assms(3) by (auto simp: step_allowed_def split: option.splits)
  then obtain l' where "layer_exec env l i op = Some l'" using layer_exec_ok[OF assms(1) layer_reach_ok[OF assms(2,1)]] by blast
  then show ?thesis using layer_reach.exec[OF assms(2) t] by simp
qed

lemma late_reach: "layer_reach busy_env late_l4"
proof -
  have e: "env_ok busy_env" using demo_env_ok by (simp add: busy_env_def env_ok_def)
  have "layer_reach busy_env late_l0" unfolding late_l0_def by (rule layer_reach.create_uas[OF demo_layer0_reach])
  moreover have "step_allowed late_l0 0 (OpTerminate 500)" by code_simp
  ultimately have "layer_reach busy_env late_l1" unfolding late_l1_def by (rule reach_exec[OF e])
  moreover have "step_allowed late_l1 0 (OpRetransmitNoState (Some demo_ringing))" by code_simp
  ultimately have "layer_reach busy_env late_l2" unfolding late_l2_def by (rule reach_exec[OF e])
  moreover have "step_allowed late_l2 0 (OpTimer TIMEOUT_ENTRY)" by code_simp
  ultimately have "layer_reach busy_env late_l3" unfolding late_l3_def by (rule reach_exec[OF e])
  then show ?thesis unfolding late_l4_def by (rule layer_reach.create_uas)
qed

theorem late_report_unregisters_witness:
  "find_tsx late_l4 (lt_key demo_entry) = Some 1 \<and>
   (\<exists>l'. layer_exec busy_env late_l4 0 (OpTransportDone (SentBytes 9)) = Some l' \<and> find_tsx l' (lt_key demo_entry) = None \<and>
      map_option (\<lambda>t. tsx_state (lt_tsx t)) (tl_tsx l' 1) = Some PJSIP_TSX_STATE_NULL)"
proof -
  have f: "find_tsx late_l4 (lt_key demo_entry) = Some 1"
    "map_option (\<lambda>t. tsx_state (lt_tsx t)) (tl_tsx late_l4 1) = Some PJSIP_TSX_STATE_NULL" by code_simp+
  have "map_option (\<lambda>t. (lt_key t = lt_key demo_entry, tsx_pending_destroy (lt_tsx t))) (tl_tsx late_l4 0) = Some (True, True)"
    by code_simp
  then obtain t where t: "tl_tsx late_l4 0 = Some t" "tsx_pending_destroy (lt_tsx t)" "same_key True (lt_key t) (lt_key demo_entry)"
    by auto
  have e: "env_ok busy_env" using demo_env_ok by (simp add: busy_env_def env_ok_def)
  have "(0::nat) < 9" by simp
  from late_report_unregisters[OF e late_reach t(1,2) this t(3)] f show ?thesis by auto
qed

end
