(* ===== verification/Pj_Scan.thy ===== *)
theory Pj_Scan
  imports Pj_Prelude "HOL-Library.Monad_Syntax"
begin

text \<open>
  The text scanner (\<open>pjlib-util/src/pjlib-util/scanner.c\<close>), the operations that the SDP parser uses. A
  scanner is what is left of its buffer between \<open>curptr\<close> and \<open>end\<close>; the option flags are passed to every
  operation. Reading at the end gives the zero byte that \<open>pj_scan_init\<close> requires there (\<open>cur_char\<close>).
  A syntax error calls the callback of the scanner, which in all parsers throws: it is \<open>None\<close>. The
  line and column, which are only reported, are left out. A character specification is the
  predicate of its characters.
\<close>

section \<open>Bytes and characters\<close>

text \<open>The bytes of a C string literal.\<close>

definition pj_str :: "string \<Rightarrow> u8 list" where
  "pj_str s = map of_char s"

type_synonym scanner = "u8 list"

type_synonym pj_cis = "u8 \<Rightarrow> bool"

definition cur_char :: "scanner \<Rightarrow> u8" where
  "cur_char s = (case s of [] \<Rightarrow> 0 | c # _ \<Rightarrow> c)"

definition PJ_SCAN_AUTOSKIP_WS :: u8 where "PJ_SCAN_AUTOSKIP_WS = 1"
definition PJ_SCAN_AUTOSKIP_WS_HEADER :: u8 where "PJ_SCAN_AUTOSKIP_WS_HEADER = 3"
definition PJ_SCAN_AUTOSKIP_NEWLINE :: u8 where "PJ_SCAN_AUTOSKIP_NEWLINE = 4"

definition is_space :: "u8 \<Rightarrow> bool" where "is_space c \<longleftrightarrow> c = 32 \<or> c = 9"

definition is_newline :: "u8 \<Rightarrow> bool" where "is_newline c \<longleftrightarrow> c = 13 \<or> c = 10"

text \<open>A byte from 128 on is a negative \<open>char\<close>.\<close>

definition is_probably_space :: "u8 \<Rightarrow> bool" where "is_probably_space c \<longleftrightarrow> c \<le> 32 \<or> 128 \<le> c"

definition pj_cis_alpha :: pj_cis where
  "pj_cis_alpha c \<longleftrightarrow> 97 \<le> c \<and> c \<le> 122 \<or> 65 \<le> c \<and> c \<le> 90"

definition pj_cis_num :: pj_cis where "pj_cis_num c \<longleftrightarrow> 48 \<le> c \<and> c \<le> 57"

definition pj_cis_str :: "u8 list \<Rightarrow> pj_cis" where "pj_cis_str str c \<longleftrightarrow> c \<in> set str"

section \<open>The operations\<close>

text \<open>The loop over new lines and white space; a carriage return takes a following line feed.\<close>

fun skip_newlines :: "scanner \<Rightarrow> scanner" where
  "skip_newlines [] = []"
| "skip_newlines (c # s) =
     (if c = 13 then skip_newlines (if s \<noteq> [] \<and> hd s = 10 then tl s else s)
      else if c = 10 \<or> is_space c then skip_newlines s
      else c # s)"

text \<open>A new line followed by white space continues a header; otherwise the scanner stays at the new line.\<close>

definition skip_continuation :: "scanner \<Rightarrow> scanner" where
  "skip_continuation s =
     (let t = (if cur_char s = 13 then tl s else s);
          t = (if t \<noteq> [] \<and> hd t = 10 then tl t else t)
      in if t \<noteq> [] \<and> is_space (hd t) then dropWhile is_space t else s)"

definition pj_scan_skip_whitespace :: "u8 \<Rightarrow> scanner \<Rightarrow> scanner" where
  "pj_scan_skip_whitespace skip_ws s =
     (let s = dropWhile is_space s;
          s = (if s \<noteq> [] \<and> is_newline (hd s) \<and> (skip_ws AND PJ_SCAN_AUTOSKIP_NEWLINE) \<noteq> 0
               then skip_newlines s else s)
      in if s \<noteq> [] \<and> is_newline (hd s) \<and>
            (skip_ws AND PJ_SCAN_AUTOSKIP_WS_HEADER) = PJ_SCAN_AUTOSKIP_WS_HEADER
         then skip_continuation s else s)"

text \<open>What most operations do at their end.\<close>

definition auto_skip :: "u8 \<Rightarrow> scanner \<Rightarrow> scanner" where
  "auto_skip skip_ws s =
     (if s \<noteq> [] \<and> is_probably_space (hd s) \<and> skip_ws \<noteq> 0 then pj_scan_skip_whitespace skip_ws s else s)"

definition pj_scan_init :: "u8 \<Rightarrow> u8 list \<Rightarrow> scanner" where
  "pj_scan_init options buf = (if options \<noteq> 0 then pj_scan_skip_whitespace options buf else buf)"

definition pj_scan_is_eof :: "scanner \<Rightarrow> bool" where
  "pj_scan_is_eof s \<longleftrightarrow> s = []"

definition pj_scan_skip_line :: "scanner \<Rightarrow> scanner" where
  "pj_scan_skip_line s = (case dropWhile (\<lambda>c. c \<noteq> 10) s of [] \<Rightarrow> [] | _ # s' \<Rightarrow> s')"

definition pj_scan_peek :: "pj_cis \<Rightarrow> scanner \<Rightarrow> (u8 \<times> u8 list) option" where
  "pj_scan_peek spec s =
     (if s = [] then None else Some (cur_char (dropWhile spec s), takeWhile spec s))"

definition pj_scan_get :: "u8 \<Rightarrow> pj_cis \<Rightarrow> scanner \<Rightarrow> (u8 list \<times> scanner) option" where
  "pj_scan_get skip_ws spec s =
     (if s = [] \<or> \<not> spec (hd s) then None
      else Some (takeWhile spec s, auto_skip skip_ws (dropWhile spec s)))"

definition pj_scan_get_n :: "u8 \<Rightarrow> nat \<Rightarrow> scanner \<Rightarrow> (u8 list \<times> scanner) option" where
  "pj_scan_get_n skip_ws n s =
     (if n > length s then None else Some (take n s, auto_skip skip_ws (drop n s)))"

definition pj_scan_get_char :: "u8 \<Rightarrow> scanner \<Rightarrow> (u8 \<times> scanner) option" where
  "pj_scan_get_char skip_ws s =
     (if s = [] \<or> hd s = 0 then None else Some (hd s, auto_skip skip_ws (tl s)))"

definition pj_scan_get_newline :: "scanner \<Rightarrow> scanner option" where
  "pj_scan_get_newline s =
     (if s = [] \<or> \<not> is_newline (hd s) then None
      else let s = (if hd s = 13 then tl s else s)
           in Some (if s \<noteq> [] \<and> hd s = 10 then tl s else s))"

definition pj_scan_get_until :: "u8 \<Rightarrow> pj_cis \<Rightarrow> scanner \<Rightarrow> (u8 list \<times> scanner) option" where
  "pj_scan_get_until skip_ws spec s =
     (if s = [] then None
      else Some (takeWhile (\<lambda>c. \<not> spec c) s, auto_skip skip_ws (dropWhile (\<lambda>c. \<not> spec c) s)))"

definition pj_scan_get_until_ch :: "u8 \<Rightarrow> u8 \<Rightarrow> scanner \<Rightarrow> (u8 list \<times> scanner) option" where
  "pj_scan_get_until_ch skip_ws ch = pj_scan_get_until skip_ws (\<lambda>c. c = ch)"

definition pj_scan_get_until_chr :: "u8 \<Rightarrow> u8 list \<Rightarrow> scanner \<Rightarrow> (u8 list \<times> scanner) option" where
  "pj_scan_get_until_chr skip_ws until_spec = pj_scan_get_until skip_ws (\<lambda>c. c \<in> set until_spec)"

definition pj_scan_advance_n :: "u8 \<Rightarrow> nat \<Rightarrow> bool \<Rightarrow> scanner \<Rightarrow> scanner option" where
  "pj_scan_advance_n scan_skip_ws n skip_ws s =
     (if n > length s then None
      else let s = drop n s
           in Some (if s \<noteq> [] \<and> is_probably_space (hd s) \<and> skip_ws
                    then pj_scan_skip_whitespace scan_skip_ws s else s))"

section \<open>What the operations do on a known text\<close>

named_theorems scan_simps \<open>scanner operations on a text split at the place where they stop\<close>

lemma cur_char_simps [scan_simps]: "cur_char [] = 0" "cur_char (c # s) = c"
  by (simp_all add: cur_char_def)

lemma auto_skip_0 [scan_simps]: "auto_skip 0 s = s"
  by (simp add: auto_skip_def)

lemma skip_ws_not_space:
  "s = [] \<or> \<not> is_space (hd s) \<Longrightarrow> pj_scan_skip_whitespace PJ_SCAN_AUTOSKIP_WS s = s"
  by (cases s)
    (auto simp: pj_scan_skip_whitespace_def PJ_SCAN_AUTOSKIP_WS_def PJ_SCAN_AUTOSKIP_NEWLINE_def
      PJ_SCAN_AUTOSKIP_WS_HEADER_def)

lemma auto_skip_not_space [scan_simps]:
  "s = [] \<or> \<not> is_space (hd s) \<Longrightarrow> auto_skip PJ_SCAN_AUTOSKIP_WS s = s"
  using skip_ws_not_space[of s] by (auto simp: auto_skip_def)

lemma auto_skip_blank:
  assumes "s = [] \<or> \<not> is_space (hd s)"
  shows "auto_skip PJ_SCAN_AUTOSKIP_WS (32 # s) = s"
proof -
  have "pj_scan_skip_whitespace PJ_SCAN_AUTOSKIP_WS (32 # s) = pj_scan_skip_whitespace PJ_SCAN_AUTOSKIP_WS s"
    by (simp add: pj_scan_skip_whitespace_def is_space_def)
  then show ?thesis using assms skip_ws_not_space[of s]
    by (simp add: auto_skip_def is_probably_space_def PJ_SCAN_AUTOSKIP_WS_def)
qed

lemma span_all:
  assumes "list_all P xs" "ys = [] \<or> \<not> P (hd ys)"
  shows "takeWhile P (xs @ ys) = xs" "dropWhile P (xs @ ys) = ys"
  using assms by (cases ys; auto simp: list_all_iff takeWhile_append dropWhile_append)+

lemma scan_get_append:
  assumes "list_all spec xs" "xs \<noteq> []" "ys = [] \<or> \<not> spec (hd ys)"
  shows "pj_scan_get sw spec (xs @ ys) = Some (xs, auto_skip sw ys)"
  using assms span_all[OF assms(1,3)] by (cases xs) (simp_all add: pj_scan_get_def)

lemma scan_until_append:
  assumes "list_all (\<lambda>c. \<not> spec c) xs" "ys \<noteq> []" "spec (hd ys)"
  shows "pj_scan_get_until sw spec (xs @ ys) = Some (xs, auto_skip sw ys)"
  using assms span_all[of "\<lambda>c. \<not> spec c" xs ys] by (simp add: pj_scan_get_until_def)

lemma scan_get_char_Cons: "c \<noteq> 0 \<Longrightarrow> pj_scan_get_char sw (c # s) = Some (c, auto_skip sw s)"
  by (simp add: pj_scan_get_char_def)

lemma scan_skip_line_crlf [scan_simps]: "pj_scan_skip_line (13 # 10 # s) = s"
  by (simp add: pj_scan_skip_line_def)

text \<open>No operation makes the text longer, and most make it shorter: the loops of the parsers end.\<close>

lemma skip_newlines_length: "length (skip_newlines s) \<le> length s"
proof (induction s rule: skip_newlines.induct)
  case (2 c s)
  have "length (if s \<noteq> [] \<and> hd s = 10 then tl s else s) \<le> length s" by simp
  then have "c = 13 \<Longrightarrow> length (skip_newlines (if s \<noteq> [] \<and> hd s = 10 then tl s else s)) \<le> length s"
    using 2(1) order_trans by blast
  then show ?case using 2(2) by (simp add: le_SucI)
qed simp

lemma skip_whitespace_length: "length (pj_scan_skip_whitespace sw s) \<le> length s"
proof -
  have d: "length (dropWhile P xs) \<le> length xs" for P and xs :: scanner by (induction xs) auto
  have t: "length (tl xs) \<le> length xs" for xs :: scanner by simp
  have c: "length (skip_continuation t) \<le> length t" for t
    unfolding skip_continuation_def Let_def by (auto intro!: order_trans[OF d] order_trans[OF t] simp del: length_tl)
  define u where "u = (if dropWhile is_space s \<noteq> [] \<and> is_newline (hd (dropWhile is_space s)) \<and>
    (sw AND PJ_SCAN_AUTOSKIP_NEWLINE) \<noteq> 0 then skip_newlines (dropWhile is_space s) else dropWhile is_space s)"
  have "length u \<le> length (dropWhile is_space s)" using skip_newlines_length by (simp add: u_def)
  then have "length u \<le> length s" using d[of is_space s] by simp
  then show ?thesis using c[of u] unfolding pj_scan_skip_whitespace_def Let_def u_def[symmetric] by simp
qed

lemma auto_skip_length: "length (auto_skip sw s) \<le> length s"
  using skip_whitespace_length by (simp add: auto_skip_def)

lemma scan_get_shorter: "pj_scan_get sw spec s = Some (x, s') \<Longrightarrow> length s' < length s"
proof -
  assume a: "pj_scan_get sw spec s = Some (x, s')"
  then obtain c t where s: "s = c # t" "spec c" by (cases s) (auto simp: pj_scan_get_def split: if_splits)
  have "length (dropWhile spec t) \<le> length t" by (induction t) auto
  then show ?thesis using a s auto_skip_length[of sw "dropWhile spec t"] by (auto simp: pj_scan_get_def)
qed

lemma scan_get_char_shorter: "pj_scan_get_char sw s = Some (x, s') \<Longrightarrow> length s' < length s"
  using auto_skip_length[of sw "tl s"] by (cases s) (auto simp: pj_scan_get_char_def split: if_splits)

lemma skip_line_length: "length (pj_scan_skip_line s) \<le> length s"
proof -
  have "length (dropWhile P xs) \<le> length xs" for P and xs :: scanner by (induction xs) auto
  from this[of "\<lambda>c. c \<noteq> 10" s] show ?thesis by (auto simp: pj_scan_skip_line_def split: list.splits)
qed

lemma scan_until_length: "pj_scan_get_until sw spec s = Some (x, s') \<Longrightarrow> length s' \<le> length s"
proof -
  have "length (dropWhile P xs) \<le> length xs" for P and xs :: scanner by (induction xs) auto
  from this[of "\<lambda>c. \<not> spec c" s]
  show "pj_scan_get_until sw spec s = Some (x, s') \<Longrightarrow> length s' \<le> length s"
    using auto_skip_length[of sw "dropWhile (\<lambda>c. \<not> spec c) s"]
    by (auto simp: pj_scan_get_until_def split: if_splits)
qed

end
