(* ===== verification/Sdp.thy ===== *)
theory Sdp
  imports Pj_Scan Pj_Hash Pj_String
begin

text \<open>
  Session descriptions (\<open>pjmedia/src/pjmedia/sdp.c\<close>, \<open>pjmedia/src/pjmedia/sdp_cmp.c\<close>): the data,
  attributes and their interpretation (\<open>rtpmap\<close>, \<open>fmtp\<close>, \<open>rtcp\<close>, \<open>ssrc\<close>), cloning, deactivation,
  validation, media transports and comparison.

  A string is the list of its bytes, and an array with its count is a list; where the code checks
  the count against the size of the array, so does the model. An attribute is found and removed by its
  address, which is its index here: an array holds no attribute twice. \<open>pj_strcmp\<close> is used for equality
  only. The multicast fields of a connection line are left out: nothing reads them, and the parser
  refuses every line that has them. Memory comes from pools that do not fail.
\<close>

section \<open>Data\<close>

definition PJMEDIA_MAX_SDP_FMT :: nat where "PJMEDIA_MAX_SDP_FMT = 32"
definition PJMEDIA_MAX_SDP_BANDW :: nat where "PJMEDIA_MAX_SDP_BANDW = 4"
definition PJMEDIA_MAX_SDP_ATTR :: nat where "PJMEDIA_MAX_SDP_ATTR = PJMEDIA_MAX_SDP_FMT * 2 + 4"
definition PJMEDIA_MAX_SDP_MEDIA :: nat where "PJMEDIA_MAX_SDP_MEDIA = 16"

record pjmedia_sdp_attr =
  a_name :: "u8 list"
  a_value :: "u8 list"

record pjmedia_sdp_rtpmap =
  rm_pt :: "u8 list"
  rm_enc_name :: "u8 list"
  rm_clock_rate :: u32
  rm_param :: "u8 list"

record pjmedia_sdp_fmtp =
  fp_fmt :: "u8 list"
  fp_fmt_param :: "u8 list"

record pjmedia_sdp_rtcp_attr =
  ra_port :: u32
  ra_net_type :: "u8 list"
  ra_addr_type :: "u8 list"
  ra_addr :: "u8 list"

record pjmedia_sdp_ssrc_attr =
  sa_ssrc :: u32
  sa_cname :: "u8 list"

record pjmedia_sdp_conn =
  cn_net_type :: "u8 list"
  cn_addr_type :: "u8 list"
  cn_addr :: "u8 list"

record pjmedia_sdp_bandw =
  bw_modifier :: "u8 list"
  bw_value :: u32

record pjmedia_sdp_media =
  m_media :: "u8 list"
  m_port :: u16
  m_port_count :: u32
  m_transport :: "u8 list"
  m_fmt :: "u8 list list"
  m_conn :: "pjmedia_sdp_conn option"
  m_bandw :: "pjmedia_sdp_bandw list"
  m_attr :: "pjmedia_sdp_attr list"

record sdp_origin =
  o_user :: "u8 list"
  o_id :: u64
  o_version :: u64
  o_net_type :: "u8 list"
  o_addr_type :: "u8 list"
  o_addr :: "u8 list"

record pjmedia_sdp_session =
  s_origin :: sdp_origin
  s_name :: "u8 list"
  s_conn :: "pjmedia_sdp_conn option"
  s_bandw :: "pjmedia_sdp_bandw list"
  s_start :: u64
  s_stop :: u64
  s_attr :: "pjmedia_sdp_attr list"
  s_media :: "pjmedia_sdp_media list"

text \<open>The character specifications of the parser.\<close>

definition cs_digit :: pj_cis where "cs_digit = pj_cis_num"

definition SDP_TOKEN :: "u8 list" where "SDP_TOKEN = pj_str ''!#$%&'' @ [39] @ pj_str ''*+-.^_`{|}~''"

definition cs_token :: pj_cis where
  "cs_token c \<longleftrightarrow> pj_cis_alpha c \<or> pj_cis_num c \<or> pj_cis_str SDP_TOKEN c"

section \<open>Attributes\<close>

definition pjmedia_sdp_attr_create :: "u8 list \<Rightarrow> u8 list option \<Rightarrow> pjmedia_sdp_attr" where
  "pjmedia_sdp_attr_create name value_opt =
     \<lparr>a_name = name, a_value = (case value_opt of None \<Rightarrow> [] | Some v \<Rightarrow> v)\<rparr>"

definition pjmedia_sdp_attr_clone :: "pjmedia_sdp_attr \<Rightarrow> pjmedia_sdp_attr" where
  "pjmedia_sdp_attr_clone rhs = \<lparr>a_name = a_name rhs, a_value = a_value rhs\<rparr>"

text \<open>The test of one attribute: its name, and the number at the start of its value if one is asked for.\<close>

definition attr_matches :: "u8 list \<Rightarrow> u32 option \<Rightarrow> pjmedia_sdp_attr \<Rightarrow> bool" where
  "attr_matches name c_pt a \<longleftrightarrow>
     a_name a = name \<and>
     (case c_pt of
        None \<Rightarrow> True
      | Some c \<Rightarrow> (let (pt, endptr) = pj_strtoul2 (a_value a) 10
                  in endptr \<noteq> a_value a \<and> ucast pt = c))"

fun find_index :: "('a \<Rightarrow> bool) \<Rightarrow> 'a list \<Rightarrow> nat option" where
  "find_index P [] = None"
| "find_index P (x # xs) = (if P x then Some 0 else map_option Suc (find_index P xs))"

text \<open>The index of the attribute found.\<close>

definition pjmedia_sdp_attr_find ::
  "pjmedia_sdp_attr list \<Rightarrow> u8 list \<Rightarrow> u8 list option \<Rightarrow> nat option" where
  "pjmedia_sdp_attr_find attrs name c_fmt =
     (if length attrs > PJMEDIA_MAX_SDP_ATTR then None
      else case c_fmt of
             None \<Rightarrow> find_index (attr_matches name None) attrs
           | Some fmt \<Rightarrow>
               (case pj_strtoul3 fmt 10 of
                  (PJ_SUCCESS, Some ul) \<Rightarrow> find_index (attr_matches name (Some (ucast ul))) attrs
                | _ \<Rightarrow> None))"

definition pjmedia_sdp_attr_add ::
  "pjmedia_sdp_attr list \<Rightarrow> pjmedia_sdp_attr \<Rightarrow> pj_status \<times> pjmedia_sdp_attr list" where
  "pjmedia_sdp_attr_add attrs attr =
     (if length attrs \<ge> PJMEDIA_MAX_SDP_ATTR then (PJ_ETOOMANY, attrs) else (PJ_SUCCESS, attrs @ [attr]))"

definition pjmedia_sdp_attr_remove_all :: "pjmedia_sdp_attr list \<Rightarrow> u8 list \<Rightarrow> pjmedia_sdp_attr list" where
  "pjmedia_sdp_attr_remove_all attrs name =
     (if length attrs > PJMEDIA_MAX_SDP_ATTR then attrs else filter (\<lambda>a. a_name a \<noteq> name) attrs)"

definition pjmedia_sdp_attr_remove ::
  "pjmedia_sdp_attr list \<Rightarrow> nat \<Rightarrow> pj_status \<times> pjmedia_sdp_attr list" where
  "pjmedia_sdp_attr_remove attrs i =
     (if length attrs > PJMEDIA_MAX_SDP_ATTR then (PJ_ETOOMANY, attrs)
      else if i < length attrs then (PJ_SUCCESS, take i attrs @ drop (Suc i) attrs)
      else (PJ_ENOTFOUND, attrs))"

definition rtpmap0 :: pjmedia_sdp_rtpmap where
  "rtpmap0 = \<lparr>rm_pt = [], rm_enc_name = [], rm_clock_rate = 0, rm_param = []\<rparr>"

text \<open>
  What has been filled in before an error stays in the result. In the first two cases the caller's variable is
  not written.
\<close>

definition pjmedia_sdp_attr_get_rtpmap :: "pjmedia_sdp_attr \<Rightarrow> pj_status \<times> pjmedia_sdp_rtpmap" where
  "pjmedia_sdp_attr_get_rtpmap attr =
     (if a_name attr \<noteq> pj_str ''rtpmap'' then (PJ_EINVALIDOP, rtpmap0)
      else if a_value attr = [] then (PJMEDIA_SDP_EINATTR, rtpmap0)
      else case pj_scan_get PJ_SCAN_AUTOSKIP_WS cs_token (pj_scan_init PJ_SCAN_AUTOSKIP_WS (a_value attr)) of
        None \<Rightarrow> (PJMEDIA_SDP_EINRTPMAP, rtpmap0)
      | Some (pt, s) \<Rightarrow>
     (let r = rtpmap0\<lparr>rm_pt := pt\<rparr>
      in case pj_scan_get PJ_SCAN_AUTOSKIP_WS cs_token s of
        None \<Rightarrow> (PJMEDIA_SDP_EINRTPMAP, r)
      | Some (enc_name, s) \<Rightarrow>
     (let r = r\<lparr>rm_enc_name := enc_name\<rparr>
      in case pj_scan_get_char PJ_SCAN_AUTOSKIP_WS s of
        None \<Rightarrow> (PJMEDIA_SDP_EINRTPMAP, r)
      | Some (c, s) \<Rightarrow>
      if c \<noteq> 47 then (PJMEDIA_SDP_EINRTPMAP, r)
      else case pj_scan_get PJ_SCAN_AUTOSKIP_WS cs_digit s of
        None \<Rightarrow> (PJMEDIA_SDP_EINRTPMAP, r)
      | Some (token, s) \<Rightarrow>
     (let r = r\<lparr>rm_clock_rate := ucast (pj_strtoul token)\<rparr>
      in if cur_char s = 47
         then (case pj_scan_get_char PJ_SCAN_AUTOSKIP_WS s of
                 None \<Rightarrow> (PJMEDIA_SDP_EINRTPMAP, r)
               | Some (_, s) \<Rightarrow>
              (case pj_scan_get PJ_SCAN_AUTOSKIP_WS cs_token s of
                 None \<Rightarrow> (PJMEDIA_SDP_EINRTPMAP, r)
               | Some (param, s) \<Rightarrow> (PJ_SUCCESS, r\<lparr>rm_param := param\<rparr>)))
         else (PJ_SUCCESS, r)))))"

definition pjmedia_sdp_attr_get_fmtp :: "pjmedia_sdp_attr \<Rightarrow> pj_status + pjmedia_sdp_fmtp" where
  "pjmedia_sdp_attr_get_fmtp attr =
     (if a_name attr \<noteq> pj_str ''fmtp'' then Inl PJ_EINVALIDOP
      else if a_value attr = [] then Inl PJMEDIA_SDP_EINATTR
      else let token = takeWhile pj_isdigit (a_value attr);
               p = dropWhile pj_isdigit (a_value attr)
           in if token = [] then Inl PJMEDIA_SDP_EINFMTP
              else if cur_char p \<noteq> 32 then Inl PJMEDIA_SDP_EINFMTP
              else Inr \<lparr>fp_fmt = token, fp_fmt_param = tl p\<rparr>)"

definition pjmedia_sdp_attr_get_rtcp :: "pjmedia_sdp_attr \<Rightarrow> pj_status + pjmedia_sdp_rtcp_attr" where
  "pjmedia_sdp_attr_get_rtcp attr =
     (if a_name attr \<noteq> pj_str ''rtcp'' then Inl PJ_EINVALIDOP
      else if a_value attr = [] then Inl PJMEDIA_SDP_EINATTR
      else case do {
        let s = pj_scan_init PJ_SCAN_AUTOSKIP_WS (a_value attr);
        (token, s) \<leftarrow> pj_scan_get PJ_SCAN_AUTOSKIP_WS cs_digit s;
        let port = ucast (pj_strtoul token);
        if port > (0xFFFF :: u32) then None
        else if \<not> pj_scan_is_eof s
        then do {
          (net_type, s) \<leftarrow> pj_scan_get PJ_SCAN_AUTOSKIP_WS cs_token s;
          (addr_type, s) \<leftarrow> pj_scan_get PJ_SCAN_AUTOSKIP_WS cs_token s;
          (addr, s) \<leftarrow> pj_scan_get_until_chr PJ_SCAN_AUTOSKIP_WS [47, 32, 9, 13, 10] s;
          Some \<lparr>ra_port = port, ra_net_type = net_type, ra_addr_type = addr_type, ra_addr = addr\<rparr> }
        else Some \<lparr>ra_port = port, ra_net_type = [], ra_addr_type = [], ra_addr = []\<rparr> } of
          None \<Rightarrow> Inl PJMEDIA_SDP_EINRTCP
        | Some r \<Rightarrow> Inr r)"

text \<open>
  The value is read when \<open>pj_strcmp2\<close> finds a difference, as the code has it. The blank after the number is
  skipped with the number, so the character dropped next is the first one of the attribute's name.
\<close>

definition pjmedia_sdp_attr_get_ssrc :: "pjmedia_sdp_attr \<Rightarrow> pj_status + pjmedia_sdp_ssrc_attr" where
  "pjmedia_sdp_attr_get_ssrc attr =
     (if a_name attr \<noteq> pj_str ''ssrc'' then Inl PJ_EINVALIDOP
      else if a_value attr = [] then Inl PJMEDIA_SDP_EINATTR
      else case do {
        let s = pj_scan_init PJ_SCAN_AUTOSKIP_WS (a_value attr);
        (token, s) \<leftarrow> pj_scan_get PJ_SCAN_AUTOSKIP_WS cs_digit s;
        let ssrc = ucast (pj_strtoul token);
        (_, s) \<leftarrow> pj_scan_get_char PJ_SCAN_AUTOSKIP_WS s;
        (scan_attr, s) \<leftarrow> pj_scan_get PJ_SCAN_AUTOSKIP_WS cs_token s;
        if \<not> pj_scan_is_eof s
        then do {
          (c, s) \<leftarrow> pj_scan_get_char PJ_SCAN_AUTOSKIP_WS s;
          if c = 58 \<and> scan_attr \<noteq> pj_str ''cname''
          then do {
            (cname, s) \<leftarrow> pj_scan_get PJ_SCAN_AUTOSKIP_WS cs_token s;
            Some \<lparr>sa_ssrc = ssrc, sa_cname = cname\<rparr> }
          else Some \<lparr>sa_ssrc = ssrc, sa_cname = []\<rparr> }
        else Some \<lparr>sa_ssrc = ssrc, sa_cname = []\<rparr> } of
          None \<Rightarrow> Inl PJMEDIA_SDP_EINSSRC
        | Some r \<Rightarrow> Inr r)"

text \<open>\<open>%.*s\<close> stops at a zero byte.\<close>

definition pjmedia_sdp_attr_create_ssrc :: "u32 \<Rightarrow> u8 list \<Rightarrow> pjmedia_sdp_attr option" where
  "pjmedia_sdp_attr_create_ssrc ssrc cname =
     (if cname = [] then None
      else Some \<lparr>a_name = pj_str ''ssrc'', a_value = pj_utoa (unat ssrc) @ pj_str '' cname:'' @ c_string cname\<rparr>)"

definition pjmedia_sdp_rtpmap_to_attr :: "pjmedia_sdp_rtpmap \<Rightarrow> pj_status + pjmedia_sdp_attr" where
  "pjmedia_sdp_rtpmap_to_attr rtpmap =
     (if rm_pt rtpmap = [] \<or> rm_enc_name rtpmap = [] \<or> rm_clock_rate rtpmap = 0
      then Inl PJMEDIA_SDP_EINRTPMAP
      else let v = c_string (rm_pt rtpmap) @ [32] @ c_string (rm_enc_name rtpmap) @ [47] @
                   pj_utoa (unat (rm_clock_rate rtpmap)) @
                   (if rm_param rtpmap \<noteq> [] then [47] else []) @ c_string (rm_param rtpmap)
           in if length v < 1 \<or> length v \<ge> 128 then Inl PJMEDIA_SDP_ERTPMAPTOOLONG
              else Inr \<lparr>a_name = pj_str ''rtpmap'', a_value = v\<rparr>)"

section \<open>Connections, media and sessions\<close>

definition pjmedia_sdp_conn_clone :: "pjmedia_sdp_conn \<Rightarrow> pjmedia_sdp_conn" where
  "pjmedia_sdp_conn_clone rhs =
     \<lparr>cn_net_type = cn_net_type rhs, cn_addr_type = cn_addr_type rhs, cn_addr = cn_addr rhs\<rparr>"

definition pjmedia_sdp_bandw_clone :: "pjmedia_sdp_bandw \<Rightarrow> pjmedia_sdp_bandw" where
  "pjmedia_sdp_bandw_clone rhs = \<lparr>bw_modifier = bw_modifier rhs, bw_value = bw_value rhs\<rparr>"

definition pjmedia_sdp_media_clone :: "pjmedia_sdp_media \<Rightarrow> pjmedia_sdp_media" where
  "pjmedia_sdp_media_clone rhs =
     \<lparr>m_media = m_media rhs, m_port = m_port rhs, m_port_count = m_port_count rhs,
      m_transport = m_transport rhs, m_fmt = m_fmt rhs,
      m_conn = map_option pjmedia_sdp_conn_clone (m_conn rhs),
      m_bandw = map pjmedia_sdp_bandw_clone (m_bandw rhs),
      m_attr = map pjmedia_sdp_attr_clone (m_attr rhs)\<rparr>"

definition pjmedia_sdp_session_clone :: "pjmedia_sdp_session \<Rightarrow> pjmedia_sdp_session" where
  "pjmedia_sdp_session_clone rhs =
     \<lparr>s_origin = \<lparr>o_user = o_user (s_origin rhs), o_id = o_id (s_origin rhs),
        o_version = o_version (s_origin rhs), o_net_type = o_net_type (s_origin rhs),
        o_addr_type = o_addr_type (s_origin rhs), o_addr = o_addr (s_origin rhs)\<rparr>,
      s_name = s_name rhs, s_conn = map_option pjmedia_sdp_conn_clone (s_conn rhs),
      s_bandw = map pjmedia_sdp_bandw_clone (s_bandw rhs), s_start = s_start rhs, s_stop = s_stop rhs,
      s_attr = map pjmedia_sdp_attr_clone (s_attr rhs),
      s_media = map pjmedia_sdp_media_clone (s_media rhs)\<rparr>"

definition pjmedia_sdp_media_deactivate :: "pjmedia_sdp_media \<Rightarrow> pjmedia_sdp_media" where
  "pjmedia_sdp_media_deactivate m = m\<lparr>m_port := 0, m_attr := []\<rparr>"

definition pjmedia_sdp_media_clone_deactivate :: "pjmedia_sdp_media \<Rightarrow> pjmedia_sdp_media" where
  "pjmedia_sdp_media_clone_deactivate rhs =
     pjmedia_sdp_media_deactivate
       (rhs\<lparr>m_conn := map_option pjmedia_sdp_conn_clone (m_conn rhs),
            m_bandw := map pjmedia_sdp_bandw_clone (m_bandw rhs)\<rparr>)"

definition pjmedia_sdp_media_find_attr :: "pjmedia_sdp_media \<Rightarrow> u8 list \<Rightarrow> u8 list option \<Rightarrow> nat option" where
  "pjmedia_sdp_media_find_attr m name fmt = pjmedia_sdp_attr_find (m_attr m) name fmt"

definition pjmedia_sdp_media_add_attr :: "pjmedia_sdp_media \<Rightarrow> pjmedia_sdp_attr \<Rightarrow> pjmedia_sdp_media" where
  "pjmedia_sdp_media_add_attr m attr = m\<lparr>m_attr := snd (pjmedia_sdp_attr_add (m_attr m) attr)\<rparr>"

definition pjmedia_sdp_media_remove_all_attr :: "pjmedia_sdp_media \<Rightarrow> u8 list \<Rightarrow> pjmedia_sdp_media" where
  "pjmedia_sdp_media_remove_all_attr m name = m\<lparr>m_attr := pjmedia_sdp_attr_remove_all (m_attr m) name\<rparr>"

definition pjmedia_sdp_media_remove_attr :: "pjmedia_sdp_media \<Rightarrow> nat \<Rightarrow> pjmedia_sdp_media" where
  "pjmedia_sdp_media_remove_attr m i = m\<lparr>m_attr := snd (pjmedia_sdp_attr_remove (m_attr m) i)\<rparr>"

section \<open>Validation\<close>

text \<open>A loop of checks that returns the first error.\<close>

fun first_error :: "('a \<Rightarrow> pj_status) \<Rightarrow> 'a list \<Rightarrow> pj_status" where
  "first_error f [] = PJ_SUCCESS"
| "first_error f (x # xs) = (if f x \<noteq> PJ_SUCCESS then f x else first_error f xs)"

definition validate_sdp_conn :: "pjmedia_sdp_conn \<Rightarrow> pj_status" where
  "validate_sdp_conn c =
     (if cn_net_type c \<noteq> pj_str ''IN'' then PJMEDIA_SDP_EINCONN
      else if cn_addr_type c \<noteq> pj_str ''IP4'' \<and> cn_addr_type c \<noteq> pj_str ''IP6'' then PJMEDIA_SDP_EINCONN
      else if cn_addr c = [] then PJMEDIA_SDP_EINCONN
      else PJ_SUCCESS)"

definition validate_fmt :: "pjmedia_sdp_media \<Rightarrow> u8 list \<Rightarrow> pj_status" where
  "validate_fmt m fmt =
     (if pj_isdigit (cur_char fmt)
      then (case pj_strtoul3 fmt 10 of
              (PJ_SUCCESS, Some pt) \<Rightarrow>
                if pt > 127 then PJMEDIA_SDP_EINPT
                else if m_port m \<noteq> 0 \<and> pt \<ge> 96 \<and>
                        pjmedia_sdp_media_find_attr m (pj_str ''rtpmap'') (Some fmt) = None
                then PJMEDIA_SDP_EMISSINGRTPMAP
                else PJ_SUCCESS
            | _ \<Rightarrow> PJMEDIA_SDP_EINPT)
      else PJ_SUCCESS)"

definition validate_media :: "pjmedia_sdp_session \<Rightarrow> bool \<Rightarrow> pjmedia_sdp_media \<Rightarrow> pj_status" where
  "validate_media sdp strict m =
     (if m_media m = [] then PJMEDIA_SDP_EINMEDIA
      else if m_transport m = [] then PJMEDIA_SDP_EINMEDIA
      else if m_fmt m = [] \<and> m_port m \<noteq> 0 then PJMEDIA_SDP_ENOFMT
      else if m_conn m \<noteq> None \<and> validate_sdp_conn (the (m_conn m)) \<noteq> PJ_SUCCESS
      then validate_sdp_conn (the (m_conn m))
      else if m_conn m = None \<and> s_conn sdp = None \<and> (strict \<or> m_port m \<noteq> 0) then PJMEDIA_SDP_EMISSINGCONN
      else first_error (validate_fmt m) (m_fmt m))"

definition pjmedia_sdp_validate2 :: "pjmedia_sdp_session \<Rightarrow> bool \<Rightarrow> pj_status" where
  "pjmedia_sdp_validate2 sdp strict =
     (if o_user (s_origin sdp) = [] then PJMEDIA_SDP_EINORIGIN
      else if o_net_type (s_origin sdp) \<noteq> pj_str ''IN'' then PJMEDIA_SDP_EINORIGIN
      else if o_addr_type (s_origin sdp) \<noteq> pj_str ''IP4'' \<and> o_addr_type (s_origin sdp) \<noteq> pj_str ''IP6''
      then PJMEDIA_SDP_EINORIGIN
      else if o_addr (s_origin sdp) = [] then PJMEDIA_SDP_EINORIGIN
      else if s_name sdp = [] then PJMEDIA_SDP_EINNAME
      else if s_conn sdp \<noteq> None \<and> validate_sdp_conn (the (s_conn sdp)) \<noteq> PJ_SUCCESS
      then validate_sdp_conn (the (s_conn sdp))
      else first_error (validate_media sdp strict) (s_media sdp))"

definition pjmedia_sdp_validate :: "pjmedia_sdp_session \<Rightarrow> pj_status" where
  "pjmedia_sdp_validate sdp = pjmedia_sdp_validate2 sdp True"

section \<open>Media transports\<close>

definition PJMEDIA_TP_PROTO_NONE :: u32 where "PJMEDIA_TP_PROTO_NONE = 0"
definition PJMEDIA_TP_PROTO_UNKNOWN :: u32 where "PJMEDIA_TP_PROTO_UNKNOWN = push_bit 0 1"
definition PJMEDIA_TP_PROTO_UDP :: u32 where "PJMEDIA_TP_PROTO_UDP = push_bit 1 1"
definition PJMEDIA_TP_PROTO_RTP :: u32 where "PJMEDIA_TP_PROTO_RTP = push_bit 2 1"
definition PJMEDIA_TP_PROTO_DTLS :: u32 where "PJMEDIA_TP_PROTO_DTLS = push_bit 3 1"
definition PJMEDIA_TP_PROFILE_RTCP_FB :: u32 where "PJMEDIA_TP_PROFILE_RTCP_FB = push_bit 13 1"
definition PJMEDIA_TP_PROFILE_SRTP :: u32 where "PJMEDIA_TP_PROFILE_SRTP = push_bit 14 1"
definition PJMEDIA_TP_PROFILE_AVP :: u32 where "PJMEDIA_TP_PROFILE_AVP = push_bit 15 1"
definition PJMEDIA_TP_PROTO_RTP_AVP :: u32 where
  "PJMEDIA_TP_PROTO_RTP_AVP = PJMEDIA_TP_PROTO_RTP OR PJMEDIA_TP_PROFILE_AVP"
definition PJMEDIA_TP_PROTO_RTP_SAVP :: u32 where
  "PJMEDIA_TP_PROTO_RTP_SAVP = PJMEDIA_TP_PROTO_RTP_AVP OR PJMEDIA_TP_PROFILE_SRTP"
definition PJMEDIA_TP_PROTO_DTLS_SRTP :: u32 where
  "PJMEDIA_TP_PROTO_DTLS_SRTP = PJMEDIA_TP_PROTO_DTLS OR PJMEDIA_TP_PROTO_RTP_SAVP"
definition PJMEDIA_TP_PROTO_RTP_AVPF :: u32 where
  "PJMEDIA_TP_PROTO_RTP_AVPF = PJMEDIA_TP_PROTO_RTP_AVP OR PJMEDIA_TP_PROFILE_RTCP_FB"
definition PJMEDIA_TP_PROTO_RTP_SAVPF :: u32 where
  "PJMEDIA_TP_PROTO_RTP_SAVPF = PJMEDIA_TP_PROTO_RTP_SAVP OR PJMEDIA_TP_PROFILE_RTCP_FB"
definition PJMEDIA_TP_PROTO_DTLS_SRTPF :: u32 where
  "PJMEDIA_TP_PROTO_DTLS_SRTPF = PJMEDIA_TP_PROTO_DTLS_SRTP OR PJMEDIA_TP_PROFILE_RTCP_FB"

definition PJMEDIA_TP_PROTO_HAS_FLAG :: "u32 \<Rightarrow> u32 \<Rightarrow> bool" where
  "PJMEDIA_TP_PROTO_HAS_FLAG tp_proto flags \<longleftrightarrow> (tp_proto AND flags) = flags"

definition PJMEDIA_TP_PROTO_TRIM_FLAG :: "u32 \<Rightarrow> u32 \<Rightarrow> u32" where
  "PJMEDIA_TP_PROTO_TRIM_FLAG tp_proto flags = tp_proto AND NOT flags"

text \<open>The start of the token and the token; without a token, the length of the string and what is left of it.\<close>

definition pj_strtok2 :: "u8 list \<Rightarrow> u8 list \<Rightarrow> nat \<Rightarrow> nat \<times> u8 list" where
  "pj_strtok2 str delim start_idx =
     (if str = [] \<or> length str < start_idx then (length str, [])
      else let tok = drop start_idx str;
               str_idx = length (takeWhile (\<lambda>c. c \<in> set delim) tok)
           in if start_idx + str_idx = length str then (length str, tok)
              else (start_idx + str_idx, takeWhile (\<lambda>c. c \<notin> set delim) (drop str_idx tok)))"

definition pjmedia_sdp_transport_get_proto :: "u8 list \<Rightarrow> u32" where
  "pjmedia_sdp_transport_get_proto tp =
     (let (idx, token) = pj_strtok2 tp [47] 0;
          rest = (if idx \<noteq> length tp \<and> length tp \<noteq> length token then drop (length token + 1) tp else [])
      in if stricmp_eq token (pj_str ''RTP'')
         then (if stricmp_eq rest (pj_str ''AVP'') then PJMEDIA_TP_PROTO_RTP_AVP
               else if stricmp_eq rest (pj_str ''SAVP'') then PJMEDIA_TP_PROTO_RTP_SAVP
               else if stricmp_eq rest (pj_str ''AVPF'') then PJMEDIA_TP_PROTO_RTP_AVPF
               else if stricmp_eq rest (pj_str ''SAVPF'') then PJMEDIA_TP_PROTO_RTP_SAVPF
               else PJMEDIA_TP_PROTO_UNKNOWN)
         else if stricmp_eq token (pj_str ''UDP'')
         then (if rest = [] then PJMEDIA_TP_PROTO_UDP
               else if stricmp_eq rest (pj_str ''TLS/RTP/SAVP'') then PJMEDIA_TP_PROTO_DTLS_SRTP
               else if stricmp_eq rest (pj_str ''TLS/RTP/SAVPF'') then PJMEDIA_TP_PROTO_DTLS_SRTPF
               else PJMEDIA_TP_PROTO_UNKNOWN)
         else PJMEDIA_TP_PROTO_UNKNOWN)"

definition pjmedia_sdp_transport_cmp :: "u8 list \<Rightarrow> u8 list \<Rightarrow> pj_status" where
  "pjmedia_sdp_transport_cmp t1 t2 =
     (if stricmp_eq t1 t2 then PJ_SUCCESS
      else if PJMEDIA_TP_PROTO_HAS_FLAG (pjmedia_sdp_transport_get_proto t1) PJMEDIA_TP_PROTO_RTP_AVP \<and>
              PJMEDIA_TP_PROTO_HAS_FLAG (pjmedia_sdp_transport_get_proto t2) PJMEDIA_TP_PROTO_RTP_AVP
      then PJ_SUCCESS
      else PJMEDIA_SDP_ETPORTNOTEQUAL)"

section \<open>Comparison\<close>

definition is_direction :: "u8 list \<Rightarrow> bool" where
  "is_direction name \<longleftrightarrow> name = pj_str ''inactive'' \<or> name = pj_str ''sendrecv'' \<or>
     name = pj_str ''sendonly'' \<or> name = pj_str ''recvonly''"

definition compare_conn :: "pjmedia_sdp_conn \<Rightarrow> pjmedia_sdp_conn \<Rightarrow> pj_status" where
  "compare_conn c1 c2 =
     (if cn_net_type c1 \<noteq> cn_net_type c2 then PJMEDIA_SDP_ECONNNOTEQUAL
      else if cn_addr_type c1 \<noteq> cn_addr_type c2 then PJMEDIA_SDP_ECONNNOTEQUAL
      else if cn_addr c1 \<noteq> cn_addr c2 then PJMEDIA_SDP_ECONNNOTEQUAL
      else PJ_SUCCESS)"

text \<open>One round of the loop of \<open>compare_attr_imp\<close>: the attribute against the other array.\<close>

definition compare_one_attr :: "pjmedia_sdp_attr list \<Rightarrow> pjmedia_sdp_attr \<Rightarrow> pj_status" where
  "compare_one_attr attr2 a1 =
     (if is_direction (a_name a1)
      then (if pjmedia_sdp_attr_find attr2 (a_name a1) None = None then PJMEDIA_SDP_EDIRNOTEQUAL else PJ_SUCCESS)
      else if a_name a1 = pj_str ''fmtp''
      then (case pjmedia_sdp_attr_get_fmtp a1 of
              Inl _ \<Rightarrow> PJMEDIA_SDP_EFMTPNOTEQUAL
            | Inr fmtp1 \<Rightarrow>
           (case pjmedia_sdp_attr_find attr2 (a_name a1) (Some (fp_fmt fmtp1)) of
              None \<Rightarrow> PJMEDIA_SDP_EFMTPNOTEQUAL
            | Some i \<Rightarrow>
           (case pjmedia_sdp_attr_get_fmtp (attr2 ! i) of
              Inl _ \<Rightarrow> PJMEDIA_SDP_EFMTPNOTEQUAL
            | Inr fmtp2 \<Rightarrow>
                if fp_fmt_param fmtp1 \<noteq> fp_fmt_param fmtp2 then PJMEDIA_SDP_EFMTPNOTEQUAL else PJ_SUCCESS)))
      else if a_name a1 = pj_str ''rtpmap''
      then (let (status1, r1) = pjmedia_sdp_attr_get_rtpmap a1
            in if status1 \<noteq> PJ_SUCCESS then PJMEDIA_SDP_ERTPMAPNOTEQUAL
               else case pjmedia_sdp_attr_find attr2 (a_name a1) (Some (rm_pt r1)) of
                 None \<Rightarrow> PJMEDIA_SDP_ERTPMAPNOTEQUAL
               | Some i \<Rightarrow>
              (let (status2, r2) = pjmedia_sdp_attr_get_rtpmap (attr2 ! i)
               in if status2 \<noteq> PJ_SUCCESS then PJMEDIA_SDP_ERTPMAPNOTEQUAL
                  else if rm_pt r1 \<noteq> rm_pt r2 then PJMEDIA_SDP_ERTPMAPNOTEQUAL
                  else if rm_enc_name r1 \<noteq> rm_enc_name r2 then PJMEDIA_SDP_ERTPMAPNOTEQUAL
                  else if rm_clock_rate r1 \<noteq> rm_clock_rate r2 then PJMEDIA_SDP_ERTPMAPNOTEQUAL
                  else if rm_param r1 \<noteq> rm_param r2 then PJMEDIA_SDP_ERTPMAPNOTEQUAL
                  else PJ_SUCCESS))
      else PJ_SUCCESS)"

definition compare_attr_imp :: "pjmedia_sdp_attr list \<Rightarrow> pjmedia_sdp_attr list \<Rightarrow> pj_status" where
  "compare_attr_imp attr1 attr2 = first_error (compare_one_attr attr2) attr1"

definition compare_attr :: "pjmedia_sdp_attr list \<Rightarrow> pjmedia_sdp_attr list \<Rightarrow> pj_status" where
  "compare_attr attr1 attr2 =
     (if compare_attr_imp attr1 attr2 \<noteq> PJ_SUCCESS then compare_attr_imp attr1 attr2
      else compare_attr_imp attr2 attr1)"

text \<open>The comparison of optional connection lines, with the error for one that is missing.\<close>

definition compare_conn_opt :: "pj_status \<Rightarrow> pjmedia_sdp_conn option \<Rightarrow> pjmedia_sdp_conn option \<Rightarrow> pj_status" where
  "compare_conn_opt err c1 c2 =
     (case c1 of
        Some c \<Rightarrow> (case c2 of None \<Rightarrow> err | Some d \<Rightarrow> compare_conn c d)
      | None \<Rightarrow> if c2 \<noteq> None then err else PJ_SUCCESS)"

definition pjmedia_sdp_media_cmp :: "pjmedia_sdp_media \<Rightarrow> pjmedia_sdp_media \<Rightarrow> pj_status" where
  "pjmedia_sdp_media_cmp sd1 sd2 =
     (if m_media sd1 \<noteq> m_media sd2 then PJMEDIA_SDP_EMEDIANOTEQUAL
      else if m_port sd1 \<noteq> m_port sd2 then PJMEDIA_SDP_EPORTNOTEQUAL
      else if m_port_count sd1 \<noteq> m_port_count sd2 then PJMEDIA_SDP_EPORTNOTEQUAL
      else if m_transport sd1 \<noteq> m_transport sd2 then PJMEDIA_SDP_ETPORTNOTEQUAL
      else if m_port sd1 = 0 then PJ_SUCCESS
      else if m_fmt sd1 \<noteq> m_fmt sd2 then PJMEDIA_SDP_EFORMATNOTEQUAL
      else if compare_conn_opt PJMEDIA_SDP_EMEDIANOTEQUAL (m_conn sd1) (m_conn sd2) \<noteq> PJ_SUCCESS
      then compare_conn_opt PJMEDIA_SDP_EMEDIANOTEQUAL (m_conn sd1) (m_conn sd2)
      else compare_attr (m_attr sd1) (m_attr sd2))"

definition pjmedia_sdp_session_cmp :: "pjmedia_sdp_session \<Rightarrow> pjmedia_sdp_session \<Rightarrow> pj_status" where
  "pjmedia_sdp_session_cmp sd1 sd2 =
     (if o_user (s_origin sd1) \<noteq> o_user (s_origin sd2) then PJMEDIA_SDP_EORIGINNOTEQUAL
      else if o_id (s_origin sd1) \<noteq> o_id (s_origin sd2) then PJMEDIA_SDP_EORIGINNOTEQUAL
      else if o_version (s_origin sd1) \<noteq> o_version (s_origin sd2) then PJMEDIA_SDP_EORIGINNOTEQUAL
      else if o_net_type (s_origin sd1) \<noteq> o_net_type (s_origin sd2) then PJMEDIA_SDP_EORIGINNOTEQUAL
      else if o_addr_type (s_origin sd1) \<noteq> o_addr_type (s_origin sd2) then PJMEDIA_SDP_EORIGINNOTEQUAL
      else if o_addr (s_origin sd1) \<noteq> o_addr (s_origin sd2) then PJMEDIA_SDP_EORIGINNOTEQUAL
      else if s_name sd1 \<noteq> s_name sd2 then PJMEDIA_SDP_ENAMENOTEQUAL
      else if compare_conn_opt PJMEDIA_SDP_ECONNNOTEQUAL (s_conn sd1) (s_conn sd2) \<noteq> PJ_SUCCESS
      then compare_conn_opt PJMEDIA_SDP_ECONNNOTEQUAL (s_conn sd1) (s_conn sd2)
      else if s_start sd1 \<noteq> s_start sd2 then PJMEDIA_SDP_ETIMENOTEQUAL
      else if s_stop sd1 \<noteq> s_stop sd2 then PJMEDIA_SDP_ETIMENOTEQUAL
      else if compare_attr (s_attr sd1) (s_attr sd2) \<noteq> PJ_SUCCESS then compare_attr (s_attr sd1) (s_attr sd2)
      else if length (s_media sd1) \<noteq> length (s_media sd2) then PJMEDIA_SDP_EMEDIANOTEQUAL
      else first_error (\<lambda>(m1, m2). pjmedia_sdp_media_cmp m1 m2) (zip (s_media sd1) (s_media sd2)))"

definition pjmedia_sdp_conn_cmp :: "pjmedia_sdp_conn \<Rightarrow> pjmedia_sdp_conn \<Rightarrow> pj_status" where
  "pjmedia_sdp_conn_cmp = compare_conn"

section \<open>Clones are copies\<close>

lemma attr_clone_id [simp]: "pjmedia_sdp_attr_clone a = a"
  by (simp add: pjmedia_sdp_attr_clone_def)

lemma conn_clone_id [simp]: "pjmedia_sdp_conn_clone c = c"
  by (simp add: pjmedia_sdp_conn_clone_def)

lemma bandw_clone_id [simp]: "pjmedia_sdp_bandw_clone b = b"
  by (simp add: pjmedia_sdp_bandw_clone_def)

lemma clone_ids: "pjmedia_sdp_attr_clone = id" "pjmedia_sdp_conn_clone = id" "pjmedia_sdp_bandw_clone = id"
  by (simp_all add: fun_eq_iff)

lemma media_clone_id [simp]: "pjmedia_sdp_media_clone m = m"
  by (simp add: pjmedia_sdp_media_clone_def clone_ids option.map_id)

lemma session_clone_id [simp]: "pjmedia_sdp_session_clone s = s"
proof -
  have "pjmedia_sdp_media_clone = id" by (simp add: fun_eq_iff)
  then show ?thesis by (simp add: pjmedia_sdp_session_clone_def clone_ids option.map_id)
qed

lemma media_clone_deactivate_eq: "pjmedia_sdp_media_clone_deactivate m = pjmedia_sdp_media_deactivate m"
  by (simp add: pjmedia_sdp_media_clone_deactivate_def clone_ids option.map_id)

section \<open>Attribute arrays\<close>

lemma find_index_Some:
  "find_index P xs = Some i \<Longrightarrow> i < length xs \<and> P (xs ! i) \<and> (\<forall>j < i. \<not> P (xs ! j))"
proof (induction xs arbitrary: i)
  case (Cons x xs)
  then show ?case by (cases i) (auto simp: less_Suc_eq_0_disj split: if_splits)
qed simp

lemma find_index_None: "find_index P xs = None \<longleftrightarrow> (\<forall>x \<in> set xs. \<not> P x)"
  by (induction xs) auto

lemma attr_find_Some:
  assumes "pjmedia_sdp_attr_find attrs name fmt = Some i"
  shows "i < length attrs" "a_name (attrs ! i) = name"
proof -
  obtain c where "find_index (attr_matches name c) attrs = Some i"
    using assms by (auto simp: pjmedia_sdp_attr_find_def split: if_splits option.splits prod.splits pj_status.splits)
  then show "i < length attrs" "a_name (attrs ! i) = name"
    using find_index_Some by (fastforce simp: attr_matches_def)+
qed

lemma attr_find_None_fmt:
  "length attrs \<le> PJMEDIA_MAX_SDP_ATTR \<Longrightarrow>
   pjmedia_sdp_attr_find attrs name None = None \<longleftrightarrow> (\<forall>a \<in> set attrs. a_name a \<noteq> name)"
  by (simp add: pjmedia_sdp_attr_find_def find_index_None attr_matches_def)

lemma first_error_iff: "first_error f xs = PJ_SUCCESS \<longleftrightarrow> (\<forall>x \<in> set xs. f x = PJ_SUCCESS)"
  by (induction xs) auto

end
