(* ===== verification/Sdp_Parse.thy ===== *)
theory Sdp_Parse
  imports Sdp
begin

text \<open>
  Printing and parsing session descriptions (\<open>pjmedia/src/pjmedia/sdp.c\<close>). A printer gets the room that is
  left in the buffer and gives the bytes written, or \<open>None\<close> when the code returns \<open>-1\<close>. A line parser gives
  what it read and the rest of the text, or \<open>None\<close> when it throws; the error code is the one that the
  parser of the line has set. A media line beyond the array is dropped, and so is what follows it up to the
  next one.
\<close>

section \<open>Printers\<close>

abbreviation CRLF :: "u8 list" where "CRLF \<equiv> [13, 10]"

definition print_connection_info :: "pjmedia_sdp_conn \<Rightarrow> nat \<Rightarrow> u8 list option" where
  "print_connection_info c len =
     (let out = pj_str ''c='' @ c_string (cn_net_type c) @ [32] @ c_string (cn_addr_type c) @ [32] @
                c_string (cn_addr c) @ CRLF
      in if length out < 1 \<or> length out \<ge> len then None else Some out)"

definition print_bandw :: "pjmedia_sdp_bandw \<Rightarrow> nat \<Rightarrow> u8 list option" where
  "print_bandw bandw len =
     (if len < length (bw_modifier bandw) + 10 + 5 then None
      else Some (pj_str ''b='' @ bw_modifier bandw @ [58] @ pj_utoa (unat (bw_value bandw)) @ CRLF))"

definition print_attr :: "pjmedia_sdp_attr \<Rightarrow> nat \<Rightarrow> u8 list option" where
  "print_attr attr len =
     (if len < length (a_name attr) + length (a_value attr) + 10 then None
      else Some (pj_str ''a='' @ a_name attr @ (if a_value attr \<noteq> [] then 58 # a_value attr else []) @ CRLF))"

text \<open>A loop of printers, each with the room that the ones before it left.\<close>

fun print_all :: "('a \<Rightarrow> nat \<Rightarrow> u8 list option) \<Rightarrow> nat \<Rightarrow> 'a list \<Rightarrow> u8 list option" where
  "print_all f room [] = Some []"
| "print_all f room (x # xs) =
     do { out \<leftarrow> f x room; rest \<leftarrow> print_all f (room - length out) xs; Some (out @ rest) }"

definition print_opt :: "('a \<Rightarrow> nat \<Rightarrow> u8 list option) \<Rightarrow> nat \<Rightarrow> 'a option \<Rightarrow> u8 list option" where
  "print_opt f room x = (case x of None \<Rightarrow> Some [] | Some y \<Rightarrow> f y room)"

definition print_fmt :: "u8 list \<Rightarrow> nat \<Rightarrow> u8 list option" where
  "print_fmt fmt room = (if room > length fmt then Some (32 # fmt) else None)"

definition print_media_desc :: "pjmedia_sdp_media \<Rightarrow> nat \<Rightarrow> u8 list option" where
  "print_media_desc m len =
     (if len < length (m_media m) + length (m_transport m) + 12 + 24 then None
      else do {
        let p = pj_str ''m='' @ m_media m @ [32] @ pj_utoa (unat (m_port m)) @
                (if m_port_count m > 1 then 47 # pj_utoa (unat (m_port_count m)) else []) @
                [32] @ m_transport m;
        fmts \<leftarrow> print_all print_fmt (len - length p) (m_fmt m);
        let p = p @ fmts;
        if len - length p < 2 then None
        else do {
          let p = p @ CRLF;
          conn \<leftarrow> print_opt print_connection_info (len - length p) (m_conn m);
          let p = p @ conn;
          bandw \<leftarrow> print_all print_bandw (len - length p) (m_bandw m);
          let p = p @ bandw;
          attrs \<leftarrow> print_all print_attr (len - length p) (m_attr m);
          Some (p @ attrs) } })"

definition print_session :: "pjmedia_sdp_session \<Rightarrow> nat \<Rightarrow> u8 list option" where
  "print_session ses len =
     (if len < 5 + 2 + length (o_user (s_origin ses)) + 20 + 20 + 3 + length (o_net_type (s_origin ses)) +
               length (o_addr_type (s_origin ses)) + length (o_addr (s_origin ses)) + 2 + 2
      then None
      else do {
        let p = pj_str ''v=0'' @ CRLF @ pj_str ''o='' @ o_user (s_origin ses) @ [32] @
                pj_utoa (unat (o_id (s_origin ses))) @ [32] @ pj_utoa (unat (o_version (s_origin ses))) @ [32] @
                o_net_type (s_origin ses) @ [32] @ o_addr_type (s_origin ses) @ [32] @
                o_addr (s_origin ses) @ CRLF;
        if len - length p < 8 + length (s_name ses) then None
        else do {
          let p = p @ pj_str ''s='' @ s_name ses @ CRLF;
          conn \<leftarrow> print_opt print_connection_info (len - length p) (s_conn ses);
          let p = p @ conn;
          bandw \<leftarrow> print_all print_bandw (len - length p) (s_bandw ses);
          let p = p @ bandw;
          if len - length p < 2 + 20 + 1 + 20 + 2 then None
          else do {
            let p = p @ pj_str ''t='' @ pj_utoa (unat (s_start ses)) @ [32] @ pj_utoa (unat (s_stop ses)) @ CRLF;
            attrs \<leftarrow> print_all print_attr (len - length p) (s_attr ses);
            let p = p @ attrs;
            media \<leftarrow> print_all print_media_desc (len - length p) (s_media ses);
            Some (p @ media) } } })"

definition pjmedia_sdp_print :: "pjmedia_sdp_session \<Rightarrow> nat \<Rightarrow> u8 list option" where
  "pjmedia_sdp_print desc sz = print_session desc sz"

section \<open>Line parsers\<close>

abbreviation SPACES_CRLF :: "u8 list" where "SPACES_CRLF \<equiv> [32, 9, 13, 10]"

definition has_equal_sign :: "scanner \<Rightarrow> bool" where
  "has_equal_sign s \<longleftrightarrow> 1 < length s \<and> s ! 1 = 61"

definition guard_opt :: "bool \<Rightarrow> unit option" where
  "guard_opt b = (if b then Some () else None)"

text \<open>The number that a checked parser returned with success.\<close>

definition number_of_result :: "pj_status \<times> 'a option \<Rightarrow> 'a option" where
  "number_of_result r = (if fst r = PJ_SUCCESS then snd r else None)"

definition parse_version :: "scanner \<Rightarrow> scanner option" where
  "parse_version s =
     do { guard_opt (has_equal_sign s); guard_opt (2 < length s \<and> s ! 2 = 48); Some (pj_scan_skip_line s) }"

definition parse_origin :: "scanner \<Rightarrow> (sdp_origin \<times> scanner) option" where
  "parse_origin s =
     do { guard_opt (has_equal_sign s);
          s \<leftarrow> pj_scan_advance_n 0 2 False s;
          (user, s) \<leftarrow> pj_scan_get_until_ch 0 32 s;
          (_, s) \<leftarrow> pj_scan_get_char 0 s;
          (str, s) \<leftarrow> pj_scan_get_until_ch 0 32 s;
          id \<leftarrow> number_of_result (pj_strtoul4 str 10);
          (_, s) \<leftarrow> pj_scan_get_char 0 s;
          (str, s) \<leftarrow> pj_scan_get_until_ch 0 32 s;
          version \<leftarrow> number_of_result (pj_strtoul4 str 10);
          (_, s) \<leftarrow> pj_scan_get_char 0 s;
          (net_type, s) \<leftarrow> pj_scan_get_until_ch 0 32 s;
          (_, s) \<leftarrow> pj_scan_get_char 0 s;
          (addr_type, s) \<leftarrow> pj_scan_get_until_ch 0 32 s;
          (_, s) \<leftarrow> pj_scan_get_char 0 s;
          (addr, s) \<leftarrow> pj_scan_get_until_chr 0 SPACES_CRLF s;
          Some (\<lparr>o_user = user, o_id = id, o_version = version, o_net_type = net_type,
                 o_addr_type = addr_type, o_addr = addr\<rparr>, pj_scan_skip_line s) }"

definition parse_time :: "scanner \<Rightarrow> ((u64 \<times> u64) \<times> scanner) option" where
  "parse_time s =
     do { guard_opt (has_equal_sign s);
          s \<leftarrow> pj_scan_advance_n 0 2 False s;
          (str, s) \<leftarrow> pj_scan_get_until_ch 0 32 s;
          start \<leftarrow> number_of_result (pj_strtoul4 str 10);
          (_, s) \<leftarrow> pj_scan_get_char 0 s;
          (str, s) \<leftarrow> pj_scan_get_until_chr 0 SPACES_CRLF s;
          stop \<leftarrow> number_of_result (pj_strtoul4 str 10);
          Some ((start, stop), pj_scan_skip_line s) }"

definition parse_generic_line :: "scanner \<Rightarrow> (u8 list \<times> scanner) option" where
  "parse_generic_line s =
     do { guard_opt (has_equal_sign s);
          s \<leftarrow> pj_scan_advance_n 0 2 False s;
          (str, s) \<leftarrow> pj_scan_get_until_chr 0 CRLF s;
          s \<leftarrow> pj_scan_get_newline s;
          Some (str, s) }"

text \<open>The multicast details go into the fields that are left out; a number above 255 is refused.\<close>

definition parse_byte :: "u8 list \<Rightarrow> u64 option" where
  "parse_byte str = do { ul \<leftarrow> number_of_result (pj_strtoul3 str 10); guard_opt (\<not> ul > 255); Some ul }"

definition parse_connection_info :: "scanner \<Rightarrow> (pjmedia_sdp_conn \<times> scanner) option" where
  "parse_connection_info s =
     do { s \<leftarrow> pj_scan_advance_n 0 2 False s;
          (net_type, s) \<leftarrow> pj_scan_get_until_ch 0 32 s;
          (_, s) \<leftarrow> pj_scan_get_char 0 s;
          (addr_type, s) \<leftarrow> pj_scan_get_until_ch 0 32 s;
          (_, s) \<leftarrow> pj_scan_get_char 0 s;
          (addr, s) \<leftarrow> pj_scan_get_until_chr 0 (47 # SPACES_CRLF) s;
          s \<leftarrow> (if cur_char s = 47
               then do { (str, s) \<leftarrow> pj_scan_get_until_chr 0 (47 # SPACES_CRLF) s;
                         ttl \<leftarrow> (if cur_char s = 47 then parse_byte str else Some 0);
                         no_addr \<leftarrow> parse_byte str;
                         Some s }
               else Some s);
          Some (\<lparr>cn_net_type = net_type, cn_addr_type = addr_type, cn_addr = addr\<rparr>, pj_scan_skip_line s) }"

definition parse_bandwidth_info :: "scanner \<Rightarrow> (pjmedia_sdp_bandw \<times> scanner) option" where
  "parse_bandwidth_info s =
     do { s \<leftarrow> pj_scan_advance_n 0 2 False s;
          (modifier, s) \<leftarrow> pj_scan_get_until_ch 0 58 s;
          (_, s) \<leftarrow> pj_scan_get_char 0 s;
          (str, s) \<leftarrow> pj_scan_get_until_chr 0 SPACES_CRLF s;
          ul \<leftarrow> number_of_result (pj_strtoul3 str 10);
          Some (\<lparr>bw_modifier = modifier, bw_value = ucast ul\<rparr>, pj_scan_skip_line s) }"

text \<open>The loop over the formats: formats beyond the array are read and dropped.\<close>

function parse_fmts :: "u8 list list \<Rightarrow> scanner \<Rightarrow> (u8 list list \<times> scanner) option" where
  "parse_fmts fmts s =
     (if s \<noteq> [] \<and> hd s = 32
      then (case pj_scan_get_char 0 s of
              None \<Rightarrow> None
            | Some (_, s) \<Rightarrow>
                if cur_char s = 13 \<or> cur_char s = 10 then Some (fmts, s)
                else (case pj_scan_get 0 cs_token s of
                        None \<Rightarrow> None
                      | Some (fmt, s) \<Rightarrow>
                          parse_fmts (if length fmts < PJMEDIA_MAX_SDP_FMT then fmts @ [fmt] else fmts) s))
      else Some (fmts, s))"
  by pat_completeness auto
termination
  by (relation "measure (\<lambda>(fmts, s). length s)") (auto dest!: scan_get_char_shorter scan_get_shorter)

declare parse_fmts.simps [simp del]

definition parse_media :: "scanner \<Rightarrow> (pjmedia_sdp_media \<times> scanner) option" where
  "parse_media s =
     do { guard_opt (has_equal_sign s);
          s \<leftarrow> pj_scan_advance_n 0 2 False s;
          (media, s) \<leftarrow> pj_scan_get 0 cs_token s;
          (c, s) \<leftarrow> pj_scan_get_char 0 s;
          guard_opt (c = 32);
          (str, s) \<leftarrow> pj_scan_get 0 cs_token s;
          num \<leftarrow> number_of_result (pj_strtoul3 str 10);
          guard_opt (\<not> pj_scan_is_eof s \<and> \<not> num > 0xFFFF);
          let port = ucast num;
          (port_count, s) \<leftarrow>
            (if cur_char s = 47
             then do { (_, s) \<leftarrow> pj_scan_get_char 0 s;
                       (str, s) \<leftarrow> pj_scan_get 0 cs_token s;
                       num \<leftarrow> number_of_result (pj_strtoul3 str 10);
                       Some (ucast num, s) }
             else Some (0, s));
          (c, s) \<leftarrow> pj_scan_get_char 0 s;
          guard_opt (c = 32);
          (transport, s) \<leftarrow> pj_scan_get_until_chr 0 SPACES_CRLF s;
          (fmts, s) \<leftarrow> parse_fmts [] s;
          Some (\<lparr>m_media = media, m_port = port, m_port_count = port_count, m_transport = transport,
                 m_fmt = fmts, m_conn = None, m_bandw = [], m_attr = []\<rparr>, pj_scan_skip_line s) }"

definition parse_attr :: "scanner \<Rightarrow> (pjmedia_sdp_attr \<times> scanner) option" where
  "parse_attr s =
     do { guard_opt (has_equal_sign s);
          s \<leftarrow> pj_scan_advance_n 0 2 False s;
          (name, s) \<leftarrow> pj_scan_get 0 cs_token s;
          (val, s) \<leftarrow>
            (if cur_char s \<noteq> 0 \<and> cur_char s \<noteq> 13 \<and> cur_char s \<noteq> 10
             then do { s \<leftarrow> (if cur_char s = 58 then map_option snd (pj_scan_get_char 0 s) else Some s);
                       if \<not> pj_scan_is_eof s \<and> cur_char s \<noteq> 13 \<and> cur_char s \<noteq> 10
                       then pj_scan_get_until_chr 0 CRLF s
                       else Some ([], s) }
             else Some ([], s));
          Some (\<lparr>a_name = name, a_value = val\<rparr>, pj_scan_skip_line s) }"

section \<open>The whole description\<close>

definition apply_media_direction :: "pjmedia_sdp_session \<Rightarrow> pjmedia_sdp_session" where
  "apply_media_direction sdp =
     (case find_index (\<lambda>a. a_name a = pj_str ''sendonly'' \<or> a_name a = pj_str ''recvonly'' \<or>
                           a_name a = pj_str ''inactive'') (s_attr sdp) of
        None \<Rightarrow> sdp
      | Some i \<Rightarrow>
          sdp\<lparr>s_attr := snd (pjmedia_sdp_attr_remove (s_attr sdp) i),
              s_media := map (\<lambda>m. if list_ex (\<lambda>a. is_direction (a_name a)) (m_attr m) then m
                                  else pjmedia_sdp_media_add_attr m (s_attr sdp ! i)) (s_media sdp)\<rparr>)"

text \<open>The media of the lines that follow: none yet, the last one of the session, or one that was dropped.\<close>

datatype cur_media = NO_MEDIA | LAST_MEDIA | DROPPED_MEDIA

record parse_state =
  ps_session :: pjmedia_sdp_session
  ps_media :: cur_media

definition session0 :: pjmedia_sdp_session where
  "session0 = \<lparr>s_origin = \<lparr>o_user = [], o_id = 0, o_version = 0, o_net_type = [], o_addr_type = [], o_addr = []\<rparr>,
     s_name = [], s_conn = None, s_bandw = [], s_start = 0, s_stop = 0, s_attr = [], s_media = []\<rparr>"

definition upd_media_or_session ::
  "(pjmedia_sdp_media \<Rightarrow> pjmedia_sdp_media) \<Rightarrow> (pjmedia_sdp_session \<Rightarrow> pjmedia_sdp_session) \<Rightarrow>
   parse_state \<Rightarrow> parse_state" where
  "upd_media_or_session f g ps =
     (case ps_media ps of
        NO_MEDIA \<Rightarrow> ps\<lparr>ps_session := g (ps_session ps)\<rparr>
      | LAST_MEDIA \<Rightarrow>
          (let ms = s_media (ps_session ps)
           in ps\<lparr>ps_session := (ps_session ps)\<lparr>s_media := butlast ms @ [f (last ms)]\<rparr>\<rparr>)
      | DROPPED_MEDIA \<Rightarrow> ps)"

definition add_attr_line :: "pjmedia_sdp_attr \<Rightarrow> parse_state \<Rightarrow> parse_state" where
  "add_attr_line attr =
     upd_media_or_session
       (\<lambda>m. if length (m_attr m) < PJMEDIA_MAX_SDP_ATTR then pjmedia_sdp_media_add_attr m attr else m)
       (\<lambda>s. if length (s_attr s) < PJMEDIA_MAX_SDP_ATTR
            then s\<lparr>s_attr := snd (pjmedia_sdp_attr_add (s_attr s) attr)\<rparr> else s)"

definition add_conn_line :: "pjmedia_sdp_conn \<Rightarrow> parse_state \<Rightarrow> parse_state" where
  "add_conn_line conn = upd_media_or_session (\<lambda>m. m\<lparr>m_conn := Some conn\<rparr>) (\<lambda>s. s\<lparr>s_conn := Some conn\<rparr>)"

definition add_bandw_line :: "pjmedia_sdp_bandw \<Rightarrow> parse_state \<Rightarrow> parse_state" where
  "add_bandw_line bandw =
     upd_media_or_session
       (\<lambda>m. if length (m_bandw m) < PJMEDIA_MAX_SDP_BANDW then m\<lparr>m_bandw := m_bandw m @ [bandw]\<rparr> else m)
       (\<lambda>s. if length (s_bandw s) < PJMEDIA_MAX_SDP_BANDW then s\<lparr>s_bandw := s_bandw s @ [bandw]\<rparr> else s)"

definition add_media_line :: "pjmedia_sdp_media \<Rightarrow> parse_state \<Rightarrow> parse_state" where
  "add_media_line media ps =
     (if length (s_media (ps_session ps)) < PJMEDIA_MAX_SDP_MEDIA
      then ps\<lparr>ps_session := (ps_session ps)\<lparr>s_media := s_media (ps_session ps) @ [media]\<rparr>, ps_media := LAST_MEDIA\<rparr>
      else ps\<lparr>ps_media := DROPPED_MEDIA\<rparr>)"

text \<open>A line read by its parser, or the error the parser has set.\<close>

definition line_result ::
  "pj_status \<Rightarrow> ('a \<Rightarrow> parse_state) \<Rightarrow> ('a \<times> scanner) option \<Rightarrow> pj_status + (parse_state \<times> scanner)" where
  "line_result err f r = (case r of None \<Rightarrow> Inl err | Some (x, s) \<Rightarrow> Inr (f x, s))"

definition parse_line :: "parse_state \<Rightarrow> scanner \<Rightarrow> pj_status + (parse_state \<times> scanner)" where
  "parse_line ps s =
     (let cur_name = cur_char s
      in if cur_name = 97 then line_result PJMEDIA_SDP_EINATTR (\<lambda>a. add_attr_line a ps) (parse_attr s)
         else if cur_name = 111
         then line_result PJMEDIA_SDP_EINORIGIN
                (\<lambda>orig. ps\<lparr>ps_session := (ps_session ps)\<lparr>s_origin := orig\<rparr>\<rparr>) (parse_origin s)
         else if cur_name = 115
         then line_result PJMEDIA_SDP_EINSDP
                (\<lambda>str. ps\<lparr>ps_session := (ps_session ps)\<lparr>s_name := str\<rparr>\<rparr>) (parse_generic_line s)
         else if cur_name = 99
         then line_result PJMEDIA_SDP_EINCONN (\<lambda>c. add_conn_line c ps) (parse_connection_info s)
         else if cur_name = 116
         then line_result PJMEDIA_SDP_EINTIME
                (\<lambda>(start, stop). ps\<lparr>ps_session := (ps_session ps)\<lparr>s_start := start, s_stop := stop\<rparr>\<rparr>) (parse_time s)
         else if cur_name = 109 then line_result PJMEDIA_SDP_EINMEDIA (\<lambda>m. add_media_line m ps) (parse_media s)
         else if cur_name = 118
         then line_result PJMEDIA_SDP_EINVER (\<lambda>_. ps) (map_option (Pair ()) (parse_version s))
         else if cur_name = 13 \<or> cur_name = 10
         then (if list_all is_newline (tl s) then Inr (ps, []) else Inl PJMEDIA_SDP_EINSDP)
         else if cur_name = 98
         then line_result PJMEDIA_SDP_EINBANDW (\<lambda>b. add_bandw_line b ps) (parse_bandwidth_info s)
         else if 97 \<le> cur_name \<and> cur_name \<le> 122
         then line_result PJMEDIA_SDP_EINSDP (\<lambda>_. ps) (parse_generic_line s)
         else Inl PJMEDIA_SDP_EINSDP)"

text \<open>Every line is consumed, which ends the loop.\<close>

lemma guard_opt_Some [simp]: "guard_opt b = Some x \<longleftrightarrow> b"
  by (simp add: guard_opt_def)

lemma skip_line_less: "length s < n \<Longrightarrow> length (pj_scan_skip_line s) < n"
  using skip_line_length[of s] by linarith

lemma advance_2_shorter: "pj_scan_advance_n 0 2 False s = Some s' \<Longrightarrow> length s' + 2 = length s"
  by (auto simp: pj_scan_advance_n_def Let_def split: if_splits)

lemma newline_shorter: "pj_scan_get_newline s = Some s' \<Longrightarrow> length s' < length s"
  by (cases s) (auto simp: pj_scan_get_newline_def is_newline_def Let_def split: if_splits)

lemma until_ch_length: "pj_scan_get_until_ch sw c s = Some (x, s') \<Longrightarrow> length s' \<le> length s"
  unfolding pj_scan_get_until_ch_def by (rule scan_until_length)

lemma until_chr_length: "pj_scan_get_until_chr sw cs s = Some (x, s') \<Longrightarrow> length s' \<le> length s"
  unfolding pj_scan_get_until_chr_def by (rule scan_until_length)

lemma parse_fmts_length: "parse_fmts fmts s = Some (x, s') \<Longrightarrow> length s' \<le> length s"
proof (induction fmts s rule: parse_fmts.induct)
  case (1 fmts s)
  show ?case
  proof (cases "s \<noteq> [] \<and> hd s = 32")
    case True
    then obtain c s1 where c: "pj_scan_get_char 0 s = Some (c, s1)" using 1(2)
      by (subst (asm) parse_fmts.simps) (auto split: option.splits)
    then have l1: "length s1 < length s" by (rule scan_get_char_shorter)
    show ?thesis
    proof (cases "cur_char s1 = 13 \<or> cur_char s1 = 10")
      case True
      then show ?thesis using 1(2) c l1 \<open>s \<noteq> [] \<and> hd s = 32\<close>
        by (subst (asm) parse_fmts.simps) auto
    next
      case False
      then obtain fmt s2 where f: "pj_scan_get 0 cs_token s1 = Some (fmt, s2)" using 1(2) True c
        by (subst (asm) parse_fmts.simps) (auto split: option.splits)
      then have "length s2 < length s1" by (rule scan_get_shorter)
      moreover have "length s' \<le> length s2"
        by (rule 1(1)[OF True c refl False f refl]) (use 1(2) True c False f in \<open>subst (asm) parse_fmts.simps, auto\<close>)
      ultimately show ?thesis using l1 by simp
    qed
  next
    case False
    then show ?thesis using 1(2) by (subst (asm) parse_fmts.simps) (auto split: if_splits)
  qed
qed

lemmas line_dests = advance_2_shorter scan_get_shorter scan_get_char_shorter newline_shorter
  until_ch_length until_chr_length parse_fmts_length

lemma parse_version_shorter: "parse_version s = Some s' \<Longrightarrow> length s' < length s"
  unfolding parse_version_def has_equal_sign_def pj_scan_skip_line_def
  using length_dropWhile_le[of "\<lambda>c. c \<noteq> 10" s]
  by (auto simp: bind_eq_Some_conv split: list.splits)

lemma parse_origin_shorter: "parse_origin s = Some (x, s') \<Longrightarrow> length s' < length s"
  unfolding parse_origin_def by (auto simp: bind_eq_Some_conv dest!: line_dests intro!: skip_line_less)

lemma parse_time_shorter: "parse_time s = Some (x, s') \<Longrightarrow> length s' < length s"
  unfolding parse_time_def by (auto simp: bind_eq_Some_conv dest!: line_dests intro!: skip_line_less)

lemma parse_generic_line_shorter: "parse_generic_line s = Some (x, s') \<Longrightarrow> length s' < length s"
  unfolding parse_generic_line_def by (auto simp: bind_eq_Some_conv dest!: line_dests)

lemma parse_connection_info_shorter: "parse_connection_info s = Some (x, s') \<Longrightarrow> length s' < length s"
  unfolding parse_connection_info_def
  by (auto simp: bind_eq_Some_conv split: if_splits dest!: line_dests intro!: skip_line_less)

lemma parse_bandwidth_info_shorter: "parse_bandwidth_info s = Some (x, s') \<Longrightarrow> length s' < length s"
  unfolding parse_bandwidth_info_def by (auto simp: bind_eq_Some_conv dest!: line_dests intro!: skip_line_less)

lemma parse_media_shorter: "parse_media s = Some (x, s') \<Longrightarrow> length s' < length s"
  unfolding parse_media_def Let_def
  by (auto simp: bind_eq_Some_conv split: if_splits dest!: line_dests intro!: skip_line_less)

lemma parse_attr_shorter: "parse_attr s = Some (x, s') \<Longrightarrow> length s' < length s"
  unfolding parse_attr_def
  by (auto simp: bind_eq_Some_conv split: if_splits dest!: line_dests intro!: skip_line_less)

lemma parse_line_shorter:
  assumes "parse_line ps s = Inr (ps', s')" "s \<noteq> []"
  shows "length s' < length s"
  using assms unfolding parse_line_def Let_def line_result_def
  by (auto split: if_splits option.splits dest!: parse_attr_shorter parse_origin_shorter parse_generic_line_shorter
      parse_connection_info_shorter parse_time_shorter parse_media_shorter parse_version_shorter
      parse_bandwidth_info_shorter)

function parse_lines :: "parse_state \<Rightarrow> scanner \<Rightarrow> pj_status + pjmedia_sdp_session" where
  "parse_lines ps s =
     (if s = [] then Inr (ps_session ps)
      else case parse_line ps s of
             Inl err \<Rightarrow> Inl err
           | Inr (ps, s) \<Rightarrow> parse_lines ps s)"
  by pat_completeness auto
termination
  by (relation "measure (\<lambda>(ps, s). length s)") (auto dest: parse_line_shorter)

declare parse_lines.simps [simp del]

definition pjmedia_sdp_parse :: "u8 list \<Rightarrow> pj_status + pjmedia_sdp_session" where
  "pjmedia_sdp_parse buf =
     (case parse_lines \<lparr>ps_session = session0, ps_media = NO_MEDIA\<rparr> (dropWhile is_newline buf) of
        Inl err \<Rightarrow> Inl err
      | Inr session \<Rightarrow> Inr (apply_media_direction session))"

section \<open>Numbers in lines\<close>

lemma strtoul3_utoa: "v < 2 ^ 64 \<Longrightarrow> pj_strtoul3 (pj_utoa v) 10 = (PJ_SUCCESS, Some (of_nat v))"
proof -
  assume v: "v < 2 ^ 64"
  have d: "list_all pj_isdigit (pj_utoa v)" by (rule utoa_ok(2))
  have "\<not> pj_isspace c" if "pj_isdigit c" for c
  proof -
    have "48 \<le> unat c" using that by (simp add: pj_isdigit_def word_le_nat_alt)
    then show ?thesis by (auto simp: pj_isspace_def word_le_nat_alt)
  qed
  then have "pj_strltrim (pj_utoa v) = pj_utoa v"
    using d utoa_ok(1)[of v] unfolding pj_strltrim_def by (cases "pj_utoa v") auto
  then have r: "pj_strtoul3 (pj_utoa v) 10 = unsigned_result 10 (takeWhile pj_isdigit (pj_utoa v))"
    using strtoul3_spec[of 10 "pj_utoa v"] by (simp add: base_digit_10)
  have tw: "takeWhile pj_isdigit (pj_utoa v) = pj_utoa v" using d by (simp add: list_all_iff)
  show ?thesis unfolding r tw unsigned_result_def using v utoa_ok(1,3)[of v] by simp
qed

lemma number_utoa [simp]:
  "number_of_result (pj_strtoul3 (pj_utoa (unat (w :: u64))) 10) = Some w"
  "number_of_result (pj_strtoul4 (pj_utoa (unat (w :: u64))) 10) = Some w"
  using strtoul3_utoa[of "unat w"] unat64_lt[of w]
  by (simp_all add: number_of_result_def pj_strtoul3_def pj_strtoul4_def)

lemma number_utoa_small:
  "v < 2 ^ 64 \<Longrightarrow> number_of_result (pj_strtoul3 (pj_utoa v) 10) = Some (of_nat v)"
  using strtoul3_utoa[of v] by (simp add: number_of_result_def)

lemma unat32_lt: "unat (w :: u32) < 2 ^ 64" "unat (p :: u16) < 2 ^ 64" "unat p \<le> 65535"
  using unsigned_less[of w, where ?'a = nat] unsigned_less[of p, where ?'a = nat] by simp_all

lemma ucast_up_down [simp]: "ucast (ucast (w :: u32) :: u64) = w" "ucast (ucast (p :: u16) :: u64) = p"
proof -
  have "bit (ucast (ucast w :: u64) :: u32) n = bit w n" if "n < 32" for n using that by (simp add: bit_simps)
  then show "ucast (ucast (w :: u32) :: u64) = w" by (intro bit_word_eqI) simp
  have "bit (ucast (ucast p :: u64) :: u16) n = bit p n" if "n < 16" for n using that by (simp add: bit_simps)
  then show "ucast (ucast (p :: u16) :: u64) = p" by (intro bit_word_eqI) simp
qed

lemma ucast_of_nat_unat: "ucast (of_nat (unat (w :: u32)) :: u64) = w" "ucast (of_nat (unat (p :: u16)) :: u64) = p"
  using unat32_lt(1)[of w] unat32_lt(2)[of p] by (simp_all add: unsigned_of_nat take_bit_nat_eq_self)

lemma port_not_big: "\<not> (of_nat (unat (p :: u16)) :: u64) > 0xFFFF"
proof -
  have "unat (of_nat (unat p) :: u64) = unat p" using unat32_lt(2)[of p] by (rule unat64_of_nat)
  then show ?thesis using unat32_lt(3)[of p] by (simp add: word_less_nat_alt)
qed

section \<open>What can be printed and read back\<close>

definition no_chars :: "u8 list \<Rightarrow> u8 list \<Rightarrow> bool" where
  "no_chars bad xs \<longleftrightarrow> list_all (\<lambda>c. c \<notin> set bad) xs"

definition is_token :: "u8 list \<Rightarrow> bool" where
  "is_token xs \<longleftrightarrow> xs \<noteq> [] \<and> list_all cs_token xs"

definition attr_ok :: "pjmedia_sdp_attr \<Rightarrow> bool" where
  "attr_ok a \<longleftrightarrow> is_token (a_name a) \<and> no_chars CRLF (a_value a)"

definition conn_ok :: "pjmedia_sdp_conn \<Rightarrow> bool" where
  "conn_ok c \<longleftrightarrow> no_chars [0, 32] (cn_net_type c) \<and> no_chars [0, 32] (cn_addr_type c) \<and>
     no_chars (0 # 47 # SPACES_CRLF) (cn_addr c)"

definition bandw_ok :: "pjmedia_sdp_bandw \<Rightarrow> bool" where
  "bandw_ok b \<longleftrightarrow> no_chars [58] (bw_modifier b)"

definition origin_ok :: "sdp_origin \<Rightarrow> bool" where
  "origin_ok r \<longleftrightarrow> no_chars [32] (o_user r) \<and> no_chars [32] (o_net_type r) \<and> no_chars [32] (o_addr_type r) \<and>
     no_chars SPACES_CRLF (o_addr r)"

text \<open>
  A port count of one is left out: the printer writes a count from two on only, and a line without a count is read
  as count zero.
\<close>

definition media_ok :: "pjmedia_sdp_media \<Rightarrow> bool" where
  "media_ok m \<longleftrightarrow> is_token (m_media m) \<and> m_port_count m \<noteq> 1 \<and> no_chars SPACES_CRLF (m_transport m) \<and>
     list_all is_token (m_fmt m) \<and> length (m_fmt m) \<le> PJMEDIA_MAX_SDP_FMT \<and>
     pred_option conn_ok (m_conn m) \<and>
     list_all bandw_ok (m_bandw m) \<and> length (m_bandw m) \<le> PJMEDIA_MAX_SDP_BANDW \<and>
     list_all attr_ok (m_attr m) \<and> length (m_attr m) \<le> PJMEDIA_MAX_SDP_ATTR"

definition session_ok :: "pjmedia_sdp_session \<Rightarrow> bool" where
  "session_ok s \<longleftrightarrow> origin_ok (s_origin s) \<and> no_chars CRLF (s_name s) \<and> pred_option conn_ok (s_conn s) \<and>
     list_all bandw_ok (s_bandw s) \<and> length (s_bandw s) \<le> PJMEDIA_MAX_SDP_BANDW \<and>
     list_all attr_ok (s_attr s) \<and> length (s_attr s) \<le> PJMEDIA_MAX_SDP_ATTR \<and>
     list_all media_ok (s_media s) \<and> length (s_media s) \<le> PJMEDIA_MAX_SDP_MEDIA"

text \<open>The text of each part, without the limits of the buffer.\<close>

definition conn_text :: "pjmedia_sdp_conn \<Rightarrow> u8 list" where
  "conn_text c = [99, 61] @ c_string (cn_net_type c) @ 32 # c_string (cn_addr_type c) @ 32 #
     c_string (cn_addr c) @ 13 # [10]"

definition bandw_text :: "pjmedia_sdp_bandw \<Rightarrow> u8 list" where
  "bandw_text b = [98, 61] @ bw_modifier b @ 58 # pj_utoa (unat (bw_value b)) @ 13 # [10]"

definition attr_text :: "pjmedia_sdp_attr \<Rightarrow> u8 list" where
  "attr_text a = [97, 61] @ a_name a @ (if a_value a \<noteq> [] then 58 # a_value a else []) @ 13 # [10]"

definition opt_text :: "('a \<Rightarrow> u8 list) \<Rightarrow> 'a option \<Rightarrow> u8 list" where
  "opt_text f x = (case x of None \<Rightarrow> [] | Some y \<Rightarrow> f y)"

definition media_line :: "pjmedia_sdp_media \<Rightarrow> u8 list" where
  "media_line m = [109, 61] @ m_media m @ 32 # pj_utoa (unat (m_port m)) @
     (if m_port_count m > 1 then 47 # pj_utoa (unat (m_port_count m)) else []) @ 32 # m_transport m @
     concat (map (Cons 32) (m_fmt m)) @ 13 # [10]"

definition media_text :: "pjmedia_sdp_media \<Rightarrow> u8 list" where
  "media_text m = media_line m @ opt_text conn_text (m_conn m) @ concat (map bandw_text (m_bandw m)) @
     concat (map attr_text (m_attr m))"

definition origin_line :: "sdp_origin \<Rightarrow> u8 list" where
  "origin_line r = [111, 61] @ o_user r @ 32 # pj_utoa (unat (o_id r)) @ 32 # pj_utoa (unat (o_version r)) @ 32 #
     o_net_type r @ 32 # o_addr_type r @ 32 # o_addr r @ 13 # [10]"

definition session_text :: "pjmedia_sdp_session \<Rightarrow> u8 list" where
  "session_text s = [118, 61, 48, 13, 10] @ origin_line (s_origin s) @ [115, 61] @ s_name s @ 13 # 10 #
     opt_text conn_text (s_conn s) @ concat (map bandw_text (s_bandw s)) @
     [116, 61] @ pj_utoa (unat (s_start s)) @ 32 # pj_utoa (unat (s_stop s)) @ 13 # 10 #
     concat (map attr_text (s_attr s)) @ concat (map media_text (s_media s))"

lemma print_all_text:
  assumes "print_all f room xs = Some out" "\<And>x r out. f x r = Some out \<Longrightarrow> out = g x"
  shows "out = concat (map g xs)"
  using assms(1)
proof (induction xs arbitrary: room out)
  case (Cons x xs)
  then show ?case using assms(2) by (auto simp: bind_eq_Some_conv)
qed simp

lemma print_conn_text: "print_connection_info c room = Some out \<Longrightarrow> out = conn_text c"
  by (auto simp: print_connection_info_def conn_text_def pj_str_def Let_def split: if_splits)

lemma print_bandw_text: "print_bandw b room = Some out \<Longrightarrow> out = bandw_text b"
  by (auto simp: print_bandw_def bandw_text_def pj_str_def split: if_splits)

lemma print_attr_text: "print_attr a room = Some out \<Longrightarrow> out = attr_text a"
  by (auto simp: print_attr_def attr_text_def pj_str_def split: if_splits)

lemma print_fmt_text: "print_fmt x room = Some out \<Longrightarrow> out = 32 # x"
  by (auto simp: print_fmt_def split: if_splits)

lemma print_opt_conn_text: "print_opt print_connection_info room c = Some out \<Longrightarrow> out = opt_text conn_text c"
  using print_conn_text by (auto simp: print_opt_def opt_text_def split: option.splits)

lemma print_lists_text:
  "print_all print_bandw room bs = Some out \<Longrightarrow> out = concat (map bandw_text bs)"
  "print_all print_attr room as = Some out \<Longrightarrow> out = concat (map attr_text as)"
  "print_all print_fmt room fs = Some out \<Longrightarrow> out = concat (map (Cons 32) fs)"
  by (erule print_all_text, erule print_bandw_text print_attr_text print_fmt_text)+

lemma print_media_text: "print_media_desc m room = Some out \<Longrightarrow> out = media_text m"
  unfolding print_media_desc_def Let_def media_text_def media_line_def
  by (auto simp: bind_eq_Some_conv pj_str_def split: if_splits dest!: print_opt_conn_text print_lists_text)

lemma print_media_lists_text: "print_all print_media_desc room ms = Some out \<Longrightarrow> out = concat (map media_text ms)"
  by (erule print_all_text, erule print_media_text)

lemma print_session_text: "print_session s room = Some out \<Longrightarrow> out = session_text s"
  unfolding print_session_def Let_def session_text_def origin_line_def
  by (auto simp: bind_eq_Some_conv pj_str_def split: if_splits dest!: print_opt_conn_text print_lists_text print_media_lists_text)

section \<open>Each line is read back\<close>

lemma cs_token_separators: "\<not> cs_token 13" "\<not> cs_token 10" "\<not> cs_token 32" "\<not> cs_token 58" "\<not> cs_token 47" "\<not> cs_token 0"
  by (simp_all add: cs_token_def pj_cis_alpha_def pj_cis_num_def pj_cis_str_def SDP_TOKEN_def pj_str_def)

lemma digit_token: "pj_isdigit c \<Longrightarrow> cs_token c"
  by (simp add: cs_token_def pj_cis_num_def pj_isdigit_def)

lemma token_utoa: "list_all cs_token (pj_utoa v)" "pj_utoa v \<noteq> []"
  using utoa_ok(1,2)[of v] digit_token by (auto simp: list_all_iff)

lemma utoa_no_chars: "48 \<notin> set bad \<Longrightarrow> list_all (\<lambda>c. \<not> pj_isdigit c) bad \<Longrightarrow> no_chars bad (pj_utoa v)"
  using utoa_ok(2)[of v] by (auto simp: list_all_iff no_chars_def)

lemma separators_no_digits:
  "\<not> pj_isdigit 32" "\<not> pj_isdigit 9" "\<not> pj_isdigit 13" "\<not> pj_isdigit 10" "\<not> pj_isdigit 58" "\<not> pj_isdigit 47"
  by (simp_all add: pj_isdigit_def)

text \<open>The scanner on a part of a line and what follows it.\<close>

named_theorems line_simps \<open>scanner operations on printed lines\<close>

lemma get_token_line [line_simps]:
  "list_all cs_token xs \<Longrightarrow> xs \<noteq> [] \<Longrightarrow> \<not> cs_token c \<Longrightarrow> pj_scan_get 0 cs_token (xs @ c # s) = Some (xs, c # s)"
  using scan_get_append[of cs_token xs "c # s" 0] by (simp add: auto_skip_0)

lemma until_ch_line [line_simps]:
  "no_chars bad xs \<Longrightarrow> c \<in> set bad \<Longrightarrow> pj_scan_get_until_ch 0 c (xs @ c # s) = Some (xs, c # s)"
  using scan_until_append[of "\<lambda>d. d = c" xs "c # s" 0]
  by (auto simp: auto_skip_0 pj_scan_get_until_ch_def no_chars_def list_all_iff)

lemma until_chr_line [line_simps]:
  "no_chars bad xs \<Longrightarrow> c \<in> set cs \<Longrightarrow> set cs \<subseteq> set bad \<Longrightarrow>
   pj_scan_get_until_chr 0 cs (xs @ c # s) = Some (xs, c # s)"
  using scan_until_append[of "\<lambda>d. d \<in> set cs" xs "c # s" 0]
  by (auto simp: auto_skip_0 pj_scan_get_until_chr_def no_chars_def list_all_iff)

lemma get_char_line [line_simps]: "c \<noteq> 0 \<Longrightarrow> pj_scan_get_char 0 (c # s) = Some (c, s)"
  by (simp add: scan_get_char_Cons auto_skip_0)

lemma advance_line [line_simps]: "pj_scan_advance_n 0 2 False (a # b # s) = Some s"
  by (simp add: pj_scan_advance_n_def)

lemma equal_sign_line [line_simps]: "has_equal_sign (a # 61 # s)"
  by (simp add: has_equal_sign_def)

lemma newline_line [line_simps]: "pj_scan_get_newline (13 # 10 # s) = Some s"
  by (simp add: pj_scan_get_newline_def is_newline_def)

lemma guard_line [line_simps]: "guard_opt b = (if b then Some () else None)"
  by (simp add: guard_opt_def)

lemmas line_facts = line_simps scan_skip_line_crlf cur_char_simps cs_token_separators

lemma c_string_no_chars: "no_chars bad xs \<Longrightarrow> 0 \<in> set bad \<Longrightarrow> c_string xs = xs"
  by (auto simp: c_string_def no_chars_def list_all_iff takeWhile_eq_all_conv)

lemma utoa_line:
  "no_chars [58] (pj_utoa v)" "no_chars [32] (pj_utoa v)" "no_chars SPACES_CRLF (pj_utoa v)"
  using utoa_no_chars[of "[58]" v] utoa_no_chars[of "[32]" v] utoa_no_chars[of SPACES_CRLF v]
  by (simp_all add: separators_no_digits)

lemma parse_conn_text: "conn_ok c \<Longrightarrow> parse_connection_info (conn_text c @ rest) = Some (c, rest)"
  unfolding parse_connection_info_def conn_text_def conn_ok_def
  by (simp add: c_string_no_chars[of "[0, 32]"] c_string_no_chars[of "0 # 47 # SPACES_CRLF"] line_facts
      until_ch_line[of "[0, 32]"] until_chr_line[of "0 # 47 # SPACES_CRLF"])

lemma parse_bandw_text: "bandw_ok b \<Longrightarrow> parse_bandwidth_info (bandw_text b @ rest) = Some (b, rest)"
  unfolding parse_bandwidth_info_def bandw_text_def bandw_ok_def
  using unat32_lt(1)[of "bw_value b"]
  by (simp add: line_facts until_ch_line[of "[58]"] until_chr_line[of SPACES_CRLF] utoa_line number_utoa_small
      ucast_of_nat_unat)

lemma parse_attr_text: "attr_ok a \<Longrightarrow> parse_attr (attr_text a @ rest) = Some (a, rest)"
proof (cases "a_value a")
  case Nil
  then show "attr_ok a \<Longrightarrow> ?thesis" unfolding parse_attr_def attr_text_def attr_ok_def is_token_def
    by (simp add: line_facts)
next
  case (Cons c cs)
  assume "attr_ok a"
  then have "is_token (a_name a)" "no_chars CRLF (a_value a)" "c \<noteq> 13" "c \<noteq> 10"
    using Cons by (auto simp: attr_ok_def no_chars_def)
  then show ?thesis unfolding parse_attr_def attr_text_def is_token_def
    using until_chr_line[of CRLF "a_value a" 13 CRLF "10 # rest"] Cons
    by (simp add: line_facts pj_scan_is_eof_def)
qed

lemma parse_origin_line: "origin_ok r \<Longrightarrow> parse_origin (origin_line r @ rest) = Some (r, rest)"
  unfolding parse_origin_def origin_line_def origin_ok_def
  by (simp add: line_facts until_ch_line[of "[32]"] until_chr_line[of SPACES_CRLF] utoa_line)

lemma parse_time_line:
  "parse_time ([116, 61] @ pj_utoa (unat x) @ 32 # pj_utoa (unat y) @ 13 # 10 # rest) = Some ((x, y), rest)"
  unfolding parse_time_def
  by (simp add: line_facts until_ch_line[of "[32]"] until_chr_line[of SPACES_CRLF] utoa_line)

lemma parse_name_line:
  "no_chars CRLF x \<Longrightarrow> parse_generic_line ([115, 61] @ x @ 13 # 10 # rest) = Some (x, rest)"
  unfolding parse_generic_line_def by (simp add: line_facts until_chr_line[of CRLF])

lemma parse_version_line: "parse_version ([118, 61, 48, 13, 10] @ rest) = Some rest"
  by (simp add: parse_version_def line_facts pj_scan_skip_line_def)

lemma parse_fmts_text:
  "list_all is_token xs \<Longrightarrow> length fmts + length xs \<le> PJMEDIA_MAX_SDP_FMT \<Longrightarrow>
   parse_fmts fmts (concat (map (Cons 32) xs) @ 13 # rest) = Some (fmts @ xs, 13 # rest)"
proof (induction xs arbitrary: fmts)
  case (Cons x xs)
  obtain c s where s: "concat (map (Cons 32) xs) @ 13 # rest = c # s" "\<not> cs_token c"
    by (cases xs) (auto simp: cs_token_separators)
  have x: "x \<noteq> []" "list_all cs_token x" using Cons.prems by (simp_all add: is_token_def)
  then have "cur_char (x @ c # s) \<noteq> 13" "cur_char (x @ c # s) \<noteq> 10"
    using cs_token_separators by (cases x; auto simp: cur_char_simps)+
  then show ?case using Cons x s
    by (subst parse_fmts.simps) (simp add: line_facts)
qed (subst parse_fmts.simps, simp)

lemma parse_media_line:
  assumes "media_ok m"
  shows "parse_media (media_line m @ rest) = Some (m\<lparr>m_conn := None, m_bandw := [], m_attr := []\<rparr>, rest)"
proof -
  note ok = assms[unfolded media_ok_def is_token_def]
  obtain c s where s: "concat (map (Cons 32) (m_fmt m)) @ 13 # 10 # rest = c # s" "c = 32 \<or> c = 13"
    by (cases "m_fmt m") auto
  have f: "parse_fmts [] (c # s) = Some (m_fmt m, 13 # 10 # rest)"
    using parse_fmts_text[of "m_fmt m" "[]" "10 # rest"] assms s by (simp add: media_ok_def)
  have t: "pj_scan_get_until_chr 0 SPACES_CRLF (m_transport m @ c # s) = Some (m_transport m, c # s)"
    using ok s by (intro until_chr_line[of SPACES_CRLF]) auto
  have pc: "m_port_count m = 0" if "\<not> m_port_count m > 1"
  proof -
    have "unat (m_port_count m) \<le> 1" using that by (simp add: not_less word_le_nat_alt)
    moreover have "unat (m_port_count m) \<noteq> unat (1 :: u32)" using ok by (metis word_unat_eq_iff)
    ultimately have "unat (m_port_count m) = 0" by simp
    then show ?thesis by (simp add: unat_eq_zero)
  qed
  have "parse_media (media_line m @ rest) = Some (m\<lparr>m_conn := None, m_bandw := [], m_attr := []\<rparr>, rest)"
    using ok f t unat32_lt(1)[of "m_port_count m"] unat32_lt(2)[of "m_port m"] port_not_big[of "m_port m"] token_utoa pc
    unfolding parse_media_def media_line_def Let_def
    by (simp add: line_facts s(1) number_utoa_small ucast_of_nat_unat pj_scan_is_eof_def)
  then show ?thesis .
qed

section \<open>The whole description is read back\<close>

lemma parse_lines_step:
  "parse_line ps s = Inr (ps', s') \<Longrightarrow> s \<noteq> [] \<Longrightarrow> parse_lines ps s = parse_lines ps' s'"
  by (subst parse_lines.simps) simp

lemma line_heads:
  "cur_char (attr_text a @ t) = 97" "cur_char (bandw_text b @ t) = 98" "cur_char (conn_text c @ t) = 99"
  "cur_char (media_line m @ t) = 109" "cur_char (origin_line r @ t) = 111"
  "attr_text a \<noteq> []" "bandw_text b \<noteq> []" "conn_text c \<noteq> []" "media_line m \<noteq> []" "origin_line r \<noteq> []"
  by (simp_all add: attr_text_def bandw_text_def conn_text_def media_line_def origin_line_def cur_char_simps)

lemma parse_lines_attr: "attr_ok a \<Longrightarrow> parse_lines ps (attr_text a @ rest) = parse_lines (add_attr_line a ps) rest"
  by (rule parse_lines_step) (simp_all add: parse_line_def line_heads line_result_def parse_attr_text)

lemma parse_lines_bandw: "bandw_ok b \<Longrightarrow> parse_lines ps (bandw_text b @ rest) = parse_lines (add_bandw_line b ps) rest"
  by (rule parse_lines_step) (simp_all add: parse_line_def line_heads line_result_def parse_bandw_text)

lemma parse_lines_conn: "conn_ok c \<Longrightarrow> parse_lines ps (conn_text c @ rest) = parse_lines (add_conn_line c ps) rest"
  by (rule parse_lines_step) (simp_all add: parse_line_def line_heads line_result_def parse_conn_text)

lemma parse_lines_attrs:
  "list_all attr_ok as \<Longrightarrow> parse_lines ps (concat (map attr_text as) @ rest) = parse_lines (fold add_attr_line as ps) rest"
  by (induction as arbitrary: ps) (simp_all add: parse_lines_attr)

lemma parse_lines_bandws:
  "list_all bandw_ok bs \<Longrightarrow> parse_lines ps (concat (map bandw_text bs) @ rest) = parse_lines (fold add_bandw_line bs ps) rest"
  by (induction bs arbitrary: ps) (simp_all add: parse_lines_bandw)

lemma parse_lines_conn_opt:
  "pred_option conn_ok c \<Longrightarrow> parse_lines ps (opt_text conn_text c @ rest) =
     parse_lines (case c of None \<Rightarrow> ps | Some d \<Rightarrow> add_conn_line d ps) rest"
  by (cases c) (simp_all add: opt_text_def parse_lines_conn)

text \<open>The effect of the lines on the session, and on its last media.\<close>

lemma add_attrs_session:
  "length (s_attr s) + length as \<le> PJMEDIA_MAX_SDP_ATTR \<Longrightarrow>
   fold add_attr_line as \<lparr>ps_session = s, ps_media = NO_MEDIA\<rparr> =
     \<lparr>ps_session = s\<lparr>s_attr := s_attr s @ as\<rparr>, ps_media = NO_MEDIA\<rparr>"
  by (induction as arbitrary: s) (simp_all add: add_attr_line_def upd_media_or_session_def pjmedia_sdp_attr_add_def)

lemma add_bandws_session:
  "length (s_bandw s) + length bs \<le> PJMEDIA_MAX_SDP_BANDW \<Longrightarrow>
   fold add_bandw_line bs \<lparr>ps_session = s, ps_media = NO_MEDIA\<rparr> =
     \<lparr>ps_session = s\<lparr>s_bandw := s_bandw s @ bs\<rparr>, ps_media = NO_MEDIA\<rparr>"
  by (induction bs arbitrary: s) (simp_all add: add_bandw_line_def upd_media_or_session_def)

lemma add_attrs_media:
  "s_media s = ms @ [m] \<Longrightarrow> length (m_attr m) + length as \<le> PJMEDIA_MAX_SDP_ATTR \<Longrightarrow>
   fold add_attr_line as \<lparr>ps_session = s, ps_media = LAST_MEDIA\<rparr> =
     \<lparr>ps_session = s\<lparr>s_media := ms @ [m\<lparr>m_attr := m_attr m @ as\<rparr>]\<rparr>, ps_media = LAST_MEDIA\<rparr>"
  by (induction as arbitrary: s m)
    (simp_all add: add_attr_line_def upd_media_or_session_def pjmedia_sdp_attr_add_def pjmedia_sdp_media_add_attr_def)

lemma add_bandws_media:
  "s_media s = ms @ [m] \<Longrightarrow> length (m_bandw m) + length bs \<le> PJMEDIA_MAX_SDP_BANDW \<Longrightarrow>
   fold add_bandw_line bs \<lparr>ps_session = s, ps_media = LAST_MEDIA\<rparr> =
     \<lparr>ps_session = s\<lparr>s_media := ms @ [m\<lparr>m_bandw := m_bandw m @ bs\<rparr>]\<rparr>, ps_media = LAST_MEDIA\<rparr>"
  by (induction bs arbitrary: s m) (simp_all add: add_bandw_line_def upd_media_or_session_def)

lemma parse_lines_media:
  assumes "media_ok m" "length (s_media s) < PJMEDIA_MAX_SDP_MEDIA"
  shows "parse_lines \<lparr>ps_session = s, ps_media = c\<rparr> (media_text m @ rest) =
    parse_lines \<lparr>ps_session = s\<lparr>s_media := s_media s @ [m]\<rparr>, ps_media = LAST_MEDIA\<rparr> rest"
proof -
  define m0 where "m0 = m\<lparr>m_conn := None, m_bandw := [], m_attr := []\<rparr>"
  define m1 where "m1 = m\<lparr>m_bandw := [], m_attr := []\<rparr>"
  define m2 where "m2 = m\<lparr>m_attr := []\<rparr>"
  note ok = assms(1)[unfolded media_ok_def]
  let ?st = "\<lambda>x. \<lparr>ps_session = s\<lparr>s_media := s_media s @ [x]\<rparr>, ps_media = LAST_MEDIA\<rparr>"
  have l: "parse_line \<lparr>ps_session = s, ps_media = c\<rparr> (media_line m @ t) = Inr (?st m0, t)" for t
    using parse_media_line[OF assms(1), of t] assms(2)
    by (simp add: parse_line_def line_result_def line_heads add_media_line_def m0_def)
  have c: "(case m_conn m of None \<Rightarrow> ?st m0 | Some d \<Rightarrow> add_conn_line d (?st m0)) = ?st m1"
    by (cases "m_conn m") (simp_all add: m0_def m1_def add_conn_line_def upd_media_or_session_def)
  have b: "fold add_bandw_line (m_bandw m) (?st m1) = ?st m2"
    using add_bandws_media[of "s\<lparr>s_media := s_media s @ [m1]\<rparr>" "s_media s" m1 "m_bandw m"] ok by (simp add: m1_def m2_def)
  have a: "fold add_attr_line (m_attr m) (?st m2) = ?st m"
    using add_attrs_media[of "s\<lparr>s_media := s_media s @ [m2]\<rparr>" "s_media s" m2 "m_attr m"] ok by (simp add: m2_def)
  have "media_line m @ t \<noteq> []" for t by (simp add: line_heads)
  then show ?thesis unfolding media_text_def append_assoc
    using parse_lines_step[OF l] ok by (simp add: parse_lines_conn_opt c parse_lines_bandws b parse_lines_attrs a)
qed

lemma parse_lines_medias:
  "list_all media_ok ms \<Longrightarrow> length (s_media s) + length ms \<le> PJMEDIA_MAX_SDP_MEDIA \<Longrightarrow>
   parse_lines \<lparr>ps_session = s, ps_media = c\<rparr> (concat (map media_text ms)) = Inr (s\<lparr>s_media := s_media s @ ms\<rparr>)"
proof (induction ms arbitrary: s c)
  case Nil
  show ?case by (subst parse_lines.simps) simp
next
  case (Cons m ms)
  then show ?case by (simp add: parse_lines_media)
qed

lemma parse_session_text:
  assumes "session_ok s"
  shows "parse_lines \<lparr>ps_session = session0, ps_media = NO_MEDIA\<rparr> (session_text s) = Inr s"
proof -
  note ok = assms[unfolded session_ok_def]
  let ?st = "\<lambda>x. \<lparr>ps_session = x, ps_media = NO_MEDIA\<rparr>"
  let ?s1 = "session0\<lparr>s_origin := s_origin s\<rparr>"
  let ?s2 = "?s1\<lparr>s_name := s_name s\<rparr>"
  let ?s3 = "?s2\<lparr>s_conn := s_conn s\<rparr>"
  let ?s4 = "?s3\<lparr>s_bandw := s_bandw s\<rparr>"
  let ?s5 = "?s4\<lparr>s_start := s_start s, s_stop := s_stop s\<rparr>"
  let ?s6 = "?s5\<lparr>s_attr := s_attr s\<rparr>"
  have v: "parse_lines (?st session0) ([118, 61, 48, 13, 10] @ t) = parse_lines (?st session0) t" for t
    using parse_version_line[of t] by (intro parse_lines_step) (simp_all add: parse_line_def line_result_def cur_char_simps)
  have o1: "parse_lines (?st session0) (origin_line (s_origin s) @ t) = parse_lines (?st ?s1) t" for t
    using parse_origin_line[of "s_origin s" t] ok
    by (intro parse_lines_step) (simp_all add: parse_line_def line_result_def line_heads)
  have n: "parse_lines (?st ?s1) ([115, 61] @ s_name s @ 13 # 10 # t) = parse_lines (?st ?s2) t" for t
    using parse_name_line[of "s_name s" t] ok
    by (intro parse_lines_step) (simp_all add: parse_line_def line_result_def cur_char_simps)
  have c: "(case s_conn s of None \<Rightarrow> ?st ?s2 | Some d \<Rightarrow> add_conn_line d (?st ?s2)) = ?st ?s3"
    by (cases "s_conn s") (simp_all add: add_conn_line_def upd_media_or_session_def session0_def)
  have b: "fold add_bandw_line (s_bandw s) (?st ?s3) = ?st ?s4"
    using add_bandws_session[of ?s3 "s_bandw s"] ok by (simp add: session0_def)
  have t: "parse_lines (?st ?s4) ([116, 61] @ pj_utoa (unat (s_start s)) @ 32 # pj_utoa (unat (s_stop s)) @ 13 # 10 # t) =
    parse_lines (?st ?s5) t" for t
    using parse_time_line[of "s_start s" "s_stop s" t]
    by (intro parse_lines_step) (simp_all add: parse_line_def line_result_def cur_char_simps)
  have a: "fold add_attr_line (s_attr s) (?st ?s5) = ?st ?s6"
    using add_attrs_session[of ?s5 "s_attr s"] ok by (simp add: session0_def)
  have m: "parse_lines (?st ?s6) (concat (map media_text (s_media s))) = Inr (?s6\<lparr>s_media := s_media s\<rparr>)"
    using parse_lines_medias[of "s_media s" ?s6] ok by (simp add: session0_def)
  have "?s6\<lparr>s_media := s_media s\<rparr> = s" by (simp add: session0_def)
  then show ?thesis unfolding session_text_def v o1 n using ok
    by (simp only: parse_lines_conn_opt c parse_lines_bandws b t parse_lines_attrs a m)
qed

section \<open>The buffer is not overrun, and one that is large enough suffices\<close>

lemma utoa_lengths: "length (pj_utoa (unat (w :: u64))) \<le> 20" "length (pj_utoa (unat (v :: u32))) \<le> 10"
  "length (pj_utoa (unat (p :: u16))) \<le> 5"
  using unsigned_less[of w, where ?'a = nat] unsigned_less[of v, where ?'a = nat] unsigned_less[of p, where ?'a = nat]
  by (intro utoa_ok(5); simp)+

lemma print_all_fits:
  assumes "print_all f room xs = Some out" "\<And>x r out. f x r = Some out \<Longrightarrow> length out \<le> r"
  shows "length out \<le> room"
  using assms(1)
proof (induction xs arbitrary: room out)
  case (Cons x xs)
  then obtain a b where "f x room = Some a" "print_all f (room - length a) xs = Some b" "out = a @ b"
    by (auto simp: bind_eq_Some_conv)
  then show ?case using Cons.IH[of "room - length a" b] assms(2)[of x room a] by simp
qed simp

lemma print_conn_fits: "print_connection_info c room = Some out \<Longrightarrow> length out \<le> room"
  by (auto simp: print_connection_info_def Let_def split: if_splits)

lemma print_bandw_fits: "print_bandw b room = Some out \<Longrightarrow> length out \<le> room"
  using utoa_lengths(2)[of "bw_value b"] by (auto simp: print_bandw_def pj_str_def split: if_splits)

lemma print_attr_fits: "print_attr a room = Some out \<Longrightarrow> length out \<le> room"
  by (auto simp: print_attr_def pj_str_def split: if_splits)

lemma print_fmt_fits: "print_fmt x room = Some out \<Longrightarrow> length out \<le> room"
  by (auto simp: print_fmt_def split: if_splits)

lemma print_opt_conn_fits: "print_opt print_connection_info room c = Some out \<Longrightarrow> length out \<le> room"
  using print_conn_fits by (auto simp: print_opt_def split: option.splits)

lemma print_lists_fit:
  "print_all print_bandw room bs = Some out \<Longrightarrow> length out \<le> room"
  "print_all print_attr room as = Some out \<Longrightarrow> length out \<le> room"
  "print_all print_fmt room fs = Some out \<Longrightarrow> length out \<le> room"
  by (erule print_all_fits, erule print_bandw_fits print_attr_fits print_fmt_fits)+

lemma print_media_fits: "print_media_desc m room = Some out \<Longrightarrow> length out \<le> room"
  using utoa_lengths(2)[of "m_port_count m"] utoa_lengths(3)[of "m_port m"]
  unfolding print_media_desc_def Let_def
  by (auto simp: bind_eq_Some_conv pj_str_def split: if_splits dest!: print_opt_conn_fits print_lists_fit)

lemma print_session_fits: "print_session s room = Some out \<Longrightarrow> length out \<le> room"
  using utoa_lengths(1)[of "o_id (s_origin s)"] utoa_lengths(1)[of "o_version (s_origin s)"]
    utoa_lengths(1)[of "s_start s"] utoa_lengths(1)[of "s_stop s"]
  unfolding print_session_def Let_def
  by (auto simp: bind_eq_Some_conv pj_str_def split: if_splits
      dest!: print_opt_conn_fits print_lists_fit print_all_fits[OF _ print_media_fits])

lemma print_all_room:
  assumes "\<And>x r. r \<ge> length (g x) + 64 \<Longrightarrow> f x r = Some (g x)" "room \<ge> length (concat (map g xs)) + 64"
  shows "print_all f room xs = Some (concat (map g xs))"
  using assms(2)
proof (induction xs arbitrary: room)
  case (Cons x xs)
  then show ?case using assms(1)[of x room] by simp
qed simp

lemma print_parts_room:
  "r \<ge> length (conn_text c) + 64 \<Longrightarrow> print_connection_info c r = Some (conn_text c)"
  "r \<ge> length (bandw_text b) + 64 \<Longrightarrow> print_bandw b r = Some (bandw_text b)"
  "r \<ge> length (attr_text a) + 64 \<Longrightarrow> print_attr a r = Some (attr_text a)"
  "r \<ge> length (32 # x) + 64 \<Longrightarrow> print_fmt x r = Some (32 # x)"
  "r \<ge> length (opt_text conn_text d) + 64 \<Longrightarrow> print_opt print_connection_info r d = Some (opt_text conn_text d)"
proof -
  show c: "r \<ge> length (conn_text c) + 64 \<Longrightarrow> print_connection_info c r = Some (conn_text c)" for c
    by (auto simp: print_connection_info_def conn_text_def pj_str_def Let_def)
  show "r \<ge> length (bandw_text b) + 64 \<Longrightarrow> print_bandw b r = Some (bandw_text b)"
    by (auto simp: print_bandw_def bandw_text_def pj_str_def)
  show "r \<ge> length (attr_text a) + 64 \<Longrightarrow> print_attr a r = Some (attr_text a)"
    by (auto simp: print_attr_def attr_text_def pj_str_def split: if_splits)
  show "r \<ge> length (32 # x) + 64 \<Longrightarrow> print_fmt x r = Some (32 # x)" by (simp add: print_fmt_def)
  show "r \<ge> length (opt_text conn_text d) + 64 \<Longrightarrow> print_opt print_connection_info r d = Some (opt_text conn_text d)"
    using c by (cases d) (simp_all add: print_opt_def opt_text_def)
qed

lemma print_lists_room:
  "r \<ge> length (concat (map bandw_text bs)) + 64 \<Longrightarrow> print_all print_bandw r bs = Some (concat (map bandw_text bs))"
  "r \<ge> length (concat (map attr_text as)) + 64 \<Longrightarrow> print_all print_attr r as = Some (concat (map attr_text as))"
  "r \<ge> length (concat (map (Cons 32) fs)) + 64 \<Longrightarrow> print_all print_fmt r fs = Some (concat (map (Cons 32) fs))"
  by (rule print_all_room; use print_parts_room in blast)+

lemma print_media_room: "r \<ge> length (media_text m) + 64 \<Longrightarrow> print_media_desc m r = Some (media_text m)"
  unfolding print_media_desc_def Let_def media_text_def media_line_def
  by (simp add: pj_str_def print_lists_room print_parts_room(5) del: length_concat)

lemma print_session_room: "r \<ge> length (session_text s) + 64 \<Longrightarrow> print_session s r = Some (session_text s)"
  unfolding print_session_def Let_def session_text_def origin_line_def
  by (simp add: pj_str_def print_lists_room print_parts_room(5) print_all_room[of media_text print_media_desc, OF print_media_room]
      del: length_concat, linarith)

section \<open>The source attribute\<close>

lemma utoa_word: "pj_strtoul (pj_utoa (unat (w :: u32))) = of_nat (unat w)"
proof -
  have tw: "takeWhile pj_isdigit (pj_utoa (unat w)) = pj_utoa (unat w)" using utoa_ok(2) by (simp add: list_all_iff)
  show ?thesis unfolding pj_strtoul_def strtoul_loop_spec base_digit_10 tw using utoa_ok(3)[of "unat w"] by simp
qed

lemma get_ssrc_of_cname:
  assumes "cname \<noteq> []" "cs_token (hd cname)"
  shows "pjmedia_sdp_attr_get_ssrc
      \<lparr>a_name = pj_str ''ssrc'', a_value = pj_utoa (unat ssrc) @ 32 # pj_str ''cname:'' @ c_string cname\<rparr> =
    Inr \<lparr>sa_ssrc = ssrc, sa_cname = takeWhile cs_token cname\<rparr>"
proof -
  obtain x xs where x: "cname = x # xs" "cs_token x" using assms by (cases cname) auto
  then have x0: "x \<noteq> 0" "\<not> is_space x" using cs_token_separators
    by (auto simp: is_space_def cs_token_def pj_cis_alpha_def pj_cis_num_def pj_cis_str_def SDP_TOKEN_def pj_str_def)
  have tw: "takeWhile cs_token (c_string ys) = takeWhile cs_token ys" for ys
    using cs_token_separators by (induction ys) (auto simp: c_string_def)
  have cn: "c_string cname = x # c_string xs" using x x0 by (simp add: c_string_def)
  let ?t = "pj_str ''cname:'' @ c_string cname"
  have t: "?t = 99 # pj_str ''name'' @ 58 # x # c_string xs" by (simp add: pj_str_def cn)
  have d: "list_all cs_digit (pj_utoa (unat ssrc))" "\<not> cs_digit 32"
    using utoa_ok(2) by (simp_all add: cs_digit_def pj_cis_num_def pj_isdigit_def list_all_iff)
  obtain u us where u: "pj_utoa (unat ssrc) = u # us" "pj_isdigit u" using utoa_ok(1,2)[of "unat ssrc"] by (cases "pj_utoa (unat ssrc)") auto
  have "\<not> is_space u" using u(2) by (auto simp: is_space_def pj_isdigit_def)
  then have init: "pj_scan_init PJ_SCAN_AUTOSKIP_WS (pj_utoa (unat ssrc) @ 32 # ?t) = pj_utoa (unat ssrc) @ 32 # ?t"
    by (simp add: pj_scan_init_def skip_ws_not_space u)
  have "auto_skip PJ_SCAN_AUTOSKIP_WS (32 # ?t) = ?t" by (rule auto_skip_blank) (simp add: t is_space_def)
  then have g1: "pj_scan_get PJ_SCAN_AUTOSKIP_WS cs_digit (pj_utoa (unat ssrc) @ 32 # ?t) = Some (pj_utoa (unat ssrc), ?t)"
    using scan_get_append[OF d(1) utoa_ok(1), of "32 # ?t" PJ_SCAN_AUTOSKIP_WS] d(2) by simp
  have g2: "pj_scan_get_char PJ_SCAN_AUTOSKIP_WS ?t = Some (99, pj_str ''name'' @ 58 # x # c_string xs)"
    unfolding t by (simp add: scan_get_char_Cons auto_skip_not_space pj_str_def is_space_def)
  have "list_all cs_token (pj_str ''name'')" by (simp add: pj_str_def cs_token_def pj_cis_alpha_def)
  then have g3: "pj_scan_get PJ_SCAN_AUTOSKIP_WS cs_token (pj_str ''name'' @ 58 # x # c_string xs) =
      Some (pj_str ''name'', 58 # x # c_string xs)"
    using scan_get_append[of cs_token "pj_str ''name''" "58 # x # c_string xs" PJ_SCAN_AUTOSKIP_WS] cs_token_separators(4)
    by (simp add: auto_skip_not_space is_space_def) (simp add: pj_str_def)
  have g4: "pj_scan_get_char PJ_SCAN_AUTOSKIP_WS (58 # x # c_string xs) = Some (58, x # c_string xs)"
    using x0 by (simp add: scan_get_char_Cons auto_skip_not_space)
  have g5: "\<exists>s. pj_scan_get PJ_SCAN_AUTOSKIP_WS cs_token (x # c_string xs) = Some (takeWhile cs_token cname, s)"
    using x tw[of xs] by (simp add: pj_scan_get_def)
  have "pj_str ''name'' \<noteq> pj_str ''cname''" "pj_utoa (unat ssrc) @ 32 # ?t \<noteq> []" by (simp_all add: pj_str_def)
  then show ?thesis using g5
    by (auto simp: pjmedia_sdp_attr_get_ssrc_def init g1 g2 g3 g4 utoa_word[simplified] pj_scan_is_eof_def)
qed

section \<open>The rtpmap attribute\<close>

lemma token_not_space: "cs_token c \<Longrightarrow> \<not> is_space c"
  using cs_token_separators(3)
  by (auto simp: is_space_def cs_token_def pj_cis_alpha_def pj_cis_num_def pj_cis_str_def SDP_TOKEN_def pj_str_def)

lemma token_hd_not_space: "is_token xs \<Longrightarrow> \<not> is_space (hd (xs @ ys))" "is_token xs \<Longrightarrow> xs \<noteq> []"
  by (cases xs; simp add: is_token_def token_not_space)+

lemma token_c_string: "is_token xs \<Longrightarrow> c_string xs = xs"
proof -
  assume "is_token xs"
  then have "c \<noteq> 0" if "c \<in> set xs" for c using that cs_token_separators(6) by (auto simp: is_token_def list_all_iff)
  then show "c_string xs = xs" by (simp add: c_string_def)
qed

lemma c_string_Nil: "c_string [] = []"
  by (simp add: c_string_def)

lemma get_ws_token:
  assumes "is_token xs" "\<not> cs_token c" "\<not> is_space c"
  shows "pj_scan_get PJ_SCAN_AUTOSKIP_WS cs_token (xs @ c # s) = Some (xs, c # s)"
  using assms scan_get_append[of cs_token xs "c # s" PJ_SCAN_AUTOSKIP_WS]
  by (simp add: is_token_def auto_skip_not_space)

lemma rtpmap_roundtrip:
  assumes "pjmedia_sdp_rtpmap_to_attr r = Inr attr" "is_token (rm_pt r)" "is_token (rm_enc_name r)"
    "rm_param r = [] \<or> is_token (rm_param r)"
  shows "pjmedia_sdp_attr_get_rtpmap attr = (PJ_SUCCESS, r)"
proof -
  let ?WS = "PJ_SCAN_AUTOSKIP_WS" and ?n = "pj_utoa (unat (rm_clock_rate r))"
  define p where "p = (if rm_param r \<noteq> [] then 47 # rm_param r else [])"
  define v where "v = rm_pt r @ 32 # rm_enc_name r @ 47 # ?n @ p"
  have attr: "attr = \<lparr>a_name = pj_str ''rtpmap'', a_value = v\<rparr>"
    using assms(1,4) token_c_string[OF assms(2)] token_c_string[OF assms(3)] token_c_string[of "rm_param r"]
    by (auto simp: pjmedia_sdp_rtpmap_to_attr_def Let_def v_def p_def c_string_Nil split: if_splits)
  have "v \<noteq> []" by (simp add: v_def)
  have init: "pj_scan_init ?WS v = v"
    using token_hd_not_space[OF assms(2)] by (simp add: v_def pj_scan_init_def skip_ws_not_space)
  have g1: "pj_scan_get ?WS cs_token v = Some (rm_pt r, rm_enc_name r @ 47 # ?n @ p)"
    using scan_get_append[of cs_token "rm_pt r" "32 # rm_enc_name r @ 47 # ?n @ p" ?WS] assms(2) cs_token_separators(3)
      token_hd_not_space(1)[OF assms(3)] by (simp add: v_def is_token_def auto_skip_blank)
  have g2: "pj_scan_get ?WS cs_token (rm_enc_name r @ 47 # ?n @ p) = Some (rm_enc_name r, 47 # ?n @ p)"
    using get_ws_token[OF assms(3), of 47] cs_token_separators(5) by (simp add: is_space_def)
  have dt: "list_all cs_digit ?n" "\<not> cs_digit 47"
    using utoa_ok(2) by (simp_all add: cs_digit_def pj_cis_num_def pj_isdigit_def list_all_iff)
  have "is_token ?n" using token_utoa by (simp add: is_token_def)
  then have g3: "pj_scan_get_char ?WS (47 # ?n @ p) = Some (47, ?n @ p)"
    using token_hd_not_space(1)[of ?n p] by (simp add: scan_get_char_Cons auto_skip_not_space)
  have "auto_skip ?WS p = p" by (simp add: p_def auto_skip_not_space is_space_def)
  then have g4: "pj_scan_get ?WS cs_digit (?n @ p) = Some (?n, p)"
    using scan_get_append[OF dt(1) token_utoa(2), of p ?WS] dt(2) by (auto simp: p_def)
  have g5: "pj_scan_get_char ?WS (47 # rm_param r) = Some (47, rm_param r)"
      "pj_scan_get ?WS cs_token (rm_param r) = Some (rm_param r, [])" if "rm_param r \<noteq> []"
  proof -
    have "is_token (rm_param r)" using that assms(4) by simp
    then show "pj_scan_get_char ?WS (47 # rm_param r) = Some (47, rm_param r)"
        "pj_scan_get ?WS cs_token (rm_param r) = Some (rm_param r, [])"
      using token_hd_not_space(1)[of "rm_param r" "[]"] scan_get_append[of cs_token "rm_param r" "[]" ?WS]
      by (simp_all add: scan_get_char_Cons auto_skip_not_space is_token_def)
  qed
  have clock: "ucast (pj_strtoul ?n) = rm_clock_rate r" by (simp add: utoa_word[simplified])
  show ?thesis
  proof (cases "rm_param r = []")
    case True
    then show ?thesis using \<open>v \<noteq> []\<close> g1 g2 g3 g4
      by (simp add: pjmedia_sdp_attr_get_rtpmap_def attr init clock p_def cur_char_simps rtpmap0_def)
  next
    case False
    then show ?thesis using \<open>v \<noteq> []\<close> g1 g2 g3 g4 g5
      by (simp add: pjmedia_sdp_attr_get_rtpmap_def attr init clock p_def cur_char_simps rtpmap0_def)
  qed
qed

section \<open>Properties\<close>

text \<open>
  What the reader is to make of a description, in words of its own: a direction other than
  \<open>sendrecv\<close> among the attributes of the session (the first one, if there are several) is taken off
  the session and put at the end of the attributes of every medium that states no direction and
  has room for it. Nothing else changes; without such an attribute nothing changes at all.
\<close>

definition media_default :: "pjmedia_sdp_attr \<Rightarrow> bool" where
  "media_default a \<longleftrightarrow> a_name a \<in> {pj_str ''sendonly'', pj_str ''recvonly'', pj_str ''inactive''}"

definition states_direction :: "pjmedia_sdp_media \<Rightarrow> bool" where
  "states_direction m \<longleftrightarrow> (\<exists>a \<in> set (m_attr m). media_default a \<or> a_name a = pj_str ''sendrecv'')"

definition read_back :: "pjmedia_sdp_session \<Rightarrow> pjmedia_sdp_session \<Rightarrow> bool" where
  "read_back ses ses' \<longleftrightarrow>
     (\<forall>a \<in> set (s_attr ses). \<not> media_default a) \<and> ses' = ses \<or>
     (\<exists>pre d post. s_attr ses = pre @ d # post \<and> media_default d \<and> (\<forall>a \<in> set pre. \<not> media_default a) \<and>
        ses' = ses\<lparr>s_attr := pre @ post,
          s_media := map (\<lambda>m. if states_direction m \<or> length (m_attr m) = PJMEDIA_MAX_SDP_ATTR then m
                             else m\<lparr>m_attr := m_attr m @ [d]\<rparr>) (s_media ses)\<rparr>)"

lemma directions_read_back:
  assumes "length (s_attr ses) \<le> PJMEDIA_MAX_SDP_ATTR"
    and "\<forall>m \<in> set (s_media ses). length (m_attr m) \<le> PJMEDIA_MAX_SDP_ATTR"
  shows "read_back ses (apply_media_direction ses)"
proof -
  have dir: "(\<lambda>a. a_name a = pj_str ''sendonly'' \<or> a_name a = pj_str ''recvonly'' \<or> a_name a = pj_str ''inactive'') = media_default"
    by (simp add: fun_eq_iff media_default_def)
  have own: "list_ex (\<lambda>a. is_direction (a_name a)) (m_attr m) \<longleftrightarrow> states_direction m" for m
    by (auto simp: list_ex_iff is_direction_def states_direction_def media_default_def)
  show ?thesis
  proof (cases "find_index media_default (s_attr ses)")
    case None
    then have "\<forall>a \<in> set (s_attr ses). \<not> media_default a" by (simp add: find_index_None)
    then show ?thesis using None by (simp add: apply_media_direction_def dir read_back_def)
  next
    case (Some i)
    note i = find_index_Some[OF Some]
    then have split: "s_attr ses = take i (s_attr ses) @ (s_attr ses ! i) # drop (Suc i) (s_attr ses)"
      using id_take_nth_drop by blast
    have pre: "\<forall>a \<in> set (take i (s_attr ses)). \<not> media_default a" using i by (auto simp: in_set_conv_nth)
    have "map (\<lambda>m. if list_ex (\<lambda>a. is_direction (a_name a)) (m_attr m) then m
            else pjmedia_sdp_media_add_attr m (s_attr ses ! i)) (s_media ses) =
        map (\<lambda>m. if states_direction m \<or> length (m_attr m) = PJMEDIA_MAX_SDP_ATTR then m
            else m\<lparr>m_attr := m_attr m @ [s_attr ses ! i]\<rparr>) (s_media ses)"
      using assms(2) by (auto simp: own pjmedia_sdp_media_add_attr_def pjmedia_sdp_attr_add_def)
    moreover have "snd (pjmedia_sdp_attr_remove (s_attr ses) i) = take i (s_attr ses) @ drop (Suc i) (s_attr ses)"
      using assms(1) i by (simp add: pjmedia_sdp_attr_remove_def)
    ultimately have "apply_media_direction ses = ses\<lparr>s_attr := take i (s_attr ses) @ drop (Suc i) (s_attr ses),
        s_media := map (\<lambda>m. if states_direction m \<or> length (m_attr m) = PJMEDIA_MAX_SDP_ATTR then m
          else m\<lparr>m_attr := m_attr m @ [s_attr ses ! i]\<rparr>) (s_media ses)\<rparr>"
      using Some by (simp add: apply_media_direction_def dir)
    then show ?thesis using split pre i unfolding read_back_def by blast
  qed
qed

lemma session_ok_room:
  "session_ok ses \<Longrightarrow> length (s_attr ses) \<le> PJMEDIA_MAX_SDP_ATTR \<and>
     (\<forall>m \<in> set (s_media ses). length (m_attr m) \<le> PJMEDIA_MAX_SDP_ATTR)"
  by (simp add: session_ok_def media_ok_def list_all_iff)

text \<open>
  C38 (roundtrip): a description whose parts have no characters that would end them early, whose arrays
  are within their limits, and none of whose media has a port count of one (which is printed like
  none at all, and read as zero) is printed into a buffer without overrunning it. Whatever is printed is
  parsed back to the same description, field by field, except that the parser moves a direction
  of the session to the media that state none, as \<open>read_back\<close> says; without such a direction the
  description comes back as it was. A buffer with 64 bytes more than the text is always large
  enough. An \<open>rtpmap\<close> made of tokens that becomes an attribute is read back unchanged.
\<close>

theorem sdp_print_parse_roundtrip:
  assumes "session_ok ses"
  shows "(\<forall>out. pjmedia_sdp_print ses sz = Some out \<longrightarrow>
            length out \<le> sz \<and> (\<exists>ses'. pjmedia_sdp_parse out = Inr ses' \<and> read_back ses ses')) \<and>
    (sz \<ge> length (session_text ses) + 64 \<longrightarrow> pjmedia_sdp_print ses sz = Some (session_text ses)) \<and>
    (\<forall>r attr. pjmedia_sdp_rtpmap_to_attr r = Inr attr \<and> is_token (rm_pt r) \<and> is_token (rm_enc_name r) \<and>
        (rm_param r = [] \<or> is_token (rm_param r)) \<longrightarrow> pjmedia_sdp_attr_get_rtpmap attr = (PJ_SUCCESS, r))"
proof -
  have "dropWhile is_newline (session_text ses) = session_text ses"
    by (simp add: session_text_def is_newline_def)
  then have "pjmedia_sdp_parse (session_text ses) = Inr (apply_media_direction ses)"
    using parse_session_text[OF assms] by (simp add: pjmedia_sdp_parse_def)
  moreover have "read_back ses (apply_media_direction ses)"
    using directions_read_back session_ok_room[OF assms] by blast
  ultimately show ?thesis using print_session_text print_session_fits print_session_room rtpmap_roundtrip
    unfolding pjmedia_sdp_print_def by blast
qed

text \<open>An example: an audio line with two formats, and a direction given for the whole session.\<close>

definition demo_session :: pjmedia_sdp_session where
  "demo_session = \<lparr>
     s_origin = \<lparr>o_user = pj_str ''-'', o_id = 7, o_version = 8, o_net_type = pj_str ''IN'',
                 o_addr_type = pj_str ''IP4'', o_addr = pj_str ''10.0.0.1''\<rparr>,
     s_name = pj_str ''call'',
     s_conn = Some \<lparr>cn_net_type = pj_str ''IN'', cn_addr_type = pj_str ''IP4'', cn_addr = pj_str ''10.0.0.1''\<rparr>,
     s_bandw = [\<lparr>bw_modifier = pj_str ''AS'', bw_value = 84\<rparr>], s_start = 0, s_stop = 0,
     s_attr = [\<lparr>a_name = pj_str ''sendonly'', a_value = []\<rparr>],
     s_media = [\<lparr>m_media = pj_str ''audio'', m_port = 4000, m_port_count = 0, m_transport = pj_str ''RTP/AVP'',
       m_fmt = [pj_str ''0'', pj_str ''96''], m_conn = None, m_bandw = [],
       m_attr = [\<lparr>a_name = pj_str ''rtpmap'', a_value = pj_str ''96 telephone-event/8000''\<rparr>]\<rparr>]\<rparr>"

lemma demo_session_ok: "session_ok demo_session"
  by (simp add: demo_session_def session_ok_def origin_ok_def conn_ok_def bandw_ok_def attr_ok_def media_ok_def
      no_chars_def is_token_def pj_str_def cs_token_def pj_cis_alpha_def pj_cis_num_def pj_cis_str_def SDP_TOKEN_def
      PJMEDIA_MAX_SDP_BANDW_def PJMEDIA_MAX_SDP_ATTR_def PJMEDIA_MAX_SDP_FMT_def PJMEDIA_MAX_SDP_MEDIA_def)

theorem sdp_print_parse_roundtrip_witness:
  "pjmedia_sdp_print demo_session 1000 = Some (session_text demo_session) \<and>
   (\<exists>ses'. pjmedia_sdp_parse (session_text demo_session) = Inr ses' \<and> s_attr ses' = [] \<and>
      s_media ses' = [(hd (s_media demo_session))\<lparr>m_attr := [\<lparr>a_name = pj_str ''rtpmap'', a_value = pj_str ''96 telephone-event/8000''\<rparr>,
       \<lparr>a_name = pj_str ''sendonly'', a_value = []\<rparr>]\<rparr>] \<and> s_conn ses' = s_conn demo_session) \<and>
   pjmedia_sdp_attr_get_rtpmap \<lparr>a_name = pj_str ''rtpmap'', a_value = pj_str ''98 L16/'' @ pj_utoa 16000 @ pj_str ''/2''\<rparr> =
     (PJ_SUCCESS, \<lparr>rm_pt = pj_str ''98'', rm_enc_name = pj_str ''L16'', rm_clock_rate = 16000, rm_param = pj_str ''2''\<rparr>)"
proof -
  let ?r = "\<lparr>rm_pt = pj_str ''98'', rm_enc_name = pj_str ''L16'', rm_clock_rate = 16000, rm_param = pj_str ''2''\<rparr>"
  have "pjmedia_sdp_rtpmap_to_attr ?r =
      Inr \<lparr>a_name = pj_str ''rtpmap'', a_value = pj_str ''98 L16/'' @ pj_utoa 16000 @ pj_str ''/2''\<rparr>"
    "is_token (rm_pt ?r)" "is_token (rm_enc_name ?r)" "is_token (rm_param ?r)"
    using utoa_lengths(2)[of 16000]
    by (simp_all add: pjmedia_sdp_rtpmap_to_attr_def Let_def pj_str_def c_string_def is_token_def cs_token_def pj_cis_alpha_def
        pj_cis_num_def)
  then have "pjmedia_sdp_attr_get_rtpmap
      \<lparr>a_name = pj_str ''rtpmap'', a_value = pj_str ''98 L16/'' @ pj_utoa 16000 @ pj_str ''/2''\<rparr> = (PJ_SUCCESS, ?r)"
    using sdp_print_parse_roundtrip[OF demo_session_ok, of 1000] by blast
  moreover have "length (pj_utoa (unat w)) \<le> 20" for w :: u64 by (rule utoa_lengths(1))
  from this[of 7] this[of 8] this[of 0] have "length (session_text demo_session) + 64 \<le> 1000"
    using utoa_lengths(2)[of 84] utoa_lengths(3)[of 4000]
    by (simp add: session_text_def demo_session_def origin_line_def opt_text_def conn_text_def bandw_text_def attr_text_def
        media_text_def media_line_def pj_str_def c_string_def)
  then have "pjmedia_sdp_print demo_session 1000 = Some (session_text demo_session)"
    "\<exists>ses'. pjmedia_sdp_parse (session_text demo_session) = Inr ses' \<and> read_back demo_session ses'"
    using sdp_print_parse_roundtrip[OF demo_session_ok, of 1000] by auto
  moreover have "s_attr ses' = [] \<and> s_conn ses' = s_conn demo_session \<and>
      s_media ses' = [(hd (s_media demo_session))\<lparr>m_attr := [\<lparr>a_name = pj_str ''rtpmap'', a_value = pj_str ''96 telephone-event/8000''\<rparr>,
       \<lparr>a_name = pj_str ''sendonly'', a_value = []\<rparr>]\<rparr>]" if "read_back demo_session ses'" for ses'
    using that by (auto simp: read_back_def demo_session_def media_default_def states_direction_def pj_str_def
        PJMEDIA_MAX_SDP_ATTR_def PJMEDIA_MAX_SDP_FMT_def Cons_eq_append_conv)
  ultimately show ?thesis by blast
qed

text \<open>
  What the parser loses. A connection line with a slash after its address, as every multicast
  address with a time to live has, is refused whatever follows the slash, because the slash is
  never stepped over. The \<open>cname\<close> that \<open>pjmedia_sdp_attr_create_ssrc\<close> writes is read back by
  \<open>pjmedia_sdp_attr_get_ssrc\<close> only up to the first character that is not allowed in a token, such as the at sign of
  every user and host name; and the value of any other attribute of the source is taken for the \<open>cname\<close>.
\<close>

theorem sdp_multicast_and_cname_lost:
  "(conn_ok c \<longrightarrow>
      parse_line ps (pj_str ''c='' @ cn_net_type c @ 32 # cn_addr_type c @ 32 # cn_addr c @ 47 # rest) =
        Inl PJMEDIA_SDP_EINCONN) \<and>
   (pjmedia_sdp_attr_create_ssrc ssrc cname = Some attr \<and> cs_token (hd cname) \<longrightarrow>
      pjmedia_sdp_attr_get_ssrc attr = Inr \<lparr>sa_ssrc = ssrc, sa_cname = takeWhile cs_token cname\<rparr>) \<and>
   pjmedia_sdp_attr_get_ssrc \<lparr>a_name = pj_str ''ssrc'', a_value = pj_str ''7 msid:stream''\<rparr> =
     Inr \<lparr>sa_ssrc = 7, sa_cname = pj_str ''stream''\<rparr>"
proof (intro conjI impI)
  assume "conn_ok c"
  then have ok: "no_chars [0, 32] (cn_net_type c)" "no_chars [0, 32] (cn_addr_type c)" "no_chars (0 # 47 # SPACES_CRLF) (cn_addr c)"
    by (simp_all add: conn_ok_def)
  have e: "pj_scan_get_until_chr 0 (47 # SPACES_CRLF) (47 # rest) = Some ([], 47 # rest)"
    by (simp add: pj_scan_get_until_chr_def pj_scan_get_until_def auto_skip_0)
  have "parse_byte [] = None"
    by (simp add: parse_byte_def pj_strtoul3_def strtou_def pj_strltrim_def number_of_result_def)
  then have "parse_connection_info (99 # 61 # cn_net_type c @ 32 # cn_addr_type c @ 32 # cn_addr c @ 47 # rest) = None"
    unfolding parse_connection_info_def using ok e
    by (simp add: line_facts until_ch_line[of "[0, 32]"] until_chr_line[of "0 # 47 # SPACES_CRLF"])
  then show "parse_line ps (pj_str ''c='' @ cn_net_type c @ 32 # cn_addr_type c @ 32 # cn_addr c @ 47 # rest) =
      Inl PJMEDIA_SDP_EINCONN"
    by (simp add: parse_line_def line_result_def pj_str_def cur_char_simps)
next
  assume "pjmedia_sdp_attr_create_ssrc ssrc cname = Some attr \<and> cs_token (hd cname)"
  then have c: "cname \<noteq> []" "cs_token (hd cname)"
    and a: "attr = \<lparr>a_name = pj_str ''ssrc'', a_value = pj_utoa (unat ssrc) @ 32 # pj_str ''cname:'' @ c_string cname\<rparr>"
    by (auto simp: pjmedia_sdp_attr_create_ssrc_def pj_str_def split: if_splits)
  show "pjmedia_sdp_attr_get_ssrc attr = Inr \<lparr>sa_ssrc = ssrc, sa_cname = takeWhile cs_token cname\<rparr>"
    unfolding a by (rule get_ssrc_of_cname[OF c])
next
  show "pjmedia_sdp_attr_get_ssrc \<lparr>a_name = pj_str ''ssrc'', a_value = pj_str ''7 msid:stream''\<rparr> =
     Inr \<lparr>sa_ssrc = 7, sa_cname = pj_str ''stream''\<rparr>" by code_simp
qed

theorem sdp_multicast_and_cname_lost_witness:
  "parse_line \<lparr>ps_session = session0, ps_media = NO_MEDIA\<rparr> (pj_str ''c=IN IP4 224.2.36.42/127'' @ CRLF) =
     Inl PJMEDIA_SDP_EINCONN \<and>
   pjmedia_sdp_attr_get_ssrc \<lparr>a_name = pj_str ''ssrc'', a_value = pj_utoa 7 @ pj_str '' cname:me@home''\<rparr> =
     Inr \<lparr>sa_ssrc = 7, sa_cname = pj_str ''me''\<rparr>"
proof -
  let ?c = "\<lparr>cn_net_type = pj_str ''IN'', cn_addr_type = pj_str ''IP4'', cn_addr = pj_str ''224.2.36.42''\<rparr>"
  have ok: "conn_ok ?c" "cs_token (hd (pj_str ''me@home''))" "takeWhile cs_token (pj_str ''me@home'') = pj_str ''me''"
    by (simp_all add: conn_ok_def no_chars_def pj_str_def cs_token_def pj_cis_alpha_def pj_cis_num_def pj_cis_str_def SDP_TOKEN_def)
  have s: "pjmedia_sdp_attr_create_ssrc 7 (pj_str ''me@home'') =
      Some \<lparr>a_name = pj_str ''ssrc'', a_value = pj_utoa 7 @ pj_str '' cname:me@home''\<rparr>"
    by (simp add: pjmedia_sdp_attr_create_ssrc_def pj_str_def c_string_def)
  have "pj_str ''c=IN IP4 224.2.36.42/127'' @ CRLF =
      pj_str ''c='' @ cn_net_type ?c @ 32 # cn_addr_type ?c @ 32 # cn_addr ?c @ 47 # pj_str ''127'' @ CRLF"
    by (simp add: pj_str_def)
  then show ?thesis
    using sdp_multicast_and_cname_lost[of ?c "\<lparr>ps_session = session0, ps_media = NO_MEDIA\<rparr>" "pj_str ''127'' @ CRLF" 7
        "pj_str ''me@home''" "\<lparr>a_name = pj_str ''ssrc'', a_value = pj_utoa 7 @ pj_str '' cname:me@home''\<rparr>"] ok s by simp
qed

end
