(* ===== verification/Sdp_Neg.thy ===== *)
theory Sdp_Neg
  imports Sdp
begin

text \<open>
  The offer/answer negotiator (\<open>pjmedia/src/pjmedia/sdp_neg.c\<close>): matching an offer with local
  capabilities, processing an answer, the mapping of dynamic payload types to codecs, and the operations of the
  negotiator. The configuration is that of \<open>pjmedia/config.h\<close> with \<open>config_site.h\<close>: no video, answers use the
  payload types of the offer, and no map of the remote's payload types is kept.

  A result \<open>None\<close> stands for an access outside an array or through a null pointer, which the code would make;
  assertions are compiled out. A custom format callback is a function of both media and the format
  indices that gives a status and, as its flag is documented, may give the answer other attributes only when
  it is allowed to. The registry of callbacks and the codec manager's list of dynamic codecs
  are arguments.
\<close>

section \<open>Custom format callbacks\<close>

definition PJMEDIA_SDP_NEG_MAX_CUSTOM_FMT_NEG_CB :: nat where "PJMEDIA_SDP_NEG_MAX_CUSTOM_FMT_NEG_CB = 8"

record fmt_match_cb_t =
  fc_fmt_name :: "u8 list"
  fc_cb :: nat

record fmt_env =
  fe_registry :: "fmt_match_cb_t list"
  fe_call :: "nat \<Rightarrow> pjmedia_sdp_media \<Rightarrow> nat \<Rightarrow> pjmedia_sdp_media \<Rightarrow> nat \<Rightarrow> bool \<Rightarrow>
              pj_status \<times> pjmedia_sdp_attr list"

definition custom_fmt_match ::
  "fmt_env \<Rightarrow> u8 list \<Rightarrow> pjmedia_sdp_media \<Rightarrow> nat \<Rightarrow> pjmedia_sdp_media \<Rightarrow> nat \<Rightarrow> bool \<Rightarrow>
   pj_status \<times> pjmedia_sdp_media" where
  "custom_fmt_match env fmt_name offer o_fmt_idx answer a_fmt_idx allow_modify =
     (case find (\<lambda>f. stricmp_eq fmt_name (fc_fmt_name f)) (fe_registry env) of
        None \<Rightarrow> (PJ_SUCCESS, answer)
      | Some f \<Rightarrow>
          (let (status, attrs) = fe_call env (fc_cb f) offer o_fmt_idx answer a_fmt_idx allow_modify
           in (status, if allow_modify then answer\<lparr>m_attr := attrs\<rparr> else answer)))"

text \<open>\<open>cb = None\<close> unregisters.\<close>

definition pjmedia_sdp_neg_register_fmt_match_cb ::
  "fmt_match_cb_t list \<Rightarrow> u8 list \<Rightarrow> nat option \<Rightarrow> pj_status \<times> fmt_match_cb_t list" where
  "pjmedia_sdp_neg_register_fmt_match_cb reg fmt_name cb =
     (let i = find_index (\<lambda>f. stricmp_eq fmt_name (fc_fmt_name f)) reg
      in case cb of
           None \<Rightarrow>
             (case i of
                None \<Rightarrow> (PJ_ENOTFOUND, reg)
              | Some k \<Rightarrow> (PJ_SUCCESS, take k reg @ drop (Suc k) reg))
         | Some c \<Rightarrow>
             (case i of
                Some k \<Rightarrow> (if c \<noteq> fc_cb (reg ! k) then PJ_EEXISTS else PJ_SUCCESS, reg)
              | None \<Rightarrow>
                  if length reg \<ge> PJMEDIA_SDP_NEG_MAX_CUSTOM_FMT_NEG_CB then (PJ_ETOOMANY, reg)
                  else (PJ_SUCCESS, reg @ [\<lparr>fc_fmt_name = fmt_name, fc_cb = c\<rparr>])))"

section \<open>Helpers\<close>

definition STR_RTPMAP :: "u8 list" where "STR_RTPMAP = pj_str ''rtpmap''"
definition STR_FMTP :: "u8 list" where "STR_FMTP = pj_str ''fmtp''"

text \<open>The attribute of a media line for a format, and the \<open>rtpmap\<close> in it; a failed parse is not noticed.\<close>

definition fmt_attr :: "pjmedia_sdp_media \<Rightarrow> u8 list \<Rightarrow> u8 list \<Rightarrow> nat option" where
  "fmt_attr m name fmt = pjmedia_sdp_media_find_attr m name (Some fmt)"

definition fmt_rtpmap :: "pjmedia_sdp_media \<Rightarrow> u8 list \<Rightarrow> pjmedia_sdp_rtpmap option" where
  "fmt_rtpmap m fmt = map_option (\<lambda>i. snd (pjmedia_sdp_attr_get_rtpmap (m_attr m ! i))) (fmt_attr m STR_RTPMAP fmt)"

definition remove_fmt_attr :: "u8 list \<Rightarrow> u8 list \<Rightarrow> pjmedia_sdp_media \<Rightarrow> pjmedia_sdp_media" where
  "remove_fmt_attr name fmt m =
     (case fmt_attr m name fmt of None \<Rightarrow> m | Some i \<Rightarrow> pjmedia_sdp_media_remove_attr m i)"

text \<open>Both attributes of a format go.\<close>

definition remove_fmt_attrs :: "u8 list \<Rightarrow> pjmedia_sdp_media \<Rightarrow> pjmedia_sdp_media" where
  "remove_fmt_attrs fmt m = remove_fmt_attr STR_FMTP fmt (remove_fmt_attr STR_RTPMAP fmt m)"

definition uint_of_fmt :: "u8 list \<Rightarrow> u32" where
  "uint_of_fmt fmt = ucast (pj_strtoul fmt)"

definition one_channel :: "u8 list \<Rightarrow> bool" where
  "one_channel p \<longleftrightarrow> length p = 1 \<and> hd p = 49"

definition default_conn :: pjmedia_sdp_conn where
  "default_conn = \<lparr>cn_net_type = pj_str ''IN'', cn_addr_type = pj_str ''IP4'', cn_addr = pj_str ''127.0.0.1''\<rparr>"

definition sdp_media_clone_deactivate ::
  "pjmedia_sdp_media \<Rightarrow> pjmedia_sdp_media \<Rightarrow> pjmedia_sdp_session \<Rightarrow> pjmedia_sdp_media" where
  "sdp_media_clone_deactivate rem_med local_med local_sess =
     (let res = pjmedia_sdp_media_clone_deactivate rem_med
      in if m_conn res = None \<and> s_conn local_sess = None
         then (case m_conn local_med of
                 Some c \<Rightarrow> res\<lparr>m_conn := Some (pjmedia_sdp_conn_clone c)\<rparr>
               | None \<Rightarrow> res\<lparr>m_conn := Some default_conn\<rparr>)
         else res)"

section \<open>Media directions\<close>

datatype pjmedia_dir = PJMEDIA_DIR_NONE | PJMEDIA_DIR_ENCODING | PJMEDIA_DIR_DECODING | PJMEDIA_DIR_ENCODING_DECODING

definition has_attr :: "pjmedia_sdp_media \<Rightarrow> string \<Rightarrow> bool" where
  "has_attr m name \<longleftrightarrow> pjmedia_sdp_media_find_attr m (pj_str name) None \<noteq> None"

definition remove_all_media_directions :: "pjmedia_sdp_media \<Rightarrow> pjmedia_sdp_media" where
  "remove_all_media_directions m =
     (let m = pjmedia_sdp_media_remove_all_attr m (pj_str ''inactive'');
          m = pjmedia_sdp_media_remove_all_attr m (pj_str ''sendrecv'');
          m = pjmedia_sdp_media_remove_all_attr m (pj_str ''sendonly'')
      in pjmedia_sdp_media_remove_all_attr m (pj_str ''recvonly''))"

definition local_dir :: "pjmedia_sdp_media \<Rightarrow> pjmedia_dir" where
  "local_dir m =
     (if has_attr m ''sendonly'' then PJMEDIA_DIR_ENCODING
      else if has_attr m ''recvonly'' then PJMEDIA_DIR_DECODING
      else if has_attr m ''inactive'' then PJMEDIA_DIR_NONE
      else PJMEDIA_DIR_ENCODING_DECODING)"

definition adjusted_dir :: "pjmedia_sdp_media \<Rightarrow> pjmedia_dir \<Rightarrow> pjmedia_dir" where
  "adjusted_dir remote old_dir =
     (if has_attr remote ''inactive'' then PJMEDIA_DIR_NONE
      else if has_attr remote ''sendonly''
      then (case old_dir of
              PJMEDIA_DIR_ENCODING_DECODING \<Rightarrow> PJMEDIA_DIR_DECODING
            | PJMEDIA_DIR_DECODING \<Rightarrow> old_dir
            | _ \<Rightarrow> PJMEDIA_DIR_NONE)
      else if has_attr remote ''recvonly''
      then (case old_dir of
              PJMEDIA_DIR_ENCODING_DECODING \<Rightarrow> PJMEDIA_DIR_ENCODING
            | PJMEDIA_DIR_ENCODING \<Rightarrow> old_dir
            | _ \<Rightarrow> PJMEDIA_DIR_NONE)
      else old_dir)"

fun dir_attr :: "pjmedia_dir \<Rightarrow> pjmedia_sdp_attr option" where
  "dir_attr PJMEDIA_DIR_NONE = Some (pjmedia_sdp_attr_create (pj_str ''inactive'') None)"
| "dir_attr PJMEDIA_DIR_ENCODING = Some (pjmedia_sdp_attr_create (pj_str ''sendonly'') None)"
| "dir_attr PJMEDIA_DIR_DECODING = Some (pjmedia_sdp_attr_create (pj_str ''recvonly'') None)"
| "dir_attr PJMEDIA_DIR_ENCODING_DECODING = None"

definition update_media_direction :: "pjmedia_sdp_media \<Rightarrow> pjmedia_sdp_media \<Rightarrow> pjmedia_sdp_media" where
  "update_media_direction remote loc =
     (let old_dir = local_dir loc; new_dir = adjusted_dir remote old_dir
      in if new_dir \<noteq> old_dir
         then (let loc = remove_all_media_directions loc
               in case dir_attr new_dir of None \<Rightarrow> loc | Some a \<Rightarrow> pjmedia_sdp_media_add_attr loc a)
         else loc)"

section \<open>Processing an answer\<close>

text \<open>
  The index of the answer's format that matches a format of the offer: the same text for a static payload type,
  a matching \<open>rtpmap\<close> for a dynamic one. An offer without the \<open>rtpmap\<close> of a dynamic type is an error.
\<close>

definition answer_fmt_matches ::
  "fmt_env \<Rightarrow> pjmedia_sdp_media \<Rightarrow> nat \<Rightarrow> pjmedia_sdp_rtpmap \<Rightarrow> pjmedia_sdp_media \<Rightarrow> nat \<Rightarrow> bool" where
  "answer_fmt_matches env offer i r_off answer j =
     (case fmt_rtpmap answer (m_fmt answer ! j) of
        None \<Rightarrow> False
      | Some ar \<Rightarrow>
          stricmp_eq (rm_enc_name r_off) (rm_enc_name ar) \<and> rm_clock_rate r_off = rm_clock_rate ar \<and>
          (stricmp_eq (rm_param r_off) (rm_param ar) \<or> one_channel (rm_param ar)) \<and>
          fst (custom_fmt_match env (rm_enc_name r_off) offer i answer j False) = PJ_SUCCESS)"

definition match_in_answer ::
  "fmt_env \<Rightarrow> pjmedia_sdp_media \<Rightarrow> nat \<Rightarrow> pjmedia_sdp_media \<Rightarrow> pj_status + nat option" where
  "match_in_answer env offer i answer =
     (let fmt = m_fmt offer ! i
      in if uint_of_fmt fmt < 96 then Inr (find_index (\<lambda>f. fmt = f) (m_fmt answer))
         else case fmt_rtpmap offer fmt of
                None \<Rightarrow> Inl PJ_EBUG
              | Some r_off \<Rightarrow>
                  Inr (find_index (answer_fmt_matches env offer i r_off answer) [0..<length (m_fmt answer)]))"

text \<open>
  The loop that removes formats without a match: \<open>prior\<close> holds the index of the match of each format that was kept,
  so its length is the index of the next format.
\<close>

fun filter_offer ::
  "nat \<Rightarrow> fmt_env \<Rightarrow> nat list \<Rightarrow> pjmedia_sdp_media \<Rightarrow> pjmedia_sdp_media \<Rightarrow>
   pj_status \<times> nat list \<times> pjmedia_sdp_media" where
  "filter_offer 0 env prior offer answer = (PJ_SUCCESS, prior, offer)"
| "filter_offer (Suc n) env prior offer answer =
     (let i = length prior; fmt = m_fmt offer ! i
      in case match_in_answer env offer i answer of
           Inl err \<Rightarrow> (err, prior, offer)
         | Inr None \<Rightarrow>
             (let offer = remove_fmt_attrs fmt offer;
                  offer = offer\<lparr>m_fmt := take i (m_fmt offer) @ drop (Suc i) (m_fmt offer)\<rparr>
              in filter_offer n env prior offer answer)
         | Inr (Some j) \<Rightarrow> filter_offer n env (prior @ [j]) offer answer)"

text \<open>The exchange sort of the offer's formats by the index of their match.\<close>

fun exchange_pass :: "nat \<times> 'a \<Rightarrow> (nat \<times> 'a) list \<Rightarrow> (nat \<times> 'a) \<times> (nat \<times> 'a) list" where
  "exchange_pass x [] = (x, [])"
| "exchange_pass x (y # ys) =
     (if fst x > fst y
      then (let (z, zs) = exchange_pass y ys in (z, x # zs))
      else (let (z, zs) = exchange_pass x ys in (z, y # zs)))"

lemma exchange_pass_length: "length (snd (exchange_pass x ys)) = length ys"
  by (induction ys arbitrary: x) (auto simp: Let_def split: prod.splits; metis snd_conv)+

function exchange_sort :: "(nat \<times> 'a) list \<Rightarrow> (nat \<times> 'a) list" where
  "exchange_sort [] = []"
| "exchange_sort (x # xs) = (let (z, zs) = exchange_pass x xs in z # exchange_sort zs)"
  by pat_completeness auto
termination
proof (relation "measure length")
  fix x :: "nat \<times> 'a" and xs p z zs
  assume "p = exchange_pass x xs" "(z, zs) = p"
  then show "(zs, x # xs) \<in> measure length" using exchange_pass_length[of x xs] by (metis in_measure le_imp_less_Suc length_Cons order_refl snd_conv)
qed simp

text \<open>The loop that removes the formats of the answer that the offer does not have.\<close>

fun trim_answer :: "nat \<Rightarrow> nat list \<Rightarrow> nat \<Rightarrow> nat \<Rightarrow> pjmedia_sdp_media \<Rightarrow> pjmedia_sdp_media" where
  "trim_answer 0 prior i del_cnt answer = answer"
| "trim_answer (Suc n) prior i del_cnt answer =
     (if i \<ge> length prior \<or> prior ! i \<noteq> i + del_cnt
      then (let answer = remove_fmt_attrs (m_fmt answer ! i) answer;
                answer = answer\<lparr>m_fmt := take i (m_fmt answer) @ drop (Suc i) (m_fmt answer)\<rparr>
            in trim_answer n prior i (Suc del_cnt) answer)
      else trim_answer n prior (Suc i) del_cnt answer)"

text \<open>With asymmetric media allowed, a format of the answer is looked for in the answer itself, as the code does.\<close>

definition asym_fmt_found :: "pjmedia_sdp_media \<Rightarrow> pjmedia_sdp_media \<Rightarrow> u8 list \<Rightarrow> bool option" where
  "asym_fmt_found offer answer rem_fmt =
     (case find_index (\<lambda>f. rem_fmt = f) (take (length (m_fmt offer)) (m_fmt answer)) of
        Some j \<Rightarrow> Some True
      | None \<Rightarrow> if length (m_fmt offer) > length (m_fmt answer) then None else Some False)"

fun asym_loop :: "pjmedia_sdp_media \<Rightarrow> pjmedia_sdp_media \<Rightarrow> u8 list list \<Rightarrow> pj_status option" where
  "asym_loop offer answer [] = Some PJMEDIA_SDPNEG_EANSNOMEDIA"
| "asym_loop offer answer (f # fs) =
     (case asym_fmt_found offer answer f of
        None \<Rightarrow> None
      | Some True \<Rightarrow> Some PJ_SUCCESS
      | Some False \<Rightarrow> asym_loop offer answer fs)"

definition process_m_answer ::
  "fmt_env \<Rightarrow> pjmedia_sdp_media \<Rightarrow> pjmedia_sdp_media \<Rightarrow> bool \<Rightarrow>
   (pj_status \<times> pjmedia_sdp_media \<times> pjmedia_sdp_media) option" where
  "process_m_answer env offer answer allow_asym =
     (if m_media answer \<noteq> m_media offer then Some (PJMEDIA_SDPNEG_EINVANSMEDIA, offer, answer)
      else if m_port answer = 0 then Some (PJ_SUCCESS, pjmedia_sdp_media_deactivate offer, answer)
      else if pjmedia_sdp_transport_cmp (m_transport answer) (m_transport offer) \<noteq> PJ_SUCCESS
      then Some (PJMEDIA_SDPNEG_EINVANSTP, offer, answer)
      else if m_port offer = 0 then Some (PJ_SUCCESS, offer, answer)
      else let offer = update_media_direction answer offer
           in if allow_asym
              then map_option (\<lambda>st. (st, offer, answer)) (asym_loop offer answer (m_fmt answer))
              else let (status, prior, offer) = filter_offer (length (m_fmt offer)) env [] offer answer
                   in if status \<noteq> PJ_SUCCESS then Some (status, offer, answer)
                      else if m_fmt offer = [] then Some (PJMEDIA_SDPNEG_EANSNOMEDIA, offer, answer)
                      else let sorted = exchange_sort (zip prior (m_fmt offer))
                           in Some (PJ_SUCCESS, offer\<lparr>m_fmt := map snd sorted\<rparr>,
                                trim_answer (length (m_fmt answer)) (map fst sorted) 0 0 answer))"

text \<open>
  The loop over the offered media: \<open>done\<close> and the rest of the offer, the answer's media before \<open>ami\<close> and the rest.
  A media of the wrong type does not use up a media of the answer.
\<close>

fun process_answer_loop ::
  "fmt_env \<Rightarrow> bool \<Rightarrow> pjmedia_sdp_session \<Rightarrow> pjmedia_sdp_media list \<Rightarrow> pjmedia_sdp_media list \<Rightarrow>
   (pj_status \<times> bool \<times> pjmedia_sdp_media list \<times> pjmedia_sdp_media list) option" where
  "process_answer_loop env allow_asym offer [] ams = Some (PJ_SUCCESS, False, [], ams)"
| "process_answer_loop env allow_asym offer (om # oms) [] =
     map_option (\<lambda>(st, act, os, as).
         (st, act, pjmedia_sdp_media_deactivate om # os, sdp_media_clone_deactivate om om offer # as))
       (process_answer_loop env allow_asym offer oms [])"
| "process_answer_loop env allow_asym offer (om # oms) (am # ams) =
     (case process_m_answer env om am allow_asym of
        None \<Rightarrow> None
      | Some (status, om', am') \<Rightarrow>
          if status = PJMEDIA_SDPNEG_EINVANSMEDIA
          then map_option (\<lambda>(st, act, os, as). (st, act, pjmedia_sdp_media_deactivate om' # os, as))
                 (process_answer_loop env allow_asym offer oms (am' # ams))
          else if status = PJMEDIA_SDPNEG_EANSNOMEDIA
          then map_option (\<lambda>(st, act, os, as).
                   (st, act, pjmedia_sdp_media_deactivate om' # os, pjmedia_sdp_media_deactivate am' # as))
                 (process_answer_loop env allow_asym offer oms ams)
          else if status \<noteq> PJ_SUCCESS then Some (status, False, om' # oms, am' # ams)
          else map_option (\<lambda>(st, act, os, as). (st, act \<or> m_port om' \<noteq> 0, om' # os, am' # as))
                 (process_answer_loop env allow_asym offer oms ams))"

text \<open>The status, the active local description and the answer as changed.\<close>

definition process_answer ::
  "fmt_env \<Rightarrow> pjmedia_sdp_session \<Rightarrow> pjmedia_sdp_session \<Rightarrow> bool \<Rightarrow>
   (pj_status \<times> pjmedia_sdp_session \<times> pjmedia_sdp_session) option" where
  "process_answer env local_offer answer allow_asym =
     (let offer = pjmedia_sdp_session_clone local_offer
      in case process_answer_loop env allow_asym offer (s_media offer) (s_media answer) of
           None \<Rightarrow> None
         | Some (status, has_active, oms, ams) \<Rightarrow>
             Some (if status \<noteq> PJ_SUCCESS then status
                   else if has_active then PJ_SUCCESS else PJMEDIA_SDPNEG_ENOMEDIA,
                   offer\<lparr>s_media := oms\<rparr>, answer\<lparr>s_media := ams\<rparr>))"

section \<open>Answering an offer\<close>

text \<open>
  Rewriting the payload type at the start of an attribute's value: the buffer is moved by the difference of the
  lengths and the new number written over its start.
\<close>

definition rewrite_pt :: "u8 list \<Rightarrow> nat \<Rightarrow> u8 list \<Rightarrow> u8 list option" where
  "rewrite_pt attr_val old_len new_pt =
     (if length attr_val < old_len then None else Some (new_pt @ drop old_len attr_val))"

definition rewrite_pt2 :: "u8 list \<Rightarrow> nat \<Rightarrow> nat \<Rightarrow> u8 list option" where
  "rewrite_pt2 attr_val pt new_pt = rewrite_pt attr_val (if pt \<ge> 100 then 3 else 2) (pj_utoa new_pt)"

text \<open>An attribute is rewritten and taken out until all formats are done.\<close>

definition take_out_rewritten ::
  "u8 list \<Rightarrow> u8 list \<Rightarrow> u8 list \<Rightarrow> pjmedia_sdp_media \<times> pjmedia_sdp_attr list \<Rightarrow>
   (pjmedia_sdp_media \<times> pjmedia_sdp_attr list) option" where
  "take_out_rewritten name pt_answer pt_offer st =
     (let (answer, a_tmp) = st
      in case fmt_attr answer name pt_answer of
           None \<Rightarrow> Some st
         | Some k \<Rightarrow>
             map_option
               (\<lambda>v. (pjmedia_sdp_media_remove_attr answer k, a_tmp @ [(m_attr answer ! k)\<lparr>a_value := v\<rparr>]))
               (rewrite_pt (a_value (m_attr answer ! k)) (length pt_answer) pt_offer))"

fun symmetric_pt_loop ::
  "nat \<Rightarrow> (u8 list \<times> u8 list) list \<Rightarrow> pjmedia_sdp_media \<times> pjmedia_sdp_attr list \<Rightarrow>
   (pjmedia_sdp_media \<times> pjmedia_sdp_attr list) option" where
  "symmetric_pt_loop i [] st = Some st"
| "symmetric_pt_loop i ((pt_offer, pt_answer) # pts) st =
     (if pt_answer = pt_offer then symmetric_pt_loop (Suc i) pts st
      else let (answer, a_tmp) = st;
               answer = answer\<lparr>m_fmt := (m_fmt answer)[i := pt_offer]\<rparr>
           in Option.bind (take_out_rewritten STR_RTPMAP pt_answer pt_offer (answer, a_tmp))
                (\<lambda>st. Option.bind (take_out_rewritten STR_FMTP pt_answer pt_offer st)
                   (symmetric_pt_loop (Suc i) pts)))"

definition apply_answer_symmetric_pt ::
  "pjmedia_sdp_media \<Rightarrow> u8 list list \<Rightarrow> u8 list list \<Rightarrow> pjmedia_sdp_media option" where
  "apply_answer_symmetric_pt answer pt_offer pt_answer =
     map_option (\<lambda>(answer, a_tmp). fold (\<lambda>a m. pjmedia_sdp_media_add_attr m a) a_tmp answer)
       (symmetric_pt_loop 0 (zip pt_offer pt_answer) (answer, []))"

text \<open>The variables of \<open>match_offer\<close>; \<open>mo_preanswer\<close> is what callbacks have made of the local media.\<close>

record match_state =
  mo_master_has_codec :: bool
  mo_master_has_other :: bool
  mo_found_codec :: bool
  mo_found_tel_event :: bool
  mo_found_other :: bool
  mo_pt_offer :: "u8 list list"
  mo_pt_answer :: "u8 list list"
  mo_clockrate :: "u32 list"
  mo_tel_clockrate :: "u32 list"
  mo_preanswer :: pjmedia_sdp_media

record match_params =
  mp_env :: fmt_env
  mp_prefer_remote :: bool
  mp_multiple :: bool
  mp_offer :: pjmedia_sdp_media

definition mo_master :: "match_params \<Rightarrow> match_state \<Rightarrow> pjmedia_sdp_media" where
  "mo_master p st = (if mp_prefer_remote p then mp_offer p else mo_preanswer st)"

definition mo_slave :: "match_params \<Rightarrow> match_state \<Rightarrow> pjmedia_sdp_media" where
  "mo_slave p st = (if mp_prefer_remote p then mo_preanswer st else mp_offer p)"

definition add_once :: "'a \<Rightarrow> 'a list \<Rightarrow> 'a list" where
  "add_once x xs = (if x \<in> set xs then xs else xs @ [x])"

text \<open>The pair of formats of a match: index \<open>i\<close> in the master and \<open>j\<close> in the slave.\<close>

definition add_match :: "match_params \<Rightarrow> nat \<Rightarrow> nat \<Rightarrow> match_state \<Rightarrow> match_state" where
  "add_match p i j st =
     (let o_idx = (if mp_prefer_remote p then i else j); a_idx = (if mp_prefer_remote p then j else i)
      in st\<lparr>mo_pt_offer := mo_pt_offer st @ [m_fmt (mp_offer p) ! o_idx],
           mo_pt_answer := mo_pt_answer st @ [m_fmt (mo_preanswer st) ! a_idx]\<rparr>)"

definition match_static :: "match_params \<Rightarrow> u32 \<Rightarrow> match_state \<Rightarrow> match_state" where
  "match_static p pt st =
     (let st = st\<lparr>mo_master_has_codec := True\<rparr>; slave = mo_slave p st
      in if \<not> mp_multiple p \<and> mo_found_codec st then st
         else case find (\<lambda>f. uint_of_fmt f = pt \<and> pj_isdigit (cur_char f)) (m_fmt slave) of
                None \<Rightarrow> st
              | Some f \<Rightarrow>
                  st\<lparr>mo_found_codec := True, mo_pt_offer := mo_pt_offer st @ [f],
                     mo_pt_answer := mo_pt_answer st @ [f], mo_clockrate := add_once 8000 (mo_clockrate st)\<rparr>)"

definition rtpmap_matches :: "pjmedia_sdp_rtpmap \<Rightarrow> pjmedia_sdp_rtpmap \<Rightarrow> bool" where
  "rtpmap_matches r_off lr \<longleftrightarrow>
     stricmp_eq (rm_enc_name r_off) (rm_enc_name lr) \<and> rm_clock_rate r_off = rm_clock_rate lr \<and>
     (stricmp_eq (rm_param r_off) (rm_param lr) \<or>
      rm_param lr = [] \<and> one_channel (rm_param r_off) \<or>
      rm_param r_off = [] \<and> one_channel (rm_param lr))"

text \<open>The loop over the slave's formats, from index \<open>j\<close> on, for a dynamic payload type of the master.\<close>

fun match_dynamic ::
  "nat \<Rightarrow> match_params \<Rightarrow> nat \<Rightarrow> pjmedia_sdp_rtpmap \<Rightarrow> bool \<Rightarrow> nat \<Rightarrow> match_state \<Rightarrow> match_state" where
  "match_dynamic 0 p i r_off is_codec j st = st"
| "match_dynamic (Suc n) p i r_off is_codec j st =
     (case fmt_rtpmap (mo_slave p st) (m_fmt (mo_slave p st) ! j) of
        None \<Rightarrow> match_dynamic n p i r_off is_codec (Suc j) st
      | Some lr \<Rightarrow>
          if \<not> rtpmap_matches r_off lr then match_dynamic n p i r_off is_codec (Suc j) st
          else if is_codec
          then (let o_idx = (if mp_prefer_remote p then i else j); a_idx = (if mp_prefer_remote p then j else i);
                    (status, pre) = custom_fmt_match (mp_env p) (rm_enc_name r_off) (mp_offer p) o_idx
                                      (mo_preanswer st) a_idx True;
                    st = st\<lparr>mo_preanswer := pre\<rparr>
                in if status \<noteq> PJ_SUCCESS then match_dynamic n p i r_off is_codec (Suc j) st
                   else add_match p i j
                          (st\<lparr>mo_found_codec := True, mo_clockrate := add_once (rm_clock_rate r_off) (mo_clockrate st)\<rparr>))
          else if rm_clock_rate r_off \<in> set (mo_tel_clockrate st)
          then match_dynamic n p i r_off is_codec (Suc j) st
          else add_match p i j
                 (st\<lparr>mo_tel_clockrate := mo_tel_clockrate st @ [rm_clock_rate r_off], mo_found_tel_event := True\<rparr>))"

definition TELEPHONE_EVENT :: "u8 list" where "TELEPHONE_EVENT = pj_str ''telephone-event''"

definition match_other :: "match_params \<Rightarrow> nat \<Rightarrow> u8 list \<Rightarrow> match_state \<Rightarrow> match_state" where
  "match_other p i fmt st =
     (let st = st\<lparr>mo_master_has_other := True\<rparr>
      in if mo_found_other st then st
         else case find_index (\<lambda>f. fmt = f) (m_fmt (mo_slave p st)) of
                None \<Rightarrow> st
              | Some j \<Rightarrow> add_match p i j (st\<lparr>mo_found_other := True\<rparr>))"

text \<open>One format of the master.\<close>

definition match_fmt :: "match_params \<Rightarrow> nat \<Rightarrow> match_state \<Rightarrow> pj_status + match_state" where
  "match_fmt p i st =
     (let fmt = m_fmt (mo_master p st) ! i
      in if pj_isdigit (cur_char fmt)
         then (if uint_of_fmt fmt < 96 then Inr (match_static p (uint_of_fmt fmt) st)
               else case fmt_rtpmap (mo_master p st) fmt of
                      None \<Rightarrow> Inl PJMEDIA_SDP_EMISSINGRTPMAP
                    | Some r_off \<Rightarrow>
                        if \<not> stricmp_eq (rm_enc_name r_off) TELEPHONE_EVENT
                        then (let st = st\<lparr>mo_master_has_codec := True\<rparr>
                              in if \<not> mp_multiple p \<and> mo_found_codec st then Inr st
                                 else Inr (match_dynamic (length (m_fmt (mo_slave p st))) p i r_off True 0 st))
                        else Inr (match_dynamic (length (m_fmt (mo_slave p st))) p i r_off False 0 st))
         else Inr (match_other p i fmt st))"

fun match_fmts :: "match_params \<Rightarrow> nat list \<Rightarrow> match_state \<Rightarrow> pj_status \<times> match_state" where
  "match_fmts p [] st = (PJ_SUCCESS, st)"
| "match_fmts p (i # is) st =
     (case match_fmt p i st of Inl err \<Rightarrow> (err, st) | Inr st \<Rightarrow> match_fmts p is st)"

text \<open>
  The loop that drops unwanted telephone events: the pairs that stay, the first telephone event, and the
  number of those that stay.
\<close>

fun drop_tel_events ::
  "pjmedia_sdp_media \<Rightarrow> u32 list \<Rightarrow> (u8 list \<times> u8 list) list \<Rightarrow> u8 list \<times> u8 list \<Rightarrow> nat \<Rightarrow>
   ((u8 list \<times> u8 list) list \<times> (u8 list \<times> u8 list) \<times> nat) option" where
  "drop_tel_events pre clockrate [] first cnt = Some ([], first, cnt)"
| "drop_tel_events pre clockrate ((pt_offer, pt_answer) # pts) first cnt =
     (let keep = map_option (\<lambda>(kept, r). ((pt_offer, pt_answer) # kept, r))
      in if \<not> pj_isdigit (cur_char pt_answer) \<or> pj_strtol pt_answer < 96
         then keep (drop_tel_events pre clockrate pts first cnt)
         else case fmt_rtpmap pre pt_answer of
                None \<Rightarrow> None
              | Some r \<Rightarrow>
                  if \<not> stricmp_eq (rm_enc_name r) TELEPHONE_EVENT
                  then keep (drop_tel_events pre clockrate pts first cnt)
                  else let first = (if fst first = [] then (pt_offer, pt_answer) else first)
                       in if rm_clock_rate r \<notin> set clockrate then drop_tel_events pre clockrate pts first cnt
                          else keep (drop_tel_events pre clockrate pts first (Suc cnt)))"

definition wanted_pts :: "match_state \<Rightarrow> (u8 list \<times> u8 list) list option" where
  "wanted_pts st =
     (let pts = zip (mo_pt_offer st) (mo_pt_answer st)
      in if \<not> mo_found_tel_event st then Some pts
         else map_option (\<lambda>(kept, first, matched_cnt). if matched_cnt = 0 then kept @ [first] else kept)
                (drop_tel_events (mo_preanswer st) (mo_clockrate st) pts ([], []) 0))"

text \<open>The formats of the answer are brought into the order of the matches by swapping.\<close>

fun reorder_fmts :: "nat \<Rightarrow> u8 list list \<Rightarrow> u8 list list \<Rightarrow> u8 list list option" where
  "reorder_fmts i [] fmts = Some fmts"
| "reorder_fmts i (pt # pts) fmts =
     (case find_index (\<lambda>f. f = pt) (drop i fmts) of
        None \<Rightarrow> None
      | Some k \<Rightarrow> reorder_fmts (Suc i) pts (fmts[i := fmts ! (i + k), i + k := fmts ! i]))"

definition build_answer ::
  "pjmedia_sdp_media \<Rightarrow> pjmedia_sdp_media \<Rightarrow> (u8 list \<times> u8 list) list \<Rightarrow> pjmedia_sdp_media option" where
  "build_answer offer preanswer pts =
     (let answer = pjmedia_sdp_media_clone preanswer
      in case reorder_fmts 0 (map snd pts) (m_fmt answer) of
           None \<Rightarrow> None
         | Some fmts \<Rightarrow>
             (let answer = fold remove_fmt_attrs (drop (length pts) fmts) (answer\<lparr>m_fmt := fmts\<rparr>);
                  answer = answer\<lparr>m_fmt := take (length pts) fmts\<rparr>
              in map_option (update_media_direction offer)
                   (apply_answer_symmetric_pt answer (map fst pts) (map snd pts))))"

text \<open>The answer or the error, and the local media as callbacks left it.\<close>

definition match_offer ::
  "fmt_env \<Rightarrow> bool \<Rightarrow> bool \<Rightarrow> pjmedia_sdp_media \<Rightarrow> pjmedia_sdp_media \<Rightarrow> pjmedia_sdp_session \<Rightarrow>
   ((pj_status + pjmedia_sdp_media) \<times> pjmedia_sdp_media) option" where
  "match_offer env prefer_remote_codec_order answer_with_multiple_codecs offer preanswer preanswer_sdp =
     (if m_port offer = 0 then Some (Inr (sdp_media_clone_deactivate offer preanswer preanswer_sdp), preanswer)
      else if m_port preanswer = 0 then Some (Inr (pjmedia_sdp_media_clone preanswer), preanswer)
      else let p = \<lparr>mp_env = env, mp_prefer_remote = prefer_remote_codec_order,
                    mp_multiple = answer_with_multiple_codecs, mp_offer = offer\<rparr>;
               st0 = \<lparr>mo_master_has_codec = False, mo_master_has_other = False, mo_found_codec = False,
                      mo_found_tel_event = False, mo_found_other = False, mo_pt_offer = [], mo_pt_answer = [],
                      mo_clockrate = [], mo_tel_clockrate = [], mo_preanswer = preanswer\<rparr>;
               (status, st) = match_fmts p [0..<length (m_fmt (mo_master p st0))] st0
           in if status \<noteq> PJ_SUCCESS then Some (Inl status, mo_preanswer st)
              else if mo_master_has_codec st \<and> \<not> mo_found_codec st
              then Some (Inl PJMEDIA_SDPNEG_NOANSCODEC, mo_preanswer st)
              else if mo_master_has_other st \<and> \<not> mo_found_other st
              then Some (Inl PJMEDIA_SDPNEG_NOANSUNKNOWN, mo_preanswer st)
              else case wanted_pts st of
                     None \<Rightarrow> None
                   | Some pts \<Rightarrow>
                       map_option (\<lambda>a. (Inr a, mo_preanswer st)) (build_answer offer (mo_preanswer st) pts))"

definition media_proto :: "pjmedia_sdp_media \<Rightarrow> u32" where
  "media_proto m =
     PJMEDIA_TP_PROTO_TRIM_FLAG (pjmedia_sdp_transport_get_proto (m_transport m)) PJMEDIA_TP_PROFILE_RTCP_FB"

text \<open>
  The search for a local media that can answer an offered one: the local media as callbacks left them, which of them
  are used, and the last error.
\<close>

fun find_answer_media ::
  "fmt_env \<Rightarrow> bool \<Rightarrow> bool \<Rightarrow> pjmedia_sdp_session \<Rightarrow> pjmedia_sdp_media \<Rightarrow> nat list \<Rightarrow>
   pjmedia_sdp_media list \<times> bool list \<times> pj_status \<Rightarrow>
   (pjmedia_sdp_media option \<times> pjmedia_sdp_media list \<times> bool list \<times> pj_status) option" where
  "find_answer_media env pref multi initial om [] st = Some (None, st)"
| "find_answer_media env pref multi initial om (j # js) (ims, media_used, status) =
     (let im = ims ! j
      in if m_media om = m_media im \<and> media_proto om = media_proto im \<and> \<not> media_used ! j
         then (case match_offer env pref multi om im initial of
                 None \<Rightarrow> None
               | Some (Inr am, im') \<Rightarrow> Some (Some am, ims[j := im'], media_used[j := True], status)
               | Some (Inl status2, im') \<Rightarrow>
                   find_answer_media env pref multi initial om js (ims[j := im'], media_used, status2))
         else find_answer_media env pref multi initial om js (ims, media_used, status))"

fun answer_medias ::
  "fmt_env \<Rightarrow> bool \<Rightarrow> bool \<Rightarrow> pjmedia_sdp_session \<Rightarrow> pjmedia_sdp_media list \<Rightarrow>
   pjmedia_sdp_media list \<times> bool list \<times> pj_status \<Rightarrow> (pjmedia_sdp_media list \<times> pj_status) option" where
  "answer_medias env pref multi initial [] (ims, media_used, status) = Some ([], status)"
| "answer_medias env pref multi initial (om # oms) st =
     (case find_answer_media env pref multi initial om [0..<length (fst st)] st of
        None \<Rightarrow> None
      | Some (am, st) \<Rightarrow>
          map_option (\<lambda>(ams, status).
              ((case am of Some m \<Rightarrow> m | None \<Rightarrow> sdp_media_clone_deactivate om om initial) # ams, status))
            (answer_medias env pref multi initial oms st))"

text \<open>\<open>status\<close> is overwritten by the result of the validation before the loop.\<close>

definition create_answer ::
  "fmt_env \<Rightarrow> bool \<Rightarrow> bool \<Rightarrow> pjmedia_sdp_session \<Rightarrow> pjmedia_sdp_session \<Rightarrow>
   (pj_status \<times> pjmedia_sdp_session option) option" where
  "create_answer env prefer_remote_codec_order answer_with_multiple_codecs initial offer =
     (let status = pjmedia_sdp_validate offer
      in if status \<noteq> PJ_SUCCESS then Some (status, None)
         else let answer = pjmedia_sdp_session_clone initial
              in case answer_medias env prefer_remote_codec_order answer_with_multiple_codecs initial (s_media offer)
                        (s_media initial, replicate (length (s_media initial)) False, status) of
                   None \<Rightarrow> None
                 | Some (ams, status) \<Rightarrow>
                     Some (if list_ex (\<lambda>m. m_port m \<noteq> 0) ams then PJ_SUCCESS else status,
                           Some (answer\<lparr>s_media := ams\<rparr>)))"

section \<open>Payload types and codecs\<close>

definition START_DYNAMIC_PT :: nat where "START_DYNAMIC_PT = 96"
definition DYNAMIC_PT_SIZE :: nat where "DYNAMIC_PT_SIZE = 127 - START_DYNAMIC_PT + 1"
definition UNKNOWN_CODEC :: int where "UNKNOWN_CODEC = 99"
definition PJMEDIA_CODEC_MGR_MAX_CODECS :: nat where "PJMEDIA_CODEC_MGR_MAX_CODECS = 32"
definition PJMEDIA_RTP_PT_TELEPHONE_EVENTS :: nat where "PJMEDIA_RTP_PT_TELEPHONE_EVENTS = 120"

fun strnicmp_diff :: "u8 list \<Rightarrow> u8 list \<Rightarrow> int" where
  "strnicmp_diff (x # xs) (y # ys) =
     (if pj_tolower x \<noteq> pj_tolower y then uint (pj_tolower x) - uint (pj_tolower y)
      else if x = 0 then 0 else strnicmp_diff xs ys)"
| "strnicmp_diff xs ys = 0"

definition pj_stricmp :: "u8 list \<Rightarrow> u8 list \<Rightarrow> int" where
  "pj_stricmp str1 str2 =
     (if str1 = [] then (if str2 = [] then 0 else - 1)
      else if str2 = [] then 1
      else let res = strnicmp_diff str1 str2
           in if res = 0 then (if length str1 < length str2 then - 1 else if length str1 = length str2 then 0 else 1)
              else res)"

text \<open>The binary search, when \<open>found\<close> is a null pointer.\<close>

function find_codec_loop :: "u8 list list \<Rightarrow> u8 list \<Rightarrow> int \<Rightarrow> int \<Rightarrow> int" where
  "find_codec_loop dyn_codecs codec start end =
     (if start \<le> end
      then let mid = start + (end - start) div 2;
               cmp = pj_stricmp (dyn_codecs ! nat mid) codec
           in if cmp = 0 then mid
              else if cmp < 0 then find_codec_loop dyn_codecs codec (mid + 1) end
              else find_codec_loop dyn_codecs codec start (mid - 1)
      else - 1)"
  by pat_completeness auto
termination by (relation "measure (\<lambda>(d, c, s, e). nat (e + 1 - s))") auto

declare find_codec_loop.simps [simp del]

definition pjmedia_codec_mgr_find_codec :: "u8 list list \<Rightarrow> u8 list \<Rightarrow> int" where
  "pjmedia_codec_mgr_find_codec dyn_codecs codec = find_codec_loop dyn_codecs codec 0 (int (length dyn_codecs) - 1)"

definition pjmedia_codec_info_to_id :: "u8 list \<Rightarrow> u32 \<Rightarrow> u32 \<Rightarrow> u8 list" where
  "pjmedia_codec_info_to_id encoding_name clock_rate channel_cnt =
     (let id = c_string encoding_name @ [47] @ pj_utoa (unat clock_rate) @ [47] @ pj_utoa (unat channel_cnt)
      in if length id < 1 \<or> length id \<ge> 32 then [] else id)"

fun find_pt_loop :: "int list \<Rightarrow> bool list \<Rightarrow> int \<Rightarrow> nat list \<Rightarrow> nat option \<Rightarrow> nat option" where
  "find_pt_loop pt_to_codec used codec_idx [] result = result"
| "find_pt_loop pt_to_codec used codec_idx (idx # is) result =
     (if used ! idx then find_pt_loop pt_to_codec used codec_idx is result
      else if pt_to_codec ! idx = codec_idx then Some idx
      else if pt_to_codec ! idx = - 1 \<and> (result = None \<or> pt_to_codec ! the result \<noteq> - 1)
      then find_pt_loop pt_to_codec used codec_idx is (Some idx)
      else if result = None then find_pt_loop pt_to_codec used codec_idx is (Some idx)
      else find_pt_loop pt_to_codec used codec_idx is result)"

text \<open>\<open>None\<close>: every number is used, and the code reads before the start of the array.\<close>

definition find_new_pt :: "int list \<Rightarrow> bool list \<Rightarrow> u8 list \<Rightarrow> int \<Rightarrow> nat option" where
  "find_new_pt pt_to_codec used codec codec_idx =
     (let start = (if pj_strnicmp_eq codec TELEPHONE_EVENT (length TELEPHONE_EVENT)
                   then PJMEDIA_RTP_PT_TELEPHONE_EVENTS - START_DYNAMIC_PT else 0)
      in map_option (\<lambda>result. START_DYNAMIC_PT + result)
           (find_pt_loop pt_to_codec used codec_idx ([start..<DYNAMIC_PT_SIZE] @ [0..<start]) None))"

text \<open>The maps of one media, and what the loops over it keep track of.\<close>

record pt_maps =
  pm_pt_to_codec :: "int list"
  pm_codec_to_pt :: "nat list"
  pm_used :: "bool list"
  pm_change :: "nat list"

definition rtpmap_codec_idx :: "u8 list list \<Rightarrow> pjmedia_sdp_rtpmap \<Rightarrow> int \<times> u8 list" where
  "rtpmap_codec_idx dyn_codecs rtpmap =
     (let channel_cnt = (if rm_param rtpmap \<noteq> [] then ucast (pj_strtoul (rm_param rtpmap)) else 1);
          codec = pjmedia_codec_info_to_id (rm_enc_name rtpmap) (rm_clock_rate rtpmap) channel_cnt;
          codec_idx = pjmedia_codec_mgr_find_codec dyn_codecs codec
      in (if codec_idx < 0 then UNKNOWN_CODEC else codec_idx, codec))"

definition update_maps :: "nat \<Rightarrow> int \<Rightarrow> pt_maps \<Rightarrow> pt_maps" where
  "update_maps pt codec_idx pm =
     pm\<lparr>pm_pt_to_codec := (pm_pt_to_codec pm)[pt - START_DYNAMIC_PT := codec_idx],
        pm_codec_to_pt := (if codec_idx \<noteq> UNKNOWN_CODEC then (pm_codec_to_pt pm)[nat codec_idx := pt]
                           else pm_codec_to_pt pm)\<rparr>"

text \<open>The payload type for a codec: the second number of the result is the new one, or the old one again.\<close>

definition choose_pt :: "bool \<Rightarrow> nat \<Rightarrow> int \<Rightarrow> u8 list \<Rightarrow> pt_maps \<Rightarrow> nat option" where
  "choose_pt is_offer pt codec_idx codec pm =
     (let pt_to_codec = pm_pt_to_codec pm ! (pt - START_DYNAMIC_PT);
          codec_to_pt = (if codec_idx \<noteq> UNKNOWN_CODEC then pm_codec_to_pt pm ! nat codec_idx else 0);
          need_new_pt = (pt_to_codec \<noteq> - 1 \<and> pt_to_codec \<noteq> codec_idx \<or> pm_used pm ! (pt - START_DYNAMIC_PT));
          new_pt = (if codec_to_pt \<noteq> 0 \<and> \<not> pm_used pm ! (codec_to_pt - START_DYNAMIC_PT) \<and> (need_new_pt \<or> is_offer)
                    then codec_to_pt else 0)
      in if need_new_pt \<and> new_pt = 0 then find_new_pt (pm_pt_to_codec pm) (pm_used pm) codec codec_idx
         else Some (if new_pt \<noteq> 0 then new_pt else pt))"

definition assign_attr_pt ::
  "u8 list list \<Rightarrow> bool \<Rightarrow> bool \<Rightarrow> pjmedia_sdp_attr \<Rightarrow> pt_maps \<Rightarrow> (pjmedia_sdp_attr \<times> pt_maps) option" where
  "assign_attr_pt dyn_codecs is_offer update_only attr pm =
     (if a_name attr \<noteq> STR_RTPMAP then Some (attr, pm)
      else let (status, rtpmap) = pjmedia_sdp_attr_get_rtpmap attr; pt = unat (uint_of_fmt (rm_pt rtpmap))
           in if status \<noteq> PJ_SUCCESS \<or> pt < START_DYNAMIC_PT then Some (attr, pm)
              else if pt - START_DYNAMIC_PT \<ge> DYNAMIC_PT_SIZE then None
              else let (codec_idx, codec) = rtpmap_codec_idx dyn_codecs rtpmap
                   in if update_only then Some (attr, update_maps pt codec_idx pm)
                      else case choose_pt is_offer pt codec_idx codec pm of
                             None \<Rightarrow> None
                           | Some new_pt \<Rightarrow>
                               (case (if new_pt \<noteq> pt then rewrite_pt2 (a_value attr) pt new_pt else Some (a_value attr)) of
                                  None \<Rightarrow> None
                                | Some v \<Rightarrow>
                                    (let pm = pm\<lparr>pm_used := (pm_used pm)[new_pt - START_DYNAMIC_PT := True],
                                                 pm_change := (pm_change pm)[pt - START_DYNAMIC_PT := new_pt]\<rparr>
                                     in Some (attr\<lparr>a_value := v\<rparr>, update_maps new_pt codec_idx pm))))"

fun assign_attr_pts ::
  "u8 list list \<Rightarrow> bool \<Rightarrow> bool \<Rightarrow> pjmedia_sdp_attr list \<Rightarrow> pt_maps \<Rightarrow> (pjmedia_sdp_attr list \<times> pt_maps) option" where
  "assign_attr_pts dyn_codecs is_offer update_only [] pm = Some ([], pm)"
| "assign_attr_pts dyn_codecs is_offer update_only (a # as) pm =
     (case assign_attr_pt dyn_codecs is_offer update_only a pm of
        None \<Rightarrow> None
      | Some (a', pm) \<Rightarrow>
          map_option (\<lambda>(as', pm). (a' # as', pm)) (assign_attr_pts dyn_codecs is_offer update_only as pm))"

text \<open>The number of a text is replaced if the number has changed.\<close>

definition change_pt :: "nat list \<Rightarrow> u8 list \<Rightarrow> u8 list \<Rightarrow> u8 list option" where
  "change_pt pt_change fmt text =
     (let pt = unat (uint_of_fmt fmt)
      in if pt < START_DYNAMIC_PT then Some text
         else if pt - START_DYNAMIC_PT \<ge> DYNAMIC_PT_SIZE then None
         else let new_pt = pt_change ! (pt - START_DYNAMIC_PT)
              in if new_pt = 0 \<or> new_pt = pt then Some text else rewrite_pt2 text pt new_pt)"

definition change_fmtp :: "nat list \<Rightarrow> pjmedia_sdp_attr \<Rightarrow> pjmedia_sdp_attr option" where
  "change_fmtp pt_change attr =
     (if a_name attr \<noteq> STR_FMTP then Some attr
      else case pjmedia_sdp_attr_get_fmtp attr of
             Inl _ \<Rightarrow> Some attr
           | Inr fmtp \<Rightarrow> map_option (\<lambda>v. attr\<lparr>a_value := v\<rparr>) (change_pt pt_change (fp_fmt fmtp) (a_value attr)))"

text \<open>A loop that stops when one round has no result.\<close>

fun map_all :: "('a \<Rightarrow> 'b option) \<Rightarrow> 'a list \<Rightarrow> 'b list option" where
  "map_all f [] = Some []"
| "map_all f (x # xs) = (case f x of None \<Rightarrow> None | Some y \<Rightarrow> map_option (Cons y) (map_all f xs))"

definition is_audio :: "pjmedia_sdp_media \<Rightarrow> bool" where
  "is_audio m \<longleftrightarrow> stricmp_eq (m_media m) (pj_str ''audio'')"

definition assign_media_pt ::
  "u8 list list \<Rightarrow> bool \<Rightarrow> bool \<Rightarrow> pjmedia_sdp_media \<Rightarrow> int list \<times> nat list \<Rightarrow>
   (pjmedia_sdp_media \<times> (int list \<times> nat list)) option" where
  "assign_media_pt dyn_codecs is_offer update_only sdp_m rows =
     (if m_port sdp_m = 0
      then Some (sdp_m, replicate DYNAMIC_PT_SIZE (- 1), replicate PJMEDIA_CODEC_MGR_MAX_CODECS 0)
      else if \<not> is_audio sdp_m then Some (sdp_m, rows)
      else case assign_attr_pts dyn_codecs is_offer update_only (m_attr sdp_m)
                  \<lparr>pm_pt_to_codec = fst rows, pm_codec_to_pt = snd rows,
                   pm_used = replicate DYNAMIC_PT_SIZE False, pm_change = replicate DYNAMIC_PT_SIZE 0\<rparr> of
             None \<Rightarrow> None
           | Some (attrs, pm) \<Rightarrow>
               if update_only then Some (sdp_m, pm_pt_to_codec pm, pm_codec_to_pt pm)
               else case map_all (change_fmtp (pm_change pm)) attrs of
                      None \<Rightarrow> None
                    | Some attrs \<Rightarrow>
                        map_option
                          (\<lambda>fmts. (sdp_m\<lparr>m_attr := attrs, m_fmt := fmts\<rparr>, pm_pt_to_codec pm, pm_codec_to_pt pm))
                          (map_all (\<lambda>f. change_pt (pm_change pm) f f) (m_fmt sdp_m)))"

fun assign_medias_pt ::
  "u8 list list \<Rightarrow> bool \<Rightarrow> bool \<Rightarrow> pjmedia_sdp_media list \<Rightarrow> (int list \<times> nat list) list \<Rightarrow>
   (pjmedia_sdp_media list \<times> (int list \<times> nat list) list) option" where
  "assign_medias_pt dyn_codecs is_offer update_only [] rows = Some ([], rows)"
| "assign_medias_pt dyn_codecs is_offer update_only (m # ms) rows =
     (case rows of
        [] \<Rightarrow> None
      | r # rs \<Rightarrow>
          (case assign_media_pt dyn_codecs is_offer update_only m r of
             None \<Rightarrow> None
           | Some (m', r') \<Rightarrow>
               map_option (\<lambda>(ms', rs'). (m' # ms', r' # rs')) (assign_medias_pt dyn_codecs is_offer update_only ms rs)))"

section \<open>The negotiator\<close>

datatype pjmedia_sdp_neg_state =
    PJMEDIA_SDP_NEG_STATE_NULL | PJMEDIA_SDP_NEG_STATE_LOCAL_OFFER | PJMEDIA_SDP_NEG_STATE_REMOTE_OFFER
  | PJMEDIA_SDP_NEG_STATE_WAIT_NEGO | PJMEDIA_SDP_NEG_STATE_DONE

text \<open>
  The descriptions are values: where two pointers share one (\<open>last_sent\<close> with the offer or the answer it was), the
  code changes it only before they do. \<open>n_maps\<close> has a pair of maps for each media line.
\<close>

record pjmedia_sdp_neg =
  n_state :: pjmedia_sdp_neg_state
  n_prefer_remote_codec_order :: bool
  n_answer_with_multiple_codecs :: bool
  n_has_remote_answer :: bool
  n_answer_was_remote :: bool
  n_maps :: "(int list \<times> nat list) list"
  n_aud_dyn_codecs :: "u8 list list"
  n_initial_sdp :: "pjmedia_sdp_session option"
  n_initial_sdp_tmp :: "pjmedia_sdp_session option"
  n_active_local_sdp :: "pjmedia_sdp_session option"
  n_active_remote_sdp :: "pjmedia_sdp_session option"
  n_neg_local_sdp :: "pjmedia_sdp_session option"
  n_neg_remote_sdp :: "pjmedia_sdp_session option"
  n_last_sent :: "pjmedia_sdp_session option"

definition init_mapping :: "u8 list list \<Rightarrow> pjmedia_sdp_neg \<Rightarrow> pjmedia_sdp_neg" where
  "init_mapping mgr_dyn_codecs neg =
     neg\<lparr>n_aud_dyn_codecs := take PJMEDIA_CODEC_MGR_MAX_CODECS mgr_dyn_codecs,
         n_maps := replicate PJMEDIA_MAX_SDP_MEDIA
           (replicate DYNAMIC_PT_SIZE (- 1), replicate PJMEDIA_CODEC_MGR_MAX_CODECS 0)\<rparr>"

definition neg0 :: pjmedia_sdp_neg where
  "neg0 = \<lparr>n_state = PJMEDIA_SDP_NEG_STATE_NULL, n_prefer_remote_codec_order = False,
     n_answer_with_multiple_codecs = False, n_has_remote_answer = False, n_answer_was_remote = False,
     n_maps = [], n_aud_dyn_codecs = [], n_initial_sdp = None, n_initial_sdp_tmp = None,
     n_active_local_sdp = None, n_active_remote_sdp = None, n_neg_local_sdp = None, n_neg_remote_sdp = None,
     n_last_sent = None\<rparr>"

definition PJMEDIA_SDP_NEG_PREFER_REMOTE_CODEC_ORDER :: bool where "PJMEDIA_SDP_NEG_PREFER_REMOTE_CODEC_ORDER = True"
definition PJMEDIA_SDP_NEG_ANSWER_MULTIPLE_CODECS :: bool where "PJMEDIA_SDP_NEG_ANSWER_MULTIPLE_CODECS = False"

definition pjmedia_sdp_neg_create_w_local_offer ::
  "u8 list list \<Rightarrow> pjmedia_sdp_session \<Rightarrow> pj_status + pjmedia_sdp_neg" where
  "pjmedia_sdp_neg_create_w_local_offer mgr_dyn_codecs loc =
     (if pjmedia_sdp_validate loc \<noteq> PJ_SUCCESS then Inl (pjmedia_sdp_validate loc)
      else Inr (init_mapping mgr_dyn_codecs (neg0\<lparr>
        n_state := PJMEDIA_SDP_NEG_STATE_LOCAL_OFFER,
        n_prefer_remote_codec_order := PJMEDIA_SDP_NEG_PREFER_REMOTE_CODEC_ORDER,
        n_answer_with_multiple_codecs := PJMEDIA_SDP_NEG_ANSWER_MULTIPLE_CODECS,
        n_initial_sdp := Some (pjmedia_sdp_session_clone loc),
        n_neg_local_sdp := Some (pjmedia_sdp_session_clone loc),
        n_last_sent := Some (pjmedia_sdp_session_clone loc)\<rparr>)))"

definition pjmedia_sdp_neg_create_w_remote_offer ::
  "u8 list list \<Rightarrow> pjmedia_sdp_session option \<Rightarrow> pjmedia_sdp_session \<Rightarrow> pj_status + pjmedia_sdp_neg" where
  "pjmedia_sdp_neg_create_w_remote_offer mgr_dyn_codecs initial remote =
     (if pjmedia_sdp_validate2 remote False \<noteq> PJ_SUCCESS then Inl (pjmedia_sdp_validate2 remote False)
      else let neg = neg0\<lparr>
             n_prefer_remote_codec_order := PJMEDIA_SDP_NEG_PREFER_REMOTE_CODEC_ORDER,
             n_answer_with_multiple_codecs := PJMEDIA_SDP_NEG_ANSWER_MULTIPLE_CODECS,
             n_neg_remote_sdp := Some (pjmedia_sdp_session_clone remote)\<rparr>
           in case initial of
                Some loc \<Rightarrow>
                  if pjmedia_sdp_validate loc \<noteq> PJ_SUCCESS then Inl (pjmedia_sdp_validate loc)
                  else Inr (init_mapping mgr_dyn_codecs (neg\<lparr>
                    n_initial_sdp := Some (pjmedia_sdp_session_clone loc),
                    n_neg_local_sdp := Some (pjmedia_sdp_session_clone loc),
                    n_state := PJMEDIA_SDP_NEG_STATE_WAIT_NEGO\<rparr>))
              | None \<Rightarrow> Inr (init_mapping mgr_dyn_codecs (neg\<lparr>n_state := PJMEDIA_SDP_NEG_STATE_REMOTE_OFFER\<rparr>)))"

definition pjmedia_sdp_neg_set_prefer_remote_codec_order :: "pjmedia_sdp_neg \<Rightarrow> bool \<Rightarrow> pjmedia_sdp_neg" where
  "pjmedia_sdp_neg_set_prefer_remote_codec_order neg prefer_remote =
     neg\<lparr>n_prefer_remote_codec_order := prefer_remote\<rparr>"

definition pjmedia_sdp_neg_set_answer_multiple_codecs :: "pjmedia_sdp_neg \<Rightarrow> bool \<Rightarrow> pjmedia_sdp_neg" where
  "pjmedia_sdp_neg_set_answer_multiple_codecs neg answer_multiple =
     neg\<lparr>n_answer_with_multiple_codecs := answer_multiple\<rparr>"

definition pjmedia_sdp_neg_get_state :: "pjmedia_sdp_neg \<Rightarrow> pjmedia_sdp_neg_state" where
  "pjmedia_sdp_neg_get_state neg = n_state neg"

definition get_sdp :: "pj_status \<Rightarrow> pjmedia_sdp_session option \<Rightarrow> pj_status + pjmedia_sdp_session" where
  "get_sdp err s = (case s of None \<Rightarrow> Inl err | Some x \<Rightarrow> Inr x)"

definition pjmedia_sdp_neg_get_active_local :: "pjmedia_sdp_neg \<Rightarrow> pj_status + pjmedia_sdp_session" where
  "pjmedia_sdp_neg_get_active_local neg = get_sdp PJMEDIA_SDPNEG_ENOACTIVE (n_active_local_sdp neg)"

definition pjmedia_sdp_neg_get_active_remote :: "pjmedia_sdp_neg \<Rightarrow> pj_status + pjmedia_sdp_session" where
  "pjmedia_sdp_neg_get_active_remote neg = get_sdp PJMEDIA_SDPNEG_ENOACTIVE (n_active_remote_sdp neg)"

definition pjmedia_sdp_neg_was_answer_remote :: "pjmedia_sdp_neg \<Rightarrow> bool" where
  "pjmedia_sdp_neg_was_answer_remote neg = n_answer_was_remote neg"

definition pjmedia_sdp_neg_get_neg_remote :: "pjmedia_sdp_neg \<Rightarrow> pj_status + pjmedia_sdp_session" where
  "pjmedia_sdp_neg_get_neg_remote neg = get_sdp PJMEDIA_SDPNEG_ENONEG (n_neg_remote_sdp neg)"

definition pjmedia_sdp_neg_get_neg_local :: "pjmedia_sdp_neg \<Rightarrow> pj_status + pjmedia_sdp_session" where
  "pjmedia_sdp_neg_get_neg_local neg = get_sdp PJMEDIA_SDPNEG_ENONEG (n_neg_local_sdp neg)"

definition pjmedia_sdp_neg_has_local_answer :: "pjmedia_sdp_neg \<Rightarrow> bool" where
  "pjmedia_sdp_neg_has_local_answer neg \<longleftrightarrow> \<not> n_has_remote_answer neg"

definition assign_pt_and_update_map ::
  "pjmedia_sdp_neg \<Rightarrow> pjmedia_sdp_session \<Rightarrow> bool \<Rightarrow> bool \<Rightarrow> (pjmedia_sdp_session \<times> pjmedia_sdp_neg) option" where
  "assign_pt_and_update_map neg sess is_offer update_only =
     map_option (\<lambda>(ms, rows). (sess\<lparr>s_media := ms\<rparr>, neg\<lparr>n_maps := rows @ drop (length rows) (n_maps neg)\<rparr>))
       (assign_medias_pt (n_aud_dyn_codecs neg) is_offer update_only (s_media sess)
          (take (length (s_media sess)) (n_maps neg)))"

text \<open>The comparison with the last description sent; without one it gives an error, too.\<close>

definition same_as_last_sent :: "pjmedia_sdp_neg \<Rightarrow> pjmedia_sdp_session \<Rightarrow> bool" where
  "same_as_last_sent neg sess =
     (case n_last_sent neg of None \<Rightarrow> False | Some l \<Rightarrow> pjmedia_sdp_session_cmp l sess = PJ_SUCCESS)"

definition incr_version :: "pjmedia_sdp_session \<Rightarrow> pjmedia_sdp_session" where
  "incr_version s = s\<lparr>s_origin := (s_origin s)\<lparr>o_version := o_version (s_origin s) + 1\<rparr>\<rparr>"

text \<open>The media of a new offer, put into the order of the old one, with the missing ones disabled.\<close>

fun fix_media_order ::
  "pjmedia_sdp_session \<Rightarrow> pjmedia_sdp_media list \<Rightarrow> pjmedia_sdp_media list \<Rightarrow> pjmedia_sdp_media list" where
  "fix_media_order loc [] nms = nms"
| "fix_media_order loc (om # oms) nms =
     (case find_index (\<lambda>nm. m_media nm = m_media om) nms of
        Some k \<Rightarrow> nms ! k # fix_media_order loc oms (take k nms @ drop (Suc k) nms)
      | None \<Rightarrow> sdp_media_clone_deactivate om om loc # fix_media_order loc oms nms)"

definition fix_media_count ::
  "pjmedia_sdp_session \<Rightarrow> pjmedia_sdp_media list \<Rightarrow> pjmedia_sdp_media list \<Rightarrow> pjmedia_sdp_media list" where
  "fix_media_count loc oms nms = nms @ map (\<lambda>om. sdp_media_clone_deactivate om om loc) (drop (length nms) oms)"

definition PJMEDIA_SDP_NEG_ALLOW_MEDIA_CHANGE :: u32 where "PJMEDIA_SDP_NEG_ALLOW_MEDIA_CHANGE = 1"

text \<open>Media lines beyond the array are written past its end.\<close>

definition pjmedia_sdp_neg_modify_local_offer2 ::
  "pjmedia_sdp_neg \<Rightarrow> u32 \<Rightarrow> pjmedia_sdp_session \<Rightarrow> (pj_status \<times> pjmedia_sdp_neg) option" where
  "pjmedia_sdp_neg_modify_local_offer2 neg flags loc =
     (if n_state neg \<noteq> PJMEDIA_SDP_NEG_STATE_DONE then Some (PJMEDIA_SDPNEG_EINSTATE, neg)
      else if pjmedia_sdp_validate loc \<noteq> PJ_SUCCESS then Some (pjmedia_sdp_validate loc, neg)
      else let neg = neg\<lparr>n_state := PJMEDIA_SDP_NEG_STATE_LOCAL_OFFER\<rparr>
           in case n_active_local_sdp neg of
                None \<Rightarrow>
                  (case assign_pt_and_update_map neg (pjmedia_sdp_session_clone loc) True False of
                     None \<Rightarrow> None
                   | Some (initial, neg) \<Rightarrow>
                       (let offer = (if same_as_last_sent neg initial then initial else incr_version initial)
                        in Some (PJ_SUCCESS, neg\<lparr>n_initial_sdp_tmp := None, n_initial_sdp := Some initial,
                             n_neg_local_sdp := Some offer, n_last_sent := Some offer\<rparr>)))
              | Some old_offer \<Rightarrow>
                  (let new_offer = pjmedia_sdp_session_clone loc;
                       oms = s_media old_offer; nms = s_media new_offer;
                       ms = (if (flags AND PJMEDIA_SDP_NEG_ALLOW_MEDIA_CHANGE) = 0 then fix_media_order loc oms nms
                             else fix_media_count loc oms nms);
                       new_offer = new_offer\<lparr>
                         s_origin := (s_origin old_offer)\<lparr>o_version := o_version (s_origin old_offer)\<rparr>,
                         s_media := ms\<rparr>
                   in if length ms > PJMEDIA_MAX_SDP_MEDIA then None
                      else case assign_pt_and_update_map neg new_offer True False of
                        None \<Rightarrow> None
                      | Some (new_offer, neg) \<Rightarrow>
                          (let new_offer = (if same_as_last_sent neg new_offer then new_offer
                                            else incr_version new_offer)
                           in Some (PJ_SUCCESS, neg\<lparr>n_initial_sdp_tmp := n_initial_sdp neg,
                                n_initial_sdp := Some new_offer, n_neg_local_sdp := Some new_offer,
                                n_last_sent := Some new_offer\<rparr>))))"

definition pjmedia_sdp_neg_modify_local_offer ::
  "pjmedia_sdp_neg \<Rightarrow> pjmedia_sdp_session \<Rightarrow> (pj_status \<times> pjmedia_sdp_neg) option" where
  "pjmedia_sdp_neg_modify_local_offer neg loc = pjmedia_sdp_neg_modify_local_offer2 neg 0 loc"

definition pjmedia_sdp_neg_send_local_offer ::
  "pjmedia_sdp_neg \<Rightarrow> (pj_status + pjmedia_sdp_session option) \<times> pjmedia_sdp_neg" where
  "pjmedia_sdp_neg_send_local_offer neg =
     (if n_state neg \<noteq> PJMEDIA_SDP_NEG_STATE_DONE \<and> n_state neg \<noteq> PJMEDIA_SDP_NEG_STATE_LOCAL_OFFER
      then (Inl PJMEDIA_SDPNEG_EINSTATE, neg)
      else if n_state neg = PJMEDIA_SDP_NEG_STATE_DONE
      then (case (n_active_local_sdp neg, n_last_sent neg) of
              (Some active, Some l) \<Rightarrow>
                (let neg = (if n_initial_sdp neg \<noteq> None
                            then neg\<lparr>n_initial_sdp_tmp := n_initial_sdp neg,
                                     n_initial_sdp := map_option pjmedia_sdp_session_clone (n_initial_sdp neg)\<rparr>
                            else neg);
                     new_offer = pjmedia_sdp_session_clone active;
                     new_offer = (if same_as_last_sent neg new_offer then new_offer else incr_version new_offer)
                 in (Inr (Some new_offer),
                     neg\<lparr>n_state := PJMEDIA_SDP_NEG_STATE_LOCAL_OFFER, n_neg_local_sdp := Some new_offer,
                         n_last_sent := Some new_offer\<rparr>))
            | _ \<Rightarrow> (Inl PJMEDIA_SDPNEG_ENOACTIVE, neg))
      else (Inr (n_neg_local_sdp neg), neg))"

definition pjmedia_sdp_neg_set_remote_answer ::
  "pjmedia_sdp_neg \<Rightarrow> pjmedia_sdp_session \<Rightarrow> pj_status \<times> pjmedia_sdp_neg" where
  "pjmedia_sdp_neg_set_remote_answer neg remote =
     (if n_state neg \<noteq> PJMEDIA_SDP_NEG_STATE_LOCAL_OFFER then (PJMEDIA_SDPNEG_EINSTATE, neg)
      else (PJ_SUCCESS, neg\<lparr>n_state := PJMEDIA_SDP_NEG_STATE_WAIT_NEGO, n_has_remote_answer := True,
              n_neg_remote_sdp := Some (pjmedia_sdp_session_clone remote)\<rparr>))"

definition pjmedia_sdp_neg_set_remote_offer ::
  "pjmedia_sdp_neg \<Rightarrow> pjmedia_sdp_session \<Rightarrow> pj_status \<times> pjmedia_sdp_neg" where
  "pjmedia_sdp_neg_set_remote_offer neg remote =
     (if n_state neg \<noteq> PJMEDIA_SDP_NEG_STATE_DONE then (PJMEDIA_SDPNEG_EINSTATE, neg)
      else (PJ_SUCCESS, neg\<lparr>n_state := PJMEDIA_SDP_NEG_STATE_REMOTE_OFFER,
              n_neg_remote_sdp := Some (pjmedia_sdp_session_clone remote)\<rparr>))"

text \<open>A null \<open>local\<close> is refused at the start, so the code for it further down is never reached.\<close>

definition pjmedia_sdp_neg_set_local_answer ::
  "pjmedia_sdp_neg \<Rightarrow> pjmedia_sdp_session option \<Rightarrow> pj_status \<times> pjmedia_sdp_neg" where
  "pjmedia_sdp_neg_set_local_answer neg loc_opt =
     (case loc_opt of
        None \<Rightarrow> (PJ_EINVAL, neg)
      | Some loc \<Rightarrow>
          if n_state neg \<noteq> PJMEDIA_SDP_NEG_STATE_REMOTE_OFFER \<and> n_state neg \<noteq> PJMEDIA_SDP_NEG_STATE_WAIT_NEGO
          then (PJMEDIA_SDPNEG_EINSTATE, neg)
          else let neg = neg\<lparr>n_state := PJMEDIA_SDP_NEG_STATE_WAIT_NEGO\<rparr>; answer = pjmedia_sdp_session_clone loc
               in case n_initial_sdp neg of
                    Some initial \<Rightarrow>
                      (PJ_SUCCESS, neg\<lparr>n_initial_sdp_tmp := Some initial,
                         n_initial_sdp := Some (pjmedia_sdp_session_clone initial),
                         n_neg_local_sdp := Some (answer\<lparr>s_origin := (s_origin answer)\<lparr>o_id := o_id (s_origin initial)\<rparr>\<rparr>)\<rparr>)
                  | None \<Rightarrow>
                      (PJ_SUCCESS, neg\<lparr>n_initial_sdp := Some (pjmedia_sdp_session_clone loc),
                         n_neg_local_sdp := Some answer\<rparr>))"

definition pjmedia_sdp_neg_cancel_offer :: "pjmedia_sdp_neg \<Rightarrow> pj_status \<times> pjmedia_sdp_neg" where
  "pjmedia_sdp_neg_cancel_offer neg =
     (if n_state neg \<noteq> PJMEDIA_SDP_NEG_STATE_LOCAL_OFFER \<and> n_state neg \<noteq> PJMEDIA_SDP_NEG_STATE_REMOTE_OFFER
      then (PJMEDIA_SDPNEG_EINSTATE, neg)
      else let neg = (if n_state neg = PJMEDIA_SDP_NEG_STATE_LOCAL_OFFER
                      then neg\<lparr>n_initial_sdp := n_initial_sdp_tmp neg\<rparr> else neg)
           in (PJ_SUCCESS, neg\<lparr>n_initial_sdp_tmp := None, n_neg_local_sdp := None, n_neg_remote_sdp := None,
                 n_has_remote_answer := False, n_state := PJMEDIA_SDP_NEG_STATE_DONE\<rparr>))"

text \<open>What \<open>negotiate\<close> does at its end, whatever the status.\<close>

definition finish_negotiate :: "pj_status \<Rightarrow> pjmedia_sdp_neg \<Rightarrow> pjmedia_sdp_neg" where
  "finish_negotiate status neg =
     (let neg = neg\<lparr>n_state := PJMEDIA_SDP_NEG_STATE_DONE, n_answer_was_remote := n_has_remote_answer neg\<rparr>;
          neg = (if status \<noteq> PJ_SUCCESS then neg\<lparr>n_initial_sdp := n_initial_sdp_tmp neg\<rparr> else neg)
      in neg\<lparr>n_initial_sdp_tmp := None, n_neg_local_sdp := None, n_neg_remote_sdp := None,
             n_has_remote_answer := False\<rparr>)"

text \<open>A local description is needed, too: without one the code would clone a null pointer.\<close>

definition pjmedia_sdp_neg_negotiate ::
  "fmt_env \<Rightarrow> pjmedia_sdp_neg \<Rightarrow> bool \<Rightarrow> (pj_status \<times> pjmedia_sdp_neg) option" where
  "pjmedia_sdp_neg_negotiate env neg allow_asym =
     (if n_state neg \<noteq> PJMEDIA_SDP_NEG_STATE_WAIT_NEGO then Some (PJMEDIA_SDPNEG_EINSTATE, neg)
      else case n_neg_remote_sdp neg of
        None \<Rightarrow> Some (PJ_EBUG, neg)
      | Some remote \<Rightarrow>
     (case n_neg_local_sdp neg of
        None \<Rightarrow> None
      | Some loc \<Rightarrow>
          if n_has_remote_answer neg
          then (case process_answer env loc remote allow_asym of
                  None \<Rightarrow> None
                | Some (status, active, remote) \<Rightarrow>
                    (let neg = (if status = PJ_SUCCESS
                                then neg\<lparr>n_active_local_sdp := Some active, n_active_remote_sdp := Some remote\<rparr>
                                else neg\<lparr>n_last_sent := map_option pjmedia_sdp_session_clone (n_last_sent neg)\<rparr>)
                     in Some (status, finish_negotiate status neg)))
          else (case create_answer env (n_prefer_remote_codec_order neg) (n_answer_with_multiple_codecs neg) loc remote of
                  None \<Rightarrow> None
                | Some (status, answer_opt) \<Rightarrow>
                    if status \<noteq> PJ_SUCCESS then Some (status, finish_negotiate status neg)
                    else (case assign_pt_and_update_map neg (the answer_opt) False False of
                            None \<Rightarrow> None
                          | Some (answer, neg) \<Rightarrow>
                              (let answer = (case n_last_sent neg of
                                               None \<Rightarrow> answer
                                             | Some l \<Rightarrow>
                                                 answer\<lparr>s_origin := (s_origin answer)\<lparr>o_version := o_version (s_origin l)\<rparr>\<rparr>);
                                   answer = (if same_as_last_sent neg answer then answer else incr_version answer)
                               in Some (PJ_SUCCESS, finish_negotiate PJ_SUCCESS
                                    (neg\<lparr>n_active_local_sdp := Some answer, n_active_remote_sdp := Some remote,
                                         n_last_sent := Some answer\<rparr>)))))))"

definition pjmedia_sdp_neg_fmt_match ::
  "fmt_env \<Rightarrow> pjmedia_sdp_media \<Rightarrow> nat \<Rightarrow> pjmedia_sdp_media \<Rightarrow> nat \<Rightarrow> bool \<Rightarrow> pj_status \<times> pjmedia_sdp_media" where
  "pjmedia_sdp_neg_fmt_match env offer o_fmt_idx answer a_fmt_idx allow_modify =
     (let o_pt = uint_of_fmt (m_fmt offer ! o_fmt_idx); a_pt = uint_of_fmt (m_fmt answer ! a_fmt_idx)
      in if o_pt < 96 \<or> a_pt < 96
         then (if o_pt = a_pt then PJ_SUCCESS else PJMEDIA_SDP_EFORMATNOTEQUAL, answer)
         else case fmt_rtpmap offer (m_fmt offer ! o_fmt_idx) of
                None \<Rightarrow> (PJ_EBUG, answer)
              | Some o_rtpmap \<Rightarrow>
             (case fmt_rtpmap answer (m_fmt answer ! a_fmt_idx) of
                None \<Rightarrow> (PJ_EBUG, answer)
              | Some a_rtpmap \<Rightarrow>
                  if \<not> rtpmap_matches o_rtpmap a_rtpmap then (PJMEDIA_SDP_EFORMATNOTEQUAL, answer)
                  else custom_fmt_match env (rm_enc_name o_rtpmap) offer o_fmt_idx answer a_fmt_idx allow_modify))"

end
