(* ===== verification/Sdp_Neg_Inv.thy ===== *)
theory Sdp_Neg_Inv
  imports Sdp_Neg
begin

text \<open>
  Properties of the offer/answer negotiator: it follows the state diagram of \<open>pjmedia/sdp_neg.h\<close> and changes the
  active descriptions only by a successful negotiation; the answers it makes fit their offers; and what it
  gets wrong.
\<close>

section \<open>Histories of a negotiator\<close>

datatype neg_op =
    Modify_Local_Offer u32 pjmedia_sdp_session
  | Send_Local_Offer
  | Set_Remote_Answer pjmedia_sdp_session
  | Set_Remote_Offer pjmedia_sdp_session
  | Set_Local_Answer pjmedia_sdp_session
  | Cancel_Offer
  | Negotiate bool
  | Set_Prefer_Remote bool
  | Set_Answer_Multiple bool

fun neg_exec :: "fmt_env \<Rightarrow> neg_op \<Rightarrow> pjmedia_sdp_neg \<Rightarrow> (pj_status \<times> pjmedia_sdp_neg) option" where
  "neg_exec env (Modify_Local_Offer flags loc) neg = pjmedia_sdp_neg_modify_local_offer2 neg flags loc"
| "neg_exec env Send_Local_Offer neg =
     (let (r, neg) = pjmedia_sdp_neg_send_local_offer neg
      in Some (case r of Inl err \<Rightarrow> err | Inr _ \<Rightarrow> PJ_SUCCESS, neg))"
| "neg_exec env (Set_Remote_Answer remote) neg = Some (pjmedia_sdp_neg_set_remote_answer neg remote)"
| "neg_exec env (Set_Remote_Offer remote) neg = Some (pjmedia_sdp_neg_set_remote_offer neg remote)"
| "neg_exec env (Set_Local_Answer loc) neg = Some (pjmedia_sdp_neg_set_local_answer neg (Some loc))"
| "neg_exec env Cancel_Offer neg = Some (pjmedia_sdp_neg_cancel_offer neg)"
| "neg_exec env (Negotiate allow_asym) neg = pjmedia_sdp_neg_negotiate env neg allow_asym"
| "neg_exec env (Set_Prefer_Remote b) neg = Some (PJ_SUCCESS, pjmedia_sdp_neg_set_prefer_remote_codec_order neg b)"
| "neg_exec env (Set_Answer_Multiple b) neg = Some (PJ_SUCCESS, pjmedia_sdp_neg_set_answer_multiple_codecs neg b)"

inductive neg_reach :: "fmt_env \<Rightarrow> u8 list list \<Rightarrow> pjmedia_sdp_neg \<Rightarrow> bool"
  for env :: fmt_env and codecs :: "u8 list list" where
  local_offer: "pjmedia_sdp_neg_create_w_local_offer codecs loc = Inr neg \<Longrightarrow> neg_reach env codecs neg"
| remote_offer: "pjmedia_sdp_neg_create_w_remote_offer codecs initial remote = Inr neg \<Longrightarrow> neg_reach env codecs neg"
| exec: "neg_reach env codecs neg \<Longrightarrow> neg_exec env operation neg = Some (status, neg') \<Longrightarrow> neg_reach env codecs neg'"

text \<open>The state diagram of the header; the operations that set preferences leave the state alone.\<close>

fun neg_diagram :: "neg_op \<Rightarrow> pjmedia_sdp_neg_state \<Rightarrow> pjmedia_sdp_neg_state option" where
  "neg_diagram (Modify_Local_Offer _ _) PJMEDIA_SDP_NEG_STATE_DONE = Some PJMEDIA_SDP_NEG_STATE_LOCAL_OFFER"
| "neg_diagram Send_Local_Offer PJMEDIA_SDP_NEG_STATE_DONE = Some PJMEDIA_SDP_NEG_STATE_LOCAL_OFFER"
| "neg_diagram Send_Local_Offer PJMEDIA_SDP_NEG_STATE_LOCAL_OFFER = Some PJMEDIA_SDP_NEG_STATE_LOCAL_OFFER"
| "neg_diagram (Set_Remote_Answer _) PJMEDIA_SDP_NEG_STATE_LOCAL_OFFER = Some PJMEDIA_SDP_NEG_STATE_WAIT_NEGO"
| "neg_diagram (Set_Remote_Offer _) PJMEDIA_SDP_NEG_STATE_DONE = Some PJMEDIA_SDP_NEG_STATE_REMOTE_OFFER"
| "neg_diagram (Set_Local_Answer _) PJMEDIA_SDP_NEG_STATE_REMOTE_OFFER = Some PJMEDIA_SDP_NEG_STATE_WAIT_NEGO"
| "neg_diagram (Set_Local_Answer _) PJMEDIA_SDP_NEG_STATE_WAIT_NEGO = Some PJMEDIA_SDP_NEG_STATE_WAIT_NEGO"
| "neg_diagram Cancel_Offer PJMEDIA_SDP_NEG_STATE_LOCAL_OFFER = Some PJMEDIA_SDP_NEG_STATE_DONE"
| "neg_diagram Cancel_Offer PJMEDIA_SDP_NEG_STATE_REMOTE_OFFER = Some PJMEDIA_SDP_NEG_STATE_DONE"
| "neg_diagram (Negotiate _) PJMEDIA_SDP_NEG_STATE_WAIT_NEGO = Some PJMEDIA_SDP_NEG_STATE_DONE"
| "neg_diagram (Set_Prefer_Remote _) s = Some s"
| "neg_diagram (Set_Answer_Multiple _) s = Some s"
| "neg_diagram _ _ = None"

definition neg_inv :: "pjmedia_sdp_neg \<Rightarrow> bool" where
  "neg_inv neg \<longleftrightarrow>
     (case n_state neg of
        PJMEDIA_SDP_NEG_STATE_NULL \<Rightarrow> False
      | PJMEDIA_SDP_NEG_STATE_LOCAL_OFFER \<Rightarrow>
          n_neg_local_sdp neg \<noteq> None \<and> n_neg_remote_sdp neg = None \<and> \<not> n_has_remote_answer neg \<and> n_last_sent neg \<noteq> None
      | PJMEDIA_SDP_NEG_STATE_REMOTE_OFFER \<Rightarrow>
          n_neg_local_sdp neg = None \<and> n_neg_remote_sdp neg \<noteq> None \<and> \<not> n_has_remote_answer neg \<and>
          n_initial_sdp_tmp neg = None
      | PJMEDIA_SDP_NEG_STATE_WAIT_NEGO \<Rightarrow>
          n_neg_local_sdp neg \<noteq> None \<and> n_neg_remote_sdp neg \<noteq> None \<and> (n_has_remote_answer neg \<longrightarrow> n_last_sent neg \<noteq> None)
      | PJMEDIA_SDP_NEG_STATE_DONE \<Rightarrow>
          n_neg_local_sdp neg = None \<and> n_neg_remote_sdp neg = None \<and> \<not> n_has_remote_answer neg \<and>
          n_initial_sdp_tmp neg = None) \<and>
     (n_active_local_sdp neg = None \<longleftrightarrow> n_active_remote_sdp neg = None) \<and>
     (n_active_local_sdp neg \<noteq> None \<longrightarrow> n_last_sent neg \<noteq> None)"

text \<open>The maps are all that the assignment of payload types changes in the negotiator.\<close>

lemma assign_pt_neg:
  "assign_pt_and_update_map neg sess is_offer upd = Some (sess', neg') \<Longrightarrow>
     (\<exists>rows. neg' = neg\<lparr>n_maps := rows\<rparr>) \<and> s_origin sess' = s_origin sess"
  by (auto simp: assign_pt_and_update_map_def)

lemma create_inv:
  "pjmedia_sdp_neg_create_w_local_offer codecs loc = Inr neg \<Longrightarrow> neg_inv neg"
  "pjmedia_sdp_neg_create_w_remote_offer codecs initial remote = Inr neg \<Longrightarrow> neg_inv neg"
  by (auto simp: pjmedia_sdp_neg_create_w_local_offer_def pjmedia_sdp_neg_create_w_remote_offer_def neg_inv_def
      init_mapping_def neg0_def Let_def split: if_splits option.splits)

definition neg_ok_step :: "neg_op \<Rightarrow> pjmedia_sdp_neg \<Rightarrow> pj_status \<Rightarrow> pjmedia_sdp_neg \<Rightarrow> bool" where
  "neg_ok_step operation neg status neg' \<longleftrightarrow>
     (case neg_diagram operation (n_state neg) of
        None \<Rightarrow> status = PJMEDIA_SDPNEG_EINSTATE \<and> neg' = neg
      | Some s \<Rightarrow> n_state neg' = s \<or> status \<noteq> PJ_SUCCESS \<and> neg' = neg) \<and>
     (if (\<exists>b. operation = Negotiate b) \<and> status = PJ_SUCCESS
      then n_active_local_sdp neg' \<noteq> None \<and> n_active_remote_sdp neg' \<noteq> None
      else n_active_local_sdp neg' = n_active_local_sdp neg \<and> n_active_remote_sdp neg' = n_active_remote_sdp neg)"

lemma modify_step:
  assumes "pjmedia_sdp_neg_modify_local_offer2 neg flags loc = Some (status, neg')" "neg_inv neg"
  shows "neg_inv neg' \<and> neg_ok_step (Modify_Local_Offer flags loc) neg status neg'"
proof (cases "n_state neg = PJMEDIA_SDP_NEG_STATE_DONE \<and> pjmedia_sdp_validate loc = PJ_SUCCESS")
  case False
  then show ?thesis using assms
    by (cases "n_state neg") (auto simp: pjmedia_sdp_neg_modify_local_offer2_def neg_ok_step_def split: if_splits)
next
  case True
  show ?thesis
  proof (cases "n_active_local_sdp neg")
    case None
    then show ?thesis using assms True
      by (auto simp: pjmedia_sdp_neg_modify_local_offer2_def neg_ok_step_def neg_inv_def Let_def split: option.splits
          dest!: assign_pt_neg) 
  next
    case (Some old)
    then show ?thesis using assms True
      by (auto simp: pjmedia_sdp_neg_modify_local_offer2_def neg_ok_step_def neg_inv_def Let_def
          split: option.splits if_splits dest!: assign_pt_neg)
  qed
qed

lemma finish_fields:
  "n_state (finish_negotiate st neg) = PJMEDIA_SDP_NEG_STATE_DONE"
  "n_active_local_sdp (finish_negotiate st neg) = n_active_local_sdp neg"
  "n_active_remote_sdp (finish_negotiate st neg) = n_active_remote_sdp neg"
  "n_last_sent (finish_negotiate st neg) = n_last_sent neg"
  "n_neg_local_sdp (finish_negotiate st neg) = None" "n_neg_remote_sdp (finish_negotiate st neg) = None"
  "n_initial_sdp_tmp (finish_negotiate st neg) = None" "\<not> n_has_remote_answer (finish_negotiate st neg)"
  by (simp_all add: finish_negotiate_def Let_def)

lemma negotiate_step:
  assumes "pjmedia_sdp_neg_negotiate env neg asymm = Some (status, neg')" "neg_inv neg"
  shows "neg_inv neg' \<and> neg_ok_step (Negotiate asymm) neg status neg'"
proof (cases "n_state neg = PJMEDIA_SDP_NEG_STATE_WAIT_NEGO")
  case False
  then show ?thesis using assms
    by (cases "n_state neg") (auto simp: pjmedia_sdp_neg_negotiate_def neg_ok_step_def)
next
  case wait: True
  then obtain remote loc where rl: "n_neg_remote_sdp neg = Some remote" "n_neg_local_sdp neg = Some loc"
    using assms(2) by (auto simp: neg_inv_def)
  show ?thesis
  proof (cases "n_has_remote_answer neg")
    case True
    then show ?thesis using assms wait rl
      by (auto simp: pjmedia_sdp_neg_negotiate_def neg_ok_step_def neg_inv_def Let_def finish_fields split: option.splits if_splits)
  next
    case False
    obtain st ans where c: "create_answer env (n_prefer_remote_codec_order neg) (n_answer_with_multiple_codecs neg) loc remote =
        Some (st, ans)" using assms(1) wait rl False
      by (auto simp: pjmedia_sdp_neg_negotiate_def split: option.splits)
    show ?thesis
    proof (cases "st = PJ_SUCCESS")
      case False
      then show ?thesis using assms wait rl c \<open>\<not> n_has_remote_answer neg\<close>
        by (auto simp: pjmedia_sdp_neg_negotiate_def neg_ok_step_def neg_inv_def Let_def finish_fields)
    next
      case True
      obtain a neg1 where a: "assign_pt_and_update_map neg (the ans) False False = Some (a, neg1)"
        using assms(1) wait rl False c True by (auto simp: pjmedia_sdp_neg_negotiate_def split: option.splits)
      then obtain rows where "neg1 = neg\<lparr>n_maps := rows\<rparr>" using assign_pt_neg by blast
      then show ?thesis using assms wait rl c True False a
        by (auto simp: pjmedia_sdp_neg_negotiate_def neg_ok_step_def neg_inv_def Let_def finish_fields)
    qed
  qed
qed

lemma other_steps:
  assumes "neg_inv neg" "neg_exec env operation neg = Some (status, neg')"
    "\<And>flags loc. operation \<noteq> Modify_Local_Offer flags loc" "\<And>b. operation \<noteq> Negotiate b"
  shows "neg_inv neg' \<and> neg_ok_step operation neg status neg'"
proof (cases operation)
  case Send_Local_Offer
  then show ?thesis using assms(1,2)
    by (cases "n_state neg")
      (auto simp: pjmedia_sdp_neg_send_local_offer_def neg_ok_step_def neg_inv_def Let_def split: option.splits if_splits)
next
  case (Set_Remote_Answer r)
  then show ?thesis using assms(1,2)
    by (cases "n_state neg") (auto simp: pjmedia_sdp_neg_set_remote_answer_def neg_ok_step_def neg_inv_def)
next
  case (Set_Remote_Offer r)
  then show ?thesis using assms(1,2)
    by (cases "n_state neg") (auto simp: pjmedia_sdp_neg_set_remote_offer_def neg_ok_step_def neg_inv_def)
next
  case (Set_Local_Answer r)
  then show ?thesis using assms(1,2)
    by (cases "n_state neg")
      (auto simp: pjmedia_sdp_neg_set_local_answer_def neg_ok_step_def neg_inv_def Let_def split: option.splits)
next
  case Cancel_Offer
  then show ?thesis using assms(1,2)
    by (cases "n_state neg") (auto simp: pjmedia_sdp_neg_cancel_offer_def neg_ok_step_def neg_inv_def Let_def)
next
  case (Set_Prefer_Remote b)
  then show ?thesis using assms(1,2)
    by (cases "n_state neg") (auto simp: pjmedia_sdp_neg_set_prefer_remote_codec_order_def neg_ok_step_def neg_inv_def)
next
  case (Set_Answer_Multiple b)
  then show ?thesis using assms(1,2)
    by (cases "n_state neg") (auto simp: pjmedia_sdp_neg_set_answer_multiple_codecs_def neg_ok_step_def neg_inv_def)
qed (use assms(3,4) in auto)

lemma exec_step:
  assumes "neg_inv neg" "neg_exec env operation neg = Some (status, neg')"
  shows "neg_inv neg' \<and> neg_ok_step operation neg status neg'"
proof (cases operation)
  case (Modify_Local_Offer flags loc)
  then show ?thesis using assms modify_step by simp
next
  case (Negotiate b)
  then show ?thesis using assms negotiate_step by simp
qed (use assms in \<open>intro other_steps; simp\<close>)+

lemma neg_reach_inv: "neg_reach env codecs neg \<Longrightarrow> neg_inv neg"
  by (induction rule: neg_reach.induct) (use create_inv exec_step in blast)+

section \<open>A negotiation at hand\<close>

text \<open>Alice and Bob with one audio line each; Bob also has a codec that Alice does not have.\<close>

definition audio_media :: "u16 \<Rightarrow> u8 list list \<Rightarrow> pjmedia_sdp_attr list \<Rightarrow> pjmedia_sdp_media" where
  "audio_media port fmts attrs =
     \<lparr>m_media = pj_str ''audio'', m_port = port, m_port_count = 1, m_transport = pj_str ''RTP/AVP'',
      m_fmt = fmts, m_conn = None, m_bandw = [], m_attr = attrs\<rparr>"

definition plain_session :: "string \<Rightarrow> pjmedia_sdp_media list \<Rightarrow> pjmedia_sdp_session" where
  "plain_session user ms =
     \<lparr>s_origin = \<lparr>o_user = pj_str user, o_id = 1, o_version = 1, o_net_type = pj_str ''IN'',
        o_addr_type = pj_str ''IP4'', o_addr = pj_str ''10.0.0.1''\<rparr>,
      s_name = pj_str ''-'',
      s_conn = Some \<lparr>cn_net_type = pj_str ''IN'', cn_addr_type = pj_str ''IP4'', cn_addr = pj_str ''10.0.0.1''\<rparr>,
      s_bandw = [], s_start = 0, s_stop = 0, s_attr = [], s_media = ms\<rparr>"

definition alice :: pjmedia_sdp_session where
  "alice = plain_session ''alice'' [audio_media 4000 [pj_str ''8'', pj_str ''0''] []]"

definition bob :: pjmedia_sdp_session where
  "bob = plain_session ''bob'' [audio_media 5000 [pj_str ''0'', pj_str ''3'']
     [pjmedia_sdp_attr_create (pj_str ''recvonly'') None]]"

definition no_fmt_callbacks :: fmt_env where
  "no_fmt_callbacks = \<lparr>fe_registry = [], fe_call = \<lambda>_ _ _ _ _ _. (PJ_SUCCESS, [])\<rparr>"

definition run_ops :: "fmt_env \<Rightarrow> neg_op list \<Rightarrow> pjmedia_sdp_neg \<Rightarrow> pjmedia_sdp_neg option" where
  "run_ops env ops neg =
     fold (\<lambda>operation r. Option.bind r (\<lambda>n. map_option snd (neg_exec env operation n))) ops (Some neg)"

definition started :: pjmedia_sdp_neg where
  "started = (case pjmedia_sdp_neg_create_w_local_offer [] alice of Inr n \<Rightarrow> n | Inl _ \<Rightarrow> neg0)"

definition answered :: pjmedia_sdp_neg where
  "answered = snd (pjmedia_sdp_neg_set_remote_answer started bob)"

definition negotiated :: pjmedia_sdp_neg where
  "negotiated = snd (the (pjmedia_sdp_neg_negotiate no_fmt_callbacks answered False))"

lemma started_created: "pjmedia_sdp_neg_create_w_local_offer [] alice = Inr started"
proof -
  have "pjmedia_sdp_validate alice = PJ_SUCCESS" by code_simp
  then show ?thesis by (simp add: started_def pjmedia_sdp_neg_create_w_local_offer_def)
qed

lemma started_state: "n_state started = PJMEDIA_SDP_NEG_STATE_LOCAL_OFFER"
  by code_simp

lemma negotiated_ok: "pjmedia_sdp_neg_negotiate no_fmt_callbacks answered False = Some (PJ_SUCCESS, negotiated)"
proof -
  have "case pjmedia_sdp_neg_negotiate no_fmt_callbacks answered False of None \<Rightarrow> False | Some (st, _) \<Rightarrow> st = PJ_SUCCESS"
    by code_simp
  then show ?thesis by (auto simp: negotiated_def split: option.splits)
qed

lemma answered_reachable: "neg_reach no_fmt_callbacks [] answered"
proof -
  have "neg_reach no_fmt_callbacks [] started" by (rule neg_reach.local_offer[OF started_created])
  moreover have "neg_exec no_fmt_callbacks (Set_Remote_Answer bob) started = Some (PJ_SUCCESS, answered)"
    by (simp add: answered_def pjmedia_sdp_neg_set_remote_answer_def started_state)
  ultimately show ?thesis by (rule neg_reach.exec)
qed

section \<open>The state diagram\<close>

lemma neg_getters:
  "pjmedia_sdp_neg_get_active_local n = Inl err \<longleftrightarrow> n_active_local_sdp n = None \<and> err = PJMEDIA_SDPNEG_ENOACTIVE"
  "pjmedia_sdp_neg_get_active_remote n = Inl err \<longleftrightarrow> n_active_remote_sdp n = None \<and> err = PJMEDIA_SDPNEG_ENOACTIVE"
  "pjmedia_sdp_neg_get_neg_local n = Inl err \<longleftrightarrow> n_neg_local_sdp n = None \<and> err = PJMEDIA_SDPNEG_ENONEG"
  "pjmedia_sdp_neg_get_neg_remote n = Inl err \<longleftrightarrow> n_neg_remote_sdp n = None \<and> err = PJMEDIA_SDPNEG_ENONEG"
  "pjmedia_sdp_neg_get_active_local n = pjmedia_sdp_neg_get_active_local n' \<longleftrightarrow> n_active_local_sdp n = n_active_local_sdp n'"
  "pjmedia_sdp_neg_get_active_remote n = pjmedia_sdp_neg_get_active_remote n' \<longleftrightarrow>
     n_active_remote_sdp n = n_active_remote_sdp n'"
  by (auto simp: pjmedia_sdp_neg_get_active_local_def pjmedia_sdp_neg_get_active_remote_def
      pjmedia_sdp_neg_get_neg_local_def pjmedia_sdp_neg_get_neg_remote_def get_sdp_def split: option.splits)

text \<open>
  C24. Whatever the history of a negotiator, an operation that the state diagram of the header allows takes it to
  the state that the diagram gives (or reports an error and changes nothing), and any other is refused with
  \<open>EINSTATE\<close> and changes nothing. The active descriptions change only by a successful negotiation, which sets both; so
  the two getters for them succeed together. While a local offer or answer is pending there is a description of each
  side that has spoken.
\<close>

theorem neg_follows_diagram:
  assumes "neg_reach env codecs neg" "neg_exec env operation neg = Some (status, neg')"
  shows "(case neg_diagram operation (n_state neg) of
            None \<Rightarrow> status = PJMEDIA_SDPNEG_EINSTATE \<and> neg' = neg
          | Some s \<Rightarrow> n_state neg' = s \<or> status \<noteq> PJ_SUCCESS \<and> neg' = neg) \<and>
         (if (\<exists>b. operation = Negotiate b) \<and> status = PJ_SUCCESS
          then pjmedia_sdp_neg_get_active_local neg' \<noteq> Inl PJMEDIA_SDPNEG_ENOACTIVE
          else pjmedia_sdp_neg_get_active_local neg' = pjmedia_sdp_neg_get_active_local neg \<and>
               pjmedia_sdp_neg_get_active_remote neg' = pjmedia_sdp_neg_get_active_remote neg) \<and>
         (pjmedia_sdp_neg_get_active_local neg' = Inl PJMEDIA_SDPNEG_ENOACTIVE \<longleftrightarrow>
          pjmedia_sdp_neg_get_active_remote neg' = Inl PJMEDIA_SDPNEG_ENOACTIVE) \<and>
         (pjmedia_sdp_neg_get_neg_local neg' \<noteq> Inl PJMEDIA_SDPNEG_ENONEG \<longleftrightarrow>
          n_state neg' \<in> {PJMEDIA_SDP_NEG_STATE_LOCAL_OFFER, PJMEDIA_SDP_NEG_STATE_WAIT_NEGO}) \<and>
         (pjmedia_sdp_neg_get_neg_remote neg' \<noteq> Inl PJMEDIA_SDPNEG_ENONEG \<longleftrightarrow>
          n_state neg' \<in> {PJMEDIA_SDP_NEG_STATE_REMOTE_OFFER, PJMEDIA_SDP_NEG_STATE_WAIT_NEGO})"
proof -
  have "neg_inv neg'" "neg_ok_step operation neg status neg'"
    using exec_step[OF neg_reach_inv[OF assms(1)] assms(2)] by auto
  then show ?thesis
    by (cases "n_state neg'") (auto simp: neg_ok_step_def neg_inv_def neg_getters split: option.splits if_splits)
qed

theorem neg_follows_diagram_witness:
  "neg_reach no_fmt_callbacks [] answered \<and>
   neg_exec no_fmt_callbacks (Negotiate False) answered = Some (PJ_SUCCESS, negotiated) \<and>
   n_state negotiated = PJMEDIA_SDP_NEG_STATE_DONE \<and>
   pjmedia_sdp_neg_get_active_local negotiated \<noteq> Inl PJMEDIA_SDPNEG_ENOACTIVE \<and>
   neg_exec no_fmt_callbacks Cancel_Offer answered = Some (PJMEDIA_SDPNEG_EINSTATE, answered)"
proof -
  have n: "neg_exec no_fmt_callbacks (Negotiate False) answered = Some (PJ_SUCCESS, negotiated)"
    by (simp add: negotiated_ok)
  have w: "n_state answered = PJMEDIA_SDP_NEG_STATE_WAIT_NEGO" by code_simp
  obtain st n' where c: "neg_exec no_fmt_callbacks Cancel_Offer answered = Some (st, n')" by fastforce
  have "\<exists>b. \<not> b" by blast
  then show ?thesis
    using neg_follows_diagram[OF answered_reachable n] neg_follows_diagram[OF answered_reachable c] answered_reachable n w c
    by auto
qed

section \<open>The version of a description\<close>

text \<open>
  What is compared with the description sent last has the version of the active one; \<open>s\<close> is that version before and \<open>v\<close>
  after.
\<close>

lemma modify_version:
  assumes "pjmedia_sdp_neg_modify_local_offer2 neg flags loc = Some (PJ_SUCCESS, neg')"
    "n_active_local_sdp neg = Some active"
  shows "\<exists>cand offer. s_origin cand = s_origin active \<and> n_neg_local_sdp neg' = Some offer \<and>
           n_last_sent neg' = Some offer \<and> n_active_local_sdp neg' = Some active \<and>
           offer = (if same_as_last_sent neg cand then cand else incr_version cand)"
proof -
  have d: "n_state neg = PJMEDIA_SDP_NEG_STATE_DONE" "pjmedia_sdp_validate loc = PJ_SUCCESS"
    using assms(1) by (auto simp: pjmedia_sdp_neg_modify_local_offer2_def split: if_splits)
  define base where "base = neg\<lparr>n_state := PJMEDIA_SDP_NEG_STATE_LOCAL_OFFER\<rparr>"
  define ms where "ms = (if (flags AND PJMEDIA_SDP_NEG_ALLOW_MEDIA_CHANGE) = 0
     then fix_media_order loc (s_media active) (s_media loc) else fix_media_count loc (s_media active) (s_media loc))"
  define mid where "mid = loc\<lparr>s_origin := (s_origin active)\<lparr>o_version := o_version (s_origin active)\<rparr>, s_media := ms\<rparr>"
  define finish where "finish = (\<lambda>(cand, n). let offer = (if same_as_last_sent n cand then cand else incr_version cand)
     in n\<lparr>n_initial_sdp_tmp := n_initial_sdp n, n_initial_sdp := Some offer, n_neg_local_sdp := Some offer,
          n_last_sent := Some offer\<rparr>)"
  have "pjmedia_sdp_neg_modify_local_offer2 neg flags loc =
      (if length ms > PJMEDIA_MAX_SDP_MEDIA then None
       else map_option (\<lambda>r. (PJ_SUCCESS, finish r)) (assign_pt_and_update_map base mid True False))"
    using assms(2) d
    by (simp add: pjmedia_sdp_neg_modify_local_offer2_def Let_def base_def ms_def mid_def finish_def option.case_eq_if
        map_option_case case_prod_unfold del: sdp_origin.update_convs)
  then have "map_option (\<lambda>r. (PJ_SUCCESS, finish r)) (assign_pt_and_update_map base mid True False) =
      Some (PJ_SUCCESS, neg')"
    using assms(1) by (simp split: if_splits)
  then obtain cand neg1 where a: "assign_pt_and_update_map base mid True False = Some (cand, neg1)"
      and f: "neg' = finish (cand, neg1)"
    by auto
  obtain rows where n1: "neg1 = base\<lparr>n_maps := rows\<rparr>" and o: "s_origin cand = s_origin active"
    using assign_pt_neg[OF a] by (auto simp: mid_def)
  have "same_as_last_sent neg1 = same_as_last_sent neg" by (rule ext) (simp add: same_as_last_sent_def n1 base_def)
  then show ?thesis using assms(2) o by (auto simp: f finish_def n1 base_def Let_def)
qed

text \<open>
  A local offer that is cancelled leaves its version number in use: the next offer, however it differs, has the same
  one. (RFC 3264, section 8, wants a new version for a changed description; the code increments the version of the
  active description, not that of the description sent last.)
\<close>

theorem cancelled_offer_version_reused:
  assumes "pjmedia_sdp_neg_modify_local_offer2 neg flags loc = Some (PJ_SUCCESS, neg1)"
    and "pjmedia_sdp_neg_cancel_offer neg1 = (PJ_SUCCESS, neg2)"
    and "pjmedia_sdp_neg_modify_local_offer2 neg2 flags' loc' = Some (PJ_SUCCESS, neg3)"
    and "pjmedia_sdp_neg_get_active_local neg = Inr active"
    and "pjmedia_sdp_neg_get_neg_local neg1 = Inr offer" "o_version (s_origin offer) \<noteq> o_version (s_origin active)"
  shows "\<exists>offer'. pjmedia_sdp_neg_get_neg_local neg3 = Inr offer' \<and>
           s_origin offer' = s_origin offer \<and> o_version (s_origin offer) = o_version (s_origin active) + 1"
proof -
  have act: "n_active_local_sdp neg = Some active" and off: "n_neg_local_sdp neg1 = Some offer"
    using assms(4,5) by (auto simp: neg_getters pjmedia_sdp_neg_get_active_local_def pjmedia_sdp_neg_get_neg_local_def
        get_sdp_def split: option.splits)
  obtain c1 where c1: "s_origin c1 = s_origin active" "n_last_sent neg1 = Some offer" "n_active_local_sdp neg1 = Some active"
      "offer = (if same_as_last_sent neg c1 then c1 else incr_version c1)"
    using modify_version[OF assms(1) act] off by auto
  then have v: "s_origin offer = (s_origin active)\<lparr>o_version := o_version (s_origin active) + 1\<rparr>"
    using assms(6) by (auto simp: incr_version_def split: if_splits)
  have n2: "n_active_local_sdp neg2 = Some active" "n_last_sent neg2 = Some offer"
    using assms(2) c1 by (auto simp: pjmedia_sdp_neg_cancel_offer_def Let_def split: if_splits)
  obtain c2 offer' where c2: "s_origin c2 = s_origin active" "n_neg_local_sdp neg3 = Some offer'"
      "offer' = (if same_as_last_sent neg2 c2 then c2 else incr_version c2)"
    using modify_version[OF assms(3) n2(1)] by auto
  have "\<not> same_as_last_sent neg2 c2"
    using assms(6) c2(1) n2(2) by (auto simp: same_as_last_sent_def pjmedia_sdp_session_cmp_def split: if_splits)
  then have "s_origin offer' = s_origin offer" using c2 v by (simp add: incr_version_def)
  then show ?thesis using c2(2) v by (auto simp: pjmedia_sdp_neg_get_neg_local_def get_sdp_def)
qed

text \<open>Alice offers one codec, cancels, and offers another: two different offers of version 3 of her session.\<close>

definition alice2 :: pjmedia_sdp_session where
  "alice2 = plain_session ''alice'' [audio_media 4000 [pj_str ''3''] []]"

definition alice3 :: pjmedia_sdp_session where
  "alice3 = plain_session ''alice'' [audio_media 4000 [pj_str ''9''] []]"

definition neg_modified :: "pjmedia_sdp_session \<Rightarrow> pjmedia_sdp_neg \<Rightarrow> pjmedia_sdp_neg" where
  "neg_modified loc neg = snd (the (pjmedia_sdp_neg_modify_local_offer2 neg 0 loc))"

lemma two_offers:
  defines "n1 \<equiv> neg_modified alice2 negotiated"
  defines "n2 \<equiv> snd (pjmedia_sdp_neg_cancel_offer n1)"
  defines "n3 \<equiv> neg_modified alice3 n2"
  shows "\<exists>active offer offer'.
     pjmedia_sdp_neg_modify_local_offer2 negotiated 0 alice2 = Some (PJ_SUCCESS, n1) \<and>
     pjmedia_sdp_neg_cancel_offer n1 = (PJ_SUCCESS, n2) \<and>
     pjmedia_sdp_neg_modify_local_offer2 n2 0 alice3 = Some (PJ_SUCCESS, n3) \<and>
     pjmedia_sdp_neg_get_active_local negotiated = Inr active \<and>
     pjmedia_sdp_neg_get_neg_local n1 = Inr offer \<and> pjmedia_sdp_neg_get_neg_local n3 = Inr offer' \<and>
     o_version (s_origin offer) \<noteq> o_version (s_origin active) \<and> s_media offer' \<noteq> s_media offer"
proof -
  have "case pjmedia_sdp_neg_modify_local_offer2 negotiated 0 alice2 of
      None \<Rightarrow> False
    | Some (st, m1) \<Rightarrow> st = PJ_SUCCESS \<and>
        (case pjmedia_sdp_neg_cancel_offer m1 of (st, m2) \<Rightarrow> st = PJ_SUCCESS \<and>
          (case pjmedia_sdp_neg_modify_local_offer2 m2 0 alice3 of
             None \<Rightarrow> False
           | Some (st, m3) \<Rightarrow> st = PJ_SUCCESS \<and>
               (case (pjmedia_sdp_neg_get_active_local negotiated, pjmedia_sdp_neg_get_neg_local m1,
                      pjmedia_sdp_neg_get_neg_local m3) of
                  (Inr active, Inr offer, Inr offer') \<Rightarrow>
                    o_version (s_origin offer) \<noteq> o_version (s_origin active) \<and> s_media offer' \<noteq> s_media offer
                | _ \<Rightarrow> False)))"
    by code_simp
  then show ?thesis
    by (auto simp: n1_def n2_def n3_def neg_modified_def split: option.splits prod.splits sum.splits)
qed

theorem cancelled_offer_version_reused_witness:
  "\<exists>neg1 neg2 neg3 offer offer'.
     pjmedia_sdp_neg_modify_local_offer2 negotiated 0 alice2 = Some (PJ_SUCCESS, neg1) \<and>
     pjmedia_sdp_neg_cancel_offer neg1 = (PJ_SUCCESS, neg2) \<and>
     pjmedia_sdp_neg_modify_local_offer2 neg2 0 alice3 = Some (PJ_SUCCESS, neg3) \<and>
     pjmedia_sdp_neg_get_neg_local neg1 = Inr offer \<and> pjmedia_sdp_neg_get_neg_local neg3 = Inr offer' \<and>
     s_origin offer' = s_origin offer \<and> s_media offer' \<noteq> s_media offer"
proof -
  from two_offers obtain n1 n2 n3 active offer offer' where
      m: "pjmedia_sdp_neg_modify_local_offer2 negotiated 0 alice2 = Some (PJ_SUCCESS, n1)"
         "pjmedia_sdp_neg_cancel_offer n1 = (PJ_SUCCESS, n2)"
         "pjmedia_sdp_neg_modify_local_offer2 n2 0 alice3 = Some (PJ_SUCCESS, n3)"
      and a: "pjmedia_sdp_neg_get_active_local negotiated = Inr active"
      and o: "pjmedia_sdp_neg_get_neg_local n1 = Inr offer"
      and o': "pjmedia_sdp_neg_get_neg_local n3 = Inr offer'"
      and v: "o_version (s_origin offer) \<noteq> o_version (s_origin active)" "s_media offer' \<noteq> s_media offer"
    by blast
  show ?thesis using cancelled_offer_version_reused[OF m a o v(1)] m o o' v(2) by auto
qed

end
