(* ===== verification/Sdp_Answer.thy ===== *)
theory Sdp_Answer
  imports Sdp_Neg_Inv
begin

text \<open>
  What the answers of \<open>create_answer\<close> and the media that \<open>process_m_answer\<close> leaves have to do with the offer: media types,
  transports, ports, formats and directions.
\<close>

section \<open>What the operations on media leave alone\<close>

definition m_core ::
  "pjmedia_sdp_media \<Rightarrow> u8 list \<times> u16 \<times> u32 \<times> u8 list \<times> pjmedia_sdp_conn option \<times> pjmedia_sdp_bandw list" where
  "m_core m = (m_media m, m_port m, m_port_count m, m_transport m, m_conn m, m_bandw m)"

named_theorems media_simps

lemma m_core_updates [media_simps]:
  "m_core (m\<lparr>m_attr := as\<rparr>) = m_core m" "m_core (m\<lparr>m_fmt := fs\<rparr>) = m_core m"
  by (simp_all add: m_core_def)

lemma attr_ops [media_simps]:
  "m_core (pjmedia_sdp_media_add_attr m a) = m_core m" "m_fmt (pjmedia_sdp_media_add_attr m a) = m_fmt m"
  "m_core (pjmedia_sdp_media_remove_attr m k) = m_core m" "m_fmt (pjmedia_sdp_media_remove_attr m k) = m_fmt m"
  "m_core (pjmedia_sdp_media_remove_all_attr m name) = m_core m"
  "m_fmt (pjmedia_sdp_media_remove_all_attr m name) = m_fmt m"
  by (simp_all add: pjmedia_sdp_media_add_attr_def pjmedia_sdp_media_remove_attr_def
      pjmedia_sdp_media_remove_all_attr_def m_core_def)

lemma remove_fmt_ops [media_simps]:
  "m_core (remove_fmt_attr name f m) = m_core m" "m_fmt (remove_fmt_attr name f m) = m_fmt m"
  "m_core (remove_fmt_attrs f m) = m_core m" "m_fmt (remove_fmt_attrs f m) = m_fmt m"
  by (auto simp: remove_fmt_attrs_def remove_fmt_attr_def media_simps split: option.splits)

lemma direction_ops [media_simps]:
  "m_core (update_media_direction remote m) = m_core m" "m_fmt (update_media_direction remote m) = m_fmt m"
  by (auto simp: update_media_direction_def remove_all_media_directions_def Let_def media_simps split: option.splits)

lemma fold_ops [media_simps]:
  "m_core (fold remove_fmt_attrs fs m) = m_core m" "m_fmt (fold remove_fmt_attrs fs m) = m_fmt m"
  by (induction fs arbitrary: m) (simp_all add: media_simps)

lemma fold_add_attr [media_simps]:
  "m_core (fold (\<lambda>a m. pjmedia_sdp_media_add_attr m a) as m) = m_core m"
  "m_fmt (fold (\<lambda>a m. pjmedia_sdp_media_add_attr m a) as m) = m_fmt m"
  by (induction as arbitrary: m) (simp_all add: media_simps)

lemma callback_keeps [media_simps]:
  "m_core (snd (custom_fmt_match env name offer i answer j b)) = m_core answer"
  "m_fmt (snd (custom_fmt_match env name offer i answer j b)) = m_fmt answer"
  by (auto simp: custom_fmt_match_def media_simps split: option.splits prod.splits)

lemma deactivate_core:
  "m_media (pjmedia_sdp_media_deactivate m) = m_media m" "m_port (pjmedia_sdp_media_deactivate m) = 0"
  "m_media (sdp_media_clone_deactivate m im s) = m_media m" "m_port (sdp_media_clone_deactivate m im s) = 0"
  "m_transport (sdp_media_clone_deactivate m im s) = m_transport m"
  by (auto simp: sdp_media_clone_deactivate_def pjmedia_sdp_media_deactivate_def media_clone_deactivate_eq Let_def
      split: option.splits)

section \<open>Directions\<close>

lemma pj_str_dirs:
  "pj_str ''inactive'' \<noteq> pj_str ''sendonly''" "pj_str ''inactive'' \<noteq> pj_str ''recvonly''"
  "pj_str ''sendonly'' \<noteq> pj_str ''recvonly''"
  by code_simp+

lemma has_attr_iff:
  "length (m_attr m) \<le> PJMEDIA_MAX_SDP_ATTR \<Longrightarrow> has_attr m name \<longleftrightarrow> (\<exists>a \<in> set (m_attr m). a_name a = pj_str name)"
  by (simp add: has_attr_def pjmedia_sdp_media_find_attr_def attr_find_None_fmt)

lemma removed_directions:
  assumes "length (m_attr m) \<le> PJMEDIA_MAX_SDP_ATTR"
  shows "m_attr (remove_all_media_directions m) = filter (\<lambda>a. a_name a \<noteq> pj_str ''inactive'' \<and>
     a_name a \<noteq> pj_str ''sendrecv'' \<and> a_name a \<noteq> pj_str ''sendonly'' \<and> a_name a \<noteq> pj_str ''recvonly'') (m_attr m)"
proof -
  have "\<not> PJMEDIA_MAX_SDP_ATTR < length (filter P (m_attr m))" for P
    using assms length_filter_le[of P "m_attr m"] by linarith
  then show ?thesis using assms
    by (simp add: remove_all_media_directions_def pjmedia_sdp_media_remove_all_attr_def pjmedia_sdp_attr_remove_all_def
        Let_def conj_ac)
qed

text \<open>The direction that \<open>update_media_direction\<close> gives, if the array of attributes has room for it.\<close>

lemma updated_dir:
  assumes room: "length (m_attr (update_media_direction remote m)) < PJMEDIA_MAX_SDP_ATTR \<or>
     length (m_attr m) < PJMEDIA_MAX_SDP_ATTR"
  shows "local_dir (update_media_direction remote m) = adjusted_dir remote (local_dir m)"
proof (cases "adjusted_dir remote (local_dir m) = local_dir m")
  case True
  then show ?thesis by (simp add: update_media_direction_def Let_def)
next
  case ne: False
  define r where "r = remove_all_media_directions m"
  have u: "update_media_direction remote m =
      (case dir_attr (adjusted_dir remote (local_dir m)) of None \<Rightarrow> r | Some x \<Rightarrow> pjmedia_sdp_media_add_attr r x)"
    using ne unfolding update_media_direction_def r_def by (simp add: Let_def)
  have le: "length (m_attr m) \<le> PJMEDIA_MAX_SDP_ATTR"
  proof (rule ccontr)
    assume "\<not> length (m_attr m) \<le> PJMEDIA_MAX_SDP_ATTR"
    then have "m_attr r = m_attr m"
      by (simp add: r_def remove_all_media_directions_def pjmedia_sdp_media_remove_all_attr_def
          pjmedia_sdp_attr_remove_all_def Let_def)
    then show False using room \<open>\<not> length (m_attr m) \<le> PJMEDIA_MAX_SDP_ATTR\<close> u
      by (auto simp: pjmedia_sdp_media_add_attr_def pjmedia_sdp_attr_add_def split: option.splits)
  qed
  note r = removed_directions[OF le, folded r_def]
  have none: "a_name a \<notin> {pj_str ''inactive'', pj_str ''sendonly'', pj_str ''recvonly''}" if "a \<in> set (m_attr r)" for a
    using that r by auto
  have rl: "length (m_attr r) \<le> length (m_attr m)" unfolding r by (rule length_filter_le)
  define u' where "u' = update_media_direction remote m"
  have a: "m_attr u' = m_attr r @ (case dir_attr (adjusted_dir remote (local_dir m)) of None \<Rightarrow> [] | Some a \<Rightarrow> [a])"
    using u room rl le by (auto simp: u'_def pjmedia_sdp_media_add_attr_def pjmedia_sdp_attr_add_def split: option.splits if_splits)
  have "length (m_attr u') \<le> PJMEDIA_MAX_SDP_ATTR" using room a rl by (auto simp: u'_def split: option.splits)
  note h = has_attr_iff[OF this]
  show ?thesis unfolding u'_def[symmetric]
    by (cases "adjusted_dir remote (local_dir m)")
      (use none in \<open>auto simp: local_dir_def h a pjmedia_sdp_attr_create_def pj_str_dirs pj_str_dirs[symmetric]\<close>)
qed

section \<open>Formats of the answer\<close>

text \<open>A format is offered: literally, or as the same static payload type.\<close>

definition fmt_offered :: "pjmedia_sdp_media \<Rightarrow> u8 list \<Rightarrow> bool" where
  "fmt_offered offer f \<longleftrightarrow>
     (\<exists>g \<in> set (m_fmt offer). f = g \<or> uint_of_fmt f = uint_of_fmt g \<and> uint_of_fmt f < 96)"

text \<open>What holds of the variables of \<open>match_offer\<close> all along; \<open>pre\<close> is the local media at the start.\<close>

definition match_inv :: "match_params \<Rightarrow> pjmedia_sdp_media \<Rightarrow> match_state \<Rightarrow> bool" where
  "match_inv p pre st \<longleftrightarrow>
     m_core (mo_preanswer st) = m_core pre \<and> m_fmt (mo_preanswer st) = m_fmt pre \<and>
     length (mo_pt_offer st) = length (mo_pt_answer st) \<and> (\<forall>f \<in> set (mo_pt_offer st). fmt_offered (mp_offer p) f)"

lemma match_inv_update [simp]:
  "match_inv p pre (st\<lparr>mo_found_codec := b\<rparr>) = match_inv p pre st"
  "match_inv p pre (st\<lparr>mo_clockrate := cs\<rparr>) = match_inv p pre st"
  "match_inv p pre (st\<lparr>mo_tel_clockrate := cs\<rparr>) = match_inv p pre st"
  "match_inv p pre (st\<lparr>mo_found_tel_event := b\<rparr>) = match_inv p pre st"
  "match_inv p pre (st\<lparr>mo_master_has_codec := b\<rparr>) = match_inv p pre st"
  "match_inv p pre (st\<lparr>mo_master_has_other := b\<rparr>) = match_inv p pre st"
  "match_inv p pre (st\<lparr>mo_found_other := b\<rparr>) = match_inv p pre st"
  by (simp_all add: match_inv_def)

lemma master_update [simp]:
  "mo_slave p (st\<lparr>mo_master_has_codec := b\<rparr>) = mo_slave p st"
  "mo_slave p (st\<lparr>mo_master_has_other := b\<rparr>) = mo_slave p st"
  by (simp_all add: mo_slave_def)

lemma add_match_inv:
  assumes "match_inv p pre st" "(if mp_prefer_remote p then i else j) < length (m_fmt (mp_offer p))"
  shows "match_inv p pre (add_match p i j st)"
  using assms by (auto simp: match_inv_def add_match_def Let_def fmt_offered_def)

text \<open>With the local order, the slave is the offer; with the remote order, the master is.\<close>

lemma slave_offer: "\<not> mp_prefer_remote p \<Longrightarrow> mo_slave p st = mp_offer p"
  by (simp add: mo_slave_def)

lemma master_offer: "mp_prefer_remote p \<Longrightarrow> mo_master p st = mp_offer p"
  by (simp add: mo_master_def)

lemma slave_length: "match_inv p pre st \<Longrightarrow>
    length (m_fmt (mo_slave p st)) = length (m_fmt (if mp_prefer_remote p then pre else mp_offer p))"
  by (simp add: mo_slave_def match_inv_def)

lemma match_static_inv:
  assumes "match_inv p pre st" "\<not> mp_prefer_remote p \<or> (\<exists>g \<in> set (m_fmt (mp_offer p)). uint_of_fmt g = pt)" "pt < 96"
  shows "match_inv p pre (match_static p pt st)"
proof -
  have "fmt_offered (mp_offer p) f"
    if "find (\<lambda>f. uint_of_fmt f = pt \<and> pj_isdigit (cur_char f)) (m_fmt (mo_slave p st)) = Some f" for f
  proof -
    have f: "f \<in> set (m_fmt (mo_slave p st))" "uint_of_fmt f = pt" using that by (auto simp: find_Some_iff)
    then show ?thesis using assms(2,3) by (metis fmt_offered_def slave_offer)
  qed
  then show ?thesis using assms(1)
    by (auto simp: match_static_def Let_def match_inv_def split: option.splits)
qed

lemma match_dynamic_inv:
  assumes "match_inv p pre st" "mp_prefer_remote p \<Longrightarrow> i < length (m_fmt (mp_offer p))"
    "j + n \<le> length (m_fmt (mo_slave p st))"
  shows "match_inv p pre (match_dynamic n p i r_off is_codec j st)"
  using assms
proof (induction n arbitrary: j st is_codec)
  case (Suc n)
  have pre': "match_inv p pre (st\<lparr>mo_preanswer := snd (custom_fmt_match env nm off o_idx (mo_preanswer st) a_idx b)\<rparr>)"
    for env nm off o_idx a_idx b using Suc.prems(1) by (simp add: match_inv_def media_simps)
  have ok: "(if mp_prefer_remote p then i else j) < length (m_fmt (mp_offer p))"
    using Suc.prems(2,3) slave_length[OF Suc.prems(1)] by auto
  have more: "match_inv p pre (match_dynamic n p i r_off b (Suc j) st')" if "match_inv p pre st'" for st' b
    using that Suc.IH[OF that] Suc.prems slave_length[OF that] slave_length[OF Suc.prems(1)] by auto
  show ?case
    by (auto simp: Let_def case_prod_unfold intro!: more add_match_inv pre' ok Suc.prems(1) split: option.splits)
qed simp

lemma match_fmt_inv:
  assumes "match_inv p pre st" "i < length (m_fmt (mo_master p st))" "match_fmt p i st = Inr st'"
  shows "match_inv p pre st'"
proof -
  let ?fmt = "m_fmt (mo_master p st) ! i"
  have i: "mp_prefer_remote p \<Longrightarrow> i < length (m_fmt (mp_offer p))" using assms(2) by (simp add: master_offer)
  have g: "\<not> mp_prefer_remote p \<or> (\<exists>g \<in> set (m_fmt (mp_offer p)). uint_of_fmt g = uint_of_fmt ?fmt)"
    using assms(2) by (auto simp: master_offer)
  have other: "match_inv p pre (match_other p i ?fmt st)"
    using assms(1) i by (auto simp: match_other_def Let_def slave_offer dest!: find_index_Some
        intro!: add_match_inv split: option.splits)
  have dyn: "match_inv p pre (match_dynamic (length (m_fmt (mo_slave p st1))) p i r b 0 st1)"
    if "match_inv p pre st1" for r b st1 using match_dynamic_inv[OF that] i by simp
  from assms(3) show ?thesis
    using other match_static_inv[OF assms(1) g] dyn[OF assms(1)] dyn[of "st\<lparr>mo_master_has_codec := True\<rparr>"] assms(1)
    by (auto simp: match_fmt_def Let_def split: if_splits option.splits)
qed

lemma match_fmts_inv:
  assumes "match_fmts p is st = (status, st')" "match_inv p pre st"
    "\<forall>i \<in> set is. i < length (m_fmt (if mp_prefer_remote p then mp_offer p else pre))"
  shows "match_inv p pre st'"
  using assms
proof (induction "is" arbitrary: st)
  case (Cons i ks)
  have "i < length (m_fmt (mo_master p st))" using Cons.prems(2,3) by (auto simp: mo_master_def match_inv_def)
  then show ?case using Cons match_fmt_inv by (fastforce split: sum.splits)
qed simp

text \<open>The pairs that are wanted are matches, unless the placeholder for the first telephone event is still unset.\<close>

lemma kept_pair:
  "map_option (\<lambda>(kept, r). (x # kept, r)) d = Some (kept, f, c) \<Longrightarrow> \<exists>ks. d = Some (ks, f, c) \<and> kept = x # ks"
  by (cases d) auto

lemma drop_tel_events_step:
  assumes "drop_tel_events pre rates ((po, pa) # pts) first cnt = Some (kept, first', cnt')"
  shows "\<exists>fi cn ks. drop_tel_events pre rates pts fi cn = Some (ks, first', cnt') \<and> (fi = first \<or> fi = (po, pa)) \<and>
           (kept = ks \<or> kept = (po, pa) # ks)"
proof (cases "\<not> pj_isdigit (cur_char pa) \<or> pj_strtol pa < 96")
  case True
  then have "map_option (\<lambda>(kept, r). ((po, pa) # kept, r)) (drop_tel_events pre rates pts first cnt) = Some (kept, first', cnt')"
    using assms by simp
  from kept_pair[OF this] show ?thesis by blast
next
  case False
  then obtain r where r: "fmt_rtpmap pre pa = Some r" using assms by (cases "fmt_rtpmap pre pa") auto
  define fi where "fi = (if fst first = [] then (po, pa) else first)"
  have fi: "fi = first \<or> fi = (po, pa)" by (simp add: fi_def)
  consider "\<not> stricmp_eq (rm_enc_name r) TELEPHONE_EVENT"
    | "stricmp_eq (rm_enc_name r) TELEPHONE_EVENT" "rm_clock_rate r \<in> set rates"
    | "stricmp_eq (rm_enc_name r) TELEPHONE_EVENT" "rm_clock_rate r \<notin> set rates" by blast
  then show ?thesis
  proof cases
    case 1
    then have "map_option (\<lambda>(kept, r). ((po, pa) # kept, r)) (drop_tel_events pre rates pts first cnt) = Some (kept, first', cnt')"
      using assms False r by simp
    from kept_pair[OF this] show ?thesis by blast
  next
    case 2
    then have "map_option (\<lambda>(kept, r). ((po, pa) # kept, r)) (drop_tel_events pre rates pts fi (Suc cnt)) =
        Some (kept, first', cnt')"
      using assms False r by (simp add: Let_def fi_def)
    from kept_pair[OF this] show ?thesis using fi by blast
  next
    case 3
    then have "drop_tel_events pre rates pts fi cnt = Some (kept, first', cnt')"
      using assms False r by (simp add: Let_def fi_def)
    then show ?thesis using fi by blast
  qed
qed

lemma drop_tel_events_sub:
  "drop_tel_events pre rates pts first cnt = Some (kept, first', cnt') \<Longrightarrow>
     set kept \<subseteq> set pts \<and> (first' = first \<or> first' \<in> set pts)"
proof (induction pts arbitrary: first cnt kept)
  case (Cons pr pts)
  obtain po pa where pr: "pr = (po, pa)" by force
  obtain fi cn ks where d: "drop_tel_events pre rates pts fi cn = Some (ks, first', cnt')" "fi = first \<or> fi = pr"
      "kept = ks \<or> kept = pr # ks"
    using drop_tel_events_step[OF Cons.prems[unfolded pr]] pr by blast
  show ?case using Cons.IH[OF d(1)] d(2,3) by auto
qed simp

lemma wanted_pts_sub:
  "wanted_pts st = Some pts \<Longrightarrow> set pts \<subseteq> insert ([], []) (set (zip (mo_pt_offer st) (mo_pt_answer st)))"
  by (auto simp: wanted_pts_def Let_def dest!: drop_tel_events_sub split: if_splits)

lemma reorder_fmts_spec:
  "reorder_fmts i pts fmts = Some fmts' \<Longrightarrow>
     set fmts' = set fmts \<and> length fmts' = length fmts \<and> take i fmts' = take i fmts \<and>
     (i \<le> length fmts \<longrightarrow> take (length pts) (drop i fmts') = pts)"
proof (induction i pts fmts rule: reorder_fmts.induct)
  case (2 i pt pts fmts)
  then obtain k where k: "find_index (\<lambda>f. f = pt) (drop i fmts) = Some k" by (auto split: option.splits)
  define fm where "fm = fmts[i := fmts ! (i + k), i + k := fmts ! i]"
  have ik: "i + k < length fmts" "fmts ! (i + k) = pt" using find_index_Some[OF k] by auto
  have fm: "set fm = set fmts" "length fm = length fmts" "take i fm = take i fmts" "fm ! i = pt"
    using ik by (auto simp: fm_def nth_list_update set_swap)
  have r: "reorder_fmts (Suc i) pts fm = Some fmts'" using 2(2) k by (simp add: fm_def)
  note ih = 2(1)[OF k r[unfolded fm_def], folded fm_def]
  have "take i fmts' = take i fmts"
    using ih fm(3) by (metis min.absorb1 le_add2 plus_1_eq_Suc take_take)
  moreover have "drop i fmts' = fmts' ! i # drop (Suc i) fmts'" using ih fm(2) ik by (simp add: Cons_nth_drop_Suc)
  moreover have "fmts' ! i = pt" using ih fm(2,4) ik by (metis lessI nth_take)
  ultimately show ?case using ih fm ik by auto
qed auto

section \<open>The answer to one media\<close>

lemma take_out_keeps:
  "take_out_rewritten name a b (m, at) = Some (m', at') \<Longrightarrow> m_core m' = m_core m \<and> m_fmt m' = m_fmt m"
  by (auto simp: take_out_rewritten_def media_simps split: option.splits)

lemma symmetric_pt_spec:
  assumes "symmetric_pt_loop i pts (m, at) = Some (m', at')" "drop i (m_fmt m) = map snd pts" "i \<le> length (m_fmt m)"
  shows "m_core m' = m_core m \<and> m_fmt m' = take i (m_fmt m) @ map fst pts"
  using assms
proof (induction pts arbitrary: i m at)
  case (Cons pr pts)
  obtain o_pt a_pt where pr: "pr = (o_pt, a_pt)" by force
  have i: "i < length (m_fmt m)" "m_fmt m ! i = a_pt" "drop (Suc i) (m_fmt m) = map snd pts"
  proof -
    have d: "drop i (m_fmt m) = a_pt # map snd pts" using Cons.prems(2) pr by simp
    then show "i < length (m_fmt m)" by (metis drop_all linorder_not_less list.distinct(1))
    show "m_fmt m ! i = a_pt" using d by (rule nth_via_drop)
    show "drop (Suc i) (m_fmt m) = map snd pts" using d by (metis drop_Suc list.sel(3) tl_drop)
  qed
  obtain m1 at1 where m1: "symmetric_pt_loop (Suc i) pts (m1, at1) = Some (m', at')"
      and c: "m_core m1 = m_core m" and f: "m_fmt m1 = (m_fmt m)[i := o_pt]"
  proof (cases "a_pt = o_pt")
    case True
    then show ?thesis using that[of m at] Cons.prems(1) pr i(2) by auto
  next
    case False
    obtain m2 at2 m3 at3 where
      "take_out_rewritten STR_RTPMAP a_pt o_pt (m\<lparr>m_fmt := (m_fmt m)[i := o_pt]\<rparr>, at) = Some (m2, at2)"
      "take_out_rewritten STR_FMTP a_pt o_pt (m2, at2) = Some (m3, at3)"
      "symmetric_pt_loop (Suc i) pts (m3, at3) = Some (m', at')"
      using Cons.prems(1) False pr by (auto simp: Let_def bind_eq_Some_conv)
    then show ?thesis using that[of m3 at3] take_out_keeps by (simp add: media_simps)
  qed
  have "drop (Suc i) (m_fmt m1) = map snd pts" "Suc i \<le> length (m_fmt m1)" using f i by auto
  note ih = Cons.IH[OF m1 this]
  have "take (Suc i) (m_fmt m1) = take i (m_fmt m) @ [o_pt]"
    using i(1) f by (simp add: take_Suc_conv_app_nth)
  then show ?case using ih c pr by simp
qed simp

lemma build_answer_spec:
  assumes "build_answer offer pre pts = Some am"
  shows "m_core am = m_core pre \<and> m_fmt am = map fst pts \<and> set (map snd pts) \<subseteq> set (m_fmt pre) \<and>
         (\<exists>m. am = update_media_direction offer m)"
proof -
  obtain fmts where f: "reorder_fmts 0 (map snd pts) (m_fmt pre) = Some fmts"
    using assms by (auto simp: build_answer_def Let_def split: option.splits)
  define b where "b = (fold remove_fmt_attrs (drop (length pts) fmts) (pre\<lparr>m_fmt := fmts\<rparr>))\<lparr>m_fmt := take (length pts) fmts\<rparr>"
  obtain m where m: "apply_answer_symmetric_pt b (map fst pts) (map snd pts) = Some m" "am = update_media_direction offer m"
    using assms f by (auto simp: build_answer_def Let_def b_def)
  have r: "set fmts = set (m_fmt pre)" "take (length pts) fmts = map snd pts" using reorder_fmts_spec[OF f] by auto
  obtain m1 at1 where s: "symmetric_pt_loop 0 pts (b, []) = Some (m1, at1)"
      "m = fold (\<lambda>a m. pjmedia_sdp_media_add_attr m a) at1 m1"
    using m(1) by (auto simp: apply_answer_symmetric_pt_def zip_map_fst_snd)
  have b: "m_core b = m_core pre" "m_fmt b = map snd pts" using r(2) by (simp_all add: b_def media_simps)
  have "m_core m1 = m_core b \<and> m_fmt m1 = map fst pts" using symmetric_pt_spec[OF s(1)] b by simp
  moreover have "set (map snd pts) \<subseteq> set (m_fmt pre)" using r set_take_subset[of "length pts" fmts] by metis
  ultimately show ?thesis using s(2) b m(2) by (auto simp: media_simps)
qed

text \<open>
  What a direction lets flow, and the direction that the attributes of a description ask for, as its receiver reads them. Narrowing is
  stated by these: one side sends only what the other one receives.
\<close>

fun sends :: "pjmedia_dir \<Rightarrow> bool" where
  "sends PJMEDIA_DIR_ENCODING = True"
| "sends PJMEDIA_DIR_ENCODING_DECODING = True"
| "sends _ = False"

fun receives :: "pjmedia_dir \<Rightarrow> bool" where
  "receives PJMEDIA_DIR_DECODING = True"
| "receives PJMEDIA_DIR_ENCODING_DECODING = True"
| "receives _ = False"

definition described_dir :: "pjmedia_sdp_media \<Rightarrow> pjmedia_dir" where
  "described_dir m =
     (if has_attr m ''inactive'' then PJMEDIA_DIR_NONE
      else if has_attr m ''sendonly'' then PJMEDIA_DIR_ENCODING
      else if has_attr m ''recvonly'' then PJMEDIA_DIR_DECODING
      else PJMEDIA_DIR_ENCODING_DECODING)"

lemma adjusted_dir_flows:
  "sends (adjusted_dir remote d) \<longleftrightarrow> sends d \<and> receives (described_dir remote)"
  "receives (adjusted_dir remote d) \<longleftrightarrow> receives d \<and> sends (described_dir remote)"
  by (cases d; simp add: adjusted_dir_def described_dir_def)+

definition dir_fits :: "pjmedia_sdp_media \<Rightarrow> pjmedia_dir \<Rightarrow> bool" where
  "dir_fits remote d \<longleftrightarrow>
     (sends d \<longrightarrow> receives (described_dir remote)) \<and> (receives d \<longrightarrow> sends (described_dir remote))"

lemma adjusted_fits: "dir_fits remote (adjusted_dir remote d)"
  by (simp add: dir_fits_def adjusted_dir_flows)

text \<open>An answered media: it is rejected, or made from the local media with index \<open>j\<close>.\<close>

definition answer_fits ::
  "pjmedia_sdp_media list \<Rightarrow> pjmedia_sdp_media \<Rightarrow> nat option \<Rightarrow> pjmedia_sdp_media \<Rightarrow> bool" where
  "answer_fits ims om j am \<longleftrightarrow>
     m_media am = m_media om \<and>
     (m_port om = 0 \<or> j = None \<longrightarrow> m_port am = 0) \<and>
     (m_port am \<noteq> 0 \<longrightarrow>
        the j < length ims \<and> m_core am = m_core (ims ! the j) \<and> media_proto (ims ! the j) = media_proto om \<and>
        (\<forall>f \<in> set (m_fmt am). fmt_offered om f) \<and>
        (length (m_attr am) < PJMEDIA_MAX_SDP_ATTR \<longrightarrow> dir_fits om (local_dir am)))"

definition match_start :: "pjmedia_sdp_media \<Rightarrow> match_state" where
  "match_start im = \<lparr>mo_master_has_codec = False, mo_master_has_other = False, mo_found_codec = False,
     mo_found_tel_event = False, mo_found_other = False, mo_pt_offer = [], mo_pt_answer = [],
     mo_clockrate = [], mo_tel_clockrate = [], mo_preanswer = im\<rparr>"

lemma match_start_inv:
  assumes "match_fmts p [0..<length (m_fmt (mo_master p (match_start im)))] (match_start im) = (status, st)"
  shows "match_inv p im st"
proof -
  have "match_inv p im (match_start im)" by (simp add: match_inv_def match_start_def)
  moreover have "\<forall>i \<in> set [0..<length (m_fmt (mo_master p (match_start im)))].
      i < length (m_fmt (if mp_prefer_remote p then mp_offer p else im))"
    by (simp add: mo_master_def match_start_def)
  ultimately show ?thesis using match_fmts_inv[OF assms] by blast
qed

lemma match_offer_fits:
  assumes "match_offer env pref multi om im initial = Some (Inr am, im')" "[] \<notin> set (m_fmt im)" "m_media om = m_media im"
  shows "m_media am = m_media om \<and> (m_port om = 0 \<longrightarrow> m_port am = 0) \<and>
         (m_port am \<noteq> 0 \<longrightarrow> m_core am = m_core im \<and> (\<forall>f \<in> set (m_fmt am). fmt_offered om f) \<and>
           (length (m_attr am) < PJMEDIA_MAX_SDP_ATTR \<longrightarrow> dir_fits om (local_dir am)))"
proof (cases "m_port om = 0 \<or> m_port im = 0")
  case True
  then show ?thesis using assms by (auto simp: match_offer_def deactivate_core split: if_splits)
next
  case False
  define p where "p = \<lparr>mp_env = env, mp_prefer_remote = pref, mp_multiple = multi, mp_offer = om\<rparr>"
  obtain status st where m: "match_fmts p [0..<length (m_fmt (mo_master p (match_start im)))] (match_start im) = (status, st)" by force
  obtain pts where pts: "wanted_pts st = Some pts" and b: "build_answer om (mo_preanswer st) pts = Some am"
    using assms(1) False m
    by (auto simp: match_offer_def Let_def p_def[symmetric] match_start_def[symmetric] split: if_splits option.splits)
  note inv = match_start_inv[OF m]
  obtain m where a: "m_core am = m_core im" "m_fmt am = map fst pts" "set (map snd pts) \<subseteq> set (m_fmt im)"
      "am = update_media_direction om m"
    using build_answer_spec[OF b] inv by (auto simp: match_inv_def)
  have "fmt_offered om f" if f: "f \<in> set (m_fmt am)" for f
  proof -
    obtain g where g: "(f, g) \<in> set pts" using f a(2) by auto
    then have "g \<noteq> []" using a(3) assms(2) by force
    then have "(f, g) \<in> set (zip (mo_pt_offer st) (mo_pt_answer st))" using wanted_pts_sub[OF pts] g by auto
    then show ?thesis using inv by (auto simp: match_inv_def p_def dest: set_zip_leftD)
  qed
  moreover have "dir_fits om (local_dir am)" if "length (m_attr am) < PJMEDIA_MAX_SDP_ATTR"
    using that updated_dir[of om m] a(4) adjusted_fits by auto
  moreover have "m_media am = m_media im" using a(1) by (simp add: m_core_def)
  ultimately show ?thesis using assms(3) a(1) False by simp
qed

section \<open>The answer to a session\<close>

text \<open>The local media as callbacks have left them are the local media, but for the attributes.\<close>

definition same_local :: "pjmedia_sdp_media list \<Rightarrow> pjmedia_sdp_media list \<Rightarrow> bool" where
  "same_local ims0 ims \<longleftrightarrow> map m_core ims = map m_core ims0 \<and> map m_fmt ims = map m_fmt ims0"

lemma same_local_nth:
  "same_local ims0 ims \<Longrightarrow> j < length ims0 \<Longrightarrow>
     m_core (ims ! j) = m_core (ims0 ! j) \<and> m_fmt (ims ! j) = m_fmt (ims0 ! j) \<and> length ims = length ims0"
  unfolding same_local_def by (metis length_map nth_map)

lemma same_local_update:
  "same_local ims0 ims \<Longrightarrow> m_core im' = m_core (ims ! j) \<Longrightarrow> m_fmt im' = m_fmt (ims ! j) \<Longrightarrow> same_local ims0 (ims[j := im'])"
  by (simp add: same_local_def map_update) (metis list_update_id map_update)

lemma match_offer_local:
  "match_offer env pref multi om im initial = Some (r, im') \<Longrightarrow> m_core im' = m_core im \<and> m_fmt im' = m_fmt im"
proof -
  assume m: "match_offer env pref multi om im initial = Some (r, im')"
  define p where "p = \<lparr>mp_env = env, mp_prefer_remote = pref, mp_multiple = multi, mp_offer = om\<rparr>"
  obtain status st where f: "match_fmts p [0..<length (m_fmt (mo_master p (match_start im)))] (match_start im) = (status, st)" by force
  have "match_inv p im st" by (rule match_start_inv[OF f])
  moreover have "im' = im \<or> im' = mo_preanswer st" using m f
    by (auto simp: match_offer_def Let_def p_def[symmetric] match_start_def[symmetric] split: if_splits option.splits)
  ultimately show ?thesis by (auto simp: match_inv_def)
qed

lemma find_answer_spec:
  assumes "find_answer_media env pref multi initial om js (ims, used, status) = Some (r, ims', used', status')"
    and "same_local ims0 ims" "length used = length ims0" "\<forall>j \<in> set js. j < length ims0"
    and "\<forall>m \<in> set ims0. [] \<notin> set (m_fmt m)"
  shows "same_local ims0 ims' \<and> length used' = length ims0 \<and>
         (case r of None \<Rightarrow> used' = used
          | Some am \<Rightarrow> \<exists>j < length ims0. \<not> used ! j \<and> used' = used[j := True] \<and> answer_fits ims0 om (Some j) am)"
  using assms(1-4)
proof (induction js arbitrary: ims status)
  case (Cons j js)
  have j: "j < length ims0" using Cons.prems(4) by simp
  note loc = same_local_nth[OF Cons.prems(2) j]
  show ?case
  proof (cases "m_media om = m_media (ims ! j) \<and> media_proto om = media_proto (ims ! j) \<and> \<not> used ! j")
    case True
    obtain res im' where m: "match_offer env pref multi om (ims ! j) initial = Some (res, im')"
      using Cons.prems(1) True by (auto simp: Let_def split: option.splits)
    have sl: "same_local ims0 (ims[j := im'])"
      using same_local_update[OF Cons.prems(2)] match_offer_local[OF m] by blast
    show ?thesis
    proof (cases res)
      case (Inl err)
      then show ?thesis using Cons.prems(1) True m Cons.IH[OF _ sl Cons.prems(3)] Cons.prems(4)
        by (simp add: Let_def)
    next
      case (Inr am)
      have ne: "[] \<notin> set (m_fmt (ims ! j))" using loc j assms(5) by simp
      have "media_proto (ims ! j) = media_proto (ims0 ! j)" using loc by (simp add: media_proto_def m_core_def)
      then have "answer_fits ims0 om (Some j) am"
        using match_offer_fits[OF m[unfolded Inr] ne] True loc j by (auto simp: answer_fits_def)
      then show ?thesis using Cons.prems(1,3) True m Inr sl j by (auto simp: Let_def)
    qed
  next
    case False
    then show ?thesis using Cons by (auto simp: Let_def)
  qed
qed auto

lemma answer_medias_spec:
  assumes "answer_medias env pref multi initial oms (ims, used, status) = Some (ams, status')"
    and "same_local ims0 ims" "length used = length ims0" "\<forall>m \<in> set ims0. [] \<notin> set (m_fmt m)"
  shows "\<exists>js. length js = length oms \<and> length ams = length oms \<and> distinct (filter (\<lambda>j. j \<noteq> None) js) \<and>
     (\<forall>j. Some j \<in> set js \<longrightarrow> \<not> used ! j) \<and>
     (\<forall>k < length oms. answer_fits ims0 (oms ! k) (js ! k) (ams ! k))"
  using assms(1-3)
proof (induction oms arbitrary: ims used status ams)
  case (Cons om oms)
  have len: "length ims = length ims0" using Cons.prems(2) by (metis same_local_def length_map)
  obtain r ims1 used1 st1 where f: "find_answer_media env pref multi initial om [0..<length ims] (ims, used, status) =
      Some (r, ims1, used1, st1)"
    using Cons.prems(1) by (auto split: option.splits)
  then obtain ams1 where rest: "answer_medias env pref multi initial oms (ims1, used1, st1) = Some (ams1, status')"
      and ams: "ams = (case r of Some m \<Rightarrow> m | None \<Rightarrow> sdp_media_clone_deactivate om om initial) # ams1"
    using Cons.prems(1) by auto
  have s: "same_local ims0 ims1" "length used1 = length ims0"
      "case r of None \<Rightarrow> used1 = used
       | Some am \<Rightarrow> \<exists>j < length ims0. \<not> used ! j \<and> used1 = used[j := True] \<and> answer_fits ims0 om (Some j) am"
    using find_answer_spec[OF f Cons.prems(2,3) _ assms(4)] len by auto
  obtain js where js: "length js = length oms" "length ams1 = length oms" "distinct (filter (\<lambda>j. j \<noteq> None) js)"
      "\<forall>j. Some j \<in> set js \<longrightarrow> \<not> used1 ! j" "\<forall>k < length oms. answer_fits ims0 (oms ! k) (js ! k) (ams1 ! k)"
    using Cons.IH[OF rest s(1,2)] by blast
  show ?case
  proof (cases r)
    case None
    have "answer_fits ims0 om None (hd ams)" using None by (simp add: ams answer_fits_def deactivate_core)
    then show ?thesis using None js s(3) ams
      by (intro exI[of _ "None # js"]) (auto simp: nth_Cons split: nat.splits)
  next
    case (Some am)
    then obtain j where j: "j < length ims0" "\<not> used ! j" "used1 = used[j := True]" "answer_fits ims0 om (Some j) am"
      using s(3) by auto
    have "Some j \<notin> set js" using js(4) j(1,3) Cons.prems(3) by auto
    moreover have "\<not> used ! i" if "Some i \<in> set js" for i
      using that js(4) j Cons.prems(3) by (cases "i = j") auto
    ultimately show ?thesis using Some js j ams
      by (intro exI[of _ "Some j # js"]) (auto simp: nth_Cons split: nat.splits)
  qed
qed auto

text \<open>
  C7. An answer that \<open>create_answer\<close> makes has one media for each offered media, in the same order, and of the same
  type; every local media is used for at most one of them. A media that is not rejected has port, connection and
  transport of its local media, whose transport fits the offered one, and only formats that were offered
  (literally, or the same static payload type); a media that was offered with port 0 is rejected. If its array of attributes
  is not full, it sends only if the offer receives, and receives only if the offer sends. The rest of the description is the
  local one, and the status is an error only if every media is rejected. Callbacks may do what they want with
  the attributes of the local media. No local format may be the empty text.
\<close>

theorem answer_fits_offer:
  assumes "create_answer env prefer_remote multiple initial offer = Some (status, Some answer)"
    and "\<forall>m \<in> set (s_media initial). [] \<notin> set (m_fmt m)"
  shows "(\<exists>js. length js = length (s_media offer) \<and> distinct (filter (\<lambda>j. j \<noteq> None) js) \<and>
            (\<forall>k < length (s_media offer).
               answer_fits (s_media initial) (s_media offer ! k) (js ! k) (s_media answer ! k))) \<and>
         length (s_media answer) = length (s_media offer) \<and>
         answer = initial\<lparr>s_media := s_media answer\<rparr> \<and>
         (status \<noteq> PJ_SUCCESS \<longrightarrow> (\<forall>m \<in> set (s_media answer). m_port m = 0))"
proof -
  obtain ams st where a: "answer_medias env prefer_remote multiple initial (s_media offer)
        (s_media initial, replicate (length (s_media initial)) False, PJ_SUCCESS) = Some (ams, st)"
      and ans: "answer = initial\<lparr>s_media := ams\<rparr>" "status = (if list_ex (\<lambda>m. m_port m \<noteq> 0) ams then PJ_SUCCESS else st)"
    using assms(1) by (auto simp: create_answer_def Let_def split: if_splits option.splits)
  have "\<forall>m \<in> set ams. m_port m = 0" if "status \<noteq> PJ_SUCCESS"
    using that ans(2) by (auto simp: list_ex_iff split: if_splits)
  moreover have "s_media answer = ams" "answer = initial\<lparr>s_media := s_media answer\<rparr>" by (simp_all add: ans(1))
  moreover obtain js where "length js = length (s_media offer)" "length ams = length (s_media offer)"
      "distinct (filter (\<lambda>j. j \<noteq> None) js)"
      "\<forall>k < length (s_media offer). answer_fits (s_media initial) (s_media offer ! k) (js ! k) (ams ! k)"
    using answer_medias_spec[OF a _ _ assms(2)] by (auto simp: same_local_def)
  ultimately show ?thesis by auto
qed

text \<open>Alice offers a codec and a video line; Bob has the codec under another number, and no video.\<close>

definition rtpmap_attr :: "string \<Rightarrow> pjmedia_sdp_attr" where
  "rtpmap_attr s = pjmedia_sdp_attr_create (pj_str ''rtpmap'') (Some (pj_str s))"

definition alice_av :: pjmedia_sdp_session where
  "alice_av = plain_session ''alice''
     [audio_media 4000 [pj_str ''96'', pj_str ''0''] [rtpmap_attr ''96 opus/48000/2'', pjmedia_sdp_attr_create (pj_str ''sendonly'') None],
      (audio_media 6000 [pj_str ''31''] [])\<lparr>m_media := pj_str ''video''\<rparr>]"

definition bob_opus :: pjmedia_sdp_session where
  "bob_opus = plain_session ''bob'' [audio_media 5000 [pj_str ''0'', pj_str ''111''] [rtpmap_attr ''111 opus/48000/2'']]"

definition bob_answer :: pjmedia_sdp_session where
  "bob_answer = the (snd (the (create_answer no_fmt_callbacks True False bob_opus alice_av)))"

lemma bob_answers:
  "create_answer no_fmt_callbacks True False bob_opus alice_av = Some (PJ_SUCCESS, Some bob_answer) \<and>
   map m_fmt (s_media bob_answer) = [[pj_str ''96''], [pj_str ''31'']] \<and>
   map m_port (s_media bob_answer) = [5000, 0] \<and>
   map local_dir (s_media bob_answer) = [PJMEDIA_DIR_DECODING, PJMEDIA_DIR_ENCODING_DECODING]"
proof -
  have "case create_answer no_fmt_callbacks True False bob_opus alice_av of
        Some (st, Some ans) \<Rightarrow>
          st = PJ_SUCCESS \<and> map m_fmt (s_media ans) = [[pj_str ''96''], [pj_str ''31'']] \<and>
          map m_port (s_media ans) = [5000, 0] \<and>
          map local_dir (s_media ans) = [PJMEDIA_DIR_DECODING, PJMEDIA_DIR_ENCODING_DECODING]
      | _ \<Rightarrow> False" by code_simp
  then show ?thesis by (auto simp: bob_answer_def split: option.splits prod.splits)
qed

theorem answer_fits_offer_witness:
  "create_answer no_fmt_callbacks True False bob_opus alice_av = Some (PJ_SUCCESS, Some bob_answer) \<and>
   length (s_media bob_answer) = 2 \<and>
   map m_fmt (s_media bob_answer) = [[pj_str ''96''], [pj_str ''31'']] \<and>
   map m_port (s_media bob_answer) = [5000, 0] \<and> map local_dir (s_media bob_answer) = [PJMEDIA_DIR_DECODING, PJMEDIA_DIR_ENCODING_DECODING]"
proof -
  have "\<forall>m \<in> set (s_media bob_opus). [] \<notin> set (m_fmt m)" by code_simp
  from answer_fits_offer[OF conjunct1[OF bob_answers] this]
  have "length (s_media bob_answer) = length (s_media alice_av)" by blast
  then show ?thesis using bob_answers by (simp add: alice_av_def plain_session_def)
qed

text \<open>
  The code means to report \<open>ENOMEDIA\<close> when there is nothing to answer with, but the variable was overwritten by the result
  of the validation: an offer with no media type in common is answered with success and every media rejected.
\<close>

lemma nothing_in_common_is_success:
  assumes "pjmedia_sdp_validate offer = PJ_SUCCESS"
    and "\<forall>om \<in> set (s_media offer). \<forall>im \<in> set (s_media initial). m_media om \<noteq> m_media im"
  shows "create_answer env prefer_remote multiple initial offer =
     Some (PJ_SUCCESS, Some (initial\<lparr>s_media := map (\<lambda>om. sdp_media_clone_deactivate om om initial) (s_media offer)\<rparr>))"
proof -
  have f: "find_answer_media env pref multi initial om js (s_media initial, used, st) =
      Some (None, s_media initial, used, st)"
    if "om \<in> set (s_media offer)" "\<forall>j \<in> set js. j < length (s_media initial)" for om js used st pref multi
    using that by (induction js) (use assms(2) in \<open>auto simp: Let_def\<close>)
  have "answer_medias env prefer_remote multiple initial oms (s_media initial, used, st) =
      Some (map (\<lambda>om. sdp_media_clone_deactivate om om initial) oms, st)" if "set oms \<subseteq> set (s_media offer)" for oms used st
    using that by (induction oms) (simp_all add: f)
  then show ?thesis using assms(1)
    by (simp add: create_answer_def Let_def list_ex_iff deactivate_core)
qed

end
