(* ===== verification/Sdp_Answered.thy ===== *)
theory Sdp_Answered
  imports Sdp_Answer
begin

text \<open>
  How the offerer processes an answer (\<open>process_m_answer\<close>): the formats that stay are those that both sides have, brought
  into the answer's order on both sides.
\<close>

section \<open>Looking up the attributes of a format\<close>

text \<open>The number under which the attributes of a format are looked for.\<close>

definition fmt_number :: "u8 list \<Rightarrow> u32 option" where
  "fmt_number fmt = (case pj_strtoul3 fmt 10 of (PJ_SUCCESS, Some ul) \<Rightarrow> Some (ucast ul) | _ \<Rightarrow> None)"

lemma find_index_find: "map_option ((!) xs) (find_index P xs) = find P xs"
  by (induction xs) (auto simp: option.map_comp comp_def)

lemma fmt_attr_index:
  "fmt_attr m name fmt =
     (if length (m_attr m) > PJMEDIA_MAX_SDP_ATTR then None
      else case fmt_number fmt of None \<Rightarrow> None | Some n \<Rightarrow> find_index (attr_matches name (Some n)) (m_attr m))"
  by (auto simp: fmt_attr_def pjmedia_sdp_media_find_attr_def pjmedia_sdp_attr_find_def fmt_number_def
      split: prod.splits pj_status.splits option.splits)

lemma fmt_rtpmap_find:
  "fmt_rtpmap m fmt =
     (if length (m_attr m) > PJMEDIA_MAX_SDP_ATTR then None
      else case fmt_number fmt of
             None \<Rightarrow> None
           | Some n \<Rightarrow> map_option (\<lambda>a. snd (pjmedia_sdp_attr_get_rtpmap a)) (find (attr_matches STR_RTPMAP (Some n)) (m_attr m)))"
  by (auto simp: fmt_rtpmap_def fmt_attr_index option.map_comp comp_def find_index_find[symmetric] split: option.splits)

lemma find_remove:
  "k < length xs \<Longrightarrow> \<not> P (xs ! k) \<Longrightarrow> find P (take k xs @ drop (Suc k) xs) = find P xs"
proof (induction xs arbitrary: k)
  case (Cons x xs)
  then show ?case by (cases k) auto
qed simp

lemma find_filter_same: "(\<And>x. x \<in> set xs \<Longrightarrow> P x \<Longrightarrow> Q x) \<Longrightarrow> find P (filter Q xs) = find P xs"
  by (induction xs) auto

lemma find_append_none: "(\<And>x. x \<in> set ys \<Longrightarrow> \<not> P x) \<Longrightarrow> find P (xs @ ys) = find P xs"
  by (induction xs) (auto simp: find_None_iff)

text \<open>The attribute of a format that is found has that name and the format's number.\<close>

lemma fmt_attr_found:
  assumes "fmt_attr m name f = Some k"
  shows "\<exists>n. fmt_number f = Some n \<and> k < length (m_attr m) \<and> attr_matches name (Some n) (m_attr m ! k) \<and>
           m_attr (remove_fmt_attr name f m) = take k (m_attr m) @ drop (Suc k) (m_attr m) \<and>
           length (m_attr m) \<le> PJMEDIA_MAX_SDP_ATTR"
  using assms find_index_Some[of "attr_matches name (Some (the (fmt_number f)))" "m_attr m" k]
  by (auto simp: remove_fmt_attr_def fmt_attr_index pjmedia_sdp_media_remove_attr_def pjmedia_sdp_attr_remove_def
      split: if_splits option.splits)

lemma remove_fmt_attr_none: "fmt_attr m name f = None \<Longrightarrow> remove_fmt_attr name f m = m"
  by (simp add: remove_fmt_attr_def)

lemma attr_matches_same_number: "attr_matches name (Some n) a \<Longrightarrow> attr_matches name' (Some n') a \<Longrightarrow> n = n'"
  by (auto simp: attr_matches_def Let_def split: prod.splits)

text \<open>Removing the attributes of a format leaves the \<open>rtpmap\<close> of a format with another number.\<close>

lemma remove_other_rtpmap:
  assumes "fmt_number g = None \<or> fmt_number g \<noteq> fmt_number f"
  shows "fmt_rtpmap (remove_fmt_attr name f m) g = fmt_rtpmap m g"
proof (cases "fmt_attr m name f")
  case None
  then show ?thesis by (simp add: remove_fmt_attr_none)
next
  case (Some k)
  then obtain n where k: "fmt_number f = Some n" "k < length (m_attr m)" "attr_matches name (Some n) (m_attr m ! k)"
      "m_attr (remove_fmt_attr name f m) = take k (m_attr m) @ drop (Suc k) (m_attr m)"
      "length (m_attr m) \<le> PJMEDIA_MAX_SDP_ATTR"
    using fmt_attr_found by blast
  show ?thesis
  proof (cases "fmt_number g")
    case (Some n')
    then have "\<not> attr_matches STR_RTPMAP (Some n') (m_attr m ! k)"
      using assms k(1,3) attr_matches_same_number by auto
    from find_remove[where P = "attr_matches STR_RTPMAP (Some n')", OF k(2) this]
    have "find (attr_matches STR_RTPMAP (Some n')) (m_attr (remove_fmt_attr name f m)) =
        find (attr_matches STR_RTPMAP (Some n')) (m_attr m)" by (simp add: k(4))
    moreover have "length (m_attr (remove_fmt_attr name f m)) \<le> PJMEDIA_MAX_SDP_ATTR" using k(2,4,5) by simp
    ultimately show ?thesis using k(5) Some by (simp add: fmt_rtpmap_find)
  qed (simp add: fmt_rtpmap_find)
qed

lemma remove_others_rtpmap:
  "fmt_number g = None \<or> fmt_number g \<noteq> fmt_number f \<Longrightarrow> fmt_rtpmap (remove_fmt_attrs f m) g = fmt_rtpmap m g"
  by (simp add: remove_fmt_attrs_def remove_other_rtpmap)

text \<open>Nor does it touch the direction attributes, and a change of direction touches no \<open>rtpmap\<close>.\<close>

lemma remove_keeps_attr:
  assumes "pj_str d \<noteq> name"
  shows "has_attr (remove_fmt_attr name f m) d = has_attr m d"
proof (cases "fmt_attr m name f")
  case None
  then show ?thesis by (simp add: remove_fmt_attr_none)
next
  case (Some k)
  then obtain n where k: "k < length (m_attr m)" "attr_matches name (Some n) (m_attr m ! k)"
      "m_attr (remove_fmt_attr name f m) = take k (m_attr m) @ drop (Suc k) (m_attr m)"
      "length (m_attr m) \<le> PJMEDIA_MAX_SDP_ATTR"
    using fmt_attr_found by blast
  have "m_attr m = take k (m_attr m) @ m_attr m ! k # drop (Suc k) (m_attr m)" using k(1) by (rule id_take_nth_drop)
  then have "set (m_attr m) = insert (m_attr m ! k) (set (m_attr (remove_fmt_attr name f m)))"
    using k(3) by (metis Un_insert_right list.set(2) set_append)
  moreover have "a_name (m_attr m ! k) \<noteq> pj_str d" using k(2) assms by (auto simp: attr_matches_def)
  moreover have "length (m_attr (remove_fmt_attr name f m)) \<le> PJMEDIA_MAX_SDP_ATTR" using k by simp
  ultimately show ?thesis using k(4) by (simp add: has_attr_iff)
qed

lemma str_names:
  "pj_str ''inactive'' \<noteq> STR_RTPMAP" "pj_str ''sendrecv'' \<noteq> STR_RTPMAP" "pj_str ''sendonly'' \<noteq> STR_RTPMAP"
  "pj_str ''recvonly'' \<noteq> STR_RTPMAP" "pj_str ''inactive'' \<noteq> STR_FMTP" "pj_str ''sendrecv'' \<noteq> STR_FMTP"
  "pj_str ''sendonly'' \<noteq> STR_FMTP" "pj_str ''recvonly'' \<noteq> STR_FMTP"
proof -
  have "(\<forall>d \<in> set [''inactive'', ''sendrecv'', ''sendonly'', ''recvonly'']. pj_str d \<noteq> STR_RTPMAP \<and> pj_str d \<noteq> STR_FMTP)"
    by code_simp
  then show
    "pj_str ''inactive'' \<noteq> STR_RTPMAP" "pj_str ''sendrecv'' \<noteq> STR_RTPMAP" "pj_str ''sendonly'' \<noteq> STR_RTPMAP"
    "pj_str ''recvonly'' \<noteq> STR_RTPMAP" "pj_str ''inactive'' \<noteq> STR_FMTP" "pj_str ''sendrecv'' \<noteq> STR_FMTP"
    "pj_str ''sendonly'' \<noteq> STR_FMTP" "pj_str ''recvonly'' \<noteq> STR_FMTP"
    by simp_all
qed

lemma remove_keeps_dir: "local_dir (remove_fmt_attrs f m) = local_dir m"
  by (simp add: local_dir_def remove_fmt_attrs_def remove_keeps_attr str_names)

lemma local_dir_fmt: "local_dir (m\<lparr>m_fmt := fs\<rparr>) = local_dir m" "fmt_rtpmap (m\<lparr>m_fmt := fs\<rparr>) g = fmt_rtpmap m g"
  by (simp_all add: local_dir_def has_attr_def pjmedia_sdp_media_find_attr_def fmt_rtpmap_def fmt_attr_def)

lemma update_direction_rtpmap:
  assumes "length (m_attr m) < PJMEDIA_MAX_SDP_ATTR"
  shows "fmt_rtpmap (update_media_direction remote m) f = fmt_rtpmap m f"
proof (cases "adjusted_dir remote (local_dir m) = local_dir m")
  case True
  then show ?thesis by (simp add: update_media_direction_def Let_def)
next
  case False
  define r where "r = remove_all_media_directions m"
  have le: "length (m_attr m) \<le> PJMEDIA_MAX_SDP_ATTR" using assms by simp
  note rm = removed_directions[OF le, folded r_def]
  have rl: "length (m_attr r) < PJMEDIA_MAX_SDP_ATTR"
    using assms length_filter_le le_less_trans unfolding rm by blast
  obtain as where as: "m_attr (update_media_direction remote m) = m_attr r @ as" "length as \<le> 1"
      "\<forall>a \<in> set as. a_name a \<noteq> STR_RTPMAP"
  proof (cases "dir_attr (adjusted_dir remote (local_dir m))")
    case None
    then show ?thesis using that[of "[]"] False by (simp add: update_media_direction_def Let_def r_def)
  next
    case (Some a)
    have "a_name a \<noteq> STR_RTPMAP" using Some str_names
      by (cases "adjusted_dir remote (local_dir m)") (auto simp: pjmedia_sdp_attr_create_def)
    then show ?thesis using that[of "[a]"] False Some rl
      by (simp add: update_media_direction_def Let_def r_def pjmedia_sdp_media_add_attr_def pjmedia_sdp_attr_add_def)
  qed
  have "find (attr_matches STR_RTPMAP n) (m_attr (update_media_direction remote m)) =
      find (attr_matches STR_RTPMAP n) (m_attr m)" for n
  proof -
    have "find (attr_matches STR_RTPMAP n) (m_attr r @ as) = find (attr_matches STR_RTPMAP n) (m_attr r)"
      using as(3) by (intro find_append_none) (auto simp: attr_matches_def)
    moreover have "find (attr_matches STR_RTPMAP n) (m_attr r) = find (attr_matches STR_RTPMAP n) (m_attr m)"
      unfolding rm by (rule find_filter_same) (use str_names in \<open>auto simp: attr_matches_def\<close>)
    ultimately show ?thesis by (simp add: as(1))
  qed
  moreover have "length (m_attr (update_media_direction remote m)) \<le> PJMEDIA_MAX_SDP_ATTR" using as rl by simp
  ultimately show ?thesis using le by (simp add: fmt_rtpmap_find split: option.splits)
qed

section \<open>The match of a format\<close>

text \<open>The format of the answer that matches an offered one, when no callback is registered.\<close>

definition answer_idx :: "pjmedia_sdp_media \<Rightarrow> pjmedia_sdp_media \<Rightarrow> u8 list \<Rightarrow> nat option" where
  "answer_idx offer answer fmt =
     (if uint_of_fmt fmt < 96 then find_index (\<lambda>f. fmt = f) (m_fmt answer)
      else case fmt_rtpmap offer fmt of
             None \<Rightarrow> None
           | Some r \<Rightarrow>
               find_index (\<lambda>f. case fmt_rtpmap answer f of
                   None \<Rightarrow> False
                 | Some ar \<Rightarrow> stricmp_eq (rm_enc_name r) (rm_enc_name ar) \<and> rm_clock_rate r = rm_clock_rate ar \<and>
                     (stricmp_eq (rm_param r) (rm_param ar) \<or> one_channel (rm_param ar))) (m_fmt answer))"

definition rtpmap_present :: "pjmedia_sdp_media \<Rightarrow> u8 list \<Rightarrow> bool" where
  "rtpmap_present offer fmt \<longleftrightarrow> uint_of_fmt fmt < 96 \<or> fmt_rtpmap offer fmt \<noteq> None"

lemma find_index_nth: "find_index (\<lambda>j. P (xs ! j)) [0..<length xs] = find_index P xs"
proof -
  have "find_index (\<lambda>j. P (xs ! j)) [0..<length xs] = find_index P (map ((!) xs) [0..<length xs])"
  proof -
    have "find_index (\<lambda>j. P (f j)) ys = find_index P (map f ys)" for f and ys :: "nat list"
      by (induction ys) auto
    then show ?thesis by blast
  qed
  then show ?thesis by (simp add: map_nth)
qed

lemma match_in_answer_idx:
  assumes "fe_registry env = []" "rtpmap_present offer (m_fmt offer ! i)"
  shows "match_in_answer env offer i answer = Inr (answer_idx offer answer (m_fmt offer ! i))"
proof -
  have c: "fst (custom_fmt_match env nm om oi am ai b) = PJ_SUCCESS" for nm om oi am ai b
    using assms(1) by (simp add: custom_fmt_match_def)
  define P where "P = (\<lambda>(r :: pjmedia_sdp_rtpmap) f. case fmt_rtpmap answer f of
     None \<Rightarrow> False
   | Some ar \<Rightarrow> stricmp_eq (rm_enc_name r) (rm_enc_name ar) \<and> rm_clock_rate r = rm_clock_rate ar \<and>
       (stricmp_eq (rm_param r) (rm_param ar) \<or> one_channel (rm_param ar)))"
  have "answer_fmt_matches env offer i r answer j = P r (m_fmt answer ! j)" for r j
    by (simp add: answer_fmt_matches_def P_def c cong: option.case_cong)
  then have "find_index (answer_fmt_matches env offer i r answer) [0..<length (m_fmt answer)] =
      find_index (P r) (m_fmt answer)" for r
    using find_index_nth[of "P r" "m_fmt answer"] by presburger
  then show ?thesis using assms(2)
    by (auto simp: match_in_answer_def answer_idx_def P_def rtpmap_present_def Let_def split: option.splits)
qed

lemma answer_idx_cong:
  "fmt_rtpmap offer' f = fmt_rtpmap offer f \<Longrightarrow>
     answer_idx offer' answer f = answer_idx offer answer f \<and> rtpmap_present offer' f = rtpmap_present offer f"
  by (simp add: answer_idx_def rtpmap_present_def)

lemma answer_idx_bound: "answer_idx offer answer f = Some j \<Longrightarrow> j < length (m_fmt answer)"
  by (auto simp: answer_idx_def dest!: find_index_Some split: if_splits option.splits)

section \<open>The loops of \<open>process_m_answer\<close>\<close>

text \<open>
  The formats from \<open>length prior\<close> on are filtered: those with a match stay, and their matches are appended to \<open>prior\<close>.
\<close>

definition filters_well ::
  "fmt_env \<Rightarrow> nat list \<Rightarrow> pjmedia_sdp_media \<Rightarrow> pjmedia_sdp_media \<Rightarrow> bool" where
  "filters_well env prior offer answer \<longleftrightarrow>
     (\<exists>offer'.
        filter_offer (length (m_fmt offer) - length prior) env prior offer answer =
          (PJ_SUCCESS, prior @ map the (filter (\<lambda>j. j \<noteq> None)
             (map (answer_idx offer answer) (drop (length prior) (m_fmt offer)))), offer') \<and>
        m_fmt offer' = take (length prior) (m_fmt offer) @
          filter (\<lambda>f. answer_idx offer answer f \<noteq> None) (drop (length prior) (m_fmt offer)) \<and>
        m_core offer' = m_core offer \<and> local_dir offer' = local_dir offer)"

lemma filter_offer_spec:
  assumes "fe_registry env = []" "length prior \<le> length (m_fmt offer)"
    and "\<forall>f \<in> set (drop (length prior) (m_fmt offer)). rtpmap_present offer f"
    and "distinct (filter (\<lambda>n. n \<noteq> None) (map fmt_number (drop (length prior) (m_fmt offer))))"
  shows "filters_well env prior offer answer"
  using assms(2-4)
proof (induction "length (m_fmt offer) - length prior" arbitrary: prior offer)
  case 0
  then show ?case by (auto simp: filters_well_def)
next
  case (Suc n)
  define i where "i = length prior"
  have i: "i < length (m_fmt offer)" using Suc.hyps(2) by (simp add: i_def)
  define f where "f = m_fmt offer ! i"
  define rest where "rest = drop (Suc i) (m_fmt offer)"
  have d: "drop i (m_fmt offer) = f # rest" using i by (simp add: f_def rest_def Cons_nth_drop_Suc)
  have fp: "rtpmap_present offer f" using Suc.prems(2) d by (simp add: i_def)
  note m = match_in_answer_idx[OF assms(1) fp[unfolded f_def], folded f_def]
  have n: "n = length (m_fmt offer) - Suc i" using Suc.hyps(2) by (simp add: i_def)
  show ?case
  proof (cases "answer_idx offer answer f")
    case None
    define off1 where "off1 = remove_fmt_attrs f offer"
    define off2 where "off2 = off1\<lparr>m_fmt := take i (m_fmt off1) @ drop (Suc i) (m_fmt off1)\<rparr>"
    have fm: "m_fmt off2 = take i (m_fmt offer) @ rest" by (simp add: off2_def off1_def media_simps rest_def)
    have keep: "fmt_rtpmap off2 g = fmt_rtpmap offer g" if "g \<in> set rest" for g
    proof -
      have "fmt_number g = None \<or> fmt_number g \<noteq> fmt_number f"
        using Suc.prems(3) that d by (auto simp: i_def[symmetric] split: if_splits) (metis image_eqI)
      then show ?thesis by (simp add: off2_def off1_def local_dir_fmt remove_others_rtpmap)
    qed
    have idx: "map (answer_idx off2 answer) rest = map (answer_idx offer answer) rest"
      "filter (\<lambda>f. answer_idx off2 answer f \<noteq> None) rest = filter (\<lambda>f. answer_idx offer answer f \<noteq> None) rest"
      using answer_idx_cong[OF keep] by (auto cong: map_cong filter_cong)
    have dr: "drop (length prior) (m_fmt off2) = rest" "take (length prior) (m_fmt off2) = take i (m_fmt offer)"
      using fm i by (simp_all add: i_def)
    have "filters_well env prior off2 answer"
    proof (rule Suc.hyps(1))
      show "n = length (m_fmt off2) - length prior" using n i fm by (simp add: i_def rest_def)
      show "length prior \<le> length (m_fmt off2)" using fm i by (simp add: i_def)
      show "\<forall>f \<in> set (drop (length prior) (m_fmt off2)). rtpmap_present off2 f"
        using Suc.prems(2) d answer_idx_cong[OF keep] by (auto simp: dr i_def)
      show "distinct (filter (\<lambda>n. n \<noteq> None) (map fmt_number (drop (length prior) (m_fmt off2))))"
        using Suc.prems(3) d by (auto simp: dr i_def split: if_splits)
    qed
    moreover have "length (m_fmt off2) - length prior = n" using n i fm by (simp add: i_def rest_def)
    moreover have "filter_offer (Suc n) env prior offer answer = filter_offer n env prior off2 answer"
      using m None by (simp add: i_def[symmetric] f_def[symmetric] off2_def off1_def Let_def)
    then have "filter_offer (length (m_fmt offer) - length prior) env prior offer answer = filter_offer n env prior off2 answer"
      using Suc.hyps(2) by simp
    moreover have "m_core off2 = m_core offer" "local_dir off2 = local_dir offer"
      by (simp_all add: off2_def off1_def media_simps local_dir_fmt remove_keeps_dir)
    ultimately show ?thesis using None d unfolding filters_well_def dr idx by (simp add: i_def)
  next
    case (Some j)
    have dr: "drop (length (prior @ [j])) (m_fmt offer) = rest" "take (length (prior @ [j])) (m_fmt offer) = take i (m_fmt offer) @ [f]"
      using i by (simp_all add: rest_def i_def f_def take_Suc_conv_app_nth)
    have "filters_well env (prior @ [j]) offer answer"
    proof (rule Suc.hyps(1))
      show "n = length (m_fmt offer) - length (prior @ [j])" using n by (simp add: i_def)
      show "length (prior @ [j]) \<le> length (m_fmt offer)" using i by (simp add: i_def)
      show "\<forall>f \<in> set (drop (length (prior @ [j])) (m_fmt offer)). rtpmap_present offer f"
        using Suc.prems(2)[folded i_def] d unfolding dr by simp
      show "distinct (filter (\<lambda>n. n \<noteq> None) (map fmt_number (drop (length (prior @ [j])) (m_fmt offer))))"
        using Suc.prems(3)[folded i_def] d unfolding dr by (simp split: if_splits)
    qed
    moreover have "filter_offer (Suc n) env prior offer answer = filter_offer n env (prior @ [j]) offer answer"
      using m Some by (simp add: i_def[symmetric] f_def[symmetric] Let_def)
    then have "filter_offer (length (m_fmt offer) - length prior) env prior offer answer = filter_offer n env (prior @ [j]) offer answer"
      using Suc.hyps(2) by simp
    ultimately show ?thesis using Some d[unfolded i_def] n unfolding filters_well_def dr by (simp add: i_def)
  qed
qed

lemma exchange_pass_spec:
  "exchange_pass x ys = (z, zs) \<Longrightarrow>
     mset (z # zs) = mset (x # ys) \<and> (\<forall>y \<in> set zs. fst z \<le> fst y) \<and> fst z \<le> fst x"
proof (induction ys arbitrary: x z zs)
  case (Cons y ys)
  show ?case
  proof (cases "fst x > fst y")
    case True
    obtain z' zs' where r: "exchange_pass y ys = (z', zs')" by (cases "exchange_pass y ys")
    then have "z = z'" "zs = x # zs'" using Cons.prems True by auto
    then show ?thesis using Cons.IH[OF r] True by auto
  next
    case False
    obtain z' zs' where r: "exchange_pass x ys = (z', zs')" by (cases "exchange_pass x ys")
    then have "z = z'" "zs = y # zs'" using Cons.prems False by auto
    then show ?thesis using Cons.IH[OF r] False by auto
  qed
qed simp

lemma exchange_sort_spec: "mset (exchange_sort xs) = mset xs \<and> sorted (map fst (exchange_sort xs))"
proof (induction xs rule: exchange_sort.induct)
  case (2 x xs)
  obtain z zs where r: "exchange_pass x xs = (z, zs)" by (cases "exchange_pass x xs")
  have ih: "mset (exchange_sort zs) = mset zs" "sorted (map fst (exchange_sort zs))" using 2[OF refl r[symmetric]] by auto
  then have "set (exchange_sort zs) = set zs" by (metis set_mset_mset)
  then show ?case using r ih exchange_pass_spec[OF r] by simp
qed simp

text \<open>
  Trimming by a strictly ascending list of indices picks the formats at these indices. So far, \<open>i\<close> formats are kept
  and \<open>d\<close> removed.
\<close>

lemma trim_answer_core: "m_core (trim_answer n prior i d answer) = m_core answer"
  by (induction n prior i d answer rule: trim_answer.induct) (auto simp: Let_def media_simps)

lemma trim_answer_spec:
  assumes "m_fmt answer = map (\<lambda>k. fs ! k) (take i prior) @ drop (i + d) fs" "i \<le> length prior"
    "n = length fs - (i + d)" "\<forall>k < length prior. i \<le> k \<longrightarrow> i + d \<le> prior ! k"
    "sorted_wrt (<) prior" "\<forall>j \<in> set prior. j < length fs"
  shows "m_fmt (trim_answer n prior i d answer) = map (\<lambda>k. fs ! k) prior"
  using assms
proof (induction n arbitrary: i d answer)
  case 0
  have "i = length prior"
  proof (rule ccontr)
    assume "i \<noteq> length prior"
    then have i: "i < length prior" using 0 by simp
    then have "i + d \<le> prior ! i" "prior ! i < length fs" using 0 by auto
    then show False using 0 by simp
  qed
  then show ?case using 0 by simp
next
  case (Suc n)
  have id: "i + d < length fs" using Suc.prems(3) by simp
  have hd: "drop (i + d) fs = fs ! (i + d) # drop (Suc (i + d)) fs" using id by (simp add: Cons_nth_drop_Suc)
  show ?case
  proof (cases "i \<ge> length prior \<or> prior ! i \<noteq> i + d")
    case True
    define a1 where "a1 = remove_fmt_attrs (m_fmt answer ! i) answer"
    define a2 where "a2 = a1\<lparr>m_fmt := take i (m_fmt a1) @ drop (Suc i) (m_fmt a1)\<rparr>"
    have "m_fmt a2 = map (\<lambda>k. fs ! k) (take i prior) @ drop (i + Suc d) fs"
      using Suc.prems(1,2) hd by (simp add: a2_def a1_def media_simps)
    moreover have "\<forall>k < length prior. i \<le> k \<longrightarrow> i + Suc d \<le> prior ! k"
    proof (intro allI impI)
      fix k assume k: "k < length prior" "i \<le> k"
      then have "i + d < prior ! i" using True Suc.prems(4) by (simp add: le_neq_implies_less)
      moreover have "prior ! i \<le> prior ! k" using k Suc.prems(5) by (cases "i = k") (auto simp: sorted_wrt_iff_nth_less intro: less_imp_le)
      ultimately show "i + Suc d \<le> prior ! k" by simp
    qed
    ultimately have "m_fmt (trim_answer n prior i (Suc d) a2) = map (\<lambda>k. fs ! k) prior"
      using Suc.prems by (intro Suc.IH) auto
    then show ?thesis using True by (simp add: Let_def a1_def a2_def)
  next
    case False
    then have i: "i < length prior" "prior ! i = i + d" by auto
    have "m_fmt answer = map (\<lambda>k. fs ! k) (take (Suc i) prior) @ drop (Suc i + d) fs"
      using Suc.prems(1) hd i by (simp add: take_Suc_conv_app_nth)
    moreover have "\<forall>k < length prior. Suc i \<le> k \<longrightarrow> Suc i + d \<le> prior ! k"
      using i Suc.prems(5) by (auto simp: sorted_wrt_iff_nth_less) (metis Suc_le_eq)
    ultimately have "m_fmt (trim_answer n prior (Suc i) d answer) = map (\<lambda>k. fs ! k) prior"
      using Suc.prems i by (intro Suc.IH) auto
    then show ?thesis using False by simp
  qed
qed

section \<open>The formats that both sides have\<close>

lemma strictly_sorted: "sorted xs \<Longrightarrow> distinct xs \<Longrightarrow> sorted_wrt (<) (xs :: nat list)"
  by (simp add: strict_sorted_iff)

text \<open>The matched formats as the code sorts them, given the match \<open>M\<close> of each.\<close>

lemma sort_matched:
  assumes "ordered = exchange_sort (zip (map the (filter (\<lambda>j. j \<noteq> None) (map M fs))) (filter (\<lambda>f. M f \<noteq> None) fs))"
    and "distinct (filter (\<lambda>j. j \<noteq> None) (map M fs))"
  shows "mset (map snd ordered) = mset (filter (\<lambda>f. M f \<noteq> None) fs)" "sorted_wrt (<) (map fst ordered)"
    "map M (map snd ordered) = map Some (map fst ordered)"
proof -
  define ks where "ks = filter (\<lambda>f. M f \<noteq> None) fs"
  have z: "zip (map the (filter (\<lambda>j. j \<noteq> None) (map M fs))) ks = map (\<lambda>f. (the (M f), f)) ks"
    by (simp add: filter_map comp_def ks_def zip_map1 zip_same_conv_map)
  have ms: "mset ordered = mset (map (\<lambda>f. (the (M f), f)) ks)" "sorted (map fst ordered)"
    using exchange_sort_spec[of "map (\<lambda>f. (the (M f), f)) ks"] unfolding assms(1) ks_def[symmetric] z by auto
  have "mset (map snd ordered) = mset (map snd (map (\<lambda>f. (the (M f), f)) ks))" using ms(1) by (metis mset_map)
  then show "mset (map snd ordered) = mset (filter (\<lambda>f. M f \<noteq> None) fs)" by (simp add: comp_def ks_def)
  have "mset (map fst ordered) = mset (map fst (map (\<lambda>f. (the (M f), f)) ks))" using ms(1) by (metis mset_map)
  moreover have "distinct (map fst (map (\<lambda>f. (the (M f), f)) ks))"
  proof -
    have "distinct (map M ks)" using assms(2) by (simp add: filter_map comp_def ks_def)
    then show ?thesis by (auto simp: distinct_map ks_def inj_on_def)
  qed
  ultimately have "distinct (map fst ordered)" by (metis mset_eq_imp_distinct_iff)
  then show "sorted_wrt (<) (map fst ordered)" using ms(2) strictly_sorted by blast
  have "set ordered = set (map (\<lambda>f. (the (M f), f)) ks)" using ms(1) by (metis set_mset_mset)
  then show "map M (map snd ordered) = map Some (map fst ordered)" by (auto simp: ks_def)
qed

text \<open>
  C5. Processing the answer to an offered media of the same type and transport, neither with port 0, with no callback
  registered: when the dynamic formats of the offer have an \<open>rtpmap\<close>, its array of attributes is not full, no two offered formats have the same
  number and no two match the same format of the answer, it succeeds exactly if some format has a match. The formats
  of the offer that have one stay on the offer's side, their matches on the answer's, on both sides in the order of
  the answer; the offer sends afterwards exactly if it did before and the answer receives, and receives
  exactly if it did before and the answer sends; everything but
  formats and attributes stays as it is.
\<close>

theorem answer_keeps_common_formats:
  assumes "m_media answer = m_media offer" "pjmedia_sdp_transport_cmp (m_transport answer) (m_transport offer) = PJ_SUCCESS"
    and "m_port answer \<noteq> 0" "m_port offer \<noteq> 0" "fe_registry env = []"
    and "\<forall>f \<in> set (m_fmt offer). rtpmap_present offer f" "length (m_attr offer) < PJMEDIA_MAX_SDP_ATTR"
    and "distinct (filter (\<lambda>n. n \<noteq> None) (map fmt_number (m_fmt offer)))"
    and "distinct (filter (\<lambda>j. j \<noteq> None) (map (answer_idx offer answer) (m_fmt offer)))"
  shows "\<exists>offer' answer' status. process_m_answer env offer answer False = Some (status, offer', answer') \<and>
     status = (if \<exists>f \<in> set (m_fmt offer). answer_idx offer answer f \<noteq> None then PJ_SUCCESS else PJMEDIA_SDPNEG_EANSNOMEDIA) \<and>
     m_core offer' = m_core offer \<and> m_core answer' = m_core answer \<and>
     (sends (local_dir offer') \<longleftrightarrow> sends (local_dir offer) \<and> receives (described_dir answer)) \<and>
     (receives (local_dir offer') \<longleftrightarrow> receives (local_dir offer) \<and> sends (described_dir answer)) \<and>
     (status = PJ_SUCCESS \<longrightarrow>
        mset (m_fmt offer') = mset (filter (\<lambda>f. answer_idx offer answer f \<noteq> None) (m_fmt offer)) \<and>
        (\<exists>js. sorted_wrt (<) js \<and> map (answer_idx offer answer) (m_fmt offer') = map Some js \<and>
              m_fmt answer' = map (\<lambda>j. m_fmt answer ! j) js))"
proof -
  define D where "D = update_media_direction answer offer"
  define M where "M = answer_idx offer answer"
  have fm: "m_fmt D = m_fmt offer" "m_core D = m_core offer" by (simp_all add: D_def media_simps)
  have idx: "answer_idx D answer = M" "rtpmap_present D = rtpmap_present offer"
    using answer_idx_cong[of D _ offer answer] update_direction_rtpmap[OF assms(7), of answer]
    by (auto simp: M_def D_def)
  have dir: "sends (local_dir D) \<longleftrightarrow> sends (local_dir offer) \<and> receives (described_dir answer)"
      "receives (local_dir D) \<longleftrightarrow> receives (local_dir offer) \<and> sends (described_dir answer)"
    using updated_dir[of answer offer] assms(7) adjusted_dir_flows by (simp_all add: D_def)
  define prior where "prior = map the (filter (\<lambda>j. j \<noteq> None) (map M (m_fmt offer)))"
  define ks where "ks = filter (\<lambda>f. M f \<noteq> None) (m_fmt offer)"
  have "filters_well env [] D answer"
    using filter_offer_spec[OF assms(5), of "[]" D answer] assms(6,8) by (simp add: fm idx)
  then obtain off1 where f: "filter_offer (length (m_fmt D)) env [] D answer = (PJ_SUCCESS, prior, off1)"
      and o1: "m_fmt off1 = ks" "m_core off1 = m_core D" "local_dir off1 = local_dir D"
    by (auto simp: filters_well_def fm idx prior_def ks_def)
  define ordered where "ordered = exchange_sort (zip prior ks)"
  note srt = sort_matched[of ordered M "m_fmt offer", folded prior_def ks_def, OF ordered_def assms(9)[folded M_def]]
  define off2 where "off2 = off1\<lparr>m_fmt := map snd ordered\<rparr>"
  define ans2 where "ans2 = trim_answer (length (m_fmt answer)) (map fst ordered) 0 0 answer"
  have p: "process_m_answer env offer answer False =
      Some (if ks = [] then (PJMEDIA_SDPNEG_EANSNOMEDIA, off1, answer) else (PJ_SUCCESS, off2, ans2))"
    using assms(1-4) f o1(1) by (simp add: process_m_answer_def D_def[symmetric] Let_def ordered_def off2_def ans2_def)
  have none: "ks = [] \<longleftrightarrow> \<not> (\<exists>f \<in> set (m_fmt offer). M f \<noteq> None)" by (auto simp: ks_def filter_empty_conv)
  show ?thesis
  proof (cases "ks = []")
    case True
    then show ?thesis using p none o1 fm dir by (auto simp: M_def)
  next
    case False
    have "\<forall>j \<in> set (map fst ordered). j < length (m_fmt answer)"
    proof
      fix j assume "j \<in> set (map fst ordered)"
      then have "Some j \<in> set (map M (map snd ordered))" using srt(3) by (metis imageI list.set_map)
      then show "j < length (m_fmt answer)" using answer_idx_bound[of offer answer] by (auto simp: M_def)
    qed
    then have "m_fmt ans2 = map (\<lambda>j. m_fmt answer ! j) (map fst ordered)"
      unfolding ans2_def using srt(2) by (intro trim_answer_spec) auto
    moreover have "m_core ans2 = m_core answer" by (simp add: ans2_def trim_answer_core)
    moreover have "m_core off2 = m_core offer" "local_dir off2 = local_dir D" "m_fmt off2 = map snd ordered"
      using o1 fm by (simp_all add: off2_def media_simps local_dir_fmt)
    moreover have "\<exists>f \<in> set (m_fmt offer). M f \<noteq> None" using False none by blast
    ultimately show ?thesis using p False srt dir unfolding M_def[symmetric] ks_def[symmetric]
      by (intro exI[of _ off2] exI[of _ ans2] exI[of _ PJ_SUCCESS]) auto
  qed
qed

text \<open>Bob answers with the codec under his own number, in another order, and with one that Alice did not offer.\<close>

definition offered_audio :: pjmedia_sdp_media where
  "offered_audio = audio_media 4000 [pj_str ''0'', pj_str ''8'', pj_str ''96''] [rtpmap_attr ''96 opus/48000/2'']"

definition answered_audio :: pjmedia_sdp_media where
  "answered_audio = audio_media 5000 [pj_str ''111'', pj_str ''3'', pj_str ''0'']
     [rtpmap_attr ''111 OPUS/48000/2'', pjmedia_sdp_attr_create (pj_str ''recvonly'') None]"

theorem answer_keeps_common_formats_witness:
  "\<exists>offer' answer'. process_m_answer no_fmt_callbacks offered_audio answered_audio False = Some (PJ_SUCCESS, offer', answer') \<and>
     local_dir offer' = PJMEDIA_DIR_ENCODING \<and>
     set (m_fmt offer') = {pj_str ''0'', pj_str ''96''} \<and> length (m_fmt answer') = 2"
proof -
  have all: "m_media answered_audio = m_media offered_audio \<and>
    pjmedia_sdp_transport_cmp (m_transport answered_audio) (m_transport offered_audio) = PJ_SUCCESS \<and>
    m_port answered_audio \<noteq> 0 \<and> m_port offered_audio \<noteq> 0 \<and> fe_registry no_fmt_callbacks = [] \<and>
    (\<forall>f \<in> set (m_fmt offered_audio). rtpmap_present offered_audio f) \<and>
    length (m_attr offered_audio) < PJMEDIA_MAX_SDP_ATTR \<and>
    distinct (filter (\<lambda>n. n \<noteq> None) (map fmt_number (m_fmt offered_audio))) \<and>
    distinct (filter (\<lambda>j. j \<noteq> None) (map (answer_idx offered_audio answered_audio) (m_fmt offered_audio))) \<and>
    filter (\<lambda>f. answer_idx offered_audio answered_audio f \<noteq> None) (m_fmt offered_audio) = [pj_str ''0'', pj_str ''96''] \<and>
    described_dir answered_audio = PJMEDIA_DIR_DECODING \<and> local_dir offered_audio = PJMEDIA_DIR_ENCODING_DECODING \<and>
    (\<exists>f \<in> set (m_fmt offered_audio). answer_idx offered_audio answered_audio f \<noteq> None)"
    by code_simp
  have h: "m_media answered_audio = m_media offered_audio"
    "pjmedia_sdp_transport_cmp (m_transport answered_audio) (m_transport offered_audio) = PJ_SUCCESS"
    "m_port answered_audio \<noteq> 0" "m_port offered_audio \<noteq> 0" "fe_registry no_fmt_callbacks = []"
    "\<forall>f \<in> set (m_fmt offered_audio). rtpmap_present offered_audio f"
    "length (m_attr offered_audio) < PJMEDIA_MAX_SDP_ATTR"
    "distinct (filter (\<lambda>n. n \<noteq> None) (map fmt_number (m_fmt offered_audio)))"
    "distinct (filter (\<lambda>j. j \<noteq> None) (map (answer_idx offered_audio answered_audio) (m_fmt offered_audio)))"
    and e: "filter (\<lambda>f. answer_idx offered_audio answered_audio f \<noteq> None) (m_fmt offered_audio) = [pj_str ''0'', pj_str ''96'']"
    "described_dir answered_audio = PJMEDIA_DIR_DECODING" "local_dir offered_audio = PJMEDIA_DIR_ENCODING_DECODING"
    and ex: "\<exists>f \<in> set (m_fmt offered_audio). answer_idx offered_audio answered_audio f \<noteq> None"
    using all by - (elim conjE, assumption)+
  from answer_keeps_common_formats[OF h] obtain offer' answer' status where
      p: "process_m_answer no_fmt_callbacks offered_audio answered_audio False = Some (status, offer', answer')"
      and st: "status = (if \<exists>f \<in> set (m_fmt offered_audio). answer_idx offered_audio answered_audio f \<noteq> None
        then PJ_SUCCESS else PJMEDIA_SDPNEG_EANSNOMEDIA)"
      and d: "sends (local_dir offer') \<longleftrightarrow> sends (local_dir offered_audio) \<and> receives (described_dir answered_audio)"
        "receives (local_dir offer') \<longleftrightarrow> receives (local_dir offered_audio) \<and> sends (described_dir answered_audio)"
      and c: "status = PJ_SUCCESS \<longrightarrow>
        mset (m_fmt offer') = mset (filter (\<lambda>f. answer_idx offered_audio answered_audio f \<noteq> None) (m_fmt offered_audio)) \<and>
        (\<exists>js. sorted_wrt (<) js \<and> map (answer_idx offered_audio answered_audio) (m_fmt offer') = map Some js \<and>
              m_fmt answer' = map (\<lambda>j. m_fmt answered_audio ! j) js)"
    by blast
  have s: "status = PJ_SUCCESS" unfolding st using ex by (rule if_P)
  then have m: "mset (m_fmt offer') = mset [pj_str ''0'', pj_str ''96'']" using c unfolding e by blast
  obtain js where js: "map (answer_idx offered_audio answered_audio) (m_fmt offer') = map Some js"
      "m_fmt answer' = map (\<lambda>j. m_fmt answered_audio ! j) js"
    using c s by blast
  have "length (m_fmt answer') = length (m_fmt offer')" using js by (metis length_map)
  moreover have "length (m_fmt offer') = length [pj_str ''0'', pj_str ''96'']" using m by (rule mset_eq_length)
  moreover have "set (m_fmt offer') = set [pj_str ''0'', pj_str ''96'']" using m by (rule mset_eq_setD)
  ultimately have "set (m_fmt offer') = {pj_str ''0'', pj_str ''96''}" "length (m_fmt answer') = 2" by simp_all
  moreover have "local_dir offer' = PJMEDIA_DIR_ENCODING" using d unfolding e(2,3) by (cases "local_dir offer'") simp_all
  ultimately show ?thesis using p[unfolded s] by blast
qed

text \<open>
  Without the hypothesis on double matches: two offered formats that match the first format of the answer make the
  loop remove the second one, although the offer keeps its match.
\<close>

definition twice_offered :: pjmedia_sdp_media where
  "twice_offered = audio_media 4000 [pj_str ''96'', pj_str ''97'', pj_str ''0'']
     [rtpmap_attr ''96 opus/48000/2'', rtpmap_attr ''97 opus/48000/2'']"

definition twice_answered :: pjmedia_sdp_media where
  "twice_answered = audio_media 5000 [pj_str ''96'', pj_str ''0''] [rtpmap_attr ''96 opus/48000/2'']"

lemma double_match_drops_common:
  "case process_m_answer no_fmt_callbacks twice_offered twice_answered False of
     None \<Rightarrow> False
   | Some (status, offer', answer') \<Rightarrow>
       status = PJ_SUCCESS \<and> m_fmt offer' = [pj_str ''96'', pj_str ''97'', pj_str ''0''] \<and> m_fmt answer' = [pj_str ''96'']"
  by code_simp

end
