(* ===== verification/Crc32.thy ===== *)
theory Crc32
  imports Pj_Prelude
begin

text \<open>
  The CRC-32 of \<open>pjlib-util/src/pjlib-util/crc32.c\<close>. The file has two implementations, chosen by
  \<open>PJ_CRC32_HAS_TABLES\<close>: the one with a table, which takes four bytes at a time where the data is aligned
  (here for a little-endian host), and the one that shifts bit by bit. Both are modelled. They compute the same,
  for every address of the data and however the data is cut into pieces.
\<close>

section \<open>The table, and the version that uses it\<close>

definition CRC32_NEGL :: u32 where "CRC32_NEGL = 0xffffffff"

definition crc_tab :: "u32 list" where
  "crc_tab =
    [0x00000000, 0x77073096, 0xee0e612c, 0x990951ba, 0x076dc419, 0x706af48f, 0xe963a535, 0x9e6495a3,
     0x0edb8832, 0x79dcb8a4, 0xe0d5e91e, 0x97d2d988, 0x09b64c2b, 0x7eb17cbd, 0xe7b82d07, 0x90bf1d91,
     0x1db71064, 0x6ab020f2, 0xf3b97148, 0x84be41de, 0x1adad47d, 0x6ddde4eb, 0xf4d4b551, 0x83d385c7,
     0x136c9856, 0x646ba8c0, 0xfd62f97a, 0x8a65c9ec, 0x14015c4f, 0x63066cd9, 0xfa0f3d63, 0x8d080df5,
     0x3b6e20c8, 0x4c69105e, 0xd56041e4, 0xa2677172, 0x3c03e4d1, 0x4b04d447, 0xd20d85fd, 0xa50ab56b,
     0x35b5a8fa, 0x42b2986c, 0xdbbbc9d6, 0xacbcf940, 0x32d86ce3, 0x45df5c75, 0xdcd60dcf, 0xabd13d59,
     0x26d930ac, 0x51de003a, 0xc8d75180, 0xbfd06116, 0x21b4f4b5, 0x56b3c423, 0xcfba9599, 0xb8bda50f,
     0x2802b89e, 0x5f058808, 0xc60cd9b2, 0xb10be924, 0x2f6f7c87, 0x58684c11, 0xc1611dab, 0xb6662d3d,
     0x76dc4190, 0x01db7106, 0x98d220bc, 0xefd5102a, 0x71b18589, 0x06b6b51f, 0x9fbfe4a5, 0xe8b8d433,
     0x7807c9a2, 0x0f00f934, 0x9609a88e, 0xe10e9818, 0x7f6a0dbb, 0x086d3d2d, 0x91646c97, 0xe6635c01,
     0x6b6b51f4, 0x1c6c6162, 0x856530d8, 0xf262004e, 0x6c0695ed, 0x1b01a57b, 0x8208f4c1, 0xf50fc457,
     0x65b0d9c6, 0x12b7e950, 0x8bbeb8ea, 0xfcb9887c, 0x62dd1ddf, 0x15da2d49, 0x8cd37cf3, 0xfbd44c65,
     0x4db26158, 0x3ab551ce, 0xa3bc0074, 0xd4bb30e2, 0x4adfa541, 0x3dd895d7, 0xa4d1c46d, 0xd3d6f4fb,
     0x4369e96a, 0x346ed9fc, 0xad678846, 0xda60b8d0, 0x44042d73, 0x33031de5, 0xaa0a4c5f, 0xdd0d7cc9,
     0x5005713c, 0x270241aa, 0xbe0b1010, 0xc90c2086, 0x5768b525, 0x206f85b3, 0xb966d409, 0xce61e49f,
     0x5edef90e, 0x29d9c998, 0xb0d09822, 0xc7d7a8b4, 0x59b33d17, 0x2eb40d81, 0xb7bd5c3b, 0xc0ba6cad,
     0xedb88320, 0x9abfb3b6, 0x03b6e20c, 0x74b1d29a, 0xead54739, 0x9dd277af, 0x04db2615, 0x73dc1683,
     0xe3630b12, 0x94643b84, 0x0d6d6a3e, 0x7a6a5aa8, 0xe40ecf0b, 0x9309ff9d, 0x0a00ae27, 0x7d079eb1,
     0xf00f9344, 0x8708a3d2, 0x1e01f268, 0x6906c2fe, 0xf762575d, 0x806567cb, 0x196c3671, 0x6e6b06e7,
     0xfed41b76, 0x89d32be0, 0x10da7a5a, 0x67dd4acc, 0xf9b9df6f, 0x8ebeeff9, 0x17b7be43, 0x60b08ed5,
     0xd6d6a3e8, 0xa1d1937e, 0x38d8c2c4, 0x4fdff252, 0xd1bb67f1, 0xa6bc5767, 0x3fb506dd, 0x48b2364b,
     0xd80d2bda, 0xaf0a1b4c, 0x36034af6, 0x41047a60, 0xdf60efc3, 0xa867df55, 0x316e8eef, 0x4669be79,
     0xcb61b38c, 0xbc66831a, 0x256fd2a0, 0x5268e236, 0xcc0c7795, 0xbb0b4703, 0x220216b9, 0x5505262f,
     0xc5ba3bbe, 0xb2bd0b28, 0x2bb45a92, 0x5cb36a04, 0xc2d7ffa7, 0xb5d0cf31, 0x2cd99e8b, 0x5bdeae1d,
     0x9b64c2b0, 0xec63f226, 0x756aa39c, 0x026d930a, 0x9c0906a9, 0xeb0e363f, 0x72076785, 0x05005713,
     0x95bf4a82, 0xe2b87a14, 0x7bb12bae, 0x0cb61b38, 0x92d28e9b, 0xe5d5be0d, 0x7cdcefb7, 0x0bdbdf21,
     0x86d3d2d4, 0xf1d4e242, 0x68ddb3f8, 0x1fda836e, 0x81be16cd, 0xf6b9265b, 0x6fb077e1, 0x18b74777,
     0x88085ae6, 0xff0f6a70, 0x66063bca, 0x11010b5c, 0x8f659eff, 0xf862ae69, 0x616bffd3, 0x166ccf45,
     0xa00ae278, 0xd70dd2ee, 0x4e048354, 0x3903b3c2, 0xa7672661, 0xd06016f7, 0x4969474d, 0x3e6e77db,
     0xaed16a4a, 0xd9d65adc, 0x40df0b66, 0x37d83bf0, 0xa9bcae53, 0xdebb9ec5, 0x47b2cf7f, 0x30b5ffe9,
     0xbdbdf21c, 0xcabac28a, 0x53b39330, 0x24b4a3a6, 0xbad03605, 0xcdd70693, 0x54de5729, 0x23d967bf,
     0xb3667a2e, 0xc4614ab8, 0x5d681b02, 0x2a6f2b94, 0xb40bbe37, 0xc30c8ea1, 0x5a05df1b, 0x2d02ef8d]"

definition CRC32_INDEX :: "u32 \<Rightarrow> u32" where "CRC32_INDEX c = c AND 0xff"

definition CRC32_SHIFTED :: "u32 \<Rightarrow> u32" where "CRC32_SHIFTED c = drop_bit 8 c"

definition CRC32_SWAP :: "u32 \<Rightarrow> u32" where "CRC32_SWAP c = c"

text \<open>One byte: \<open>crc = crc_tab[CRC32_INDEX(crc) ^ *data++] ^ CRC32_SHIFTED(crc)\<close>.\<close>

definition crc_byte :: "u32 \<Rightarrow> u8 \<Rightarrow> u32" where
  "crc_byte crc b = crc_tab ! unat (CRC32_INDEX crc XOR ucast b) XOR CRC32_SHIFTED crc"

text \<open>One of the four steps after a word has been added to the register.\<close>

definition crc_word_step :: "u32 \<Rightarrow> u32" where
  "crc_word_step crc = crc_tab ! unat (CRC32_INDEX crc) XOR CRC32_SHIFTED crc"

text \<open>The bytes up to the next address that is a multiple of four; what is left of the data.\<close>

fun crc_head :: "nat \<Rightarrow> u32 \<Rightarrow> u8 list \<Rightarrow> u32 \<times> u8 list" where
  "crc_head addr crc [] = (crc, [])"
| "crc_head addr crc (b # bs) = (if addr mod 4 \<noteq> 0 then crc_head (Suc addr) (crc_byte crc b) bs else (crc, b # bs))"

fun crc_words :: "u32 \<Rightarrow> u8 list \<Rightarrow> u32 \<times> u8 list" where
  "crc_words crc (b0 # b1 # b2 # b3 # bs) =
     crc_words (crc_word_step (crc_word_step (crc_word_step (crc_word_step (crc XOR load32 b0 b1 b2 b3))))) bs"
| "crc_words crc bs = (crc, bs)"

fun crc_tail :: "u32 \<Rightarrow> u8 list \<Rightarrow> u32" where
  "crc_tail crc [] = crc"
| "crc_tail crc (b # bs) = crc_tail (crc_byte crc b) bs"

definition pj_crc32_init :: u32 where "pj_crc32_init = 0"

text \<open>\<open>addr\<close> is the address of the data. The result is the state of the context, which the function returns, too.\<close>

definition pj_crc32_update :: "u32 \<Rightarrow> nat \<Rightarrow> u8 list \<Rightarrow> u32" where
  "pj_crc32_update st addr data =
     (case crc_head addr (st XOR CRC32_NEGL) data of (crc, rest) \<Rightarrow>
      case crc_words crc rest of (crc', rest') \<Rightarrow> crc_tail crc' rest' XOR CRC32_NEGL)"

definition pj_crc32_final :: "u32 \<Rightarrow> u32" where "pj_crc32_final st = CRC32_SWAP st"

definition pj_crc32_calc :: "nat \<Rightarrow> u8 list \<Rightarrow> u32" where
  "pj_crc32_calc addr data = pj_crc32_final (pj_crc32_update pj_crc32_init addr data)"

section \<open>The version without a table\<close>

definition crc_bit_init :: u32 where "crc_bit_init = CRC32_NEGL"

definition crc_shift :: "u32 \<Rightarrow> u32" where
  "crc_shift temp = (if temp AND 1 \<noteq> 0 then drop_bit 1 temp XOR 0xEDB88320 else drop_bit 1 temp)"

fun crc_bit_update :: "u32 \<Rightarrow> u8 list \<Rightarrow> u32" where
  "crc_bit_update crc [] = crc"
| "crc_bit_update crc (b # bs) =
     crc_bit_update (drop_bit 8 crc XOR (crc_shift ^^ 8) ((crc AND 0xFF) XOR ucast b)) bs"

definition crc_bit_final :: "u32 \<Rightarrow> u32" where "crc_bit_final st = st XOR CRC32_NEGL"

definition crc_bit_calc :: "u8 list \<Rightarrow> u32" where
  "crc_bit_calc data = crc_bit_final (crc_bit_update crc_bit_init data)"

section \<open>The table holds eight shifts of every byte\<close>

text \<open>The shift is linear, so that the table follows from its entries for single bits.\<close>

definition crc_basis :: "u32 list" where
  "crc_basis = [0x77073096, 0xee0e612c, 0x076dc419, 0x0edb8832, 0x1db71064, 0x3b6e20c8, 0x76dc4190, 0xedb88320]"

lemma crc_shift_8:
  "(crc_shift ^^ 8) x = crc_shift (crc_shift (crc_shift (crc_shift (crc_shift (crc_shift (crc_shift (crc_shift x)))))))"
  by (simp add: numeral_eq_Suc)

lemma crc_basis_shifts: "map (\<lambda>k. (crc_shift ^^ 8) (2 ^ k)) [0..<8] = crc_basis"
  by (simp add: crc_shift_8 crc_shift_def crc_basis_def upt_rec del: funpow.simps)

definition crc_double :: "u32 list \<Rightarrow> u32 \<Rightarrow> u32 list" where
  "crc_double t b = t @ map (\<lambda>c. b XOR c) t"

lemma crc_tab_doubling: "foldl crc_double [0] crc_basis = crc_tab"
  by (simp add: crc_basis_def crc_tab_def crc_double_def)

lemma xor_xor_cancel [simp]: "(a XOR b) XOR b = (a :: 'a :: len word)"
  by (simp add: xor.assoc)

lemma and_ff: "c AND 0xff = (take_bit 8 c :: u32)"
  by (simp add: take_bit_eq_mask mask_eq_exp_minus_1)

lemma crc_shift_odd: "crc_shift x = drop_bit 1 x XOR (if bit x 0 then 0xEDB88320 else 0)"
  by (simp add: crc_shift_def and_one_eq mod_2_eq_odd bit_0)

lemma crc_shift_xor: "crc_shift (a XOR b) = crc_shift a XOR crc_shift b"
  unfolding crc_shift_odd by (cases "bit a 0"; cases "bit b 0") (simp_all add: drop_bit_xor bit_xor_iff ac_simps flip: One_nat_def)

lemma crc_shifts_xor: "(crc_shift ^^ n) (a XOR b) = (crc_shift ^^ n) a XOR (crc_shift ^^ n) b"
  by (induction n) (simp_all add: crc_shift_xor)

lemma crc_shifts_0: "(crc_shift ^^ n) 0 = 0"
  by (induction n) (simp_all add: crc_shift_def)

lemma power_add_xor:
  assumes "i < 2 ^ k"
  shows "(word_of_nat (2 ^ k + i) :: u32) = 2 ^ k XOR word_of_nat i"
proof -
  have "\<not> bit i k" using assms by (simp add: bit_iff_odd)
  then have "2 ^ k + i = (2 ^ k XOR i)"
    by (intro disjunctive_add_eq_xor bit_eqI) (auto simp: bit_simps)
  then show ?thesis by (metis of_nat_xor_eq of_nat_power of_nat_numeral)
qed

lemma crc_double_shifts:
  assumes "t = map (\<lambda>i. (crc_shift ^^ 8) (word_of_nat i)) [0..<2 ^ k]"
  shows "crc_double t ((crc_shift ^^ 8) (2 ^ k)) = map (\<lambda>i. (crc_shift ^^ 8) (word_of_nat i)) [0..<2 ^ Suc k]"
proof (rule nth_equalityI)
  fix i assume "i < length (crc_double t ((crc_shift ^^ 8) (2 ^ k)))"
  then have i: "i < 2 ^ Suc k" using assms by (simp add: crc_double_def)
  show "crc_double t ((crc_shift ^^ 8) (2 ^ k)) ! i = map (\<lambda>i. (crc_shift ^^ 8) (word_of_nat i)) [0..<2 ^ Suc k] ! i"
  proof (cases "i < 2 ^ k")
    case True
    then show ?thesis using i by (simp add: crc_double_def assms nth_append del: power_Suc upt_Suc funpow.simps)
  next
    case False
    then obtain j where j: "i = 2 ^ k + j" by (metis le_add_diff_inverse not_less)
    then have "j < 2 ^ k" using i by simp
    then show ?thesis using i power_add_xor[of j k] unfolding j
      by (simp add: crc_double_def assms nth_append crc_shifts_xor del: power_Suc upt_Suc funpow.simps of_nat_add)
  qed
qed (simp add: assms crc_double_def)

lemma crc_tab_eq: "crc_tab = map (\<lambda>i. (crc_shift ^^ 8) (word_of_nat i)) [0..<256]"
proof -
  have "foldl crc_double [0] (map (\<lambda>k. (crc_shift ^^ 8) (2 ^ k)) [0..<n]) = map (\<lambda>i. (crc_shift ^^ 8) (word_of_nat i)) [0..<2 ^ n]" for n
  proof (induction n)
    case (Suc n)
    then show ?case using crc_double_shifts[OF Suc] by (simp del: power_Suc funpow.simps)
  qed (simp add: crc_shifts_0 del: funpow.simps)
  from this[of 8] show ?thesis unfolding crc_basis_shifts crc_tab_doubling by simp
qed

lemma crc_tab_shifts: "crc_tab ! unat (c AND 0xff) = (crc_shift ^^ 8) (c AND 0xff)"
proof -
  have "unat (c AND 0xff) < 256"
    using word_and_le1[of c "0xff"] by (simp add: word_le_nat_alt)
  then show ?thesis by (simp add: crc_tab_eq del: funpow.simps upt_Suc)
qed

section \<open>A word is four bytes\<close>

lemma crc_word_step_xor: "crc_word_step (c XOR w) = crc_byte c (ucast w) XOR drop_bit 8 w"
proof -
  have "CRC32_INDEX (c XOR w) = CRC32_INDEX c XOR ucast (ucast w :: u8)"
    unfolding CRC32_INDEX_def and_ff by (rule bit_word_eqI) (auto simp: bit_simps)
  then show ?thesis
    by (simp add: crc_word_step_def crc_byte_def CRC32_SHIFTED_def drop_bit_xor ac_simps)
qed

lemma bytes_of_load32:
  "ucast (load32 b0 b1 b2 b3) = b0" "ucast (drop_bit 8 (load32 b0 b1 b2 b3)) = b1"
  "ucast (drop_bit 8 (drop_bit 8 (load32 b0 b1 b2 b3))) = b2"
  "ucast (drop_bit 8 (drop_bit 8 (drop_bit 8 (load32 b0 b1 b2 b3)))) = b3"
  "drop_bit 8 (drop_bit 8 (drop_bit 8 (drop_bit 8 (load32 b0 b1 b2 b3)))) = 0"
  using byte32_load32[of b0 b1 b2 b3] by (simp_all add: byte32_def)

lemma crc_words_tail:
  "crc_words crc bs = (crc', rest) \<Longrightarrow> crc_tail crc bs = crc_tail crc' rest"
proof (induction crc bs rule: crc_words.induct)
  case (1 crc b0 b1 b2 b3 bs)
  have "crc_word_step (crc_word_step (crc_word_step (crc_word_step (crc XOR load32 b0 b1 b2 b3)))) =
      crc_byte (crc_byte (crc_byte (crc_byte crc b0) b1) b2) b3"
    unfolding crc_word_step_xor bytes_of_load32 by simp
  then show ?case using 1 by simp
qed auto

lemma crc_head_tail: "crc_head addr crc bs = (crc', rest) \<Longrightarrow> crc_tail crc bs = crc_tail crc' rest"
  by (induction addr crc bs rule: crc_head.induct) (auto split: if_splits)

lemma crc_tail_append: "crc_tail crc (a @ b) = crc_tail (crc_tail crc a) b"
  by (induction crc a rule: crc_tail.induct) simp_all

lemma crc_update_tail: "pj_crc32_update st addr data XOR CRC32_NEGL = crc_tail (st XOR CRC32_NEGL) data"
  using crc_head_tail crc_words_tail by (auto simp: pj_crc32_update_def split: prod.splits)

lemma crc_byte_shifts: "crc_byte crc b = drop_bit 8 crc XOR (crc_shift ^^ 8) ((crc AND 0xFF) XOR ucast b)"
proof -
  have "CRC32_INDEX crc XOR ucast b = ((crc AND 0xFF) XOR ucast b) AND 0xff"
    unfolding CRC32_INDEX_def and_ff by (rule bit_word_eqI) (auto simp: bit_simps dest: bit_imp_le_length)
  then show ?thesis using crc_tab_shifts[of "(crc AND 0xFF) XOR ucast b"]
    by (simp add: crc_byte_def CRC32_SHIFTED_def CRC32_INDEX_def ac_simps del: funpow.simps)
qed

lemma crc_bit_update_tail: "crc_bit_update crc bs = crc_tail crc bs"
  by (induction crc bs rule: crc_bit_update.induct) (simp_all add: crc_byte_shifts del: funpow.simps)

lemma crc_pieces:
  "foldl (\<lambda>st (addr, d). pj_crc32_update st addr d) st ps XOR CRC32_NEGL = crc_tail (st XOR CRC32_NEGL) (concat (map snd ps))"
  by (induction ps arbitrary: st) (auto simp: crc_tail_append crc_update_tail)

text \<open>
  C40 (equivalence): the checksum is what the version without a table computes from the whole data, whatever pieces the data
  comes in and wherever they lie in memory.
\<close>

theorem crc32_versions_agree:
  "pj_crc32_final (foldl (\<lambda>st (addr, d). pj_crc32_update st addr d) pj_crc32_init ps) = crc_bit_calc (concat (map snd ps))"
proof -
  have "foldl (\<lambda>st (addr, d). pj_crc32_update st addr d) pj_crc32_init ps = crc_tail CRC32_NEGL (concat (map snd ps)) XOR CRC32_NEGL"
    using arg_cong[OF crc_pieces[of pj_crc32_init ps], of "\<lambda>x. x XOR CRC32_NEGL"] by (simp add: pj_crc32_init_def)
  then show ?thesis
    by (simp add: pj_crc32_final_def CRC32_SWAP_def crc_bit_calc_def crc_bit_final_def crc_bit_init_def crc_bit_update_tail)
qed

text \<open>The checksum does not depend on the address of the data.\<close>

lemma pj_crc32_calc_eq: "pj_crc32_calc addr data = crc_bit_calc data"
  using arg_cong[OF crc_pieces[of pj_crc32_init "[(addr, data)]"], of "\<lambda>x. x XOR CRC32_NEGL"]
  by (simp add: pj_crc32_calc_def pj_crc32_final_def CRC32_SWAP_def crc_bit_calc_def crc_bit_final_def crc_bit_init_def
      crc_bit_update_tail pj_crc32_init_def)

end
