(* ===== verification/Block_Hash.thy ===== *)
theory Block_Hash
  imports Pj_Prelude
begin

text \<open>
  What the digests of \<open>pjlib-util\<close> share: a message is compressed in blocks of 64 bytes, a context keeps
  the bytes that do not fill a block yet. The locale \<open>incremental_digest\<close> is the interface of a digest to its clients: a context
  that is initialised, fed with pieces and finished. \<open>Sha1\<close> and \<open>Md5\<close> provide it.
\<close>

section \<open>Whole blocks of a message\<close>

function hash_blocks :: "('h \<Rightarrow> u8 list \<Rightarrow> 'h) \<Rightarrow> 'h \<Rightarrow> u8 list \<Rightarrow> 'h" where
  "hash_blocks f h m = (if length m < 64 then h else hash_blocks f (f h (take 64 m)) (drop 64 m))"
  by pat_completeness auto
termination by (relation "measure (\<lambda>(f, h, m). length m)") auto

declare hash_blocks.simps [simp del]

definition left_over :: "u8 list \<Rightarrow> u8 list" where
  "left_over m = drop (64 * (length m div 64)) m"

lemma hash_blocks_short [simp]: "length m < 64 \<Longrightarrow> hash_blocks f h m = h"
  by (simp add: hash_blocks.simps)

lemma hash_blocks_block: "length b = 64 \<Longrightarrow> hash_blocks f h (b @ m) = hash_blocks f (f h b) m"
  by (subst hash_blocks.simps) simp

lemma hash_blocks_one [simp]: "length b = 64 \<Longrightarrow> hash_blocks f h b = f h b"
  using hash_blocks_block[of b f h "[]"] by simp

lemma hash_blocks_append:
  "64 dvd length a \<Longrightarrow> hash_blocks f h (a @ m) = hash_blocks f (hash_blocks f h a) m"
proof (induction "length a" arbitrary: a h rule: less_induct)
  case less
  show ?case
  proof (cases "a = []")
    case False
    then have l: "64 \<le> length a" using less.prems by (meson dvd_imp_le length_greater_0_conv)
    have d: "64 dvd length (drop 64 a)" using less.prems by (simp add: dvd_diff_nat)
    have "hash_blocks f h (a @ m) = hash_blocks f (f h (take 64 a)) (drop 64 a @ m)"
      using l by (subst hash_blocks.simps) (simp add: take_append drop_append)
    also have "\<dots> = hash_blocks f (hash_blocks f (f h (take 64 a)) (drop 64 a)) m"
      by (rule less.hyps) (use l d in auto)
    also have "hash_blocks f (f h (take 64 a)) (drop 64 a) = hash_blocks f h a"
      using l by (subst (2) hash_blocks.simps) simp
    finally show ?thesis .
  qed simp
qed

lemma length_left_over [simp]: "length (left_over m) = length m mod 64"
  by (simp add: left_over_def minus_mult_div_eq_mod)

lemma left_over_short [simp]: "length m < 64 \<Longrightarrow> left_over m = m"
  by (simp add: left_over_def)

lemma left_over_append: "64 dvd length a \<Longrightarrow> left_over (a @ m) = left_over m"
  by (auto simp: left_over_def elim!: dvdE)

lemma split_left_over: "\<exists>a. m = a @ left_over m \<and> 64 dvd length a"
proof -
  have "64 * (length m div 64) \<le> length m" by simp
  then show ?thesis
    by (intro exI[of _ "take (64 * (length m div 64)) m"]) (simp add: left_over_def min.absorb2)
qed

text \<open>Appending to a message: only the bytes that were left over count.\<close>

lemma absorb:
  "hash_blocks f h (m @ d) = hash_blocks f (hash_blocks f h m) (left_over m @ d)"
  "left_over (m @ d) = left_over (left_over m @ d)"
proof -
  obtain a where a: "m = a @ left_over m" "64 dvd length a" using split_left_over by blast
  have "hash_blocks f h m = hash_blocks f h a"
    by (subst a(1)) (simp add: hash_blocks_append[OF a(2)])
  then show "hash_blocks f h (m @ d) = hash_blocks f (hash_blocks f h m) (left_over m @ d)"
    by (subst a(1)) (simp add: hash_blocks_append[OF a(2)])
  show "left_over (m @ d) = left_over (left_over m @ d)"
    by (subst a(1)) (simp only: append_assoc left_over_append[OF a(2)])
qed

lemma left_over_whole: "64 dvd length m \<Longrightarrow> left_over m = []"
  using length_left_over[of m] by (metis length_0_conv mod_0_imp_dvd dvd_imp_mod_0)

section \<open>Words in memory\<close>

fun le_words :: "u8 list \<Rightarrow> u32 list" where
  "le_words (b0 # b1 # b2 # b3 # bs) = load32 b0 b1 b2 b3 # le_words bs"
| "le_words bs = []"

definition le_bytes :: "u32 list \<Rightarrow> u8 list" where "le_bytes ws = concat (map store32 ws)"

definition be_bytes :: "u32 list \<Rightarrow> u8 list" where "be_bytes ws = concat (map (\<lambda>w. rev (store32 w)) ws)"

definition rol :: "u32 \<Rightarrow> nat \<Rightarrow> u32" where "rol v bits = push_bit bits v OR drop_bit (32 - bits) v"

lemma rol_rotl: "0 < k \<Longrightarrow> k < 32 \<Longrightarrow> rol w k = word_rotl k w"
  unfolding rol_def
proof (rule bit_word_eqI)
  fix n assume "0 < k" "k < 32" "n < LENGTH(32)"
  then show "bit (push_bit k w OR drop_bit (32 - k) w) n = bit (word_rotl k w) n"
    by (cases "k \<le> n") (auto simp: bit_simps bit_word_rotl_iff mod_if add.commute[of n 32] dest: bit_imp_le_length)
qed

lemma length_le_words: "length (le_words bs) = length bs div 4"
  by (induction bs rule: le_words.induct) auto

lemma length_le_bytes [simp]: "length (le_bytes ws) = 4 * length ws"
  by (induction ws) (auto simp: le_bytes_def)

lemma length_be_bytes [simp]: "length (be_bytes ws) = 4 * length ws"
  by (induction ws) (auto simp: be_bytes_def)

section \<open>The two counters of the number of bits\<close>

definition bits_low :: "nat \<Rightarrow> u32" where "bits_low n = word_of_nat (8 * n)"

definition bits_high :: "nat \<Rightarrow> u32" where "bits_high n = word_of_nat (8 * n div 2 ^ 32)"

lemma mod_div_mod_8: "(x :: nat) mod 4294967296 div 8 mod 64 = x div 8 mod 64"
proof -
  have "take_bit 6 (drop_bit 3 (take_bit 32 x)) = take_bit 6 (drop_bit 3 x)" by (rule bit_eqI) (auto simp: bit_simps)
  then show ?thesis by (simp add: take_bit_eq_mod drop_bit_eq_div)
qed

lemma unat_bytes_mod: "unat (take_bit 6 (drop_bit 3 c) :: u32) = unat c div 8 mod 64"
  unfolding unsigned_take_bit_eq unsigned_drop_bit_eq by (simp add: drop_bit_eq_div take_bit_eq_mod mod_div_mod_8)

lemma add_carry: "d < B \<Longrightarrow> (n + d) div B = n div B + (if (n + d) mod B < d then 1 else 0)" for n d B :: nat
proof -
  assume d: "d < B"
  define q r where "q = n div B" and "r = n mod B"
  have n: "n = q * B + r" and r: "r < B" using d by (simp_all add: q_def r_def)
  show ?thesis
  proof (cases "r + d < B")
    case True
    have "(n + d) div B = q" "(n + d) mod B = r + d" using True by (simp_all add: n add.assoc)
    then show ?thesis using q_def by simp
  next
    case False
    then have e: "n + d = (q + 1) * B + (r + d - B)" by (simp add: n)
    moreover have l: "r + d - B < B" "r + d - B < d" using r d False by auto
    ultimately have "(n + d) div B = q + 1" "(n + d) mod B = r + d - B"
      by (metis div_mult_self3 div_less add.right_neutral l(1) gr_implies_not0) (metis mod_mult_self3 mod_less l(1) e)
    then show ?thesis using q_def l(2) by simp
  qed
qed

lemma add_carry_low: "d < B \<Longrightarrow> (n + d) mod B < n mod B \<longleftrightarrow> (n + d) mod B < d" for n d B :: nat
proof -
  assume d: "d < B"
  define r where "r = n mod B"
  have r: "r < B" "(n + d) mod B = (r + d) mod B" using d by (simp_all add: r_def mod_add_left_eq)
  show ?thesis unfolding r(2) r_def[symmetric] using r(1) d by (cases "r + d < B") (auto simp: mod_if)
qed

lemma unat_bits_low: "unat (bits_low n) = 8 * n mod 2 ^ 32"
  unfolding bits_low_def by (simp del: of_nat_mult add: unat_of_nat)

lemma bits_position: "unat (drop_bit 3 (bits_low n) AND 63) = n mod 64"
proof -
  have m: "(63 :: u32) = mask 6" by (simp add: mask_eq_exp_minus_1)
  have "unat (drop_bit 3 (bits_low n) AND 63) = unat (bits_low n) div 8 mod 64"
    unfolding m take_bit_eq_mask[symmetric] unat_bytes_mod ..
  then show ?thesis using mod_div_mod_8[of "8 * n"] by (simp add: unat_bits_low)
qed

lemma bits_low_add: "bits_low m + push_bit 3 (word_of_nat n) = bits_low (m + n)"
  by (simp add: bits_low_def push_bit_eq_mult algebra_simps)

lemma bits_high_add:
  assumes "n < 2 ^ 29"
  shows "bits_high (m + n) = (if unat (bits_low (m + n)) < 8 * n then bits_high m + 1 else bits_high m)"
    and "drop_bit 29 (word_of_nat n) = (0 :: u32)"
proof -
  have n: "8 * n < 2 ^ 32" using assms by simp
  have "unat (word_of_nat n :: u32) < 2 ^ 29" using assms by (simp add: unat_of_nat)
  then have "unat (drop_bit 29 (word_of_nat n :: u32)) = 0"
    unfolding unsigned_drop_bit_eq by (simp add: drop_bit_eq_div take_bit_eq_mod)
  then show "drop_bit 29 (word_of_nat n) = (0 :: u32)" unfolding unat_eq_zero .
  have "8 * (m + n) = 8 * m + 8 * n" by simp
  then show "bits_high (m + n) = (if unat (bits_low (m + n)) < 8 * n then bits_high m + 1 else bits_high m)"
    unfolding bits_high_def unat_bits_low using add_carry[OF n, of "8 * m"] by simp
qed

lemma pad_mod: "q < 64 \<Longrightarrow> (120 - q) mod 64 = (if q \<le> 56 then 56 - q else 120 - q)" for q :: nat
proof (cases "q \<le> 56")
  case True
  then have "120 - q = 64 + (56 - q)" by simp
  moreover have "(64 + (56 - q)) mod 64 = (56 - q) mod 64" by (rule mod_add_self1)
  moreover have "(56 - q) mod 64 = 56 - q" by (rule mod_less) simp
  ultimately show ?thesis using True by simp
qed simp

lemma bits_high_add':
  assumes "n < 2 ^ 29"
  shows "bits_high (m + n) = (if bits_low (m + n) < bits_low m then bits_high m + 1 else bits_high m)"
  using bits_high_add(1)[OF assms, of m] add_carry_low[of "8 * n" "2 ^ 32" "8 * m"] assms
  by (simp add: word_less_nat_alt unat_bits_low add_mult_distrib2)

lemma memcpy_prefix:
  "j + length d \<le> length buf \<Longrightarrow> take (j + length d) (memcpy_at buf j d) = take j buf @ d"
  by (simp add: memcpy_at_def)

section \<open>The interface of a digest\<close>

locale incremental_digest =
  fixes fresh :: "'c \<Rightarrow> bool" and start :: "'c \<Rightarrow> 'c" and feed :: "'c \<Rightarrow> u8 list \<Rightarrow> 'c" and finish :: "'c \<Rightarrow> u8 list"
    and rep :: "'c \<Rightarrow> u8 list \<Rightarrow> bool" and digest :: "u8 list \<Rightarrow> u8 list" and limit :: nat
  assumes rep_start: "fresh c \<Longrightarrow> rep (start c) []"
    and rep_feed: "rep c m \<Longrightarrow> length d < limit \<Longrightarrow> rep (feed c d) (m @ d)"
    and rep_fresh: "rep c m \<Longrightarrow> fresh c"
    and finish_rep: "rep c m \<Longrightarrow> finish c = digest m"
begin

lemma feed_all: "rep c m \<Longrightarrow> \<forall>d\<in>set ds. length d < limit \<Longrightarrow> rep (foldl feed c ds) (m @ concat ds)"
proof (induction ds arbitrary: c m)
  case (Cons d ds)
  then show ?case using rep_feed[of c m d] Cons.IH[of "feed c d" "m @ d"] by simp
qed simp

lemma digest_pieces:
  "fresh c \<Longrightarrow> \<forall>d\<in>set ds. length d < limit \<Longrightarrow> finish (foldl feed (start c) ds) = digest (concat ds)"
  using finish_rep[OF feed_all[OF rep_start, of c ds]] by simp

end

end
