(* ===== verification/Sha1.thy ===== *)
theory Sha1
  imports Block_Hash
begin

text \<open>
  SHA-1 (\<open>pjlib-util/src/pjlib-util/sha1.c\<close>) and the HMAC over it (\<open>hmac_sha1.c\<close>), on a little-endian host. The code expands
  the 80 words of the schedule in place, in the block that it hashes, and unrolls the rounds so that the five
  variables change their roles instead of their values. The specification is the one of FIPS 180-1, and that of RFC
  2104 for the HMAC.
\<close>

section \<open>The context\<close>

type_synonym sha1_words = "u32 \<times> u32 \<times> u32 \<times> u32 \<times> u32"

record pj_sha1_context =
  sha_state :: sha1_words
  sha_count0 :: u32
  sha_count1 :: u32
  sha_buffer :: "u8 list"

section \<open>Hashing one block\<close>

definition sha_blk0 :: "u32 list \<Rightarrow> nat \<Rightarrow> u32 list" where
  "sha_blk0 l i = l[i := (rol (l ! i) 24 AND 0xFF00FF00) OR (rol (l ! i) 8 AND 0x00FF00FF)]"

definition sha_blk :: "u32 list \<Rightarrow> nat \<Rightarrow> u32 list" where
  "sha_blk l i = l[i mod 16 := rol (l ! ((i + 13) mod 16) XOR l ! ((i + 8) mod 16) XOR l ! ((i + 2) mod 16) XOR l ! (i mod 16)) 1]"

text \<open>
  The macros \<open>R0\<close> to \<open>R4\<close> change \<open>z\<close> and \<open>w\<close>. The result lists the variables in the order in which the next call takes
  them: \<open>R0(a,b,c,d,e,0)\<close> is followed by \<open>R0(e,a,b,c,d,1)\<close>. After 80 rounds every variable is back in its place.
\<close>

fun sha_mix :: "u32 \<Rightarrow> sha1_words \<Rightarrow> u32 \<Rightarrow> sha1_words" where
  "sha_mix x0 (v, w, x, y, z) f = (z + (f + x0 + rol v 5), v, rol w 30, x, y)"

fun R0 :: "sha1_words \<Rightarrow> u32 list \<Rightarrow> nat \<Rightarrow> sha1_words \<times> u32 list" where
  "R0 (v, w, x, y, z) l i =
     (let l' = sha_blk0 l i in (sha_mix (l' ! i + 0x5A827999) (v, w, x, y, z) ((w AND (x XOR y)) XOR y), l'))"

fun R1 :: "sha1_words \<Rightarrow> u32 list \<Rightarrow> nat \<Rightarrow> sha1_words \<times> u32 list" where
  "R1 (v, w, x, y, z) l i =
     (let l' = sha_blk l i in (sha_mix (l' ! (i mod 16) + 0x5A827999) (v, w, x, y, z) ((w AND (x XOR y)) XOR y), l'))"

fun R2 :: "sha1_words \<Rightarrow> u32 list \<Rightarrow> nat \<Rightarrow> sha1_words \<times> u32 list" where
  "R2 (v, w, x, y, z) l i =
     (let l' = sha_blk l i in (sha_mix (l' ! (i mod 16) + 0x6ED9EBA1) (v, w, x, y, z) (w XOR x XOR y), l'))"

fun R3 :: "sha1_words \<Rightarrow> u32 list \<Rightarrow> nat \<Rightarrow> sha1_words \<times> u32 list" where
  "R3 (v, w, x, y, z) l i =
     (let l' = sha_blk l i in (sha_mix (l' ! (i mod 16) + 0x8F1BBCDC) (v, w, x, y, z) (((w OR x) AND y) OR (w AND x)), l'))"

fun R4 :: "sha1_words \<Rightarrow> u32 list \<Rightarrow> nat \<Rightarrow> sha1_words \<times> u32 list" where
  "R4 (v, w, x, y, z) l i =
     (let l' = sha_blk l i in (sha_mix (l' ! (i mod 16) + 0xCA62C1D6) (v, w, x, y, z) (w XOR x XOR y), l'))"

definition sha_round :: "sha1_words \<times> u32 list \<Rightarrow> nat \<Rightarrow> sha1_words \<times> u32 list" where
  "sha_round s i =
     (case s of (r, l) \<Rightarrow>
        if i < 16 then R0 r l i else if i < 20 then R1 r l i else if i < 40 then R2 r l i
        else if i < 60 then R3 r l i else R4 r l i)"

fun add_words :: "sha1_words \<Rightarrow> sha1_words \<Rightarrow> sha1_words" where
  "add_words (a, b, c, d, e) (a', b', c', d', e') = (a + a', b + b', c + c', d + d', e + e')"

text \<open>The block is the buffer itself, which the schedule overwrites.\<close>

definition SHA1_Transform :: "sha1_words \<Rightarrow> u8 list \<Rightarrow> sha1_words \<times> u8 list" where
  "SHA1_Transform st buffer =
     (case foldl sha_round (st, le_words buffer) [0..<80] of (r, l) \<Rightarrow> (add_words st r, le_bytes l))"

section \<open>Initialising, updating, finishing\<close>

definition pj_sha1_init :: "pj_sha1_context \<Rightarrow> pj_sha1_context" where
  "pj_sha1_init ctx = ctx\<lparr>sha_state := (0x67452301, 0xEFCDAB89, 0x98BADCFE, 0x10325476, 0xC3D2E1F0),
     sha_count0 := 0, sha_count1 := 0\<rparr>"

text \<open>The whole blocks of the data from position \<open>i\<close>: the loop over \<open>tmp\<close>.\<close>

function sha_blocks :: "sha1_words \<Rightarrow> u8 list \<Rightarrow> nat \<Rightarrow> sha1_words \<times> nat" where
  "sha_blocks st data i =
     (if i + 63 < length data then sha_blocks (fst (SHA1_Transform st (take 64 (drop i data)))) data (i + 64) else (st, i))"
  by pat_completeness auto
termination by (relation "measure (\<lambda>(st, data, i). length data - i)") auto

declare sha_blocks.simps [simp del]

text \<open>The length is a \<open>pj_size_t\<close> of 64 bits, the counters have 32.\<close>

definition pj_sha1_update :: "pj_sha1_context \<Rightarrow> u8 list \<Rightarrow> pj_sha1_context" where
  "pj_sha1_update ctx data =
     (let len = length data;
          j = unat (drop_bit 3 (sha_count0 ctx) AND 63);
          c0 = sha_count0 ctx + push_bit 3 (word_of_nat len);
          c1 = (if unat c0 < (len * 8) mod 2 ^ 64 then sha_count1 ctx + 1 else sha_count1 ctx) + drop_bit 29 (word_of_nat len);
          ctx1 = ctx\<lparr>sha_count0 := c0, sha_count1 := c1\<rparr>
      in if 63 < j + len
         then case SHA1_Transform (sha_state ctx) (memcpy_at (sha_buffer ctx) j (take (64 - j) data)) of (st, buf) \<Rightarrow>
              case sha_blocks st data (64 - j) of (st', i) \<Rightarrow>
                ctx1\<lparr>sha_state := st', sha_buffer := memcpy_at buf 0 (drop i data)\<rparr>
         else ctx1\<lparr>sha_buffer := memcpy_at (sha_buffer ctx) j data\<rparr>)"

lemma sha1_count0_update [simp]:
  "sha_count0 (pj_sha1_update ctx data) = sha_count0 ctx + push_bit 3 (word_of_nat (length data))"
  by (simp add: pj_sha1_update_def Let_def split: prod.splits)

text \<open>The number of zero bytes that are still to be added.\<close>

definition sha_pad_missing :: "pj_sha1_context \<Rightarrow> nat" where
  "sha_pad_missing ctx = (120 - unat (sha_count0 ctx) div 8 mod 64) mod 64"

lemma and_504: "c AND 504 = push_bit 3 (take_bit 6 (drop_bit 3 c) :: u32)"
proof -
  have e: "(504 :: u32) = push_bit 3 (mask 6)" by (simp add: mask_eq_exp_minus_1 push_bit_eq_mult)
  show ?thesis unfolding e by (rule bit_word_eqI) (auto simp: bit_simps)
qed

lemma and_504_448: "c AND 504 = (448 :: u32) \<longleftrightarrow> unat c div 8 mod 64 = 56"
proof -
  let ?k = "take_bit 6 (drop_bit 3 c) :: u32"
  have "?k = 56 \<longleftrightarrow> unat c div 8 mod 64 = 56" by (simp flip: unat_bytes_mod add: word_unat_eq_iff)
  moreover have "push_bit 3 ?k = 448 \<longleftrightarrow> ?k = 56"
  proof
    assume "push_bit 3 ?k = 448"
    then have "drop_bit 3 (push_bit 3 ?k) = drop_bit 3 448" by simp
    moreover have "drop_bit 3 (push_bit 3 ?k) = ?k" by (rule bit_word_eqI) (auto simp: bit_simps)
    ultimately show "?k = 56" by simp
  qed simp
  ultimately show ?thesis by (simp add: and_504)
qed

lemma sha_pad_missing_Suc:
  assumes "sha_count0 ctx AND 504 \<noteq> 448"
  shows "sha_pad_missing ctx = Suc (sha_pad_missing (pj_sha1_update ctx [0]))"
proof -
  let ?c = "sha_count0 ctx"
  define q where "q = unat ?c div 8 mod 64"
  have "unat (?c + 8) = (unat ?c + 8) mod 2 ^ 32" by (simp add: unat_word_ariths)
  moreover have "(unat ?c + 8) div 8 = unat ?c div 8 + 1" by simp
  ultimately have "unat (?c + 8) div 8 mod 64 = (unat ?c div 8 + 1) mod 64" by (simp add: mod_div_mod_8)
  moreover have "(unat ?c div 8 + 1) mod 64 = (if q = 63 then 0 else q + 1)" by (simp add: q_def mod_Suc)
  ultimately have n: "unat (?c + 8) div 8 mod 64 = (if q = 63 then 0 else q + 1)" by simp
  have q: "q \<noteq> 56" "q < 64" using assms by (simp_all add: and_504_448 q_def)
  have m: "sha_pad_missing ctx = (if q < 56 then 56 - q else 120 - q)"
    using pad_mod[of q] q by (auto simp: sha_pad_missing_def q_def)
  have m': "sha_pad_missing (pj_sha1_update ctx [0]) = (if q = 63 then 56 else if q < 56 then 55 - q else 119 - q)"
    using n pad_mod[of "q + 1"] q by (cases "q = 63") (auto simp: sha_pad_missing_def)
  show ?thesis unfolding m m' using q by (simp, arith)
qed

lemma sha_pad_missing_0: "sha_count0 ctx AND 504 = 448 \<Longrightarrow> sha_pad_missing ctx = 0"
  by (simp add: sha_pad_missing_def and_504_448)

text \<open>\<open>while ((context->count[0] & 504) != 448) pj_sha1_update(context, "\0", 1)\<close>.\<close>

function sha_pad_loop :: "pj_sha1_context \<Rightarrow> pj_sha1_context" where
  "sha_pad_loop ctx = (if sha_count0 ctx AND 504 \<noteq> 448 then sha_pad_loop (pj_sha1_update ctx [0]) else ctx)"
  by pat_completeness auto
termination by (relation "measure sha_pad_missing") (auto simp: sha_pad_missing_Suc)

declare sha_pad_loop.simps [simp del]

definition sha_finalcount :: "pj_sha1_context \<Rightarrow> u8 list" where
  "sha_finalcount ctx = map (\<lambda>i. ucast (drop_bit ((3 - i mod 4) * 8) (if 4 \<le> i then sha_count0 ctx else sha_count1 ctx) AND 255)) [0..<8]"

fun sha_digest :: "sha1_words \<Rightarrow> u8 list" where
  "sha_digest (a, b, c, d, e) = map (\<lambda>i. ucast (drop_bit ((3 - i mod 4) * 8) ([a, b, c, d, e] ! (i div 4)) AND 255)) [0..<20]"

text \<open>The digest, and the context after it has been wiped.\<close>

definition pj_sha1_final :: "pj_sha1_context \<Rightarrow> u8 list \<times> pj_sha1_context" where
  "pj_sha1_final ctx =
     (let fc = sha_finalcount ctx;
          ctx1 = pj_sha1_update (sha_pad_loop (pj_sha1_update ctx [0x80])) fc
      in (sha_digest (sha_state ctx1),
          \<lparr>sha_state = (0, 0, 0, 0, 0), sha_count0 = 0, sha_count1 = 0, sha_buffer = replicate 64 0\<rparr>))"

section \<open>The HMAC\<close>

record pj_hmac_sha1_context =
  hm_context :: pj_sha1_context
  hm_k_opad :: "u8 list"

text \<open>\<open>tctx\<close> is the context on the stack that hashes a long key.\<close>

definition pj_hmac_sha1_init :: "pj_sha1_context \<Rightarrow> pj_hmac_sha1_context \<Rightarrow> u8 list \<Rightarrow> pj_hmac_sha1_context" where
  "pj_hmac_sha1_init tctx hctx key0 =
     (let key = (if 64 < length key0 then fst (pj_sha1_final (pj_sha1_update (pj_sha1_init tctx) key0)) else key0);
          k_ipad = map (\<lambda>b. b XOR 0x36) (memcpy_at (replicate 64 0) 0 key);
          k_opad = map (\<lambda>b. b XOR 0x5c) (memcpy_at (replicate 64 0) 0 key)
      in hctx\<lparr>hm_k_opad := k_opad, hm_context := pj_sha1_update (pj_sha1_init (hm_context hctx)) k_ipad\<rparr>)"

definition pj_hmac_sha1_update :: "pj_hmac_sha1_context \<Rightarrow> u8 list \<Rightarrow> pj_hmac_sha1_context" where
  "pj_hmac_sha1_update hctx input = hctx\<lparr>hm_context := pj_sha1_update (hm_context hctx) input\<rparr>"

definition pj_hmac_sha1_final :: "pj_hmac_sha1_context \<Rightarrow> u8 list" where
  "pj_hmac_sha1_final hctx =
     (case pj_sha1_final (hm_context hctx) of (digest, ctx) \<Rightarrow>
        fst (pj_sha1_final (pj_sha1_update (pj_sha1_update (pj_sha1_init ctx) (hm_k_opad hctx)) digest)))"

definition pj_hmac_sha1 :: "pj_sha1_context \<Rightarrow> pj_hmac_sha1_context \<Rightarrow> u8 list \<Rightarrow> u8 list \<Rightarrow> u8 list" where
  "pj_hmac_sha1 tctx ctx input key =
     pj_hmac_sha1_final (pj_hmac_sha1_update (pj_hmac_sha1_init tctx ctx key) input)"

section \<open>The specification of FIPS 180-1\<close>

fun be_words :: "u8 list \<Rightarrow> u32 list" where
  "be_words (b0 # b1 # b2 # b3 # bs) = load32 b3 b2 b1 b0 # be_words bs"
| "be_words bs = []"

fun fips_W :: "u32 list \<Rightarrow> nat \<Rightarrow> u32" where
  "fips_W M t = (if t < 16 then M ! t
     else word_rotl 1 (fips_W M (t - 3) XOR fips_W M (t - 8) XOR fips_W M (t - 14) XOR fips_W M (t - 16)))"

declare fips_W.simps [simp del]

definition fips_f :: "nat \<Rightarrow> u32 \<Rightarrow> u32 \<Rightarrow> u32 \<Rightarrow> u32" where
  "fips_f t B C D = (if t < 20 then (B AND C) OR (NOT B AND D) else if t < 40 then B XOR C XOR D
     else if t < 60 then (B AND C) OR (B AND D) OR (C AND D) else B XOR C XOR D)"

definition fips_K :: "nat \<Rightarrow> u32" where
  "fips_K t = (if t < 20 then 0x5A827999 else if t < 40 then 0x6ED9EBA1 else if t < 60 then 0x8F1BBCDC else 0xCA62C1D6)"

fun fips_step :: "u32 list \<Rightarrow> sha1_words \<Rightarrow> nat \<Rightarrow> sha1_words" where
  "fips_step M (A, B, C, D, E) t =
     (word_rotl 5 A + fips_f t B C D + E + fips_W M t + fips_K t, A, word_rotl 30 B, C, D)"

definition fips_compress :: "sha1_words \<Rightarrow> u8 list \<Rightarrow> sha1_words" where
  "fips_compress h block = add_words h (foldl (fips_step (be_words block)) h [0..<80])"

definition fips_H0 :: sha1_words where
  "fips_H0 = (0x67452301, 0xEFCDAB89, 0x98BADCFE, 0x10325476, 0xC3D2E1F0)"

text \<open>A one bit, zeros up to 8 bytes before the end of a block, and the number of bits as 64-bit integer.\<close>

definition fips_pad :: "u8 list \<Rightarrow> u8 list" where
  "fips_pad m = m @ [0x80] @ replicate ((119 - length m mod 64) mod 64) 0 @ rev (map (\<lambda>i. word_of_nat (8 * length m div 256 ^ i)) [0..<8])"

fun fips_output :: "sha1_words \<Rightarrow> u8 list" where
  "fips_output (A, B, C, D, E) = be_bytes [A, B, C, D, E]"

definition sha1_spec :: "u8 list \<Rightarrow> u8 list" where
  "sha1_spec m = fips_output (hash_blocks fips_compress fips_H0 (fips_pad m))"

text \<open>The HMAC of RFC 2104.\<close>

definition hmac_key :: "u8 list \<Rightarrow> u8 list" where
  "hmac_key k = (let k' = if 64 < length k then sha1_spec k else k in k' @ replicate (64 - length k') 0)"

definition hmac_spec :: "u8 list \<Rightarrow> u8 list \<Rightarrow> u8 list" where
  "hmac_spec k m =
     sha1_spec (map (\<lambda>b. b XOR 0x5c) (hmac_key k) @ sha1_spec (map (\<lambda>b. b XOR 0x36) (hmac_key k) @ m))"

section \<open>The rounds are those of the specification\<close>

lemma word_eq_bytes:
  assumes "\<And>k. k < 4 \<Longrightarrow> byte32 k v = byte32 k w"
  shows "v = w"
proof (rule bit_word_eqI)
  fix n assume "n < LENGTH(32)"
  then have "n div 8 < 4" by simp
  from assms[OF this] have "bit (byte32 (n div 8) v) (n mod 8) = bit (byte32 (n div 8) w) (n mod 8)" by simp
  then show "bit v n = bit w n" by (simp add: byte32_def bit_simps)
qed

lemma byte32_rol_8: "byte32 0 (rol w 8) = byte32 3 w" "byte32 1 (rol w 8) = byte32 0 w"
    "byte32 2 (rol w 8) = byte32 1 w" "byte32 3 (rol w 8) = byte32 2 w"
  unfolding byte32_def rol_def by ((rule bit_word_eqI, auto simp: bit_simps dest: bit_imp_le_length)[])+

lemma byte32_rol_24: "byte32 0 (rol w 24) = byte32 1 w" "byte32 1 (rol w 24) = byte32 2 w"
    "byte32 2 (rol w 24) = byte32 3 w" "byte32 3 (rol w 24) = byte32 0 w"
  unfolding byte32_def rol_def by ((rule bit_word_eqI, auto simp: bit_simps dest: bit_imp_le_length)[])+

lemma byte32_and_or: "byte32 k (v AND w) = byte32 k v AND byte32 k w" "byte32 k (v OR w) = byte32 k v OR byte32 k w"
  unfolding byte32_def by (rule bit_word_eqI, auto simp: bit_simps)+

lemma rol_bswap:
  "(rol (load32 b0 b1 b2 b3) 24 AND 0xFF00FF00) OR (rol (load32 b0 b1 b2 b3) 8 AND 0x00FF00FF) = load32 b3 b2 b1 b0"
proof (rule word_eq_bytes)
  fix k :: nat assume "k < 4"
  then consider "k = 0" | "k = 1" | "k = 2" | "k = 3" by linarith
  moreover have "byte32 0 0xFF00FF00 = 0" "byte32 1 0xFF00FF00 = 0xff" "byte32 2 0xFF00FF00 = 0" "byte32 3 0xFF00FF00 = 0xff"
    "byte32 0 0x00FF00FF = 0xff" "byte32 1 0x00FF00FF = 0" "byte32 2 0x00FF00FF = 0xff" "byte32 3 0x00FF00FF = 0"
    by (simp_all add: byte32_def)
  moreover have "b AND 0xff = b" for b :: u8
  proof -
    have "(0xff :: u8) = - 1" by simp
    then show ?thesis by (simp only: and.right_neutral)
  qed
  ultimately show "byte32 k ((rol (load32 b0 b1 b2 b3) 24 AND 0xFF00FF00) OR (rol (load32 b0 b1 b2 b3) 8 AND 0x00FF00FF)) =
      byte32 k (load32 b3 b2 b1 b0)"
    by cases (simp_all add: byte32_and_or byte32_rol_8 byte32_rol_24 byte32_load32 flip: One_nat_def)
qed

lemma mix_choose: "(w AND (x XOR y)) XOR y = (w AND x) OR (NOT w AND y)" for w :: u32
  by (rule bit_word_eqI) (auto simp: bit_simps)

lemma mix_majority: "((w OR x) AND y) OR (w AND x) = (w AND x) OR (w AND y) OR (x AND y)" for w :: u32
  by (rule bit_word_eqI) (auto simp: bit_simps)

definition sched_inv :: "u32 list \<Rightarrow> u32 list \<Rightarrow> nat \<Rightarrow> u32 list \<Rightarrow> bool" where
  "sched_inv M L i l \<longleftrightarrow> length l = 16 \<and> (\<forall>t. t < i \<and> i \<le> t + 16 \<longrightarrow> l ! (t mod 16) = fips_W M t) \<and>
     (\<forall>k. i \<le> k \<and> k < 16 \<longrightarrow> l ! k = L ! k)"

lemma sched_blk0:
  assumes "sched_inv M L i l" "i < 16" "(rol (L ! i) 24 AND 0xFF00FF00) OR (rol (L ! i) 8 AND 0x00FF00FF) = M ! i"
  shows "sched_inv M L (Suc i) (sha_blk0 l i)" "sha_blk0 l i ! i = fips_W M i"
proof -
  have l: "length l = 16" "l ! i = L ! i" using assms(1,2) by (auto simp: sched_inv_def)
  then show w: "sha_blk0 l i ! i = fips_W M i" using assms(2,3) by (simp add: sha_blk0_def fips_W.simps)
  have "sha_blk0 l i ! (t mod 16) = fips_W M t" if "t < Suc i" for t
  proof (cases "t = i")
    case False
    then have "l ! t = fips_W M t" using that assms(1,2) unfolding sched_inv_def by (metis less_SucE less_imp_le_nat less_trans mod_less trans_le_add2)
    then show ?thesis using that False assms(2) by (simp add: sha_blk0_def)
  qed (use w assms(2) in simp)
  then show "sched_inv M L (Suc i) (sha_blk0 l i)"
    using assms(1) by (auto simp: sched_inv_def sha_blk0_def)
qed

lemma sched_blk:
  assumes "sched_inv M L i l" "16 \<le> i"
  shows "sched_inv M L (Suc i) (sha_blk l i)" "sha_blk l i ! (i mod 16) = fips_W M i"
proof -
  have l: "length l = 16" and W: "l ! ((i - d) mod 16) = fips_W M (i - d)" if "0 < d" "d \<le> 16" for d
    using assms that by (auto simp: sched_inv_def)
  have ix: "(i + 13) mod 16 = (i - 3) mod 16" "(i + 8) mod 16 = (i - 8) mod 16" "(i + 2) mod 16 = (i - 14) mod 16" "i mod 16 = (i - 16) mod 16"
  proof -
    obtain k where k: "i = 16 + k" using assms(2) le_Suc_ex by blast
    have "16 + k + 13 = 16 + (k + 13)" "16 + k + 8 = 16 + (k + 8)" "16 + k + 2 = 16 + (k + 2)" by simp_all
    then show "(i + 13) mod 16 = (i - 3) mod 16" "(i + 8) mod 16 = (i - 8) mod 16" "(i + 2) mod 16 = (i - 14) mod 16"
      "i mod 16 = (i - 16) mod 16" unfolding k by (simp_all only: mod_add_self1) (simp_all add: add.commute)
  qed
  have "rol (l ! ((i + 13) mod 16) XOR l ! ((i + 8) mod 16) XOR l ! ((i + 2) mod 16) XOR l ! (i mod 16)) 1 = fips_W M i"
    unfolding ix using assms(2) by (subst fips_W.simps) (simp add: W rol_rotl)
  then show w: "sha_blk l i ! (i mod 16) = fips_W M i" using l[of 1] by (simp add: sha_blk_def)
  have "sha_blk l i ! (t mod 16) = fips_W M t" if t: "t < Suc i" "Suc i \<le> t + 16" for t
  proof (cases "t = i")
    case False
    then have "l ! (t mod 16) = fips_W M t" using t assms(1) by (simp add: sched_inv_def)
    moreover have "t mod 16 \<noteq> i mod 16"
    proof
      assume "t mod 16 = i mod 16"
      then have "16 dvd i - t" by (metis mod_eq_dvd_iff_nat t(1) less_Suc_eq_le)
      then show False using t False by (auto dest!: dvd_imp_le)
    qed
    ultimately show ?thesis by (simp add: sha_blk_def)
  qed (use w in simp)
  then show "sched_inv M L (Suc i) (sha_blk l i)"
    using assms by (auto simp: sched_inv_def sha_blk_def)
qed

lemma sha_mix_step:
  "f = fips_f t w x y \<Longrightarrow> x0 = fips_W M t + fips_K t \<Longrightarrow> sha_mix x0 (v, w, x, y, z) f = fips_step M (v, w, x, y, z) t"
  by (simp add: rol_rotl add_ac)

lemma sha_round_step:
  assumes "sched_inv M L i l" "i < 80"
    and "\<And>k. k < 16 \<Longrightarrow> (rol (L ! k) 24 AND 0xFF00FF00) OR (rol (L ! k) 8 AND 0x00FF00FF) = M ! k"
  shows "\<exists>l'. sha_round (r, l) i = (fips_step M r i, l') \<and> sched_inv M L (Suc i) l'"
proof -
  obtain v w x y z where r: "r = (v, w, x, y, z)" by (cases r)
  show ?thesis
  proof (cases "i < 16")
    case True
    have "sha_round (r, l) i = (fips_step M r i, sha_blk0 l i)"
      unfolding r using True sched_blk0(2)[OF assms(1) True assms(3)[OF True]]
      by (simp add: sha_round_def Let_def del: sha_mix.simps fips_step.simps)
        (rule sha_mix_step, simp_all add: fips_f_def fips_K_def mix_choose)
    then show ?thesis using sched_blk0(1)[OF assms(1) True assms(3)[OF True]] by blast
  next
    case False
    then have i: "16 \<le> i" by simp
    note W = sched_blk(2)[OF assms(1) i]
    have "sha_round (r, l) i = (fips_step M r i, sha_blk l i)"
      unfolding r using False assms(2)
      by (simp add: sha_round_def Let_def W del: sha_mix.simps fips_step.simps)
        (auto intro!: sha_mix_step simp del: sha_mix.simps fips_step.simps simp: fips_f_def fips_K_def mix_choose mix_majority)
    then show ?thesis using sched_blk(1)[OF assms(1) i] by blast
  qed
qed

lemma sha_rounds:
  assumes "length L = 16" "n \<le> 80"
    and "\<And>k. k < 16 \<Longrightarrow> (rol (L ! k) 24 AND 0xFF00FF00) OR (rol (L ! k) 8 AND 0x00FF00FF) = M ! k"
  shows "\<exists>l. foldl sha_round (st, L) [0..<n] = (foldl (fips_step M) st [0..<n], l) \<and> sched_inv M L n l"
  using assms(2)
proof (induction n)
  case 0
  then show ?case using assms(1) by (simp add: sched_inv_def)
next
  case (Suc n)
  then obtain l where l: "foldl sha_round (st, L) [0..<n] = (foldl (fips_step M) st [0..<n], l)" "sched_inv M L n l" by auto
  show ?case using sha_round_step[OF l(2) _ assms(3), of "foldl (fips_step M) st [0..<n]"] Suc.prems l(1) by auto
qed

lemma be_words_le: "k < length bs div 4 \<Longrightarrow>
   (rol (le_words bs ! k) 24 AND 0xFF00FF00) OR (rol (le_words bs ! k) 8 AND 0x00FF00FF) = be_words bs ! k"
proof (induction bs arbitrary: k rule: le_words.induct)
  case (1 b0 b1 b2 b3 bs)
  then show ?case using rol_bswap[of b0 b1 b2 b3] by (cases k) auto
qed auto

lemma SHA1_Transform_fips:
  assumes "length b = 64"
  shows "\<exists>b'. SHA1_Transform st b = (fips_compress st b, b') \<and> length b' = 64"
proof -
  from sha_rounds[of "le_words b" 80 "be_words b" st] assms be_words_le[of _ b]
  obtain l where "foldl sha_round (st, le_words b) [0..<80] = (foldl (fips_step (be_words b)) st [0..<80], l)" "length l = 16"
    by (auto simp: length_le_words sched_inv_def)
  then show ?thesis by (simp add: SHA1_Transform_def fips_compress_def)
qed

section \<open>The context represents the message\<close>

definition sha_rep :: "pj_sha1_context \<Rightarrow> u8 list \<Rightarrow> bool" where
  "sha_rep c m \<longleftrightarrow> length (sha_buffer c) = 64 \<and> sha_state c = hash_blocks fips_compress fips_H0 m \<and>
     take (length m mod 64) (sha_buffer c) = left_over m \<and>
     sha_count0 c = bits_low (length m) \<and> sha_count1 c = bits_high (length m)"

lemma sha_blocks_hash:
  "sha_blocks st data i = (st', i') \<Longrightarrow> i \<le> length data \<Longrightarrow>
   st' = hash_blocks fips_compress st (drop i data) \<and> drop i' data = left_over (drop i data)"
proof (induction st data i rule: sha_blocks.induct)
  case (1 st data i)
  show ?case
  proof (cases "i + 63 < length data")
    case True
    let ?b = "take 64 (drop i data)"
    have lb: "length ?b = 64" using True by simp
    from SHA1_Transform_fips[OF lb, of st] have t: "fst (SHA1_Transform st ?b) = fips_compress st ?b" by auto
    have d: "drop i data = ?b @ drop (i + 64) data" by (metis append_take_drop_id drop_drop add.commute)
    have "sha_blocks (fst (SHA1_Transform st ?b)) data (i + 64) = (st', i')"
      using "1.prems"(1) True by (simp add: sha_blocks.simps[of st data i])
    from "1.IH"[OF True this] True t
    have "st' = hash_blocks fips_compress (fips_compress st ?b) (drop (i + 64) data)" "drop i' data = left_over (drop (i + 64) data)" by simp_all
    moreover have "left_over (drop i data) = left_over (drop (i + 64) data)" by (subst d) (rule left_over_append, unfold lb, simp)
    moreover have "hash_blocks fips_compress st (drop i data) = hash_blocks fips_compress (fips_compress st ?b) (drop (i + 64) data)"
      by (subst d) (rule hash_blocks_block[OF lb])
    ultimately show ?thesis by simp
  next
    case False
    then show ?thesis using "1.prems" by (simp add: sha_blocks.simps[of st data i])
  qed
qed
lemma sha_update_rep:
  assumes "sha_rep c m" "length d < 2 ^ 29"
  shows "sha_rep (pj_sha1_update c d) (m @ d)"
proof -
  let ?j = "length m mod 64" and ?n = "length d"
  note rep = assms(1)[unfolded sha_rep_def]
  have j: "unat (drop_bit 3 (sha_count0 c) AND 63) = ?j" using rep bits_position by simp
  have c0: "sha_count0 c + push_bit 3 (word_of_nat ?n) = bits_low (length (m @ d))" using rep by (simp add: bits_low_add)
  have "(?n * 8) mod 2 ^ 64 = 8 * ?n" using assms(2) by simp
  then have c1: "(if unat (bits_low (length (m @ d))) < (?n * 8) mod 2 ^ 64 then sha_count1 c + 1 else sha_count1 c) + drop_bit 29 (word_of_nat ?n) =
      bits_high (length (m @ d))" using rep bits_high_add(1)[OF assms(2), of "length m"] bits_high_add(2)[OF assms(2)] by simp
  have buf: "length (sha_buffer c) = 64" "take ?j (sha_buffer c) = left_over m" using rep by auto
  show ?thesis
  proof (cases "63 < ?j + ?n")
    case True
    define b where "b = memcpy_at (sha_buffer c) ?j (take (64 - ?j) d)"
    have jl: "?j < 64" by simp
    have lt: "length (take (64 - ?j) d) = 64 - ?j" using True by simp
    have lb: "length b = 64" unfolding b_def using buf(1) lt jl by (simp add: length_memcpy_at)
    have b: "b = left_over m @ take (64 - ?j) d"
      using memcpy_prefix[of ?j "take (64 - ?j) d" "sha_buffer c"] buf lt lb jl by (simp add: b_def)
    obtain b' where T: "SHA1_Transform (sha_state c) b = (fips_compress (sha_state c) b, b')" "length b' = 64"
      using SHA1_Transform_fips[OF lb] by blast
    obtain st i where S: "sha_blocks (fips_compress (sha_state c) b) d (64 - ?j) = (st, i)"
      by (cases "sha_blocks (fips_compress (sha_state c) b) d (64 - ?j)")
    have "64 - ?j \<le> ?n" using True by simp
    from sha_blocks_hash[OF S this]
    have st: "st = hash_blocks fips_compress (fips_compress (sha_state c) b) (drop (64 - ?j) d)" and
      i: "drop i d = left_over (drop (64 - ?j) d)" by auto
    have e: "left_over m @ d = b @ drop (64 - ?j) d" by (simp add: b)
    have h: "hash_blocks fips_compress fips_H0 (m @ d) = st"
      unfolding absorb(1)[of _ _ m d] e hash_blocks_block[OF lb] st using rep by simp
    have lo: "left_over (m @ d) = drop i d" unfolding absorb(2)[of m d] e using left_over_append[of b] lb i by simp
    then have "length (drop i d) = length (m @ d) mod 64" by (metis length_left_over)
    then show ?thesis
      unfolding sha_rep_def pj_sha1_update_def Let_def j c0 c1 using True h lo T(2) memcpy_prefix[of 0 "drop i d" b']
      by (simp add: b_def[symmetric] T S length_memcpy_at del: length_append)
  next
    case False
    have "left_over (m @ d) = left_over m @ d" unfolding absorb(2)[of m d] using False by (intro left_over_short) simp
    moreover have "length (m @ d) mod 64 = ?j + ?n" using False by (metis length_append length_left_over calculation)
    moreover have "hash_blocks fips_compress fips_H0 (m @ d) = sha_state c" unfolding absorb(1)[of _ _ m d] using False rep by simp
    ultimately show ?thesis
      unfolding sha_rep_def pj_sha1_update_def Let_def j c0 c1 using False buf memcpy_prefix[of ?j d "sha_buffer c"]
      by (simp add: length_memcpy_at del: length_append)
  qed
qed
lemma sha_pad_loop_rep: "sha_rep c m \<Longrightarrow> sha_rep (sha_pad_loop c) (m @ replicate (sha_pad_missing c) 0)"
proof (induction c arbitrary: m rule: sha_pad_loop.induct)
  case (1 c)
  show ?case
  proof (cases "sha_count0 c AND 504 = 448")
    case True
    then show ?thesis using "1.prems" by (simp add: sha_pad_loop.simps[of c] sha_pad_missing_0)
  next
    case False
    have "sha_rep (pj_sha1_update c [0]) (m @ [0])" by (rule sha_update_rep[OF "1.prems"]) simp
    from "1.IH"[OF False this] False show ?thesis by (simp add: sha_pad_loop.simps[of c] sha_pad_missing_Suc)
  qed
qed

lemma sha_rep_missing: "sha_rep c m \<Longrightarrow> sha_pad_missing c = (120 - length m mod 64) mod 64"
  using mod_div_mod_8[of "8 * length m"] by (simp add: sha_pad_missing_def sha_rep_def unat_bits_low)

lemma ucast_byte_of_nat:
  "k \<le> 24 \<Longrightarrow> (ucast (drop_bit k (word_of_nat N :: u32) AND 255) :: u8) = word_of_nat (N div 2 ^ k)"
proof -
  assume k: "k \<le> 24"
  have m: "(255 :: u32) = mask 8" by (simp add: mask_eq_exp_minus_1)
  show ?thesis unfolding m drop_bit_eq_div[symmetric]
    by (rule bit_word_eqI) (use k in \<open>auto simp: bit_simps\<close>)
qed

lemma sha_finalcount_rep:
  "sha_rep c m \<Longrightarrow> sha_finalcount c = rev (map (\<lambda>i. word_of_nat (8 * length m div 256 ^ i)) [0..<8])"
proof -
  assume r: "sha_rep c m"
  show ?thesis using r ucast_byte_of_nat[of 24] ucast_byte_of_nat[of 16] ucast_byte_of_nat[of 8] ucast_byte_of_nat[of 0]
    by (simp add: sha_finalcount_def sha_rep_def bits_low_def bits_high_def upt_rec flip: div_mult2_eq del: of_nat_mult)
qed

lemma sha_digest_output: "sha_digest st = fips_output st"
proof -
  obtain a b c d e where st: "st = (a, b, c, d, e)" by (cases st)
  have m: "(255 :: u32) = mask 8" by (simp add: mask_eq_exp_minus_1)
  have "(ucast (w AND 255) :: u8) = ucast w" for w :: u32
    unfolding m by (rule bit_word_eqI) (auto simp: bit_simps)
  then show ?thesis by (simp add: st upt_rec be_bytes_def store32_def byte32_def)
qed

lemma pad_amount: "(120 - Suc n mod 64) mod 64 = (119 - n mod 64) mod 64"
  by (cases "n mod 64 = 63") (simp_all add: mod_Suc)

lemma sha_final_rep: "sha_rep c m \<Longrightarrow> fst (pj_sha1_final c) = sha1_spec m"
proof -
  assume r: "sha_rep c m"
  let ?z = "(119 - length m mod 64) mod 64"
  have r1: "sha_rep (pj_sha1_update c [0x80]) (m @ [0x80])" by (rule sha_update_rep[OF r]) simp
  have "sha_rep (sha_pad_loop (pj_sha1_update c [0x80])) ((m @ [0x80]) @ replicate ?z 0)"
    using sha_pad_loop_rep[OF r1] sha_rep_missing[OF r1] pad_amount[of "length m"] by simp
  from sha_update_rep[OF this, of "sha_finalcount c"] sha_finalcount_rep[OF r]
  have "sha_rep (pj_sha1_update (sha_pad_loop (pj_sha1_update c [0x80])) (sha_finalcount c)) (fips_pad m)"
    by (simp add: fips_pad_def)
  then show ?thesis by (simp add: pj_sha1_final_def Let_def sha1_spec_def sha_rep_def sha_digest_output)
qed

lemma sha_rep_buffer: "sha_rep c m \<Longrightarrow> length (sha_buffer c) = 64"
  by (simp add: sha_rep_def)

lemma sha_init_rep: "length (sha_buffer c) = 64 \<Longrightarrow> sha_rep (pj_sha1_init c) []"
  by (simp add: sha_rep_def pj_sha1_init_def fips_H0_def bits_low_def bits_high_def)

interpretation sha: incremental_digest "\<lambda>c. length (sha_buffer c) = 64" pj_sha1_init pj_sha1_update "\<lambda>c. fst (pj_sha1_final c)"
  sha_rep sha1_spec "2 ^ 29"
  by unfold_locales (auto simp: sha_init_rep sha_final_rep intro: sha_update_rep sha_rep_buffer)

section \<open>The HMAC\<close>

lemma length_sha_digest [simp]: "length (sha_digest st) = 20"
  by (cases st) simp

lemma length_final: "length (fst (pj_sha1_final c)) = 20"
  by (simp add: pj_sha1_final_def Let_def)

lemma final_buffer: "length (sha_buffer (snd (pj_sha1_final c))) = 64"
  by (simp add: pj_sha1_final_def Let_def)

lemma length_sha1_spec [simp]: "length (sha1_spec m) = 20"
  by (cases "hash_blocks fips_compress fips_H0 (fips_pad m)") (simp add: sha1_spec_def)

lemma length_hmac_key [simp]: "length (hmac_key k) = 64"
  by (simp add: hmac_key_def Let_def)

text \<open>The contexts of a message that is fed in pieces to the HMAC.\<close>

definition hmac_rep :: "u8 list \<Rightarrow> pj_hmac_sha1_context \<Rightarrow> u8 list \<Rightarrow> bool" where
  "hmac_rep key h m \<longleftrightarrow> hm_k_opad h = map (\<lambda>b. b XOR 0x5c) (hmac_key key) \<and>
     sha_rep (hm_context h) (map (\<lambda>b. b XOR 0x36) (hmac_key key) @ m)"

lemma hmac_init_rep:
  assumes "length (sha_buffer tctx) = 64" "length (sha_buffer (hm_context h)) = 64" "length key < 2 ^ 29"
  shows "hmac_rep key (pj_hmac_sha1_init tctx h key) []"
proof -
  have "fst (pj_sha1_final (pj_sha1_update (pj_sha1_init tctx) key)) = sha1_spec key"
    using sha.digest_pieces[of tctx "[key]"] assms by simp
  then have k: "memcpy_at (replicate 64 0) 0 (if 64 < length key then fst (pj_sha1_final (pj_sha1_update (pj_sha1_init tctx) key)) else key) = hmac_key key"
    by (simp add: memcpy_at_def hmac_key_def Let_def)
  have "sha_rep (pj_sha1_update (pj_sha1_init (hm_context h)) (map (\<lambda>b. b XOR 0x36) (hmac_key key))) (map (\<lambda>b. b XOR 0x36) (hmac_key key))"
    using sha_update_rep[OF sha_init_rep[OF assms(2)], of "map (\<lambda>b. b XOR 0x36) (hmac_key key)"] by simp
  then show ?thesis unfolding hmac_rep_def pj_hmac_sha1_init_def Let_def k by simp
qed

lemma hmac_update_rep: "hmac_rep key h m \<Longrightarrow> length d < 2 ^ 29 \<Longrightarrow> hmac_rep key (pj_hmac_sha1_update h d) (m @ d)"
  using sha_update_rep[of "hm_context h" "map (\<lambda>b. b XOR 0x36) (hmac_key key) @ m" d]
  by (simp add: hmac_rep_def pj_hmac_sha1_update_def)

lemma hmac_final_rep: "hmac_rep key h m \<Longrightarrow> pj_hmac_sha1_final h = hmac_spec key m"
proof -
  assume h: "hmac_rep key h m"
  obtain g c where f: "pj_sha1_final (hm_context h) = (g, c)" by (cases "pj_sha1_final (hm_context h)")
  have g: "g = sha1_spec (map (\<lambda>b. b XOR 0x36) (hmac_key key) @ m)" using h sha_final_rep f unfolding hmac_rep_def by (metis fst_conv)
  have "length (sha_buffer c) = 64" using final_buffer[of "hm_context h"] f by simp
  then show ?thesis using sha.digest_pieces[of c "[hm_k_opad h, g]"] h
    by (simp add: pj_hmac_sha1_final_def f hmac_spec_def hmac_rep_def g)
qed

lemma hmac_updates_rep:
  "hmac_rep key h m \<Longrightarrow> \<forall>d\<in>set ds. length d < 2 ^ 29 \<Longrightarrow> hmac_rep key (foldl pj_hmac_sha1_update h ds) (m @ concat ds)"
proof (induction ds arbitrary: h m)
  case (Cons d ds)
  then show ?case using hmac_update_rep[of key h m d] Cons.IH[of "pj_hmac_sha1_update h d" "m @ d"] by simp
qed simp

lemma hmac_pieces:
  assumes "length (sha_buffer tctx) = 64" "length (sha_buffer (hm_context h)) = 64" "length key < 2 ^ 29"
    and "\<forall>d\<in>set ds. length d < 2 ^ 29"
  shows "pj_hmac_sha1_final (foldl pj_hmac_sha1_update (pj_hmac_sha1_init tctx h key) ds) = hmac_spec key (concat ds)"
  using hmac_final_rep[OF hmac_updates_rep[OF hmac_init_rep[OF assms(1-3)] assms(4)]] by simp

text \<open>
  C33 (equivalence): the digest of a message that is fed in pieces of less than half a gigabyte is the SHA-1 of FIPS
  180-1 of the whole message, and the keyed digest is the HMAC of RFC 2104, whatever the contexts held before.
\<close>

theorem hmac_sha1_standard:
  assumes "length (sha_buffer c) = 64" "length (sha_buffer (hm_context h)) = 64" "length key < 2 ^ 29"
    and "\<forall>d\<in>set ds. length d < 2 ^ 29"
  shows "fst (pj_sha1_final (foldl pj_sha1_update (pj_sha1_init c) ds)) = sha1_spec (concat ds) \<and>
    pj_hmac_sha1_final (foldl pj_hmac_sha1_update (pj_hmac_sha1_init c h key) ds) = hmac_spec key (concat ds)"
  using sha.digest_pieces[OF assms(1,4)] hmac_pieces[OF assms] by simp_all

definition demo_sha_ctx :: pj_sha1_context where
  "demo_sha_ctx = \<lparr>sha_state = (1, 2, 3, 4, 5), sha_count0 = 6, sha_count1 = 7, sha_buffer = replicate 64 0xcc\<rparr>"

theorem hmac_sha1_standard_witness:
  "pj_hmac_sha1_final (foldl pj_hmac_sha1_update (pj_hmac_sha1_init demo_sha_ctx \<lparr>hm_context = demo_sha_ctx, hm_k_opad = []\<rparr> [0x61, 0x62]) [[1, 2], [], [3]]) =
     hmac_spec [0x61, 0x62] [1, 2, 3]"
  using hmac_sha1_standard[of demo_sha_ctx "\<lparr>hm_context = demo_sha_ctx, hm_k_opad = []\<rparr>" "[0x61, 0x62]" "[[1, 2], [], [3]]"]
  by (simp add: demo_sha_ctx_def)

text \<open>
  The limit is needed: a piece of half a gigabyte is counted twice in the upper counter, once for the carry and once for
  the bits above the lower counter.
\<close>

lemma sha1_half_gigabyte_miscounted:
  assumes "length d = 2 ^ 29"
  shows "sha_count1 (pj_sha1_update (pj_sha1_init c) d) = 2 \<and> bits_high (length d) = 1"
  using assms by (simp add: pj_sha1_update_def pj_sha1_init_def Let_def bits_high_def push_bit_eq_mult split: prod.splits)

end
