(* ===== verification/Stun_Msg.thy ===== *)
theory Stun_Msg
  imports Crc32 Sha1 Pj_String Pj_Hash Pj_Scan "HOL-Library.Monad_Syntax"
begin

text \<open>
  STUN messages (\<open>pjnath/src/pjnath/stun_msg.c\<close>, \<open>stun_msg.h\<close>): the attributes with their descriptor tables,
  encoding and decoding of each kind, messages, the check of a packet, responses.

  A packet that is read is the list of its bytes; the buffer that a message is written to is a list of bytes, too, which
  keeps what is not written. An access outside the bytes, and the use of an attribute object as a structure of another
  kind than its own, is the result \<open>None\<close>: the C code has no defined behaviour there. Numbers in the fields are in host order.
\<close>

section \<open>Message types, attribute types, status codes\<close>

definition PJ_STUN_MAGIC :: u32 where "PJ_STUN_MAGIC = 0x2112A442"
definition PJ_STUN_MAX_ATTR :: nat where "PJ_STUN_MAX_ATTR = 16"
definition STUN_XOR_FINGERPRINT :: u32 where "STUN_XOR_FINGERPRINT = 0x5354554e"

definition PJ_STUN_GET_METHOD :: "u16 \<Rightarrow> u16" where "PJ_STUN_GET_METHOD t = t AND 0xFEEF"
definition PJ_STUN_IS_REQUEST :: "u16 \<Rightarrow> bool" where "PJ_STUN_IS_REQUEST t \<longleftrightarrow> t AND 0x0110 = 0"
definition PJ_STUN_IS_SUCCESS_RESPONSE :: "u16 \<Rightarrow> bool" where "PJ_STUN_IS_SUCCESS_RESPONSE t \<longleftrightarrow> t AND 0x0110 = 0x0100"
definition PJ_STUN_SUCCESS_RESPONSE_BIT :: u16 where "PJ_STUN_SUCCESS_RESPONSE_BIT = 0x0100"
definition PJ_STUN_IS_ERROR_RESPONSE :: "u16 \<Rightarrow> bool" where "PJ_STUN_IS_ERROR_RESPONSE t \<longleftrightarrow> t AND 0x0110 = 0x0110"
definition PJ_STUN_ERROR_RESPONSE_BIT :: u16 where "PJ_STUN_ERROR_RESPONSE_BIT = 0x0110"
definition PJ_STUN_IS_RESPONSE :: "u16 \<Rightarrow> bool" where "PJ_STUN_IS_RESPONSE t \<longleftrightarrow> t AND 0x0100 = 0x0100"
definition PJ_STUN_IS_INDICATION :: "u16 \<Rightarrow> bool" where "PJ_STUN_IS_INDICATION t \<longleftrightarrow> t AND 0x0110 = 0x0010"

definition PJ_STUN_ATTR_USERNAME :: u16 where "PJ_STUN_ATTR_USERNAME = 0x0006"
definition PJ_STUN_ATTR_MESSAGE_INTEGRITY :: u16 where "PJ_STUN_ATTR_MESSAGE_INTEGRITY = 0x0008"
definition PJ_STUN_ATTR_ERROR_CODE :: u16 where "PJ_STUN_ATTR_ERROR_CODE = 0x0009"
definition PJ_STUN_ATTR_UNKNOWN_ATTRIBUTES :: u16 where "PJ_STUN_ATTR_UNKNOWN_ATTRIBUTES = 0x000A"
definition PJ_STUN_ATTR_REALM :: u16 where "PJ_STUN_ATTR_REALM = 0x0014"
definition PJ_STUN_ATTR_NONCE :: u16 where "PJ_STUN_ATTR_NONCE = 0x0015"
definition PJ_STUN_ATTR_END_MANDATORY_ATTR :: u16 where "PJ_STUN_ATTR_END_MANDATORY_ATTR = 0x0031"
definition PJ_STUN_ATTR_START_EXTENDED_ATTR :: u16 where "PJ_STUN_ATTR_START_EXTENDED_ATTR = 0x8021"
definition PJ_STUN_ATTR_SOFTWARE :: u16 where "PJ_STUN_ATTR_SOFTWARE = 0x8022"
definition PJ_STUN_ATTR_FINGERPRINT :: u16 where "PJ_STUN_ATTR_FINGERPRINT = 0x8028"
definition PJ_STUN_ATTR_END_EXTENDED_ATTR :: u16 where "PJ_STUN_ATTR_END_EXTENDED_ATTR = 0x802b"

definition PJ_STUN_SC_BAD_REQUEST :: int where "PJ_STUN_SC_BAD_REQUEST = 400"
definition PJ_STUN_SC_UNAUTHORIZED :: int where "PJ_STUN_SC_UNAUTHORIZED = 401"
definition PJ_STUN_SC_UNKNOWN_ATTRIBUTE :: int where "PJ_STUN_SC_UNKNOWN_ATTRIBUTE = 420"
definition PJ_STUN_SC_STALE_NONCE :: int where "PJ_STUN_SC_STALE_NONCE = 438"
definition PJ_STUN_SC_SERVER_ERROR :: int where "PJ_STUN_SC_SERVER_ERROR = 500"

text \<open>The codes of the library and those made from a STUN code, by their distance from \<open>PJNATH_ERRNO_START\<close>.\<close>

abbreviation PJNATH_EINSTUNMSGLEN :: pj_status where "PJNATH_EINSTUNMSGLEN \<equiv> PJNATH_ERR 2"
abbreviation PJNATH_EINSTUNMSGTYPE :: pj_status where "PJNATH_EINSTUNMSGTYPE \<equiv> PJNATH_ERR 3"
abbreviation PJNATH_ESTUNTOOMANYATTR :: pj_status where "PJNATH_ESTUNTOOMANYATTR \<equiv> PJNATH_ERR 21"
abbreviation PJNATH_ESTUNINATTRLEN :: pj_status where "PJNATH_ESTUNINATTRLEN \<equiv> PJNATH_ERR 22"
abbreviation PJNATH_ESTUNDUPATTR :: pj_status where "PJNATH_ESTUNDUPATTR \<equiv> PJNATH_ERR 23"
abbreviation PJNATH_ESTUNFINGERPRINT :: pj_status where "PJNATH_ESTUNFINGERPRINT \<equiv> PJNATH_ERR 30"
abbreviation PJNATH_ESTUNMSGINTPOS :: pj_status where "PJNATH_ESTUNMSGINTPOS \<equiv> PJNATH_ERR 31"
abbreviation PJNATH_ESTUNFINGERPOS :: pj_status where "PJNATH_ESTUNFINGERPOS \<equiv> PJNATH_ERR 33"
abbreviation PJNATH_EINVAF :: pj_status where "PJNATH_EINVAF \<equiv> PJNATH_ERR 42"

definition PJ_STATUS_FROM_STUN_CODE :: "int \<Rightarrow> pj_status" where
  "PJ_STATUS_FROM_STUN_CODE code = PJNATH_ERR (nat code)"

section \<open>Data\<close>

record pj_stun_msg_hdr =
  sm_type :: u16
  sm_length :: u16
  sm_magic :: u32
  sm_tsx_id :: "u8 list"

text \<open>A socket address: port and address, for IPv6 also the flow information and the scope.\<close>

datatype pj_sockaddr =
    Sock_Inet u16 "u8 list"
  | Sock_Inet6 u16 u32 "u8 list" u32
  | Sock_Other nat

text \<open>
  Every attribute structure begins with the header: type and length. The constructors are the structures of
  \<open>stun_msg.h\<close>. The data of a binary attribute has its own length.
\<close>

datatype pj_stun_attr =
    Stun_Sockaddr (attr_type: u16) (attr_length: u16) bool pj_sockaddr
  | Stun_Empty (attr_type: u16) (attr_length: u16)
  | Stun_String (attr_type: u16) (attr_length: u16) "u8 list"
  | Stun_Uint (attr_type: u16) (attr_length: u16) u32
  | Stun_Uint64 (attr_type: u16) (attr_length: u16) u32 u32
  | Stun_Msgint (attr_type: u16) (attr_length: u16) "u8 list"
  | Stun_Errcode (attr_type: u16) (attr_length: u16) int "u8 list"
  | Stun_Unknown (attr_type: u16) (attr_length: u16) "u16 list"
  | Stun_Binary (attr_type: u16) (attr_length: u16) u32 "u8 list"

record pj_stun_msg =
  sm_hdr :: pj_stun_msg_hdr
  sm_attr :: "pj_stun_attr list"

section \<open>The descriptors of the attributes\<close>

text \<open>The functions that a descriptor names for decoding, encoding and cloning.\<close>

datatype attr_codec =
    Sockaddr_Codec | Xored_Sockaddr_Codec | String_Codec | Uint_Codec | Uint64_Codec | Binary_Codec
  | Empty_Codec | Msgint_Codec | Errcode_Codec | Unknown_Codec

definition mandatory_attr_desc :: "(string \<times> attr_codec) option list" where
  "mandatory_attr_desc =
    [None,
     Some (''MAPPED-ADDRESS'', Sockaddr_Codec),
     Some (''RESPONSE-ADDRESS'', Sockaddr_Codec),
     Some (''CHANGE-REQUEST'', Uint_Codec),
     Some (''SOURCE-ADDRESS'', Sockaddr_Codec),
     Some (''CHANGED-ADDRESS'', Sockaddr_Codec),
     Some (''USERNAME'', String_Codec),
     Some (''PASSWORD'', String_Codec),
     Some (''MESSAGE-INTEGRITY'', Msgint_Codec),
     Some (''ERROR-CODE'', Errcode_Codec),
     Some (''UNKNOWN-ATTRIBUTES'', Unknown_Codec),
     Some (''REFLECTED-FROM'', Sockaddr_Codec),
     Some (''CHANNEL-NUMBER'', Uint_Codec),
     Some (''LIFETIME'', Uint_Codec),
     None,
     Some (''MAGIC-COOKIE'', Uint_Codec),
     Some (''BANDWIDTH'', Uint_Codec),
     None,
     Some (''XOR-PEER-ADDRESS'', Xored_Sockaddr_Codec),
     Some (''DATA'', Binary_Codec),
     Some (''REALM'', String_Codec),
     Some (''NONCE'', String_Codec),
     Some (''XOR-RELAYED-ADDRESS'', Xored_Sockaddr_Codec),
     Some (''REQUESTED-ADDRESS-FAMILY'', Uint_Codec),
     Some (''EVEN-PORT'', Uint_Codec),
     Some (''REQUESTED-TRANSPORT'', Uint_Codec),
     Some (''DONT-FRAGMENT'', Empty_Codec),
     None, None, None, None, None,
     Some (''XOR-MAPPED-ADDRESS'', Xored_Sockaddr_Codec),
     Some (''TIMER-VAL'', Uint_Codec),
     Some (''RESERVATION-TOKEN'', Uint64_Codec),
     Some (''XOR-REFLECTED-FROM'', Xored_Sockaddr_Codec),
     Some (''PRIORITY'', Uint_Codec),
     Some (''USE-CANDIDATE'', Empty_Codec),
     None, None, None, None,
     Some (''CONNECTION-ID'', Uint_Codec),
     None, None, None, None, None,
     Some (''ICMP'', Uint_Codec),
     None]"

definition extended_attr_desc :: "(string \<times> attr_codec) option list" where
  "extended_attr_desc =
    [None,
     Some (''SOFTWARE'', String_Codec),
     Some (''ALTERNATE-SERVER'', Sockaddr_Codec),
     Some (''REFRESH-INTERVAL'', Uint_Codec),
     None, None, None,
     Some (''FINGERPRINT'', Uint_Codec),
     Some (''ICE-CONTROLLED'', Uint64_Codec),
     Some (''ICE-CONTROLLING'', Uint64_Codec)]"

definition find_attr_desc :: "u16 \<Rightarrow> (string \<times> attr_codec) option" where
  "find_attr_desc t =
     (if t < PJ_STUN_ATTR_END_MANDATORY_ATTR then mandatory_attr_desc ! unat t
      else if PJ_STUN_ATTR_START_EXTENDED_ATTR \<le> t \<and> t < PJ_STUN_ATTR_END_EXTENDED_ATTR
           then extended_attr_desc ! unat (t - PJ_STUN_ATTR_START_EXTENDED_ATTR)
      else None)"

definition pj_stun_get_attr_name :: "u16 \<Rightarrow> string" where
  "pj_stun_get_attr_name t = (case find_attr_desc t of None \<Rightarrow> ''???'' | Some (name, _) \<Rightarrow> name)"

definition stun_method_names :: "string list" where
  "stun_method_names = [''Unknown'', ''Binding'', ''SharedSecret'', ''Allocate'', ''Refresh'', ''???'', ''Send'', ''Data'',
     ''CreatePermission'', ''ChannelBind'', ''Connect'', ''ConnectionBind'', ''ConnectionAttempt'']"

definition pj_stun_get_method_name :: "u16 \<Rightarrow> string" where
  "pj_stun_get_method_name t =
     (let method = unat (PJ_STUN_GET_METHOD t)
      in if length stun_method_names \<le> method then ''???'' else stun_method_names ! method)"

definition pj_stun_get_class_name :: "u16 \<Rightarrow> string" where
  "pj_stun_get_class_name t =
     (if PJ_STUN_IS_REQUEST t then ''request'' else if PJ_STUN_IS_SUCCESS_RESPONSE t then ''success response''
      else if PJ_STUN_IS_ERROR_RESPONSE t then ''error response'' else if PJ_STUN_IS_INDICATION t then ''indication''
      else ''???'')"

section \<open>Reading and writing memory\<close>

definition rd8 :: "u8 list \<Rightarrow> nat \<Rightarrow> u8 option" where
  "rd8 buf pos = (if pos < length buf then Some (buf ! pos) else None)"

definition rd_bytes :: "u8 list \<Rightarrow> nat \<Rightarrow> nat \<Rightarrow> u8 list option" where
  "rd_bytes buf pos n = (if pos + n \<le> length buf then Some (take n (drop pos buf)) else None)"

definition wr_bytes :: "u8 list \<Rightarrow> nat \<Rightarrow> u8 list \<Rightarrow> u8 list option" where
  "wr_bytes buf pos bs = (if pos + length bs \<le> length buf then Some (memcpy_at buf pos bs) else None)"

definition be16 :: "u16 \<Rightarrow> u8 list" where "be16 v = [byte16 1 v, byte16 0 v]"
definition be32 :: "u32 \<Rightarrow> u8 list" where "be32 v = [byte32 3 v, byte32 2 v, byte32 1 v, byte32 0 v]"

definition GETVAL16H :: "u8 list \<Rightarrow> nat \<Rightarrow> u16 option" where
  "GETVAL16H buf pos = do { a \<leftarrow> rd8 buf pos; b \<leftarrow> rd8 buf (pos + 1); Some (load16 b a) }"

definition GETVAL32H :: "u8 list \<Rightarrow> nat \<Rightarrow> u32 option" where
  "GETVAL32H buf pos = do { a \<leftarrow> rd8 buf pos; b \<leftarrow> rd8 buf (pos + 1); c \<leftarrow> rd8 buf (pos + 2); d \<leftarrow> rd8 buf (pos + 3);
     Some (load32 d c b a) }"

definition GETVAL64H :: "u8 list \<Rightarrow> nat \<Rightarrow> (u32 \<times> u32) option" where
  "GETVAL64H buf pos = do { hi \<leftarrow> GETVAL32H buf pos; lo \<leftarrow> GETVAL32H buf (pos + 4); Some (hi, lo) }"

definition GETATTRHDR :: "u8 list \<Rightarrow> (u16 \<times> u16) option" where
  "GETATTRHDR buf = do { t \<leftarrow> GETVAL16H buf 0; l \<leftarrow> GETVAL16H buf 2; Some (t, l) }"

definition PUTVAL16H :: "u8 list \<Rightarrow> nat \<Rightarrow> u16 \<Rightarrow> u8 list option" where
  "PUTVAL16H buf pos v = wr_bytes buf pos (be16 v)"

definition PUTVAL32H :: "u8 list \<Rightarrow> nat \<Rightarrow> u32 \<Rightarrow> u8 list option" where
  "PUTVAL32H buf pos v = wr_bytes buf pos (be32 v)"

text \<open>\<open>(n + 3) & ~3\<close>.\<close>

definition pad4 :: "nat \<Rightarrow> nat" where "pad4 n = (n + 3) div 4 * 4"

definition xor_bytes :: "u8 list \<Rightarrow> u8 list \<Rightarrow> u8 list" where "xor_bytes a b = map2 (XOR) a b"

section \<open>Creating attributes\<close>

fun pj_sockaddr_get_addr_len :: "pj_sockaddr \<Rightarrow> nat" where
  "pj_sockaddr_get_addr_len (Sock_Inet _ _) = 4"
| "pj_sockaddr_get_addr_len (Sock_Inet6 _ _ _ _) = 16"
| "pj_sockaddr_get_addr_len (Sock_Other _) = 0"

text \<open>The length of the address is that of \<open>sockaddr_in\<close> (16) or \<open>sockaddr_in6\<close> (28).\<close>

definition pj_stun_sockaddr_attr_init :: "u16 \<Rightarrow> bool \<Rightarrow> pj_sockaddr \<Rightarrow> nat \<Rightarrow> pj_status + pj_stun_attr" where
  "pj_stun_sockaddr_attr_init t xor_ed addr addr_len =
     (if addr_len \<noteq> 16 \<and> addr_len \<noteq> 28 then Inl PJ_EINVAL
      else Inr (Stun_Sockaddr t (word_of_nat (pj_sockaddr_get_addr_len addr + 4)) xor_ed addr))"

definition pj_stun_string_attr_init :: "u16 \<Rightarrow> u8 list \<Rightarrow> pj_stun_attr" where
  "pj_stun_string_attr_init t value = Stun_String t (word_of_nat (length value)) value"

definition pj_stun_empty_attr_create :: "u16 \<Rightarrow> pj_stun_attr" where
  "pj_stun_empty_attr_create t = Stun_Empty t 0"

definition pj_stun_uint_attr_create :: "u16 \<Rightarrow> u32 \<Rightarrow> pj_stun_attr" where
  "pj_stun_uint_attr_create t value = Stun_Uint t 4 value"

definition pj_stun_uint64_attr_create :: "u16 \<Rightarrow> (u32 \<times> u32) option \<Rightarrow> pj_stun_attr" where
  "pj_stun_uint64_attr_create t value = (case value of Some (hi, lo) \<Rightarrow> Stun_Uint64 t 8 hi lo | None \<Rightarrow> Stun_Uint64 t 8 0 0)"

definition pj_stun_msgint_attr_create :: pj_stun_attr where
  "pj_stun_msgint_attr_create = Stun_Msgint PJ_STUN_ATTR_MESSAGE_INTEGRITY 20 (replicate 20 0)"

definition pj_stun_unknown_attr_create :: "u16 list \<Rightarrow> pj_status + pj_stun_attr" where
  "pj_stun_unknown_attr_create attr_array =
     (if PJ_STUN_MAX_ATTR \<le> length attr_array then Inl PJ_EINVAL
      else Inr (Stun_Unknown PJ_STUN_ATTR_UNKNOWN_ATTRIBUTES (word_of_nat (length attr_array * 2)) attr_array))"

text \<open>\<open>data\<close> is the memory the pointer points to, if it is not null.\<close>

definition pj_stun_binary_attr_init :: "u16 \<Rightarrow> u8 list option \<Rightarrow> nat \<Rightarrow> (pj_status + pj_stun_attr) option" where
  "pj_stun_binary_attr_init t data len =
     (if t = 0 then Some (Inl PJ_EINVAL)
      else case data of
        Some bs \<Rightarrow> if len = 0 then Some (Inr (Stun_Binary t (word_of_nat len) PJ_STUN_MAGIC []))
                   else do { v \<leftarrow> rd_bytes bs 0 len; Some (Inr (Stun_Binary t (word_of_nat len) PJ_STUN_MAGIC v)) }
      | None \<Rightarrow> Some (Inr (Stun_Binary t (word_of_nat len) PJ_STUN_MAGIC [])))"

definition stun_err_msg_map :: "(int \<times> string) list" where
  "stun_err_msg_map =
    [(300, ''Try Alternate''), (400, ''Bad Request''), (401, ''Unauthorized''), (403, ''Forbidden''), (420, ''Unknown Attribute''),
     (437, ''Allocation Mismatch''), (438, ''Stale Nonce''), (439, ''Active Destination Already Set''), (441, ''Wrong Credentials''),
     (442, ''Unsupported Transport Protocol''), (445, ''Operation for TCP Only''), (446, ''Connection Failure''),
     (447, ''Connection Timeout''), (486, ''Allocation Quota Reached''), (487, ''Role Conflict''), (500, ''Server Error''),
     (508, ''Insufficient Capacity''), (600, ''Global Failure'')]"

text \<open>The binary search for the first entry that is not smaller.\<close>

function err_reason_search :: "int \<Rightarrow> nat \<Rightarrow> nat \<Rightarrow> nat" where
  "err_reason_search err_code first n =
     (if 0 < n
      then let half = n div 2; mid = first + half; c = fst (stun_err_msg_map ! mid)
           in if c < err_code then err_reason_search err_code (mid + 1) (n - (half + 1))
              else if err_code < c then err_reason_search err_code first half
              else mid
      else first)"
  by pat_completeness auto
termination by (relation "measure (\<lambda>(e, f, n). n)") auto

declare err_reason_search.simps [simp del]

text \<open>The entry that is found is read in any case: \<open>None\<close> if it lies behind the table. The empty text stands for the null pointer.\<close>

definition pj_stun_get_err_reason :: "int \<Rightarrow> u8 list option" where
  "pj_stun_get_err_reason err_code =
     (let first = err_reason_search err_code 0 (length stun_err_msg_map)
      in if length stun_err_msg_map \<le> first then None
         else if fst (stun_err_msg_map ! first) = err_code then Some (pj_str (snd (stun_err_msg_map ! first)))
         else Some [])"

text \<open>\<open>%d\<close>.\<close>

definition dec_of_int :: "int \<Rightarrow> u8 list" where
  "dec_of_int i = (if i < 0 then 45 # pj_utoa (nat (- i)) else pj_utoa (nat i))"

definition pj_stun_errcode_attr_create :: "int \<Rightarrow> u8 list option \<Rightarrow> (pj_status + pj_stun_attr) option" where
  "pj_stun_errcode_attr_create err_code err_reason =
     (if err_code = 0 then Some (Inl PJ_EINVAL)
      else do {
        reason \<leftarrow> (case err_reason of
            Some r \<Rightarrow> Some r
          | None \<Rightarrow> do { s \<leftarrow> pj_stun_get_err_reason err_code;
                        Some (if s = [] then pj_str ''Unknown error '' @ dec_of_int err_code else s) });
        Some (Inr (Stun_Errcode PJ_STUN_ATTR_ERROR_CODE (word_of_nat (4 + length reason)) err_code reason)) })"

section \<open>Decoding attributes\<close>

text \<open>Every decoder gets the readable bytes from the attribute on, and the header of the message.\<close>

definition decode_sockaddr_attr :: "u8 list \<Rightarrow> pj_stun_msg_hdr \<Rightarrow> (pj_status + pj_stun_attr) option" where
  "decode_sockaddr_attr buf hdr = do {
     (t, l) \<leftarrow> GETATTRHDR buf;
     if l \<noteq> 8 \<and> l \<noteq> 20 then Some (Inl PJNATH_ESTUNINATTRLEN)
     else do {
       val \<leftarrow> rd8 buf 5;
       if val = 1 then
         if l \<noteq> 8 then Some (Inl PJNATH_ESTUNINATTRLEN)
         else do { port \<leftarrow> GETVAL16H buf 6; addr \<leftarrow> rd_bytes buf 8 4; Some (Inr (Stun_Sockaddr t l False (Sock_Inet port addr))) }
       else if val = 2 then
         if l \<noteq> 20 then Some (Inl PJNATH_ESTUNINATTRLEN)
         else do { port \<leftarrow> GETVAL16H buf 6; addr \<leftarrow> rd_bytes buf 8 16; Some (Inr (Stun_Sockaddr t l False (Sock_Inet6 port 0 addr 0))) }
       else Some (Inl PJNATH_EINVAF) } }"

text \<open>The port is masked with the upper half of the magic cookie, the address with the cookie and the transaction id.\<close>

fun xor_sockaddr :: "pj_stun_msg_hdr \<Rightarrow> pj_sockaddr \<Rightarrow> pj_sockaddr" where
  "xor_sockaddr hdr (Sock_Inet port addr) = Sock_Inet (port XOR ucast (drop_bit 16 PJ_STUN_MAGIC)) (xor_bytes addr (be32 PJ_STUN_MAGIC))"
| "xor_sockaddr hdr (Sock_Inet6 port flow addr scope) =
     Sock_Inet6 (port XOR ucast (drop_bit 16 PJ_STUN_MAGIC)) flow (xor_bytes addr (be32 PJ_STUN_MAGIC @ sm_tsx_id hdr)) scope"
| "xor_sockaddr hdr (Sock_Other af) = Sock_Other af"

definition decode_xored_sockaddr_attr :: "u8 list \<Rightarrow> pj_stun_msg_hdr \<Rightarrow> (pj_status + pj_stun_attr) option" where
  "decode_xored_sockaddr_attr buf hdr = do {
     r \<leftarrow> decode_sockaddr_attr buf hdr;
     case r of
       Inl st \<Rightarrow> Some (Inl st)
     | Inr (Stun_Sockaddr t l x (Sock_Other af)) \<Rightarrow> Some (Inl PJNATH_EINVAF)
     | Inr (Stun_Sockaddr t l x sa) \<Rightarrow> Some (Inr (Stun_Sockaddr t l True (xor_sockaddr hdr sa)))
     | Inr a \<Rightarrow> Some (Inr a) }"

definition decode_string_attr :: "u8 list \<Rightarrow> (pj_status + pj_stun_attr) option" where
  "decode_string_attr buf = do {
     (t, l) \<leftarrow> GETATTRHDR buf;
     v \<leftarrow> rd_bytes buf 4 (unat l);
     Some (Inr (Stun_String t l v)) }"

definition decode_empty_attr :: "u8 list \<Rightarrow> (pj_status + pj_stun_attr) option" where
  "decode_empty_attr buf = do {
     (t, l) \<leftarrow> GETATTRHDR buf;
     Some (if l \<noteq> 0 then Inl PJNATH_ESTUNINATTRLEN else Inr (Stun_Empty t l)) }"

definition decode_uint_attr :: "u8 list \<Rightarrow> (pj_status + pj_stun_attr) option" where
  "decode_uint_attr buf = do {
     (t, l) \<leftarrow> GETATTRHDR buf;
     if l \<noteq> 4 then Some (Inl PJNATH_ESTUNINATTRLEN)
     else do { v \<leftarrow> GETVAL32H buf 4; Some (Inr (Stun_Uint t l v)) } }"

definition decode_uint64_attr :: "u8 list \<Rightarrow> (pj_status + pj_stun_attr) option" where
  "decode_uint64_attr buf = do {
     (t, l) \<leftarrow> GETATTRHDR buf;
     if l \<noteq> 8 then Some (Inl PJNATH_ESTUNINATTRLEN)
     else do { (hi, lo) \<leftarrow> GETVAL64H buf 4; Some (Inr (Stun_Uint64 t l hi lo)) } }"

definition decode_msgint_attr :: "u8 list \<Rightarrow> (pj_status + pj_stun_attr) option" where
  "decode_msgint_attr buf = do {
     (t, l) \<leftarrow> GETATTRHDR buf;
     if l \<noteq> 20 then Some (Inl PJNATH_ESTUNINATTRLEN)
     else do { hmac \<leftarrow> rd_bytes buf 4 20; Some (Inr (Stun_Msgint t l hmac)) } }"

definition decode_errcode_attr :: "u8 list \<Rightarrow> (pj_status + pj_stun_attr) option" where
  "decode_errcode_attr buf = do {
     (t, l) \<leftarrow> GETATTRHDR buf;
     if l < 4 then Some (Inl PJNATH_ESTUNINATTRLEN)
     else do {
       class \<leftarrow> rd8 buf 6; number \<leftarrow> rd8 buf 7;
       reason \<leftarrow> rd_bytes buf 8 (unat l - 4);
       Some (Inr (Stun_Errcode t l (int (unat class) * 100 + int (unat number)) reason)) } }"

text \<open>The array of the structure has \<open>PJ_STUN_MAX_ATTR\<close> elements.\<close>

fun get_unknowns :: "u8 list \<Rightarrow> nat \<Rightarrow> nat \<Rightarrow> u16 list option" where
  "get_unknowns buf pos 0 = Some []"
| "get_unknowns buf pos (Suc n) = do { v \<leftarrow> GETVAL16H buf pos; vs \<leftarrow> get_unknowns buf (pos + 2) n; Some (v # vs) }"

definition decode_unknown_attr :: "u8 list \<Rightarrow> (pj_status + pj_stun_attr) option" where
  "decode_unknown_attr buf = do {
     (t, l) \<leftarrow> GETATTRHDR buf;
     if PJ_STUN_MAX_ATTR < unat l div 2 then Some (Inl PJ_ETOOMANY)
     else do { vs \<leftarrow> get_unknowns buf 4 (unat l div 2); Some (Inr (Stun_Unknown t l vs)) } }"

text \<open>The structure is cleared first, so that the field \<open>magic\<close> is zero.\<close>

definition decode_binary_attr :: "u8 list \<Rightarrow> (pj_status + pj_stun_attr) option" where
  "decode_binary_attr buf = do {
     (t, l) \<leftarrow> GETATTRHDR buf;
     v \<leftarrow> rd_bytes buf 4 (unat l);
     Some (Inr (Stun_Binary t l 0 v)) }"

fun decode_attr :: "attr_codec \<Rightarrow> u8 list \<Rightarrow> pj_stun_msg_hdr \<Rightarrow> (pj_status + pj_stun_attr) option" where
  "decode_attr Sockaddr_Codec buf hdr = decode_sockaddr_attr buf hdr"
| "decode_attr Xored_Sockaddr_Codec buf hdr = decode_xored_sockaddr_attr buf hdr"
| "decode_attr String_Codec buf hdr = decode_string_attr buf"
| "decode_attr Uint_Codec buf hdr = decode_uint_attr buf"
| "decode_attr Uint64_Codec buf hdr = decode_uint64_attr buf"
| "decode_attr Binary_Codec buf hdr = decode_binary_attr buf"
| "decode_attr Empty_Codec buf hdr = decode_empty_attr buf"
| "decode_attr Msgint_Codec buf hdr = decode_msgint_attr buf"
| "decode_attr Errcode_Codec buf hdr = decode_errcode_attr buf"
| "decode_attr Unknown_Codec buf hdr = decode_unknown_attr buf"

section \<open>Encoding attributes\<close>

text \<open>
  An encoder gets the attribute, the memory, the position, the room that its caller believes to be left, and
  the header of the message. It returns the status, the memory, and the number of bytes that it reports as printed; after an
  error nobody looks at that number. Each encoder casts the attribute to its own structure.
\<close>

fun encode_sockaddr_attr :: "pj_stun_attr \<Rightarrow> u8 list \<Rightarrow> nat \<Rightarrow> nat \<Rightarrow> pj_stun_msg_hdr \<Rightarrow> (pj_status \<times> u8 list \<times> nat) option" where
  "encode_sockaddr_attr (Stun_Sockaddr t l xor_ed sa) buf pos len hdr = do {
     buf1 \<leftarrow> PUTVAL16H buf pos t;
     case (if xor_ed then xor_sockaddr hdr sa else sa) of
       Sock_Inet port addr \<Rightarrow>
         if len < 12 then Some (PJ_ETOOSMALL, buf1, 0)
         else do { buf2 \<leftarrow> wr_bytes buf1 (pos + 2) (be16 8 @ [0, 1] @ be16 port @ addr); Some (PJ_SUCCESS, buf2, 12) }
     | Sock_Inet6 port flow addr scope \<Rightarrow>
         if len < 24 then Some (PJ_ETOOSMALL, buf1, 0)
         else do { buf2 \<leftarrow> wr_bytes buf1 (pos + 2) (be16 20 @ [0, 2] @ be16 port @ addr); Some (PJ_SUCCESS, buf2, 24) }
     | Sock_Other af \<Rightarrow> Some (PJNATH_EINVAF, buf1, 0) }"
| "encode_sockaddr_attr _ buf pos len hdr = None"

text \<open>\<open>padding_char\<close> is the static variable of the file.\<close>

fun encode_string_attr :: "u8 \<Rightarrow> pj_stun_attr \<Rightarrow> u8 list \<Rightarrow> nat \<Rightarrow> nat \<Rightarrow> pj_stun_msg_hdr \<Rightarrow> (pj_status \<times> u8 list \<times> nat) option" where
  "encode_string_attr padding_char (Stun_String t l value) buf pos len hdr =
     (let slen = length value; printed = pad4 (slen mod 2 ^ 32 + 4) mod 2 ^ 32;
          lenfield = (if sm_magic hdr \<noteq> PJ_STUN_MAGIC \<or> t = PJ_STUN_ATTR_SOFTWARE then pad4 slen else slen);
          padding = (if slen mod 4 \<noteq> 0 then replicate (4 - slen mod 4) padding_char else [])
      in if len < printed then Some (PJ_ETOOSMALL, buf, 0)
         else do { buf1 \<leftarrow> wr_bytes buf pos (be16 t @ be16 (word_of_nat lenfield) @ value @ padding); Some (PJ_SUCCESS, buf1, printed) })"
| "encode_string_attr padding_char _ buf pos len hdr = None"

fun encode_empty_attr :: "pj_stun_attr \<Rightarrow> u8 list \<Rightarrow> nat \<Rightarrow> nat \<Rightarrow> (pj_status \<times> u8 list \<times> nat) option" where
  "encode_empty_attr (Stun_Empty t l) buf pos len =
     (if len < 4 then Some (PJ_ETOOSMALL, buf, 0)
      else do { buf1 \<leftarrow> wr_bytes buf pos (be16 t @ be16 0); Some (PJ_SUCCESS, buf1, 4) })"
| "encode_empty_attr _ buf pos len = None"

fun encode_uint_attr :: "pj_stun_attr \<Rightarrow> u8 list \<Rightarrow> nat \<Rightarrow> nat \<Rightarrow> (pj_status \<times> u8 list \<times> nat) option" where
  "encode_uint_attr (Stun_Uint t l value) buf pos len =
     (if len < 8 then Some (PJ_ETOOSMALL, buf, 0)
      else do { buf1 \<leftarrow> wr_bytes buf pos (be16 t @ be16 4 @ be32 value); Some (PJ_SUCCESS, buf1, 8) })"
| "encode_uint_attr _ buf pos len = None"

fun encode_uint64_attr :: "pj_stun_attr \<Rightarrow> u8 list \<Rightarrow> nat \<Rightarrow> nat \<Rightarrow> (pj_status \<times> u8 list \<times> nat) option" where
  "encode_uint64_attr (Stun_Uint64 t l hi lo) buf pos len =
     (if len < 12 then Some (PJ_ETOOSMALL, buf, 0)
      else do { buf1 \<leftarrow> wr_bytes buf pos (be16 t @ be16 8 @ be32 hi @ be32 lo); Some (PJ_SUCCESS, buf1, 12) })"
| "encode_uint64_attr _ buf pos len = None"

fun encode_msgint_attr :: "pj_stun_attr \<Rightarrow> u8 list \<Rightarrow> nat \<Rightarrow> nat \<Rightarrow> (pj_status \<times> u8 list \<times> nat) option" where
  "encode_msgint_attr (Stun_Msgint t l hmac) buf pos len =
     (if len < 24 then Some (PJ_ETOOSMALL, buf, 0)
      else do { buf1 \<leftarrow> wr_bytes buf pos (be16 t @ be16 l @ hmac); Some (PJ_SUCCESS, buf1, 24) })"
| "encode_msgint_attr _ buf pos len = None"

fun encode_errcode_attr :: "pj_stun_attr \<Rightarrow> u8 list \<Rightarrow> nat \<Rightarrow> nat \<Rightarrow> (pj_status \<times> u8 list \<times> nat) option" where
  "encode_errcode_attr (Stun_Errcode t l err_code reason) buf pos len =
     (let slen = length reason
      in if len < 4 + 4 + slen mod 2 ^ 32 then Some (PJ_ETOOSMALL, buf, 0)
         else do {
           buf1 \<leftarrow> wr_bytes buf pos (be16 t @ be16 (word_of_nat (4 + slen)) @ be16 0 @
             [word_of_int (c_div err_code 100), word_of_int (c_mod err_code 100)] @ reason);
           Some (PJ_SUCCESS, buf1, pad4 (4 + 4 + slen mod 2 ^ 32) mod 2 ^ 32) })"
| "encode_errcode_attr _ buf pos len = None"

fun encode_unknown_attr :: "pj_stun_attr \<Rightarrow> u8 list \<Rightarrow> nat \<Rightarrow> nat \<Rightarrow> (pj_status \<times> u8 list \<times> nat) option" where
  "encode_unknown_attr (Stun_Unknown t l attrs) buf pos len =
     (let n = length attrs * 2
      in if len < 4 + n then Some (PJ_ETOOSMALL, buf, 0)
         else do { buf1 \<leftarrow> wr_bytes buf pos (be16 t @ be16 (word_of_nat n) @ concat (map be16 attrs)); Some (PJ_SUCCESS, buf1, pad4 (4 + n)) })"
| "encode_unknown_attr _ buf pos len = None"

fun encode_binary_attr :: "pj_stun_attr \<Rightarrow> u8 list \<Rightarrow> nat \<Rightarrow> nat \<Rightarrow> (pj_status \<times> u8 list \<times> nat) option" where
  "encode_binary_attr (Stun_Binary t l magic data) buf pos len =
     (let printed = pad4 (length data + 4) mod 2 ^ 32
      in if len < printed then Some (PJ_ETOOSMALL, buf, 0)
         else do { buf1 \<leftarrow> wr_bytes buf pos (be16 t @ be16 (word_of_nat (length data)) @ data); Some (PJ_SUCCESS, buf1, printed) })"
| "encode_binary_attr _ buf pos len = None"

fun encode_attr ::
    "u8 \<Rightarrow> attr_codec \<Rightarrow> pj_stun_attr \<Rightarrow> u8 list \<Rightarrow> nat \<Rightarrow> nat \<Rightarrow> pj_stun_msg_hdr \<Rightarrow> (pj_status \<times> u8 list \<times> nat) option" where
  "encode_attr padding_char Sockaddr_Codec a buf pos len hdr = encode_sockaddr_attr a buf pos len hdr"
| "encode_attr padding_char Xored_Sockaddr_Codec a buf pos len hdr = encode_sockaddr_attr a buf pos len hdr"
| "encode_attr padding_char String_Codec a buf pos len hdr = encode_string_attr padding_char a buf pos len hdr"
| "encode_attr padding_char Uint_Codec a buf pos len hdr = encode_uint_attr a buf pos len"
| "encode_attr padding_char Uint64_Codec a buf pos len hdr = encode_uint64_attr a buf pos len"
| "encode_attr padding_char Binary_Codec a buf pos len hdr = encode_binary_attr a buf pos len"
| "encode_attr padding_char Empty_Codec a buf pos len hdr = encode_empty_attr a buf pos len"
| "encode_attr padding_char Msgint_Codec a buf pos len hdr = encode_msgint_attr a buf pos len"
| "encode_attr padding_char Errcode_Codec a buf pos len hdr = encode_errcode_attr a buf pos len"
| "encode_attr padding_char Unknown_Codec a buf pos len hdr = encode_unknown_attr a buf pos len"

section \<open>Cloning attributes\<close>

text \<open>
  The clone of an attribute, made by the function that the descriptor names. The result inside is \<open>None\<close> where the code
  returns a null pointer.
\<close>

text \<open>The structure that an attribute object is, named by the codec that uses it.\<close>

fun attr_struct :: "pj_stun_attr \<Rightarrow> attr_codec" where
  "attr_struct (Stun_Sockaddr _ _ _ _) = Sockaddr_Codec"
| "attr_struct (Stun_Empty _ _) = Empty_Codec"
| "attr_struct (Stun_String _ _ _) = String_Codec"
| "attr_struct (Stun_Uint _ _ _) = Uint_Codec"
| "attr_struct (Stun_Uint64 _ _ _ _) = Uint64_Codec"
| "attr_struct (Stun_Msgint _ _ _) = Msgint_Codec"
| "attr_struct (Stun_Errcode _ _ _ _) = Errcode_Codec"
| "attr_struct (Stun_Unknown _ _ _) = Unknown_Codec"
| "attr_struct (Stun_Binary _ _ _ _) = Binary_Codec"

definition struct_of_codec :: "attr_codec \<Rightarrow> attr_codec" where
  "struct_of_codec c = (if c = Xored_Sockaddr_Codec then Sockaddr_Codec else c)"

text \<open>Every clone function copies the fields of its structure.\<close>

definition clone_attr :: "attr_codec \<Rightarrow> pj_stun_attr \<Rightarrow> pj_stun_attr option" where
  "clone_attr codec a = (if attr_struct a = struct_of_codec codec then Some a else None)"

definition pj_stun_attr_clone :: "pj_stun_attr \<Rightarrow> pj_stun_attr option option" where
  "pj_stun_attr_clone a =
     (case find_attr_desc (attr_type a) of
        Some (_, codec) \<Rightarrow> map_option Some (clone_attr codec a)
      | None \<Rightarrow> (case a of Stun_Binary t l magic d \<Rightarrow> Some (if magic = PJ_STUN_MAGIC then Some (Stun_Binary t l magic d) else None)
                          | _ \<Rightarrow> None))"

section \<open>Messages\<close>

text \<open>
  The transaction id that is made when the caller gives none: process id, random number and a counter, which starts at a random
  number. The second result is the new value of the counter.
\<close>

definition stun_new_tsx_id :: "u32 \<Rightarrow> u32 \<Rightarrow> u32 \<Rightarrow> u32 \<Rightarrow> u8 list \<times> u32" where
  "stun_new_tsx_id pid rand_start rand counter =
     (let c = (if counter = 0 then rand_start else counter) in (store32 pid @ store32 rand @ store32 c, c + 1))"

definition pj_stun_msg_init :: "u16 \<Rightarrow> u32 \<Rightarrow> u8 list \<Rightarrow> pj_status + pj_stun_msg" where
  "pj_stun_msg_init msg_type magic tid =
     (if msg_type = 0 then Inl PJ_EINVAL
      else Inr \<lparr>sm_hdr = \<lparr>sm_type = msg_type, sm_length = 0, sm_magic = magic, sm_tsx_id = tid\<rparr>, sm_attr = []\<rparr>)"

definition pj_stun_msg_create :: "u16 \<Rightarrow> u32 \<Rightarrow> u8 list \<Rightarrow> pj_status + pj_stun_msg" where
  "pj_stun_msg_create msg_type magic tid = (if msg_type = 0 then Inl PJ_EINVAL else pj_stun_msg_init msg_type magic tid)"

definition pj_stun_msg_add_attr :: "pj_stun_msg \<Rightarrow> pj_stun_attr \<Rightarrow> pj_status \<times> pj_stun_msg" where
  "pj_stun_msg_add_attr msg a =
     (if length (sm_attr msg) < PJ_STUN_MAX_ATTR then (PJ_SUCCESS, msg\<lparr>sm_attr := sm_attr msg @ [a]\<rparr>) else (PJ_ETOOMANY, msg))"

text \<open>The functions \<open>pj_stun_msg_add_..._attr\<close> create the attribute and add it.\<close>

definition add_created :: "pj_stun_msg \<Rightarrow> pj_status + pj_stun_attr \<Rightarrow> pj_status \<times> pj_stun_msg" where
  "add_created msg r = (case r of Inl st \<Rightarrow> (st, msg) | Inr a \<Rightarrow> pj_stun_msg_add_attr msg a)"

definition pj_stun_msg_add_sockaddr_attr :: "pj_stun_msg \<Rightarrow> u16 \<Rightarrow> bool \<Rightarrow> pj_sockaddr \<Rightarrow> nat \<Rightarrow> pj_status \<times> pj_stun_msg" where
  "pj_stun_msg_add_sockaddr_attr msg t xor_ed addr addr_len = add_created msg (pj_stun_sockaddr_attr_init t xor_ed addr addr_len)"

definition pj_stun_msg_add_string_attr :: "pj_stun_msg \<Rightarrow> u16 \<Rightarrow> u8 list \<Rightarrow> pj_status \<times> pj_stun_msg" where
  "pj_stun_msg_add_string_attr msg t value = add_created msg (Inr (pj_stun_string_attr_init t value))"

definition pj_stun_msg_add_empty_attr :: "pj_stun_msg \<Rightarrow> u16 \<Rightarrow> pj_status \<times> pj_stun_msg" where
  "pj_stun_msg_add_empty_attr msg t = add_created msg (Inr (pj_stun_empty_attr_create t))"

definition pj_stun_msg_add_uint_attr :: "pj_stun_msg \<Rightarrow> u16 \<Rightarrow> u32 \<Rightarrow> pj_status \<times> pj_stun_msg" where
  "pj_stun_msg_add_uint_attr msg t value = add_created msg (Inr (pj_stun_uint_attr_create t value))"

definition pj_stun_msg_add_uint64_attr :: "pj_stun_msg \<Rightarrow> u16 \<Rightarrow> (u32 \<times> u32) option \<Rightarrow> pj_status \<times> pj_stun_msg" where
  "pj_stun_msg_add_uint64_attr msg t value = add_created msg (Inr (pj_stun_uint64_attr_create t value))"

definition pj_stun_msg_add_msgint_attr :: "pj_stun_msg \<Rightarrow> pj_status \<times> pj_stun_msg" where
  "pj_stun_msg_add_msgint_attr msg = add_created msg (Inr pj_stun_msgint_attr_create)"

definition pj_stun_msg_add_unknown_attr :: "pj_stun_msg \<Rightarrow> u16 list \<Rightarrow> pj_status \<times> pj_stun_msg" where
  "pj_stun_msg_add_unknown_attr msg types = add_created msg (pj_stun_unknown_attr_create types)"

definition pj_stun_msg_add_errcode_attr :: "pj_stun_msg \<Rightarrow> int \<Rightarrow> u8 list option \<Rightarrow> (pj_status \<times> pj_stun_msg) option" where
  "pj_stun_msg_add_errcode_attr msg err_code err_reason = map_option (add_created msg) (pj_stun_errcode_attr_create err_code err_reason)"

definition pj_stun_msg_add_binary_attr :: "pj_stun_msg \<Rightarrow> u16 \<Rightarrow> u8 list option \<Rightarrow> nat \<Rightarrow> (pj_status \<times> pj_stun_msg) option" where
  "pj_stun_msg_add_binary_attr msg t data len = map_option (add_created msg) (pj_stun_binary_attr_init t data len)"

fun find_attr_from :: "pj_stun_attr list \<Rightarrow> u16 \<Rightarrow> pj_stun_attr option" where
  "find_attr_from [] t = None"
| "find_attr_from (a # as) t = (if attr_type a = t then Some a else find_attr_from as t)"

definition pj_stun_msg_find_attr :: "pj_stun_msg \<Rightarrow> u16 \<Rightarrow> nat \<Rightarrow> pj_stun_attr option" where
  "pj_stun_msg_find_attr msg t index = find_attr_from (drop index (sm_attr msg)) t"

fun clone_attrs :: "pj_stun_attr list \<Rightarrow> pj_stun_attr list option" where
  "clone_attrs [] = Some []"
| "clone_attrs (a # as) = do {
     r \<leftarrow> pj_stun_attr_clone a;
     rs \<leftarrow> clone_attrs as;
     Some (case r of Some c \<Rightarrow> c # rs | None \<Rightarrow> rs) }"

definition pj_stun_msg_clone :: "pj_stun_msg \<Rightarrow> pj_stun_msg option" where
  "pj_stun_msg_clone src = do { as \<leftarrow> clone_attrs (sm_attr src); Some (src\<lparr>sm_attr := as\<rparr>) }"

text \<open>The response is made from the header of the request.\<close>

definition pj_stun_msg_create_response ::
    "pj_stun_msg_hdr \<Rightarrow> int \<Rightarrow> u8 list option \<Rightarrow> (pj_status \<times> pj_stun_msg option) option" where
  "pj_stun_msg_create_response hdr err_code err_msg =
     (if \<not> PJ_STUN_IS_REQUEST (sm_type hdr) then Some (PJNATH_EINSTUNMSGTYPE, None)
      else let msg_type = sm_type hdr OR (if err_code \<noteq> 0 then PJ_STUN_ERROR_RESPONSE_BIT else PJ_STUN_SUCCESS_RESPONSE_BIT)
           in case pj_stun_msg_create msg_type (sm_magic hdr) (sm_tsx_id hdr) of
                Inl st \<Rightarrow> Some (st, None)
              | Inr response \<Rightarrow>
                  if err_code \<noteq> 0
                  then do { (st, response') \<leftarrow> pj_stun_msg_add_errcode_attr response err_code err_msg;
                            Some (if st \<noteq> PJ_SUCCESS then (st, None) else (PJ_SUCCESS, Some response')) }
                  else Some (PJ_SUCCESS, Some response))"
section \<open>Checking a packet\<close>

text \<open>The options, and where the code finds things outside of its arguments: the padding character, the address of the packet,
  the contexts that lie on the stack.\<close>

record stun_options =
  PJ_STUN_IS_DATAGRAM :: bool
  PJ_STUN_CHECK_PACKET :: bool
  PJ_STUN_NO_FINGERPRINT_CHECK :: bool

record stun_env =
  se_padding_char :: u8
  se_addr :: nat
  se_sha :: pj_sha1_context
  se_hmac :: pj_hmac_sha1_context

definition pj_stun_msg_check :: "nat \<Rightarrow> u8 list \<Rightarrow> stun_options \<Rightarrow> pj_status option" where
  "pj_stun_msg_check addr pdu options =
     (let pdu_len = length pdu
      in if pdu_len < 20 then Some PJNATH_EINSTUNMSGLEN
         else do {
           b0 \<leftarrow> rd8 pdu 0;
           if b0 \<noteq> 0 \<and> b0 \<noteq> 1 then Some PJNATH_EINSTUNMSGTYPE
           else do {
             l \<leftarrow> GETVAL16H pdu 2;
             let msg_len = unat l;
             if msg_len + 20 > pdu_len \<or> (PJ_STUN_IS_DATAGRAM options \<and> msg_len + 20 \<noteq> pdu_len) then Some PJNATH_EINSTUNMSGLEN
             else if msg_len mod 4 \<noteq> 0 then Some PJNATH_EINSTUNMSGLEN
             else do {
               magic \<leftarrow> GETVAL32H pdu 4;
               if magic \<noteq> PJ_STUN_MAGIC \<or> PJ_STUN_NO_FINGERPRINT_CHECK options then Some PJ_SUCCESS
               else do {
                 t \<leftarrow> GETVAL16H pdu (msg_len + 20 - 8);
                 if t \<noteq> PJ_STUN_ATTR_FINGERPRINT then Some PJ_SUCCESS
                 else do {
                   attr_len \<leftarrow> GETVAL16H pdu (msg_len + 20 - 8 + 2);
                   fingerprint \<leftarrow> GETVAL32H pdu (msg_len + 20 - 8 + 4);
                   let crc = pj_crc32_calc addr (take (msg_len + 20 - 8) pdu) XOR STUN_XOR_FINGERPRINT;
                   Some (if attr_len \<noteq> 4 then PJNATH_ESTUNINATTRLEN
                         else if crc \<noteq> fingerprint then PJNATH_ESTUNFINGERPRINT else PJ_SUCCESS) } } } } })"

section \<open>Decoding a message\<close>

text \<open>
  What the loop over the attributes keeps: the attributes, whether MESSAGE-INTEGRITY and FINGERPRINT were seen. The
  result of a decoding: the status, what was added to the message, the rest of the packet, and the response that was made
  for the sender. \<open>want\<close> says that the caller asked for a response and the message is a request.
\<close>

record decode_state =
  dc_attrs :: "pj_stun_attr list"
  dc_has_msg_int :: bool
  dc_has_fingerprint :: bool

definition error_response :: "bool \<Rightarrow> pj_stun_msg_hdr \<Rightarrow> int \<Rightarrow> u8 list option \<Rightarrow> pj_stun_msg option option" where
  "error_response want hdr err_code err_msg =
     (if want then map_option snd (pj_stun_msg_create_response hdr err_code err_msg) else Some None)"

text \<open>The checks on a known attribute that was decoded: the error, if one is found, or the flags.\<close>

definition check_order :: "u16 \<Rightarrow> bool \<Rightarrow> bool \<Rightarrow> pj_status + bool \<times> bool" where
  "check_order t has_msg_int has_fingerprint =
     (if t = PJ_STUN_ATTR_MESSAGE_INTEGRITY \<and> \<not> has_fingerprint
      then if has_msg_int then Inl PJNATH_ESTUNDUPATTR else Inr (True, has_fingerprint)
      else if t = PJ_STUN_ATTR_FINGERPRINT
      then if has_fingerprint then Inl PJNATH_ESTUNDUPATTR else Inr (has_msg_int, True)
      else if has_fingerprint then Inl PJNATH_ESTUNFINGERPOS else Inr (has_msg_int, has_fingerprint))"

text \<open>One attribute: the status with the response, or the state with the attribute added. \<open>strerror\<close> is the text of a status.\<close>

definition decode_one ::
    "(pj_status \<Rightarrow> u8 list) \<Rightarrow> bool \<Rightarrow> pj_stun_msg_hdr \<Rightarrow> u8 list \<Rightarrow> decode_state \<Rightarrow>
     ((pj_status \<times> pj_stun_msg option) + decode_state) option" where
  "decode_one strerror want hdr pdu s = do {
     t \<leftarrow> GETVAL16H pdu 0;
     case find_attr_desc t of
       None \<Rightarrow>
         if t \<le> 0x7FFF then do {
           r \<leftarrow> error_response want hdr PJ_STUN_SC_UNKNOWN_ATTRIBUTE None;
           Some (Inl (PJ_STATUS_FROM_STUN_CODE PJ_STUN_SC_UNKNOWN_ATTRIBUTE, map_option (\<lambda>m. snd (pj_stun_msg_add_unknown_attr m [t])) r)) }
         else if PJ_STUN_MAX_ATTR \<le> length (dc_attrs s) then do {
           r \<leftarrow> error_response want hdr PJ_STUN_SC_SERVER_ERROR None;
           Some (Inl (PJNATH_ESTUNTOOMANYATTR, r)) }
         else do {
           l \<leftarrow> GETVAL16H pdu 2;
           b \<leftarrow> pj_stun_binary_attr_init t (Some (drop 4 pdu)) (unat l);
           case b of
             Inl st \<Rightarrow> do { r \<leftarrow> error_response want hdr PJ_STUN_SC_SERVER_ERROR None; Some (Inl (st, r)) }
           | Inr a \<Rightarrow> Some (Inr (s\<lparr>dc_attrs := dc_attrs s @ [a]\<rparr>)) }
     | Some (name, codec) \<Rightarrow> do {
         d \<leftarrow> decode_attr codec pdu hdr;
         case d of
           Inl st \<Rightarrow> do {
             r \<leftarrow> error_response want hdr PJ_STUN_SC_BAD_REQUEST (Some (take 79 (strerror st @ pj_str '' in '' @ pj_str (pj_stun_get_attr_name t))));
             Some (Inl (st, r)) }
         | Inr a \<Rightarrow> (case check_order t (dc_has_msg_int s) (dc_has_fingerprint s) of
               Inl st \<Rightarrow> do { r \<leftarrow> error_response want hdr PJ_STUN_SC_BAD_REQUEST None; Some (Inl (st, r)) }
             | Inr (mi, fp) \<Rightarrow>
                 if PJ_STUN_MAX_ATTR \<le> length (dc_attrs s) then do {
                   r \<leftarrow> error_response want hdr PJ_STUN_SC_SERVER_ERROR None; Some (Inl (PJNATH_ESTUNTOOMANYATTR, r)) }
                 else Some (Inr (s\<lparr>dc_attrs := dc_attrs s @ [a], dc_has_msg_int := mi, dc_has_fingerprint := fp\<rparr>))) } }"

text \<open>The loop: \<open>pdu\<close> is what can be read from here on, \<open>pdu_len\<close> what the loop takes to be left of the message.\<close>

function decode_attrs ::
    "(pj_status \<Rightarrow> u8 list) \<Rightarrow> bool \<Rightarrow> pj_stun_msg_hdr \<Rightarrow> u8 list \<Rightarrow> nat \<Rightarrow> decode_state \<Rightarrow>
     ((pj_status \<times> pj_stun_msg option) + (decode_state \<times> nat)) option" where
  "decode_attrs strerror want hdr pdu pdu_len s =
     (if pdu_len < 4 then Some (Inr (s, pdu_len))
      else do {
        t \<leftarrow> GETVAL16H pdu 0;
        l \<leftarrow> GETVAL16H pdu 2;
        let attr_val_len = pad4 (unat l);
        if pdu_len < attr_val_len + 4 then do {
          r \<leftarrow> error_response want hdr PJ_STUN_SC_BAD_REQUEST (Some (pj_str (''Attribute '' @ pj_stun_get_attr_name t @ '' has invalid length'')));
          Some (Inl (PJNATH_ESTUNINATTRLEN, r)) }
        else do {
          d \<leftarrow> decode_one strerror want hdr pdu s;
          case d of
            Inl e \<Rightarrow> Some (Inl e)
          | Inr s' \<Rightarrow>
              if pdu_len \<le> attr_val_len + 4 then decode_attrs strerror want hdr (drop pdu_len pdu) 0 s'
              else decode_attrs strerror want hdr (drop (attr_val_len + 4) pdu) (pdu_len - (attr_val_len + 4)) s' } })"
  by pat_completeness auto
termination by (relation "measure (\<lambda>(e, w, h, p, n, s). n)") auto

declare decode_attrs.simps [simp del]

text \<open>The result: status, message, parsed length, response.\<close>

definition pj_stun_msg_decode ::
    "(pj_status \<Rightarrow> u8 list) \<Rightarrow> nat \<Rightarrow> u8 list \<Rightarrow> stun_options \<Rightarrow> bool \<Rightarrow> (pj_status \<times> pj_stun_msg option \<times> nat \<times> pj_stun_msg option) option" where
  "pj_stun_msg_decode strerror addr pdu options p_response =
     (let pdu_len = length pdu
      in if pdu_len = 0 then Some (PJ_EINVAL, None, 0, None)
         else do {
           status \<leftarrow> (if PJ_STUN_CHECK_PACKET options then pj_stun_msg_check addr pdu options
                      else do { l \<leftarrow> GETVAL16H pdu 2;
                                Some (if unat l + 20 > pdu_len \<or> (PJ_STUN_IS_DATAGRAM options \<and> unat l + 20 \<noteq> pdu_len)
                                      then PJNATH_EINSTUNMSGLEN else PJ_SUCCESS) });
           if status \<noteq> PJ_SUCCESS then Some (status, None, 0, None)
           else do {
             t \<leftarrow> GETVAL16H pdu 0; l \<leftarrow> GETVAL16H pdu 2; magic \<leftarrow> GETVAL32H pdu 4; tid \<leftarrow> rd_bytes pdu 8 12;
             let hdr = \<lparr>sm_type = t, sm_length = l, sm_magic = magic, sm_tsx_id = tid\<rparr>;
             let want = (p_response \<and> PJ_STUN_IS_REQUEST t);
             r \<leftarrow> decode_attrs strerror want hdr (drop 20 pdu) (unat l) \<lparr>dc_attrs = [], dc_has_msg_int = False, dc_has_fingerprint = False\<rparr>;
             case r of
               Inl (st, resp) \<Rightarrow> Some (st, None, 0, resp)
             | Inr (s, left) \<Rightarrow>
                 if 0 < left then Some (PJNATH_EINSTUNMSGLEN, None, 0, None)
                 else Some (PJ_SUCCESS, Some \<lparr>sm_hdr = hdr, sm_attr = dc_attrs s\<rparr>, 20 + unat l, None) } })"

section \<open>Encoding a message\<close>

text \<open>One attribute in the first loop.\<close>

definition encode_one :: "u8 \<Rightarrow> pj_stun_msg_hdr \<Rightarrow> pj_stun_attr \<Rightarrow> u8 list \<Rightarrow> nat \<Rightarrow> nat \<Rightarrow> (pj_status \<times> u8 list \<times> nat) option" where
  "encode_one padding_char hdr a buf pos len =
     (case find_attr_desc (attr_type a) of
        Some (name, codec) \<Rightarrow> encode_attr padding_char codec a buf pos len hdr
      | None \<Rightarrow> (case a of
            Stun_Binary t l magic data \<Rightarrow>
              if magic \<noteq> PJ_STUN_MAGIC then Some (PJ_EBUG, buf, 0) else encode_binary_attr a buf pos len
          | _ \<Rightarrow> None))"

text \<open>
  The first loop stops at MESSAGE-INTEGRITY or FINGERPRINT. \<open>room\<close> is \<open>buf_size\<close>, a \<open>pj_size_t\<close> that the code
  decreases by what the encoders report, and hands on as \<open>unsigned\<close>. The result: status, memory, position, room, and the index at which the loop stopped.
\<close>

fun encode_loop ::
    "u8 \<Rightarrow> pj_stun_msg_hdr \<Rightarrow> pj_stun_attr list \<Rightarrow> nat \<Rightarrow> u8 list \<Rightarrow> nat \<Rightarrow> nat \<Rightarrow> (pj_status \<times> u8 list \<times> nat \<times> nat \<times> nat) option" where
  "encode_loop padding_char hdr [] i buf pos room = Some (PJ_SUCCESS, buf, pos, room, i)"
| "encode_loop padding_char hdr (a # as) i buf pos room =
     (if attr_type a = PJ_STUN_ATTR_MESSAGE_INTEGRITY \<or> attr_type a = PJ_STUN_ATTR_FINGERPRINT
      then Some (PJ_SUCCESS, buf, pos, room, i)
      else do {
        (status, buf1, printed) \<leftarrow> encode_one padding_char hdr a buf pos (room mod 2 ^ 32);
        if status \<noteq> PJ_SUCCESS then Some (status, buf1, pos, room, i)
        else encode_loop padding_char hdr as (Suc i) buf1 (pos + printed) ((room + (2 ^ 64 - printed)) mod 2 ^ 64) })"

text \<open>The second loop, over the attributes behind the one at which the first loop stopped.\<close>

fun scan_rest :: "pj_stun_attr list \<Rightarrow> nat \<Rightarrow> nat option \<Rightarrow> nat option \<Rightarrow> pj_status + nat option \<times> nat option" where
  "scan_rest [] i mi fp = Inr (mi, fp)"
| "scan_rest (a # as) i mi fp =
     (if fp \<noteq> None then Inl PJNATH_ESTUNFINGERPOS
      else if attr_type a = PJ_STUN_ATTR_MESSAGE_INTEGRITY
      then if mi \<noteq> None then Inl PJNATH_ESTUNMSGINTPOS else scan_rest as (Suc i) (Some i) fp
      else if attr_type a = PJ_STUN_ATTR_FINGERPRINT then scan_rest as (Suc i) mi (Some i)
      else scan_rest as (Suc i) mi fp)"

fun set_hmac :: "pj_stun_attr \<Rightarrow> u8 list \<Rightarrow> pj_stun_attr option" where
  "set_hmac (Stun_Msgint t l _) h = Some (Stun_Msgint t l h)"
| "set_hmac _ h = None"

fun set_value :: "pj_stun_attr \<Rightarrow> u32 \<Rightarrow> pj_stun_attr option" where
  "set_value (Stun_Uint t l _) v = Some (Stun_Uint t l v)"
| "set_value _ v = None"

text \<open>
  The position of MESSAGE-INTEGRITY, checked with the index that the loops left behind: the status, and the FINGERPRINT behind it.
  The counts are \<open>unsigned\<close>.
\<close>

definition msgint_position :: "pj_stun_attr list \<Rightarrow> nat \<Rightarrow> nat option \<Rightarrow> (pj_status \<times> nat option) option" where
  "msgint_position attrs i fp =
     (let n = length attrs; n2 = u32_of_int (int n - 2)
      in if 1 < n \<and> i < n2 then Some (PJNATH_ESTUNMSGINTPOS, fp)
         else if i = n2
         then if i + 1 < n
              then Some (if attr_type (attrs ! (i + 1)) \<noteq> PJ_STUN_ATTR_FINGERPRINT then (PJNATH_ESTUNMSGINTPOS, fp) else (PJ_SUCCESS, Some (i + 1)))
              else None
         else Some (PJ_SUCCESS, fp))"

text \<open>MESSAGE-INTEGRITY is computed over everything before it, and written.\<close>

definition encode_msgint ::
    "stun_env \<Rightarrow> u8 list option \<Rightarrow> pj_stun_msg \<Rightarrow> nat \<Rightarrow> nat \<Rightarrow> nat option \<Rightarrow> u8 list \<Rightarrow> nat \<Rightarrow> nat \<Rightarrow>
     (pj_status \<times> pj_stun_msg \<times> nat option \<times> u8 list \<times> nat \<times> nat) option" where
  "encode_msgint env key msg mi i fp buf pos room =
     (case key of
        None \<Rightarrow> Some (PJ_EINVALIDOP, msg, fp, buf, pos, room)
      | Some k \<Rightarrow> do {
          (st, fp') \<leftarrow> msgint_position (sm_attr msg) i fp;
          if st \<noteq> PJ_SUCCESS then Some (st, msg, fp', buf, pos, room)
          else do {
            let hmac = pj_hmac_sha1_final (pj_hmac_sha1_update (pj_hmac_sha1_init (se_sha env) (se_hmac env) k) (take pos buf));
            a \<leftarrow> set_hmac (sm_attr msg ! mi) hmac;
            let msg1 = msg\<lparr>sm_attr := (sm_attr msg)[mi := a]\<rparr>;
            (st, buf1, printed) \<leftarrow> encode_msgint_attr a buf pos (room mod 2 ^ 32);
            Some (if st \<noteq> PJ_SUCCESS then (st, msg1, fp', buf1, pos, room)
                  else (PJ_SUCCESS, msg1, fp', buf1, pos + printed, (room + (2 ^ 64 - printed)) mod 2 ^ 64)) } })"

definition encode_fingerprint ::
    "stun_env \<Rightarrow> pj_stun_msg \<Rightarrow> nat \<Rightarrow> u8 list \<Rightarrow> nat \<Rightarrow> nat \<Rightarrow> (pj_status \<times> pj_stun_msg \<times> u8 list \<times> nat) option" where
  "encode_fingerprint env msg fp buf pos room = do {
     l \<leftarrow> GETVAL16H buf 2;
     buf1 \<leftarrow> PUTVAL16H buf 2 (l + 8);
     a \<leftarrow> set_value (sm_attr msg ! fp) (pj_crc32_calc (se_addr env) (take pos buf1) XOR STUN_XOR_FINGERPRINT);
     let msg1 = msg\<lparr>sm_attr := (sm_attr msg)[fp := a]\<rparr>;
     (st, buf2, printed) \<leftarrow> encode_uint_attr a buf1 pos (room mod 2 ^ 32);
     Some (st, msg1, buf2, if st \<noteq> PJ_SUCCESS then pos else pos + printed) }"

text \<open>The result: status, the message with the computed values, the memory, and the length of the packet.\<close>

definition pj_stun_msg_encode ::
    "stun_env \<Rightarrow> pj_stun_msg \<Rightarrow> u8 list \<Rightarrow> u8 list option \<Rightarrow> (pj_status \<times> pj_stun_msg \<times> u8 list \<times> nat) option" where
  "pj_stun_msg_encode env msg buf key =
     (let hdr = sm_hdr msg; attrs = sm_attr msg
      in if length buf = 0 then Some (PJ_EINVAL, msg, buf, 0)
         else if length buf < 20 then Some (PJ_ETOOSMALL, msg, buf, 0)
         else do {
           buf1 \<leftarrow> wr_bytes buf 0 (be16 (sm_type hdr) @ be16 0 @ be32 (sm_magic hdr) @ sm_tsx_id hdr);
           (st, buf2, pos, room, stop) \<leftarrow> encode_loop (se_padding_char env) hdr attrs 0 buf1 20 (length buf - 20);
           if st \<noteq> PJ_SUCCESS then Some (st, msg, buf2, 0)
           else do {
             let at = (\<lambda>t. if stop < length attrs \<and> attr_type (attrs ! stop) = t then Some stop else None);
             case scan_rest (drop (Suc stop) attrs) (Suc stop) (at PJ_STUN_ATTR_MESSAGE_INTEGRITY) (at PJ_STUN_ATTR_FINGERPRINT) of
               Inl st \<Rightarrow> Some (st, msg, buf2, 0)
             | Inr (mi, fp) \<Rightarrow> do {
                 let i = max (Suc stop) (length attrs);
                 buf3 \<leftarrow> PUTVAL16H buf2 2 (word_of_nat (if mi \<noteq> None then pos - 20 + 24 else pos - 20));
                 (st, msg1, fp', buf4, pos1, room1) \<leftarrow>
                   (case mi of Some m \<Rightarrow> encode_msgint env key msg m i fp buf3 pos room
                             | None \<Rightarrow> Some (PJ_SUCCESS, msg, fp, buf3, pos, room));
                 if st \<noteq> PJ_SUCCESS then Some (st, msg1, buf4, 0)
                 else do {
                   (st, msg2, buf5, pos2) \<leftarrow>
                     (case fp' of Some f \<Rightarrow> encode_fingerprint env msg1 f buf4 pos1 room1 | None \<Rightarrow> Some (PJ_SUCCESS, msg1, buf4, pos1));
                   Some (if st \<noteq> PJ_SUCCESS then (st, msg2, buf5, 0)
                         else (PJ_SUCCESS, msg2\<lparr>sm_hdr := (sm_hdr msg2)\<lparr>sm_length := word_of_nat (pos2 - 20)\<rparr>\<rparr>, buf5, pos2)) } } } })"

end
