(* ===== verification/Stun_Codec.thy ===== *)
theory Stun_Codec
  imports Stun_Msg
begin

text \<open>
  The codec of \<open>stun_msg.c\<close> as a whole: what an encoder writes for an attribute, that the decoder reads it back, and the
  round trip of messages with MESSAGE-INTEGRITY and FINGERPRINT.
\<close>

section \<open>Reading what was written\<close>

lemma length_be [simp]: "length (be16 v) = 2" "length (be32 w) = 4"
  by (simp_all add: be16_def be32_def)

lemma GETVAL16H_be16 [simp]: "GETVAL16H (be16 v @ r) 0 = Some v" "GETVAL16H (be16 u @ be16 v @ r) 2 = Some v"
  by (simp_all add: GETVAL16H_def be16_def rd8_def buf_simps)

lemma GETATTRHDR_be16 [simp]: "GETATTRHDR (be16 t @ be16 l @ r) = Some (t, l)"
  by (simp add: GETATTRHDR_def)

lemma rd8_skip: "rd8 (xs @ r) (length xs + k) = rd8 r k"
  by (simp add: rd8_def)

lemma GETVAL_skip:
  "length xs \<le> n \<Longrightarrow> GETVAL16H (xs @ r) n = GETVAL16H r (n - length xs)"
  "length xs \<le> n \<Longrightarrow> GETVAL32H (xs @ r) n = GETVAL32H r (n - length xs)"
  "length xs \<le> n \<Longrightarrow> rd8 (xs @ r) n = rd8 r (n - length xs)"
  "length xs \<le> n \<Longrightarrow> rd_bytes (xs @ r) n k = rd_bytes r (n - length xs) k"
  using rd8_skip[of xs r "Suc k" for k] rd8_skip[of xs r "Suc (Suc k)" for k]
  by (auto simp: GETVAL16H_def GETVAL32H_def rd8_skip rd_bytes_def add.assoc dest!: le_Suc_ex)

lemma GETVAL_within:
  "n + 2 \<le> length xs \<Longrightarrow> GETVAL16H (xs @ r) n = GETVAL16H xs n"
  "n + 4 \<le> length xs \<Longrightarrow> GETVAL32H (xs @ r) n = GETVAL32H xs n"
  "n + k \<le> length xs \<Longrightarrow> rd_bytes (xs @ r) n k = rd_bytes xs n k"
  by (simp_all add: GETVAL16H_def GETVAL32H_def rd8_def rd_bytes_def nth_append)

lemma rd_prefix [simp]:
  "rd_bytes (v @ r) 0 (length v) = Some v" "GETVAL32H (be32 w @ r) 0 = Some w" "rd8 (b # r) 0 = Some b"
  by (simp_all add: rd_bytes_def GETVAL32H_def be32_def rd8_def buf_simps)

lemma wr_bytes_ok: "pos + length bs \<le> length buf \<Longrightarrow> wr_bytes buf pos bs = Some (memcpy_at buf pos bs)"
  by (simp add: wr_bytes_def)

lemma memcpy_at_twice:
  "pos + length a \<le> length buf \<Longrightarrow> memcpy_at (memcpy_at buf pos a) (pos + length a) b = memcpy_at buf pos (a @ b)"
  by (simp add: memcpy_at_def ac_simps)

lemma pad4_bounds: "n \<le> pad4 n" "pad4 n < n + 4" "pad4 n mod 4 = 0"
  unfolding pad4_def by presburger+

lemma pad4_add_4 [simp]: "pad4 (n + 4) = pad4 n + 4" "pad4 (4 + n) = pad4 n + 4" "pad4 (Suc (Suc (Suc (Suc n)))) = pad4 n + 4"
  unfolding pad4_def by presburger+

lemma pad4_id [simp]: "n mod 4 = 0 \<Longrightarrow> pad4 n = n"
  unfolding pad4_def by presburger

lemma xor_bytes_twice: "length a = length b \<Longrightarrow> xor_bytes (xor_bytes a b) b = a"
  by (induction a b rule: list_induct2) (simp_all add: xor_bytes_def xor.assoc)

lemma length_xor_bytes [simp]: "length (xor_bytes a b) = min (length a) (length b)"
  by (simp add: xor_bytes_def)

section \<open>What is written for an attribute\<close>

text \<open>
  The attributes that an encoder accepts and that can be told from what it writes: the structure is the one of the type's
  descriptor and the fields fit into their places. A type without a descriptor must be one that the receiver may ignore.
\<close>

fun addr_ok :: "pj_sockaddr \<Rightarrow> bool" where
  "addr_ok (Sock_Inet _ a) \<longleftrightarrow> length a = 4"
| "addr_ok (Sock_Inet6 _ _ a _) \<longleftrightarrow> length a = 16"
| "addr_ok (Sock_Other _) \<longleftrightarrow> False"

fun fields_ok :: "attr_codec \<Rightarrow> pj_stun_attr \<Rightarrow> bool" where
  "fields_ok c (Stun_Sockaddr t l x sa) \<longleftrightarrow> addr_ok sa \<and> (x \<longleftrightarrow> c = Xored_Sockaddr_Codec)"
| "fields_ok c (Stun_String t l v) \<longleftrightarrow> length v < 2 ^ 16 - 4"
| "fields_ok c (Stun_Errcode t l code reason) \<longleftrightarrow> 0 \<le> code \<and> code < 25600 \<and> length reason < 2 ^ 16 - 4"
| "fields_ok c (Stun_Unknown t l ts) \<longleftrightarrow> length ts \<le> PJ_STUN_MAX_ATTR"
| "fields_ok c (Stun_Binary t l magic d) \<longleftrightarrow> length d < 2 ^ 16"
| "fields_ok c (Stun_Msgint t l h) \<longleftrightarrow> l = 20 \<and> length h = 20"
| "fields_ok c _ \<longleftrightarrow> True"

definition attr_ok :: "pj_stun_attr \<Rightarrow> bool" where
  "attr_ok a =
     (case find_attr_desc (attr_type a) of
        Some (_, c) \<Rightarrow> attr_struct a = struct_of_codec c \<and> fields_ok c a
      | None \<Rightarrow> 0x7FFF < attr_type a \<and> (case a of Stun_Binary t l magic d \<Rightarrow> magic = PJ_STUN_MAGIC \<and> length d < 2 ^ 16 | _ \<Rightarrow> False))"

text \<open>The text of a SOFTWARE attribute, and any text in a message of the old protocol, counts its padding as text.\<close>

definition text_padding :: "u8 \<Rightarrow> u8 list \<Rightarrow> u8 list" where
  "text_padding padding_char v = replicate (pad4 (length v) - length v) padding_char"

definition counts_padding :: "pj_stun_msg_hdr \<Rightarrow> u16 \<Rightarrow> bool" where
  "counts_padding hdr t \<longleftrightarrow> sm_magic hdr \<noteq> PJ_STUN_MAGIC \<or> t = PJ_STUN_ATTR_SOFTWARE"

text \<open>The attribute as the receiver sees it.\<close>

fun received :: "u8 \<Rightarrow> pj_stun_msg_hdr \<Rightarrow> pj_stun_attr \<Rightarrow> pj_stun_attr" where
  "received p hdr (Stun_Sockaddr t l x (Sock_Inet6 port flow a scope)) = Stun_Sockaddr t 20 x (Sock_Inet6 port 0 a 0)"
| "received p hdr (Stun_Sockaddr t l x sa) = Stun_Sockaddr t 8 x sa"
| "received p hdr (Stun_Empty t l) = Stun_Empty t 0"
| "received p hdr (Stun_String t l v) =
     (if counts_padding hdr t then Stun_String t (word_of_nat (pad4 (length v))) (v @ text_padding p v)
      else Stun_String t (word_of_nat (length v)) v)"
| "received p hdr (Stun_Uint t l v) = Stun_Uint t 4 v"
| "received p hdr (Stun_Uint64 t l hi lo) = Stun_Uint64 t 8 hi lo"
| "received p hdr (Stun_Msgint t l h) = Stun_Msgint t l h"
| "received p hdr (Stun_Errcode t l code reason) = Stun_Errcode t (word_of_nat (4 + length reason)) code reason"
| "received p hdr (Stun_Unknown t l ts) = Stun_Unknown t (word_of_nat (length ts * 2)) ts"
| "received p hdr (Stun_Binary t l magic d) = Stun_Binary t (word_of_nat (length d)) (if find_attr_desc t = None then magic else 0) d"

text \<open>The value part of an attribute on the wire, without padding that is not written.\<close>

fun wire_addr :: "pj_sockaddr \<Rightarrow> u8 list" where
  "wire_addr (Sock_Inet port a) = [0, 1] @ be16 port @ a"
| "wire_addr (Sock_Inet6 port flow a scope) = [0, 2] @ be16 port @ a"
| "wire_addr (Sock_Other af) = []"

fun wire_value :: "u8 \<Rightarrow> pj_stun_msg_hdr \<Rightarrow> pj_stun_attr \<Rightarrow> u8 list" where
  "wire_value p hdr (Stun_Sockaddr t l x sa) = wire_addr (if x then xor_sockaddr hdr sa else sa)"
| "wire_value p hdr (Stun_Empty t l) = []"
| "wire_value p hdr (Stun_String t l v) = v @ text_padding p v"
| "wire_value p hdr (Stun_Uint t l v) = be32 v"
| "wire_value p hdr (Stun_Uint64 t l hi lo) = be32 hi @ be32 lo"
| "wire_value p hdr (Stun_Msgint t l h) = h"
| "wire_value p hdr (Stun_Errcode t l code reason) = be16 0 @ [word_of_int (c_div code 100), word_of_int (c_mod code 100)] @ reason"
| "wire_value p hdr (Stun_Unknown t l ts) = concat (map be16 ts)"
| "wire_value p hdr (Stun_Binary t l magic d) = d"

definition wire :: "u8 \<Rightarrow> pj_stun_msg_hdr \<Rightarrow> pj_stun_attr \<Rightarrow> u8 list" where
  "wire p hdr a = be16 (attr_type a) @ be16 (attr_length (received p hdr a)) @ wire_value p hdr a"

text \<open>What the attribute takes in the packet.\<close>

definition attr_size :: "u8 \<Rightarrow> pj_stun_msg_hdr \<Rightarrow> pj_stun_attr \<Rightarrow> nat" where
  "attr_size p hdr a = pad4 (length (wire p hdr a))"

lemma pad4_add_8 [simp]: "pad4 (8 + n) = pad4 n + 8"
  unfolding pad4_def by presburger

section \<open>One attribute\<close>

lemma length_text_padding [simp]: "length (text_padding p v) = pad4 (length v) - length v"
  by (simp add: text_padding_def)

lemma length_concat_be16 [simp]: "length (concat (map be16 ts)) = length ts * 2"
  by (induction ts) simp_all

lemma text_padding_eq:
  "0 < length v mod 4 \<Longrightarrow> replicate (4 - length v mod 4) p = text_padding p v"
  "length v mod 4 = 0 \<Longrightarrow> text_padding p v = []"
proof -
  have "pad4 (length v) - length v = (if length v mod 4 \<noteq> 0 then 4 - length v mod 4 else 0)"
    unfolding pad4_def by presburger
  then show "0 < length v mod 4 \<Longrightarrow> replicate (4 - length v mod 4) p = text_padding p v"
    "length v mod 4 = 0 \<Longrightarrow> text_padding p v = []" by (simp_all add: text_padding_def)
qed

lemma wr_bytes_two:
  "pos + 2 + length b \<le> length buf \<Longrightarrow>
   (wr_bytes buf pos (be16 t) \<bind> (\<lambda>b1. wr_bytes b1 (Suc (Suc pos)) b \<bind> f)) = f (memcpy_at buf pos (be16 t @ b))"
  using memcpy_at_twice[of pos "be16 t" buf b] by (simp add: wr_bytes_ok length_memcpy_at)

lemma wr_bytes_be16: "pos + 2 \<le> length buf \<Longrightarrow> wr_bytes buf pos (be16 t) = Some (memcpy_at buf pos (be16 t))"
  by (simp add: wr_bytes_ok)

lemma wire_attr_size: "length (wire p hdr a) \<le> attr_size p hdr a" "attr_size p hdr a < length (wire p hdr a) + 4" "attr_size p hdr a mod 4 = 0"
  using pad4_bounds by (simp_all add: attr_size_def)

lemma length_wire: "length (wire p hdr a) = length (wire_value p hdr a) + 4"
  by (simp add: wire_def)

lemma encode_one_ok:
  assumes ok: "attr_ok a" and tid: "length (sm_tsx_id hdr) = 12" and len: "attr_size p hdr a \<le> len"
    and pos: "pos + attr_size p hdr a \<le> length buf"
  shows "encode_one p hdr a buf pos len = Some (PJ_SUCCESS, memcpy_at buf pos (wire p hdr a), attr_size p hdr a)"
proof -
  have w: "pos + length (wire p hdr a) \<le> length buf" using wire_attr_size[of p hdr a] pos by simp
  show ?thesis
  proof (cases a)
    case (Stun_Sockaddr t l x sa)
    then obtain n c where d: "find_attr_desc t = Some (n, c)" "c = Sockaddr_Codec \<or> c = Xored_Sockaddr_Codec" and sa: "addr_ok sa"
      using ok by (auto simp: attr_ok_def struct_of_codec_def split: option.splits if_splits)
    have e: "encode_one p hdr (Stun_Sockaddr t l x sa) buf pos len = encode_sockaddr_attr (Stun_Sockaddr t l x sa) buf pos len hdr"
      using d by (auto simp: encode_one_def)
    show ?thesis
    proof (cases sa)
      case (Sock_Inet port ad)
      then show ?thesis using sa w len unfolding Stun_Sockaddr e attr_size_def
by (cases x) (simp_all add: PUTVAL16H_def wire_def tid wr_bytes_two)
    next
      case (Sock_Inet6 port f ad sc)
      then show ?thesis using sa w len unfolding Stun_Sockaddr e attr_size_def
by (cases x) (simp_all add: PUTVAL16H_def wire_def tid wr_bytes_two)
    qed (use sa in simp)
  next
    case (Stun_String t l v)
    then obtain n where d: "find_attr_desc t = Some (n, String_Codec)" and v: "length v < 2 ^ 16 - 4"
      using ok by (auto simp: attr_ok_def struct_of_codec_def split: option.splits if_splits)
    have "pad4 (length v) < 2 ^ 16" using v pad4_bounds[of "length v"] unfolding pad4_def by presburger
    then show ?thesis using w len v d pad4_bounds[of "length v"] unfolding Stun_String
      by (simp add: encode_one_def attr_size_def wire_def wr_bytes_ok Let_def text_padding_eq counts_padding_def pad4_bounds(3))
  next
    case (Stun_Binary t l magic d)
    then have "encode_one p hdr a buf pos len = encode_binary_attr (Stun_Binary t l magic d) buf pos len" and v: "length d < 2 ^ 16"
      using ok by (auto simp: attr_ok_def encode_one_def struct_of_codec_def split: option.splits if_splits)
    moreover have "pad4 (length d) < 2 ^ 32 - 4" using v pad4_bounds[of "length d"] by simp
    ultimately show ?thesis using w len pad4_bounds[of "length d"] unfolding Stun_Binary
      by (simp add: attr_size_def wire_def wr_bytes_ok)
  next
    case (Stun_Errcode t l code reason)
    then obtain n where d: "find_attr_desc t = Some (n, Errcode_Codec)" and v: "length reason < 2 ^ 16 - 4"
      using ok by (auto simp: attr_ok_def struct_of_codec_def split: option.splits if_splits)
    then show ?thesis using w len pad4_bounds[of "length reason"] unfolding Stun_Errcode
      by (simp add: encode_one_def attr_size_def wire_def wr_bytes_ok Let_def)
  next
    case (Stun_Unknown t l ts)
    then show ?thesis using ok w len pad4_bounds(1)[of "length ts * 2"]
      by (auto simp: encode_one_def attr_size_def attr_ok_def struct_of_codec_def wire_def wr_bytes_ok Let_def split: option.splits if_splits)
  qed (use ok w len in \<open>auto simp: encode_one_def attr_size_def attr_ok_def struct_of_codec_def wire_def wr_bytes_ok Let_def split: option.splits if_splits\<close>)
qed

lemma GETVAL_cons [simp]:
  "GETVAL16H (a # b # r) 2 = GETVAL16H r 0" "rd8 (a # b # r) (Suc 0) = Some b" "rd_bytes (a # b # r) 2 k = rd_bytes r 0 k"
  by (simp_all add: GETVAL16H_def rd8_def nth_Cons' rd_bytes_def numeral_2_eq_2)

lemma decode_sockaddr_wire:
  assumes "addr_ok sa"
  shows "decode_sockaddr_attr (be16 t @ be16 (attr_length (received p hdr (Stun_Sockaddr t l x sa))) @ wire_addr sa @ r) hdr =
     Some (Inr (received p hdr (Stun_Sockaddr t l False sa)))"
  using assms
  by (cases sa) (simp_all add: decode_sockaddr_attr_def GETVAL_skip rd_bytes_def)

lemma xor_sockaddr_twice: "addr_ok sa \<Longrightarrow> length (sm_tsx_id hdr) = 12 \<Longrightarrow> xor_sockaddr hdr (xor_sockaddr hdr sa) = sa"
  by (cases sa) (simp_all add: xor_bytes_twice xor.assoc)

lemma get_unknowns_be16: "get_unknowns (xs @ concat (map be16 ts) @ r) (length xs) (length ts) = Some ts"
proof (induction ts arbitrary: xs)
  case (Cons t ts)
  from this[of "xs @ be16 t"] show ?case by (simp add: GETVAL_skip)
qed simp

lemma unat_small: "n < 2 ^ 16 \<Longrightarrow> unat (word_of_nat n :: u16) = n"
  by (simp add: unat_of_nat take_bit_nat_eq_self)

lemma decode_attr_wire:
  assumes d: "find_attr_desc (attr_type a) = Some (n, c)" and ok: "attr_ok a" and tid: "length (sm_tsx_id hdr) = 12"
  shows "decode_attr c (wire p hdr a @ r) hdr = Some (Inr (received p hdr a))"
proof -
  have s: "attr_struct a = struct_of_codec c" and f: "fields_ok c a" using ok d by (auto simp: attr_ok_def)
  show ?thesis
  proof (cases a)
    case (Stun_Sockaddr t l x sa)
    have sa: "addr_ok sa" and c: "c = (if x then Xored_Sockaddr_Codec else Sockaddr_Codec)"
      using s f unfolding Stun_Sockaddr by (auto simp: struct_of_codec_def split: if_splits)
    show ?thesis
    proof (cases x)
      case True
      have "addr_ok (xor_sockaddr hdr sa)" using sa tid by (cases sa) simp_all
      moreover have "attr_length (received p hdr a) = attr_length (received p hdr (Stun_Sockaddr t l x (xor_sockaddr hdr sa)))"
        unfolding Stun_Sockaddr by (cases sa) simp_all
      ultimately have "decode_sockaddr_attr (wire p hdr a @ r) hdr = Some (Inr (received p hdr (Stun_Sockaddr t l False (xor_sockaddr hdr sa))))"
        using decode_sockaddr_wire[of "xor_sockaddr hdr sa" t p hdr l x r] True unfolding wire_def by (simp add: Stun_Sockaddr)
      then show ?thesis using sa c True xor_sockaddr_twice[OF sa tid]
        by (cases sa) (auto simp: Stun_Sockaddr decode_xored_sockaddr_attr_def)
    next
      case False
      then show ?thesis using decode_sockaddr_wire[OF sa, of t p hdr l x r] c by (simp add: Stun_Sockaddr wire_def)
    qed
  next
    case (Stun_String t l v)
    then have "c = String_Codec" "length v < 2 ^ 16 - 4" using s f by (auto simp: struct_of_codec_def split: if_splits)
    moreover have "pad4 (length v) < 2 ^ 16" using calculation(2) unfolding pad4_def by presburger
    moreover have "length (v @ text_padding p v) = pad4 (length v)" using pad4_bounds[of "length v"] by simp
    ultimately show ?thesis using rd_prefix(1)[of v "text_padding p v @ r"] rd_prefix(1)[of "v @ text_padding p v" r]
      by (simp add: Stun_String wire_def decode_string_attr_def unat_small GETVAL_skip)
  next
    case (Stun_Errcode t l code reason)
    then have c: "c = Errcode_Codec" "length reason < 2 ^ 16 - 4" "0 \<le> code" "code < 25600"
      using s f by (auto simp: struct_of_codec_def split: if_splits)
    have "4 + word_of_nat (length reason) = (word_of_nat (4 + length reason) :: u16)" by simp
    then have l: "unat (4 + word_of_nat (length reason) :: u16) = 4 + length reason" using unat_small[of "4 + length reason"] c(2) by simp
    then have "\<not> 4 + word_of_nat (length reason) < (4 :: u16)" by (simp add: word_less_nat_alt)
    moreover have "int (unat (word_of_int (c_div code 100) :: u8)) * 100 + int (unat (word_of_int (c_mod code 100) :: u8)) = code"
      using c by (simp add: c_div_nonneg c_mod_nonneg unsigned_of_int take_bit_int_eq_self of_nat_unat pos_imp_zdiv_nonneg_iff)
    ultimately show ?thesis using c l
      by (simp add: Stun_Errcode wire_def decode_errcode_attr_def GETVAL_skip)
  next
    case (Stun_Unknown t l ts)
    then have c: "c = Unknown_Codec" "length ts \<le> 16"
      using s f by (auto simp: struct_of_codec_def PJ_STUN_MAX_ATTR_def split: if_splits)
    have "get_unknowns (wire p hdr a @ r) 4 (length ts) = Some ts"
      using get_unknowns_be16[of "be16 t @ be16 (word_of_nat (length ts * 2))" ts r] by (simp add: Stun_Unknown wire_def)
    then show ?thesis using c unat_small[of "length ts * 2"]
      by (simp add: Stun_Unknown wire_def decode_unknown_attr_def PJ_STUN_MAX_ATTR_def)
  next
    case (Stun_Binary t l magic v)
    then have "c = Binary_Codec" "length v < 2 ^ 16" using s f by (auto simp: struct_of_codec_def split: if_splits)
    then show ?thesis using d by (simp add: Stun_Binary wire_def decode_binary_attr_def unat_small GETVAL_skip)
  next
    case (Stun_Msgint t l h)
    then have "c = Msgint_Codec" "l = 20" "length h = 20" using s f by (auto simp: struct_of_codec_def split: if_splits)
    then show ?thesis using rd_prefix(1)[of h r] by (simp add: Stun_Msgint wire_def decode_msgint_attr_def GETVAL_skip)
  next
    case (Stun_Uint t l v)
    then show ?thesis using s by (auto simp: wire_def decode_uint_attr_def GETVAL_skip struct_of_codec_def split: if_splits)
  next
    case (Stun_Uint64 t l hi lo)
    then show ?thesis using s by (auto simp: wire_def decode_uint64_attr_def GETVAL64H_def GETVAL_skip struct_of_codec_def split: if_splits)
  next
    case (Stun_Empty t l)
    then show ?thesis using s by (auto simp: wire_def decode_empty_attr_def struct_of_codec_def split: if_splits)
  qed
qed

section \<open>The attributes of a message\<close>

text \<open>The bytes \<open>bs\<close> hold the attributes one after the other. Padding that is not written can be anything.\<close>

fun laid_out :: "u8 \<Rightarrow> pj_stun_msg_hdr \<Rightarrow> pj_stun_attr list \<Rightarrow> u8 list \<Rightarrow> bool" where
  "laid_out p hdr [] bs \<longleftrightarrow> bs = []"
| "laid_out p hdr (a # as) bs \<longleftrightarrow> take (length (wire p hdr a)) bs = wire p hdr a \<and> attr_size p hdr a \<le> length bs \<and>
     laid_out p hdr as (drop (attr_size p hdr a) bs)"

definition body_size :: "u8 \<Rightarrow> pj_stun_msg_hdr \<Rightarrow> pj_stun_attr list \<Rightarrow> nat" where
  "body_size p hdr as = sum_list (map (attr_size p hdr) as)"

lemma body_size_simps [simp]: "body_size p hdr [] = 0" "body_size p hdr (a # as) = attr_size p hdr a + body_size p hdr as"
  by (simp_all add: body_size_def)

definition body_attr :: "pj_stun_attr \<Rightarrow> bool" where
  "body_attr a \<longleftrightarrow> attr_ok a \<and> attr_type a \<noteq> PJ_STUN_ATTR_MESSAGE_INTEGRITY \<and> attr_type a \<noteq> PJ_STUN_ATTR_FINGERPRINT"

lemma room_minus: "n \<le> room \<Longrightarrow> room < 2 ^ 32 \<Longrightarrow> (room + (2 ^ 64 - n)) mod 2 ^ 64 = (room :: nat) - n"
proof -
  assume n: "n \<le> room" "room < 2 ^ 32"
  have "room + (2 ^ 64 - n) = (room - n) + 2 ^ 64" using n by simp
  then show ?thesis using n by (simp only: mod_add_self2) simp
qed

lemma memcpy_at_parts:
  assumes "pos + n \<le> length buf" "length bs \<le> n"
  shows "take (pos + n) (memcpy_at buf pos bs) = take pos buf @ bs @ take (n - length bs) (drop (pos + length bs) buf)"
    "drop (pos + n) (memcpy_at buf pos bs) = drop (pos + n) buf"
  using assms by (simp_all add: memcpy_at_def ac_simps)

lemma encode_loop_body:
  assumes "list_all body_attr as" "length (sm_tsx_id hdr) = 12" "body_size p hdr as \<le> room" "room < 2 ^ 32" "pos + body_size p hdr as \<le> length buf"
  shows "\<exists>bs. encode_loop p hdr (as @ tail) i buf pos room =
      encode_loop p hdr tail (i + length as) (take pos buf @ bs @ drop (pos + body_size p hdr as) buf) (pos + body_size p hdr as) (room - body_size p hdr as) \<and>
      laid_out p hdr as bs \<and> length bs = body_size p hdr as"
  using assms
proof (induction as arbitrary: i buf pos room)
  case (Cons a as)
  let ?w = "wire p hdr a" and ?n = "attr_size p hdr a" and ?m = "body_size p hdr as"
  let ?b = "memcpy_at buf pos ?w"
  have w: "length ?w \<le> ?n" by (rule wire_attr_size)
  have e: "encode_one p hdr a buf pos room = Some (PJ_SUCCESS, ?b, ?n)"
    using Cons.prems by (intro encode_one_ok) (auto simp: body_attr_def)
  have lb: "length ?b = length buf" using Cons.prems w by (intro length_memcpy_at) simp
  have rm: "?m \<le> room - ?n" "room - ?n < 2 ^ 32" "pos + ?n + ?m \<le> length ?b" using Cons.prems lb by simp_all
  obtain bs where bs: "encode_loop p hdr (as @ tail) (Suc i) ?b (pos + ?n) (room - ?n) =
      encode_loop p hdr tail (Suc i + length as) (take (pos + ?n) ?b @ bs @ drop (pos + ?n + ?m) ?b) (pos + ?n + ?m) (room - ?n - ?m)"
      "laid_out p hdr as bs" "length bs = ?m"
    using Cons.IH[OF _ _ rm, where i = "Suc i"] Cons.prems by auto
  let ?g = "take (?n - length ?w) (drop (pos + length ?w) buf)"
  have len: "length ?w + length ?g = ?n" using Cons.prems w by simp
  have "drop (pos + ?n + ?m) ?b = drop (pos + (?n + ?m)) buf"
    using memcpy_at_parts(2)[of pos "?n + ?m" buf ?w] Cons.prems w by (simp add: add.assoc)
  then have "encode_loop p hdr ((a # as) @ tail) i buf pos room =
      encode_loop p hdr tail (i + length (a # as)) (take pos buf @ (?w @ ?g @ bs) @ drop (pos + (?n + ?m)) buf) (pos + (?n + ?m)) (room - (?n + ?m))"
    using bs(1) e Cons.prems memcpy_at_parts(1)[of pos ?n buf ?w] w room_minus[of ?n room]
    by (auto simp: body_attr_def add.assoc)
  moreover have "laid_out p hdr (a # as) (?w @ ?g @ bs)" using bs(2) len by simp
  moreover have "length (?w @ ?g @ bs) = body_size p hdr (a # as)" using bs(3) len by simp
  ultimately show ?case unfolding body_size_simps by (intro exI conjI)
qed simp

lemma unat_small_fields:
  "n < 2 ^ 16 - 4 \<Longrightarrow> unat (4 + word_of_nat n :: u16) = 4 + n" "n \<le> PJ_STUN_MAX_ATTR \<Longrightarrow> unat (word_of_nat n * 2 :: u16) = n * 2"
  using unat_small[of "4 + n"] unat_small[of "n * 2"] by (simp_all add: PJ_STUN_MAX_ATTR_def)

lemma pad4_small: "n < 65532 \<Longrightarrow> pad4 n < 65536"
  unfolding pad4_def by presburger

lemma length_with_padding: "length v + length (text_padding p v) = pad4 (length v)"
  using pad4_bounds[of "length v"] by simp

lemma wire_length_field: "attr_ok a \<Longrightarrow> length (sm_tsx_id hdr) = 12 \<Longrightarrow> pad4 (unat (attr_length (received p hdr a))) + 4 = attr_size p hdr a"
proof (cases a)
  case (Stun_Sockaddr t l x sa)
  assume "attr_ok a" "length (sm_tsx_id hdr) = 12"
  then show ?thesis unfolding Stun_Sockaddr 
    by (cases sa) (auto simp: attr_ok_def attr_size_def length_wire struct_of_codec_def split: option.splits if_splits)
qed (auto simp: attr_ok_def attr_size_def length_wire struct_of_codec_def unat_small unat_small_fields pad4_small pad4_bounds(3) length_with_padding
    simp del: length_text_padding split: option.splits if_splits)

lemmas stun_attr_types = PJ_STUN_ATTR_MESSAGE_INTEGRITY_def PJ_STUN_ATTR_FINGERPRINT_def PJ_STUN_ATTR_SOFTWARE_def
  PJ_STUN_ATTR_END_MANDATORY_ATTR_def PJ_STUN_ATTR_START_EXTENDED_ATTR_def PJ_STUN_ATTR_END_EXTENDED_ATTR_def

lemma desc_msgint: "find_attr_desc PJ_STUN_ATTR_MESSAGE_INTEGRITY = Some (''MESSAGE-INTEGRITY'', Msgint_Codec)"
  by (simp add: find_attr_desc_def stun_attr_types mandatory_attr_desc_def)

lemma desc_fingerprint: "find_attr_desc PJ_STUN_ATTR_FINGERPRINT = Some (''FINGERPRINT'', Uint_Codec)"
  by (simp add: find_attr_desc_def stun_attr_types extended_attr_desc_def)

lemma decode_step:
  assumes ok: "attr_ok a" and tid: "length (sm_tsx_id hdr) = 12"
    and bs: "take (length (wire p hdr a)) bs = wire p hdr a" "attr_size p hdr a \<le> length bs"
    and o: "check_order (attr_type a) (dc_has_msg_int s) (dc_has_fingerprint s) = Inr (mi, fp)"
    and n: "length (dc_attrs s) < PJ_STUN_MAX_ATTR"
  shows "decode_attrs strerror want hdr bs (attr_size p hdr a + n) s =
    decode_attrs strerror want hdr (drop (attr_size p hdr a) bs) n
      (s\<lparr>dc_attrs := dc_attrs s @ [received p hdr a], dc_has_msg_int := mi, dc_has_fingerprint := fp\<rparr>)"
proof -
  obtain r where r: "bs = wire p hdr a @ r" using bs(1) by (metis append_take_drop_id)
  have t: "GETVAL16H bs 0 = Some (attr_type a)" "GETVAL16H bs 2 = Some (attr_length (received p hdr a))" unfolding r wire_def by simp_all
  have l: "pad4 (unat (attr_length (received p hdr a))) + 4 = attr_size p hdr a" by (rule wire_length_field[OF ok tid])
  have "decode_one strerror want hdr bs s =
      Some (Inr (s\<lparr>dc_attrs := dc_attrs s @ [received p hdr a], dc_has_msg_int := mi, dc_has_fingerprint := fp\<rparr>))"
  proof (cases "find_attr_desc (attr_type a)")
    case None
    then obtain ty ln d where a: "a = Stun_Binary ty ln PJ_STUN_MAGIC d" and ty: "0x7FFF < ty" and d: "length d < 2 ^ 16"
      using ok by (auto simp: attr_ok_def split: pj_stun_attr.splits)
    have "check_order ty (dc_has_msg_int s) (dc_has_fingerprint s) = Inr (dc_has_msg_int s, dc_has_fingerprint s)"
      using None o desc_msgint desc_fingerprint unfolding a by (auto simp: check_order_def split: if_splits)
    moreover have "pj_stun_binary_attr_init ty (Some (drop 4 bs)) (length d) = Some (Inr (received p hdr a))"
      using None ty rd_prefix(1)[of d r] by (auto simp: pj_stun_binary_attr_init_def r a wire_def)
    moreover have "\<not> ty \<le> 0x7FFF" using ty by simp
    ultimately show ?thesis using None t n d o by (auto simp: decode_one_def a unat_small)
  next
    case (Some nc)
    then obtain nm c where nc: "find_attr_desc (attr_type a) = Some (nm, c)" by (cases nc) auto
    then show ?thesis using decode_attr_wire[OF nc ok tid, of p r] t o n by (simp add: decode_one_def r)
  qed
  then show ?thesis using t l by (subst decode_attrs.simps) (simp add: Let_def)
qed

lemma decode_body:
  assumes "laid_out p hdr as bs" "list_all body_attr as" "length (sm_tsx_id hdr) = 12" "length (dc_attrs s) + length as \<le> PJ_STUN_MAX_ATTR"
    "\<not> dc_has_fingerprint s"
  shows "decode_attrs strerror want hdr (bs @ r) (length bs + n) s =
    decode_attrs strerror want hdr r n (s\<lparr>dc_attrs := dc_attrs s @ map (received p hdr) as\<rparr>)"
  using assms
proof (induction as arbitrary: bs s)
  case (Cons a as)
  let ?m = "attr_size p hdr a" and ?s = "s\<lparr>dc_attrs := dc_attrs s @ [received p hdr a]\<rparr>"
  have sz: "?m \<le> length bs" "length (wire p hdr a) \<le> length bs"
    and tk: "take (length (wire p hdr a)) (bs @ r) = wire p hdr a" using Cons.prems wire_attr_size(1)[of p hdr a] by simp_all
  have o: "check_order (attr_type a) (dc_has_msg_int s) (dc_has_fingerprint s) = Inr (dc_has_msg_int s, dc_has_fingerprint s)"
    using Cons.prems by (simp add: check_order_def body_attr_def)
  have eq: "s\<lparr>dc_attrs := dc_attrs s @ [received p hdr a], dc_has_msg_int := dc_has_msg_int s, dc_has_fingerprint := dc_has_fingerprint s\<rparr> = ?s"
    by simp
  have "decode_attrs strerror want hdr (bs @ r) (?m + (length bs - ?m + n)) s =
      decode_attrs strerror want hdr (drop ?m (bs @ r)) (length bs - ?m + n) ?s"
    using decode_step[OF _ _ tk _ o, where n = "length bs - ?m + n" and strerror = strerror and want = want] Cons.prems sz
    unfolding eq by (simp add: body_attr_def)
  moreover have "decode_attrs strerror want hdr (drop ?m bs @ r) (length (drop ?m bs) + n) ?s =
      decode_attrs strerror want hdr r n (?s\<lparr>dc_attrs := dc_attrs ?s @ map (received p hdr) as\<rparr>)"
    using Cons.prems by (intro Cons.IH) auto
  ultimately show ?case using sz by simp
qed simp

lemma decode_attrs_end: "decode_attrs strerror want hdr [] 0 s = Some (Inr (s, 0))"
  by (simp add: decode_attrs.simps)

section \<open>Messages\<close>

definition stun_header :: "pj_stun_msg_hdr \<Rightarrow> nat \<Rightarrow> u8 list" where
  "stun_header hdr l = be16 (sm_type hdr) @ be16 (word_of_nat l) @ be32 (sm_magic hdr) @ sm_tsx_id hdr"

lemma length_stun_header [simp]: "length (stun_header hdr l) = 8 + length (sm_tsx_id hdr)"
  by (simp add: stun_header_def)

lemma memcpy_at_append: "length xs = pos \<Longrightarrow> memcpy_at (xs @ ys) pos b = xs @ b @ drop (length b) ys"
  by (simp add: memcpy_at_def)

lemma stun_header_length:
  "GETVAL16H (stun_header hdr l @ r) 2 = Some (word_of_nat l)"
  "PUTVAL16H (stun_header hdr l @ r) 2 (word_of_nat l') = Some (stun_header hdr l' @ r)"
  using memcpy_at_append[of "be16 (sm_type hdr)" 2 "be16 (word_of_nat l) @ be32 (sm_magic hdr) @ sm_tsx_id hdr @ r"]
  by (simp_all add: stun_header_def PUTVAL16H_def wr_bytes_def)

lemma length_hmac_spec [simp]: "length (hmac_spec k m) = 20"
  by (simp add: hmac_spec_def)

definition env_ok :: "stun_env \<Rightarrow> bool" where
  "env_ok env \<longleftrightarrow> length (sha_buffer (se_sha env)) = 64 \<and> length (sha_buffer (hm_context (se_hmac env))) = 64"

text \<open>The values of the two closing attributes, as the standard defines them.\<close>

definition msgint_value :: "u8 list \<Rightarrow> u8 list \<Rightarrow> u8 list" where
  "msgint_value key pre = hmac_spec key pre"

definition fingerprint_value :: "u8 list \<Rightarrow> u32" where
  "fingerprint_value pre = crc_bit_calc pre XOR STUN_XOR_FINGERPRINT"

lemma hmac_of_env:
  "env_ok env \<Longrightarrow> length k < 2 ^ 29 \<Longrightarrow> length d < 2 ^ 29 \<Longrightarrow>
   pj_hmac_sha1_final (pj_hmac_sha1_update (pj_hmac_sha1_init (se_sha env) (se_hmac env) k) d) = msgint_value k d"
  using hmac_pieces[of "se_sha env" "se_hmac env" k "[d]"] by (simp add: env_ok_def msgint_value_def)

lemma msgint_position_ok: "0 < length as \<Longrightarrow> length as < 2 ^ 31 \<Longrightarrow> length as \<le> i \<Longrightarrow> i < 2 ^ 31 \<Longrightarrow> msgint_position as i fp = Some (PJ_SUCCESS, fp)"
proof -
  assume a: "0 < length as" "length as < 2 ^ 31" "length as \<le> i" "i < 2 ^ 31"
  have "u32_of_int (int (length as) - 2) = (if length as = 1 then 2 ^ 32 - 1 else length as - 2)"
  proof (cases "length as = 1")
    case False
    then have "2 \<le> length as" using a(1) by linarith
    then have "int (length as) - 2 = int (length as - 2)" by (simp add: of_nat_diff)
    moreover have "int (length as - 2) < 2 ^ 32" using a(2) by simp
    ultimately have "u32_of_int (int (length as) - 2) = length as - 2" by (metis u32_of_int_id nat_int of_nat_0_le_iff)
    then show ?thesis using False by simp
  qed (simp add: u32_of_int_def)
  moreover have "length as - 2 < i" using a(1,3) by linarith
  ultimately show ?thesis using a by (simp add: msgint_position_def Let_def)
qed

lemma encode_msgint_ok:
  assumes "env_ok env" "length k < 2 ^ 29" "length xs < 2 ^ 29" "length xs = pos" "24 \<le> length ys" "24 \<le> room" "room < 2 ^ 32"
    and "mi < length (sm_attr msg)" "sm_attr msg ! mi = Stun_Msgint t 20 h" "length (sm_attr msg) < 2 ^ 31" "length (sm_attr msg) \<le> i" "i < 2 ^ 31"
  shows "encode_msgint env (Some k) msg mi i fp (xs @ ys) pos room =
    Some (PJ_SUCCESS, msg\<lparr>sm_attr := (sm_attr msg)[mi := Stun_Msgint t 20 (msgint_value k xs)]\<rparr>, fp,
      xs @ (be16 t @ be16 20 @ msgint_value k xs) @ drop 24 ys, pos + 24, room - 24)"
proof -
  have "msgint_position (sm_attr msg) i fp = Some (PJ_SUCCESS, fp)" using assms(8,10-12) by (intro msgint_position_ok) auto
  moreover have "pj_hmac_sha1_final (pj_hmac_sha1_update (pj_hmac_sha1_init (se_sha env) (se_hmac env) k) (take pos (xs @ ys))) = msgint_value k xs"
    using hmac_of_env[of env k xs] assms(1-4) by simp
  moreover have "wr_bytes (xs @ ys) pos (be16 t @ be16 20 @ msgint_value k xs) = Some (xs @ (be16 t @ be16 20 @ msgint_value k xs) @ drop 24 ys)"
    using memcpy_at_append[of xs pos ys "be16 t @ be16 20 @ msgint_value k xs"] assms(4,5) by (simp add: wr_bytes_def msgint_value_def)
  moreover have "room mod 2 ^ 32 = room" using assms(7) by simp
  ultimately show ?thesis using assms(6,9) room_minus[OF assms(6,7)] by (simp add: encode_msgint_def Let_def)
qed

lemma encode_fingerprint_ok:
  assumes "length xs + 20 = pos" "8 \<le> length ys" "8 \<le> room" "room < 2 ^ 32" "length (sm_tsx_id hdr) = 12"
    and "fp < length (sm_attr msg)" "sm_attr msg ! fp = Stun_Uint t l v"
  shows "encode_fingerprint env msg fp (stun_header hdr n @ xs @ ys) pos room =
    (let v' = fingerprint_value (stun_header hdr (n + 8) @ xs)
     in Some (PJ_SUCCESS, msg\<lparr>sm_attr := (sm_attr msg)[fp := Stun_Uint t l v']\<rparr>,
          stun_header hdr (n + 8) @ xs @ (be16 t @ be16 4 @ be32 v') @ drop 8 ys, pos + 8))"
proof -
  have "take pos (stun_header hdr (n + 8) @ xs @ ys) = stun_header hdr (n + 8) @ xs" using assms by (auto simp: stun_header_def)
  moreover have "word_of_nat n + 8 = (word_of_nat (n + 8) :: u16)" by simp
  ultimately show ?thesis
    using assms stun_header_length[of hdr n "xs @ ys"]
      memcpy_at_append[of "stun_header hdr (n + 8) @ xs" pos ys]
    by (simp add: encode_fingerprint_def wr_bytes_def Let_def pj_crc32_calc_eq fingerprint_value_def del: of_nat_add)
qed

text \<open>A packet as the standard defines it, around the bytes \<open>bs\<close> of the attributes before the closing ones.\<close>

definition stun_pre :: "u8 list \<Rightarrow> pj_stun_msg_hdr \<Rightarrow> u8 list \<Rightarrow> bool \<Rightarrow> u8 list" where
  "stun_pre key hdr bs hm =
     bs @ (if hm then be16 PJ_STUN_ATTR_MESSAGE_INTEGRITY @ be16 20 @ msgint_value key (stun_header hdr (length bs + 24) @ bs) else [])"

definition stun_packet :: "u8 list \<Rightarrow> pj_stun_msg_hdr \<Rightarrow> u8 list \<Rightarrow> bool \<Rightarrow> bool \<Rightarrow> u8 list" where
  "stun_packet key hdr bs hm hf =
     (let pre = stun_pre key hdr bs hm; l = length pre
      in if hf then stun_header hdr (l + 8) @ pre @ be16 PJ_STUN_ATTR_FINGERPRINT @ be16 4 @ be32 (fingerprint_value (stun_header hdr (l + 8) @ pre))
         else stun_header hdr l @ pre)"

definition closing :: "bool \<Rightarrow> u8 list \<Rightarrow> bool \<Rightarrow> u16 \<Rightarrow> u32 \<Rightarrow> pj_stun_attr list" where
  "closing hm h hf l v =
     (if hm then [Stun_Msgint PJ_STUN_ATTR_MESSAGE_INTEGRITY 20 h] else []) @ (if hf then [Stun_Uint PJ_STUN_ATTR_FINGERPRINT l v] else [])"

definition closing_values :: "u8 list \<Rightarrow> pj_stun_msg_hdr \<Rightarrow> u8 list \<Rightarrow> bool \<Rightarrow> bool \<Rightarrow> u16 \<Rightarrow> pj_stun_attr list" where
  "closing_values key hdr bs hm hf l =
     closing hm (msgint_value key (stun_header hdr (length bs + 24) @ bs)) hf l
       (let pre = stun_pre key hdr bs hm in fingerprint_value (stun_header hdr (length pre + 8) @ pre))"

lemma length_msgint_value [simp]: "length (msgint_value k m) = 20"
  by (simp add: msgint_value_def)

lemma length_stun_pre: "length (stun_pre key hdr bs hm) = length bs + (if hm then 24 else 0)"
  by (simp add: stun_pre_def)

lemma length_stun_packet:
  "length (sm_tsx_id hdr) = 12 \<Longrightarrow> length (stun_packet key hdr bs hm hf) = 20 + length bs + (if hm then 24 else 0) + (if hf then 8 else 0)"
  by (simp add: stun_packet_def Let_def length_stun_pre)

lemma msgint_not_fingerprint [simp]: "PJ_STUN_ATTR_MESSAGE_INTEGRITY \<noteq> PJ_STUN_ATTR_FINGERPRINT" "PJ_STUN_ATTR_FINGERPRINT \<noteq> PJ_STUN_ATTR_MESSAGE_INTEGRITY"
  by (simp_all add: stun_attr_types)

lemma encode_loop_closing: "encode_loop p hdr (closing hm h hf l v) i buf pos room = Some (PJ_SUCCESS, buf, pos, room, i)"
  by (simp add: closing_def)

lemma encode_starts:
  assumes "list_all body_attr body" "sm_attr msg = body @ closing hm h hf l v" "length (sm_tsx_id (sm_hdr msg)) = 12"
    and "20 + body_size p (sm_hdr msg) body \<le> length buf" "length buf < 2 ^ 29"
  obtains bs where "laid_out p (sm_hdr msg) body bs" "length bs = body_size p (sm_hdr msg) body"
    "wr_bytes buf 0 (be16 (sm_type (sm_hdr msg)) @ be16 0 @ be32 (sm_magic (sm_hdr msg)) @ sm_tsx_id (sm_hdr msg)) =
       Some (stun_header (sm_hdr msg) 0 @ drop 20 buf)"
    "encode_loop p (sm_hdr msg) (sm_attr msg) 0 (stun_header (sm_hdr msg) 0 @ drop 20 buf) 20 (length buf - 20) =
       Some (PJ_SUCCESS, stun_header (sm_hdr msg) 0 @ bs @ drop (20 + length bs) buf, 20 + length bs, length buf - 20 - length bs, length body)"
proof -
  let ?hdr = "sm_hdr msg" let ?H = "stun_header (sm_hdr msg) 0" let ?m = "body_size p (sm_hdr msg) body"
  have l: "length ?H = 20" using assms(3) by simp
  have rm: "?m \<le> length buf - 20" "length buf - 20 < 2 ^ 32" "20 + ?m \<le> length (?H @ drop 20 buf)" using assms l by auto
  obtain bs where bs: "encode_loop p ?hdr (body @ closing hm h hf l v) 0 (?H @ drop 20 buf) 20 (length buf - 20) =
      encode_loop p ?hdr (closing hm h hf l v) (0 + length body) (take 20 (?H @ drop 20 buf) @ bs @ drop (20 + ?m) (?H @ drop 20 buf)) (20 + ?m) (length buf - 20 - ?m)"
      "laid_out p ?hdr body bs" "length bs = ?m"
    using encode_loop_body[OF assms(1,3) rm, of "closing hm h hf l v" 0] by auto
  have w: "wr_bytes buf 0 (be16 (sm_type ?hdr) @ be16 0 @ be32 (sm_magic ?hdr) @ sm_tsx_id ?hdr) = Some (?H @ drop 20 buf)"
    using assms by (simp add: wr_bytes_def memcpy_at_def stun_header_def)
  show ?thesis using bs assms l by (intro that[OF bs(2,3) w]) (simp add: encode_loop_closing add.commute)
qed

lemma stun_encode_packet:
  assumes body: "list_all body_attr body" and at: "sm_attr msg = body @ closing hm h hf l v" and hdr: "hdr = sm_hdr msg"
    and tid: "length (sm_tsx_id hdr) = 12"
    and env: "env_ok env" and n: "n = 20 + body_size (se_padding_char env) hdr body + (if hm then 24 else 0) + (if hf then 8 else 0)"
    and buf: "n \<le> length buf" "length buf < 2 ^ 29" and as: "length (sm_attr msg) < 2 ^ 30"
    and key: "hm \<Longrightarrow> key = Some k" "hm \<Longrightarrow> length k < 2 ^ 29"
  shows "\<exists>bs. laid_out (se_padding_char env) hdr body bs \<and> length bs = body_size (se_padding_char env) hdr body \<and>
    pj_stun_msg_encode env msg buf key =
      Some (PJ_SUCCESS, msg\<lparr>sm_hdr := hdr\<lparr>sm_length := word_of_nat (n - 20)\<rparr>, sm_attr := body @ closing_values k hdr bs hm hf l\<rparr>,
        stun_packet k hdr bs hm hf @ drop n buf, n)"
proof -
  obtain bs where bs: "laid_out (se_padding_char env) hdr body bs" "length bs = body_size (se_padding_char env) hdr body"
    and w: "wr_bytes buf 0 (be16 (sm_type hdr) @ be16 0 @ be32 (sm_magic hdr) @ sm_tsx_id hdr) = Some (stun_header hdr 0 @ drop 20 buf)"
    and lp: "encode_loop (se_padding_char env) hdr (sm_attr msg) 0 (stun_header hdr 0 @ drop 20 buf) 20 (length buf - 20) =
       Some (PJ_SUCCESS, stun_header hdr 0 @ bs @ drop (20 + length bs) buf, 20 + length bs, length buf - 20 - length bs, length body)"
    using encode_starts[OF body at, of "se_padding_char env" buf] tid n buf unfolding hdr by auto
  have n': "n = 20 + length bs + (if hm then 24 else 0) + (if hf then 8 else 0)" using n bs(2) by simp
  have big: "\<not> length buf = 0" "\<not> length buf < 20" using n' buf by auto
  have "pj_stun_msg_encode env msg buf key =
      Some (PJ_SUCCESS, msg\<lparr>sm_hdr := hdr\<lparr>sm_length := word_of_nat (n - 20)\<rparr>, sm_attr := body @ closing_values k hdr bs hm hf l\<rparr>,
        stun_packet k hdr bs hm hf @ drop n buf, n)"
  proof (cases hm; cases hf)
    assume "\<not> hm" "\<not> hf"
    then show ?thesis using w lp big n' at tid unfolding hdr
      by (simp add: pj_stun_msg_encode_def Let_def closing_def stun_header_length closing_values_def stun_packet_def stun_pre_def)
  next
    assume c: "\<not> hm" "hf"
    let ?R = "drop (20 + length bs) buf" and ?room = "length buf - 20 - length bs"
    have e: "encode_fingerprint env msg (length body) (stun_header hdr (length bs) @ bs @ ?R) (20 + length bs) ?room =
        (let v' = fingerprint_value (stun_header hdr (length bs + 8) @ bs)
         in Some (PJ_SUCCESS, msg\<lparr>sm_attr := (sm_attr msg)[length body := Stun_Uint PJ_STUN_ATTR_FINGERPRINT l v']\<rparr>,
              stun_header hdr (length bs + 8) @ bs @ (be16 PJ_STUN_ATTR_FINGERPRINT @ be16 4 @ be32 v') @ drop 8 ?R, 20 + length bs + 8))"
      using n' buf c at tid by (intro encode_fingerprint_ok) (auto simp: closing_def)
    show ?thesis using w lp big n' at tid c e unfolding hdr
      by (simp add: pj_stun_msg_encode_def Let_def closing_def stun_header_length closing_values_def stun_packet_def stun_pre_def)
  next
    assume c: "hm" "\<not> hf"
    let ?R = "drop (20 + length bs) buf" and ?room = "length buf - 20 - length bs"
    let ?H = "stun_header hdr (length bs + 24)"
    have e: "encode_msgint env (Some k) msg (length body) (Suc (length body)) None ((?H @ bs) @ ?R) (20 + length bs) ?room =
        Some (PJ_SUCCESS, msg\<lparr>sm_attr := (sm_attr msg)[length body := Stun_Msgint PJ_STUN_ATTR_MESSAGE_INTEGRITY 20 (msgint_value k (?H @ bs))]\<rparr>, None,
          (?H @ bs) @ (be16 PJ_STUN_ATTR_MESSAGE_INTEGRITY @ be16 20 @ msgint_value k (?H @ bs)) @ drop 24 ?R, 20 + length bs + 24, ?room - 24)"
      using n' buf c at tid env key as by (intro encode_msgint_ok) (auto simp: closing_def)
    show ?thesis using w lp big n' at tid c e key unfolding hdr
      by (simp add: pj_stun_msg_encode_def Let_def closing_def stun_header_length closing_values_def stun_packet_def stun_pre_def)
  next
    assume c: "hm" "hf"
    let ?R = "drop (20 + length bs) buf" and ?room = "length buf - 20 - length bs" and ?i = "Suc (length body)"
    let ?H = "stun_header hdr (length bs + 24)"
    define mi where "mi = be16 PJ_STUN_ATTR_MESSAGE_INTEGRITY @ be16 20 @ msgint_value k (?H @ bs)"
    define msg1 where "msg1 = msg\<lparr>sm_attr := (sm_attr msg)[length body := Stun_Msgint PJ_STUN_ATTR_MESSAGE_INTEGRITY 20 (msgint_value k (?H @ bs))]\<rparr>"
    have lm: "length mi = 24" by (simp add: mi_def)
    have e: "encode_msgint env (Some k) msg (length body) (Suc ?i) (Some ?i) ((?H @ bs) @ ?R) (20 + length bs) ?room =
        Some (PJ_SUCCESS, msg1, Some ?i, (?H @ bs) @ mi @ drop 24 ?R, 20 + length bs + 24, ?room - 24)"
      unfolding mi_def msg1_def using n' buf c at tid env key as by (intro encode_msgint_ok) (auto simp: closing_def)
    have f: "encode_fingerprint env msg1 ?i (?H @ (bs @ mi) @ drop 24 ?R) (20 + length bs + 24) (?room - 24) =
        (let v' = fingerprint_value (stun_header hdr (length bs + 24 + 8) @ bs @ mi)
         in Some (PJ_SUCCESS, msg1\<lparr>sm_attr := (sm_attr msg1)[?i := Stun_Uint PJ_STUN_ATTR_FINGERPRINT l v']\<rparr>,
              stun_header hdr (length bs + 24 + 8) @ (bs @ mi) @ (be16 PJ_STUN_ATTR_FINGERPRINT @ be16 4 @ be32 v') @ drop 8 (drop 24 ?R), 20 + length bs + 24 + 8))"
      using encode_fingerprint_ok[of "bs @ mi" "20 + length bs + 24" "drop 24 ?R" "?room - 24" hdr ?i msg1 PJ_STUN_ATTR_FINGERPRINT l v env "length bs + 24"]
        n' buf c at tid lm by (simp add: closing_def msg1_def nth_append)
    have at1: "sm_attr msg1 = body @ [Stun_Msgint PJ_STUN_ATTR_MESSAGE_INTEGRITY 20 (msgint_value k (?H @ bs)), Stun_Uint PJ_STUN_ATTR_FINGERPRINT l v]"
      "sm_hdr msg1 = hdr" using at c by (simp_all add: msg1_def closing_def hdr)
    have m1: "msg1\<lparr>sm_attr := X, sm_hdr := Y\<rparr> = msg\<lparr>sm_hdr := Y, sm_attr := X\<rparr>" for X Y by (simp add: msg1_def)
    have up: "(body @ [x, y])[Suc (length body) := z] = body @ [x, z]" for x y z :: pj_stun_attr by (simp add: list_update_append)
    show ?thesis using w lp big n' at at1 tid c e f key lm unfolding hdr
      by (simp add: pj_stun_msg_encode_def Let_def closing_def stun_header_length closing_values_def stun_packet_def stun_pre_def
          m1 up mi_def[unfolded hdr, symmetric])
  qed
  then show ?thesis using bs by auto
qed

section \<open>Reading a packet\<close>

lemma codec_length_irrelevant [simp]:
  "xor_sockaddr (hdr\<lparr>sm_length := x\<rparr>) sa = xor_sockaddr hdr sa"
  "received p (hdr\<lparr>sm_length := x\<rparr>) a = received p hdr a"
  "wire p (hdr\<lparr>sm_length := x\<rparr>) a = wire p hdr a"
  "attr_size p (hdr\<lparr>sm_length := x\<rparr>) a = attr_size p hdr a"
proof -
  show "xor_sockaddr (hdr\<lparr>sm_length := x\<rparr>) sa = xor_sockaddr hdr sa" for sa by (cases sa) simp_all
  then show "wire p (hdr\<lparr>sm_length := x\<rparr>) a = wire p hdr a" "received p (hdr\<lparr>sm_length := x\<rparr>) a = received p hdr a" 
    "attr_size p (hdr\<lparr>sm_length := x\<rparr>) a = attr_size p hdr a"
  proof -
    show r: "received p (hdr\<lparr>sm_length := x\<rparr>) a = received p hdr a"
    proof (cases a)
      case (Stun_Sockaddr t l y sa)
      then show ?thesis by (cases sa) simp_all
    qed (simp_all add: counts_padding_def)
    have "wire_value p (hdr\<lparr>sm_length := x\<rparr>) a = wire_value p hdr a"
      using \<open>\<And>sa. xor_sockaddr (hdr\<lparr>sm_length := x\<rparr>) sa = xor_sockaddr hdr sa\<close> by (cases a) simp_all
    then show "wire p (hdr\<lparr>sm_length := x\<rparr>) a = wire p hdr a" "attr_size p (hdr\<lparr>sm_length := x\<rparr>) a = attr_size p hdr a"
      using r by (simp_all add: wire_def attr_size_def)
  qed
qed

lemma received_length_irrelevant [simp]: "received p (hdr\<lparr>sm_length := x\<rparr>) = received p hdr"
  by (rule ext) simp

lemma laid_out_length_irrelevant [simp]: "laid_out p (hdr\<lparr>sm_length := x\<rparr>) as bs = laid_out p hdr as bs"
  by (induction as arbitrary: bs) simp_all

lemma laid_out_mod_4: "laid_out p hdr as bs \<Longrightarrow> length bs mod 4 = 0"
proof (induction as arbitrary: bs)
  case (Cons a as)
  from Cons.prems have d: "length (drop (attr_size p hdr a) bs) mod 4 = 0" "attr_size p hdr a \<le> length bs"
    using Cons.IH[of "drop (attr_size p hdr a) bs"] by (simp_all del: length_drop)
  have "length bs = attr_size p hdr a + length (drop (attr_size p hdr a) bs)" using d(2) by simp
  moreover have "(m + n) mod 4 = 0" if "m mod 4 = 0" "n mod 4 = 0" for m n :: nat using that by presburger
  ultimately show ?case using wire_attr_size(3)[of p hdr a] d(1) by metis
qed simp

lemma type_byte: "(t :: u16) < 0x200 \<Longrightarrow> byte16 1 t = 0 \<or> byte16 1 t = 1"
proof -
  assume "t < 0x200"
  then have "unat t < 512" by (simp add: word_less_nat_alt)
  moreover have "unat (drop_bit 8 t) = unat t div 256" by (simp only: unat_drop_bit_eq) (simp add: drop_bit_eq_div)
  ultimately have "unat (drop_bit 8 t) < 2" by simp
  then have "unat (byte16 1 t) < 2" by (simp add: byte16_def unsigned_ucast_eq take_bit_nat_eq_self)
  then have "unat (byte16 1 t) = unat (0 :: u8) \<or> unat (byte16 1 t) = unat (1 :: u8)" by auto
  then show ?thesis by (simp only: word_unat_eq_iff)
qed

lemma stun_header_fields:
  assumes "length (sm_tsx_id hdr) = 12"
  shows "GETVAL16H (stun_header hdr l @ r) 0 = Some (sm_type hdr)" "GETVAL32H (stun_header hdr l @ r) 4 = Some (sm_magic hdr)"
    "rd_bytes (stun_header hdr l @ r) 8 12 = Some (sm_tsx_id hdr)" "drop 20 (stun_header hdr l @ r) = r"
    "rd8 (stun_header hdr l @ r) 0 = Some (byte16 1 (sm_type hdr))"
proof -
  show "GETVAL16H (stun_header hdr l @ r) 0 = Some (sm_type hdr)" "GETVAL32H (stun_header hdr l @ r) 4 = Some (sm_magic hdr)"
    "drop 20 (stun_header hdr l @ r) = r"
    using assms by (simp_all add: stun_header_def GETVAL_skip)
  show "rd_bytes (stun_header hdr l @ r) 8 12 = Some (sm_tsx_id hdr)" using assms rd_prefix(1)[of "sm_tsx_id hdr" r] by (simp add: stun_header_def GETVAL_skip)
  show "rd8 (stun_header hdr l @ r) 0 = Some (byte16 1 (sm_type hdr))" by (simp add: stun_header_def be16_def)
qed

lemma stun_packet_eq:
  "\<exists>r. stun_packet k hdr bs hm hf = stun_header hdr (length bs + (if hm then 24 else 0) + (if hf then 8 else 0)) @ r"
  by (auto simp: stun_packet_def Let_def length_stun_pre)

lemma stun_packet_checked:
  assumes t: "sm_type hdr < 0x200" and tid: "length (sm_tsx_id hdr) = 12" and l4: "length bs mod 4 = 0"
    and l: "length bs + (if hm then 24 else 0) + (if hf then 8 else 0) < 2 ^ 16"
    and c: "hf \<or> sm_magic hdr \<noteq> PJ_STUN_MAGIC \<or> PJ_STUN_NO_FINGERPRINT_CHECK opts"
  shows "pj_stun_msg_check addr (stun_packet k hdr bs hm hf) opts = Some PJ_SUCCESS"
proof -
  let ?p = "stun_packet k hdr bs hm hf" and ?l = "length bs + (if hm then 24 else 0) + (if hf then 8 else 0)"
  obtain r where r: "?p = stun_header hdr ?l @ r" using stun_packet_eq by blast
  have len: "length ?p = 20 + ?l" using length_stun_packet[OF tid] by simp
  have f: "rd8 ?p 0 = Some (byte16 1 (sm_type hdr))" "GETVAL16H ?p 2 = Some (word_of_nat ?l)" "GETVAL32H ?p 4 = Some (sm_magic hdr)"
    unfolding r using stun_header_fields[OF tid] stun_header_length by simp_all
  have u: "unat (word_of_nat ?l :: u16) = ?l" using l by (rule unat_small)
  have m4: "?l mod 4 = 0" using l4 by (auto simp: mod_add_left_eq[symmetric]; presburger)
  show ?thesis
  proof (cases hf)
    case True
    let ?pre = "stun_pre k hdr bs hm"
    have lp: "length ?pre = ?l - 8" using True by (simp add: length_stun_pre)
    let ?pos = "?l + 20 - 8" and ?H = "stun_header hdr (length ?pre + 8)"
    have p: "?p = (?H @ ?pre) @ be16 PJ_STUN_ATTR_FINGERPRINT @ be16 4 @ be32 (fingerprint_value (?H @ ?pre))"
      using True by (simp add: stun_packet_def Let_def)
    have lh: "length (?H @ ?pre) = ?pos" using lp tid True by simp
    have g: "GETVAL16H ?p ?pos = Some PJ_STUN_ATTR_FINGERPRINT" "GETVAL16H ?p (?pos + 2) = Some 4"
      "GETVAL32H ?p (?pos + 4) = Some (fingerprint_value (?H @ ?pre))" "take ?pos ?p = ?H @ ?pre"
      unfolding p using lh rd_prefix(2)[of _ "[]"] by (simp_all add: GETVAL_skip)
    show ?thesis using f u m4 len type_byte[OF t] g fingerprint_value_def[of "?H @ ?pre"] unfolding pj_stun_msg_check_def
      by (auto simp: Let_def pj_crc32_calc_eq)
  next
    case False
    then show ?thesis using f u m4 len type_byte[OF t] c unfolding pj_stun_msg_check_def by (auto simp: Let_def)
  qed
qed

lemma decode_closing_msgint:
  assumes "length h = 20" "length (sm_tsx_id hdr) = 12" "length (dc_attrs s) < PJ_STUN_MAX_ATTR" "\<not> dc_has_msg_int s" "\<not> dc_has_fingerprint s"
  shows "decode_attrs strerror want hdr (be16 PJ_STUN_ATTR_MESSAGE_INTEGRITY @ be16 20 @ h @ r) (24 + n) s =
    decode_attrs strerror want hdr r n
      (s\<lparr>dc_attrs := dc_attrs s @ [Stun_Msgint PJ_STUN_ATTR_MESSAGE_INTEGRITY 20 h], dc_has_msg_int := True, dc_has_fingerprint := False\<rparr>)"
proof -
  let ?a = "Stun_Msgint PJ_STUN_ATTR_MESSAGE_INTEGRITY 20 h"
  have "attr_ok ?a" using assms by (simp add: attr_ok_def desc_msgint struct_of_codec_def)
  moreover have w: "wire p hdr ?a = be16 PJ_STUN_ATTR_MESSAGE_INTEGRITY @ be16 20 @ h" for p by (simp add: wire_def)
  moreover have "attr_size p hdr ?a = 24" for p unfolding attr_size_def w using assms by simp
  moreover have "check_order (attr_type ?a) (dc_has_msg_int s) (dc_has_fingerprint s) = Inr (True, False)"
    using assms by (simp add: check_order_def)
  ultimately show ?thesis using decode_step[of ?a hdr 0 "be16 PJ_STUN_ATTR_MESSAGE_INTEGRITY @ be16 20 @ h @ r" s True False strerror want n] assms
    by simp
qed

lemma decode_closing_fingerprint:
  assumes "length (sm_tsx_id hdr) = 12" "length (dc_attrs s) < PJ_STUN_MAX_ATTR" "\<not> dc_has_fingerprint s"
  shows "decode_attrs strerror want hdr (be16 PJ_STUN_ATTR_FINGERPRINT @ be16 4 @ be32 v @ r) (8 + n) s =
    decode_attrs strerror want hdr r n
      (s\<lparr>dc_attrs := dc_attrs s @ [Stun_Uint PJ_STUN_ATTR_FINGERPRINT 4 v], dc_has_msg_int := dc_has_msg_int s, dc_has_fingerprint := True\<rparr>)"
proof -
  let ?a = "Stun_Uint PJ_STUN_ATTR_FINGERPRINT 4 v"
  have "attr_ok ?a" using assms by (simp add: attr_ok_def desc_fingerprint struct_of_codec_def)
  moreover have w: "wire p hdr ?a = be16 PJ_STUN_ATTR_FINGERPRINT @ be16 4 @ be32 v" for p by (simp add: wire_def)
  moreover have "attr_size p hdr ?a = 8" for p unfolding attr_size_def w by simp
  moreover have "check_order (attr_type ?a) (dc_has_msg_int s) (dc_has_fingerprint s) = Inr (dc_has_msg_int s, True)"
    using assms by (simp add: check_order_def)
  ultimately show ?thesis using decode_step[of ?a hdr 0 "be16 PJ_STUN_ATTR_FINGERPRINT @ be16 4 @ be32 v @ r" s "dc_has_msg_int s" True strerror want n] assms
    by simp
qed

lemma stun_decode_of_attrs:
  assumes p: "pkt = stun_header hdr n @ r" "length r = n" "n < 2 ^ 16" and tid: "length (sm_tsx_id hdr) = 12"
    and chk: "PJ_STUN_CHECK_PACKET opts \<Longrightarrow> pj_stun_msg_check addr pkt opts = Some PJ_SUCCESS"
    and d: "decode_attrs strerror (want \<and> PJ_STUN_IS_REQUEST (sm_type hdr)) (hdr\<lparr>sm_length := word_of_nat n\<rparr>) r n
      \<lparr>dc_attrs = [], dc_has_msg_int = False, dc_has_fingerprint = False\<rparr> = Some (Inr (s, 0))"
  shows "pj_stun_msg_decode strerror addr pkt opts want =
    Some (PJ_SUCCESS, Some \<lparr>sm_hdr = hdr\<lparr>sm_length := word_of_nat n\<rparr>, sm_attr = dc_attrs s\<rparr>, 20 + n, None)"
proof -
  have f: "GETVAL16H pkt 0 = Some (sm_type hdr)" "GETVAL16H pkt 2 = Some (word_of_nat n)" "GETVAL32H pkt 4 = Some (sm_magic hdr)"
    "rd_bytes pkt 8 12 = Some (sm_tsx_id hdr)" "drop 20 pkt = r"
    unfolding p(1) by (rule stun_header_fields[OF tid] stun_header_length)+
  have u: "unat (word_of_nat n :: u16) = n" using p(3) by (rule unat_small)
  have len: "length pkt = 20 + n" using p tid by simp
  have h: "\<lparr>sm_type = sm_type hdr, sm_length = word_of_nat n, sm_magic = sm_magic hdr, sm_tsx_id = sm_tsx_id hdr\<rparr> = hdr\<lparr>sm_length := word_of_nat n\<rparr>" by simp
  show ?thesis
    using f u d[unfolded h[symmetric]] chk len unfolding pj_stun_msg_decode_def h[symmetric] by (auto simp: Let_def)
qed

lemma stun_decode_packet:
  assumes bs: "laid_out p hdr body bs" and body: "list_all body_attr body" and t: "sm_type hdr < 0x200" and tid: "length (sm_tsx_id hdr) = 12"
    and n: "n = length bs + (if hm then 24 else 0) + (if hf then 8 else 0)" "n < 2 ^ 16"
    and as: "length body + (if hm then 1 else 0) + (if hf then 1 else 0) \<le> PJ_STUN_MAX_ATTR"
    and c: "hf \<or> sm_magic hdr \<noteq> PJ_STUN_MAGIC \<or> PJ_STUN_NO_FINGERPRINT_CHECK opts \<or> \<not> PJ_STUN_CHECK_PACKET opts"
  shows "pj_stun_msg_decode strerror addr (stun_packet k hdr bs hm hf) opts want =
    Some (PJ_SUCCESS, Some \<lparr>sm_hdr = hdr\<lparr>sm_length := word_of_nat n\<rparr>, sm_attr = map (received p hdr) body @ closing_values k hdr bs hm hf 4\<rparr>, 20 + n, None)"
proof -
  let ?p = "stun_packet k hdr bs hm hf" and ?hdr = "hdr\<lparr>sm_length := word_of_nat n\<rparr>"
  let ?want = "want \<and> PJ_STUN_IS_REQUEST (sm_type hdr)" and ?s = "\<lparr>dc_attrs = [], dc_has_msg_int = False, dc_has_fingerprint = False\<rparr>"
  define mi where "mi = msgint_value k (stun_header hdr (length bs + 24) @ bs)"
  define v where "v = (let pre = stun_pre k hdr bs hm in fingerprint_value (stun_header hdr (length pre + 8) @ pre))"
  define tl where "tl = (if hm then be16 PJ_STUN_ATTR_MESSAGE_INTEGRITY @ be16 20 @ mi else []) @
     (if hf then be16 PJ_STUN_ATTR_FINGERPRINT @ be16 4 @ be32 v else [])"
  have p: "?p = stun_header hdr n @ bs @ tl"
    by (simp add: n stun_packet_def Let_def length_stun_pre tl_def mi_def v_def stun_pre_def)
  have ltl: "length tl = (if hm then 24 else 0) + (if hf then 8 else 0)" by (simp add: tl_def mi_def)
  have "decode_attrs strerror ?want ?hdr (bs @ tl) (length bs + length tl) ?s =
      decode_attrs strerror ?want ?hdr tl (length tl) (?s\<lparr>dc_attrs := map (received p hdr) body\<rparr>)"
    using decode_body[of p ?hdr body bs ?s strerror ?want tl "length tl"] bs body tid as by simp
  also have "\<dots> = Some (Inr (\<lparr>dc_attrs = map (received p hdr) body @ closing_values k hdr bs hm hf 4, dc_has_msg_int = hm, dc_has_fingerprint = hf\<rparr>, 0))"
  proof -
    let ?s1 = "?s\<lparr>dc_attrs := map (received p hdr) body\<rparr>"
    have lm: "length mi = 20" by (simp add: mi_def)
    show ?thesis
    proof (cases hm; cases hf)
      assume "hm" "hf"
      then show ?thesis
        using decode_closing_msgint[OF lm, of ?hdr ?s1 strerror ?want "be16 PJ_STUN_ATTR_FINGERPRINT @ be16 4 @ be32 v" 8]
          decode_closing_fingerprint[of ?hdr "?s1\<lparr>dc_attrs := dc_attrs ?s1 @ [Stun_Msgint PJ_STUN_ATTR_MESSAGE_INTEGRITY 20 mi], dc_has_msg_int := True\<rparr>"
            strerror ?want v "[]" 0] tid as lm
        by (simp add: tl_def closing_values_def closing_def mi_def v_def decode_attrs_end)
    next
      assume "hm" "\<not> hf"
      then show ?thesis using decode_closing_msgint[OF lm, of ?hdr ?s1 strerror ?want "[]" 0] tid as lm
        by (simp add: tl_def closing_values_def closing_def mi_def decode_attrs_end)
    next
      assume "\<not> hm" "hf"
      then show ?thesis using decode_closing_fingerprint[of ?hdr ?s1 strerror ?want v "[]" 0] tid as
        by (simp add: tl_def closing_values_def closing_def v_def decode_attrs_end)
    next
      assume "\<not> hm" "\<not> hf"
      then show ?thesis by (simp add: tl_def closing_values_def closing_def decode_attrs_end)
    qed
  qed
  finally have d: "decode_attrs strerror ?want ?hdr (bs @ tl) n ?s = \<dots>" using n ltl by (simp add: add.assoc)
  have chk: "PJ_STUN_CHECK_PACKET opts \<Longrightarrow> pj_stun_msg_check addr ?p opts = Some PJ_SUCCESS"
    using stun_packet_checked[OF t tid laid_out_mod_4[OF bs]] n c by auto
  have lr: "length (bs @ tl) = n" using ltl n by simp
  show ?thesis using stun_decode_of_attrs[OF p lr n(2) tid chk d] by simp
qed

section \<open>Whole messages\<close>

definition is_body :: "pj_stun_attr \<Rightarrow> bool" where
  "is_body a \<longleftrightarrow> attr_type a \<noteq> PJ_STUN_ATTR_MESSAGE_INTEGRITY \<and> attr_type a \<noteq> PJ_STUN_ATTR_FINGERPRINT"

definition stun_body :: "pj_stun_msg \<Rightarrow> pj_stun_attr list" where
  "stun_body msg = takeWhile is_body (sm_attr msg)"

definition stun_closing :: "pj_stun_msg \<Rightarrow> u16 list" where
  "stun_closing msg = map attr_type (dropWhile is_body (sm_attr msg))"

definition stun_has :: "u16 \<Rightarrow> pj_stun_msg \<Rightarrow> bool" where
  "stun_has t msg \<longleftrightarrow> t \<in> set (stun_closing msg)"

text \<open>
  The messages that can be sent: attributes of the right structures, of which MESSAGE-INTEGRITY and FINGERPRINT come last and in
  this order, and which fit into the packet.
\<close>

definition stun_msg_ok :: "u8 \<Rightarrow> pj_stun_msg \<Rightarrow> bool" where
  "stun_msg_ok p msg \<longleftrightarrow> list_all attr_ok (sm_attr msg) \<and> length (sm_attr msg) \<le> PJ_STUN_MAX_ATTR \<and>
     stun_closing msg \<in> {[], [PJ_STUN_ATTR_MESSAGE_INTEGRITY], [PJ_STUN_ATTR_FINGERPRINT], [PJ_STUN_ATTR_MESSAGE_INTEGRITY, PJ_STUN_ATTR_FINGERPRINT]} \<and>
     length (sm_tsx_id (sm_hdr msg)) = 12 \<and> sm_type (sm_hdr msg) < 0x200 \<and> body_size p (sm_hdr msg) (sm_attr msg) < 2 ^ 16"

lemma attr_ok_msgint: "attr_ok a \<Longrightarrow> attr_type a = PJ_STUN_ATTR_MESSAGE_INTEGRITY \<Longrightarrow> \<exists>h. a = Stun_Msgint PJ_STUN_ATTR_MESSAGE_INTEGRITY 20 h \<and> length h = 20"
  by (cases a) (auto simp: attr_ok_def desc_msgint struct_of_codec_def)

lemma attr_ok_fingerprint: "attr_ok a \<Longrightarrow> attr_type a = PJ_STUN_ATTR_FINGERPRINT \<Longrightarrow> \<exists>l v. a = Stun_Uint PJ_STUN_ATTR_FINGERPRINT l v"
  by (cases a) (auto simp: attr_ok_def desc_fingerprint struct_of_codec_def)

lemma closing_shape:
  assumes "map attr_type as \<in> {[], [PJ_STUN_ATTR_MESSAGE_INTEGRITY], [PJ_STUN_ATTR_FINGERPRINT], [PJ_STUN_ATTR_MESSAGE_INTEGRITY, PJ_STUN_ATTR_FINGERPRINT]}"
    and "list_all attr_ok as"
  shows "\<exists>h l v. length h = 20 \<and> as = closing (PJ_STUN_ATTR_MESSAGE_INTEGRITY \<in> set (map attr_type as)) h (PJ_STUN_ATTR_FINGERPRINT \<in> set (map attr_type as)) l v"
proof -
  have h0: "\<exists>h :: u8 list. length h = 20" by (rule exI[of _ "replicate 20 0"]) simp
  from assms(1) consider "as = []" | a where "as = [a]" "attr_type a = PJ_STUN_ATTR_MESSAGE_INTEGRITY"
    | a where "as = [a]" "attr_type a = PJ_STUN_ATTR_FINGERPRINT"
    | a b where "as = [a, b]" "attr_type a = PJ_STUN_ATTR_MESSAGE_INTEGRITY" "attr_type b = PJ_STUN_ATTR_FINGERPRINT"
    by (auto simp: map_eq_Cons_conv)
  then show ?thesis
  proof cases
    case 1
    then show ?thesis using h0 by (simp add: closing_def)
  next
    case (2 a)
    then show ?thesis using assms(2) attr_ok_msgint[of a] by (auto simp: closing_def)
  next
    case (3 a)
    then show ?thesis using assms(2) attr_ok_fingerprint[of a] h0 by (auto simp: closing_def)
  next
    case (4 a b)
    then show ?thesis using assms(2) attr_ok_msgint[of a] attr_ok_fingerprint[of b] by (auto simp: closing_def)
  qed
qed

lemma stun_msg_parts:
  assumes "stun_msg_ok p msg"
  shows "\<exists>h l v. length h = 20 \<and> sm_attr msg = stun_body msg @ closing (stun_has PJ_STUN_ATTR_MESSAGE_INTEGRITY msg) h (stun_has PJ_STUN_ATTR_FINGERPRINT msg) l v"
    "list_all body_attr (stun_body msg)"
proof -
  have "list_all attr_ok (takeWhile is_body (sm_attr msg) @ dropWhile is_body (sm_attr msg))" using assms by (simp add: stun_msg_ok_def)
  then have a: "list_all attr_ok (stun_body msg)" "list_all attr_ok (dropWhile is_body (sm_attr msg))" by (simp_all add: stun_body_def del: takeWhile_dropWhile_id)
  have "sm_attr msg = stun_body msg @ dropWhile is_body (sm_attr msg)" by (simp add: stun_body_def)
  then show "\<exists>h l v. length h = 20 \<and> sm_attr msg = stun_body msg @ closing (stun_has PJ_STUN_ATTR_MESSAGE_INTEGRITY msg) h (stun_has PJ_STUN_ATTR_FINGERPRINT msg) l v"
    using closing_shape[of "dropWhile is_body (sm_attr msg)"] a(2) assms by (simp add: stun_msg_ok_def stun_has_def stun_closing_def) metis
  show "list_all body_attr (stun_body msg)"
    using a(1) by (auto simp: list_all_iff body_attr_def stun_body_def is_body_def dest: set_takeWhileD)
qed

lemma closing_parts:
  "body_size p hdr (body @ closing hm h hf l v) = body_size p hdr body + (if hm then 4 + pad4 (length h) else 0) + (if hf then 8 else 0)"
  "length (body @ closing hm h hf l v) = length body + (if hm then 1 else 0) + (if hf then 1 else 0)"
  by (simp_all add: body_size_def closing_def attr_size_def wire_def)

lemma stun_body_closing:
  "list_all body_attr body \<Longrightarrow> sm_attr msg = body @ closing hm h hf l v \<Longrightarrow> stun_body msg = body"
  "list_all body_attr body \<Longrightarrow> sm_attr msg = body @ closing hm h hf l v \<Longrightarrow>
     stun_closing msg = (if hm then [PJ_STUN_ATTR_MESSAGE_INTEGRITY] else []) @ (if hf then [PJ_STUN_ATTR_FINGERPRINT] else [])"
proof -
  assume b: "list_all body_attr body" "sm_attr msg = body @ closing hm h hf l v"
  have "\<And>a. a \<in> set body \<Longrightarrow> is_body a" using b(1) by (auto simp: list_all_iff body_attr_def is_body_def)
  then have "takeWhile is_body (body @ closing hm h hf l v) = body @ takeWhile is_body (closing hm h hf l v)"
    "dropWhile is_body (body @ closing hm h hf l v) = dropWhile is_body (closing hm h hf l v)"
    by (auto intro: takeWhile_append2 dropWhile_append2)
  then show "stun_body msg = body"
    "stun_closing msg = (if hm then [PJ_STUN_ATTR_MESSAGE_INTEGRITY] else []) @ (if hf then [PJ_STUN_ATTR_FINGERPRINT] else [])"
    using b(2) by (auto simp: stun_body_def stun_closing_def closing_def is_body_def)
qed

lemma stun_encode_packet_msg:
  assumes "stun_msg_ok (se_padding_char env) msg" "env_ok env" "stun_has PJ_STUN_ATTR_MESSAGE_INTEGRITY msg \<Longrightarrow> key = Some k" "length k < 2 ^ 29"
    and "n = 20 + body_size (se_padding_char env) (sm_hdr msg) (sm_attr msg)" "n \<le> length buf" "length buf < 2 ^ 29"
  shows "\<exists>bs l. laid_out (se_padding_char env) (sm_hdr msg) (stun_body msg) bs \<and>
    n = 20 + length bs + (if stun_has PJ_STUN_ATTR_MESSAGE_INTEGRITY msg then 24 else 0) + (if stun_has PJ_STUN_ATTR_FINGERPRINT msg then 8 else 0) \<and>
    pj_stun_msg_encode env msg buf key =
      Some (PJ_SUCCESS,
        msg\<lparr>sm_hdr := (sm_hdr msg)\<lparr>sm_length := word_of_nat (n - 20)\<rparr>,
            sm_attr := stun_body msg @
              closing_values k (sm_hdr msg) bs (stun_has PJ_STUN_ATTR_MESSAGE_INTEGRITY msg) (stun_has PJ_STUN_ATTR_FINGERPRINT msg) l\<rparr>,
        stun_packet k (sm_hdr msg) bs (stun_has PJ_STUN_ATTR_MESSAGE_INTEGRITY msg) (stun_has PJ_STUN_ATTR_FINGERPRINT msg) @ drop n buf, n)"
proof -
  let ?hm = "stun_has PJ_STUN_ATTR_MESSAGE_INTEGRITY msg" and ?hf = "stun_has PJ_STUN_ATTR_FINGERPRINT msg"
  obtain h l v where at: "sm_attr msg = stun_body msg @ closing ?hm h ?hf l v" and h: "length h = 20" using stun_msg_parts(1)[OF assms(1)] by auto
  have tid: "length (sm_tsx_id (sm_hdr msg)) = 12" and len: "length (sm_attr msg) < 2 ^ 30" using assms(1) by (simp_all add: stun_msg_ok_def PJ_STUN_MAX_ATTR_def)
  have "body_size (se_padding_char env) (sm_hdr msg) (sm_attr msg) =
      body_size (se_padding_char env) (sm_hdr msg) (stun_body msg) + (if ?hm then 24 else 0) + (if ?hf then 8 else 0)"
    by (subst at, subst closing_parts(1)) (simp add: h)
  then have n: "n = 20 + body_size (se_padding_char env) (sm_hdr msg) (stun_body msg) + (if ?hm then 24 else 0) + (if ?hf then 8 else 0)" using assms(5) by simp
  obtain bs where bs: "laid_out (se_padding_char env) (sm_hdr msg) (stun_body msg) bs"
      "length bs = body_size (se_padding_char env) (sm_hdr msg) (stun_body msg)"
    and e: "pj_stun_msg_encode env msg buf key = Some (PJ_SUCCESS, msg\<lparr>sm_hdr := (sm_hdr msg)\<lparr>sm_length := word_of_nat (n - 20)\<rparr>,
      sm_attr := stun_body msg @ closing_values k (sm_hdr msg) bs ?hm ?hf l\<rparr>, stun_packet k (sm_hdr msg) bs ?hm ?hf @ drop n buf, n)"
    using stun_encode_packet[OF stun_msg_parts(2)[OF assms(1)] at refl tid assms(2) n assms(6,7) len assms(3,4)] by blast
  have "n = 20 + length bs + (if ?hm then 24 else 0) + (if ?hf then 8 else 0)" using n bs(2) by simp
  with bs(1) e show ?thesis by blast
qed

text \<open>
  C16 (functional): a message that is encoded into a large enough buffer becomes the packet of the standard: the header with
  the length, the attributes, then MESSAGE-INTEGRITY with the HMAC-SHA1 of everything before it under the key, computed with the length
  up to its own end, then FINGERPRINT with the CRC-32 of everything before it. The bytes behind the packet stay, and the message
  holds the computed values.
\<close>

theorem stun_encode_conforms:
  assumes "stun_msg_ok (se_padding_char env) msg" "env_ok env" "stun_has PJ_STUN_ATTR_MESSAGE_INTEGRITY msg \<Longrightarrow> key = Some k" "length k < 2 ^ 29"
    and "n = 20 + body_size (se_padding_char env) (sm_hdr msg) (sm_attr msg)" "n \<le> length buf" "length buf < 2 ^ 29"
  shows "\<exists>bs l. laid_out (se_padding_char env) (sm_hdr msg) (stun_body msg) bs \<and>
    pj_stun_msg_encode env msg buf key =
      Some (PJ_SUCCESS,
        msg\<lparr>sm_hdr := (sm_hdr msg)\<lparr>sm_length := word_of_nat (n - 20)\<rparr>,
            sm_attr := stun_body msg @
              closing_values k (sm_hdr msg) bs (stun_has PJ_STUN_ATTR_MESSAGE_INTEGRITY msg) (stun_has PJ_STUN_ATTR_FINGERPRINT msg) l\<rparr>,
        stun_packet k (sm_hdr msg) bs (stun_has PJ_STUN_ATTR_MESSAGE_INTEGRITY msg) (stun_has PJ_STUN_ATTR_FINGERPRINT msg) @ drop n buf, n)"
  using stun_encode_packet_msg[OF assms] by blast

lemma laid_out_length: "laid_out p hdr as bs \<Longrightarrow> length bs = body_size p hdr as"
proof (induction as arbitrary: bs)
  case (Cons a as)
  from Cons.prems have "length (drop (attr_size p hdr a) bs) = body_size p hdr as" "attr_size p hdr a \<le> length bs"
    using Cons.IH[of "drop (attr_size p hdr a) bs"] by (simp_all del: length_drop)
  then show ?case by simp
qed simp

text \<open>Sending and receiving: the packet, and what the decoder makes of it.\<close>

lemma stun_sent:
  assumes "stun_msg_ok (se_padding_char env) msg" "env_ok env" "stun_has PJ_STUN_ATTR_MESSAGE_INTEGRITY msg \<Longrightarrow> key = Some k" "length k < 2 ^ 29"
    and "n = 20 + body_size (se_padding_char env) (sm_hdr msg) (sm_attr msg)" "n \<le> length buf" "length buf < 2 ^ 29"
    and "stun_has PJ_STUN_ATTR_FINGERPRINT msg \<or> sm_magic (sm_hdr msg) \<noteq> PJ_STUN_MAGIC \<or> PJ_STUN_NO_FINGERPRINT_CHECK opts \<or> \<not> PJ_STUN_CHECK_PACKET opts"
  obtains bs l where
    "laid_out (se_padding_char env) (sm_hdr msg) (stun_body msg) bs" "length bs < 2 ^ 16"
    "n = 20 + length bs + (if stun_has PJ_STUN_ATTR_MESSAGE_INTEGRITY msg then 24 else 0) + (if stun_has PJ_STUN_ATTR_FINGERPRINT msg then 8 else 0)"
    "pj_stun_msg_encode env msg buf key = Some (PJ_SUCCESS,
        msg\<lparr>sm_hdr := (sm_hdr msg)\<lparr>sm_length := word_of_nat (n - 20)\<rparr>,
            sm_attr := stun_body msg @
              closing_values k (sm_hdr msg) bs (stun_has PJ_STUN_ATTR_MESSAGE_INTEGRITY msg) (stun_has PJ_STUN_ATTR_FINGERPRINT msg) l\<rparr>,
        stun_packet k (sm_hdr msg) bs (stun_has PJ_STUN_ATTR_MESSAGE_INTEGRITY msg) (stun_has PJ_STUN_ATTR_FINGERPRINT msg) @ drop n buf, n)"
    "take n (stun_packet k (sm_hdr msg) bs (stun_has PJ_STUN_ATTR_MESSAGE_INTEGRITY msg) (stun_has PJ_STUN_ATTR_FINGERPRINT msg) @ drop n buf) =
      stun_packet k (sm_hdr msg) bs (stun_has PJ_STUN_ATTR_MESSAGE_INTEGRITY msg) (stun_has PJ_STUN_ATTR_FINGERPRINT msg)"
    "\<forall>strerror addr want. pj_stun_msg_decode strerror addr
        (stun_packet k (sm_hdr msg) bs (stun_has PJ_STUN_ATTR_MESSAGE_INTEGRITY msg) (stun_has PJ_STUN_ATTR_FINGERPRINT msg)) opts want =
      Some (PJ_SUCCESS, Some \<lparr>sm_hdr = (sm_hdr msg)\<lparr>sm_length := word_of_nat (n - 20)\<rparr>,
        sm_attr = map (received (se_padding_char env) (sm_hdr msg)) (stun_body msg) @
          closing_values k (sm_hdr msg) bs (stun_has PJ_STUN_ATTR_MESSAGE_INTEGRITY msg) (stun_has PJ_STUN_ATTR_FINGERPRINT msg) 4\<rparr>, n, None)"
proof -
  let ?hm = "stun_has PJ_STUN_ATTR_MESSAGE_INTEGRITY msg" and ?hf = "stun_has PJ_STUN_ATTR_FINGERPRINT msg" and ?p = "se_padding_char env"
  have ok: "length (sm_tsx_id (sm_hdr msg)) = 12" "sm_type (sm_hdr msg) < 0x200" "n - 20 < 2 ^ 16" using assms(1,5) by (simp_all add: stun_msg_ok_def)
  obtain bs l where bs: "laid_out ?p (sm_hdr msg) (stun_body msg) bs" and n: "n = 20 + length bs + (if ?hm then 24 else 0) + (if ?hf then 8 else 0)"
    and e: "pj_stun_msg_encode env msg buf key = Some (PJ_SUCCESS, msg\<lparr>sm_hdr := (sm_hdr msg)\<lparr>sm_length := word_of_nat (n - 20)\<rparr>,
      sm_attr := stun_body msg @ closing_values k (sm_hdr msg) bs ?hm ?hf l\<rparr>, stun_packet k (sm_hdr msg) bs ?hm ?hf @ drop n buf, n)"
    using stun_encode_packet_msg[OF assms(1-7)] by blast
  have cl: "length (stun_body msg) + (if ?hm then 1 else 0) + (if ?hf then 1 else 0) \<le> PJ_STUN_MAX_ATTR"
    using stun_msg_parts(1)[OF assms(1)] closing_parts(2)[of "stun_body msg" ?hm _ ?hf] assms(1) unfolding stun_msg_ok_def by metis
  have tk: "take n (stun_packet k (sm_hdr msg) bs ?hm ?hf @ drop n buf) = stun_packet k (sm_hdr msg) bs ?hm ?hf"
    using length_stun_packet[OF ok(1), of k bs ?hm ?hf] n by simp
  have d: "pj_stun_msg_decode strerror addr (stun_packet k (sm_hdr msg) bs ?hm ?hf) opts want =
      Some (PJ_SUCCESS, Some \<lparr>sm_hdr = (sm_hdr msg)\<lparr>sm_length := word_of_nat (n - 20)\<rparr>,
        sm_attr = map (received ?p (sm_hdr msg)) (stun_body msg) @ closing_values k (sm_hdr msg) bs ?hm ?hf 4\<rparr>, n, None)" for strerror addr want
    using stun_decode_packet[OF bs stun_msg_parts(2)[OF assms(1)] ok(2,1) _ ok(3) cl assms(8), of strerror addr k want] n by simp
  have "length bs < 2 ^ 16" using n ok(3) by linarith
  then show ?thesis by (rule that[OF bs _ n e tk]) (use d in simp)
qed

text \<open>
  C4 (roundtrip): a message of \<open>stun_msg_ok\<close>, encoded into a large enough buffer, is accepted by the decoder and comes back with
  its attributes in the order they had, provided one of these holds: it has a FINGERPRINT, it has not the magic cookie, or the
  receiver does not look for a FINGERPRINT or does not check the packet. Without that proviso a correct packet may be refused, as
  \<open>value_taken_for_fingerprint\<close> below shows. The header comes back with the length of the packet, MESSAGE-INTEGRITY and FINGERPRINT
  with the values the encoder computed, every other attribute with its type and its value, except for what \<open>received\<close> spells out: the
  length field is that of the value sent; SOFTWARE, and every text of a message without the magic cookie, comes with its padding
  as text; the flow label and the scope of an IPv6 address, and the magic of a binary attribute of a known type, come back
  as zero.
\<close>

theorem stun_encode_decode_roundtrip:
  assumes "stun_msg_ok (se_padding_char env) msg" "env_ok env" "stun_has PJ_STUN_ATTR_MESSAGE_INTEGRITY msg \<Longrightarrow> key = Some k" "length k < 2 ^ 29"
    and "n = 20 + body_size (se_padding_char env) (sm_hdr msg) (sm_attr msg)" "n \<le> length buf" "length buf < 2 ^ 29"
    and "stun_has PJ_STUN_ATTR_FINGERPRINT msg \<or> sm_magic (sm_hdr msg) \<noteq> PJ_STUN_MAGIC \<or> PJ_STUN_NO_FINGERPRINT_CHECK opts \<or> \<not> PJ_STUN_CHECK_PACKET opts"
  shows "\<exists>msg' buf'. pj_stun_msg_encode env msg buf key = Some (PJ_SUCCESS, msg', buf', n) \<and>
    stun_body msg' = stun_body msg \<and> stun_closing msg' = stun_closing msg \<and>
    pj_stun_msg_decode strerror addr (take n buf') opts want =
      Some (PJ_SUCCESS, Some \<lparr>sm_hdr = sm_hdr msg', sm_attr = map (received (se_padding_char env) (sm_hdr msg)) (sm_attr msg')\<rparr>, n, None)"
proof -
  let ?hm = "stun_has PJ_STUN_ATTR_MESSAGE_INTEGRITY msg" and ?hf = "stun_has PJ_STUN_ATTR_FINGERPRINT msg" and ?p = "se_padding_char env"
  obtain bs l where "laid_out ?p (sm_hdr msg) (stun_body msg) bs" "length bs < 2 ^ 16"
    and "n = 20 + length bs + (if ?hm then 24 else 0) + (if ?hf then 8 else 0)"
    and e: "pj_stun_msg_encode env msg buf key = Some (PJ_SUCCESS, msg\<lparr>sm_hdr := (sm_hdr msg)\<lparr>sm_length := word_of_nat (n - 20)\<rparr>,
      sm_attr := stun_body msg @ closing_values k (sm_hdr msg) bs ?hm ?hf l\<rparr>, stun_packet k (sm_hdr msg) bs ?hm ?hf @ drop n buf, n)"
    and tk: "take n (stun_packet k (sm_hdr msg) bs ?hm ?hf @ drop n buf) = stun_packet k (sm_hdr msg) bs ?hm ?hf"
    and d: "\<forall>strerror addr want. pj_stun_msg_decode strerror addr (stun_packet k (sm_hdr msg) bs ?hm ?hf) opts want =
      Some (PJ_SUCCESS, Some \<lparr>sm_hdr = (sm_hdr msg)\<lparr>sm_length := word_of_nat (n - 20)\<rparr>,
        sm_attr = map (received ?p (sm_hdr msg)) (stun_body msg) @ closing_values k (sm_hdr msg) bs ?hm ?hf 4\<rparr>, n, None)"
    by (rule stun_sent[OF assms])
  let ?m = "msg\<lparr>sm_hdr := (sm_hdr msg)\<lparr>sm_length := word_of_nat (n - 20)\<rparr>, sm_attr := stun_body msg @ closing_values k (sm_hdr msg) bs ?hm ?hf l\<rparr>"
  have r: "map (received ?p (sm_hdr msg)) (closing_values k (sm_hdr msg) bs ?hm ?hf l) = closing_values k (sm_hdr msg) bs ?hm ?hf 4"
    by (simp add: closing_values_def closing_def)
  obtain x y where cv: "closing_values k (sm_hdr msg) bs ?hm ?hf l = closing ?hm x ?hf l y" by (simp add: closing_values_def)
  obtain h0 l0 v0 where at: "sm_attr msg = stun_body msg @ closing ?hm h0 ?hf l0 v0" using stun_msg_parts(1)[OF assms(1)] by blast
  have am: "sm_attr ?m = stun_body msg @ closing ?hm x ?hf l y" using cv by simp
  have b: "stun_body ?m = stun_body msg" by (rule stun_body_closing(1)[OF stun_msg_parts(2)[OF assms(1)] am])
  have c: "stun_closing ?m = stun_closing msg"
    by (rule trans[OF stun_body_closing(2)[OF stun_msg_parts(2)[OF assms(1)] am] stun_body_closing(2)[OF stun_msg_parts(2)[OF assms(1)] at, symmetric]])
  have d': "pj_stun_msg_decode strerror addr (take n (stun_packet k (sm_hdr msg) bs ?hm ?hf @ drop n buf)) opts want =
      Some (PJ_SUCCESS, Some \<lparr>sm_hdr = sm_hdr ?m, sm_attr = map (received ?p (sm_hdr msg)) (sm_attr ?m)\<rparr>, n, None)"
    unfolding tk d[rule_format] by (simp add: r)
  show ?thesis
    by (rule exI[of _ ?m], rule exI[of _ "stun_packet k (sm_hdr msg) bs ?hm ?hf @ drop n buf"], intro conjI e b c d')
qed

definition demo_env :: stun_env where
  "demo_env = \<lparr>se_padding_char = 0, se_addr = 2, se_sha = demo_sha_ctx, se_hmac = \<lparr>hm_context = demo_sha_ctx, hm_k_opad = []\<rparr>\<rparr>"

definition demo_msg :: pj_stun_msg where
  "demo_msg = \<lparr>sm_hdr = \<lparr>sm_type = 1, sm_length = 0, sm_magic = PJ_STUN_MAGIC, sm_tsx_id = [1, 2, 3, 4, 5, 6, 7, 8, 9, 10, 11, 12]\<rparr>,
     sm_attr = [Stun_String PJ_STUN_ATTR_USERNAME 3 [98, 111, 98], Stun_Sockaddr 0x20 8 True (Sock_Inet 5060 [10, 0, 0, 1]),
       Stun_Errcode PJ_STUN_ATTR_ERROR_CODE 5 420 [120], Stun_Binary 0x8100 3 PJ_STUN_MAGIC [7, 8, 9],
       Stun_Msgint PJ_STUN_ATTR_MESSAGE_INTEGRITY 20 (replicate 20 0), Stun_Uint PJ_STUN_ATTR_FINGERPRINT 4 0]\<rparr>"

lemma demo_descs:
  "find_attr_desc 0x20 = Some (''XOR-MAPPED-ADDRESS'', Xored_Sockaddr_Codec)" "find_attr_desc 0x8100 = None"
  "find_attr_desc PJ_STUN_ATTR_USERNAME = Some (''USERNAME'', String_Codec)" "find_attr_desc PJ_STUN_ATTR_ERROR_CODE = Some (''ERROR-CODE'', Errcode_Codec)"
  by (simp_all add: find_attr_desc_def stun_attr_types PJ_STUN_ATTR_USERNAME_def PJ_STUN_ATTR_ERROR_CODE_def mandatory_attr_desc_def)

lemma demo_closing: "stun_closing demo_msg = [PJ_STUN_ATTR_MESSAGE_INTEGRITY, PJ_STUN_ATTR_FINGERPRINT]"
  by (simp add: demo_msg_def stun_closing_def is_body_def stun_attr_types PJ_STUN_ATTR_USERNAME_def PJ_STUN_ATTR_ERROR_CODE_def)

lemma demo_size: "body_size p (sm_hdr demo_msg) (sm_attr demo_msg) = 72"
  by (simp add: demo_msg_def body_size_def attr_size_def length_wire pad4_def)

lemma demo_ok: "stun_msg_ok p demo_msg" "env_ok demo_env"
proof -
  have "list_all attr_ok (sm_attr demo_msg)"
    by (simp add: demo_msg_def attr_ok_def demo_descs desc_msgint desc_fingerprint struct_of_codec_def)
  then show "stun_msg_ok p demo_msg"
    using demo_closing demo_size[of p] by (simp add: stun_msg_ok_def demo_msg_def PJ_STUN_MAX_ATTR_def)
  show "env_ok demo_env" by (simp add: env_ok_def demo_env_def demo_sha_ctx_def)
qed

theorem stun_encode_conforms_witness:
  "\<exists>bs l. laid_out (se_padding_char demo_env) (sm_hdr demo_msg) (stun_body demo_msg) bs \<and>
    pj_stun_msg_encode demo_env demo_msg (replicate 100 9) (Some [1, 2]) =
      Some (PJ_SUCCESS,
        demo_msg\<lparr>sm_hdr := (sm_hdr demo_msg)\<lparr>sm_length := word_of_nat (92 - 20)\<rparr>,
            sm_attr := stun_body demo_msg @ closing_values [1, 2] (sm_hdr demo_msg) bs
              (stun_has PJ_STUN_ATTR_MESSAGE_INTEGRITY demo_msg) (stun_has PJ_STUN_ATTR_FINGERPRINT demo_msg) l\<rparr>,
        stun_packet [1, 2] (sm_hdr demo_msg) bs (stun_has PJ_STUN_ATTR_MESSAGE_INTEGRITY demo_msg) (stun_has PJ_STUN_ATTR_FINGERPRINT demo_msg) @
          drop 92 (replicate 100 9), 92)"
  by (rule stun_encode_conforms) (simp_all add: demo_ok demo_size)

theorem stun_encode_decode_roundtrip_witness:
  "\<exists>msg' buf'. pj_stun_msg_encode demo_env demo_msg (replicate 100 9) (Some [1, 2]) = Some (PJ_SUCCESS, msg', buf', 92) \<and>
    stun_body msg' = stun_body demo_msg \<and> stun_closing msg' = stun_closing demo_msg \<and>
    pj_stun_msg_decode (\<lambda>st. []) 0 (take 92 buf') \<lparr>PJ_STUN_IS_DATAGRAM = True, PJ_STUN_CHECK_PACKET = True, PJ_STUN_NO_FINGERPRINT_CHECK = False\<rparr> True =
      Some (PJ_SUCCESS, Some \<lparr>sm_hdr = sm_hdr msg', sm_attr = map (received (se_padding_char demo_env) (sm_hdr demo_msg)) (sm_attr msg')\<rparr>, 92, None)"
  by (rule stun_encode_decode_roundtrip[where k = "[1, 2]"]) (simp_all add: demo_ok demo_size stun_has_def demo_closing)

text \<open>
  Without FINGERPRINT the check may still find one: the last eight bytes of a packet can look like it. Here they are the
  value of an ICE-CONTROLLING attribute, and a correct packet is refused.
\<close>

definition tie_msg :: pj_stun_msg where
  "tie_msg = demo_msg\<lparr>sm_attr := [Stun_Uint64 0x802a 8 0x80280005 7]\<rparr>"

lemma tie_desc: "find_attr_desc 0x802a = Some (''ICE-CONTROLLING'', Uint64_Codec)"
  by (simp add: find_attr_desc_def stun_attr_types extended_attr_desc_def)

lemma tie_parts: "stun_body tie_msg = [Stun_Uint64 0x802a 8 0x80280005 7]" "stun_closing tie_msg = []"
  "body_size p (sm_hdr tie_msg) (sm_attr tie_msg) = 12" "sm_hdr tie_msg = sm_hdr demo_msg" "sm_attr tie_msg = [Stun_Uint64 0x802a 8 0x80280005 7]"
  by (simp_all add: tie_msg_def stun_body_def stun_closing_def is_body_def stun_attr_types body_size_def attr_size_def wire_def)

lemma tie_ok: "stun_msg_ok p tie_msg"
  by (simp add: stun_msg_ok_def tie_parts attr_ok_def tie_desc struct_of_codec_def PJ_STUN_MAX_ATTR_def body_size_def attr_size_def wire_def) (simp add: demo_msg_def)

lemma value_taken_for_fingerprint:
  "\<exists>msg' buf'. pj_stun_msg_encode demo_env tie_msg (replicate 32 0) None = Some (PJ_SUCCESS, msg', buf', 32) \<and>
    pj_stun_msg_decode strerror 0 buf' \<lparr>PJ_STUN_IS_DATAGRAM = True, PJ_STUN_CHECK_PACKET = True, PJ_STUN_NO_FINGERPRINT_CHECK = False\<rparr> True =
      Some (PJNATH_ESTUNINATTRLEN, None, 0, None)"
proof -
  let ?hdr = "sm_hdr demo_msg"
  let ?w = "be16 0x802a @ be16 8 @ be32 0x80280005 @ be32 7"
  obtain bs l where b: "laid_out (se_padding_char demo_env) ?hdr (stun_body tie_msg) bs"
    and e: "pj_stun_msg_encode demo_env tie_msg (replicate 32 0) None =
      Some (PJ_SUCCESS, tie_msg\<lparr>sm_hdr := ?hdr\<lparr>sm_length := word_of_nat (32 - 20)\<rparr>, sm_attr := stun_body tie_msg @ closing_values [] ?hdr bs False False l\<rparr>,
        stun_packet [] ?hdr bs False False @ drop 32 (replicate 32 0), 32)"
    using stun_encode_packet_msg[of demo_env tie_msg None "[]" 32 "replicate 32 0"] tie_ok demo_ok tie_parts by (auto simp: stun_has_def)
  have "take 12 bs = ?w" "length bs = 12" using b by (auto simp: tie_parts wire_def attr_size_def)
  then have "bs = ?w" by (metis take_all order_refl)
  then have p: "stun_packet [] ?hdr bs False False = stun_header ?hdr 12 @ ?w" by (simp add: stun_packet_def stun_pre_def)
  have h: "length (stun_header ?hdr 12) = 20" "sm_type ?hdr < 0x200" "sm_magic ?hdr = PJ_STUN_MAGIC" "length (sm_tsx_id ?hdr) = 12" by (simp_all add: demo_msg_def)
  have f: "rd8 (stun_header ?hdr 12 @ ?w) 0 = Some (byte16 1 (sm_type ?hdr))" "GETVAL16H (stun_header ?hdr 12 @ ?w) 2 = Some (word_of_nat 12)"
    "GETVAL32H (stun_header ?hdr 12 @ ?w) 4 = Some PJ_STUN_MAGIC"
    using stun_header_fields[OF h(4)] stun_header_length h(3) by simp_all
  have g: "GETVAL16H (stun_header ?hdr 12 @ ?w) 24 = Some 0x8028" "GETVAL16H (stun_header ?hdr 12 @ ?w) 26 = Some 5"
    "GETVAL32H (stun_header ?hdr 12 @ ?w) 28 = Some 7"
    using h(1) rd_prefix(2)[of 7 "[]"] by (simp_all add: GETVAL_skip) (simp_all add: GETVAL16H_def rd8_def be32_def byte32_def load16_def)
  have "pj_stun_msg_check 0 (stun_header ?hdr 12 @ ?w) \<lparr>PJ_STUN_IS_DATAGRAM = True, PJ_STUN_CHECK_PACKET = True, PJ_STUN_NO_FINGERPRINT_CHECK = False\<rparr> =
      Some PJNATH_ESTUNINATTRLEN"
    using f g h type_byte[OF h(2)] unfolding pj_stun_msg_check_def by (auto simp: Let_def stun_attr_types)
  moreover have "be32 7 \<noteq> []" by (simp add: be32_def)
  ultimately show ?thesis using e p h(1) by (simp add: pj_stun_msg_decode_def)
qed

end
