(* ===== verification/Stun_Decode.thy ===== *)
theory Stun_Decode
  imports Stun_Codec
begin

text \<open>
  The decoder of \<open>stun_msg.c\<close> on arbitrary packets: it stays inside the packet and comes to a result, and what its
  result can be.
\<close>

section \<open>Reads inside the packet\<close>

lemma rd_total:
  "n < length b \<Longrightarrow> \<exists>v. rd8 b n = Some v" "n + 2 \<le> length b \<Longrightarrow> \<exists>w. GETVAL16H b n = Some w"
  "n + 4 \<le> length b \<Longrightarrow> \<exists>x. GETVAL32H b n = Some x" "n + k \<le> length b \<Longrightarrow> \<exists>y. rd_bytes b n k = Some y"
  "n + 8 \<le> length b \<Longrightarrow> \<exists>z. GETVAL64H b n = Some z"
  by (simp_all add: rd8_def GETVAL16H_def GETVAL32H_def rd_bytes_def GETVAL64H_def)

lemma get_unknowns_total: "n + 2 * k \<le> length b \<Longrightarrow> \<exists>vs. get_unknowns b n k = Some vs"
proof (induction k arbitrary: n)
  case (Suc k)
  obtain w where "GETVAL16H b n = Some w" using rd_total(2)[of n b] Suc.prems by auto
  moreover obtain vs where "get_unknowns b (n + 2) k = Some vs" using Suc.IH[of "n + 2"] Suc.prems by auto
  ultimately show ?case by simp
qed simp

text \<open>An attribute whose length lies inside the packet is decoded or refused.\<close>

lemma decode_attr_total:
  assumes h: "GETATTRHDR b = Some (t, l)" and len: "unat l + 4 \<le> length b"
  shows "\<exists>r. decode_attr c b hdr = Some r"
proof -
  have sock: "\<exists>r. decode_sockaddr_attr b hdr = Some r"
  proof (cases "l = 8 \<or> l = 20")
    case True
    then have "12 \<le> length b" "l = 20 \<Longrightarrow> 24 \<le> length b" using len by auto
    then show ?thesis using h rd_total(1)[of 5 b] rd_total(2)[of 6 b] rd_total(4)[of 8 4 b] rd_total(4)[of 8 16 b] True
      by (auto simp: decode_sockaddr_attr_def)
  qed (use h in \<open>simp add: decode_sockaddr_attr_def\<close>)
  show ?thesis
  proof (cases c)
    case Xored_Sockaddr_Codec
    then show ?thesis using sock by (auto simp: decode_xored_sockaddr_attr_def split: sum.splits pj_stun_attr.splits pj_sockaddr.splits)
  next
    case Unknown_Codec
    have "4 + 2 * (unat l div 2) \<le> length b" using len by simp
    then show ?thesis using h get_unknowns_total[of 4 "unat l div 2" b] Unknown_Codec by (auto simp: decode_unknown_attr_def)
  next
    case Errcode_Codec
    have "8 + (unat l - 4) \<le> length b" "8 \<le> length b" if "\<not> l < 4" using len that by (simp_all add: word_less_nat_alt)
    then show ?thesis using h rd_total(1)[of 6 b] rd_total(1)[of 7 b] rd_total(4)[of 8 "unat l - 4" b] Errcode_Codec
      by (cases "l < 4") (auto simp: decode_errcode_attr_def)
  next
    case Uint_Codec
    then show ?thesis using h len rd_total(3)[of 4 b] by (auto simp: decode_uint_attr_def)
  next
    case Uint64_Codec
    then show ?thesis using h len rd_total(5)[of 4 b] by (auto simp: decode_uint64_attr_def)
  next
    case Msgint_Codec
    then show ?thesis using h len rd_total(4)[of 4 20 b] by (auto simp: decode_msgint_attr_def)
  qed (use h len sock rd_total(4)[of 4 "unat l" b] in \<open>auto simp: decode_string_attr_def decode_binary_attr_def decode_empty_attr_def\<close>)
qed

lemma stun_reasons: "\<exists>r. pj_stun_get_err_reason 400 = Some r" "\<exists>r. pj_stun_get_err_reason 420 = Some r" "\<exists>r. pj_stun_get_err_reason 500 = Some r"
  by (simp_all add: pj_stun_get_err_reason_def stun_err_msg_map_def err_reason_search.simps)

lemma request_response_type: "(t :: u16) OR 0x0110 \<noteq> 0"
proof
  assume "t OR 0x0110 = 0"
  then have "bit (t OR 0x0110) 4 = bit (0 :: u16) 4" by simp
  then show False by (simp add: bit_simps bit_numeral_rec)
qed

lemma error_response_total:
  assumes "want \<Longrightarrow> PJ_STUN_IS_REQUEST (sm_type hdr)" "msg = None \<Longrightarrow> code \<in> {400, 420, 500}" "code \<noteq> 0"
  shows "\<exists>r. error_response want hdr code msg = Some r \<and> (r \<noteq> None \<longleftrightarrow> want)"
proof (cases want)
  case True
  have "\<exists>s. (case msg of Some r \<Rightarrow> Some r | None \<Rightarrow> do { s \<leftarrow> pj_stun_get_err_reason code;
                        Some (if s = [] then pj_str ''Unknown error '' @ dec_of_int code else s) }) = Some s"
    using assms(2) stun_reasons by (cases msg) auto
  then show ?thesis using True assms request_response_type[of "sm_type hdr"]
    by (auto simp: error_response_def pj_stun_msg_create_response_def pj_stun_msg_create_def pj_stun_msg_init_def PJ_STUN_ERROR_RESPONSE_BIT_def
        pj_stun_msg_add_errcode_attr_def pj_stun_errcode_attr_create_def add_created_def pj_stun_msg_add_attr_def PJ_STUN_MAX_ATTR_def)
qed (simp add: error_response_def)

lemma decode_attr_error: "decode_attr c b hdr = Some (Inl st) \<Longrightarrow> st \<noteq> PJ_SUCCESS"
  by (cases c) (auto simp: decode_sockaddr_attr_def decode_xored_sockaddr_attr_def decode_string_attr_def decode_uint_attr_def
      decode_uint64_attr_def decode_binary_attr_def decode_empty_attr_def decode_msgint_attr_def decode_errcode_attr_def decode_unknown_attr_def
      split: bind_splits if_splits sum.splits pj_stun_attr.splits pj_sockaddr.splits)

lemma check_order_error: "check_order t mi fp = Inl st \<Longrightarrow> st \<noteq> PJ_SUCCESS"
  by (auto simp: check_order_def split: if_splits)

section \<open>The loop over the attributes\<close>

text \<open>What an attempt to decode one attribute gives.\<close>

fun step_ok :: "bool \<Rightarrow> decode_state \<Rightarrow> (pj_status \<times> pj_stun_msg option) + decode_state \<Rightarrow> bool" where
  "step_ok want s (Inl (st, r)) \<longleftrightarrow> st \<noteq> PJ_SUCCESS \<and> (r \<noteq> None \<longleftrightarrow> want)"
| "step_ok want s (Inr s') \<longleftrightarrow> length (dc_attrs s') = Suc (length (dc_attrs s)) \<and> length (dc_attrs s') \<le> PJ_STUN_MAX_ATTR"

lemma decode_one_total:
  assumes w: "want \<Longrightarrow> PJ_STUN_IS_REQUEST (sm_type hdr)" and h: "GETVAL16H b 0 = Some t" "GETVAL16H b 2 = Some l" and len: "unat l + 4 \<le> length b"
  shows "\<exists>r. decode_one strerror want hdr b s = Some r \<and> step_ok want s r"
proof -
  have e: "\<exists>r. error_response want hdr code msg = Some r \<and> (r \<noteq> None \<longleftrightarrow> want)" if "msg = None \<Longrightarrow> code \<in> {400, 420, 500}" "code \<noteq> 0" for code msg
    using error_response_total[of want hdr msg code] w that by blast
  obtain r1 where r1: "error_response want hdr 420 None = Some r1" "r1 \<noteq> None \<longleftrightarrow> want" using e[of None 420] by auto
  obtain r2 where r2: "error_response want hdr 500 None = Some r2" "r2 \<noteq> None \<longleftrightarrow> want" using e[of None 500] by auto
  obtain r3 where r3: "error_response want hdr 400 None = Some r3" "r3 \<noteq> None \<longleftrightarrow> want" using e[of None 400] by auto
  note sc = PJ_STUN_SC_UNKNOWN_ATTRIBUTE_def PJ_STUN_SC_SERVER_ERROR_def PJ_STUN_SC_BAD_REQUEST_def
  show ?thesis
  proof (cases "find_attr_desc t")
    case None
    show ?thesis
    proof (cases "t \<le> 0x7FFF")
      case True
      then show ?thesis using None h r1 by (auto simp: decode_one_def sc PJ_STATUS_FROM_STUN_CODE_def)
    next
      case False
      then have "t \<noteq> 0" by auto
      moreover have "rd_bytes (drop 4 b) 0 (unat l) = Some (take (unat l) (drop 4 b))" using len by (simp add: rd_bytes_def)
      ultimately have "\<exists>a. pj_stun_binary_attr_init t (Some (drop 4 b)) (unat l) = Some (Inr a)" by (simp add: pj_stun_binary_attr_init_def)
      then show ?thesis using False None h r2 by (auto simp: decode_one_def sc)
    qed
  next
    case (Some nc)
    then obtain nm c where nc: "find_attr_desc t = Some (nm, c)" by (cases nc) auto
    have "GETATTRHDR b = Some (t, l)" using h by (simp add: GETATTRHDR_def)
    then obtain d where d: "decode_attr c b hdr = Some d" using decode_attr_total len by blast
    show ?thesis
    proof (cases d)
      case (Inl st)
      obtain r4 where "error_response want hdr 400 (Some (take 79 (strerror st @ pj_str '' in '' @ pj_str (pj_stun_get_attr_name t)))) = Some r4" "r4 \<noteq> None \<longleftrightarrow> want"
        using e[of "Some (take 79 (strerror st @ pj_str '' in '' @ pj_str (pj_stun_get_attr_name t)))" 400] by auto
      then show ?thesis using nc h d Inl decode_attr_error[of c b hdr st] by (auto simp: decode_one_def sc)
    next
      case (Inr a)
      show ?thesis
      proof (cases "check_order t (dc_has_msg_int s) (dc_has_fingerprint s)")
        case (Inl st)
        then show ?thesis using nc h d Inr r3 check_order_error[OF Inl] by (auto simp: decode_one_def sc)
      next
        case (Inr f)
        then show ?thesis using nc h d \<open>d = Inr a\<close> r2 by (cases f) (auto simp: decode_one_def sc not_le)
      qed
    qed
  qed
qed

fun loop_ok :: "bool \<Rightarrow> (pj_status \<times> pj_stun_msg option) + (decode_state \<times> nat) \<Rightarrow> bool" where
  "loop_ok want (Inl (st, r)) \<longleftrightarrow> st \<noteq> PJ_SUCCESS \<and> (r \<noteq> None \<longleftrightarrow> want)"
| "loop_ok want (Inr (s, left)) \<longleftrightarrow> length (dc_attrs s) \<le> PJ_STUN_MAX_ATTR \<and> left < 4"

lemma decode_attrs_total:
  assumes "want \<Longrightarrow> PJ_STUN_IS_REQUEST (sm_type hdr)" "n \<le> length b" "length (dc_attrs s) \<le> PJ_STUN_MAX_ATTR"
  shows "\<exists>r. decode_attrs strerror want hdr b n s = Some r \<and> loop_ok want r"
  using assms
proof (induction n arbitrary: b s rule: less_induct)
  case (less n)
  show ?case
  proof (cases "n < 4")
    case True
    then show ?thesis using less.prems by (subst decode_attrs.simps) auto
  next
    case False
    then obtain t l where h: "GETVAL16H b 0 = Some t" "GETVAL16H b 2 = Some l" using rd_total(2)[of 0 b] rd_total(2)[of 2 b] less.prems(2) by auto
    show ?thesis
    proof (cases "n < pad4 (unat l) + 4")
      case True
      obtain r where "error_response want hdr 400 (Some (pj_str (''Attribute '' @ pj_stun_get_attr_name t @ '' has invalid length''))) = Some r" "r \<noteq> None \<longleftrightarrow> want"
        using error_response_total[of want hdr "Some (pj_str (''Attribute '' @ pj_stun_get_attr_name t @ '' has invalid length''))" 400] less.prems(1) by auto
      then show ?thesis using h True False by (subst decode_attrs.simps) (auto simp: Let_def PJ_STUN_SC_BAD_REQUEST_def)
    next
      case in_packet: False
      have len: "unat l + 4 \<le> length b" using in_packet less.prems(2) pad4_bounds(1)[of "unat l"] by simp
      obtain d where d: "decode_one strerror want hdr b s = Some d" "step_ok want s d"
        using decode_one_total[OF _ h len, of want hdr strerror s] less.prems(1) by auto
      show ?thesis
      proof (cases d)
        case (Inl e)
        then show ?thesis using d h False in_packet by (cases e) (subst decode_attrs.simps, auto simp: Let_def)
      next
        case (Inr s')
        let ?k = "pad4 (unat l) + 4"
        have "decode_attrs strerror want hdr b n s = decode_attrs strerror want hdr (drop ?k b) (n - ?k) s'"
        proof (cases "n = ?k")
          case True
          then show ?thesis using d h False in_packet Inr by (subst decode_attrs.simps) (simp add: Let_def)
        qed (use d h False in_packet Inr in \<open>subst decode_attrs.simps, simp add: Let_def\<close>)
        moreover have "n - ?k < n" "n - ?k \<le> length (drop ?k b)" "length (dc_attrs s') \<le> PJ_STUN_MAX_ATTR"
          using False less.prems(2) d Inr by auto
        ultimately show ?thesis using less.IH less.prems(1) by metis
      qed
    qed
  qed
qed

section \<open>The decoder\<close>

lemma pj_stun_msg_check_total: "\<exists>st. pj_stun_msg_check addr pdu opts = Some st \<and>
    (st = PJ_SUCCESS \<longrightarrow> 20 \<le> length pdu \<and> (\<exists>l. GETVAL16H pdu 2 = Some l \<and> unat l + 20 \<le> length pdu))"
proof (cases "length pdu < 20")
  case False
  obtain b l m where h: "rd8 pdu 0 = Some b" "GETVAL16H pdu 2 = Some l" "GETVAL32H pdu 4 = Some m"
    using False rd_total(1)[of 0 pdu] rd_total(2)[of 2 pdu] rd_total(3)[of 4 pdu] by fastforce
  show ?thesis
  proof (cases "unat l + 20 \<le> length pdu")
    case True
    then have "unat l + 20 - 8 + 2 + 2 \<le> length pdu" "unat l + 20 - 8 + 4 + 4 \<le> length pdu" by simp_all
    then obtain t al f where "GETVAL16H pdu (unat l + 20 - 8) = Some t" "GETVAL16H pdu (unat l + 20 - 8 + 2) = Some al"
        "GETVAL32H pdu (unat l + 20 - 8 + 4) = Some f"
      using rd_total(2)[of "unat l + 20 - 8" pdu] rd_total(2)[of "unat l + 20 - 8 + 2" pdu] rd_total(3)[of "unat l + 20 - 8 + 4" pdu] by auto
    then show ?thesis using h False True unfolding pj_stun_msg_check_def by (auto simp: Let_def)
  next
    case f: False
    then show ?thesis using h False unfolding pj_stun_msg_check_def by (auto simp: Let_def)
  qed
qed (simp add: pj_stun_msg_check_def)

lemma stun_decode_total:
  assumes "PJ_STUN_CHECK_PACKET opts \<or> 4 \<le> length pdu \<or> pdu = []"
  shows "\<exists>st m n r. pj_stun_msg_decode strerror addr pdu opts p_response = Some (st, m, n, r) \<and>
    (m \<noteq> None \<longleftrightarrow> st = PJ_SUCCESS) \<and> (\<forall>msg. m = Some msg \<longrightarrow> length (sm_attr msg) \<le> PJ_STUN_MAX_ATTR) \<and> n \<le> length pdu \<and>
    (r \<noteq> None \<longrightarrow> p_response \<and> st \<noteq> PJ_SUCCESS \<and> (\<exists>t. GETVAL16H pdu 0 = Some t \<and> PJ_STUN_IS_REQUEST t))"
proof (cases "pdu = []")
  case False
  define chk where "chk = (if PJ_STUN_CHECK_PACKET opts then pj_stun_msg_check addr pdu opts
      else do { l \<leftarrow> GETVAL16H pdu 2;
                Some (if unat l + 20 > length pdu \<or> (PJ_STUN_IS_DATAGRAM opts \<and> unat l + 20 \<noteq> length pdu) then PJNATH_EINSTUNMSGLEN else PJ_SUCCESS) })"
  have "\<exists>st. chk = Some st \<and> (st = PJ_SUCCESS \<longrightarrow> (\<exists>l. GETVAL16H pdu 2 = Some l \<and> unat l + 20 \<le> length pdu))"
    using pj_stun_msg_check_total[of addr pdu opts] rd_total(2)[of 2 pdu] assms False
    by (cases "PJ_STUN_CHECK_PACKET opts") (auto simp: chk_def)
  then obtain st where st: "chk = Some st" and l: "st = PJ_SUCCESS \<Longrightarrow> \<exists>l. GETVAL16H pdu 2 = Some l \<and> unat l + 20 \<le> length pdu"
    by blast
  show ?thesis
  proof (cases "st = PJ_SUCCESS")
    case True
    then obtain l where l: "GETVAL16H pdu 2 = Some l" "unat l + 20 \<le> length pdu" using l by blast
    then obtain t magic tid where h: "GETVAL16H pdu 0 = Some t" "GETVAL32H pdu 4 = Some magic" "rd_bytes pdu 8 12 = Some tid"
      using rd_total(2)[of 0 pdu] rd_total(3)[of 4 pdu] rd_total(4)[of 8 12 pdu] by fastforce
    let ?hdr = "\<lparr>sm_type = t, sm_length = l, sm_magic = magic, sm_tsx_id = tid\<rparr>" and ?want = "p_response \<and> PJ_STUN_IS_REQUEST t"
    have "unat l \<le> length (drop 20 pdu)" using l(2) by (simp add: le_diff_conv2)
    then obtain r where r: "decode_attrs strerror ?want ?hdr (drop 20 pdu) (unat l) \<lparr>dc_attrs = [], dc_has_msg_int = False, dc_has_fingerprint = False\<rparr> = Some r"
        "loop_ok ?want r"
      using decode_attrs_total[of ?want ?hdr "unat l" "drop 20 pdu" "\<lparr>dc_attrs = [], dc_has_msg_int = False, dc_has_fingerprint = False\<rparr>" strerror] l by auto
    show ?thesis using st r l h False True unfolding pj_stun_msg_decode_def Let_def chk_def[symmetric]
      by (cases r) auto
  next
    case f: False
    then show ?thesis using st False unfolding pj_stun_msg_decode_def Let_def chk_def[symmetric] by simp
  qed
qed (simp add: pj_stun_msg_decode_def)

text \<open>A shorter packet is read beyond its end when the check is left out.\<close>

lemma stun_decode_short_unchecked:
  "0 < length pdu \<Longrightarrow> length pdu < 4 \<Longrightarrow> \<not> PJ_STUN_CHECK_PACKET opts \<Longrightarrow> pj_stun_msg_decode strerror addr pdu opts p = None"
  by (auto simp: pj_stun_msg_decode_def GETVAL16H_def rd8_def Let_def)

text \<open>
  C6 (safety): decoding a packet, whatever its bytes, reads outside it in one case only: the check of the packet is left out
  and the packet has one, two or three bytes, so that the length in bytes 2 and 3 is read past its end. In every other case
  decoding ends with a status; a message is the result exactly if the status is success, it has at most 16 attributes, and the
  parsed length lies inside the packet; a response for the sender is made only on request, only for a request, and never together
  with a message.
\<close>

theorem stun_decode_safe:
  "if PJ_STUN_CHECK_PACKET opts \<or> 4 \<le> length pdu \<or> pdu = []
   then \<exists>st m n r. pj_stun_msg_decode strerror addr pdu opts p_response = Some (st, m, n, r) \<and>
     (m \<noteq> None \<longleftrightarrow> st = PJ_SUCCESS) \<and> (\<forall>msg. m = Some msg \<longrightarrow> length (sm_attr msg) \<le> PJ_STUN_MAX_ATTR) \<and> n \<le> length pdu \<and>
     (r \<noteq> None \<longrightarrow> p_response \<and> st \<noteq> PJ_SUCCESS \<and> (\<exists>t. GETVAL16H pdu 0 = Some t \<and> PJ_STUN_IS_REQUEST t))
   else pj_stun_msg_decode strerror addr pdu opts p_response = None"
  using stun_decode_total[of opts pdu strerror addr p_response] stun_decode_short_unchecked[of pdu opts strerror addr p_response]
  by (cases "PJ_STUN_CHECK_PACKET opts \<or> 4 \<le> length pdu \<or> pdu = []") auto

theorem stun_decode_safe_witness:
  "(\<exists>st m n r. pj_stun_msg_decode (\<lambda>st. []) 0 [0, 1, 0, 8, 33, 18] \<lparr>PJ_STUN_IS_DATAGRAM = True, PJ_STUN_CHECK_PACKET = False, PJ_STUN_NO_FINGERPRINT_CHECK = False\<rparr> True =
      Some (st, m, n, r) \<and> (m \<noteq> None \<longleftrightarrow> st = PJ_SUCCESS) \<and> n \<le> 6) \<and>
   pj_stun_msg_decode (\<lambda>st. []) 0 [0, 1, 0] \<lparr>PJ_STUN_IS_DATAGRAM = True, PJ_STUN_CHECK_PACKET = False, PJ_STUN_NO_FINGERPRINT_CHECK = False\<rparr> True = None"
  using stun_decode_safe[of "\<lparr>PJ_STUN_IS_DATAGRAM = True, PJ_STUN_CHECK_PACKET = False, PJ_STUN_NO_FINGERPRINT_CHECK = False\<rparr>" "[0, 1, 0, 8, 33, 18]" "\<lambda>st. []" 0 True]
    stun_decode_safe[of "\<lparr>PJ_STUN_IS_DATAGRAM = True, PJ_STUN_CHECK_PACKET = False, PJ_STUN_NO_FINGERPRINT_CHECK = False\<rparr>" "[0, 1, 0]" "\<lambda>st. []" 0 True]
  by auto

end
