(* ===== verification/Md5.thy ===== *)
theory Md5
  imports Block_Hash
begin

text \<open>
  MD5 (\<open>pjlib-util/src/pjlib-util/md5.c\<close>) on a little-endian host, where \<open>byteReverse\<close> does nothing. The context, the 64
  unrolled steps, the counters, the padding in place; the specification is that of RFC 1321.
\<close>

section \<open>The context\<close>

type_synonym md5_words = "u32 \<times> u32 \<times> u32 \<times> u32"

record pj_md5_context =
  md_buf :: md5_words
  md_bits0 :: u32
  md_bits1 :: u32
  md_in :: "u8 list"

section \<open>Hashing one block\<close>

definition F1 :: "u32 \<Rightarrow> u32 \<Rightarrow> u32 \<Rightarrow> u32" where "F1 x y z = z XOR (x AND (y XOR z))"
definition F2 :: "u32 \<Rightarrow> u32 \<Rightarrow> u32 \<Rightarrow> u32" where "F2 x y z = F1 z x y"
definition F3 :: "u32 \<Rightarrow> u32 \<Rightarrow> u32 \<Rightarrow> u32" where "F3 x y z = x XOR y XOR z"
definition F4 :: "u32 \<Rightarrow> u32 \<Rightarrow> u32 \<Rightarrow> u32" where "F4 x y z = y XOR (x OR NOT z)"

text \<open>
  The macro changes \<open>w\<close>. As in \<open>Sha1\<close> the result lists the variables in the order in which the next call takes
  them: \<open>MD5STEP(F1, a, b, c, d, ...)\<close> is followed by \<open>MD5STEP(F1, d, a, b, c, ...)\<close>.
\<close>

fun MD5STEP :: "(u32 \<Rightarrow> u32 \<Rightarrow> u32 \<Rightarrow> u32) \<Rightarrow> md5_words \<Rightarrow> u32 \<Rightarrow> nat \<Rightarrow> md5_words" where
  "MD5STEP f (w, x, y, z) data s = (z, rol (w + (f x y z + data)) s + x, x, y)"

text \<open>The calls: the function, the index into the block, the constant and the shift.\<close>

definition md5_calls :: "((u32 \<Rightarrow> u32 \<Rightarrow> u32 \<Rightarrow> u32) \<times> nat \<times> u32 \<times> nat) list" where
  "md5_calls =
    [(F1, 0, 0xd76aa478, 7), (F1, 1, 0xe8c7b756, 12), (F1, 2, 0x242070db, 17), (F1, 3, 0xc1bdceee, 22),
     (F1, 4, 0xf57c0faf, 7), (F1, 5, 0x4787c62a, 12), (F1, 6, 0xa8304613, 17), (F1, 7, 0xfd469501, 22),
     (F1, 8, 0x698098d8, 7), (F1, 9, 0x8b44f7af, 12), (F1, 10, 0xffff5bb1, 17), (F1, 11, 0x895cd7be, 22),
     (F1, 12, 0x6b901122, 7), (F1, 13, 0xfd987193, 12), (F1, 14, 0xa679438e, 17), (F1, 15, 0x49b40821, 22),
     (F2, 1, 0xf61e2562, 5), (F2, 6, 0xc040b340, 9), (F2, 11, 0x265e5a51, 14), (F2, 0, 0xe9b6c7aa, 20),
     (F2, 5, 0xd62f105d, 5), (F2, 10, 0x02441453, 9), (F2, 15, 0xd8a1e681, 14), (F2, 4, 0xe7d3fbc8, 20),
     (F2, 9, 0x21e1cde6, 5), (F2, 14, 0xc33707d6, 9), (F2, 3, 0xf4d50d87, 14), (F2, 8, 0x455a14ed, 20),
     (F2, 13, 0xa9e3e905, 5), (F2, 2, 0xfcefa3f8, 9), (F2, 7, 0x676f02d9, 14), (F2, 12, 0x8d2a4c8a, 20),
     (F3, 5, 0xfffa3942, 4), (F3, 8, 0x8771f681, 11), (F3, 11, 0x6d9d6122, 16), (F3, 14, 0xfde5380c, 23),
     (F3, 1, 0xa4beea44, 4), (F3, 4, 0x4bdecfa9, 11), (F3, 7, 0xf6bb4b60, 16), (F3, 10, 0xbebfbc70, 23),
     (F3, 13, 0x289b7ec6, 4), (F3, 0, 0xeaa127fa, 11), (F3, 3, 0xd4ef3085, 16), (F3, 6, 0x04881d05, 23),
     (F3, 9, 0xd9d4d039, 4), (F3, 12, 0xe6db99e5, 11), (F3, 15, 0x1fa27cf8, 16), (F3, 2, 0xc4ac5665, 23),
     (F4, 0, 0xf4292244, 6), (F4, 7, 0x432aff97, 10), (F4, 14, 0xab9423a7, 15), (F4, 5, 0xfc93a039, 21),
     (F4, 12, 0x655b59c3, 6), (F4, 3, 0x8f0ccc92, 10), (F4, 10, 0xffeff47d, 15), (F4, 1, 0x85845dd1, 21),
     (F4, 8, 0x6fa87e4f, 6), (F4, 15, 0xfe2ce6e0, 10), (F4, 6, 0xa3014314, 15), (F4, 13, 0x4e0811a1, 21),
     (F4, 4, 0xf7537e82, 6), (F4, 11, 0xbd3af235, 10), (F4, 2, 0x2ad7d2bb, 15), (F4, 9, 0xeb86d391, 21)]"

fun add_md5 :: "md5_words \<Rightarrow> md5_words \<Rightarrow> md5_words" where
  "add_md5 (a, b, c, d) (a', b', c', d') = (a + a', b + b', c + c', d + d')"

definition MD5Transform :: "md5_words \<Rightarrow> u8 list \<Rightarrow> md5_words" where
  "MD5Transform buf b =
     add_md5 buf (foldl (\<lambda>r (f, k, t, s). MD5STEP f r (le_words b ! k + t) s) buf md5_calls)"

section \<open>Initialising, updating, finishing\<close>

definition pj_md5_init :: "pj_md5_context \<Rightarrow> pj_md5_context" where
  "pj_md5_init ctx = ctx\<lparr>md_buf := (0x67452301, 0xefcdab89, 0x98badcfe, 0x10325476), md_bits0 := 0, md_bits1 := 0\<rparr>"

function md5_chunks :: "pj_md5_context \<Rightarrow> u8 list \<Rightarrow> pj_md5_context" where
  "md5_chunks ctx data =
     (if 64 \<le> length data
      then md5_chunks (ctx\<lparr>md_in := take 64 data, md_buf := MD5Transform (md_buf ctx) (take 64 data)\<rparr>) (drop 64 data)
      else ctx\<lparr>md_in := memcpy_at (md_in ctx) 0 data\<rparr>)"
  by pat_completeness auto
termination by (relation "measure (\<lambda>(ctx, data). length data)") auto

declare md5_chunks.simps [simp del]

text \<open>The length is an \<open>unsigned\<close> of 32 bits.\<close>

definition pj_md5_update :: "pj_md5_context \<Rightarrow> u8 list \<Rightarrow> pj_md5_context" where
  "pj_md5_update ctx data =
     (let t = md_bits0 ctx; len = (word_of_nat (length data) :: u32);
          b0 = t + push_bit 3 len;
          b1 = (if b0 < t then md_bits1 ctx + 1 else md_bits1 ctx) + drop_bit 29 len;
          ctx1 = ctx\<lparr>md_bits0 := b0, md_bits1 := b1\<rparr>;
          n = unat (drop_bit 3 t AND 0x3f)
      in if n \<noteq> 0
         then if length data < 64 - n then ctx1\<lparr>md_in := memcpy_at (md_in ctx) n data\<rparr>
              else let b = memcpy_at (md_in ctx) n (take (64 - n) data)
                   in md5_chunks (ctx1\<lparr>md_in := b, md_buf := MD5Transform (md_buf ctx) b\<rparr>) (drop (64 - n) data)
         else md5_chunks ctx1 data)"

fun md5_digest :: "md5_words \<Rightarrow> u8 list" where
  "md5_digest (a, b, c, d) = le_bytes [a, b, c, d]"

definition pj_md5_final :: "pj_md5_context \<Rightarrow> u8 list" where
  "pj_md5_final ctx =
     (let p = unat (drop_bit 3 (md_bits0 ctx) AND 0x3F);
          b = memcpy_at (md_in ctx) p [0x80];
          count = 64 - 1 - p;
          ctx1 = (if count < 8
                  then let b' = memcpy_at b (p + 1) (replicate count 0)
                       in ctx\<lparr>md_buf := MD5Transform (md_buf ctx) b', md_in := memcpy_at b' 0 (replicate 56 0)\<rparr>
                  else ctx\<lparr>md_in := memcpy_at b (p + 1) (replicate (count - 8) 0)\<rparr>);
          b2 = memcpy_at (memcpy_at (md_in ctx1) 56 (store32 (md_bits0 ctx))) 60 (store32 (md_bits1 ctx))
      in md5_digest (MD5Transform (md_buf ctx1) b2))"

section \<open>The specification of RFC 1321\<close>

definition rfc_F :: "nat \<Rightarrow> u32 \<Rightarrow> u32 \<Rightarrow> u32 \<Rightarrow> u32" where
  "rfc_F i X Y Z = (if i < 16 then (X AND Y) OR (NOT X AND Z) else if i < 32 then (X AND Z) OR (Y AND NOT Z)
     else if i < 48 then X XOR Y XOR Z else Y XOR (X OR NOT Z))"

definition rfc_k :: "nat \<Rightarrow> nat" where
  "rfc_k i = (if i < 16 then i else if i < 32 then (5 * i + 1) mod 16 else if i < 48 then (3 * i + 5) mod 16 else 7 * i mod 16)"

definition rfc_s :: "nat \<Rightarrow> nat" where
  "rfc_s i = (if i < 16 then [7, 12, 17, 22] else if i < 32 then [5, 9, 14, 20] else if i < 48 then [4, 11, 16, 23] else [6, 10, 15, 21]) ! (i mod 4)"

text \<open>The integer parts of \<open>4294967296 * abs (sin (i + 1))\<close>.\<close>

definition rfc_T :: "u32 list" where
  "rfc_T =
    [0xd76aa478, 0xe8c7b756, 0x242070db, 0xc1bdceee, 0xf57c0faf, 0x4787c62a, 0xa8304613, 0xfd469501,
     0x698098d8, 0x8b44f7af, 0xffff5bb1, 0x895cd7be, 0x6b901122, 0xfd987193, 0xa679438e, 0x49b40821,
     0xf61e2562, 0xc040b340, 0x265e5a51, 0xe9b6c7aa, 0xd62f105d, 0x02441453, 0xd8a1e681, 0xe7d3fbc8,
     0x21e1cde6, 0xc33707d6, 0xf4d50d87, 0x455a14ed, 0xa9e3e905, 0xfcefa3f8, 0x676f02d9, 0x8d2a4c8a,
     0xfffa3942, 0x8771f681, 0x6d9d6122, 0xfde5380c, 0xa4beea44, 0x4bdecfa9, 0xf6bb4b60, 0xbebfbc70,
     0x289b7ec6, 0xeaa127fa, 0xd4ef3085, 0x04881d05, 0xd9d4d039, 0xe6db99e5, 0x1fa27cf8, 0xc4ac5665,
     0xf4292244, 0x432aff97, 0xab9423a7, 0xfc93a039, 0x655b59c3, 0x8f0ccc92, 0xffeff47d, 0x85845dd1,
     0x6fa87e4f, 0xfe2ce6e0, 0xa3014314, 0x4e0811a1, 0xf7537e82, 0xbd3af235, 0x2ad7d2bb, 0xeb86d391]"

fun rfc_op :: "u32 list \<Rightarrow> md5_words \<Rightarrow> nat \<Rightarrow> md5_words" where
  "rfc_op X (A, B, C, D) i = (D, B + word_rotl (rfc_s i) (A + rfc_F i B C D + X ! rfc_k i + rfc_T ! i), B, C)"

definition rfc_block :: "md5_words \<Rightarrow> u8 list \<Rightarrow> md5_words" where
  "rfc_block h b = add_md5 h (foldl (rfc_op (le_words b)) h [0..<64])"

definition rfc_init :: md5_words where
  "rfc_init = (0x67452301, 0xefcdab89, 0x98badcfe, 0x10325476)"

definition rfc_pad :: "u8 list \<Rightarrow> u8 list" where
  "rfc_pad m = m @ [0x80] @ replicate ((119 - length m mod 64) mod 64) 0 @ map (\<lambda>i. word_of_nat (8 * length m div 256 ^ i)) [0..<8]"

definition md5_spec :: "u8 list \<Rightarrow> u8 list" where
  "md5_spec m = md5_digest (hash_blocks rfc_block rfc_init (rfc_pad m))"

section \<open>The steps are those of the specification\<close>

lemma md5_functions:
  "F1 = rfc_F 0" "F2 = rfc_F 16" "F3 = rfc_F 32" "F4 = rfc_F 48"
proof -
  show "F1 = rfc_F 0"
    by (intro ext, rule bit_word_eqI) (auto simp: F1_def rfc_F_def bit_simps)
  show "F2 = rfc_F 16"
    by (intro ext, rule bit_word_eqI) (auto simp: F2_def F1_def rfc_F_def bit_simps)
qed (simp_all add: F3_def F4_def rfc_F_def fun_eq_iff)

lemma rfc_F_block: "rfc_F i = (if i < 16 then F1 else if i < 32 then F2 else if i < 48 then F3 else F4)"
  unfolding md5_functions by (auto simp: rfc_F_def fun_eq_iff)

lemma md5_calls_functions: "map fst md5_calls = replicate 16 F1 @ replicate 16 F2 @ replicate 16 F3 @ replicate 16 F4"
  by (simp add: md5_calls_def numeral_eq_Suc)

lemma md5_calls_rest: "map snd md5_calls = map (\<lambda>i. (rfc_k i, rfc_T ! i, rfc_s i)) [0..<64]"
  by code_simp

lemma length_md5_calls: "length md5_calls = 64"
  using arg_cong[OF md5_calls_rest, of length] by simp

lemma md5_call: "i < 64 \<Longrightarrow> md5_calls ! i = (rfc_F i, rfc_k i, rfc_T ! i, rfc_s i)"
proof -
  assume i: "i < 64"
  have "fst (md5_calls ! i) = map fst md5_calls ! i" using i length_md5_calls by simp
  also have "\<dots> = rfc_F i" unfolding md5_calls_functions rfc_F_block using i by (auto simp: nth_append)
  finally have f: "fst (md5_calls ! i) = rfc_F i" .
  have "snd (md5_calls ! i) = map snd md5_calls ! i" using i length_md5_calls by simp
  then have "snd (md5_calls ! i) = (rfc_k i, rfc_T ! i, rfc_s i)" unfolding md5_calls_rest using i by (simp del: upt_Suc)
  then show ?thesis using f by (simp add: prod_eq_iff)
qed

lemma foldl_nth: "foldl g r xs = foldl (\<lambda>r i. g r (xs ! i)) r [0..<length xs]"
proof -
  have "foldl g r (map ((!) xs) [0..<length xs]) = foldl (\<lambda>r i. g r (xs ! i)) r [0..<length xs]" by (rule foldl_map)
  then show ?thesis by (simp add: map_nth)
qed

lemma rfc_s_bounds: "0 < rfc_s i \<and> rfc_s i < 32"
proof -
  have "i mod 4 < 4" by simp
  then consider "i mod 4 = 0" | "i mod 4 = 1" | "i mod 4 = 2" | "i mod 4 = 3" by linarith
  then show ?thesis by cases (auto simp: rfc_s_def)
qed

lemma MD5Transform_rfc: "MD5Transform buf b = rfc_block buf b"
proof -
  have "(case md5_calls ! i of (f, k, t, s) \<Rightarrow> MD5STEP f r (le_words b ! k + t) s) = rfc_op (le_words b) r i" if "i \<in> set [0..<64]" for r i
    using that rfc_s_bounds[of i] by (cases r) (simp add: md5_call rol_rotl add_ac)
  then have "foldl (\<lambda>r (f, k, t, s). MD5STEP f r (le_words b ! k + t) s) buf md5_calls = foldl (rfc_op (le_words b)) buf [0..<64]"
    unfolding foldl_nth[of _ buf md5_calls] length_md5_calls by (intro foldl_cong refl) auto
  then show ?thesis by (simp add: MD5Transform_def rfc_block_def)
qed
section \<open>The context represents the message\<close>

definition md_rep :: "pj_md5_context \<Rightarrow> u8 list \<Rightarrow> bool" where
  "md_rep c m \<longleftrightarrow> length (md_in c) = 64 \<and> md_buf c = hash_blocks rfc_block rfc_init m \<and>
     take (length m mod 64) (md_in c) = left_over m \<and> md_bits0 c = bits_low (length m) \<and> md_bits1 c = bits_high (length m)"

lemma md5_chunks_hash:
  "length (md_in c) = 64 \<Longrightarrow>
   md_buf (md5_chunks c d) = hash_blocks rfc_block (md_buf c) d \<and> take (length d mod 64) (md_in (md5_chunks c d)) = left_over d \<and>
   length (md_in (md5_chunks c d)) = 64 \<and> md_bits0 (md5_chunks c d) = md_bits0 c \<and> md_bits1 (md5_chunks c d) = md_bits1 c"
proof (induction c d rule: md5_chunks.induct)
  case (1 c d)
  show ?case
  proof (cases "64 \<le> length d")
    case True
    let ?b = "take 64 d"
    have lb: "length ?b = 64" using True by simp
    have "hash_blocks rfc_block (md_buf c) d = hash_blocks rfc_block (rfc_block (md_buf c) ?b) (drop 64 d)"
      using True by (simp add: hash_blocks.simps[of _ _ d])
    moreover have "left_over d = left_over (drop 64 d)" using left_over_append[of ?b "drop 64 d"] lb by simp
    moreover have "length d mod 64 = length (drop 64 d) mod 64" using True by (simp add: le_mod_geq)
    ultimately show ?thesis using "1.IH"[OF True] True by (simp add: md5_chunks.simps[of c d] MD5Transform_rfc del: length_drop)
  next
    case False
    then show ?thesis using "1.prems" memcpy_prefix[of 0 d "md_in c"]
      by (simp add: md5_chunks.simps[of c d] length_memcpy_at)
  qed
qed

lemma md_update_rep:
  assumes "md_rep c m" "length d < 2 ^ 29"
  shows "md_rep (pj_md5_update c d) (m @ d)"
proof -
  let ?j = "length m mod 64" and ?n = "length d"
  note rep = assms(1)[unfolded md_rep_def]
  have j: "unat (drop_bit 3 (md_bits0 c) AND 0x3f) = ?j" using rep bits_position by simp
  have b0: "md_bits0 c + push_bit 3 (word_of_nat ?n) = bits_low (length (m @ d))" using rep by (simp add: bits_low_add)
  have b1: "(if bits_low (length (m @ d)) < md_bits0 c then md_bits1 c + 1 else md_bits1 c) + drop_bit 29 (word_of_nat ?n) = bits_high (length (m @ d))"
    using rep bits_high_add'[OF assms(2), of "length m"] bits_high_add(2)[OF assms(2)] by simp
  have buf: "length (md_in c) = 64" "take ?j (md_in c) = left_over m" using rep by auto
  have abs: "hash_blocks rfc_block rfc_init (m @ d) = hash_blocks rfc_block (md_buf c) (left_over m @ d)"
    "left_over (m @ d) = left_over (left_over m @ d)" "length (m @ d) mod 64 = length (left_over m @ d) mod 64"
    using rep absorb(1)[of _ _ m d] absorb(2)[of m d] by (simp_all add: mod_add_left_eq)
  consider (short) "?j \<noteq> 0" "?n < 64 - ?j" | (fill) "?j \<noteq> 0" "\<not> ?n < 64 - ?j" | (whole) "?j = 0" by blast
  then show ?thesis
  proof cases
    case short
    have l: "length (left_over m @ d) < 64" using short by simp
    then have "length (left_over m @ d) mod 64 = ?j + ?n" by simp
    then show ?thesis unfolding md_rep_def pj_md5_update_def Let_def j b0 b1 abs
      using short l buf rep memcpy_prefix[of ?j d "md_in c"] by (simp add: length_memcpy_at del: length_append)
  next
    case fill
    define b where "b = memcpy_at (md_in c) ?j (take (64 - ?j) d)"
    have jl: "?j < 64" by simp
    have lt: "length (take (64 - ?j) d) = 64 - ?j" using fill by simp
    have lb: "length b = 64" unfolding b_def using buf(1) lt jl by (simp add: length_memcpy_at)
    have b: "b = left_over m @ take (64 - ?j) d"
      using memcpy_prefix[of ?j "take (64 - ?j) d" "md_in c"] buf lt lb jl by (simp add: b_def)
    have e: "left_over m @ d = b @ drop (64 - ?j) d" by (simp add: b)
    have l: "length (b @ drop (64 - ?j) d) mod 64 = length (drop (64 - ?j) d) mod 64" using lb by simp
    show ?thesis unfolding md_rep_def pj_md5_update_def Let_def j b0 b1 abs e l b_def[symmetric]
      using fill lb md5_chunks_hash[of "c\<lparr>md_bits0 := bits_low (length (m @ d)), md_bits1 := bits_high (length (m @ d)), md_in := b, md_buf := MD5Transform (md_buf c) b\<rparr>" "drop (64 - ?j) d"]
      by (simp add: hash_blocks_block[OF lb] left_over_append MD5Transform_rfc del: length_append length_drop)
  next
    case whole
    then have lo: "left_over m = []" by (metis length_0_conv length_left_over)
    show ?thesis unfolding md_rep_def pj_md5_update_def Let_def j b0 b1 abs lo
      using whole buf md5_chunks_hash[of "c\<lparr>md_bits0 := bits_low (length (m @ d)), md_bits1 := bits_high (length (m @ d))\<rparr>" d]
      by (simp del: length_append)
  qed
qed
lemma bits_bytes: "store32 (bits_low n) @ store32 (bits_high n) = map (\<lambda>i. word_of_nat (8 * n div 256 ^ i)) [0..<8]"
proof -
  have b: "byte32 k (word_of_nat N) = word_of_nat (N div 2 ^ (8 * k))" if "k \<le> 3" for k N
    unfolding byte32_def drop_bit_eq_div[symmetric] by (rule bit_word_eqI) (use that in \<open>auto simp: bit_simps\<close>)
  show ?thesis using b[of 0] b[of 1] b[of 2] b[of 3]
    by (simp add: store32_def bits_low_def bits_high_def upt_rec flip: div_mult2_eq del: of_nat_mult)
qed

lemma md_final_rep: "md_rep c m \<Longrightarrow> pj_md5_final c = md5_spec m"
proof -
  assume r: "md_rep c m"
  note rep = r[unfolded md_rep_def]
  let ?p = "length m mod 64" and ?len = "store32 (bits_low (length m)) @ store32 (bits_high (length m))"
  let ?b = "memcpy_at (md_in c) ?p [0x80]"
  have p: "unat (drop_bit 3 (md_bits0 c) AND 0x3F) = ?p" using rep bits_position by simp
  have pl: "?p < 64" by simp
  have b: "take (?p + 1) ?b = left_over m @ [0x80]" "length ?b = 64"
    using memcpy_prefix[of ?p "[0x80]" "md_in c"] rep pl by (simp_all add: length_memcpy_at)
  have tail: "memcpy_at (memcpy_at x 56 (store32 v)) 60 (store32 w) = take 56 x @ store32 v @ store32 w" if "length x = 64" for x v w
    using that by (simp add: memcpy_at_def)
  have H: "hash_blocks rfc_block rfc_init (rfc_pad m) =
      hash_blocks rfc_block (md_buf c) (left_over m @ [0x80] @ replicate ((119 - ?p) mod 64) 0 @ ?len)"
    unfolding rfc_pad_def bits_bytes using absorb(1)[of rfc_block rfc_init m] rep by simp
  show ?thesis
  proof (cases "64 - 1 - ?p < 8")
    case True
    define b' where "b' = memcpy_at ?b (?p + 1) (replicate (64 - 1 - ?p) 0)"
    have b': "b' = left_over m @ [0x80] @ replicate (63 - ?p) 0" "length b' = 64"
      using memcpy_prefix[of "?p + 1" "replicate (63 - ?p) 0" ?b] b pl by (simp_all add: b'_def length_memcpy_at)
    have "(119 - ?p) mod 64 = (63 - ?p) + 56" using True pl by simp
    then have e: "left_over m @ [0x80] @ replicate ((119 - ?p) mod 64) 0 @ ?len = b' @ replicate 56 0 @ ?len"
      by (simp only: b'(1) replicate_add append_assoc)
    have "length (memcpy_at b' 0 (replicate 56 0)) = 64" "take 56 (memcpy_at b' 0 (replicate 56 0)) = replicate 56 0"
      using b'(2) memcpy_prefix[of 0 "replicate 56 0" b'] by (simp_all add: length_memcpy_at)
    then show ?thesis unfolding md5_spec_def H e hash_blocks_block[OF b'(2)] pj_md5_final_def Let_def p b'_def[symmetric]
      using True rep tail[of "memcpy_at b' 0 (replicate 56 0)"] by (simp add: MD5Transform_rfc)
  next
    case False
    define b' where "b' = memcpy_at ?b (?p + 1) (replicate (64 - 1 - ?p - 8) 0)"
    have l: "length b' = 64" using b pl False by (simp add: b'_def length_memcpy_at)
    have t: "take 56 b' = left_over m @ [0x80] @ replicate (55 - ?p) 0"
      using memcpy_prefix[of "?p + 1" "replicate (55 - ?p) 0" ?b] b pl False by (simp add: b'_def)
    have "119 - ?p = 64 + (55 - ?p)" using False by simp
    moreover have "(64 + (55 - ?p)) mod 64 = (55 - ?p) mod 64" by (rule mod_add_self1)
    moreover have "(55 - ?p) mod 64 = 55 - ?p" by (rule mod_less) simp
    ultimately have "(119 - ?p) mod 64 = 55 - ?p" by (simp only:)
    then have e: "left_over m @ [0x80] @ replicate ((119 - ?p) mod 64) 0 @ ?len = take 56 b' @ ?len" by (simp add: t)
    then show ?thesis unfolding md5_spec_def H e pj_md5_final_def Let_def p b'_def[symmetric]
      using False rep l tail[OF l] by (simp add: MD5Transform_rfc)
  qed
qed

lemma md_rep_in: "md_rep c m \<Longrightarrow> length (md_in c) = 64"
  by (simp add: md_rep_def)

lemma md_init_rep: "length (md_in c) = 64 \<Longrightarrow> md_rep (pj_md5_init c) []"
  by (simp add: md_rep_def pj_md5_init_def rfc_init_def bits_low_def bits_high_def)

interpretation md: incremental_digest "\<lambda>c. length (md_in c) = 64" pj_md5_init pj_md5_update pj_md5_final md_rep md5_spec "2 ^ 29"
  by unfold_locales (auto simp: md_init_rep md_final_rep intro: md_update_rep md_rep_in)

end
