(* ===== verification/Stun_Auth.thy ===== *)
theory Stun_Auth
  imports Stun_Codec Md5
begin

text \<open>
  Authentication of STUN messages (\<open>pjnath/src/pjnath/stun_auth.c\<close>, \<open>stun_auth.h\<close>): keys, challenges, the check of
  requests and responses. The callbacks of a dynamic credential are functions; \<open>user_data\<close> is part of them.
\<close>

section \<open>Credentials\<close>

datatype pj_stun_passwd_type = PJ_STUN_PASSWD_PLAIN | PJ_STUN_PASSWD_HASHED

record stun_static_cred =
  sc_realm :: "u8 list"
  sc_username :: "u8 list"
  sc_data_type :: pj_stun_passwd_type
  sc_data :: "u8 list"
  sc_nonce :: "u8 list"

record stun_dyn_cred =
  dyn_get_auth :: "pj_status \<times> u8 list \<times> u8 list"
  dyn_get_password :: "pj_stun_msg \<Rightarrow> u8 list option \<Rightarrow> u8 list \<Rightarrow> pj_status \<times> pj_stun_passwd_type \<times> u8 list"
  dyn_verify_nonce :: "(pj_stun_msg \<Rightarrow> u8 list option \<Rightarrow> u8 list \<Rightarrow> u8 list \<Rightarrow> bool) option"

datatype pj_stun_auth_cred = Cred_Static stun_static_cred | Cred_Dynamic stun_dyn_cred | Cred_Other

record pj_stun_req_cred_info =
  ri_realm :: "u8 list"
  ri_username :: "u8 list"
  ri_nonce :: "u8 list"
  ri_auth_key :: "u8 list"

definition pj_stun_auth_cred_dup :: "pj_stun_auth_cred \<Rightarrow> pj_stun_auth_cred" where
  "pj_stun_auth_cred_dup src =
     (case src of
        Cred_Static c \<Rightarrow> Cred_Static \<lparr>sc_realm = sc_realm c, sc_username = sc_username c, sc_data_type = sc_data_type c,
                            sc_data = sc_data c, sc_nonce = sc_nonce c\<rparr>
      | Cred_Dynamic c \<Rightarrow> Cred_Dynamic c
      | Cred_Other \<Rightarrow> Cred_Other)"

definition pj_stun_req_cred_info_dup :: "pj_stun_req_cred_info \<Rightarrow> pj_stun_req_cred_info" where
  "pj_stun_req_cred_info_dup src =
     \<lparr>ri_realm = ri_realm src, ri_username = ri_username src, ri_nonce = ri_nonce src, ri_auth_key = ri_auth_key src\<rparr>"

section \<open>Keys\<close>

text \<open>A quote at the beginning, then a quote at the end.\<close>

definition REMOVE_QUOTE :: "u8 list \<Rightarrow> u8 list" where
  "REMOVE_QUOTE s =
     (let s1 = (if s \<noteq> [] \<and> hd s = 34 then tl s else s) in if s1 \<noteq> [] \<and> last s1 = 34 then butlast s1 else s1)"

definition calc_md5_key :: "pj_md5_context \<Rightarrow> u8 list \<Rightarrow> u8 list \<Rightarrow> u8 list \<Rightarrow> u8 list" where
  "calc_md5_key ctx realm username passwd =
     (let ctx = pj_md5_init ctx;
          ctx = pj_md5_update ctx (REMOVE_QUOTE username);
          ctx = pj_md5_update ctx [58];
          ctx = pj_md5_update ctx (REMOVE_QUOTE realm);
          ctx = pj_md5_update ctx [58];
          ctx = pj_md5_update ctx passwd
      in pj_md5_final ctx)"

text \<open>The realm is \<open>None\<close> for a null pointer. \<open>md\<close> is the context on the stack.\<close>

definition pj_stun_create_key :: "pj_md5_context \<Rightarrow> u8 list option \<Rightarrow> u8 list \<Rightarrow> pj_stun_passwd_type \<Rightarrow> u8 list \<Rightarrow> u8 list" where
  "pj_stun_create_key md realm username data_type data =
     (case realm of
        Some r \<Rightarrow> if r \<noteq> [] then (if data_type = PJ_STUN_PASSWD_PLAIN then calc_md5_key md r username data else data) else data
      | None \<Rightarrow> data)"

section \<open>The challenge\<close>

text \<open>The result is the response, if one was made.\<close>

definition create_challenge :: "pj_stun_msg \<Rightarrow> int \<Rightarrow> u8 list option \<Rightarrow> u8 list \<Rightarrow> u8 list \<Rightarrow> (pj_status \<times> pj_stun_msg option) option" where
  "create_challenge msg err_code errstr realm nonce = do {
     (rc, r) \<leftarrow> pj_stun_msg_create_response (sm_hdr msg) err_code errstr;
     case r of
       None \<Rightarrow> Some (rc, None)
     | Some response \<Rightarrow>
         if rc \<noteq> PJ_SUCCESS then Some (rc, None)
         else let with_realm = (err_code \<noteq> 400 \<and> realm \<noteq> []);
                  (rc1, response1) = (if with_realm then pj_stun_msg_add_string_attr response PJ_STUN_ATTR_REALM realm else (PJ_SUCCESS, response));
                  nonce1 = (if with_realm \<and> nonce = [] then pj_str ''pjstun'' else nonce)
              in if rc1 \<noteq> PJ_SUCCESS then Some (rc1, None)
                 else if err_code \<noteq> 400 \<and> nonce1 \<noteq> []
                 then (case pj_stun_msg_add_string_attr response1 PJ_STUN_ATTR_NONCE nonce1 of (rc2, response2) \<Rightarrow>
                         Some (if rc2 \<noteq> PJ_SUCCESS then (rc2, None) else (PJ_SUCCESS, Some response2)))
                 else Some (PJ_SUCCESS, Some response1) }"

section \<open>The message integrity of a packet\<close>

text \<open>The loop that looks for MESSAGE-INTEGRITY: the attribute, its position in the body, and whether something follows.\<close>

fun msgint_scan :: "pj_stun_attr list \<Rightarrow> nat \<Rightarrow> pj_stun_attr option \<Rightarrow> pj_stun_attr option \<times> nat \<times> bool" where
  "msgint_scan [] pos amsgi = (amsgi, pos, False)"
| "msgint_scan (a # as) pos amsgi =
     (if attr_type a = PJ_STUN_ATTR_MESSAGE_INTEGRITY then msgint_scan as pos (Some a)
      else if amsgi \<noteq> None then (amsgi, pos, True)
      else msgint_scan as (pos + pad4 (unat (attr_length a)) + 4) amsgi)"

text \<open>The HMAC of the header, with the length up to MESSAGE-INTEGRITY if something follows it, and of the attributes before.\<close>

definition packet_digest :: "stun_env \<Rightarrow> u8 list \<Rightarrow> u8 list \<Rightarrow> nat \<Rightarrow> bool \<Rightarrow> u8 list option" where
  "packet_digest env key pkt amsgi_pos has_attr_beyond_mi = do {
     hdr \<leftarrow> rd_bytes pkt 0 20;
     body \<leftarrow> rd_bytes pkt 20 amsgi_pos;
     let ctx = pj_hmac_sha1_init (se_sha env) (se_hmac env) key;
     let ctx = pj_hmac_sha1_update ctx (if has_attr_beyond_mi then memcpy_at hdr 2 (be16 (word_of_nat (amsgi_pos + 24))) else hdr);
     let ctx = pj_hmac_sha1_update ctx body;
     Some (pj_hmac_sha1_final ctx) }"

fun hmac_of :: "pj_stun_attr \<Rightarrow> u8 list option" where
  "hmac_of (Stun_Msgint t l h) = Some h"
| "hmac_of _ = None"

fun value_of :: "pj_stun_attr \<Rightarrow> u8 list option" where
  "value_of (Stun_String t l v) = Some v"
| "value_of _ = None"

text \<open>The value of the first attribute of a type, if there is one. The outer \<open>None\<close> is an object of another structure.\<close>

definition find_value :: "pj_stun_msg \<Rightarrow> u16 \<Rightarrow> u8 list option option" where
  "find_value msg t = (case pj_stun_msg_find_attr msg t 0 of None \<Rightarrow> Some None | Some a \<Rightarrow> map_option Some (value_of a))"

section \<open>Requests\<close>

text \<open>
  The username is looked up: the key, or the code of the error, or a return at once. \<open>info\<close> has the
  realm that the server wants.
\<close>

definition check_user :: "pj_md5_context \<Rightarrow> pj_stun_auth_cred \<Rightarrow> pj_stun_msg \<Rightarrow> u8 list option \<Rightarrow> u8 list \<Rightarrow> pj_stun_req_cred_info \<Rightarrow>
    (pj_status + int) + pj_stun_req_cred_info" where
  "check_user md cred msg arealm auser info =
     (case cred of
        Cred_Static c \<Rightarrow>
          if auser = sc_username c
          then let key = pj_stun_create_key md (Some (ri_realm info)) auser (sc_data_type c) (sc_data c)
               in if key = [] then Inl (Inl PJ_EBUG) else Inr (info\<lparr>ri_username := sc_username c, ri_auth_key := key\<rparr>)
          else Inl (Inr PJ_STUN_SC_UNAUTHORIZED)
      | Cred_Dynamic c \<Rightarrow>
          (case dyn_get_password c msg arealm auser of (rc, data_type, password) \<Rightarrow>
             if rc = PJ_SUCCESS
             then let key = pj_stun_create_key md arealm auser data_type password
                  in if key = [] then Inl (Inl PJ_EBUG) else Inr (info\<lparr>ri_username := auser, ri_auth_key := key\<rparr>)
             else Inl (Inr PJ_STUN_SC_UNAUTHORIZED))
      | Cred_Other \<Rightarrow> Inl (Inl PJ_EBUG))"

text \<open>Realm and nonce against the wanted ones: the error, if there is one.\<close>

definition check_realm :: "pj_stun_req_cred_info \<Rightarrow> u8 list option \<Rightarrow> u8 list option \<Rightarrow> (int \<times> u8 list option) option" where
  "check_realm info arealm anonce =
     (case arealm of
        None \<Rightarrow> if ri_realm info \<noteq> [] then Some (PJ_STUN_SC_BAD_REQUEST, Some (pj_str ''Missing REALM''))
                else if ri_nonce info \<noteq> [] then Some (PJ_STUN_SC_UNAUTHORIZED, Some (pj_str ''NONCE required'')) else None
      | Some realm \<Rightarrow>
          if ri_realm info \<noteq> []
          then if anonce = None \<and> ri_nonce info \<noteq> [] then Some (PJ_STUN_SC_BAD_REQUEST, Some (pj_str ''Missing NONCE''))
               else if \<not> stricmp_eq realm (ri_realm info) then Some (PJ_STUN_SC_UNAUTHORIZED, Some (pj_str ''Invalid REALM''))
               else None
          else None)"

definition nonce_ok :: "pj_stun_auth_cred \<Rightarrow> pj_stun_msg \<Rightarrow> pj_stun_req_cred_info \<Rightarrow> u8 list option \<Rightarrow> u8 list \<Rightarrow> u8 list \<Rightarrow> bool" where
  "nonce_ok cred msg info arealm auser anonce =
     (case cred of
        Cred_Dynamic c \<Rightarrow> (case dyn_verify_nonce c of Some f \<Rightarrow> f msg arealm auser anonce | None \<Rightarrow> True)
      | _ \<Rightarrow> ri_nonce info \<noteq> [] \<longrightarrow> anonce = ri_nonce info)"

text \<open>
  The checks after the realm and nonce of the credential are known: \<open>Inl\<close> a return at once, \<open>Inr\<close> the way
  to the end with the error, if there is one.
\<close>

definition check_request ::
    "stun_env \<Rightarrow> pj_md5_context \<Rightarrow> u8 list \<Rightarrow> pj_stun_msg \<Rightarrow> pj_stun_auth_cred \<Rightarrow> pj_stun_req_cred_info \<Rightarrow>
     ((pj_status + (int \<times> u8 list option) option) \<times> pj_stun_req_cred_info) option" where
  "check_request env md pkt msg cred info =
     (case msgint_scan (sm_attr msg) 0 None of
        (None, _) \<Rightarrow> Some (Inr (Some (if ri_realm info \<noteq> [] then PJ_STUN_SC_UNAUTHORIZED else PJ_STUN_SC_BAD_REQUEST, None)), info)
      | (Some amsgi, amsgi_pos, beyond) \<Rightarrow> do {
          user \<leftarrow> find_value msg PJ_STUN_ATTR_USERNAME;
          case user of
            None \<Rightarrow> Some (Inr (Some (PJ_STUN_SC_BAD_REQUEST, Some (pj_str ''Missing USERNAME''))), info)
          | Some auser \<Rightarrow> do {
              arealm \<leftarrow> find_value msg PJ_STUN_ATTR_REALM;
              if ri_realm info \<noteq> [] \<and> arealm = None
              then Some (Inr (Some (PJ_STUN_SC_BAD_REQUEST, Some (pj_str ''Missing REALM''))), info)
              else case check_user md cred msg arealm auser info of
                Inl (Inl st) \<Rightarrow> Some (Inl st, info)
              | Inl (Inr code) \<Rightarrow> Some (Inr (Some (code, None)), info)
              | Inr info1 \<Rightarrow> do {
                  anonce \<leftarrow> find_value msg PJ_STUN_ATTR_NONCE;
                  case check_realm info1 arealm anonce of
                    Some e \<Rightarrow> Some (Inr (Some e), info1)
                  | None \<Rightarrow>
                      if (case anonce of Some nonce \<Rightarrow> \<not> nonce_ok cred msg info1 arealm auser nonce | None \<Rightarrow> False)
                      then Some (Inr (Some (PJ_STUN_SC_STALE_NONCE, None)), info1)
                      else do {
                        digest \<leftarrow> packet_digest env (ri_auth_key info1) pkt amsgi_pos beyond;
                        hmac \<leftarrow> hmac_of amsgi;
                        Some (Inr (if take 20 hmac \<noteq> digest then Some (PJ_STUN_SC_UNAUTHORIZED, Some (pj_str ''MESSAGE-INTEGRITY mismatch'')) else None), info1) } } } })"

text \<open>The result: status, what was found out about the credential, and the response.\<close>

definition pj_stun_authenticate_request ::
    "stun_env \<Rightarrow> pj_md5_context \<Rightarrow> u8 list \<Rightarrow> pj_stun_msg \<Rightarrow> pj_stun_auth_cred \<Rightarrow> bool \<Rightarrow>
     (pj_status \<times> pj_stun_req_cred_info \<times> pj_stun_msg option) option" where
  "pj_stun_authenticate_request env md pkt msg cred p_response =
     (let want = (p_response \<and> PJ_STUN_IS_REQUEST (sm_type (sm_hdr msg)));
          empty = \<lparr>ri_realm = [], ri_username = [], ri_nonce = [], ri_auth_key = []\<rparr>;
          auth = (case cred of
              Cred_Static c \<Rightarrow> (PJ_SUCCESS, empty\<lparr>ri_realm := sc_realm c, ri_nonce := sc_nonce c\<rparr>)
            | Cred_Dynamic c \<Rightarrow> (case dyn_get_auth c of (st, realm, nonce) \<Rightarrow> (st, empty\<lparr>ri_realm := realm, ri_nonce := nonce\<rparr>))
            | Cred_Other \<Rightarrow> (PJ_EBUG, empty))
      in case auth of (st, info) \<Rightarrow>
           if pkt = [] then Some (PJ_EINVAL, empty, None)
           else if st \<noteq> PJ_SUCCESS then Some (st, info, None)
           else do {
             (r, info1) \<leftarrow> check_request env md pkt msg cred info;
             case r of
               Inl st \<Rightarrow> Some (st, info1, None)
             | Inr None \<Rightarrow> Some (PJ_SUCCESS, info1, None)
             | Inr (Some (err_code, err_text)) \<Rightarrow> do {
                 response \<leftarrow> (if want then map_option snd (create_challenge msg err_code err_text (ri_realm info1) (ri_nonce info1)) else Some None);
                 Some (PJ_STATUS_FROM_STUN_CODE err_code, info1, response) } })"

section \<open>Responses\<close>

fun err_code_of :: "pj_stun_attr \<Rightarrow> int option" where
  "err_code_of (Stun_Errcode t l code reason) = Some code"
| "err_code_of _ = None"

definition pj_stun_auth_valid_for_msg :: "pj_stun_msg \<Rightarrow> bool option" where
  "pj_stun_auth_valid_for_msg msg =
     (let msg_type = sm_type (sm_hdr msg)
      in if \<not> PJ_STUN_IS_ERROR_RESPONSE msg_type \<and> \<not> PJ_STUN_IS_INDICATION msg_type then Some True
         else if PJ_STUN_IS_INDICATION msg_type then Some False
         else case pj_stun_msg_find_attr msg PJ_STUN_ATTR_ERROR_CODE 0 of
                None \<Rightarrow> Some True
              | Some a \<Rightarrow> do { code \<leftarrow> err_code_of a;
                  Some (code \<notin> {PJ_STUN_SC_BAD_REQUEST, PJ_STUN_SC_UNAUTHORIZED, PJ_STUN_SC_STALE_NONCE, PJ_STUN_SC_UNKNOWN_ATTRIBUTE}) })"

definition pj_stun_authenticate_response :: "stun_env \<Rightarrow> u8 list \<Rightarrow> pj_stun_msg \<Rightarrow> u8 list \<Rightarrow> pj_status option" where
  "pj_stun_authenticate_response env pkt msg key =
     (if pkt = [] then Some PJ_EINVAL
      else if pj_stun_msg_find_attr msg PJ_STUN_ATTR_MESSAGE_INTEGRITY 0 = None then Some (PJ_STATUS_FROM_STUN_CODE PJ_STUN_SC_UNAUTHORIZED)
      else if sm_length (sm_hdr msg) < 24 then Some PJNATH_EINSTUNMSGLEN
      else case msgint_scan (sm_attr msg) 0 None of
        (None, _) \<Rightarrow> Some (PJ_STATUS_FROM_STUN_CODE PJ_STUN_SC_BAD_REQUEST)
      | (Some amsgi, amsgi_pos, beyond) \<Rightarrow> do {
          digest \<leftarrow> packet_digest env key pkt amsgi_pos beyond;
          hmac \<leftarrow> hmac_of amsgi;
          Some (if take 20 hmac \<noteq> digest then PJ_STATUS_FROM_STUN_CODE PJ_STUN_SC_UNAUTHORIZED else PJ_SUCCESS) })"

section \<open>What is accepted\<close>

lemma attr_type_received [simp]: "attr_type (received p hdr a) = attr_type a"
  by (cases "(p, hdr, a)" rule: received.cases) auto

lemma msgint_scan_body:
  assumes "list_all body_attr body" "length (sm_tsx_id hdr) = 12"
  shows "msgint_scan (map (received p hdr) body @ as) pos None = msgint_scan as (pos + body_size p hdr body) None"
  using assms
proof (induction body arbitrary: pos)
  case (Cons a body)
  then show ?case using wire_length_field[of a hdr p] by (simp add: body_attr_def add.assoc)
qed simp

lemma msgint_scan_signed:
  assumes "list_all body_attr body" "length (sm_tsx_id hdr) = 12" "attr_type a = PJ_STUN_ATTR_MESSAGE_INTEGRITY"
    and "\<forall>b\<in>set as. attr_type b \<noteq> PJ_STUN_ATTR_MESSAGE_INTEGRITY"
  shows "msgint_scan (map (received p hdr) body @ a # as) 0 None = (Some a, body_size p hdr body, as \<noteq> [])"
  using msgint_scan_body[OF assms(1,2), of p "a # as" 0] assms(3,4) by (cases as) simp_all

lemma packet_digest_packet:
  assumes "env_ok env" "length k < 2 ^ 29" "length bs < 2 ^ 29" "length (sm_tsx_id hdr) = 12" "beyond \<or> l = length bs + 24"
  shows "packet_digest env k (stun_header hdr l @ bs @ r) (length bs) beyond = Some (msgint_value k (stun_header hdr (length bs + 24) @ bs))"
proof -
  have h: "length (stun_header hdr n) = 20" for n using assms(4) by simp
  have e: "pj_hmac_sha1_final (pj_hmac_sha1_update (pj_hmac_sha1_update (pj_hmac_sha1_init (se_sha env) (se_hmac env) k) (stun_header hdr (length bs + 24))) bs) =
      msgint_value k (stun_header hdr (length bs + 24) @ bs)"
    using hmac_pieces[of "se_sha env" "se_hmac env" k "[stun_header hdr (length bs + 24), bs]"] assms(1-3) h
    by (simp add: env_ok_def msgint_value_def)
  have m: "memcpy_at (stun_header hdr l) 2 (be16 (word_of_nat (length bs + 24))) = stun_header hdr (length bs + 24)"
    using memcpy_at_append[of "be16 (sm_type hdr)" 2] by (simp add: stun_header_def)
  have "rd_bytes (stun_header hdr l @ bs @ r) 0 20 = Some (stun_header hdr l)"
    using rd_prefix(1)[of "stun_header hdr l" "bs @ r"] h[of l] by simp
  moreover have "rd_bytes (stun_header hdr l @ bs @ r) 20 (length bs) = Some bs"
    using h[of l] by (simp add: GETVAL_skip)
  ultimately show ?thesis using e m assms(5) by (auto simp: packet_digest_def Let_def)
qed

lemma find_attr_from_append: "find_attr_from (as @ bs) t = (case find_attr_from as t of Some a \<Rightarrow> Some a | None \<Rightarrow> find_attr_from bs t)"
  by (induction as) auto

lemma find_attr_from_received: "find_attr_from (map (received p hdr) as) t = map_option (received p hdr) (find_attr_from as t)"
  by (induction as) auto

lemma find_attr_from_type: "find_attr_from as t = Some a \<Longrightarrow> attr_type a = t \<and> a \<in> set as"
  by (induction as) (auto split: if_splits)


lemma closing_values_cons:
  "closing_values k hdr bs True hf l = Stun_Msgint PJ_STUN_ATTR_MESSAGE_INTEGRITY 20 (msgint_value k (stun_header hdr (length bs + 24) @ bs)) #
     (if hf then [Stun_Uint PJ_STUN_ATTR_FINGERPRINT l (let pre = stun_pre k hdr bs True in fingerprint_value (stun_header hdr (length pre + 8) @ pre))] else [])"
  by (simp add: closing_values_def closing_def)

text \<open>The packet of a signed message, as its receiver takes it apart.\<close>

lemma signed_packet_parts:
  assumes "list_all body_attr body" "length (sm_tsx_id hdr) = 12" "laid_out p hdr body bs" "length bs = body_size p hdr body" "length bs < 2 ^ 29"
    and "env_ok env" "length k' < 2 ^ 29"
  shows "msgint_scan (map (received p hdr) body @ closing_values k hdr bs True hf l) 0 None =
      (Some (Stun_Msgint PJ_STUN_ATTR_MESSAGE_INTEGRITY 20 (msgint_value k (stun_header hdr (length bs + 24) @ bs))), length bs, hf)"
    "packet_digest env k' (stun_packet k hdr bs True hf) (length bs) hf = Some (msgint_value k' (stun_header hdr (length bs + 24) @ bs))"
proof -
  show "msgint_scan (map (received p hdr) body @ closing_values k hdr bs True hf l) 0 None =
      (Some (Stun_Msgint PJ_STUN_ATTR_MESSAGE_INTEGRITY 20 (msgint_value k (stun_header hdr (length bs + 24) @ bs))), length bs, hf)"
    using msgint_scan_signed[OF assms(1,2)] assms(4) unfolding closing_values_cons by auto
  have "\<exists>r. stun_packet k hdr bs True hf = stun_header hdr (length bs + 24 + (if hf then 8 else 0)) @ bs @ r"
    by (cases hf) (auto simp: stun_packet_def Let_def length_stun_pre stun_pre_def)
  then obtain r where "stun_packet k hdr bs True hf = stun_header hdr (length bs + 24 + (if hf then 8 else 0)) @ bs @ r" by blast
  then show "packet_digest env k' (stun_packet k hdr bs True hf) (length bs) hf = Some (msgint_value k' (stun_header hdr (length bs + 24) @ bs))"
    using packet_digest_packet[OF assms(6,7,5,2), of hf "length bs + 24 + (if hf then 8 else 0)" r] by auto
qed


lemma not_short: "24 \<le> n \<Longrightarrow> n < 2 ^ 16 \<Longrightarrow> \<not> (word_of_nat n :: u16) < 24"
  using unat_small[of n] by (simp add: word_less_nat_alt)

lemma length_calc_pre: "length (sm_tsx_id hdr) = 12 \<Longrightarrow> length (stun_header hdr l @ bs) = 20 + length bs"
  by simp


section \<open>Requests with a static credential\<close>

lemma calc_md5_key_spec:
  assumes "length (md_in md) = 64" "length username < 2 ^ 28" "length realm < 2 ^ 28" "length passwd < 2 ^ 29"
  shows "calc_md5_key md realm username passwd = md5_spec (REMOVE_QUOTE username @ [58] @ REMOVE_QUOTE realm @ [58] @ passwd)"
proof -
  have q: "length (REMOVE_QUOTE s) \<le> length s" for s by (auto simp: REMOVE_QUOTE_def Let_def)
  have "length (REMOVE_QUOTE username) < 2 ^ 29" "length (REMOVE_QUOTE realm) < 2 ^ 29" using assms(2,3) q[of username] q[of realm] by simp_all
  then show ?thesis
    using md.digest_pieces[of md "[REMOVE_QUOTE username, [58], REMOVE_QUOTE realm, [58], passwd]"] assms by (simp add: calc_md5_key_def Let_def)
qed

definition texts_fit :: "stun_static_cred \<Rightarrow> bool" where
  "texts_fit c \<longleftrightarrow> length (sc_username c) < 2 ^ 28 \<and> length (sc_realm c) < 2 ^ 28 \<and> length (sc_data c) < 2 ^ 29"

text \<open>The key of a credential, as RFC 5389 defines it.\<close>

definition credential_key :: "stun_static_cred \<Rightarrow> u8 list" where
  "credential_key c =
     (if sc_realm c \<noteq> [] \<and> sc_data_type c = PJ_STUN_PASSWD_PLAIN
      then md5_spec (REMOVE_QUOTE (sc_username c) @ [58] @ REMOVE_QUOTE (sc_realm c) @ [58] @ sc_data c)
      else sc_data c)"

lemma create_key_spec:
  "length (md_in md) = 64 \<Longrightarrow> texts_fit c \<Longrightarrow>
   pj_stun_create_key md (Some (sc_realm c)) (sc_username c) (sc_data_type c) (sc_data c) = credential_key c"
  by (simp add: pj_stun_create_key_def credential_key_def calc_md5_key_spec texts_fit_def)

text \<open>
  A message carries what the server asks for: the name, and for a long-term credential realm and nonce. With a short-term credential
  the message has no realm and the credential no nonce: with one, the message would be refused (\<open>short_term_nonce_never_accepted\<close>).
\<close>

definition carries_credential :: "stun_static_cred \<Rightarrow> pj_stun_msg \<Rightarrow> bool" where
  "carries_credential c msg \<longleftrightarrow> find_value msg PJ_STUN_ATTR_USERNAME = Some (Some (sc_username c)) \<and>
     (if sc_realm c = [] then find_value msg PJ_STUN_ATTR_REALM = Some None \<and> sc_nonce c = []
      else find_value msg PJ_STUN_ATTR_REALM = Some (Some (sc_realm c)) \<and>
        (sc_nonce c \<noteq> [] \<longrightarrow> find_value msg PJ_STUN_ATTR_NONCE = Some (Some (sc_nonce c))))"

lemma find_value_received:
  assumes body: "list_all body_attr body" and m: "sm_magic hdr = PJ_STUN_MAGIC"
    and t: "t \<noteq> PJ_STUN_ATTR_MESSAGE_INTEGRITY" "t \<noteq> PJ_STUN_ATTR_FINGERPRINT" "t \<noteq> PJ_STUN_ATTR_SOFTWARE"
    and a: "sm_attr msg = body @ closing hm h hf l v" "sm_attr msg' = map (received p hdr) body @ closing hm h' hf l' v'"
  shows "find_value msg' t = find_value msg t"
proof -
  have c: "find_attr_from (closing hm h hf l v) t = None" "find_attr_from (closing hm h' hf l' v') t = None"
    using t by (simp_all add: closing_def)
  have v: "value_of (received p hdr b) = value_of b" if "attr_type b = t" for b
  proof (cases b)
    case (Stun_Sockaddr t l x sa)
    then show ?thesis by (cases sa) simp_all
  qed (use that t(3) m in \<open>simp_all add: counts_padding_def\<close>)
  have "find_attr_from (sm_attr msg') t = map_option (received p hdr) (find_attr_from (sm_attr msg) t)"
    unfolding a find_attr_from_append c find_attr_from_received by (simp split: option.split)
  then show ?thesis using v find_attr_from_type[of "sm_attr msg" t]
    by (auto simp: find_value_def pj_stun_msg_find_attr_def split: option.splits)
qed

lemma nonce_structure:
  assumes "list_all attr_ok (sm_attr msg)"
  shows "\<exists>v. find_value msg PJ_STUN_ATTR_NONCE = Some v"
proof (cases "find_attr_from (sm_attr msg) PJ_STUN_ATTR_NONCE")
  case (Some a)
  have "find_attr_desc PJ_STUN_ATTR_NONCE = Some (''NONCE'', String_Codec)"
    by (simp add: find_attr_desc_def stun_attr_types PJ_STUN_ATTR_NONCE_def mandatory_attr_desc_def)
  then show ?thesis using Some assms find_attr_from_type[OF Some]
    by (cases a) (auto simp: find_value_def pj_stun_msg_find_attr_def list_all_iff attr_ok_def struct_of_codec_def)
qed (simp add: find_value_def pj_stun_msg_find_attr_def)

lemma stricmp_eq_refl [simp]: "stricmp_eq a a"
  by (simp add: stricmp_eq_def strnicmp_eq_def)

lemma length_md5_spec [simp]: "length (md5_spec m) = 16"
proof -
  obtain a b c d where "hash_blocks rfc_block rfc_init (rfc_pad m) = (a, b, c, d)" by (metis prod_cases4)
  then show ?thesis by (simp add: md5_spec_def le_bytes_def)
qed

lemma credential_accepted_at:
  assumes "stun_msg_ok (se_padding_char env) msg" "env_ok env" "stun_has PJ_STUN_ATTR_MESSAGE_INTEGRITY msg"
    and "n = 20 + body_size (se_padding_char env) (sm_hdr msg) (sm_attr msg)" "n \<le> length buf" "length buf < 2 ^ 29"
    and "stun_has PJ_STUN_ATTR_FINGERPRINT msg \<or> PJ_STUN_NO_FINGERPRINT_CHECK opts \<or> \<not> PJ_STUN_CHECK_PACKET opts" "sm_magic (sm_hdr msg) = PJ_STUN_MAGIC"
    and "env_ok env'" "length (md_in md) = 64" "length (md_in md') = 64" "texts_fit c" "credential_key c \<noteq> []" "carries_credential c msg"
  shows "\<exists>msg' buf' m.
    pj_stun_msg_encode env msg buf (Some (pj_stun_create_key md (Some (sc_realm c)) (sc_username c) (sc_data_type c) (sc_data c))) =
      Some (PJ_SUCCESS, msg', buf', n) \<and>
    pj_stun_msg_decode strerror addr (take n buf') opts want = Some (PJ_SUCCESS, Some m, n, None) \<and>
    pj_stun_authenticate_request env' md' (take n buf') m (Cred_Static c) want' =
      Some (PJ_SUCCESS, \<lparr>ri_realm = sc_realm c, ri_username = sc_username c, ri_nonce = sc_nonce c, ri_auth_key = credential_key c\<rparr>, None)"
proof -
  let ?hf = "stun_has PJ_STUN_ATTR_FINGERPRINT msg" and ?p = "se_padding_char env" and ?hdr = "sm_hdr msg" and ?k = "credential_key c"
  have hm: "stun_has PJ_STUN_ATTR_MESSAGE_INTEGRITY msg = True" using assms(3) by simp
  have k: "length ?k < 2 ^ 29" using assms(12) by (simp add: credential_key_def texts_fit_def)
  have c: "?hf \<or> sm_magic ?hdr \<noteq> PJ_STUN_MAGIC \<or> PJ_STUN_NO_FINGERPRINT_CHECK opts \<or> \<not> PJ_STUN_CHECK_PACKET opts" using assms(7) by blast
  obtain bs l where bs: "laid_out ?p ?hdr (stun_body msg) bs" "length bs < 2 ^ 16"
    and n: "n = 20 + length bs + (if True then 24 else 0) + (if ?hf then 8 else 0)"
    and e: "pj_stun_msg_encode env msg buf (Some ?k) = Some (PJ_SUCCESS, msg\<lparr>sm_hdr := ?hdr\<lparr>sm_length := word_of_nat (n - 20)\<rparr>,
      sm_attr := stun_body msg @ closing_values ?k ?hdr bs True ?hf l\<rparr>, stun_packet ?k ?hdr bs True ?hf @ drop n buf, n)"
    and tk: "take n (stun_packet ?k ?hdr bs True ?hf @ drop n buf) = stun_packet ?k ?hdr bs True ?hf"
    and d: "\<forall>strerror addr want. pj_stun_msg_decode strerror addr (stun_packet ?k ?hdr bs True ?hf) opts want =
      Some (PJ_SUCCESS, Some \<lparr>sm_hdr = ?hdr\<lparr>sm_length := word_of_nat (n - 20)\<rparr>,
        sm_attr = map (received ?p ?hdr) (stun_body msg) @ closing_values ?k ?hdr bs True ?hf 4\<rparr>, n, None)"
    by (rule stun_sent[OF assms(1,2) refl k assms(4-6) c, unfolded hm])
  have tid: "length (sm_tsx_id ?hdr) = 12" using assms(1) by (simp add: stun_msg_ok_def)
  have bl: "length bs = body_size ?p ?hdr (stun_body msg)" "length bs < 2 ^ 29" using laid_out_length[OF bs(1)] bs(2) by simp_all
  note sp = signed_packet_parts[OF stun_msg_parts(2)[OF assms(1)] tid bs(1) bl assms(9) k]
  let ?pk = "stun_packet ?k ?hdr bs True ?hf"
  let ?m = "\<lparr>sm_hdr = ?hdr\<lparr>sm_length := word_of_nat (n - 20)\<rparr>, sm_attr = map (received ?p ?hdr) (stun_body msg) @ closing_values ?k ?hdr bs True ?hf 4\<rparr>"
  have ne: "?pk \<noteq> []" using length_stun_packet[OF tid, of ?k bs True ?hf] by auto
  obtain h0 l0 v0 where at: "sm_attr msg = stun_body msg @ closing True h0 ?hf l0 v0" using stun_msg_parts(1)[OF assms(1)] hm by auto
  have fv: "find_value ?m t = find_value msg t" if "t = PJ_STUN_ATTR_USERNAME \<or> t = PJ_STUN_ATTR_REALM \<or> t = PJ_STUN_ATTR_NONCE" for t
  proof -
    have "t \<noteq> PJ_STUN_ATTR_MESSAGE_INTEGRITY" "t \<noteq> PJ_STUN_ATTR_FINGERPRINT" "t \<noteq> PJ_STUN_ATTR_SOFTWARE"
      using that by (auto simp: stun_attr_types PJ_STUN_ATTR_USERNAME_def PJ_STUN_ATTR_REALM_def PJ_STUN_ATTR_NONCE_def)
    then show ?thesis
      by (rule find_value_received[OF stun_msg_parts(2)[OF assms(1)] assms(8) _ _ _ at, where p = ?p]) (simp add: closing_values_def)
  qed
  obtain nv where nv: "find_value msg PJ_STUN_ATTR_NONCE = Some nv" using nonce_structure[of msg] assms(1) by (auto simp: stun_msg_ok_def)
  have key: "pj_stun_create_key md' (Some (sc_realm c)) (sc_username c) (sc_data_type c) (sc_data c) = ?k"
    "pj_stun_create_key md (Some (sc_realm c)) (sc_username c) (sc_data_type c) (sc_data c) = ?k"
    using create_key_spec assms(10-12) by auto
  let ?info = "\<lparr>ri_realm = sc_realm c, ri_username = sc_username c, ri_nonce = sc_nonce c, ri_auth_key = ?k\<rparr>"
  let ?start = "\<lparr>ri_realm = sc_realm c, ri_username = [], ri_nonce = sc_nonce c, ri_auth_key = []\<rparr>"
  obtain rv where rv: "find_value msg PJ_STUN_ATTR_REALM = Some rv" "sc_realm c \<noteq> [] \<longrightarrow> rv \<noteq> None"
      "check_realm ?info rv nv = None" "case nv of Some nonce \<Rightarrow> nonce_ok (Cred_Static c) ?m ?info rv (sc_username c) nonce | None \<Rightarrow> True"
    using assms(14) nv by (cases "sc_realm c = []"; cases nv) (auto simp: carries_credential_def check_realm_def nonce_ok_def)
  have us: "check_user md' (Cred_Static c) ?m rv (sc_username c) ?start = Inr ?info"
    using key(1) assms(13) by (simp add: check_user_def)
  have un: "find_value msg PJ_STUN_ATTR_USERNAME = Some (Some (sc_username c))" using assms(14) by (simp add: carries_credential_def)
  have tm: "take 20 (msgint_value ?k x) = msgint_value ?k x" for x by simp
  have "check_request env' md' ?pk ?m (Cred_Static c) ?start = Some (Inr None, ?info)"
    using rv us un nv fv[of PJ_STUN_ATTR_USERNAME] fv[of PJ_STUN_ATTR_REALM] fv[of PJ_STUN_ATTR_NONCE]
    by (cases nv; cases rv) (simp_all add: check_request_def sp tm)
  then have a: "pj_stun_authenticate_request env' md' (take n (?pk @ drop n buf)) ?m (Cred_Static c) want' = Some (PJ_SUCCESS, ?info, None)"
    unfolding tk using ne by (simp add: pj_stun_authenticate_request_def Let_def)
  have d': "pj_stun_msg_decode strerror addr (take n (?pk @ drop n buf)) opts want = Some (PJ_SUCCESS, Some ?m, n, None)"
    unfolding tk by (rule d[rule_format])
  let ?m' = "msg\<lparr>sm_hdr := ?hdr\<lparr>sm_length := word_of_nat (n - 20)\<rparr>, sm_attr := stun_body msg @ closing_values ?k ?hdr bs True ?hf l\<rparr>"
  show ?thesis unfolding key by (rule exI[of _ ?m'], rule exI[of _ "?pk @ drop n buf"], rule exI[of _ ?m], intro conjI e d' a)
qed

text \<open>
  C19 (functional): a request that carries the username, and for a long-term credential the realm and the nonce, and is signed with the
  key made from the password, is accepted by the server that has the same static credential, and the server knows from
  the result whose request it was. The key is the password, or MD5 of name, realm and password without their quotes. A short-term
  credential must have no nonce, and its message no realm. The packet has a FINGERPRINT, or the receiver does not look for one.
\<close>

theorem stun_credential_accepted:
  assumes "stun_msg_ok (se_padding_char env) msg" "env_ok env" "stun_has PJ_STUN_ATTR_MESSAGE_INTEGRITY msg"
    and "n = 20 + body_size (se_padding_char env) (sm_hdr msg) (sm_attr msg)" "n \<le> length buf" "length buf < 2 ^ 29"
    and "stun_has PJ_STUN_ATTR_FINGERPRINT msg \<or> PJ_STUN_NO_FINGERPRINT_CHECK opts \<or> \<not> PJ_STUN_CHECK_PACKET opts" "sm_magic (sm_hdr msg) = PJ_STUN_MAGIC"
    and "env_ok env'" "length (md_in md) = 64" "length (md_in md') = 64" "texts_fit c" "credential_key c \<noteq> []" "carries_credential c msg"
  shows "\<exists>msg' buf' m.
    pj_stun_msg_encode env msg buf (Some (pj_stun_create_key md (Some (sc_realm c)) (sc_username c) (sc_data_type c) (sc_data c))) =
      Some (PJ_SUCCESS, msg', buf', n) \<and>
    pj_stun_msg_decode strerror addr (take n buf') opts want = Some (PJ_SUCCESS, Some m, n, None) \<and>
    pj_stun_authenticate_request env' md' (take n buf') m (Cred_Static c) want' =
      Some (PJ_SUCCESS, \<lparr>ri_realm = sc_realm c, ri_username = sc_username c, ri_nonce = sc_nonce c, ri_auth_key = credential_key c\<rparr>, None)"
  by (rule credential_accepted_at[OF assms])

lemma check_user_static:
  "check_user md (Cred_Static c) msg arealm auser info = Inr info1 \<longleftrightarrow> auser = sc_username c \<and>
     pj_stun_create_key md (Some (ri_realm info)) auser (sc_data_type c) (sc_data c) \<noteq> [] \<and>
     info1 = info\<lparr>ri_username := sc_username c, ri_auth_key := pj_stun_create_key md (Some (ri_realm info)) auser (sc_data_type c) (sc_data c)\<rparr>"
  by (auto simp: check_user_def Let_def)

lemma check_user_error: "check_user md cred msg arealm auser info = Inl (Inl st) \<Longrightarrow> st = PJ_EBUG"
  by (auto simp: check_user_def Let_def split: pj_stun_auth_cred.splits prod.splits if_splits)

lemma check_request_split:
  assumes "check_request env md pkt msg cred info = Some (x, info1)"
  shows "(\<exists>st. x = Inl st \<and> st = PJ_EBUG) \<or> (\<exists>e. x = Inr (Some e)) \<or>
    (x = Inr None \<and> (\<exists>a pos beyond auser arealm anonce h.
       msgint_scan (sm_attr msg) 0 None = (Some a, pos, beyond) \<and> find_value msg PJ_STUN_ATTR_USERNAME = Some (Some auser) \<and>
       find_value msg PJ_STUN_ATTR_REALM = Some arealm \<and> find_value msg PJ_STUN_ATTR_NONCE = Some anonce \<and>
       check_user md cred msg arealm auser info = Inr info1 \<and> check_realm info1 arealm anonce = None \<and>
       (\<forall>n. anonce = Some n \<longrightarrow> nonce_ok cred msg info1 arealm auser n) \<and>
       packet_digest env (ri_auth_key info1) pkt pos beyond = Some (take 20 h) \<and> hmac_of a = Some h))"
proof -
  obtain m pos beyond where ms: "msgint_scan (sm_attr msg) 0 None = (m, pos, beyond)" by (metis prod_cases3)
  show ?thesis
  proof (cases m)
    case None
    then show ?thesis using assms ms by (auto simp: check_request_def)
  next
    case (Some a)
    show ?thesis
    proof (cases "\<exists>auser. find_value msg PJ_STUN_ATTR_USERNAME = Some (Some auser)")
      case False
      then show ?thesis using assms ms Some by (auto simp: check_request_def split: bind_splits option.splits)
    next
      case True
      then obtain auser where u: "find_value msg PJ_STUN_ATTR_USERNAME = Some (Some auser)" by blast
      obtain arealm where re: "find_value msg PJ_STUN_ATTR_REALM = Some arealm"
        using assms ms Some u by (auto simp: check_request_def split: bind_splits)
      show ?thesis
      proof (cases "check_user md cred msg arealm auser info")
        case (Inl y)
        then show ?thesis using assms ms Some u re check_user_error by (cases y) (auto simp: check_request_def split: if_splits)
      next
        case (Inr i1)
        show ?thesis
        proof (cases "ri_realm info \<noteq> [] \<and> arealm = None")
          case False
          have r: "do { anonce \<leftarrow> find_value msg PJ_STUN_ATTR_NONCE;
              case check_realm i1 arealm anonce of
                Some e \<Rightarrow> Some (Inr (Some e), i1)
              | None \<Rightarrow>
                  if (case anonce of Some nonce \<Rightarrow> \<not> nonce_ok cred msg i1 arealm auser nonce | None \<Rightarrow> False)
                  then Some (Inr (Some (PJ_STUN_SC_STALE_NONCE, None)), i1)
                  else do {
                    digest \<leftarrow> packet_digest env (ri_auth_key i1) pkt pos beyond;
                    hmac \<leftarrow> hmac_of a;
                    Some (Inr (if take 20 hmac \<noteq> digest then Some (PJ_STUN_SC_UNAUTHORIZED, Some (pj_str ''MESSAGE-INTEGRITY mismatch'')) else None), i1) } } =
              Some (x, info1)"
            using assms ms Some u re Inr False unfolding check_request_def by simp
          then obtain anonce where an: "find_value msg PJ_STUN_ATTR_NONCE = Some anonce" by (auto split: bind_splits)
          then show ?thesis using r ms Some u re Inr by (cases anonce) (auto split: bind_splits option.splits if_splits)
        qed (use assms ms Some u re Inr in \<open>auto simp: check_request_def split: if_splits\<close>)
      qed
    qed
  qed
qed

text \<open>
  Where a message is signed: the last of the first MESSAGE-INTEGRITY attributes in a row, what the attributes before take in the
  packet, and whether something follows. The bytes that the signature covers: everything before, with the length in the header cut off behind
  MESSAGE-INTEGRITY if something follows.
\<close>

definition signature_at :: "pj_stun_attr list \<Rightarrow> pj_stun_attr \<Rightarrow> nat \<Rightarrow> bool \<Rightarrow> bool" where
  "signature_at attrs a pos follows \<longleftrightarrow>
     (\<exists>before mis after. attrs = before @ mis @ a # after \<and> (\<forall>b \<in> set before. attr_type b \<noteq> PJ_STUN_ATTR_MESSAGE_INTEGRITY) \<and>
        (\<forall>b \<in> set (mis @ [a]). attr_type b = PJ_STUN_ATTR_MESSAGE_INTEGRITY) \<and>
        (\<forall>b rest. after = b # rest \<longrightarrow> attr_type b \<noteq> PJ_STUN_ATTR_MESSAGE_INTEGRITY) \<and>
        pos = (\<Sum>b\<leftarrow>before. pad4 (unat (attr_length b)) + 4) \<and> (follows \<longleftrightarrow> after \<noteq> []))"

definition signed_bytes :: "u8 list \<Rightarrow> nat \<Rightarrow> bool \<Rightarrow> u8 list" where
  "signed_bytes pkt pos follows =
     take 2 pkt @ (if follows then be16 (word_of_nat (pos + 24)) else take 2 (drop 2 pkt)) @ take (16 + pos) (drop 4 pkt)"

lemma msgint_scan_more:
  "msgint_scan as pos (Some m) = (Some a, pos', beyond) \<Longrightarrow>
   pos' = pos \<and> (\<exists>mis after. m # as = mis @ a # after \<and> (\<forall>b \<in> set (tl (mis @ [a])). attr_type b = PJ_STUN_ATTR_MESSAGE_INTEGRITY) \<and>
     (\<forall>b rest. after = b # rest \<longrightarrow> attr_type b \<noteq> PJ_STUN_ATTR_MESSAGE_INTEGRITY) \<and> (beyond \<longleftrightarrow> after \<noteq> []))"
proof (induction as arbitrary: m)
  case Nil
  then show ?case by (intro conjI exI[of _ "[]"] exI[of _ "[]"]) auto
next
  case (Cons x as)
  show ?case
  proof (cases "attr_type x = PJ_STUN_ATTR_MESSAGE_INTEGRITY")
    case True
    from Cons.IH[of x] Cons.prems True obtain mis after where h: "pos' = pos" "x # as = mis @ a # after"
        "\<forall>b \<in> set (tl (mis @ [a])). attr_type b = PJ_STUN_ATTR_MESSAGE_INTEGRITY"
        "\<forall>b rest. after = b # rest \<longrightarrow> attr_type b \<noteq> PJ_STUN_ATTR_MESSAGE_INTEGRITY" "beyond \<longleftrightarrow> after \<noteq> []" by auto
    have "\<forall>b \<in> set (mis @ [a]). attr_type b = PJ_STUN_ATTR_MESSAGE_INTEGRITY" using h(2,3) True by (cases mis) auto
    then show ?thesis using h(1,2,4,5) by (intro conjI exI[of _ "m # mis"] exI[of _ after]) simp_all
  next
    case False
    then show ?thesis using Cons.prems by (intro conjI exI[of _ "[]"] exI[of _ "x # as"]) auto
  qed
qed

lemma msgint_scan_at:
  "msgint_scan as pos None = (Some a, pos', beyond) \<Longrightarrow> \<exists>n. pos' = pos + n \<and> signature_at as a n beyond"
proof (induction as arbitrary: pos)
  case (Cons x as)
  show ?case
  proof (cases "attr_type x = PJ_STUN_ATTR_MESSAGE_INTEGRITY")
    case True
    then have "msgint_scan as pos (Some x) = (Some a, pos', beyond)" using Cons.prems by simp
    from msgint_scan_more[OF this] obtain mis after where h: "pos' = pos" "x # as = mis @ a # after"
        "\<forall>b \<in> set (tl (mis @ [a])). attr_type b = PJ_STUN_ATTR_MESSAGE_INTEGRITY"
        "\<forall>b rest. after = b # rest \<longrightarrow> attr_type b \<noteq> PJ_STUN_ATTR_MESSAGE_INTEGRITY" "beyond \<longleftrightarrow> after \<noteq> []" by auto
    have "\<forall>b \<in> set (mis @ [a]). attr_type b = PJ_STUN_ATTR_MESSAGE_INTEGRITY" using h(2,3) True by (cases mis) auto
    then have "signature_at (x # as) a 0 beyond" unfolding signature_at_def using h(2,4,5)
      by (intro exI[of _ "[]"] exI[of _ mis] exI[of _ after]) simp
    then show ?thesis using h(1) by auto
  next
    case False
    then obtain n where n: "pos' = pos + pad4 (unat (attr_length x)) + 4 + n" "signature_at as a n beyond"
      using Cons.IH[of "pos + pad4 (unat (attr_length x)) + 4"] Cons.prems by auto
    then obtain before mis after where s: "as = before @ mis @ a # after" "\<forall>b \<in> set before. attr_type b \<noteq> PJ_STUN_ATTR_MESSAGE_INTEGRITY"
        "\<forall>b \<in> set (mis @ [a]). attr_type b = PJ_STUN_ATTR_MESSAGE_INTEGRITY"
        "\<forall>b rest. after = b # rest \<longrightarrow> attr_type b \<noteq> PJ_STUN_ATTR_MESSAGE_INTEGRITY"
        "n = (\<Sum>b\<leftarrow>before. pad4 (unat (attr_length b)) + 4)" "beyond \<longleftrightarrow> after \<noteq> []"
      unfolding signature_at_def by blast
    have "signature_at (x # as) a (pad4 (unat (attr_length x)) + 4 + n) beyond"
      unfolding signature_at_def using s False by (intro exI[of _ "x # before"] exI[of _ mis] exI[of _ after]) simp
    then show ?thesis using n(1) by (intro exI[of _ "pad4 (unat (attr_length x)) + 4 + n"]) simp
  qed
qed simp

lemma packet_digest_value:
  assumes "packet_digest env key pkt pos beyond = Some d" "env_ok env" "length key < 2 ^ 29" "length pkt < 2 ^ 29"
  shows "20 + pos \<le> length pkt \<and> d = hmac_spec key (signed_bytes pkt pos beyond)"
proof -
  have l: "20 + pos \<le> length pkt" using assms(1) by (auto simp: packet_digest_def rd_bytes_def split: if_splits bind_splits)
  let ?hdr = "take 20 pkt" and ?body = "take pos (drop 20 pkt)"
  let ?h = "if beyond then memcpy_at ?hdr 2 (be16 (word_of_nat (pos + 24))) else ?hdr"
  have d: "d = pj_hmac_sha1_final (pj_hmac_sha1_update (pj_hmac_sha1_update (pj_hmac_sha1_init (se_sha env) (se_hmac env) key) ?h) ?body)"
    using assms(1) l by (simp add: packet_digest_def rd_bytes_def Let_def)
  have h: "?h = take 2 pkt @ (if beyond then be16 (word_of_nat (pos + 24)) else take 2 (drop 2 pkt)) @ take 16 (drop 4 pkt)"
  proof (cases beyond)
    case True
    then show ?thesis using l by (simp add: memcpy_at_def drop_take)
  next
    case False
    have "take 20 pkt = take (2 + (2 + 16)) pkt" by simp
    also have "\<dots> = take 2 pkt @ take 2 (drop 2 pkt) @ take 16 (drop 4 pkt)" by (simp only: take_add drop_drop) simp
    finally show ?thesis using False by simp
  qed
  have "take (16 + pos) (drop 4 pkt) = take 16 (drop 4 pkt) @ ?body" by (simp add: take_add)
  then have "?h @ ?body = signed_bytes pkt pos beyond" unfolding h signed_bytes_def by simp
  moreover have "length ?h < 2 ^ 29" "length ?body < 2 ^ 29" using l assms(4) by (simp_all add: h be16_def)
  ultimately show ?thesis
    using hmac_pieces[of "se_sha env" "se_hmac env" key "[?h, ?body]"] assms(2,3) l unfolding d by (simp add: env_ok_def)
qed

text \<open>
  C14 (safety): whatever message and packet, a static credential accepts a request only if the message names its user, the value of its MESSAGE-INTEGRITY
  is the HMAC-SHA1 (RFC 2104) under the key of the credential (RFC 5389) of the bytes of the packet before it, and with a long-term credential the realm is the wanted
  one up to case and the nonce, if the credential has one, is the one of the message. With a short-term credential that has a nonce, a
  request without REALM is not accepted at all, and one with REALM only if it brings no nonce or the right one.
\<close>

theorem stun_request_accepted_only_if:
  assumes "pj_stun_authenticate_request env md pkt msg (Cred_Static c) want = Some (PJ_SUCCESS, info, r)"
    and "env_ok env" "length (md_in md) = 64" "texts_fit c" "length pkt < 2 ^ 29"
  shows "r = None \<and> find_value msg PJ_STUN_ATTR_USERNAME = Some (Some (sc_username c)) \<and> ri_auth_key info = credential_key c \<and>
    (\<exists>a pos follows h. signature_at (sm_attr msg) a pos follows \<and> hmac_of a = Some h \<and> 20 + pos \<le> length pkt \<and>
       take 20 h = hmac_spec (credential_key c) (signed_bytes pkt pos follows)) \<and>
    (sc_realm c \<noteq> [] \<longrightarrow> (\<exists>realm. find_value msg PJ_STUN_ATTR_REALM = Some (Some realm) \<and> stricmp_eq realm (sc_realm c)) \<and>
       (sc_nonce c \<noteq> [] \<longrightarrow> find_value msg PJ_STUN_ATTR_NONCE = Some (Some (sc_nonce c)))) \<and>
    (sc_realm c = [] \<longrightarrow> sc_nonce c \<noteq> [] \<longrightarrow> find_value msg PJ_STUN_ATTR_REALM \<noteq> Some None \<and>
       find_value msg PJ_STUN_ATTR_NONCE \<in> {Some None, Some (Some (sc_nonce c))})"
proof -
  let ?i = "\<lparr>ri_realm = sc_realm c, ri_username = [], ri_nonce = sc_nonce c, ri_auth_key = []\<rparr>"
  obtain x info1 where x: "check_request env md pkt msg (Cred_Static c) ?i = Some (x, info1)" and y: "pkt \<noteq> []"
    using assms(1) by (auto simp: pj_stun_authenticate_request_def Let_def split: bind_splits if_splits)
  have "x = Inr None \<and> info1 = info \<and> r = None"
    using assms(1) x y check_request_split[OF x]
    by (auto simp: pj_stun_authenticate_request_def PJ_STATUS_FROM_STUN_CODE_def Let_def split: bind_splits if_splits)
  then obtain a pos beyond auser arealm anonce h where r: "r = None" and m: "msgint_scan (sm_attr msg) 0 None = (Some a, pos, beyond)"
      and v: "find_value msg PJ_STUN_ATTR_USERNAME = Some (Some auser)" "find_value msg PJ_STUN_ATTR_REALM = Some arealm"
        "find_value msg PJ_STUN_ATTR_NONCE = Some anonce"
      and u: "check_user md (Cred_Static c) msg arealm auser ?i = Inr info"
      and re: "check_realm info arealm anonce = None" "\<forall>n. anonce = Some n \<longrightarrow> nonce_ok (Cred_Static c) msg info arealm auser n"
      and d: "packet_digest env (ri_auth_key info) pkt pos beyond = Some (take 20 h)" "hmac_of a = Some h"
    using check_request_split[OF x] by blast
  have k: "auser = sc_username c" "ri_auth_key info = credential_key c" "ri_realm info = sc_realm c" "ri_nonce info = sc_nonce c"
    using u create_key_spec[OF assms(3,4)] by (auto simp: check_user_static)
  have "length (credential_key c) < 2 ^ 29" using assms(4) by (simp add: credential_key_def texts_fit_def)
  then have "20 + pos \<le> length pkt \<and> take 20 h = hmac_spec (credential_key c) (signed_bytes pkt pos beyond)"
    using packet_digest_value[OF d(1) assms(2) _ assms(5)] by (simp add: k(2))
  moreover have "signature_at (sm_attr msg) a pos beyond" using msgint_scan_at[OF m] by simp
  moreover have "sc_realm c \<noteq> [] \<Longrightarrow> (\<exists>realm. arealm = Some realm \<and> stricmp_eq realm (sc_realm c)) \<and>
      (sc_nonce c \<noteq> [] \<longrightarrow> anonce = Some (sc_nonce c))"
    "sc_realm c = [] \<Longrightarrow> sc_nonce c \<noteq> [] \<Longrightarrow> arealm \<noteq> None \<and> anonce \<in> {None, Some (sc_nonce c)}"
    using re k(3,4) by (cases anonce; auto simp: check_realm_def nonce_ok_def split: option.splits if_splits)+
  ultimately show ?thesis using r v k(1,2) d(2) by auto
qed

text \<open>
  A short-term credential with a nonce accepts no message without REALM, although the message could carry the nonce. (A message
  that brings a REALM, which the server did not ask for, is not asked for the nonce.)
\<close>

lemma short_term_nonce_never_accepted:
  assumes "sc_realm c = []" "sc_nonce c \<noteq> []" "find_value msg PJ_STUN_ATTR_REALM = Some None"
  shows "pj_stun_authenticate_request env md pkt msg (Cred_Static c) want \<noteq> Some (PJ_SUCCESS, info, r)"
proof
  let ?i = "\<lparr>ri_realm = sc_realm c, ri_username = [], ri_nonce = sc_nonce c, ri_auth_key = []\<rparr>"
  assume a: "pj_stun_authenticate_request env md pkt msg (Cred_Static c) want = Some (PJ_SUCCESS, info, r)"
  then obtain x info1 where x: "check_request env md pkt msg (Cred_Static c) ?i = Some (x, info1)" "pkt \<noteq> []"
    by (auto simp: pj_stun_authenticate_request_def Let_def split: bind_splits if_splits)
  have "x \<noteq> Inr None"
    using check_request_split[OF x(1)] assms by (auto simp: check_user_static check_realm_def)
  then show False using a x check_request_split[OF x(1)]
    by (auto simp: pj_stun_authenticate_request_def PJ_STATUS_FROM_STUN_CODE_def Let_def split: bind_splits if_splits)
qed

section \<open>What the message integrity does not cover\<close>

text \<open>
  A packet changed on its way without a key: an attribute is put behind the signed ones, the length adjusted, and a FINGERPRINT added.
\<close>

definition forged :: "u8 \<Rightarrow> pj_stun_msg_hdr \<Rightarrow> u8 list \<Rightarrow> pj_stun_attr \<Rightarrow> u8 list" where
  "forged p hdr pkt a =
     stun_packet [] hdr (drop 20 pkt @ wire p hdr a @ replicate (attr_size p hdr a - length (wire p hdr a)) 0) False True"

lemma decode_forged:
  assumes bs: "laid_out p hdr body bs" and body: "list_all body_attr (a # body)" and t: "sm_type hdr < 0x200" and tid: "length (sm_tsx_id hdr) = 12"
    and n: "n = length bs + 24 + attr_size p hdr a + 8" "n < 2 ^ 16" and as: "length body + 3 \<le> PJ_STUN_MAX_ATTR"
  shows "\<exists>v. pj_stun_msg_decode strerror addr (forged p hdr (stun_packet k hdr bs True False) a) opts want =
    Some (PJ_SUCCESS, Some \<lparr>sm_hdr = hdr\<lparr>sm_length := word_of_nat n\<rparr>, sm_attr = map (received p hdr) body @
       Stun_Msgint PJ_STUN_ATTR_MESSAGE_INTEGRITY 20 (msgint_value k (stun_header hdr (length bs + 24) @ bs)) #
       [received p hdr a, Stun_Uint PJ_STUN_ATTR_FINGERPRINT 4 v]\<rparr>, 20 + n, None)"
    "\<exists>r l. forged p hdr (stun_packet k hdr bs True False) a = stun_header hdr l @ bs @ r"
proof -
  let ?w = "wire p hdr a @ replicate (attr_size p hdr a - length (wire p hdr a)) 0"
  define mi where "mi = msgint_value k (stun_header hdr (length bs + 24) @ bs)"
  let ?M = "be16 PJ_STUN_ATTR_MESSAGE_INTEGRITY @ be16 20 @ mi"
  let ?B = "bs @ ?M @ ?w"
  define v where "v = fingerprint_value (stun_header hdr (length ?B + 8) @ ?B)"
  let ?F = "be16 PJ_STUN_ATTR_FINGERPRINT @ be16 4 @ be32 v"
  have lw: "length ?w = attr_size p hdr a" using wire_attr_size(1)[of p hdr a] by simp
  have lm: "length mi = 20" by (simp add: mi_def)
  have lB: "length ?B + 8 = n" using n lw lm by simp
  have "drop 20 (stun_packet k hdr bs True False) = bs @ ?M"
    using tid by (simp add: stun_packet_def Let_def stun_pre_def mi_def)
  then have fB: "forged p hdr (stun_packet k hdr bs True False) a = stun_packet [] hdr ?B False True" by (simp add: forged_def)
  have f: "stun_packet [] hdr ?B False True = stun_header hdr n @ ?B @ ?F"
    unfolding lB[symmetric] by (simp add: stun_packet_def Let_def stun_pre_def v_def)
  then show "\<exists>r l. forged p hdr (stun_packet k hdr bs True False) a = stun_header hdr l @ bs @ r" unfolding fB by auto
  have m4: "length ?B mod 4 = 0"
  proof -
    have "(i + (24 + j)) mod 4 = 0" if "i mod 4 = 0" "j mod 4 = 0" for i j :: nat using that by presburger
    moreover have "length ?B = length bs + (24 + attr_size p hdr a)" using lw lm by simp
    ultimately show ?thesis using laid_out_mod_4[OF bs] wire_attr_size(3)[of p hdr a] by metis
  qed
  have chk: "pj_stun_msg_check addr (stun_packet [] hdr ?B False True) opts = Some PJ_SUCCESS"
    using stun_packet_checked[OF t tid m4, of False True opts addr "[]"] lB n(2) by simp
  let ?hdr = "hdr\<lparr>sm_length := word_of_nat n\<rparr>" and ?want = "want \<and> PJ_STUN_IS_REQUEST (sm_type hdr)"
  let ?s0 = "\<lparr>dc_attrs = [], dc_has_msg_int = False, dc_has_fingerprint = False\<rparr>"
  let ?s1 = "\<lparr>dc_attrs = map (received p hdr) body, dc_has_msg_int = False, dc_has_fingerprint = False\<rparr>"
  let ?s2 = "\<lparr>dc_attrs = map (received p hdr) body @ [Stun_Msgint PJ_STUN_ATTR_MESSAGE_INTEGRITY 20 mi], dc_has_msg_int = True, dc_has_fingerprint = False\<rparr>"
  let ?s3 = "\<lparr>dc_attrs = map (received p hdr) body @ [Stun_Msgint PJ_STUN_ATTR_MESSAGE_INTEGRITY 20 mi, received p hdr a], dc_has_msg_int = True, dc_has_fingerprint = False\<rparr>"
  have 1: "decode_attrs strerror ?want ?hdr (bs @ ?M @ ?w @ ?F) (length bs + (24 + (attr_size p hdr a + 8))) ?s0 =
      decode_attrs strerror ?want ?hdr (?M @ ?w @ ?F) (24 + (attr_size p hdr a + 8)) ?s1"
    using decode_body[of p ?hdr body bs ?s0 strerror ?want "?M @ ?w @ ?F" "24 + (attr_size p hdr a + 8)"] bs body tid as by simp
  have 2: "decode_attrs strerror ?want ?hdr (?M @ ?w @ ?F) (24 + (attr_size p hdr a + 8)) ?s1 =
      decode_attrs strerror ?want ?hdr (?w @ ?F) (attr_size p hdr a + 8) ?s2"
    using decode_closing_msgint[OF lm, of ?hdr ?s1 strerror ?want "?w @ ?F" "attr_size p hdr a + 8"] tid as by simp
  have o: "check_order (attr_type a) True False = Inr (True, False)" using body by (simp add: check_order_def body_attr_def)
  have 3: "decode_attrs strerror ?want ?hdr (?w @ ?F) (attr_size p hdr a + 8) ?s2 = decode_attrs strerror ?want ?hdr ?F 8 ?s3"
    using decode_step[of a ?hdr p "?w @ ?F" ?s2 True False strerror ?want 8] body tid as lw o by (simp add: body_attr_def)
  have 4: "decode_attrs strerror ?want ?hdr ?F 8 ?s3 = Some (Inr (\<lparr>dc_attrs = dc_attrs ?s3 @ [Stun_Uint PJ_STUN_ATTR_FINGERPRINT 4 v],
      dc_has_msg_int = True, dc_has_fingerprint = True\<rparr>, 0))"
    using decode_closing_fingerprint[of ?hdr ?s3 strerror ?want v "[]" 0] tid as by (simp add: decode_attrs_end)
  have "length (?B @ ?F) = n" using lB by simp
  then have "pj_stun_msg_decode strerror addr (stun_packet [] hdr ?B False True) opts want =
    Some (PJ_SUCCESS, Some \<lparr>sm_hdr = ?hdr, sm_attr = dc_attrs ?s3 @ [Stun_Uint PJ_STUN_ATTR_FINGERPRINT 4 v]\<rparr>, 20 + n, None)"
    using stun_decode_of_attrs[OF f _ n(2) tid chk, of strerror want] 1 2 3 4 n(1) by (simp add: add.assoc)
  then show "\<exists>v. pj_stun_msg_decode strerror addr (forged p hdr (stun_packet k hdr bs True False) a) opts want =
    Some (PJ_SUCCESS, Some \<lparr>sm_hdr = hdr\<lparr>sm_length := word_of_nat n\<rparr>, sm_attr = map (received p hdr) body @
       Stun_Msgint PJ_STUN_ATTR_MESSAGE_INTEGRITY 20 (msgint_value k (stun_header hdr (length bs + 24) @ bs)) #
       [received p hdr a, Stun_Uint PJ_STUN_ATTR_FINGERPRINT 4 v]\<rparr>, 20 + n, None)"
    unfolding fB mi_def by auto
qed

text \<open>
  C29 (error): attributes behind MESSAGE-INTEGRITY are decoded and accepted as part of the authenticated message. Whoever sees a
  signed packet without FINGERPRINT can put any attribute behind it, without the key, and the receiver takes it, with the
  check of the signature passed.
\<close>

theorem stun_unsigned_attribute_accepted:
  assumes "stun_msg_ok (se_padding_char env) msg" "env_ok env" "stun_has PJ_STUN_ATTR_MESSAGE_INTEGRITY msg" "\<not> stun_has PJ_STUN_ATTR_FINGERPRINT msg"
    and "length k < 2 ^ 29" "n = 20 + body_size (se_padding_char env) (sm_hdr msg) (sm_attr msg)" "n \<le> length buf" "length buf < 2 ^ 29"
    and "body_attr a" "n + attr_size (se_padding_char env) (sm_hdr msg) a < 2 ^ 16" "length (sm_attr msg) + 2 \<le> PJ_STUN_MAX_ATTR" "env_ok env'"
  shows "\<exists>msg' buf' m. pj_stun_msg_encode env msg buf (Some k) = Some (PJ_SUCCESS, msg', buf', n) \<and>
    pj_stun_msg_decode strerror addr (forged (se_padding_char env) (sm_hdr msg) (take n buf') a) opts want =
      Some (PJ_SUCCESS, Some m, n + attr_size (se_padding_char env) (sm_hdr msg) a + 8, None) \<and>
    received (se_padding_char env) (sm_hdr msg) a \<in> set (sm_attr m) \<and>
    pj_stun_authenticate_response env' (forged (se_padding_char env) (sm_hdr msg) (take n buf') a) m k = Some PJ_SUCCESS"
proof -
  let ?p = "se_padding_char env" and ?hdr = "sm_hdr msg" and ?s = "attr_size (se_padding_char env) (sm_hdr msg) a"
  have h: "stun_has PJ_STUN_ATTR_MESSAGE_INTEGRITY msg = True" "stun_has PJ_STUN_ATTR_FINGERPRINT msg = False" using assms(3,4) by simp_all
  obtain bs l where bs: "laid_out ?p ?hdr (stun_body msg) bs" and n: "n = 20 + length bs + 24"
    and e: "pj_stun_msg_encode env msg buf (Some k) = Some (PJ_SUCCESS, msg\<lparr>sm_hdr := ?hdr\<lparr>sm_length := word_of_nat (n - 20)\<rparr>,
      sm_attr := stun_body msg @ closing_values k ?hdr bs True False l\<rparr>, stun_packet k ?hdr bs True False @ drop n buf, n)"
    using stun_encode_packet_msg[OF assms(1,2) refl assms(5-8)] unfolding h by auto
  have tid: "length (sm_tsx_id ?hdr) = 12" and t: "sm_type ?hdr < 0x200" using assms(1) by (simp_all add: stun_msg_ok_def)
  have tk: "take n (stun_packet k ?hdr bs True False @ drop n buf) = stun_packet k ?hdr bs True False"
    using length_stun_packet[OF tid, of k bs True False] n by simp
  have cl: "length (stun_body msg) + 3 \<le> PJ_STUN_MAX_ATTR"
    using stun_msg_parts(1)[OF assms(1)] closing_parts(2)[of "stun_body msg" True _ False] assms(11) unfolding h by fastforce
  have body: "list_all body_attr (a # stun_body msg)" using stun_msg_parts(2)[OF assms(1)] assms(9) by simp
  have sz: "length bs + 24 + ?s + 8 < 2 ^ 16" "20 + (length bs + 24 + ?s + 8) = n + ?s + 8" using n assms(10) by simp_all
  let ?f = "forged ?p ?hdr (stun_packet k ?hdr bs True False) a"
  obtain v where d: "pj_stun_msg_decode strerror addr ?f opts want =
    Some (PJ_SUCCESS, Some \<lparr>sm_hdr = ?hdr\<lparr>sm_length := word_of_nat (length bs + 24 + ?s + 8)\<rparr>, sm_attr = map (received ?p ?hdr) (stun_body msg) @
       Stun_Msgint PJ_STUN_ATTR_MESSAGE_INTEGRITY 20 (msgint_value k (stun_header ?hdr (length bs + 24) @ bs)) #
       [received ?p ?hdr a, Stun_Uint PJ_STUN_ATTR_FINGERPRINT 4 v]\<rparr>, n + ?s + 8, None)"
    using decode_forged(1)[OF bs body t tid refl sz(1) cl, of strerror addr k opts want] unfolding sz(2) by blast
  obtain r j where f: "?f = stun_header ?hdr j @ bs @ r" using decode_forged(2)[OF bs body t tid refl sz(1) cl] by blast
  let ?m = "\<lparr>sm_hdr = ?hdr\<lparr>sm_length := word_of_nat (length bs + 24 + ?s + 8)\<rparr>, sm_attr = map (received ?p ?hdr) (stun_body msg) @
       Stun_Msgint PJ_STUN_ATTR_MESSAGE_INTEGRITY 20 (msgint_value k (stun_header ?hdr (length bs + 24) @ bs)) #
       [received ?p ?hdr a, Stun_Uint PJ_STUN_ATTR_FINGERPRINT 4 v]\<rparr>"
  have bl: "length bs < 2 ^ 29" "length bs = body_size ?p ?hdr (stun_body msg)" using sz(1) laid_out_length[OF bs] by simp_all
  have ms: "msgint_scan (sm_attr ?m) 0 None = (Some (Stun_Msgint PJ_STUN_ATTR_MESSAGE_INTEGRITY 20 (msgint_value k (stun_header ?hdr (length bs + 24) @ bs))), length bs, True)"
    using msgint_scan_signed[OF stun_msg_parts(2)[OF assms(1)] tid, where p = ?p and
        a = "Stun_Msgint PJ_STUN_ATTR_MESSAGE_INTEGRITY 20 (msgint_value k (stun_header ?hdr (length bs + 24) @ bs))" and
        as = "[received ?p ?hdr a, Stun_Uint PJ_STUN_ATTR_FINGERPRINT 4 v]"] assms(9) bl(2) by (simp add: body_attr_def)
  have fa: "pj_stun_msg_find_attr ?m PJ_STUN_ATTR_MESSAGE_INTEGRITY 0 \<noteq> None"
    by (auto simp: pj_stun_msg_find_attr_def find_attr_from_append split: option.splits)
  have sh: "\<not> sm_length (sm_hdr ?m) < 24" using not_short[of "length bs + 24 + ?s + 8"] sz(1) by simp
  have ne: "?f \<noteq> []" using f by (simp add: stun_header_def be16_def)
  have a: "pj_stun_authenticate_response env' ?f ?m k = Some PJ_SUCCESS"
    unfolding pj_stun_authenticate_response_def ms using ne fa sh packet_digest_packet[OF assms(12,5) bl(1) tid, of True j r] f
    by auto
  let ?m' = "msg\<lparr>sm_hdr := ?hdr\<lparr>sm_length := word_of_nat (n - 20)\<rparr>, sm_attr := stun_body msg @ closing_values k ?hdr bs True False l\<rparr>"
  have in_m: "received ?p ?hdr a \<in> set (sm_attr ?m)" by simp
  have d': "pj_stun_msg_decode strerror addr (forged ?p ?hdr (take n (stun_packet k ?hdr bs True False @ drop n buf)) a) opts want = Some (PJ_SUCCESS, Some ?m, n + ?s + 8, None)"
    unfolding tk by (rule d)
  have a': "pj_stun_authenticate_response env' (forged ?p ?hdr (take n (stun_packet k ?hdr bs True False @ drop n buf)) a) ?m k = Some PJ_SUCCESS"
    unfolding tk by (rule a)
  show ?thesis
    by (rule exI[of _ ?m'], rule exI[of _ "stun_packet k ?hdr bs True False @ drop n buf"], rule exI[of _ ?m], intro conjI e d' in_m a')
qed

section \<open>Examples\<close>

definition demo_md :: pj_md5_context where
  "demo_md = \<lparr>md_buf = (1, 2, 3, 4), md_bits0 = 5, md_bits1 = 6, md_in = replicate 64 0xcc\<rparr>"

text \<open>Bob with a long-term credential.\<close>

definition bob :: stun_static_cred where
  "bob = \<lparr>sc_realm = pj_str ''x'', sc_username = pj_str ''bob'', sc_data_type = PJ_STUN_PASSWD_PLAIN, sc_data = pj_str ''pw'', sc_nonce = []\<rparr>"

definition bob_msg :: pj_stun_msg where
  "bob_msg = demo_msg\<lparr>sm_attr := [Stun_String PJ_STUN_ATTR_USERNAME 3 (pj_str ''bob''), Stun_String PJ_STUN_ATTR_REALM 1 (pj_str ''x''),
     Stun_Msgint PJ_STUN_ATTR_MESSAGE_INTEGRITY 20 (replicate 20 0)]\<rparr>"

lemma realm_desc: "find_attr_desc PJ_STUN_ATTR_REALM = Some (''REALM'', String_Codec)"
  by (simp add: find_attr_desc_def stun_attr_types PJ_STUN_ATTR_REALM_def mandatory_attr_desc_def)

lemma bob_closing: "stun_closing bob_msg = [PJ_STUN_ATTR_MESSAGE_INTEGRITY]"
  by (simp add: bob_msg_def stun_closing_def is_body_def stun_attr_types PJ_STUN_ATTR_USERNAME_def PJ_STUN_ATTR_REALM_def)

lemma bob_size: "body_size p (sm_hdr bob_msg) (sm_attr bob_msg) = 40"
  by (simp add: bob_msg_def demo_msg_def body_size_def attr_size_def length_wire pad4_def pj_str_def)

lemma bob_ok: "stun_msg_ok p bob_msg" "carries_credential bob bob_msg" "texts_fit bob" "credential_key bob \<noteq> []"
proof -
  have "list_all attr_ok (sm_attr bob_msg)"
    by (simp add: bob_msg_def attr_ok_def demo_descs realm_desc desc_msgint struct_of_codec_def pj_str_def)
  then show "stun_msg_ok p bob_msg"
    using bob_closing bob_size[of p] by (simp add: stun_msg_ok_def bob_msg_def demo_msg_def PJ_STUN_MAX_ATTR_def)
  show "carries_credential bob bob_msg"
    by (simp add: carries_credential_def bob_def bob_msg_def find_value_def pj_stun_msg_find_attr_def PJ_STUN_ATTR_USERNAME_def PJ_STUN_ATTR_REALM_def pj_str_def)
  show "texts_fit bob" by (simp add: texts_fit_def bob_def pj_str_def)
  have "md5_spec m \<noteq> []" for m by (metis length_md5_spec list.size(3) zero_neq_numeral)
  then show "credential_key bob \<noteq> []" unfolding credential_key_def by (simp add: bob_def pj_str_def)
qed


theorem stun_credential_accepted_witness:
  "\<exists>msg' buf' m.
    pj_stun_msg_encode demo_env bob_msg (replicate 60 0)
        (Some (pj_stun_create_key demo_md (Some (sc_realm bob)) (sc_username bob) (sc_data_type bob) (sc_data bob))) =
      Some (PJ_SUCCESS, msg', buf', 60) \<and>
    pj_stun_msg_decode (\<lambda>st. []) 0 (take 60 buf') \<lparr>PJ_STUN_IS_DATAGRAM = True, PJ_STUN_CHECK_PACKET = True, PJ_STUN_NO_FINGERPRINT_CHECK = True\<rparr> True =
      Some (PJ_SUCCESS, Some m, 60, None) \<and>
    pj_stun_authenticate_request demo_env demo_md (take 60 buf') m (Cred_Static bob) True =
      Some (PJ_SUCCESS, \<lparr>ri_realm = sc_realm bob, ri_username = sc_username bob, ri_nonce = sc_nonce bob, ri_auth_key = credential_key bob\<rparr>, None)"
proof (rule stun_credential_accepted)
  show "sm_magic (sm_hdr bob_msg) = PJ_STUN_MAGIC" by (simp add: bob_msg_def demo_msg_def)
qed (simp_all add: bob_ok demo_ok bob_size stun_has_def bob_closing demo_md_def)

theorem stun_request_accepted_only_if_witness:
  "\<exists>pkt m info. pj_stun_authenticate_request demo_env demo_md pkt m (Cred_Static bob) True = Some (PJ_SUCCESS, info, None) \<and>
     find_value m PJ_STUN_ATTR_USERNAME = Some (Some (pj_str ''bob''))"
proof -
  have "\<exists>msg' buf' m.
    pj_stun_msg_encode demo_env bob_msg (replicate 60 0)
        (Some (pj_stun_create_key demo_md (Some (sc_realm bob)) (sc_username bob) (sc_data_type bob) (sc_data bob))) =
      Some (PJ_SUCCESS, msg', buf', 60) \<and>
    pj_stun_msg_decode (\<lambda>st. []) 0 (take 60 buf') \<lparr>PJ_STUN_IS_DATAGRAM = True, PJ_STUN_CHECK_PACKET = True, PJ_STUN_NO_FINGERPRINT_CHECK = True\<rparr> True =
      Some (PJ_SUCCESS, Some m, 60, None) \<and>
    pj_stun_authenticate_request demo_env demo_md (take 60 buf') m (Cred_Static bob) True =
      Some (PJ_SUCCESS, \<lparr>ri_realm = sc_realm bob, ri_username = sc_username bob, ri_nonce = sc_nonce bob, ri_auth_key = credential_key bob\<rparr>, None)"
  proof (rule credential_accepted_at)
    show "sm_magic (sm_hdr bob_msg) = PJ_STUN_MAGIC" by (simp add: bob_msg_def demo_msg_def)
  qed (simp_all add: bob_ok demo_ok bob_size stun_has_def bob_closing demo_md_def)
  then obtain buf' m info where "pj_stun_authenticate_request demo_env demo_md (take 60 buf') m (Cred_Static bob) True = Some (PJ_SUCCESS, info, None)" by blast
  then obtain pkt where a: "pj_stun_authenticate_request demo_env demo_md pkt m (Cred_Static bob) True = Some (PJ_SUCCESS, info, None)"
    and l: "length pkt < 2 ^ 29" using that[of "take 60 buf'"] by simp
  have "find_value m PJ_STUN_ATTR_USERNAME = Some (Some (pj_str ''bob''))"
    using stun_request_accepted_only_if[OF a] l by (simp add: bob_def demo_ok demo_md_def texts_fit_def pj_str_def)
  then show ?thesis using a by blast
qed

theorem stun_unsigned_attribute_accepted_witness:
  "\<exists>msg' buf' m. pj_stun_msg_encode demo_env bob_msg (replicate 60 0) (Some [1, 2]) = Some (PJ_SUCCESS, msg', buf', 60) \<and>
    pj_stun_msg_decode (\<lambda>st. []) 0 (forged (se_padding_char demo_env) (sm_hdr bob_msg) (take 60 buf') (Stun_Uint64 0x802a 8 1 2))
        \<lparr>PJ_STUN_IS_DATAGRAM = True, PJ_STUN_CHECK_PACKET = True, PJ_STUN_NO_FINGERPRINT_CHECK = False\<rparr> True =
      Some (PJ_SUCCESS, Some m, 60 + attr_size (se_padding_char demo_env) (sm_hdr bob_msg) (Stun_Uint64 0x802a 8 1 2) + 8, None) \<and>
    received (se_padding_char demo_env) (sm_hdr bob_msg) (Stun_Uint64 0x802a 8 1 2) \<in> set (sm_attr m) \<and>
    pj_stun_authenticate_response demo_env (forged (se_padding_char demo_env) (sm_hdr bob_msg) (take 60 buf') (Stun_Uint64 0x802a 8 1 2)) m [1, 2] = Some PJ_SUCCESS"
proof (rule stun_unsigned_attribute_accepted)
  show "body_attr (Stun_Uint64 0x802a 8 1 2)" by (simp add: body_attr_def attr_ok_def tie_desc struct_of_codec_def stun_attr_types)
  show "length (sm_attr bob_msg) + 2 \<le> PJ_STUN_MAX_ATTR" by (simp add: bob_msg_def PJ_STUN_MAX_ATTR_def)
  show "60 + attr_size (se_padding_char demo_env) (sm_hdr bob_msg) (Stun_Uint64 0x802a 8 1 2) < 2 ^ 16" by (simp add: attr_size_def wire_def)
qed (simp_all add: bob_ok demo_ok bob_size stun_has_def bob_closing)

end
