(* ===== verification/Stun_Tsx.thy ===== *)
theory Stun_Tsx
  imports Stun_Msg Pj_Timer
begin

text \<open>
  The STUN client transaction (\<open>pjnath/src/pjnath/stun_transaction.c\<close>): sending a request, retransmitting it, the time-out, the response,
  and the delayed destruction. The two timer entries are seen as the transaction sees them: the \<open>id\<close> of the entry, and the delay
  with which it is on the timer heap, if it is. The callbacks of the transaction may call it back: they do a list of calls.
\<close>

section \<open>The transaction\<close>

definition PJ_STUN_MAX_TRANSMIT_COUNT :: nat where "PJ_STUN_MAX_TRANSMIT_COUNT = 7"
definition PJ_STUN_TIMEOUT_VALUE :: nat where "PJ_STUN_TIMEOUT_VALUE = 16 * 100"

abbreviation PJNATH_ESTUNTIMEDOUT :: pj_status where "PJNATH_ESTUNTIMEDOUT \<equiv> PJNATH_ERR 4"
abbreviation PJNATH_ESTUNDESTROYED :: pj_status where "PJNATH_ESTUNDESTROYED \<equiv> PJNATH_ERR 60"

record stun_timer =
  sti_id :: nat
  sti_pending :: "pj_time_val option"

datatype stun_tsx_event = Ev_Send "u8 list" | Ev_Complete pj_status | Ev_Destroy

text \<open>
  \<open>tx_log\<close> is not in the code: it lists the calls of the callbacks. A transaction that the owner destroys while the callback for sending runs,
  which that callback reports with \<open>PJNATH_ESTUNDESTROYED\<close>, gets the event \<open>Ev_Destroy\<close>, too.
\<close>

record pj_stun_client_tsx =
  tx_on_complete :: bool
  tx_on_destroy :: bool
  tx_user_data :: nat
  tx_complete :: bool
  tx_require_retransmit :: bool
  tx_rto_msec :: nat
  tx_retransmit_timer :: stun_timer
  tx_transmit_count :: nat
  tx_retransmit_time :: pj_time_val
  tx_destroy_timer :: stun_timer
  tx_is_destroying :: bool
  tx_last_pkt :: "u8 list"
  tx_log :: "stun_tsx_event list"

datatype stun_tsx_call = Call_Schedule_Destroy pj_time_val | Call_Stop | Call_Set_Data nat

text \<open>
  The environment: whether the timer heap has room, what the callbacks do, and the result of sending. All may depend on the transaction and, through
  the log, on the time.
\<close>

record stun_tsx_env =
  te_schedule :: "pj_stun_client_tsx \<Rightarrow> pj_status"
  te_on_send_msg :: "pj_stun_client_tsx \<Rightarrow> stun_tsx_call list \<times> pj_status"
  te_on_complete :: "pj_stun_client_tsx \<Rightarrow> pj_status \<Rightarrow> stun_tsx_call list"

section \<open>Timers\<close>

definition tsx_cancel_if_active :: "stun_timer \<Rightarrow> stun_timer" where
  "tsx_cancel_if_active tm = (if sti_pending tm = None then tm else \<lparr>sti_id = 0, sti_pending = None\<rparr>)"

text \<open>\<open>pj_timer_heap_schedule_w_grp_lock\<close> with the id \<open>TIMER_ACTIVE\<close>; \<open>room\<close> is the status of the heap.\<close>

definition stun_schedule_timer :: "pj_status \<Rightarrow> stun_timer \<Rightarrow> pj_time_val \<Rightarrow> stun_timer \<times> pj_status" where
  "stun_schedule_timer room tm delay =
     (if sti_pending tm \<noteq> None then (tm, PJ_EINVALIDOP)
      else if room \<noteq> PJ_SUCCESS then (tm, room)
      else (\<lparr>sti_id = 1, sti_pending = Some delay\<rparr>, PJ_SUCCESS))"

definition cancel_retransmit :: "pj_stun_client_tsx \<Rightarrow> pj_stun_client_tsx" where
  "cancel_retransmit tsx = tsx\<lparr>tx_retransmit_timer := tsx_cancel_if_active (tx_retransmit_timer tsx)\<rparr>"

definition cancel_destroy :: "pj_stun_client_tsx \<Rightarrow> pj_stun_client_tsx" where
  "cancel_destroy tsx = tsx\<lparr>tx_destroy_timer := tsx_cancel_if_active (tx_destroy_timer tsx)\<rparr>"

section \<open>Creating and destroying\<close>

definition pj_stun_client_tsx_create :: "nat \<Rightarrow> bool \<Rightarrow> bool \<Rightarrow> bool \<Rightarrow> pj_status + pj_stun_client_tsx" where
  "pj_stun_client_tsx_create rto_msec on_send_msg on_complete on_destroy =
     (if \<not> on_send_msg then Inl PJ_EINVAL
      else Inr \<lparr>tx_on_complete = on_complete, tx_on_destroy = on_destroy, tx_user_data = 0, tx_complete = False,
             tx_require_retransmit = False, tx_rto_msec = rto_msec, tx_retransmit_timer = \<lparr>sti_id = 0, sti_pending = None\<rparr>,
             tx_transmit_count = 0, tx_retransmit_time = TimeVal 0 0, tx_destroy_timer = \<lparr>sti_id = 0, sti_pending = None\<rparr>,
             tx_is_destroying = False, tx_last_pkt = [], tx_log = []\<rparr>)"

definition pj_stun_client_tsx_schedule_destroy :: "stun_tsx_env \<Rightarrow> pj_stun_client_tsx \<Rightarrow> pj_time_val \<Rightarrow> pj_stun_client_tsx \<times> pj_status" where
  "pj_stun_client_tsx_schedule_destroy env tsx delay =
     (if \<not> tx_on_destroy tsx then (tsx, PJ_EINVAL)
      else if tx_is_destroying tsx then (tsx, PJ_SUCCESS)
      else let tsx = cancel_retransmit (cancel_destroy (tsx\<lparr>tx_is_destroying := True\<rparr>));
               (tm, status) = stun_schedule_timer (te_schedule env tsx) (tx_destroy_timer tsx) delay;
               tsx = tsx\<lparr>tx_destroy_timer := tm\<rparr>
           in if status \<noteq> PJ_SUCCESS then (tsx, status) else (tsx\<lparr>tx_on_complete := False\<rparr>, PJ_SUCCESS))"

definition pj_stun_client_tsx_destroy :: "pj_stun_client_tsx \<Rightarrow> pj_status" where
  "pj_stun_client_tsx_destroy tsx = PJ_SUCCESS"

definition pj_stun_client_tsx_stop :: "pj_stun_client_tsx \<Rightarrow> pj_stun_client_tsx" where
  "pj_stun_client_tsx_stop tsx = cancel_destroy (cancel_retransmit tsx)"

definition pj_stun_client_tsx_is_complete :: "pj_stun_client_tsx \<Rightarrow> bool" where
  "pj_stun_client_tsx_is_complete tsx = tx_complete tsx"

definition pj_stun_client_tsx_set_data :: "pj_stun_client_tsx \<Rightarrow> nat \<Rightarrow> pj_stun_client_tsx" where
  "pj_stun_client_tsx_set_data tsx d = tsx\<lparr>tx_user_data := d\<rparr>"

definition pj_stun_client_tsx_get_data :: "pj_stun_client_tsx \<Rightarrow> nat" where
  "pj_stun_client_tsx_get_data tsx = tx_user_data tsx"

section \<open>Callbacks\<close>

fun do_call :: "stun_tsx_env \<Rightarrow> pj_stun_client_tsx \<Rightarrow> stun_tsx_call \<Rightarrow> pj_stun_client_tsx" where
  "do_call env tsx (Call_Schedule_Destroy delay) = fst (pj_stun_client_tsx_schedule_destroy env tsx delay)"
| "do_call env tsx Call_Stop = pj_stun_client_tsx_stop tsx"
| "do_call env tsx (Call_Set_Data d) = pj_stun_client_tsx_set_data tsx d"

definition call_on_send_msg :: "stun_tsx_env \<Rightarrow> pj_stun_client_tsx \<Rightarrow> pj_stun_client_tsx \<times> pj_status" where
  "call_on_send_msg env tsx =
     (let tsx = tsx\<lparr>tx_log := tx_log tsx @ [Ev_Send (tx_last_pkt tsx)]\<rparr>; (calls, status) = te_on_send_msg env tsx;
          tsx = foldl (do_call env) tsx calls
      in (if status = PJNATH_ESTUNDESTROYED then tsx\<lparr>tx_log := tx_log tsx @ [Ev_Destroy]\<rparr> else tsx, status))"

text \<open>The transaction is complete: the flag, and the callback if there is one.\<close>

definition complete_tsx :: "stun_tsx_env \<Rightarrow> pj_stun_client_tsx \<Rightarrow> pj_status \<Rightarrow> pj_stun_client_tsx" where
  "complete_tsx env tsx status =
     (if tx_complete tsx then tsx
      else let tsx = tsx\<lparr>tx_complete := True\<rparr>
           in if tx_on_complete tsx
              then let tsx = tsx\<lparr>tx_log := tx_log tsx @ [Ev_Complete status]\<rparr>
                   in foldl (do_call env) tsx (te_on_complete env tsx status)
              else tsx)"

section \<open>Sending\<close>

text \<open>The milliseconds are \<open>unsigned\<close>.\<close>

definition tv_of_unsigned :: "nat \<Rightarrow> pj_time_val" where
  "tv_of_unsigned msec = TimeVal (int (msec div 1000)) (int (msec mod 1000))"

definition next_retransmit_time :: "pj_stun_client_tsx \<Rightarrow> pj_time_val" where
  "next_retransmit_time tsx =
     (if tx_transmit_count tsx = 0 then TimeVal 0 (int (tx_rto_msec tsx))
      else if tx_transmit_count tsx < PJ_STUN_MAX_TRANSMIT_COUNT - 1
      then tv_of_unsigned (u32_of_int (PJ_TIME_VAL_MSEC (tx_retransmit_time tsx)) * 2 mod 2 ^ 32)
      else tv_of_unsigned PJ_STUN_TIMEOUT_VALUE)"

definition send_packet :: "stun_tsx_env \<Rightarrow> pj_stun_client_tsx \<Rightarrow> bool \<Rightarrow> pj_stun_client_tsx \<times> pj_status" where
  "send_packet env tsx mod_count =
     (let tsx = (if mod_count then tsx\<lparr>tx_transmit_count := tx_transmit_count tsx + 1\<rparr> else tsx);
          (tsx, status) = call_on_send_msg env tsx;
          status = (if status = PJ_EPENDING \<or> status = PJ_EBUSY then PJ_SUCCESS else status)
      in if status = PJNATH_ESTUNDESTROYED then (tsx, status)
         else if status \<noteq> PJ_SUCCESS \<and> (mod_count \<or> status = PJ_EINVALIDOP) then (cancel_retransmit tsx, status)
         else (tsx, status))"

definition tsx_transmit_msg :: "stun_tsx_env \<Rightarrow> pj_stun_client_tsx \<Rightarrow> bool \<Rightarrow> pj_stun_client_tsx \<times> pj_status" where
  "tsx_transmit_msg env tsx mod_count =
     (if \<not> (sti_id (tx_retransmit_timer tsx) = 0 \<or> \<not> tx_require_retransmit tsx \<or> \<not> mod_count) then (tsx, PJ_EBUSY)
      else if tx_require_retransmit tsx \<and> mod_count
      then let tsx = tsx\<lparr>tx_retransmit_time := next_retransmit_time tsx\<rparr>;
               (tm, status) = stun_schedule_timer (te_schedule env tsx) (tx_retransmit_timer tsx) (tx_retransmit_time tsx)
           in if status \<noteq> PJ_SUCCESS then (tsx\<lparr>tx_retransmit_timer := tm\<lparr>sti_id := 0\<rparr>\<rparr>, status)
              else send_packet env (tsx\<lparr>tx_retransmit_timer := tm\<rparr>) mod_count
      else send_packet env tsx mod_count)"

definition pj_stun_client_tsx_send_msg :: "stun_tsx_env \<Rightarrow> pj_stun_client_tsx \<Rightarrow> bool \<Rightarrow> u8 list \<Rightarrow> pj_stun_client_tsx \<times> pj_status" where
  "pj_stun_client_tsx_send_msg env tsx retransmit pkt =
     (if pkt = [] then (tsx, PJ_EINVAL)
      else if sti_id (tx_retransmit_timer tsx) \<noteq> 0 then (tsx, PJ_EBUSY)
      else if tx_is_destroying tsx then (tsx, PJ_SUCCESS)
      else let tsx = tsx\<lparr>tx_last_pkt := pkt, tx_require_retransmit := retransmit\<rparr>;
               (tsx, status) =
                 (if \<not> retransmit
                  then let tsx = tsx\<lparr>tx_transmit_count := PJ_STUN_MAX_TRANSMIT_COUNT,
                                     tx_retransmit_time := tv_of_unsigned (tx_rto_msec tsx * 16 mod 2 ^ 32)\<rparr>;
                           (tm, status) = stun_schedule_timer (te_schedule env tsx) (tx_retransmit_timer tsx) (tx_retransmit_time tsx)
                       in (tsx\<lparr>tx_retransmit_timer := (if status \<noteq> PJ_SUCCESS then tm\<lparr>sti_id := 0\<rparr> else tm)\<rparr>, status)
                  else (tsx, PJ_SUCCESS))
           in if status \<noteq> PJ_SUCCESS then (tsx, status)
              else let (tsx, status) = tsx_transmit_msg env tsx True
                   in if status \<noteq> PJ_SUCCESS then (cancel_retransmit tsx, status) else (tsx, PJ_SUCCESS))"

definition pj_stun_client_tsx_retransmit :: "stun_tsx_env \<Rightarrow> pj_stun_client_tsx \<Rightarrow> bool \<Rightarrow> pj_stun_client_tsx \<times> pj_status" where
  "pj_stun_client_tsx_retransmit env tsx mod_count =
     (if sti_id (tx_destroy_timer tsx) \<noteq> 0 \<or> tx_is_destroying tsx then (tsx, PJ_SUCCESS)
      else tsx_transmit_msg env (if mod_count then cancel_retransmit tsx else tsx) mod_count)"

section \<open>The timers fire\<close>

text \<open>The entry has been taken off the heap when its callback is called.\<close>

definition retransmit_timer_callback :: "stun_tsx_env \<Rightarrow> pj_stun_client_tsx \<Rightarrow> pj_stun_client_tsx" where
  "retransmit_timer_callback env tsx =
     (if tx_is_destroying tsx then tsx
      else let tsx0 = tsx\<lparr>tx_retransmit_timer := (tx_retransmit_timer tsx)\<lparr>sti_id := 0\<rparr>\<rparr>
           in if PJ_STUN_MAX_TRANSMIT_COUNT \<le> tx_transmit_count tsx then complete_tsx env tsx0 PJNATH_ESTUNTIMEDOUT
              else let (tsx, status) = tsx_transmit_msg env tsx0 True
                   in if status \<noteq> PJ_SUCCESS
                      then complete_tsx env (tsx\<lparr>tx_retransmit_timer := (tx_retransmit_timer tsx)\<lparr>sti_id := 0\<rparr>\<rparr>) status
                      else tsx)"

definition stun_destroy_timer_callback :: "pj_stun_client_tsx \<Rightarrow> pj_stun_client_tsx" where
  "stun_destroy_timer_callback tsx =
     tsx\<lparr>tx_destroy_timer := (tx_destroy_timer tsx)\<lparr>sti_id := 0\<rparr>, tx_log := tx_log tsx @ [Ev_Destroy]\<rparr>"

definition fire_retransmit :: "stun_tsx_env \<Rightarrow> pj_stun_client_tsx \<Rightarrow> pj_stun_client_tsx" where
  "fire_retransmit env tsx =
     retransmit_timer_callback env (tsx\<lparr>tx_retransmit_timer := (tx_retransmit_timer tsx)\<lparr>sti_pending := None\<rparr>\<rparr>)"

definition fire_destroy :: "pj_stun_client_tsx \<Rightarrow> pj_stun_client_tsx" where
  "fire_destroy tsx = stun_destroy_timer_callback (tsx\<lparr>tx_destroy_timer := (tx_destroy_timer tsx)\<lparr>sti_pending := None\<rparr>\<rparr>)"

section \<open>A message arrives\<close>

text \<open>The outer \<open>None\<close>: the error code attribute is an object of another structure.\<close>

definition rx_err_code :: "pj_stun_msg \<Rightarrow> int option option" where
  "rx_err_code msg =
     (case pj_stun_msg_find_attr msg PJ_STUN_ATTR_ERROR_CODE 0 of
        None \<Rightarrow> Some None
      | Some (Stun_Errcode t l code reason) \<Rightarrow> Some (Some code)
      | Some _ \<Rightarrow> None)"

definition pj_stun_client_tsx_on_rx_msg :: "stun_tsx_env \<Rightarrow> pj_stun_client_tsx \<Rightarrow> pj_stun_msg \<Rightarrow> (pj_stun_client_tsx \<times> pj_status) option" where
  "pj_stun_client_tsx_on_rx_msg env tsx msg =
     (if \<not> PJ_STUN_IS_SUCCESS_RESPONSE (sm_type (sm_hdr msg)) \<and> \<not> PJ_STUN_IS_ERROR_RESPONSE (sm_type (sm_hdr msg))
      then Some (tsx, PJNATH_EINSTUNMSGTYPE)
      else let tsx = cancel_retransmit tsx
           in case rx_err_code msg of
                None \<Rightarrow> None
              | Some err_code \<Rightarrow>
                  Some (case err_code of
                      Some code \<Rightarrow> if code \<le> 200 then (tsx, PJ_SUCCESS) else (complete_tsx env tsx (PJ_STATUS_FROM_STUN_CODE code), PJ_SUCCESS)
                    | None \<Rightarrow> (complete_tsx env tsx PJ_SUCCESS, PJ_SUCCESS)))"

section \<open>Histories\<close>

text \<open>What can happen to a transaction that is not destroyed, with any environment.\<close>

inductive stun_tsx_step :: "pj_stun_client_tsx \<Rightarrow> pj_stun_client_tsx \<Rightarrow> bool" where
  step_schedule_destroy: "Ev_Destroy \<notin> set (tx_log tsx) \<Longrightarrow> stun_tsx_step tsx (fst (pj_stun_client_tsx_schedule_destroy env tsx delay))"
| step_stop: "Ev_Destroy \<notin> set (tx_log tsx) \<Longrightarrow> stun_tsx_step tsx (pj_stun_client_tsx_stop tsx)"
| step_set_data: "Ev_Destroy \<notin> set (tx_log tsx) \<Longrightarrow> stun_tsx_step tsx (pj_stun_client_tsx_set_data tsx d)"
| step_send: "Ev_Destroy \<notin> set (tx_log tsx) \<Longrightarrow> stun_tsx_step tsx (fst (pj_stun_client_tsx_send_msg env tsx retransmit pkt))"
| step_retransmit: "Ev_Destroy \<notin> set (tx_log tsx) \<Longrightarrow> stun_tsx_step tsx (fst (pj_stun_client_tsx_retransmit env tsx mod_count))"
| step_fire_retransmit: "Ev_Destroy \<notin> set (tx_log tsx) \<Longrightarrow> sti_pending (tx_retransmit_timer tsx) \<noteq> None \<Longrightarrow> stun_tsx_step tsx (fire_retransmit env tsx)"
| step_fire_destroy: "Ev_Destroy \<notin> set (tx_log tsx) \<Longrightarrow> sti_pending (tx_destroy_timer tsx) \<noteq> None \<Longrightarrow> stun_tsx_step tsx (fire_destroy tsx)"
| step_rx: "Ev_Destroy \<notin> set (tx_log tsx) \<Longrightarrow> pj_stun_client_tsx_on_rx_msg env tsx msg = Some (tsx', st) \<Longrightarrow> stun_tsx_step tsx tsx'"

definition stun_tsx_reach :: "pj_stun_client_tsx \<Rightarrow> bool" where
  "stun_tsx_reach tsx \<longleftrightarrow> (\<exists>rto c d t0. pj_stun_client_tsx_create rto True c d = Inr t0 \<and> stun_tsx_step\<^sup>*\<^sup>* t0 tsx)"

fun completions :: "stun_tsx_event list \<Rightarrow> nat" where
  "completions [] = 0"
| "completions (Ev_Complete st # es) = Suc (completions es)"
| "completions (e # es) = completions es"

lemma completions_append [simp]: "completions (es @ fs) = completions es + completions fs"
  by (induction es rule: completions.induct) simp_all

definition stun_tsx_inv :: "pj_stun_client_tsx \<Rightarrow> bool" where
  "stun_tsx_inv tsx \<longleftrightarrow> completions (tx_log tsx) \<le> 1 \<and> (\<not> tx_complete tsx \<longrightarrow> completions (tx_log tsx) = 0) \<and>
     (tx_is_destroying tsx \<longrightarrow> sti_pending (tx_retransmit_timer tsx) = None) \<and>
     (\<not> tx_is_destroying tsx \<longrightarrow> sti_pending (tx_destroy_timer tsx) = None)"

text \<open>What a call from a callback leaves alone.\<close>

definition same_frame :: "pj_stun_client_tsx \<Rightarrow> pj_stun_client_tsx \<Rightarrow> bool" where
  "same_frame t t' \<longleftrightarrow> tx_log t' = tx_log t \<and> tx_complete t' = tx_complete t \<and> (stun_tsx_inv t \<longrightarrow> stun_tsx_inv t')"

lemma same_frame_refl: "same_frame t t"
  by (simp add: same_frame_def)

lemma stun_frame_trans: "same_frame t t1 \<Longrightarrow> same_frame t1 t2 \<Longrightarrow> same_frame t t2"
  by (auto simp: same_frame_def)

lemma cancel_frame: "same_frame t (cancel_retransmit t)" "same_frame t (cancel_destroy t)"
  by (auto simp: same_frame_def stun_tsx_inv_def cancel_retransmit_def cancel_destroy_def tsx_cancel_if_active_def)

lemma schedule_destroy_frame: "same_frame t (fst (pj_stun_client_tsx_schedule_destroy env t delay))"
  by (auto simp: same_frame_def stun_tsx_inv_def pj_stun_client_tsx_schedule_destroy_def cancel_retransmit_def cancel_destroy_def
      tsx_cancel_if_active_def stun_schedule_timer_def Let_def split: prod.splits)

lemma do_call_frame: "same_frame t (do_call env t c)"
proof (cases c)
  case Call_Stop
  then show ?thesis using stun_frame_trans[OF cancel_frame(1) cancel_frame(2)] by (simp add: pj_stun_client_tsx_stop_def)
next
  case (Call_Set_Data d)
  then show ?thesis by (simp add: pj_stun_client_tsx_set_data_def same_frame_def stun_tsx_inv_def)
qed (simp add: schedule_destroy_frame)

lemma do_calls_frame: "same_frame t (foldl (do_call env) t cs)"
  by (induction cs rule: rev_induct) (auto intro: same_frame_refl stun_frame_trans do_call_frame)

lemma complete_inv: "stun_tsx_inv t \<Longrightarrow> stun_tsx_inv (complete_tsx env t st)"
proof -
  assume i: "stun_tsx_inv t"
  show ?thesis
  proof (cases "tx_complete t \<or> \<not> tx_on_complete t")
    case True
    then show ?thesis using i by (auto simp: complete_tsx_def stun_tsx_inv_def Let_def)
  next
    case False
    let ?t = "t\<lparr>tx_complete := True, tx_log := tx_log t @ [Ev_Complete st]\<rparr>"
    have "stun_tsx_inv ?t" using i False by (simp add: stun_tsx_inv_def)
    then show ?thesis using False do_calls_frame[of ?t env "te_on_complete env ?t st"] by (simp add: complete_tsx_def Let_def same_frame_def)
  qed
qed

lemma on_send_inv: "stun_tsx_inv t \<Longrightarrow> stun_tsx_inv (fst (call_on_send_msg env t))"
proof -
  assume i: "stun_tsx_inv t"
  let ?t = "t\<lparr>tx_log := tx_log t @ [Ev_Send (tx_last_pkt t)]\<rparr>"
  obtain cs st where e: "te_on_send_msg env ?t = (cs, st)" by fastforce
  have "stun_tsx_inv ?t" using i by (simp add: stun_tsx_inv_def)
  then have "stun_tsx_inv (foldl (do_call env) ?t cs)" using do_calls_frame[of ?t env cs] by (simp add: same_frame_def)
  then show ?thesis using e by (simp add: call_on_send_msg_def Let_def stun_tsx_inv_def)
qed

lemma cancel_inv: "stun_tsx_inv t \<Longrightarrow> stun_tsx_inv (cancel_retransmit t)"
  using cancel_frame(1)[of t] by (simp add: same_frame_def)

lemma send_packet_inv: "stun_tsx_inv t \<Longrightarrow> stun_tsx_inv (fst (send_packet env t m))"
proof -
  assume i: "stun_tsx_inv t"
  let ?t = "if m then t\<lparr>tx_transmit_count := tx_transmit_count t + 1\<rparr> else t"
  have "stun_tsx_inv ?t" using i by (simp add: stun_tsx_inv_def)
  then have "stun_tsx_inv (fst (call_on_send_msg env ?t))" by (rule on_send_inv)
  then show ?thesis using cancel_inv by (auto simp: send_packet_def Let_def split: prod.splits)
qed

lemma transmit_inv: "stun_tsx_inv t \<Longrightarrow> \<not> tx_is_destroying t \<Longrightarrow> stun_tsx_inv (fst (tsx_transmit_msg env t m))"
proof -
  assume i: "stun_tsx_inv t" and d: "\<not> tx_is_destroying t"
  let ?t = "t\<lparr>tx_retransmit_time := next_retransmit_time t\<rparr>"
  have k: "stun_tsx_inv (?t\<lparr>tx_retransmit_timer := tm\<rparr>)" for tm using i d by (simp add: stun_tsx_inv_def)
  show ?thesis
  proof (cases "sti_id (tx_retransmit_timer t) = 0 \<and> tx_require_retransmit t \<and> m")
    case True
    obtain ti st where ti: "stun_schedule_timer (te_schedule env ?t) (tx_retransmit_timer ?t) (tx_retransmit_time ?t) = (ti, st)" by fastforce
    then have "fst (tsx_transmit_msg env t m) =
        (if st \<noteq> PJ_SUCCESS then ?t\<lparr>tx_retransmit_timer := ti\<lparr>sti_id := 0\<rparr>\<rparr> else fst (send_packet env (?t\<lparr>tx_retransmit_timer := ti\<rparr>) m))"
      using True by (simp add: tsx_transmit_msg_def Let_def)
    then show ?thesis using k send_packet_inv[OF k] by simp
  next
    case False
    then show ?thesis using i send_packet_inv[OF i] by (auto simp: tsx_transmit_msg_def)
  qed
qed

lemma step_inv: "stun_tsx_step t t' \<Longrightarrow> stun_tsx_inv t \<Longrightarrow> stun_tsx_inv t'"
proof (induction rule: stun_tsx_step.induct)
  case (step_schedule_destroy tsx env delay)
  then show ?case using schedule_destroy_frame[of tsx env delay] by (simp add: same_frame_def)
next
  case (step_stop tsx)
  then show ?case using do_call_frame[of tsx undefined Call_Stop] by (simp add: same_frame_def)
next
  case (step_set_data tsx d)
  then show ?case using do_call_frame[of tsx undefined "Call_Set_Data d"] by (simp add: same_frame_def)
next
  case (step_send tsx env retransmit pkt)
  show ?case
  proof (cases "pkt = [] \<or> sti_id (tx_retransmit_timer tsx) \<noteq> 0 \<or> tx_is_destroying tsx")
    case True
    then show ?thesis using step_send by (auto simp: pj_stun_client_tsx_send_msg_def)
  next
    case False
    have k: "stun_tsx_inv (tsx\<lparr>tx_last_pkt := pkt, tx_require_retransmit := r, tx_transmit_count := n, tx_retransmit_time := tm, tx_retransmit_timer := ti\<rparr>)"
      "stun_tsx_inv (tsx\<lparr>tx_last_pkt := pkt, tx_require_retransmit := r\<rparr>)" for r n tm ti
      using step_send(2) False by (simp_all add: stun_tsx_inv_def)
    let ?after = "\<lambda>t. let (t', status) = tsx_transmit_msg env t True in if status \<noteq> PJ_SUCCESS then (cancel_retransmit t', status) else (t', PJ_SUCCESS)"
    have af: "stun_tsx_inv (fst (?after t))" if "stun_tsx_inv t" "\<not> tx_is_destroying t" for t
    proof -
      obtain t' st where t': "tsx_transmit_msg env t True = (t', st)" by fastforce
      then have "stun_tsx_inv t'" using transmit_inv[OF that, of env True] by simp
      then show ?thesis using t' cancel_inv by simp
    qed
    show ?thesis
    proof (cases retransmit)
      case True
      have "pj_stun_client_tsx_send_msg env tsx retransmit pkt = ?after (tsx\<lparr>tx_last_pkt := pkt, tx_require_retransmit := True\<rparr>)"
        using False True by (simp add: pj_stun_client_tsx_send_msg_def Let_def)
      then show ?thesis using af[OF k(2)[of True]] False by simp
    next
      case nr: False
      let ?t = "tsx\<lparr>tx_last_pkt := pkt, tx_require_retransmit := False, tx_transmit_count := PJ_STUN_MAX_TRANSMIT_COUNT,
        tx_retransmit_time := tv_of_unsigned (tx_rto_msec tsx * 16 mod 2 ^ 32)\<rparr>"
      obtain ti st where ti: "stun_schedule_timer (te_schedule env ?t) (tx_retransmit_timer ?t) (tx_retransmit_time ?t) = (ti, st)" by fastforce
      show ?thesis
      proof (cases "st = PJ_SUCCESS")
        case True
        then have "pj_stun_client_tsx_send_msg env tsx retransmit pkt = ?after (?t\<lparr>tx_retransmit_timer := ti\<rparr>)"
          using False nr ti unfolding pj_stun_client_tsx_send_msg_def by (simp add: Let_def)
        moreover have "stun_tsx_inv (?t\<lparr>tx_retransmit_timer := ti\<rparr>)" by (rule k(1))
        ultimately show ?thesis using af[of "?t\<lparr>tx_retransmit_timer := ti\<rparr>"] False by simp
      next
        case fail: False
        then have "fst (pj_stun_client_tsx_send_msg env tsx retransmit pkt) = ?t\<lparr>tx_retransmit_timer := ti\<lparr>sti_id := 0\<rparr>\<rparr>"
          using False nr ti unfolding pj_stun_client_tsx_send_msg_def by (simp add: Let_def)
        then show ?thesis using k(1) by simp
      qed
    qed
  qed
next
  case (step_retransmit tsx env mod_count)
  moreover have "stun_tsx_inv (cancel_retransmit tsx)" using step_retransmit by (intro cancel_inv)
  moreover have "tx_is_destroying (cancel_retransmit tsx) = tx_is_destroying tsx" by (simp add: cancel_retransmit_def)
  ultimately show ?case using transmit_inv by (auto simp: pj_stun_client_tsx_retransmit_def)
next
  case (step_fire_retransmit tsx env)
  let ?t = "tsx\<lparr>tx_retransmit_timer := (tx_retransmit_timer tsx)\<lparr>sti_pending := None, sti_id := 0\<rparr>\<rparr>"
  have d: "\<not> tx_is_destroying tsx" using step_fire_retransmit by (auto simp: stun_tsx_inv_def)
  have i: "stun_tsx_inv ?t" "\<not> tx_is_destroying ?t" using step_fire_retransmit d by (simp_all add: stun_tsx_inv_def)
  then have j: "stun_tsx_inv (fst (tsx_transmit_msg env ?t True))" by (rule transmit_inv)
  have z: "stun_tsx_inv t \<Longrightarrow> stun_tsx_inv (t\<lparr>tx_retransmit_timer := (tx_retransmit_timer t)\<lparr>sti_id := 0\<rparr>\<rparr>)" for t by (simp add: stun_tsx_inv_def)
  obtain t' st where t': "tsx_transmit_msg env ?t True = (t', st)" by fastforce
  then have "stun_tsx_inv t'" using j by simp
  then show ?case using d i(1) t' complete_inv[OF z[of t'], of env st] complete_inv[OF i(1)]
    by (simp add: fire_retransmit_def retransmit_timer_callback_def Let_def)
next
  case (step_fire_destroy tsx)
  then show ?case by (auto simp: fire_destroy_def stun_destroy_timer_callback_def stun_tsx_inv_def)
next
  case (step_rx tsx env msg tsx' st)
  then show ?case using cancel_inv[of tsx] complete_inv
    by (auto simp: pj_stun_client_tsx_on_rx_msg_def Let_def split: if_splits option.splits)
qed

lemma stun_reach_inv: "stun_tsx_reach t \<Longrightarrow> stun_tsx_inv t"
proof -
  assume "stun_tsx_reach t"
  then obtain rto c d t0 where t0: "pj_stun_client_tsx_create rto True c d = Inr t0" "stun_tsx_step\<^sup>*\<^sup>* t0 t" by (auto simp: stun_tsx_reach_def)
  have "stun_tsx_inv t0" using t0(1) by (auto simp: pj_stun_client_tsx_create_def stun_tsx_inv_def)
  from t0(2) this show ?thesis by (induction rule: rtranclp_induct) (auto intro: step_inv)
qed

section \<open>Without a response\<close>

text \<open>An environment in which the heap has room, sending works, and the callback for sending does nothing else.\<close>

definition quiet :: "stun_tsx_env \<Rightarrow> bool" where
  "quiet env \<longleftrightarrow> (\<forall>t. te_schedule env t = PJ_SUCCESS) \<and> (\<forall>t. te_on_send_msg env t = ([], PJ_SUCCESS))"

definition wait_msec :: "nat \<Rightarrow> nat \<Rightarrow> nat" where
  "wait_msec rto n = (if n < 6 then 2 ^ n * rto else PJ_STUN_TIMEOUT_VALUE)"

definition awaiting :: "nat \<Rightarrow> u8 list \<Rightarrow> nat \<Rightarrow> pj_stun_client_tsx \<Rightarrow> bool" where
  "awaiting rto pkt n t \<longleftrightarrow> tx_log t = replicate (Suc n) (Ev_Send pkt) \<and> tx_transmit_count t = Suc n \<and> tx_last_pkt t = pkt \<and>
     tx_require_retransmit t \<and> \<not> tx_complete t \<and> tx_on_complete t \<and> \<not> tx_is_destroying t \<and>
     sti_pending (tx_retransmit_timer t) = Some (tx_retransmit_time t) \<and> PJ_TIME_VAL_MSEC (tx_retransmit_time t) = int (wait_msec rto n)"

lemma tv_of_unsigned_msec: "PJ_TIME_VAL_MSEC (tv_of_unsigned n) = int n"
  by (simp add: tv_of_unsigned_def PJ_TIME_VAL_MSEC_def zdiv_int zmod_int)

lemma send_packet_quiet:
  "quiet env \<Longrightarrow> send_packet env t True =
    (t\<lparr>tx_transmit_count := tx_transmit_count t + 1, tx_log := tx_log t @ [Ev_Send (tx_last_pkt t)]\<rparr>, PJ_SUCCESS)"
  by (simp add: send_packet_def call_on_send_msg_def quiet_def Let_def)

lemma transmit_quiet:
  assumes "quiet env" "tx_require_retransmit t" "sti_id (tx_retransmit_timer t) = 0" "sti_pending (tx_retransmit_timer t) = None"
  shows "tsx_transmit_msg env t True =
    (t\<lparr>tx_retransmit_time := next_retransmit_time t, tx_retransmit_timer := \<lparr>sti_id = 1, sti_pending = Some (next_retransmit_time t)\<rparr>,
       tx_transmit_count := tx_transmit_count t + 1, tx_log := tx_log t @ [Ev_Send (tx_last_pkt t)]\<rparr>, PJ_SUCCESS)"
  using assms by (simp add: tsx_transmit_msg_def send_packet_quiet stun_schedule_timer_def Let_def) (simp add: quiet_def)

lemma next_time_awaiting:
  assumes "awaiting rto pkt n t" "n < 6" "32 * rto < 2 ^ 32"
  shows "PJ_TIME_VAL_MSEC (next_retransmit_time t) = int (wait_msec rto (Suc n))"
proof (cases "n < 5")
  case True
  have p: "(2 :: nat) ^ Suc n \<le> 2 ^ 5" using True by (intro power_increasing) auto
  have "2 ^ Suc n * rto \<le> 2 ^ 5 * rto" by (rule mult_le_mono1[OF p])
  moreover have "2 ^ 5 * rto < 2 ^ 32" using assms(3) by simp
  ultimately have "2 ^ Suc n * rto < 2 ^ 32" by (rule le_less_trans)
  then have b: "2 ^ n * rto * 2 < 2 ^ 32" by (simp only: power_Suc mult.commute mult.left_commute)
  define k where "k = 2 ^ n * rto"
  have "int k < 2 ^ 32" using b unfolding k_def[symmetric] by simp
  then have "u32_of_int (int k) = k" by simp
  moreover have "k * 2 mod 2 ^ 32 = k * 2" using b unfolding k_def[symmetric] by (rule mod_less)
  ultimately have "u32_of_int (int (2 ^ n * rto)) * 2 mod 2 ^ 32 = 2 ^ Suc n * rto"
    unfolding k_def[symmetric] by (simp add: k_def)
  then show ?thesis using assms(1) True
    by (simp add: next_retransmit_time_def awaiting_def PJ_STUN_MAX_TRANSMIT_COUNT_def tv_of_unsigned_msec wait_msec_def)
next
  case False
  then show ?thesis using assms(1,2) by (simp add: next_retransmit_time_def awaiting_def PJ_STUN_MAX_TRANSMIT_COUNT_def tv_of_unsigned_msec wait_msec_def)
qed

lemma fire_awaiting:
  assumes "quiet env" "awaiting rto pkt n t" "n < 6" "32 * rto < 2 ^ 32"
  shows "awaiting rto pkt (Suc n) (fire_retransmit env t)"
proof -
  let ?t = "t\<lparr>tx_retransmit_timer := (tx_retransmit_timer t)\<lparr>sti_pending := None, sti_id := 0\<rparr>\<rparr>"
  have n: "next_retransmit_time ?t = next_retransmit_time t" by (simp add: next_retransmit_time_def)
  have r: "replicate n x @ [x, y] = x # replicate n x @ [y]" for x y :: stun_tsx_event by (simp add: replicate_append_same)
  have l: "tx_log t @ [Ev_Send pkt] = replicate (Suc (Suc n)) (Ev_Send pkt)"
    using assms(2) by (simp add: awaiting_def replicate_append_same)
  have "tsx_transmit_msg env ?t True = (?t\<lparr>tx_retransmit_time := next_retransmit_time t, tx_retransmit_timer := \<lparr>sti_id = 1, sti_pending = Some (next_retransmit_time t)\<rparr>,
       tx_transmit_count := tx_transmit_count t + 1, tx_log := tx_log t @ [Ev_Send (tx_last_pkt t)]\<rparr>, PJ_SUCCESS)"
    using transmit_quiet[OF assms(1), of ?t] assms(2) by (simp add: awaiting_def n)
  then show ?thesis using assms(2,3) next_time_awaiting[OF assms(2-4)] l
    by (simp add: fire_retransmit_def retransmit_timer_callback_def awaiting_def PJ_STUN_MAX_TRANSMIT_COUNT_def)
qed

lemma send_awaiting:
  assumes "quiet env" "pj_stun_client_tsx_create rto True True d = Inr t" "pkt \<noteq> []"
  shows "awaiting rto pkt 0 (fst (pj_stun_client_tsx_send_msg env t True pkt))" "snd (pj_stun_client_tsx_send_msg env t True pkt) = PJ_SUCCESS"
  using assms transmit_quiet[OF assms(1), of "t\<lparr>tx_last_pkt := pkt, tx_require_retransmit := True\<rparr>"]
  by (auto simp: pj_stun_client_tsx_send_msg_def pj_stun_client_tsx_create_def awaiting_def next_retransmit_time_def PJ_TIME_VAL_MSEC_def wait_msec_def)

lemma fires_awaiting:
  assumes "quiet env" "pj_stun_client_tsx_create rto True True d = Inr t" "pkt \<noteq> []" "32 * rto < 2 ^ 32" "n \<le> 6"
  shows "awaiting rto pkt n ((fire_retransmit env ^^ n) (fst (pj_stun_client_tsx_send_msg env t True pkt)))"
  using assms(5)
proof (induction n)
  case (Suc n)
  then show ?case using fire_awaiting[OF assms(1), of rto pkt n] assms(4) by simp
qed (simp add: send_awaiting[OF assms(1-3)])

lemma completes_log: "\<not> tx_complete t \<Longrightarrow> tx_on_complete t \<Longrightarrow> tx_log (complete_tsx env t st) = tx_log t @ [Ev_Complete st] \<and> tx_complete (complete_tsx env t st)"
  using do_calls_frame[of "t\<lparr>tx_complete := True, tx_log := tx_log t @ [Ev_Complete st]\<rparr>" env
      "te_on_complete env (t\<lparr>tx_complete := True, tx_log := tx_log t @ [Ev_Complete st]\<rparr>) st"]
  by (simp add: complete_tsx_def Let_def same_frame_def)

text \<open>
  C28 (liveness): a request sent over an unreliable transport to which no response comes is transmitted exactly seven times, after the first time when
  the waits of RTO, 2 RTO, up to 32 RTO are over; 1600 milliseconds after the last transmission the owner is told that the request timed out.
\<close>

theorem stun_tsx_times_out:
  assumes "quiet env" "pj_stun_client_tsx_create rto True True d = Inr t0" "pkt \<noteq> []" "32 * rto < 2 ^ 32"
    and "t = (\<lambda>n. (fire_retransmit env ^^ n) (fst (pj_stun_client_tsx_send_msg env t0 True pkt)))"
  shows "snd (pj_stun_client_tsx_send_msg env t0 True pkt) = PJ_SUCCESS \<and>
    (\<forall>n<7. tx_log (t n) = replicate (Suc n) (Ev_Send pkt) \<and> \<not> tx_complete (t n) \<and>
       (\<exists>w. sti_pending (tx_retransmit_timer (t n)) = Some w \<and> PJ_TIME_VAL_MSEC w = int (if n < 6 then 2 ^ n * rto else 1600))) \<and>
    tx_log (t 7) = replicate 7 (Ev_Send pkt) @ [Ev_Complete PJNATH_ESTUNTIMEDOUT] \<and> tx_complete (t 7)"
proof -
  have a: "awaiting rto pkt n (t n)" if "n < 7" for n using fires_awaiting[OF assms(1-4), of n] that by (simp add: assms(5))
  have w: "wait_msec rto n = (if n < 6 then 2 ^ n * rto else 1600)" for n by (simp add: wait_msec_def PJ_STUN_TIMEOUT_VALUE_def)
  have six: "awaiting rto pkt 6 (t 6)" by (rule a) simp
  have "t 7 = fire_retransmit env (t 6)" by (simp add: assms(5) numeral_eq_Suc)
  also have "\<dots> = complete_tsx env ((t 6)\<lparr>tx_retransmit_timer := (tx_retransmit_timer (t 6))\<lparr>sti_pending := None, sti_id := 0\<rparr>\<rparr>) PJNATH_ESTUNTIMEDOUT"
    using six by (simp add: fire_retransmit_def retransmit_timer_callback_def awaiting_def PJ_STUN_MAX_TRANSMIT_COUNT_def)
  finally have "tx_log (t 7) = tx_log (t 6) @ [Ev_Complete PJNATH_ESTUNTIMEDOUT] \<and> tx_complete (t 7)"
    using six completes_log by (simp add: awaiting_def)
  moreover have "tx_log (t 6) = replicate 7 (Ev_Send pkt)" using six by (simp add: awaiting_def numeral_eq_Suc)
  ultimately show ?thesis using a send_awaiting(2)[OF assms(1-3)] w by (auto simp: awaiting_def)
qed

theorem stun_tsx_times_out_witness:
  "\<exists>env t0. tx_log ((fire_retransmit env ^^ 7) (fst (pj_stun_client_tsx_send_msg env t0 True [1]))) =
     replicate 7 (Ev_Send [1]) @ [Ev_Complete PJNATH_ESTUNTIMEDOUT]"
proof -
  let ?env = "\<lparr>te_schedule = \<lambda>_. PJ_SUCCESS, te_on_send_msg = \<lambda>_. ([], PJ_SUCCESS), te_on_complete = \<lambda>_ _. [Call_Stop]\<rparr>"
  obtain t0 where "pj_stun_client_tsx_create 100 True True True = Inr t0" by (simp add: pj_stun_client_tsx_create_def)
  then show ?thesis using stun_tsx_times_out[of ?env 100 True t0 "[1]", OF _ _ _ _ refl] by (auto simp: quiet_def)
qed

section \<open>Destruction, and responses that are no answers\<close>

definition silent :: "stun_tsx_event list \<Rightarrow> pj_stun_client_tsx \<Rightarrow> bool" where
  "silent L t \<longleftrightarrow> tx_is_destroying t \<and> \<not> tx_on_complete t \<and> sti_pending (tx_retransmit_timer t) = None \<and>
     (tx_log t = L \<or> tx_log t = L @ [Ev_Destroy])"

lemma silent_cancel: "silent L t \<Longrightarrow> silent L (cancel_retransmit t)" "silent L t \<Longrightarrow> silent L (cancel_destroy t)"
  by (auto simp: silent_def cancel_retransmit_def cancel_destroy_def tsx_cancel_if_active_def)

lemma silent_complete: "silent L t \<Longrightarrow> silent L (complete_tsx env t st)"
  by (auto simp: silent_def complete_tsx_def Let_def)

lemma step_silent: "stun_tsx_step t t' \<Longrightarrow> silent L t \<Longrightarrow> silent L t'"
proof (induction rule: stun_tsx_step.induct)
  case (step_schedule_destroy tsx env delay)
  then show ?case by (auto simp: silent_def pj_stun_client_tsx_schedule_destroy_def)
next
  case (step_stop tsx)
  then show ?case by (auto simp: pj_stun_client_tsx_stop_def intro: silent_cancel)
next
  case (step_send tsx env retransmit pkt)
  then show ?case by (auto simp: silent_def pj_stun_client_tsx_send_msg_def)
next
  case (step_rx tsx env msg tsx' st)
  then show ?case using silent_cancel(1)[of L tsx] silent_complete
    by (auto simp: pj_stun_client_tsx_on_rx_msg_def Let_def split: if_splits option.splits)
qed (auto simp: silent_def pj_stun_client_tsx_set_data_def pj_stun_client_tsx_retransmit_def fire_destroy_def stun_destroy_timer_callback_def)

lemma destroying_silent:
  assumes "\<not> tx_is_destroying t" "pj_stun_client_tsx_schedule_destroy env t delay = (t1, PJ_SUCCESS)" "stun_tsx_step\<^sup>*\<^sup>* t1 t2"
  shows "tx_log t2 = tx_log t \<or> tx_log t2 = tx_log t @ [Ev_Destroy]"
proof -
  have "silent (tx_log t) t1"
    using assms(1,2) by (auto simp: silent_def pj_stun_client_tsx_schedule_destroy_def cancel_retransmit_def cancel_destroy_def tsx_cancel_if_active_def
        Let_def split: if_splits prod.splits)
  with assms(3) have "silent (tx_log t) t2" by (induction rule: rtranclp_induct) (auto intro: step_silent)
  then show ?thesis by (simp add: silent_def)
qed

definition fresh_tsx :: pj_stun_client_tsx where
  "fresh_tsx = \<lparr>tx_on_complete = True, tx_on_destroy = True, tx_user_data = 0, tx_complete = False,
     tx_require_retransmit = False, tx_rto_msec = 100, tx_retransmit_timer = \<lparr>sti_id = 0, sti_pending = None\<rparr>,
     tx_transmit_count = 0, tx_retransmit_time = TimeVal 0 0, tx_destroy_timer = \<lparr>sti_id = 0, sti_pending = None\<rparr>,
     tx_is_destroying = False, tx_last_pkt = [], tx_log = []\<rparr>"

definition quiet_env :: stun_tsx_env where
  "quiet_env = \<lparr>te_schedule = \<lambda>_. PJ_SUCCESS, te_on_send_msg = \<lambda>_. ([], PJ_SUCCESS), te_on_complete = \<lambda>_ _. []\<rparr>"

text \<open>
  C27 (invariant): whatever happens to a transaction, in any order and with any callbacks, it completes at most once, a transaction that is not marked
  complete has not told its owner so, and one that is being destroyed does not retransmit. Once \<open>pj_stun_client_tsx_schedule_destroy\<close> has succeeded,
  the transaction neither sends nor completes any more, whatever timers fire, messages arrive or operations are called; all that can still happen is the call
  of \<open>on_destroy\<close>, once. (Not so when the owner frees it in the callback for sending, or when the destruction cannot be scheduled: see below.)
\<close>

theorem stun_tsx_completes_once:
  assumes "stun_tsx_reach tsx"
  shows "completions (tx_log tsx) \<le> 1 \<and> (\<not> tx_complete tsx \<longrightarrow> completions (tx_log tsx) = 0) \<and>
    (tx_is_destroying tsx \<longrightarrow> sti_pending (tx_retransmit_timer tsx) = None) \<and>
    (\<forall>env delay t1 t2. \<not> tx_is_destroying tsx \<longrightarrow> pj_stun_client_tsx_schedule_destroy env tsx delay = (t1, PJ_SUCCESS) \<longrightarrow>
       stun_tsx_step\<^sup>*\<^sup>* t1 t2 \<longrightarrow> tx_log t2 = tx_log tsx \<or> tx_log t2 = tx_log tsx @ [Ev_Destroy])"
  using stun_reach_inv[OF assms] destroying_silent[of tsx] by (simp add: stun_tsx_inv_def)

text \<open>
  A request is sent, its destruction is scheduled before the response comes, and the response and the timer come after that.
\<close>

definition response_ok :: pj_stun_msg where
  "response_ok = \<lparr>sm_hdr = \<lparr>sm_type = 0x0101, sm_length = 0, sm_magic = PJ_STUN_MAGIC, sm_tsx_id = replicate 12 0\<rparr>, sm_attr = []\<rparr>"

theorem stun_tsx_completes_once_witness:
  "\<exists>t t1 t2. tx_log t = [Ev_Send [1]] \<and> pj_stun_client_tsx_schedule_destroy quiet_env t (TimeVal 0 0) = (t1, PJ_SUCCESS) \<and>
     pj_stun_client_tsx_on_rx_msg quiet_env t1 response_ok = Some (t2, PJ_SUCCESS) \<and> completions (tx_log t) \<le> 1 \<and>
     (tx_log (fire_destroy t2) = [Ev_Send [1]] \<or> tx_log (fire_destroy t2) = [Ev_Send [1], Ev_Destroy])"
proof -
  have c: "pj_stun_client_tsx_create 100 True True True = Inr fresh_tsx" by (simp add: pj_stun_client_tsx_create_def fresh_tsx_def)
  have q: "quiet quiet_env" by (simp add: quiet_def quiet_env_def)
  let ?t = "fst (pj_stun_client_tsx_send_msg quiet_env fresh_tsx True [1])"
  have a: "awaiting 100 [1] 0 ?t" using send_awaiting(1)[OF q c] by simp
  have od: "tx_on_destroy ?t" by (simp add: fresh_tsx_def pj_stun_client_tsx_send_msg_def quiet_env_def tsx_transmit_msg_def
        send_packet_def call_on_send_msg_def stun_schedule_timer_def next_retransmit_time_def Let_def)
  have "Ev_Destroy \<notin> set (tx_log fresh_tsx)" by (simp add: fresh_tsx_def)
  then have "stun_tsx_step fresh_tsx ?t" by (rule step_send)
  then have "stun_tsx_step\<^sup>*\<^sup>* fresh_tsx ?t" by (rule r_into_rtranclp)
  then have r: "stun_tsx_reach ?t" unfolding stun_tsx_reach_def using c by blast
  have l: "tx_log ?t = [Ev_Send [1]]" "\<not> tx_is_destroying ?t" "sti_pending (tx_destroy_timer ?t) = None"
    using a stun_reach_inv[OF r] by (simp_all add: awaiting_def stun_tsx_inv_def)
  obtain t1 where t1: "pj_stun_client_tsx_schedule_destroy quiet_env ?t (TimeVal 0 0) = (t1, PJ_SUCCESS)"
      "tx_log t1 = [Ev_Send [1]]" "sti_pending (tx_destroy_timer t1) \<noteq> None" "sti_pending (tx_retransmit_timer t1) = None" "\<not> tx_on_complete t1"
    using l od by (auto simp: pj_stun_client_tsx_schedule_destroy_def quiet_env_def stun_schedule_timer_def cancel_retransmit_def
        cancel_destroy_def tsx_cancel_if_active_def Let_def)
  obtain t2 where t2: "pj_stun_client_tsx_on_rx_msg quiet_env t1 response_ok = Some (t2, PJ_SUCCESS)" "tx_log t2 = [Ev_Send [1]]"
      "sti_pending (tx_destroy_timer t2) \<noteq> None"
    using t1 by (auto simp: pj_stun_client_tsx_on_rx_msg_def response_ok_def PJ_STUN_IS_SUCCESS_RESPONSE_def PJ_STUN_IS_ERROR_RESPONSE_def
        rx_err_code_def pj_stun_msg_find_attr_def complete_tsx_def cancel_retransmit_def tsx_cancel_if_active_def Let_def)
  have "stun_tsx_step t1 t2" using step_rx[OF _ t2(1)] t1(2) by simp
  moreover have "stun_tsx_step t2 (fire_destroy t2)" using step_fire_destroy t2(2,3) by simp
  ultimately have "stun_tsx_step\<^sup>*\<^sup>* t1 (fire_destroy t2)" by (meson converse_rtranclp_into_rtranclp r_into_rtranclp)
  then show ?thesis using stun_tsx_completes_once[OF r] l t1(1) t2(1)
    by (intro exI[of _ ?t] exI[of _ t1] exI[of _ t2]) auto
qed

text \<open>
  An error response whose code is at most 200 stops the retransmissions and with them the only time-out: nothing is pending
  any more, and the request is not completed. Codes above 200 complete it, also those up to 299, which are to be discarded.
\<close>

theorem stun_tsx_provisional_strands:
  assumes "awaiting rto pkt n t" "stun_tsx_reach t" "PJ_STUN_IS_ERROR_RESPONSE (sm_type (sm_hdr msg))" "rx_err_code msg = Some (Some code)"
  shows "\<exists>t'. pj_stun_client_tsx_on_rx_msg env t msg = Some (t', PJ_SUCCESS) \<and>
    (if code \<le> 200 then tx_log t' = tx_log t \<and> \<not> tx_complete t' \<and> sti_pending (tx_retransmit_timer t') = None \<and> sti_pending (tx_destroy_timer t') = None
     else tx_log t' = tx_log t @ [Ev_Complete (PJ_STATUS_FROM_STUN_CODE code)] \<and> tx_complete t')"
proof (cases "code \<le> 200")
  case True
  then show ?thesis using assms stun_reach_inv[OF assms(2)]
    by (auto simp: pj_stun_client_tsx_on_rx_msg_def awaiting_def stun_tsx_inv_def cancel_retransmit_def tsx_cancel_if_active_def)
next
  case False
  have "\<not> tx_complete (cancel_retransmit t)" "tx_on_complete (cancel_retransmit t)" "tx_log (cancel_retransmit t) = tx_log t"
    using assms(1) by (simp_all add: awaiting_def cancel_retransmit_def)
  then show ?thesis using False assms(3,4) completes_log[of "cancel_retransmit t" env "PJ_STATUS_FROM_STUN_CODE code"]
    by (simp add: pj_stun_client_tsx_on_rx_msg_def Let_def)
qed

definition response_100 :: pj_stun_msg where
  "response_100 = \<lparr>sm_hdr = \<lparr>sm_type = 0x0111, sm_length = 0, sm_magic = PJ_STUN_MAGIC, sm_tsx_id = replicate 12 0\<rparr>,
     sm_attr = [Stun_Errcode PJ_STUN_ATTR_ERROR_CODE 4 100 []]\<rparr>"

theorem stun_tsx_provisional_strands_witness:
  "\<exists>t t'. awaiting 100 [1] 0 t \<and> pj_stun_client_tsx_on_rx_msg quiet_env t response_100 = Some (t', PJ_SUCCESS) \<and>
     \<not> tx_complete t' \<and> sti_pending (tx_retransmit_timer t') = None \<and> sti_pending (tx_destroy_timer t') = None"
proof -
  have c: "pj_stun_client_tsx_create 100 True True True = Inr fresh_tsx" by (simp add: pj_stun_client_tsx_create_def fresh_tsx_def)
  have q: "quiet quiet_env" by (simp add: quiet_def quiet_env_def)
  let ?t = "fst (pj_stun_client_tsx_send_msg quiet_env fresh_tsx True [1])"
  have a: "awaiting 100 [1] 0 ?t" using send_awaiting(1)[OF q c] by simp
  have "Ev_Destroy \<notin> set (tx_log fresh_tsx)" by (simp add: fresh_tsx_def)
  then have "stun_tsx_step fresh_tsx ?t" by (rule step_send)
  then have s: "stun_tsx_step\<^sup>*\<^sup>* fresh_tsx ?t" by (rule r_into_rtranclp)
  have r: "stun_tsx_reach ?t" unfolding stun_tsx_reach_def using c s by blast
  have e: "PJ_STUN_IS_ERROR_RESPONSE (sm_type (sm_hdr response_100))" "rx_err_code response_100 = Some (Some 100)"
    by (simp_all add: response_100_def PJ_STUN_IS_ERROR_RESPONSE_def rx_err_code_def pj_stun_msg_find_attr_def PJ_STUN_ATTR_ERROR_CODE_def)
  show ?thesis using stun_tsx_provisional_strands[OF a r e, of quiet_env] a by auto
qed

text \<open>
  When the timer heap has no room for the timer of the destruction, the transaction counts as being destroyed all the same, and the next attempt
  does nothing, successfully: it is never destroyed.
\<close>

lemma failed_destroy_is_forgotten:
  assumes "tx_on_destroy t" "\<not> tx_is_destroying t" "te_schedule env (cancel_retransmit (cancel_destroy (t\<lparr>tx_is_destroying := True\<rparr>))) = PJ_ENOMEM"
  shows "\<exists>t1. pj_stun_client_tsx_schedule_destroy env t delay = (t1, PJ_ENOMEM) \<and> sti_pending (tx_destroy_timer t1) = None \<and>
    pj_stun_client_tsx_schedule_destroy env' t1 delay' = (t1, PJ_SUCCESS)"
  using assms by (auto simp: pj_stun_client_tsx_schedule_destroy_def cancel_retransmit_def cancel_destroy_def tsx_cancel_if_active_def stun_schedule_timer_def Let_def)

text \<open>
  When the callback for sending reports that it destroyed the transaction, the timer callback still uses the transaction, and calls
  \<open>on_complete\<close>.
\<close>

lemma completes_after_destruction:
  assumes "awaiting rto pkt n t" "n < 6" "\<forall>s. te_schedule env s = PJ_SUCCESS" "\<forall>s. te_on_send_msg env s = ([], PJNATH_ESTUNDESTROYED)"
  shows "tx_log (fire_retransmit env t) = tx_log t @ [Ev_Send pkt, Ev_Destroy, Ev_Complete PJNATH_ESTUNDESTROYED]"
proof -
  let ?t = "t\<lparr>tx_retransmit_timer := (tx_retransmit_timer t)\<lparr>sti_pending := None, sti_id := 0\<rparr>\<rparr>"
  obtain t' where t': "tsx_transmit_msg env ?t True = (t', PJNATH_ESTUNDESTROYED)" "tx_log t' = tx_log t @ [Ev_Send pkt, Ev_Destroy]"
      "\<not> tx_complete t'" "tx_on_complete t'"
    using assms by (auto simp: tsx_transmit_msg_def awaiting_def send_packet_def call_on_send_msg_def stun_schedule_timer_def Let_def)
  then show ?thesis using assms(1,2) completes_log[of "t'\<lparr>tx_retransmit_timer := (tx_retransmit_timer t')\<lparr>sti_id := 0\<rparr>\<rparr>" env PJNATH_ESTUNDESTROYED]
    by (simp add: fire_retransmit_def retransmit_timer_callback_def awaiting_def PJ_STUN_MAX_TRANSMIT_COUNT_def Let_def)
qed

end
