(* ===== verification/Spec2Isabelle.thy ===== *)
theory Spec2Isabelle
  imports Rtp Jbuf Pj_Timer Sip_Tsx_Inv Tsx_On_Heap Tsx_Layer Sdp_Parse Sdp_Answered Stun_Decode Stun_Auth Stun_Tsx
begin

text \<open>
  \<^bold>\<open>Verification of the PJSIP stack shipped in the PJSua Swift framework.\<close>

  The repository wraps the PJSIP libraries (C, under \<open>src/PjsipLibrary\<close>) for Swift: \<open>pjlib\<close> (operating
  system abstraction, containers, timers), \<open>pjlib-util\<close>, \<open>pjnath\<close> (STUN, TURN, ICE), \<open>pjmedia\<close> (RTP,
  jitter buffer, SDP, streams, codecs), \<open>pjsip\<close> (parser, transports, transactions, dialogs, invite
  sessions) and \<open>pjsua-lib\<close> on top. A call runs a SIP transaction for every request; the transaction
  drives its retransmissions and time-outs with entries of the timer heap. The media of the call
  arrives as RTP packets, whose sequence numbers are tracked by the RTP session and which the jitter
  buffer puts back into order for the audio clock. Which media flow, in which formats and directions, the
  two sides agree on by exchanging session descriptions, which the offer/answer negotiator processes. Behind
  a NAT the addresses in them are found with STUN: requests that a client transaction repeats on the timer heap,
  messages that are signed with a key and closed with a checksum.

  \<^bold>\<open>Theories.\<close>

  \<^item> \<open>Pj_Prelude\<close>: status codes, C division and remainder, lists and words used by the components.

  \<^item> \<open>Rtp\<close> (\<open>pjmedia/src/pjmedia/rtp.c\<close>): sessions, header encoding and packet decoding over byte lists,
  sequence control over 16-bit words. Encode and decode are inverse, decoding stays inside the
  packet, and the receiver state tracks the extended sequence number (C1 to C3), restarts after two packets;
  outgoing packets are numbered consecutively; the check of the source is lost.

  \<^item> \<open>Pj_Timer\<close> (\<open>pjlib/src/pj/timer.c\<close>, time values of \<open>types.h\<close>): the binary heap with its slot table
  and free list, schedule, cancel, poll. The heaps reached while no allocation fails are well formed,
  every operation has exactly its effect on the pending items (a failed allocation included, after which the
  heap is not), polling calls the callbacks of the due timers in order; the heap implements the interface
  \<open>timed_queue\<close> (C8 to C13).

  \<^item> \<open>Jbuf\<close> (\<open>pjmedia/src/pjmedia/jbuf.c\<close>): the circular frame list, prefetching, the level
  calculation, both discard algorithms and the public operations. The reachable buffers are well
  formed and every operation returns; frames come out in order; a full buffer gives up exactly its oldest
  frames; the buffer implements the interface \<open>seq_window\<close> (C15, C17, C18).

  \<^item> \<open>Sip_Tsx\<close> (\<open>pjsip/src/pjsip/sip_transaction.c\<close>): the transaction record, the timers, sending over a
  transport or through the endpoint with its callbacks, the handler of every state for client and
  server transactions, creation and the operations called from outside.

  \<^item> \<open>Sip_Tsx_Inv\<close>: the reachable transactions, the invariant of all operations, and its consequences:
  no null handler is called, the states follow the machine of RFC 3261, a final state has
  its timer and is removed by it, the nested sends are modelled completely, the run of the timers of an
  unanswered request; what client and server do with responses and repeated requests; two ways to strand a
  transaction (C20 to C23, C25, C26).

  \<^item> \<open>Tsx_On_Heap\<close>: the interface \<open>entry_timer\<close> that a transaction needs from the timer heap, its
  interpretation on \<open>Pj_Timer\<close>, and the simulation of the timer heap by the transaction's view of
  its two entries, expiry times included (C30).

  \<^item> \<open>Pj_Hash\<close> (\<open>pjlib/src/pj/hash.c\<close>): hash values, the chained table, the iterator. The table
  implements the interface \<open>key_map\<close>, a map up to equivalent keys (C31).

  \<^item> \<open>Pj_String\<close> (\<open>pjlib/src/pj/string.c\<close>): integers as text. The parsers are exact or report the
  overflow (C32), and read back what the printer writes.

  \<^item> \<open>Tsx_Key\<close> (\<open>sip_transaction.c\<close>, method names of \<open>sip_msg.c\<close>): the two kinds of transaction keys, what
  they identify, and that they fit into their buffers (C34).

  \<^item> \<open>Tsx_Layer\<close> (\<open>sip_transaction.c\<close>): the transaction layer over two hash tables: registration, lookup,
  creation, dispatch of received messages, merged requests, shut-down. The registry lemmas are
  proved in \<open>key_map\<close> and used through its interpretation. The tables hold exactly the transactions
  that are not destroyed, and a request reaches its transaction, as long as there is no late transport
  report, which can remove the wrong transaction (C35 to C37).

  \<^item> \<open>Pj_Scan\<close> (\<open>pjlib-util/src/pjlib-util/scanner.c\<close>): the text scanner as functions on the rest of
  the input, with the lemmas that parsers need: what an operation reads, and that it gets shorter.

  \<^item> \<open>Sdp\<close> (\<open>pjmedia/src/pjmedia/sdp.c\<close>, \<open>sdp_cmp.c\<close>): session descriptions as records, the operations
  on attributes, cloning, validation, comparison.

  \<^item> \<open>Sdp_Parse\<close> (\<open>sdp.c\<close>): the printer, which counts the room left in its buffer, and the parser. A description
  is read back as it was printed, but for a direction of the session, which goes to the media (C38); what the
  parser loses.

  \<^item> \<open>Sdp_Neg\<close> (\<open>pjmedia/src/pjmedia/sdp_neg.c\<close>, codec names of \<open>codec.c\<close>): the negotiator, from the matching of
  formats with custom callbacks to the operations on its record. What a direction means is said in \<open>Sdp_Answer\<close>
  by who sends and who receives, apart from the table of the code.

  \<^item> \<open>Sdp_Neg_Inv\<close>: the histories of a negotiator. It follows the state diagram of its header; a cancelled
  offer spoils the version numbers (C24).

  \<^item> \<open>Sdp_Answer\<close>, \<open>Sdp_Answered\<close>: an answer fits its offer whatever callbacks do (C7); processing an
  answer keeps the formats that both sides have (C5); two ways to go wrong.

  \<^item> \<open>Crc32\<close> (\<open>pjlib-util/src/pjlib-util/crc32.c\<close>): the checksum with its table, which takes a word at a time, and
  the one that shifts bits. They compute the same (C40).

  \<^item> \<open>Block_Hash\<close>: what the digests share: whole blocks of a message, words in memory, the counters of bits, and the
  interface \<open>incremental_digest\<close>, in which feeding a message in pieces is feeding the whole.

  \<^item> \<open>Sha1\<close> (\<open>sha1.c\<close>, \<open>hmac_sha1.c\<close>), \<open>Md5\<close> (\<open>md5.c\<close>): the contexts and the unrolled rounds. Both implement
  the interface; they compute the functions of their standards (C33).

  \<^item> \<open>Stun_Msg\<close> (\<open>pjnath/src/pjnath/stun_msg.c\<close>): STUN messages: the tables of attributes; for every
  kind of attribute creating, decoding, encoding, cloning; the check of a packet, decoding, encoding.

  \<^item> \<open>Stun_Codec\<close>: what the encoder writes is the packet of the standard (C16), and the decoder reads it
  back (C4). \<open>Stun_Decode\<close>: decoding stays inside the packet, but for one case (C6).

  \<^item> \<open>Stun_Auth\<close> (\<open>stun_auth.c\<close>): keys, challenges, the check of requests and responses. What is signed is
  accepted, end to end over encoder and decoder (C19, C39), what is accepted was signed (C14, stated with RFC 2104 and
  the bytes of the packet), but more may follow the signature (C29).

  \<^item> \<open>Stun_Tsx\<close> (\<open>stun_transaction.c\<close>): the client transaction with its two timers and callbacks that may call back. It
  completes once and is silent after its destruction was scheduled (C27), gives up after seven transmissions (C28); three
  ways to lose it.

  \<^bold>\<open>Bounds and fuel.\<close> Machine integers are words where they wrap (RTP), integers with the reduction
  written out elsewhere. Loops are structural or carry a termination proof; the poll loop of the
  timer heap runs over a list of clock readings and is proved to end. The mutual recursion of
  \<open>tsx_send_msg\<close> and \<open>send_msg_callback\<close> is cut at depth two, which the lemma \<open>tsx_send_msg_recursion\<close> shows to be
  enough. In the negotiator, \<open>None\<close> is an access outside an array, which the code would make; the fuel of its
  loops is the number of formats still to be looked at. In the STUN theories packets are lists of bytes, and \<open>None\<close>
  is an access outside them; the counters of the digests are 32-bit words, so that pieces of half a gigabyte are excluded.

  \<^bold>\<open>What the histories leave out.\<close> \<open>timer_reach\<close>: failed allocations (C9 says what one does, and
  \<open>second_nomem_reads_past_the_ids\<close> what follows). \<open>tsx_reach\<close>: \<open>pjsip_tsx_terminate_async\<close> at a status below 200 or in
  Terminated (\<open>terminate_async_strands\<close>). \<open>layer_reach\<close>: that too, late transport reports (C37), and the stop of the
  layer. An owner that destroys a STUN transaction inside its callback for sending is in \<open>stun_tsx_reach\<close>, but C27
  says nothing about the completion that may follow then (\<open>completes_after_destruction\<close>).

  \<^bold>\<open>Not modelled.\<close> Locks, threads and pools (every operation is one step), logging, sockets and I/O
  queues, SSL, the parser and printer of SIP messages, dialogs, invite sessions and the user agent
  libraries, STUN sessions, TURN and ICE, codecs, audio and video devices, conference bridges and streams, and
  the Swift and Objective-C wrapper. Of the transactions, the transport selector that
  \<open>pjsip_tsx_set_transport\<close> hands on to the endpoint. Of SDP, the attribute made from a socket address and the
  names of the negotiator's states; the configuration is the one without video. Of STUN, the dump of attributes in the log.

  \<^bold>\<open>Order of work.\<close> The protocol engines came first: RTP, timers, jitter buffer, transactions with
  their layer, offer and answer; then the STUN messages with the digests they need, and their client
  transactions. Next would be the sessions on top: STUN sessions and ICE, dialogs and invite sessions.
\<close>

end
